(* ===== verification/Prelude.thy ===== *)
theory Prelude
  imports Main "HOL-Library.AList"
begin

text \<open>
  Generic material the component theories share: the errors the Python code raises and the
  result type of fallible code, Python dictionaries as insertion-ordered association lists
  (\<open>AList.update\<close> overwrites in place or appends, as a \<open>dict\<close> does), the recursive
  \<open>WITH RECURSIVE ... UNION\<close> query as a terminating closure, and the measure of a walk
  along parent pointers that remembers the identifiers it has seen.
\<close>

named_theorems py_simps \<open>unfolding rules of the small Python-level helpers\<close>

subsection \<open>Errors and results\<close>

datatype py_error =
    TypeError
  | AttributeError
  | KeyError
  | IndexError
  | ValueError string
  | DatabaseError
  | OtherError
  | HTTPException nat string
  | GroupHierarchyError nat string

type_synonym 'a result = "py_error + 'a"

definition bind_result :: "'a result \<Rightarrow> ('a \<Rightarrow> 'b result) \<Rightarrow> 'b result" where
  "bind_result r f = (case r of Inl e \<Rightarrow> Inl e | Inr x \<Rightarrow> f x)"

lemma bind_result_simps [simp]:
  "bind_result (Inl e) f = Inl e"
  "bind_result (Inr x) f = f x"
  by (simp_all add: bind_result_def)

lemma bind_result_Inr: "bind_result r f = Inr y \<longleftrightarrow> (\<exists>x. r = Inr x \<and> f x = Inr y)"
  by (auto simp: bind_result_def split: sum.splits)

lemma bind_result_cong [fundef_cong]:
  "r = r' \<Longrightarrow> (\<And>x. r' = Inr x \<Longrightarrow> f x = g x) \<Longrightarrow> bind_result r f = bind_result r' g"
  by (auto simp: bind_result_def split: sum.splits)

fun map_result :: "('a \<Rightarrow> 'b result) \<Rightarrow> 'a list \<Rightarrow> 'b list result" where
  "map_result f [] = Inr []"
| "map_result f (x # xs) =
     bind_result (f x) (\<lambda>y. bind_result (map_result f xs) (\<lambda>ys. Inr (y # ys)))"

lemma ex_bool [simp]: "\<exists>b. b" "Ex Not"
  by blast+

subsection \<open>Dictionaries\<close>

type_synonym 'v dict = "(string \<times> 'v) list"

definition dict_merge :: "('k \<times> 'v) list \<Rightarrow> ('k \<times> 'v) list \<Rightarrow> ('k \<times> 'v) list" where
  "dict_merge a b = foldl (\<lambda>d (k, v). AList.update k v d) a b"

lemma map_of_update [simp]: "map_of (AList.update k v d) = (map_of d)(k \<mapsto> v)"
  by (rule AList.update_conv')

lemma fst_update: "fst ` set (AList.update k v d) = insert k (fst ` set d)"
  by (induction d) auto

lemma dict_merge_Nil [simp]: "dict_merge a [] = a"
  by (simp add: dict_merge_def)

lemma dict_merge_Cons [simp]: "dict_merge a ((k, v) # b) = dict_merge (AList.update k v a) b"
  by (simp add: dict_merge_def)

lemma distinct_dict_merge: "distinct (map fst a) \<Longrightarrow> distinct (map fst (dict_merge a b))"
  by (induction b arbitrary: a) (auto simp: distinct_update)

lemma map_of_dict_merge:
  "distinct (map fst b) \<Longrightarrow> map_of (dict_merge a b) k = (map_of a ++ map_of b) k"
proof (induction b arbitrary: a)
  case Nil
  then show ?case by simp
next
  case (Cons kv b)
  obtain k' v where [simp]: "kv = (k', v)" by (cases kv)
  from Cons.prems have "map_of b k' = None"
    by (simp add: map_of_eq_None_iff)
  then show ?case
    using Cons by (auto simp: map_add_def split: option.splits)
qed

subsection \<open>Recursive union queries\<close>

text \<open>
  The working-table evaluation of \<open>WITH RECURSIVE chain AS (seeds UNION step)\<close> over the
  finite edge list the step joins with: rows already in the result are dropped, so the
  evaluation ends even when the edges form a cycle.
\<close>

function cte_loop :: "('a \<times> 'a) list \<Rightarrow> 'a list \<Rightarrow> 'a list \<Rightarrow> 'a list" where
  "cte_loop E acc frontier =
     (let new = remdups [y. (x, y) \<leftarrow> E, x \<in> set frontier, y \<notin> set acc]
      in if new = [] then acc else cte_loop E (acc @ new) new)"
  by pat_completeness auto
termination
proof (relation "measure (\<lambda>(E, acc, frontier). card (snd ` set E - set acc))", goal_cases)
  case 1
  show ?case by simp
next
  case (2 E acc frontier new)
  let ?A = "snd ` set E - set acc" and ?B = "snd ` set E - set (acc @ new)"
  from 2 obtain y where "y \<in> set new" by (meson last_in_set)
  moreover from this 2 have "y \<in> ?A" by force
  ultimately have "?B \<subset> ?A" by auto
  then show ?case by (simp add: psubset_card_mono)
qed

declare cte_loop.simps [simp del]

definition recursive_union :: "('a \<times> 'a) list \<Rightarrow> 'a list \<Rightarrow> 'a list" where
  "recursive_union E seeds = cte_loop E (remdups seeds) (remdups seeds)"

lemma cte_loop_closed:
  assumes "set frontier \<subseteq> set acc" and "set E `` (set acc - set frontier) \<subseteq> set acc"
  shows "set E `` set (cte_loop E acc frontier) \<subseteq> set (cte_loop E acc frontier)"
  using assms
proof (induction E acc frontier rule: cte_loop.induct)
  case (1 E acc frontier)
  define new where "new = remdups [y. (x, y) \<leftarrow> E, x \<in> set frontier, y \<notin> set acc]"
  have new: "set new = set E `` set frontier - set acc"
    by (force simp: new_def)
  show ?case
  proof (cases "new = []")
    case True
    with new have "set E `` set frontier \<subseteq> set acc" by auto
    with "1.prems" have "set E `` set acc \<subseteq> set acc" by blast
    with True show ?thesis by (simp add: cte_loop.simps [of E acc] new_def [symmetric])
  next
    case False
    have "set E `` set acc \<subseteq> set E `` set frontier \<union> set E `` (set acc - set frontier)"
      by blast
    then have "set E `` set acc \<subseteq> set acc \<union> set new"
      using "1.prems"(2) new by blast
    then have "set E `` (set (acc @ new) - set new) \<subseteq> set (acc @ new)"
      by auto
    then show ?thesis
      using "1.IH" [OF new_def False] False
      by (simp add: cte_loop.simps [of E acc] new_def [symmetric])
  qed
qed

lemma cte_loop_sound:
  assumes "set frontier \<subseteq> set acc" and "set acc \<subseteq> (set E)\<^sup>* `` S"
  shows "set acc \<subseteq> set (cte_loop E acc frontier) \<and> set (cte_loop E acc frontier) \<subseteq> (set E)\<^sup>* `` S"
  using assms
proof (induction E acc frontier rule: cte_loop.induct)
  case (1 E acc frontier)
  define new where "new = remdups [y. (x, y) \<leftarrow> E, x \<in> set frontier, y \<notin> set acc]"
  have new: "set new = set E `` set frontier - set acc"
    by (force simp: new_def)
  show ?case
  proof (cases "new = []")
    case True
    with "1.prems" show ?thesis by (simp add: cte_loop.simps [of E acc] new_def [symmetric])
  next
    case False
    have "set (acc @ new) \<subseteq> (set E)\<^sup>* `` S"
      using "1.prems" new by (auto simp: Image_iff subset_iff) (meson rtrancl_into_rtrancl)
    then show ?thesis
      using "1.IH" [OF new_def False] False
      by (simp add: cte_loop.simps [of E acc] new_def [symmetric])
  qed
qed

lemma distinct_cte_loop: "distinct acc \<Longrightarrow> distinct (cte_loop E acc frontier)"
proof (induction E acc frontier rule: cte_loop.induct)
  case (1 E acc frontier)
  define new where "new = remdups [y. (x, y) \<leftarrow> E, x \<in> set frontier, y \<notin> set acc]"
  have "distinct (acc @ new)" using "1.prems" by (auto simp: new_def)
  then show ?case
    using "1.IH" [OF new_def] "1.prems"
    by (simp add: cte_loop.simps [of E acc] new_def [symmetric])
qed

lemma set_recursive_union [simp]: "set (recursive_union E seeds) = (set E)\<^sup>* `` set seeds"
proof
  let ?R = "set (recursive_union E seeds)"
  have seeds: "set seeds \<subseteq> ?R" and sound: "?R \<subseteq> (set E)\<^sup>* `` set seeds"
    using cte_loop_sound [of "remdups seeds" "remdups seeds" E "set seeds"]
    by (auto simp: recursive_union_def)
  show "?R \<subseteq> (set E)\<^sup>* `` set seeds" by (rule sound)
  have closed: "set E `` ?R \<subseteq> ?R"
    unfolding recursive_union_def by (rule cte_loop_closed) auto
  have "y \<in> ?R" if "(x, y) \<in> (set E)\<^sup>*" and "x \<in> set seeds" for x y
    using that by (induction rule: rtrancl_induct) (use seeds closed in auto)
  then show "(set E)\<^sup>* `` set seeds \<subseteq> ?R" by auto
qed

lemma distinct_recursive_union [simp]: "distinct (recursive_union E seeds)"
  by (simp add: recursive_union_def distinct_cte_loop)

subsection \<open>Walks along parent pointers\<close>

text \<open>
  A walk keeps the identifiers it has visited and stops at the first one it meets again;
  this is the measure that every such loop of the code decreases.
\<close>

definition walk_measure :: "'a list \<Rightarrow> 'a list \<Rightarrow> 'a \<Rightarrow> nat" where
  "walk_measure ids seen x = card (insert x (set ids) - set seen)"

lemma walk_measure_decreases:
  "x \<notin> set seen \<Longrightarrow> y \<in> set ids \<Longrightarrow> walk_measure ids (x # seen) y < walk_measure ids seen x"
  unfolding walk_measure_def by (rule psubset_card_mono) auto

lemma find_Some_in: "List.find P xs = Some x \<Longrightarrow> x \<in> set xs \<and> P x"
  by (auto simp: find_Some_iff)

lemma find_eq_Some_unique:
  assumes "distinct (map f xs)" and "x \<in> set xs"
  shows "List.find (\<lambda>y. f y = f x) xs = Some x"
  using assms by (induction xs) (auto simp: image_iff)

subsection \<open>Functional refinement of an operation sequence\<close>

text \<open>
  A component refines an abstract state when every concrete operation, from a state that
  satisfies the invariant, keeps the invariant and computes what the abstract operation computes
  on the abstraction. The sequence lemmas then hold for every component.
\<close>

locale refinement =
  fixes inv :: "'s \<Rightarrow> bool"
    and abs :: "'s \<Rightarrow> 'a"
    and step :: "'o \<Rightarrow> 's \<Rightarrow> 's"
    and astep :: "'o \<Rightarrow> 'a \<Rightarrow> 'a"
  assumes step_inv: "inv s \<Longrightarrow> inv (step x s)"
    and step_abs: "inv s \<Longrightarrow> abs (step x s) = astep x (abs s)"
begin

lemma run_inv: "inv s \<Longrightarrow> inv (fold step xs s)"
  by (induction xs arbitrary: s) (auto simp: step_inv)

lemma run_abs: "inv s \<Longrightarrow> abs (fold step xs s) = fold astep xs (abs s)"
  by (induction xs arbitrary: s) (auto simp: step_inv step_abs)

lemma run_last:
  assumes "inv s" and "\<And>a b. astep x a = astep x b"
  shows "abs (fold step (xs @ [x]) s) = astep x (abs s)"
  using assms run_abs [OF assms(1), of "xs @ [x]"] by simp

end

lemma set_update_subset: "set (AList.update k v es) \<subseteq> insert (k, v) (set es)"
  by (induction es) auto

subsection \<open>Loops along a pointer\<close>

text \<open>
  Several access checks follow a pointer (base model, parent folder) from a row to the next,
  remember the identifiers they have seen so that a corrupt cycle cannot spin, and stop at the
  first row that fails. The contract says how such a loop unfolds; the lemma says that it decides
  whether every reachable row passes, cycles included.
\<close>

locale pointer_walk =
  fixes nxt :: "'s \<Rightarrow> 'i \<Rightarrow> 'i option"
    and ok :: "'s \<Rightarrow> 'i \<Rightarrow> bool"
    and loop :: "'s \<Rightarrow> 'i list \<Rightarrow> 'i \<Rightarrow> bool"
  assumes finite_next: "finite (dom (nxt s))"
    and loop_unfold: "loop s seen i \<longleftrightarrow>
      i \<in> set seen \<or> ok s i \<and> (case nxt s i of None \<Rightarrow> True | Some j \<Rightarrow> loop s (i # seen) j)"
begin

definition reach :: "'s \<Rightarrow> 'i \<Rightarrow> 'i set" where
  "reach s i = {j. (i, j) \<in> {(a, b). nxt s a = Some b}\<^sup>*}"

lemma reach_step: "reach s i = insert i (case nxt s i of None \<Rightarrow> {} | Some j \<Rightarrow> reach s j)"
  by (auto simp: reach_def split: option.splits elim: converse_rtranclE intro: converse_rtrancl_into_rtrancl)

lemma reach_closed:
  assumes "i \<in> S" and "\<And>a b. a \<in> S \<Longrightarrow> nxt s a = Some b \<Longrightarrow> b \<in> S"
  shows "reach s i \<subseteq> S"
proof
  fix j assume "j \<in> reach s i"
  then have "(i, j) \<in> {(a, b). nxt s a = Some b}\<^sup>*" by (simp add: reach_def)
  then show "j \<in> S" by (induction) (use assms in auto)
qed

lemma loop_seen:
  "(\<And>a b. a \<in> set seen \<Longrightarrow> nxt s a = Some b \<Longrightarrow> b \<in> insert i (set seen)) \<Longrightarrow>
     loop s seen i \<longleftrightarrow> (\<forall>j \<in> reach s i - set seen. ok s j)"
proof (induction "card (dom (nxt s) - set seen)" arbitrary: seen i rule: less_induct)
  case less
  show ?case
  proof (cases "i \<in> set seen")
    case True
    with less.prems reach_closed [of i "set seen" s] have "reach s i \<subseteq> set seen" by auto
    with True show ?thesis by (subst loop_unfold) auto
  next
    case new: False
    show ?thesis
    proof (cases "nxt s i")
      case None
      with new show ?thesis by (subst loop_unfold, subst reach_step) auto
    next
      case (Some j)
      with new have "card (dom (nxt s) - set (i # seen)) < card (dom (nxt s) - set seen)"
        by (intro psubset_card_mono) (use finite_next in auto)
      moreover have "b \<in> insert j (set (i # seen))" if "a \<in> set (i # seen)" "nxt s a = Some b" for a b
        using that less.prems Some by auto
      ultimately have "loop s (i # seen) j \<longleftrightarrow> (\<forall>k \<in> reach s j - set (i # seen). ok s k)"
        by (rule less.hyps)
      with new Some show ?thesis
        by (subst loop_unfold, subst reach_step) auto
    qed
  qed
qed

lemma loop_reach: "loop s [] i \<longleftrightarrow> (\<forall>j \<in> reach s i. ok s j)"
  using loop_seen [of "[]" s i] by simp

end

end
