(* ===== verification/Json.thy ===== *)
theory Json
  imports Prelude
begin

text \<open>
  The dynamically typed values the code passes around (parsed JSON, pydantic dumps, JSON
  columns): \<open>None\<close>, booleans, integers, strings, lists and insertion-ordered dictionaries,
  with Python's truth value, \<open>dict.get\<close>, \<open>or\<close>, iteration and equality. Floating-point
  numbers are outside the modelled value domain; a character is one code point.
\<close>

datatype json =
    JNull
  | JBool bool
  | JInt int
  | JStr string
  | JList "json list"
  | JObj "(string \<times> json) list"

fun truthy :: "json \<Rightarrow> bool" where
  "truthy JNull = False"
| "truthy (JBool b) = b"
| "truthy (JInt i) = (i \<noteq> 0)"
| "truthy (JStr s) = (s \<noteq> [])"
| "truthy (JList xs) = (xs \<noteq> [])"
| "truthy (JObj d) = (d \<noteq> [])"

text \<open>\<open>a or b\<close> returns one of its operands.\<close>

definition jor :: "json \<Rightarrow> json \<Rightarrow> json" where
  "jor a b = (if truthy a then a else b)"

text \<open>\<open>d.get(k)\<close> and \<open>d.get(k, default)\<close> on a dictionary.\<close>

definition jget :: "json dict \<Rightarrow> string \<Rightarrow> json" where
  "jget d k = (case map_of d k of None \<Rightarrow> JNull | Some v \<Rightarrow> v)"

definition jget_default :: "json dict \<Rightarrow> string \<Rightarrow> json \<Rightarrow> json" where
  "jget_default d k v0 = (case map_of d k of None \<Rightarrow> v0 | Some v \<Rightarrow> v)"

text \<open>\<open>v.get(k)\<close> for a value that must be a dictionary.\<close>

fun attr_get :: "json \<Rightarrow> string \<Rightarrow> json result" where
  "attr_get (JObj d) k = Inr (jget d k)"
| "attr_get _ k = Inl AttributeError"

text \<open>The dictionary of a value whose declared type is \<open>dict | None\<close> (\<open>v or {}\<close>).\<close>

fun dict_of :: "json \<Rightarrow> json dict" where
  "dict_of (JObj d) = d"
| "dict_of _ = []"

fun list_of :: "json \<Rightarrow> json list" where
  "list_of (JList xs) = xs"
| "list_of _ = []"

fun is_dict :: "json \<Rightarrow> bool" where
  "is_dict (JObj _) = True"
| "is_dict _ = False"

fun is_str :: "json \<Rightarrow> bool" where
  "is_str (JStr _) = True"
| "is_str _ = False"

text \<open>A list or a dictionary cannot be a member of a set or a key.\<close>

fun hashable :: "json \<Rightarrow> bool" where
  "hashable (JList _) = False"
| "hashable (JObj _) = False"
| "hashable _ = True"

text \<open>\<open>for x in v\<close>: lists give their elements, strings their characters, dictionaries their keys.\<close>

fun py_iter :: "json \<Rightarrow> json list result" where
  "py_iter (JList xs) = Inr xs"
| "py_iter (JStr s) = Inr (map (\<lambda>c. JStr [c]) s)"
| "py_iter (JObj d) = Inr (map (JStr \<circ> fst) d)"
| "py_iter _ = Inl TypeError"

text \<open>Python's \<open>==\<close>: booleans are the integers 0 and 1, dictionaries compare without order.\<close>

lemma size_json_list: "x \<in> set xs \<Longrightarrow> size x < Suc (size_list size (xs :: json list))"
  by (induction xs) auto

lemma size_json_dict:
  "(k, v) \<in> set d \<Longrightarrow> size v < Suc (size_list (size_prod (\<lambda>_. 0) size) (d :: (string \<times> json) list))"
  by (induction d) auto

lemma size_json_zip: "(x, y) \<in> set (zip xs ys) \<Longrightarrow> size x < Suc (size_list size (xs :: json list))"
  by (rule size_json_list) (rule set_zip_leftD)

function py_eq :: "json \<Rightarrow> json \<Rightarrow> bool" where
  "py_eq JNull b = (b = JNull)"
| "py_eq (JBool p) b = (case b of JBool q \<Rightarrow> p = q | JInt i \<Rightarrow> i = of_bool p | _ \<Rightarrow> False)"
| "py_eq (JInt i) b = (case b of JBool q \<Rightarrow> i = of_bool q | JInt j \<Rightarrow> i = j | _ \<Rightarrow> False)"
| "py_eq (JStr s) b = (b = JStr s)"
| "py_eq (JList xs) b =
     (case b of JList ys \<Rightarrow> length xs = length ys \<and> list_all (\<lambda>(x, y). py_eq x y) (zip xs ys)
      | _ \<Rightarrow> False)"
| "py_eq (JObj d) b =
     (case b of JObj e \<Rightarrow> length d = length e \<and>
          list_all (\<lambda>(k, v). case map_of e k of None \<Rightarrow> False | Some w \<Rightarrow> py_eq v w) d
      | _ \<Rightarrow> False)"
  by pat_completeness auto
termination
  by (relation "measure (size \<circ> fst)") (auto intro: size_json_zip size_json_dict)

subsection \<open>Strings\<close>

text \<open>\<open>str.lower\<close>, \<open>str.upper\<close> and \<open>str.strip\<close> on the ASCII range.\<close>

definition lower_char :: "char \<Rightarrow> char" where
  "lower_char c = (let n = of_char c :: nat in if 65 \<le> n \<and> n \<le> 90 then char_of (n + 32) else c)"

definition upper_char :: "char \<Rightarrow> char" where
  "upper_char c = (let n = of_char c :: nat in if 97 \<le> n \<and> n \<le> 122 then char_of (n - 32) else c)"

definition lower :: "string \<Rightarrow> string" where
  "lower s = map lower_char s"

definition upper :: "string \<Rightarrow> string" where
  "upper s = map upper_char s"

definition is_space :: "char \<Rightarrow> bool" where
  "is_space c = (let n = of_char c :: nat in n = 32 \<or> 9 \<le> n \<and> n \<le> 13 \<or> 28 \<le> n \<and> n \<le> 31)"

definition strip :: "string \<Rightarrow> string" where
  "strip s = rev (dropWhile is_space (rev (dropWhile is_space s)))"

definition newline :: string where
  "newline = [CHR 0x0A]"

fun join :: "string \<Rightarrow> string list \<Rightarrow> string" where
  "join sep [] = []"
| "join sep [s] = s"
| "join sep (s # t # ss) = s @ sep @ join sep (t # ss)"

subsection \<open>Rules\<close>

lemma jget_Nil [simp]: "jget [] k = JNull"
  by (simp add: jget_def)

lemma jget_Cons [simp]: "jget ((k', v) # d) k = (if k = k' then v else jget d k)"
  by (simp add: jget_def)

lemma jget_update [simp]: "jget (AList.update k' v d) k = (if k = k' then v else jget d k)"
  by (simp add: jget_def)

lemma jget_dict_merge:
  "distinct (map fst b) \<Longrightarrow> jget (dict_merge a b) k = (if map_of b k = None then jget a k else jget b k)"
  by (auto simp: jget_def map_of_dict_merge map_add_def split: option.splits)

lemma jget_delete [simp]: "jget (AList.delete k' d) k = (if k = k' then JNull else jget d k)"
  by (simp add: jget_def AList.delete_conv')

lemma jget_default_Nil [simp]: "jget_default [] k v0 = v0"
  by (simp add: jget_default_def)

lemma jget_default_Cons [simp]:
  "jget_default ((k', v) # d) k v0 = (if k = k' then v else jget_default d k v0)"
  by (simp add: jget_default_def)

lemma jget_truthy_dom: "truthy (jget d k) \<Longrightarrow> \<exists>v. map_of d k = Some v"
  by (auto simp: jget_def split: option.splits)

lemma jor_simps [simp]: "truthy a \<Longrightarrow> jor a b = a" "\<not> truthy a \<Longrightarrow> jor a b = b"
  by (simp_all add: jor_def)

lemma truthy_jor [simp]: "truthy (jor a b) \<longleftrightarrow> truthy a \<or> truthy b"
  by (simp add: jor_def)

text \<open>\<open>s.split(c)\<close>\<close>

fun split_on :: "char \<Rightarrow> string \<Rightarrow> string list" where
  "split_on c [] = [[]]"
| "split_on c (x # s) =
     (if x = c then [] # split_on c s
      else (case split_on c s of [] \<Rightarrow> [[x]] | w # ws \<Rightarrow> (x # w) # ws))"

end
