(* ===== verification/Tables.thy ===== *)
theory Tables
  imports Json
begin

text \<open>
  The relational state. Each table is the list of its rows in insertion order (a query without
  \<open>ORDER BY\<close> returns them in that order here; no property depends on it), a row is a record
  with the mapped columns, and a \<open>select\<close> is a filter over the list. \<open>drawn\<close> counts the
  random identifiers taken so far: the \<open>n\<close>-th call of \<open>uuid.uuid4\<close> yields \<open>uuid4 env n\<close>.
  \<open>clock env\<close> is \<open>int(time.time())\<close> of the running request.
\<close>

record access_grant =
  ag_id :: string
  ag_resource_type :: string
  ag_resource_id :: string
  ag_principal_type :: string
  ag_principal_id :: string
  ag_permission :: string
  ag_created_at :: int

record group_row =
  g_id :: string
  g_parent :: "string option"
  g_user_id :: string
  g_name :: string
  g_description :: string
  g_data :: json
  g_meta :: json
  g_permissions :: json
  g_created_at :: int
  g_updated_at :: int

record group_member =
  gm_id :: string
  gm_group_id :: string
  gm_user_id :: string
  gm_created_at :: int
  gm_updated_at :: int

record user_row =
  u_id :: string
  u_role :: string
  u_name :: string
  u_email :: string

record model_row =
  m_id :: string
  m_user_id :: string
  m_base_model_id :: "string option"

record folder_row =
  f_id :: string
  f_user_id :: string
  f_parent_id :: "string option"
  f_data :: json

record db =
  access_grant_t :: "access_grant list"
  group_t :: "group_row list"
  group_member_t :: "group_member list"
  user_t :: "user_row list"
  model_t :: "model_row list"
  folder_t :: "folder_row list"
  drawn :: nat

definition empty_db :: db where
  "empty_db = \<lparr>access_grant_t = [], group_t = [], group_member_t = [], user_t = [],
     model_t = [], folder_t = [], drawn = 0\<rparr>"

record env =
  uuid4 :: "nat \<Rightarrow> string"
  clock :: int
  dialect :: string
  default_share :: json

end
