(* ===== verification/GroupTable.thy ===== *)
theory GroupTable
  imports Tables "HOL-Library.Product_Lexorder" "HOL-Library.List_Lexorder" "HOL-Library.Char_ord"
begin

text \<open>
  Groups and their hierarchy (\<open>models/groups.py\<close>): the recursive queries over the parent
  column, the transactional operations of \<open>GroupTable\<close>, and the resolution of a user's
  default models. The invariant \<open>hierarchy_ok\<close> says that the parent relation is a forest over
  existing groups and that the membership table has one row per (group, user).
\<close>

subsection \<open>Forms\<close>

record group_form =
  gf_parent_set :: bool  \<comment> \<open>\<open>'parent_group_id' in model_fields_set\<close>\<close>
  gf_parent :: "string option"
  gf_name :: string
  gf_description :: string
  gf_permissions :: json
  gf_data :: json

definition dedup_first :: "'a list \<Rightarrow> 'a list" where
  "dedup_first xs = rev (remdups (rev xs))"

fun model_id_ok :: "json \<Rightarrow> bool" where
  "model_id_ok (JStr s) = (strip s \<noteq> [])"
| "model_id_ok _ = False"

fun strip_json :: "json \<Rightarrow> json" where
  "strip_json (JStr s) = JStr (strip s)"
| "strip_json v = v"

definition validate_default_models :: "json dict option \<Rightarrow> json dict option result" where
  "validate_default_models data =
     (case data of None \<Rightarrow> Inr None
      | Some d \<Rightarrow>
          (case map_of d ''config'' of None \<Rightarrow> Inr data
           | Some (JObj config) \<Rightarrow>
               (case map_of config ''default_models'' of None \<Rightarrow> Inr data
                | Some JNull \<Rightarrow> Inr data
                | Some (JList models) \<Rightarrow>
                    if \<not> list_all model_id_ok models
                    then Inl (ValueError ''Default models must be a list of non-empty model IDs.'')
                    else Inr (Some (AList.update ''config''
                           (JObj (AList.update ''default_models''
                              (JList (dedup_first (map strip_json models))) config)) d))
                | Some _ \<Rightarrow> Inl (ValueError ''Default models must be a list of non-empty model IDs.''))
           | Some _ \<Rightarrow> Inl (ValueError ''Group config must be an object.'')))"

definition default_group_share :: "string \<Rightarrow> json" where
  "default_group_share raw =
     (let v = lower (strip raw) in if v = ''members'' then JStr ''members'' else JBool (v = ''true''))"

subsection \<open>Default models of a user's groups\<close>

definition group_default_models :: "group_row \<Rightarrow> json" where
  "group_default_models g =
     jor (jget (dict_of (jget (dict_of (g_data g)) ''config'')) ''default_models'') JNull"

definition lookup_group :: "group_row list \<Rightarrow> string option \<Rightarrow> group_row option" where
  "lookup_group gs k =
     (case k of None \<Rightarrow> None | Some i \<Rightarrow> List.find (\<lambda>g. g_id g = i) gs)"

lemma lookup_group_Some:
  "lookup_group gs k = Some g \<Longrightarrow> g \<in> set gs \<and> k = Some (g_id g)"
  by (auto simp: lookup_group_def split: option.splits dest!: find_Some_in)

text \<open>
  The inner loop: climb from a group until the root, a group whose depth is known, or one
  already on the path (\<open>seen\<close> holds the path, last group first).
\<close>

function climb :: "group_row list \<Rightarrow> (string \<times> int) list \<Rightarrow> string list \<Rightarrow> group_row option \<Rightarrow>
    string list \<times> group_row option" where
  "climb gs depths path None = (path, None)"
| "climb gs depths path (Some c) =
     (if map_of depths (g_id c) = None \<and> g_id c \<notin> set path
      then climb gs depths (g_id c # path) (lookup_group gs (g_parent c))
      else (path, Some c))"
  by pat_completeness auto
termination
  by (relation "measure (\<lambda>(gs, depths, path, c). case c of None \<Rightarrow> 0
        | Some c \<Rightarrow> Suc (walk_measure (map g_id gs) path (g_id c)))")
     (auto split: option.split dest!: lookup_group_Some intro!: walk_measure_decreases)

fun number_path :: "int \<Rightarrow> string list \<Rightarrow> (string \<times> int) list \<Rightarrow> (string \<times> int) list" where
  "number_path depth [] depths = depths"
| "number_path depth (i # is) depths = number_path (depth + 1) is (AList.update i (depth + 1) depths)"

definition add_depths :: "group_row list \<Rightarrow> (string \<times> int) list \<Rightarrow> group_row \<Rightarrow> (string \<times> int) list" where
  "add_depths gs depths g =
     (let (path, cur) = climb gs depths [] (Some g);
          depth = (case cur of None \<Rightarrow> -1
                   | Some c \<Rightarrow> (case map_of depths (g_id c) of None \<Rightarrow> -1 | Some d \<Rightarrow> d))
      in number_path depth path depths)"

definition group_depths :: "group_row list \<Rightarrow> (string \<times> int) list" where
  "group_depths gs = foldl (add_depths gs) [] gs"

fun min_by :: "('a \<Rightarrow> 'b :: linorder) \<Rightarrow> 'a list \<Rightarrow> 'a option" where
  "min_by f [] = None"
| "min_by f (x # xs) =
     (case min_by f xs of None \<Rightarrow> Some x | Some y \<Rightarrow> if f x \<le> f y then Some x else Some y)"

definition resolve_group_default_models :: "group_row list \<Rightarrow> (json \<times> string) option" where
  "resolve_group_default_models gs =
     (let depths = group_depths gs;
          configured = filter (\<lambda>g. truthy (group_default_models g)) gs
      in map_option (\<lambda>w. (group_default_models w, g_id w))
           (min_by (\<lambda>g. (- (case map_of depths (g_id g) of None \<Rightarrow> 0 | Some d \<Rightarrow> d), g_created_at g, g_id g)) configured))"

subsection \<open>Recursive queries\<close>

definition parent_edges :: "group_row list \<Rightarrow> (string \<times> string) list" where
  "parent_edges gs =
     [(g_id g, p). g \<leftarrow> gs, p \<leftarrow> (case g_parent g of None \<Rightarrow> [] | Some p \<Rightarrow> [p])]"

definition ancestor_groups :: "db \<Rightarrow> string list \<Rightarrow> string list" where
  "ancestor_groups d ids =
     recursive_union (parent_edges (group_t d)) [g_id g. g \<leftarrow> group_t d, g_id g \<in> set ids]"

definition descendant_groups :: "db \<Rightarrow> string list \<Rightarrow> (string \<times> string) list" where
  "descendant_groups d ids =
     recursive_union
       [((r, p), (r, c)). r \<leftarrow> remdups ids, (c, p) \<leftarrow> parent_edges (group_t d)]
       [(g_id g, g_id g). g \<leftarrow> group_t d, g_id g \<in> set ids]"

definition user_group_memberships :: "db \<Rightarrow> string list \<Rightarrow> bool \<Rightarrow> (string \<times> string) list" where
  "user_group_memberships d uids include_inherited =
     (let direct = [(gm_user_id m, gm_group_id m). m \<leftarrow> group_member_t d, gm_user_id m \<in> set uids]
      in if \<not> include_inherited then direct
         else recursive_union
                [((u, c), (u, p)). u \<leftarrow> remdups uids, (c, p) \<leftarrow> parent_edges (group_t d)] direct)"

definition group_user_memberships :: "db \<Rightarrow> string list \<Rightarrow> bool \<Rightarrow> (string \<times> string) list" where
  "group_user_memberships d gids include_inherited =
     (if \<not> include_inherited
      then [(gm_group_id m, gm_user_id m). m \<leftarrow> group_member_t d, gm_group_id m \<in> set gids]
      else remdups [(r, gm_user_id m). (r, c) \<leftarrow> descendant_groups d gids,
                                       m \<leftarrow> group_member_t d, gm_group_id m = c])"

definition validate_parent :: "db \<Rightarrow> string option \<Rightarrow> string option \<Rightarrow> unit result" where
  "validate_parent d group_id parent_id =
     (case parent_id of None \<Rightarrow> Inr ()
      | Some p \<Rightarrow>
          if p = [] then Inl (GroupHierarchyError 400 ''Parent group must be a group ID or null.'')
          else if lookup_group (group_t d) (Some p) = None
          then Inl (GroupHierarchyError 404 ''Parent group not found.'')
          else if group_id \<in> Some ` set (ancestor_groups d [p])
          then Inl (GroupHierarchyError 400
                 ''A group cannot be its own parent or a descendant of itself.'')
          else Inr ())"

subsection \<open>Transactions\<close>

text \<open>
  A transaction body reads and writes the tables it is given. An exception rolls back, so the
  tables are the ones before the call. After the commit the operations refresh the sessions of
  the affected users: the list of their identifiers is part of the result.
\<close>

definition hierarchy_transaction ::
  "env \<Rightarrow> (db \<Rightarrow> ('a \<times> db) result) \<Rightarrow> db \<Rightarrow> 'a result \<times> db" where
  "hierarchy_transaction e body d =
     (if dialect e = ''sqlite'' \<or> dialect e = ''postgresql''
      then (case body d of Inl err \<Rightarrow> (Inl err, d) | Inr (x, d') \<Rightarrow> (Inr x, d'))
      else (Inl (ValueError ''Group hierarchy requires SQLite or PostgreSQL''), d))"

definition ensure_default_share_config :: "json \<Rightarrow> json dict \<Rightarrow> json dict result" where
  "ensure_default_share_config share data =
     (case jget_default data ''config'' (JObj []) of
        JObj config \<Rightarrow>
          Inr (if map_of config ''share'' = None
               then AList.update ''config'' (JObj (AList.update ''share'' share config)) data
               else data)
      | _ \<Rightarrow> Inl TypeError)"

definition member_rows :: "env \<Rightarrow> nat \<Rightarrow> (string \<times> string) list \<Rightarrow> group_member list" where
  "member_rows e n ps =
     map (\<lambda>(i, g, u). \<lparr>gm_id = uuid4 e i, gm_group_id = g, gm_user_id = u,
            gm_created_at = clock e, gm_updated_at = clock e\<rparr>) (enumerate n ps)"

definition touch :: "int \<Rightarrow> string list \<Rightarrow> group_row list \<Rightarrow> group_row list" where
  "touch now ids gs = map (\<lambda>g. if g_id g \<in> set ids then g\<lparr>g_updated_at := now\<rparr> else g) gs"

definition insert_new_group :: "env \<Rightarrow> string \<Rightarrow> group_form \<Rightarrow> db \<Rightarrow> group_row result \<times> db" where
  "insert_new_group e user_id form =
     hierarchy_transaction e (\<lambda>d.
       bind_result (validate_parent d None (gf_parent form)) (\<lambda>_.
       bind_result (ensure_default_share_config (default_share e) (dict_of (gf_data form))) (\<lambda>data.
         let g = \<lparr>g_id = uuid4 e (drawn d), g_parent = gf_parent form, g_user_id = user_id,
                  g_name = gf_name form, g_description = gf_description form,
                  g_data = JObj data, g_meta = JNull, g_permissions = gf_permissions form,
                  g_created_at = clock e, g_updated_at = clock e\<rparr>
         in Inr (g, d\<lparr>group_t := group_t d @ [g], drawn := Suc (drawn d)\<rparr>))))"

definition get_group_by_id :: "db \<Rightarrow> string \<Rightarrow> group_row option" where
  "get_group_by_id d i = lookup_group (group_t d) (Some i)"

definition get_all_groups :: "db \<Rightarrow> group_row list" where
  "get_all_groups d = sort_key (\<lambda>g. - g_updated_at g) (group_t d)"

definition get_group_by_name :: "db \<Rightarrow> string \<Rightarrow> group_row option" where
  "get_group_by_name d name = List.find (\<lambda>g. g_name g = name) (group_t d)"

definition get_groups_by_member_ids ::
  "db \<Rightarrow> string list \<Rightarrow> bool \<Rightarrow> (string \<times> group_row list) list" where
  "get_groups_by_member_ids d uids include_inherited =
     (let memberships = user_group_memberships d uids include_inherited;
          rows = sort_key (\<lambda>(u, g). (- g_updated_at g, g_id g))
                   [(u, g). (u, i) \<leftarrow> memberships, g \<leftarrow> group_t d, g_id g = i]
      in map (\<lambda>uid. (uid, [g. (u, g) \<leftarrow> rows, u = uid])) (dedup_first uids))"

definition get_groups_by_member_id :: "db \<Rightarrow> string \<Rightarrow> bool \<Rightarrow> group_row list" where
  "get_groups_by_member_id d uid include_inherited =
     (case map_of (get_groups_by_member_ids d [uid] include_inherited) uid of
        None \<Rightarrow> [] | Some gs \<Rightarrow> gs)"

definition get_ancestor_ids :: "db \<Rightarrow> string \<Rightarrow> string set" where
  "get_ancestor_ids d gid = set (ancestor_groups d [gid])"

definition get_group_user_ids_by_ids ::
  "db \<Rightarrow> string list \<Rightarrow> bool \<Rightarrow> (string \<times> string list) list" where
  "get_group_user_ids_by_ids d gids include_inherited =
     (let memberships = group_user_memberships d gids include_inherited
      in map (\<lambda>gid. (gid, [u. (g, u) \<leftarrow> memberships, g = gid])) (dedup_first gids))"

definition get_group_user_ids_by_id :: "db \<Rightarrow> string \<Rightarrow> bool \<Rightarrow> string list" where
  "get_group_user_ids_by_id d gid include_inherited =
     (case map_of (get_group_user_ids_by_ids d [gid] include_inherited) gid of
        None \<Rightarrow> [] | Some us \<Rightarrow> us)"

definition get_group_member_counts_by_ids ::
  "db \<Rightarrow> string list \<Rightarrow> bool \<Rightarrow> (string \<times> nat) list" where
  "get_group_member_counts_by_ids d gids include_inherited =
     (if gids = [] then []
      else let memberships = group_user_memberships d gids include_inherited
           in map (\<lambda>gid. (gid, length (filter (\<lambda>(g, u). g = gid) memberships)))
                (dedup_first (map fst memberships)))"

definition get_group_member_count_by_id :: "db \<Rightarrow> string \<Rightarrow> bool \<Rightarrow> nat" where
  "get_group_member_count_by_id d gid include_inherited =
     (case map_of (get_group_member_counts_by_ids d [gid] include_inherited) gid of
        None \<Rightarrow> 0 | Some n \<Rightarrow> n)"

end
