(* ===== verification/Forest.thy ===== *)
theory Forest
  imports Prelude
begin

text \<open>
  Forests given by parent pointers: a list of (identifier, parent) pairs with distinct identifiers,
  parents that exist, and no cycle. Adding a leaf, moving a node and removing a node whose children
  take its parent keep a forest. The hierarchy of groups and the messages of a chat are forests.
\<close>

definition edges :: "(string \<times> string option) list \<Rightarrow> (string \<times> string) set" where
  "edges s = {(c, p). (c, Some p) \<in> set s}"

definition forest :: "(string \<times> string option) list \<Rightarrow> bool" where
  "forest s \<longleftrightarrow> distinct (map fst s) \<and> acyclic (edges s) \<and> snd ` edges s \<subseteq> fst ` set s"

lemma forest_Nil [simp]: "forest []"
  by (simp add: forest_def edges_def acyclic_def)

lemma edges_append: "edges (s @ t) = edges s \<union> edges t"
  by (auto simp: edges_def)

lemma snd_image_subsetI: "(\<And>c p. (c, p) \<in> R \<Longrightarrow> p \<in> A) \<Longrightarrow> snd ` R \<subseteq> A"
  by force

lemma edges_fst: "(c, p) \<in> edges s \<Longrightarrow> c \<in> fst ` set s"
  by (force simp: edges_def)

lemma forest_edge_unique:
  "forest s \<Longrightarrow> (c, p) \<in> edges s \<Longrightarrow> (c, q) \<in> set s \<Longrightarrow> q = Some p"
  by (auto simp: forest_def edges_def dest: eq_key_imp_eq_value)

lemma edges_snd: "(c, p) \<in> edges s \<Longrightarrow> forest s \<Longrightarrow> p \<in> fst ` set s"
  by (force simp: forest_def)

lemma edges_trancl_in: "(c, p) \<in> (edges s)\<^sup>+ \<Longrightarrow> forest s \<Longrightarrow> c \<in> fst ` set s \<and> p \<in> fst ` set s"
  by (induction rule: trancl_induct) (blast intro: edges_fst edges_snd)+

lemma forest_snoc:
  assumes "forest s" and "i \<notin> fst ` set s" and "\<And>p. q = Some p \<Longrightarrow> p \<in> fst ` set s"
  shows "forest (s @ [(i, q)])"
proof (cases q)
  case None
  then have "edges (s @ [(i, q)]) = edges s"
    by (auto simp: edges_def)
  with assms show ?thesis by (auto simp: forest_def)
next
  case (Some p)
  have e: "edges (s @ [(i, q)]) = insert (i, p) (edges s)"
    using Some by (auto simp: edges_def)
  have "(p, i) \<notin> (edges s)\<^sup>*"
    using assms Some by (auto simp: rtrancl_eq_or_trancl dest: edges_trancl_in)
  then show ?thesis
    using assms Some edges_snd [OF _ assms(1)] unfolding forest_def e by auto
qed

definition reparent :: "string \<Rightarrow> string option \<Rightarrow> (string \<times> string option) list \<Rightarrow>
    (string \<times> string option) list" where
  "reparent i q s = map (\<lambda>(c, r). if c = i then (c, q) else (c, r)) s"

lemma map_fst_reparent [simp]: "map fst (reparent i q s) = map fst s"
  by (induction s) (auto simp: reparent_def)

lemma fst_reparent [simp]: "fst ` set (reparent i q s) = fst ` set s"
  by (metis list.set_map map_fst_reparent)

lemma edges_reparent:
  "edges (reparent i q s) \<subseteq> edges s \<union> {(i, p) | p. q = Some p}"
  by (auto simp: edges_def reparent_def split: if_splits)

lemma forest_reparent:
  assumes "forest s" and "\<And>p. q = Some p \<Longrightarrow> p \<in> fst ` set s \<and> (p, i) \<notin> (edges s)\<^sup>*"
  shows "forest (reparent i q s)"
proof -
  have "acyclic (edges s \<union> {(i, p) | p. q = Some p})"
  proof (cases q)
    case None
    with assms show ?thesis by (simp add: forest_def)
  next
    case (Some p)
    with assms show ?thesis by (simp add: forest_def)
  qed
  then have "acyclic (edges (reparent i q s))"
    using edges_reparent by (rule acyclic_subset)
  moreover have "snd ` edges (reparent i q s) \<subseteq> fst ` set s"
    using edges_reparent [of i q s] assms(2) edges_snd [OF _ assms(1)]
    by (intro snd_image_subsetI) blast
  ultimately show ?thesis
    using assms by (simp add: forest_def)
qed

text \<open>Deleting a node promotes its children to its own parent.\<close>

definition remove_node :: "string \<Rightarrow> string option \<Rightarrow> (string \<times> string option) list \<Rightarrow>
    (string \<times> string option) list" where
  "remove_node i q s =
     filter (\<lambda>(c, r). c \<noteq> i) (map (\<lambda>(c, r). if r = Some i then (c, q) else (c, r)) s)"

lemma remove_node_Nil [simp]: "remove_node i q [] = []"
  by (simp add: remove_node_def)

lemma remove_node_Cons [simp]:
  "remove_node i q ((c, r) # s) =
     (if c = i then remove_node i q s
      else (c, if r = Some i then q else r) # remove_node i q s)"
  by (simp add: remove_node_def)

lemma map_fst_remove_node: "map fst (remove_node i q s) = filter (\<lambda>c. c \<noteq> i) (map fst s)"
  by (induction s rule: list.induct) (auto split: prod.splits)

lemma fst_remove_node: "fst ` set (remove_node i q s) = fst ` set s - {i}"
proof -
  have "set (map fst (remove_node i q s)) = set (map fst s) - {i}"
    unfolding map_fst_remove_node by auto
  then show ?thesis by simp
qed

lemma set_remove_node:
  "(c, t) \<in> set (remove_node i q s) \<longleftrightarrow>
     c \<noteq> i \<and> ((c, t) \<in> set s \<and> t \<noteq> Some i \<or> (c, Some i) \<in> set s \<and> t = q)"
proof (induction s)
  case Nil
  show ?case by simp
next
  case (Cons x s)
  obtain c' r where "x = (c', r)" by (cases x)
  with Cons show ?case by (cases "r = Some i"; cases "c' = i") auto
qed

lemma edges_remove_node:
  "(c, p) \<in> edges (remove_node i q s) \<longleftrightarrow>
     c \<noteq> i \<and> ((c, p) \<in> edges s \<and> p \<noteq> i \<or> (c, i) \<in> edges s \<and> q = Some p)"
  by (auto simp: edges_def set_remove_node)

lemma forest_remove_node:
  assumes "forest s" and "(i, q) \<in> set s"
  shows "forest (remove_node i q s)"
proof -
  have q: "(i, p) \<in> edges s" if "q = Some p" for p
    using that assms by (simp add: edges_def)
  then have "edges (remove_node i q s) \<subseteq> (edges s)\<^sup>+"
    by (auto simp: edges_remove_node intro: trancl_into_trancl)
  moreover have "acyclic ((edges s)\<^sup>+)"
    using assms by (simp add: forest_def acyclic_def)
  ultimately have acyc: "acyclic (edges (remove_node i q s))"
    by (rule acyclic_subset [rotated])
  have "p \<noteq> i" if "q = Some p" for p
    using q [OF that] assms by (auto simp: forest_def acyclic_def)
  then have "p \<in> fst ` set s - {i}" if "(c, p) \<in> edges (remove_node i q s)" for c p
    using that q edges_snd [OF _ assms(1)] unfolding edges_remove_node by blast
  then have "snd ` edges (remove_node i q s) \<subseteq> fst ` set (remove_node i q s)"
    unfolding fst_remove_node by (rule snd_image_subsetI)
  with acyc assms show ?thesis
    by (simp add: forest_def map_fst_remove_node)
qed


text \<open>Deleting a node with its children promotes the grandchildren to its own parent.\<close>

definition prune :: "string \<Rightarrow> string option \<Rightarrow> string list \<Rightarrow> (string \<times> string option) list \<Rightarrow>
    (string \<times> string option) list" where
  "prune i q ks s =
     map (\<lambda>(c, r). (c, if (\<exists>k \<in> set ks. r = Some k) then q else r)) (filter (\<lambda>(c, r). c \<noteq> i \<and> c \<notin> set ks) s)"

lemma map_fst_prune: "map fst (prune i q ks s) = filter (\<lambda>c. c \<noteq> i \<and> c \<notin> set ks) (map fst s)"
  by (induction s) (auto simp: prune_def)

lemma in_prune:
  "(c, t) \<in> set (prune i q ks s) \<longleftrightarrow>
     c \<noteq> i \<and> c \<notin> set ks \<and>
     (\<exists>r. (c, r) \<in> set s \<and> t = (if \<exists>k \<in> set ks. r = Some k then q else r))"
proof (induction s)
  case (Cons x s)
  obtain c' r where "x = (c', r)" by (cases x)
  with Cons show ?case by (auto simp: prune_def)
qed (simp add: prune_def)

lemma edges_prune:
  "(c, p) \<in> edges (prune i q ks s) \<longleftrightarrow>
     c \<noteq> i \<and> c \<notin> set ks \<and>
     ((c, p) \<in> edges s \<and> p \<notin> set ks \<or> q = Some p \<and> (\<exists>k \<in> set ks. (c, k) \<in> edges s))"
  unfolding edges_def by (simp add: in_prune) blast

lemma forest_irrefl: "forest s \<Longrightarrow> (c, c) \<notin> edges s"
  by (auto simp: forest_def acyclic_def)

lemma forest_no_pair: "forest s \<Longrightarrow> (c, p) \<in> edges s \<Longrightarrow> (p, c) \<notin> edges s"
  unfolding forest_def acyclic_def by (blast intro: trancl_into_trancl)

lemma forest_prune:
  assumes "forest s" and "(i, q) \<in> set s" and ks: "set ks = {c. (c, i) \<in> edges s}"
  shows "forest (prune i q ks s)"
proof -
  have q: "(i, p) \<in> edges s" if "q = Some p" for p
    using that assms by (simp add: edges_def)
  have "(c, p) \<in> (edges s)\<^sup>+" if "(c, p) \<in> edges (prune i q ks s)" for c p
  proof -
    from that ks q consider "(c, p) \<in> edges s" | k where "(c, k) \<in> edges s" "(k, i) \<in> edges s" "(i, p) \<in> edges s"
      unfolding edges_prune by blast
    then show ?thesis by cases (meson trancl.intros)+
  qed
  then have "edges (prune i q ks s) \<subseteq> (edges s)\<^sup>+" by auto
  moreover have "acyclic ((edges s)\<^sup>+)"
    using assms by (simp add: forest_def acyclic_def)
  ultimately have acyc: "acyclic (edges (prune i q ks s))"
    by (rule acyclic_subset [rotated])
  have f: "fst ` set (prune i q ks s) = fst ` set s - {i} - set ks"
  proof -
    have "set (map fst (prune i q ks s)) = set (map fst s) - {i} - set ks"
      unfolding map_fst_prune by auto
    then show ?thesis by simp
  qed
  have "p \<in> fst ` set s - {i} - set ks" if e: "(c, p) \<in> edges (prune i q ks s)" for c p
  proof -
    consider "(c, p) \<in> edges s" "p \<notin> set ks" "p \<noteq> i" | "q = Some p"
      using e ks unfolding edges_prune by blast
    then show ?thesis
    proof cases
      case 1
      then show ?thesis using edges_snd [OF _ assms(1)] by blast
    next
      case 2
      then show ?thesis
        using q [OF 2] edges_snd [OF _ assms(1)] forest_irrefl [OF assms(1)] forest_no_pair [OF assms(1)] ks by blast
    qed
  qed
  then have "snd ` edges (prune i q ks s) \<subseteq> fst ` set (prune i q ks s)"
    unfolding f by (rule snd_image_subsetI)
  with acyc assms show ?thesis
    by (simp add: forest_def map_fst_prune)
qed


lemma forest_root: "forest s \<Longrightarrow> s \<noteq> [] \<Longrightarrow> \<exists>i. (i, None) \<in> set s"
proof -
  assume f: "forest s" and "s \<noteq> []"
  then obtain x where x: "x \<in> fst ` set s" by (cases s) auto
  have "finite (edges s)"
  proof (rule finite_subset)
    show "edges s \<subseteq> (\<lambda>(c, q). (c, the q)) ` set s" by (force simp: edges_def)
  qed simp
  then have w: "wf ((edges s)\<inverse>)"
    using f by (intro finite_acyclic_wf_converse) (simp_all add: forest_def)
  obtain z where z: "z \<in> fst ` set s" "\<And>y. (y, z) \<in> (edges s)\<inverse> \<Longrightarrow> y \<notin> fst ` set s"
    by (rule wfE_min [OF w x]) blast
  from z(1) obtain q where q: "(z, q) \<in> set s" by auto
  show ?thesis
  proof (cases q)
    case None
    with q show ?thesis by blast
  next
    case (Some p)
    with q have "(z, p) \<in> edges s" by (simp add: edges_def)
    then show ?thesis using z(2) [of p] edges_snd [OF _ f] by blast
  qed
qed

end
