(* ===== verification/GroupOps.thy ===== *)
theory GroupOps
  imports GroupTable Forest
begin

text \<open>
  The operations of \<open>GroupTable\<close> that change state, each one transaction over the tables; the
  second component of a result is the list of users whose sessions the operation refreshes.
\<close>

definition group_members :: "db \<Rightarrow> string \<Rightarrow> string list" where
  "group_members d gid = remdups [gm_user_id m. m \<leftarrow> group_member_t d, gm_group_id m = gid]"

definition groups_of_member :: "db \<Rightarrow> string \<Rightarrow> string list" where
  "groups_of_member d uid = remdups [gm_group_id m. m \<leftarrow> group_member_t d, gm_user_id m = uid]"

definition minus_list :: "'a list \<Rightarrow> 'a list \<Rightarrow> 'a list" where
  "minus_list xs ys = filter (\<lambda>x. x \<notin> set ys) xs"

definition delete_members :: "(string \<times> string) list \<Rightarrow> db \<Rightarrow> db" where
  "delete_members ps d =
     d\<lparr>group_member_t := filter (\<lambda>m. (gm_group_id m, gm_user_id m) \<notin> set ps) (group_member_t d)\<rparr>"

definition add_members :: "env \<Rightarrow> (string \<times> string) list \<Rightarrow> db \<Rightarrow> db" where
  "add_members e ps d =
     d\<lparr>group_member_t := group_member_t d @ member_rows e (drawn d) ps,
       drawn := drawn d + length ps\<rparr>"

definition set_group_user_ids_by_id ::
  "env \<Rightarrow> string \<Rightarrow> string list \<Rightarrow> db \<Rightarrow> string list result \<times> db" where
  "set_group_user_ids_by_id e gid user_ids =
     hierarchy_transaction e (\<lambda>d.
       if get_group_by_id d gid = None then Inl (GroupHierarchyError 404 ''Group not found.'')
       else
         let previous = group_members d gid;
             requested = remdups user_ids;
             removed = minus_list previous requested;
             added = minus_list requested previous;
             d1 = delete_members (map (Pair gid) removed) d;
             d2 = add_members e (map (Pair gid) added) d1
         in Inr (removed @ added, d2\<lparr>group_t := touch (clock e) [gid] (group_t d2)\<rparr>))"

record group_changes =
  old_parent_group_id :: "string option"
  new_parent_group_id :: "string option"

definition merged_data :: "group_row \<Rightarrow> json dict \<Rightarrow> json" where
  "merged_data g new_data =
     (let old_data = dict_of (g_data g)
      in JObj (AList.update ''config''
           (JObj (dict_merge (dict_of (jget old_data ''config'')) (dict_of (jget new_data ''config''))))
           (dict_merge old_data new_data)))"

definition updated_group :: "env \<Rightarrow> group_form \<Rightarrow> group_row \<Rightarrow> group_row" where
  "updated_group e form g =
     g\<lparr>g_parent := (if gf_parent_set form then gf_parent form else g_parent g),
       g_name := gf_name form, g_description := gf_description form,
       g_data := (if gf_data form = JNull then g_data g else merged_data g (dict_of (gf_data form))),
       g_permissions := (if gf_permissions form = JNull then g_permissions g else gf_permissions form),
       g_updated_at := clock e\<rparr>"

definition update_affects_members :: "group_form \<Rightarrow> group_row \<Rightarrow> group_row \<Rightarrow> bool" where
  "update_affects_members form g g' \<longleftrightarrow>
     g_parent g' \<noteq> g_parent g \<or>
     gf_data form \<noteq> JNull \<and> \<not> py_eq (group_default_models g') (group_default_models g) \<or>
     gf_permissions form \<noteq> JNull \<and> \<not> py_eq (gf_permissions form) (g_permissions g)"

definition update_group_by_id ::
  "env \<Rightarrow> string \<Rightarrow> group_form \<Rightarrow> db \<Rightarrow> (group_row \<times> group_changes \<times> string list) result \<times> db" where
  "update_group_by_id e gid form =
     hierarchy_transaction e (\<lambda>d.
       case get_group_by_id d gid of None \<Rightarrow> Inl (GroupHierarchyError 404 ''Group not found.'')
       | Some g \<Rightarrow>
         bind_result (if gf_parent_set form then validate_parent d (Some gid) (gf_parent form)
                      else Inr ()) (\<lambda>_.
         let g' = updated_group e form g;
             affected = (if update_affects_members form g g'
                         then map snd (group_user_memberships d [gid] True) else [])
         in Inr ((g', \<lparr>old_parent_group_id = g_parent g, new_parent_group_id = g_parent g'\<rparr>, affected),
                 d\<lparr>group_t := map (\<lambda>x. if g_id x = gid then g' else x) (group_t d)\<rparr>)))"

definition deleted_group_db :: "env \<Rightarrow> group_row \<Rightarrow> db \<Rightarrow> db" where
  "deleted_group_db e g d =
     d\<lparr>group_t := filter (\<lambda>c. g_id c \<noteq> g_id g)
         (map (\<lambda>c. if g_parent c = Some (g_id g)
                   then c\<lparr>g_parent := g_parent g, g_updated_at := clock e\<rparr> else c) (group_t d)),
       group_member_t := filter (\<lambda>m. gm_group_id m \<noteq> g_id g) (group_member_t d),
       access_grant_t := filter (\<lambda>a. \<not> (ag_principal_type a = ''group'' \<and>
                                      ag_principal_id a = g_id g)) (access_grant_t d)\<rparr>"

definition delete_group_by_id ::
  "env \<Rightarrow> string \<Rightarrow> db \<Rightarrow> (string option \<times> string list \<times> string list) result \<times> db" where
  "delete_group_by_id e gid =
     hierarchy_transaction e (\<lambda>d.
       case get_group_by_id d gid of None \<Rightarrow> Inl (GroupHierarchyError 404 ''Group not found.'')
       | Some g \<Rightarrow>
         let affected = map snd (group_user_memberships d [gid] True);
             children = [g_id c. c \<leftarrow> group_t d, g_parent c = Some gid]
         in Inr ((g_parent g, children, affected), deleted_group_db e g d))"

definition delete_all_groups :: "env \<Rightarrow> db \<Rightarrow> string list result \<times> db" where
  "delete_all_groups e =
     hierarchy_transaction e (\<lambda>d.
       Inr (remdups (map gm_user_id (group_member_t d)),
            d\<lparr>group_t := [], group_member_t := [],
              access_grant_t := filter (\<lambda>a. ag_principal_type a \<noteq> ''group'') (access_grant_t d)\<rparr>))"

definition remove_user_from_all_groups :: "env \<Rightarrow> string \<Rightarrow> db \<Rightarrow> string list result \<times> db" where
  "remove_user_from_all_groups e uid =
     hierarchy_transaction e (\<lambda>d.
       Inr ([uid],
            d\<lparr>group_t := touch (clock e) (groups_of_member d uid) (group_t d),
              group_member_t := filter (\<lambda>m. gm_user_id m \<noteq> uid) (group_member_t d)\<rparr>))"

text \<open>The set of existing names is read once, before the loop: it is not extended by the loop.\<close>

definition new_named_group :: "env \<Rightarrow> string \<Rightarrow> nat \<Rightarrow> string \<Rightarrow> group_row" where
  "new_named_group e user_id n name =
     \<lparr>g_id = uuid4 e n, g_parent = None, g_user_id = user_id, g_name = name, g_description = [],
      g_data = JObj [(''config'', JObj [(''share'', default_share e)])], g_meta = JNull,
      g_permissions = JNull, g_created_at = clock e, g_updated_at = clock e\<rparr>"

fun create_missing_groups ::
  "env \<Rightarrow> string \<Rightarrow> string list \<Rightarrow> string list \<Rightarrow> db \<Rightarrow> group_row list \<times> db" where
  "create_missing_groups e user_id existing [] d = ([], d)"
| "create_missing_groups e user_id existing (n # ns) d =
     (if n \<in> set existing then create_missing_groups e user_id existing ns d
      else (case create_missing_groups e user_id existing ns
                   (d\<lparr>group_t := group_t d @ [new_named_group e user_id (drawn d) n],
                      drawn := Suc (drawn d)\<rparr>) of
              (gs, d') \<Rightarrow> (new_named_group e user_id (drawn d) n # gs, d')))"

definition create_groups_by_group_names ::
  "env \<Rightarrow> string \<Rightarrow> string list \<Rightarrow> db \<Rightarrow> group_row list \<times> db" where
  "create_groups_by_group_names e user_id names d =
     create_missing_groups e user_id (map g_name (get_all_groups d)) names d"

definition sync_groups_by_group_names ::
  "env \<Rightarrow> string \<Rightarrow> string list \<Rightarrow> db \<Rightarrow> string list result \<times> db" where
  "sync_groups_by_group_names e uid names =
     hierarchy_transaction e (\<lambda>d.
       let target = remdups [g_id g. g \<leftarrow> group_t d, g_name g \<in> set names];
           previous = groups_of_member d uid;
           removed = minus_list previous target;
           added = minus_list target previous;
           d1 = delete_members (map (\<lambda>g. (g, uid)) removed) d;
           d2 = add_members e (map (\<lambda>g. (g, uid)) added) d1
       in Inr (if set previous \<noteq> set target then [uid] else [],
               d2\<lparr>group_t := touch (clock e) (removed @ added) (group_t d2)\<rparr>))"

definition add_users_to_group ::
  "env \<Rightarrow> string \<Rightarrow> string list \<Rightarrow> db \<Rightarrow> (group_row \<times> string list) result \<times> db" where
  "add_users_to_group e gid user_ids =
     hierarchy_transaction e (\<lambda>d.
       case get_group_by_id d gid of None \<Rightarrow> Inl (GroupHierarchyError 404 ''Group not found.'')
       | Some g \<Rightarrow>
         let added = minus_list (remdups user_ids) (group_members d gid);
             d1 = add_members e (map (Pair gid) added) d
         in Inr ((g\<lparr>g_updated_at := clock e\<rparr>, added),
                 d1\<lparr>group_t := touch (clock e) [gid] (group_t d1)\<rparr>))"

definition remove_users_from_group ::
  "env \<Rightarrow> string \<Rightarrow> string list \<Rightarrow> db \<Rightarrow> (group_row \<times> string list) result \<times> db" where
  "remove_users_from_group e gid user_ids =
     hierarchy_transaction e (\<lambda>d.
       case get_group_by_id d gid of None \<Rightarrow> Inl (GroupHierarchyError 404 ''Group not found.'')
       | Some g \<Rightarrow>
         let removed = [gm_user_id m. m \<leftarrow> group_member_t d, gm_group_id m = gid,
                                      gm_user_id m \<in> set user_ids];
             d1 = delete_members (map (Pair gid) removed) d
         in Inr ((g\<lparr>g_updated_at := clock e\<rparr>, removed),
                 d1\<lparr>group_t := touch (clock e) [gid] (group_t d1)\<rparr>))"

text \<open>\<open>utils/groups.py\<close>: a failed default assignment is logged and dropped.\<close>

definition apply_default_group_assignment :: "env \<Rightarrow> string \<Rightarrow> string \<Rightarrow> db \<Rightarrow> db" where
  "apply_default_group_assignment e default_group_id user_id d =
     (if default_group_id = [] then d
      else snd (add_users_to_group e default_group_id [user_id] d))"

subsection \<open>One step of the group component\<close>

inductive group_step :: "env \<Rightarrow> db \<Rightarrow> db \<Rightarrow> bool" for e where
  insert: "group_step e d (snd (insert_new_group e u form d))"
| set_users: "group_step e d (snd (set_group_user_ids_by_id e gid uids d))"
| update: "group_step e d (snd (update_group_by_id e gid form d))"
| delete: "group_step e d (snd (delete_group_by_id e gid d))"
| delete_all: "group_step e d (snd (delete_all_groups e d))"
| remove_user: "group_step e d (snd (remove_user_from_all_groups e uid d))"
| create_names: "group_step e d (snd (create_groups_by_group_names e uid names d))"
| sync_names: "group_step e d (snd (sync_groups_by_group_names e uid names d))"
| add_users: "group_step e d (snd (add_users_to_group e gid uids d))"
| remove_users: "group_step e d (snd (remove_users_from_group e gid uids d))"

inductive reachable_groups :: "(nat \<Rightarrow> string) \<Rightarrow> db \<Rightarrow> bool" for U where
  start: "reachable_groups U empty_db"
| step: "reachable_groups U d \<Longrightarrow> uuid4 e = U \<Longrightarrow> group_step e d d' \<Longrightarrow> reachable_groups U d'"

subsection \<open>The invariant\<close>

text \<open>
  The part of the group table the hierarchy depends on is the list of (identifier, parent)
  pairs; a forest has distinct identifiers, no cycle, and parents that exist.
\<close>

definition shape :: "group_row list \<Rightarrow> (string \<times> string option) list" where
  "shape gs = map (\<lambda>g. (g_id g, g_parent g)) gs"

definition member_pairs :: "db \<Rightarrow> (string \<times> string) list" where
  "member_pairs d = map (\<lambda>m. (gm_group_id m, gm_user_id m)) (group_member_t d)"

definition hierarchy_ok :: "db \<Rightarrow> bool" where
  "hierarchy_ok d \<longleftrightarrow>
     forest (shape (group_t d)) \<and> distinct (member_pairs d) \<and>
     (\<forall>x \<in> set (member_pairs d). fst x \<in> g_id ` set (group_t d))"

definition ids_drawn :: "(nat \<Rightarrow> string) \<Rightarrow> db \<Rightarrow> bool" where
  "ids_drawn U d \<longleftrightarrow> g_id ` set (group_t d) \<subseteq> U ` {..<drawn d}"

end
