(* ===== verification/GroupInv.thy ===== *)
theory GroupInv
  imports GroupOps
begin

text \<open>
  The hierarchy invariant: the lemmas on forests of parent pointers, the preservation of the
  invariant by every operation, and what the recursive queries compute on it.
\<close>

subsection \<open>The tables\<close>

lemma set_parent_edges [simp]: "set (parent_edges gs) = edges (shape gs)"
proof -
  have "(c, p) \<in> set (parent_edges gs) \<longleftrightarrow> (\<exists>g \<in> set gs. g_id g = c \<and> g_parent g = Some p)" for c p
    unfolding parent_edges_def by (induction gs) (auto split: option.split)
  moreover have "(c, p) \<in> edges (shape gs) \<longleftrightarrow> (\<exists>g \<in> set gs. g_id g = c \<and> g_parent g = Some p)" for c p
    by (auto simp: edges_def shape_def)
  ultimately show ?thesis by auto
qed

lemma fst_shape [simp]: "map fst (shape gs) = map g_id gs" "fst ` set (shape gs) = g_id ` set gs"
  by (auto simp: shape_def image_iff)

lemma shape_touch [simp]: "shape (touch now ids gs) = shape gs"
  by (simp add: shape_def touch_def)

lemma ids_touch [simp]: "g_id ` set (touch now ids gs) = g_id ` set gs"
  by (metis fst_shape(2) shape_touch)

lemma length_member_rows [simp]: "length (member_rows e n ps) = length ps"
  by (simp add: member_rows_def)

lemma pairs_member_rows [simp]:
  "map (\<lambda>m. (gm_group_id m, gm_user_id m)) (member_rows e n ps) = ps"
  by (rule nth_equalityI) (auto simp: member_rows_def nth_enumerate_eq split: prod.splits)

lemma member_pairs_simps [simp]:
  "member_pairs (d\<lparr>group_t := gs\<rparr>) = member_pairs d"
  "member_pairs (d\<lparr>drawn := k\<rparr>) = member_pairs d"
  "member_pairs (d\<lparr>access_grant_t := as\<rparr>) = member_pairs d"
  "member_pairs (add_members e ps d) = member_pairs d @ ps"
  "member_pairs (delete_members ps d) = filter (\<lambda>x. x \<notin> set ps) (member_pairs d)"
  by (simp_all add: member_pairs_def add_members_def delete_members_def filter_map o_def)

lemma add_delete_frame [simp]:
  "group_t (add_members e ps d) = group_t d" "group_t (delete_members ps d) = group_t d"
  "access_grant_t (add_members e ps d) = access_grant_t d"
  "access_grant_t (delete_members ps d) = access_grant_t d"
  "drawn (delete_members ps d) = drawn d" "drawn (add_members e ps d) = drawn d + length ps"
  by (simp_all add: add_members_def delete_members_def)

lemma set_group_members: "set (group_members d gid) = {u. (gid, u) \<in> set (member_pairs d)}"
  by (force simp: group_members_def member_pairs_def)

lemma set_groups_of_member: "set (groups_of_member d uid) = {g. (g, uid) \<in> set (member_pairs d)}"
  by (force simp: groups_of_member_def member_pairs_def)

lemma distinct_group_members [simp]:
  "distinct (group_members d gid)" "distinct (groups_of_member d uid)"
  by (simp_all add: group_members_def groups_of_member_def)

lemma set_minus_list [simp]: "set (minus_list xs ys) = set xs - set ys"
  by (auto simp: minus_list_def)

lemma distinct_minus_list [simp]: "distinct xs \<Longrightarrow> distinct (minus_list xs ys)"
  by (simp add: minus_list_def)

lemma get_group_by_id_Some:
  "get_group_by_id d i = Some g \<Longrightarrow> g \<in> set (group_t d) \<and> g_id g = i"
  by (auto simp: get_group_by_id_def dest: lookup_group_Some)

lemma get_group_by_id_None: "get_group_by_id d i = None \<longleftrightarrow> i \<notin> g_id ` set (group_t d)"
  by (auto simp: get_group_by_id_def lookup_group_def find_None_iff)

lemma get_group_by_id_eq:
  assumes "hierarchy_ok d" and "g \<in> set (group_t d)"
  shows "get_group_by_id d (g_id g) = Some g"
  using assms find_eq_Some_unique [of g_id "group_t d" g]
  by (simp add: get_group_by_id_def lookup_group_def hierarchy_ok_def forest_def)

lemma set_ancestor_groups:
  "set (ancestor_groups d ids) =
     (edges (shape (group_t d)))\<^sup>* `` (g_id ` set (group_t d) \<inter> set ids)"
  by (auto simp: ancestor_groups_def)

lemma hierarchy_transaction_cases:
  obtains (rollback) err where "hierarchy_transaction e body d = (Inl err, d)"
  | (commit) x d' where "body d = Inr (x, d')" and "hierarchy_transaction e body d = (Inr x, d')"
proof (cases "\<exists>x d'. hierarchy_transaction e body d = (Inr x, d')")
  case True
  then obtain x d' where "hierarchy_transaction e body d = (Inr x, d')" by blast
  moreover from this have "body d = Inr (x, d')"
    unfolding hierarchy_transaction_def by (auto split: if_splits sum.splits prod.splits)
  ultimately show thesis by (rule commit [rotated])
next
  case False
  then have "\<exists>err. hierarchy_transaction e body d = (Inl err, d)"
    unfolding hierarchy_transaction_def by (auto split: if_splits sum.splits prod.splits)
  then show thesis by (blast intro: rollback)
qed

lemma hierarchy_transaction_commit:
  "hierarchy_transaction e body d = (Inr x, d') \<Longrightarrow> body d = Inr (x, d')"
  by (rule hierarchy_transaction_cases [of e body d]) auto

lemma hierarchy_transaction_supported:
  "dialect e \<in> {''sqlite'', ''postgresql''} \<Longrightarrow> hierarchy_transaction e body d =
     (case body d of Inl err \<Rightarrow> (Inl err, d) | Inr (x, d') \<Rightarrow> (Inr x, d'))"
  unfolding hierarchy_transaction_def by (simp split: sum.split)

lemma hierarchy_ok_transaction:
  assumes "hierarchy_ok d" and "\<And>x d'. body d = Inr (x, d') \<Longrightarrow> hierarchy_ok d'"
  shows "hierarchy_ok (snd (hierarchy_transaction e body d))"
  by (rule hierarchy_transaction_cases [of e body d]) (use assms in auto)

subsection \<open>Every operation keeps the invariant\<close>

lemma get_group_by_id_shape:
  assumes "hierarchy_ok d" and "get_group_by_id d gid = Some g"
  shows "(gid, g_parent g) \<in> set (shape (group_t d))"
  using get_group_by_id_Some [OF assms(2)] by (force simp: shape_def)

lemma validate_parent_ok:
  assumes "validate_parent d gid q = Inr ()" and "q = Some p"
  shows "p \<in> g_id ` set (group_t d)" and "gid = Some i \<Longrightarrow> (p, i) \<notin> (edges (shape (group_t d)))\<^sup>*"
proof -
  from assms have lk: "lookup_group (group_t d) (Some p) \<noteq> None"
    and anc: "gid \<notin> Some ` set (ancestor_groups d [p])"
    by (auto simp: validate_parent_def split: if_splits)
  from lk show p: "p \<in> g_id ` set (group_t d)"
    by (metis get_group_by_id_None get_group_by_id_def)
  show "(p, i) \<notin> (edges (shape (group_t d)))\<^sup>*" if "gid = Some i"
    using anc that p by (auto simp: set_ancestor_groups)
qed

lemma insert_new_group_ok:
  assumes "hierarchy_ok d" and "uuid4 e (drawn d) \<notin> g_id ` set (group_t d)"
  shows "hierarchy_ok (snd (insert_new_group e u form d))"
  unfolding insert_new_group_def
proof (rule hierarchy_ok_transaction [OF assms(1)])
  fix x d'
  assume "bind_result (validate_parent d None (gf_parent form)) (\<lambda>_.
       bind_result (ensure_default_share_config (default_share e) (dict_of (gf_data form))) (\<lambda>data.
         let g = \<lparr>g_id = uuid4 e (drawn d), g_parent = gf_parent form, g_user_id = u,
                  g_name = gf_name form, g_description = gf_description form,
                  g_data = JObj data, g_meta = JNull, g_permissions = gf_permissions form,
                  g_created_at = clock e, g_updated_at = clock e\<rparr>
         in Inr (g, d\<lparr>group_t := group_t d @ [g], drawn := Suc (drawn d)\<rparr>))) = Inr (x, d')"
  then obtain g where vp: "validate_parent d None (gf_parent form) = Inr ()"
    and d': "d' = d\<lparr>group_t := group_t d @ [g], drawn := Suc (drawn d)\<rparr>"
    and g: "g_id g = uuid4 e (drawn d)" "g_parent g = gf_parent form"
    by (auto simp: bind_result_Inr Let_def)
  have "forest (shape (group_t d) @ [(g_id g, g_parent g)])"
    using assms validate_parent_ok(1) [OF vp]
    by (intro forest_snoc) (auto simp: hierarchy_ok_def g)
  then show "hierarchy_ok d'"
    using assms by (auto simp: d' hierarchy_ok_def shape_def)
qed

lemma new_named_group_ok:
  assumes "hierarchy_ok d" and "g_parent g = None" and "g_id g \<notin> g_id ` set (group_t d)"
  shows "hierarchy_ok (d\<lparr>group_t := group_t d @ [g], drawn := k\<rparr>)"
proof -
  have "forest (shape (group_t d) @ [(g_id g, None)])"
    using assms by (intro forest_snoc) (auto simp: hierarchy_ok_def)
  then show ?thesis
    using assms by (auto simp: hierarchy_ok_def shape_def)
qed

lemma change_members_ok:
  assumes "hierarchy_ok d" and "distinct new"
    and "\<And>x. x \<in> set new \<Longrightarrow> x \<in> set (member_pairs d) \<Longrightarrow> x \<in> set old"
    and "\<And>x. x \<in> set new \<Longrightarrow> fst x \<in> g_id ` set (group_t d)"
  shows "hierarchy_ok (add_members e new (delete_members old d)\<lparr>group_t := touch now ids (group_t d)\<rparr>)"
  using assms by (auto simp: hierarchy_ok_def)

lemma distinct_Pair [simp]:
  "distinct xs \<Longrightarrow> distinct (map (Pair g) xs)" "distinct xs \<Longrightarrow> distinct (map (\<lambda>g. (g, u)) xs)"
  by (simp_all add: distinct_map inj_on_def)

lemma delete_no_members [simp]: "delete_members [] d = d"
  by (simp add: delete_members_def)

lemma add_no_members: "add_members e [] d = d"
  by (simp add: add_members_def member_rows_def)

lemma group_exists:
  "get_group_by_id d gid = Some g \<Longrightarrow> gid \<in> g_id ` set (group_t d)"
  by (auto dest: get_group_by_id_Some)

lemma shape_replace:
  assumes "g_id g' = gid"
  shows "shape (map (\<lambda>x. if g_id x = gid then g' else x) gs) = reparent gid (g_parent g') (shape gs)"
  using assms by (simp add: shape_def reparent_def)

lemma shape_delete:
  "shape (filter (\<lambda>c. g_id c \<noteq> gid)
     (map (\<lambda>c. if g_parent c = Some gid then c\<lparr>g_parent := q, g_updated_at := now\<rparr> else c) gs)) =
   remove_node gid q (shape gs)"
  by (induction gs) (auto simp: shape_def)

lemma ids_shape: "shape gs = s \<Longrightarrow> g_id ` set gs = fst ` set s"
  using fst_shape(2) by blast

lemma reparent_self:
  assumes "distinct (map fst s)" and "(i, q) \<in> set s"
  shows "reparent i q s = s"
  using assms by (auto simp: reparent_def intro!: map_idI dest: eq_key_imp_eq_value)

lemma set_group_user_ids_ok:
  assumes "hierarchy_ok d"
  shows "hierarchy_ok (snd (set_group_user_ids_by_id e gid uids d))"
  unfolding set_group_user_ids_by_id_def
proof (rule hierarchy_ok_transaction [OF assms], goal_cases)
  case (1 x d')
  then obtain removed where d': "d' = add_members e
      (map (Pair gid) (minus_list (remdups uids) (group_members d gid)))
      (delete_members removed d)\<lparr>group_t := touch (clock e) [gid] (group_t d)\<rparr>"
    and "get_group_by_id d gid \<noteq> None"
    by (auto simp: Let_def split: if_splits)
  then show ?case
    unfolding d' using assms
    by (intro change_members_ok) (auto simp: set_group_members get_group_by_id_None)
qed

lemma sync_groups_ok:
  assumes "hierarchy_ok d"
  shows "hierarchy_ok (snd (sync_groups_by_group_names e uid names d))"
  unfolding sync_groups_by_group_names_def
proof (rule hierarchy_ok_transaction [OF assms], goal_cases)
  case (1 x d')
  define target where "target = remdups [g_id g. g \<leftarrow> group_t d, g_name g \<in> set names]"
  from 1 obtain removed ids where d': "d' = add_members e
      (map (\<lambda>g. (g, uid)) (minus_list target (groups_of_member d uid)))
      (delete_members removed d)\<lparr>group_t := touch (clock e) ids (group_t d)\<rparr>"
    by (auto simp: Let_def target_def)
  have "distinct target" "set target \<subseteq> g_id ` set (group_t d)"
    by (auto simp: target_def)
  then show ?case
    unfolding d' using assms
    by (intro change_members_ok) (auto simp: set_groups_of_member)
qed

lemma add_users_ok:
  assumes "hierarchy_ok d"
  shows "hierarchy_ok (snd (add_users_to_group e gid uids d))"
  unfolding add_users_to_group_def
proof (rule hierarchy_ok_transaction [OF assms], goal_cases)
  case (1 x d')
  then obtain g where g: "get_group_by_id d gid = Some g" and d': "d' = add_members e
      (map (Pair gid) (minus_list (remdups uids) (group_members d gid)))
      (delete_members [] d)\<lparr>group_t := touch (clock e) [gid] (group_t d)\<rparr>"
    by (auto simp: Let_def split: option.splits)
  show ?case
    unfolding d' using assms group_exists [OF g]
    by (intro change_members_ok) (auto simp: set_group_members)
qed

lemma remove_users_ok:
  assumes "hierarchy_ok d"
  shows "hierarchy_ok (snd (remove_users_from_group e gid uids d))"
  unfolding remove_users_from_group_def
proof (rule hierarchy_ok_transaction [OF assms], goal_cases)
  case (1 x d')
  then obtain old where d': "d' = add_members e [] (delete_members old d)
      \<lparr>group_t := touch (clock e) [gid] (group_t d)\<rparr>"
    by (auto simp: Let_def add_no_members split: option.splits)
  show ?case
    unfolding d' using assms by (intro change_members_ok) auto
qed

lemma remove_user_ok:
  assumes "hierarchy_ok d"
  shows "hierarchy_ok (snd (remove_user_from_all_groups e uid d))"
  unfolding remove_user_from_all_groups_def
proof (rule hierarchy_ok_transaction [OF assms], goal_cases)
  case (1 x d')
  then have "group_t d' = touch (clock e) (groups_of_member d uid) (group_t d)"
    and "member_pairs d' = filter (\<lambda>(g, u). u \<noteq> uid) (member_pairs d)"
    by (auto simp: member_pairs_def filter_map o_def)
  with assms show ?case by (auto simp: hierarchy_ok_def)
qed

lemma delete_all_groups_ok:
  assumes "hierarchy_ok d"
  shows "hierarchy_ok (snd (delete_all_groups e d))"
  unfolding delete_all_groups_def
  by (rule hierarchy_ok_transaction [OF assms])
     (auto simp: hierarchy_ok_def member_pairs_def shape_def)

lemma update_group_ok:
  assumes "hierarchy_ok d"
  shows "hierarchy_ok (snd (update_group_by_id e gid form d))"
  unfolding update_group_by_id_def
proof (rule hierarchy_ok_transaction [OF assms], goal_cases)
  case (1 x d')
  then obtain g where g: "get_group_by_id d gid = Some g"
    and vp: "(if gf_parent_set form then validate_parent d (Some gid) (gf_parent form) else Inr ()) = Inr ()"
    and d': "d' = d\<lparr>group_t := map (\<lambda>x. if g_id x = gid then updated_group e form g else x) (group_t d)\<rparr>"
    by (cases "get_group_by_id d gid") (auto simp: Let_def bind_result_Inr)
  define g' where "g' = updated_group e form g"
  have g': "g_id g' = g_id g" "g_parent g' = (if gf_parent_set form then gf_parent form else g_parent g)"
    by (simp_all add: g'_def updated_group_def)
  have gid: "g_id g = gid" and s: "(gid, g_parent g) \<in> set (shape (group_t d))"
    using get_group_by_id_Some [OF g] get_group_by_id_shape [OF assms g] by auto
  have "forest (reparent gid (g_parent g') (shape (group_t d)))"
  proof (cases "gf_parent_set form")
    case True
    with vp validate_parent_ok [of d "Some gid" "gf_parent form"] assms g' show ?thesis
      by (intro forest_reparent) (auto simp: hierarchy_ok_def)
  next
    case False
    with s g' assms show ?thesis
      by (simp add: reparent_self hierarchy_ok_def forest_def)
  qed
  moreover have "g_id ` set (group_t d') = g_id ` set (group_t d)"
    using ids_shape [OF shape_replace [of g' gid]] gid g' by (simp add: d' g'_def [symmetric])
  ultimately show ?case
    using assms gid g' by (simp add: hierarchy_ok_def d' g'_def [symmetric] shape_replace)
qed

lemma deleted_group_db_simps [simp]:
  "shape (group_t (deleted_group_db e g d)) = remove_node (g_id g) (g_parent g) (shape (group_t d))"
  "member_pairs (deleted_group_db e g d) = filter (\<lambda>(c, u). c \<noteq> g_id g) (member_pairs d)"
  "g_id ` set (group_t (deleted_group_db e g d)) = g_id ` set (group_t d) - {g_id g}"
  "drawn (deleted_group_db e g d) = drawn d"
proof -
  show sh: "shape (group_t (deleted_group_db e g d)) =
      remove_node (g_id g) (g_parent g) (shape (group_t d))"
    by (simp add: deleted_group_db_def shape_delete)
  show "g_id ` set (group_t (deleted_group_db e g d)) = g_id ` set (group_t d) - {g_id g}"
    using ids_shape [OF sh] by (simp add: fst_remove_node)
qed (simp_all add: deleted_group_db_def member_pairs_def filter_map o_def)

lemma deleted_group_db_ok:
  assumes "hierarchy_ok d" and "get_group_by_id d gid = Some g"
  shows "hierarchy_ok (deleted_group_db e g d)"
proof -
  have gid: "g_id g = gid" using get_group_by_id_Some [OF assms(2)] by simp
  have "forest (remove_node (g_id g) (g_parent g) (shape (group_t d)))"
    using assms get_group_by_id_shape [OF assms]
    by (intro forest_remove_node) (auto simp: hierarchy_ok_def gid)
  then show ?thesis
    using assms(1) by (auto simp: hierarchy_ok_def)
qed

lemma delete_group_ok:
  assumes "hierarchy_ok d"
  shows "hierarchy_ok (snd (delete_group_by_id e gid d))"
  unfolding delete_group_by_id_def
  by (rule hierarchy_ok_transaction [OF assms])
     (use deleted_group_db_ok [OF assms] in \<open>auto simp: Let_def split: option.splits\<close>)

lemma fresh_group_id:
  assumes "inj U" and "ids_drawn U d"
  shows "U (drawn d) \<notin> g_id ` set (group_t d)"
proof
  assume "U (drawn d) \<in> g_id ` set (group_t d)"
  with assms(2) have "U (drawn d) \<in> U ` {..<drawn d}" by (auto simp: ids_drawn_def)
  then show False by (simp add: inj_image_mem_iff [OF assms(1)])
qed

lemma create_missing_groups_ok:
  assumes "hierarchy_ok d" and "inj (uuid4 e)" and "ids_drawn (uuid4 e) d"
  shows "hierarchy_ok (snd (create_missing_groups e u ex ns d)) \<and>
         ids_drawn (uuid4 e) (snd (create_missing_groups e u ex ns d))"
  using assms
proof (induction e u ex ns d rule: create_missing_groups.induct)
  case (1 e u ex d)
  then show ?case by simp
next
  case (2 e u ex n ns d)
  define g where "g = new_named_group e u (drawn d) n"
  have id: "g_id g = uuid4 e (drawn d)" and par: "g_parent g = None"
    by (simp_all add: g_def new_named_group_def)
  have fresh: "g_id g \<notin> g_id ` set (group_t d)"
    using fresh_group_id "2.prems"(2,3) unfolding id by blast
  have "ids_drawn (uuid4 e) (d\<lparr>group_t := group_t d @ [g], drawn := Suc (drawn d)\<rparr>)"
    using "2.prems"(3) id by (auto simp: ids_drawn_def lessThan_Suc)
  moreover have "hierarchy_ok (d\<lparr>group_t := group_t d @ [g], drawn := Suc (drawn d)\<rparr>)"
    using "2.prems"(1) par fresh by (rule new_named_group_ok)
  ultimately have new: "n \<notin> set ex \<Longrightarrow> ?case"
    using "2.IH"(2) "2.prems"(2) by (simp add: g_def case_prod_beta)
  show ?case
  proof (cases "n \<in> set ex")
    case True
    then have "create_missing_groups e u ex (n # ns) d = create_missing_groups e u ex ns d" by simp
    then show ?thesis using "2.IH"(1) [OF True "2.prems"] by (simp only:)
  next
    case False
    then show ?thesis by (rule new)
  qed
qed

lemma ids_drawn_transaction':
  assumes "ids_drawn U d" and "\<And>x d'. body d = Inr (x, d') \<Longrightarrow> ids_drawn U d'"
  shows "ids_drawn U (snd (hierarchy_transaction e body d))"
  by (rule hierarchy_transaction_cases [of e body d]) (use assms in auto)

lemma ids_drawn_mono:
  assumes "ids_drawn U d" and "g_id ` set (group_t d') \<subseteq> g_id ` set (group_t d)"
    and "drawn d \<le> drawn d'"
  shows "ids_drawn U d'"
proof -
  have "U ` {..<drawn d} \<subseteq> U ` {..<drawn d'}" using assms(3) by (intro image_mono) simp
  with assms(1,2) show ?thesis unfolding ids_drawn_def by (meson subset_trans)
qed

lemma ids_drawn_transaction:
  assumes "ids_drawn U d" and "\<And>x d'. body d = Inr (x, d') \<Longrightarrow>
    g_id ` set (group_t d') \<subseteq> g_id ` set (group_t d) \<and> drawn d \<le> drawn d'"
  shows "ids_drawn U (snd (hierarchy_transaction e body d))"
  using assms(1) by (rule ids_drawn_transaction') (use assms in \<open>blast intro: ids_drawn_mono\<close>)

lemma insert_new_group_drawn:
  assumes "ids_drawn (uuid4 e) d"
  shows "ids_drawn (uuid4 e) (snd (insert_new_group e u form d))"
  unfolding insert_new_group_def
  using assms by (rule ids_drawn_transaction')
     (use assms in \<open>(auto simp: bind_result_Inr Let_def ids_drawn_def lessThan_Suc; blast)\<close>)

lemma group_step_invariant:
  assumes "group_step e d d'" and "inj (uuid4 e)" and "hierarchy_ok d" and "ids_drawn (uuid4 e) d"
  shows "hierarchy_ok d' \<and> ids_drawn (uuid4 e) d'"
  using assms(1)
proof cases
  case (insert u form)
  then show ?thesis
    using insert_new_group_ok [OF assms(3) fresh_group_id [OF assms(2,4)]]
      insert_new_group_drawn [OF assms(4)] by simp
next
  case (set_users gid uids)
  have "ids_drawn (uuid4 e) d'"
    unfolding set_users set_group_user_ids_by_id_def using assms(4)
    by (rule ids_drawn_transaction) (auto simp: Let_def split: if_splits)
  then show ?thesis using set_users set_group_user_ids_ok [OF assms(3)] by simp
next
  case (update gid form)
  have "ids_drawn (uuid4 e) d'"
    unfolding update update_group_by_id_def using assms(4)
    by (rule ids_drawn_transaction)
       (auto simp: Let_def bind_result_Inr updated_group_def dest!: get_group_by_id_Some
             split: option.splits)
  then show ?thesis using update update_group_ok [OF assms(3)] by simp
next
  case (delete gid)
  have "ids_drawn (uuid4 e) d'"
    unfolding delete delete_group_by_id_def using assms(4)
    by (rule ids_drawn_transaction)
       (auto simp: Let_def split: option.splits)
  then show ?thesis using delete delete_group_ok [OF assms(3)] by simp
next
  case delete_all
  have "ids_drawn (uuid4 e) d'"
    unfolding delete_all delete_all_groups_def using assms(4)
    by (rule ids_drawn_transaction) auto
  then show ?thesis using delete_all delete_all_groups_ok [OF assms(3)] by simp
next
  case (remove_user uid)
  have "ids_drawn (uuid4 e) d'"
    unfolding remove_user remove_user_from_all_groups_def using assms(4)
    by (rule ids_drawn_transaction) auto
  then show ?thesis using remove_user remove_user_ok [OF assms(3)] by simp
next
  case (create_names u names)
  then show ?thesis
    using create_missing_groups_ok [OF assms(3,2,4)] by (simp add: create_groups_by_group_names_def)
next
  case (sync_names uid names)
  have "ids_drawn (uuid4 e) d'"
    unfolding sync_names sync_groups_by_group_names_def using assms(4)
    by (rule ids_drawn_transaction) (auto simp: Let_def)
  then show ?thesis using sync_names sync_groups_ok [OF assms(3)] by simp
next
  case (add_users gid uids)
  have "ids_drawn (uuid4 e) d'"
    unfolding add_users add_users_to_group_def using assms(4)
    by (rule ids_drawn_transaction) (auto simp: Let_def split: option.splits)
  then show ?thesis using add_users add_users_ok [OF assms(3)] by simp
next
  case (remove_users gid uids)
  have "ids_drawn (uuid4 e) d'"
    unfolding remove_users remove_users_from_group_def using assms(4)
    by (rule ids_drawn_transaction) (auto simp: Let_def split: option.splits)
  then show ?thesis using remove_users remove_users_ok [OF assms(3)] by simp
qed

lemma reachable_groups_ok:
  "reachable_groups U d \<Longrightarrow> inj U \<Longrightarrow> hierarchy_ok d \<and> ids_drawn U d"
proof (induction rule: reachable_groups.induct)
  case start
  then show ?case by (simp add: hierarchy_ok_def ids_drawn_def empty_db_def member_pairs_def shape_def)
next
  case (step d e d')
  then show ?case using group_step_invariant [of e d d'] by simp
qed

subsection \<open>What the queries compute\<close>

definition belongs :: "db \<Rightarrow> string \<Rightarrow> string \<Rightarrow> bool" where
  "belongs d uid gid \<longleftrightarrow>
     (\<exists>c. (c, uid) \<in> set (member_pairs d) \<and> (c, gid) \<in> (edges (shape (group_t d)))\<^sup>*)"

lemma rtrancl_tagged:
  "((u, x), (v, y)) \<in> {((u, c), (u, p)) | u c p. u \<in> A \<and> (c, p) \<in> E}\<^sup>* \<longleftrightarrow>
     (u, x) = (v, y) \<or> u = v \<and> u \<in> A \<and> (x, y) \<in> E\<^sup>*" (is "(_ \<in> ?T\<^sup>*) = ?rhs")
proof
  have "snd b = snd b \<and> (a = b \<or> fst a = fst b \<and> fst a \<in> A \<and> (snd a, snd b) \<in> E\<^sup>*)"
    if "(a, b) \<in> ?T\<^sup>*" for a b
    using that
    by (induction rule: rtrancl_induct) (auto intro: rtrancl_into_rtrancl)
  then show "((u, x), (v, y)) \<in> ?T\<^sup>* \<Longrightarrow> ?rhs" by fastforce
  have "((u, x), (u, y)) \<in> ?T\<^sup>*" if "u \<in> A" and "(x, y) \<in> E\<^sup>*" for u
    using that(2,1) by (induction rule: rtrancl_induct) (auto intro: rtrancl_into_rtrancl)
  then show "?rhs \<Longrightarrow> ((u, x), (v, y)) \<in> ?T\<^sup>*" by auto
qed

lemma Image_seeds:
  "z \<in> R `` {(v, c). Q v c} \<longleftrightarrow> (\<exists>v c. Q v c \<and> ((v, c), z) \<in> R)"
  by auto

lemma set_tagged_edges:
  "set [((u, c), (u, p)). u \<leftarrow> remdups uids, (c, p) \<leftarrow> es] =
     {((u, c), (u, p)) | u c p. u \<in> set uids \<and> (c, p) \<in> set es}"
  by auto

lemma set_user_group_memberships:
  "(u, g) \<in> set (user_group_memberships d uids True) \<longleftrightarrow> u \<in> set uids \<and> belongs d u g"
proof -
  have "set [(gm_user_id m, gm_group_id m). m \<leftarrow> group_member_t d, gm_user_id m \<in> set uids] =
      {(u, c). u \<in> set uids \<and> (c, u) \<in> set (member_pairs d)}"
    by (force simp: member_pairs_def)
  then have "set (user_group_memberships d uids True) =
      {((v, c), (v, p)) | v c p. v \<in> set uids \<and> (c, p) \<in> edges (shape (group_t d))}\<^sup>* ``
      {(v, c). v \<in> set uids \<and> (c, v) \<in> set (member_pairs d)}"
    unfolding user_group_memberships_def Let_def
    by (simp only: set_recursive_union set_tagged_edges set_parent_edges not_True_eq_False if_False)
  then have "(u, g) \<in> set (user_group_memberships d uids True) \<longleftrightarrow>
      (\<exists>v c. (v \<in> set uids \<and> (c, v) \<in> set (member_pairs d)) \<and>
         ((v, c) = (u, g) \<or> v = u \<and> v \<in> set uids \<and> (c, g) \<in> (edges (shape (group_t d)))\<^sup>*))"
    by (simp only: Image_seeds rtrancl_tagged)
  then show ?thesis
    unfolding belongs_def by auto
qed

lemma set_user_group_memberships_direct:
  "(u, g) \<in> set (user_group_memberships d uids False) \<longleftrightarrow>
     u \<in> set uids \<and> (g, u) \<in> set (member_pairs d)"
  by (force simp: user_group_memberships_def member_pairs_def)

lemma set_descendant_groups:
  "(r, c) \<in> set (descendant_groups d ids) \<longleftrightarrow>
     r \<in> set ids \<and> r \<in> g_id ` set (group_t d) \<and> (c, r) \<in> (edges (shape (group_t d)))\<^sup>*"
proof -
  have down: "set [((r, p), (r, c)). r \<leftarrow> remdups ids, (c, p) \<leftarrow> es] =
      {((r, p), (r, c)) | r p c. r \<in> set ids \<and> (p, c) \<in> (set es)\<inverse>}" for es
    by auto
  have seeds: "set [(g_id g, g_id g). g \<leftarrow> group_t d, g_id g \<in> set ids] =
      {(r, r') . r' = r \<and> r \<in> set ids \<and> r \<in> g_id ` set (group_t d)}"
    by auto
  have "set (descendant_groups d ids) =
      {((v, p), (v, c)) | v p c. v \<in> set ids \<and> (p, c) \<in> (edges (shape (group_t d)))\<inverse>}\<^sup>* ``
      {(r, r') . r' = r \<and> r \<in> set ids \<and> r \<in> g_id ` set (group_t d)}"
    unfolding descendant_groups_def
    by (simp only: set_recursive_union down seeds set_parent_edges)
  then have "(r, c) \<in> set (descendant_groups d ids) \<longleftrightarrow>
      (\<exists>v v'. (v' = v \<and> v \<in> set ids \<and> v \<in> g_id ` set (group_t d)) \<and>
        ((v, v') = (r, c) \<or> v = r \<and> v \<in> set ids \<and> (v', c) \<in> ((edges (shape (group_t d)))\<inverse>)\<^sup>*))"
    by (simp only: Image_seeds rtrancl_tagged)
  then show ?thesis
    unfolding rtrancl_converse by auto
qed

lemma set_group_user_memberships:
  assumes "hierarchy_ok d"
  shows "(g, u) \<in> set (group_user_memberships d gids True) \<longleftrightarrow> g \<in> set gids \<and> belongs d u g"
proof -
  have "(g, u) \<in> set (group_user_memberships d gids True) \<longleftrightarrow>
      (\<exists>c. (g, c) \<in> set (descendant_groups d gids) \<and> (c, u) \<in> set (member_pairs d))"
    by (force simp: group_user_memberships_def member_pairs_def)
  moreover have "g \<in> g_id ` set (group_t d)"
    if "(c, u) \<in> set (member_pairs d)" and "(c, g) \<in> (edges (shape (group_t d)))\<^sup>*" for c
  proof -
    have "c \<in> g_id ` set (group_t d)" using assms that(1) by (force simp: hierarchy_ok_def)
    moreover have "g \<in> fst ` set (shape (group_t d))" if "(c, g) \<in> (edges (shape (group_t d)))\<^sup>+"
      using edges_trancl_in [OF that] assms by (simp add: hierarchy_ok_def)
    ultimately show ?thesis using that(2) by (auto simp: rtrancl_eq_or_trancl)
  qed
  ultimately show ?thesis
    unfolding set_descendant_groups belongs_def by blast
qed

lemma set_get_groups_by_member_id:
  "g \<in> set (get_groups_by_member_id d uid inh) \<longleftrightarrow>
     g \<in> set (group_t d) \<and> (uid, g_id g) \<in> set (user_group_memberships d [uid] inh)"
  by (auto simp: get_groups_by_member_id_def get_groups_by_member_ids_def dedup_first_def Let_def)

lemma set_dedup_first [simp]: "set (dedup_first xs) = set xs"
  by (simp add: dedup_first_def)

lemma distinct_dedup_first [simp]: "distinct (dedup_first xs)"
  by (simp add: dedup_first_def)

lemma map_id_filter:
  "distinct (map g_id gs) \<Longrightarrow>
     map g_id (filter (\<lambda>g. g_id g = i) gs) = (if i \<in> g_id ` set gs then [i] else [])"
  by (induction gs) (auto simp: image_iff filter_empty_conv)

lemma map_id_join:
  assumes "distinct (map g_id gs)"
  shows "map (\<lambda>(u, g). (u, g_id g)) [(u, g). (u, i) \<leftarrow> ms, g \<leftarrow> gs, g_id g = i] =
     filter (\<lambda>(u, i). i \<in> g_id ` set gs) ms"
proof (induction ms)
  case Nil
  show ?case by simp
next
  case (Cons p ms)
  obtain u i where p: "p = (u, i)" by (cases p)
  have "[(u, g). g \<leftarrow> gs, g_id g = i] = map (Pair u) (filter (\<lambda>g. g_id g = i) gs)"
    by (induction gs) auto
  moreover have "map (\<lambda>g. (u, g_id g)) (filter (\<lambda>g. g_id g = i) gs) =
      map (Pair u) (map g_id (filter (\<lambda>g. g_id g = i) gs))"
    by simp
  ultimately show ?case
    using Cons map_id_filter [OF assms, of i] by (simp add: p o_def)
qed

lemma distinct_map_sort_key: "distinct (map f (sort_key k xs)) \<longleftrightarrow> distinct (map f xs)"
  by (simp add: distinct_map)

lemma distinct_select:
  "distinct (map (\<lambda>(u, g). (u, f g)) rows) \<Longrightarrow> distinct (map f [g. (u, g) \<leftarrow> rows, u = v])"
  by (induction rows) (auto simp: image_iff)

lemma distinct_get_groups_by_member_id:
  assumes "distinct (map g_id (group_t d))"
  shows "distinct (map g_id (get_groups_by_member_id d uid True))"
proof -
  have "distinct (map (\<lambda>(u, g). (u, g_id g))
      [(u, g). (u, i) \<leftarrow> user_group_memberships d [uid] True, g \<leftarrow> group_t d, g_id g = i])"
    unfolding map_id_join [OF assms] by (simp add: user_group_memberships_def Let_def)
  then have "distinct (map (\<lambda>(u, g). (u, g_id g)) (sort_key (\<lambda>(u, g). (- g_updated_at g, g_id g))
      [(u, g). (u, i) \<leftarrow> user_group_memberships d [uid] True, g \<leftarrow> group_t d, g_id g = i]))"
    by (simp only: distinct_map_sort_key)
  from distinct_select [OF this] show ?thesis
    by (simp add: get_groups_by_member_id_def get_groups_by_member_ids_def dedup_first_def Let_def)
qed

lemma belongs_exists:
  assumes "hierarchy_ok d" and "belongs d u g"
  shows "g \<in> g_id ` set (group_t d)"
  using set_group_user_memberships [OF assms(1), of g u "[g]"] assms(2)
  by (auto simp: group_user_memberships_def set_descendant_groups)

lemma ids_of_member:
  assumes "hierarchy_ok d"
  shows "g_id ` set (get_groups_by_member_id d u True) = {g. belongs d u g}"
proof -
  have "set (get_groups_by_member_id d u True) = {g \<in> set (group_t d). belongs d u (g_id g)}"
    by (auto simp: set_get_groups_by_member_id set_user_group_memberships)
  then show ?thesis using belongs_exists [OF assms] by blast
qed

lemma users_of_groups:
  assumes "hierarchy_ok d"
  shows "(\<Union>(g, us) \<in> set (get_group_user_ids_by_ids d gids True). set us) =
     {u. \<exists>g \<in> set gids. belongs d u g}"
  using set_group_user_memberships [OF assms]
  by (auto simp: get_group_user_ids_by_ids_def Let_def)

end
