(* ===== verification/GrantTable.thy ===== *)
theory GrantTable
  imports GroupInv
begin

text \<open>
  Access grants (\<open>models/access_grants.py\<close>): the conversions between the legacy
  \<open>access_control\<close> dictionary and lists of grants, the normalisation of grant payloads, and the
  operations and queries of \<open>AccessGrantsTable\<close>.
\<close>

abbreviation (input) PRINCIPAL_TYPE_ANYONE :: string where "PRINCIPAL_TYPE_ANYONE \<equiv> ''anyone''"
abbreviation (input) PRINCIPAL_TYPE_GROUP :: string where "PRINCIPAL_TYPE_GROUP \<equiv> ''group''"
abbreviation (input) PRINCIPAL_TYPE_USER :: string where "PRINCIPAL_TYPE_USER \<equiv> ''user''"
abbreviation (input) WILDCARD_PRINCIPAL_ID :: string where "WILDCARD_PRINCIPAL_ID \<equiv> ''*''"

record access_grant_response =
  agr_id :: string
  agr_principal_type :: string
  agr_principal_id :: string
  agr_permission :: string

definition from_grant :: "access_grant \<Rightarrow> access_grant_response" where
  "from_grant g = \<lparr>agr_id = ag_id g, agr_principal_type = ag_principal_type g,
     agr_principal_id = ag_principal_id g, agr_permission = ag_permission g\<rparr>"

subsection \<open>The legacy dictionary\<close>

definition grant_dict :: "string \<Rightarrow> string \<Rightarrow> string \<Rightarrow> json \<Rightarrow> string \<Rightarrow> json" where
  "grant_dict rt rid pt pid perm =
     JObj [(''resource_type'', JStr rt), (''resource_id'', JStr rid), (''principal_type'', JStr pt),
           (''principal_id'', pid), (''permission'', JStr perm)]"

text \<open>
  The loops over \<open>group_ids\<close> and \<open>user_ids\<close> of one permission; \<open>mk\<close> builds the grant from the
  principal type, the identifier and the permission.
\<close>

definition permission_grants ::
  "(string \<Rightarrow> json \<Rightarrow> string \<Rightarrow> json) \<Rightarrow> json dict \<Rightarrow> string \<Rightarrow> json list result" where
  "permission_grants mk access_control perm =
     (let perm_data = jget_default access_control perm (JObj [])
      in if \<not> truthy perm_data then Inr []
         else case perm_data of
           JObj d \<Rightarrow>
             bind_result (py_iter (jget_default d ''group_ids'' (JList []))) (\<lambda>gids.
             bind_result (py_iter (jget_default d ''user_ids'' (JList []))) (\<lambda>uids.
               Inr (map (\<lambda>i. mk ''group'' i perm) gids @ map (\<lambda>i. mk ''user'' i perm) uids)))
         | _ \<Rightarrow> Inl AttributeError)"

definition access_control_to_grants ::
  "string \<Rightarrow> string \<Rightarrow> json dict option \<Rightarrow> json list result" where
  "access_control_to_grants rt rid access_control =
     (case access_control of
        None \<Rightarrow> Inr (if rt \<noteq> ''file'' then [grant_dict rt rid ''user'' (JStr ''*'') ''read''] else [])
      | Some ac \<Rightarrow>
          if ac = [] then Inr []
          else bind_result (permission_grants (grant_dict rt rid) ac ''read'') (\<lambda>rs.
               bind_result (permission_grants (grant_dict rt rid) ac ''write'') (\<lambda>ws.
                 Inr (rs @ ws))))"

record permission_lists =
  pl_group_ids :: "string list"
  pl_user_ids :: "string list"

definition add_unique :: "'a \<Rightarrow> 'a list \<Rightarrow> 'a list" where
  "add_unique x xs = (if x \<in> set xs then xs else xs @ [x])"

definition add_principal :: "access_grant \<Rightarrow> permission_lists \<Rightarrow> permission_lists" where
  "add_principal g pl =
     (if ag_principal_type g = ''group''
      then pl\<lparr>pl_group_ids := add_unique (ag_principal_id g) (pl_group_ids pl)\<rparr>
      else if ag_principal_type g = ''user''
      then pl\<lparr>pl_user_ids := add_unique (ag_principal_id g) (pl_user_ids pl)\<rparr>
      else pl)"

fun collect_grants :: "access_grant list \<Rightarrow> permission_lists \<times> permission_lists \<times> bool \<Rightarrow>
    permission_lists \<times> permission_lists \<times> bool" where
  "collect_grants [] s = s"
| "collect_grants (g # gs) (r, w, is_public) =
     (if ag_principal_type g = ''user'' \<and> ag_principal_id g = ''*'' \<and> ag_permission g = ''read''
      then collect_grants gs (r, w, True)
      else if ag_permission g = ''read'' then collect_grants gs (add_principal g r, w, is_public)
      else if ag_permission g = ''write'' then collect_grants gs (r, add_principal g w, is_public)
      else collect_grants gs (r, w, is_public))"

definition permission_json :: "permission_lists \<Rightarrow> json" where
  "permission_json pl =
     JObj [(''group_ids'', JList (map JStr (pl_group_ids pl))),
           (''user_ids'', JList (map JStr (pl_user_ids pl)))]"

definition grants_to_access_control :: "access_grant list \<Rightarrow> json dict option" where
  "grants_to_access_control gs =
     (if gs = [] then Some []
      else case collect_grants gs (\<lparr>pl_group_ids = [], pl_user_ids = []\<rparr>,
                                   \<lparr>pl_group_ids = [], pl_user_ids = []\<rparr>, False) of
        (r, w, is_public) \<Rightarrow>
          if is_public then None
          else Some [(''read'', permission_json r), (''write'', permission_json w)])"

subsection \<open>Grant payloads\<close>

type_synonym grant_key = "string \<times> string \<times> string"  \<comment> \<open>principal type, principal id, permission\<close>

text \<open>A pydantic model in the list is represented by its dump, a dictionary.\<close>

definition valid_grant_key :: "json \<Rightarrow> grant_key option" where
  "valid_grant_key grant =
     (case grant of
        JObj d \<Rightarrow>
          (let principal_type = jget d ''principal_type'';
               principal_id = jget d ''principal_id'';
               permission = jget d ''permission''
           in if principal_type \<notin> {JStr ''user'', JStr ''group'', JStr ''anyone''} then None
              else if permission \<notin> {JStr ''read'', JStr ''write''} then None
              else if \<not> is_str principal_id \<or> \<not> truthy principal_id then None
              else if principal_type = JStr ''anyone'' \<and>
                      (principal_id \<noteq> JStr ''*'' \<or> permission \<noteq> JStr ''read'') then None
              else case (principal_type, principal_id, permission) of
                     (JStr pt, JStr pid, JStr perm) \<Rightarrow> Some (pt, pid, perm)
                   | _ \<Rightarrow> None)
      | _ \<Rightarrow> None)"

definition normal_grant :: "json \<Rightarrow> grant_key \<Rightarrow> json" where
  "normal_grant i k =
     (case k of (pt, pid, perm) \<Rightarrow>
        JObj [(''id'', i), (''principal_type'', JStr pt), (''principal_id'', JStr pid),
              (''permission'', JStr perm)])"

text \<open>A fresh identifier is drawn only when the payload has no usable one.\<close>

definition grant_id :: "(nat \<Rightarrow> string) \<Rightarrow> nat \<Rightarrow> json \<Rightarrow> json \<times> nat" where
  "grant_id U n grant =
     (let i = jget (dict_of grant) ''id''
      in if is_str i \<and> truthy i then (i, n) else (JStr (U n), Suc n))"

fun normalize_loop :: "(nat \<Rightarrow> string) \<Rightarrow> json list \<Rightarrow> (grant_key \<times> json) list \<times> nat \<Rightarrow>
    (grant_key \<times> json) list \<times> nat" where
  "normalize_loop U [] s = s"
| "normalize_loop U (g # gs) (deduped, n) =
     (case valid_grant_key g of None \<Rightarrow> normalize_loop U gs (deduped, n)
      | Some k \<Rightarrow>
          (case grant_id U n g of (i, n') \<Rightarrow>
             normalize_loop U gs (AList.update k (normal_grant i k) deduped, n')))"

definition normalize_access_grants :: "(nat \<Rightarrow> string) \<Rightarrow> nat \<Rightarrow> json list \<Rightarrow> json list \<times> nat" where
  "normalize_access_grants U n gs =
     (case normalize_loop U gs ([], n) of (deduped, n') \<Rightarrow> (map snd deduped, n'))"

text \<open>\<open>grant['principal_type']\<close> and \<open>getattr(grant, ..., None)\<close> on an entry.\<close>

definition grant_field :: "string \<Rightarrow> json \<Rightarrow> json" where
  "grant_field k g = jget (dict_of g) k"

definition field_is :: "string \<Rightarrow> string \<Rightarrow> json \<Rightarrow> bool" where
  "field_is k v g \<longleftrightarrow> grant_field k g = JStr v"

definition has_public_read_access_grant :: "(nat \<Rightarrow> string) \<Rightarrow> nat \<Rightarrow> json list \<Rightarrow> bool" where
  "has_public_read_access_grant U n gs =
     list_ex (\<lambda>g. field_is ''principal_type'' ''user'' g \<and> field_is ''principal_id'' ''*'' g \<and>
                  field_is ''permission'' ''read'' g) (fst (normalize_access_grants U n gs))"

definition has_public_write_access_grant :: "(nat \<Rightarrow> string) \<Rightarrow> nat \<Rightarrow> json list \<Rightarrow> bool" where
  "has_public_write_access_grant U n gs =
     list_ex (\<lambda>g. field_is ''principal_type'' ''user'' g \<and> field_is ''principal_id'' ''*'' g \<and>
                  field_is ''permission'' ''write'' g) (fst (normalize_access_grants U n gs))"

definition has_anyone_read_access_grant :: "(nat \<Rightarrow> string) \<Rightarrow> nat \<Rightarrow> json list \<Rightarrow> bool" where
  "has_anyone_read_access_grant U n gs =
     list_ex (\<lambda>g. field_is ''principal_type'' ''anyone'' g \<and> field_is ''principal_id'' ''*'' g \<and>
                  field_is ''permission'' ''read'' g) (fst (normalize_access_grants U n gs))"

definition has_user_access_grant :: "(nat \<Rightarrow> string) \<Rightarrow> nat \<Rightarrow> json list \<Rightarrow> bool" where
  "has_user_access_grant U n gs =
     list_ex (\<lambda>g. field_is ''principal_type'' ''user'' g \<and> \<not> field_is ''principal_id'' ''*'' g)
       (fst (normalize_access_grants U n gs))"

definition strip_user_access_grants :: "json list \<Rightarrow> json list" where
  "strip_user_access_grants gs =
     filter (\<lambda>g. \<not> (field_is ''principal_type'' ''user'' g \<and> \<not> field_is ''principal_id'' ''*'' g)) gs"

definition strip_anyone_access_grants :: "json list \<Rightarrow> json list" where
  "strip_anyone_access_grants gs = filter (\<lambda>g. \<not> field_is ''principal_type'' ''anyone'' g) gs"

end
