(* ===== verification/GrantOps.thy ===== *)
theory GrantOps
  imports GrantTable
begin

text \<open>
  The operations and queries of \<open>AccessGrantsTable\<close>. The table has a unique constraint over
  (resource type, resource id, principal type, principal id, permission): a commit that would
  break it fails and leaves the tables as they were.
\<close>

type_synonym grant_row_key = "string \<times> string \<times> grant_key"

definition ag_key :: "access_grant \<Rightarrow> grant_row_key" where
  "ag_key g = (ag_resource_type g, ag_resource_id g,
     (ag_principal_type g, ag_principal_id g, ag_permission g))"

definition new_grant :: "env \<Rightarrow> nat \<Rightarrow> grant_row_key \<Rightarrow> access_grant" where
  "new_grant e n k =
     (case k of (rt, rid, pt, pid, perm) \<Rightarrow>
        \<lparr>ag_id = uuid4 e n, ag_resource_type = rt, ag_resource_id = rid, ag_principal_type = pt,
         ag_principal_id = pid, ag_permission = perm, ag_created_at = clock e\<rparr>)"

definition grants_of :: "db \<Rightarrow> string \<Rightarrow> string \<Rightarrow> access_grant list" where
  "grants_of d rt rid =
     filter (\<lambda>g. ag_resource_type g = rt \<and> ag_resource_id g = rid) (access_grant_t d)"

definition delete_grants :: "(access_grant \<Rightarrow> bool) \<Rightarrow> db \<Rightarrow> db" where
  "delete_grants P d = d\<lparr>access_grant_t := filter (\<lambda>g. \<not> P g) (access_grant_t d)\<rparr>"

definition commit_grants :: "'a \<Rightarrow> db \<Rightarrow> db \<Rightarrow> 'a result \<times> db" where
  "commit_grants x d d' =
     (if distinct (map ag_key (access_grant_t d')) then (Inr x, d') else (Inl DatabaseError, d))"

subsection \<open>Operations\<close>

definition grant_access ::
  "env \<Rightarrow> string \<Rightarrow> string \<Rightarrow> string \<Rightarrow> string \<Rightarrow> string \<Rightarrow> db \<Rightarrow> access_grant result \<times> db" where
  "grant_access e rt rid pt pid perm d =
     (case List.find (\<lambda>g. ag_key g = (rt, rid, pt, pid, perm)) (access_grant_t d) of
        Some existing \<Rightarrow> (Inr existing, d)
      | None \<Rightarrow>
          (let g = new_grant e (drawn d) (rt, rid, pt, pid, perm)
           in commit_grants g d
                (d\<lparr>access_grant_t := access_grant_t d @ [g], drawn := Suc (drawn d)\<rparr>)))"

definition revoke_access ::
  "string \<Rightarrow> string \<Rightarrow> string \<Rightarrow> string \<Rightarrow> string \<Rightarrow> db \<Rightarrow> bool \<times> db" where
  "revoke_access rt rid pt pid perm d =
     (list_ex (\<lambda>g. ag_key g = (rt, rid, pt, pid, perm)) (access_grant_t d),
      delete_grants (\<lambda>g. ag_key g = (rt, rid, pt, pid, perm)) d)"

definition revoke_all_access :: "string \<Rightarrow> string \<Rightarrow> db \<Rightarrow> nat \<times> db" where
  "revoke_all_access rt rid d =
     (length (grants_of d rt rid),
      delete_grants (\<lambda>g. ag_resource_type g = rt \<and> ag_resource_id g = rid) d)"

text \<open>A principal identifier that is not a string cannot be stored in the text column.\<close>

fun dict_row_key :: "json \<Rightarrow> grant_row_key option" where
  "dict_row_key (JObj [(_, JStr rt), (_, JStr rid), (_, JStr pt), (_, JStr pid), (_, JStr perm)]) =
     Some (rt, rid, pt, pid, perm)"
| "dict_row_key _ = None"

definition set_access_control ::
  "env \<Rightarrow> string \<Rightarrow> string \<Rightarrow> json dict option \<Rightarrow> db \<Rightarrow> access_grant list result \<times> db" where
  "set_access_control e rt rid access_control d =
     (case access_control_to_grants rt rid access_control of
        Inl err \<Rightarrow> (Inl err, d)
      | Inr dicts \<Rightarrow>
          (case those (map dict_row_key dicts) of
             None \<Rightarrow> (Inl DatabaseError, d)
           | Some keys \<Rightarrow>
               (let d1 = delete_grants (\<lambda>g. ag_resource_type g = rt \<and> ag_resource_id g = rid) d;
                    rows = map (\<lambda>(i, k). new_grant e i k) (enumerate (drawn d) keys)
                in commit_grants rows d
                     (d1\<lparr>access_grant_t := access_grant_t d1 @ rows,
                         drawn := drawn d + length rows\<rparr>))))"

definition json_grant_key :: "json \<Rightarrow> grant_key" where
  "json_grant_key g =
     (case (grant_field ''principal_type'' g, grant_field ''principal_id'' g,
            grant_field ''permission'' g) of
        (JStr pt, JStr pid, JStr perm) \<Rightarrow> (pt, pid, perm)
      | _ \<Rightarrow> ([], [], []))"

definition replace_access_grants ::
  "env \<Rightarrow> string \<Rightarrow> string \<Rightarrow> json list \<Rightarrow> db \<Rightarrow> access_grant list \<times> db" where
  "replace_access_grants e rt rid access_grants d =
     (let d1 = delete_grants (\<lambda>g. ag_resource_type g = rt \<and> ag_resource_id g = rid) d;
          (normalized, n) = normalize_access_grants (uuid4 e) (drawn d) access_grants;
          rows = map (\<lambda>(i, g). new_grant e i (rt, rid, json_grant_key g)) (enumerate n normalized)
      in (rows, d1\<lparr>access_grant_t := access_grant_t d1 @ rows, drawn := n + length rows\<rparr>))"

definition set_access_grants ::
  "env \<Rightarrow> string \<Rightarrow> string \<Rightarrow> json list \<Rightarrow> db \<Rightarrow> access_grant list result \<times> db" where
  "set_access_grants e rt rid access_grants d =
     (case replace_access_grants e rt rid access_grants d of (rows, d') \<Rightarrow> commit_grants rows d d')"

subsection \<open>Queries\<close>

definition get_access_control :: "db \<Rightarrow> string \<Rightarrow> string \<Rightarrow> json dict option" where
  "get_access_control d rt rid = grants_to_access_control (grants_of d rt rid)"

definition get_grants_by_resource :: "db \<Rightarrow> string \<Rightarrow> string \<Rightarrow> access_grant list" where
  "get_grants_by_resource d rt rid = grants_of d rt rid"

definition get_grants_by_resources ::
  "db \<Rightarrow> string \<Rightarrow> string list \<Rightarrow> (string \<times> access_grant list) list" where
  "get_grants_by_resources d rt rids =
     (let rows = filter (\<lambda>g. ag_resource_type g = rt \<and> ag_resource_id g \<in> set rids) (access_grant_t d)
      in map (\<lambda>rid. (rid, filter (\<lambda>g. ag_resource_id g = rid) rows)) (dedup_first rids))"

definition has_anyone_access :: "db \<Rightarrow> string \<Rightarrow> string \<Rightarrow> string \<Rightarrow> bool" where
  "has_anyone_access d rt rid perm =
     list_ex (\<lambda>g. ag_resource_type g = rt \<and> ag_resource_id g = rid \<and>
        ag_principal_type g = ''anyone'' \<and> ag_principal_id g = ''*'' \<and> ag_permission g = perm)
       (access_grant_t d)"

text \<open>The identifiers of the groups of a user, read when the caller passes none.\<close>

definition effective_group_ids :: "db \<Rightarrow> string \<Rightarrow> string list option \<Rightarrow> string list" where
  "effective_group_ids d user_id user_group_ids =
     (case user_group_ids of Some ids \<Rightarrow> ids
      | None \<Rightarrow> map g_id (get_groups_by_member_id d user_id True))"

definition matches_principal :: "string \<Rightarrow> string list \<Rightarrow> access_grant \<Rightarrow> bool" where
  "matches_principal user_id gids g \<longleftrightarrow>
     ag_principal_type g = ''user'' \<and> ag_principal_id g = ''*'' \<or>
     ag_principal_type g = ''user'' \<and> ag_principal_id g = user_id \<or>
     gids \<noteq> [] \<and> ag_principal_type g = ''group'' \<and> ag_principal_id g \<in> set gids"

definition has_access ::
  "db \<Rightarrow> string \<Rightarrow> string \<Rightarrow> string \<Rightarrow> string \<Rightarrow> string list option \<Rightarrow> bool" where
  "has_access d user_id rt rid perm user_group_ids =
     (let gids = effective_group_ids d user_id user_group_ids
      in list_ex (\<lambda>g. ag_resource_type g = rt \<and> ag_resource_id g = rid \<and> ag_permission g = perm \<and>
           matches_principal user_id gids g) (access_grant_t d))"

definition get_accessible_resource_ids ::
  "db \<Rightarrow> string \<Rightarrow> string \<Rightarrow> string list \<Rightarrow> string \<Rightarrow> string list option \<Rightarrow> string list" where
  "get_accessible_resource_ids d user_id rt rids perm user_group_ids =
     (if rids = [] then []
      else let gids = effective_group_ids d user_id user_group_ids
           in remdups (map ag_resource_id (filter (\<lambda>g. ag_resource_type g = rt \<and>
                ag_resource_id g \<in> set rids \<and> ag_permission g = perm \<and>
                matches_principal user_id gids g) (access_grant_t d))))"

definition get_users_not_in_roles :: "db \<Rightarrow> string list \<Rightarrow> user_row list" where
  "get_users_not_in_roles d roles = filter (\<lambda>u. u_role u \<notin> set roles) (user_t d)"

text \<open>The loop returns at once on a public grant: \<open>None\<close> here.\<close>

fun collect_principals :: "string \<Rightarrow> access_grant list \<Rightarrow> string list \<Rightarrow> string list \<Rightarrow>
    (string list \<times> string list) option" where
  "collect_principals perm [] uids gids = Some (uids, gids)"
| "collect_principals perm (g # gs) uids gids =
     (if ag_permission g \<noteq> perm then collect_principals perm gs uids gids
      else if ag_principal_type g = ''user'' then
        (if ag_principal_id g = ''*'' then None
         else collect_principals perm gs (List.insert (ag_principal_id g) uids) gids)
      else if ag_principal_type g = ''group'' then
        collect_principals perm gs uids (gids @ [ag_principal_id g])
      else collect_principals perm gs uids gids)"

definition get_user_ids_by_access_grants ::
  "db \<Rightarrow> access_grant list \<Rightarrow> string \<Rightarrow> string set" where
  "get_user_ids_by_access_grants d gs perm =
     (case collect_principals perm gs [] [] of
        None \<Rightarrow> u_id ` set (get_users_not_in_roles d [''pending''])
      | Some (uids, gids) \<Rightarrow>
          if gids = [] then set uids
          else set uids \<union> (\<Union>(g, us) \<in> set (get_group_user_ids_by_ids d gids True). set us))"

definition get_users_with_access :: "db \<Rightarrow> string \<Rightarrow> string \<Rightarrow> string \<Rightarrow> user_row list" where
  "get_users_with_access d rt rid perm =
     (let gs = filter (\<lambda>g. ag_permission g = perm) (grants_of d rt rid);
          ids = get_user_ids_by_access_grants d gs perm
      in if ids = {} then [] else filter (\<lambda>u. u_id u \<in> ids) (user_t d))"

definition get_revoked_user_ids_by_resource ::
  "db \<Rightarrow> string \<Rightarrow> string \<Rightarrow> access_grant list \<Rightarrow> string \<Rightarrow> string set" where
  "get_revoked_user_ids_by_resource d rt rid previous perm =
     (let current = get_grants_by_resource d rt rid;
          principals_of = (\<lambda>gs. [(ag_principal_type g, ag_principal_id g). g \<leftarrow> gs, ag_permission g = perm])
      in if set (principals_of previous) \<subseteq> set (principals_of current) \<or>
            (''user'', ''*'') \<in> set (principals_of current)
         then {}
         else get_user_ids_by_access_grants d previous perm -
              get_user_ids_by_access_grants d current perm)"

text \<open>
  The list filters: \<open>doc\<close> is the (id, owner) pair of a row of the filtered table; an absent user
  is the empty string. \<open>grant_exists\<close> is the correlated \<open>EXISTS\<close> subquery.
\<close>

definition grant_exists ::
  "db \<Rightarrow> string \<Rightarrow> string \<Rightarrow> string list \<Rightarrow> string \<Rightarrow> string \<Rightarrow> bool" where
  "grant_exists d rt user_id group_ids perm doc_id =
     list_ex (\<lambda>g. ag_resource_type g = rt \<and> ag_resource_id g = doc_id \<and> ag_permission g = perm \<and>
        (ag_principal_type g = ''user'' \<and> ag_principal_id g = ''*'' \<or>
         user_id \<noteq> [] \<and> ag_principal_type g = ''user'' \<and> ag_principal_id g = user_id \<or>
         group_ids \<noteq> [] \<and> ag_principal_type g = ''group'' \<and> ag_principal_id g \<in> set group_ids))
       (access_grant_t d)"

definition has_read_only_permission_filter ::
  "db \<Rightarrow> string \<Rightarrow> string \<Rightarrow> string list \<Rightarrow> (string \<times> string) list \<Rightarrow> (string \<times> string) list" where
  "has_read_only_permission_filter d rt user_id group_ids docs =
     filter (\<lambda>(doc_id, owner). grant_exists d rt user_id group_ids ''read'' doc_id \<and>
        \<not> grant_exists d rt user_id group_ids ''write'' doc_id \<and>
        (user_id \<noteq> [] \<longrightarrow> owner \<noteq> user_id)) docs"

definition has_permission_filter ::
  "db \<Rightarrow> string \<Rightarrow> string \<Rightarrow> string list \<Rightarrow> string \<Rightarrow> (string \<times> string) list \<Rightarrow>
   (string \<times> string) list" where
  "has_permission_filter d rt user_id group_ids perm docs =
     (if perm = ''read_only'' then has_read_only_permission_filter d rt user_id group_ids docs
      else if group_ids = [] \<and> user_id = [] then docs
      else filter (\<lambda>(doc_id, owner). grant_exists d rt user_id group_ids perm doc_id \<or>
             user_id \<noteq> [] \<and> owner = user_id) docs)"

end
