(* ===== verification/Samples.thy ===== *)
theory Samples
  imports GroupInv GrantOps
begin

text \<open>
  Concrete tables for the witnesses: an environment, a small group hierarchy, and grants on it.
\<close>

definition sample_env :: env where
  "sample_env = \<lparr>uuid4 = (\<lambda>n. replicate (Suc n) (CHR ''u'')), clock = 100, dialect = ''sqlite'',
     default_share = JStr ''members''\<rparr>"

definition sample_form :: "string option \<Rightarrow> group_form" where
  "sample_form p = \<lparr>gf_parent_set = True, gf_parent = p, gf_name = ''team'', gf_description = [],
     gf_permissions = JNull, gf_data = JNull\<rparr>"

text \<open>Groups \<open>u\<close> (root), \<open>uu\<close> and \<open>uuu\<close> in a chain; alice in \<open>uuu\<close>, bob in \<open>uu\<close> and in \<open>uuu\<close>.\<close>

definition sample_group :: "string \<Rightarrow> string option \<Rightarrow> group_row" where
  "sample_group i p = \<lparr>g_id = i, g_parent = p, g_user_id = ''admin'', g_name = ''team'',
     g_description = [], g_data = JObj [(''config'', JObj [(''share'', JStr ''members'')])],
     g_meta = JNull, g_permissions = JNull, g_created_at = 100, g_updated_at = 100\<rparr>"

definition sample_member :: "string \<Rightarrow> string \<Rightarrow> group_member" where
  "sample_member g u = \<lparr>gm_id = [], gm_group_id = g, gm_user_id = u,
     gm_created_at = 100, gm_updated_at = 100\<rparr>"

definition sample_db :: db where
  "sample_db = empty_db\<lparr>group_t := [sample_group ''u'' None, sample_group ''uu'' (Some ''u''),
       sample_group ''uuu'' (Some ''uu'')],
     group_member_t := [sample_member ''uuu'' ''alice'', sample_member ''uu'' ''bob'',
       sample_member ''uuu'' ''bob''], drawn := 3\<rparr>"

lemma inj_sample_uuid: "inj (uuid4 sample_env)"
  by (auto simp: inj_def sample_env_def dest: arg_cong [where f = length])

lemma sample_db_ok: "hierarchy_ok sample_db"
proof -
  have "edges (shape (group_t sample_db)) = {(''uu'', ''u''), (''uuu'', ''uu'')}"
    by (auto simp: sample_db_def sample_group_def edges_def shape_def empty_db_def)
  moreover have "acyclic {(''uu'', ''u''), (''uuu'', ''uu'')}"
    by (rule acyclicI_order [of _ length]) auto
  ultimately show ?thesis
    by (simp add: hierarchy_ok_def forest_def)
       (simp add: sample_db_def sample_group_def sample_member_def shape_def empty_db_def member_pairs_def)
qed


definition sample_grant :: "string \<Rightarrow> string \<Rightarrow> string \<Rightarrow> access_grant" where
  "sample_grant pt pid perm = \<lparr>ag_id = [], ag_resource_type = ''model'', ag_resource_id = ''m'',
     ag_principal_type = pt, ag_principal_id = pid, ag_permission = perm, ag_created_at = 100\<rparr>"

definition sample_user :: "string \<Rightarrow> string \<Rightarrow> user_row" where
  "sample_user i role = \<lparr>u_id = i, u_role = role, u_name = i, u_email = i\<rparr>"

text \<open>The same groups, with a model \<open>m\<close> shared with the group \<open>u\<close> for reading and with carol for writing.\<close>

definition shared_db :: db where
  "shared_db = sample_db\<lparr>access_grant_t := [sample_grant ''group'' ''u'' ''read'',
       sample_grant ''user'' ''carol'' ''write''],
     user_t := [sample_user ''alice'' ''user'', sample_user ''bob'' ''user'', sample_user ''carol'' ''pending'']\<rparr>"

lemma shared_db_ok: "hierarchy_ok shared_db"
  using sample_db_ok by (simp add: hierarchy_ok_def member_pairs_def shared_db_def)

end
