(* ===== verification/GroupProps.thy ===== *)
theory GroupProps
  imports Samples
begin

text \<open>
  The properties of the group component: the hierarchy invariant in every reachable state, the
  meaning of the two membership queries, and what the operations do to the effective membership
  of the users, including which sessions they refresh.
\<close>

subsection \<open>Paths in a changed hierarchy\<close>

lemma rtrancl_edges_elsewhere:
  assumes "(c, g) \<in> E'\<^sup>*" and "\<And>x y. (x, y) \<in> E' \<Longrightarrow> x \<noteq> i \<Longrightarrow> (x, y) \<in> E"
  shows "(c, g) \<in> E\<^sup>* \<or> (c, i) \<in> E\<^sup>*"
  using assms(1)
proof (induction rule: rtrancl_induct)
  case base
  then show ?case by simp
next
  case (step y z)
  then show ?case using assms(2) [of y z] by (cases "y = i") (auto intro: rtrancl_into_rtrancl)
qed

lemma only_witness:
  "(\<exists>c. P c \<and> Q c) \<noteq> (\<exists>c. c \<noteq> a \<and> P c \<and> Q c) \<Longrightarrow> P a"
  by metis

lemma edges_reparent_elsewhere:
  "x \<noteq> i \<Longrightarrow> (x, y) \<in> edges (reparent i q s) \<longleftrightarrow> (x, y) \<in> edges s"
  by (auto simp: edges_def reparent_def split: if_splits) (force split: if_splits)+

lemma rtrancl_remove_node:
  assumes "(i, q) \<in> set s" and "forest s" and "c \<noteq> i" and "h \<noteq> i"
  shows "(c, h) \<in> (edges (remove_node i q s))\<^sup>* \<longleftrightarrow> (c, h) \<in> (edges s)\<^sup>*"
proof
  let ?E' = "edges (remove_node i q s)"
  have q: "(i, p) \<in> edges s" if "q = Some p" for p
    using that assms(1) by (simp add: edges_def)
  have "?E' \<subseteq> (edges s)\<^sup>*"
  proof
    fix z assume "z \<in> ?E'"
    moreover obtain x y where "z = (x, y)" by (cases z)
    ultimately show "z \<in> (edges s)\<^sup>*"
      using q by (auto simp: edges_remove_node intro: rtrancl_into_rtrancl)
  qed
  then show "(c, h) \<in> ?E'\<^sup>* \<Longrightarrow> (c, h) \<in> (edges s)\<^sup>*"
    by (metis rtrancl_idemp rtrancl_mono subsetD)
  have "(x \<noteq> i \<longrightarrow> (c, x) \<in> ?E'\<^sup>*) \<and> (x = i \<longrightarrow> (\<forall>p. q = Some p \<longrightarrow> (c, p) \<in> ?E'\<^sup>*))"
    if "(c, x) \<in> (edges s)\<^sup>*" for x
    using that
  proof (induction rule: rtrancl_induct)
    case base
    with assms(3) show ?case by simp
  next
    case (step y z)
    show ?case
    proof (cases "y = i")
      case True
      then have "q = Some z"
        using step.hyps(2) forest_edge_unique [OF assms(2) _ assms(1)] by blast
      with step.IH True show ?thesis by auto
    next
      case False
      with step.IH have "(c, y) \<in> ?E'\<^sup>*" by simp
      then show ?thesis
        using step.hyps(2) False by (auto simp: edges_remove_node intro: rtrancl_into_rtrancl)
    qed
  qed
  then show "(c, h) \<in> (edges s)\<^sup>* \<Longrightarrow> (c, h) \<in> ?E'\<^sup>*"
    using assms(4) by blast
qed

lemma update_commit:
  assumes "update_group_by_id e gid form d = (Inr (g', ch, affected), d')"
  obtains g where "get_group_by_id d gid = Some g" and "g' = updated_group e form g"
    and "affected = (if update_affects_members form g g'
                     then map snd (group_user_memberships d [gid] True) else [])"
    and "d' = d\<lparr>group_t := map (\<lambda>x. if g_id x = gid then g' else x) (group_t d)\<rparr>"
    and "gf_parent_set form \<Longrightarrow> validate_parent d (Some gid) (gf_parent form) = Inr ()"
    and "ch = \<lparr>old_parent_group_id = g_parent g, new_parent_group_id = g_parent g'\<rparr>"
  using hierarchy_transaction_commit [OF assms [unfolded update_group_by_id_def]]
  by (cases "get_group_by_id d gid") (auto simp: bind_result_Inr Let_def split: if_splits intro!: that)

lemma delete_commit:
  assumes "delete_group_by_id e gid d = (Inr (q, ch, affected), d')"
  obtains g where "get_group_by_id d gid = Some g" and "q = g_parent g"
    and "affected = map snd (group_user_memberships d [gid] True)"
    and "d' = deleted_group_db e g d"
  using hierarchy_transaction_commit [OF assms [unfolded delete_group_by_id_def]]
  by (cases "get_group_by_id d gid") (auto simp: Let_def intro!: that)

lemma set_affected:
  assumes "hierarchy_ok d"
  shows "set (map snd (group_user_memberships d [gid] True)) = {u. belongs d u gid}"
proof -
  have "u \<in> snd ` X \<longleftrightarrow> (\<exists>g. (g, u) \<in> X)" for u :: string and X :: "(string \<times> string) set"
    by force
  then show ?thesis using set_group_user_memberships [OF assms, of _ _ "[gid]"] by auto
qed

subsection \<open>Properties\<close>

text \<open>
  C6: In every database the group operations can produce from the empty one (with random
  identifiers that do not repeat), group identifiers are unique, the parent pointers form no
  cycle and point to existing groups, a user is at most once a member of a group, and every
  membership row names an existing group.
\<close>

theorem group_hierarchy_is_forest:
  assumes "reachable_groups U d" and "inj U"
  shows "distinct (map g_id (group_t d)) \<and>
    acyclic (set (parent_edges (group_t d))) \<and>
    (\<forall>g p. g \<in> set (group_t d) \<longrightarrow> g_parent g = Some p \<longrightarrow> p \<in> g_id ` set (group_t d)) \<and>
    distinct (member_pairs d) \<and>
    gm_group_id ` set (group_member_t d) \<subseteq> g_id ` set (group_t d)"
proof -
  have ok: "hierarchy_ok d" using reachable_groups_ok [OF assms] by simp
  then have "forest (shape (group_t d))" by (simp add: hierarchy_ok_def)
  moreover have "p \<in> g_id ` set (group_t d)"
    if "g \<in> set (group_t d)" and "g_parent g = Some p" for g p
  proof -
    have "(g_id g, p) \<in> edges (shape (group_t d))"
      using that by (force simp: edges_def shape_def)
    from edges_snd [OF this \<open>forest _\<close>] show ?thesis by simp
  qed
  moreover have "gm_group_id ` set (group_member_t d) \<subseteq> g_id ` set (group_t d)"
    using ok by (auto simp: hierarchy_ok_def member_pairs_def)
  ultimately show ?thesis
    using ok by (auto simp: hierarchy_ok_def forest_def)
qed

text \<open>
  With inheritance, the groups of a user are the groups reached by the parent pointers from a
  group the user is a direct member of, each once; and the inverse query over the descendants of
  a group returns the user exactly when that group is among them.
\<close>

theorem inherited_membership_meaning:
  assumes "hierarchy_ok d"
  shows "distinct (map g_id (get_groups_by_member_id d uid True)) \<and>
    (g \<in> set (get_groups_by_member_id d uid True) \<longleftrightarrow>
       g \<in> set (group_t d) \<and>
       (\<exists>m \<in> set (group_member_t d). gm_user_id m = uid \<and>
          (gm_group_id m, g_id g) \<in> (set (parent_edges (group_t d)))\<^sup>*)) \<and>
    (uid \<in> set (get_group_user_ids_by_id d gid True) \<longleftrightarrow>
       gid \<in> g_id ` set (get_groups_by_member_id d uid True))"
proof -
  have dist: "distinct (map g_id (get_groups_by_member_id d uid True))"
    using assms by (intro distinct_get_groups_by_member_id) (simp add: hierarchy_ok_def forest_def)
  have G: "set (get_groups_by_member_id d uid True) = {g \<in> set (group_t d). belongs d uid (g_id g)}"
    by (auto simp: set_get_groups_by_member_id set_user_group_memberships)
  have bel: "belongs d uid x \<longleftrightarrow> (\<exists>m \<in> set (group_member_t d). gm_user_id m = uid \<and>
          (gm_group_id m, x) \<in> (set (parent_edges (group_t d)))\<^sup>*)" for x
    by (auto simp: belongs_def member_pairs_def)
  have "uid \<in> set (get_group_user_ids_by_id d gid True) \<longleftrightarrow> belongs d uid gid"
    using set_group_user_memberships [OF assms, of gid uid "[gid]"]
    by (auto simp: get_group_user_ids_by_id_def get_group_user_ids_by_ids_def dedup_first_def Let_def)
  also have "\<dots> \<longleftrightarrow> gid \<in> g_id ` set (get_groups_by_member_id d uid True)"
    unfolding G using belongs_exists [OF assms] by blast
  finally show ?thesis
    using dist by (simp only: G bel mem_Collect_eq simp_thms)
qed

text \<open>
  Deleting a group keeps, for every user, the groups inherited through any other group the
  user is a direct member of: the children are promoted to the deleted group's parent, so only
  the deleted group itself and what the user reached through it alone is lost, and every user
  who belonged to it has the sessions refreshed.
\<close>

theorem delete_group_keeps_other_memberships:
  assumes "hierarchy_ok d"
    and "delete_group_by_id e gid d = (Inr (q, children, affected), d')"
  shows "(h \<noteq> gid \<longrightarrow> belongs d' u h \<longleftrightarrow>
      (\<exists>c. c \<noteq> gid \<and> (c, u) \<in> set (member_pairs d) \<and> (c, h) \<in> (set (parent_edges (group_t d)))\<^sup>*)) \<and>
    \<not> belongs d' u gid \<and>
    (belongs d u h \<noteq> belongs d' u h \<longrightarrow> u \<in> set affected)"
proof -
  from delete_commit [OF assms(2)] obtain g where g: "get_group_by_id d gid = Some g"
    and aff: "affected = map snd (group_user_memberships d [gid] True)"
    and d': "d' = deleted_group_db e g d" by blast
  have gid: "g_id g = gid" using get_group_by_id_Some [OF g] by simp
  have fs: "forest (shape (group_t d))" using assms(1) by (simp add: hierarchy_ok_def)
  have kept: "belongs d' u h \<longleftrightarrow>
      (\<exists>c. c \<noteq> gid \<and> (c, u) \<in> set (member_pairs d) \<and> (c, h) \<in> (edges (shape (group_t d)))\<^sup>*)"
    if "h \<noteq> gid" for h
    using rtrancl_remove_node [OF get_group_by_id_shape [OF assms(1) g] fs _ that]
    by (auto simp: belongs_def d' gid)
  have gone: "\<not> belongs d' u gid"
    using belongs_exists [of d' u gid] deleted_group_db_ok [OF assms(1) g]
    by (auto simp: d' gid)
  have "belongs d u gid" if "belongs d u h \<noteq> belongs d' u h"
  proof (cases "h = gid")
    case True
    with that gone show ?thesis by simp
  next
    case False
    have "(gid, u) \<in> set (member_pairs d)"
      using that unfolding kept [OF False] belongs_def [of d u h] by (rule only_witness)
    then show ?thesis unfolding belongs_def by (intro exI [of _ gid]) simp
  qed
  with kept gone show ?thesis
    using set_affected [OF assms(1), of gid] unfolding aff by auto
qed

text \<open>
  A parent that is the group itself or one of its descendants is refused: the update returns
  the 400 error and the database is unchanged.
\<close>

theorem update_refuses_cycle:
  assumes "hierarchy_ok d" and "dialect e \<in> {''sqlite'', ''postgresql''}"
    and "g \<in> set (group_t d)" and "g_id g = gid"
    and "gf_parent_set form" and "gf_parent form = Some p" and "p \<noteq> []"
    and "p \<in> g_id ` set (group_t d)" and "(p, gid) \<in> (set (parent_edges (group_t d)))\<^sup>*"
  shows "update_group_by_id e gid form d =
    (Inl (GroupHierarchyError 400 ''A group cannot be its own parent or a descendant of itself.''), d)"
proof -
  have "get_group_by_id d gid = Some g"
    using get_group_by_id_eq [OF assms(1,3)] assms(4) by simp
  moreover have "lookup_group (group_t d) (Some p) \<noteq> None"
    using assms(8) get_group_by_id_None [of d p] by (simp add: get_group_by_id_def)
  moreover have "Some gid \<in> Some ` set (ancestor_groups d [p])"
    using assms(8,9) by (auto simp: set_ancestor_groups)
  ultimately show ?thesis
    using assms(2,5,6,7)
    by (simp add: update_group_by_id_def hierarchy_transaction_supported validate_parent_def)
qed

text \<open>
  Moving or editing a group refreshes the sessions of every user whose set of effective
  groups changes by it.
\<close>

theorem update_refreshes_affected_users:
  assumes "hierarchy_ok d"
    and "update_group_by_id e gid form d = (Inr (g', changes, affected), d')"
    and "belongs d u h \<noteq> belongs d' u h"
  shows "u \<in> set affected"
proof -
  from update_commit [OF assms(2)] obtain g where g: "get_group_by_id d gid = Some g"
    and g': "g' = updated_group e form g"
    and aff: "affected = (if update_affects_members form g g'
                     then map snd (group_user_memberships d [gid] True) else [])"
    and d': "d' = d\<lparr>group_t := map (\<lambda>x. if g_id x = gid then g' else x) (group_t d)\<rparr>"
    by blast
  have gid: "g_id g' = gid" using get_group_by_id_Some [OF g] by (simp add: g' updated_group_def)
  let ?s = "shape (group_t d)"
  have sh: "shape (group_t d') = reparent gid (g_parent g') ?s"
    using gid by (simp add: d' shape_replace)
  have mp: "member_pairs d' = member_pairs d" by (simp add: d')
  have "g_parent g' \<noteq> g_parent g"
  proof
    assume "g_parent g' = g_parent g"
    then have "shape (group_t d') = ?s"
      using get_group_by_id_shape [OF assms(1) g] assms(1)
      by (simp add: sh reparent_self hierarchy_ok_def forest_def)
    with assms(3) mp show False by (simp add: belongs_def)
  qed
  then have affected: "set affected = {u. belongs d u gid}"
    using set_affected [OF assms(1)] by (simp add: aff update_affects_members_def)
  have step: "(x, y) \<in> edges (shape (group_t d')) \<longleftrightarrow> (x, y) \<in> edges ?s" if "x \<noteq> gid" for x y
    using that by (simp add: sh edges_reparent_elsewhere)
  have "belongs d u gid"
  proof (cases "belongs d u h")
    case True
    then obtain c where c: "(c, u) \<in> set (member_pairs d)" "(c, h) \<in> (edges ?s)\<^sup>*"
      and "(c, h) \<notin> (edges (shape (group_t d')))\<^sup>*"
      using assms(3) mp by (auto simp: belongs_def)
    then have "(c, gid) \<in> (edges (shape (group_t d')))\<^sup>*"
      using rtrancl_edges_elsewhere [OF c(2), where E = "edges (shape (group_t d'))" and i = gid]
        step by simp
    from rtrancl_edges_elsewhere [OF this, where E = "edges ?s" and i = gid]
    have "(c, gid) \<in> (edges ?s)\<^sup>*" using step by simp
    with c show ?thesis by (auto simp: belongs_def)
  next
    case False
    then obtain c where c: "(c, u) \<in> set (member_pairs d)" "(c, h) \<in> (edges (shape (group_t d')))\<^sup>*"
      and "(c, h) \<notin> (edges ?s)\<^sup>*"
      using assms(3) mp by (auto simp: belongs_def)
    then have "(c, gid) \<in> (edges ?s)\<^sup>*"
      using rtrancl_edges_elsewhere [OF c(2), where E = "edges ?s" and i = gid] step by simp
    with c show ?thesis by (auto simp: belongs_def)
  qed
  with affected show ?thesis by simp
qed

text \<open>
  Setting the members of a group makes exactly the requested users its direct members,
  leaves the memberships of every other group alone, and refreshes exactly the users who were
  added or removed, each once.
\<close>

theorem set_group_users_exact:
  assumes "hierarchy_ok d"
    and "set_group_user_ids_by_id e gid uids d = (Inr refreshed, d')"
  shows "set (group_members d' gid) = set uids \<and>
    (h \<noteq> gid \<longrightarrow> set (group_members d' h) = set (group_members d h)) \<and>
    distinct refreshed \<and>
    set refreshed = (set (group_members d gid) - set uids) \<union> (set uids - set (group_members d gid))"
proof -
  from hierarchy_transaction_commit [OF assms(2) [unfolded set_group_user_ids_by_id_def]]
  have r: "refreshed = minus_list (group_members d gid) (remdups uids) @
        minus_list (remdups uids) (group_members d gid)"
    and mp: "member_pairs d' = member_pairs (add_members e
        (map (Pair gid) (minus_list (remdups uids) (group_members d gid)))
        (delete_members (map (Pair gid) (minus_list (group_members d gid) (remdups uids))) d))"
    by (auto simp: Let_def split: if_splits)
  have "set (group_members d' gid) = set uids"
    by (auto simp: set_group_members mp)
  moreover have "set (group_members d' h) = set (group_members d h)" if "h \<noteq> gid"
    using that by (auto simp: set_group_members mp)
  moreover have "distinct refreshed"
    by (auto simp: r)
  ultimately show ?thesis
    by (auto simp: r)
qed

subsection \<open>Witnesses\<close>

theorem group_hierarchy_is_forest_witness:
  "acyclic (set (parent_edges (group_t (snd (insert_new_group sample_env ''admin'' (sample_form None) empty_db)))))"
  using group_hierarchy_is_forest [OF reachable_groups.step [OF reachable_groups.start refl
      group_step.insert [of sample_env empty_db "''admin''" "sample_form None"]] inj_sample_uuid] by simp

theorem inherited_membership_meaning_witness:
  "distinct (map g_id (get_groups_by_member_id sample_db ''alice'' True))"
  using inherited_membership_meaning [OF sample_db_ok, of "''alice''"] by simp

lemma sample_delete:
  "fst (delete_group_by_id sample_env ''uu'' sample_db) =
     Inr (Some ''u'', [''uuu''], [''alice'', ''bob''])"
  by code_simp

theorem delete_group_keeps_other_memberships_witness:
  "belongs (snd (delete_group_by_id sample_env ''uu'' sample_db)) ''alice'' ''u''"
proof -
  have del: "delete_group_by_id sample_env ''uu'' sample_db =
      (Inr (Some ''u'', [''uuu''], [''alice'', ''bob'']), snd (delete_group_by_id sample_env ''uu'' sample_db))"
    by (metis sample_delete prod.collapse)
  have e: "set (parent_edges (group_t sample_db)) = {(''uu'', ''u''), (''uuu'', ''uu'')}"
    by code_simp
  have "(''uuu'', ''u'') \<in> (set (parent_edges (group_t sample_db)))\<^sup>*"
    unfolding e by (rule rtrancl_into_rtrancl [of _ "''uu''"]) auto
  moreover have "(''uuu'', ''alice'') \<in> set (member_pairs sample_db)"
    by code_simp
  ultimately show ?thesis
    using delete_group_keeps_other_memberships [OF sample_db_ok del, of "''u''" "''alice''"]
    by (metis list.distinct(1) list.inject)
qed

theorem update_refuses_cycle_witness:
  "update_group_by_id sample_env ''u'' (sample_form (Some ''uuu'')) sample_db =
    (Inl (GroupHierarchyError 400 ''A group cannot be its own parent or a descendant of itself.''), sample_db)"
proof (rule update_refuses_cycle [OF sample_db_ok, of _ "sample_group ''u'' None" _ _ "''uuu''"])
  have e: "set (parent_edges (group_t sample_db)) = {(''uu'', ''u''), (''uuu'', ''uu'')}"
    by code_simp
  show "(''uuu'', ''u'') \<in> (set (parent_edges (group_t sample_db)))\<^sup>*"
    unfolding e by (rule rtrancl_into_rtrancl [of _ "''uu''"]) auto
qed (simp_all add: sample_env_def sample_form_def sample_db_def sample_group_def)

text \<open>Detaching \<open>uu\<close> from \<open>u\<close> takes the root group from alice, whose sessions are refreshed.\<close>

lemma sample_update:
  "map_sum id (\<lambda>(g, c, a). a) (fst (update_group_by_id sample_env ''uu'' (sample_form None) sample_db)) =
     Inr [''alice'', ''bob'']"
  by code_simp

theorem update_refreshes_affected_users_witness:
  "\<exists>g' c affected d'. update_group_by_id sample_env ''uu'' (sample_form None) sample_db =
     (Inr (g', c, affected), d') \<and> ''alice'' \<in> set affected"
proof -
  obtain g' c d' where upd: "update_group_by_id sample_env ''uu'' (sample_form None) sample_db =
      (Inr (g', c, [''alice'', ''bob'']), d')"
    using sample_update
    by (cases "update_group_by_id sample_env ''uu'' (sample_form None) sample_db"; cases "fst (update_group_by_id sample_env ''uu'' (sample_form None) sample_db)") auto
  have "''u'' \<in> snd ` set (user_group_memberships sample_db [''alice''] True)" by code_simp
  then have "belongs sample_db ''alice'' ''u''"
    using set_user_group_memberships [of _ "''u''" sample_db "[''alice'']"] by force
  moreover have "\<not> belongs d' ''alice'' ''u''"
  proof -
    have "''u'' \<notin> snd ` set (user_group_memberships
        (snd (update_group_by_id sample_env ''uu'' (sample_form None) sample_db)) [''alice''] True)" by code_simp
    then show ?thesis
      using set_user_group_memberships [of "''alice''" "''u''" d' "[''alice'']"] upd by force
  qed
  ultimately show ?thesis
    using update_refreshes_affected_users [OF sample_db_ok upd, of "''alice''" "''u''"] upd by blast
qed

lemma sample_set_users:
  "fst (set_group_user_ids_by_id sample_env ''uuu'' [''bob'', ''carol''] sample_db) = Inr [''alice'', ''carol'']"
  by code_simp

theorem set_group_users_exact_witness:
  "set (group_members (snd (set_group_user_ids_by_id sample_env ''uuu'' [''bob'', ''carol''] sample_db)) ''uuu'')
     = {''bob'', ''carol''}"
proof -
  have "set_group_user_ids_by_id sample_env ''uuu'' [''bob'', ''carol''] sample_db = (Inr [''alice'', ''carol''],
      snd (set_group_user_ids_by_id sample_env ''uuu'' [''bob'', ''carol''] sample_db))"
    by (metis sample_set_users prod.collapse)
  from set_group_users_exact [OF sample_db_ok this] show ?thesis by simp
qed

end
