(* ===== verification/GrantProps.thy ===== *)
theory GrantProps
  imports GrantOps
begin

text \<open>
  The grant table as a set of grants: the normalisation of payloads, the refinement of the table
  operations to set operations, and the agreement of the four implementations of the access
  check.
\<close>

subsection \<open>Normalisation\<close>

definition valid_key :: "grant_key \<Rightarrow> bool" where
  "valid_key k \<longleftrightarrow>
     (case k of (pt, pid, perm) \<Rightarrow>
        pt \<in> {''user'', ''group'', ''anyone''} \<and> perm \<in> {''read'', ''write''} \<and> pid \<noteq> [] \<and>
        (pt = ''anyone'' \<longrightarrow> pid = ''*'' \<and> perm = ''read''))"

definition payload_keys :: "json list \<Rightarrow> grant_key set" where
  "payload_keys gs = {k. \<exists>g \<in> set gs. valid_grant_key g = Some k}"

lemma payload_keys_Nil [simp]: "payload_keys [] = {}"
  by (simp add: payload_keys_def)

lemma payload_keys_Cons [simp]:
  "payload_keys (g # gs) = set_option (valid_grant_key g) \<union> payload_keys gs"
  by (auto simp: payload_keys_def)

lemma valid_grant_key_valid: "valid_grant_key g = Some k \<Longrightarrow> valid_key k"
  unfolding valid_grant_key_def valid_key_def Let_def
  by (auto split: json.splits if_splits)

lemma valid_grant_key_normal: "valid_key k \<Longrightarrow> valid_grant_key (normal_grant i k) = Some k"
  unfolding valid_grant_key_def valid_key_def normal_grant_def Let_def
  by (auto split: prod.splits)

text \<open>An entry of the table the loop builds: its key, and a grant with that key.\<close>

definition normal_entries :: "(grant_key \<times> json) list \<Rightarrow> bool" where
  "normal_entries es \<longleftrightarrow> distinct (map fst es) \<and>
     (\<forall>(k, g) \<in> set es. valid_key k \<and> (\<exists>i. g = normal_grant i k))"

lemma distinct_update_fst: "distinct (map fst es) \<Longrightarrow> distinct (map fst (AList.update k v es))"
  by (rule AList.distinct_update)

lemma normal_entries_update:
  assumes "normal_entries es" and "valid_key k"
  shows "normal_entries (AList.update k (normal_grant i k) es)"
  using assms set_update_subset [of k "normal_grant i k" es]
  unfolding normal_entries_def by (fastforce intro: distinct_update_fst)

lemma normalize_loop_entries:
  "normal_entries (fst s) \<Longrightarrow> normal_entries (fst (normalize_loop U gs s)) \<and>
     fst ` set (fst (normalize_loop U gs s)) = fst ` set (fst s) \<union> payload_keys gs"
proof (induction U gs s rule: normalize_loop.induct)
  case (1 U s)
  then show ?case by simp
next
  case (2 U g gs es n)
  show ?case
  proof (cases "valid_grant_key g")
    case None
    with 2 show ?thesis by simp
  next
    case (Some k)
    obtain i n' where i: "grant_id U n g = (i, n')" by (cases "grant_id U n g")
    have "normal_entries (AList.update k (normal_grant i k) es)"
      using "2.prems" valid_grant_key_valid [OF Some] by (simp add: normal_entries_update)
    then show ?thesis
      using "2.IH"(2) [OF Some i [symmetric]] Some i by (simp add: fst_update)
  qed
qed

lemma json_grant_key_normal [simp]: "json_grant_key (normal_grant i k) = k"
  by (cases k) (simp add: json_grant_key_def normal_grant_def grant_field_def)

lemma normalize_keys:
  "distinct (map json_grant_key (fst (normalize_access_grants U n gs))) \<and>
   json_grant_key ` set (fst (normalize_access_grants U n gs)) = payload_keys gs \<and>
   (\<forall>g \<in> set (fst (normalize_access_grants U n gs)). \<exists>i k. valid_key k \<and> g = normal_grant i k)"
proof -
  obtain es n' where l: "normalize_loop U gs ([], n) = (es, n')" by (cases "normalize_loop U gs ([], n)")
  have "normal_entries []" by (simp add: normal_entries_def)
  with normalize_loop_entries [of "([], n)" U gs] l
  have es: "normal_entries es" "fst ` set es = payload_keys gs" by auto
  then have "\<forall>x \<in> set es. valid_key (fst x) \<and> (\<exists>i. snd x = normal_grant i (fst x))"
    by (auto simp: normal_entries_def)
  then have entry: "\<And>x. x \<in> set es \<Longrightarrow> json_grant_key (snd x) = fst x \<and>
      (\<exists>i k. valid_key k \<and> snd x = normal_grant i k)"
    by (metis json_grant_key_normal)
  then have m: "map json_grant_key (map snd es) = map fst es" by simp
  have "distinct (map json_grant_key (map snd es))"
    unfolding m using es(1) by (simp add: normal_entries_def)
  moreover have "json_grant_key ` set (map snd es) = payload_keys gs"
    unfolding list.set_map [symmetric] m using es(2) by simp
  ultimately show ?thesis
    using entry by (auto simp: normalize_access_grants_def l)
qed

lemma normalize_access_grants_keys [simp]:
  "distinct (map json_grant_key (fst (normalize_access_grants U n gs)))"
  "json_grant_key ` set (fst (normalize_access_grants U n gs)) = payload_keys gs"
  using normalize_keys by auto

subsection \<open>The table as a set\<close>

definition grants_ok :: "db \<Rightarrow> bool" where
  "grants_ok d \<longleftrightarrow> distinct (map ag_key (access_grant_t d))"

definition grant_view :: "db \<Rightarrow> grant_row_key set" where
  "grant_view d = ag_key ` set (access_grant_t d)"

lemma ag_key_new_grant [simp]: "ag_key (new_grant e n k) = k"
  by (cases k) (simp add: new_grant_def ag_key_def)

lemma map_new_grant_keys [simp]:
  "map (\<lambda>(i, k). ag_key (new_grant e i (f k))) (enumerate n ks) = map f ks"
  by (rule nth_equalityI) (auto simp: nth_enumerate_eq)

lemma grant_view_delete [simp]:
  "(\<And>g. P g \<longleftrightarrow> Q (ag_key g)) \<Longrightarrow> grant_view (delete_grants P d) = {k \<in> grant_view d. \<not> Q k}"
  by (auto simp: grant_view_def delete_grants_def)

lemma grants_ok_delete [simp]: "grants_ok d \<Longrightarrow> grants_ok (delete_grants P d)"
  by (simp add: grants_ok_def delete_grants_def distinct_map_filter)

lemma grant_access_view:
  assumes "grants_ok d"
  shows "grants_ok (snd (grant_access e rt rid pt pid perm d)) \<and>
    grant_view (snd (grant_access e rt rid pt pid perm d)) = insert (rt, rid, pt, pid, perm) (grant_view d)"
proof (cases "List.find (\<lambda>g. ag_key g = (rt, rid, pt, pid, perm)) (access_grant_t d)")
  case None
  then have "(rt, rid, pt, pid, perm) \<notin> ag_key ` set (access_grant_t d)"
    by (auto simp: find_None_iff)
  with assms None show ?thesis
    by (simp add: grant_access_def Let_def commit_grants_def grants_ok_def grant_view_def)
next
  case (Some g)
  then have "ag_key g \<in> grant_view d" and "ag_key g = (rt, rid, pt, pid, perm)"
    by (auto simp: grant_view_def dest!: find_Some_in)
  with assms Some show ?thesis
    by (simp add: grant_access_def insert_absorb)
qed

lemma revoke_access_view:
  "grants_ok d \<Longrightarrow> grants_ok (snd (revoke_access rt rid pt pid perm d)) \<and>
    grant_view (snd (revoke_access rt rid pt pid perm d)) = grant_view d - {(rt, rid, pt, pid, perm)}"
  by (auto simp: revoke_access_def grant_view_def delete_grants_def grants_ok_def distinct_map_filter)

lemma revoke_all_view:
  "grants_ok d \<Longrightarrow> grants_ok (snd (revoke_all_access rt rid d)) \<and>
    grant_view (snd (revoke_all_access rt rid d)) = {(t, i, k) \<in> grant_view d. \<not> (t = rt \<and> i = rid)}"
  by (force simp: revoke_all_access_def grant_view_def delete_grants_def grants_ok_def
      distinct_map_filter ag_key_def)

lemma replace_view:
  assumes "grants_ok d" and r: "replace_access_grants e rt rid gs d = (rows, d')"
  shows "grants_ok d'" and "map ag_key rows = map (\<lambda>g. (rt, rid, json_grant_key g))
      (fst (normalize_access_grants (uuid4 e) (drawn d) gs))"
    and "grant_view d' = {(t, i, k) \<in> grant_view d. \<not> (t = rt \<and> i = rid)} \<union> {(rt, rid, k) | k. k \<in> payload_keys gs}"
proof -
  define d1 where "d1 = delete_grants (\<lambda>g. ag_resource_type g = rt \<and> ag_resource_id g = rid) d"
  obtain ns n where ns: "normalize_access_grants (uuid4 e) (drawn d) gs = (ns, n)"
    by (cases "normalize_access_grants (uuid4 e) (drawn d) gs")
  have ks: "distinct (map json_grant_key ns)" "json_grant_key ` set ns = payload_keys gs"
    using normalize_access_grants_keys [of "uuid4 e" "drawn d" gs] ns by auto
  have rows: "rows = map (\<lambda>(i, g). new_grant e i (rt, rid, json_grant_key g)) (enumerate n ns)"
    and d': "access_grant_t d' = access_grant_t d1 @ rows"
    using r by (auto simp: replace_access_grants_def ns d1_def Let_def)
  have k: "map ag_key rows = map (\<lambda>g. (rt, rid, json_grant_key g)) ns"
    unfolding rows by (rule nth_equalityI) (auto simp: nth_enumerate_eq)
  then show "map ag_key rows = map (\<lambda>g. (rt, rid, json_grant_key g))
      (fst (normalize_access_grants (uuid4 e) (drawn d) gs))" by (simp add: ns)
  have v1: "ag_key ` set (access_grant_t d1) = {(t, i, k) \<in> grant_view d. \<not> (t = rt \<and> i = rid)}"
    by (force simp: d1_def delete_grants_def grant_view_def ag_key_def)
  have vr: "ag_key ` set rows = {(rt, rid, k) | k. k \<in> payload_keys gs}"
    unfolding list.set_map [symmetric] k ks(2) [symmetric] by auto
  show "grant_view d' = {(t, i, k) \<in> grant_view d. \<not> (t = rt \<and> i = rid)} \<union> {(rt, rid, k) | k. k \<in> payload_keys gs}"
    using v1 vr by (simp add: grant_view_def d' image_Un)
  have "distinct (map ag_key rows)"
    unfolding k using ks(1) by (simp add: distinct_map inj_on_def)
  moreover have "distinct (map ag_key (access_grant_t d1))"
    using assms(1) by (simp add: d1_def delete_grants_def grants_ok_def distinct_map_filter)
  moreover have "ag_key ` set (access_grant_t d1) \<inter> ag_key ` set rows = {}"
    unfolding v1 vr by auto
  ultimately show "grants_ok d'" by (simp add: grants_ok_def d')
qed

lemma set_access_grants_view:
  assumes "grants_ok d"
  obtains rows d' where "set_access_grants e rt rid gs d = (Inr rows, d')"
    and "replace_access_grants e rt rid gs d = (rows, d')" and "grants_ok d'"
proof -
  obtain rows d' where r: "replace_access_grants e rt rid gs d = (rows, d')"
    by (cases "replace_access_grants e rt rid gs d")
  with replace_view(1) [OF assms r] that show thesis
    by (simp add: set_access_grants_def commit_grants_def grants_ok_def)
qed

subsection \<open>Normalising twice\<close>

definition stored_entries :: "(grant_key \<times> json) list \<Rightarrow> bool" where
  "stored_entries es \<longleftrightarrow> distinct (map fst es) \<and>
     (\<forall>x \<in> set es. valid_key (fst x) \<and> (\<exists>s. s \<noteq> [] \<and> snd x = normal_grant (JStr s) (fst x)))"

lemma grant_id_str:
  "(\<And>n. U n \<noteq> []) \<Longrightarrow> \<exists>s. s \<noteq> [] \<and> fst (grant_id U n g) = JStr s"
  unfolding grant_id_def Let_def by (cases "jget (dict_of g) ''id''") auto

lemma stored_entries_update:
  assumes "stored_entries es" and "valid_key k" and "s \<noteq> []"
  shows "stored_entries (AList.update k (normal_grant (JStr s) k) es)"
  unfolding stored_entries_def
proof
  show "distinct (map fst (AList.update k (normal_grant (JStr s) k) es))"
    using assms(1) by (simp add: stored_entries_def distinct_update)
  show "\<forall>x \<in> set (AList.update k (normal_grant (JStr s) k) es).
    valid_key (fst x) \<and> (\<exists>s. s \<noteq> [] \<and> snd x = normal_grant (JStr s) (fst x))"
  proof
    fix x assume "x \<in> set (AList.update k (normal_grant (JStr s) k) es)"
    then have "x = (k, normal_grant (JStr s) k) \<or> x \<in> set es"
      using set_update_subset by fastforce
    then show "valid_key (fst x) \<and> (\<exists>s. s \<noteq> [] \<and> snd x = normal_grant (JStr s) (fst x))"
      using assms by (auto simp: stored_entries_def)
  qed
qed

lemma normalize_loop_stored:
  assumes "\<And>n. U n \<noteq> []" and "stored_entries (fst s)"
  shows "stored_entries (fst (normalize_loop U gs s))"
  using assms(2)
proof (induction gs arbitrary: s)
  case Nil
  then show ?case by simp
next
  case (Cons g gs)
  obtain es n where s: "s = (es, n)" by (cases s)
  show ?case
  proof (cases "valid_grant_key g")
    case None
    with Cons show ?thesis by (simp add: s)
  next
    case (Some k)
    obtain i n' where i: "grant_id U n g = (i, n')" by (cases "grant_id U n g")
    with grant_id_str [of U n g] assms(1) obtain t where "t \<noteq> []" "i = JStr t" by auto
    with Cons Some i valid_grant_key_valid [OF Some] show ?thesis
      by (simp add: s stored_entries_update)
  qed
qed

lemma update_absent: "k \<notin> fst ` set es \<Longrightarrow> AList.update k v es = es @ [(k, v)]"
  by (induction es) auto

lemma normalize_loop_again:
  assumes "stored_entries (acc @ es)"
  shows "normalize_loop U (map snd es) (acc, n) = (acc @ es, n)"
  using assms
proof (induction es arbitrary: acc)
  case Nil
  then show ?case by simp
next
  case (Cons x es)
  from Cons.prems obtain s where x: "valid_key (fst x)" "s \<noteq> []" "snd x = normal_grant (JStr s) (fst x)"
    and new: "fst x \<notin> fst ` set acc"
    by (auto simp: stored_entries_def)
  have "grant_id U n (snd x) = (JStr s, n)"
    using x(2) by (simp add: x(3) grant_id_def normal_grant_def split: prod.split)
  moreover have "valid_grant_key (snd x) = Some (fst x)"
    unfolding x(3) by (rule valid_grant_key_normal [OF x(1)])
  moreover have "AList.update (fst x) (normal_grant (JStr s) (fst x)) acc = acc @ [x]"
    using update_absent [OF new] x(3) by (metis prod.collapse)
  ultimately show ?case
    using Cons.IH [of "acc @ [x]"] Cons.prems by simp
qed

lemma normalize_idempotent:
  assumes "\<And>n. U n \<noteq> []"
  shows "normalize_access_grants U m (fst (normalize_access_grants U n gs)) =
    (fst (normalize_access_grants U n gs), m)"
proof -
  obtain es n' where l: "normalize_loop U gs ([], n) = (es, n')" by (cases "normalize_loop U gs ([], n)")
  have "stored_entries es"
    using normalize_loop_stored [of U "([], n)" gs] assms l by (simp add: stored_entries_def)
  then show ?thesis
    using normalize_loop_again [of "[]" es U m] by (simp add: normalize_access_grants_def l)
qed

end
