(* ===== verification/GrantRefine.thy ===== *)
theory GrantRefine
  imports GrantProps "HOL-Library.Multiset"
begin

text \<open>
  The operations of \<open>AccessGrantsTable\<close> that write the table, as operations on a set of grants:
  what each does to the set and what it answers, errors included. The abstract operations are
  stated over the payload alone; the interpretation of the refinement contract shows that the
  table operations implement them.
\<close>

subsection \<open>The keys a legacy dictionary stands for\<close>

text \<open>The principals listed for a permission under a field; \<open>None\<close> when they cannot be stored.\<close>

definition listed_names :: "json dict \<Rightarrow> string \<Rightarrow> string \<Rightarrow> string list option" where
  "listed_names ac perm field =
     (let listed = jget_default ac perm (JObj [])
      in if \<not> truthy listed then Some []
         else case listed of
           JObj d \<Rightarrow>
             (case py_iter (jget_default d field (JList [])) of
                Inl _ \<Rightarrow> None
              | Inr xs \<Rightarrow> those (map (\<lambda>x. case x of JStr s \<Rightarrow> Some s | _ \<Rightarrow> None) xs))
         | _ \<Rightarrow> None)"

abbreviation legacy_fields :: "(string \<times> string) list" where
  "legacy_fields \<equiv> [(''group'', ''group_ids''), (''user'', ''user_ids'')]"

text \<open>Every listed principal is a string, and none is listed twice for a permission.\<close>

definition control_accepted :: "json dict option \<Rightarrow> bool" where
  "control_accepted access_control \<longleftrightarrow>
     (case access_control of None \<Rightarrow> True
      | Some ac \<Rightarrow> \<forall>perm \<in> {''read'', ''write''}. \<forall>(pt, field) \<in> set legacy_fields.
          \<exists>ns. listed_names ac perm field = Some ns \<and> distinct ns)"

definition control_keys :: "string \<Rightarrow> json dict option \<Rightarrow> grant_key set" where
  "control_keys rt access_control =
     (case access_control of None \<Rightarrow> if rt = ''file'' then {} else {(''user'', ''*'', ''read'')}
      | Some ac \<Rightarrow> {(pt, n, perm) | pt n perm field. perm \<in> {''read'', ''write''} \<and>
          (pt, field) \<in> set legacy_fields \<and> n \<in> set (the (listed_names ac perm field))})"

text \<open>The keys of a dictionary in the order in which the two loops append them.\<close>

definition perm_keys :: "json dict \<Rightarrow> string \<Rightarrow> grant_key list" where
  "perm_keys ac perm =
     map (\<lambda>n. (''group'', n, perm)) (the (listed_names ac perm ''group_ids'')) @
     map (\<lambda>n. (''user'', n, perm)) (the (listed_names ac perm ''user_ids''))"

definition names_ok :: "json dict \<Rightarrow> string \<Rightarrow> bool" where
  "names_ok ac perm \<longleftrightarrow>
     listed_names ac perm ''group_ids'' \<noteq> None \<and> listed_names ac perm ''user_ids'' \<noteq> None"

fun control_list :: "string \<Rightarrow> json dict option \<Rightarrow> grant_key list" where
  "control_list rt None = (if rt = ''file'' then [] else [(''user'', ''*'', ''read'')])"
| "control_list rt (Some ac) = perm_keys ac ''read'' @ perm_keys ac ''write''"

abbreviation row_key :: "string \<Rightarrow> string \<Rightarrow> grant_key \<Rightarrow> grant_row_key" where
  "row_key rt rid \<equiv> (\<lambda>k. (rt, rid, k))"

lemma those_append:
  "those (xs @ ys) = (case those xs of None \<Rightarrow> None | Some as \<Rightarrow>
     (case those ys of None \<Rightarrow> None | Some bs \<Rightarrow> Some (as @ bs)))"
  by (induction xs) (auto split: option.splits)

lemma those_map_Some: "those (map (Some \<circ> f) xs) = Some (map f xs)"
  by (induction xs) auto

lemma those_grant_dicts:
  "those (map (dict_row_key \<circ> (\<lambda>i. grant_dict rt rid pt i perm)) xs) =
     map_option (map (\<lambda>n. row_key rt rid (pt, n, perm)))
       (those (map (\<lambda>x. case x of JStr s \<Rightarrow> Some s | _ \<Rightarrow> None) xs))"
proof (induction xs)
  case (Cons x xs)
  have "dict_row_key (grant_dict rt rid pt x perm) =
      map_option (\<lambda>n. row_key rt rid (pt, n, perm)) (case x of JStr s \<Rightarrow> Some s | _ \<Rightarrow> None)"
    by (cases x) (auto simp: grant_dict_def)
  with Cons show ?case
    by (cases "those (map (\<lambda>x. case x of JStr s \<Rightarrow> Some s | _ \<Rightarrow> None) xs)")
      (auto split: json.splits option.splits)
qed simp

text \<open>The conversion of one permission, in terms of the principals it lists.\<close>

lemma permission_grants_names:
  "(case permission_grants (grant_dict rt rid) ac perm of
      Inl _ \<Rightarrow> None | Inr dicts \<Rightarrow> those (map dict_row_key dicts)) =
   (if names_ok ac perm then Some (map (row_key rt rid) (perm_keys ac perm)) else None)"
proof (cases "truthy (jget_default ac perm (JObj []))")
  case False
  then show ?thesis
    by (simp add: permission_grants_def names_ok_def perm_keys_def listed_names_def)
next
  case True
  show ?thesis
  proof (cases "jget_default ac perm (JObj [])")
    case (JObj d)
    show ?thesis
    proof (cases "py_iter (jget_default d ''group_ids'' (JList []))")
      case (Inl err)
      with True JObj show ?thesis
        by (simp add: permission_grants_def names_ok_def listed_names_def)
    next
      case gs: (Inr gids)
      show ?thesis
      proof (cases "py_iter (jget_default d ''user_ids'' (JList []))")
        case (Inl err)
        with True JObj gs show ?thesis
          by (simp add: permission_grants_def names_ok_def listed_names_def)
      next
        case us: (Inr uids)
        with True JObj gs show ?thesis
          by (auto simp: permission_grants_def names_ok_def listed_names_def perm_keys_def
              those_append those_grant_dicts split: option.splits)
      qed
    qed
  qed (use True in \<open>simp_all add: permission_grants_def names_ok_def listed_names_def\<close>)
qed

text \<open>The whole conversion succeeds exactly when every listed principal is a string.\<close>

lemma access_control_names:
  "(case access_control_to_grants rt rid ac of
      Inl _ \<Rightarrow> None | Inr dicts \<Rightarrow> those (map dict_row_key dicts)) =
   (if case ac of None \<Rightarrow> True | Some d \<Rightarrow> names_ok d ''read'' \<and> names_ok d ''write''
    then Some (map (row_key rt rid) (control_list rt ac)) else None)"
proof (cases ac)
  case None
  then show ?thesis by (simp add: access_control_to_grants_def grant_dict_def)
next
  case (Some d)
  show ?thesis
  proof (cases "d = []")
    case True
    with Some show ?thesis
      by (simp add: access_control_to_grants_def names_ok_def listed_names_def perm_keys_def
          jget_default_def)
  next
    case False
    have r: "(case permission_grants (grant_dict rt rid) d p of
        Inl _ \<Rightarrow> None | Inr dicts \<Rightarrow> those (map dict_row_key dicts)) =
      (if names_ok d p then Some (map (row_key rt rid) (perm_keys d p)) else None)" for p
      by (rule permission_grants_names)
    show ?thesis
      using r [of "''read''"] r [of "''write''"] False Some
      by (cases "permission_grants (grant_dict rt rid) d ''read''";
          cases "permission_grants (grant_dict rt rid) d ''write''")
        (auto simp: access_control_to_grants_def those_append split: if_splits option.splits)
  qed
qed

lemma distinct_perm_keys:
  "distinct (perm_keys d p) \<longleftrightarrow> distinct (the (listed_names d p ''group_ids'')) \<and>
     distinct (the (listed_names d p ''user_ids''))"
  by (auto simp: perm_keys_def distinct_map inj_on_def)

lemma control_accepted_iff:
  "control_accepted ac \<longleftrightarrow>
     (case ac of None \<Rightarrow> True | Some d \<Rightarrow> names_ok d ''read'' \<and> names_ok d ''write'') \<and>
     distinct (control_list rt ac)"
proof (cases ac)
  case None
  then show ?thesis by (simp add: control_accepted_def)
next
  case (Some d)
  have "set (perm_keys d ''read'') \<inter> set (perm_keys d ''write'') = {}"
    by (auto simp: perm_keys_def)
  with Some show ?thesis
    by (auto simp: control_accepted_def distinct_perm_keys names_ok_def)
qed

lemma set_control_list: "set (control_list rt ac) = control_keys rt ac"
  by (cases ac) (auto simp: control_keys_def perm_keys_def)

subsection \<open>The operations and their answers\<close>

datatype grant_op =
    Grant grant_row_key
  | Revoke grant_row_key
  | RevokeAll string string
  | SetControl string string "json dict option"
  | SetGrants string string "json list"

text \<open>What the caller of an operation learns; a list of rows up to its order.\<close>

datatype grant_answer =
    Row grant_row_key
  | Found bool
  | Removed nat
  | Stored "grant_row_key multiset"
  | Failed

fun rows_answer :: "access_grant list result \<Rightarrow> grant_answer" where
  "rows_answer (Inr rows) = Stored (mset (map ag_key rows))"
| "rows_answer (Inl err) = Failed"

fun row_answer :: "access_grant result \<Rightarrow> grant_answer" where
  "row_answer (Inr row) = Row (ag_key row)"
| "row_answer (Inl err) = Failed"

fun run_grant_op :: "env \<Rightarrow> grant_op \<Rightarrow> db \<Rightarrow> grant_answer \<times> db" where
  "run_grant_op e (Grant (rt, rid, pt, pid, perm)) d =
     apfst row_answer (grant_access e rt rid pt pid perm d)"
| "run_grant_op e (Revoke (rt, rid, pt, pid, perm)) d =
     apfst Found (revoke_access rt rid pt pid perm d)"
| "run_grant_op e (RevokeAll rt rid) d = apfst Removed (revoke_all_access rt rid d)"
| "run_grant_op e (SetControl rt rid ac) d = apfst rows_answer (set_access_control e rt rid ac d)"
| "run_grant_op e (SetGrants rt rid gs) d = apfst rows_answer (set_access_grants e rt rid gs d)"

definition of_resource :: "string \<Rightarrow> string \<Rightarrow> grant_row_key set" where
  "of_resource rt rid = {(t, i, k). t = rt \<and> i = rid}"

definition replaced ::
  "string \<Rightarrow> string \<Rightarrow> grant_key set \<Rightarrow> grant_row_key set \<Rightarrow> grant_answer \<times> grant_row_key set" where
  "replaced rt rid K S =
     (Stored (mset_set (row_key rt rid ` K)), (S - of_resource rt rid) \<union> row_key rt rid ` K)"

fun abs_grant_op :: "grant_op \<Rightarrow> grant_row_key set \<Rightarrow> grant_answer \<times> grant_row_key set" where
  "abs_grant_op (Grant k) S = (Row k, insert k S)"
| "abs_grant_op (Revoke k) S = (Found (k \<in> S), S - {k})"
| "abs_grant_op (RevokeAll rt rid) S = (Removed (card (S \<inter> of_resource rt rid)), S - of_resource rt rid)"
| "abs_grant_op (SetControl rt rid ac) S =
     (if control_accepted ac then replaced rt rid (control_keys rt ac) S else (Failed, S))"
| "abs_grant_op (SetGrants rt rid gs) S = replaced rt rid (payload_keys gs) S"

text \<open>A run of operations collects what they answer.\<close>

fun logged :: "('o \<Rightarrow> 's \<Rightarrow> 'a \<times> 's) \<Rightarrow> 'o \<Rightarrow> 's \<times> 'a list \<Rightarrow> 's \<times> 'a list" where
  "logged f x (s, as) = (case f x s of (a, s') \<Rightarrow> (s', as @ [a]))"

lemma grant_access_answer:
  assumes "grants_ok d"
  shows "fst (run_grant_op e (Grant k) d) = Row k"
proof -
  obtain rt rid pt pid perm where k: "k = (rt, rid, pt, pid, perm)" by (cases k) auto
  show ?thesis
  proof (cases "List.find (\<lambda>g. ag_key g = k) (access_grant_t d)")
    case None
    then have "k \<notin> ag_key ` set (access_grant_t d)" by (auto simp: find_None_iff)
    with assms None show ?thesis
      by (simp add: k grant_access_def Let_def commit_grants_def grants_ok_def)
  next
    case (Some g)
    then have "ag_key g = k" by (auto dest!: find_Some_in)
    with Some show ?thesis by (simp add: k grant_access_def)
  qed
qed

lemma revoke_answer:
  "fst (revoke_access rt rid pt pid perm d) \<longleftrightarrow> (rt, rid, pt, pid, perm) \<in> grant_view d"
  by (force simp: revoke_access_def list_ex_iff grant_view_def)

lemma revoke_all_answer:
  assumes "grants_ok d"
  shows "fst (revoke_all_access rt rid d) = card (grant_view d \<inter> of_resource rt rid)"
proof -
  have "ag_key ` set (grants_of d rt rid) = grant_view d \<inter> of_resource rt rid"
    by (force simp: grants_of_def grant_view_def of_resource_def ag_key_def)
  moreover have "distinct (map ag_key (grants_of d rt rid))"
    using assms by (simp add: grants_of_def grants_ok_def distinct_map_filter)
  then have "card (set (map ag_key (grants_of d rt rid))) = length (grants_of d rt rid)"
    by (simp only: distinct_card length_map)
  ultimately show ?thesis by (simp add: revoke_all_access_def)
qed

text \<open>Deleting the rows of a resource and adding rows with new keys of that resource.\<close>

lemma replaced_rows:
  assumes "grants_ok d" and ks: "map ag_key rows = map (row_key rt rid) ks"
    and d': "access_grant_t d' =
      access_grant_t (delete_grants (\<lambda>g. ag_resource_type g = rt \<and> ag_resource_id g = rid) d) @ rows"
  shows "grants_ok d' \<longleftrightarrow> distinct ks"
    and "distinct ks \<Longrightarrow>
      (rows_answer (Inr rows), grant_view d') = replaced rt rid (set ks) (grant_view d)"
proof -
  let ?d = "delete_grants (\<lambda>g. ag_resource_type g = rt \<and> ag_resource_id g = rid) d"
  have old: "ag_key ` set (access_grant_t ?d) = grant_view d - of_resource rt rid"
    by (force simp: delete_grants_def grant_view_def ag_key_def of_resource_def)
  have new: "ag_key ` set rows = row_key rt rid ` set ks"
    by (metis ks list.set_map)
  have "ag_key ` set (access_grant_t ?d) \<inter> ag_key ` set rows = {}"
    unfolding old new by (auto simp: of_resource_def)
  moreover have "distinct (map ag_key (access_grant_t ?d))"
    using grants_ok_delete [OF assms(1)] by (simp add: grants_ok_def)
  moreover have inj: "distinct (map ag_key rows) \<longleftrightarrow> distinct ks"
    unfolding ks by (simp add: distinct_map inj_on_def)
  ultimately show "grants_ok d' \<longleftrightarrow> distinct ks"
    by (simp add: grants_ok_def d')
  assume "distinct ks"
  then have "mset (map ag_key rows) = mset_set (set (map ag_key rows))"
    using inj by (metis mset_set_set)
  then have "mset (map ag_key rows) = mset_set (row_key rt rid ` set ks)"
    by (simp add: new del: mset_map)
  moreover have "grant_view d' = (grant_view d - of_resource rt rid) \<union> row_key rt rid ` set ks"
    by (simp add: grant_view_def d' image_Un new old [unfolded grant_view_def])
  ultimately show "(rows_answer (Inr rows), grant_view d') = replaced rt rid (set ks) (grant_view d)"
    by (simp add: replaced_def del: mset_map)
qed

lemma set_access_control_answer:
  assumes "grants_ok d" and "set_access_control e rt rid ac d = (r, d')"
  shows "grants_ok d' \<and> (rows_answer r, grant_view d') = abs_grant_op (SetControl rt rid ac) (grant_view d)"
proof (cases "case ac of None \<Rightarrow> True | Some c \<Rightarrow> names_ok c ''read'' \<and> names_ok c ''write''")
  case False
  then have "\<not> control_accepted ac" by (subst control_accepted_iff [of _ rt]) simp
  moreover have "(\<exists>err. r = Inl err) \<and> d' = d"
    using access_control_names [of rt rid ac] False assms(2)
    by (auto simp: set_access_control_def split: sum.splits option.splits)
  ultimately show ?thesis using assms(1) by auto
next
  case True
  let ?ks = "control_list rt ac"
  let ?d = "delete_grants (\<lambda>g. ag_resource_type g = rt \<and> ag_resource_id g = rid) d"
  define rows where "rows = map (\<lambda>(i, k). new_grant e i k) (enumerate (drawn d) (map (row_key rt rid) ?ks))"
  define d2 where "d2 = ?d\<lparr>access_grant_t := access_grant_t ?d @ rows, drawn := drawn d + length rows\<rparr>"
  have c: "set_access_control e rt rid ac d = commit_grants rows d d2"
    using access_control_names [of rt rid ac] True
    by (auto simp: set_access_control_def rows_def d2_def Let_def split: sum.splits option.splits)
  have ks: "map ag_key rows = map (row_key rt rid) ?ks"
    unfolding rows_def by (rule nth_equalityI) (auto simp: nth_enumerate_eq)
  have t: "access_grant_t d2 = access_grant_t ?d @ rows" by (simp add: d2_def)
  have acc: "control_accepted ac \<longleftrightarrow> distinct ?ks"
    using True by (subst control_accepted_iff [of _ rt]) simp
  show ?thesis
    using replaced_rows [OF assms(1) ks t] c assms acc
    by (auto simp: commit_grants_def grants_ok_def [symmetric] set_control_list)
qed

lemma set_access_grants_answer:
  assumes "grants_ok d" and "set_access_grants e rt rid gs d = (r, d')"
  shows "grants_ok d' \<and> (rows_answer r, grant_view d') = abs_grant_op (SetGrants rt rid gs) (grant_view d)"
proof -
  let ?ns = "fst (normalize_access_grants (uuid4 e) (drawn d) gs)"
  obtain rows d2 where s: "set_access_grants e rt rid gs d = (Inr rows, d2)"
    and r: "replace_access_grants e rt rid gs d = (rows, d2)" and ok: "grants_ok d2"
    using assms(1) by (rule set_access_grants_view)
  have ks: "map ag_key rows = map (row_key rt rid) (map json_grant_key ?ns)"
    using replace_view(2) [OF assms(1) r] by simp
  have t: "access_grant_t d2 =
      access_grant_t (delete_grants (\<lambda>g. ag_resource_type g = rt \<and> ag_resource_id g = rid) d) @ rows"
    using r by (auto simp: replace_access_grants_def Let_def split: prod.splits)
  show ?thesis
    using replaced_rows [OF assms(1) ks t] s ok assms(2) by simp
qed

lemma run_grant_op_step:
  assumes that: "grants_ok d"
  shows "grants_ok (snd (run_grant_op e x d)) \<and>
    (fst (run_grant_op e x d), grant_view (snd (run_grant_op e x d))) = abs_grant_op x (grant_view d)"
proof (cases x)
  case (Grant k)
  with that grant_access_view grant_access_answer [OF that, of e k] show ?thesis by (cases k) auto
next
  case (Revoke k)
  with that revoke_access_view revoke_answer show ?thesis by (cases k) auto
next
  case (RevokeAll rt rid)
  with that revoke_all_view revoke_all_answer [OF that] show ?thesis
    by (auto simp: of_resource_def)
next
  case (SetControl rt rid ac)
  with that set_access_control_answer show ?thesis
    by (cases "set_access_control e rt rid ac d") auto
next
  case (SetGrants rt rid gs)
  with that set_access_grants_answer show ?thesis
    by (cases "set_access_grants e rt rid gs d") auto
qed

interpretation grant_sets: refinement "\<lambda>(d, as). grants_ok d" "\<lambda>(d, as). (grant_view d, as)"
  "logged (run_grant_op e)" "logged abs_grant_op" for e
proof (unfold_locales, goal_cases)
  case (1 s x)
  then show ?case
    using run_grant_op_step [of "fst s" e x] by (cases s; cases "run_grant_op e x (fst s)") auto
next
  case (2 s x)
  then show ?case
    using run_grant_op_step [of "fst s" e x]
    by (cases s; cases "run_grant_op e x (fst s)"; cases "abs_grant_op x (grant_view (fst s))") auto
qed

end
