(* ===== verification/GrantClaims.thy ===== *)
theory GrantClaims
  imports GrantRefine Samples
begin

text \<open>
  The properties of the access grants: refinement to sets, replacement from a payload, the
  agreement of the access checks, the round trip of the legacy dictionary, and the users reported
  as revoked.
\<close>

subsection \<open>Access in terms of the set of grants\<close>

definition principal_matches :: "string \<Rightarrow> string list \<Rightarrow> string \<Rightarrow> string \<Rightarrow> bool" where
  "principal_matches u gids pt pid \<longleftrightarrow>
     pt = ''user'' \<and> (pid = ''*'' \<or> pid = u) \<or> pt = ''group'' \<and> pid \<in> set gids"

lemma matches_principal_iff:
  "matches_principal u gids g \<longleftrightarrow> principal_matches u gids (ag_principal_type g) (ag_principal_id g)"
  by (auto simp: matches_principal_def principal_matches_def)

lemma has_access_view:
  "has_access d u rt rid perm gids \<longleftrightarrow>
     (\<exists>pt pid. (rt, rid, pt, pid, perm) \<in> grant_view d \<and>
        principal_matches u (effective_group_ids d u gids) pt pid)"
  by (auto simp: has_access_def Let_def list_ex_iff grant_view_def ag_key_def matches_principal_iff)

lemma effective_Some [simp]: "effective_group_ids d u (Some gids) = gids"
  by (simp add: effective_group_ids_def)

lemma set_effective_None:
  "hierarchy_ok d \<Longrightarrow> set (effective_group_ids d u None) = {g. belongs d u g}"
  by (simp add: effective_group_ids_def ids_of_member)

lemma grant_exists_has_access:
  "u \<noteq> [] \<Longrightarrow> grant_exists d rt u gids perm rid \<longleftrightarrow> has_access d u rt rid perm (Some gids)"
  by (auto simp: grant_exists_def has_access_def list_ex_iff matches_principal_def)

lemma set_accessible:
  "set (get_accessible_resource_ids d u rt rids perm gids) =
     {rid \<in> set rids. has_access d u rt rid perm gids}"
  by (auto simp: get_accessible_resource_ids_def has_access_def Let_def list_ex_iff)

subsection \<open>Users of a list of grants\<close>

lemma collect_principals_spec:
  "collect_principals perm gs uids gids =
     (if \<exists>g \<in> set gs. ag_permission g = perm \<and> ag_principal_type g = ''user'' \<and> ag_principal_id g = ''*''
      then None
      else Some (fold List.insert [ag_principal_id g. g \<leftarrow> gs, ag_permission g = perm, ag_principal_type g = ''user''] uids,
                 gids @ [ag_principal_id g. g \<leftarrow> gs, ag_permission g = perm, ag_principal_type g = ''group'']))"
  by (induction perm gs uids gids rule: collect_principals.induct) auto

lemma set_fold_insert [simp]: "set (fold List.insert xs ys) = set xs \<union> set ys"
  by (induction xs arbitrary: ys) auto

definition is_public :: "access_grant list \<Rightarrow> string \<Rightarrow> bool" where
  "is_public gs perm \<longleftrightarrow>
     (\<exists>g \<in> set gs. ag_permission g = perm \<and> ag_principal_type g = ''user'' \<and> ag_principal_id g = ''*'')"

lemma user_ids_public:
  "is_public gs perm \<Longrightarrow>
     get_user_ids_by_access_grants d gs perm = u_id ` {u \<in> set (user_t d). u_role u \<noteq> ''pending''}"
  by (simp add: get_user_ids_by_access_grants_def collect_principals_spec is_public_def
      get_users_not_in_roles_def)

lemma user_ids_private:
  assumes "hierarchy_ok d" and "\<not> is_public gs perm"
  shows "u \<in> get_user_ids_by_access_grants d gs perm \<longleftrightarrow>
    (\<exists>g \<in> set gs. ag_permission g = perm \<and> matches_principal u (effective_group_ids d u None) g)"
proof -
  have np: "\<not> (\<exists>g \<in> set gs. ag_permission g = perm \<and> ag_principal_type g = ''user'' \<and> ag_principal_id g = ''*'')"
    using assms(2) by (simp add: is_public_def)
  define uids where "uids = [ag_principal_id g. g \<leftarrow> gs, ag_permission g = perm, ag_principal_type g = ''user'']"
  define gids where "gids = [ag_principal_id g. g \<leftarrow> gs, ag_permission g = perm, ag_principal_type g = ''group'']"
  have "collect_principals perm gs [] [] = Some (fold List.insert uids [], gids)"
    unfolding collect_principals_spec uids_def gids_def using np by simp
  then have "u \<in> get_user_ids_by_access_grants d gs perm \<longleftrightarrow>
      u \<in> set uids \<or> (\<exists>g \<in> set gids. belongs d u g)"
    by (simp add: get_user_ids_by_access_grants_def users_of_groups [OF assms(1)])
  moreover have "u \<in> set uids \<longleftrightarrow> (\<exists>g \<in> set gs. ag_permission g = perm \<and>
      ag_principal_type g = ''user'' \<and> ag_principal_id g = u)"
    by (force simp: uids_def)
  moreover have "(\<exists>i \<in> set gids. belongs d u i) \<longleftrightarrow> (\<exists>g \<in> set gs. ag_permission g = perm \<and>
      ag_principal_type g = ''group'' \<and> belongs d u (ag_principal_id g))"
    by (force simp: gids_def)
  ultimately show ?thesis
    using np set_effective_None [OF assms(1), of u]
    unfolding matches_principal_iff principal_matches_def by blast
qed

subsection \<open>The legacy dictionary\<close>

lemma collect_append:
  "collect_grants (xs @ ys) s = collect_grants ys (collect_grants xs s)"
  by (induction xs s rule: collect_grants.induct) auto

lemma collect_read:
  assumes "\<forall>g \<in> set gs. ag_permission g = ''read'' \<and> (ag_principal_type g = ''user'' \<longrightarrow> ag_principal_id g \<noteq> ''*'')"
  shows "collect_grants gs (r, w, p) = (fold add_principal gs r, w, p)"
  using assms by (induction gs arbitrary: r) auto

lemma collect_write:
  assumes "\<forall>g \<in> set gs. ag_permission g = ''write''"
  shows "collect_grants gs (r, w, p) = (r, fold add_principal gs w, p)"
  using assms by (induction gs arbitrary: w) auto

lemma fold_add_groups:
  assumes "\<forall>g \<in> set gs. ag_principal_type g = ''group''"
    and "distinct (pl_group_ids pl @ map ag_principal_id gs)"
  shows "fold add_principal gs pl = pl\<lparr>pl_group_ids := pl_group_ids pl @ map ag_principal_id gs\<rparr>"
  using assms by (induction gs arbitrary: pl) (auto simp: add_principal_def add_unique_def)

lemma fold_add_users:
  assumes "\<forall>g \<in> set gs. ag_principal_type g = ''user''"
    and "distinct (pl_user_ids pl @ map ag_principal_id gs)"
  shows "fold add_principal gs pl = pl\<lparr>pl_user_ids := pl_user_ids pl @ map ag_principal_id gs\<rparr>"
  using assms by (induction gs arbitrary: pl) (auto simp: add_principal_def add_unique_def)

definition lists_keys :: "string \<Rightarrow> permission_lists \<Rightarrow> grant_key list" where
  "lists_keys perm pl =
     map (\<lambda>i. (''group'', i, perm)) (pl_group_ids pl) @ map (\<lambda>i. (''user'', i, perm)) (pl_user_ids pl)"

lemma fold_add_lists:
  assumes "map (\<lambda>g. (ag_principal_type g, ag_principal_id g, ag_permission g)) gs = lists_keys perm pl"
    and "distinct (pl_group_ids pl)" and "distinct (pl_user_ids pl)"
  shows "fold add_principal gs \<lparr>pl_group_ids = [], pl_user_ids = []\<rparr> = pl"
proof -
  obtain xs ys where gs: "gs = xs @ ys"
    and xs: "map (\<lambda>g. (ag_principal_type g, ag_principal_id g, ag_permission g)) xs =
       map (\<lambda>i. (''group'', i, perm)) (pl_group_ids pl)"
    and ys: "map (\<lambda>g. (ag_principal_type g, ag_principal_id g, ag_permission g)) ys =
       map (\<lambda>i. (''user'', i, perm)) (pl_user_ids pl)"
    using assms(1) by (auto simp: lists_keys_def map_eq_append_conv)
  have sel: "map ag_principal_id zs = is \<and> (\<forall>g \<in> set zs. ag_principal_type g = pt)"
    if "map (\<lambda>g. (ag_principal_type g, ag_principal_id g, ag_permission g)) zs = map (\<lambda>i. (pt, i, perm)) is"
    for zs pt "is"
    using that by (induction zs arbitrary: "is") auto
  show ?thesis
    using sel [OF xs] sel [OF ys] assms(2,3)
    by (simp add: gs fold_add_groups fold_add_users)
qed

lemma permission_grants_json:
  "map_of ac perm = Some (permission_json pl) \<Longrightarrow>
     permission_grants (grant_dict rt rid) ac perm =
       Inr (map (\<lambda>(pt, i, perm). grant_dict rt rid pt (JStr i) perm) (lists_keys perm pl))"
  by (simp add: permission_grants_def jget_default_def permission_json_def lists_keys_def o_def)

lemma those_dict_rows:
  "those (map dict_row_key (map (\<lambda>(pt, i, perm). grant_dict rt rid pt (JStr i) perm) ks)) =
     Some (map (\<lambda>k. (rt, rid, k)) ks)"
  by (induction ks) (auto simp: grant_dict_def)

lemma distinct_lists_keys:
  "distinct (pl_group_ids pl) \<Longrightarrow> distinct (pl_user_ids pl) \<Longrightarrow> distinct (lists_keys perm pl)"
  by (auto simp: lists_keys_def distinct_map inj_on_def)

definition legacy_dict :: "permission_lists \<Rightarrow> permission_lists \<Rightarrow> json dict" where
  "legacy_dict r w = [(''read'', permission_json r), (''write'', permission_json w)]"

definition legacy_ok :: "permission_lists \<Rightarrow> permission_lists \<Rightarrow> bool" where
  "legacy_ok r w \<longleftrightarrow> distinct (pl_group_ids r) \<and> distinct (pl_user_ids r) \<and>
     distinct (pl_group_ids w) \<and> distinct (pl_user_ids w) \<and> ''*'' \<notin> set (pl_user_ids r) \<and>
     lists_keys ''read'' r @ lists_keys ''write'' w \<noteq> []"

lemma access_control_to_grants_legacy:
  "access_control_to_grants rt rid (Some (legacy_dict r w)) =
     Inr (map (\<lambda>(pt, i, perm). grant_dict rt rid pt (JStr i) perm)
       (lists_keys ''read'' r @ lists_keys ''write'' w))"
  by (simp add: access_control_to_grants_def legacy_dict_def permission_grants_json)

lemma grants_to_access_control_legacy:
  assumes "legacy_ok r w"
    and "map ag_key rows = map (\<lambda>k. (rt, rid, k)) (lists_keys ''read'' r @ lists_keys ''write'' w)"
  shows "grants_to_access_control rows = Some (legacy_dict r w)"
proof -
  let ?k = "\<lambda>g. (ag_principal_type g, ag_principal_id g, ag_permission g)"
  have "map ?k rows = map snd (map snd (map ag_key rows))" by (simp add: ag_key_def)
  also have "\<dots> = lists_keys ''read'' r @ lists_keys ''write'' w"
    unfolding assms(2) by (simp add: o_def)
  finally obtain xs ys where rows: "rows = xs @ ys" and xs: "map ?k xs = lists_keys ''read'' r"
    and ys: "map ?k ys = lists_keys ''write'' w"
    by (auto simp: map_eq_append_conv)
  have "\<forall>k \<in> set (map ?k xs). snd (snd k) = ''read'' \<and> (fst k = ''user'' \<longrightarrow> fst (snd k) \<noteq> ''*'')"
    unfolding xs using assms(1) by (auto simp: lists_keys_def legacy_ok_def)
  moreover have "\<forall>k \<in> set (map ?k ys). snd (snd k) = ''write''"
    unfolding ys by (auto simp: lists_keys_def)
  moreover have "rows \<noteq> []"
    using assms by (auto simp: legacy_ok_def)
  ultimately show ?thesis
    using assms(1) fold_add_lists [OF xs] fold_add_lists [OF ys]
    by (simp add: grants_to_access_control_def rows collect_append collect_read collect_write
        legacy_dict_def legacy_ok_def)
qed

subsection \<open>Properties\<close>

text \<open>
  C7: Whatever sequence of grant, revoke, revoke-all, legacy replace and replace operations runs
  on a table that satisfies its unique constraint, the table still satisfies it, and the set of
  stored grants and every answer are those of the corresponding set operations: insert, answering
  the row; delete, answering whether it was there; delete the grants of the resource, answering
  how many there were; replace the grants of the resource by the valid keys of the payload,
  answering the rows; and, for a legacy dictionary, replace them by the keys it lists when each
  list names distinct strings, and otherwise change nothing and fail.
\<close>

theorem grant_table_refines_sets:
  assumes "grants_ok d" and "fold (logged (run_grant_op e)) ops (d, []) = (d', answers)"
  shows "grants_ok d' \<and>
    fold (logged abs_grant_op) ops (grant_view d, []) = (grant_view d', answers)"
  using grant_sets.run_inv [of "(d, [])" e ops] grant_sets.run_abs [of "(d, [])" e ops] assms
  by simp

text \<open>
  C17: Replacing the grants of a resource never fails on the unique constraint, whatever the
  payload; afterwards a user has a permission on the resource exactly when a valid entry of the
  payload names the public principal, the user, or one of the user's groups, and the access to
  every other resource is unchanged.
\<close>

theorem set_access_grants_decides_access:
  assumes "grants_ok d"
  shows "\<exists>rows d'. set_access_grants e rt rid payload d = (Inr rows, d') \<and>
    (has_access d' u rt rid perm (Some gids) \<longleftrightarrow>
       (\<exists>g \<in> set payload. \<exists>pt pid. valid_grant_key g = Some (pt, pid, perm) \<and>
          (pt = ''user'' \<and> (pid = ''*'' \<or> pid = u) \<or> pt = ''group'' \<and> pid \<in> set gids))) \<and>
    ((rt', rid') \<noteq> (rt, rid) \<longrightarrow>
       has_access d' u rt' rid' perm (Some gids) = has_access d u rt' rid' perm (Some gids))"
proof -
  obtain rows d' where s: "set_access_grants e rt rid payload d = (Inr rows, d')"
    and r: "replace_access_grants e rt rid payload d = (rows, d')"
    using assms by (rule set_access_grants_view)
  have "(rt, rid, k) \<in> grant_view d' \<longleftrightarrow> k \<in> payload_keys payload" for k
    by (cases k) (auto simp: replace_view(3) [OF assms r])
  moreover have "(rt', rid', k) \<in> grant_view d' \<longleftrightarrow> (rt', rid', k) \<in> grant_view d"
    if "(rt', rid') \<noteq> (rt, rid)" for k
    using that by (cases k) (auto simp: replace_view(3) [OF assms r])
  ultimately show ?thesis
    using s unfolding has_access_view effective_Some principal_matches_def payload_keys_def by auto
qed

text \<open>
  C8: The four implementations of the check agree: the batch query returns the resources the
  single check accepts, the list filter keeps the rows the user owns or the single check accepts,
  and the read-only filter keeps the rows with read access, without write access, that the user
  does not own.
\<close>

theorem access_checks_agree:
  assumes "u \<noteq> []"
  shows "set (get_accessible_resource_ids d u rt rids perm (Some gids)) =
      {rid \<in> set rids. has_access d u rt rid perm (Some gids)} \<and>
    (perm \<noteq> ''read_only'' \<longrightarrow> has_permission_filter d rt u gids perm docs =
      [(rid, owner) \<leftarrow> docs. owner = u \<or> has_access d u rt rid perm (Some gids)]) \<and>
    has_permission_filter d rt u gids ''read_only'' docs =
      [(rid, owner) \<leftarrow> docs. owner \<noteq> u \<and> has_access d u rt rid ''read'' (Some gids) \<and>
         \<not> has_access d u rt rid ''write'' (Some gids)]"
  using assms
  by (auto simp: set_accessible has_permission_filter_def has_read_only_permission_filter_def
      grant_exists_has_access intro!: filter_cong)

text \<open>
  Normalising a payload keeps one entry for each valid key of the payload and nothing else,
  every kept entry is valid, and normalising the result again changes nothing and draws no
  identifier (random identifiers are not empty).
\<close>

theorem normalize_access_grants_canonical:
  assumes "\<And>n. U n \<noteq> []"
  shows "distinct (map json_grant_key (fst (normalize_access_grants U n gs))) \<and>
    json_grant_key ` set (fst (normalize_access_grants U n gs)) =
      {k. \<exists>g \<in> set gs. valid_grant_key g = Some k} \<and>
    list_all (\<lambda>g. valid_grant_key g = Some (json_grant_key g)) (fst (normalize_access_grants U n gs)) \<and>
    normalize_access_grants U m (fst (normalize_access_grants U n gs)) =
      (fst (normalize_access_grants U n gs), m)"
proof -
  have "valid_grant_key g = Some (json_grant_key g)"
    if "g \<in> set (fst (normalize_access_grants U n gs))" for g
    using normalize_keys [of U n gs] that by (metis json_grant_key_normal valid_grant_key_normal)
  then show ?thesis
    using normalize_idempotent [OF assms] by (simp add: list_all_iff payload_keys_def [symmetric])
qed

text \<open>
  The legacy dictionary survives the table: storing a dictionary with duplicate-free lists,
  at least one principal and no public read entry succeeds, and reading the access control of the
  resource back gives the same dictionary.
\<close>

theorem access_control_roundtrip:
  assumes "grants_ok d" and "legacy_ok r w"
  shows "\<exists>rows d'. set_access_control e rt rid (Some (legacy_dict r w)) d = (Inr rows, d') \<and>
    grants_ok d' \<and> get_access_control d' rt rid = Some (legacy_dict r w)"
proof -
  define ks where "ks = lists_keys ''read'' r @ lists_keys ''write'' w"
  define d1 where "d1 = delete_grants (\<lambda>g. ag_resource_type g = rt \<and> ag_resource_id g = rid) d"
  define rows where "rows = map (\<lambda>(i, k). new_grant e i k) (enumerate (drawn d) (map (\<lambda>k. (rt, rid, k)) ks))"
  define d' where "d' = d1\<lparr>access_grant_t := access_grant_t d1 @ rows, drawn := drawn d + length rows\<rparr>"
  have keys: "map ag_key rows = map (\<lambda>k. (rt, rid, k)) ks"
    unfolding rows_def by (rule nth_equalityI) (auto simp: nth_enumerate_eq)
  have "set (lists_keys ''read'' r) \<inter> set (lists_keys ''write'' w) = {}"
    by (auto simp: lists_keys_def)
  then have "distinct ks"
    using assms(2) by (simp add: ks_def legacy_ok_def distinct_lists_keys)
  then have dr: "distinct (map ag_key rows)"
    unfolding keys by (simp add: distinct_map inj_on_def)
  have "k \<noteq> ag_key g" if "g \<in> set (access_grant_t d1)" and "k \<in> ag_key ` set rows" for g k
  proof -
    have "k \<in> set (map ag_key rows)" using that(2) by simp
    then have "fst k = rt" "fst (snd k) = rid" unfolding keys by auto
    with that(1) show ?thesis by (auto simp: d1_def delete_grants_def ag_key_def)
  qed
  then have "ag_key ` set (access_grant_t d1) \<inter> ag_key ` set rows = {}" by blast
  then have ok: "grants_ok d'"
    using dr grants_ok_delete [OF assms(1), of "\<lambda>g. ag_resource_type g = rt \<and> ag_resource_id g = rid"]
    by (simp add: grants_ok_def d'_def d1_def)
  have "set_access_control e rt rid (Some (legacy_dict r w)) d = (Inr rows, d')"
    using ok unfolding set_access_control_def access_control_to_grants_legacy sum.case those_dict_rows
      option.case ks_def [symmetric] d1_def [symmetric] rows_def [symmetric] Let_def
      d'_def [symmetric] commit_grants_def
    by (simp add: grants_ok_def)
  moreover have "grants_of d' rt rid = rows"
  proof -
    have "grants_of d1 rt rid = []"
      by (auto simp: grants_of_def d1_def delete_grants_def filter_empty_conv)
    moreover have "ag_resource_type g = rt \<and> ag_resource_id g = rid" if "g \<in> set rows" for g
    proof -
      have "ag_key g \<in> set (map ag_key rows)" using that by simp
      then show ?thesis unfolding keys by (auto simp: ag_key_def)
    qed
    ultimately show ?thesis
      by (simp add: grants_of_def d'_def)
  qed
  ultimately show ?thesis
    using ok grants_to_access_control_legacy [OF assms(2) keys [unfolded ks_def]]
    by (simp add: get_access_control_def)
qed

text \<open>
  The users reported as revoked after the grants of a resource changed do not have the
  permission any more; and every registered, approved user whom the previous grants admitted and
  the check now refuses is reported.
\<close>

theorem revoked_users_exact:
  assumes "hierarchy_ok d"
  shows "(u \<in> get_revoked_user_ids_by_resource d rt rid previous perm \<longrightarrow>
      \<not> has_access d u rt rid perm None) \<and>
    (v \<in> set (user_t d) \<and> u_role v \<noteq> ''pending'' \<and>
     (\<exists>g \<in> set previous. ag_permission g = perm \<and>
        matches_principal (u_id v) (effective_group_ids d (u_id v) None) g) \<and>
     \<not> has_access d (u_id v) rt rid perm None \<longrightarrow>
      u_id v \<in> get_revoked_user_ids_by_resource d rt rid previous perm)"
proof -
  define cur where "cur = grants_of d rt rid"
  have acc: "has_access d x rt rid perm None \<longleftrightarrow> (\<exists>g \<in> set cur. ag_permission g = perm \<and>
      matches_principal x (effective_group_ids d x None) g)" for x
    by (auto simp: has_access_def list_ex_iff cur_def grants_of_def Let_def)
  define prs where "prs gs = {(ag_principal_type g, ag_principal_id g) | g. g \<in> set gs \<and> ag_permission g = perm}"
    for gs :: "access_grant list"
  have prs: "set [(ag_principal_type g, ag_principal_id g). g \<leftarrow> gs, ag_permission g = perm] = prs gs" for gs
    by (auto simp: prs_def)
  have pub: "(''user'', ''*'') \<in> prs gs \<longleftrightarrow> is_public gs perm" for gs
    by (force simp: prs_def is_public_def)
  have rev: "get_revoked_user_ids_by_resource d rt rid previous perm =
      (if prs previous \<subseteq> prs cur \<or> is_public cur perm then {}
       else get_user_ids_by_access_grants d previous perm - get_user_ids_by_access_grants d cur perm)"
    unfolding get_revoked_user_ids_by_resource_def Let_def get_grants_by_resource_def
      cur_def [symmetric] prs pub ..
  have by_prs: "(\<exists>g \<in> set gs. ag_permission g = perm \<and> matches_principal x ids g) \<longleftrightarrow>
      (\<exists>(pt, pid) \<in> prs gs. principal_matches x ids pt pid)" for gs x ids
    by (auto simp: prs_def matches_principal_iff)
  have "\<not> has_access d u rt rid perm None"
    if "u \<in> get_revoked_user_ids_by_resource d rt rid previous perm"
    using that user_ids_private [OF assms, of cur perm u] unfolding rev acc by (auto split: if_splits)
  moreover have "u_id v \<in> get_revoked_user_ids_by_resource d rt rid previous perm"
    if v: "v \<in> set (user_t d)" "u_role v \<noteq> ''pending''"
      and before: "\<exists>g \<in> set previous. ag_permission g = perm \<and>
        matches_principal (u_id v) (effective_group_ids d (u_id v) None) g"
      and now: "\<not> has_access d (u_id v) rt rid perm None"
  proof -
    have "\<not> is_public cur perm"
      using now unfolding acc is_public_def by (auto simp: matches_principal_def)
    moreover have "\<not> prs previous \<subseteq> prs cur"
      using before now unfolding acc by_prs by blast
    moreover have "u_id v \<in> get_user_ids_by_access_grants d previous perm"
      using before v user_ids_public [of previous perm d] user_ids_private [OF assms, of previous perm]
      by (cases "is_public previous perm") auto
    moreover have "u_id v \<notin> get_user_ids_by_access_grants d cur perm"
      using now user_ids_private [OF assms calculation(1)] unfolding acc by simp
    ultimately show ?thesis by (simp add: rev)
  qed
  ultimately show ?thesis by blast
qed

subsection \<open>Witnesses\<close>

lemma shared_grants_ok: "grants_ok shared_db"
  by (simp add: grants_ok_def shared_db_def sample_grant_def ag_key_def)

definition sample_grant_ops :: "grant_op list" where
  "sample_grant_ops =
     [Grant (''model'', ''m'', ''user'', ''bob'', ''read''),
      SetControl ''model'' ''n'' (Some [(''read'', JObj [(''user_ids'', JList [JStr ''bob'', JStr ''bob''])])]),
      SetControl ''model'' ''n'' (Some [(''read'', JObj [(''user_ids'', JList [JStr ''bob''])])]),
      Revoke (''model'', ''m'', ''user'', ''dave'', ''read'')]"

theorem grant_table_refines_sets_witness:
  "\<exists>d' answers. fold (logged (run_grant_op sample_env)) sample_grant_ops (shared_db, []) = (d', answers) \<and>
     answers = [Row (''model'', ''m'', ''user'', ''bob'', ''read''), Failed,
       Stored {#(''model'', ''n'', ''user'', ''bob'', ''read'')#}, Found False] \<and>
     grants_ok d' \<and>
     fold (logged abs_grant_op) sample_grant_ops (grant_view shared_db, []) = (grant_view d', answers)"
proof -
  obtain d' answers where run:
    "fold (logged (run_grant_op sample_env)) sample_grant_ops (shared_db, []) = (d', answers)"
    by (cases "fold (logged (run_grant_op sample_env)) sample_grant_ops (shared_db, [])")
  have "snd (fold (logged (run_grant_op sample_env)) sample_grant_ops (shared_db, [])) =
      [Row (''model'', ''m'', ''user'', ''bob'', ''read''), Failed,
       Stored {#(''model'', ''n'', ''user'', ''bob'', ''read'')#}, Found False]"
    by code_simp
  with run grant_table_refines_sets [OF shared_grants_ok run] show ?thesis by auto
qed

definition sample_payload :: "json list" where
  "sample_payload =
     [JObj [(''principal_type'', JStr ''user''), (''principal_id'', JStr ''dave''), (''permission'', JStr ''read'')],
      JObj [(''principal_type'', JStr ''robot''), (''principal_id'', JStr ''r''), (''permission'', JStr ''read'')],
      JObj [(''principal_type'', JStr ''user''), (''principal_id'', JStr ''dave''), (''permission'', JStr ''read'')]]"

theorem set_access_grants_decides_access_witness:
  "has_access (snd (set_access_grants sample_env ''model'' ''m'' sample_payload shared_db))
     ''dave'' ''model'' ''m'' ''read'' (Some [])"
proof -
  have key: "valid_grant_key (sample_payload ! 0) = Some (''user'', ''dave'', ''read'')"
    by (simp add: sample_payload_def valid_grant_key_def)
  have "sample_payload ! 0 \<in> set sample_payload"
    by (rule nth_mem) (simp add: sample_payload_def)
  with key show ?thesis
    using set_access_grants_decides_access [OF shared_grants_ok, of sample_env "''model''" "''m''"
        sample_payload "''dave''" "''read''" "[]" "''model''" "''other''"] by fastforce
qed

theorem access_checks_agree_witness:
  "set (get_accessible_resource_ids shared_db ''alice'' ''model'' [''m'', ''n''] ''read'' (Some [''u''])) = {''m''}"
proof -
  have "has_access shared_db ''alice'' ''model'' ''m'' ''read'' (Some [''u''])"
    "\<not> has_access shared_db ''alice'' ''model'' ''n'' ''read'' (Some [''u''])"
    by code_simp+
  then show ?thesis
    using access_checks_agree [of "''alice''" shared_db "''model''" "[''m'', ''n'']" "''read''" "[''u'']" "[]"]
    by auto
qed

theorem access_control_roundtrip_witness:
  "\<exists>rows d'. set_access_control sample_env ''model'' ''m''
       (Some (legacy_dict \<lparr>pl_group_ids = [''u''], pl_user_ids = []\<rparr> \<lparr>pl_group_ids = [], pl_user_ids = [''bob'']\<rparr>))
       shared_db = (Inr rows, d') \<and>
     grants_ok d' \<and> get_access_control d' ''model'' ''m'' =
       Some (legacy_dict \<lparr>pl_group_ids = [''u''], pl_user_ids = []\<rparr> \<lparr>pl_group_ids = [], pl_user_ids = [''bob'']\<rparr>)"
  by (rule access_control_roundtrip [OF shared_grants_ok]) (simp add: legacy_ok_def lists_keys_def)

theorem revoked_users_exact_witness:
  "''alice'' \<in> get_revoked_user_ids_by_resource shared_db ''model'' ''m''
     [sample_grant ''user'' ''*'' ''write''] ''write''"
proof -
  have "sample_user ''alice'' ''user'' \<in> set (user_t shared_db)" "u_role (sample_user ''alice'' ''user'') \<noteq> ''pending''"
    "u_id (sample_user ''alice'' ''user'') = ''alice''"
    by (simp_all add: shared_db_def sample_user_def)
  moreover have "\<not> has_access shared_db ''alice'' ''model'' ''m'' ''write'' None"
    by code_simp
  moreover have "matches_principal ''alice'' ids (sample_grant ''user'' ''*'' ''write'')"
    "ag_permission (sample_grant ''user'' ''*'' ''write'') = ''write''" for ids
    by (simp_all add: matches_principal_def sample_grant_def)
  ultimately show ?thesis
    using revoked_users_exact [OF shared_db_ok, of "''alice''" "''model''" "''m''"
        "[sample_grant ''user'' ''*'' ''write'']" "''write''" "sample_user ''alice'' ''user''"]
    by simp
qed

end
