(* ===== verification/AccessControl.thy ===== *)
theory AccessControl
  imports GrantOps
begin

text \<open>
  \<open>utils/access_control/__init__.py\<close> and \<open>folders.py\<close>: permission dictionaries, the checks on
  grants kept in configuration, the sharing policy, the base-model chain and folder inheritance.
  \<open>DEFAULT_USER_PERMISSIONS\<close> and \<open>BYPASS_ADMIN_ACCESS_CONTROL\<close> are configuration: arguments.
\<close>

subsection \<open>Permission dictionaries\<close>

fun fill_missing_permissions :: "json dict \<Rightarrow> json dict \<Rightarrow> json dict" where
  "fill_missing_permissions permissions [] = permissions"
| "fill_missing_permissions permissions ((key, value) # rest) =
     fill_missing_permissions
       (case map_of permissions key of
          None \<Rightarrow> AList.update key value permissions
        | Some current \<Rightarrow>
            (case (value, current) of
               (JObj dv, JObj dc) \<Rightarrow> AList.update key (JObj (fill_missing_permissions dc dv)) permissions
             | _ \<Rightarrow> permissions)) rest"

text \<open>
  The recursive call on a nested dictionary: a current value that is no dictionary supports
  neither the membership test nor the assignment, unless there is nothing to merge.
\<close>

fun combine_permissions :: "json dict \<Rightarrow> json dict \<Rightarrow> json dict result" where
  "combine_permissions permissions [] = Inr permissions"
| "combine_permissions permissions ((key, JObj sub) # rest) =
     bind_result
       (case (case map_of permissions key of None \<Rightarrow> JObj [] | Some current \<Rightarrow> current) of
          JObj current \<Rightarrow> map_sum id JObj (combine_permissions current sub)
        | current \<Rightarrow> if sub = [] then Inr current else Inl TypeError)
       (\<lambda>combined. combine_permissions (AList.update key combined permissions) rest)"
| "combine_permissions permissions ((key, value) # rest) =
     combine_permissions
       (AList.update key (case map_of permissions key of None \<Rightarrow> value | Some current \<Rightarrow> jor current value)
          permissions) rest"

text \<open>\<open>group.permissions or {}\<close>, iterated with \<open>items()\<close>.\<close>

definition group_permission_dict :: "group_row \<Rightarrow> json dict result" where
  "group_permission_dict g =
     (if truthy (g_permissions g)
      then (case g_permissions g of JObj p \<Rightarrow> Inr p | _ \<Rightarrow> Inl AttributeError) else Inr [])"

fun combine_groups :: "json dict \<Rightarrow> group_row list \<Rightarrow> json dict result" where
  "combine_groups permissions [] = Inr permissions"
| "combine_groups permissions (g # gs) =
     bind_result (group_permission_dict g) (\<lambda>p.
     bind_result (combine_permissions permissions p) (\<lambda>combined. combine_groups combined gs))"

definition get_permissions :: "json dict \<Rightarrow> db \<Rightarrow> string \<Rightarrow> json dict \<Rightarrow> json dict result" where
  "get_permissions D d user_id default_permissions =
     combine_groups (fill_missing_permissions default_permissions D)
       (get_groups_by_member_id d user_id True)"

text \<open>\<open>key in v\<close>, then \<open>v[key]\<close>; on a string the membership test is a substring test.\<close>

definition is_substring :: "string \<Rightarrow> string \<Rightarrow> bool" where
  "is_substring k s \<longleftrightarrow> list_ex (\<lambda>i. take (length k) (drop i s) = k) [0..<Suc (length s)]"

fun get_permission :: "json \<Rightarrow> string list \<Rightarrow> bool result" where
  "get_permission v [] = Inr (truthy v)"
| "get_permission (JObj d) (key # keys) =
     (case map_of d key of None \<Rightarrow> Inr False | Some v \<Rightarrow> get_permission v keys)"
| "get_permission (JStr s) (key # keys) = (if is_substring key s then Inl TypeError else Inr False)"
| "get_permission (JList xs) (key # keys) = (if JStr key \<in> set xs then Inl TypeError else Inr False)"
| "get_permission _ (key # keys) = Inl TypeError"

fun any_group_permission :: "group_row list \<Rightarrow> string list \<Rightarrow> bool result" where
  "any_group_permission [] keys = Inr False"
| "any_group_permission (g # gs) keys =
     bind_result (get_permission (jor (g_permissions g) (JObj [])) keys) (\<lambda>allowed.
       if allowed then Inr True else any_group_permission gs keys)"

definition has_permission :: "json dict \<Rightarrow> db \<Rightarrow> string \<Rightarrow> string \<Rightarrow> json dict \<Rightarrow> bool result" where
  "has_permission D d user_id permission_key default_permissions =
     (let keys = split_on (CHR ''.'') permission_key
      in bind_result (any_group_permission (get_groups_by_member_id d user_id True) keys) (\<lambda>allowed.
           if allowed then Inr True
           else get_permission (JObj (fill_missing_permissions default_permissions D)) keys))"

subsection \<open>Grants kept in configuration\<close>

text \<open>The loop over the grants; \<open>principal_id in user_group_ids\<close> on a set raises for an unhashable value.\<close>

fun admitted :: "string \<Rightarrow> string \<Rightarrow> string list \<Rightarrow> json list \<Rightarrow> bool result" where
  "admitted user_id permission gids [] = Inr False"
| "admitted user_id permission gids (JObj grant # gs) =
     (let principal_type = jget grant ''principal_type''; principal_id = jget grant ''principal_id''
      in if jget grant ''permission'' \<noteq> JStr permission then admitted user_id permission gids gs
         else if principal_type = JStr ''user'' \<and>
                 (principal_id = JStr ''*'' \<or> principal_id = JStr user_id) then Inr True
         else if principal_type = JStr ''group'' \<and> gids \<noteq> [] then
           (if \<not> hashable principal_id then Inl TypeError
            else if principal_id \<in> set (map JStr gids) then Inr True
            else admitted user_id permission gids gs)
         else admitted user_id permission gids gs)"
| "admitted user_id permission gids (_ # gs) = admitted user_id permission gids gs"

definition has_access_in_list ::
  "db \<Rightarrow> string \<Rightarrow> string \<Rightarrow> json \<Rightarrow> string list option \<Rightarrow> bool result" where
  "has_access_in_list d user_id permission access_grants user_group_ids =
     (if \<not> truthy access_grants then Inr False
      else bind_result (py_iter access_grants)
             (admitted user_id permission (effective_group_ids d user_id user_group_ids)))"

definition has_connection_access ::
  "bool \<Rightarrow> db \<Rightarrow> user_row \<Rightarrow> json dict \<Rightarrow> string list option \<Rightarrow> bool result" where
  "has_connection_access bypass d user connection user_group_ids =
     (if u_role user = ''admin'' \<and> bypass then Inr True
      else case jor (jget connection ''config'') (JObj []) of
        JObj config \<Rightarrow>
          (let access_grants = jget_default config ''access_grants'' (JList [])
           in if \<not> truthy access_grants then Inr (u_role user = ''admin'')
              else has_access_in_list d (u_id user) ''read'' access_grants
                     (Some (effective_group_ids d (u_id user) user_group_ids)))
      | _ \<Rightarrow> Inl AttributeError)"

definition config_grant :: "string \<Rightarrow> json \<Rightarrow> string \<Rightarrow> json" where
  "config_grant principal_type principal_id permission =
     JObj [(''principal_type'', JStr principal_type), (''principal_id'', principal_id),
           (''permission'', JStr permission)]"

definition migrate_access_control :: "string \<Rightarrow> string \<Rightarrow> json dict \<Rightarrow> json dict result" where
  "migrate_access_control ac_key grants_key data =
     (if map_of data grants_key \<noteq> None then Inr data
      else if map_of data ac_key = None then Inr data
      else
        (let access_control = jget data ac_key;
             store = (\<lambda>grants. Inr (AList.delete ac_key (AList.update grants_key (JList grants) data)))
         in case access_control of
              JObj ac \<Rightarrow>
                (if ac = [] then store []
                 else bind_result (permission_grants config_grant ac ''read'') (\<lambda>r.
                      bind_result (permission_grants config_grant ac ''write'') (\<lambda>w. store (r @ w))))
            | _ \<Rightarrow> store []))"

subsection \<open>The sharing policy\<close>

text \<open>General sharing, all authenticated users, and anonymous readers, respectively.\<close>

definition sharing_permission_keys ::
  "(string \<times> string option \<times> string option \<times> string option) list" where
  "sharing_permission_keys =
     [(''model'', Some ''sharing.models'', Some ''sharing.public_models'', None),
      (''knowledge'', Some ''sharing.knowledge'', Some ''sharing.public_knowledge'', None),
      (''prompt'', Some ''sharing.prompts'', Some ''sharing.public_prompts'', None),
      (''tool'', Some ''sharing.tools'', Some ''sharing.public_tools'', None),
      (''skill'', Some ''sharing.skills'', Some ''sharing.public_skills'', None),
      (''note'', Some ''sharing.notes'', Some ''sharing.public_notes'', None),
      (''folder'', Some ''sharing.folders'', None, None),
      (''channel'', None, Some ''sharing.public_channels'', None),
      (''calendar'', None, Some ''sharing.public_calendars'', None),
      (''shared_chat'', None, Some ''sharing.public_chats'', Some ''sharing.open_chats'')]"

definition allowed :: "json dict \<Rightarrow> string option \<Rightarrow> bool result" where
  "allowed permissions key =
     (case key of None \<Rightarrow> Inr False
      | Some k \<Rightarrow>
          (case split_on (CHR ''.'') k of
             [section, name] \<Rightarrow>
               (case jget_default permissions section (JObj []) of
                  JObj s \<Rightarrow> Inr (truthy (jget_default s name (JBool False)))
                | _ \<Rightarrow> Inl AttributeError)
           | _ \<Rightarrow> Inl (ValueError ''unpack'')))"

definition is_public_grant :: "json \<Rightarrow> bool" where
  "is_public_grant grant \<longleftrightarrow>
     field_is ''principal_type'' ''user'' grant \<and> field_is ''principal_id'' ''*'' grant"

definition audience :: "json \<Rightarrow> json" where
  "audience grant =
     (if is_public_grant grant then JStr ''public'' else grant_field ''principal_type'' grant)"

fun keep_allowed :: "(json \<times> bool) list \<Rightarrow> json list \<Rightarrow> json list result" where
  "keep_allowed audiences [] = Inr []"
| "keep_allowed audiences (grant # grants) =
     (case map_of audiences (audience grant) of None \<Rightarrow> Inl KeyError
      | Some b \<Rightarrow> map_sum id (\<lambda>gs. if b then grant # gs else gs) (keep_allowed audiences grants))"

text \<open>The payload after the audiences the resource type does not support are removed.\<close>

definition supported_grants :: "string option \<Rightarrow> string option \<Rightarrow> json list \<Rightarrow> json list" where
  "supported_grants public_key anyone_key grants =
     (let grants = (if anyone_key = None then strip_anyone_access_grants grants else grants)
      in if public_key = None then filter (\<lambda>g. \<not> is_public_grant g) grants else grants)"

definition filter_allowed_access_grants ::
  "json dict \<Rightarrow> (nat \<Rightarrow> string) \<Rightarrow> db \<Rightarrow> json dict \<Rightarrow> string \<Rightarrow> string \<Rightarrow> json list option \<Rightarrow> string \<Rightarrow> nat
     \<Rightarrow> json list option result \<times> nat" where
  "filter_allowed_access_grants D U d default_permissions user_id user_role access_grants resource_type n =
     (case map_of sharing_permission_keys resource_type of
        None \<Rightarrow> (Inl (ValueError ''Unsupported sharing resource type''), n)
      | Some (sharing_key, public_key, anyone_key) \<Rightarrow>
          (case access_grants of
             None \<Rightarrow> (Inr None, n)
           | Some [] \<Rightarrow> (Inr (Some []), n)
           | Some payload \<Rightarrow>
               (let (normalized, n') = normalize_access_grants U n payload;
                    grants = supported_grants public_key anyone_key normalized
                in (if user_role = ''admin'' \<or> grants = [] then Inr (Some grants)
                    else
                      bind_result (get_permissions D d user_id default_permissions) (\<lambda>permissions.
                      bind_result (if sharing_key = None then Inr True else allowed permissions sharing_key)
                        (\<lambda>sharing. if \<not> sharing then Inr (Some [])
                         else
                           bind_result (allowed permissions anyone_key) (\<lambda>anyone.
                           bind_result (allowed permissions public_key) (\<lambda>public.
                           bind_result (allowed permissions (Some ''access_grants.allow_users'')) (\<lambda>users.
                           bind_result (allowed permissions (Some ''access_grants.allow_groups'')) (\<lambda>groups.
                             map_sum id Some
                               (keep_allowed [(JStr ''anyone'', anyone), (JStr ''public'', public),
                                  (JStr ''user'', users), (JStr ''group'', groups)] grants))))))),
                    n'))))"

definition validate_access_grants ::
  "json dict \<Rightarrow> (nat \<Rightarrow> string) \<Rightarrow> db \<Rightarrow> json dict \<Rightarrow> string \<Rightarrow> string \<Rightarrow> json list \<Rightarrow> string \<Rightarrow> nat
     \<Rightarrow> json list result \<times> nat" where
  "validate_access_grants D U d default_permissions user_id user_role access_grants resource_type n =
     (case normalize_access_grants U n access_grants of
        (grants, n1) \<Rightarrow>
          (case filter_allowed_access_grants D U d default_permissions user_id user_role (Some grants)
                  resource_type n1 of
             (Inl err, n2) \<Rightarrow> (Inl err, n2)
           | (Inr None, n2) \<Rightarrow> (Inl TypeError, n2)
           | (Inr (Some kept), n2) \<Rightarrow>
               (if length kept \<noteq> length grants
                then Inl (HTTPException 403 ''You do not have permission to share with the requested audience'')
                else Inr kept, n2)))"

subsection \<open>The base-model chain\<close>

definition get_model_by_id :: "db \<Rightarrow> string \<Rightarrow> model_row option" where
  "get_model_by_id d i = List.find (\<lambda>m. m_id m = i) (model_t d)"

definition read_model :: "db \<Rightarrow> string \<Rightarrow> string list option \<Rightarrow> model_row \<Rightarrow> bool" where
  "read_model d user_id gids m \<longleftrightarrow>
     user_id = m_user_id m \<or> has_access d user_id ''model'' (m_id m) ''read'' gids"

text \<open>The identifiers a base-model pointer of the table can name.\<close>

definition base_ids :: "db \<Rightarrow> string list" where
  "base_ids d = List.map_filter m_base_model_id (model_t d)"

lemma base_ids_in: "m \<in> set (model_t d) \<Longrightarrow> m_base_model_id m = Some b \<Longrightarrow> b \<in> set (base_ids d)"
  by (force simp: base_ids_def map_filter_def)

function base_model_loop ::
  "db \<Rightarrow> string \<Rightarrow> string option \<Rightarrow> string list option \<Rightarrow> string list \<Rightarrow> string option \<Rightarrow> bool" where
  "base_model_loop d user_id user_role gids seen None = True"
| "base_model_loop d user_id user_role gids seen (Some base_model_id) =
     (if base_model_id = [] \<or> base_model_id \<in> set seen then True
      else case get_model_by_id d base_model_id of
        None \<Rightarrow> user_role = Some ''admin''
      | Some m \<Rightarrow>
          (if \<not> read_model d user_id gids m then False
           else base_model_loop d user_id user_role gids (base_model_id # seen) (m_base_model_id m)))"
  by pat_completeness auto
termination
proof (relation "measure (\<lambda>(d, u, r, g, seen, b).
    case b of None \<Rightarrow> 0 | Some i \<Rightarrow> Suc (walk_measure (base_ids d) seen i))", goal_cases)
  case 1
  show ?case by simp
next
  case (2 d u r g seen i m)
  then have "m \<in> set (model_t d)" by (auto simp: get_model_by_id_def dest: find_Some_in)
  with 2 show ?case
    by (auto split: option.splits intro!: walk_measure_decreases
        intro: base_ids_in)
qed

definition has_base_model_access ::
  "db \<Rightarrow> string \<Rightarrow> model_row \<Rightarrow> string option \<Rightarrow> string list option \<Rightarrow> bool" where
  "has_base_model_access d user_id model_info user_role gids =
     base_model_loop d user_id user_role gids [m_id model_info] (m_base_model_id model_info)"

definition check_model_access ::
  "db \<Rightarrow> user_row \<Rightarrow> model_row option \<Rightarrow> bool \<Rightarrow> unit result" where
  "check_model_access d user model_info bypass_filter =
     (if bypass_filter then Inr ()
      else case model_info of
        Some m \<Rightarrow>
          (if u_role user \<noteq> ''admin'' then
             (let gids = Some (map g_id (get_groups_by_member_id d (u_id user) True))
              in if \<not> read_model d (u_id user) gids m then Inl (HTTPException 403 ''Model not found'')
                 else if \<not> has_base_model_access d (u_id user) m (Some (u_role user)) gids
                 then Inl (HTTPException 403 ''Model not found'')
                 else Inr ())
           else Inr ())
      | None \<Rightarrow>
          if u_role user \<noteq> ''admin'' then Inl (HTTPException 403 ''Model not found'') else Inr ())"

subsection \<open>Folder inheritance\<close>

definition get_folder_by_id :: "db \<Rightarrow> string \<Rightarrow> folder_row option" where
  "get_folder_by_id d i = List.find (\<lambda>f. f_id f = i) (folder_t d)"

definition parent_folder :: "db \<Rightarrow> folder_row \<Rightarrow> folder_row option" where
  "parent_folder d f =
     (case f_parent_id f of None \<Rightarrow> None
      | Some p \<Rightarrow> if p = [] then None else get_folder_by_id d p)"

lemma parent_folder_in: "parent_folder d f = Some p \<Longrightarrow> p \<in> set (folder_t d)"
  by (auto simp: parent_folder_def get_folder_by_id_def split: option.splits if_splits dest: find_Some_in)

function folder_access_loop ::
  "db \<Rightarrow> string \<Rightarrow> string \<Rightarrow> string list \<Rightarrow> folder_row option \<Rightarrow> bool" where
  "folder_access_loop d user_id permission seen_ids None = False"
| "folder_access_loop d user_id permission seen_ids (Some f) =
     (if f_id f \<in> set seen_ids then False
      else if f_user_id f = user_id then True
      else if has_access d user_id ''folder'' (f_id f) permission None then True
      else folder_access_loop d user_id permission (f_id f # seen_ids) (parent_folder d f))"
  by pat_completeness auto
termination
proof (relation "measure (\<lambda>(d, u, p, seen, fo).
    case fo of None \<Rightarrow> 0 | Some f \<Rightarrow> Suc (walk_measure (map f_id (folder_t d)) seen (f_id f)))", goal_cases)
  case 1
  show ?case by simp
next
  case (2 d u p seen f)
  then show ?case
    by (auto split: option.splits intro!: walk_measure_decreases dest: parent_folder_in)
qed

definition has_folder_access :: "db \<Rightarrow> string \<Rightarrow> folder_row \<Rightarrow> string \<Rightarrow> bool" where
  "has_folder_access d user_id folder permission =
     folder_access_loop d user_id permission [] (Some folder)"

definition has_folder_write_access :: "db \<Rightarrow> string \<Rightarrow> string \<Rightarrow> bool" where
  "has_folder_write_access d user_id folder_id =
     (case get_folder_by_id d folder_id of None \<Rightarrow> False
      | Some f \<Rightarrow> has_folder_access d user_id f ''write'')"

text \<open>\<open>shared_root_id or folder.id\<close>.\<close>

definition str_or :: "string option \<Rightarrow> string \<Rightarrow> string" where
  "str_or a b = (case a of None \<Rightarrow> b | Some x \<Rightarrow> if x = [] then b else x)"

definition shared_root :: "db \<Rightarrow> folder_row \<Rightarrow> string option \<Rightarrow> string option" where
  "shared_root d f shared =
     (if get_grants_by_resource d ''folder'' (f_id f) \<noteq> [] then Some (f_id f) else shared)"

definition parent_ids :: "db \<Rightarrow> string list" where
  "parent_ids d = List.map_filter f_parent_id (folder_t d)"

lemma parent_ids_in: "f \<in> set (folder_t d) \<Longrightarrow> f_parent_id f = Some p \<Longrightarrow> p \<in> set (parent_ids d)"
  by (force simp: parent_ids_def map_filter_def)

function owned_root_loop ::
  "db \<Rightarrow> string \<Rightarrow> string list \<Rightarrow> string option \<Rightarrow> string option \<Rightarrow> string option" where
  "owned_root_loop d user_id seen_ids shared None = None"
| "owned_root_loop d user_id seen_ids shared (Some folder_id) =
     (if folder_id = [] \<or> folder_id \<in> set seen_ids then None
      else case get_folder_by_id d folder_id of
        None \<Rightarrow> None
      | Some f \<Rightarrow>
          (if f_user_id f \<noteq> user_id then None
           else if f_parent_id f = None \<or> f_parent_id f = Some []
           then Some (str_or (shared_root d f shared) (f_id f))
           else owned_root_loop d user_id (folder_id # seen_ids) (shared_root d f shared) (f_parent_id f)))"
  by pat_completeness auto
termination
proof (relation "measure (\<lambda>(d, u, seen, s, b).
    case b of None \<Rightarrow> 0 | Some i \<Rightarrow> Suc (walk_measure (parent_ids d) seen i))", goal_cases)
  case 1
  show ?case by simp
next
  case (2 d u seen s i f)
  then have "f \<in> set (folder_t d)" by (auto simp: get_folder_by_id_def dest: find_Some_in)
  with 2 show ?case
    by (auto split: option.splits intro!: walk_measure_decreases
        intro: parent_ids_in)
qed

definition get_owned_folder_root_id :: "db \<Rightarrow> string \<Rightarrow> string option \<Rightarrow> string option" where
  "get_owned_folder_root_id d user_id folder_id = owned_root_loop d user_id [] None folder_id"

definition has_chat_move_access :: "db \<Rightarrow> string \<Rightarrow> string option \<Rightarrow> string option \<Rightarrow> bool" where
  "has_chat_move_access d user_id source target =
     (let source_root = get_owned_folder_root_id d user_id source
      in source_root \<noteq> None \<and> source_root = get_owned_folder_root_id d user_id target)"

end
