(* ===== verification/AccessClaims.thy ===== *)
theory AccessClaims
  imports AccessControl GrantClaims
begin

text \<open>
  Properties of the access checks: permission dictionaries under a template, the sharing policy,
  configuration grants against stored grants, the base-model chain and folder inheritance.
\<close>

subsection \<open>Permission dictionaries that follow a template\<close>

text \<open>
  A permission dictionary conforms to a template when its keys are distinct and occur in it,
  with booleans where the template has booleans and dictionaries where it has dictionaries.
\<close>

function conforms :: "json \<Rightarrow> json \<Rightarrow> bool" where
  "conforms template v =
     (case (template, v) of
        (JBool _, JBool _) \<Rightarrow> True
      | (JObj t, JObj d) \<Rightarrow> distinct (map fst d) \<and>
          list_all (\<lambda>(k, w). case map_of t k of None \<Rightarrow> False | Some x \<Rightarrow> conforms x w) d
      | _ \<Rightarrow> False)"
  by pat_completeness auto
termination
  by (relation "measure (size \<circ> snd)") (auto intro: size_json_dict)

declare conforms.simps [simp del]

lemma conforms_Bool [simp]: "conforms (JBool a) v \<longleftrightarrow> (\<exists>b. v = JBool b)"
  by (subst conforms.simps) (cases v; simp)

lemma conforms_Obj [simp]: "conforms (JObj t) v \<longleftrightarrow> (\<exists>d. v = JObj d \<and> distinct (map fst d) \<and>
    (\<forall>(k, w) \<in> set d. \<exists>x. map_of t k = Some x \<and> conforms x w))"
  by (subst conforms.simps) (cases v; auto simp: list_all_iff split: option.splits)

lemma conforms_other [simp]:
  "\<not> conforms JNull v" "\<not> conforms (JInt i) v" "\<not> conforms (JStr s) v" "\<not> conforms (JList xs) v"
  by (subst conforms.simps; cases v; simp)+

definition conforms_dict :: "json dict \<Rightarrow> json dict \<Rightarrow> bool" where
  "conforms_dict t d \<longleftrightarrow> conforms (JObj t) (JObj d)"

lemma conforms_Nil [simp]: "conforms_dict t []"
  by (simp add: conforms_dict_def)

lemma conforms_Cons: "conforms_dict t ((k, v) # d) \<longleftrightarrow>
    k \<notin> fst ` set d \<and> (\<exists>x. map_of t k = Some x \<and> conforms x v) \<and> conforms_dict t d"
  by (auto simp: conforms_dict_def)

lemma conforms_map_of:
  "conforms_dict t d \<Longrightarrow> map_of d k = Some v \<Longrightarrow> \<exists>x. map_of t k = Some x \<and> conforms x v"
  by (induction d) (auto simp: conforms_Cons split: if_splits)

lemma conforms_update:
  assumes "conforms_dict t d" and "map_of t k = Some x" and "conforms x v"
  shows "conforms_dict t (AList.update k v d)"
  using assms by (induction d) (fastforce simp: conforms_Cons fst_update image_iff)+

lemma conforms_objE:
  assumes "conforms x (JObj d)" obtains t where "x = JObj t" and "conforms_dict t d"
  using assms by (cases x) (auto simp: conforms_dict_def)

fun allows :: "json \<Rightarrow> string list \<Rightarrow> bool" where
  "allows v [] = truthy v"
| "allows (JObj d) (k # ks) = (case map_of d k of None \<Rightarrow> False | Some w \<Rightarrow> allows w ks)"
| "allows _ (k # ks) = False"

text \<open>A path that does not descend below a boolean of the template.\<close>

fun path_ok :: "json \<Rightarrow> string list \<Rightarrow> bool" where
  "path_ok t [] = True"
| "path_ok (JObj t) (k # ks) = (case map_of t k of None \<Rightarrow> True | Some w \<Rightarrow> path_ok w ks)"
| "path_ok _ (k # ks) = False"

lemma get_permission_allows:
  "conforms t v \<Longrightarrow> path_ok t ks \<Longrightarrow> get_permission v ks = Inr (allows v ks)"
proof (induction v ks arbitrary: t rule: get_permission.induct)
  case (2 d key keys)
  from 2(2) obtain t' where t: "t = JObj t'" "conforms_dict t' d" by (rule conforms_objE)
  show ?case
  proof (cases "map_of d key")
    case (Some v)
    with t conforms_map_of obtain x where "map_of t' key = Some x" "conforms x v" by blast
    with Some 2 t show ?thesis by simp
  qed simp
qed (auto, (case_tac t; simp)+)

lemma allows_update:
  "allows (JObj (AList.update k v d)) (k' # ks) =
     (if k' = k then allows v ks else allows (JObj d) (k' # ks))"
  by simp

lemma allows_empty [simp]: "\<not> allows (JObj []) ks"
  by (cases ks) auto

lemma update_not_Nil [simp]: "AList.update k v d \<noteq> []"
  by (cases d) auto

lemma allows_absent: "k \<notin> fst ` set d \<Longrightarrow> \<not> allows (JObj d) (k # ks)"
  by (simp add: map_of_eq_None_iff [symmetric])

lemma allows_merge:
  assumes "k \<notin> fst ` set rest"
    and "\<And>ks. allows c ks \<longleftrightarrow> (case map_of p k of None \<Rightarrow> False | Some w \<Rightarrow> allows w ks) \<or> allows v ks"
    and "\<And>ks. allows (JObj r) ks \<longleftrightarrow> allows (JObj (AList.update k c p)) ks \<or> allows (JObj rest) ks"
  shows "allows (JObj r) ks \<longleftrightarrow> allows (JObj p) ks \<or> allows (JObj ((k, v) # rest)) ks"
proof (cases ks)
  case Nil
  then show ?thesis using assms(3) [of "[]"] by simp
next
  case (Cons k' ks')
  show ?thesis
  proof (cases "k' = k")
    case True
    have "allows (JObj r) (k # ks') \<longleftrightarrow> allows c ks'"
      using assms(3) [of "k # ks'"] allows_absent [OF assms(1), of ks'] by simp
    with True Cons show ?thesis by (simp add: assms(2))
  next
    case False
    with Cons show ?thesis using assms(3) [of ks] by simp
  qed
qed

lemma allows_jor:
  "conforms x a \<Longrightarrow> conforms x v \<Longrightarrow> \<not> is_dict v \<Longrightarrow> allows (jor a v) ks \<longleftrightarrow> allows a ks \<or> allows v ks"
  by (cases x; cases ks) (auto simp: jor_def)

lemma conforms_jor: "conforms x a \<Longrightarrow> conforms x v \<Longrightarrow> conforms x (jor a v)"
  by (simp add: jor_def del: conforms_Obj conforms_Bool)

lemma combine_scalar:
  assumes "\<not> is_dict v"
  shows "combine_permissions p ((k, v) # rest) =
    combine_permissions (AList.update k (case map_of p k of None \<Rightarrow> v | Some w \<Rightarrow> jor w v) p) rest"
  using assms by (cases v) auto

lemma combine_permissions_allows:
  "conforms_dict t p \<Longrightarrow> conforms_dict t g \<Longrightarrow>
     \<exists>r. combine_permissions p g = Inr r \<and> conforms_dict t r \<and>
       (\<forall>ks. allows (JObj r) ks \<longleftrightarrow> allows (JObj p) ks \<or> allows (JObj g) ks)"
proof (induction "size (JObj g)" arbitrary: t p g rule: less_induct)
  case less
  show ?case
  proof (cases g)
    case Nil
    with less.prems show ?thesis by simp
  next
    case (Cons kv rest)
    obtain k v where kv: "kv = (k, v)" by (cases kv)
    from less.prems(2) obtain x where x: "map_of t k = Some x" "conforms x v"
      and k: "k \<notin> fst ` set rest" and rest: "conforms_dict t rest"
      by (auto simp: Cons kv conforms_Cons)
    have old: "conforms x w" if "map_of p k = Some w" for w
      using conforms_map_of [OF less.prems(1) that] x by auto
    obtain c where c: "conforms x c"
      "\<And>ks. allows c ks \<longleftrightarrow> (case map_of p k of None \<Rightarrow> False | Some w \<Rightarrow> allows w ks) \<or> allows v ks"
      "combine_permissions p g = combine_permissions (AList.update k c p) rest"
    proof (cases "is_dict v")
      case True
      then obtain sub where v: "v = JObj sub" by (cases v) auto
      with x obtain u where u: "x = JObj u" "conforms_dict u sub" by (auto elim: conforms_objE)
      define q where "q = (case map_of p k of None \<Rightarrow> [] | Some w \<Rightarrow> dict_of w)"
      have "(case map_of p k of None \<Rightarrow> JObj [] | Some w \<Rightarrow> w) = JObj q \<and> conforms_dict u q"
      proof (cases "map_of p k")
        case (Some w)
        from old [OF Some] u(1) obtain dw where "w = JObj dw" "conforms_dict u dw"
          by (cases w) (auto simp: conforms_dict_def)
        with Some show ?thesis by (simp add: q_def)
      qed (simp add: q_def)
      then have q: "(case map_of p k of None \<Rightarrow> JObj [] | Some w \<Rightarrow> w) = JObj q" "conforms_dict u q"
        by blast+
      have "size (JObj sub) < size (JObj g)" by (simp add: Cons kv v)
      from less.hyps [OF this q(2) u(2)] obtain r where r: "combine_permissions q sub = Inr r"
        "conforms_dict u r" "\<forall>ks. allows (JObj r) ks \<longleftrightarrow> allows (JObj q) ks \<or> allows (JObj sub) ks"
        by blast
      show ?thesis
      proof (rule that [of "JObj r"])
        show "conforms x (JObj r)" using r u by (simp add: conforms_dict_def)
        show "allows (JObj r) ks \<longleftrightarrow>
            (case map_of p k of None \<Rightarrow> False | Some w \<Rightarrow> allows w ks) \<or> allows v ks" for ks
          using r(3) q(1) v by (auto split: option.splits)
        show "combine_permissions p g = combine_permissions (AList.update k (JObj r) p) rest"
          using q(1) r(1) by (simp add: Cons kv v)
      qed
    next
      case False
      let ?c = "case map_of p k of None \<Rightarrow> v | Some w \<Rightarrow> jor w v"
      show ?thesis
      proof (rule that [of ?c])
        show "conforms x ?c" using old x conforms_jor by (auto split: option.splits)
        show "allows ?c ks \<longleftrightarrow>
            (case map_of p k of None \<Rightarrow> False | Some w \<Rightarrow> allows w ks) \<or> allows v ks" for ks
          using old x False allows_jor by (auto split: option.splits)
        show "combine_permissions p g = combine_permissions (AList.update k ?c p) rest"
          using False by (simp add: Cons kv combine_scalar)
      qed
    qed
    have "size (JObj rest) < size (JObj g)" by (simp add: Cons kv)
    from less.hyps [OF this conforms_update [OF less.prems(1) x(1) c(1)] rest] c(3)
    obtain r where r: "combine_permissions p g = Inr r" "conforms_dict t r"
      "\<And>ks. allows (JObj r) ks \<longleftrightarrow> allows (JObj (AList.update k c p)) ks \<or> allows (JObj rest) ks"
      by auto
    from allows_merge [OF k c(2) r(3)] r show ?thesis by (auto simp: Cons kv)
  qed
qed

lemma combine_groups_allows:
  assumes "conforms_dict t p" and "\<forall>g \<in> set gs. conforms (JObj t) (jor (g_permissions g) (JObj []))"
  shows "\<exists>r. combine_groups p gs = Inr r \<and> conforms_dict t r \<and>
       (\<forall>ks. allows (JObj r) ks \<longleftrightarrow> allows (JObj p) ks \<or>
          (\<exists>g \<in> set gs. allows (jor (g_permissions g) (JObj [])) ks))"
  using assms
proof (induction gs arbitrary: p)
  case Nil
  then show ?case by simp
next
  case (Cons g gs)
  from Cons.prems obtain q where q: "jor (g_permissions g) (JObj []) = JObj q" "conforms_dict t q"
    by (auto simp: conforms_dict_def)
  then have "group_permission_dict g = Inr q"
    by (cases "g_permissions g") (auto simp: group_permission_dict_def jor_def split: if_splits)
  moreover from combine_permissions_allows [OF Cons.prems(1) q(2)] obtain r where
    "combine_permissions p q = Inr r" "conforms_dict t r"
    "\<forall>ks. allows (JObj r) ks \<longleftrightarrow> allows (JObj p) ks \<or> allows (JObj q) ks" by blast
  ultimately show ?case
    using Cons.IH [of r] Cons.prems q by auto
qed

lemma any_group_permission_allows:
  assumes "path_ok (JObj t) ks" and "\<forall>g \<in> set gs. conforms (JObj t) (jor (g_permissions g) (JObj []))"
  shows "any_group_permission gs ks = Inr (\<exists>g \<in> set gs. allows (jor (g_permissions g) (JObj [])) ks)"
  using assms by (induction gs) (auto simp: get_permission_allows simp del: conforms_Obj)

subsection \<open>Filling in the template\<close>

lemma fill_unchanged: "k \<notin> fst ` set e \<Longrightarrow> map_of (fill_missing_permissions p e) k = map_of p k"
  by (induction p e rule: fill_missing_permissions.induct) (auto split: option.splits json.splits)

text \<open>One step: the value stored under a key of the template.\<close>

definition filled :: "json \<Rightarrow> json option \<Rightarrow> json" where
  "filled v current =
     (case current of None \<Rightarrow> v
      | Some w \<Rightarrow> (case (v, w) of (JObj dv, JObj dw) \<Rightarrow> JObj (fill_missing_permissions dw dv) | _ \<Rightarrow> w))"

lemma fill_Cons: "fill_missing_permissions p ((k, v) # rest) =
    fill_missing_permissions (AList.update k (filled v (map_of p k)) p) rest"
  by (auto simp: filled_def AList.update_triv split: option.splits json.splits)

lemma filled_conforms:
  assumes "conforms x v" and "\<And>w. cur = Some w \<Longrightarrow> conforms x w"
    and "\<And>t dv dw. v = JObj dv \<Longrightarrow> conforms_dict t dw \<Longrightarrow> conforms_dict t dv \<Longrightarrow>
      conforms_dict t (fill_missing_permissions dw dv)"
  shows "conforms x (filled v cur)"
proof (cases cur)
  case None
  with assms(1) show ?thesis by (simp add: filled_def)
next
  case (Some w)
  with assms(2) have w: "conforms x w" by blast
  show ?thesis
  proof (cases v)
    case (JObj dv)
    with assms(1) obtain t where x: "x = JObj t" "conforms_dict t dv" by (auto elim: conforms_objE)
    with w obtain dw where "w = JObj dw" "conforms_dict t dw"
      by (cases w) (auto simp: conforms_dict_def)
    with assms(3) [OF JObj, of t dw] x JObj Some show ?thesis
      by (simp add: filled_def conforms_dict_def)
  qed (use w Some in \<open>simp_all add: filled_def del: conforms_Obj conforms_Bool\<close>)
qed

lemma fill_conforms:
  "conforms_dict t p \<Longrightarrow> conforms_dict t e \<Longrightarrow> conforms_dict t (fill_missing_permissions p e)"
proof (induction "size (JObj e)" arbitrary: t p e rule: less_induct)
  case less
  show ?case
  proof (cases e)
    case Nil
    with less.prems show ?thesis by simp
  next
    case (Cons kv rest)
    obtain k v where kv: "kv = (k, v)" by (cases kv)
    from less.prems(2) obtain x where x: "map_of t k = Some x" "conforms x v"
      and rest: "conforms_dict t rest"
      by (auto simp: Cons kv conforms_Cons)
    have "conforms x (filled v (map_of p k))"
    proof (rule filled_conforms [OF x(2)])
      show "conforms x w" if "map_of p k = Some w" for w
        using conforms_map_of [OF less.prems(1) that] x by auto
      show "conforms_dict u (fill_missing_permissions dw dv)"
        if "v = JObj dv" "conforms_dict u dw" "conforms_dict u dv" for u dv dw
        using that by (intro less.hyps) (auto simp: Cons kv)
    qed
    then show ?thesis
      unfolding Cons kv fill_Cons using less.prems x rest
      by (intro less.hyps conforms_update) (auto simp: Cons kv)
  qed
qed

fun lookup_path :: "json \<Rightarrow> string list \<Rightarrow> json option" where
  "lookup_path v [] = Some v"
| "lookup_path (JObj d) (k # ks) = (case map_of d k of None \<Rightarrow> None | Some w \<Rightarrow> lookup_path w ks)"
| "lookup_path _ (k # ks) = None"

abbreviation leaf :: "json \<Rightarrow> string list \<Rightarrow> bool \<Rightarrow> bool" where
  "leaf v ks b \<equiv> lookup_path v ks = Some (JBool b)"

lemma lookup_path_Obj_Nil [simp]: "\<not> leaf (JObj d) [] b"
  by simp

lemma fill_leaf:
  "conforms_dict t p \<Longrightarrow> conforms_dict t e \<Longrightarrow>
     leaf (JObj (fill_missing_permissions p e)) ks b \<longleftrightarrow>
       leaf (JObj p) ks b \<or> lookup_path (JObj p) ks = None \<and> leaf (JObj e) ks b"
proof (induction "size (JObj e)" arbitrary: t p e ks rule: less_induct)
  case less
  show ?case
  proof (cases ks)
    case Nil
    then show ?thesis by simp
  next
    case ks: (Cons k' ks')
    show ?thesis
    proof (cases e)
      case Nil
      with ks show ?thesis by simp
    next
      case (Cons kv rest)
      obtain k v where kv: "kv = (k, v)" by (cases kv)
      from less.prems(2) obtain x where x: "map_of t k = Some x" "conforms x v"
        and k: "k \<notin> fst ` set rest" and rest: "conforms_dict t rest"
        by (auto simp: Cons kv conforms_Cons)
      have old: "conforms x w" if "map_of p k = Some w" for w
        using conforms_map_of [OF less.prems(1) that] x by auto
      show ?thesis
      proof (cases "k' = k")
        case False
        have "conforms x (filled v (map_of p k))"
          using old fill_conforms by (intro filled_conforms [OF x(2)])
        from less.hyps [OF _ conforms_update [OF less.prems(1) x(1) this] rest, of ks] False
        show ?thesis by (simp add: Cons kv ks fill_Cons del: fill_missing_permissions.simps)
      next
        case True
        have "map_of (fill_missing_permissions p e) k = Some (filled v (map_of p k))"
          unfolding Cons kv fill_Cons by (simp add: fill_unchanged [OF k])
        moreover have "leaf (filled v (Some w)) ks' b \<longleftrightarrow>
            leaf w ks' b \<or> lookup_path w ks' = None \<and> leaf v ks' b" if w: "map_of p k = Some w" for w
        proof (cases v)
          case (JObj dv)
          with x obtain u where u: "x = JObj u" "conforms_dict u dv" by (auto elim: conforms_objE)
          with old [OF w] obtain dw where dw: "w = JObj dw" "conforms_dict u dw"
            by (cases w) (auto simp: conforms_dict_def)
          have "size (JObj dv) < size (JObj e)" by (simp add: Cons kv JObj)
          from less.hyps [OF this dw(2) u(2)] show ?thesis by (simp add: filled_def JObj dw)
        next
          case (JBool c)
          with x have "\<exists>a. x = JBool a" by (cases x) auto
          with old [OF w] obtain a where "w = JBool a" by auto
          with JBool show ?thesis by (cases ks') (auto simp: filled_def)
        qed (use x in \<open>cases x; simp\<close>)+
        ultimately show ?thesis
          by (simp add: ks True Cons kv filled_def del: fill_missing_permissions.simps split: option.split)
      qed
    qed
  qed
qed

subsection \<open>Sharing\<close>

text \<open>The policy of one grant: the audience is supported, and a user who is no admin has the permissions.\<close>

definition audience_key :: "string option \<Rightarrow> string option \<Rightarrow> json \<Rightarrow> string option" where
  "audience_key public_key anyone_key aud =
     (if aud = JStr ''anyone'' then anyone_key else if aud = JStr ''public'' then public_key
      else if aud = JStr ''user'' then Some ''access_grants.allow_users''
      else Some ''access_grants.allow_groups'')"

definition shareable :: "string \<Rightarrow> json dict \<Rightarrow> string \<Rightarrow> json \<Rightarrow> bool" where
  "shareable user_role permissions resource_type g =
     (case map_of sharing_permission_keys resource_type of None \<Rightarrow> False
      | Some (sharing_key, public_key, anyone_key) \<Rightarrow>
          audience_key public_key anyone_key (audience g) \<noteq> None \<and>
          (user_role \<noteq> ''admin'' \<longrightarrow>
             (sharing_key \<noteq> None \<longrightarrow> allowed permissions sharing_key = Inr True) \<and>
             allowed permissions (audience_key public_key anyone_key (audience g)) = Inr True))"

definition sections_ok :: "json dict \<Rightarrow> bool" where
  "sections_ok permissions \<longleftrightarrow> (\<forall>(k, v) \<in> set permissions. is_dict v)"

definition two_parts :: "string option \<Rightarrow> bool" where
  "two_parts key \<longleftrightarrow> (case key of None \<Rightarrow> True | Some k \<Rightarrow> length (split_on (CHR ''.'') k) = 2)"

lemma sharing_keys_two_parts:
  "list_all (\<lambda>(rt, s, p, a). two_parts s \<and> two_parts p \<and> two_parts a) sharing_permission_keys"
  "two_parts (Some ''access_grants.allow_users'')" "two_parts (Some ''access_grants.allow_groups'')"
  by code_simp+

lemma allowed_total:
  assumes "sections_ok permissions" and "two_parts key"
  shows "\<exists>b. allowed permissions key = Inr b"
proof (cases key)
  case (Some k)
  with assms(2) obtain s n where "split_on (CHR ''.'') k = [s, n]"
    by (auto simp: two_parts_def length_Suc_conv numeral_2_eq_2)
  moreover have "is_dict (jget_default permissions s (JObj []))"
    using assms(1) map_of_SomeD [of permissions s]
    by (auto simp: sections_ok_def jget_default_def split: option.splits)
  ultimately show ?thesis
    by (cases "jget_default permissions s (JObj [])") (auto simp: allowed_def Some)
next
  case None
  then show ?thesis by (auto simp: allowed_def intro: exI [of _ False])
qed

lemma keep_allowed_filter:
  "(\<And>g. g \<in> set gs \<Longrightarrow> map_of aud (audience g) \<noteq> None) \<Longrightarrow>
     keep_allowed aud gs = Inr (filter (\<lambda>g. map_of aud (audience g) = Some True) gs)"
proof (induction gs)
  case (Cons g gs)
  then obtain b where "map_of aud (audience g) = Some b" by auto
  with Cons show ?case by simp
qed simp

lemma normal_grant_fields [simp]:
  "field_is ''principal_type'' v (normal_grant i (pt, pid, perm)) \<longleftrightarrow> pt = v"
  "field_is ''principal_id'' v (normal_grant i (pt, pid, perm)) \<longleftrightarrow> pid = v"
  "is_public_grant (normal_grant i (pt, pid, perm)) \<longleftrightarrow> pt = ''user'' \<and> pid = ''*''"
  "audience (normal_grant i (pt, pid, perm)) = (if pt = ''user'' \<and> pid = ''*'' then JStr ''public'' else JStr pt)"
  by (simp_all add: audience_def is_public_grant_def field_is_def normal_grant_def grant_field_def)

lemma audience_normal:
  assumes "valid_key k"
  shows "audience (normal_grant i k) \<in> {JStr ''anyone'', JStr ''public'', JStr ''user'', JStr ''group''}"
proof -
  obtain pt pid perm where "k = (pt, pid, perm)" by (cases k)
  with assms show ?thesis by (auto simp: valid_key_def)
qed

lemma supported_grants_filter:
  assumes "\<And>g. g \<in> set gs \<Longrightarrow> \<exists>i k. valid_key k \<and> g = normal_grant i k"
  shows "supported_grants public_key anyone_key gs =
    filter (\<lambda>g. audience_key public_key anyone_key (audience g) \<noteq> None) gs"
proof -
  have "field_is ''principal_type'' ''anyone'' g \<longleftrightarrow> audience g = JStr ''anyone''"
    "is_public_grant g \<longleftrightarrow> audience g = JStr ''public''" if g: "g \<in> set gs" for g
  proof -
    obtain i pt pid perm where n: "valid_key (pt, pid, perm)" "g = normal_grant i (pt, pid, perm)"
      using assms [OF g] by (metis prod_cases3)
    then show "field_is ''principal_type'' ''anyone'' g \<longleftrightarrow> audience g = JStr ''anyone''"
      by simp
    show "is_public_grant g \<longleftrightarrow> audience g = JStr ''public''"
      using n(1) unfolding n(2) by (auto simp: valid_key_def)
  qed
  then show ?thesis
    by (auto simp: supported_grants_def strip_anyone_access_grants_def audience_key_def intro!: filter_cong)
qed

lemma sharing_keys_lookup:
  assumes "map_of sharing_permission_keys rt = Some (s, p, a)"
  shows "two_parts s" "two_parts p" "two_parts a"
  using map_of_SomeD [OF assms] sharing_keys_two_parts(1) by (auto simp: list_all_iff)

lemma filter_allowed_spec:
  assumes U: "\<And>n. U n \<noteq> []"
    and rt: "map_of sharing_permission_keys rt = Some (s, p, a)"
    and N: "N = fst (normalize_access_grants U n gs)"
    and perms: "get_permissions D d u defaults = Inr permissions" and sec: "sections_ok permissions"
  shows "filter_allowed_access_grants D U d defaults u role (Some N) rt m =
    (Inr (Some (filter (shareable role permissions rt) N)), m)"
proof (cases "N = []")
  case True
  with rt show ?thesis by (simp add: filter_allowed_access_grants_def)
next
  case False
  have normal: "\<exists>i k. valid_key k \<and> g = normal_grant i k" if "g \<in> set N" for g
    using normalize_keys [of U n gs] that N by blast
  define S where "S = filter (\<lambda>g. audience_key p a (audience g) \<noteq> None) N"
  have supp: "supported_grants p a N = S"
    unfolding S_def by (rule supported_grants_filter) (rule normal)
  have norm: "normalize_access_grants U m N = (N, m)"
    unfolding N by (rule normalize_idempotent) (rule U)
  obtain bs bp ba bu bg where b: "s \<noteq> None \<Longrightarrow> allowed permissions s = Inr bs"
    "allowed permissions p = Inr bp" "allowed permissions a = Inr ba"
    "allowed permissions (Some ''access_grants.allow_users'') = Inr bu"
    "allowed permissions (Some ''access_grants.allow_groups'') = Inr bg"
    using allowed_total [OF sec] sharing_keys_lookup [OF rt] sharing_keys_two_parts(2,3) by metis
  let ?aud = "[(JStr ''anyone'', ba), (JStr ''public'', bp), (JStr ''user'', bu), (JStr ''group'', bg)]"
  have lookup: "map_of ?aud (audience g) \<noteq> None"
    "map_of ?aud (audience g) = Some True \<longleftrightarrow> allowed permissions (audience_key p a (audience g)) = Inr True"
    if g: "g \<in> set N" for g
  proof -
    obtain i k where "valid_key k" "g = normal_grant i k" using normal [OF g] by blast
    then have "audience g \<in> {JStr ''anyone'', JStr ''public'', JStr ''user'', JStr ''group''}"
      using audience_normal by simp
    then show "map_of ?aud (audience g) \<noteq> None"
      "map_of ?aud (audience g) = Some True \<longleftrightarrow> allowed permissions (audience_key p a (audience g)) = Inr True"
      by (auto simp: audience_key_def b)
  qed
  have SN: "set S \<subseteq> set N" by (auto simp: S_def)
  have kept: "keep_allowed ?aud S = Inr (filter (\<lambda>g. allowed permissions (audience_key p a (audience g)) = Inr True) S)"
  proof -
    have "keep_allowed ?aud S = Inr (filter (\<lambda>g. map_of ?aud (audience g) = Some True) S)"
      using lookup(1) SN by (intro keep_allowed_filter) blast
    also have "filter (\<lambda>g. map_of ?aud (audience g) = Some True) S =
        filter (\<lambda>g. allowed permissions (audience_key p a (audience g)) = Inr True) S"
      by (intro filter_cong refl lookup(2)) (use SN in blast)
    finally show ?thesis .
  qed
  have target: "filter (shareable role permissions rt) N =
      (if role = ''admin'' then S
       else if s \<noteq> None \<and> allowed permissions s \<noteq> Inr True then []
       else filter (\<lambda>g. allowed permissions (audience_key p a (audience g)) = Inr True) S)"
    by (auto simp: S_def shareable_def rt filter_empty_conv intro!: filter_cong)
  obtain g0 N' where N': "N = g0 # N'" using False by (cases N) auto
  have filt: "filter_allowed_access_grants D U d defaults u role (Some N) rt m =
      (if role = ''admin'' \<or> S = [] then Inr (Some S)
       else bind_result (if s = None then Inr True else allowed permissions s) (\<lambda>sharing.
              if \<not> sharing then Inr (Some []) else map_sum id Some (keep_allowed ?aud S)), m)"
    using rt norm supp by (simp add: filter_allowed_access_grants_def N' perms b cong: if_cong)
  show ?thesis
    unfolding filt target kept using b(1) by (cases "s = None") (auto simp: Let_def)
qed

subsection \<open>Walks along base models and parent folders\<close>

definition base_of :: "db \<Rightarrow> string \<Rightarrow> string option" where
  "base_of d i =
     (if i = [] then None
      else case get_model_by_id d i of None \<Rightarrow> None | Some m \<Rightarrow> m_base_model_id m)"

text \<open>A hop is passed by an owner or a reader of the model; an unregistered model is for admins.\<close>

definition hop_ok :: "string \<Rightarrow> string option \<Rightarrow> string list option \<Rightarrow> db \<Rightarrow> string \<Rightarrow> bool" where
  "hop_ok user_id user_role gids d i \<longleftrightarrow> i = [] \<or>
     (case get_model_by_id d i of None \<Rightarrow> user_role = Some ''admin''
      | Some m \<Rightarrow> read_model d user_id gids m)"

lemma find_finite: "finite {i. List.find (\<lambda>m. f m = i) xs \<noteq> None}"
  by (rule finite_subset [of _ "f ` set xs"]) (auto simp: find_None_iff)

interpretation base_walk: pointer_walk base_of "hop_ok user_id user_role gids"
  "\<lambda>d seen i. base_model_loop d user_id user_role gids seen (Some i)"
proof
  fix d :: db
  show "finite (dom (base_of d))"
    by (rule finite_subset [OF _ find_finite [of m_id "model_t d"]])
       (auto simp: base_of_def get_model_by_id_def split: if_splits option.splits)
next
  fix d seen i
  show "base_model_loop d user_id user_role gids seen (Some i) \<longleftrightarrow>
      i \<in> set seen \<or> hop_ok user_id user_role gids d i \<and>
      (case base_of d i of None \<Rightarrow> True
       | Some j \<Rightarrow> base_model_loop d user_id user_role gids (i # seen) (Some j))"
    by (auto simp: hop_ok_def base_of_def split: option.split)
qed

definition folder_parent :: "db \<Rightarrow> string \<Rightarrow> string option" where
  "folder_parent d i =
     (case get_folder_by_id d i of None \<Rightarrow> None
      | Some f \<Rightarrow> if f_parent_id f = Some [] then None else f_parent_id f)"

definition opens_folder :: "string \<Rightarrow> string \<Rightarrow> db \<Rightarrow> string \<Rightarrow> bool" where
  "opens_folder user_id permission d i \<longleftrightarrow>
     (case get_folder_by_id d i of None \<Rightarrow> False
      | Some f \<Rightarrow> f_user_id f = user_id \<or> has_access d user_id ''folder'' i permission None)"

lemma get_folder_id: "get_folder_by_id d i = Some f \<Longrightarrow> f_id f = i"
  by (auto simp: get_folder_by_id_def dest: find_Some_in)

lemma parent_folder_lookup:
  "get_folder_by_id d i = Some f \<Longrightarrow>
     parent_folder d f = (case folder_parent d i of None \<Rightarrow> None | Some p \<Rightarrow> get_folder_by_id d p)"
  by (auto simp: parent_folder_def folder_parent_def split: option.splits)

interpretation folder_walk: pointer_walk folder_parent "\<lambda>d i. \<not> opens_folder user_id permission d i"
  "\<lambda>d seen i. \<not> folder_access_loop d user_id permission seen (get_folder_by_id d i)"
proof
  fix d :: db
  show "finite (dom (folder_parent d))"
    by (rule finite_subset [OF _ find_finite [of f_id "folder_t d"]])
       (auto simp: folder_parent_def get_folder_by_id_def split: if_splits option.splits)
next
  fix d seen i
  show "(\<not> folder_access_loop d user_id permission seen (get_folder_by_id d i)) \<longleftrightarrow>
      i \<in> set seen \<or> \<not> opens_folder user_id permission d i \<and>
      (case folder_parent d i of None \<Rightarrow> True
       | Some j \<Rightarrow> \<not> folder_access_loop d user_id permission (i # seen) (get_folder_by_id d j))"
  proof (cases "get_folder_by_id d i")
    case None
    then show ?thesis by (simp add: opens_folder_def folder_parent_def)
  next
    case (Some f)
    then show ?thesis
      using get_folder_id [OF Some] parent_folder_lookup [OF Some]
      by (simp add: opens_folder_def split: option.split)
  qed
qed

lemma shared_root_cases:
  "shared_root d f shared = Some r \<Longrightarrow> r = f_id f \<or> shared = Some r"
  by (auto simp: shared_root_def split: if_splits)

definition shared_folder :: "db \<Rightarrow> string \<Rightarrow> bool" where
  "shared_folder d i \<longleftrightarrow> grants_of d ''folder'' i \<noteq> []"

text \<open>
  The root the loop returns: every folder above the start is owned by the user, and the root
  is the outermost shared one, if any is shared.
\<close>

lemma owned_root_loop_spec:
  assumes "owned_root_loop d u seen shared (Some i) = Some r" and "shared \<noteq> Some []"
  shows "(\<forall>j \<in> folder_walk.reach d i. \<exists>f. get_folder_by_id d j = Some f \<and> f_user_id f = u) \<and>
    (r \<in> folder_walk.reach d i \<or> shared = Some r) \<and>
    (\<forall>j \<in> folder_walk.reach d i. shared_folder d j \<longrightarrow> r \<in> folder_walk.reach d j) \<and>
    ((\<exists>j \<in> folder_walk.reach d i. shared_folder d j) \<or> shared \<noteq> None \<longrightarrow>
       shared_folder d r \<or> shared = Some r)"
  using assms
proof (induction d u seen shared "Some i" arbitrary: i rule: owned_root_loop.induct)
  case (2 d u seen shared i)
  then obtain f where f: "i \<noteq> []" "get_folder_by_id d i = Some f" "f_user_id f = u" "i \<notin> set seen"
    by (auto split: if_splits option.splits)
  have id: "f_id f = i" by (rule get_folder_id [OF f(2)])
  show ?case
  proof (cases "folder_parent d i")
    case None
    then have reach: "folder_walk.reach d i = {i}" by (subst folder_walk.reach_step) simp
    from None f 2(2) have "r = str_or (shared_root d f shared) i"
      by (auto simp: folder_parent_def id split: if_splits)
    with reach f 2(3) show ?thesis
      by (auto simp: shared_root_def str_or_def shared_folder_def get_grants_by_resource_def id
          split: option.splits)
  next
    case (Some p)
    then have p: "f_parent_id f = Some p" "p \<noteq> []"
      by (auto simp: folder_parent_def f split: if_splits)
    have reach: "folder_walk.reach d i = insert i (folder_walk.reach d p)"
      using Some by (subst folder_walk.reach_step) simp
    have rec: "owned_root_loop d u (i # seen) (shared_root d f shared) (Some p) = Some r"
      using 2(2) f p by simp
    have "shared_root d f shared \<noteq> Some []"
      using 2(3) f by (auto simp: shared_root_def id)
    then have IH: "(\<forall>j \<in> folder_walk.reach d p. \<exists>f. get_folder_by_id d j = Some f \<and> f_user_id f = u) \<and>
        (r \<in> folder_walk.reach d p \<or> shared_root d f shared = Some r) \<and>
        (\<forall>j \<in> folder_walk.reach d p. shared_folder d j \<longrightarrow> r \<in> folder_walk.reach d j) \<and>
        ((\<exists>j \<in> folder_walk.reach d p. shared_folder d j) \<or> shared_root d f shared \<noteq> None \<longrightarrow>
           shared_folder d r \<or> shared_root d f shared = Some r)"
      using 2(1) [OF _ f(2) _ _ p(1) rec] f p by simp
    have root: "shared_root d f shared = (if shared_folder d i then Some i else shared)"
      by (simp add: shared_root_def shared_folder_def get_grants_by_resource_def id)
    show ?thesis
    proof (cases "shared_folder d i")
      case True
      with IH have r: "shared_folder d r" "r = i \<or> r \<in> folder_walk.reach d p" by (auto simp: root)
      then show ?thesis using IH f by (auto simp: reach)
    next
      case False
      then show ?thesis using IH f by (auto simp: reach root)
    qed
  qed
qed

subsection \<open>Grants of a configuration\<close>

definition list_match :: "string \<Rightarrow> string \<Rightarrow> string list \<Rightarrow> json \<Rightarrow> bool" where
  "list_match u perm gids g \<longleftrightarrow> field_is ''permission'' perm g \<and>
     (field_is ''principal_type'' ''user'' g \<and>
        (field_is ''principal_id'' ''*'' g \<or> field_is ''principal_id'' u g) \<or>
      field_is ''principal_type'' ''group'' g \<and> (\<exists>i \<in> set gids. field_is ''principal_id'' i g))"

lemma admitted_step:
  assumes "hashable (grant_field ''principal_id'' g)"
  shows "admitted u perm gids (g # gs) =
    (if list_match u perm gids g then Inr True else admitted u perm gids gs)"
proof (cases g)
  case (JObj grant)
  with assms show ?thesis
    by (auto simp: list_match_def field_is_def grant_field_def Let_def)
qed (simp_all add: list_match_def field_is_def grant_field_def)

lemma admitted_spec:
  "(\<And>g. g \<in> set gs \<Longrightarrow> hashable (grant_field ''principal_id'' g)) \<Longrightarrow>
     admitted u perm gids gs = Inr (\<exists>g \<in> set gs. list_match u perm gids g)"
  by (induction gs) (simp_all add: admitted_step)

lemma valid_grant_key_intro:
  assumes "jget d ''principal_type'' = JStr pt" and "jget d ''principal_id'' = JStr pid"
    and "jget d ''permission'' = JStr perm" and "valid_key (pt, pid, perm)"
  shows "valid_grant_key (JObj d) = Some (pt, pid, perm)"
  using assms(4) unfolding valid_grant_key_def json.case assms(1-3) Let_def by (auto simp: valid_key_def)

lemma list_match_valid:
  assumes "u \<noteq> []" and "[] \<notin> set gids" and "perm \<in> {''read'', ''write''}"
  shows "list_match u perm gids g \<longleftrightarrow>
    (\<exists>pt pid. valid_grant_key g = Some (pt, pid, perm) \<and> principal_matches u gids pt pid)"
proof
  assume m: "list_match u perm gids g"
  then obtain d where d: "g = JObj d"
    by (cases g) (auto simp: list_match_def field_is_def grant_field_def)
  from m obtain pt pid where k: "jget d ''principal_type'' = JStr pt" "jget d ''principal_id'' = JStr pid"
    "jget d ''permission'' = JStr perm" "principal_matches u gids pt pid"
    by (auto simp: list_match_def field_is_def grant_field_def d principal_matches_def)
  moreover have "valid_key (pt, pid, perm)"
    using k(4) assms by (auto simp: principal_matches_def valid_key_def)
  ultimately show "\<exists>pt pid. valid_grant_key g = Some (pt, pid, perm) \<and> principal_matches u gids pt pid"
    using valid_grant_key_intro d by blast
next
  assume "\<exists>pt pid. valid_grant_key g = Some (pt, pid, perm) \<and> principal_matches u gids pt pid"
  then obtain pt pid where k: "valid_grant_key g = Some (pt, pid, perm)" "principal_matches u gids pt pid"
    by blast
  then obtain d where d: "g = JObj d"
    by (cases g) (auto simp: valid_grant_key_def)
  from k(1) have "jget d ''principal_type'' = JStr pt" "jget d ''principal_id'' = JStr pid"
    "jget d ''permission'' = JStr perm"
    by (auto simp: valid_grant_key_def d Let_def split: if_splits json.splits)
  with k(2) show "list_match u perm gids g"
    by (auto simp: list_match_def field_is_def grant_field_def d principal_matches_def)
qed

lemma permission_grants_config:
  "map_of ac perm = Some (permission_json pl) \<Longrightarrow>
     permission_grants config_grant ac perm =
       Inr (map (\<lambda>(pt, i, perm). config_grant pt (JStr i) perm) (lists_keys perm pl))"
  by (simp add: permission_grants_def jget_default_def permission_json_def lists_keys_def o_def)

lemma config_grant_fields [simp]:
  "field_is ''principal_type'' v (config_grant pt i perm) \<longleftrightarrow> pt = v"
  "field_is ''principal_id'' v (config_grant pt i perm) \<longleftrightarrow> i = JStr v"
  "field_is ''permission'' v (config_grant pt i perm) \<longleftrightarrow> perm = v"
  "grant_field ''principal_id'' (config_grant pt i perm) = i"
  by (simp_all add: field_is_def grant_field_def config_grant_def)

subsection \<open>Properties\<close>

text \<open>
  The two ways to ask for a permission agree: when the defaults and the permissions of the
  user's groups follow the template, \<open>has_permission\<close> answers what reading the combined
  dictionary of \<open>get_permissions\<close> at the same path answers, and neither fails.
\<close>

theorem has_permission_agrees:
  assumes "conforms_dict D D" and "conforms_dict D defaults"
    and "\<forall>g \<in> set (get_groups_by_member_id d u True). conforms (JObj D) (jor (g_permissions g) (JObj []))"
    and "path_ok (JObj D) (split_on (CHR ''.'') key)"
  shows "\<exists>p b. get_permissions D d u defaults = Inr p \<and> has_permission D d u key defaults = Inr b \<and>
    get_permission (JObj p) (split_on (CHR ''.'') key) = Inr b"
proof -
  let ?ks = "split_on (CHR ''.'') key" and ?F = "fill_missing_permissions defaults D"
  have F: "conforms_dict D ?F" by (rule fill_conforms [OF assms(2,1)])
  obtain r where r: "get_permissions D d u defaults = Inr r" "conforms_dict D r"
    "\<forall>ks. allows (JObj r) ks \<longleftrightarrow> allows (JObj ?F) ks \<or>
       (\<exists>g \<in> set (get_groups_by_member_id d u True). allows (jor (g_permissions g) (JObj [])) ks)"
    using combine_groups_allows [OF F assms(3)] by (auto simp: get_permissions_def)
  then have "get_permission (JObj r) ?ks = Inr (allows (JObj r) ?ks)"
    using assms(4) by (intro get_permission_allows) (auto simp: conforms_dict_def)
  moreover have "get_permission (JObj ?F) ?ks = Inr (allows (JObj ?F) ?ks)"
    using F assms(4) by (intro get_permission_allows) (auto simp: conforms_dict_def)
  ultimately show ?thesis
    using r any_group_permission_allows [OF assms(4,3)] by (auto simp: has_permission_def Let_def)
qed

text \<open>
  C21: A sharing change is accepted exactly when the policy allows every grant of the normalised
  payload to the user (the audience is supported by the resource type, and a user who is no
  admin has the sharing permission and the permission of the audience); it is then accepted
  unchanged, and refused with status 403 otherwise.
\<close>

theorem validate_access_grants_exact:
  assumes "\<And>n. U n \<noteq> []" and "map_of sharing_permission_keys rt = Some keys"
    and "get_permissions D d u defaults = Inr permissions" and "sections_ok permissions"
  shows "fst (validate_access_grants D U d defaults u role payload rt n) =
    (let grants = fst (normalize_access_grants U n payload)
     in if \<forall>g \<in> set grants. shareable role permissions rt g then Inr grants
        else Inl (HTTPException 403 ''You do not have permission to share with the requested audience''))"
proof -
  obtain s p a where keys: "keys = (s, p, a)" by (cases keys)
  obtain N m where N: "normalize_access_grants U n payload = (N, m)"
    by (cases "normalize_access_grants U n payload")
  have f: "filter_allowed_access_grants D U d defaults u role (Some N) rt m =
      (Inr (Some (filter (shareable role permissions rt) N)), m)"
    by (rule filter_allowed_spec [OF assms(1) assms(2) [unfolded keys] _ assms(3,4), where n = n and gs = payload])
       (simp add: N)
  have "length (filter P N) = length N \<longleftrightarrow> (\<forall>g \<in> set N. P g)" for P
    by (metis filter_True length_filter_less less_irrefl)
  moreover have "(\<forall>g \<in> set N. P g) \<Longrightarrow> filter P N = N" for P
    by simp
  ultimately show ?thesis
    by (simp add: validate_access_grants_def N f Let_def)
qed

text \<open>
  C39: A user who is no admin may use a registered model exactly when he owns or may read it and
  every model its base-model chain reaches, and every reached base model is registered; a
  cyclic chain is decided too.
\<close>

theorem check_model_access_chain:
  assumes "get_model_by_id d (m_id m) = Some m" and "m_id m \<noteq> []" and "u_role user \<noteq> ''admin''"
  shows "check_model_access d user (Some m) False =
    (if \<forall>i \<in> base_walk.reach d (m_id m). i \<noteq> [] \<longrightarrow> (\<exists>b. get_model_by_id d i = Some b \<and>
          (u_id user = m_user_id b \<or>
           has_access d (u_id user) ''model'' (m_id b) ''read'' (Some (effective_group_ids d (u_id user) None))))
     then Inr () else Inl (HTTPException 403 ''Model not found''))"
proof -
  define gids where "gids = Some (effective_group_ids d (u_id user) None)"
  define ok where "ok i \<longleftrightarrow> hop_ok (u_id user) (Some (u_role user)) gids d i" for i
  have next_m: "base_of d (m_id m) = m_base_model_id m"
    using assms by (simp add: base_of_def)
  have chain: "has_base_model_access d (u_id user) m (Some (u_role user)) gids \<longleftrightarrow>
      (\<forall>i \<in> base_walk.reach d (m_id m) - {m_id m}. ok i)"
  proof (cases "m_base_model_id m")
    case None
    then have "base_walk.reach d (m_id m) = {m_id m}"
      by (subst base_walk.reach_step) (simp add: next_m)
    with None show ?thesis by (simp add: has_base_model_access_def)
  next
    case (Some b)
    have "base_model_loop d (u_id user) (Some (u_role user)) gids [m_id m] (Some b) \<longleftrightarrow>
        (\<forall>i \<in> base_walk.reach d b - set [m_id m]. ok i)"
      unfolding ok_def by (rule base_walk.loop_seen) (use next_m Some in auto)
    moreover have "base_walk.reach d (m_id m) = insert (m_id m) (base_walk.reach d b)"
      using Some by (subst base_walk.reach_step) (simp add: next_m)
    ultimately show ?thesis using Some by (simp add: has_base_model_access_def)
  qed
  have self: "ok (m_id m) \<longleftrightarrow> read_model d (u_id user) gids m" and "m_id m \<in> base_walk.reach d (m_id m)"
    using assms by (auto simp: ok_def hop_ok_def base_walk.reach_def)
  then have "check_model_access d user (Some m) False =
      (if \<forall>i \<in> base_walk.reach d (m_id m). ok i then Inr () else Inl (HTTPException 403 ''Model not found''))"
    using assms(3) chain
    by (auto simp: check_model_access_def Let_def gids_def effective_group_ids_def)
  moreover have "ok i \<longleftrightarrow> (i \<noteq> [] \<longrightarrow> (\<exists>b. get_model_by_id d i = Some b \<and> (u_id user = m_user_id b \<or>
      has_access d (u_id user) ''model'' (m_id b) ''read'' gids)))" for i
    using assms(3) by (auto simp: ok_def hop_ok_def read_model_def split: option.split)
  ultimately show ?thesis by (simp add: gids_def)
qed

text \<open>
  A user has access to a folder exactly when he owns, or was granted the permission on, the
  folder or one of its ancestors, whatever cycle the parent links contain.
\<close>

theorem folder_access_inherited:
  assumes "get_folder_by_id d i = Some f"
  shows "has_folder_access d u f permission \<longleftrightarrow>
    (\<exists>j \<in> folder_walk.reach d i. \<exists>g. get_folder_by_id d j = Some g \<and>
       (f_user_id g = u \<or> has_access d u ''folder'' j permission None))"
  using folder_walk.loop_reach [of d u permission i] assms
  by (simp add: has_folder_access_def opens_folder_def del: folder_access_loop.simps split: option.splits)
     blast

text \<open>
  A chat may only be moved between folders of one tree the user owns up to its root: every
  folder above the source and the target is his, and both lie below the same outermost shared
  folder, so a move never leaves or enters a shared subtree.
\<close>

theorem chat_move_stays_in_shared_tree:
  assumes "has_chat_move_access d u (Some source) (Some target)"
  shows "\<exists>r. r \<in> folder_walk.reach d source \<and> r \<in> folder_walk.reach d target \<and>
    (\<forall>j \<in> folder_walk.reach d source \<union> folder_walk.reach d target.
       (\<exists>f. get_folder_by_id d j = Some f \<and> f_user_id f = u) \<and>
       (shared_folder d j \<longrightarrow> shared_folder d r \<and> r \<in> folder_walk.reach d j))"
proof -
  obtain r where r: "owned_root_loop d u [] None (Some source) = Some r"
    "owned_root_loop d u [] None (Some target) = Some r"
    using assms unfolding has_chat_move_access_def get_owned_folder_root_id_def Let_def
    by (metis not_None_eq)
  from owned_root_loop_spec [OF r(1)] owned_root_loop_spec [OF r(2)] show ?thesis by blast
qed

text \<open>
  Grants kept in configuration and grants kept in the table mean the same: checking a
  payload as a list answers what the table answers after the payload was stored.
\<close>

theorem list_check_agrees_with_table:
  assumes "grants_ok d" and "set_access_grants e rt rid payload d = (Inr rows, d')"
    and "u \<noteq> []" and "[] \<notin> set gids" and "perm \<in> {''read'', ''write''}"
    and "\<forall>g \<in> set payload. hashable (grant_field ''principal_id'' g)"
  shows "has_access_in_list d0 u perm (JList payload) (Some gids) =
    Inr (has_access d' u rt rid perm (Some gids))"
proof -
  have "replace_access_grants e rt rid payload d = (rows, d')"
    using assms(2) by (auto simp: set_access_grants_def commit_grants_def split: prod.splits if_splits)
  from replace_view(3) [OF assms(1) this]
  have "has_access d' u rt rid perm (Some gids) \<longleftrightarrow>
      (\<exists>pt pid. (pt, pid, perm) \<in> payload_keys payload \<and> principal_matches u gids pt pid)"
    unfolding has_access_view effective_Some by auto
  also have "\<dots> \<longleftrightarrow> (\<exists>g \<in> set payload. list_match u perm gids g)"
    unfolding payload_keys_def list_match_valid [OF assms(3-5)] by blast
  finally show ?thesis
    using admitted_spec [of payload u perm gids] assms(6)
    by (simp add: has_access_in_list_def)
qed

text \<open>
  Migrating a configuration from the legacy dictionary removes the old key, stores grants
  that admit exactly the users and the groups the dictionary lists for the permission, and
  migrating again changes nothing.
\<close>

theorem migrate_access_control_exact:
  assumes "map_of data ac_key = Some (JObj (legacy_dict r w))" and "map_of data grants_key = None"
    and "perm = ''read'' \<and> pl = r \<or> perm = ''write'' \<and> pl = w"
  shows "\<exists>data' grants. migrate_access_control ac_key grants_key data = Inr data' \<and>
    map_of data' = (map_of data)(ac_key := None, grants_key := Some grants) \<and>
    migrate_access_control ac_key grants_key data' = Inr data' \<and>
    has_access_in_list d u perm grants (Some gids) =
      Inr (u \<in> set (pl_user_ids pl) \<or> ''*'' \<in> set (pl_user_ids pl) \<or>
           set gids \<inter> set (pl_group_ids pl) \<noteq> {})"
proof -
  define ks where "ks = lists_keys ''read'' r @ lists_keys ''write'' w"
  define gs where "gs = map (\<lambda>(pt, i, perm). config_grant pt (JStr i) perm) ks"
  define data' where "data' = AList.delete ac_key (AList.update grants_key (JList gs) data)"
  have ne: "ac_key \<noteq> grants_key" using assms by auto
  have m: "migrate_access_control ac_key grants_key data = Inr data'"
    using assms(1,2)
    by (simp add: migrate_access_control_def jget_def data'_def gs_def ks_def permission_grants_config
        legacy_dict_def)
  have look: "map_of data' = (map_of data)(ac_key := None, grants_key := Some (JList gs))"
    using ne by (auto simp: data'_def AList.delete_conv')
  have "admitted u perm gids gs = Inr (\<exists>g \<in> set gs. list_match u perm gids g)"
    by (rule admitted_spec) (auto simp: gs_def)
  moreover have "(\<exists>g \<in> set gs. list_match u perm gids g) \<longleftrightarrow>
      u \<in> set (pl_user_ids pl) \<or> ''*'' \<in> set (pl_user_ids pl) \<or> set gids \<inter> set (pl_group_ids pl) \<noteq> {}"
    using assms(3) by (elim disjE) (simp_all add: gs_def ks_def list_match_def lists_keys_def bex_Un, blast+)
  ultimately have "has_access_in_list d u perm (JList gs) (Some gids) =
      Inr (u \<in> set (pl_user_ids pl) \<or> ''*'' \<in> set (pl_user_ids pl) \<or> set gids \<inter> set (pl_group_ids pl) \<noteq> {})"
    by (auto simp: has_access_in_list_def)
  moreover have "migrate_access_control ac_key grants_key data' = Inr data'"
    by (simp add: migrate_access_control_def look)
  ultimately show ?thesis using m look by blast
qed

subsection \<open>Witnesses\<close>

definition sample_template :: "json dict" where
  "sample_template =
     [(''sharing'', JObj [(''models'', JBool False), (''public_models'', JBool False)]),
      (''access_grants'', JObj [(''allow_users'', JBool True), (''allow_groups'', JBool False)])]"

text \<open>The root group allows sharing models; model \<open>m\<close> builds on alice's model \<open>b\<close>.\<close>

definition sample_model :: model_row where
  "sample_model = \<lparr>m_id = ''m'', m_user_id = ''carol'', m_base_model_id = Some ''b''\<rparr>"

definition sample_folder :: "string \<Rightarrow> string option \<Rightarrow> folder_row" where
  "sample_folder i p = \<lparr>f_id = i, f_user_id = ''alice'', f_parent_id = p, f_data = JNull\<rparr>"

definition access_db :: db where
  "access_db = shared_db\<lparr>
     group_t := [(sample_group ''u'' None)\<lparr>g_permissions := JObj [(''sharing'', JObj [(''models'', JBool True)])]\<rparr>,
       sample_group ''uu'' (Some ''u''), sample_group ''uuu'' (Some ''uu'')],
     model_t := [sample_model, \<lparr>m_id = ''b'', m_user_id = ''alice'', m_base_model_id = None\<rparr>],
     folder_t := [sample_folder ''root'' None, sample_folder ''left'' (Some ''root''),
       sample_folder ''right'' (Some ''root'')]\<rparr>"

lemma sample_template_ok: "conforms_dict sample_template sample_template"
  by (simp add: conforms_dict_def sample_template_def)

lemma alice_permissions:
  "get_permissions sample_template access_db ''alice'' [] = Inr
     [(''sharing'', JObj [(''models'', JBool True), (''public_models'', JBool False)]),
      (''access_grants'', JObj [(''allow_users'', JBool True), (''allow_groups'', JBool False)])]"
  by code_simp

lemma alice_groups: "map g_permissions (get_groups_by_member_id access_db ''alice'' True) =
    [JObj [(''sharing'', JObj [(''models'', JBool True)])], JNull, JNull]"
  by code_simp

theorem has_permission_agrees_witness:
  "\<exists>p. get_permissions sample_template access_db ''alice'' [] = Inr p \<and>
     has_permission sample_template access_db ''alice'' ''sharing.models'' [] =
       get_permission (JObj p) [''sharing'', ''models'']"
proof -
  have keys: "split_on (CHR ''.'') ''sharing.models'' = [''sharing'', ''models'']" by simp
  have "jor (g_permissions g) (JObj []) \<in> {JObj [(''sharing'', JObj [(''models'', JBool True)])], JObj []}"
    if "g \<in> set (get_groups_by_member_id access_db ''alice'' True)" for g
  proof -
    have "g_permissions g \<in> set [JObj [(''sharing'', JObj [(''models'', JBool True)])], JNull, JNull]"
      using that unfolding alice_groups [symmetric] by simp
    then show ?thesis by (auto simp: jor_def)
  qed
  then have "\<forall>g \<in> set (get_groups_by_member_id access_db ''alice'' True).
      conforms (JObj sample_template) (jor (g_permissions g) (JObj []))"
    by (fastforce simp: sample_template_def)
  moreover have "path_ok (JObj sample_template) [''sharing'', ''models'']"
    by (simp add: sample_template_def)
  ultimately show ?thesis
    using has_permission_agrees [OF sample_template_ok conforms_Nil, of access_db "''alice''" "''sharing.models''"]
    unfolding keys by auto
qed

theorem validate_access_grants_exact_witness:
  "fst (validate_access_grants sample_template (uuid4 sample_env) access_db [] ''alice'' ''user''
     sample_payload ''model'' 0) = Inr (fst (normalize_access_grants (uuid4 sample_env) 0 sample_payload))"
proof -
  have "uuid4 sample_env n \<noteq> []" for n by (simp add: sample_env_def)
  moreover have "map_of sharing_permission_keys ''model'' =
      Some (Some ''sharing.models'', Some ''sharing.public_models'', None)"
    by (simp add: sharing_permission_keys_def)
  moreover have "sections_ok
     [(''sharing'', JObj [(''models'', JBool True), (''public_models'', JBool False)]),
      (''access_grants'', JObj [(''allow_users'', JBool True), (''allow_groups'', JBool False)])]"
    by (simp add: sections_ok_def)
  moreover have "list_all (shareable ''user''
     [(''sharing'', JObj [(''models'', JBool True), (''public_models'', JBool False)]),
      (''access_grants'', JObj [(''allow_users'', JBool True), (''allow_groups'', JBool False)])] ''model'')
     (fst (normalize_access_grants (uuid4 sample_env) 0 sample_payload))"
    by code_simp
  ultimately show ?thesis
    using validate_access_grants_exact [OF _ _ alice_permissions, of "uuid4 sample_env" "''model''" _ "''user''" sample_payload 0]
    by (simp add: list_all_iff Let_def)
qed

theorem check_model_access_chain_witness:
  "\<exists>b. get_model_by_id access_db ''b'' = Some b \<and> check_model_access access_db (sample_user ''alice'' ''user'')
     (Some sample_model) False = Inr ()"
proof -
  have look: "get_model_by_id access_db (m_id sample_model) = Some sample_model" "m_id sample_model \<noteq> []"
    "u_role (sample_user ''alice'' ''user'') \<noteq> ''admin''"
    by (simp_all add: get_model_by_id_def access_db_def sample_model_def sample_user_def)
  have ok: "check_model_access access_db (sample_user ''alice'' ''user'') (Some sample_model) False = Inr ()"
    by code_simp
  have "base_of access_db (m_id sample_model) = Some ''b''" by code_simp
  then have "''b'' \<in> base_walk.reach access_db (m_id sample_model)"
    by (simp add: base_walk.reach_def r_into_rtrancl)
  with check_model_access_chain [OF look] ok show ?thesis
    by (fastforce split: if_splits)
qed

theorem folder_access_inherited_witness:
  "has_folder_access access_db ''alice'' (sample_folder ''left'' (Some ''root'')) ''write''"
proof -
  have look: "get_folder_by_id access_db ''left'' = Some (sample_folder ''left'' (Some ''root''))"
    by (simp add: get_folder_by_id_def access_db_def sample_folder_def)
  have "''left'' \<in> folder_walk.reach access_db ''left''"
    by (simp add: folder_walk.reach_def)
  moreover have "f_user_id (sample_folder ''left'' (Some ''root'')) = ''alice''"
    by (simp add: sample_folder_def)
  ultimately show ?thesis
    unfolding folder_access_inherited [OF look] using look by blast
qed

theorem chat_move_stays_in_shared_tree_witness:
  "has_chat_move_access access_db ''alice'' (Some ''left'') (Some ''right'') \<and>
   folder_walk.reach access_db ''left'' \<inter> folder_walk.reach access_db ''right'' \<noteq> {}"
proof -
  have "has_chat_move_access access_db ''alice'' (Some ''left'') (Some ''right'')" by code_simp
  with chat_move_stays_in_shared_tree [OF this] show ?thesis by blast
qed

theorem list_check_agrees_with_table_witness:
  "has_access_in_list empty_db ''dave'' ''read'' (JList sample_payload) (Some []) =
     Inr (has_access (snd (set_access_grants sample_env ''model'' ''m'' sample_payload shared_db))
       ''dave'' ''model'' ''m'' ''read'' (Some []))"
proof -
  obtain rows d' where s: "set_access_grants sample_env ''model'' ''m'' sample_payload shared_db = (Inr rows, d')"
    using set_access_grants_view [OF shared_grants_ok] by metis
  have "\<forall>g \<in> set sample_payload. hashable (grant_field ''principal_id'' g)"
    by (simp add: sample_payload_def grant_field_def)
  from list_check_agrees_with_table [OF shared_grants_ok s _ _ _ this, of "''dave''" "[]" "''read''" empty_db]
  show ?thesis by (simp add: s)
qed

theorem migrate_access_control_exact_witness:
  "\<exists>data' grants. migrate_access_control ''access_control'' ''access_grants''
      [(''access_control'', JObj (legacy_dict \<lparr>pl_group_ids = [], pl_user_ids = [''bob'']\<rparr>
         \<lparr>pl_group_ids = [], pl_user_ids = []\<rparr>))] = Inr data' \<and>
    map_of data' ''access_grants'' = Some grants \<and>
    has_access_in_list empty_db ''bob'' ''read'' grants (Some []) = Inr True"
  using migrate_access_control_exact [of
      "[(''access_control'', JObj (legacy_dict \<lparr>pl_group_ids = [], pl_user_ids = [''bob'']\<rparr>
         \<lparr>pl_group_ids = [], pl_user_ids = []\<rparr>))]" "''access_control''"
      "\<lparr>pl_group_ids = [], pl_user_ids = [''bob'']\<rparr>" "\<lparr>pl_group_ids = [], pl_user_ids = []\<rparr>"
      "''access_grants''" "''read''" "\<lparr>pl_group_ids = [], pl_user_ids = [''bob'']\<rparr>" empty_db "''bob''" "[]"]
  by auto

end
