(* ===== verification/RateLimit.thy ===== *)
theory RateLimit
  imports PyStr
begin

text \<open>
  \<open>utils/rate_limit.py\<close>: the rolling-window limiter over buckets of time, in memory and over a
  Redis server. The server is a parameter: the record \<open>redis_ops\<close> holds the three commands the
  limiter issues, each given the time of the call; \<open>Inl\<close> is a raised exception.
\<close>

subsection \<open>The limiter\<close>

record rate_limiter =
  rl_limit :: int
  rl_window :: int
  rl_bucket_size :: int
  rl_num_buckets :: int
  rl_enabled :: bool

definition new_rate_limiter :: "int \<Rightarrow> int \<Rightarrow> int \<Rightarrow> bool \<Rightarrow> rate_limiter" where
  "new_rate_limiter limit window bucket_size enabled =
     \<lparr>rl_limit = limit, rl_window = window, rl_bucket_size = bucket_size,
      rl_num_buckets = window div bucket_size, rl_enabled = enabled\<rparr>"

type_synonym memory_store = "(int \<times> (string \<times> int) list) list"

definition bucket_key :: "string \<Rightarrow> string \<Rightarrow> int \<Rightarrow> string" where
  "bucket_key prefix key bucket_index =
     prefix @ '':ratelimit:'' @ lower key @ '':'' @ int_str bucket_index"

definition current_bucket :: "rate_limiter \<Rightarrow> int \<Rightarrow> int" where
  "current_bucket rl time = time div rl_bucket_size rl"

definition prune_memory_store :: "rate_limiter \<Rightarrow> int \<Rightarrow> memory_store \<Rightarrow> memory_store" where
  "prune_memory_store rl now_bucket store =
     filter (\<lambda>(bucket_index, _). \<not> bucket_index < now_bucket - rl_num_buckets rl) store"

definition hits :: "(string \<times> int) list \<Rightarrow> string \<Rightarrow> int" where
  "hits counts key = (case map_of counts key of None \<Rightarrow> 0 | Some n \<Rightarrow> n)"

definition total_hits :: "memory_store \<Rightarrow> string \<Rightarrow> int" where
  "total_hits store key = sum_list (map (\<lambda>(_, counts). hits counts key) store)"

definition hit_memory :: "rate_limiter \<Rightarrow> int \<Rightarrow> string \<Rightarrow> memory_store \<Rightarrow> int \<times> memory_store" where
  "hit_memory rl time key store =
     (let now_bucket = current_bucket rl time;
          store = prune_memory_store rl now_bucket store;
          counts = (case map_of store now_bucket of None \<Rightarrow> [] | Some c \<Rightarrow> c);
          store = AList.update now_bucket (AList.update key (hits counts key + 1) counts) store
      in (total_hits store key, store))"

definition is_limited_memory :: "rate_limiter \<Rightarrow> int \<Rightarrow> string \<Rightarrow> memory_store \<Rightarrow> bool \<times> memory_store" where
  "is_limited_memory rl time key store =
     (case hit_memory rl time key store of (used, store) \<Rightarrow> (used > rl_limit rl, store))"

definition get_count_memory :: "rate_limiter \<Rightarrow> int \<Rightarrow> string \<Rightarrow> memory_store \<Rightarrow> int \<times> memory_store" where
  "get_count_memory rl time key store =
     (let store = prune_memory_store rl (current_bucket rl time) store in (total_hits store key, store))"

record 'r redis_ops =
  r_incr :: "int \<Rightarrow> string \<Rightarrow> 'r \<Rightarrow> int result \<times> 'r"
  r_expire :: "int \<Rightarrow> string \<Rightarrow> int \<Rightarrow> 'r \<Rightarrow> unit result \<times> 'r"
  r_mget :: "int \<Rightarrow> string list \<Rightarrow> 'r \<Rightarrow> int option list result \<times> 'r"

definition window_keys :: "rate_limiter \<Rightarrow> string \<Rightarrow> string \<Rightarrow> int \<Rightarrow> string list" where
  "window_keys rl prefix key now_bucket =
     map (\<lambda>i. bucket_key prefix key (now_bucket - i)) [0..rl_num_buckets rl]"

text \<open>\<open>sum(int(c) for c in counts if c)\<close>.\<close>

definition sum_counts :: "int option list \<Rightarrow> int" where
  "sum_counts counts = sum_list (map (\<lambda>c. case c of None \<Rightarrow> 0 | Some n \<Rightarrow> n) counts)"

definition get_count_redis ::
  "'r redis_ops \<Rightarrow> rate_limiter \<Rightarrow> string \<Rightarrow> int \<Rightarrow> string \<Rightarrow> 'r \<Rightarrow> int result \<times> 'r" where
  "get_count_redis ops rl prefix time key r =
     (case r_mget ops time (window_keys rl prefix key (current_bucket rl time)) r of
        (Inl e, r) \<Rightarrow> (Inl e, r)
      | (Inr counts, r) \<Rightarrow> (Inr (sum_counts counts), r))"

definition hit_redis ::
  "'r redis_ops \<Rightarrow> rate_limiter \<Rightarrow> string \<Rightarrow> int \<Rightarrow> string \<Rightarrow> 'r \<Rightarrow> int result \<times> 'r" where
  "hit_redis ops rl prefix time key r =
     (let k = bucket_key prefix key (current_bucket rl time)
      in case r_incr ops time k r of
           (Inl e, r) \<Rightarrow> (Inl e, r)
         | (Inr attempts, r) \<Rightarrow>
             (case (if attempts = 1 then r_expire ops time k (rl_window rl + rl_bucket_size rl) r
                    else (Inr (), r)) of
                (Inl e, r) \<Rightarrow> (Inl e, r)
              | (Inr _, r) \<Rightarrow> get_count_redis ops rl prefix time key r))"

definition is_limited_redis ::
  "'r redis_ops \<Rightarrow> rate_limiter \<Rightarrow> string \<Rightarrow> int \<Rightarrow> string \<Rightarrow> 'r \<Rightarrow> bool result \<times> 'r" where
  "is_limited_redis ops rl prefix time key r =
     apfst (map_sum id (\<lambda>total. total > rl_limit rl)) (hit_redis ops rl prefix time key r)"

text \<open>The entry points: the server, when there is one, then the memory if it raised.\<close>

definition is_limited ::
  "'r redis_ops option \<Rightarrow> rate_limiter \<Rightarrow> string \<Rightarrow> int \<Rightarrow> string \<Rightarrow> 'r \<times> memory_store \<Rightarrow>
     bool \<times> 'r \<times> memory_store" where
  "is_limited redis rl prefix time key s =
     (case s of (r, store) \<Rightarrow>
        if \<not> rl_enabled rl then (False, r, store)
        else case redis of
          None \<Rightarrow> (case is_limited_memory rl time key store of (b, store) \<Rightarrow> (b, r, store))
        | Some ops \<Rightarrow>
            (case is_limited_redis ops rl prefix time key r of
               (Inr b, r) \<Rightarrow> (b, r, store)
             | (Inl _, r) \<Rightarrow>
                 (case is_limited_memory rl time key store of (b, store) \<Rightarrow> (b, r, store))))"

definition get_count ::
  "'r redis_ops option \<Rightarrow> rate_limiter \<Rightarrow> string \<Rightarrow> int \<Rightarrow> string \<Rightarrow> 'r \<times> memory_store \<Rightarrow>
     int \<times> 'r \<times> memory_store" where
  "get_count redis rl prefix time key s =
     (case s of (r, store) \<Rightarrow>
        if \<not> rl_enabled rl then (0, r, store)
        else case redis of
          None \<Rightarrow> (case get_count_memory rl time key store of (n, store) \<Rightarrow> (n, r, store))
        | Some ops \<Rightarrow>
            (case get_count_redis ops rl prefix time key r of
               (Inr n, r) \<Rightarrow> (n, r, store)
             | (Inl _, r) \<Rightarrow>
                 (case get_count_memory rl time key store of (n, store) \<Rightarrow> (n, r, store))))"

definition remaining ::
  "'r redis_ops option \<Rightarrow> rate_limiter \<Rightarrow> string \<Rightarrow> int \<Rightarrow> string \<Rightarrow> 'r \<times> memory_store \<Rightarrow>
     int \<times> 'r \<times> memory_store" where
  "remaining redis rl prefix time key s =
     (case get_count redis rl prefix time key s of (used, s) \<Rightarrow> (max 0 (rl_limit rl - used), s))"

end
