(* ===== verification/RateClaims.thy ===== *)
theory RateClaims
  imports RateLimit
begin

text \<open>
  The limiter counts exactly the hits of the rolling window, in memory and over a Redis server
  that behaves as documented. Both are instances of one contract, \<open>window_counter\<close>.
\<close>

subsection \<open>The contract of a window counter\<close>

definition window_count ::
  "(int \<Rightarrow> int) \<Rightarrow> int \<Rightarrow> (string \<Rightarrow> string) \<Rightarrow> (int \<times> string) list \<Rightarrow> int \<Rightarrow> string \<Rightarrow> int" where
  "window_count bucket span norm es t k =
     int (length (filter (\<lambda>(t', k'). norm k' = norm k \<and> bucket t - span \<le> bucket t') es))"

definition bucket_count ::
  "(int \<Rightarrow> int) \<Rightarrow> (string \<Rightarrow> string) \<Rightarrow> (int \<times> string) list \<Rightarrow> string \<Rightarrow> int \<Rightarrow> int" where
  "bucket_count bucket norm es k b =
     int (length (filter (\<lambda>(t', k'). norm k' = norm k \<and> bucket t' = b) es))"

lemma bucket_count_Nil [simp]: "bucket_count bucket norm [] k b = 0"
  by (simp add: bucket_count_def)

lemma bucket_count_snoc [simp]:
  "bucket_count bucket norm (es @ [(t, k)]) k' b =
     bucket_count bucket norm es k' b + of_bool (norm k = norm k' \<and> bucket t = b)"
  by (simp add: bucket_count_def)

lemma bucket_count_zero:
  "bucket_count bucket norm es k b = 0 \<longleftrightarrow> (\<forall>(t', k') \<in> set es. \<not> (norm k' = norm k \<and> bucket t' = b))"
  by (auto simp: bucket_count_def filter_empty_conv)

lemma bucket_count_nonneg: "0 \<le> bucket_count bucket norm es k b"
  by (simp add: bucket_count_def)

lemma sum_bucket_count:
  "distinct bs \<Longrightarrow> sum_list (map (bucket_count bucket norm es k) bs) =
     int (length (filter (\<lambda>(t', k'). norm k' = norm k \<and> bucket t' \<in> set bs) es))"
proof (induction es rule: rev_induct)
  case Nil
  then show ?case by (induction bs) auto
next
  case (snoc e es)
  obtain t k' where e: "e = (t, k')" by (cases e)
  have one: "distinct bs \<Longrightarrow> sum_list (map (\<lambda>b. of_bool (P \<and> x = b)) bs) = (of_bool (P \<and> x \<in> set bs) :: int)"
    for P x and bs :: "int list" by (induction bs) auto
  show ?case
    using snoc one [OF snoc.prems, of "norm k' = norm k" "bucket t"]
    by (auto simp: e sum_list_addf)
qed

locale window_counter =
  fixes bucket :: "int \<Rightarrow> int" and span :: int and norm :: "string \<Rightarrow> string"
    and inv :: "(int \<times> string) list \<Rightarrow> 's \<Rightarrow> bool"
    and hit :: "int \<Rightarrow> string \<Rightarrow> 's \<Rightarrow> int \<times> 's"
  assumes hit_inv: "inv es s \<Longrightarrow> \<forall>e \<in> set es. fst e \<le> t \<Longrightarrow> inv (es @ [(t, k)]) (snd (hit t k s))"
    and hit_count: "inv es s \<Longrightarrow> \<forall>e \<in> set es. fst e \<le> t \<Longrightarrow>
      fst (hit t k s) = window_count bucket span norm (es @ [(t, k)]) t k"
begin

lemma run_inv:
  "inv [] s \<Longrightarrow> sorted (map fst es) \<Longrightarrow> inv es (fold (\<lambda>(t, k) s. snd (hit t k s)) es s)"
proof (induction es rule: rev_induct)
  case (snoc e es)
  then show ?case by (cases e) (auto simp: sorted_append intro!: hit_inv)
qed simp

lemma run_count:
  assumes "inv [] s" and "sorted (map fst (es @ [(t, k)]))"
  shows "fst (hit t k (fold (\<lambda>(t, k) s. snd (hit t k s)) es s)) =
    window_count bucket span norm (es @ [(t, k)]) t k"
  using run_inv [OF assms(1), of es] assms(2) by (intro hit_count) (auto simp: sorted_append)

end

subsection \<open>The memory store\<close>

definition stored :: "memory_store \<Rightarrow> string \<Rightarrow> int \<Rightarrow> int" where
  "stored store key b = (case map_of store b of None \<Rightarrow> 0 | Some counts \<Rightarrow> hits counts key)"

text \<open>
  A kept bucket holds the number of its hits; a bucket that is not kept has none, or was pruned
  by a hit so late that the bucket is outside every later window.
\<close>

definition memory_inv :: "rate_limiter \<Rightarrow> (int \<times> string) list \<Rightarrow> memory_store \<Rightarrow> bool" where
  "memory_inv rl es store \<longleftrightarrow> distinct (map fst store) \<and>
     (\<forall>b \<in> fst ` set store. \<forall>k. stored store k b = bucket_count (current_bucket rl) id es k b) \<and>
     (\<forall>(t, k) \<in> set es. current_bucket rl t \<notin> fst ` set store \<longrightarrow>
        (\<exists>e \<in> set es. current_bucket rl t < current_bucket rl (fst e) - rl_num_buckets rl))"

lemma hits_update [simp]: "hits (AList.update k n c) k' = (if k' = k then n else hits c k')"
  by (simp add: hits_def)

lemma total_hits_stored:
  "distinct (map fst store) \<Longrightarrow> total_hits store key = sum_list (map (stored store key) (map fst store))"
  unfolding total_hits_def map_map
  by (intro arg_cong [where f = sum_list] map_cong refl) (auto simp: stored_def map_of_is_SomeI)

lemma current_bucket_mono: "0 < rl_bucket_size rl \<Longrightarrow> t \<le> t' \<Longrightarrow> current_bucket rl t \<le> current_bucket rl t'"
  by (simp add: current_bucket_def zdiv_mono1)

lemma total_in_window:
  assumes "distinct (map fst store)"
    and "\<And>b. b \<in> fst ` set store \<Longrightarrow> stored store k b = bucket_count (current_bucket rl) id es k b"
    and "\<And>t' k'. (t', k') \<in> set es \<Longrightarrow> current_bucket rl t' \<in> fst ` set store \<longleftrightarrow>
      current_bucket rl t - rl_num_buckets rl \<le> current_bucket rl t'"
  shows "total_hits store k = window_count (current_bucket rl) (rl_num_buckets rl) id es t k"
proof -
  have "total_hits store k = sum_list (map (bucket_count (current_bucket rl) id es k) (map fst store))"
    unfolding total_hits_stored [OF assms(1)]
    by (intro arg_cong [where f = sum_list] map_cong refl assms(2)) simp
  also have "\<dots> = window_count (current_bucket rl) (rl_num_buckets rl) id es t k"
    unfolding sum_bucket_count [OF assms(1)] window_count_def set_map
    using assms(3) by (intro arg_cong [where f = "\<lambda>xs. int (length xs)"] filter_cong) auto
  finally show ?thesis .
qed

lemma hit_memory_spec:
  assumes rl: "0 < rl_bucket_size rl" "0 \<le> rl_num_buckets rl"
    and inv: "memory_inv rl es store" and mono: "\<forall>e \<in> set es. fst e \<le> t"
  shows "memory_inv rl (es @ [(t, k)]) (snd (hit_memory rl t k store)) \<and>
    fst (hit_memory rl t k store) =
      window_count (current_bucket rl) (rl_num_buckets rl) id (es @ [(t, k)]) t k"
proof -
  define now where "now = current_bucket rl t"
  define s1 where "s1 = prune_memory_store rl now store"
  define counts where "counts = (case map_of s1 now of None \<Rightarrow> [] | Some c \<Rightarrow> c)"
  define s2 where "s2 = AList.update now (AList.update k (hits counts k + 1) counts) s1"
  have hit: "hit_memory rl t k store = (total_hits s2 k, s2)"
    by (simp add: hit_memory_def Let_def s2_def counts_def s1_def now_def)
  let ?keys1 = "{b \<in> fst ` set store. now - rl_num_buckets rl \<le> b}"
  let ?n = "bucket_count (current_bucket rl) id"
  have kept: "stored store k' b = ?n es k' b" if "b \<in> fst ` set store" for b k'
    using inv that unfolding memory_inv_def by blast
  have s1: "distinct (map fst s1)" "fst ` set s1 = ?keys1"
    "\<And>b. b \<in> ?keys1 \<Longrightarrow> stored s1 k' b = stored store k' b" for k'
  proof -
    show "distinct (map fst s1)"
      using inv by (simp add: s1_def prune_memory_store_def memory_inv_def distinct_map_filter)
    show "fst ` set s1 = ?keys1"
      by (auto simp: s1_def prune_memory_store_def)
    show "stored s1 k' b = stored store k' b" if "b \<in> ?keys1" for b
    proof -
      have "map_of s1 b = map_of store b"
        using that unfolding s1_def prune_memory_store_def by (induction store) auto
      then show ?thesis by (simp add: stored_def)
    qed
  qed
  have late: "current_bucket rl (fst e) \<le> now" if "e \<in> set (es @ [(t, k)])" for e
    using that mono current_bucket_mono [OF rl(1)] by (auto simp: now_def)
  have at_now: "hits counts k' = ?n es k' now" for k'
  proof (cases "now \<in> fst ` set store")
    case True
    then have "stored s1 k' now = ?n es k' now"
      using rl(2) s1(3) kept by simp
    then show ?thesis by (simp add: stored_def counts_def hits_def split: option.splits)
  next
    case False
    then have "map_of s1 now = None" using s1(2) by (auto simp: map_of_eq_None_iff)
    moreover have "?n es k' now = 0"
      unfolding bucket_count_zero
    proof clarify
      fix t' k'' assume "(t', k'') \<in> set es" "id k'' = id k'" "now = current_bucket rl t'"
      with inv False obtain e where "e \<in> set es" "now < current_bucket rl (fst e) - rl_num_buckets rl"
        unfolding memory_inv_def by fast
      with late [of e] rl(2) show False by simp
    qed
    ultimately show ?thesis by (simp add: counts_def hits_def)
  qed
  have keys2: "fst ` set s2 = insert now ?keys1" and dist2: "distinct (map fst s2)"
    using s1 by (simp_all add: s2_def fst_update distinct_update)
  have counts2: "stored s2 k' b = ?n (es @ [(t, k)]) k' b" if b: "b \<in> fst ` set s2" for k' b
  proof (cases "b = now")
    case True
    then have "stored s2 k' b = hits counts k' + of_bool (k = k')"
      by (simp add: stored_def s2_def)
    with True at_now show ?thesis by (simp add: now_def)
  next
    case False
    then have "b \<in> ?keys1" using b keys2 by auto
    then have "stored s1 k' b = ?n es k' b" using s1(3) kept by simp
    with False show ?thesis by (simp add: stored_def s2_def now_def)
  qed
  have gone: "\<exists>e \<in> set (es @ [(t, k)]). current_bucket rl t' < current_bucket rl (fst e) - rl_num_buckets rl"
    if e: "(t', k') \<in> set (es @ [(t, k)])" "current_bucket rl t' \<notin> fst ` set s2" for t' k'
  proof (cases "current_bucket rl t' \<in> fst ` set store")
    case True
    then show ?thesis using e(2) keys2 by (auto simp: now_def)
  next
    case False
    then show ?thesis using e keys2 inv unfolding memory_inv_def by (fastforce simp: now_def)
  qed
  have in_window: "current_bucket rl t' \<in> fst ` set s2 \<longleftrightarrow> now - rl_num_buckets rl \<le> current_bucket rl t'"
    if e: "(t', k') \<in> set (es @ [(t, k)])" for t' k'
  proof
    show "now - rl_num_buckets rl \<le> current_bucket rl t'" if "current_bucket rl t' \<in> fst ` set s2"
      using that keys2 rl(2) by auto
    show "current_bucket rl t' \<in> fst ` set s2" if w: "now - rl_num_buckets rl \<le> current_bucket rl t'"
    proof (rule ccontr)
      assume "current_bucket rl t' \<notin> fst ` set s2"
      from gone [OF e this] obtain x where "x \<in> set (es @ [(t, k)])"
        "current_bucket rl t' < current_bucket rl (fst x) - rl_num_buckets rl" by blast
      with late [of x] w show False by simp
    qed
  qed
  have "total_hits s2 k = window_count (current_bucket rl) (rl_num_buckets rl) id (es @ [(t, k)]) t k"
    using counts2 in_window by (intro total_in_window [OF dist2]) (simp_all add: now_def)
  moreover have "memory_inv rl (es @ [(t, k)]) s2"
    unfolding memory_inv_def using dist2 counts2 gone by blast
  ultimately show ?thesis by (simp add: hit)
qed

lemma get_count_memory_spec:
  assumes "memory_inv rl es store" and "\<forall>e \<in> set es. fst e \<le> t" and "0 < rl_bucket_size rl"
  shows "fst (get_count_memory rl t k store) =
    window_count (current_bucket rl) (rl_num_buckets rl) id es t k"
proof -
  define s1 where "s1 = prune_memory_store rl (current_bucket rl t) store"
  have keys: "fst ` set s1 = {b \<in> fst ` set store. current_bucket rl t - rl_num_buckets rl \<le> b}"
    by (auto simp: s1_def prune_memory_store_def)
  have "map_of s1 b = map_of store b" if "b \<in> fst ` set s1" for b
    using that unfolding keys unfolding s1_def prune_memory_store_def by (induction store) auto
  then have "stored s1 k b = bucket_count (current_bucket rl) id es k b" if "b \<in> fst ` set s1" for b
    using that assms(1) keys unfolding memory_inv_def stored_def by (metis (lifting) mem_Collect_eq)
  moreover have "current_bucket rl t' \<in> fst ` set s1 \<longleftrightarrow>
      current_bucket rl t - rl_num_buckets rl \<le> current_bucket rl t'" if e: "(t', k') \<in> set es" for t' k'
  proof -
    have "current_bucket rl t' \<in> fst ` set store"
      if w: "current_bucket rl t - rl_num_buckets rl \<le> current_bucket rl t'"
    proof (rule ccontr)
      assume "current_bucket rl t' \<notin> fst ` set store"
      with assms(1) e obtain x where "x \<in> set es"
        "current_bucket rl t' < current_bucket rl (fst x) - rl_num_buckets rl"
        unfolding memory_inv_def by fast
      with w assms(2) current_bucket_mono [OF assms(3), of "fst x" t] show False by fastforce
    qed
    then show ?thesis by (auto simp: keys)
  qed
  moreover have "distinct (map fst s1)"
    using assms(1) by (simp add: s1_def prune_memory_store_def memory_inv_def distinct_map_filter)
  ultimately have "total_hits s1 k = window_count (current_bucket rl) (rl_num_buckets rl) id es t k"
    by (intro total_in_window)
  then show ?thesis by (simp add: get_count_memory_def s1_def [symmetric] Let_def)
qed

definition memory_counter_inv :: "rate_limiter \<Rightarrow> (int \<times> string) list \<Rightarrow> memory_store \<Rightarrow> bool" where
  "memory_counter_inv rl es store \<longleftrightarrow>
     0 < rl_bucket_size rl \<and> 0 \<le> rl_num_buckets rl \<and> memory_inv rl es store"

interpretation memory_window: window_counter "current_bucket rl" "rl_num_buckets rl" id
  "memory_counter_inv rl" "hit_memory rl"
  by unfold_locales (simp_all add: memory_counter_inv_def hit_memory_spec)

subsection \<open>The Redis server\<close>

text \<open>
  The documented behaviour of the three commands: \<open>view r\<close> gives the value and the expiry time
  of a key; an expired key is absent. \<open>INCR\<close> starts from 0 on an absent key and keeps the expiry
  of a present one, \<open>EXPIRE\<close> sets it, \<open>MGET\<close> reads.
\<close>

definition live :: "int \<Rightarrow> (int \<times> int option) option \<Rightarrow> (int \<times> int option) option" where
  "live t v = (case v of Some (n, Some x) \<Rightarrow> if t < x then v else None | _ \<Rightarrow> v)"

definition redis_documented ::
  "'r redis_ops \<Rightarrow> ('r \<Rightarrow> string \<Rightarrow> (int \<times> int option) option) \<Rightarrow> bool" where
  "redis_documented ops view \<longleftrightarrow>
     (\<forall>t k r. live t (view r k) = None \<longrightarrow>
        (\<exists>r'. r_incr ops t k r = (Inr 1, r') \<and> view r' = (view r)(k \<mapsto> (1, None)))) \<and>
     (\<forall>t k r n x. live t (view r k) = Some (n, x) \<longrightarrow>
        (\<exists>r'. r_incr ops t k r = (Inr (n + 1), r') \<and> view r' = (view r)(k \<mapsto> (n + 1, x)))) \<and>
     (\<forall>t k ttl r n x. live t (view r k) = Some (n, x) \<longrightarrow>
        (\<exists>r'. r_expire ops t k ttl r = (Inr (), r') \<and> view r' = (view r)(k \<mapsto> (n, Some (t + ttl))))) \<and>
     (\<forall>t ks r. \<exists>r'. r_mget ops t ks r = (Inr (map (\<lambda>k. map_option fst (live t (view r k))) ks), r') \<and>
        view r' = view r)"

lemma append_first_eq:
  "x \<notin> set a \<Longrightarrow> x \<notin> set b \<Longrightarrow> a @ x # u = b @ x # v \<longleftrightarrow> a = b \<and> u = v"
proof (induction a arbitrary: b)
  case Nil
  then show ?case by (cases b) auto
next
  case (Cons y a)
  then show ?case by (cases b) auto
qed

lemma bucket_key_inj:
  "bucket_key prefix k b = bucket_key prefix k' b' \<longleftrightarrow> lower k = lower k' \<and> b = b'"
proof
  assume eq: "bucket_key prefix k b = bucket_key prefix k' b'"
  then have "rev (int_str b) @ CHR '':'' # rev (lower k) = rev (int_str b') @ CHR '':'' # rev (lower k')"
    by (simp add: bucket_key_def) (metis append.assoc append_Cons append_Nil rev.simps(2) rev_append)
  then have "rev (int_str b) = rev (int_str b') \<and> rev (lower k) = rev (lower k')"
    using int_str_colon [of b] int_str_colon [of b'] by (subst (asm) append_first_eq) simp_all
  then show "lower k = lower k' \<and> b = b'" using int_str_inj by simp
qed (simp add: bucket_key_def)

text \<open>
  A bucket with hits is stored with their number, and expires only after the last window that
  contains it.
\<close>

definition redis_inv ::
  "('r \<Rightarrow> string \<Rightarrow> (int \<times> int option) option) \<Rightarrow> rate_limiter \<Rightarrow> string \<Rightarrow> (int \<times> string) list \<Rightarrow> 'r \<Rightarrow> bool" where
  "redis_inv view rl prefix es r \<longleftrightarrow>
     (\<forall>k b. let n = bucket_count (current_bucket rl) lower es k b
        in if n = 0 then view r (bucket_key prefix k b) = None
           else \<exists>x. view r (bucket_key prefix k b) = Some (n, Some x) \<and>
                    (b + rl_num_buckets rl + 1) * rl_bucket_size rl \<le> x)"

definition limiter_ok :: "rate_limiter \<Rightarrow> bool" where
  "limiter_ok rl \<longleftrightarrow> 0 < rl_bucket_size rl \<and> 0 \<le> rl_num_buckets rl \<and>
     rl_num_buckets rl * rl_bucket_size rl \<le> rl_window rl"

lemma new_rate_limiter_ok:
  "0 < bucket_size \<Longrightarrow> 0 \<le> window \<Longrightarrow> limiter_ok (new_rate_limiter limit window bucket_size enabled)"
  by (simp add: limiter_ok_def new_rate_limiter_def pos_imp_zdiv_nonneg_iff)
     (metis minus_mod_eq_div_mult diff_ge_0_iff_ge pos_mod_sign add.commute minus_diff_eq diff_le_eq le_add_same_cancel1)

text \<open>A bucket of the window of \<open>t\<close> is live at \<open>t\<close>.\<close>

lemma live_in_window:
  assumes "limiter_ok rl" and "current_bucket rl t - rl_num_buckets rl \<le> b"
    and "(b + rl_num_buckets rl + 1) * rl_bucket_size rl \<le> x"
  shows "t < x"
proof -
  have bs: "0 < rl_bucket_size rl" using assms(1) by (simp add: limiter_ok_def)
  have "t < (current_bucket rl t + 1) * rl_bucket_size rl"
    using pos_mod_bound [OF bs, of t] div_mult_mod_eq [of t "rl_bucket_size rl"]
    unfolding current_bucket_def distrib_right by linarith
  also have "\<dots> \<le> (b + rl_num_buckets rl + 1) * rl_bucket_size rl"
    using assms(2) bs by (intro mult_right_mono) auto
  finally show ?thesis using assms(3) by simp
qed

lemma redis_inv_view:
  assumes "redis_inv view rl prefix es r"
  obtains "bucket_count (current_bucket rl) lower es k b = 0" "view r (bucket_key prefix k b) = None"
  | x where "0 < bucket_count (current_bucket rl) lower es k b"
      "view r (bucket_key prefix k b) = Some (bucket_count (current_bucket rl) lower es k b, Some x)"
      "(b + rl_num_buckets rl + 1) * rl_bucket_size rl \<le> x"
proof (cases "bucket_count (current_bucket rl) lower es k b = 0")
  case True
  with assms that(1) show ?thesis unfolding redis_inv_def Let_def by meson
next
  case False
  moreover have "0 < bucket_count (current_bucket rl) lower es k b"
    using False bucket_count_nonneg [of "current_bucket rl" lower es k b] by linarith
  ultimately show ?thesis using assms that(2) unfolding redis_inv_def Let_def by meson
qed

lemma redis_documentedD:
  assumes "redis_documented ops view"
  shows "live t (view r k) = None \<Longrightarrow> \<exists>r'. r_incr ops t k r = (Inr 1, r') \<and> view r' = (view r)(k \<mapsto> (1, None))"
    and "live t (view r k) = Some (n, x) \<Longrightarrow>
      \<exists>r'. r_incr ops t k r = (Inr (n + 1), r') \<and> view r' = (view r)(k \<mapsto> (n + 1, x))"
    and "live t (view r k) = Some (n, x) \<Longrightarrow>
      \<exists>r'. r_expire ops t k ttl r = (Inr (), r') \<and> view r' = (view r)(k \<mapsto> (n, Some (t + ttl)))"
    and "\<exists>r'. r_mget ops t ks r = (Inr (map (\<lambda>k. map_option fst (live t (view r k))) ks), r') \<and> view r' = view r"
  using assms unfolding redis_documented_def by blast+

lemma redis_bump:
  assumes doc: "redis_documented ops view" and rl: "limiter_ok rl" and inv: "redis_inv view rl prefix es r"
  obtains r1 r2 x n where "r_incr ops t (bucket_key prefix k (current_bucket rl t)) r = (Inr n, r1)"
    and "(if n = 1 then r_expire ops t (bucket_key prefix k (current_bucket rl t))
            (rl_window rl + rl_bucket_size rl) r1 else (Inr (), r1)) = (Inr (), r2)"
    and "view r2 = (view r)(bucket_key prefix k (current_bucket rl t) \<mapsto>
      (bucket_count (current_bucket rl) lower es k (current_bucket rl t) + 1, Some x))"
    and "(current_bucket rl t + rl_num_buckets rl + 1) * rl_bucket_size rl \<le> x"
proof -
  let ?b = "current_bucket rl t" and ?n = "bucket_count (current_bucket rl) lower es k (current_bucket rl t)"
  let ?K = "bucket_key prefix k (current_bucket rl t)"
  from inv show ?thesis
  proof (rule redis_inv_view [of _ _ _ _ _ k ?b])
    assume n: "?n = 0" "view r ?K = None"
    obtain r1 where r1: "r_incr ops t ?K r = (Inr 1, r1)" "view r1 = (view r)(?K \<mapsto> (1, None))"
      using redis_documentedD(1) [OF doc, of t r ?K] n by (auto simp: live_def)
    obtain r2 where r2: "r_expire ops t ?K (rl_window rl + rl_bucket_size rl) r1 = (Inr (), r2)"
      "view r2 = (view r1)(?K \<mapsto> (1, Some (t + (rl_window rl + rl_bucket_size rl))))"
      using redis_documentedD(3) [OF doc, of t r1 ?K 1 None] r1 by (auto simp: live_def)
    have "?b * rl_bucket_size rl \<le> t"
      using rl div_mult_mod_eq [of t "rl_bucket_size rl"] pos_mod_sign [of "rl_bucket_size rl" t]
      unfolding current_bucket_def limiter_ok_def by linarith
    then have "(?b + rl_num_buckets rl + 1) * rl_bucket_size rl \<le> t + (rl_window rl + rl_bucket_size rl)"
      using rl unfolding limiter_ok_def distrib_right by linarith
    with r1 r2 n show ?thesis by (intro that [of 1 r1 r2]) simp_all
  next
    fix x assume n: "0 < ?n" "view r ?K = Some (?n, Some x)" "(?b + rl_num_buckets rl + 1) * rl_bucket_size rl \<le> x"
    have "t < x" using rl by (intro live_in_window [OF rl _ n(3)]) (simp add: limiter_ok_def)
    then obtain r1 where "r_incr ops t ?K r = (Inr (?n + 1), r1)" "view r1 = (view r)(?K \<mapsto> (?n + 1, Some x))"
      using redis_documentedD(2) [OF doc, of t r ?K ?n "Some x"] n by (auto simp: live_def)
    with n show ?thesis by (intro that [of "?n + 1" r1 r1 x]) simp_all
  qed
qed

lemma hit_redis_spec:
  assumes doc: "redis_documented ops view" and rl: "limiter_ok rl" and inv: "redis_inv view rl prefix es r"
    and mono: "\<forall>e \<in> set es. fst e \<le> t"
  obtains r' where "hit_redis ops rl prefix t k r =
      (Inr (window_count (current_bucket rl) (rl_num_buckets rl) lower (es @ [(t, k)]) t k), r')"
    and "redis_inv view rl prefix (es @ [(t, k)]) r'"
proof -
  let ?b = "current_bucket rl t" and ?K = "bucket_key prefix k (current_bucket rl t)"
  let ?n = "bucket_count (current_bucket rl) lower (es @ [(t, k)])"
  obtain r1 r2 x n where r1: "r_incr ops t ?K r = (Inr n, r1)"
    and r2: "(if n = 1 then r_expire ops t ?K (rl_window rl + rl_bucket_size rl) r1 else (Inr (), r1)) = (Inr (), r2)"
    and v2: "view r2 = (view r)(?K \<mapsto> (bucket_count (current_bucket rl) lower es k ?b + 1, Some x))"
    and x: "(?b + rl_num_buckets rl + 1) * rl_bucket_size rl \<le> x"
    by (rule redis_bump [OF doc rl inv])
  have inv2: "redis_inv view rl prefix (es @ [(t, k)]) r2"
    unfolding redis_inv_def Let_def
  proof (intro allI)
    fix k' b'
    show "if ?n k' b' = 0 then view r2 (bucket_key prefix k' b') = None
      else \<exists>x. view r2 (bucket_key prefix k' b') = Some (?n k' b', Some x) \<and>
        (b' + rl_num_buckets rl + 1) * rl_bucket_size rl \<le> x"
    proof (cases "lower k' = lower k \<and> b' = ?b")
      case True
      then have "bucket_key prefix k' b' = ?K" by (simp add: bucket_key_inj)
      moreover have "?n k' b' = bucket_count (current_bucket rl) lower es k ?b + 1"
        using True by (simp add: bucket_count_def)
      ultimately show ?thesis
        using x True bucket_count_nonneg [of "current_bucket rl" lower es k ?b] by (simp add: v2)
    next
      case False
      then have "view r2 (bucket_key prefix k' b') = view r (bucket_key prefix k' b')"
        by (auto simp: v2 bucket_key_inj)
      moreover have "?n k' b' = bucket_count (current_bucket rl) lower es k' b'"
        using False by auto
      ultimately show ?thesis using inv unfolding redis_inv_def Let_def by metis
    qed
  qed
  obtain r3 where r3: "r_mget ops t (window_keys rl prefix k ?b) r2 =
      (Inr (map (\<lambda>k. map_option fst (live t (view r2 k))) (window_keys rl prefix k ?b)), r3)"
    "view r3 = view r2"
    using redis_documentedD(4) [OF doc, of t "window_keys rl prefix k ?b" r2] by blast
  have counts: "(case map_option fst (live t (view r2 (bucket_key prefix k (?b - i)))) of None \<Rightarrow> 0 | Some n \<Rightarrow> n) =
      ?n k (?b - i)" if i: "i \<le> rl_num_buckets rl" for i
    using inv2
  proof (rule redis_inv_view [of _ _ _ _ _ k "?b - i"])
    fix x assume w: "0 < ?n k (?b - i)" "view r2 (bucket_key prefix k (?b - i)) = Some (?n k (?b - i), Some x)"
      "(?b - i + rl_num_buckets rl + 1) * rl_bucket_size rl \<le> x"
    have "t < x" using i by (intro live_in_window [OF rl _ w(3)]) simp
    with w show ?thesis by (simp add: live_def)
  qed (simp add: live_def)
  have dist: "distinct (map ((-) ?b) [0..rl_num_buckets rl])"
    by (simp add: distinct_map inj_on_def)
  have sum: "sum_counts (map (\<lambda>k. map_option fst (live t (view r2 k))) (window_keys rl prefix k ?b)) =
      sum_list (map (?n k) (map ((-) ?b) [0..rl_num_buckets rl]))"
    unfolding sum_counts_def window_keys_def map_map
    by (intro arg_cong [where f = sum_list] map_cong refl) (simp only: o_def set_upto atLeastAtMost_iff counts)
  have in_window: "current_bucket rl t' \<in> set (map ((-) ?b) [0..rl_num_buckets rl]) \<longleftrightarrow>
      ?b - rl_num_buckets rl \<le> current_bucket rl t'" if "(t', k') \<in> set (es @ [(t, k)])" for t' k'
  proof -
    have "current_bucket rl t' \<le> ?b"
      using that mono rl current_bucket_mono [of rl t' t] by (auto simp: limiter_ok_def)
    then have "current_bucket rl t' = ?b - (?b - current_bucket rl t')" "0 \<le> ?b - current_bucket rl t'" by simp_all
    then show ?thesis by (auto intro!: image_eqI [of _ _ "?b - current_bucket rl t'"])
  qed
  have "hit_redis ops rl prefix t k r =
      (Inr (window_count (current_bucket rl) (rl_num_buckets rl) lower (es @ [(t, k)]) t k), r3)"
  proof -
    have "hit_redis ops rl prefix t k r = get_count_redis ops rl prefix t k r2"
      using r2 by (auto simp: hit_redis_def Let_def r1 split: if_splits)
    also have "\<dots> = (Inr (int (length (filter (\<lambda>(t', k'). lower k' = lower k \<and>
        current_bucket rl t' \<in> set (map ((-) ?b) [0..rl_num_buckets rl])) (es @ [(t, k)])))), r3)"
      unfolding sum_bucket_count [OF dist, symmetric] by (simp add: get_count_redis_def r3(1) sum)
    also have "filter (\<lambda>(t', k'). lower k' = lower k \<and>
        current_bucket rl t' \<in> set (map ((-) ?b) [0..rl_num_buckets rl])) (es @ [(t, k)]) =
      filter (\<lambda>(t', k'). lower k' = lower k \<and> ?b - rl_num_buckets rl \<le> current_bucket rl t') (es @ [(t, k)])"
      using in_window by (intro filter_cong) auto
    finally show ?thesis by (simp add: window_count_def)
  qed
  moreover have "redis_inv view rl prefix (es @ [(t, k)]) r3"
    using inv2 unfolding redis_inv_def r3(2) .
  ultimately show ?thesis by (rule that)
qed

text \<open>The hit as a total function, for the contract; an exception of the server counts as 0 there.\<close>

definition redis_hit ::
  "'r redis_ops \<Rightarrow> rate_limiter \<Rightarrow> string \<Rightarrow> int \<Rightarrow> string \<Rightarrow> 'r \<Rightarrow> int \<times> 'r" where
  "redis_hit ops rl prefix t k r =
     (case hit_redis ops rl prefix t k r of (Inl _, r) \<Rightarrow> (0, r) | (Inr n, r) \<Rightarrow> (n, r))"

lemma redis_window:
  assumes "redis_documented ops view" and "limiter_ok rl"
  shows "window_counter (current_bucket rl) (rl_num_buckets rl) lower (redis_inv view rl prefix)
    (redis_hit ops rl prefix)"
proof
  fix es r t k assume "redis_inv view rl prefix es r" "\<forall>e \<in> set es. fst e \<le> t"
  then obtain r' where r': "hit_redis ops rl prefix t k r =
      (Inr (window_count (current_bucket rl) (rl_num_buckets rl) lower (es @ [(t, k)]) t k), r')"
    "redis_inv view rl prefix (es @ [(t, k)]) r'"
    by (rule hit_redis_spec [OF assms])
  then show "redis_inv view rl prefix (es @ [(t, k)]) (snd (redis_hit ops rl prefix t k r))"
    by (simp add: redis_hit_def)
  from r' show "fst (redis_hit ops rl prefix t k r) =
      window_count (current_bucket rl) (rl_num_buckets rl) lower (es @ [(t, k)]) t k"
    by (simp add: redis_hit_def)
qed

subsection \<open>The limiter over a history of calls\<close>

definition in_window :: "rate_limiter \<Rightarrow> (string \<Rightarrow> string) \<Rightarrow> (int \<times> string) list \<Rightarrow> int \<Rightarrow> string \<Rightarrow> int" where
  "in_window rl = window_count (current_bucket rl) (rl_num_buckets rl)"

definition calls ::
  "'r redis_ops option \<Rightarrow> rate_limiter \<Rightarrow> string \<Rightarrow> (int \<times> string) list \<Rightarrow> 'r \<times> memory_store \<Rightarrow> 'r \<times> memory_store" where
  "calls redis rl prefix = fold (\<lambda>(t, k) s. snd (is_limited redis rl prefix t k s))"

lemma calls_memory:
  assumes "rl_enabled rl"
  shows "calls None rl prefix es (r, store) = (r, fold (\<lambda>(t, k) s. snd (hit_memory rl t k s)) es store)"
  using assms unfolding calls_def
  by (induction es arbitrary: store) (auto simp: is_limited_def is_limited_memory_def split: prod.splits)

text \<open>
  C18: Without a server, after any history of checks at times that do not decrease, a check is
  refused exactly when the hits of its key in the buckets of the window, its own included, exceed
  the limit, and the remaining budget is the limit less the hits in the window (never negative).
\<close>

theorem memory_limit_exact:
  assumes "0 < bucket_size" and "0 \<le> window" and "sorted (map fst (es @ [(t, k)]))"
    and rl: "rl = new_rate_limiter limit window bucket_size True"
  shows "fst (is_limited None rl prefix t k (calls None rl prefix es (r, []))) =
      (in_window rl id (es @ [(t, k)]) t k > limit) \<and>
    fst (remaining None rl prefix t k (calls None rl prefix es (r, []))) =
      max 0 (limit - in_window rl id es t k)"
proof -
  have ok: "0 < rl_bucket_size rl" "0 \<le> rl_num_buckets rl" "rl_enabled rl" "rl_limit rl = limit"
    using assms(1,2) by (simp_all add: rl new_rate_limiter_def pos_imp_zdiv_nonneg_iff)
  have start: "memory_counter_inv rl [] []"
    using ok by (simp add: memory_counter_inv_def memory_inv_def)
  have mono: "sorted (map fst es)" "\<forall>e \<in> set es. fst e \<le> t"
    using assms(3) by (auto simp: sorted_append)
  define s where "s = fold (\<lambda>(t, k) s. snd (hit_memory rl t k s)) es ([] :: memory_store)"
  have "memory_inv rl es s"
    using memory_window.run_inv [OF start mono(1)] by (simp add: s_def memory_counter_inv_def)
  from get_count_memory_spec [OF this mono(2) ok(1), of k]
  have "fst (get_count_memory rl t k s) = in_window rl id es t k" by (simp add: in_window_def)
  moreover have "fst (hit_memory rl t k s) = in_window rl id (es @ [(t, k)]) t k"
    unfolding s_def in_window_def by (rule memory_window.run_count [OF start assms(3)])
  ultimately show ?thesis
    unfolding calls_memory [OF ok(3)] s_def [symmetric]
    by (cases "get_count_memory rl t k s"; cases "hit_memory rl t k s")
       (simp add: is_limited_def is_limited_memory_def remaining_def get_count_def ok)
qed

text \<open>
  C24: Over a server that behaves as documented and holds no counter yet, the same holds for keys
  up to the case of letters: no counter of the window expires too early, and the memory store is
  not used.
\<close>

theorem redis_limit_exact:
  assumes doc: "redis_documented ops view" and "\<And>k b. view r (bucket_key prefix k b) = None"
    and "0 < bucket_size" and "0 \<le> window" and "sorted (map fst (es @ [(t, k)]))"
    and rl: "rl = new_rate_limiter limit window bucket_size True"
  shows "fst (is_limited (Some ops) rl prefix t k (calls (Some ops) rl prefix es (r, store))) =
      (in_window rl lower (es @ [(t, k)]) t k > limit) \<and>
    snd (calls (Some ops) rl prefix es (r, store)) = store"
proof -
  have ok: "limiter_ok rl" "rl_enabled rl" "rl_limit rl = limit"
    using new_rate_limiter_ok [OF assms(3,4)] by (simp_all add: rl) (simp_all add: new_rate_limiter_def)
  have start: "redis_inv view rl prefix [] r"
    using assms(2) by (simp add: redis_inv_def)
  note inv = window_counter.run_inv [OF redis_window [OF doc ok(1)]]
  define hits where "hits es = fold (\<lambda>(t, k) r. snd (redis_hit ops rl prefix t k r)) es r" for es
  have step: "is_limited (Some ops) rl prefix t k (r1, store) =
      (in_window rl lower (es @ [(t, k)]) t k > limit, snd (redis_hit ops rl prefix t k r1), store)"
    if "redis_inv view rl prefix es r1" "\<forall>e \<in> set es. fst e \<le> t" for t k r1 es
    using hit_redis_spec [OF doc ok(1) that, of k] ok
    by (force simp: is_limited_def is_limited_redis_def redis_hit_def in_window_def)
  have run: "calls (Some ops) rl prefix es (r, store) = (hits es, store)" if "sorted (map fst es)" for es
    using that
  proof (induction es rule: rev_induct)
    case Nil
    then show ?case by (simp add: calls_def hits_def)
  next
    case (snoc e es)
    obtain t k where e: "e = (t, k)" by (cases e)
    from snoc.prems have s: "sorted (map fst es)" "\<forall>e \<in> set es. fst e \<le> t"
      by (auto simp: sorted_append e)
    then have "redis_inv view rl prefix es (hits es)" using inv [OF start] by (simp add: hits_def)
    from step [OF this s(2)] snoc.IH [OF s(1)] show ?case
      by (simp add: calls_def hits_def e)
  qed
  have s: "sorted (map fst es)" "\<forall>e \<in> set es. fst e \<le> t" using assms(5) by (auto simp: sorted_append)
  have "redis_inv view rl prefix es (hits es)" using inv [OF start s(1)] by (simp add: hits_def)
  from step [OF this s(2)] run [OF s(1)] show ?thesis by simp
qed

subsection \<open>Witnesses\<close>

theorem memory_limit_exact_witness:
  "fst (is_limited None (new_rate_limiter 2 120 60 True) [] 200 ''a''
     (calls None (new_rate_limiter 2 120 60 True) [] [(10, ''a''), (100, ''a''), (150, ''a'')] ((), [])))"
  using memory_limit_exact [of 60 120 "[(10, ''a''), (100, ''a''), (150, ''a'')]" 200 "''a''"
      "new_rate_limiter 2 120 60 True" 2 "[]" "()"]
  by (simp add: in_window_def window_count_def current_bucket_def new_rate_limiter_def)

text \<open>A server that keeps a map from keys to values and expiry times.\<close>

type_synonym sample_server = "string \<Rightarrow> (int \<times> int option) option"

definition sample_redis :: "sample_server redis_ops" where
  "sample_redis =
     \<lparr>r_incr = (\<lambda>t k r. case live t (r k) of None \<Rightarrow> (Inr 1, r(k \<mapsto> (1, None)))
        | Some (n, x) \<Rightarrow> (Inr (n + 1), r(k \<mapsto> (n + 1, x)))),
      r_expire = (\<lambda>t k ttl r. case live t (r k) of None \<Rightarrow> (Inr (), r)
        | Some (n, x) \<Rightarrow> (Inr (), r(k \<mapsto> (n, Some (t + ttl))))),
      r_mget = (\<lambda>t ks r. (Inr (map (\<lambda>k. map_option fst (live t (r k))) ks), r))\<rparr>"

lemma sample_redis_documented: "redis_documented sample_redis id"
  by (simp add: redis_documented_def sample_redis_def)

theorem redis_limit_exact_witness:
  "fst (is_limited (Some sample_redis) (new_rate_limiter 2 120 60 True) [] 200 ''a''
     (calls (Some sample_redis) (new_rate_limiter 2 120 60 True) []
       [(10, ''a''), (100, ''A''), (150, ''a'')] (Map.empty, [])))"
proof -
  have "in_window (new_rate_limiter 2 120 60 True) lower
      ([(10, ''a''), (100, ''A''), (150, ''a'')] @ [(200, ''a'')]) 200 ''a'' = 3"
    by code_simp
  then show ?thesis
    using redis_limit_exact [OF sample_redis_documented, of Map.empty "[]" 60 120
        "[(10, ''a''), (100, ''A''), (150, ''a'')]" 200 "''a''" "new_rate_limiter 2 120 60 True" 2 "[]"]
    by simp
qed

end
