(* ===== verification/Messages.thy ===== *)
theory Messages
  imports PyStr
begin

text \<open>
  The message helpers of \<open>utils/misc.py\<close>, the fork of a chat branch (\<open>utils/chat_fork.py\<close>) and
  the kinds of chat identifiers (\<open>utils/chat_id.py\<close>). A message is a dictionary; an in-place
  update is returned. Dictionary and set lookups with an unhashable key raise \<open>TypeError\<close>.
\<close>

type_synonym message = "json dict"

subsection \<open>Python operations on messages\<close>

text \<open>\<open>x in ids\<close> for a set.\<close>

definition in_set :: "json \<Rightarrow> json list \<Rightarrow> bool result" where
  "in_set x ids = (if hashable x then Inr (x \<in> set ids) else Inl TypeError)"

text \<open>\<open>m[k]\<close>.\<close>

definition item_of :: "json dict \<Rightarrow> string \<Rightarrow> json result" where
  "item_of m k = (case map_of m k of None \<Rightarrow> Inl KeyError | Some v \<Rightarrow> Inr v)"

fun as_dict :: "json \<Rightarrow> json dict result" where
  "as_dict (JObj d) = Inr d"
| "as_dict _ = Inl AttributeError"

fun as_str :: "py_error \<Rightarrow> json \<Rightarrow> string result" where
  "as_str e (JStr s) = Inr s"
| "as_str e _ = Inl e"

definition role_is :: "string \<Rightarrow> message \<Rightarrow> bool" where
  "role_is r m \<longleftrightarrow> jget m ''role'' = JStr r"

subsection \<open>Dictionaries of settings\<close>

fun deep_update :: "json \<Rightarrow> json dict \<Rightarrow> json result" where
  "deep_update d [] = Inr d"
| "deep_update (JObj d) ((k, JObj v) # u) =
     bind_result (deep_update (jget_default d k (JObj [])) v) (\<lambda>w.
       deep_update (JObj (AList.update k w d)) u)"
| "deep_update (JObj d) ((k, v) # u) = deep_update (JObj (AList.update k v d)) u"
| "deep_update d ((k, JObj v) # u) = Inl AttributeError"
| "deep_update d ((k, v) # u) = Inl TypeError"

definition merge_model_params :: "json dict \<Rightarrow> json dict \<Rightarrow> json dict" where
  "merge_model_params base override =
     (let params = dict_merge base override;
          base_custom = jget base ''custom_params''; override_custom = jget override ''custom_params''
      in if is_dict base_custom \<and> (override_custom = JNull \<or> is_dict override_custom)
         then AList.update ''custom_params''
                (JObj (dict_merge (dict_of base_custom) (dict_of override_custom))) params
         else params)"

subsection \<open>Allow and block lists\<close>

definition strip_chars :: "char list \<Rightarrow> string \<Rightarrow> string" where
  "strip_chars cs s = rev (dropWhile (\<lambda>c. c \<in> set cs) (rev (dropWhile (\<lambda>c. c \<in> set cs) s)))"

definition strip_filter_entry :: "string \<Rightarrow> string" where
  "strip_filter_entry entry = strip (strip_chars [CHR 0x22, CHR 0x27] (strip entry))"

definition starts_with :: "string \<Rightarrow> string \<Rightarrow> bool" where
  "starts_with prefix s \<longleftrightarrow> take (length prefix) s = prefix"

definition ends_with :: "string \<Rightarrow> string \<Rightarrow> bool" where
  "ends_with suffix s \<longleftrightarrow> starts_with (rev suffix) (rev s)"

fun get_allow_block_lists :: "string list \<Rightarrow> string list \<times> string list" where
  "get_allow_block_lists [] = ([], [])"
| "get_allow_block_lists (raw_entry # filter_list) =
     (case get_allow_block_lists filter_list of (allow_list, block_list) \<Rightarrow>
        (let entry = strip_filter_entry raw_entry;
             is_blocked = starts_with ''!'' entry;
             entry = (if is_blocked then strip_filter_entry (tl entry) else entry)
         in if entry = [] then (allow_list, block_list)
            else if is_blocked then (allow_list, entry # block_list)
            else (entry # allow_list, block_list)))"

definition is_string_allowed :: "string list \<Rightarrow> string list \<Rightarrow> bool" where
  "is_string_allowed strings filter_list =
     (if filter_list = [] then True
      else case get_allow_block_lists filter_list of (allow_list, block_list) \<Rightarrow>
        if allow_list \<noteq> [] \<and>
           \<not> list_ex (\<lambda>s. list_ex (\<lambda>suffix. ends_with suffix s) allow_list) strings then False
        else if list_ex (\<lambda>s. list_ex (\<lambda>suffix. ends_with suffix s) block_list) strings then False
        else True)"

subsection \<open>The chain of a message\<close>

text \<open>\<open>messages_map.get(message_id)\<close>.\<close>

definition get_message :: "json dict \<Rightarrow> json \<Rightarrow> json result" where
  "get_message messages_map message_id =
     (case message_id of
        JStr s \<Rightarrow> Inr (jget messages_map s)
      | _ \<Rightarrow> if hashable message_id then Inr JNull else Inl TypeError)"

lemma get_message_truthy:
  "get_message mm i = Inr v \<Longrightarrow> truthy v \<Longrightarrow> i \<in> set (map (JStr \<circ> fst) mm)"
  unfolding get_message_def
  by (auto split: json.splits if_splits dest!: jget_truthy_dom map_of_SomeD intro: rev_image_eqI)

function message_chain :: "json dict \<Rightarrow> json list \<Rightarrow> json \<Rightarrow> json \<Rightarrow> json list result" where
  "message_chain messages_map visited message_id current =
     (if \<not> truthy current \<or> message_id \<in> set visited then Inr []
      else case current of
        JObj m \<Rightarrow>
          (let parent_id = jget m ''parentId''
           in bind_result (if truthy parent_id then get_message messages_map parent_id else Inr JNull)
                (\<lambda>parent. bind_result
                   (message_chain messages_map (message_id # visited) parent_id parent)
                   (\<lambda>rest. Inr (current # rest))))
      | _ \<Rightarrow> Inl AttributeError)"
  by pat_completeness auto
termination
proof (relation "measure (\<lambda>(mm, visited, i, current).
    if truthy current then Suc (walk_measure (map (JStr \<circ> fst) mm) visited i) else 0)", goal_cases)
  case 1
  show ?case by simp
next
  case (2 mm visited i current m parent_id parent)
  then show ?case
    by (auto intro!: walk_measure_decreases split: if_splits dest: get_message_truthy)
qed

declare message_chain.simps [simp del]

definition get_message_list :: "json dict \<Rightarrow> json \<Rightarrow> json list result" where
  "get_message_list messages_map message_id =
     (if messages_map = [] then Inr []
      else bind_result (get_message messages_map message_id) (\<lambda>current_message.
        if \<not> truthy current_message then Inr []
        else map_sum id rev (message_chain messages_map [] message_id current_message)))"

subsection \<open>Forking a branch\<close>

function fork_branch :: "json dict \<Rightarrow> json list \<Rightarrow> json \<Rightarrow> (string \<times> json dict) list result" where
  "fork_branch messages_map seen message_id =
     (if \<not> truthy message_id then Inr []
      else if \<not> hashable message_id then Inl TypeError
      else if message_id \<in> set seen then Inl (ValueError ''message branch contains a cycle'')
      else case (message_id, get_message messages_map message_id) of
        (JStr s, Inr (JObj message)) \<Rightarrow>
          bind_result (fork_branch messages_map (message_id # seen) (jget message ''parentId''))
            (\<lambda>branch. Inr ((s, message) # branch))
      | _ \<Rightarrow> Inl (ValueError ''message not found''))"
  by pat_completeness auto
termination
proof (relation "measure (\<lambda>(mm, seen, i). card (set (map (JStr \<circ> fst) mm) - set seen))", goal_cases)
  case 1
  show ?case by simp
next
  case (2 mm seen i _ _ s _ m)
  then have "i \<in> set (map (JStr \<circ> fst) mm)"
    by (auto simp: get_message_def jget_def split: option.splits dest!: map_of_SomeD intro: rev_image_eqI)
  with 2(3) show ?case
    unfolding in_measure prod.case by (intro psubset_card_mono) auto
qed

declare fork_branch.simps [simp del]

text \<open>
  The loop over the reversed branch; \<open>childrenIds\<close> of a message is set when its child is copied.
  \<open>ordered_messages\<close> holds the same dictionaries as the history, in the same order.
\<close>

fun fork_messages :: "json \<Rightarrow> (string \<times> json dict) list \<Rightarrow> (string \<times> json dict) list" where
  "fork_messages parent_id [] = []"
| "fork_messages parent_id ((i, message) # branch) =
     (i, AList.update ''childrenIds'' (JList (case branch of [] \<Rightarrow> [] | (j, _) # _ \<Rightarrow> [JStr j]))
           (AList.update ''parentId'' parent_id (AList.update ''id'' (JStr i) message)))
       # fork_messages (JStr i) branch"

definition build_fork_history :: "json dict \<Rightarrow> string \<Rightarrow> (json \<times> json list) result" where
  "build_fork_history messages_map source_message_id =
     (if messages_map = [] then Inl (ValueError ''chat has no messages to fork'')
      else bind_result (fork_branch messages_map [] (JStr source_message_id)) (\<lambda>branch.
        let copies = map (\<lambda>(i, m). (i, JObj m)) (fork_messages JNull (rev branch))
        in Inr (JObj [(''messages'', JObj copies), (''currentId'', JStr source_message_id)],
                map snd copies)))"

subsection \<open>Kinds of chat identifiers\<close>

definition temporary_prefixes :: "string list" where
  "temporary_prefixes = [''temporary:'', ''local:'']"

definition non_saved_prefixes :: "string list" where
  "non_saved_prefixes = temporary_prefixes @ [''channel:'']"

definition is_saved_chat_id :: "string option \<Rightarrow> bool" where
  "is_saved_chat_id chat_id =
     (case chat_id of None \<Rightarrow> False
      | Some i \<Rightarrow> i \<noteq> [] \<and> \<not> list_ex (\<lambda>p. starts_with p i) non_saved_prefixes)"

definition is_temporary_chat_id :: "string option \<Rightarrow> bool" where
  "is_temporary_chat_id chat_id =
     (case chat_id of None \<Rightarrow> False
      | Some i \<Rightarrow> i \<noteq> [] \<and> list_ex (\<lambda>p. starts_with p i) temporary_prefixes)"

definition get_temporary_chat_session_id :: "string \<Rightarrow> string option" where
  "get_temporary_chat_session_id chat_id =
     map_option (\<lambda>p. drop (length p) chat_id) (List.find (\<lambda>p. starts_with p chat_id) temporary_prefixes)"

subsection \<open>Content of messages\<close>

text \<open>\<open>str(part.get('text'))\<close> of the dictionary parts that have one.\<close>

definition part_texts :: "json list \<Rightarrow> string" where
  "part_texts parts =
     concat (map (\<lambda>p. if is_dict p \<and> jget (dict_of p) ''text'' \<noteq> JNull
                      then py_str (jget (dict_of p) ''text'') else []) parts)"

definition is_blank :: "string \<Rightarrow> bool" where
  "is_blank s \<longleftrightarrow> list_all is_space s"

definition output_item_text :: "json \<Rightarrow> string list" where
  "output_item_text item =
     (if \<not> is_dict item \<or> jget (dict_of item) ''type'' \<noteq> JStr ''message'' then []
      else case jor (jget (dict_of item) ''content'') (JList []) of
        JList parts \<Rightarrow> (let text = part_texts parts in if is_blank text then [] else [text])
      | _ \<Rightarrow> [])"

definition get_output_text :: "json \<Rightarrow> string" where
  "get_output_text output =
     (case output of JList items \<Rightarrow> join newline (concat (map output_item_text items)) | _ \<Rightarrow> [])"

definition is_text_part :: "json \<Rightarrow> bool" where
  "is_text_part item \<longleftrightarrow> is_dict item \<and> jget (dict_of item) ''type'' = JStr ''text''"

definition content_from_output :: "message \<Rightarrow> json \<Rightarrow> json" where
  "content_from_output message content =
     (let output_text = get_output_text (jget message ''output'')
      in if output_text \<noteq> [] then JStr output_text
         else if is_str content then content else JNull)"

definition get_content_from_message :: "message \<Rightarrow> json" where
  "get_content_from_message message =
     (let content = jget message ''content''
      in case content of
           JList parts \<Rightarrow>
             (case List.find is_text_part parts of
                Some item \<Rightarrow> jget (dict_of item) ''text''
              | None \<Rightarrow> content_from_output message content)
         | _ \<Rightarrow> if truthy content then content else content_from_output message content)"

definition get_messages_content :: "message list \<Rightarrow> string result" where
  "get_messages_content messages =
     bind_result
       (map_result (\<lambda>m.
          bind_result (item_of m ''role'') (\<lambda>r.
          bind_result (as_str AttributeError r) (\<lambda>role.
            Inr (upper role @ '': '' @ py_str (get_content_from_message m))))) messages)
       (\<lambda>texts. Inr (join newline texts))"

subsection \<open>Messages by role\<close>

text \<open>\<open>for message in messages: if message['role'] == role: return message\<close>.\<close>

fun first_with_role :: "string \<Rightarrow> message list \<Rightarrow> message option result" where
  "first_with_role role [] = Inr None"
| "first_with_role role (m # ms) =
     bind_result (item_of m ''role'') (\<lambda>r. if r = JStr role then Inr (Some m) else first_with_role role ms)"

definition get_last_user_message_item :: "message list \<Rightarrow> message option result" where
  "get_last_user_message_item messages = first_with_role ''user'' (rev messages)"

definition get_last_user_message :: "message list \<Rightarrow> json result" where
  "get_last_user_message messages =
     map_sum id (\<lambda>m. case m of None \<Rightarrow> JNull | Some m \<Rightarrow> get_content_from_message m)
       (get_last_user_message_item messages)"

definition get_last_assistant_message_item :: "message list \<Rightarrow> message option result" where
  "get_last_assistant_message_item messages = first_with_role ''assistant'' (rev messages)"

definition get_last_assistant_message :: "message list \<Rightarrow> json result" where
  "get_last_assistant_message messages =
     map_sum id (\<lambda>m. case m of None \<Rightarrow> JNull | Some m \<Rightarrow> get_content_from_message m)
       (first_with_role ''assistant'' (rev messages))"

definition get_system_message :: "message list \<Rightarrow> message option result" where
  "get_system_message messages = first_with_role ''system'' messages"

fun remove_system_message :: "message list \<Rightarrow> message list result" where
  "remove_system_message [] = Inr []"
| "remove_system_message (m # ms) =
     bind_result (item_of m ''role'') (\<lambda>r.
     bind_result (remove_system_message ms) (\<lambda>rest.
       Inr (if r \<noteq> JStr ''system'' then m # rest else rest)))"

definition pop_system_message :: "message list \<Rightarrow> (message option \<times> message list) result" where
  "pop_system_message messages =
     bind_result (get_system_message messages) (\<lambda>m.
     bind_result (remove_system_message messages) (\<lambda>rest. Inr (m, rest)))"

text \<open>\<open>'\n'.join(system_contents)\<close> fails on a content that is no string.\<close>

definition merge_system_messages :: "message list \<Rightarrow> message list result" where
  "merge_system_messages messages =
     (let system_contents = filter truthy (map get_content_from_message (filter (role_is ''system'') messages));
          other_messages = filter (\<lambda>m. \<not> role_is ''system'' m) messages
      in if system_contents = [] then Inr other_messages
         else bind_result (map_result (as_str TypeError) system_contents) (\<lambda>texts.
           Inr ([(''role'', JStr ''system''), (''content'', JStr (join newline texts))] # other_messages)))"

subsection \<open>Updates in place\<close>

fun set_first_text :: "string \<Rightarrow> json list \<Rightarrow> json list result" where
  "set_first_text content [] = Inr []"
| "set_first_text content (item # items) =
     bind_result (as_dict item) (\<lambda>d.
       if jget d ''type'' = JStr ''text''
       then Inr (JObj (AList.update ''text'' (JStr content) d) # items)
       else map_sum id ((#) item) (set_first_text content items))"

fun set_first_user_content :: "string \<Rightarrow> message list \<Rightarrow> message list result" where
  "set_first_user_content content [] = Inr []"
| "set_first_user_content content (m # ms) =
     (if role_is ''user'' m then
        (case jget m ''content'' of
           JList parts \<Rightarrow>
             bind_result (set_first_text content parts) (\<lambda>parts.
               Inr (AList.update ''content'' (JList parts) m # ms))
         | _ \<Rightarrow> Inr (AList.update ''content'' (JStr content) m # ms))
      else map_sum id ((#) m) (set_first_user_content content ms))"

definition set_last_user_message_content :: "string \<Rightarrow> message list \<Rightarrow> message list result" where
  "set_last_user_message_content content messages =
     map_sum id rev (set_first_user_content content (rev messages))"

definition extended :: "bool \<Rightarrow> string \<Rightarrow> json \<Rightarrow> json" where
  "extended at_end content old =
     JStr (if at_end then py_str old @ newline @ content else content @ newline @ py_str old)"

text \<open>\<open>item['type']\<close> of a part: a part that is no dictionary raises \<open>TypeError\<close>.\<close>

definition update_text_part :: "string \<Rightarrow> bool \<Rightarrow> json \<Rightarrow> json result" where
  "update_text_part content at_end item =
     (case item of
        JObj d \<Rightarrow>
          bind_result (item_of d ''type'') (\<lambda>t.
            if t = JStr ''text''
            then bind_result (item_of d ''text'') (\<lambda>old.
                   Inr (JObj (AList.update ''text'' (extended at_end content old) d)))
            else Inr item)
      | _ \<Rightarrow> Inl TypeError)"

definition update_message_content :: "message \<Rightarrow> string \<Rightarrow> bool \<Rightarrow> message result" where
  "update_message_content message content at_end =
     bind_result (item_of message ''content'') (\<lambda>old.
       case old of
         JList parts \<Rightarrow>
           bind_result (map_result (update_text_part content at_end) parts) (\<lambda>parts.
             Inr (AList.update ''content'' (JList parts) message))
       | _ \<Rightarrow> Inr (AList.update ''content'' (extended at_end content old) message))"

fun replace_system_message_content :: "string \<Rightarrow> message list \<Rightarrow> message list result" where
  "replace_system_message_content content [] = Inr []"
| "replace_system_message_content content (m # ms) =
     bind_result (item_of m ''role'') (\<lambda>r.
       if r = JStr ''system'' then Inr (AList.update ''content'' (JStr content) m # ms)
       else map_sum id ((#) m) (replace_system_message_content content ms))"

definition text_message :: "string \<Rightarrow> string \<Rightarrow> message" where
  "text_message role content = [(''role'', JStr role), (''content'', JStr content)]"

definition add_or_update_system_message :: "string \<Rightarrow> message list \<Rightarrow> bool \<Rightarrow> message list result" where
  "add_or_update_system_message content messages at_end =
     (case messages of
        m # ms \<Rightarrow>
          (if role_is ''system'' m
           then map_sum id (\<lambda>m. m # ms) (update_message_content m content at_end)
           else Inr (text_message ''system'' content # messages))
      | [] \<Rightarrow> Inr [text_message ''system'' content])"

definition add_or_update_user_message :: "string \<Rightarrow> message list \<Rightarrow> bool \<Rightarrow> message list result" where
  "add_or_update_user_message content messages at_end =
     (if messages \<noteq> [] \<and> role_is ''user'' (last messages)
      then map_sum id (\<lambda>m. butlast messages @ [m]) (update_message_content (last messages) content at_end)
      else Inr (messages @ [text_message ''user'' content]))"

fun prepend_to_first_user_message_content :: "string \<Rightarrow> message list \<Rightarrow> message list result" where
  "prepend_to_first_user_message_content content [] = Inr []"
| "prepend_to_first_user_message_content content (m # ms) =
     bind_result (item_of m ''role'') (\<lambda>r.
       if r = JStr ''user'' then map_sum id (\<lambda>m. m # ms) (update_message_content m content False)
       else map_sum id ((#) m) (prepend_to_first_user_message_content content ms))"

definition append_or_update_assistant_message :: "string \<Rightarrow> message list \<Rightarrow> message list result" where
  "append_or_update_assistant_message content messages =
     (if messages \<noteq> [] \<and> role_is ''assistant'' (last messages)
      then bind_result (item_of (last messages) ''content'') (\<lambda>old.
             Inr (butlast messages @ [AList.update ''content'' (extended True content old) (last messages)]))
      else Inr (messages @ [text_message ''assistant'' content]))"

text \<open>A text part with blank text is dropped; \<open>block.get('text', '').strip()\<close> needs a string.\<close>

definition keeps_block :: "json \<Rightarrow> bool result" where
  "keeps_block block =
     (if is_text_part block
      then bind_result (as_str AttributeError (jget_default (dict_of block) ''text'' (JStr []))) (\<lambda>t.
             Inr (strip t \<noteq> []))
      else Inr True)"

fun filter_result :: "('a \<Rightarrow> bool result) \<Rightarrow> 'a list \<Rightarrow> 'a list result" where
  "filter_result P [] = Inr []"
| "filter_result P (x # xs) =
     bind_result (P x) (\<lambda>b. bind_result (filter_result P xs) (\<lambda>ys. Inr (if b then x # ys else ys)))"

definition strip_empty_content_blocks :: "message list \<Rightarrow> message list result" where
  "strip_empty_content_blocks =
     map_result (\<lambda>m.
       case jget m ''content'' of
         JList blocks \<Rightarrow>
           bind_result (filter_result keeps_block blocks) (\<lambda>cleaned.
             Inr (if cleaned \<noteq> [] then AList.update ''content'' (JList cleaned) m else m))
       | _ \<Rightarrow> Inr m)"

end
