(* ===== verification/ToolMessages.thy ===== *)
theory ToolMessages
  imports Messages
begin

text \<open>
  Tool calls in a conversation (\<open>utils/misc.py\<close>): the pairing of calls and results, the removal
  of unpaired ones, and the conversion of stored output items to chat messages. \<open>dumps\<close> is the
  JSON encoder, a parameter.
\<close>

subsection \<open>Pairing of calls and results\<close>

text \<open>\<open>{tool_call.get('id') for tool_call in tool_calls if tool_call.get('id')}\<close>.\<close>

fun requested_ids :: "json list \<Rightarrow> json list result" where
  "requested_ids [] = Inr []"
| "requested_ids (tool_call # tool_calls) =
     bind_result (attr_get tool_call ''id'') (\<lambda>i.
       if \<not> truthy i then requested_ids tool_calls
       else if \<not> hashable i then Inl TypeError
       else map_sum id ((#) i) (requested_ids tool_calls))"

text \<open>\<open>{tool_message.get('tool_call_id') for tool_message in block}\<close>.\<close>

definition completed_ids :: "message list \<Rightarrow> json list result" where
  "completed_ids block =
     map_result (\<lambda>m. let i = jget m ''tool_call_id'' in if hashable i then Inr i else Inl TypeError) block"

definition calls_tools :: "message \<Rightarrow> bool" where
  "calls_tools m \<longleftrightarrow> role_is ''assistant'' m \<and> truthy (jget m ''tool_calls'')"

text \<open>
  The identifiers a block of an assistant message and its tool messages pairs. The loop over
  the indices passes over the tool messages of a block, which have their identifiers already.
\<close>

definition block_ids :: "message \<Rightarrow> message list \<Rightarrow> json list result" where
  "block_ids m block =
     bind_result (bind_result (py_iter (jget m ''tool_calls'')) requested_ids) (\<lambda>requested.
     bind_result (completed_ids block) (\<lambda>completed.
       Inr (filter (\<lambda>i. i \<in> set completed) requested)))"

function get_paired_tool_call_ids :: "message list \<Rightarrow> json list list result" where
  "get_paired_tool_call_ids [] = Inr []"
| "get_paired_tool_call_ids (m # ms) =
     (if calls_tools m then
        (let block = takeWhile (role_is ''tool'') ms
         in bind_result (block_ids m block) (\<lambda>paired.
            bind_result (get_paired_tool_call_ids (dropWhile (role_is ''tool'') ms)) (\<lambda>rest.
              Inr (replicate (Suc (length block)) paired @ rest))))
      else map_sum id ((#) []) (get_paired_tool_call_ids ms))"
  by pat_completeness auto
termination
  by (relation "measure length") (simp_all add: le_imp_less_Suc length_dropWhile_le)

text \<open>The calls of \<open>message['tool_calls']\<close> whose identifier is paired.\<close>

definition valid_calls :: "json list \<Rightarrow> message \<Rightarrow> json list result" where
  "valid_calls paired m =
     bind_result (py_iter (jget m ''tool_calls''))
       (filter_result (\<lambda>tc. bind_result (attr_get tc ''id'') (\<lambda>i. in_set i paired)))"

definition has_meaningful_content :: "message \<Rightarrow> bool" where
  "has_meaningful_content m =
     (case jor (get_content_from_message m) (JStr []) of
        JStr s \<Rightarrow> strip s \<noteq> [] | content \<Rightarrow> truthy content)"

text \<open>The messages one step of the loop appends.\<close>

definition reconcile_message :: "message \<Rightarrow> json list \<Rightarrow> message list result" where
  "reconcile_message m paired =
     bind_result (if role_is ''tool'' m then map_sum id Not (in_set (jget m ''tool_call_id'') paired)
                  else Inr False) (\<lambda>orphan.
       if orphan then Inr []
       else if \<not> calls_tools m then Inr [m]
       else bind_result (valid_calls paired m) (\<lambda>valid_tool_calls.
         Inr (if valid_tool_calls \<noteq> [] then [AList.update ''tool_calls'' (JList valid_tool_calls) m]
              else if has_meaningful_content m \<or> truthy (jget m ''reasoning_content'')
              then [AList.delete ''tool_calls'' m] else [])))"

definition reconcile_tool_pairs :: "message list \<Rightarrow> message list result" where
  "reconcile_tool_pairs messages =
     bind_result (get_paired_tool_call_ids messages) (\<lambda>paired.
       map_sum id concat (map_result (\<lambda>(m, ids). reconcile_message m ids) (zip messages paired)))"

subsection \<open>The call of a stored item\<close>

definition get_provider_function :: "(json \<Rightarrow> string) \<Rightarrow> json dict \<Rightarrow> json" where
  "get_provider_function dumps item =
     (let function = (case jget item ''provider_function'' of JObj f \<Rightarrow> f | _ \<Rightarrow> item);
          arguments = jget_default function ''arguments'' (JStr ''{}'')
      in JObj [(''name'', jget_default function ''name'' (JStr [])),
               (''arguments'', if is_str arguments then arguments else JStr (dumps arguments))])"

definition get_reasoning_details :: "json \<Rightarrow> json" where
  "get_reasoning_details payload =
     (case payload of
        JObj p \<Rightarrow>
          (let provider_fields = jor (jget p ''provider_specific_fields'') (JObj []);
               provider_details = (case provider_fields of JObj f \<Rightarrow> jget f ''reasoning_details'' | _ \<Rightarrow> JNull)
           in jor (jget p ''reasoning_details'') provider_details)
      | _ \<Rightarrow> JNull)"

subsection \<open>From output items to messages\<close>

record conversion =
  cv_messages :: "message list"
  cv_tool_calls :: "json list"
  cv_content :: "string list"
  cv_reasoning :: "string list"
  cv_reasoning_details :: "json list"
  cv_image_urls :: "json list"
  cv_tool_outputs :: "json dict list"

definition empty_conversion :: conversion where
  "empty_conversion = \<lparr>cv_messages = [], cv_tool_calls = [], cv_content = [], cv_reasoning = [],
     cv_reasoning_details = [], cv_image_urls = [], cv_tool_outputs = []\<rparr>"

text \<open>The options: \<open>raw\<close>, the reasoning format and \<open>flatten_tool_images\<close>.\<close>

record convert_options =
  co_raw :: bool
  co_reasoning_format :: "string option"
  co_flatten_tool_images :: bool

text \<open>The first loop over the items, which must all be dictionaries.\<close>

fun completed_call_ids :: "json list \<Rightarrow> json list result" where
  "completed_call_ids [] = Inr []"
| "completed_call_ids (output_item # items) =
     bind_result (as_dict output_item) (\<lambda>item.
       if jget item ''type'' = JStr ''function_call'' \<and> truthy (jget item ''call_id'') then
         bind_result (in_set (jget item ''status'') [JStr ''completed'', JStr ''failed'', JStr ''rejected''])
           (\<lambda>ended.
             if \<not> ended then completed_call_ids items
             else if \<not> hashable (jget item ''call_id'') then Inl TypeError
             else map_sum id ((#) (jget item ''call_id'')) (completed_call_ids items))
       else completed_call_ids items)"

fun result_call_ids :: "json dict list \<Rightarrow> json list result" where
  "result_call_ids [] = Inr []"
| "result_call_ids (item # items) =
     (if jget item ''type'' = JStr ''function_call_output'' \<and> truthy (jget item ''call_id'') then
        (if \<not> hashable (jget item ''call_id'') then Inl TypeError
         else map_sum id ((#) (jget item ''call_id'')) (result_call_ids items))
      else result_call_ids items)"

definition function_call_ids :: "json list \<Rightarrow> json list result" where
  "function_call_ids output =
     bind_result (completed_call_ids output) (\<lambda>completed.
     bind_result (result_call_ids (map dict_of output)) (\<lambda>results.
       Inr (filter (\<lambda>i. i \<in> set results) completed)))"

definition pending_message :: "convert_options \<Rightarrow> conversion \<Rightarrow> message" where
  "pending_message opt c =
     [(''role'', JStr ''assistant''), (''content'', JStr (join newline (cv_content c)))] @
     (if cv_tool_calls c \<noteq> [] then [(''tool_calls'', JList (cv_tool_calls c))] else []) @
     (if cv_reasoning c \<noteq> []
      then [(if co_reasoning_format opt = Some ''thinking'' then ''thinking'' else ''reasoning_content'',
             JStr (join newline (cv_reasoning c)))] else []) @
     (if cv_reasoning_details c \<noteq> [] then [(''reasoning_details'', JList (cv_reasoning_details c))] else [])"

definition flush_pending :: "convert_options \<Rightarrow> conversion \<Rightarrow> conversion" where
  "flush_pending opt c =
     (if cv_content c = [] \<and> cv_tool_calls c = [] \<and> cv_reasoning c = [] \<and> cv_reasoning_details c = [] then c
      else c\<lparr>cv_messages := cv_messages c @ [pending_message opt c], cv_content := [],
             cv_tool_calls := [], cv_reasoning := [], cv_reasoning_details := []\<rparr>)"

definition images_message :: "json list \<Rightarrow> message" where
  "images_message urls =
     [(''role'', JStr ''user''),
      (''content'', JList
         (JObj [(''type'', JStr ''text''),
                (''text'', JStr ''Here are the images from the tool results above. Please analyze them.'')]
          # map (\<lambda>url. JObj [(''type'', JStr ''image_url''), (''image_url'', JObj [(''url'', url)])]) urls))]"

definition flush_tool_images :: "conversion \<Rightarrow> conversion" where
  "flush_tool_images c =
     (if cv_image_urls c = [] then c
      else c\<lparr>cv_messages := cv_messages c @ [images_message (cv_image_urls c)], cv_image_urls := []\<rparr>)"

text \<open>The loop over the parts of a tool output: the text and the image urls.\<close>

fun output_parts :: "json list \<Rightarrow> string \<times> json list \<Rightarrow> (string \<times> json list) result" where
  "output_parts [] (content, image_urls) = Inr (content, image_urls)"
| "output_parts (part # parts) (content, image_urls) =
     bind_result (as_dict part) (\<lambda>p.
       if jget p ''type'' = JStr ''input_text''
       then output_parts parts (content @ py_str (jget_default p ''text'' (JStr [])), image_urls)
       else if jget p ''type'' = JStr ''input_image'' then
         (let url = jget_default p ''image_url'' (JStr [])
          in output_parts parts (content, if truthy url then image_urls @ [url] else image_urls))
       else output_parts parts (content, image_urls))"

definition tool_message :: "json dict \<Rightarrow> json \<Rightarrow> message" where
  "tool_message output_item content =
     [(''role'', JStr ''tool''), (''tool_call_id'', jget_default output_item ''call_id'' (JStr [])),
      (''content'', content)]"

definition flush_tool_output :: "convert_options \<Rightarrow> json dict \<Rightarrow> conversion \<Rightarrow> conversion result" where
  "flush_tool_output opt output_item c =
     bind_result (py_iter (jget_default output_item ''output'' (JList []))) (\<lambda>parts.
     bind_result (output_parts parts ([], [])) (\<lambda>(content, image_urls).
       Inr (if co_flatten_tool_images opt
            then c\<lparr>cv_messages := cv_messages c @ [tool_message output_item (JStr content)],
                   cv_image_urls := cv_image_urls c @ image_urls\<rparr>
            else if image_urls \<noteq> []
            then c\<lparr>cv_messages := cv_messages c @ [tool_message output_item
                     (JList (JObj [(''type'', JStr ''input_text''), (''text'', JStr content)]
                        # map (\<lambda>url. JObj [(''type'', JStr ''input_image''), (''image_url'', url)]) image_urls))]\<rparr>
            else c\<lparr>cv_messages := cv_messages c @ [tool_message output_item (JStr content)]\<rparr>)))"

fun fold_result :: "('a \<Rightarrow> 'b \<Rightarrow> 'b result) \<Rightarrow> 'a list \<Rightarrow> 'b \<Rightarrow> 'b result" where
  "fold_result f [] s = Inr s"
| "fold_result f (x # xs) s = bind_result (f x s) (fold_result f xs)"

definition flush_tool_outputs :: "convert_options \<Rightarrow> conversion \<Rightarrow> conversion result" where
  "flush_tool_outputs opt c =
     (if cv_tool_outputs c = [] then Inr c
      else map_sum id (\<lambda>c. c\<lparr>cv_tool_outputs := []\<rparr>)
             (fold_result (flush_tool_output opt) (cv_tool_outputs c) (flush_pending opt c)))"

text \<open>\<open>text += part.get('text', '')\<close> for the parts that \<open>P\<close> selects.\<close>

fun collect_text :: "(json dict \<Rightarrow> bool) \<Rightarrow> json list \<Rightarrow> string result" where
  "collect_text P [] = Inr []"
| "collect_text P (part # parts) =
     bind_result (as_dict part) (\<lambda>p.
     bind_result (if P p then as_str TypeError (jget_default p ''text'' (JStr [])) else Inr []) (\<lambda>t.
     bind_result (collect_text P parts) (\<lambda>rest. Inr (t @ rest))))"

definition convert_message :: "json dict \<Rightarrow> conversion \<Rightarrow> conversion result" where
  "convert_message item c =
     bind_result (py_iter (jget_default item ''content'' (JList []))) (\<lambda>parts.
     bind_result (collect_text (\<lambda>p. jget p ''type'' = JStr ''output_text'') parts) (\<lambda>text.
       Inr (if text \<noteq> [] then c\<lparr>cv_content := cv_content c @ [text]\<rparr> else c)))"

definition convert_function_call ::
  "(json \<Rightarrow> string) \<Rightarrow> json list \<Rightarrow> json dict \<Rightarrow> conversion \<Rightarrow> conversion result" where
  "convert_function_call dumps call_ids item c =
     bind_result (in_set (jget item ''call_id'') call_ids) (\<lambda>paired.
       Inr (if \<not> paired then c
            else c\<lparr>cv_tool_calls := cv_tool_calls c @
                     [JObj [(''id'', jget_default item ''call_id'' (JStr [])), (''type'', JStr ''function''),
                            (''function'', get_provider_function dumps item)]]\<rparr>))"

definition convert_function_call_output :: "json list \<Rightarrow> json dict \<Rightarrow> conversion \<Rightarrow> conversion result" where
  "convert_function_call_output call_ids item c =
     bind_result (in_set (jget item ''call_id'') call_ids) (\<lambda>paired.
       Inr (if \<not> paired then c else c\<lparr>cv_tool_outputs := cv_tool_outputs c @ [item]\<rparr>))"

definition replayed_details :: "convert_options \<Rightarrow> json dict \<Rightarrow> json list" where
  "replayed_details opt item =
     (let details = (if co_raw opt then jget item ''reasoning_details'' else JNull)
      in if \<not> truthy details then []
         else filter (\<lambda>d. is_dict d \<and> (jget (dict_of d) ''format'' \<noteq> JStr ''anthropic-claude-v1'' \<or>
                                        truthy (jget (dict_of d) ''signature'')))
                (case details of JList ds \<Rightarrow> ds | _ \<Rightarrow> [details]))"

definition has_format :: "convert_options \<Rightarrow> bool" where
  "has_format opt \<longleftrightarrow> co_reasoning_format opt \<notin> {None, Some []}"

definition convert_reasoning :: "convert_options \<Rightarrow> json dict \<Rightarrow> conversion \<Rightarrow> conversion result" where
  "convert_reasoning opt item c =
     (let details = replayed_details opt item
      in if \<not> has_format opt \<and> details = [] then Inr c
         else
           bind_result (py_iter (jor (jget_default item ''summary'' (JList []))
                                     (jget_default item ''content'' (JList [])))) (\<lambda>parts.
           bind_result (collect_text (\<lambda>p. jget p ''type'' = JStr ''output_text'' \<or> map_of p ''text'' \<noteq> None) parts)
             (\<lambda>text.
               let c1 = (if text = [] then c
                         else if co_reasoning_format opt = Some ''think_tags'' then
                           c\<lparr>cv_content := cv_content c @
                               [py_str (jget_default item ''start_tag'' (JStr ''<think>'')) @ text @
                                py_str (jget_default item ''end_tag'' (JStr ''</think>''))]\<rparr>
                         else if co_reasoning_format opt \<in> {Some ''thinking'', Some ''reasoning_content''} then
                           c\<lparr>cv_reasoning := cv_reasoning c @ [text]\<rparr>
                         else c)
               in Inr (c1\<lparr>cv_reasoning_details := cv_reasoning_details c1 @ details\<rparr>))))"

definition tagged_block :: "string \<Rightarrow> json \<Rightarrow> string" where
  "tagged_block tag v =
     ''<'' @ tag @ ''>'' @ newline @ py_str v @ newline @ ''</'' @ tag @ ''>''"

definition convert_code_interpreter :: "json dict \<Rightarrow> conversion \<Rightarrow> conversion" where
  "convert_code_interpreter item c =
     (let code = jget_default item ''code'' (JStr []);
          code_output = jget_default item ''output'' (JStr []);
          c1 = (if truthy code then c\<lparr>cv_content := cv_content c @ [tagged_block ''code_interpreter'' code]\<rparr> else c);
          output_text = (case code_output of
            JObj d \<Rightarrow> jor (jget_default d ''stdout'' (JStr [])) (jget_default d ''result'' (JStr []))
          | _ \<Rightarrow> JStr (py_str code_output))
      in if truthy code_output \<and> truthy output_text
         then c1\<lparr>cv_content := cv_content c1 @ [tagged_block ''code_interpreter_output'' output_text]\<rparr>
         else c1)"

definition convert_item ::
  "(json \<Rightarrow> string) \<Rightarrow> convert_options \<Rightarrow> json list \<Rightarrow> json dict \<Rightarrow> conversion \<Rightarrow> conversion result" where
  "convert_item dumps opt call_ids item c =
     (let item_type = jget_default item ''type'' (JStr [])
      in bind_result (if item_type \<noteq> JStr ''function_call_output''
                      then map_sum id flush_tool_images (flush_tool_outputs opt c) else Inr c) (\<lambda>c.
         if item_type = JStr ''message'' then convert_message item c
         else if item_type = JStr ''function_call'' then convert_function_call dumps call_ids item c
         else if item_type = JStr ''function_call_output'' then convert_function_call_output call_ids item c
         else if item_type = JStr ''reasoning'' then convert_reasoning opt item c
         else if item_type = JStr ''open_webui:code_interpreter'' then Inr (convert_code_interpreter item c)
         else if is_str item_type then Inr c
         else Inl AttributeError))"

definition convert_items ::
  "(json \<Rightarrow> string) \<Rightarrow> convert_options \<Rightarrow> json list \<Rightarrow> conversion result" where
  "convert_items dumps opt items =
     bind_result (function_call_ids items) (\<lambda>call_ids.
     bind_result (fold_result (convert_item dumps opt call_ids) (map dict_of items) empty_conversion) (\<lambda>c.
     bind_result (flush_tool_outputs opt c) (\<lambda>c.
       Inr (flush_pending opt (flush_tool_images c)))))"

definition convert_output_to_messages ::
  "(json \<Rightarrow> string) \<Rightarrow> convert_options \<Rightarrow> json \<Rightarrow> message list result" where
  "convert_output_to_messages dumps opt output =
     (case output of
        JList items \<Rightarrow>
          if items = [] then Inr []
          else bind_result (convert_items dumps opt items) (\<lambda>c. reconcile_tool_pairs (cv_messages c))
      | _ \<Rightarrow> Inr [])"

end
