(* ===== verification/MessageProps.thy ===== *)
theory MessageProps
  imports ToolMessages
begin

text \<open>
  Properties of the message helpers: conversations are well paired after reconciliation, the
  chain and the fork of a branch, system messages, the filter lists.
\<close>

subsection \<open>Well-paired conversations\<close>

definition call_ids_of :: "message \<Rightarrow> json list" where
  "call_ids_of m = map (\<lambda>tc. jget (dict_of tc) ''id'') (list_of (jget m ''tool_calls''))"

definition result_id :: "message \<Rightarrow> json" where
  "result_id m = jget m ''tool_call_id''"

text \<open>
  Every assistant message with tool calls is followed by tool messages that answer all its
  calls and nothing else, and no tool message stands elsewhere.
\<close>

function well_paired :: "message list \<Rightarrow> bool" where
  "well_paired [] \<longleftrightarrow> True"
| "well_paired (m # ms) \<longleftrightarrow>
     (if calls_tools m then
        (let block = takeWhile (role_is ''tool'') ms
         in list_all is_dict (list_of (jget m ''tool_calls'')) \<and>
            (\<exists>tcs. jget m ''tool_calls'' = JList tcs) \<and>
            set (call_ids_of m) = set (map result_id block) \<and>
            list_all (\<lambda>i. truthy i \<and> hashable i) (call_ids_of m) \<and>
            well_paired (dropWhile (role_is ''tool'') ms))
      else \<not> role_is ''tool'' m \<and> well_paired ms)"
  by pat_completeness auto
termination
  by (relation "measure length") (simp_all add: le_imp_less_Suc length_dropWhile_le)

declare well_paired.simps(2) [simp del] get_paired_tool_call_ids.simps(2) [simp del]

lemma role_is_update [simp]: "k \<noteq> ''role'' \<Longrightarrow> role_is r (AList.update k v m) = role_is r m"
  by (simp add: role_is_def)

lemma roles_disjoint: "calls_tools m \<Longrightarrow> \<not> role_is ''tool'' m"
  by (auto simp: calls_tools_def role_is_def)

lemma map_result_append:
  "map_result f (xs @ ys) =
     bind_result (map_result f xs) (\<lambda>us. bind_result (map_result f ys) (\<lambda>vs. Inr (us @ vs)))"
  by (induction xs) (auto simp: bind_result_def split: sum.splits)

text \<open>The loop, block by block.\<close>

definition reconcile_zip :: "message list \<Rightarrow> json list list \<Rightarrow> message list result" where
  "reconcile_zip ms ids = map_sum id concat (map_result (\<lambda>(m, ids). reconcile_message m ids) (zip ms ids))"

lemma reconcile_zip_append:
  "length ms = length ids \<Longrightarrow> reconcile_zip (ms @ ms') (ids @ ids') =
     bind_result (reconcile_zip ms ids) (\<lambda>a. bind_result (reconcile_zip ms' ids') (\<lambda>b. Inr (a @ b)))"
  by (simp add: reconcile_zip_def map_result_append)
     (auto simp: bind_result_def split: sum.splits)

lemma reconcile_zip_simps [simp]:
  "reconcile_zip [] [] = Inr []"
  "reconcile_zip (m # ms) (i # ids) =
     bind_result (reconcile_message m i) (\<lambda>a. bind_result (reconcile_zip ms ids) (\<lambda>b. Inr (a @ b)))"
  by (simp_all add: reconcile_zip_def) (auto simp: bind_result_def split: sum.splits)

lemma in_set_Inr [simp]: "in_set x ids = Inr b \<longleftrightarrow> hashable x \<and> b = (x \<in> set ids)"
  by (auto simp: in_set_def)

lemma map_sum_Inr [simp]: "map_sum id f r = Inr y \<longleftrightarrow> (\<exists>x. r = Inr x \<and> y = f x)"
  by (cases r) auto

lemma reconcile_as_zip: "reconcile_tool_pairs ms = Inr out \<longleftrightarrow>
    (\<exists>ids. get_paired_tool_call_ids ms = Inr ids \<and> reconcile_zip ms ids = Inr out)"
  unfolding reconcile_tool_pairs_def bind_result_Inr reconcile_zip_def ..

lemma reconcile_Nil [simp]: "reconcile_tool_pairs [] = Inr []"
  by (simp add: reconcile_tool_pairs_def)

lemma reconcile_plain:
  assumes "\<not> calls_tools m"
  shows "reconcile_tool_pairs (m # ms) = Inr out \<longleftrightarrow>
    (\<exists>rest. reconcile_tool_pairs ms = Inr rest \<and> (role_is ''tool'' m \<longrightarrow> hashable (result_id m)) \<and>
       out = (if role_is ''tool'' m then rest else m # rest))"
proof -
  have "reconcile_message m [] = Inr h \<longleftrightarrow>
      (role_is ''tool'' m \<longrightarrow> hashable (result_id m)) \<and> h = (if role_is ''tool'' m then [] else [m])" for h
    using assms by (auto simp: reconcile_message_def in_set_def result_id_def)
  then show ?thesis
    using assms by (auto simp: reconcile_as_zip get_paired_tool_call_ids.simps(2) bind_result_Inr)
qed

lemma reconcile_zip_block:
  assumes "\<And>t. t \<in> set block \<Longrightarrow> role_is ''tool'' t \<and> hashable (result_id t)"
  shows "reconcile_zip block (replicate (length block) paired) =
    Inr (filter (\<lambda>t. result_id t \<in> set paired) block)"
  using assms
proof (induction block)
  case (Cons t block)
  then have "reconcile_message t paired = Inr (if result_id t \<in> set paired then [t] else [])"
    using roles_disjoint [of t] by (auto simp: reconcile_message_def in_set_def result_id_def)
  with Cons show ?case by simp
qed simp

lemma map_result_length: "map_result f xs = Inr ys \<Longrightarrow> length ys = length xs"
  by (induction xs arbitrary: ys) (auto simp: bind_result_Inr)

lemma completed_ids_Inr: "completed_ids block = Inr ids \<longleftrightarrow>
    (\<forall>t \<in> set block. hashable (result_id t)) \<and> ids = map result_id block"
  unfolding completed_ids_def Let_def result_id_def
  by (induction block arbitrary: ids) (auto simp: bind_result_Inr)

lemma requested_ids_Inr: "requested_ids tcs = Inr ids \<longleftrightarrow>
    list_all is_dict tcs \<and> ids = filter truthy (map (\<lambda>tc. jget (dict_of tc) ''id'') tcs) \<and>
    (\<forall>i \<in> set ids. hashable i)"
proof (induction tcs arbitrary: ids)
  case (Cons tc tcs)
  then show ?case by (cases tc) (auto simp: bind_result_Inr)
qed auto

lemma requested_strings: "requested_ids (JStr s # xs) \<noteq> Inr ids"
  by simp

lemma block_ids_Inr:
  assumes "calls_tools m"
  shows "block_ids m block = Inr paired \<longleftrightarrow>
    (\<exists>tcs. jget m ''tool_calls'' = JList tcs \<and> list_all is_dict tcs \<and>
       (\<forall>i \<in> set (call_ids_of m). truthy i \<longrightarrow> hashable i)) \<and>
    (\<forall>t \<in> set block. hashable (result_id t)) \<and>
    paired = filter (\<lambda>i. truthy i \<and> i \<in> result_id ` set block) (call_ids_of m)"
proof (cases "jget m ''tool_calls''")
  case (JList tcs)
  then show ?thesis
    by (auto simp: block_ids_def bind_result_Inr requested_ids_Inr completed_ids_Inr call_ids_of_def)
next
  case (JStr s)
  with assms obtain c s' where "s = c # s'" by (cases s) (auto simp: calls_tools_def)
  with JStr show ?thesis by (simp add: block_ids_def)
next
  case (JObj d)
  with assms obtain k v d' where "d = (k, v) # d'" by (cases d) (auto simp: calls_tools_def)
  with JObj show ?thesis by (simp add: block_ids_def)
qed (simp_all add: block_ids_def)

lemma reconcile_block:
  assumes "calls_tools m" and block: "block = takeWhile (role_is ''tool'') ms"
  shows "reconcile_tool_pairs (m # ms) = Inr out \<longleftrightarrow>
    (\<exists>paired rest h. block_ids m block = Inr paired \<and>
       reconcile_tool_pairs (dropWhile (role_is ''tool'') ms) = Inr rest \<and>
       reconcile_message m paired = Inr h \<and>
       out = h @ filter (\<lambda>t. result_id t \<in> set paired) block @ rest)"
proof -
  have split: "m # ms = (m # block) @ dropWhile (role_is ''tool'') ms"
    by (simp add: block)
  have zip: "reconcile_zip (m # ms) (replicate (Suc (length block)) paired @ ids) = Inr out \<longleftrightarrow>
      (\<exists>h rest. reconcile_message m paired = Inr h \<and>
         reconcile_zip (dropWhile (role_is ''tool'') ms) ids = Inr rest \<and>
         out = h @ filter (\<lambda>t. result_id t \<in> set paired) block @ rest)"
    if "block_ids m block = Inr paired" for paired ids
  proof -
    have "role_is ''tool'' t \<and> hashable (result_id t)" if "t \<in> set block" for t
      using that \<open>block_ids m block = Inr paired\<close> set_takeWhileD [of t "role_is ''tool''" ms]
      by (auto simp: block_ids_Inr [OF assms(1)] block)
    from reconcile_zip_block [OF this] show ?thesis
      unfolding split by (subst reconcile_zip_append) (auto simp: bind_result_Inr)
  qed
  show ?thesis
    unfolding reconcile_as_zip get_paired_tool_call_ids.simps(2) Let_def block [symmetric]
    using assms(1) zip by (auto simp: bind_result_Inr simp del: reconcile_zip_simps replicate.simps)
qed

lemma filter_result_Inr: "filter_result P xs = Inr ys \<longleftrightarrow>
    (\<forall>x \<in> set xs. \<exists>b. P x = Inr b) \<and> ys = filter (\<lambda>x. P x = Inr True) xs"
proof (induction xs arbitrary: ys)
  case (Cons x xs)
  show ?case
  proof (cases "P x")
    case (Inr b)
    then show ?thesis by (cases b) (auto simp: bind_result_Inr Cons)
  qed simp
qed auto

lemma attr_get_dict: "is_dict v \<Longrightarrow> attr_get v k = Inr (jget (dict_of v) k)"
  by (cases v) auto

lemma valid_calls_Inr:
  assumes "jget m ''tool_calls'' = JList tcs" and "list_all is_dict tcs"
  shows "valid_calls paired m = Inr vs \<longleftrightarrow>
    (\<forall>i \<in> set (call_ids_of m). hashable i) \<and> vs = filter (\<lambda>tc. jget (dict_of tc) ''id'' \<in> set paired) tcs"
proof -
  have "(bind_result (attr_get tc ''id'') (\<lambda>i. in_set i paired) = Inr b) \<longleftrightarrow>
      hashable (jget (dict_of tc) ''id'') \<and> b = (jget (dict_of tc) ''id'' \<in> set paired)" if "tc \<in> set tcs" for tc b
    using assms(2) that by (simp add: list_all_iff attr_get_dict)
  then show ?thesis
    by (auto simp: valid_calls_def assms(1) filter_result_Inr call_ids_of_def intro!: filter_cong)
qed

lemma reconcile_head:
  assumes m: "calls_tools m" and b: "block_ids m block = Inr paired" and h: "reconcile_message m paired = Inr h"
  obtains (kept) m' where "h = [m']" "calls_tools m'" "set (call_ids_of m') = set paired"
      "list_all is_dict (list_of (jget m' ''tool_calls''))" "\<exists>tcs. jget m' ''tool_calls'' = JList tcs"
  | (stripped) "paired = []" "\<forall>m' \<in> set h. \<not> calls_tools m' \<and> \<not> role_is ''tool'' m'"
proof -
  obtain tcs where tcs: "jget m ''tool_calls'' = JList tcs" "list_all is_dict tcs"
    and paired: "set paired \<subseteq> set (call_ids_of m)"
    using b by (auto simp: block_ids_Inr [OF m])
  from h m roles_disjoint [OF m] obtain vs where vs: "valid_calls paired m = Inr vs"
    and h': "h = (if vs \<noteq> [] then [AList.update ''tool_calls'' (JList vs) m]
      else if has_meaningful_content m \<or> truthy (jget m ''reasoning_content'')
      then [AList.delete ''tool_calls'' m] else [])"
    by (auto simp: reconcile_message_def bind_result_Inr)
  from vs have vs': "vs = filter (\<lambda>tc. jget (dict_of tc) ''id'' \<in> set paired) tcs"
    by (simp add: valid_calls_Inr [OF tcs])
  have ids: "(\<lambda>tc. jget (dict_of tc) ''id'') ` set vs = set paired"
    using paired tcs(1) by (auto simp: vs' call_ids_of_def)
  show ?thesis
  proof (cases "vs = []")
    case True
    with ids have "paired = []" by simp
    moreover have "\<not> calls_tools (AList.delete ''tool_calls'' m)" "\<not> role_is ''tool'' (AList.delete ''tool_calls'' m)"
      using roles_disjoint [OF m] by (simp_all add: calls_tools_def role_is_def)
    ultimately show ?thesis using stripped True by (simp add: h')
  next
    case False
    let ?m = "AList.update ''tool_calls'' (JList vs) m"
    have "calls_tools ?m" using m False by (simp add: calls_tools_def)
    moreover have "set (call_ids_of ?m) = set paired" using ids by (simp add: call_ids_of_def)
    moreover have "list_all is_dict vs" using tcs(2) by (auto simp: vs' list_all_iff)
    ultimately show ?thesis using kept [of ?m] False by (simp add: h')
  qed
qed

lemma well_paired_head: "well_paired r \<Longrightarrow> takeWhile (role_is ''tool'') r = [] \<and> dropWhile (role_is ''tool'') r = r"
  using roles_disjoint by (cases r) (auto simp: well_paired.simps(2) split: if_splits)

lemma well_paired_block:
  assumes "calls_tools m'" "set (call_ids_of m') = set paired" "list_all is_dict (list_of (jget m' ''tool_calls''))"
    and "\<exists>tcs. jget m' ''tool_calls'' = JList tcs" and "\<forall>i \<in> set paired. truthy i \<and> hashable i"
    and "\<forall>t \<in> set block. role_is ''tool'' t" and "set paired \<subseteq> result_id ` set block" and "well_paired r"
  shows "well_paired (m' # filter (\<lambda>t. result_id t \<in> set paired) block @ r)"
proof -
  let ?kept = "filter (\<lambda>t. result_id t \<in> set paired) block"
  have "takeWhile (role_is ''tool'') (?kept @ r) = ?kept" "dropWhile (role_is ''tool'') (?kept @ r) = r"
    using assms(6) well_paired_head [OF assms(8)] by (simp_all add: takeWhile_append dropWhile_append)
  moreover have "set (map result_id ?kept) = set paired" using assms(7) by auto
  ultimately show ?thesis
    using assms by (simp add: well_paired.simps(2) Let_def list_all_iff)
qed

lemma reconcile_well_paired: "reconcile_tool_pairs ms = Inr out \<Longrightarrow> well_paired out"
proof (induction ms arbitrary: out rule: get_paired_tool_call_ids.induct)
  case 1
  then show ?case by simp
next
  case (2 m ms)
  show ?case
  proof (cases "calls_tools m")
    case False
    with 2 show ?thesis by (auto simp: reconcile_plain well_paired.simps(2) split: if_splits)
  next
    case True
    let ?block = "takeWhile (role_is ''tool'') ms"
    from 2(3) obtain paired rest h where b: "block_ids m ?block = Inr paired"
      and rest: "reconcile_tool_pairs (dropWhile (role_is ''tool'') ms) = Inr rest"
      and h: "reconcile_message m paired = Inr h"
      and out: "out = h @ filter (\<lambda>t. result_id t \<in> set paired) ?block @ rest"
      by (auto simp: reconcile_block [OF True refl])
    have wp: "well_paired rest" by (rule 2(1) [OF True refl b rest])
    from True b h show ?thesis
    proof (cases rule: reconcile_head)
      case (kept m')
      have p: "set paired \<subseteq> result_id ` set ?block" "\<forall>i \<in> set paired. truthy i \<and> hashable i"
        using b by (auto simp: block_ids_Inr [OF True])
      have "\<forall>t \<in> set ?block. role_is ''tool'' t" by (auto dest: set_takeWhileD)
      from well_paired_block [OF kept(2-5) p(2) this p(1) wp] show ?thesis
        by (simp add: out kept(1))
    next
      case stripped
      have "length h \<le> 1"
        using h by (auto simp: reconcile_message_def bind_result_Inr split: if_splits)
      then have "h = [] \<or> (\<exists>x. h = [x])" by (cases h) auto
      with stripped wp show ?thesis by (auto simp: out well_paired.simps(2))
    qed
  qed
qed

lemma well_paired_unchanged:
  "well_paired ms \<Longrightarrow> reconcile_tool_pairs ms = Inr ms"
proof (induction ms rule: well_paired.induct)
  case 1
  then show ?case by simp
next
  case (2 m ms)
  show ?case
  proof (cases "calls_tools m")
    case False
    with 2 show ?thesis by (auto simp: reconcile_plain well_paired.simps(2))
  next
    case True
    let ?block = "takeWhile (role_is ''tool'') ms"
    from 2(3) True obtain tcs where tcs: "jget m ''tool_calls'' = JList tcs" "list_all is_dict tcs"
      and ids: "set (call_ids_of m) = result_id ` set ?block"
      and ok: "\<forall>i \<in> set (call_ids_of m). truthy i \<and> hashable i"
      and rest: "well_paired (dropWhile (role_is ''tool'') ms)"
      by (auto simp: well_paired.simps(2) Let_def list_all_iff)
    have r: "reconcile_tool_pairs (dropWhile (role_is ''tool'') ms) = Inr (dropWhile (role_is ''tool'') ms)"
      using 2 True rest by simp
    have paired: "filter (\<lambda>i. truthy i \<and> i \<in> result_id ` set ?block) (call_ids_of m) = call_ids_of m"
      using ids ok by (intro filter_True) auto
    have b: "block_ids m ?block = Inr (call_ids_of m)"
      unfolding block_ids_Inr [OF True] paired using tcs ok ids by auto
    have "filter (\<lambda>tc. jget (dict_of tc) ''id'' \<in> set (call_ids_of m)) tcs = tcs"
      by (intro filter_True) (simp add: call_ids_of_def tcs(1))
    then have v: "valid_calls (call_ids_of m) m = Inr tcs"
      using ok by (simp add: valid_calls_Inr [OF tcs])
    have "map_of m ''tool_calls'' = Some (JList tcs)"
      using tcs(1) by (auto simp: jget_def split: option.splits)
    then have "AList.update ''tool_calls'' (JList tcs) m = m"
      by (rule AList.update_triv)
    moreover have "tcs \<noteq> []" using True tcs(1) by (auto simp: calls_tools_def)
    ultimately have h: "reconcile_message m (call_ids_of m) = Inr [m]"
      using True roles_disjoint [OF True] by (simp add: reconcile_message_def v)
    have "filter (\<lambda>t. result_id t \<in> set (call_ids_of m)) ?block = ?block"
      using ids by (intro filter_True) auto
    then show ?thesis
      unfolding reconcile_block [OF True refl] using b r h by force
  qed
qed

subsection \<open>A stored turn with tool calls\<close>

text \<open>
  The items a completed turn leaves in storage. Every item also carries an \<open>id\<close> and may carry
  other fields (a role, a status, files, embeds), so only the fields below are fixed. A text is
  stored in parts; a call is its identifier, name and arguments, which are those of the
  \<open>provider_function\<close> when the call was redirected to another tool; a result is the identifier of
  its call and its text, in parts.
\<close>

type_synonym tool_call = "string \<times> string \<times> string"

definition stores_part :: "string \<Rightarrow> string \<Rightarrow> json \<Rightarrow> bool" where
  "stores_part part_type t part \<longleftrightarrow>
     is_dict part \<and> jget (dict_of part) ''type'' = JStr part_type \<and> jget (dict_of part) ''text'' = JStr t"

definition stores_text :: "string \<Rightarrow> json \<Rightarrow> bool" where
  "stores_text t item \<longleftrightarrow>
     is_dict item \<and> jget (dict_of item) ''type'' = JStr ''message'' \<and>
     (\<exists>ts parts. jget (dict_of item) ''content'' = JList parts \<and>
        list_all2 (stores_part ''output_text'') ts parts \<and> t = concat ts)"

definition stores_call :: "tool_call \<Rightarrow> json \<Rightarrow> bool" where
  "stores_call = (\<lambda>(c, n, a) item.
     is_dict item \<and> jget (dict_of item) ''type'' = JStr ''function_call'' \<and>
     jget (dict_of item) ''call_id'' = JStr c \<and>
     jget (dict_of item) ''status'' \<in> {JStr ''completed'', JStr ''failed'', JStr ''rejected''} \<and>
     (let f = (if is_dict (jget (dict_of item) ''provider_function'')
               then dict_of (jget (dict_of item) ''provider_function'') else dict_of item)
      in jget f ''name'' = JStr n \<and> jget f ''arguments'' = JStr a))"

definition stores_result :: "string \<times> string \<Rightarrow> json \<Rightarrow> bool" where
  "stores_result = (\<lambda>(c, r) item.
     is_dict item \<and> jget (dict_of item) ''type'' = JStr ''function_call_output'' \<and>
     jget (dict_of item) ''call_id'' = JStr c \<and>
     (\<exists>ts parts. jget (dict_of item) ''output'' = JList parts \<and>
        list_all2 (stores_part ''input_text'') ts parts \<and> r = concat ts))"

definition tool_call_json :: "tool_call \<Rightarrow> json" where
  "tool_call_json = (\<lambda>(c, n, a). JObj [(''id'', JStr c), (''type'', JStr ''function''),
     (''function'', JObj [(''name'', JStr n), (''arguments'', JStr a)])])"

definition tool_result_json :: "string \<times> string \<Rightarrow> message" where
  "tool_result_json = (\<lambda>(c, r).
     [(''role'', JStr ''tool''), (''tool_call_id'', JStr c), (''content'', JStr r)])"

lemma jget_Some: "jget d k = v \<Longrightarrow> v \<noteq> JNull \<Longrightarrow> jget_default d k v0 = v"
  by (auto simp: jget_def jget_default_def split: option.splits)

lemma is_dict_iff: "is_dict j \<longleftrightarrow> (\<exists>d. j = JObj d)"
  by (cases j) auto

text \<open>The reading of an item, in the terms the conversion reads it.\<close>

lemma stores_callD:
  assumes "stores_call (c, n, a) item"
  shows "\<exists>d. item = JObj d \<and> jget d ''type'' = JStr ''function_call'' \<and> jget d ''call_id'' = JStr c \<and>
    jget d ''status'' \<in> {JStr ''completed'', JStr ''failed'', JStr ''rejected''} \<and>
    get_provider_function dumps d = JObj [(''name'', JStr n), (''arguments'', JStr a)]"
  using assms
  by (auto simp: stores_call_def get_provider_function_def Let_def is_dict_iff jget_Some
      split: if_splits json.splits)

lemma stored_parts:
  assumes "list_all2 (stores_part ''input_text'') ts parts"
  shows "output_parts parts (t, us) = Inr (t @ concat ts, us)"
  using assms
  by (induction ts parts arbitrary: t rule: list_all2_induct)
    (auto simp: stores_part_def is_dict_iff jget_Some)

lemma stored_text:
  assumes "list_all2 (stores_part ''output_text'') ts parts"
  shows "collect_text (\<lambda>p. jget p ''type'' = JStr ''output_text'') parts = Inr (concat ts)"
  using assms
  by (induction ts parts rule: list_all2_induct) (auto simp: stores_part_def is_dict_iff jget_Some)

lemma stores_resultD:
  assumes "stores_result (c, r) item"
  shows "\<exists>d parts. item = JObj d \<and> jget d ''type'' = JStr ''function_call_output'' \<and>
    jget d ''call_id'' = JStr c \<and> jget d ''output'' = JList parts \<and>
    output_parts parts ([], []) = Inr (r, [])"
  using assms stored_parts [of _ _ "[]" "[]"]
  by (auto simp: stores_result_def is_dict_iff)

lemma fold_result_append:
  "fold_result f (xs @ ys) s = bind_result (fold_result f xs s) (fold_result f ys)"
  by (induction xs arbitrary: s) (auto simp: bind_result_def split: sum.splits)

lemma calls_completed:
  assumes "list_all2 stores_call cs items" and "\<forall>c \<in> set cs. fst c \<noteq> []"
  shows "completed_call_ids (items @ ys) =
      map_sum id ((@) (map (JStr \<circ> fst) cs)) (completed_call_ids ys)"
    and "result_call_ids (map dict_of items @ zs) = result_call_ids zs"
  using assms
proof (induction cs items rule: list_all2_induct)
  case (Cons c cs item items)
  obtain i n a where c: "c = (i, n, a)" by (cases c)
  obtain d where d: "item = JObj d" "jget d ''type'' = JStr ''function_call''"
    "jget d ''call_id'' = JStr i" "jget d ''status'' \<in> {JStr ''completed'', JStr ''failed'', JStr ''rejected''}"
    using stores_callD [OF Cons.hyps(1) [unfolded c]] by auto
  {
    case 1
    with Cons d c show ?case by (cases "completed_call_ids ys") (auto simp: in_set_def)
  next
    case 2
    with Cons d show ?case by simp
  }
next
  case Nil
  {
    case 1
    show ?case by (cases "completed_call_ids ys") simp_all
  next
    case 2
    show ?case by simp
  }
qed

lemma results_completed:
  assumes "list_all2 stores_result rs items" and "\<forall>r \<in> set rs. fst r \<noteq> []"
  shows "completed_call_ids items = Inr []"
    and "result_call_ids (map dict_of items) = Inr (map (JStr \<circ> fst) rs)"
  using assms
proof (induction rs items rule: list_all2_induct)
  case (Cons r rs item items)
  obtain i t where r: "r = (i, t)" by (cases r)
  obtain d where d: "item = JObj d" "jget d ''type'' = JStr ''function_call_output''"
    "jget d ''call_id'' = JStr i"
    using stores_resultD [OF Cons.hyps(1) [unfolded r]] by auto
  {
    case 1
    with Cons d show ?case by simp
  next
    case 2
    with Cons d r show ?case by simp
  }
qed simp_all

lemma turn_call_ids:
  assumes "stores_text t ti" and "list_all2 stores_call cs ci" and "list_all2 stores_result rs ri"
    and "\<forall>c \<in> set cs. fst c \<noteq> []" and ids: "fst ` set rs = fst ` set cs"
  shows "function_call_ids (ti # ci @ ri) = Inr (map (JStr \<circ> fst) cs)"
proof -
  obtain d where d: "ti = JObj d" "jget d ''type'' = JStr ''message''"
    using assms(1) by (auto simp: stores_text_def is_dict_iff)
  have "\<forall>r \<in> set rs. fst r \<noteq> []" using assms(4) ids by (metis image_iff)
  note r = results_completed [OF assms(3) this]
  have "filter (\<lambda>i. i \<in> set (map (JStr \<circ> fst) rs)) (map (JStr \<circ> fst) cs) = map (JStr \<circ> fst) cs"
    using ids by (intro filter_True) (auto simp: image_iff)
  with r calls_completed [OF assms(2,4)] d show ?thesis
    by (simp add: function_call_ids_def)
qed

lemma convert_calls:
  assumes "list_all2 stores_call cs items" and "\<forall>c \<in> set cs. JStr (fst c) \<in> set ids"
    and "cv_tool_outputs s = []" and "cv_image_urls s = []"
  shows "fold_result (convert_item dumps opt ids) (map dict_of items) s =
    Inr (s\<lparr>cv_tool_calls := cv_tool_calls s @ map tool_call_json cs\<rparr>)"
  using assms
proof (induction cs items arbitrary: s rule: list_all2_induct)
  case (Cons c cs item items)
  obtain i n a where c: "c = (i, n, a)" by (cases c)
  obtain d where d: "item = JObj d" "jget d ''type'' = JStr ''function_call''"
    "jget d ''call_id'' = JStr i"
    "get_provider_function dumps d = JObj [(''name'', JStr n), (''arguments'', JStr a)]"
    using stores_callD [OF Cons.hyps(1) [unfolded c], of dumps] by auto
  then have "convert_item dumps opt ids (dict_of item) s =
      Inr (s\<lparr>cv_tool_calls := cv_tool_calls s @ [tool_call_json c]\<rparr>)"
    using Cons.prems
    by (auto simp: c convert_item_def flush_tool_outputs_def flush_tool_images_def in_set_def
        convert_function_call_def tool_call_json_def jget_Some)
  then show ?case using Cons by simp
qed simp

lemma convert_results:
  assumes "list_all2 stores_result rs items" and "\<forall>r \<in> set rs. JStr (fst r) \<in> set ids"
  shows "fold_result (convert_item dumps opt ids) (map dict_of items) s =
    Inr (s\<lparr>cv_tool_outputs := cv_tool_outputs s @ map dict_of items\<rparr>)"
  using assms
proof (induction rs items arbitrary: s rule: list_all2_induct)
  case (Cons r rs item items)
  obtain i t where r: "r = (i, t)" by (cases r)
  obtain d where d: "item = JObj d" "jget d ''type'' = JStr ''function_call_output''"
    "jget d ''call_id'' = JStr i"
    using stores_resultD [OF Cons.hyps(1) [unfolded r]] by auto
  then have "convert_item dumps opt ids (dict_of item) s =
      Inr (s\<lparr>cv_tool_outputs := cv_tool_outputs s @ [dict_of item]\<rparr>)"
    using Cons.prems
    by (auto simp: r convert_item_def in_set_def convert_function_call_output_def jget_Some)
  then show ?case using Cons by simp
qed simp

lemma flush_results:
  assumes "list_all2 stores_result rs items"
  shows "fold_result (flush_tool_output opt) (map dict_of items) s =
     Inr (s\<lparr>cv_messages := cv_messages s @ map tool_result_json rs\<rparr>)"
  using assms
proof (induction rs items arbitrary: s rule: list_all2_induct)
  case (Cons r rs item items)
  obtain i t where r: "r = (i, t)" by (cases r)
  obtain d parts where d: "item = JObj d" "jget d ''call_id'' = JStr i"
    "jget d ''output'' = JList parts" "output_parts parts ([], []) = Inr (t, [])"
    using stores_resultD [OF Cons.hyps(1) [unfolded r]] by auto
  then have "flush_tool_output opt (dict_of item) s =
      Inr (s\<lparr>cv_messages := cv_messages s @ [tool_result_json r]\<rparr>)"
    by (simp add: r flush_tool_output_def tool_result_json_def tool_message_def jget_Some)
  then show ?case using Cons by simp
qed simp

definition turn_messages :: "string \<Rightarrow> tool_call list \<Rightarrow> (string \<times> string) list \<Rightarrow> message list" where
  "turn_messages t cs rs =
     [(''role'', JStr ''assistant''), (''content'', JStr t), (''tool_calls'', JList (map tool_call_json cs))]
       # map tool_result_json rs"

lemma convert_turn:
  assumes "stores_text t ti" and "list_all2 stores_call cs ci" and "list_all2 stores_result rs ri"
    and "cs \<noteq> []" and "\<forall>c \<in> set cs. fst c \<noteq> []" and ids: "fst ` set rs = fst ` set cs"
  shows "\<exists>c. convert_items dumps opt (ti # ci @ ri) = Inr c \<and> cv_messages c = turn_messages t cs rs"
proof -
  let ?ids = "map (JStr \<circ> fst) cs"
  have "ri \<noteq> []" using assms(3,4) ids by auto
  define s1 where "s1 = empty_conversion\<lparr>cv_content := (if t = [] then [] else [t])\<rparr>"
  have s1: "convert_item dumps opt ?ids (dict_of ti) empty_conversion = Inr s1"
    using assms(1) stored_text
    by (auto simp: convert_item_def stores_text_def is_dict_iff flush_tool_outputs_def
        flush_tool_images_def empty_conversion_def convert_message_def s1_def jget_Some)
  define s2 where "s2 = s1\<lparr>cv_tool_calls := map tool_call_json cs\<rparr>"
  have s2: "fold_result (convert_item dumps opt ?ids) (map dict_of ci) s1 = Inr s2"
    using convert_calls [OF assms(2), of ?ids s1 dumps opt] by (simp add: s1_def s2_def empty_conversion_def)
  define s3 where "s3 = s2\<lparr>cv_tool_outputs := map dict_of ri\<rparr>"
  have "\<forall>r \<in> set rs. JStr (fst r) \<in> set ?ids" using ids by auto
  then have s3: "fold_result (convert_item dumps opt ?ids) (map dict_of ri) s2 = Inr s3"
    using convert_results [OF assms(3), of ?ids dumps opt s2] by (simp add: s1_def s2_def s3_def empty_conversion_def)
  have out: "flush_tool_outputs opt s3 =
      Inr (s3\<lparr>cv_messages := turn_messages t cs rs, cv_content := [], cv_tool_calls := [], cv_reasoning := [],
        cv_reasoning_details := [], cv_tool_outputs := []\<rparr>)"
    using assms(4) \<open>ri \<noteq> []\<close> flush_results [OF assms(3), of opt]
    by (simp add: flush_tool_outputs_def flush_pending_def s3_def s2_def s1_def empty_conversion_def
        pending_message_def turn_messages_def)
  have call_ids: "function_call_ids (ti # ci @ ri) = Inr ?ids"
    by (rule turn_call_ids) (fact assms)+
  have items: "fold_result (convert_item dumps opt ?ids) (map dict_of (ti # ci @ ri)) empty_conversion = Inr s3"
    by (simp add: fold_result_append s1 s2 s3)
  then show ?thesis
    unfolding convert_items_def call_ids bind_result_simps items out
    by (simp add: flush_tool_images_def flush_pending_def s3_def s2_def s1_def empty_conversion_def)
qed

lemma turn_well_paired:
  assumes "cs \<noteq> []" and "\<forall>c \<in> set cs. fst c \<noteq> []" and ids: "fst ` set rs = fst ` set cs"
  shows "well_paired (turn_messages t cs rs)"
proof -
  have tw: "takeWhile (role_is ''tool'') (map tool_result_json rs) = map tool_result_json rs"
    by (simp add: takeWhile_eq_all_conv) (auto simp: role_is_def tool_result_json_def)
  then have dw: "dropWhile (role_is ''tool'') (map tool_result_json rs) = []"
    by (metis append_self_conv takeWhile_dropWhile_id)
  let ?m = "[(''role'', JStr ''assistant''), (''content'', JStr t), (''tool_calls'', JList (map tool_call_json cs))]"
  have "calls_tools ?m"
    using assms(1) by (simp add: calls_tools_def role_is_def)
  moreover have "call_ids_of ?m = map (JStr \<circ> fst) cs"
    by (auto simp: call_ids_of_def tool_call_json_def)
  moreover have "result_id ` tool_result_json ` set rs = JStr ` fst ` set rs"
    unfolding image_image by (intro image_cong) (auto simp: result_id_def tool_result_json_def)
  moreover have "list_all is_dict (map tool_call_json cs)"
    by (auto simp: tool_call_json_def list_all_iff)
  ultimately show ?thesis
    using assms(2) ids by (simp add: turn_messages_def well_paired.simps(2) tw dw list_all_iff image_image)
qed

subsection \<open>The chain of a message\<close>

definition parent_of :: "json dict \<Rightarrow> string \<Rightarrow> json" where
  "parent_of mm i = jget (dict_of (jget mm i)) ''parentId''"

definition messages_ok :: "json dict \<Rightarrow> bool" where
  "messages_ok mm \<longleftrightarrow> (\<forall>(i, v) \<in> set mm. is_dict v \<and> hashable (jget (dict_of v) ''parentId''))"

text \<open>A list of identifiers, from a message upwards, each the parent of the one before.\<close>

definition linked :: "json dict \<Rightarrow> string list \<Rightarrow> bool" where
  "linked mm ids \<longleftrightarrow> (\<forall>k. Suc k < length ids \<longrightarrow> parent_of mm (ids ! k) = JStr (ids ! Suc k))"

lemma linked_simps [simp]:
  "linked mm []" "linked mm [i]"
  "linked mm (i # j # ids) \<longleftrightarrow> parent_of mm i = JStr j \<and> linked mm (j # ids)"
  by (auto simp: linked_def nth_Cons split: nat.splits)

lemma linked_Cons: "linked mm (i # ids) \<longleftrightarrow> (ids \<noteq> [] \<longrightarrow> parent_of mm i = JStr (hd ids)) \<and> linked mm ids"
  by (cases ids) auto

text \<open>No message above the last identifier can be added: the parent is missing or already there.\<close>

definition ends_above :: "json dict \<Rightarrow> json set \<Rightarrow> string \<Rightarrow> bool" where
  "ends_above mm S i \<longleftrightarrow> \<not> truthy (parent_of mm i) \<or> parent_of mm i \<in> S \<or>
     (\<exists>v. get_message mm (parent_of mm i) = Inr v \<and> \<not> truthy v)"

lemma get_message_ok:
  assumes "messages_ok mm" and "truthy (jget mm s)"
  obtains m where "jget mm s = JObj m" "hashable (jget m ''parentId'')" "parent_of mm s = jget m ''parentId''"
proof -
  from assms(2) obtain v where "map_of mm s = Some v" by (auto dest: jget_truthy_dom)
  with assms(1) map_of_SomeD [OF this] that show ?thesis
    by (cases v) (auto simp: messages_ok_def jget_def parent_of_def)
qed

lemma message_chain_spec:
  "messages_ok mm \<Longrightarrow> current = JNull \<or> get_message mm i = Inr current \<Longrightarrow>
     \<exists>ids. message_chain mm visited i current = Inr (map (jget mm) ids) \<and> distinct ids \<and>
       JStr ` set ids \<inter> set visited = {} \<and> (ids = [] \<longleftrightarrow> \<not> truthy current \<or> i \<in> set visited) \<and>
       (ids \<noteq> [] \<longrightarrow> i = JStr (hd ids) \<and> ends_above mm (JStr ` set ids \<union> set visited) (last ids)) \<and> linked mm ids"
proof (induction mm visited i current rule: message_chain.induct)
  case (1 mm visited i current)
  show ?case
  proof (cases "\<not> truthy current \<or> i \<in> set visited")
    case True
    then show ?thesis by (subst message_chain.simps) (auto intro: exI [of _ "[]"])
  next
    case False
    from False 1(3) obtain s where s: "i = JStr s" "current = jget mm s"
      by (auto simp: get_message_def split: json.splits if_splits)
    with False get_message_ok [OF 1(2), of s] obtain m where m: "jget mm s = JObj m"
      "hashable (jget m ''parentId'')" "parent_of mm s = jget m ''parentId''" by auto
    let ?p = "parent_of mm s"
    have "hashable ?p" using m(2,3) by simp
    then have "\<exists>parent. (if truthy ?p then get_message mm ?p else Inr JNull) = Inr parent"
      by (cases ?p) (simp_all add: get_message_def)
    then obtain parent where parent: "(if truthy ?p then get_message mm ?p else Inr JNull) = Inr parent"
      by blast
    have step: "message_chain mm visited i current =
        bind_result (message_chain mm (i # visited) ?p parent) (\<lambda>rest. Inr (current # rest))"
      using False s m parent by (subst message_chain.simps) (auto simp: Let_def split: if_splits)
    have "parent = JNull \<or> get_message mm ?p = Inr parent"
      using parent by (auto split: if_splits)
    moreover have "current = JObj m" using s m by simp
    ultimately obtain ids where
      ids: "message_chain mm (i # visited) ?p parent = Inr (map (jget mm) ids)" "distinct ids"
        "JStr ` set ids \<inter> set (i # visited) = {}" "linked mm ids"
        "ids = [] \<longleftrightarrow> \<not> truthy parent \<or> ?p \<in> set (i # visited)"
        "ids \<noteq> [] \<longrightarrow> ?p = JStr (hd ids) \<and> ends_above mm (JStr ` set ids \<union> set (i # visited)) (last ids)"
      using 1(1) [OF False _ refl, of m parent, folded m(3), OF _ parent 1(2)] by blast
    have "ends_above mm (JStr ` set (s # ids) \<union> set visited) (last (s # ids))"
    proof (cases "ids = []")
      case True
      then have "\<not> truthy parent \<or> ?p \<in> set (i # visited)" using ids(5) by simp
      then show ?thesis using True parent s by (auto simp: ends_above_def split: if_splits)
    next
      case False
      with ids(6) show ?thesis by (simp add: s insert_commute)
    qed
    moreover have "message_chain mm visited i current = Inr (map (jget mm) (s # ids))"
      using step ids(1) s by simp
    moreover have "distinct (s # ids)" "JStr ` set (s # ids) \<inter> set visited = {}"
      using ids(2,3) False s by auto
    moreover have "linked mm (s # ids)" using ids(4,6) by (auto simp: linked_Cons)
    ultimately show ?thesis
      using False s(1) by (intro exI [of _ "s # ids"]) simp
  qed
qed

lemma fork_branch_spec:
  "fork_branch mm seen i = Inr br \<Longrightarrow>
     distinct (map fst br) \<and> JStr ` set (map fst br) \<inter> set seen = {} \<and>
     (\<forall>(s, m) \<in> set br. jget mm s = JObj m) \<and> linked mm (map fst br) \<and>
     (br = [] \<longleftrightarrow> \<not> truthy i) \<and>
     (br \<noteq> [] \<longrightarrow> i = JStr (fst (hd br)) \<and> \<not> truthy (parent_of mm (fst (last br))))"
proof (induction mm seen i arbitrary: br rule: fork_branch.induct)
  case (1 mm seen i)
  show ?case
  proof (cases "truthy i")
    case False
    with 1(2) show ?thesis by (subst (asm) fork_branch.simps) auto
  next
    case True
    from 1(2) True obtain s m br' where s: "hashable i" "i \<notin> set seen" "i = JStr s" "jget mm s = JObj m"
      and rec: "fork_branch mm (i # seen) (jget m ''parentId'') = Inr br'" and br: "br = (s, m) # br'"
      by (subst (asm) fork_branch.simps)
         (auto simp: get_message_def bind_result_Inr split: if_splits json.splits sum.splits)
    have p: "parent_of mm s = jget m ''parentId''" by (simp add: parent_of_def s)
    have "get_message mm (JStr s) = Inr (JObj m)" by (simp add: get_message_def s)
    with 1(1) [of "JStr s" "Inr (JObj m)" s "JObj m" m br'] True s rec
    have "distinct (map fst br') \<and> JStr ` set (map fst br') \<inter> set (i # seen) = {} \<and>
      (\<forall>(s, m) \<in> set br'. jget mm s = JObj m) \<and> linked mm (map fst br') \<and>
      (br' = [] \<longleftrightarrow> \<not> truthy (jget m ''parentId'')) \<and>
      (br' \<noteq> [] \<longrightarrow> jget m ''parentId'' = JStr (fst (hd br')) \<and> \<not> truthy (parent_of mm (fst (last br'))))"
      by simp
    then show ?thesis
      using s True by (auto simp: br linked_Cons p hd_map)
  qed
qed

lemma fork_messages_nth:
  "length (fork_messages p br) = length br \<and> map fst (fork_messages p br) = map fst br \<and>
   (\<forall>k < length br. snd (fork_messages p br ! k) =
      AList.update ''childrenIds'' (JList (if Suc k < length br then [JStr (fst (br ! Suc k))] else []))
        (AList.update ''parentId'' (if k = 0 then p else JStr (fst (br ! (k - 1))))
          (AList.update ''id'' (JStr (fst (br ! k))) (snd (br ! k)))))"
proof (induction p br rule: fork_messages.induct)
  case (2 p i m br)
  then show ?case
    by (auto simp: nth_Cons split: nat.splits list.splits prod.splits)
qed simp

subsection \<open>Properties\<close>

text \<open>
  C22: Reconciliation leaves a conversation every strict provider accepts: each assistant message
  with tool calls is followed by tool messages that answer exactly its calls, no tool message
  stands elsewhere. Reconciling again changes nothing, and a conversation is left as it is exactly
  when it was well paired already.
\<close>

theorem reconcile_tool_pairs_well_paired:
  assumes "reconcile_tool_pairs messages = Inr out"
  shows "well_paired out \<and> reconcile_tool_pairs out = Inr out \<and> (out = messages \<longleftrightarrow> well_paired messages)"
  using reconcile_well_paired [OF assms] well_paired_unchanged assms by (metis sum.inject(2))

text \<open>
  Whatever output items were stored, interrupted or incomplete turns included, the messages
  rebuilt from them are well paired.
\<close>

theorem convert_output_well_paired:
  assumes "convert_output_to_messages dumps opt output = Inr messages"
  shows "well_paired messages"
  using assms
  by (auto simp: convert_output_to_messages_def bind_result_Inr reconcile_well_paired
      split: json.splits if_splits)

text \<open>
  C23: A completed turn survives storage: the items of a text, of its finished tool calls and of
  their results, whatever further fields the items carry, are converted to the assistant message
  with that text and all the calls in order (each as the model made it), followed by the results
  in the order in which they were stored, whatever the options.
\<close>

theorem convert_output_restores_turn:
  assumes "stores_text t text_item" and "list_all2 stores_call calls call_items"
    and "list_all2 stores_result results result_items"
    and "calls \<noteq> []" and "\<forall>c \<in> set calls. fst c \<noteq> []" and "fst ` set results = fst ` set calls"
  shows "convert_output_to_messages dumps opt (JList (text_item # call_items @ result_items)) =
    Inr (turn_messages t calls results)"
proof -
  obtain c where "convert_items dumps opt (text_item # call_items @ result_items) = Inr c"
    "cv_messages c = turn_messages t calls results"
    using convert_turn [OF assms] by blast
  then show ?thesis
    using well_paired_unchanged [OF turn_well_paired [OF assms(4,5,6)]]
    by (simp add: convert_output_to_messages_def)
qed

text \<open>
  The messages up to a message are the chain of its ancestors, root first and without
  repetition: it follows the parent links from the message until a parent is missing or was
  visited, so it ends on a corrupt cycle too.
\<close>

theorem get_message_list_is_chain:
  assumes "messages_ok mm" and "truthy (jget mm s)"
  shows "\<exists>ids. get_message_list mm (JStr s) = Inr (rev (map (jget mm) ids)) \<and> ids \<noteq> [] \<and> hd ids = s \<and>
    distinct ids \<and> linked mm ids \<and> ends_above mm (JStr ` set ids) (last ids)"
proof -
  have m: "get_message mm (JStr s) = Inr (jget mm s)" by (simp add: get_message_def)
  have "mm \<noteq> []" using assms(2) by auto
  moreover obtain ids where "message_chain mm [] (JStr s) (jget mm s) = Inr (map (jget mm) ids)"
    "distinct ids" "ids \<noteq> []" "JStr s = JStr (hd ids)" "ends_above mm (JStr ` set ids) (last ids)" "linked mm ids"
    using message_chain_spec [OF assms(1) disjI2 [OF m], of "[]"] assms(2) by auto
  ultimately show ?thesis
    using assms(2) m by (intro exI [of _ ids]) (simp add: get_message_list_def rev_map)
qed

text \<open>
  A fork copies one branch: its messages are the ancestors of the source message up to a
  root, root first; every copy has the content of its original and is linked to its neighbours
  only, so the fork is one line that ends in the source message.
\<close>

theorem fork_is_one_branch:
  assumes "build_fork_history mm s = Inr (history, ordered)" and "s \<noteq> []"
  shows "\<exists>ids copies. history = JObj [(''messages'', JObj (zip ids copies)), (''currentId'', JStr s)] \<and>
    ordered = copies \<and> length copies = length ids \<and> ids \<noteq> [] \<and> last ids = s \<and> distinct ids \<and>
    linked mm (rev ids) \<and> \<not> truthy (parent_of mm (hd ids)) \<and>
    (\<forall>k < length ids. jget (dict_of (copies ! k)) ''id'' = JStr (ids ! k) \<and>
       jget (dict_of (copies ! k)) ''parentId'' = (if k = 0 then JNull else JStr (ids ! (k - 1))) \<and>
       jget (dict_of (copies ! k)) ''childrenIds'' =
         JList (if Suc k < length ids then [JStr (ids ! Suc k)] else []) \<and>
       (\<forall>x. x \<notin> {''id'', ''parentId'', ''childrenIds''} \<longrightarrow>
          jget (dict_of (copies ! k)) x = jget (dict_of (jget mm (ids ! k))) x))"
proof -
  from assms(1) obtain br where br: "fork_branch mm [] (JStr s) = Inr br"
    and h: "history = JObj [(''messages'', JObj (map (\<lambda>(i, m). (i, JObj m)) (fork_messages JNull (rev br)))),
      (''currentId'', JStr s)]"
    and o: "ordered = map snd (map (\<lambda>(i, m). (i, JObj m)) (fork_messages JNull (rev br)))"
    by (auto simp: build_fork_history_def bind_result_Inr Let_def split: if_splits)
  define F where "F = fork_messages JNull (rev br)"
  define ids where "ids = map fst (rev br)"
  define copies where "copies = map (JObj \<circ> snd) F"
  note nth = fork_messages_nth [of JNull "rev br", folded F_def]
  have spec: "distinct (map fst br)" "\<forall>(s, m) \<in> set br. jget mm s = JObj m" "linked mm (map fst br)"
    "br \<noteq> []" "s = fst (hd br)" "\<not> truthy (parent_of mm (fst (last br)))"
    using fork_branch_spec [OF br] assms(2) by auto
  have F: "map (\<lambda>(i, m). (i, JObj m)) F = zip ids copies"
  proof -
    have "ids = map fst F" using nth by (simp add: ids_def)
    then show ?thesis
      by (simp add: copies_def zip_map_fst_snd zip_map1 zip_map2 zip_same_conv_map split_beta o_def)
  qed
  have len: "length copies = length ids" using nth by (simp add: copies_def ids_def)
  have copy: "copies ! k = JObj (snd (F ! k))" "F ! k = (ids ! k, snd (F ! k))" if "k < length ids" for k
  proof -
    have k: "k < length F" using that nth by (simp add: ids_def)
    then show "copies ! k = JObj (snd (F ! k))" by (simp add: copies_def)
    have "fst (F ! k) = ids ! k" using nth k by (metis ids_def nth_map)
    then show "F ! k = (ids ! k, snd (F ! k))" by (metis prod.collapse)
  qed
  have orig: "jget mm (ids ! k) = JObj (snd (rev br ! k))" if "k < length ids" for k
  proof -
    have "rev br ! k \<in> set br" using that by (metis ids_def length_map length_rev nth_mem set_rev)
    with spec(2) have "jget mm (fst (rev br ! k)) = JObj (snd (rev br ! k))" by auto
    with that show ?thesis by (simp add: ids_def)
  qed
  have "ids \<noteq> []" "last ids = s" "distinct ids" "linked mm (rev ids)" "\<not> truthy (parent_of mm (hd ids))"
    using spec by (simp_all add: ids_def last_map last_rev rev_map [symmetric] hd_map hd_rev)
  moreover have "jget (dict_of (copies ! k)) ''id'' = JStr (ids ! k) \<and>
       jget (dict_of (copies ! k)) ''parentId'' = (if k = 0 then JNull else JStr (ids ! (k - 1))) \<and>
       jget (dict_of (copies ! k)) ''childrenIds'' =
         JList (if Suc k < length ids then [JStr (ids ! Suc k)] else []) \<and>
       (\<forall>x. x \<notin> {''id'', ''parentId'', ''childrenIds''} \<longrightarrow>
          jget (dict_of (copies ! k)) x = jget (dict_of (jget mm (ids ! k))) x)" if k: "k < length ids" for k
  proof -
    have ids: "length ids = length br" "\<And>j. j < length br \<Longrightarrow> fst (rev br ! j) = ids ! j"
      by (simp_all add: ids_def)
    have "snd (F ! k) =
        AList.update ''childrenIds'' (JList (if Suc k < length br then [JStr (fst (rev br ! Suc k))] else []))
          (AList.update ''parentId'' (if k = 0 then JNull else JStr (fst (rev br ! (k - 1))))
            (AList.update ''id'' (JStr (fst (rev br ! k))) (snd (rev br ! k))))"
      using nth k ids(1) by simp
    then show ?thesis
      using k ids orig [OF k] by (auto simp: copy(1) [OF k])
  qed
  ultimately show ?thesis
    using h o len unfolding F_def [symmetric] F
    by (intro exI [of _ ids] exI [of _ copies]) (simp add: len)
qed

subsection \<open>Witnesses\<close>

text \<open>An answered call, an interrupted call, and a stray result.\<close>

definition sample_conversation :: "message list" where
  "sample_conversation =
     [[(''role'', JStr ''user''), (''content'', JStr ''hi'')],
      [(''role'', JStr ''assistant''), (''content'', JStr []),
       (''tool_calls'', JList [JObj [(''id'', JStr ''a'')], JObj [(''id'', JStr ''b'')]])],
      [(''role'', JStr ''tool''), (''tool_call_id'', JStr ''a''), (''content'', JStr ''1'')],
      [(''role'', JStr ''user''), (''content'', JStr ''go on'')],
      [(''role'', JStr ''tool''), (''tool_call_id'', JStr ''b''), (''content'', JStr ''2'')]]"

definition reconciled_conversation :: "message list" where
  "reconciled_conversation =
     [[(''role'', JStr ''user''), (''content'', JStr ''hi'')],
      [(''role'', JStr ''assistant''), (''content'', JStr []), (''tool_calls'', JList [JObj [(''id'', JStr ''a'')]])],
      [(''role'', JStr ''tool''), (''tool_call_id'', JStr ''a''), (''content'', JStr ''1'')],
      [(''role'', JStr ''user''), (''content'', JStr ''go on'')]]"

lemma reconcile_sample: "reconcile_tool_pairs sample_conversation = Inr reconciled_conversation"
  by code_simp

theorem reconcile_tool_pairs_well_paired_witness: "well_paired reconciled_conversation"
  using reconcile_tool_pairs_well_paired [OF reconcile_sample] by simp

definition sample_turn_items :: "json list" where
  "sample_turn_items =
     [JObj [(''type'', JStr ''message''), (''id'', JStr ''msg_1''), (''status'', JStr ''completed''),
        (''role'', JStr ''assistant''),
        (''content'', JList [JObj [(''type'', JStr ''output_text''), (''text'', JStr ''t'')]])],
      JObj [(''type'', JStr ''function_call''), (''id'', JStr ''fc_1''), (''call_id'', JStr ''a''), (''name'', JStr ''f''),
        (''arguments'', JStr ''{}''), (''status'', JStr ''completed'')],
      JObj [(''type'', JStr ''function_call''), (''id'', JStr ''fc_2''), (''call_id'', JStr ''b''), (''name'', JStr ''g''),
        (''arguments'', JStr ''{}''), (''status'', JStr ''rejected''),
        (''provider_function'', JObj [(''name'', JStr ''h''), (''arguments'', JStr ''[]'')])],
      JObj [(''type'', JStr ''function_call_output''), (''id'', JStr ''fco_2''), (''call_id'', JStr ''b''),
        (''output'', JList [JObj [(''type'', JStr ''input_text''), (''text'', JStr ''2'')]]),
        (''status'', JStr ''rejected'')],
      JObj [(''type'', JStr ''function_call_output''), (''id'', JStr ''fco_1''), (''call_id'', JStr ''a''),
        (''output'', JList [JObj [(''type'', JStr ''input_text''), (''text'', JStr ''1'')]]),
        (''status'', JStr ''completed''), (''files'', JList [])]]"

abbreviation sample_turn_messages :: "message list" where
  "sample_turn_messages \<equiv>
     turn_messages ''t'' [(''a'', ''f'', ''{}''), (''b'', ''h'', ''[]'')] [(''b'', ''2''), (''a'', ''1'')]"

abbreviation sample_convert_options :: convert_options where
  "sample_convert_options \<equiv>
     \<lparr>co_raw = True, co_reasoning_format = None, co_flatten_tool_images = True\<rparr>"

lemma stores_text_one:
  "jget d ''type'' = JStr ''message'' \<Longrightarrow> jget d ''content'' = JList [part] \<Longrightarrow>
     stores_part ''output_text'' t part \<Longrightarrow> stores_text t (JObj d)"
  unfolding stores_text_def by (intro conjI exI [of _ "[t]"] exI [of _ "[part]"]) simp_all

lemma stores_result_one:
  "jget d ''type'' = JStr ''function_call_output'' \<Longrightarrow> jget d ''call_id'' = JStr c \<Longrightarrow>
     jget d ''output'' = JList [part] \<Longrightarrow> stores_part ''input_text'' r part \<Longrightarrow> stores_result (c, r) (JObj d)"
  unfolding stores_result_def prod.case by (intro conjI exI [of _ "[r]"] exI [of _ "[part]"]) simp_all

theorem convert_output_restores_turn_witness:
  "convert_output_to_messages (\<lambda>_. []) sample_convert_options (JList sample_turn_items) =
     Inr sample_turn_messages"
proof -
  let ?i = "\<lambda>n. sample_turn_items ! n"
  have "stores_text ''t'' (?i 0)"
    by (simp add: sample_turn_items_def) (rule stores_text_one, simp_all, simp add: stores_part_def)
  moreover have "list_all2 stores_call [(''a'', ''f'', ''{}''), (''b'', ''h'', ''[]'')] [?i 1, ?i 2]"
    by (simp add: sample_turn_items_def stores_call_def)
  moreover have "list_all2 stores_result [(''b'', ''2''), (''a'', ''1'')] [?i 3, ?i 4]"
    by (simp add: sample_turn_items_def) (intro conjI stores_result_one, simp_all, simp_all add: stores_part_def)
  ultimately have "convert_output_to_messages (\<lambda>_. []) sample_convert_options
      (JList (?i 0 # [?i 1, ?i 2] @ [?i 3, ?i 4])) = Inr sample_turn_messages"
    by (rule convert_output_restores_turn) auto
  then show ?thesis by (simp add: sample_turn_items_def)
qed

theorem convert_output_well_paired_witness: "well_paired sample_turn_messages"
proof -
  have "convert_output_to_messages (\<lambda>_. []) sample_convert_options (JList sample_turn_items) =
      Inr sample_turn_messages"
    by code_simp
  then show ?thesis by (rule convert_output_well_paired)
qed

definition sample_map :: "json dict" where
  "sample_map =
     [(''r'', JObj [(''content'', JStr ''1''), (''parentId'', JNull)]),
      (''x'', JObj [(''content'', JStr ''2''), (''parentId'', JStr ''r'')]),
      (''y'', JObj [(''content'', JStr ''3''), (''parentId'', JStr ''r'')])]"

theorem get_message_list_is_chain_witness:
  "\<exists>ids. get_message_list sample_map (JStr ''x'') = Inr (rev (map (jget sample_map) ids)) \<and> hd ids = ''x'' \<and>
     distinct ids \<and> linked sample_map ids"
  using get_message_list_is_chain [of sample_map "''x''"]
  by (auto simp: sample_map_def messages_ok_def)

theorem fork_is_one_branch_witness:
  "\<exists>ids. last ids = ''x'' \<and> distinct ids \<and> linked sample_map (rev ids)"
proof -
  have "\<exists>h ordered. build_fork_history sample_map ''x'' = Inr (h, ordered)"
  proof -
    have "map_sum id (\<lambda>(h, ordered). length ordered) (build_fork_history sample_map ''x'') = Inr 2" by code_simp
    then show ?thesis by (cases "build_fork_history sample_map ''x''") auto
  qed
  then obtain h ordered where "build_fork_history sample_map ''x'' = Inr (h, ordered)" by blast
  from fork_is_one_branch [OF this] show ?thesis by auto
qed

end
