(* ===== verification/Relay.thy ===== *)
theory Relay
  imports AccessControl PyStr
begin

text \<open>
  The relay of end-to-end encrypted channels (\<open>socket/encryption.py\<close>) on one worker with the
  in-process registry. Time is an integer number of ticks. The registry maps a channel to its
  session (the stored key is a digest of the channel name). What the socket server emits is the
  list \<open>re_sent\<close>, in order; the account, channel and configuration tables are read through
  \<open>relay_env\<close>, which may differ from call to call.
\<close>

subsection \<open>State\<close>

record member =
  mb_sid :: string
  mb_user :: string
  mb_name :: string
  mb_key :: "string option"
  mb_seen :: int
  mb_out :: nat
  mb_admitted :: bool

record session =
  ss_channel :: string
  ss_session :: string
  ss_host :: string
  ss_members :: "(string \<times> member) list"
  ss_expires :: int

datatype relay_event =
    Candidate string string  \<comment> \<open>sender, packet\<close>
  | Mls string string
  | Welcome string string
  | Departed string bool     \<comment> \<open>participation, admitted\<close>

text \<open>
  An emitted event names the socket it goes to; the channel and the participation it is meant
  for are recorded with it, then its kind, the view of the session and the sequence number.
\<close>

datatype emitted =
    Available string "string option"
  | Ended string string "string option"
  | Event string string string relay_event json nat

record relay =
  re_values :: "(string \<times> session) list"
  re_local :: "(string \<times> string) list"
  re_rates :: "((string \<times> string) \<times> (int \<times> int \<times> int)) list"
  re_sent :: "emitted list"
  re_drawn :: nat

definition empty_relay :: relay where
  "empty_relay = \<lparr>re_values = [], re_local = [], re_rates = [], re_sent = [], re_drawn = 0\<rparr>"

record relay_env =
  rv_db :: db
  rv_default_permissions :: "json dict"
  rv_user_permissions :: "json dict"
  rv_channels_enable :: bool
  rv_encryption_enable :: bool
  rv_websocket_support :: bool
  rv_logging :: bool
  rv_prod :: bool
  rv_transport :: "string \<Rightarrow> string"
  rv_scheme :: "string \<Rightarrow> string"
  rv_authenticate :: "string \<Rightarrow> string option"
  rv_channel :: "string \<Rightarrow> (string \<times> bool) option"
  rv_is_member :: "string \<Rightarrow> string \<Rightarrow> bool"
  rv_active_members :: "string \<Rightarrow> string list"
  rv_now :: int
  rv_monotonic :: int
  rv_uuid :: "nat \<Rightarrow> string"

text \<open>
  \<open>Rejected\<close> and any other exception. A raised exception keeps the changes made to the relay;
  the loaded session is a copy, lost unless it was saved.
\<close>

datatype relay_error = Rejected | Failed

type_synonym 'a relay_result = "(relay_error + 'a) \<times> relay"

definition and_then :: "'a relay_result \<Rightarrow> ('a \<Rightarrow> relay \<Rightarrow> 'b relay_result) \<Rightarrow> 'b relay_result" where
  "and_then p f = (case p of (Inl e, r) \<Rightarrow> (Inl e, r) | (Inr x, r) \<Rightarrow> f x r)"

definition require :: "bool \<Rightarrow> relay \<Rightarrow> unit relay_result" where
  "require c r = (if c then Inr () else Inl Rejected, r)"

definition max_packet :: nat where "max_packet = 1024 * 1024"

definition TTL :: int where "TTL = 90"

subsection \<open>Packets\<close>

definition is_base64_char :: "char \<Rightarrow> bool" where
  "is_base64_char c =
     (let n = of_char c :: nat
      in 65 \<le> n \<and> n \<le> 90 \<or> 97 \<le> n \<and> n \<le> 122 \<or> 48 \<le> n \<and> n \<le> 57 \<or> n = 43 \<or> n = 47)"

text \<open>
  The number of bytes a text decodes to with \<open>b64decode(validate=True)\<close> of Python 3.11 and 3.12: padding may not
  lead the text and may not be followed by anything, but any amount of it may follow complete quads.
\<close>

definition base64_length :: "string \<Rightarrow> nat option" where
  "base64_length s =
     (let body = takeWhile (\<lambda>c. c \<noteq> CHR ''='') s; pad = dropWhile (\<lambda>c. c \<noteq> CHR ''='') s;
          quads = 3 * (length body div 4)
      in if \<not> list_all is_base64_char body \<or> \<not> list_all (\<lambda>c. c = CHR ''='') pad then None
         else if length body mod 4 = 0 \<and> (body \<noteq> [] \<or> pad = []) then Some quads
         else if length body mod 4 = 2 \<and> length pad = 2 then Some (quads + 1)
         else if length body mod 4 = 3 \<and> length pad = 1 then Some (quads + 2)
         else None)"

definition packet :: "json \<Rightarrow> string option" where
  "packet value =
     (case value of
        JStr s \<Rightarrow>
          (if 0 < length s \<and> length s \<le> (max_packet + 2) div 3 * 4
           then (case base64_length s of
                   None \<Rightarrow> None
                 | Some n \<Rightarrow> if 0 < n \<and> n \<le> max_packet then Some s else None)
           else None)
      | _ \<Rightarrow> None)"

definition require_packet :: "json \<Rightarrow> relay \<Rightarrow> string relay_result" where
  "require_packet value r = (case packet value of None \<Rightarrow> (Inl Rejected, r) | Some s \<Rightarrow> (Inr s, r))"

subsection \<open>The registry\<close>

definition load :: "relay_env \<Rightarrow> string \<Rightarrow> relay \<Rightarrow> session option" where
  "load e channel r =
     (case map_of (re_values r) channel of None \<Rightarrow> None
      | Some s \<Rightarrow> if ss_expires s \<le> rv_now e then None else Some s)"

definition save :: "relay_env \<Rightarrow> string \<Rightarrow> session \<Rightarrow> relay \<Rightarrow> relay" where
  "save e channel s r =
     r\<lparr>re_values := AList.update channel (s\<lparr>ss_expires := rv_now e + TTL\<rparr>) (re_values r)\<rparr>"

definition save_none :: "string \<Rightarrow> relay \<Rightarrow> relay" where
  "save_none channel r = r\<lparr>re_values := AList.delete channel (re_values r)\<rparr>"

definition emit :: "emitted \<Rightarrow> relay \<Rightarrow> relay" where
  "emit x r = r\<lparr>re_sent := re_sent r @ [x]\<rparr>"

definition pop_local :: "string \<Rightarrow> relay \<Rightarrow> relay" where
  "pop_local sid r = r\<lparr>re_local := AList.delete sid (re_local r)\<rparr>"

subsection \<open>Operations on a session\<close>

definition view :: "session \<Rightarrow> json" where
  "view s =
     JObj [(''channel'', JStr (ss_channel s)), (''session'', JStr (ss_session s)), (''host'', JStr (ss_host s)),
       (''bindings'', JList [JObj [
          (''identity'', JObj [(''channel'', JStr (ss_channel s)), (''session'', JStr (ss_session s)),
             (''user'', JStr (mb_user p)), (''participation'', JStr pid)]),
          (''key'', JStr (the (mb_key p)))]. (pid, p) \<leftarrow> ss_members s, mb_key p \<noteq> None]),
       (''participants'', JList [JObj [(''participation'', JStr pid), (''user'', JStr (mb_user p)),
          (''name'', JStr (mb_name p))]. (pid, p) \<leftarrow> ss_members s])]"

definition invite :: "string \<Rightarrow> session option \<Rightarrow> relay \<Rightarrow> relay" where
  "invite channel state = emit (Available channel (map_option ss_session state))"

definition update_member :: "string \<Rightarrow> (member \<Rightarrow> member) \<Rightarrow> session \<Rightarrow> session" where
  "update_member pid f s = s\<lparr>ss_members := map (\<lambda>(i, m). (i, if i = pid then f m else m)) (ss_members s)\<rparr>"

definition bump :: "string list \<Rightarrow> session \<Rightarrow> session" where
  "bump recipients s = fold (\<lambda>pid. update_member pid (\<lambda>m. m\<lparr>mb_out := mb_out m + 1\<rparr>)) recipients s"

text \<open>
  Recipients are identifiers of members, once each. The session is saved before anything is
  sent; all events carry its view.
\<close>

definition deliver :: "relay_env \<Rightarrow> session \<Rightarrow> string list \<Rightarrow> relay_event \<Rightarrow> relay \<Rightarrow> session relay_result" where
  "deliver e s recipients event r =
     (if \<not> list_all (\<lambda>pid. map_of (ss_members s) pid \<noteq> None) recipients then (Inl Failed, r)
      else
        (let s = bump recipients s
         in (Inr s, fold (\<lambda>pid. let m = the (map_of (ss_members s) pid)
                in emit (Event (mb_sid m) (ss_channel s) pid event (view s) (mb_out m)))
              recipients (save e (ss_channel s) s r))))"

definition close_session :: "string \<Rightarrow> session option \<Rightarrow> relay \<Rightarrow> relay" where
  "close_session channel state r =
     (let r = save_none channel r;
          r = (case state of None \<Rightarrow> r
               | Some s \<Rightarrow> fold (\<lambda>(pid, p) r. emit (Ended (mb_sid p) channel (Some (ss_session s)))
                   (pop_local (mb_sid p) r)) (ss_members s) r)
      in invite channel None r)"

definition admitted_pids :: "session \<Rightarrow> string list" where
  "admitted_pids s = map fst (filter (\<lambda>(i, m). mb_admitted m) (ss_members s))"

text \<open>The loop over the removed members; all of them have left the session before it starts.\<close>

fun depart :: "relay_env \<Rightarrow> (string \<times> member) list \<Rightarrow> session \<Rightarrow> relay \<Rightarrow> session relay_result" where
  "depart e [] s r = (Inr s, r)"
| "depart e ((pid, p) # removed) s r =
     (let r = emit (Ended (mb_sid p) (ss_channel s) (Some (ss_session s))) (pop_local (mb_sid p) r)
      in and_then (deliver e s (admitted_pids s) (Departed pid (mb_admitted p)) r) (depart e removed))"

text \<open>The host ends the session. The result is the session without the members, if it goes on.\<close>

definition remove_members :: "relay_env \<Rightarrow> session \<Rightarrow> string list \<Rightarrow> relay \<Rightarrow> session option relay_result" where
  "remove_members e s pids r =
     (if ss_host s \<in> set pids then (Inr None, close_session (ss_channel s) (Some s) r)
      else
        (let removed = filter (\<lambda>(i, m). i \<in> set pids) (ss_members s);
             s = s\<lparr>ss_members := filter (\<lambda>(i, m). i \<notin> set pids) (ss_members s)\<rparr>
         in and_then (depart e removed s r) (\<lambda>s r. (Inr (Some s), r))))"

subsection \<open>Accounts\<close>

definition authorize :: "relay_env \<Rightarrow> string \<Rightarrow> string \<Rightarrow> user_row option" where
  "authorize e sid channel =
     (if \<not> (rv_websocket_support e \<and> rv_transport e sid = ''websocket'') then None
      else if rv_logging e then None
      else if rv_prod e \<and> rv_scheme e sid \<notin> {''https'', ''wss''} then None
      else case rv_authenticate e sid of None \<Rightarrow> None
        | Some i \<Rightarrow>
            if i = [] then None
            else case List.find (\<lambda>u. u_id u = i) (user_t (rv_db e)) of None \<Rightarrow> None
              | Some u \<Rightarrow>
                  if u_role u \<notin> {''user'', ''admin''} then None
                  else case rv_channel e channel of None \<Rightarrow> None
                    | Some (kind, private) \<Rightarrow>
                        if (kind = ''dm'' \<or> kind = ''group'' \<and> private) \<and> rv_is_member e channel (u_id u)
                        then Some u else None)"

definition feature :: "json dict \<Rightarrow> string \<Rightarrow> bool result" where
  "feature permissions name =
     bind_result (attr_get (jget_default permissions ''features'' (JObj [])) name) (\<lambda>v. Inr (truthy v))"

definition user_eligible :: "relay_env \<Rightarrow> user_row \<Rightarrow> bool result" where
  "user_eligible e u =
     (if u_role u = ''admin'' then Inr True
      else if u_role u = ''user'' then
        bind_result
          (combine_groups (fill_missing_permissions (rv_user_permissions e) (rv_default_permissions e))
             (get_groups_by_member_id (rv_db e) (u_id u) True)) (\<lambda>permissions.
        bind_result (feature permissions ''channels'') (\<lambda>channels.
          if \<not> channels then Inr False else feature permissions ''encrypted_channels''))
      else Inr False)"

fun eligible_rows :: "relay_env \<Rightarrow> user_row list \<Rightarrow> user_row list result" where
  "eligible_rows e [] = Inr []"
| "eligible_rows e (u # us) =
     bind_result (user_eligible e u) (\<lambda>b. map_sum id (\<lambda>us. if b then u # us else us) (eligible_rows e us))"

definition eligible_users :: "relay_env \<Rightarrow> string list \<Rightarrow> user_row list result" where
  "eligible_users e user_ids =
     (if \<not> rv_channels_enable e \<or> \<not> rv_encryption_enable e then Inr []
      else eligible_rows e (filter (\<lambda>u. u_id u \<in> set user_ids) (user_t (rv_db e))))"

definition is_stale :: "relay_env \<Rightarrow> string \<Rightarrow> user_row list \<Rightarrow> member \<Rightarrow> bool" where
  "is_stale e channel eligible p \<longleftrightarrow>
     mb_seen p < rv_now e - 45 \<or> mb_user p \<notin> set (rv_active_members e channel) \<or>
     mb_user p \<notin> u_id ` set eligible"

definition prune :: "relay_env \<Rightarrow> session option \<Rightarrow> user_row list \<Rightarrow> relay \<Rightarrow> session option relay_result" where
  "prune e state eligible r =
     (case state of None \<Rightarrow> (Inr None, r)
      | Some s \<Rightarrow>
          (let stale = map fst (filter (\<lambda>(i, p). is_stale e (ss_channel s) eligible p) (ss_members s))
           in if ss_host s \<in> set stale then (Inr None, close_session (ss_channel s) (Some s) r)
              else if stale \<noteq> [] then remove_members e s stale r
              else (Inr (Some s), r)))"

subsection \<open>Rate limit\<close>

text \<open>
  The in-process counters of an account: admissions (ten a minute) and traffic (a hundred
  requests and four packets' worth of bytes a second). A rejected request is not counted.
\<close>

definition rate_bucket :: "string \<Rightarrow> string" where
  "rate_bucket action = (if action \<in> {''start'', ''join''} then ''admission'' else ''traffic'')"

definition rate_bounds :: "string \<Rightarrow> int \<times> int" where
  "rate_bounds bucket = (if bucket = ''admission'' then (60, 10) else (1, 100))"

definition sweep_rates :: "relay_env \<Rightarrow> relay \<Rightarrow> relay" where
  "sweep_rates e r =
     (if length (re_rates r) > 10000
      then r\<lparr>re_rates := filter (\<lambda>(k, start, n, bytes). rv_monotonic e - start < 60) (re_rates r)\<rparr>
      else r)"

definition limit :: "relay_env \<Rightarrow> string \<Rightarrow> string \<Rightarrow> int \<Rightarrow> relay \<Rightarrow> unit relay_result" where
  "limit e user action packet_size r =
     (let now = rv_monotonic e;
          r = sweep_rates e r;
          key = (user, rate_bucket action);
          (period, maximum) = rate_bounds (rate_bucket action);
          (start, n, bytes) = (case map_of (re_rates r) key of None \<Rightarrow> (now, 0, 0) | Some v \<Rightarrow> v);
          (start, n, bytes) = (if now - start \<ge> period then (now, 0, 0) else (start, n, bytes))
      in if n < maximum \<and> bytes + packet_size \<le> 4 * int max_packet
         then (Inr (), r\<lparr>re_rates := AList.update key (start, n + 1, bytes + packet_size) (re_rates r)\<rparr>)
         else (Inl Rejected, r))"

subsection \<open>Requests\<close>

definition draw_uuid :: "relay_env \<Rightarrow> relay \<Rightarrow> string \<times> relay" where
  "draw_uuid e r = (rv_uuid e (re_drawn r), r\<lparr>re_drawn := re_drawn r + 1\<rparr>)"

definition member_of_socket :: "string \<Rightarrow> session \<Rightarrow> (string \<times> member) option" where
  "member_of_socket sid s = List.find (\<lambda>(i, p). mb_sid p = sid) (ss_members s)"

text \<open>The metadata of the registry decides whether this socket still holds a place.\<close>

definition forget_stale_socket :: "string \<Rightarrow> string \<Rightarrow> session option \<Rightarrow> relay \<Rightarrow> relay" where
  "forget_stale_socket sid channel state r =
     (if map_of (re_local r) sid = Some channel \<and>
         (case state of None \<Rightarrow> True | Some s \<Rightarrow> member_of_socket sid s = None)
      then pop_local sid r else r)"

definition ok_reply :: "json dict \<Rightarrow> json" where
  "ok_reply d = JObj ((''ok'', JBool True) # d)"

definition new_member :: "relay_env \<Rightarrow> string \<Rightarrow> string \<Rightarrow> user_row \<Rightarrow> member" where
  "new_member e action sid user =
     \<lparr>mb_sid = sid, mb_user = u_id user, mb_name = u_name user, mb_key = None, mb_seen = rv_now e,
      mb_out = 0, mb_admitted = (action = ''start'')\<rparr>"

definition enter :: "relay_env \<Rightarrow> string \<Rightarrow> string \<Rightarrow> user_row \<Rightarrow> string \<Rightarrow> session \<Rightarrow> string \<Rightarrow> relay \<Rightarrow> json relay_result" where
  "enter e action sid user channel s pid r =
     (let s = s\<lparr>ss_members := AList.update pid (new_member e action sid user) (ss_members s)\<rparr>;
          r = save e channel s (r\<lparr>re_local := AList.update sid channel (re_local r)\<rparr>)
      in (Inr (ok_reply (dict_of (view s) @ [(''participation'', JStr pid)])), r))"

definition reserve :: "relay_env \<Rightarrow> string \<Rightarrow> string \<Rightarrow> user_row \<Rightarrow> string \<Rightarrow> json dict \<Rightarrow> session option \<Rightarrow> relay \<Rightarrow> json relay_result" where
  "reserve e action sid user channel data state r =
     (let r = forget_stale_socket sid channel state r
      in if map_of (re_local r) sid \<noteq> None then (Inl Rejected, r)
         else if action = ''start'' then
           (if state \<noteq> None then (Inl Rejected, r)
            else (let (pid, r) = draw_uuid e r; (session_id, r) = draw_uuid e r
                  in enter e action sid user channel
                       \<lparr>ss_channel = channel, ss_session = session_id, ss_host = pid, ss_members = [],
                        ss_expires = 0\<rparr> pid r))
         else (case state of None \<Rightarrow> (Inl Rejected, r)
           | Some s \<Rightarrow>
               if jget data ''session'' \<noteq> JStr (ss_session s) then (Inl Rejected, r)
               else if \<not> (length (ss_members s) < 128 \<and>
                   (\<forall>(i, p) \<in> set (ss_members s). mb_user p \<noteq> u_id user)) then (Inl Rejected, r)
               else (case map_of (ss_members s) (ss_host s) of None \<Rightarrow> (Inl Failed, r)
                 | Some host \<Rightarrow>
                     if mb_key host = None then (Inl Rejected, r)
                     else (let (pid, r) = draw_uuid e r in enter e action sid user channel s pid r))))"

definition bind_key :: "relay_env \<Rightarrow> session \<Rightarrow> string \<Rightarrow> member \<Rightarrow> json dict \<Rightarrow> relay \<Rightarrow> session relay_result" where
  "bind_key e s pid m data r =
     (if mb_key m \<noteq> None then (Inl Rejected, r)
      else
        and_then (require_packet (jget data ''key'') r) (\<lambda>key r.
          if base64_length key \<noteq> Some 32 then (Inl Rejected, r)
          else
            (let s = update_member pid (\<lambda>m. m\<lparr>mb_key := Some key\<rparr>) s
             in if pid \<noteq> ss_host s then
                  and_then (require_packet (jget data ''packet'') r) (\<lambda>kp r.
                    deliver e s [ss_host s] (Candidate pid kp) r)
                else (Inr s, invite (ss_channel s) (Some s) (save e (ss_channel s) s r)))))"

definition other_admitted :: "session \<Rightarrow> string \<Rightarrow> string list" where
  "other_admitted s pid = filter (\<lambda>i. i \<noteq> pid) (admitted_pids s)"

definition admit :: "relay_env \<Rightarrow> session \<Rightarrow> string \<Rightarrow> string \<Rightarrow> json dict \<Rightarrow> relay \<Rightarrow> session relay_result" where
  "admit e s pid body data r =
     (if pid \<noteq> ss_host s then (Inl Rejected, r)
      else if \<not> hashable (jget data ''target'') then (Inl Failed, r)
      else (case jget data ''target'' of
          JStr target \<Rightarrow>
            (case map_of (ss_members s) target of None \<Rightarrow> (Inl Rejected, r)
             | Some joining \<Rightarrow>
                 if mb_key joining = None \<or> mb_admitted joining then (Inl Rejected, r)
                 else
                   and_then (require_packet (jget data ''welcome'') r) (\<lambda>welcome r.
                     let existing = other_admitted s pid;
                         s = update_member target (\<lambda>m. m\<lparr>mb_admitted := True\<rparr>) s
                     in and_then (deliver e s existing (Mls pid body) r) (\<lambda>s.
                          deliver e s [target] (Welcome pid welcome))))
        | _ \<Rightarrow> (Inl Rejected, r)))"

definition forward :: "relay_env \<Rightarrow> session \<Rightarrow> string \<Rightarrow> member \<Rightarrow> json dict \<Rightarrow> relay \<Rightarrow> session relay_result" where
  "forward e s pid m data r =
     (if mb_key m = None \<or> \<not> mb_admitted m then (Inl Rejected, r)
      else
        and_then (require_packet (jget data ''packet'') r) (\<lambda>body r.
          if jget data ''kind'' = JStr ''admit'' then admit e s pid body data r
          else if jget data ''kind'' \<noteq> JStr ''mls'' then (Inl Rejected, r)
          else deliver e s (other_admitted s pid) (Mls pid body) r))"

text \<open>A request of a participant, from the point where the session and its version are checked.\<close>

definition participate :: "relay_env \<Rightarrow> string \<Rightarrow> string \<Rightarrow> user_row \<Rightarrow> string \<Rightarrow> json dict \<Rightarrow> session \<Rightarrow> relay \<Rightarrow> json relay_result" where
  "participate e action sid user channel data s r =
     (if \<not> hashable (jget data ''participation'') then (Inl Failed, r)
      else (case jget data ''participation'' of
          JStr pid \<Rightarrow>
            (case map_of (ss_members s) pid of None \<Rightarrow> (Inl Rejected, r)
             | Some m \<Rightarrow>
                 if mb_sid m \<noteq> sid \<or> mb_user m \<noteq> u_id user then (Inl Rejected, r)
                 else
                   (let s = update_member pid (\<lambda>m. m\<lparr>mb_seen := rv_now e\<rparr>) s
                    in if action = ''leave'' then
                         and_then (remove_members e s [pid] r) (\<lambda>_ r. (Inr (ok_reply []), r))
                       else
                         and_then
                           (if action = ''bind'' then bind_key e s pid m data r
                            else if action = ''ping'' then (Inr s, save e channel s r)
                            else if action = ''packet'' then forward e s pid m data r
                            else (Inl Rejected, r))
                           (\<lambda>s r. (Inr (ok_reply (dict_of (view s))), r))))
        | _ \<Rightarrow> (Inl Rejected, r)))"

definition status_reply :: "session option \<Rightarrow> relay \<Rightarrow> json relay_result" where
  "status_reply state r =
     (case state of
        None \<Rightarrow> (Inr (ok_reply [(''available'', JBool False), (''session'', JNull)]), r)
      | Some s \<Rightarrow>
          (case map_of (ss_members s) (ss_host s) of None \<Rightarrow> (Inl Failed, r)
           | Some host \<Rightarrow> (Inr (ok_reply [(''available'', JBool (mb_key host \<noteq> None)),
               (''session'', JStr (ss_session s))]), r)))"

definition dispatch :: "relay_env \<Rightarrow> string \<Rightarrow> string \<Rightarrow> user_row \<Rightarrow> string \<Rightarrow> json dict \<Rightarrow> session option \<Rightarrow> relay \<Rightarrow> json relay_result" where
  "dispatch e action sid user channel data state r =
     (if action = ''status'' then status_reply state r
      else if action \<in> {''start'', ''join''} then reserve e action sid user channel data state r
      else (case state of None \<Rightarrow> (Inl Rejected, r)
        | Some s \<Rightarrow>
            if jget data ''session'' \<noteq> JStr (ss_session s) \<or> map_of (re_local r) sid \<noteq> Some channel
            then (Inl Rejected, r)
            else participate e action sid user channel data s r))"

definition session_users :: "session option \<Rightarrow> string list" where
  "session_users state = (case state of None \<Rightarrow> [] | Some s \<Rightarrow> map (mb_user \<circ> snd) (ss_members s))"

definition transact :: "relay_env \<Rightarrow> string \<Rightarrow> string \<Rightarrow> user_row \<Rightarrow> string \<Rightarrow> json dict \<Rightarrow> relay \<Rightarrow> json relay_result" where
  "transact e action sid user channel data r =
     (let state = load e channel r
      in case eligible_users e (u_id user # session_users state) of Inl _ \<Rightarrow> (Inl Failed, r)
        | Inr eligible \<Rightarrow>
            and_then (prune e state eligible r) (\<lambda>state r.
              case List.find (\<lambda>u. u_id u = u_id user) eligible of None \<Rightarrow> (Inl Rejected, r)
              | Some user \<Rightarrow>
                  if \<not> rv_is_member e channel (u_id user) then (Inl Rejected, r)
                  else dispatch e action sid user channel data state r))"

definition fail_local :: "string option \<Rightarrow> relay \<Rightarrow> relay" where
  "fail_local channel r =
     fold (\<lambda>(sid, local_channel) r.
         if channel = None \<or> channel = Some local_channel
         then emit (Ended sid local_channel None) (pop_local sid r) else r)
       (re_local r) r"

definition unavailable :: json where
  "unavailable = JObj [(''ok'', JBool False),
     (''error'', JStr ''Private chat is unavailable or the session changed.'')]"

definition ended :: json where
  "ended = JObj [(''ok'', JBool False), (''error'', JStr ''Private chat ended.'')]"

text \<open>
  The request handler: the reply and the relay after it. A \<open>Rejected\<close> request is refused; any
  other exception after the authorization ends the channel's chats on this worker.
\<close>

definition handle :: "relay_env \<Rightarrow> string \<Rightarrow> string \<Rightarrow> json \<Rightarrow> relay \<Rightarrow> json \<times> relay" where
  "handle e action sid data r =
     (case data of
        JObj d \<Rightarrow>
          (case jget d ''channel'' of
             JStr channel \<Rightarrow>
               (let size = length (json_dumps data)
                in if \<not> (0 < length channel \<and> length channel \<le> 128) then (unavailable, r)
                   else if \<not> size \<le> 3 * max_packet then (unavailable, r)
                   else (case authorize e sid channel of None \<Rightarrow> (unavailable, r)
                     | Some user \<Rightarrow>
                         (case and_then (limit e (u_id user) action (int size) r)
                             (\<lambda>_. transact e action sid user channel d) of
                            (Inr reply, r) \<Rightarrow> (reply, r)
                          | (Inl Rejected, r) \<Rightarrow> (unavailable, r)
                          | (Inl Failed, r) \<Rightarrow> (ended, fail_local (Some channel) r))))
           | _ \<Rightarrow> (unavailable, r))
      | _ \<Rightarrow> (unavailable, r))"

subsection \<open>Events of the worker\<close>

definition guarded :: "string \<Rightarrow> 'a relay_result \<Rightarrow> relay" where
  "guarded channel p = (case p of (Inr _, r) \<Rightarrow> r | (Inl _, r) \<Rightarrow> fail_local (Some channel) r)"

text \<open>The socket leaves the local table before the lock is taken, the session afterwards.\<close>

definition disconnect_session :: "relay_env \<Rightarrow> string \<Rightarrow> string \<Rightarrow> relay \<Rightarrow> relay" where
  "disconnect_session e sid channel r =
     (case load e channel r of None \<Rightarrow> r
      | Some s \<Rightarrow>
          (case member_of_socket sid s of None \<Rightarrow> r
           | Some (pid, p) \<Rightarrow> guarded channel (remove_members e s [pid] r)))"

definition disconnect :: "relay_env \<Rightarrow> string \<Rightarrow> relay \<Rightarrow> relay" where
  "disconnect e sid r =
     (case map_of (re_local r) sid of None \<Rightarrow> r
      | Some channel \<Rightarrow>
          (let r = pop_local sid r
           in if channel = [] then r else disconnect_session e sid channel r))"

definition invalidate :: "relay_env \<Rightarrow> string \<Rightarrow> relay \<Rightarrow> relay" where
  "invalidate e channel r = close_session channel (load e channel r) r"

definition sweep_channel :: "relay_env \<Rightarrow> string \<Rightarrow> relay \<Rightarrow> relay" where
  "sweep_channel e channel r =
     (case load e channel r of None \<Rightarrow> fail_local (Some channel) r
      | Some s \<Rightarrow>
          (case eligible_users e (session_users (Some s)) of Inl _ \<Rightarrow> fail_local (Some channel) r
           | Inr eligible \<Rightarrow> guarded channel (prune e (Some s) eligible r)))"

definition expire_registry :: "relay_env \<Rightarrow> relay \<Rightarrow> relay" where
  "expire_registry e r = r\<lparr>re_values := filter (\<lambda>(channel, s). rv_now e < ss_expires s) (re_values r)\<rparr>"

definition sweep :: "relay_env \<Rightarrow> relay \<Rightarrow> relay" where
  "sweep e r = expire_registry e (fold (sweep_channel e) (remdups (map snd (re_local r))) r)"

text \<open>
  What can happen on the worker, one after the other under the channel lock; every event runs
  in an environment of its own, and only the source of identifiers is the same for all.
\<close>

inductive relay_step :: "(nat \<Rightarrow> string) \<Rightarrow> relay \<Rightarrow> relay \<Rightarrow> bool" for uuid where
  Handle: "rv_uuid e = uuid \<Longrightarrow> handle e action sid data r = (reply, r') \<Longrightarrow> relay_step uuid r r'"
| Disconnect: "rv_uuid e = uuid \<Longrightarrow> relay_step uuid r (disconnect e sid r)"
| Disconnect_local: "relay_step uuid r (pop_local sid r)"
| Disconnect_session: "rv_uuid e = uuid \<Longrightarrow> relay_step uuid r (disconnect_session e sid channel r)"
| Invalidate: "rv_uuid e = uuid \<Longrightarrow> relay_step uuid r (invalidate e channel r)"
| Sweep_channel: "rv_uuid e = uuid \<Longrightarrow> relay_step uuid r (sweep_channel e channel r)"
| Expire: "rv_uuid e = uuid \<Longrightarrow> relay_step uuid r (expire_registry e r)"
| Sweep: "rv_uuid e = uuid \<Longrightarrow> relay_step uuid r (sweep e r)"

inductive reachable :: "(nat \<Rightarrow> string) \<Rightarrow> relay \<Rightarrow> bool" for uuid where
  Start: "reachable uuid empty_relay"
| Step: "reachable uuid r \<Longrightarrow> relay_step uuid r r' \<Longrightarrow> reachable uuid r'"

inductive_cases relay_stepE: "relay_step uuid r r'"

end
