(* ===== verification/RelayInv.thy ===== *)
theory RelayInv
  imports Relay
begin

text \<open>
  The invariant of the encryption relay. A stored session has distinct participations and
  accounts, at most 128 of them, a bound host whenever anybody else is in, and only admitted
  members with a key besides the host; and the events sent to a participation carry the numbers
  from one up, the last being the counter the session stores. \<open>quiet\<close> collects the state changes
  that touch neither; the proofs go through the operations one by one.
\<close>

subsection \<open>What was sent\<close>

fun event_of :: "string \<Rightarrow> string \<Rightarrow> emitted \<Rightarrow> nat list" where
  "event_of channel pid (Event sid c p event v n) = (if c = channel \<and> p = pid then [n] else [])"
| "event_of channel pid _ = []"

definition seqs :: "emitted list \<Rightarrow> string \<Rightarrow> string \<Rightarrow> nat list" where
  "seqs sent channel pid = concat (map (event_of channel pid) sent)"

fun is_event :: "emitted \<Rightarrow> bool" where
  "is_event (Event sid c p event v n) = True"
| "is_event _ = False"

lemma seqs_simps [simp]:
  "seqs [] channel pid = []"
  "seqs (xs @ ys) channel pid = seqs xs channel pid @ seqs ys channel pid"
  "seqs (x # xs) channel pid = event_of channel pid x @ seqs xs channel pid"
  by (simp_all add: seqs_def)

subsection \<open>The invariant\<close>

definition keyed :: "session \<Rightarrow> bool" where
  "keyed s \<longleftrightarrow>
     (\<exists>h. map_of (ss_members s) (ss_host s) = Some h \<and> mb_admitted h \<and>
        (mb_key h \<noteq> None \<or> map fst (ss_members s) = [ss_host s])) \<and>
     (\<forall>pid m. map_of (ss_members s) pid = Some m \<and> pid \<noteq> ss_host s \<and> mb_admitted m \<longrightarrow> mb_key m \<noteq> None)"

definition shape_ok :: "string \<Rightarrow> session \<Rightarrow> bool" where
  "shape_ok channel s \<longleftrightarrow>
     ss_channel s = channel \<and> distinct (map fst (ss_members s)) \<and>
     distinct (map (mb_user \<circ> snd) (ss_members s)) \<and> length (ss_members s) \<le> 128 \<and> keyed s"

definition counts_ok :: "(nat \<Rightarrow> string) \<Rightarrow> relay \<Rightarrow> string \<Rightarrow> session \<Rightarrow> bool" where
  "counts_ok U r channel s \<longleftrightarrow>
     (\<forall>pid m. map_of (ss_members s) pid = Some m \<longrightarrow>
        pid \<in> U ` {..<re_drawn r} \<and> seqs (re_sent r) channel pid = [1..<Suc (mb_out m)])"

definition session_ok :: "(nat \<Rightarrow> string) \<Rightarrow> relay \<Rightarrow> string \<Rightarrow> session \<Rightarrow> bool" where
  "session_ok U r channel s \<longleftrightarrow> shape_ok channel s \<and> counts_ok U r channel s"

definition log_ok :: "(nat \<Rightarrow> string) \<Rightarrow> relay \<Rightarrow> bool" where
  "log_ok U r \<longleftrightarrow>
     (\<forall>channel pid. (\<exists>k. seqs (re_sent r) channel pid = [1..<Suc k]) \<and>
        (seqs (re_sent r) channel pid \<noteq> [] \<longrightarrow> pid \<in> U ` {..<re_drawn r}))"

definition relay_ok :: "(nat \<Rightarrow> string) \<Rightarrow> relay \<Rightarrow> bool" where
  "relay_ok U r \<longleftrightarrow>
     distinct (map fst (re_values r)) \<and> log_ok U r \<and>
     (\<forall>channel s. map_of (re_values r) channel = Some s \<longrightarrow> session_ok U r channel s)"

subsection \<open>Quiet changes\<close>

definition quiet :: "relay \<Rightarrow> relay \<Rightarrow> bool" where
  "quiet r r' \<longleftrightarrow>
     (distinct (map fst (re_values r)) \<longrightarrow> distinct (map fst (re_values r')) \<and>
        (\<forall>channel s. map_of (re_values r') channel = Some s \<longrightarrow> map_of (re_values r) channel = Some s)) \<and>
     re_drawn r \<le> re_drawn r' \<and> (\<forall>channel pid. seqs (re_sent r') channel pid = seqs (re_sent r) channel pid)"

lemma quiet_refl [simp]: "quiet r r"
  by (simp add: quiet_def)

lemma quiet_trans: "quiet r r' \<Longrightarrow> quiet r' r'' \<Longrightarrow> quiet r r''"
  by (fastforce simp: quiet_def)

lemma quiet_counts: "quiet r r' \<Longrightarrow> counts_ok U r channel s \<Longrightarrow> counts_ok U r' channel s"
  by (fastforce simp: quiet_def counts_ok_def)

lemma quiet_session: "quiet r r' \<Longrightarrow> session_ok U r channel s \<Longrightarrow> session_ok U r' channel s"
  by (simp add: session_ok_def quiet_counts)

lemma quiet_relay: "quiet r r' \<Longrightarrow> relay_ok U r \<Longrightarrow> relay_ok U r'"
  unfolding relay_ok_def
proof (intro conjI allI impI; elim conjE)
  assume q: "quiet r r'" and d: "distinct (map fst (re_values r))" and l: "log_ok U r"
    and s: "\<forall>channel s. map_of (re_values r) channel = Some s \<longrightarrow> session_ok U r channel s"
  from q d show "distinct (map fst (re_values r'))" by (simp add: quiet_def)
  from q l show "log_ok U r'" by (fastforce simp: quiet_def log_ok_def)
  fix channel t assume "map_of (re_values r') channel = Some t"
  with q d have "map_of (re_values r) channel = Some t" by (simp add: quiet_def)
  with s q show "session_ok U r' channel t" by (blast intro: quiet_session)
qed

lemma quiet_emit: "\<not> is_event x \<Longrightarrow> quiet r (emit x r)"
  by (cases x) (simp_all add: quiet_def emit_def)

lemma quiet_ended [intro!]: "quiet r0 r \<Longrightarrow> quiet r0 (emit (Ended sid channel i) r)"
  by (erule quiet_trans) (simp add: quiet_emit)

lemma quiet_invite [intro!]: "quiet r0 r \<Longrightarrow> quiet r0 (invite channel state r)"
  by (erule quiet_trans) (simp add: quiet_emit invite_def)

lemma quiet_pop_local [intro!]: "quiet r0 r \<Longrightarrow> quiet r0 (pop_local sid r)"
  by (simp add: quiet_def pop_local_def)

lemma quiet_save_none [intro!]: "quiet r0 r \<Longrightarrow> quiet r0 (save_none channel r)"
  by (erule quiet_trans) (auto simp: quiet_def save_none_def AList.delete_conv' distinct_delete split: if_splits)

lemma map_of_filter_Some:
  "distinct (map fst xs) \<Longrightarrow> map_of (filter P xs) k = Some v \<Longrightarrow> map_of xs k = Some v"
  by (intro map_of_is_SomeI) (auto dest!: map_of_SomeD)

lemma quiet_expire: "quiet r (expire_registry e r)"
  by (auto simp: quiet_def expire_registry_def distinct_map_filter dest: map_of_filter_Some)

lemma quiet_fold [intro!]: "quiet r0 r \<Longrightarrow> (\<And>x r. quiet r0 r \<Longrightarrow> quiet r0 (f x r)) \<Longrightarrow> quiet r0 (fold f xs r)"
  by (induction xs arbitrary: r) auto

lemma quiet_close_session [intro!]: "quiet r0 r \<Longrightarrow> quiet r0 (close_session channel state r)"
  by (cases state) (auto simp: close_session_def Let_def)

lemma quiet_fail_local [intro!]: "quiet r0 r \<Longrightarrow> quiet r0 (fail_local channel r)"
  unfolding fail_local_def by (rule quiet_fold) auto

lemma quiet_limit: "limit e user action n r = (x, r') \<Longrightarrow> quiet r r'"
  by (auto simp: limit_def sweep_rates_def quiet_def Let_def split: prod.splits if_splits)

lemma quiet_forget [intro!]: "quiet r0 r \<Longrightarrow> quiet r0 (forget_stale_socket sid channel state r)"
  by (auto simp: forget_stale_socket_def)

lemma quiet_draw: "draw_uuid e r = (i, r') \<Longrightarrow> quiet r r'"
  by (auto simp: draw_uuid_def quiet_def)

subsection \<open>Members\<close>

lemma map_of_map_values: "map_of (map (\<lambda>(i, m). (i, f i m)) xs) k = map_option (f k) (map_of xs k)"
  by (induction xs) auto

definition map_members :: "(string \<Rightarrow> member \<Rightarrow> member) \<Rightarrow> session \<Rightarrow> session" where
  "map_members f s = s\<lparr>ss_members := map (\<lambda>(i, m). (i, f i m)) (ss_members s)\<rparr>"

lemma map_members_sel [simp]:
  "ss_channel (map_members f s) = ss_channel s" "ss_session (map_members f s) = ss_session s"
  "ss_host (map_members f s) = ss_host s"
  "map_of (ss_members (map_members f s)) k = map_option (f k) (map_of (ss_members s) k)"
  "map fst (ss_members (map_members f s)) = map fst (ss_members s)"
  "length (ss_members (map_members f s)) = length (ss_members s)"
  by (simp_all add: map_members_def map_of_map_values comp_def case_prod_beta)

lemma update_member_map: "update_member pid f = map_members (\<lambda>i m. if i = pid then f m else m)"
  by (simp add: fun_eq_iff update_member_def map_members_def)

lemma map_members_comp: "map_members f (map_members g s) = map_members (\<lambda>i m. f i (g i m)) s"
  by (simp add: map_members_def comp_def case_prod_beta)

lemma map_members_cong: "(\<And>i m. f i m = g i m) \<Longrightarrow> map_members f s = map_members g s"
  by (simp add: map_members_def)

lemma bump_map:
  "distinct pids \<Longrightarrow>
     bump pids s = map_members (\<lambda>i m. if i \<in> set pids then m\<lparr>mb_out := mb_out m + 1\<rparr> else m) s"
  unfolding bump_def
proof (induction pids arbitrary: s)
  case Nil
  then show ?case by (simp add: map_members_def)
next
  case (Cons pid pids)
  then show ?case
    by (simp add: update_member_map map_members_comp) (rule map_members_cong, auto)
qed

lemma map_members_shape:
  assumes "shape_ok channel s"
    and users: "\<And>i m. mb_user (f i m) = mb_user m"
    and keep: "\<And>i m. map_of (ss_members s) i = Some m \<Longrightarrow>
      (mb_key m \<noteq> None \<longrightarrow> mb_key (f i m) \<noteq> None) \<and> (mb_admitted m \<longrightarrow> mb_admitted (f i m)) \<and>
      (mb_admitted (f i m) \<and> \<not> mb_admitted m \<longrightarrow> mb_key (f i m) \<noteq> None)"
  shows "shape_ok channel (map_members f s)"
proof -
  have "map (mb_user \<circ> snd) (ss_members (map_members f s)) = map (mb_user \<circ> snd) (ss_members s)"
    by (simp add: map_members_def users case_prod_beta comp_def)
  moreover have "keyed (map_members f s)"
  proof -
    from assms(1) obtain h where h: "map_of (ss_members s) (ss_host s) = Some h" "mb_admitted h"
        "mb_key h \<noteq> None \<or> map fst (ss_members s) = [ss_host s]"
      and others: "\<And>pid m. map_of (ss_members s) pid = Some m \<Longrightarrow> pid \<noteq> ss_host s \<Longrightarrow> mb_admitted m \<Longrightarrow> mb_key m \<noteq> None"
      by (simp only: shape_ok_def keyed_def) (elim conjE exE, simp)
    have "mb_key (f pid m) \<noteq> None"
      if "map_of (ss_members s) pid = Some m" "pid \<noteq> ss_host s" "mb_admitted (f pid m)" for pid m
      using keep [OF that(1)] others [OF that(1, 2)] that(3) by blast
    with h keep [OF h(1)] show ?thesis by (auto simp: keyed_def)
  qed
  ultimately show ?thesis using assms(1) by (simp add: shape_ok_def)
qed

lemma map_members_counts:
  "counts_ok U r channel s \<Longrightarrow> (\<And>i m. mb_out (f i m) = mb_out m) \<Longrightarrow> counts_ok U r channel (map_members f s)"
  by (auto simp: counts_ok_def)

lemma shape_expires [simp]: "shape_ok channel (s\<lparr>ss_expires := t\<rparr>) = shape_ok channel s"
  by (simp add: shape_ok_def keyed_def)

lemma session_expires [simp]: "session_ok U r channel (s\<lparr>ss_expires := t\<rparr>) = session_ok U r channel s"
  by (simp add: session_ok_def counts_ok_def)

lemma session_ok_congr:
  "re_sent r' = re_sent r \<Longrightarrow> re_drawn r' = re_drawn r \<Longrightarrow> session_ok U r' channel s = session_ok U r channel s"
  by (simp add: session_ok_def counts_ok_def)

lemma log_ok_congr: "re_sent r' = re_sent r \<Longrightarrow> re_drawn r' = re_drawn r \<Longrightarrow> log_ok U r' = log_ok U r"
  by (simp add: log_ok_def)

lemma save_sel [simp]:
  "re_sent (save e channel s r) = re_sent r" "re_drawn (save e channel s r) = re_drawn r"
  "re_local (save e channel s r) = re_local r"
  "map_of (re_values (save e channel s r)) = (map_of (re_values r))(channel \<mapsto> s\<lparr>ss_expires := rv_now e + TTL\<rparr>)"
  by (simp_all add: save_def fun_eq_iff)

lemma save_relay: "relay_ok U r \<Longrightarrow> session_ok U r channel s \<Longrightarrow> relay_ok U (save e channel s r)"
  unfolding relay_ok_def
proof (intro conjI allI impI; elim conjE)
  show "distinct (map fst (re_values (save e channel s r)))" if "distinct (map fst (re_values r))"
    using that by (simp add: save_def distinct_update)
  show "log_ok U (save e channel s r)" if "log_ok U r"
    using that by (simp add: log_ok_def)
  fix c t
  assume "\<forall>channel s. map_of (re_values r) channel = Some s \<longrightarrow> session_ok U r channel s"
    and "session_ok U r channel s" and "map_of (re_values (save e channel s r)) c = Some t"
  then show "session_ok U (save e channel s r) c t"
    by (auto simp: session_ok_congr [of "save e channel s r" r] simp del: upt.simps split: if_splits)
qed

subsection \<open>Delivery\<close>

lemma fold_emit: "fold (\<lambda>x. emit (f x)) xs r = r\<lparr>re_sent := re_sent r @ map f xs\<rparr>"
  by (induction xs arbitrary: r) (simp_all add: emit_def)

lemma seqs_deliver:
  "distinct pids \<Longrightarrow>
     seqs (map (\<lambda>pid. Event (sid pid) c pid event v (n pid)) pids) channel pid =
       (if channel = c \<and> pid \<in> set pids then [n pid] else [])"
  by (induction pids) auto

definition bumped :: "session \<Rightarrow> string list \<Rightarrow> session" where
  "bumped s pids = map_members (\<lambda>i m. if i \<in> set pids then m\<lparr>mb_out := mb_out m + 1\<rparr> else m) s"

definition messages :: "session \<Rightarrow> string list \<Rightarrow> relay_event \<Rightarrow> emitted list" where
  "messages s pids event =
     map (\<lambda>pid. let m = the (map_of (ss_members s) pid)
       in Event (mb_sid m) (ss_channel s) pid event (view s) (mb_out m)) pids"

lemma deliver_eq:
  assumes "distinct pids" and "set pids \<subseteq> set (map fst (ss_members s))"
  shows "deliver e s pids event r =
    (Inr (bumped s pids),
     (save e (ss_channel s) (bumped s pids) r)\<lparr>re_sent := re_sent r @ messages (bumped s pids) pids event\<rparr>)"
proof -
  have "list_all (\<lambda>pid. map_of (ss_members s) pid \<noteq> None) pids"
    using assms(2) by (auto simp: list_all_iff map_of_eq_None_iff)
  then show ?thesis
    by (simp add: deliver_def bump_map [OF assms(1)] bumped_def [symmetric] messages_def Let_def fold_emit)
       (simp add: bumped_def)
qed

lemma bumped_sel [simp]:
  "ss_channel (bumped s pids) = ss_channel s" "ss_session (bumped s pids) = ss_session s"
  "ss_host (bumped s pids) = ss_host s" "map fst (ss_members (bumped s pids)) = map fst (ss_members s)"
  "map_of (ss_members (bumped s pids)) pid =
     map_option (\<lambda>m. if pid \<in> set pids then m\<lparr>mb_out := mb_out m + 1\<rparr> else m) (map_of (ss_members s) pid)"
  by (simp_all add: bumped_def)

lemma deliver_ok:
  assumes r: "relay_ok U r" and s: "session_ok U r channel s"
    and d: "distinct pids" and sub: "set pids \<subseteq> set (map fst (ss_members s))"
    and del: "deliver e s pids event r = (x, r')"
  shows "relay_ok U r' \<and> session_ok U r' channel (bumped s pids) \<and> x = Inr (bumped s pids)"
proof -
  let ?s = "bumped s pids"
  have c [simp]: "ss_channel s = channel" using s by (simp add: session_ok_def shape_ok_def)
  have r': "r' = (save e channel ?s r)\<lparr>re_sent := re_sent r @ messages ?s pids event\<rparr>" and x: "x = Inr ?s"
    using del deliver_eq [OF d sub] by auto
  have sent: "seqs (messages ?s pids event) c pid =
      (if c = channel \<and> pid \<in> set pids then [mb_out (the (map_of (ss_members ?s) pid))] else [])" for c pid
    using seqs_deliver [OF d] by (simp add: messages_def Let_def)
  have counts: "counts_ok U r channel s" using s by (simp add: session_ok_def)
  have counts': "counts_ok U r' channel ?s"
    unfolding counts_ok_def
  proof (intro allI impI)
    fix pid m assume "map_of (ss_members ?s) pid = Some m"
    then obtain m0 where m0: "map_of (ss_members s) pid = Some m0"
      and m: "m = (if pid \<in> set pids then m0\<lparr>mb_out := mb_out m0 + 1\<rparr> else m0)"
      by auto
    then show "pid \<in> U ` {..<re_drawn r'} \<and> seqs (re_sent r') channel pid = [1..<Suc (mb_out m)]"
      using counts by (auto simp: counts_ok_def r' sent)
  qed
  have shape: "shape_ok channel ?s"
    unfolding bumped_def by (rule map_members_shape) (use s in \<open>auto simp: session_ok_def\<close>)
  have member: "\<exists>m. map_of (ss_members s) pid = Some m" if "pid \<in> set pids" for pid
    using sub that by (metis list.set_map map_of_eq_None_iff not_None_eq subsetD)
  have log: "log_ok U r'"
    unfolding log_ok_def
  proof (intro allI)
    fix c pid
    show "(\<exists>k. seqs (re_sent r') c pid = [1..<Suc k]) \<and> (seqs (re_sent r') c pid \<noteq> [] \<longrightarrow> pid \<in> U ` {..<re_drawn r'})"
    proof (cases "c = channel \<and> pid \<in> set pids")
      case True
      with member obtain m where "map_of (ss_members s) pid = Some m" by blast
      then have "map_of (ss_members ?s) pid = Some (m\<lparr>mb_out := mb_out m + 1\<rparr>)" using True by simp
      with counts' True show ?thesis unfolding counts_ok_def by blast
    next
      case False
      with r have "seqs (re_sent r') c pid = seqs (re_sent r) c pid" and "re_drawn r' = re_drawn r"
        by (auto simp: r' sent)
      with r show ?thesis by (simp add: relay_ok_def log_ok_def del: upt_Suc)
    qed
  qed
  have "session_ok U r' c t" if "map_of (re_values r') c = Some t" for c t
  proof (cases "c = channel")
    case True
    with that have "t = ?s\<lparr>ss_expires := rv_now e + TTL\<rparr>" by (simp add: r')
    with True shape counts' show ?thesis by (simp add: session_ok_def counts_ok_def)
  next
    case False
    with that have "map_of (re_values r) c = Some t" by (simp add: r')
    with r have "session_ok U r c t" by (simp add: relay_ok_def)
    with False show ?thesis by (simp add: session_ok_def counts_ok_def r' sent)
  qed
  moreover have "distinct (map fst (re_values r'))"
    using r by (simp add: relay_ok_def r' save_def distinct_update)
  ultimately show ?thesis
    using log shape counts' by (simp add: relay_ok_def session_ok_def x)
qed

subsection \<open>Leaving\<close>

lemma map_fst_filter_fst: "map fst (filter (\<lambda>(i, m). i \<notin> A) xs) = filter (\<lambda>i. i \<notin> A) (map fst xs)"
  by (induction xs) auto

lemma map_of_filter_fst: "map_of (filter (\<lambda>(i, m). i \<notin> A) xs) k = (if k \<in> A then None else map_of xs k)"
  by (induction xs) auto

definition without :: "string set \<Rightarrow> session \<Rightarrow> session" where
  "without A s = s\<lparr>ss_members := filter (\<lambda>(i, m). i \<notin> A) (ss_members s)\<rparr>"

lemma without_sel [simp]:
  "ss_channel (without A s) = ss_channel s" "ss_host (without A s) = ss_host s"
  "ss_session (without A s) = ss_session s"
  "map_of (ss_members (without A s)) k = (if k \<in> A then None else map_of (ss_members s) k)"
  "map fst (ss_members (without A s)) = filter (\<lambda>i. i \<notin> A) (map fst (ss_members s))"
  by (simp_all add: without_def map_of_filter_fst map_fst_filter_fst)

lemma session_without:
  assumes s: "session_ok U r channel s" and A: "ss_host s \<notin> A"
  shows "session_ok U r channel (without A s)"
proof -
  have "length (ss_members (without A s)) \<le> length (ss_members s)" by (simp add: without_def)
  moreover have "distinct (map (mb_user \<circ> snd) (ss_members (without A s)))"
    using s by (simp add: session_ok_def shape_ok_def without_def distinct_map_filter)
  moreover have "keyed (without A s)"
    using s A by (auto simp: session_ok_def shape_ok_def keyed_def)
  ultimately show ?thesis using s by (auto simp: session_ok_def shape_ok_def counts_ok_def)
qed

lemma admitted_pids_sub: "set (admitted_pids s) \<subseteq> set (map fst (ss_members s))"
  by (auto simp: admitted_pids_def)

lemma distinct_admitted_pids: "distinct (map fst (ss_members s)) \<Longrightarrow> distinct (admitted_pids s)"
  by (simp add: admitted_pids_def distinct_map_filter)

lemma session_ok_keys: "session_ok U r channel s \<Longrightarrow> distinct (map fst (ss_members s))"
  by (simp add: session_ok_def shape_ok_def)

lemma session_ok_channel: "session_ok U r channel s \<Longrightarrow> ss_channel s = channel"
  by (simp add: session_ok_def shape_ok_def)

lemma depart_ok:
  "relay_ok U r \<Longrightarrow> session_ok U r channel s \<Longrightarrow> depart e removed s r = (x, r') \<Longrightarrow>
     relay_ok U r' \<and> (\<exists>s'. x = Inr s' \<and> session_ok U r' channel s' \<and> ss_host s' = ss_host s \<and>
       map fst (ss_members s') = map fst (ss_members s))"
proof (induction e removed s r arbitrary: x r' rule: depart.induct)
  case (1 e s r)
  then show ?case by auto
next
  case (2 e pid p removed s r)
  define r1 where "r1 = emit (Ended (mb_sid p) (ss_channel s) (Some (ss_session s))) (pop_local (mb_sid p) r)"
  have q: "quiet r r1" unfolding r1_def by auto
  obtain y r2 where del: "deliver e s (admitted_pids s) (Departed pid (mb_admitted p)) r1 = (y, r2)"
    by (cases "deliver e s (admitted_pids s) (Departed pid (mb_admitted p)) r1")
  have step: "relay_ok U r2 \<and> session_ok U r2 channel (bumped s (admitted_pids s)) \<and> y = Inr (bumped s (admitted_pids s))"
    by (rule deliver_ok [OF _ _ distinct_admitted_pids admitted_pids_sub del])
      (use 2 q in \<open>auto intro: quiet_relay quiet_session session_ok_keys\<close>)
  have rest: "depart e removed (bumped s (admitted_pids s)) r2 = (x, r')"
    using "2.prems"(3) step by (simp add: Let_def r1_def [symmetric] del and_then_def)
  show ?case
    using "2.IH" [OF r1_def _ _ rest] step by simp
qed

lemma relay_close: "relay_ok U r \<Longrightarrow> relay_ok U (close_session channel state r)"
  by (rule quiet_relay [of r]) auto

lemma relay_fail_local: "relay_ok U r \<Longrightarrow> relay_ok U (fail_local channel r)"
  by (rule quiet_relay [of r]) auto

lemma remove_members_ok:
  assumes r: "relay_ok U r" and s: "session_ok U r channel s"
    and rem: "remove_members e s pids r = (x, r')"
  shows "relay_ok U r' \<and> (\<exists>st. x = Inr st \<and> (\<forall>s'. st = Some s' \<longrightarrow> session_ok U r' channel s' \<and>
    ss_host s' = ss_host s \<and> map fst (ss_members s') = filter (\<lambda>i. i \<notin> set pids) (map fst (ss_members s))))"
proof (cases "ss_host s \<in> set pids")
  case True
  with rem r show ?thesis by (auto simp: remove_members_def intro: relay_close)
next
  case False
  let ?removed = "filter (\<lambda>(i, m). i \<in> set pids) (ss_members s)"
  obtain y r2 where dep: "depart e ?removed (without (set pids) s) r = (y, r2)"
    by (cases "depart e ?removed (without (set pids) s) r")
  have "relay_ok U r2 \<and> (\<exists>s'. y = Inr s' \<and> session_ok U r2 channel s' \<and> ss_host s' = ss_host s \<and>
      map fst (ss_members s') = map fst (ss_members (without (set pids) s)))"
    using depart_ok [OF r session_without [OF s False] dep] by simp
  with rem False dep show ?thesis
    by (auto simp: remove_members_def Let_def without_def [symmetric] and_then_def)
qed

lemma prune_ok:
  assumes r: "relay_ok U r" and s: "\<And>s. state = Some s \<Longrightarrow> session_ok U r channel s"
    and pr: "prune e state eligible r = (x, r')"
  shows "relay_ok U r' \<and> (\<exists>st. x = Inr st \<and> (\<forall>s'. st = Some s' \<longrightarrow> session_ok U r' channel s'))"
proof (cases state)
  case None
  with r pr show ?thesis by (auto simp: prune_def)
next
  case (Some s0)
  define stale where "stale = map fst (filter (\<lambda>(i, p). is_stale e (ss_channel s0) eligible p) (ss_members s0))"
  have eq: "prune e state eligible r =
      (if ss_host s0 \<in> set stale then (Inr None, close_session (ss_channel s0) (Some s0) r)
       else if stale \<noteq> [] then remove_members e s0 stale r else (Inr (Some s0), r))"
    by (simp add: prune_def Some Let_def stale_def)
  consider "ss_host s0 \<in> set stale" | "ss_host s0 \<notin> set stale" "stale \<noteq> []" | "stale = []" by fastforce
  then show ?thesis
  proof cases
    case 2
    with pr eq have "remove_members e s0 stale r = (x, r')" by simp
    from remove_members_ok [OF r s [OF Some] this] show ?thesis by blast
  qed (use pr eq r s [OF Some] in \<open>auto intro: relay_close\<close>)
qed

subsection \<open>Requests\<close>

text \<open>
  What an operation on the session keeps: the relay, and the session it goes on with, if any.
\<close>

definition keeps :: "(nat \<Rightarrow> string) \<Rightarrow> string \<Rightarrow> session relay_result \<Rightarrow> bool" where
  "keeps U channel p \<longleftrightarrow>
     relay_ok U (snd p) \<and> (\<forall>s. fst p = Inr s \<longrightarrow> session_ok U (snd p) channel s)"

definition sound :: "(nat \<Rightarrow> string) \<Rightarrow> 'a relay_result \<Rightarrow> bool" where
  "sound U p \<longleftrightarrow> relay_ok U (snd p)"

lemma keeps_simps [simp]:
  "keeps U channel (Inl er, r) \<longleftrightarrow> relay_ok U r"
  "keeps U channel (Inr s, r) \<longleftrightarrow> relay_ok U r \<and> session_ok U r channel s"
  "sound U (x, r) \<longleftrightarrow> relay_ok U r"
  by (simp_all add: keeps_def sound_def)

lemma keeps_deliver:
  "relay_ok U r \<Longrightarrow> session_ok U r channel s \<Longrightarrow> distinct pids \<Longrightarrow> set pids \<subseteq> set (map fst (ss_members s)) \<Longrightarrow>
     keeps U channel (deliver e s pids event r)"
  using deliver_ok [of U r channel s pids e event] by (cases "deliver e s pids event r") auto

lemma keeps_packet:
  "relay_ok U r \<Longrightarrow> (\<And>k. keeps U channel (f k r)) \<Longrightarrow> keeps U channel (and_then (require_packet v r) f)"
  by (auto simp: require_packet_def and_then_def split: option.splits)

lemma keeps_and_then:
  "keeps U channel p \<Longrightarrow> (\<And>s r. fst p = Inr s \<Longrightarrow> relay_ok U r \<Longrightarrow> session_ok U r channel s \<Longrightarrow> keeps U channel (f s r)) \<Longrightarrow>
     keeps U channel (and_then p f)"
  by (cases p) (auto simp: and_then_def split: sum.splits)

lemma sound_and_then:
  "keeps U channel p \<Longrightarrow> (\<And>s r. relay_ok U r \<Longrightarrow> session_ok U r channel s \<Longrightarrow> sound U (f s r)) \<Longrightarrow>
     sound U (and_then p f)"
  by (cases p) (auto simp: and_then_def split: sum.splits)

lemma session_update:
  assumes "session_ok U r channel s"
    and "\<And>m. mb_user (f m) = mb_user m" and "\<And>m. mb_out (f m) = mb_out m"
    and "\<And>m. map_of (ss_members s) pid = Some m \<Longrightarrow>
      (mb_key m \<noteq> None \<longrightarrow> mb_key (f m) \<noteq> None) \<and> (mb_admitted m \<longrightarrow> mb_admitted (f m)) \<and>
      (mb_admitted (f m) \<and> \<not> mb_admitted m \<longrightarrow> mb_key (f m) \<noteq> None)"
  shows "session_ok U r channel (update_member pid f s)"
proof -
  have "shape_ok channel (map_members (\<lambda>i m. if i = pid then f m else m) s)"
    by (rule map_members_shape) (use assms in \<open>auto simp: session_ok_def\<close>)
  moreover have "counts_ok U r channel (map_members (\<lambda>i m. if i = pid then f m else m) s)"
    by (rule map_members_counts) (use assms in \<open>auto simp: session_ok_def\<close>)
  ultimately show ?thesis by (simp add: update_member_map session_ok_def)
qed

lemma update_member_sel [simp]:
  "ss_channel (update_member pid f s) = ss_channel s" "ss_session (update_member pid f s) = ss_session s"
  "ss_host (update_member pid f s) = ss_host s"
  "map fst (ss_members (update_member pid f s)) = map fst (ss_members s)"
  "map_of (ss_members (update_member pid f s)) i =
     (if i = pid then map_option f (map_of (ss_members s) i) else map_of (ss_members s) i)"
  by (auto simp: update_member_map map_option_idI)

lemma host_in: "session_ok U r channel s \<Longrightarrow> ss_host s \<in> set (map fst (ss_members s))"
  by (auto simp: session_ok_def shape_ok_def keyed_def dest: map_of_SomeD intro: rev_image_eqI)

lemma keeps_bind_key:
  assumes r: "relay_ok U r" and s: "session_ok U r channel s"
  shows "keeps U channel (bind_key e s pid m data r)"
proof -
  have upd: "session_ok U r channel (update_member pid (\<lambda>m. m\<lparr>mb_key := Some key\<rparr>) s)" for key
    by (rule session_update [OF s]) auto
  have ch: "ss_channel s = channel" using s by (rule session_ok_channel)
  have own: "keeps U channel (Inr t, invite (ss_channel t) (Some t) (save e (ss_channel t) t r))"
    if "session_ok U r channel t" for t
  proof -
    have "ss_channel t = channel" using that by (rule session_ok_channel)
    moreover have "relay_ok U (save e channel t r)" by (rule save_relay [OF r that])
    moreover have "session_ok U (save e channel t r) channel t"
      using that by (simp add: session_ok_congr [of "save e channel t r" r])
    moreover have "quiet (save e channel t r) (invite channel (Some t) (save e channel t r))"
      by (intro quiet_invite quiet_refl)
    ultimately show ?thesis
      by (simp add: quiet_relay [of "save e channel t r"] quiet_session [of "save e channel t r"])
  qed
  have candidate: "keeps U channel (deliver e (update_member pid (\<lambda>m. m\<lparr>mb_key := Some key\<rparr>) s) [ss_host s] event r)" for key event
    by (rule keeps_deliver [OF r upd]) (use host_in [OF s] in \<open>simp_all del: set_map\<close>)
  have "keeps U channel
      (if base64_length key \<noteq> Some 32 then (Inl Rejected, r)
       else let s = update_member pid (\<lambda>m. m\<lparr>mb_key := Some key\<rparr>) s
         in if pid \<noteq> ss_host s then
              and_then (require_packet (jget data ''packet'') r) (\<lambda>kp. deliver e s [ss_host s] (Candidate pid kp))
            else (Inr s, invite (ss_channel s) (Some s) (save e (ss_channel s) s r)))" for key
    using r own [OF upd, of key] by (cases "pid = ss_host s") (simp_all add: Let_def keeps_packet candidate)
  then show ?thesis
    using r by (simp add: bind_key_def keeps_packet del: update_member_sel)
qed

lemma keeps_admit:
  assumes r: "relay_ok U r" and s: "session_ok U r channel s"
  shows "keeps U channel (admit e s pid body data r)"
proof -
  have main: "keeps U channel (and_then (deliver e t (other_admitted s p) (Mls p body) r)
      (\<lambda>s. deliver e s [target] (Welcome p w)))"
    if t: "t = update_member target (\<lambda>m. m\<lparr>mb_admitted := True\<rparr>) s"
      and j1: "map_of (ss_members s) target = Some j" and j2: "mb_key j \<noteq> None" for t target w j p
  proof (rule keeps_and_then)
    have ok: "session_ok U r channel t"
      unfolding t by (rule session_update [OF s]) (use j1 j2 in auto)
    have sub: "set (other_admitted s p) \<subseteq> set (map fst (ss_members t))"
      using admitted_pids_sub [of s] by (auto simp: other_admitted_def t)
    have d: "distinct (other_admitted s p)"
      using s by (simp add: other_admitted_def distinct_admitted_pids session_ok_keys)
    show "keeps U channel (deliver e t (other_admitted s p) (Mls p body) r)"
      by (rule keeps_deliver [OF r ok d sub])
    fix s' r' assume "fst (deliver e t (other_admitted s p) (Mls p body) r) = Inr s'"
      and ok': "relay_ok U r'" "session_ok U r' channel s'"
    then have "s' = bumped t (other_admitted s p)"
      using deliver_eq [OF d sub] by simp
    then have "map fst (ss_members s') = map fst (ss_members t)"
      by (simp only: bumped_sel)
    moreover have "target \<in> set (map fst (ss_members s))"
      using j1 by (auto dest: map_of_SomeD intro: rev_image_eqI)
    ultimately show "keeps U channel (deliver e s' [target] (Welcome p w) r')"
      using ok' by (intro keeps_deliver) (simp_all add: t del: set_map)
  qed
  show ?thesis
    unfolding admit_def Let_def
    using r by (auto intro!: keeps_packet main split: json.splits option.splits)
qed

lemma keeps_forward:
  assumes r: "relay_ok U r" and s: "session_ok U r channel s"
  shows "keeps U channel (forward e s pid m data r)"
proof -
  have "keeps U channel (deliver e s (other_admitted s pid) (Mls pid body) r)" for body
    using s admitted_pids_sub [of s]
    by (intro keeps_deliver [OF r s]) (auto simp: other_admitted_def distinct_admitted_pids session_ok_keys)
  with r keeps_admit [OF r s] show ?thesis
    unfolding forward_def by (auto intro!: keeps_packet)
qed

lemma sound_and_thenI:
  "sound U p \<Longrightarrow> (\<And>x r. fst p = Inr x \<Longrightarrow> relay_ok U r \<Longrightarrow> sound U (f x r)) \<Longrightarrow> sound U (and_then p f)"
  by (cases p) (auto simp: and_then_def split: sum.splits)

lemma log_ok_grow: "log_ok U r \<Longrightarrow> re_sent r' = re_sent r \<Longrightarrow> re_drawn r \<le> re_drawn r' \<Longrightarrow> log_ok U r'"
  by (fastforce simp: log_ok_def simp del: upt_Suc)

lemma fresh_pid:
  assumes "relay_ok U r" and "inj U"
  shows "seqs (re_sent r) channel (U (re_drawn r)) = []"
proof (rule ccontr)
  assume "seqs (re_sent r) channel (U (re_drawn r)) \<noteq> []"
  with assms(1) have "U (re_drawn r) \<in> U ` {..<re_drawn r}" by (simp add: relay_ok_def log_ok_def)
  with assms(2) show False by (auto simp: inj_def)
qed

lemma map_fst_update: "map fst (AList.update k v d) = (if k \<in> set (map fst d) then map fst d else map fst d @ [k])"
  by (induction d) auto

lemma update_fresh: "k \<notin> set (map fst d) \<Longrightarrow> AList.update k v d = d @ [(k, v)]"
  by (induction d) auto

lemma sound_enter:
  assumes inj: "inj U" and r: "relay_ok U r" and fresh: "pid = U n" "re_drawn r \<le> n" "n < re_drawn r1"
    and q: "quiet r r1" and s: "shape_ok channel s \<or> s = \<lparr>ss_channel = channel, ss_session = i, ss_host = pid,
      ss_members = [], ss_expires = 0\<rparr> \<and> action = ''start''"
    and room: "length (ss_members s) < 128" and new: "\<forall>(i, p) \<in> set (ss_members s). mb_user p \<noteq> u_id user"
    and bound: "ss_members s \<noteq> [] \<Longrightarrow> action \<noteq> ''start'' \<and> (\<exists>h. map_of (ss_members s) (ss_host s) = Some h \<and> mb_key h \<noteq> None)"
    and counts: "counts_ok U r channel s"
  shows "sound U (enter e action sid user channel s pid r1)"
proof -
  define t where "t = s\<lparr>ss_members := AList.update pid (new_member e action sid user) (ss_members s)\<rparr>"
  define r2 where "r2 = r1\<lparr>re_local := AList.update sid channel (re_local r1)\<rparr>"
  have r1: "relay_ok U r1" by (rule quiet_relay [OF q r])
  have r2: "relay_ok U r2"
    by (rule quiet_relay [OF _ r1]) (simp add: quiet_def r2_def)
  have drawn: "pid \<notin> U ` {..<re_drawn r}" using fresh(2) by (auto simp: fresh(1) inj_eq [OF inj])
  have none: "seqs (re_sent r1) channel pid = []"
    using q r drawn by (auto simp: quiet_def relay_ok_def log_ok_def)
  have out: "pid \<notin> set (map fst (ss_members s))"
    using counts drawn by (metis counts_ok_def list.set_map map_of_eq_None_iff not_None_eq)
  have mem: "ss_members t = ss_members s @ [(pid, new_member e action sid user)]"
    by (simp add: t_def update_fresh [OF out])
  have lookup: "map_of (ss_members t) = (map_of (ss_members s))(pid \<mapsto> new_member e action sid user)"
    by (simp add: t_def fun_eq_iff)
  have "counts_ok U r1 channel s" by (rule quiet_counts [OF q counts])
  then have counts_t: "counts_ok U r2 channel t"
    using fresh none by (auto simp: counts_ok_def lookup r2_def new_member_def)
  have "distinct (map (mb_user \<circ> snd) (ss_members t))" if "distinct (map (mb_user \<circ> snd) (ss_members s))"
    using that new by (auto simp: mem new_member_def)
  moreover have "keyed t"
  proof (cases "ss_members s = []")
    case True
    with s show ?thesis by (auto simp: shape_ok_def keyed_def lookup t_def new_member_def)
  next
    case False
    with s bound have "keyed s" "action \<noteq> ''start''" by (auto simp: shape_ok_def)
    moreover from False bound obtain h where "map_of (ss_members s) (ss_host s) = Some h" "mb_key h \<noteq> None" by blast
    moreover from this have "ss_host s \<noteq> pid" using out by (auto dest: map_of_SomeD intro: rev_image_eqI)
    moreover have "ss_host t = ss_host s" by (simp add: t_def)
    ultimately show ?thesis by (auto simp: keyed_def lookup new_member_def split: if_splits)
  qed
  ultimately have "shape_ok channel t"
    using s room out by (auto simp: shape_ok_def mem) (simp_all add: t_def shape_ok_def)
  with counts_t have "session_ok U r2 channel t" by (simp add: session_ok_def)
  then have "relay_ok U (save e channel t r2)" by (rule save_relay [OF r2])
  then show ?thesis by (simp add: enter_def Let_def t_def r2_def)
qed

lemma sound_reserve:
  assumes inj: "inj U" and U: "rv_uuid e = U" and r: "relay_ok U r"
    and s: "\<And>s. state = Some s \<Longrightarrow> session_ok U r channel s"
  shows "sound U (reserve e action sid user channel data state r)"
proof -
  define r1 where "r1 = forget_stale_socket sid channel state r"
  have q: "quiet r r1" unfolding r1_def by (intro quiet_forget quiet_refl)
  have r1: "relay_ok U r1" by (rule quiet_relay [OF q r])
  have drawn: "re_drawn r1 = re_drawn r"
    by (simp add: r1_def forget_stale_socket_def pop_local_def)
  define r2 where "r2 = r1\<lparr>re_drawn := re_drawn r1 + 1\<rparr>"
  define r3 where "r3 = r2\<lparr>re_drawn := re_drawn r2 + 1\<rparr>"
  have q2: "quiet r r2" and q3: "quiet r r3"
    using q by (auto simp: quiet_def r2_def r3_def)
  have start: "sound U (enter e action sid user channel
      \<lparr>ss_channel = channel, ss_session = rv_uuid e (re_drawn r2), ss_host = rv_uuid e (re_drawn r1),
       ss_members = [], ss_expires = 0\<rparr> (rv_uuid e (re_drawn r1)) r3)" if "action = ''start''"
    by (rule sound_enter [OF inj r _ _ _ q3, where n = "re_drawn r" and i = "rv_uuid e (re_drawn r2)"])
      (use that U drawn in \<open>simp_all add: counts_ok_def r2_def r3_def\<close>)
  have join: "sound U (enter e action sid user channel s (rv_uuid e (re_drawn r1)) r2)"
    if "state = Some s" "action \<noteq> ''start''" "length (ss_members s) < 128"
      "\<forall>(i, p) \<in> set (ss_members s). mb_user p \<noteq> u_id user"
      "map_of (ss_members s) (ss_host s) = Some h" "mb_key h \<noteq> None" for s h
    by (rule sound_enter [OF inj r _ _ _ q2, where n = "re_drawn r"])
      (use that U drawn s [OF that(1)] in \<open>simp_all add: session_ok_def r2_def\<close>)
  show ?thesis
    unfolding reserve_def Let_def r1_def [symmetric] draw_uuid_def
    using r1 start join
    by (auto simp: r2_def r3_def split: option.splits)
qed

lemma sound_participate:
  assumes r: "relay_ok U r" and s: "session_ok U r channel s"
  shows "sound U (participate e action sid user channel data s r)"
proof -
  have main: "sound U
      (if action = ''leave'' then and_then (remove_members e t [pid] r) (\<lambda>_ r. (Inr (ok_reply []), r))
       else and_then
         (if action = ''bind'' then bind_key e t pid m data r
          else if action = ''ping'' then (Inr t, save e channel t r)
          else if action = ''packet'' then forward e t pid m data r
          else (Inl Rejected, r)) (\<lambda>s r. (Inr (ok_reply (dict_of (view s))), r)))"
    if t: "session_ok U r channel t" for t pid m
  proof (cases "action = ''leave''")
    case True
    obtain x r' where "remove_members e t [pid] r = (x, r')" by fastforce
    with True remove_members_ok [OF r t this] show ?thesis by (auto simp: and_then_def)
  next
    case False
    have "keeps U channel (Inr t, save e channel t r)"
      using save_relay [OF r t] t by (simp add: session_ok_congr [of "save e channel t r" r])
    with False r keeps_bind_key [OF r t] keeps_forward [OF r t]
    have "keeps U channel (if action = ''bind'' then bind_key e t pid m data r
        else if action = ''ping'' then (Inr t, save e channel t r)
        else if action = ''packet'' then forward e t pid m data r else (Inl Rejected, r))"
      by simp
    then have "sound U (and_then (if action = ''bind'' then bind_key e t pid m data r
        else if action = ''ping'' then (Inr t, save e channel t r)
        else if action = ''packet'' then forward e t pid m data r else (Inl Rejected, r))
        (\<lambda>s r. (Inr (ok_reply (dict_of (view s))), r)))"
      by (rule sound_and_then) simp
    with False show ?thesis by simp
  qed
  have "session_ok U r channel (update_member pid (\<lambda>m. m\<lparr>mb_seen := rv_now e\<rparr>) s)" for pid
    by (rule session_update [OF s]) auto
  note main = main [OF this]
  show ?thesis
    using r main by (simp add: participate_def Let_def split: json.split option.split)
qed

lemma sound_dispatch:
  assumes inj: "inj U" and U: "rv_uuid e = U" and r: "relay_ok U r"
    and s: "\<And>s. state = Some s \<Longrightarrow> session_ok U r channel s"
  shows "sound U (dispatch e action sid user channel data state r)"
  using r s sound_reserve [OF inj U r s] sound_participate [OF r]
  by (auto simp: dispatch_def status_reply_def split: option.splits)

lemma load_ok: "relay_ok U r \<Longrightarrow> load e channel r = Some s \<Longrightarrow> session_ok U r channel s"
  by (auto simp: load_def relay_ok_def split: option.splits if_splits)

lemma sound_transact:
  assumes inj: "inj U" and U: "rv_uuid e = U" and r: "relay_ok U r"
  shows "sound U (transact e action sid user channel data r)"
proof (cases "eligible_users e (u_id user # session_users (load e channel r))")
  case (Inl er)
  with r show ?thesis by (simp add: transact_def)
next
  case (Inr eligible)
  obtain x r1 where pr: "prune e (load e channel r) eligible r = (x, r1)" by fastforce
  have "session_ok U r channel s" if "load e channel r = Some s" for s by (rule load_ok [OF r that])
  from prune_ok [OF r this pr] obtain st
    where x: "x = Inr st" and r1: "relay_ok U r1" and st: "\<And>s. st = Some s \<Longrightarrow> session_ok U r1 channel s"
    by fastforce
  show ?thesis
    using sound_dispatch [OF inj U r1 st] r1
    by (simp add: transact_def Let_def Inr pr x and_then_def split: option.split)
qed

lemma handle_ok:
  assumes inj: "inj U" and U: "rv_uuid e = U" and r: "relay_ok U r" and h: "handle e action sid data r = (reply, r')"
  shows "relay_ok U r'"
proof -
  have "sound U (and_then (limit e i action n r) (\<lambda>_. transact e action sid user channel d))" for i n user channel d
  proof -
    obtain x r1 where l: "limit e i action n r = (x, r1)" by fastforce
    from quiet_relay [OF quiet_limit [OF l] r] have "relay_ok U r1" .
    with sound_transact [OF inj U this] show ?thesis
      by (auto simp: l and_then_def split: sum.split)
  qed
  then have "relay_ok U (snd (and_then (limit e i action n r) (\<lambda>_. transact e action sid user channel d)))" for i n user channel d
    by (simp add: sound_def)
  with r have "relay_ok U (snd (handle e action sid data r))"
    unfolding handle_def Let_def
    by (auto split: json.split option.split sum.split relay_error.split prod.split intro: relay_fail_local)
      (metis relay_fail_local snd_conv)+
  with h show ?thesis by simp
qed

lemma guarded_ok: "sound U p \<Longrightarrow> relay_ok U (guarded channel p)"
  by (cases p) (auto simp: guarded_def split: sum.splits intro: relay_fail_local)

lemma disconnect_session_ok:
  assumes r: "relay_ok U r"
  shows "relay_ok U (disconnect_session e sid channel r)"
proof -
  have "sound U (remove_members e s pids r)" if "load e channel r = Some s" for s pids
    using remove_members_ok [OF r load_ok [OF r that], of e pids] by (cases "remove_members e s pids r") auto
  with r show ?thesis
    by (auto simp: disconnect_session_def split: option.split intro: guarded_ok)
qed

lemma pop_local_ok: "relay_ok U r \<Longrightarrow> relay_ok U (pop_local sid r)"
  by (rule quiet_relay [of r]) auto

lemma disconnect_ok: "relay_ok U r \<Longrightarrow> relay_ok U (disconnect e sid r)"
  by (auto simp: disconnect_def Let_def split: option.split intro: disconnect_session_ok pop_local_ok)

lemma sweep_channel_ok:
  assumes r: "relay_ok U r"
  shows "relay_ok U (sweep_channel e channel r)"
proof -
  have "sound U (prune e (Some s) eligible r)" if "load e channel r = Some s" for s eligible
    using prune_ok [OF r, of "Some s" channel e eligible] load_ok [OF r that]
    by (cases "prune e (Some s) eligible r") auto
  with r show ?thesis
    by (auto simp: sweep_channel_def split: option.split sum.split intro: guarded_ok relay_fail_local)
qed

lemma sweep_ok: "relay_ok U r \<Longrightarrow> relay_ok U (sweep e r)"
proof -
  have "relay_ok U (fold (sweep_channel e) xs r)" if "relay_ok U r" for xs r
    using that by (induction xs arbitrary: r) (auto intro: sweep_channel_ok)
  then show "relay_ok U r \<Longrightarrow> ?thesis"
    unfolding sweep_def by (rule quiet_relay [OF quiet_expire])
qed

lemma invalidate_ok: "relay_ok U r \<Longrightarrow> relay_ok U (invalidate e channel r)"
  unfolding invalidate_def by (rule relay_close)

lemma relay_step_ok: "inj U \<Longrightarrow> relay_ok U r \<Longrightarrow> relay_step U r r' \<Longrightarrow> relay_ok U r'"
  by (erule relay_stepE)
    (auto intro: handle_ok disconnect_ok pop_local_ok disconnect_session_ok invalidate_ok sweep_channel_ok sweep_ok
      quiet_relay [OF quiet_expire])

lemma empty_relay_ok: "relay_ok U empty_relay"
  by (auto simp: relay_ok_def log_ok_def empty_relay_def intro: exI [of _ 0])

lemma reachable_ok: "reachable U r \<Longrightarrow> inj U \<Longrightarrow> relay_ok U r"
  by (induction rule: reachable.induct) (auto intro: empty_relay_ok relay_step_ok)

end
