(* ===== verification/RelaySamples.thy ===== *)
theory RelaySamples
  imports Relay Samples
begin

text \<open>
  A concrete run for the witnesses: two administrators in a direct channel. Alice starts a session
  and binds her key, bob joins and binds his, which offers him to the host as a candidate. Each
  request is evaluated from the state the one before left.
\<close>

lemma handle_eq:
  "jget d ''channel'' = JStr channel \<Longrightarrow> authorize e sid channel = Some user \<Longrightarrow> 0 < length channel \<Longrightarrow>
     length channel \<le> 128 \<Longrightarrow> length (json_dumps (JObj d)) \<le> 3 * max_packet \<Longrightarrow>
     handle e action sid (JObj d) r =
       (case and_then (limit e (u_id user) action (int (length (json_dumps (JObj d)))) r)
           (\<lambda>_. transact e action sid user channel d) of
          (Inr reply, r) \<Rightarrow> (reply, r)
        | (Inl Rejected, r) \<Rightarrow> (unavailable, r)
        | (Inl Failed, r) \<Rightarrow> (ended, fail_local (Some channel) r))"
  by (simp add: handle_def Let_def del: json_dumps.simps)

definition relay_demo_env :: relay_env where
  "relay_demo_env = \<lparr>rv_db = empty_db\<lparr>user_t := [sample_user ''alice'' ''admin'', sample_user ''bob'' ''admin'']\<rparr>,
     rv_default_permissions = [], rv_user_permissions = [], rv_channels_enable = True,
     rv_encryption_enable = True, rv_websocket_support = True, rv_logging = False, rv_prod = False,
     rv_transport = (\<lambda>_. ''websocket''), rv_scheme = (\<lambda>_. ''wss''),
     rv_authenticate = (\<lambda>sid. Some (if sid = ''sa'' then ''alice'' else ''bob'')),
     rv_channel = (\<lambda>_. Some (''dm'', True)), rv_is_member = (\<lambda>_ _. True),
     rv_active_members = (\<lambda>_. [''alice'', ''bob'']), rv_now = 100, rv_monotonic = 100,
     rv_uuid = (\<lambda>n. replicate (Suc n) (CHR ''u''))\<rparr>"

definition demo_key :: string where
  "demo_key = ''AAAAAAAAAAAAAAAAAAAAAAAAAAAAAAAAAAAAAAAAAAA=''"


definition demo_data :: "string \<Rightarrow> json dict" where
  "demo_data pid = [(''channel'', JStr ''c''), (''session'', JStr ''uu''), (''participation'', JStr pid),
     (''key'', JStr demo_key), (''packet'', JStr ''AAAA'')]"

definition alice_place :: "string option \<Rightarrow> nat \<Rightarrow> member" where
  "alice_place key n = \<lparr>mb_sid = ''sa'', mb_user = ''alice'', mb_name = ''alice'', mb_key = key, mb_seen = 100,
     mb_out = n, mb_admitted = True\<rparr>"

definition bob_place :: "string option \<Rightarrow> nat \<Rightarrow> member" where
  "bob_place key n = \<lparr>mb_sid = ''sb'', mb_user = ''bob'', mb_name = ''bob'', mb_key = key, mb_seen = 100,
     mb_out = n, mb_admitted = False\<rparr>"

definition demo_session :: "(string \<times> member) list \<Rightarrow> session" where
  "demo_session ms = \<lparr>ss_channel = ''c'', ss_session = ''uu'', ss_host = ''u'', ss_members = ms, ss_expires = 190\<rparr>"

lemma demo_authorize:
  "authorize relay_demo_env ''sa'' ''c'' = Some (sample_user ''alice'' ''admin'')"
  "authorize relay_demo_env ''sb'' ''c'' = Some (sample_user ''bob'' ''admin'')"
  by (simp_all add: authorize_def relay_demo_env_def sample_user_def empty_db_def)

lemma demo_eligible:
  "eligible_users relay_demo_env ids =
     Inr (filter (\<lambda>u. u_id u \<in> set ids) [sample_user ''alice'' ''admin'', sample_user ''bob'' ''admin''])"
  by (simp add: eligible_users_def relay_demo_env_def sample_user_def empty_db_def user_eligible_def)



lemma demo_size: "length (json_dumps (JObj (demo_data ''u''))) = 128"
  "length (json_dumps (JObj (demo_data ''uuu''))) = 130"
  by (simp_all add: demo_data_def demo_key_def json_string_def json_char_def)

lemma demo_get [simp]:
  "jget (demo_data pid) ''channel'' = JStr ''c''" "jget (demo_data pid) ''session'' = JStr ''uu''"
  "jget (demo_data pid) ''participation'' = JStr pid" "jget (demo_data pid) ''key'' = JStr demo_key"
  "jget (demo_data pid) ''packet'' = JStr ''AAAA''"
  by (simp_all add: demo_data_def)

lemma demo_packets [simp]: "base64_length demo_key = Some 32" "packet (JStr demo_key) = Some demo_key"
  "packet (JStr ''AAAA'') = Some ''AAAA''"
  by (simp_all add: demo_key_def base64_length_def is_base64_char_def packet_def max_packet_def)

lemma demo_handle:
  assumes "pid = ''u'' \<or> pid = ''uuu''" and "sid = ''sa'' \<and> i = ''alice'' \<or> sid = ''sb'' \<and> i = ''bob''"
  shows "handle relay_demo_env action sid (JObj (demo_data pid)) r =
      (case and_then (limit relay_demo_env i action (127 + int (length pid)) r)
           (\<lambda>_. transact relay_demo_env action sid (sample_user i ''admin'') ''c'' (demo_data pid)) of
          (Inr reply, r) \<Rightarrow> (reply, r)
        | (Inl Rejected, r) \<Rightarrow> (unavailable, r)
        | (Inl Failed, r) \<Rightarrow> (ended, fail_local (Some ''c'') r))"
proof -
  have user: "authorize relay_demo_env sid ''c'' = Some (sample_user i ''admin'')"
    using assms(2) demo_authorize by auto
  have size: "length (json_dumps (JObj (demo_data pid))) = 127 + length pid"
    using assms(1) demo_size by auto
  have fits: "length (json_dumps (JObj (demo_data pid))) \<le> 3 * max_packet"
    using assms(1) size by (auto simp: max_packet_def simp del: json_dumps.simps)
  have "u_id (sample_user i ''admin'') = i" by (simp add: sample_user_def)
  with handle_eq [OF demo_get(1) user _ _ fits] size show ?thesis by (simp del: json_dumps.simps)
qed

definition demo_relay :: "(string \<times> member) list \<Rightarrow> (string \<times> string) list \<Rightarrow> ((string \<times> string) \<times> (int \<times> int \<times> int)) list \<Rightarrow> emitted list \<Rightarrow> nat \<Rightarrow> relay" where
  "demo_relay ms locals rates sent n =
     \<lparr>re_values = [(''c'', demo_session ms)], re_local = locals, re_rates = rates, re_sent = sent, re_drawn = n\<rparr>"

lemmas demo_run = limit_def sweep_rates_def and_then_def Let_def rate_bounds_def rate_bucket_def max_packet_def
   transact_def load_def demo_eligible prune_def session_users_def dispatch_def reserve_def forget_stale_socket_def
   sample_user_def draw_uuid_def enter_def new_member_def save_def TTL_def is_stale_def
   demo_relay_def demo_session_def alice_place_def bob_place_def member_of_socket_def participate_def bind_key_def
   require_packet_def update_member_def invite_def emit_def deliver_def bump_def


lemma demo_env [simp]:
  "rv_is_member relay_demo_env c i" "rv_active_members relay_demo_env c = [''alice'', ''bob'']"
  "rv_now relay_demo_env = 100" "rv_monotonic relay_demo_env = 100"
  "rv_uuid relay_demo_env n = replicate (Suc n) (CHR ''u'')"
  by (simp_all add: relay_demo_env_def)

definition demo_rates :: "nat \<Rightarrow> ((string \<times> string) \<times> (int \<times> int \<times> int)) list" where
  "demo_rates n = take n [((''alice'', ''admission''), (100, 1, 128)), ((''alice'', ''traffic''), (100, 1, 128)),
     ((''bob'', ''admission''), (100, 1, 128)), ((''bob'', ''traffic''), (100, 1, 130))]"

lemma demo_start: "snd (handle relay_demo_env ''start'' ''sa'' (JObj (demo_data ''u'')) empty_relay) =
   demo_relay [(''u'', alice_place None 0)] [(''sa'', ''c'')] (demo_rates 1) [] 2"
  by (subst demo_handle [where i = "''alice''"]) (simp_all add: demo_run demo_rates_def empty_relay_def)

lemma demo_bind: "snd (handle relay_demo_env ''bind'' ''sa'' (JObj (demo_data ''u''))
   (demo_relay [(''u'', alice_place None 0)] [(''sa'', ''c'')] (demo_rates 1) [] 2)) =
   demo_relay [(''u'', alice_place (Some demo_key) 0)] [(''sa'', ''c'')]
     (demo_rates 2) [Available ''c'' (Some ''uu'')] 2"
  by (subst demo_handle [where i = "''alice''"]) (simp_all add: demo_run demo_rates_def)

lemma demo_join: "snd (handle relay_demo_env ''join'' ''sb'' (JObj (demo_data ''u''))
   (demo_relay [(''u'', alice_place (Some demo_key) 0)] [(''sa'', ''c'')]
     (demo_rates 2) [Available ''c'' (Some ''uu'')] 2)) =
   demo_relay [(''u'', alice_place (Some demo_key) 0), (''uuu'', bob_place None 0)] [(''sa'', ''c''), (''sb'', ''c'')]
     (demo_rates 3) [Available ''c'' (Some ''uu'')] 3"
  by (subst demo_handle [where i = "''bob''"]) (simp_all add: demo_run demo_rates_def numeral_3_eq_3)

lemma demo_bind2: "handle relay_demo_env ''bind'' ''sb'' (JObj (demo_data ''uuu''))
   (demo_relay [(''u'', alice_place (Some demo_key) 0), (''uuu'', bob_place None 0)] [(''sa'', ''c''), (''sb'', ''c'')]
     (demo_rates 3) [Available ''c'' (Some ''uu'')] 3) =
   (ok_reply (dict_of (view (demo_session [(''u'', alice_place (Some demo_key) 1), (''uuu'', bob_place (Some demo_key) 0)]))),
    demo_relay [(''u'', alice_place (Some demo_key) 1), (''uuu'', bob_place (Some demo_key) 0)] [(''sa'', ''c''), (''sb'', ''c'')]
     (demo_rates 4) [Available ''c'' (Some ''uu''), Event ''sa'' ''c'' ''u'' (Candidate ''uuu'' ''AAAA'') 
        (view (demo_session [(''u'', alice_place (Some demo_key) 1), (''uuu'', bob_place (Some demo_key) 0)])) 1] 3)"
  by (subst demo_handle [where i = "''bob''"]) (simp_all add: demo_run demo_rates_def view_def)

end
