(* ===== verification/RelayClaims.thy ===== *)
theory RelayClaims
  imports RelayInv RelaySamples
begin

text \<open>
  The properties of the encryption relay: the invariant of every reachable state, sequence
  numbers without gaps, who may receive which event, the end of a session, and what a malformed
  request does to the channel. \<open>licensed\<close> is the reference monitor the deliveries are compared
  with; \<open>within\<close> says that an operation only sends what the monitor allows.
\<close>

subsection \<open>The reference monitor\<close>

text \<open>
  The condition on one event, in terms of the session \<open>s\<close> stored when the request arrived: the
  socket \<open>sid\<close> asks, and the member \<open>m\<close> known as \<open>pid\<close> is to receive.
\<close>

definition asks :: "session \<Rightarrow> string \<Rightarrow> string \<Rightarrow> (member \<Rightarrow> bool) \<Rightarrow> bool" where
  "asks s sid sender P \<longleftrightarrow> (\<exists>m. map_of (ss_members s) sender = Some m \<and> mb_sid m = sid \<and> P m)"

fun admissible :: "session \<Rightarrow> string \<Rightarrow> json dict \<Rightarrow> string \<Rightarrow> member \<Rightarrow> relay_event \<Rightarrow> bool" where
  "admissible s sid d pid m (Mls sender p) \<longleftrightarrow>
     pid \<noteq> sender \<and> mb_admitted m \<and> jget d ''packet'' = JStr p \<and>
     asks s sid sender (\<lambda>m. mb_admitted m \<and> mb_key m \<noteq> None)"
| "admissible s sid d pid m (Welcome sender p) \<longleftrightarrow>
     \<not> mb_admitted m \<and> mb_key m \<noteq> None \<and> jget d ''target'' = JStr pid \<and> jget d ''welcome'' = JStr p \<and>
     sender = ss_host s \<and> asks s sid sender (\<lambda>m. mb_admitted m \<and> mb_key m \<noteq> None)"
| "admissible s sid d pid m (Candidate sender p) \<longleftrightarrow>
     pid = ss_host s \<and> jget d ''packet'' = JStr p \<and> asks s sid sender (\<lambda>m. mb_key m = None)"
| "admissible s sid d pid m (Departed who was) \<longleftrightarrow> mb_admitted m"

text \<open>A member who may still take part: seen lately, an active member of the channel, and eligible.\<close>

definition current :: "relay_env \<Rightarrow> string \<Rightarrow> member \<Rightarrow> bool" where
  "current e channel m \<longleftrightarrow>
     rv_now e - 45 \<le> mb_seen m \<and> mb_user m \<in> set (rv_active_members e channel) \<and>
     rv_channels_enable e \<and> rv_encryption_enable e \<and>
     (\<exists>u \<in> set (user_t (rv_db e)). u_id u = mb_user m \<and> user_eligible e u = Inr True)"

fun licensed :: "relay_env \<Rightarrow> session \<Rightarrow> string \<Rightarrow> json dict \<Rightarrow> emitted \<Rightarrow> bool" where
  "licensed e s sid d (Event t channel pid event v n) \<longleftrightarrow>
     channel = ss_channel s \<and>
     (\<exists>m. map_of (ss_members s) pid = Some m \<and> mb_sid m = t \<and> current e channel m \<and>
        admissible s sid d pid m event)"
| "licensed e s sid d _ \<longleftrightarrow> True"

definition within :: "(emitted \<Rightarrow> bool) \<Rightarrow> relay \<Rightarrow> relay \<Rightarrow> bool" where
  "within P r r' \<longleftrightarrow> (\<exists>new. re_sent r' = re_sent r @ new \<and> list_all P new)"

lemma within_refl [simp]: "within P r r"
  by (simp add: within_def)

lemma within_trans: "within P r r' \<Longrightarrow> within P r' r'' \<Longrightarrow> within P r r''"
  by (auto simp: within_def)

lemma within_emit: "P x \<Longrightarrow> within P r0 r \<Longrightarrow> within P r0 (emit x r)"
  by (auto simp: within_def emit_def)

lemma within_same: "re_sent r' = re_sent r \<Longrightarrow> within P r0 r' = within P r0 r"
  by (simp add: within_def)

lemma sent_pop_local [simp]: "re_sent (pop_local sid r) = re_sent r"
  by (simp add: pop_local_def)

lemma sent_save_none [simp]: "re_sent (save_none channel r) = re_sent r"
  by (simp add: save_none_def)

lemma within_fold:
  "within P r0 r \<Longrightarrow> (\<And>x r. within P r0 r \<Longrightarrow> within P r0 (f x r)) \<Longrightarrow> within P r0 (fold f xs r)"
  by (induction xs arbitrary: r) auto

definition allows_ends :: "(emitted \<Rightarrow> bool) \<Rightarrow> bool" where
  "allows_ends P \<longleftrightarrow> (\<forall>x. \<not> is_event x \<longrightarrow> P x)"

lemma allows_ends_licensed [simp]: "allows_ends (licensed e s sid d)"
  unfolding allows_ends_def
proof (intro allI impI)
  show "licensed e s sid d x" if "\<not> is_event x" for x using that by (cases x) auto
qed

lemma within_close:
  assumes "allows_ends P" and "within P r0 r"
  shows "within P r0 (close_session channel state r)"
proof -
  have "within P r0 (fold (\<lambda>(pid, p) r. emit (Ended (mb_sid p) channel i) (pop_local (mb_sid p) r)) ms r')"
    if "within P r0 r'" for i ms r'
    using that by (rule within_fold)
      (use assms(1) in \<open>auto simp: allows_ends_def within_same [of "pop_local sid r" r for sid r] intro!: within_emit\<close>)
  moreover have "within P r0 (save_none channel r)"
    using assms(2) by (simp add: within_same [of "save_none channel r" r])
  ultimately show ?thesis
    using assms(1) by (auto simp: close_session_def Let_def invite_def allows_ends_def
      split: option.split intro!: within_emit)
qed

lemma within_fail_local: "allows_ends P \<Longrightarrow> within P r0 r \<Longrightarrow> within P r0 (fail_local channel r)"
  unfolding fail_local_def
  by (rule within_fold)
    (auto simp: allows_ends_def within_same [of "pop_local sid r" r for sid r] intro!: within_emit)

subsection \<open>Deliveries\<close>

definition same_place :: "member \<Rightarrow> member \<Rightarrow> bool" where
  "same_place m0 m \<longleftrightarrow> mb_key m = mb_key m0 \<and> mb_admitted m = mb_admitted m0"

text \<open>
  The working copy \<open>s\<close> of the stored session \<open>s0\<close>: its members are members of \<open>s0\<close> on the same
  sockets who are not stale.
\<close>

definition lives :: "relay_env \<Rightarrow> user_row list \<Rightarrow> session \<Rightarrow> (member \<Rightarrow> member \<Rightarrow> bool) \<Rightarrow> session \<Rightarrow> bool" where
  "lives e eligible s0 R s \<longleftrightarrow>
     ss_channel s = ss_channel s0 \<and> ss_host s = ss_host s0 \<and>
     (\<forall>pid m. map_of (ss_members s) pid = Some m \<longrightarrow>
        (\<exists>m0. map_of (ss_members s0) pid = Some m0 \<and> mb_sid m = mb_sid m0 \<and> R m0 m \<and>
           \<not> is_stale e (ss_channel s0) eligible m0))"

lemma lives_mono: "lives e eligible s0 R s \<Longrightarrow> (\<And>m0 m. R m0 m \<Longrightarrow> R' m0 m) \<Longrightarrow> lives e eligible s0 R' s"
  unfolding lives_def by blast

lemma lives_map_members:
  "lives e eligible s0 R s \<Longrightarrow> (\<And>i m. mb_sid (f i m) = mb_sid m) \<Longrightarrow>
     (\<And>i m0 m. R m0 m \<Longrightarrow> R' m0 (f i m)) \<Longrightarrow> lives e eligible s0 R' (map_members f s)"
  unfolding lives_def by fastforce

lemma lives_bumped: "lives e eligible s0 same_place s \<Longrightarrow> lives e eligible s0 same_place (bumped s pids)"
  unfolding bumped_def by (erule lives_map_members) (auto simp: same_place_def)

lemma lives_without: "lives e eligible s0 R s \<Longrightarrow> lives e eligible s0 R (without A s)"
  by (auto simp: lives_def)

lemma lives_member:
  "lives e eligible s0 R s \<Longrightarrow> map_of (ss_members s) pid = Some m \<Longrightarrow>
     \<exists>m0. map_of (ss_members s0) pid = Some m0 \<and> mb_sid m = mb_sid m0 \<and> R m0 m \<and>
       \<not> is_stale e (ss_channel s0) eligible m0"
  by (simp add: lives_def)

lemma eligible_rows_sound:
  "eligible_rows e us = Inr vs \<Longrightarrow> v \<in> set vs \<Longrightarrow> v \<in> set us \<and> user_eligible e v = Inr True"
proof (induction us arbitrary: vs)
  case Nil
  then show ?case by simp
next
  case (Cons u us)
  then obtain b ws where "user_eligible e u = Inr b" "eligible_rows e us = Inr ws"
    "vs = (if b then u # ws else ws)"
    by (cases "eligible_rows e us") (auto simp: bind_result_Inr)
  with Cons show ?case by (cases b) auto
qed

lemma not_stale_current:
  "eligible_users e ids = Inr eligible \<Longrightarrow> \<not> is_stale e channel eligible m \<Longrightarrow> current e channel m"
  by (fastforce simp: eligible_users_def is_stale_def current_def not_less split: if_splits
      dest: eligible_rows_sound)

lemma deliver_within:
  assumes el: "eligible_users e ids = Inr eligible" and l: "lives e eligible s0 R s"
    and d: "distinct pids" and sub: "set pids \<subseteq> set (map fst (ss_members s))"
    and ok: "\<And>pid m0. pid \<in> set pids \<Longrightarrow> map_of (ss_members s0) pid = Some m0 \<Longrightarrow> admissible s0 sid dt pid m0 event"
    and del: "deliver e s pids event r = (x, r')"
  shows "within (licensed e s0 sid dt) r r' \<and> x = Inr (bumped s pids)"
proof -
  have r': "re_sent r' = re_sent r @ messages (bumped s pids) pids event" and x: "x = Inr (bumped s pids)"
    using del deliver_eq [OF d sub] by auto
  have "licensed e s0 sid dt (Event (mb_sid (the (map_of (ss_members (bumped s pids)) pid))) (ss_channel s) pid event v n)"
    if pid: "pid \<in> set pids" for pid v n
  proof -
    from pid sub obtain m where m: "map_of (ss_members s) pid = Some m"
      by (metis list.set_map map_of_eq_None_iff not_None_eq subsetD)
    from lives_member [OF l m] obtain m0 where m0: "map_of (ss_members s0) pid = Some m0" "mb_sid m = mb_sid m0"
      "\<not> is_stale e (ss_channel s0) eligible m0" by blast
    from l have "ss_channel s = ss_channel s0" by (simp add: lives_def)
    with m m0 pid ok [OF pid m0(1)] not_stale_current [OF el m0(3)] show ?thesis by simp
  qed
  then have "list_all (licensed e s0 sid dt) (messages (bumped s pids) pids event)"
    by (simp add: messages_def Let_def list_all_iff del: licensed.simps)
  with r' x show ?thesis by (auto simp: within_def)
qed

subsection \<open>Operations stay within the licence\<close>

lemma admitted_member:
  "pid \<in> set (admitted_pids s) \<Longrightarrow> distinct (map fst (ss_members s)) \<Longrightarrow>
     \<exists>m. map_of (ss_members s) pid = Some m \<and> mb_admitted m"
  by (auto simp: admitted_pids_def)

lemma lives_admitted:
  assumes l: "lives e eligible s0 same_place s" and d: "distinct (map fst (ss_members s))"
    and pid: "pid \<in> set (admitted_pids s)" and m0: "map_of (ss_members s0) pid = Some m0"
  shows "mb_admitted m0"
  using admitted_member [OF pid d] lives_member [OF l] m0 by (fastforce simp: same_place_def)

lemma depart_within:
  "eligible_users e ids = Inr eligible \<Longrightarrow> lives e eligible s0 same_place s \<Longrightarrow> distinct (map fst (ss_members s)) \<Longrightarrow>
     depart e removed s r = (x, r') \<Longrightarrow>
     within (licensed e s0 sid dt) r r' \<and> (\<forall>s'. x = Inr s' \<longrightarrow> lives e eligible s0 same_place s')"
proof (induction e removed s r arbitrary: x r' rule: depart.induct)
  case (1 e s r)
  then show ?case by auto
next
  case (2 e pid p removed s r)
  define r1 where "r1 = emit (Ended (mb_sid p) (ss_channel s) (Some (ss_session s))) (pop_local (mb_sid p) r)"
  have w1: "within (licensed e s0 sid dt) r r1"
    unfolding r1_def by (rule within_emit) (simp_all add: within_same [of "pop_local (mb_sid p) r" r])
  obtain y r2 where del: "deliver e s (admitted_pids s) (Departed pid (mb_admitted p)) r1 = (y, r2)"
    by (cases "deliver e s (admitted_pids s) (Departed pid (mb_admitted p)) r1")
  have step: "within (licensed e s0 sid dt) r1 r2 \<and> y = Inr (bumped s (admitted_pids s))"
    by (rule deliver_within [OF "2.prems"(1, 2) distinct_admitted_pids [OF "2.prems"(3)] admitted_pids_sub _ del])
      (simp add: lives_admitted [OF "2.prems"(2, 3)])
  have rest: "depart e removed (bumped s (admitted_pids s)) r2 = (x, r')"
    using "2.prems"(4) step by (simp add: Let_def r1_def [symmetric] del and_then_def)
  have "within (licensed e s0 sid dt) r2 r' \<and> (\<forall>s'. x = Inr s' \<longrightarrow> lives e eligible s0 same_place s')"
    by (rule "2.IH" [OF r1_def "2.prems"(1) lives_bumped [OF "2.prems"(2)] _ rest])
      (use "2.prems"(3) in simp)
  with w1 step show ?case by (blast intro: within_trans)
qed

lemma remove_members_within:
  assumes el: "eligible_users e ids = Inr eligible" and l: "lives e eligible s0 same_place (without (set pids) s)"
    and ch: "ss_channel s = ss_channel s0" and d: "distinct (map fst (ss_members s))"
    and rem: "remove_members e s pids r = (x, r')"
  shows "within (licensed e s0 sid dt) r r' \<and>
    (\<forall>s'. x = Inr (Some s') \<longrightarrow> lives e eligible s0 same_place s')"
proof (cases "ss_host s \<in> set pids")
  case True
  with rem show ?thesis by (auto simp: remove_members_def intro: within_close)
next
  case False
  let ?removed = "filter (\<lambda>(i, m). i \<in> set pids) (ss_members s)"
  obtain y r2 where dep: "depart e ?removed (without (set pids) s) r = (y, r2)"
    by (cases "depart e ?removed (without (set pids) s) r")
  have d': "distinct (map fst (ss_members (without (set pids) s)))" using d by simp
  from depart_within [OF el l d' dep]
  have "within (licensed e s0 sid dt) r r2 \<and> (\<forall>s'. y = Inr s' \<longrightarrow> lives e eligible s0 same_place s')" .
  with rem False dep show ?thesis
    by (auto simp: remove_members_def Let_def without_def [symmetric] and_then_def split: sum.splits)
qed

lemma prune_within:
  assumes el: "eligible_users e ids = Inr eligible" and s: "session_ok U r1 (ss_channel s0) s0"
    and pr: "prune e (Some s0) eligible r = (x, r')"
  shows "within (licensed e s0 sid dt) r r' \<and> (\<forall>s'. x = Inr (Some s') \<longrightarrow> lives e eligible s0 same_place s')"
proof -
  define stale where "stale = map fst (filter (\<lambda>(i, p). is_stale e (ss_channel s0) eligible p) (ss_members s0))"
  have eq: "prune e (Some s0) eligible r =
      (if ss_host s0 \<in> set stale then (Inr None, close_session (ss_channel s0) (Some s0) r)
       else if stale \<noteq> [] then remove_members e s0 stale r else (Inr (Some s0), r))"
    by (simp add: prune_def Let_def stale_def)
  have live: "lives e eligible s0 same_place (without (set stale) s0)"
    by (force simp: lives_def same_place_def stale_def dest: map_of_SomeD)
  consider "ss_host s0 \<in> set stale" | "ss_host s0 \<notin> set stale" "stale \<noteq> []" | "stale = []" by fastforce
  then show ?thesis
  proof cases
    case 1
    with pr eq show ?thesis by (auto intro: within_close)
  next
    case 2
    with pr eq have "remove_members e s0 stale r = (x, r')" by simp
    from remove_members_within [OF el live refl session_ok_keys [OF s] this] show ?thesis .
  next
    case 3
    then have "without (set stale) s0 = s0" by (simp add: without_def)
    with live 3 pr eq show ?thesis by auto
  qed
qed

lemma lives_update:
  "lives e eligible s0 R s \<Longrightarrow> (\<And>m. mb_sid (f m) = mb_sid m) \<Longrightarrow> (\<And>m0 m. R m0 m \<Longrightarrow> R' m0 m \<and> R' m0 (f m)) \<Longrightarrow>
     lives e eligible s0 R' (update_member pid f s)"
  unfolding update_member_map by (erule lives_map_members) auto

lemma lives_asks:
  "lives e eligible s0 same_place s \<Longrightarrow> map_of (ss_members s) pid = Some m \<Longrightarrow> mb_sid m = sid \<Longrightarrow>
     (\<And>m0. same_place m0 m \<Longrightarrow> P m0) \<Longrightarrow> asks s0 sid pid P"
  unfolding asks_def using lives_member by fastforce

text \<open>What holds when a participant is served: \<open>pid\<close> is the caller's place in the working copy.\<close>

definition serves :: "(nat \<Rightarrow> string) \<Rightarrow> relay_env \<Rightarrow> user_row list \<Rightarrow> session \<Rightarrow> string \<Rightarrow> relay \<Rightarrow> session \<Rightarrow> string \<Rightarrow> member \<Rightarrow> bool" where
  "serves U e eligible s0 sid r s pid m \<longleftrightarrow>
     session_ok U r (ss_channel s0) s \<and> lives e eligible s0 same_place s \<and>
     (\<exists>m1. map_of (ss_members s) pid = Some m1 \<and> same_place m m1 \<and> mb_sid m1 = sid)"

lemma serves_asks:
  assumes "serves U e eligible s0 sid r s pid m" and "\<And>m0. same_place m0 m \<Longrightarrow> P m0"
  shows "asks s0 sid pid P"
proof -
  from assms(1) obtain m1 where m1: "map_of (ss_members s) pid = Some m1" "same_place m m1" "mb_sid m1 = sid"
    and l: "lives e eligible s0 same_place s"
    by (auto simp: serves_def)
  show ?thesis
    by (rule lives_asks [OF l m1(1, 3)]) (use m1(2) assms(2) in \<open>auto simp: same_place_def\<close>)
qed

lemma deliver_sent:
  assumes "deliver e s pids event r = (x, r')" and "distinct pids" and "set pids \<subseteq> set (map fst (ss_members s))"
  shows "x = Inr (bumped s pids)"
  using assms deliver_eq by auto

lemma within_packet:
  "within P r0 r \<Longrightarrow> (\<And>k. packet v = Some k \<Longrightarrow> within P r0 (snd (f k r))) \<Longrightarrow>
     within P r0 (snd (and_then (require_packet v r) f))"
  by (auto simp: require_packet_def and_then_def split: option.splits)

lemma within_and_then:
  "within P r0 (snd p) \<Longrightarrow> (\<And>x r. p = (Inr x, r) \<Longrightarrow> within P r0 (snd (f x r))) \<Longrightarrow> within P r0 (snd (and_then p f))"
  by (cases p) (auto simp: and_then_def split: sum.splits)

lemma packet_str: "packet v = Some k \<Longrightarrow> v = JStr k"
  by (auto simp: packet_def split: json.splits if_splits option.splits)

lemma bind_key_within:
  assumes el: "eligible_users e ids = Inr eligible" and s: "serves U e eligible s0 sid r s pid m"
  shows "within (licensed e s0 sid data) r (snd (bind_key e s pid m data r))"
proof -
  have ok: "session_ok U r (ss_channel s0) s" and l: "lives e eligible s0 same_place s"
    using s by (simp_all add: serves_def)
  have candidate: "within (licensed e s0 sid data) r
      (snd (deliver e (update_member pid (\<lambda>m. m\<lparr>mb_key := Some key\<rparr>) s) [ss_host s] (Candidate pid kp) r))"
    if key: "mb_key m = None" and kp: "packet (jget data ''packet'') = Some kp" for key kp
  proof -
    obtain y r2 where del: "deliver e (update_member pid (\<lambda>m. m\<lparr>mb_key := Some key\<rparr>) s) [ss_host s] (Candidate pid kp) r = (y, r2)"
      by fastforce
    have live: "lives e eligible s0 (\<lambda>_ _. True) (update_member pid (\<lambda>m. m\<lparr>mb_key := Some key\<rparr>) s)"
      using l by (rule lives_update) auto
    have "jget data ''packet'' = JStr kp" using kp by (rule packet_str)
    moreover have "asks s0 sid pid (\<lambda>m. mb_key m = None)"
      by (rule serves_asks [OF s]) (use key in \<open>simp add: same_place_def\<close>)
    moreover have "ss_host s = ss_host s0" using l by (simp add: lives_def)
    ultimately show ?thesis
      unfolding del snd_conv using deliver_within [OF el live _ _ _ del, of sid data] host_in [OF ok] by simp
  qed
  have own: "within (licensed e s0 sid data) r (invite c st (save e c t r))" for c st t
    by (simp add: invite_def within_emit within_same [of "save e c t r" r])
  show ?thesis
    using own candidate
    by (cases "mb_key m = None") (simp_all add: bind_key_def Let_def within_packet)
qed

lemma admit_within:
  assumes el: "eligible_users e ids = Inr eligible" and s: "serves U e eligible s0 sid r s pid m"
    and m: "mb_key m \<noteq> None" "mb_admitted m" and body: "jget data ''packet'' = JStr body"
  shows "within (licensed e s0 sid data) r (snd (admit e s pid body data r))"
proof -
  have ok: "session_ok U r (ss_channel s0) s" and l: "lives e eligible s0 same_place s"
    using s by (simp_all add: serves_def)
  have d: "distinct (map fst (ss_members s))" using ok by (rule session_ok_keys)
  have host: "ss_host s = ss_host s0" using l by (simp add: lives_def)
  have asker: "asks s0 sid pid (\<lambda>m. mb_admitted m \<and> mb_key m \<noteq> None)"
    by (rule serves_asks [OF s]) (use m in \<open>simp add: same_place_def\<close>)
  have main: "within (licensed e s0 sid data) r
      (snd (and_then (deliver e t (other_admitted s pid) (Mls pid body) r) (\<lambda>s. deliver e s [target] (Welcome pid w))))"
    if host_asks: "pid = ss_host s" and target: "jget data ''target'' = JStr target"
      and j: "map_of (ss_members s) target = Some j" "mb_key j \<noteq> None" "\<not> mb_admitted j"
      and w: "packet (jget data ''welcome'') = Some w"
      and t: "t = update_member target (\<lambda>m. m\<lparr>mb_admitted := True\<rparr>) s" for target j w t
  proof -
    let ?pids = "other_admitted s pid"
    have live: "lives e eligible s0 (\<lambda>_ _. True) t" unfolding t using l by (rule lives_update) auto
    have dp: "distinct ?pids" using d by (simp add: other_admitted_def distinct_admitted_pids)
    have sub: "set ?pids \<subseteq> set (map fst (ss_members t))"
      using admitted_pids_sub [of s] by (auto simp: other_admitted_def t)
    obtain y r1 where del: "deliver e t ?pids (Mls pid body) r = (y, r1)" by fastforce
    have "admissible s0 sid data i m0 (Mls pid body)" if "i \<in> set ?pids" "map_of (ss_members s0) i = Some m0" for i m0
      using that lives_admitted [OF l d, of i m0] body asker by (simp add: other_admitted_def)
    from deliver_within [OF el live dp sub this del]
    have w1: "within (licensed e s0 sid data) r r1" and y: "y = Inr (bumped t ?pids)" by blast+
    have live': "lives e eligible s0 (\<lambda>_ _. True) (bumped t ?pids)"
      unfolding bumped_def using live by (rule lives_map_members) auto
    obtain x r' where del2: "deliver e (bumped t ?pids) [target] (Welcome pid w) r1 = (x, r')" by fastforce
    have in_t: "set [target] \<subseteq> set (map fst (ss_members (bumped t ?pids)))"
    proof -
      have "target \<in> set (map fst (ss_members s))"
        using j(1) by (auto dest: map_of_SomeD intro: rev_image_eqI)
      then show ?thesis by (simp add: t del: set_map)
    qed
    have "jget data ''welcome'' = JStr w" using w by (rule packet_str)
    moreover from lives_member [OF l j(1)] obtain j0 where "map_of (ss_members s0) target = Some j0" "same_place j0 j" by blast
    ultimately have "admissible s0 sid data i m0 (Welcome pid w)"
      if "i \<in> set [target]" "map_of (ss_members s0) i = Some m0" for i m0
      using that j target host host_asks asker by (simp add: same_place_def)
    from deliver_within [OF el live' _ in_t this del2] have "within (licensed e s0 sid data) r1 r'"
      by (rule conjunct1) (auto intro: distinct_singleton)
    with w1 have "within (licensed e s0 sid data) r r'" by (rule within_trans)
    then show ?thesis unfolding and_then_def del y by (simp only: split_conv sum.case del2 snd_conv)
  qed
  show ?thesis
  proof (cases "\<exists>target j. pid = ss_host s \<and> jget data ''target'' = JStr target \<and>
      map_of (ss_members s) target = Some j \<and> mb_key j \<noteq> None \<and> \<not> mb_admitted j")
    case True
    then obtain target j where j: "pid = ss_host s" "jget data ''target'' = JStr target"
      "map_of (ss_members s) target = Some j" "mb_key j \<noteq> None" "\<not> mb_admitted j"
      by blast
    have "admit e s pid body data r = and_then (require_packet (jget data ''welcome'') r) (\<lambda>w r.
        and_then (deliver e (update_member target (\<lambda>m. m\<lparr>mb_admitted := True\<rparr>) s) (other_admitted s pid) (Mls pid body) r)
          (\<lambda>s. deliver e s [target] (Welcome pid w)))"
      using j by (cases "mb_key j") (simp_all add: admit_def Let_def)
    then show ?thesis
      using main [OF j] by (simp only:) (rule within_packet, simp_all)
  next
    case False
    then have "snd (admit e s pid body data r) = r"
      by (auto simp: admit_def split: json.split option.split)
    then show ?thesis by simp
  qed
qed

lemma forward_within:
  assumes el: "eligible_users e ids = Inr eligible" and s: "serves U e eligible s0 sid r s pid m"
  shows "within (licensed e s0 sid data) r (snd (forward e s pid m data r))"
proof -
  have ok: "session_ok U r (ss_channel s0) s" and l: "lives e eligible s0 same_place s"
    using s by (simp_all add: serves_def)
  have d: "distinct (map fst (ss_members s))" using ok by (rule session_ok_keys)
  have mls: "within (licensed e s0 sid data) r (snd (deliver e s (other_admitted s pid) (Mls pid body) r))"
    if m: "mb_key m \<noteq> None" "mb_admitted m" and body: "jget data ''packet'' = JStr body" for body
  proof -
    obtain y r2 where del: "deliver e s (other_admitted s pid) (Mls pid body) r = (y, r2)" by fastforce
    have asker: "asks s0 sid pid (\<lambda>m. mb_admitted m \<and> mb_key m \<noteq> None)"
      by (rule serves_asks [OF s]) (use m in \<open>simp add: same_place_def\<close>)
    have "admissible s0 sid data i m0 (Mls pid body)"
      if "i \<in> set (other_admitted s pid)" "map_of (ss_members s0) i = Some m0" for i m0
      using that lives_admitted [OF l d, of i m0] body asker by (simp add: other_admitted_def)
    moreover have "distinct (other_admitted s pid)" "set (other_admitted s pid) \<subseteq> set (map fst (ss_members s))"
      using d admitted_pids_sub [of s] by (auto simp: other_admitted_def distinct_admitted_pids)
    ultimately show ?thesis
      unfolding del snd_conv using deliver_within [OF el l _ _ _ del] by blast
  qed
  show ?thesis
    unfolding forward_def
    by (auto intro!: within_packet mls admit_within [OF el s] dest: packet_str)
qed

lemma participate_within:
  assumes el: "eligible_users e ids = Inr eligible" and ok: "session_ok U r (ss_channel s0) s"
    and l: "lives e eligible s0 same_place s"
  shows "within (licensed e s0 sid data) r (snd (participate e action sid user channel data s r))"
proof -
  have main: "within (licensed e s0 sid data) r (snd
      (if action = ''leave'' then and_then (remove_members e t [pid] r) (\<lambda>_ r. (Inr (ok_reply []), r))
       else and_then
         (if action = ''bind'' then bind_key e t pid m data r
          else if action = ''ping'' then (Inr t, save e channel t r)
          else if action = ''packet'' then forward e t pid m data r
          else (Inl Rejected, r)) (\<lambda>s r. (Inr (ok_reply (dict_of (view s))), r))))"
    if m: "map_of (ss_members s) pid = Some m" "mb_sid m = sid"
      and t: "t = update_member pid (\<lambda>m. m\<lparr>mb_seen := rv_now e\<rparr>) s" for t pid m
  proof -
    have live: "lives e eligible s0 same_place t"
      unfolding t using l by (rule lives_update) (auto simp: same_place_def)
    have okt: "session_ok U r (ss_channel s0) t"
      unfolding t by (rule session_update [OF ok]) auto
    have sv: "serves U e eligible s0 sid r t pid m"
      using live okt m by (simp add: serves_def same_place_def t)
    have ch: "ss_channel t = ss_channel s0" using okt by (rule session_ok_channel)
    have "within (licensed e s0 sid data) r (snd (remove_members e t [pid] r))"
      using remove_members_within [OF el lives_without [OF live] ch session_ok_keys [OF okt]]
      by (metis prod.collapse)
    moreover have "within (licensed e s0 sid data) r (save e channel t r)"
      by (simp add: within_same [of "save e channel t r" r])
    ultimately have rem: "within (licensed e s0 sid data) r (snd (remove_members e t [pid] r))"
      and rest: "within (licensed e s0 sid data) r (snd
        (if action = ''bind'' then bind_key e t pid m data r
         else if action = ''ping'' then (Inr t, save e channel t r)
         else if action = ''packet'' then forward e t pid m data r
         else (Inl Rejected, r)))"
      using bind_key_within [OF el sv] forward_within [OF el sv] by simp_all
    have "within (licensed e s0 sid data) r (snd (and_then (remove_members e t [pid] r) (\<lambda>_ r. (Inr (ok_reply []), r))))"
      by (rule within_and_then [OF rem]) (use rem in simp)
    moreover have "within (licensed e s0 sid data) r (snd (and_then
        (if action = ''bind'' then bind_key e t pid m data r
         else if action = ''ping'' then (Inr t, save e channel t r)
         else if action = ''packet'' then forward e t pid m data r
         else (Inl Rejected, r)) (\<lambda>s r. (Inr (ok_reply (dict_of (view s))), r))))"
      by (rule within_and_then [OF rest]) (use rest in simp)
    ultimately show ?thesis by simp
  qed
  show ?thesis
    using main by (simp add: participate_def Let_def split: json.split option.split)
qed

lemma reserve_sent: "re_sent (snd (reserve e action sid user channel data state r)) = re_sent r"
  by (auto simp: reserve_def forget_stale_socket_def Let_def enter_def draw_uuid_def split: option.split)

lemma dispatch_within:
  assumes "eligible_users e ids = Inr eligible" and "\<And>s. state = Some s \<Longrightarrow> session_ok U r (ss_channel s0) s"
    and "\<And>s. state = Some s \<Longrightarrow> lives e eligible s0 same_place s"
  shows "within (licensed e s0 sid data) r (snd (dispatch e action sid user channel data state r))"
proof -
  have res: "within (licensed e s0 sid data) r (snd (reserve e action sid user channel data state r))"
    using within_same [OF reserve_sent] by simp
  have part: "within (licensed e s0 sid data) r (snd (participate e action sid user channel data s r))"
    if "state = Some s" for s
    by (rule participate_within [OF assms(1) assms(2) [OF that] assms(3) [OF that]])
  have stat: "snd (status_reply st r) = r" for st by (simp add: status_reply_def split: option.split)
  show ?thesis
    using res part by (cases state) (simp_all add: dispatch_def stat)
qed

definition sends_ok :: "relay_env \<Rightarrow> string \<Rightarrow> json dict \<Rightarrow> session option \<Rightarrow> relay \<Rightarrow> relay \<Rightarrow> bool" where
  "sends_ok e sid d state r r' \<longleftrightarrow>
     within (\<lambda>x. case state of None \<Rightarrow> \<not> is_event x | Some s \<Rightarrow> licensed e s sid d x) r r'"

lemma transact_within:
  assumes r: "relay_ok U r"
  shows "sends_ok e sid d (load e channel r) r (snd (transact e action sid user channel d r))"
proof (cases "eligible_users e (u_id user # session_users (load e channel r))")
  case (Inl er)
  then show ?thesis by (simp add: transact_def sends_ok_def)
next
  case el: (Inr eligible)
  show ?thesis
  proof (cases "load e channel r")
    case None
    have "re_sent (snd (dispatch e action sid user' channel d None r)) = re_sent r" for user'
      by (auto simp: dispatch_def status_reply_def reserve_sent)
    then show ?thesis
      using el by (auto simp: sends_ok_def within_def transact_def Let_def None prune_def and_then_def split: option.split)
  next
    case (Some s0)
    have ok: "session_ok U r channel s0" using load_ok [OF r Some] .
    have ch: "ss_channel s0 = channel" using ok by (rule session_ok_channel)
    obtain x r1 where pr: "prune e (Some s0) eligible r = (x, r1)" by fastforce
    have "session_ok U r channel s" if "Some s0 = Some s" for s using ok that by simp
    from prune_ok [OF r this pr] obtain st
      where x: "x = Inr st" and st: "\<And>s. st = Some s \<Longrightarrow> session_ok U r1 (ss_channel s0) s"
      unfolding ch by fastforce
    have w: "within (licensed e s0 sid d) r r1" and live: "\<And>s. st = Some s \<Longrightarrow> lives e eligible s0 same_place s"
      using prune_within [OF el ok [folded ch] pr] x by auto
    have "within (licensed e s0 sid d) r1 (snd (dispatch e action sid user' channel d st r1))" for user'
      by (rule dispatch_within [OF el st live])
    with w have "within (licensed e s0 sid d) r (snd (dispatch e action sid user' channel d st r1))" for user'
      by (blast intro: within_trans)
    with w show ?thesis
      using el by (simp add: sends_ok_def transact_def Let_def Some pr x and_then_def split: option.split)
  qed
qed

lemma limit_load: "limit e i action n r = (x, r') \<Longrightarrow> load e channel r' = load e channel r \<and> re_sent r' = re_sent r"
  by (auto simp: limit_def sweep_rates_def load_def Let_def split: prod.splits if_splits)

lemma handle_sends:
  assumes "relay_ok U r" and "handle e action sid data r = (reply, r')"
  shows "r' = r \<or> (\<exists>d channel. data = JObj d \<and> jget d ''channel'' = JStr channel \<and>
    authorize e sid channel \<noteq> None \<and> sends_ok e sid d (load e channel r) r r')"
proof -
  have main: "sends_ok e sid d (load e channel r) r
      (snd (and_then (limit e i action n r) (\<lambda>_. transact e action sid user channel d)))" for i n user channel d
  proof -
    obtain x r1 where l: "limit e i action n r = (x, r1)" by fastforce
    have r1: "relay_ok U r1" by (rule quiet_relay [OF quiet_limit [OF l] assms(1)])
    have "sends_ok e sid d (load e channel r) r r1"
      using limit_load [OF l] by (simp add: sends_ok_def within_same [of r1 r])
    moreover have "sends_ok e sid d (load e channel r) r1 (snd (transact e action sid user channel d r1))"
      using transact_within [OF r1, of e sid d channel action user] limit_load [OF l] by simp
    ultimately have "sends_ok e sid d (load e channel r) r (snd (transact e action sid user channel d r1))"
      unfolding sends_ok_def by (rule within_trans)
    with \<open>sends_ok e sid d (load e channel r) r r1\<close> show ?thesis
      by (auto simp: l and_then_def split: sum.split)
  qed
  have fail: "sends_ok e sid d st r (fail_local c r1)" if "sends_ok e sid d st r r1" for d st c r1
    using that unfolding sends_ok_def
    by (rule within_fail_local [rotated]) (cases st; simp add: allows_ends_def [of "\<lambda>x. \<not> is_event x"])
  show ?thesis
  proof (cases "\<exists>d channel user. data = JObj d \<and> jget d ''channel'' = JStr channel \<and> authorize e sid channel = Some user")
    case False
    with assms(2) have "r' = r"
      by (auto simp: handle_def Let_def split: json.splits option.splits if_splits)
    then show ?thesis by simp
  next
    case True
    then obtain d channel user where dc: "data = JObj d" "jget d ''channel'' = JStr channel" "authorize e sid channel = Some user"
      by blast
    define p where "p = and_then (limit e (u_id user) action (int (length (json_dumps data))) r) (\<lambda>_. transact e action sid user channel d)"
    consider "r' = r" | "r' = snd p" | "r' = fail_local (Some channel) (snd p)"
    proof (cases "0 < length channel \<and> length channel \<le> 128 \<and> length (json_dumps data) \<le> 3 * max_packet")
      case True
      then have "handle e action sid data r = (case p of (Inr reply, r) \<Rightarrow> (reply, r)
          | (Inl Rejected, r) \<Rightarrow> (unavailable, r) | (Inl Failed, r) \<Rightarrow> (ended, fail_local (Some channel) r))"
        using handle_eq [OF dc(2, 3)] by (simp add: dc(1) p_def del: json_dumps.simps)
      with assms(2) that show ?thesis
        by (cases p) (auto split: sum.splits relay_error.splits)
    next
      case False
      with assms(2) dc that show ?thesis
        by (auto simp: handle_def Let_def simp del: json_dumps.simps split: if_splits)
    qed
    then show ?thesis
      using main [where d = d and channel = channel] dc fail by cases (auto simp: p_def)
  qed
qed

subsection \<open>A reachable run\<close>

definition demo_relay3 :: relay where
  "demo_relay3 = demo_relay [(''u'', alice_place (Some demo_key) 0), (''uuu'', bob_place None 0)]
     [(''sa'', ''c''), (''sb'', ''c'')] (demo_rates 3) [Available ''c'' (Some ''uu'')] 3"

definition demo_session4 :: session where
  "demo_session4 = demo_session [(''u'', alice_place (Some demo_key) 1), (''uuu'', bob_place (Some demo_key) 0)]"

definition demo_relay4 :: relay where
  "demo_relay4 = demo_relay (ss_members demo_session4) [(''sa'', ''c''), (''sb'', ''c'')] (demo_rates 4)
     [Available ''c'' (Some ''uu''), Event ''sa'' ''c'' ''u'' (Candidate ''uuu'' ''AAAA'') (view demo_session4) 1] 3"

definition demo_uuid :: "nat \<Rightarrow> string" where
  "demo_uuid = rv_uuid relay_demo_env"

lemma demo_uuid_inj: "inj demo_uuid"
  by (auto simp: demo_uuid_def inj_def dest: arg_cong [where f = length])

lemma demo_handle_step: "snd (handle relay_demo_env action sid data r) = r' \<Longrightarrow> reachable demo_uuid r \<Longrightarrow> reachable demo_uuid r'"
  by (rule reachable.Step, assumption, rule relay_step.Handle [where e = relay_demo_env and reply = "fst (handle relay_demo_env action sid data r)"])
    (auto simp: demo_uuid_def)

lemma demo_reachable3: "reachable demo_uuid demo_relay3"
  unfolding demo_relay3_def
  by (rule demo_handle_step [OF demo_join], rule demo_handle_step [OF demo_bind],
      rule demo_handle_step [OF demo_start], rule reachable.Start)

lemma demo_candidate: "handle relay_demo_env ''bind'' ''sb'' (JObj (demo_data ''uuu'')) demo_relay3 =
    (ok_reply (dict_of (view demo_session4)), demo_relay4)"
  using demo_bind2 by (simp add: demo_relay3_def demo_relay4_def demo_session4_def demo_session_def)

lemma demo_reachable4: "reachable demo_uuid demo_relay4"
  by (rule demo_handle_step [OF _ demo_reachable3, of "''bind''" "''sb''" "JObj (demo_data ''uuu'')"])
    (simp add: demo_candidate)

subsection \<open>Properties\<close>

text \<open>In every reachable state of the relay, a stored session belongs to its channel, has at most
  128 participants with distinct identifiers and distinct accounts, its host is an admitted
  participant who has bound a key as soon as anybody else is in, and every other admitted
  participant has bound a key.\<close>
theorem relay_sessions_well_formed:
  assumes "reachable uuid r" and "inj uuid" and "map_of (re_values r) channel = Some s"
  shows "ss_channel s = channel \<and> distinct (map fst (ss_members s)) \<and>
    distinct (map (mb_user \<circ> snd) (ss_members s)) \<and> length (ss_members s) \<le> 128 \<and>
    (\<exists>h. map_of (ss_members s) (ss_host s) = Some h \<and> mb_admitted h \<and>
       (mb_key h \<noteq> None \<or> map fst (ss_members s) = [ss_host s])) \<and>
    (\<forall>pid m. map_of (ss_members s) pid = Some m \<and> pid \<noteq> ss_host s \<and> mb_admitted m \<longrightarrow> mb_key m \<noteq> None)"
proof -
  have "session_ok uuid r channel s"
    using reachable_ok [OF assms(1, 2)] assms(3) by (simp add: relay_ok_def)
  then show ?thesis unfolding session_ok_def shape_ok_def keyed_def by blast
qed

theorem relay_sessions_well_formed_witness:
  "length (ss_members (demo_session4\<lparr>ss_expires := 190\<rparr>)) \<le> 128 \<and> ss_channel demo_session4 = ''c''"
proof -
  have "map_of (re_values demo_relay4) ''c'' = Some demo_session4"
    by (simp add: demo_relay4_def demo_relay_def demo_session4_def demo_session_def)
  from relay_sessions_well_formed [OF demo_reachable4 demo_uuid_inj this] show ?thesis by simp
qed

text \<open>C10: The events sent to one participation of a channel, over the whole history of a reachable
  state, are numbered from one upwards without gap, repetition or reordering, and while the
  participation is in the stored session its counter is the number of the last one; an
  identifier that was not drawn yet received nothing.\<close>
theorem relay_sequences_without_gaps:
  assumes "reachable uuid r" and "inj uuid"
  shows "(\<exists>k. seqs (re_sent r) channel pid = [1..<Suc k]) \<and>
    (seqs (re_sent r) channel pid \<noteq> [] \<longrightarrow> pid \<in> uuid ` {..<re_drawn r}) \<and>
    (\<forall>s m. map_of (re_values r) channel = Some s \<and> map_of (ss_members s) pid = Some m \<longrightarrow>
       seqs (re_sent r) channel pid = [1..<Suc (mb_out m)])"
  using reachable_ok [OF assms] unfolding relay_ok_def log_ok_def session_ok_def counts_ok_def by blast

theorem relay_sequences_without_gaps_witness:
  "seqs (re_sent demo_relay4) ''c'' ''u'' = [1] \<and> ''u'' \<in> demo_uuid ` {..<3}"
  using relay_sequences_without_gaps [OF demo_reachable4 demo_uuid_inj, of "''c''" "''u''"]
  by (simp add: demo_relay4_def demo_relay_def)

text \<open>C2: Whatever request arrives in a reachable state, every event it causes goes to the socket of
  a participant of the channel's stored session who was seen within 45 seconds, is an active
  member of the channel and is still allowed to use encrypted channels, so a revoked participant
  receives nothing more; a ciphertext goes only from the authorised caller's own admitted and
  keyed participation to other admitted participants, a welcome only from the host to the
  participant it admits, a candidate's key package only to the host, each carrying the packet
  of the request.\<close>
theorem relay_events_licensed:
  assumes "reachable uuid r" and "inj uuid" and "handle e action sid data r = (reply, r')"
    and "re_sent r' = re_sent r @ new" and "Event t channel pid event v n \<in> set new"
  shows "\<exists>d s m. data = JObj d \<and> jget d ''channel'' = JStr channel \<and> authorize e sid channel \<noteq> None \<and>
    load e channel r = Some s \<and> map_of (ss_members s) pid = Some m \<and> mb_sid m = t \<and>
    current e channel m \<and> admissible s sid d pid m event"
proof -
  have ok: "relay_ok uuid r" by (rule reachable_ok [OF assms(1, 2)])
  have "r' \<noteq> r" using assms(4, 5) by auto
  with handle_sends [OF ok assms(3)] obtain d c where d: "data = JObj d" "jget d ''channel'' = JStr c"
    "authorize e sid c \<noteq> None" "sends_ok e sid d (load e c r) r r'"
    by blast
  then obtain s where s: "load e c r = Some s"
    using assms(4, 5) by (cases "load e c r") (auto simp: sends_ok_def within_def list_all_iff)
  then have "licensed e s sid d (Event t channel pid event v n)"
    using d(4) assms(4, 5) by (auto simp: sends_ok_def within_def list_all_iff simp del: licensed.simps)
  moreover have "ss_channel s = c" by (rule session_ok_channel [OF load_ok [OF ok s]])
  ultimately show ?thesis using d s by auto
qed

theorem relay_events_licensed_witness:
  "\<exists>s m. load relay_demo_env ''c'' demo_relay3 = Some s \<and> map_of (ss_members s) ''u'' = Some m \<and>
    current relay_demo_env ''c'' m \<and> admissible s ''sb'' (demo_data ''uuu'') ''u'' m (Candidate ''uuu'' ''AAAA'')"
proof -
  have "re_sent demo_relay4 = re_sent demo_relay3 @
      [Event ''sa'' ''c'' ''u'' (Candidate ''uuu'' ''AAAA'') (view demo_session4) 1]"
    by (simp add: demo_relay4_def demo_relay3_def demo_relay_def)
  from relay_events_licensed [OF demo_reachable3 demo_uuid_inj demo_candidate this] show ?thesis by auto
qed

lemma fold_close:
  "fold (\<lambda>(pid, p) r. emit (Ended (mb_sid p) c i) (pop_local (mb_sid p) r)) ms r =
     r\<lparr>re_sent := re_sent r @ map (\<lambda>(pid, p). Ended (mb_sid p) c i) ms,
       re_local := filter (\<lambda>(t, _). t \<notin> mb_sid ` snd ` set ms) (re_local r)\<rparr>"
proof (induction ms arbitrary: r)
  case Nil
  then show ?case by simp
next
  case (Cons m ms)
  then show ?case
    by (cases m) (simp add: emit_def pop_local_def AList.delete_eq,
      rule relay.equality, auto intro!: filter_cong)
qed

lemma close_session_eq:
  "close_session c st r = r\<lparr>re_values := AList.delete c (re_values r),
     re_sent := re_sent r @ (case st of None \<Rightarrow> []
       | Some s \<Rightarrow> map (\<lambda>(pid, p). Ended (mb_sid p) c (Some (ss_session s))) (ss_members s)) @ [Available c None],
     re_local := (case st of None \<Rightarrow> re_local r
       | Some s \<Rightarrow> filter (\<lambda>(t, _). t \<notin> mb_sid ` snd ` set (ss_members s)) (re_local r))\<rparr>"
  by (cases st) (simp_all only: close_session_def Let_def invite_def save_none_def fold_close option.case,
    simp_all add: emit_def)

lemma local_fail_local:
  "re_local (fail_local (Some c) r) = filter (\<lambda>(t, _). (t, c) \<notin> set (re_local r)) (re_local r)"
proof -
  have "re_local (fold (\<lambda>(sid, lc) r. if Some c = None \<or> Some c = Some lc then emit (Ended sid lc None) (pop_local sid r) else r) xs r0) =
      filter (\<lambda>(t, _). (t, c) \<notin> set xs) (re_local r0)" for xs r0
  proof (induction xs arbitrary: r0)
    case Nil
    then show ?case by simp
  next
    case (Cons x xs)
    then show ?case
      by (cases x) (auto simp: emit_def pop_local_def AList.delete_eq intro!: filter_cong)
  qed
  then show ?thesis by (simp add: fail_local_def)
qed

lemma fail_local_silences: "map_of (re_local (fail_local (Some c) r)) t \<noteq> Some c"
  by (auto simp: local_fail_local dest!: map_of_SomeD)

text \<open>A change of access to a channel ends its session at once: the channel's entry is gone from the
  registry and no other entry changes, every participant's socket is told so, in order, before the
  channel learns that no session is available, exactly the participants' sockets leave the local
  table, and a request after it finds no session to continue.\<close>
theorem invalidate_ends_session:
  "map_of (re_values (invalidate e channel r)) = (map_of (re_values r))(channel := None) \<and>
   load e' channel (invalidate e channel r) = None \<and>
   re_sent (invalidate e channel r) = re_sent r @
     (case load e channel r of None \<Rightarrow> []
      | Some s \<Rightarrow> map (\<lambda>(pid, p). Ended (mb_sid p) channel (Some (ss_session s))) (ss_members s)) @ [Available channel None] \<and>
   re_local (invalidate e channel r) =
     (case load e channel r of None \<Rightarrow> re_local r
      | Some s \<Rightarrow> filter (\<lambda>(t, _). t \<notin> mb_sid ` snd ` set (ss_members s)) (re_local r))"
  by (simp add: invalidate_def close_session_eq load_def AList.delete_conv' split: option.split)

text \<open>A request whose \<open>participation\<close> is a list passes every check up to the lookup of the member,
  raises there instead of being refused, and thereby removes every socket of the channel from the
  worker: any account allowed to make requests with a place on its socket, even one the host has not
  admitted, ends the private chat of everybody on this worker.\<close>
theorem malformed_participation_ends_channel:
  assumes "jget d ''channel'' = JStr channel" and "authorize e sid channel = Some user"
    and "0 < length channel" and "length channel \<le> 128" and "length (json_dumps (JObj d)) \<le> 3 * max_packet"
    and "limit e (u_id user) action (int (length (json_dumps (JObj d)))) r = (Inr (), r1)"
    and "load e channel r = Some s"
    and "eligible_users e (u_id user # session_users (Some s)) = Inr eligible"
    and "filter (\<lambda>(i, p). is_stale e (ss_channel s) eligible p) (ss_members s) = []"
    and "List.find (\<lambda>u. u_id u = u_id user) eligible = Some u" and "rv_is_member e channel (u_id u)"
    and "action \<notin> {''status'', ''start'', ''join''}"
    and "jget d ''session'' = JStr (ss_session s)" and "map_of (re_local r1) sid = Some channel"
    and "jget d ''participation'' = JList xs"
  shows "handle e action sid (JObj d) r = (ended, fail_local (Some channel) r1) \<and>
    map_of (re_local (snd (handle e action sid (JObj d) r))) t \<noteq> Some channel"
proof -
  have load1: "load e channel r1 = Some s" using limit_load [OF assms(6), of channel] assms(7) by simp
  have "prune e (Some s) eligible r1 = (Inr (Some s), r1)" by (simp add: prune_def assms(9))
  moreover have "dispatch e action sid u channel d (Some s) r1 = (Inl Failed, r1)"
    using assms(12-15) by (simp add: dispatch_def participate_def)
  ultimately have "transact e action sid user channel d r1 = (Inl Failed, r1)"
    using assms(8, 10, 11) by (simp add: transact_def Let_def load1 and_then_def)
  then have "handle e action sid (JObj d) r = (ended, fail_local (Some channel) r1)"
    using handle_eq [OF assms(1-5), of action r] by (simp add: assms(6) and_then_def del: json_dumps.simps)
  then show ?thesis by (simp add: fail_local_silences)
qed

theorem malformed_participation_ends_channel_witness:
  "handle relay_demo_env ''ping'' ''sb'' (JObj [(''channel'', JStr ''c''), (''session'', JStr ''uu''), (''participation'', JList [])]) demo_relay4 =
     (ended, fail_local (Some ''c'') (snd (limit relay_demo_env ''bob'' ''ping'' 54 demo_relay4)))"
proof -
  let ?d = "[(''channel'', JStr ''c''), (''session'', JStr ''uu''), (''participation'', JList [])]"
  have n: "length (json_dumps (JObj ?d)) = 54" by (simp add: json_string_def json_char_def)
  have u: "u_id (sample_user ''bob'' ''admin'') = ''bob''" by (simp add: sample_user_def)
  obtain r1 where l: "limit relay_demo_env ''bob'' ''ping'' 54 demo_relay4 = (Inr (), r1)" and loc: "re_local r1 = re_local demo_relay4"
    by (simp add: demo_run demo_relay4_def demo_rates_def)
  show ?thesis
    using malformed_participation_ends_channel [where d = ?d and channel = "''c''" and e = relay_demo_env and sid = "''sb''"
        and user = "sample_user ''bob'' ''admin''" and action = "''ping''" and r = demo_relay4 and ?r1.0 = r1
        and s = demo_session4 and eligible = "[sample_user ''alice'' ''admin'', sample_user ''bob'' ''admin'']"
        and u = "sample_user ''bob'' ''admin''" and xs = "[]"] demo_authorize(2) n u l loc
    by (simp add: demo_eligible demo_relay4_def demo_session4_def demo_run del: json_dumps.simps)
qed

end
