(* ===== verification/ToolCalls.thy ===== *)
theory ToolCalls
  imports PyStr
begin

text \<open>
  The approval protocol of tool calls (\<open>utils/tool_approval.py\<close>, with the parts of
  \<open>utils/middleware.py\<close> that pause a response and claim the next call, and the stop request of
  \<open>main.py\<close>). The state is the stored assistant message: its output items, its \<open>done\<close> flag and
  its author. Every operation is one transaction on the message: an error leaves it as it was.
  Identifiers are compared structurally; the random identifier of a continuation is an argument.
\<close>

type_synonym item = "json dict"

text \<open>The output is \<open>None\<close> when the stored value is not a list (a missing one reads as an empty list).\<close>

record tool_message =
  tm_output :: "item list option"
  tm_done :: json
  tm_user_id :: json

definition is_call :: "item \<Rightarrow> bool" where
  "is_call i \<longleftrightarrow> jget i ''type'' = JStr ''function_call''"

definition is_result :: "item \<Rightarrow> bool" where
  "is_result i \<longleftrightarrow> jget i ''type'' = JStr ''function_call_output''"

definition call_ref :: "item \<Rightarrow> json" where
  "call_ref i = jor (jget i ''call_id'') (jget i ''id'')"

definition result_ids :: "item list \<Rightarrow> json list" where
  "result_ids items = map (\<lambda>i. jget i ''call_id'') (filter is_result items)"

definition pending_states :: "json list" where
  "pending_states = map JStr [''pending'', ''queued'', ''requires_approval'', ''in_progress'']"

definition open_states :: "json list" where
  "open_states = map JStr [''pending'', ''queued'', ''requires_approval'']"

definition is_pending :: "json list \<Rightarrow> item \<Rightarrow> bool" where
  "is_pending ids i \<longleftrightarrow> is_call i \<and> call_ref i \<notin> set ids \<and> jget i ''status'' \<in> set pending_states"

definition pending_tool_calls :: "item list \<Rightarrow> item list" where
  "pending_tool_calls items = filter (is_pending (result_ids items)) items"

text \<open>The dictionaries of a list are updated in place: here, the first one that satisfies \<open>P\<close>.\<close>

fun update_first :: "('a \<Rightarrow> bool) \<Rightarrow> ('a \<Rightarrow> 'a) \<Rightarrow> 'a list \<Rightarrow> 'a list" where
  "update_first P f [] = []"
| "update_first P f (x # xs) = (if P x then f x # xs else x # update_first P f xs)"

definition set_status :: "string \<Rightarrow> item \<Rightarrow> item" where
  "set_status s i = AList.update ''status'' (JStr s) i"

definition tool_continuation :: "string \<Rightarrow> item" where
  "tool_continuation hex =
     [(''type'', JStr ''message''), (''id'', JStr (''msg_'' @ hex)), (''status'', JStr ''in_progress''),
      (''role'', JStr ''assistant''),
      (''content'', JList [JObj [(''type'', JStr ''output_text''), (''text'', JStr [])]])]"

subsection \<open>Pausing a response\<close>

text \<open>
  The loop over the items: \<open>asked\<close> is \<open>has_pending_approval\<close>. The results are collected before it,
  an identifier that is missing does not count.
\<close>

definition adopt_id :: "item \<Rightarrow> item" where
  "adopt_id i =
     (if is_call i \<and> \<not> truthy (jget i ''call_id'') \<and> truthy (jget i ''id'')
      then AList.update ''call_id'' (jget i ''id'') i else i)"

fun pause_items :: "json list \<Rightarrow> bool \<Rightarrow> item list \<Rightarrow> item list" where
  "pause_items ids asked [] = []"
| "pause_items ids asked (i # items) =
     (let i = adopt_id i
      in if is_call i \<and> truthy (jget i ''call_id'') \<and> jget i ''call_id'' \<notin> set ids \<and>
            jget i ''status'' \<noteq> JStr ''rejected''
         then
           (if \<not> asked then set_status ''pending'' i # pause_items ids True items
            else if jget i ''status'' \<in> {JStr ''in_progress'', JStr ''completed''}
            then set_status ''queued'' i # pause_items ids asked items
            else i # pause_items ids asked items)
         else i # pause_items ids asked items)"

definition pause_for_tool_approval :: "item list \<Rightarrow> item list" where
  "pause_for_tool_approval items = pause_items (filter truthy (result_ids items)) False items"

subsection \<open>Resolving a call\<close>

datatype tool_action = Approve | Reject | Answer

record resolve_form =
  rf_call_id :: string
  rf_action :: tool_action
  rf_answers :: json
  rf_timed_out :: bool

definition call_output :: "string \<Rightarrow> string \<Rightarrow> string \<Rightarrow> item" where
  "call_output call_id txt status =
     [(''type'', JStr ''function_call_output''), (''id'', JStr (''fco_'' @ call_id)), (''call_id'', JStr call_id),
      (''output'', JList [JObj [(''type'', JStr ''input_text''), (''text'', JStr txt)]]),
      (''status'', JStr status)]"

definition answer_payload :: "resolve_form \<Rightarrow> json" where
  "answer_payload form =
     (if rf_timed_out form
      then JObj [(''status'', JStr ''cancelled''), (''answers'', JObj []), (''timed_out'', JBool True)]
      else JObj [(''status'', JStr ''answered''), (''answers'', jor (rf_answers form) (JObj []))])"

definition has_ref :: "string \<Rightarrow> item \<Rightarrow> bool" where
  "has_ref call_id i \<longleftrightarrow> is_call i \<and> call_ref i = JStr call_id"

text \<open>\<open>function_call.setdefault('call_id', \<dots>)\<close>.\<close>

definition default_id :: "string \<Rightarrow> item \<Rightarrow> item" where
  "default_id call_id i =
     (if map_of i ''call_id'' = None then AList.update ''call_id'' (JStr call_id) i else i)"

definition is_active :: "item list \<Rightarrow> bool" where
  "is_active items \<longleftrightarrow>
     (\<exists>i \<in> set (pending_tool_calls items). jget i ''approved'' = JBool True \<or> jget i ''status'' = JStr ''in_progress'')"

text \<open>What the user's decision does to the call, with the result it adds.\<close>

definition decide :: "(json \<Rightarrow> string) \<Rightarrow> resolve_form \<Rightarrow> item \<Rightarrow> ((item \<Rightarrow> item) \<times> item list) result" where
  "decide dumps form c =
     (case rf_action form of
        Approve \<Rightarrow>
          (if jget c ''name'' = JStr ''ask_user'' then Inl (HTTPException 400 ''ask_user requires an answer or deny.'')
           else Inr (\<lambda>i. AList.update ''approved'' (JBool True) (set_status ''queued'' i), []))
      | Reject \<Rightarrow>
          Inr (set_status ''rejected'',
            [call_output (rf_call_id form) ''Error: tool call rejected by user.'' ''rejected''])
      | Answer \<Rightarrow>
          (if jget c ''name'' \<noteq> JStr ''ask_user'' then Inl (HTTPException 400 ''Tool call does not accept answers.'')
           else if rf_answers form = JNull \<and> \<not> rf_timed_out form
           then Inl (HTTPException 400 ''Answers are required for ask_user.'')
           else Inr (set_status ''completed'', [call_output (rf_call_id form) (dumps (answer_payload form)) ''completed''])))"

definition resume_items :: "string \<Rightarrow> bool \<Rightarrow> tool_action \<Rightarrow> item list \<Rightarrow> item list \<times> string option" where
  "resume_items hex active action items =
     (if active then (items, None)
      else if action = Approve then (items, Some ''tools'')
      else if pending_tool_calls items = [] then (items @ [tool_continuation hex], Some ''model'')
      else (update_first (is_pending (result_ids items)) (set_status ''pending'') items, None))"

definition resolve_items :: "(json \<Rightarrow> string) \<Rightarrow> string \<Rightarrow> resolve_form \<Rightarrow> item list \<Rightarrow> (item list \<times> string option) result" where
  "resolve_items dumps hex form items =
     (case List.find (has_ref (rf_call_id form)) items of
        None \<Rightarrow> Inl (HTTPException 404 ''Tool call not found.'')
      | Some c \<Rightarrow>
          if (\<exists>i \<in> set items. is_result i \<and> jget i ''call_id'' = JStr (rf_call_id form)) \<or>
             jget c ''status'' \<notin> set open_states \<or> jget c ''approved'' = JBool True
          then Inl (HTTPException 409 ''Tool call has already been resolved.'')
          else
            (let named = update_first (has_ref (rf_call_id form)) (default_id (rf_call_id form)) items
             in bind_result (decide dumps form c) (\<lambda>(f, new).
                  Inr (resume_items hex (is_active named) (rf_action form)
                    (update_first (has_ref (rf_call_id form)) f named @ new)))))"

definition not_found :: string where
  "not_found = ''We could not find what you'' @ [CHR 0x27] @ ''re looking for :/''"

definition access_prohibited :: string where
  "access_prohibited =
     ''You do not have permission to access this resource. Please contact your administrator for assistance.''"

text \<open>
  \<open>chat\<close> is the owner of the chat if the user may write to it. The result is the message as stored
  and what has to be resumed; the socket event with the output is left out.
\<close>

definition resolve_tool_call_output ::
    "(json \<Rightarrow> string) \<Rightarrow> string \<Rightarrow> string option \<Rightarrow> string \<Rightarrow> resolve_form \<Rightarrow> tool_message option \<Rightarrow>
       (tool_message \<times> string option) result" where
  "resolve_tool_call_output dumps hex chat user_id form message =
     (case chat of None \<Rightarrow> Inl (HTTPException 401 access_prohibited)
      | Some owner \<Rightarrow>
          (case message of None \<Rightarrow> Inl (HTTPException 404 not_found)
           | Some m \<Rightarrow>
               if jor (tm_user_id m) (JStr owner) \<noteq> JStr user_id then Inl (HTTPException 403 access_prohibited)
               else (case tm_output m of None \<Rightarrow> Inl (HTTPException 400 ''Message has no resolvable output.'')
                 | Some items \<Rightarrow>
                     bind_result (resolve_items dumps hex form items) (\<lambda>(items, resume).
                       Inr (m\<lparr>tm_output := Some items, tm_done := JBool False\<rparr>, resume)))))"

subsection \<open>Claiming and completing a call\<close>

text \<open>
  The transaction at the head of the loop of \<open>resume_tool_calls\<close>: it starts the next call the user
  approved (any call in mode \<open>full\<close>, but never \<open>ask_user\<close>), one at a time.
\<close>

definition claimable :: "bool \<Rightarrow> item \<Rightarrow> bool" where
  "claimable full i \<longleftrightarrow> jget i ''name'' \<noteq> JStr ''ask_user'' \<and> (jget i ''approved'' = JBool True \<or> full)"

definition start_call :: "item \<Rightarrow> item" where
  "start_call i = set_status ''in_progress'' (AList.update ''call_id'' (call_ref i) i)"

definition claim_items :: "bool \<Rightarrow> item list \<Rightarrow> (item list \<times> item option) result" where
  "claim_items full items =
     (let ids = result_ids items; pending = pending_tool_calls items
      in if \<exists>i \<in> set pending. jget i ''status'' = JStr ''in_progress'' then Inr (items, None)
         else (case List.find (claimable full) pending of
             None \<Rightarrow> Inr (update_first (is_pending ids) (set_status ''pending'') items, None)
           | Some c \<Rightarrow>
               if \<not> truthy (jget c ''call_id'') \<and> map_of c ''id'' = None then Inl KeyError
               else Inr (update_first (\<lambda>i. is_pending ids i \<and> claimable full i) start_call items,
                      Some (start_call c))))"

definition claim_tool_call :: "bool \<Rightarrow> tool_message option \<Rightarrow> (tool_message \<times> item option) result" where
  "claim_tool_call full message =
     (case message of None \<Rightarrow> Inl (HTTPException 404 ''Message not found.'')
      | Some m \<Rightarrow>
          (case tm_output m of None \<Rightarrow> Inl AttributeError
           | Some items \<Rightarrow>
               bind_result (claim_items full items) (\<lambda>(items, started).
                 Inr (m\<lparr>tm_output := Some items, tm_done := (if started = None then tm_done m else JBool False)\<rparr>,
                   started))))"

text \<open>The items after the call ended, and whether the response is done (the call was interrupted).\<close>

definition complete_items :: "string \<Rightarrow> item \<Rightarrow> item \<Rightarrow> item list \<Rightarrow> (item list \<times> bool) result" where
  "complete_items hex call res items =
     (let ids = result_ids items;
          mine = (\<lambda>i. is_pending ids i \<and> jget i ''call_id'' = jget call ''call_id'')
      in if pending_tool_calls items \<noteq> [] \<and> map_of call ''call_id'' = None then Inl KeyError
         else (case List.find mine items of
             None \<Rightarrow> Inl (HTTPException 409 ''Tool call is no longer running.'')
           | Some saved \<Rightarrow>
               if jget saved ''status'' \<noteq> JStr ''in_progress''
               then Inl (HTTPException 409 ''Tool call is no longer running.'')
               else
                 (let items = update_first mine (\<lambda>i. dict_merge i call) items @ [res]
                  in if jget res ''status'' = JStr ''incomplete'' then Inr (items, True)
                     else if pending_tool_calls items = [] then Inr (items @ [tool_continuation hex], False)
                     else Inr (update_first (\<lambda>i. is_pending (result_ids items) i \<and> \<not> truthy (jget i ''approved''))
                            (set_status ''pending'') items, False))))"

definition complete_tool_call :: "string \<Rightarrow> item \<Rightarrow> item \<Rightarrow> tool_message option \<Rightarrow> tool_message result" where
  "complete_tool_call hex call res message =
     (case message of None \<Rightarrow> Inl (HTTPException 404 not_found)
      | Some m \<Rightarrow>
          (case tm_output m of None \<Rightarrow> Inl AttributeError
           | Some items \<Rightarrow>
               bind_result (complete_items hex call res items) (\<lambda>(items, finished).
                 Inr (m\<lparr>tm_output := Some items, tm_done := (if finished then JBool True else tm_done m)\<rparr>))))"

subsection \<open>Stopping\<close>

text \<open>The stop request finalizes the open calls of a response nobody is working on.\<close>

definition stop_item :: "item \<Rightarrow> item" where
  "stop_item i =
     (if is_call i \<and> jget i ''status'' \<in> set open_states
      then AList.delete ''approved'' (set_status ''rejected'' i) else i)"

definition stop_items :: "item list \<Rightarrow> item list" where
  "stop_items items = map stop_item items"

end
