(* ===== verification/ToolCallInv.thy ===== *)
theory ToolCallInv
  imports ToolCalls
begin

text \<open>
  Runs of the approval protocol and their invariant. With distinct call identifiers every operation
  is a \<open>move\<close>: it changes one call and appends items that are not calls. The lemmas about moves say
  how they change the calls, the results and the potential of the output; the invariant of the
  runs follows operation by operation.
\<close>

subsection \<open>Moves\<close>

definition set_call :: "json \<Rightarrow> (item \<Rightarrow> item) \<Rightarrow> item list \<Rightarrow> item list" where
  "set_call r f items = map (\<lambda>i. if is_call i \<and> call_ref i = r then f i else i) items"

definition refs :: "item list \<Rightarrow> json list" where
  "refs items = map call_ref (filter is_call items)"

lemma refs_simps [simp]:
  "refs [] = []" "refs (i # items) = (if is_call i then call_ref i # refs items else refs items)"
  "refs (xs @ ys) = refs xs @ refs ys"
  by (simp_all add: refs_def)

lemma in_refs: "r \<in> set (refs items) \<longleftrightarrow> (\<exists>i \<in> set items. is_call i \<and> call_ref i = r)"
  by (auto simp: refs_def)

lemma refs_unique:
  "distinct (refs items) \<Longrightarrow> i \<in> set items \<Longrightarrow> j \<in> set items \<Longrightarrow> is_call i \<Longrightarrow> is_call j \<Longrightarrow>
     call_ref i = call_ref j \<Longrightarrow> i = j"
  by (induction items) (auto simp: in_refs split: if_splits)

lemma result_ids_simps [simp]:
  "result_ids [] = []"
  "result_ids (i # items) = (if is_result i then jget i ''call_id'' # result_ids items else result_ids items)"
  "result_ids (xs @ ys) = result_ids xs @ result_ids ys"
  by (simp_all add: result_ids_def)

lemma call_not_result [simp]: "is_call i \<Longrightarrow> \<not> is_result i"
  by (simp add: is_call_def is_result_def)

lemma set_call_fresh: "r \<notin> set (refs items) \<Longrightarrow> set_call r f items = items"
  unfolding set_call_def by (rule map_idI) (auto simp: in_refs)

lemma update_first_set_call:
  "distinct (refs items) \<Longrightarrow> List.find P items = Some c \<Longrightarrow> is_call c \<Longrightarrow>
     update_first P f items = set_call (call_ref c) f items"
proof (induction items)
  case Nil
  then show ?case by simp
next
  case (Cons i items)
  show ?case
  proof (cases "P i")
    case True
    with Cons.prems have "c = i" by simp
    with Cons.prems True set_call_fresh [of "call_ref i" items f] show ?thesis by (simp add: set_call_def)
  next
    case False
    with Cons.prems have "List.find P items = Some c" by simp
    moreover from this have "c \<in> set items" by (rule find_Some_in [THEN conjunct1])
    ultimately show ?thesis
      using Cons False by (auto simp: set_call_def in_refs split: if_splits)
  qed
qed

lemma update_first_none: "List.find P items = None \<Longrightarrow> update_first P f items = items"
  by (induction items) (auto split: if_splits)

text \<open>A rewriting of the call \<open>c\<close> that leaves its type and its identifier.\<close>

definition same_call :: "(item \<Rightarrow> item) \<Rightarrow> item \<Rightarrow> bool" where
  "same_call f c \<longleftrightarrow> is_call (f c) \<and> call_ref (f c) = call_ref c"

lemma set_call_refs:
  assumes "distinct (refs items)" and "c \<in> set items" and "is_call c" and "same_call f c"
  shows "refs (set_call (call_ref c) f items) = refs items"
    and "result_ids (set_call (call_ref c) f items) = result_ids items"
proof -
  have same: "i = c" if "i \<in> set items" "is_call i" "call_ref i = call_ref c" for i
    using refs_unique [OF assms(1)] that assms(2, 3) by blast
  let ?g = "\<lambda>i. if is_call i \<and> call_ref i = call_ref c then f i else i"
  have "is_call (?g i) = is_call i \<and> (is_call i \<longrightarrow> call_ref (?g i) = call_ref i) \<and>
      is_result (?g i) = is_result i \<and> (is_result i \<longrightarrow> ?g i = i)" if "i \<in> set items" for i
    using same [OF that] assms(3, 4) by (auto simp: same_call_def)
  then have "refs (map ?g xs) = refs xs \<and> result_ids (map ?g xs) = result_ids xs" if "set xs \<subseteq> set items" for xs
    using that by (induction xs) (auto simp: is_result_def is_call_def)
  then show "refs (set_call (call_ref c) f items) = refs items"
    and "result_ids (set_call (call_ref c) f items) = result_ids items"
    by (simp_all add: set_call_def)
qed

lemma set_call_members:
  assumes "distinct (refs items)" and "c \<in> set items" and "is_call c"
  shows "i \<in> set (set_call (call_ref c) f items) \<longleftrightarrow>
    i = f c \<or> i \<in> set items \<and> \<not> (is_call i \<and> call_ref i = call_ref c)"
proof -
  have same: "i = c" if "i \<in> set items" "is_call i" "call_ref i = call_ref c" for i
    using refs_unique [OF assms(1)] that assms(2, 3) by blast
  with assms(2, 3) show ?thesis by (force simp: set_call_def)
qed

subsection \<open>Weights\<close>

definition weight :: "json list \<Rightarrow> item \<Rightarrow> nat" where
  "weight ids i =
     (if \<not> is_pending ids i then 0
      else if jget i ''status'' = JStr ''in_progress'' then 1
      else if jget i ''approved'' = JBool True then 2 else 3)"

definition potential :: "item list \<Rightarrow> nat" where
  "potential items = sum_list (map (weight (result_ids items)) items)"

lemma weight_not_call [simp]: "\<not> is_call i \<Longrightarrow> weight ids i = 0"
  by (simp add: weight_def is_pending_def)

lemma weight_le: "weight ids i \<le> 3"
  by (simp add: weight_def)

lemma potential_le: "potential items \<le> 3 * length (filter is_call items)"
proof -
  have "sum_list (map (weight ids) xs) \<le> 3 * length (filter is_call xs)" for ids xs
  proof (induction xs)
    case (Cons x xs)
    then show ?case using weight_le [of ids x] by simp
  qed simp
  then show ?thesis by (simp add: potential_def)
qed

lemma pending_other:
  "is_call i \<Longrightarrow> set new \<subseteq> {r} \<Longrightarrow> call_ref i \<noteq> r \<Longrightarrow> is_pending (ids @ new) i = is_pending ids i"
  by (auto simp: is_pending_def)

lemma sum_list_set_call:
  fixes w :: "item \<Rightarrow> nat"
  assumes "distinct (refs items)" and "c \<in> set items" and "is_call c"
    and "\<And>i. i \<in> set items \<Longrightarrow> \<not> (is_call i \<and> call_ref i = call_ref c) \<Longrightarrow> w' i = w i"
  shows "sum_list (map w' (set_call (call_ref c) f items)) + w c = sum_list (map w items) + w' (f c)"
  using assms
proof (induction items)
  case Nil
  then show ?case by simp
next
  case (Cons i items)
  show ?case
  proof (cases "is_call i \<and> call_ref i = call_ref c")
    case True
    then have "i = c" using refs_unique [OF Cons.prems(1), of i c] Cons.prems(2, 3) by simp
    have fresh: "call_ref c \<notin> set (refs items)" using Cons.prems(1) True by simp
    moreover have "map w' items = map w items"
      using Cons.prems(4) fresh by (intro map_cong) (auto simp: in_refs)
    then have "sum_list (map w' items) = sum_list (map w items)" by (rule arg_cong)
    ultimately show ?thesis
      using True \<open>i = c\<close> set_call_fresh [OF fresh, of f] by (simp add: set_call_def)
  next
    case False
    then have "c \<in> set items" using Cons.prems(2, 3) by auto
    with Cons False show ?thesis by (auto simp: set_call_def split: if_splits)
  qed
qed

text \<open>The potential after a move: only the rewritten call counts differently.\<close>

lemma potential_move:
  assumes d: "distinct (refs items)" and c: "c \<in> set items" "is_call c" and f: "same_call f c"
    and new: "\<And>i. i \<in> set new \<Longrightarrow> \<not> is_call i" and ids: "set (result_ids new) \<subseteq> {call_ref c}"
  shows "potential (set_call (call_ref c) f items @ new) + weight (result_ids items) c =
    potential items + weight (result_ids items @ result_ids new) (f c)"
proof -
  let ?ids = "result_ids items @ result_ids new"
  have "sum_list (map (weight ?ids) new) = 0"
    using new by (induction new) auto
  moreover have "weight ?ids i = weight (result_ids items) i" if "\<not> (is_call i \<and> call_ref i = call_ref c)" for i
    using that pending_other [OF _ ids, of i "result_ids items"] by (cases "is_call i") (simp_all add: weight_def is_pending_def [of _ i])
  ultimately show ?thesis
    using sum_list_set_call [OF d c, of "weight ?ids" "weight (result_ids items)" f] set_call_refs(2) [OF d c f]
    by (simp add: potential_def del: sum_list_eq_0_iff)
qed

subsection \<open>Runs\<close>

text \<open>
  The output with the history of a run: the identifiers the user approved, the calls that were
  started (as handed to the tool), how often the model was called again and how many decisions,
  starts and completions there were.
\<close>

record tool_run =
  tr_items :: "item list"
  tr_approved :: "json list"
  tr_started :: "item list"
  tr_resumed :: nat
  tr_work :: nat

text \<open>A completion: the started call with new arguments and its final status, and its result.\<close>

definition ends_call :: "item \<Rightarrow> item \<Rightarrow> item \<Rightarrow> bool" where
  "ends_call c call res \<longleftrightarrow>
     (\<exists>a s. call = set_status s (AList.update ''arguments'' a c)) \<and> is_result res \<and>
     jget res ''call_id'' = jget c ''call_id'' \<and> distinct (map fst res)"

inductive tool_step :: "bool \<Rightarrow> (json \<Rightarrow> string) \<Rightarrow> tool_run \<Rightarrow> tool_run \<Rightarrow> bool" for full dumps where
  Resolve: "resolve_items dumps hex form (tr_items r) = Inr (items, resume) \<Longrightarrow>
    tool_step full dumps r (r\<lparr>tr_items := items,
      tr_approved := (if rf_action form = Approve then JStr (rf_call_id form) # tr_approved r else tr_approved r),
      tr_resumed := tr_resumed r + of_bool (resume = Some ''model''), tr_work := Suc (tr_work r)\<rparr>)"
| Claim: "claim_items full (tr_items r) = Inr (items, Some c) \<Longrightarrow>
    tool_step full dumps r (r\<lparr>tr_items := items, tr_started := c # tr_started r, tr_work := Suc (tr_work r)\<rparr>)"
| Yield: "claim_items full (tr_items r) = Inr (items, None) \<Longrightarrow> tool_step full dumps r (r\<lparr>tr_items := items\<rparr>)"
| Complete: "c \<in> set (tr_started r) \<Longrightarrow> ends_call c call res \<Longrightarrow> complete_items hex call res (tr_items r) = Inr (items, finished) \<Longrightarrow>
    tool_step full dumps r (r\<lparr>tr_items := items,
      tr_resumed := tr_resumed r + of_bool (\<not> finished \<and> pending_tool_calls items = []), tr_work := Suc (tr_work r)\<rparr>)"
| Stop: "tool_step full dumps r (r\<lparr>tr_items := stop_items (tr_items r)\<rparr>)"

inductive_cases tool_stepE: "tool_step full dumps r r'"

text \<open>
  The output a response is paused with: dictionaries, calls with distinct identifiers, at most one
  result per call, nothing approved yet.
\<close>

definition fresh_output :: "item list \<Rightarrow> bool" where
  "fresh_output out \<longleftrightarrow>
     (\<forall>i \<in> set out. distinct (map fst i) \<and> (is_call i \<longrightarrow> truthy (call_ref i) \<and> jget i ''approved'' \<noteq> JBool True)) \<and>
     distinct (refs out) \<and> distinct (result_ids out)"

definition paused :: "item list \<Rightarrow> tool_run" where
  "paused out = \<lparr>tr_items = pause_for_tool_approval out, tr_approved = [], tr_started = [], tr_resumed = 0, tr_work = 0\<rparr>"

inductive tool_reachable :: "bool \<Rightarrow> (json \<Rightarrow> string) \<Rightarrow> item list \<Rightarrow> tool_run \<Rightarrow> bool" for full dumps out where
  Start: "tool_reachable full dumps out (paused out)"
| Step: "tool_reachable full dumps out r \<Longrightarrow> tool_step full dumps r r' \<Longrightarrow> tool_reachable full dumps out r'"

subsection \<open>The invariant\<close>

definition item_ok :: "json list \<Rightarrow> item \<Rightarrow> bool" where
  "item_ok A i \<longleftrightarrow> distinct (map fst i) \<and>
     (is_call i \<longrightarrow> truthy (call_ref i) \<and> (jget i ''approved'' = JBool True \<longrightarrow> call_ref i \<in> set A))"

definition running :: "item list \<Rightarrow> item \<Rightarrow> bool" where
  "running items i \<longleftrightarrow> is_pending (result_ids items) i \<and> jget i ''status'' = JStr ''in_progress''"

definition items_ok :: "json list \<Rightarrow> item list \<Rightarrow> bool" where
  "items_ok A items \<longleftrightarrow> (\<forall>i \<in> set items. item_ok A i) \<and> distinct (refs items) \<and> distinct (result_ids items) \<and>
     (\<forall>i \<in> set items. \<forall>j \<in> set items. running items i \<and> running items j \<longrightarrow> i = j)"

definition started_ok :: "bool \<Rightarrow> json list \<Rightarrow> item list \<Rightarrow> item list \<Rightarrow> bool" where
  "started_ok full A items S \<longleftrightarrow> distinct (map call_ref S) \<and>
     (\<forall>c \<in> set S. is_call c \<and> distinct (map fst c) \<and> truthy (call_ref c) \<and> jget c ''call_id'' = call_ref c \<and>
        jget c ''name'' \<noteq> JStr ''ask_user'' \<and> (full \<or> call_ref c \<in> set A) \<and>
        (jget c ''approved'' = JBool True \<longrightarrow> call_ref c \<in> set A) \<and>
        (\<forall>i \<in> set items. is_call i \<and> call_ref i = call_ref c \<and> is_pending (result_ids items) i \<longrightarrow> running items i))"

definition run_ok :: "bool \<Rightarrow> item list \<Rightarrow> tool_run \<Rightarrow> bool" where
  "run_ok full out r \<longleftrightarrow>
     items_ok (tr_approved r) (tr_items r) \<and>
     started_ok full (tr_approved r) (tr_items r) (tr_started r) \<and>
     refs (tr_items r) = refs out \<and>
     tr_work r + potential (tr_items r) \<le> 3 * length (refs out) \<and>
     tr_resumed r \<le> 1 \<and> (tr_resumed r = 1 \<longrightarrow> pending_tool_calls (tr_items r) = [])"

text \<open>A move that leads to a state that is not running, in terms of the items.\<close>

lemma is_pending_ids: "set ids' = set ids \<Longrightarrow> is_pending ids' i = is_pending ids i"
  by (simp add: is_pending_def)

lemma items_move:
  assumes ok: "items_ok A items" and c: "c \<in> set items" "is_call c" and f: "same_call f c"
    and fc: "item_ok A' (f c)" and A: "set A \<subseteq> set A'"
    and new: "\<And>i. i \<in> set new \<Longrightarrow> \<not> is_call i \<and> distinct (map fst i)"
    and ids: "set (result_ids new) \<subseteq> {call_ref c}" "distinct (result_ids items @ result_ids new)"
    and run: "running (set_call (call_ref c) f items @ new) (f c) \<Longrightarrow> \<not> running items c \<Longrightarrow> \<forall>i \<in> set items. \<not> running items i"
  shows "items_ok A' (set_call (call_ref c) f items @ new)"
    and "\<And>i. i \<in> set items \<Longrightarrow> is_call i \<Longrightarrow> call_ref i \<noteq> call_ref c \<Longrightarrow>
      running (set_call (call_ref c) f items @ new) i = running items i"
proof -
  let ?items = "set_call (call_ref c) f items @ new"
  have d: "distinct (refs items)" using ok by (simp add: items_ok_def)
  have rids: "result_ids ?items = result_ids items @ result_ids new"
    using set_call_refs(2) [OF d c f] by simp
  have refs: "refs ?items = refs items"
    using set_call_refs(1) [OF d c f] new by (auto simp: refs_def)
  have other: "running ?items i = running items i" if "is_call i" "call_ref i \<noteq> call_ref c" for i
    unfolding running_def rids using pending_other [OF that(1) ids(1) that(2)] by simp
  have mem: "i \<in> set ?items \<longleftrightarrow> i = f c \<or> i \<in> set new \<or> i \<in> set items \<and> \<not> (is_call i \<and> call_ref i = call_ref c)" for i
    using set_call_members [OF d c, of i f] by auto
  have calls: "running ?items i \<Longrightarrow> is_call i" "running items i \<Longrightarrow> is_call i" for i
    by (simp_all add: running_def is_pending_def)
  have one: "i = j" if "i \<in> set items" "j \<in> set items" "running items i" "running items j" for i j
    using ok that by (auto simp: items_ok_def)
  have runs: "i = f c \<or> i \<in> set items \<and> call_ref i \<noteq> call_ref c \<and> running items i"
    if "i \<in> set ?items" "running ?items i" for i
    using that mem [of i] calls(1) [OF that(2)] new other by blast
  have excl: "\<not> running ?items (f c)" if "i \<in> set items" "call_ref i \<noteq> call_ref c" "running items i" for i
    using run one [OF that(1) c(1) that(3)] that by blast
  have unique: "i = j" if "i \<in> set ?items" "j \<in> set ?items" "running ?items i" "running ?items j" for i j
    using runs [OF that(1, 3)] runs [OF that(2, 4)] excl one that by blast
  have ok': "item_ok A' i" if "i \<in> set ?items" for i
  proof -
    have "item_ok A i" if "i \<in> set items" using ok that by (simp add: items_ok_def)
    with that mem [of i] new fc A show ?thesis by (fastforce simp: item_ok_def)
  qed
  show "items_ok A' ?items"
    using ok' unique ids(2) refs rids d by (auto simp: items_ok_def)
  show "\<And>i. i \<in> set items \<Longrightarrow> is_call i \<Longrightarrow> call_ref i \<noteq> call_ref c \<Longrightarrow> running ?items i = running items i"
    using other by blast
qed

definition state_ok :: "bool \<Rightarrow> json list \<Rightarrow> item list \<Rightarrow> item list \<Rightarrow> bool" where
  "state_ok full A S items \<longleftrightarrow> items_ok A items \<and> started_ok full A items S"

lemma state_move:
  assumes ok: "state_ok full A S items" and c: "c \<in> set items" "is_call c" and f: "same_call f c"
    and fc: "item_ok A' (f c)" and A: "set A \<subseteq> set A'"
    and new: "\<And>i. i \<in> set new \<Longrightarrow> \<not> is_call i \<and> distinct (map fst i)"
    and ids: "set (result_ids new) \<subseteq> {call_ref c}" "distinct (result_ids items @ result_ids new)"
    and run: "running (set_call (call_ref c) f items @ new) (f c) \<Longrightarrow> \<not> running items c \<Longrightarrow> \<forall>i \<in> set items. \<not> running items i"
    and started: "call_ref c \<in> call_ref ` set S \<Longrightarrow> is_pending (result_ids items @ result_ids new) (f c) \<Longrightarrow>
      jget (f c) ''status'' = JStr ''in_progress''"
  shows "state_ok full A' S (set_call (call_ref c) f items @ new)"
    and "refs (set_call (call_ref c) f items @ new) = refs items"
proof -
  let ?items = "set_call (call_ref c) f items @ new"
  have it: "items_ok A items" and st: "started_ok full A items S" using ok by (simp_all add: state_ok_def)
  have d: "distinct (refs items)" using it by (simp add: items_ok_def)
  have rids: "result_ids ?items = result_ids items @ result_ids new"
    using set_call_refs(2) [OF d c f] by simp
  have moved1: "items_ok A' ?items"
    by (rule items_move(1) [OF it c f fc A _ ids]) (use new run in blast)+
  have moved2: "running ?items i = running items i" if "i \<in> set items" "is_call i" "call_ref i \<noteq> call_ref c" for i
    by (rule items_move(2) [OF it c f fc A _ ids _ that]) (use new run in blast)+
  have mem: "i \<in> set ?items \<longleftrightarrow> i = f c \<or> i \<in> set new \<or> i \<in> set items \<and> \<not> (is_call i \<and> call_ref i = call_ref c)" for i
    using set_call_members [OF d c, of i f] by auto
  have "running ?items i" if s: "s \<in> set S" and i: "i \<in> set ?items" "is_call i" "call_ref i = call_ref s"
      "is_pending (result_ids ?items) i" for s i
  proof (cases "call_ref i = call_ref c")
    case True
    with mem [of i] i new have "i = f c" by blast
    moreover have "call_ref c \<in> call_ref ` set S" using s i(3) True by (metis imageI)
    ultimately show ?thesis using started i(4) rids by (simp add: running_def)
  next
    case False
    have "i \<noteq> f c" using False f by (auto simp: same_call_def)
    with mem [of i] i(1, 2) new have "i \<in> set items" by blast
    moreover have "is_pending (result_ids items) i"
      using i(4) pending_other [OF i(2) ids(1) False] rids by simp
    ultimately have "running items i" using st s i(2, 3) by (auto simp: started_ok_def)
    then show ?thesis using moved2 [OF _ i(2) False] \<open>i \<in> set items\<close> by simp
  qed
  then have "started_ok full A' ?items S"
    using st A by (auto simp: started_ok_def)
  with moved1 show "state_ok full A' S ?items" by (simp add: state_ok_def)
  show "refs ?items = refs items"
    using set_call_refs(1) [OF d c f] new by (auto simp: refs_def)
qed

lemma state_append:
  assumes "state_ok full A S items" and "\<not> is_call i" and "\<not> is_result i" and "distinct (map fst i)"
  shows "state_ok full A S (items @ [i])" and "refs (items @ [i]) = refs items"
    and "potential (items @ [i]) = potential items"
proof -
  have run: "running (items @ [i]) j = running items j" for j
    using assms(3) by (simp add: running_def)
  have "\<not> running items i" using assms(2) by (simp add: running_def is_pending_def)
  moreover have "item_ok A i" using assms(2, 4) by (simp add: item_ok_def)
  ultimately show "state_ok full A S (items @ [i])"
    using assms(1-3) by (auto simp: state_ok_def items_ok_def started_ok_def run)
  show "refs (items @ [i]) = refs items" "potential (items @ [i]) = potential items"
    using assms(2, 3) by (simp_all add: potential_def)
qed

lemma pending_potential: "pending_tool_calls items = [] \<longleftrightarrow> potential items = 0"
proof -
  have "filter (is_pending ids) xs = [] \<longleftrightarrow> sum_list (map (weight ids) xs) = 0" for ids xs
    by (induction xs) (auto simp: weight_def)
  then show ?thesis by (simp add: pending_tool_calls_def potential_def del: sum_list_eq_0_iff)
qed

lemma jget_set_status [simp]: "jget (set_status s i) k = (if k = ''status'' then JStr s else jget i k)"
  by (simp add: set_status_def)

lemma set_status_keys [simp]: "distinct (map fst i) \<Longrightarrow> distinct (map fst (set_status s i))"
  by (simp add: set_status_def distinct_update)

lemma same_call_jget:
  "jget (f c) ''type'' = jget c ''type'' \<Longrightarrow> jget (f c) ''call_id'' = jget c ''call_id'' \<Longrightarrow> jget (f c) ''id'' = jget c ''id'' \<Longrightarrow>
     is_call c \<Longrightarrow> same_call f c"
  by (simp add: same_call_def is_call_def call_ref_def)

lemma same_call_status [simp]: "is_call c \<Longrightarrow> same_call (set_status s) c"
  by (rule same_call_jget) simp_all

lemma item_ok_mono: "item_ok A i \<Longrightarrow> set A \<subseteq> set A' \<Longrightarrow> item_ok A' i"
  by (auto simp: item_ok_def)

lemma item_ok_status: "item_ok A c \<Longrightarrow> is_call c \<Longrightarrow> item_ok A (set_status s c)"
  using same_call_status [of c s] by (simp add: item_ok_def same_call_def)

text \<open>The next call to be asked about is marked; nothing runs at that moment.\<close>

lemma set_pending_ok:
  assumes ok: "state_ok full A S items" and P: "\<And>i. P i \<Longrightarrow> is_pending (result_ids items) i"
    and none: "\<And>i. i \<in> set items \<Longrightarrow> \<not> running items i"
  shows "state_ok full A S (update_first P (set_status ''pending'') items)"
    and "refs (update_first P (set_status ''pending'') items) = refs items"
    and "potential (update_first P (set_status ''pending'') items) = potential items"
proof -
  let ?f = "set_status ''pending''"
  consider "List.find P items = None" | c where "List.find P items = Some c" by fastforce
  then have "state_ok full A S (update_first P ?f items) \<and> refs (update_first P ?f items) = refs items \<and>
      potential (update_first P ?f items) = potential items"
  proof cases
    case 1
    with ok show ?thesis by (simp add: update_first_none)
  next
    case 2
    from find_Some_in [OF 2] P have c: "c \<in> set items" "is_pending (result_ids items) c" by blast+
    then have call: "is_call c" by (simp add: is_pending_def)
    have it: "items_ok A items" and d: "distinct (refs items)" and ids: "distinct (result_ids items)"
      using ok by (simp_all add: state_ok_def items_ok_def)
    have cok: "item_ok A c" using it c by (simp add: items_ok_def)
    have eq: "update_first P ?f items = set_call (call_ref c) ?f items @ []"
      using update_first_set_call [OF d 2 call, of ?f] by simp
    have pend: "is_pending (result_ids items) (?f c)"
      using c(2) same_call_status [OF call, of "''pending''"] by (simp add: is_pending_def same_call_def pending_states_def)
    have st: "call_ref c \<notin> call_ref ` set S"
      using ok none c call by (auto simp: state_ok_def started_ok_def)
    have np: "jget c ''status'' \<noteq> JStr ''in_progress''"
      using none [OF c(1)] c(2) by (simp add: running_def)
    have "state_ok full A S (set_call (call_ref c) ?f items @ [])" "refs (set_call (call_ref c) ?f items @ []) = refs items"
      by (rule state_move [OF ok c(1) call same_call_status [OF call] item_ok_status [OF cok call]];
        use st ids none in \<open>simp add: running_def\<close>)+
    moreover have "potential (set_call (call_ref c) ?f items @ []) + weight (result_ids items) c =
        potential items + weight (result_ids items @ result_ids []) (?f c)"
      by (rule potential_move [OF d c(1) call same_call_status [OF call]]) simp_all
    moreover have "weight (result_ids items) (?f c) = weight (result_ids items) c"
      using pend c(2) np by (simp add: weight_def)
    ultimately show ?thesis by (simp add: eq)
  qed
  then show "state_ok full A S (update_first P ?f items)" "refs (update_first P ?f items) = refs items"
    "potential (update_first P ?f items) = potential items" by simp_all
qed

subsection \<open>Decisions\<close>

lemma update_first_twice:
  "(\<And>x. P x \<Longrightarrow> P (g x)) \<Longrightarrow> update_first P f (update_first P g xs) = update_first P (f \<circ> g) xs"
  by (induction xs) auto

lemma jget_default_id [simp]: "k \<noteq> ''call_id'' \<Longrightarrow> jget (default_id cid i) k = jget i k"
  by (simp add: default_id_def)

lemma default_id_ref: "has_ref cid i \<Longrightarrow> has_ref cid (default_id cid i)"
  by (cases "map_of i ''call_id''")
    (auto simp: has_ref_def is_call_def default_id_def call_ref_def jor_def jget_def split: if_splits)

lemma default_id_keys [simp]: "distinct (map fst i) \<Longrightarrow> distinct (map fst (default_id cid i))"
  by (simp add: default_id_def distinct_update)

lemma in_progress_not_open [simp]: "JStr ''in_progress'' \<notin> set open_states" "set open_states \<subseteq> set pending_states"
  by (auto simp: open_states_def pending_states_def)

text \<open>What a decision makes of the call, and the results it adds.\<close>

lemma decide_ok:
  assumes "decide dumps form c = Inr (f, new)" and c: "has_ref (rf_call_id form) c" and ok: "item_ok A c"
  defines "h \<equiv> f \<circ> default_id (rf_call_id form)"
    and "A' \<equiv> (if rf_action form = Approve then JStr (rf_call_id form) # A else A)"
  shows "same_call h c \<and> item_ok A' (h c) \<and> jget (h c) ''status'' \<noteq> JStr ''in_progress'' \<and>
    (if rf_action form = Approve then new = [] \<and> jget (h c) ''approved'' = JBool True
     else jget (h c) ''status'' \<notin> set pending_states \<and> refs new = [] \<and> result_ids new = [call_ref c]) \<and>
    (\<forall>i \<in> set new. \<not> is_call i \<and> distinct (map fst i))"
proof -
  let ?d = "default_id (rf_call_id form)"
  have ref: "is_call (?d c)" "call_ref (?d c) = call_ref c" "call_ref c = JStr (rf_call_id form)" "is_call c"
    using default_id_ref [OF c] c by (simp_all add: has_ref_def)
  have keys: "distinct (map fst (?d c))" "truthy (call_ref c)" using ok ref(4) by (auto simp: item_ok_def)
  have status: "is_call (set_status s (?d c))" "call_ref (set_status s (?d c)) = call_ref c" for s
    using same_call_status [OF ref(1), of s] ref(2) by (simp_all add: same_call_def)
  have approve: "is_call (AList.update ''approved'' (JBool True) (set_status s (?d c)))"
    "call_ref (AList.update ''approved'' (JBool True) (set_status s (?d c))) = call_ref c" for s
    using status [of s] by (simp_all add: is_call_def call_ref_def)
  have out: "is_result (call_output i t s)" "\<not> is_call (call_output i t s)" "jget (call_output i t s) ''call_id'' = JStr i"
    "distinct (map fst (call_output i t s))" for i t s
    by (simp_all add: call_output_def is_result_def is_call_def)
  show ?thesis
  proof (cases "rf_action form")
    case Approve
    with assms(1) have "f = (\<lambda>i. AList.update ''approved'' (JBool True) (set_status ''queued'' i))" "new = []"
      by (auto simp: decide_def split: if_splits)
    with Approve approve keys ref show ?thesis
      by (simp add: h_def A'_def same_call_def item_ok_def distinct_update)
  next
    case Reject
    with assms(1) have "f = set_status ''rejected''"
      "new = [call_output (rf_call_id form) ''Error: tool call rejected by user.'' ''rejected'']"
      by (auto simp: decide_def)
    with Reject status keys ref ok out show ?thesis
      by (simp add: h_def A'_def same_call_def item_ok_def pending_states_def)
  next
    case Answer
    with assms(1) have "f = set_status ''completed''"
      "new = [call_output (rf_call_id form) (dumps (answer_payload form)) ''completed'']"
      by (auto simp: decide_def split: if_splits)
    with Answer status keys ref ok out show ?thesis
      by (simp add: h_def A'_def same_call_def item_ok_def pending_states_def)
  qed
qed

lemma continuation_item [simp]:
  "\<not> is_call (tool_continuation hex)" "\<not> is_result (tool_continuation hex)" "distinct (map fst (tool_continuation hex))"
  by (simp_all add: tool_continuation_def is_call_def is_result_def)

lemma resume_ok:
  assumes ok: "state_ok full A S items" and none: "\<not> active \<Longrightarrow> \<forall>i \<in> set items. \<not> running items i"
    and res: "resume_items hex active action items = (items', resume)"
  shows "state_ok full A S items' \<and> refs items' = refs items \<and> potential items' = potential items \<and>
    (resume = Some ''model'' \<longrightarrow> potential items' = 0)"
proof -
  consider "items' = items" "resume = None \<or> resume = Some ''tools''"
    | "items' = items @ [tool_continuation hex]" "pending_tool_calls items = []"
    | "\<not> active" "items' = update_first (is_pending (result_ids items)) (set_status ''pending'') items" "resume = None"
    using res by (auto simp: resume_items_def split: if_splits)
  then show ?thesis
  proof cases
    case 1
    with ok show ?thesis by auto
  next
    case 2
    with state_append [OF ok continuation_item] pending_potential show ?thesis by simp
  next
    case 3
    with set_pending_ok [OF ok, of "is_pending (result_ids items)"] none show ?thesis by simp
  qed
qed

lemma resolve_ok:
  assumes ok: "state_ok full A S items" and res: "resolve_items dumps hex form items = Inr (items', resume)"
  defines "A' \<equiv> (if rf_action form = Approve then JStr (rf_call_id form) # A else A)"
  shows "state_ok full A' S items' \<and> refs items' = refs items \<and> potential items' < potential items \<and>
    (resume = Some ''model'' \<longrightarrow> potential items' = 0)"
proof -
  let ?P = "has_ref (rf_call_id form)" and ?d = "default_id (rf_call_id form)"
  from res obtain c f new where find: "List.find ?P items = Some c"
    and noresult: "\<not> (\<exists>i \<in> set items. is_result i \<and> jget i ''call_id'' = JStr (rf_call_id form))"
    and status: "jget c ''status'' \<in> set open_states" "jget c ''approved'' \<noteq> JBool True"
    and dec: "decide dumps form c = Inr (f, new)"
    and resume: "resume_items hex (is_active (update_first ?P ?d items)) (rf_action form)
      (update_first ?P f (update_first ?P ?d items) @ new) = (items', resume)"
    by (auto simp: resolve_items_def Let_def bind_result_Inr split: option.splits if_splits)
  from find_Some_in [OF find] have c: "c \<in> set items" "?P c" by blast+
  then have call: "is_call c" and ref: "call_ref c = JStr (rf_call_id form)" by (simp_all add: has_ref_def)
  have it: "items_ok A items" and d: "distinct (refs items)" and dr: "distinct (result_ids items)"
    using ok by (simp_all add: state_ok_def items_ok_def)
  have cok: "item_ok A c" using it c(1) by (simp add: items_ok_def)
  define h where "h = f \<circ> ?d"
  note dk = decide_ok [OF dec c(2) cok, folded h_def A'_def]
  have fresh: "call_ref c \<notin> set (result_ids items)"
    using noresult ref by (auto simp: result_ids_def)
  have pend: "is_pending (result_ids items) c"
    using call fresh subsetD [OF in_progress_not_open(2) status(1)] by (simp add: is_pending_def)
  have np: "jget c ''status'' \<noteq> JStr ''in_progress''" using status(1) by auto
  have notS: "call_ref c \<notin> call_ref ` set S"
    using ok c call pend np by (fastforce simp: state_ok_def started_ok_def running_def)
  let ?one = "set_call (call_ref c) h items @ new"
  have new: "\<not> is_call i \<and> distinct (map fst i)" if "i \<in> set new" for i using dk that by blast
  have ids: "set (result_ids new) \<subseteq> {call_ref c}" "distinct (result_ids items @ result_ids new)"
    using dk fresh dr by (auto split: if_splits)
  have hnp: "\<not> running ?one (h c)" using dk by (simp add: running_def)
  have A: "set A \<subseteq> set A'" by (auto simp: A'_def)
  have sc: "same_call h c" and hok: "item_ok A' (h c)" using dk by blast+
  have one: "state_ok full A' S ?one" "refs ?one = refs items"
    by (rule state_move [OF ok c(1) call sc hok A new ids]; use hnp notS in blast)+
  have two: "update_first ?P f (update_first ?P ?d items) @ new = ?one"
    using update_first_twice [of ?P ?d f items] default_id_ref update_first_set_call [OF d find call, of h]
    by (simp add: h_def)
  have "weight (result_ids items @ result_ids new) (h c) \<le> 2"
    using dk by (auto simp: weight_def is_pending_def split: if_splits)
  moreover have "weight (result_ids items) c = 3"
    using pend np status(2) by (simp add: weight_def)
  moreover have "potential ?one + weight (result_ids items) c = potential items + weight (result_ids items @ result_ids new) (h c)"
    by (rule potential_move [OF d c(1) call sc _ ids(1)]) (use new in blast)
  ultimately have less: "potential ?one < potential items" by linarith
  have none: "\<forall>i \<in> set ?one. \<not> running ?one i" if inactive: "\<not> is_active (update_first ?P ?d items)"
  proof
    fix i assume i: "i \<in> set ?one"
    show "\<not> running ?one i"
    proof
      assume run: "running ?one i"
      have named: "update_first ?P ?d items = set_call (call_ref c) ?d items"
        by (rule update_first_set_call [OF d find call])
      have scd: "same_call ?d c" using default_id_ref [OF c(2)] c(2) by (simp add: same_call_def has_ref_def)
      from run have icall: "is_call i" by (simp add: running_def is_pending_def)
      with i run hnp new have other: "i \<in> set items" "call_ref i \<noteq> call_ref c"
        using set_call_members [OF d c(1) call, of i h] by auto
      with run have "is_pending (result_ids items) i" "jget i ''status'' = JStr ''in_progress''"
        using pending_other [OF icall ids(1)] set_call_refs(2) [OF d c(1) call sc] by (simp_all add: running_def)
      moreover have "i \<in> set (set_call (call_ref c) ?d items)"
        using set_call_members [OF d c(1) call, of i ?d] other by blast
      ultimately show False
        using inactive set_call_refs(2) [OF d c(1) call scd] by (auto simp: is_active_def pending_tool_calls_def named)
    qed
  qed
  have "state_ok full A' S items' \<and> refs items' = refs ?one \<and> potential items' = potential ?one \<and>
      (resume = Some ''model'' \<longrightarrow> potential items' = 0)"
    by (rule resume_ok [OF one(1) none resume [unfolded two]])
  with less one(2) show ?thesis by metis
qed

subsection \<open>Starting and ending calls\<close>

lemma find_filter: "List.find P (filter Q xs) = List.find (\<lambda>x. Q x \<and> P x) xs"
  by (induction xs) auto

lemma jget_start_call [simp]:
  "jget (start_call i) k = (if k = ''status'' then JStr ''in_progress'' else if k = ''call_id'' then call_ref i else jget i k)"
  by (simp add: start_call_def)

lemma start_call_ok:
  "is_call c \<Longrightarrow> truthy (call_ref c) \<Longrightarrow> same_call start_call c"
  by (simp add: same_call_def is_call_def call_ref_def [of "start_call c"])

lemma claim_ok:
  assumes ok: "state_ok full A S items" and res: "claim_items full items = Inr (items', Some s)"
  shows "state_ok full A (s # S) items' \<and> refs items' = refs items \<and> potential items' < potential items"
proof -
  let ?P = "\<lambda>i. is_pending (result_ids items) i \<and> claimable full i"
  from res obtain c where idle: "\<not> (\<exists>i \<in> set (pending_tool_calls items). jget i ''status'' = JStr ''in_progress'')"
    and find: "List.find ?P items = Some c" and items': "items' = update_first ?P start_call items" and s: "s = start_call c"
    by (auto simp: claim_items_def Let_def pending_tool_calls_def find_filter split: if_splits option.splits)
  from find_Some_in [OF find] have c: "c \<in> set items" "is_pending (result_ids items) c" "claimable full c" by blast+
  have call: "is_call c" using c(2) by (simp add: is_pending_def)
  have it: "items_ok A items" and d: "distinct (refs items)" and dr: "distinct (result_ids items)"
    using ok by (simp_all add: state_ok_def items_ok_def)
  have cok: "item_ok A c" using it c(1) by (simp add: items_ok_def)
  then have keys: "distinct (map fst c)" "truthy (call_ref c)"
    and app: "jget c ''approved'' = JBool True \<Longrightarrow> call_ref c \<in> set A"
    using call by (auto simp: item_ok_def)
  have idle': "\<not> running items i" if "i \<in> set items" for i
    using idle that by (auto simp: running_def pending_tool_calls_def)
  have sc: "same_call start_call c" by (rule start_call_ok [OF call keys(2)])
  have sk: "distinct (map fst (start_call c))"
    using keys(1) by (simp add: start_call_def distinct_update)
  have sok: "item_ok A (start_call c)"
    using sc keys app sk by (auto simp: item_ok_def same_call_def)
  let ?one = "set_call (call_ref c) start_call items @ []"
  have one: "state_ok full A S ?one" "refs ?one = refs items"
    by (rule state_move [OF ok c(1) call sc sok]; use idle' dr in simp)+
  have eq: "items' = ?one"
    using update_first_set_call [OF d find call, of start_call] items' by simp
  have "running ?one (start_call c)"
    using c(2) sc set_call_refs(2) [OF d c(1) call sc]
    by (simp add: running_def is_pending_def same_call_def pending_states_def)
  then have runs: "running ?one i" if "i \<in> set ?one" "is_call i" "call_ref i = call_ref c" for i
    using that set_call_members [OF d c(1) call, of i start_call] by auto
  have notS: "call_ref c \<notin> call_ref ` set S"
    using ok c(1, 2) call idle' by (fastforce simp: state_ok_def started_ok_def)
  have "started_ok full A ?one S" using one(1) by (simp add: state_ok_def)
  then have "started_ok full A ?one (s # S)"
    using runs notS s sc sk keys c(3) app
    by (auto simp: started_ok_def same_call_def claimable_def)
  moreover have "potential ?one + weight (result_ids items) c = potential items + weight (result_ids items @ result_ids []) (start_call c)"
    by (rule potential_move [OF d c(1) call sc]) simp_all
  moreover have "weight (result_ids items) (start_call c) \<le> 1" by (simp add: weight_def)
  moreover have "2 \<le> weight (result_ids items) c"
    using c(2) idle' [OF c(1)] by (simp add: weight_def running_def)
  ultimately show ?thesis using one by (simp add: state_ok_def eq)
qed

lemma yield_ok:
  assumes ok: "state_ok full A S items" and res: "claim_items full items = Inr (items', None)"
  shows "state_ok full A S items' \<and> refs items' = refs items \<and> potential items' = potential items"
proof -
  consider "items' = items"
    | "items' = update_first (is_pending (result_ids items)) (set_status ''pending'') items"
      "\<not> (\<exists>i \<in> set (pending_tool_calls items). jget i ''status'' = JStr ''in_progress'')"
    using res by (auto simp: claim_items_def Let_def split: if_splits option.splits)
  then show ?thesis
  proof cases
    case 1
    with ok show ?thesis by simp
  next
    case 2
    have "\<not> running items i" if "i \<in> set items" for i
      using 2(2) that by (auto simp: running_def pending_tool_calls_def)
    with set_pending_ok [OF ok, of "is_pending (result_ids items)"] 2(1) show ?thesis by simp
  qed
qed

lemma complete_ok:
  assumes ok: "state_ok full A S items" and c: "c \<in> set S" and ends: "ends_call c call res"
    and run: "complete_items hex call res items = Inr (items', finished)"
  shows "state_ok full A S items' \<and> refs items' = refs items \<and> potential items' < potential items"
proof -
  have cok: "is_call c" "distinct (map fst c)" "truthy (call_ref c)" "jget c ''call_id'' = call_ref c"
    "jget c ''approved'' = JBool True \<Longrightarrow> call_ref c \<in> set A"
    using ok c by (auto simp: state_ok_def started_ok_def)
  from ends obtain a st where call: "call = set_status st (AList.update ''arguments'' a c)"
    and r: "is_result res" "jget res ''call_id'' = call_ref c" "distinct (map fst res)"
    using cok(4) by (auto simp: ends_call_def)
  have cget: "jget call k = jget c k" if "k \<noteq> ''status''" "k \<noteq> ''arguments''" for k
    using that by (simp add: call)
  have ckeys: "distinct (map fst call)" using cok(2) by (simp add: call distinct_update)
  let ?P = "\<lambda>i. is_pending (result_ids items) i \<and> jget i ''call_id'' = jget call ''call_id''"
  from run obtain m where find: "List.find ?P items = Some m" and status: "jget m ''status'' = JStr ''in_progress''"
    and tail: "(let items = update_first ?P (\<lambda>i. dict_merge i call) items @ [res]
       in if jget res ''status'' = JStr ''incomplete'' then Inr (items, True)
          else if pending_tool_calls items = [] then Inr (items @ [tool_continuation hex], False)
          else Inr (update_first (\<lambda>i. is_pending (result_ids items) i \<and> \<not> truthy (jget i ''approved''))
                 (set_status ''pending'') items, False)) = (Inr (items', finished) :: (item list \<times> bool) result)"
    by (auto simp: complete_items_def Let_def split: if_splits option.splits)
  from find_Some_in [OF find] have m: "m \<in> set items" "is_pending (result_ids items) m" "jget m ''call_id'' = call_ref c"
    using cget [of "''call_id''"] cok(4) by simp_all
  have mcall: "is_call m" using m(2) by (simp add: is_pending_def)
  have mref: "call_ref m = call_ref c" using m(3) cok(3) by (simp add: call_ref_def [of m])
  have it: "items_ok A items" and d: "distinct (refs items)" and dr: "distinct (result_ids items)"
    using ok by (simp_all add: state_ok_def items_ok_def)
  have mok: "item_ok A m" using it m(1) by (simp add: items_ok_def)
  define h where "h = (\<lambda>i. dict_merge i call)"
  have hget: "jget (h m) k = (if map_of call k = None then jget m k else jget call k)" for k
    by (simp add: h_def jget_dict_merge [OF ckeys])
  have "is_call (h m)"
    using mcall cok(1) cget [of "''type''"] by (simp add: is_call_def hget)
  moreover have cid: "jget (h m) ''call_id'' = call_ref c"
    using m(3) cok(4) cget [of "''call_id''"] by (simp add: hget)
  then have "call_ref (h m) = call_ref m" using cok(3) mref by (simp add: call_ref_def [of "h m"])
  ultimately have sc: "same_call h m" by (simp add: same_call_def)
  have "jget (h m) ''approved'' = JBool True \<Longrightarrow> call_ref m \<in> set A"
    using mok mcall cok(5) mref cget [of "''approved''"] by (auto simp: hget item_ok_def split: if_splits)
  then have hok: "item_ok A (h m)"
    using mok sc mcall distinct_dict_merge [of m call] by (auto simp: item_ok_def same_call_def h_def)
  have fresh: "call_ref m \<notin> set (result_ids items)" using m(2) by (simp add: is_pending_def)
  have ids: "set (result_ids [res]) \<subseteq> {call_ref m}" "distinct (result_ids items @ result_ids [res])"
    using r fresh dr mref by auto
  have rnew: "\<not> is_call i \<and> distinct (map fst i)" if "i \<in> set [res]" for i
    using that r(1, 3) by (auto simp: is_call_def is_result_def)
  have hpend: "\<not> is_pending (result_ids items @ result_ids [res]) (h m)"
    using sc r mref by (simp add: is_pending_def same_call_def)
  let ?one = "set_call (call_ref m) h items @ [res]"
  have hrun: "\<not> running ?one (h m)"
    using hpend set_call_refs(2) [OF d m(1) mcall sc] r(1) by (simp add: running_def)
  have one: "state_ok full A S ?one" "refs ?one = refs items"
    by (rule state_move [OF ok m(1) mcall sc hok subset_refl rnew ids]; use hrun hpend in blast)+
  have eq: "update_first ?P (\<lambda>i. dict_merge i call) items @ [res] = ?one"
    using update_first_set_call [OF d find mcall, of h] by (simp add: h_def)
  have "running items m" using m(2) status by (simp add: running_def)
  have none: "\<not> running ?one i" if "i \<in> set ?one" for i
  proof
    assume ri: "running ?one i"
    then have icall: "is_call i" by (simp add: running_def is_pending_def)
    with that ri hrun rnew have "i \<in> set items" "call_ref i \<noteq> call_ref m"
      using set_call_members [OF d m(1) mcall, of i h] by auto
    moreover from this ri have "running items i"
      using pending_other [OF icall ids(1)] set_call_refs(2) [OF d m(1) mcall sc] r(1) by (simp add: running_def)
    ultimately show False using it m(1) \<open>running items m\<close> by (auto simp: items_ok_def)
  qed
  have "potential ?one + weight (result_ids items) m = potential items + weight (result_ids items @ result_ids [res]) (h m)"
    by (rule potential_move [OF d m(1) mcall sc _ ids(1)]) (use rnew in blast)
  moreover have "weight (result_ids items @ result_ids [res]) (h m) = 0" using hpend by (simp add: weight_def)
  moreover have "weight (result_ids items) m = 1" using m(2) status by (simp add: weight_def)
  ultimately have less: "potential ?one < potential items" by simp
  from tail [unfolded Let_def eq] consider "items' = ?one" | "items' = ?one @ [tool_continuation hex]"
    | "items' = update_first (\<lambda>i. is_pending (result_ids ?one) i \<and> \<not> truthy (jget i ''approved'')) (set_status ''pending'') ?one"
    by (auto split: if_splits)
  then show ?thesis
  proof cases
    case 1
    with one less show ?thesis by simp
  next
    case 2
    with state_append [OF one(1) continuation_item] one(2) less show ?thesis by simp
  next
    case 3
    with set_pending_ok [OF one(1) _ none, of "\<lambda>i. is_pending (result_ids ?one) i \<and> \<not> truthy (jget i ''approved'')"] one(2) less
    show ?thesis by simp
  qed
qed

subsection \<open>Stopping and pausing\<close>

lemma stop_item_get: "k \<notin> {''status'', ''approved''} \<Longrightarrow> jget (stop_item i) k = jget i k"
  by (simp add: stop_item_def)

lemma stop_item_kind [simp]:
  "is_call (stop_item i) = is_call i" "is_result (stop_item i) = is_result i" "call_ref (stop_item i) = call_ref i"
  "jget (stop_item i) ''call_id'' = jget i ''call_id''"
  by (simp_all add: is_call_def is_result_def call_ref_def stop_item_get)

lemma stop_ids [simp]: "result_ids (stop_items items) = result_ids items" "refs (stop_items items) = refs items"
  by (induction items) (simp_all add: stop_items_def)

lemma stop_pending: "is_pending ids (stop_item i) \<Longrightarrow> stop_item i = i"
  by (auto simp: stop_item_def is_pending_def pending_states_def)

lemma stop_ok:
  assumes ok: "state_ok full A S items"
  shows "state_ok full A S (stop_items items) \<and> refs (stop_items items) = refs items \<and>
    potential (stop_items items) \<le> potential items"
proof -
  have run: "stop_item i = i \<and> running items i" if "running (stop_items items) (stop_item i)" for i
    using that stop_pending by (metis running_def stop_ids(1))
  have "item_ok A (stop_item i)" if "item_ok A i" for i
    using that stop_item_kind(1, 3) [of i]
    by (auto simp: item_ok_def stop_item_def distinct_delete)
  then have "items_ok A (stop_items items)"
    using ok run by (fastforce simp: state_ok_def items_ok_def stop_items_def stop_ids [unfolded stop_items_def])
  moreover have "running (stop_items items) j"
    if c: "c \<in> set S" and j: "j \<in> set (stop_items items)" "is_call j" "call_ref j = call_ref c"
      "is_pending (result_ids (stop_items items)) j" for c j
  proof -
    from j(1) obtain i where i: "i \<in> set items" "j = stop_item i" by (auto simp: stop_items_def)
    with j(4) have "j = i" using stop_pending by auto
    with i(1) j ok c show ?thesis by (auto simp: running_def state_ok_def started_ok_def)
  qed
  then have "started_ok full A (stop_items items) S"
    using ok by (simp add: state_ok_def started_ok_def)
  moreover have "sum_list (map (weight ids \<circ> stop_item) xs) \<le> sum_list (map (weight ids) xs)" for ids xs
  proof (rule sum_list_mono)
    fix x
    show "(weight ids \<circ> stop_item) x \<le> weight ids x"
      using stop_pending [of ids x] by (cases "is_pending ids (stop_item x)") (auto simp: weight_def)
  qed
  then have "potential (stop_items items) \<le> potential items"
    by (simp add: potential_def stop_ids [unfolded stop_items_def] stop_items_def)
  ultimately show ?thesis by (simp add: state_ok_def)
qed

lemma adopt_id_kind [simp]:
  "is_call (adopt_id i) = is_call i" "is_result (adopt_id i) = is_result i" "call_ref (adopt_id i) = call_ref i"
  "k \<noteq> ''call_id'' \<Longrightarrow> jget (adopt_id i) k = jget i k" "is_result i \<Longrightarrow> adopt_id i = i"
  by (auto simp: is_call_def is_result_def call_ref_def adopt_id_def jor_def)

lemma adopt_id_truthy: "is_call i \<Longrightarrow> truthy (call_ref i) \<Longrightarrow> jget (adopt_id i) ''call_id'' = call_ref i"
  by (auto simp: adopt_id_def call_ref_def jor_def)

lemma adopt_id_keys: "distinct (map fst i) \<Longrightarrow> distinct (map fst (adopt_id i))"
  by (simp add: adopt_id_def distinct_update)

text \<open>Pausing only rewrites statuses and adopts identifiers, and nothing runs afterwards.\<close>

lemma status_kind [simp]:
  "is_call (set_status s i) = is_call i" "is_result (set_status s i) = is_result i" "call_ref (set_status s i) = call_ref i"
  by (simp_all add: is_call_def is_result_def call_ref_def)

lemma pause_items_ok:
  "\<forall>i \<in> set items. distinct (map fst i) \<and> (is_call i \<longrightarrow> truthy (call_ref i) \<and> jget i ''approved'' \<noteq> JBool True) \<Longrightarrow>
     refs (pause_items ids asked items) = refs items \<and> result_ids (pause_items ids asked items) = result_ids items \<and>
     (\<forall>i \<in> set (pause_items ids asked items). item_ok [] i \<and>
        (is_call i \<and> call_ref i \<notin> set ids \<longrightarrow> jget i ''status'' \<noteq> JStr ''in_progress''))"
proof (induction items arbitrary: asked)
  case Nil
  then show ?case by simp
next
  case (Cons i items)
  let ?i = "adopt_id i"
  have "item_ok [] ?i" "item_ok [] (set_status s ?i)" for s
    using Cons.prems adopt_id_keys [of i] by (auto simp: item_ok_def)
  moreover have "is_call i \<Longrightarrow> jget ?i ''call_id'' = call_ref i \<and> truthy (call_ref i)"
    using Cons.prems adopt_id_truthy [of i] by simp
  moreover have "is_result i \<Longrightarrow> ?i = i" by simp
  ultimately show ?case
    using Cons.IH [of asked] Cons.IH [of True] Cons.prems by (auto simp: Let_def)
qed

lemma paused_ok:
  assumes "fresh_output out"
  shows "run_ok full out (paused out)"
proof -
  let ?ids = "filter truthy (result_ids out)" and ?items = "pause_for_tool_approval out"
  have p: "refs ?items = refs out \<and> result_ids ?items = result_ids out \<and>
     (\<forall>i \<in> set ?items. item_ok [] i \<and> (is_call i \<and> call_ref i \<notin> set ?ids \<longrightarrow> jget i ''status'' \<noteq> JStr ''in_progress''))"
    unfolding pause_for_tool_approval_def by (rule pause_items_ok) (use assms in \<open>simp add: fresh_output_def\<close>)
  have none: "\<not> running ?items i" if "i \<in> set ?items" for i
    using p that by (auto simp: running_def is_pending_def item_ok_def)
  have "items_ok [] ?items"
    using assms p none by (auto simp: items_ok_def fresh_output_def)
  moreover have "potential ?items \<le> 3 * length (refs out)"
    using potential_le [of ?items] p by (metis length_map refs_def)
  ultimately show ?thesis using p by (simp add: run_ok_def paused_def started_ok_def)
qed

lemma tool_step_ok:
  assumes "tool_step full dumps r r'" and ok: "run_ok full out r"
  shows "run_ok full out r'"
proof -
  have st: "state_ok full (tr_approved r) (tr_started r) (tr_items r)" and rf: "refs (tr_items r) = refs out"
    and work: "tr_work r + potential (tr_items r) \<le> 3 * length (refs out)"
    and resumed: "tr_resumed r = 0 \<or> tr_resumed r = 1 \<and> potential (tr_items r) = 0"
    using ok by (auto simp: run_ok_def state_ok_def pending_potential)
  from assms(1) show ?thesis
  proof (cases rule: tool_step.cases)
    case (Resolve hex form items resume)
    from resolve_ok [OF st Resolve(2)] show ?thesis
      using Resolve(1) rf work resumed by (auto simp: run_ok_def state_ok_def pending_potential)
  next
    case (Claim items c)
    from claim_ok [OF st Claim(2)] show ?thesis
      using Claim(1) rf work resumed by (auto simp: run_ok_def state_ok_def pending_potential)
  next
    case (Yield items)
    from yield_ok [OF st Yield(2)] show ?thesis
      using Yield(1) rf work resumed by (auto simp: run_ok_def state_ok_def pending_potential)
  next
    case (Complete c call res hex items finished)
    from complete_ok [OF st Complete(2-4)] show ?thesis
      using Complete(1) rf work resumed by (auto simp: run_ok_def state_ok_def pending_potential)
  next
    case Stop
    from stop_ok [OF st] show ?thesis
      using Stop rf work resumed by (auto simp: run_ok_def state_ok_def pending_potential)
  qed
qed

lemma tool_reachable_ok: "tool_reachable full dumps out r \<Longrightarrow> fresh_output out \<Longrightarrow> run_ok full out r"
  by (induction rule: tool_reachable.induct) (auto intro: paused_ok tool_step_ok)

end
