(* ===== verification/ToolCallClaims.thy ===== *)
theory ToolCallClaims
  imports ToolCallInv
begin

text \<open>
  The properties of the approval protocol over every run from a paused response: consent and single
  execution, a model that is called again once and only when everything is settled, a bound on the
  work, and the exact effect of a decision.
\<close>

text \<open>An output with two tool calls and a question, as the model left it.\<close>

definition demo_call :: "string \<Rightarrow> string \<Rightarrow> item" where
  "demo_call i name = [(''type'', JStr ''function_call''), (''id'', JStr i), (''call_id'', JStr i),
     (''name'', JStr name), (''arguments'', JStr ''{}''), (''status'', JStr ''in_progress'')]"

definition demo_output :: "item list" where
  "demo_output = [demo_call ''a'' ''search'', demo_call ''b'' ''delete'']"

definition demo_form :: "string \<Rightarrow> tool_action \<Rightarrow> resolve_form" where
  "demo_form i action = \<lparr>rf_call_id = i, rf_action = action, rf_answers = JNull, rf_timed_out = False\<rparr>"

lemmas demo_simps = demo_output_def demo_call_def demo_form_def fresh_output_def is_call_def is_result_def call_ref_def
  refs_def result_ids_def jor_def set_status_def

lemma demo_fresh: "fresh_output demo_output"
  by (simp add: demo_simps)

definition demo_approved :: tool_run where
  "demo_approved = \<lparr>tr_items = [AList.update ''approved'' (JBool True) (set_status ''queued'' (demo_call ''a'' ''search'')),
       set_status ''queued'' (demo_call ''b'' ''delete'')],
     tr_approved = [JStr ''a''], tr_started = [], tr_resumed = 0, tr_work = 1\<rparr>"

lemma demo_approve:
  "resolve_items json_dumps ''h'' (demo_form ''a'' Approve) (pause_for_tool_approval demo_output) =
     Inr (tr_items demo_approved, Some ''tools'')"
  by code_simp

lemma demo_approved_reachable: "tool_reachable False json_dumps demo_output demo_approved"
proof -
  have "tool_step False json_dumps (paused demo_output) demo_approved"
    using tool_step.Resolve [of json_dumps "''h''" "demo_form ''a'' Approve" "paused demo_output"] demo_approve
    by (simp add: paused_def demo_approved_def demo_form_def)
  then show ?thesis by (rule tool_reachable.Step [OF tool_reachable.Start])
qed

definition demo_started :: tool_run where
  "demo_started = \<lparr>tr_items = [AList.update ''approved'' (JBool True) (demo_call ''a'' ''search''),
       set_status ''queued'' (demo_call ''b'' ''delete'')],
     tr_approved = [JStr ''a''], tr_started = [AList.update ''approved'' (JBool True) (demo_call ''a'' ''search'')],
     tr_resumed = 0, tr_work = 2\<rparr>"

lemma demo_started_reachable: "tool_reachable False json_dumps demo_output demo_started"
proof -
  have "claim_items False (tr_items demo_approved) = Inr (tr_items demo_started, Some (hd (tr_started demo_started)))"
    by (simp add: demo_approved_def demo_started_def claim_items_def pending_tool_calls_def is_pending_def pending_states_def
        claimable_def start_call_def demo_simps)
  from tool_step.Claim [OF this, where dumps = json_dumps] have "tool_step False json_dumps demo_approved demo_started"
    by (simp add: demo_approved_def demo_started_def numeral_2_eq_2)
  then show ?thesis by (rule tool_reachable.Step [OF demo_approved_reachable])
qed

definition demo_result :: item where
  "demo_result = [(''type'', JStr ''function_call_output''), (''call_id'', JStr ''a''), (''output'', JList []),
     (''status'', JStr ''completed'')]"

definition demo_done :: item where
  "demo_done = set_status ''completed'' (AList.update ''approved'' (JBool True) (demo_call ''a'' ''search''))"

text \<open>The approved call has ended and the user rejects the other one: the model is called again.\<close>

definition demo_completed :: tool_run where
  "demo_completed = \<lparr>tr_items = [demo_done, set_status ''pending'' (demo_call ''b'' ''delete''), demo_result],
     tr_approved = [JStr ''a''], tr_started = tr_started demo_started, tr_resumed = 0, tr_work = 3\<rparr>"

definition demo_settled :: tool_run where
  "demo_settled = \<lparr>tr_items = [demo_done, set_status ''rejected'' (demo_call ''b'' ''delete''), demo_result,
       call_output ''b'' ''Error: tool call rejected by user.'' ''rejected'', tool_continuation ''h''],
     tr_approved = [JStr ''a''], tr_started = tr_started demo_started, tr_resumed = 1, tr_work = 4\<rparr>"

lemma demo_complete:
  "complete_items ''h'' demo_done demo_result (tr_items demo_started) = Inr (tr_items demo_completed, False)"
  by code_simp

lemma demo_reject:
  "resolve_items json_dumps ''h'' (demo_form ''b'' Reject) (tr_items demo_completed) =
     Inr (tr_items demo_settled, Some ''model'')"
  by code_simp

lemma demo_settled_reachable: "tool_reachable False json_dumps demo_output demo_settled"
proof -
  have "hd (tr_started demo_started) \<in> set (tr_started demo_started)"
      "ends_call (hd (tr_started demo_started)) demo_done demo_result"
    by (simp_all add: demo_started_def demo_done_def demo_result_def ends_call_def demo_simps)
  from tool_step.Complete [OF this demo_complete, where full = False and dumps = json_dumps]
  have "tool_step False json_dumps demo_started demo_completed"
    by (simp add: demo_started_def demo_completed_def demo_done_def demo_result_def pending_tool_calls_def is_pending_def
        pending_states_def demo_simps)
  moreover have "tool_step False json_dumps demo_completed demo_settled"
    using tool_step.Resolve [OF demo_reject, where full = False]
    by (simp add: demo_completed_def demo_settled_def demo_form_def)
  ultimately show ?thesis by (blast intro: tool_reachable.Step demo_started_reachable)
qed

text \<open>C3: In every run of the protocol no tool is started twice, \<open>ask_user\<close> is never started, without
  the mode \<open>full\<close> every started call is one the user approved, at most one call runs at a time, and
  no call gets a second result.\<close>
theorem tools_run_once_with_consent:
  assumes "tool_reachable full dumps out r" and "fresh_output out"
  shows "distinct (map call_ref (tr_started r)) \<and>
    (\<forall>c \<in> set (tr_started r). is_call c \<and> jget c ''name'' \<noteq> JStr ''ask_user'' \<and> (full \<or> call_ref c \<in> set (tr_approved r))) \<and>
    (\<forall>i \<in> set (pending_tool_calls (tr_items r)). \<forall>j \<in> set (pending_tool_calls (tr_items r)).
       jget i ''status'' = JStr ''in_progress'' \<and> jget j ''status'' = JStr ''in_progress'' \<longrightarrow> i = j) \<and>
    distinct (result_ids (tr_items r)) \<and> refs (tr_items r) = refs out"
proof -
  have ok: "run_ok full out r" by (rule tool_reachable_ok [OF assms])
  then have "started_ok full (tr_approved r) (tr_items r) (tr_started r)" and it: "items_ok (tr_approved r) (tr_items r)"
    by (simp_all add: run_ok_def)
  then show ?thesis
    using ok by (auto simp: started_ok_def items_ok_def run_ok_def pending_tool_calls_def running_def)
qed

theorem tools_run_once_with_consent_witness:
  "length (tr_started demo_started) = 1 \<and> distinct (map call_ref (tr_started demo_started)) \<and>
   call_ref (hd (tr_started demo_started)) \<in> set (tr_approved demo_started) \<and>
   refs (tr_items demo_started) = refs demo_output"
proof -
  note run = tools_run_once_with_consent [OF demo_started_reachable demo_fresh]
  have one: "length (tr_started demo_started) = 1" by (simp add: demo_started_def)
  then have "hd (tr_started demo_started) \<in> set (tr_started demo_started)" by (cases "tr_started demo_started") simp_all
  with run one show ?thesis by blast
qed

text \<open>C37: The model is called again at most once for a paused response, and after that no call is
  waiting or running, whatever is still requested of the message.\<close>
theorem model_resumes_once_when_settled:
  assumes "tool_reachable full dumps out r" and "fresh_output out"
  shows "tr_resumed r \<le> 1 \<and> (tr_resumed r = 1 \<longrightarrow> pending_tool_calls (tr_items r) = [] \<and>
    (\<forall>hex form. \<exists>e. resolve_items dumps hex form (tr_items r) = Inl e) \<and>
    (\<forall>c call res hex. c \<in> set (tr_started r) \<and> ends_call c call res \<longrightarrow> (\<exists>e. complete_items hex call res (tr_items r) = Inl e)))"
proof -
  have ok: "run_ok full out r" by (rule tool_reachable_ok [OF assms])
  then have st: "state_ok full (tr_approved r) (tr_started r) (tr_items r)" by (simp add: run_ok_def state_ok_def)
  have "\<exists>e. x = Inl e" if "\<And>y. x \<noteq> Inr y" for x :: "'a result"
    using that by (cases x) auto
  moreover have "resolve_items dumps hex form (tr_items r) \<noteq> Inr y" if "tr_resumed r = 1" for hex form y
    using resolve_ok [OF st] ok that pending_potential by (cases y) (fastforce simp: run_ok_def)
  moreover have "complete_items hex call res (tr_items r) \<noteq> Inr y"
    if "tr_resumed r = 1" "c \<in> set (tr_started r)" "ends_call c call res" for c call res hex y
    using complete_ok [OF st that(2, 3)] ok that pending_potential by (cases y) (fastforce simp: run_ok_def)
  ultimately show ?thesis
    using ok by (metis run_ok_def sum.exhaust)
qed

theorem model_resumes_once_when_settled_witness:
  "tr_resumed demo_settled = 1 \<and> pending_tool_calls (tr_items demo_settled) = [] \<and>
   (\<exists>e. resolve_items json_dumps ''h'' (demo_form ''b'' Approve) (tr_items demo_settled) = Inl e)"
  using model_resumes_once_when_settled [OF demo_settled_reachable demo_fresh]
  by (simp add: demo_settled_def)

text \<open>C38: A run makes at most three decisions, starts and completions per tool call of the paused
  response, however often it is asked to continue or stopped in between; and an open call that is
  neither running nor approved can always be rejected by the user.\<close>
theorem tool_protocol_terminates:
  assumes "tool_reachable full dumps out r" and "fresh_output out"
  shows "tr_work r \<le> 3 * length (filter is_call out) \<and>
    (\<forall>i \<in> set (pending_tool_calls (tr_items r)).
       \<forall>cid. call_ref i = JStr cid \<and> jget i ''status'' \<noteq> JStr ''in_progress'' \<and> jget i ''approved'' \<noteq> JBool True \<longrightarrow>
         (\<exists>items resume. resolve_items dumps hex \<lparr>rf_call_id = cid, rf_action = Reject, rf_answers = JNull, rf_timed_out = False\<rparr>
            (tr_items r) = Inr (items, resume)))"
proof -
  have ok: "run_ok full out r" by (rule tool_reachable_ok [OF assms])
  then have d: "distinct (refs (tr_items r))" unfolding run_ok_def items_ok_def by blast
  have "\<exists>items resume. resolve_items dumps hex \<lparr>rf_call_id = cid, rf_action = Reject, rf_answers = JNull, rf_timed_out = False\<rparr>
      (tr_items r) = Inr (items, resume)"
    if i: "i \<in> set (pending_tool_calls (tr_items r))" and cid: "call_ref i = JStr cid"
      and idle: "jget i ''status'' \<noteq> JStr ''in_progress''" "jget i ''approved'' \<noteq> JBool True" for i cid
  proof -
    from i have mem: "i \<in> set (tr_items r)" "is_call i" "JStr cid \<notin> set (result_ids (tr_items r))"
      and status: "jget i ''status'' \<in> set open_states"
      using idle(1) cid by (auto simp: pending_tool_calls_def is_pending_def pending_states_def open_states_def)
    then obtain c where find: "List.find (has_ref cid) (tr_items r) = Some c"
      using cid by (cases "List.find (has_ref cid) (tr_items r)") (auto simp: find_None_iff has_ref_def)
    from find_Some_in [OF find] have "c = i"
      using refs_unique [OF d _ mem(1)] mem(2) cid by (simp add: has_ref_def)
    moreover have "\<not> (\<exists>i \<in> set (tr_items r). is_result i \<and> jget i ''call_id'' = JStr cid)"
      using mem(3) by (auto simp: result_ids_def intro: rev_image_eqI)
    ultimately show ?thesis
      using find status idle(2) by (simp add: resolve_items_def decide_def Let_def)
  qed
  then show ?thesis
    using ok by (auto simp: run_ok_def refs_def)
qed

theorem tool_protocol_terminates_witness:
  "tr_work demo_settled = 4 \<and> tr_work demo_settled \<le> 3 * length (filter is_call demo_output) \<and>
   (\<exists>items resume. resolve_items json_dumps ''h'' (demo_form ''b'' Reject) (tr_items demo_approved) = Inr (items, resume))"
proof -
  have "tr_work demo_settled \<le> 3 * length (filter is_call demo_output)"
    by (rule conjunct1 [OF tool_protocol_terminates [OF demo_settled_reachable demo_fresh]])
  moreover have "set_status ''queued'' (demo_call ''b'' ''delete'') \<in> set (pending_tool_calls (tr_items demo_approved))"
    by (simp add: demo_approved_def pending_tool_calls_def is_pending_def pending_states_def demo_simps)
  then have "\<exists>items resume. resolve_items json_dumps ''h'' (demo_form ''b'' Reject) (tr_items demo_approved) = Inr (items, resume)"
    using conjunct2 [OF tool_protocol_terminates [OF demo_approved_reachable demo_fresh, where hex = "''h''"]]
    by (fastforce simp: demo_simps)
  ultimately show ?thesis by (simp add: demo_settled_def)
qed

end
