(* ===== verification/AskUser.thy ===== *)
theory AskUser
  imports ToolCalls
begin

text \<open>
  Questions to the user (\<open>utils/ask_user.py\<close>): the checks on an \<open>ask_user\<close> request and how its calls
  are staged in the output of a response. The JSON codec is a parameter: \<open>loads\<close> gives the text of the
  error it raises or the value, \<open>dumps\<close> the text. \<open>mk n prefix\<close> is the identifier the \<open>n\<close>-th call of
  \<open>make_output_id\<close> yields.
\<close>

subsection \<open>Requests\<close>

text \<open>\<open>str(v or '').strip()[:n]\<close>\<close>

definition short_text :: "nat \<Rightarrow> json \<Rightarrow> string" where
  "short_text n v = take n (strip (py_str (jor v (JStr []))))"

fun normalize_options :: "json list \<Rightarrow> json list result" where
  "normalize_options [] = Inr []"
| "normalize_options (JObj o1 # options) =
     (let label = short_text 80 (jget o1 ''label''); description = short_text 240 (jget o1 ''description'')
      in if label = [] \<or> description = [] then Inl (ValueError ''Each option requires a label and description.'')
         else bind_result (normalize_options options) (\<lambda>options.
           Inr (JObj [(''label'', JStr label), (''description'', JStr description)] # options)))"
| "normalize_options (_ # _) = Inl (ValueError ''Each option must be an object.'')"

definition normalize_question :: "json \<Rightarrow> nat \<Rightarrow> string list \<Rightarrow> json dict \<Rightarrow> (string \<times> json) result" where
  "normalize_question allow_other index seen_ids q =
     (let qid = short_text 64 (jget q ''id'')
      in if qid = [] then Inl (ValueError ''Each question requires a non-empty id.'')
         else if qid \<in> set seen_ids then Inl (ValueError (''Duplicate question id: '' @ qid))
         else (case jget q ''options'' of
             JList options \<Rightarrow>
               (if \<not> (2 \<le> length options \<and> length options \<le> 3)
                then Inl (ValueError ''Each question requires 2-3 options.'')
                else
                  bind_result (normalize_options options) (\<lambda>options.
                    let question = short_text 500 (jget q ''question''); header = short_text 48 (jget q ''header'')
                    in if question = [] then Inl (ValueError ''Each question requires question text.'')
                       else Inr (qid, JObj [
                         (''id'', JStr qid),
                         (''header'', JStr (if header = [] then ''Question '' @ nat_str (index + 1) else header)),
                         (''question'', JStr question),
                         (''options'', JList options),
                         (''allow_other'', JBool (truthy (jget_default q ''allow_other'' allow_other)))])))
           | _ \<Rightarrow> Inl (ValueError ''Each question requires 2-3 options.'')))"

fun normalize_questions :: "json \<Rightarrow> nat \<Rightarrow> string list \<Rightarrow> json list \<Rightarrow> json list result" where
  "normalize_questions allow_other index seen_ids [] = Inr []"
| "normalize_questions allow_other index seen_ids (JObj q # qs) =
     bind_result (normalize_question allow_other index seen_ids q) (\<lambda>(qid, question).
     bind_result (normalize_questions allow_other (index + 1) (qid # seen_ids) qs) (\<lambda>questions.
       Inr (question # questions)))"
| "normalize_questions allow_other index seen_ids (_ # _) = Inl (ValueError ''Each question must be an object.'')"

definition normalize_timeout :: "json \<Rightarrow> int" where
  "normalize_timeout v = (case v of JInt i \<Rightarrow> if 60000 \<le> i \<and> i \<le> 240000 then i else 120000 | _ \<Rightarrow> 120000)"

definition normalize_ask_user_request :: "json dict \<Rightarrow> json result" where
  "normalize_ask_user_request arguments =
     (case jget arguments ''questions'' of
        JList questions \<Rightarrow>
          (if \<not> (1 \<le> length questions \<and> length questions \<le> 3)
           then Inl (ValueError ''ask_user requires 1-3 questions.'')
           else
             (let allow_other = JBool (truthy (jget_default arguments ''allow_other'' (JBool True)))
              in bind_result (normalize_questions allow_other 0 [] questions) (\<lambda>questions.
                   Inr (JObj [(''questions'', JList questions), (''allow_other'', allow_other),
                     (''timeout_ms'', JInt (normalize_timeout (jget_default arguments ''timeout_ms'' (JInt 120000))))]))))
      | _ \<Rightarrow> Inl (ValueError ''ask_user questions must be an array of question objects.''))"

subsection \<open>Staging\<close>

definition tool_function :: "json dict \<Rightarrow> json" where
  "tool_function call = jget_default call ''function'' (JObj [])"

fun ask_user_calls :: "json dict list \<Rightarrow> json dict list result" where
  "ask_user_calls [] = Inr []"
| "ask_user_calls (call # calls) =
     bind_result (attr_get (tool_function call) ''name'') (\<lambda>name.
     bind_result (ask_user_calls calls) (\<lambda>rest. Inr (if name = JStr ''ask_user'' then call # rest else rest)))"

definition get_ask_user_tool_calls :: "json dict list \<Rightarrow> (json dict list \<times> string option) result" where
  "get_ask_user_tool_calls tool_calls =
     bind_result (ask_user_calls tool_calls) (\<lambda>calls.
       Inr (if calls = [] then ([], None)
            else if length tool_calls \<noteq> 1
            then (calls, Some ''Error: ask_user must be the only tool call, so it did not run. Call ask_user on its own.'')
            else if length calls \<noteq> 1
            then (calls, Some ''Error: only one ask_user call is allowed per turn.'')
            else (calls, None)))"

definition error_text :: "py_error \<Rightarrow> string" where
  "error_text e = (case e of ValueError s \<Rightarrow> s | _ \<Rightarrow> [])"

text \<open>The arguments as staged, and the error if they are not acceptable.\<close>

definition ask_user_arguments ::
    "(json \<Rightarrow> string + json) \<Rightarrow> (json \<Rightarrow> string) \<Rightarrow> json \<Rightarrow> json \<times> string option" where
  "ask_user_arguments loads dumps raw =
     (case loads (jor raw (JStr ''{}'')) of
        Inl msg \<Rightarrow> (raw, Some (''Error: '' @ msg))
      | Inr (JObj d) \<Rightarrow>
          (case normalize_ask_user_request d of
             Inl e \<Rightarrow> (raw, Some (''Error: '' @ error_text e))
           | Inr request \<Rightarrow> (JStr (dumps request), None))
      | Inr _ \<Rightarrow> (raw, Some ''Error: ask_user arguments must be an object.''))"

definition same_ask_user :: "json \<Rightarrow> json \<Rightarrow> item \<Rightarrow> bool" where
  "same_ask_user call_id tool_id i \<longleftrightarrow>
     is_call i \<and>
     (jget i ''call_id'' = call_id \<or> jget i ''id'' = tool_id \<or>
      \<not> truthy (jget i ''call_id'') \<and> jget i ''name'' = JStr ''ask_user'' \<and>
        jget i ''status'' \<notin> {JStr ''rejected'', JStr ''failed''})"

definition ask_user_item :: "json \<Rightarrow> json \<Rightarrow> json \<Rightarrow> bool \<Rightarrow> item" where
  "ask_user_item iid call_id arguments failed =
     [(''type'', JStr ''function_call''), (''id'', iid), (''call_id'', call_id), (''name'', JStr ''ask_user''),
      (''arguments'', arguments), (''status'', JStr (if failed then ''completed'' else ''pending''))]"

definition ask_user_error :: "string \<Rightarrow> json \<Rightarrow> string \<Rightarrow> item" where
  "ask_user_error iid call_id msg =
     [(''type'', JStr ''function_call_output''), (''id'', JStr iid), (''call_id'', call_id),
      (''output'', JList [JObj [(''type'', JStr ''input_text''), (''text'', JStr msg)]]),
      (''status'', JStr ''completed'')]"

text \<open>One turn of the loop; the state is the output, the error so far and the identifiers made.\<close>

definition stage_call ::
    "(json \<Rightarrow> string + json) \<Rightarrow> (json \<Rightarrow> string) \<Rightarrow> (nat \<Rightarrow> string \<Rightarrow> string) \<Rightarrow> json dict \<Rightarrow>
       item list \<times> string option \<times> nat \<Rightarrow> (item list \<times> string option \<times> nat) result" where
  "stage_call loads dumps mk call = (\<lambda>(output, error, n).
     (let (call_id, n) =
            (if truthy (jget call ''id'') then (jget call ''id'', n) else (JStr (mk n ''fc''), n + 1))
      in case tool_function call of
           JObj function \<Rightarrow>
             (let raw = jget_default function ''arguments'' (JStr ''{}'');
                  (arguments, error) =
                    (case error of Some m \<Rightarrow> (raw, Some m) | None \<Rightarrow> ask_user_arguments loads dumps raw);
                  (iid, n) = (if truthy call_id then (call_id, n) else (JStr (mk n ''fc''), n + 1));
                  new = ask_user_item iid call_id arguments (error \<noteq> None);
                  same = same_ask_user call_id (jget call ''id'');
                  output =
                    (if List.find same output \<noteq> None then update_first same (\<lambda>i. dict_merge i new) output
                     else output @ [new])
              in Inr (case error of None \<Rightarrow> (output, None, n)
                   | Some m \<Rightarrow> (output @ [ask_user_error (mk n ''fco'') call_id m], error, n + 1)))
         | _ \<Rightarrow> Inl AttributeError))"

fun stage_calls ::
    "(json \<Rightarrow> string + json) \<Rightarrow> (json \<Rightarrow> string) \<Rightarrow> (nat \<Rightarrow> string \<Rightarrow> string) \<Rightarrow> json dict list \<Rightarrow>
       item list \<times> string option \<times> nat \<Rightarrow> (item list \<times> string option \<times> nat) result" where
  "stage_calls loads dumps mk [] s = Inr s"
| "stage_calls loads dumps mk (call # calls) s =
     bind_result (stage_call loads dumps mk call s) (stage_calls loads dumps mk calls)"

definition stage_ask_user_tool_calls ::
    "(json \<Rightarrow> string + json) \<Rightarrow> (json \<Rightarrow> string) \<Rightarrow> (nat \<Rightarrow> string \<Rightarrow> string) \<Rightarrow> json dict list \<Rightarrow> item list \<Rightarrow>
       (item list \<times> bool \<times> string option) result" where
  "stage_ask_user_tool_calls loads dumps mk tool_calls output =
     bind_result (get_ask_user_tool_calls tool_calls) (\<lambda>(calls, error).
       if calls = [] then Inr (output, False, None)
       else bind_result (stage_calls loads dumps mk calls (output, error, 0)) (\<lambda>(output, error, n).
         Inr (output, True, error)))"

subsection \<open>What a normalized request satisfies\<close>

definition text_between :: "nat \<Rightarrow> nat \<Rightarrow> json \<Rightarrow> bool" where
  "text_between lo hi v \<longleftrightarrow> (\<exists>s. v = JStr s \<and> lo \<le> length s \<and> length s \<le> hi)"

definition valid_option :: "json \<Rightarrow> bool" where
  "valid_option v \<longleftrightarrow> (\<exists>d. v = JObj d \<and> map fst d = [''label'', ''description''] \<and>
     text_between 1 80 (jget d ''label'') \<and> text_between 1 240 (jget d ''description''))"

definition valid_question :: "json \<Rightarrow> bool" where
  "valid_question v \<longleftrightarrow> (\<exists>d options b. v = JObj d \<and> map fst d = [''id'', ''header'', ''question'', ''options'', ''allow_other''] \<and>
     text_between 1 64 (jget d ''id'') \<and> text_between 1 48 (jget d ''header'') \<and> text_between 1 500 (jget d ''question'') \<and>
     jget d ''options'' = JList options \<and> 2 \<le> length options \<and> length options \<le> 3 \<and> list_all valid_option options \<and>
     jget d ''allow_other'' = JBool b)"

definition question_id :: "json \<Rightarrow> json" where
  "question_id q = jget (dict_of q) ''id''"

lemma length_short_text [simp]: "length (short_text n v) \<le> n"
  by (simp add: short_text_def)

lemma text_between_str [simp]: "text_between lo hi (JStr s) \<longleftrightarrow> lo \<le> length s \<and> length s \<le> hi"
  by (auto simp: text_between_def)

lemma short_text_between: "short_text n v \<noteq> [] \<Longrightarrow> Suc 0 \<le> length (short_text n v)"
  by (cases "short_text n v") auto

lemma normalize_options_valid:
  "normalize_options options = Inr out \<Longrightarrow> length out = length options \<and> list_all valid_option out"
proof (induction options arbitrary: out rule: normalize_options.induct)
  case (2 o1 options)
  then obtain rest where rest: "normalize_options options = Inr rest"
    and lab: "short_text 80 (jget o1 ''label'') \<noteq> []" "short_text 240 (jget o1 ''description'') \<noteq> []"
    and out: "out = JObj [(''label'', JStr (short_text 80 (jget o1 ''label''))),
      (''description'', JStr (short_text 240 (jget o1 ''description'')))] # rest"
    by (auto simp: Let_def bind_result_Inr split: if_splits)
  have "valid_option (hd out)"
    using lab by (simp add: out valid_option_def short_text_between)
  then show ?case using "2.IH" [OF refl refl _ rest] lab by (simp add: out)
qed simp_all

lemma normalize_question_valid:
  assumes "normalize_question allow index seen q = Inr (qid, v)" and "index < 3" and "allow = JBool b"
  shows "valid_question v \<and> question_id v = JStr qid \<and> qid \<notin> set seen"
proof -
  have "length (nat_str (index + 1)) = 1"
    using assms(2) by (auto simp: less_Suc_eq numeral_3_eq_3 nat_str.simps)
  then show ?thesis
    using assms by (auto simp: normalize_question_def Let_def bind_result_Inr valid_question_def question_id_def
      short_text_between dest!: normalize_options_valid split: if_splits json.splits)
qed

lemma normalize_questions_valid:
  "normalize_questions allow index seen qs = Inr out \<Longrightarrow> index + length qs \<le> 3 \<Longrightarrow> allow = JBool b \<Longrightarrow>
     length out = length qs \<and> list_all valid_question out \<and> distinct (map question_id out) \<and>
     (\<forall>v \<in> set out. question_id v \<notin> JStr ` set seen)"
proof (induction allow index seen qs arbitrary: out rule: normalize_questions.induct)
  case (2 allow index seen q qs)
  from "2.prems"(1) obtain qid v rest where v: "normalize_question allow index seen q = Inr (qid, v)"
    and rest: "normalize_questions allow (index + 1) (qid # seen) qs = Inr rest" and out: "out = v # rest"
    by (auto simp: bind_result_Inr)
  have "valid_question v \<and> question_id v = JStr qid \<and> qid \<notin> set seen"
    by (rule normalize_question_valid [OF v _ "2.prems"(3)]) (use "2.prems"(2) in simp)
  moreover have "length rest = length qs \<and> list_all valid_question rest \<and> distinct (map question_id rest) \<and>
      (\<forall>v \<in> set rest. question_id v \<notin> JStr ` set (qid # seen))"
    using "2.IH" [OF v refl rest] "2.prems"(2, 3) by simp
  ultimately show ?case by (force simp: out)
qed simp_all

end
