(* ===== verification/AskUserClaims.thy ===== *)
theory AskUserClaims
  imports AskUser
begin

text \<open>The properties of the questions to the user: the shape of a normalized request and what staging leaves.\<close>

text \<open>A request that is accepted has one to three questions with distinct identifiers, each with
  two or three complete options, every text within its limit and not empty, and a timeout between
  one and four minutes, whatever the model sent.\<close>
theorem ask_user_request_bounds:
  assumes "normalize_ask_user_request d = Inr request"
  shows "\<exists>qs b t. request = JObj [(''questions'', JList qs), (''allow_other'', JBool b), (''timeout_ms'', JInt t)] \<and>
    1 \<le> length qs \<and> length qs \<le> 3 \<and> list_all valid_question qs \<and> distinct (map question_id qs) \<and>
    60000 \<le> t \<and> t \<le> 240000"
proof -
  from assms obtain questions qs where q: "jget d ''questions'' = JList questions"
    "1 \<le> length questions" "length questions \<le> 3"
    "normalize_questions (JBool (truthy (jget_default d ''allow_other'' (JBool True)))) 0 [] questions = Inr qs"
    and r: "request = JObj [(''questions'', JList qs), (''allow_other'', JBool (truthy (jget_default d ''allow_other'' (JBool True)))),
      (''timeout_ms'', JInt (normalize_timeout (jget_default d ''timeout_ms'' (JInt 120000))))]"
    by (auto simp: normalize_ask_user_request_def Let_def bind_result_Inr split: json.splits if_splits)
  have "60000 \<le> normalize_timeout v \<and> normalize_timeout v \<le> 240000" for v
    by (simp add: normalize_timeout_def split: json.split)
  with normalize_questions_valid [OF q(4) _ refl] q(2, 3) r show ?thesis by auto
qed

definition demo_question :: "json dict" where
  "demo_question = [(''questions'', JList [JObj [(''id'', JStr '' q '' ), (''question'', JStr ''Which?''),
     (''options'', JList [JObj [(''label'', JStr ''A''), (''description'', JStr ''a'')],
        JObj [(''label'', JStr ''B''), (''description'', JStr ''b'')]])]]), (''timeout_ms'', JInt 5)]"

definition demo_request :: json where
  "demo_request = JObj [(''questions'', JList [JObj [(''id'', JStr ''q''), (''header'', JStr ''Question 1''),
     (''question'', JStr ''Which?''), (''options'', JList [JObj [(''label'', JStr ''A''), (''description'', JStr ''a'')],
        JObj [(''label'', JStr ''B''), (''description'', JStr ''b'')]]), (''allow_other'', JBool True)]]),
     (''allow_other'', JBool True), (''timeout_ms'', JInt 120000)]"

lemma demo_normalize: "normalize_ask_user_request demo_question = Inr demo_request"
  by code_simp

theorem ask_user_request_bounds_witness: "\<exists>qs. jget (dict_of demo_request) ''questions'' = JList qs \<and> length qs \<le> 3"
proof -
  from ask_user_request_bounds [OF demo_normalize] obtain qs b t where
    r: "demo_request = JObj [(''questions'', JList qs), (''allow_other'', JBool b), (''timeout_ms'', JInt t)]"
    and "length qs \<le> 3"
    by blast
  then show ?thesis unfolding r by (intro exI [of _ qs]) simp
qed

lemma update_first_keeps: "i \<in> set xs \<Longrightarrow> \<not> P i \<Longrightarrow> i \<in> set (update_first P f xs)"
  by (induction xs) auto

lemma find_update_first: "List.find P xs = Some y \<Longrightarrow> f y \<in> set (update_first P f xs)"
  by (induction xs) (auto split: if_splits)

lemma stage_call_results:
  assumes "stage_call loads dumps mk call (output, error, n) = Inr (output', error', n')"
    and "truthy (jget call ''id'')"
  shows "(\<forall>i \<in> set output. is_result i \<longrightarrow> i \<in> set output') \<and>
    (\<forall>m. error = Some m \<longrightarrow> error' = Some m) \<and>
    (\<forall>m. error' = Some m \<longrightarrow> (\<exists>iid. ask_user_error iid (jget call ''id'') m \<in> set output'))"
proof -
  have same: "\<not> same_ask_user a b i" if "is_result i" for a b i
    using that by (auto simp: same_ask_user_def is_call_def is_result_def)
  show ?thesis
    using assms same
    by (auto simp: stage_call_def Let_def update_first_keeps split: json.splits option.splits prod.splits if_splits)
qed

lemma stage_calls_results:
  "stage_calls loads dumps mk calls (output, error, n) = Inr (output', error', n') \<Longrightarrow>
     \<forall>call \<in> set calls. truthy (jget call ''id'') \<Longrightarrow>
     (\<forall>i \<in> set output. is_result i \<longrightarrow> i \<in> set output') \<and>
     (\<forall>m. error = Some m \<longrightarrow> error' = Some m \<and>
        (\<forall>call \<in> set calls. \<exists>iid. ask_user_error iid (jget call ''id'') m \<in> set output'))"
proof (induction calls arbitrary: "output" error n)
  case Nil
  then show ?case by simp
next
  case (Cons call calls)
  from Cons.prems(1) obtain o1 e1 n1 where one: "stage_call loads dumps mk call (output, error, n) = Inr (o1, e1, n1)"
    and rest: "stage_calls loads dumps mk calls (o1, e1, n1) = Inr (output', error', n')"
    by (auto simp: bind_result_Inr)
  have r: "is_result (ask_user_error iid cid m)" for iid cid m
    by (simp add: is_result_def ask_user_error_def)
  have t: "truthy (jget call ''id'')" "\<forall>call \<in> set calls. truthy (jget call ''id'')" using Cons.prems(2) by simp_all
  note first = stage_call_results [OF one t(1)] and others = Cons.IH [OF rest t(2)]
  have "error' = Some m \<and> (\<forall>c \<in> set (call # calls). \<exists>iid. ask_user_error iid (jget c ''id'') m \<in> set output')"
    if "error = Some m" for m
  proof -
    from first that have "e1 = Some m" by blast
    moreover from this first obtain iid where "ask_user_error iid (jget call ''id'') m \<in> set o1" by blast
    ultimately show ?thesis using others r by auto
  qed
  with first others show ?case by blast
qed

text \<open>Staged calls of \<open>ask_user\<close>, each with an identifier, leave nothing the interface would wait on
  forever: with an error every one of them has a result carrying the error text, and without one
  there is a single tool call, it is \<open>ask_user\<close>, and the output holds it as pending with the
  text of a normalized request as its arguments.\<close>
theorem staged_questions_settle:
  assumes "stage_ask_user_tool_calls loads dumps mk tool_calls output = Inr (out, True, error)"
    and "\<forall>call \<in> set tool_calls. truthy (jget call ''id'')"
  shows "case error of
      Some m \<Rightarrow> \<forall>call \<in> set tool_calls. attr_get (tool_function call) ''name'' = Inr (JStr ''ask_user'') \<longrightarrow>
        (\<exists>iid. ask_user_error iid (jget call ''id'') m \<in> set out)
    | None \<Rightarrow> \<exists>call d request i. tool_calls = [call] \<and> normalize_ask_user_request d = Inr request \<and> i \<in> set out \<and>
        is_call i \<and> jget i ''call_id'' = jget call ''id'' \<and> jget i ''name'' = JStr ''ask_user'' \<and>
        jget i ''status'' = JStr ''pending'' \<and> jget i ''arguments'' = JStr (dumps request)"
proof -
  from assms(1) obtain calls error0 n where get: "get_ask_user_tool_calls tool_calls = Inr (calls, error0)"
    and nonempty: "calls \<noteq> []" and stage: "stage_calls loads dumps mk calls (output, error0, 0) = Inr (out, error, n)"
    by (auto simp: stage_ask_user_tool_calls_def bind_result_Inr split: if_splits)
  have sub: "ask_user_calls tcs = Inr cs \<Longrightarrow> set cs = {c \<in> set tcs. attr_get (tool_function c) ''name'' = Inr (JStr ''ask_user'')}" for tcs cs
    by (induction tcs arbitrary: cs) (auto simp: bind_result_Inr split: if_splits)
  from get have calls: "ask_user_calls tool_calls = Inr calls"
    by (auto simp: get_ask_user_tool_calls_def bind_result_Inr split: if_splits)
  have mine: "\<forall>call \<in> set calls. truthy (jget call ''id'')" using sub [OF calls] assms(2) by auto
  show ?thesis
  proof (cases error0)
    case (Some m)
    from stage_calls_results [OF stage mine] have "error = Some m"
      "\<forall>call \<in> set calls. \<exists>iid. ask_user_error iid (jget call ''id'') m \<in> set out"
      by (simp_all add: Some)
    with sub [OF calls] show ?thesis by auto
  next
    case None
    with get nonempty have "length tool_calls = 1" "length calls = 1"
      by (auto simp: get_ask_user_tool_calls_def bind_result_Inr split: if_splits)
    then obtain call where tc: "tool_calls = [call]" by (auto simp: length_Suc_conv)
    then have cs: "calls = [call]" using calls nonempty by (auto simp: bind_result_Inr split: if_splits)
    have one: "stage_call loads dumps mk call (output, None, 0) = Inr (out, error, n)"
      using stage by (simp add: cs None bind_result_def split: sum.splits)
    have t: "truthy (jget call ''id'')" using mine cs by simp
    show ?thesis
    proof (cases error)
      case (Some m)
      with stage_call_results [OF one t] tc show ?thesis by auto
    next
      case None
      with one t obtain fn d request where f: "tool_function call = JObj fn"
        and norm: "normalize_ask_user_request d = Inr request"
        and out: "out = (let new = ask_user_item (jget call ''id'') (jget call ''id'') (JStr (dumps request)) False;
            same = same_ask_user (jget call ''id'') (jget call ''id'')
          in if List.find same output \<noteq> None then update_first same (\<lambda>i. dict_merge i new) output else output @ [new])"
        by (auto simp: stage_call_def ask_user_arguments_def Let_def split: json.splits option.splits sum.splits prod.splits if_splits)
      let ?new = "ask_user_item (jget call ''id'') (jget call ''id'') (JStr (dumps request)) False"
      have keys: "distinct (map fst ?new)" by (simp add: ask_user_item_def)
      have good: "is_call i \<and> jget i ''call_id'' = jget call ''id'' \<and> jget i ''name'' = JStr ''ask_user'' \<and>
          jget i ''status'' = JStr ''pending'' \<and> jget i ''arguments'' = JStr (dumps request)"
        if "i = ?new \<or> (\<exists>j. i = dict_merge j ?new)" for i
        using that by (auto simp: is_call_def jget_def map_of_dict_merge [OF keys] map_add_def) (simp_all add: ask_user_item_def)
      have "\<exists>i \<in> set out. i = ?new \<or> (\<exists>j. i = dict_merge j ?new)"
      proof (cases "List.find (same_ask_user (jget call ''id'') (jget call ''id'')) output")
        case None
        then show ?thesis by (simp add: out Let_def)
      next
        case (Some y)
        then have "dict_merge y ?new \<in> set out"
          using find_update_first [OF Some, of "\<lambda>i. dict_merge i ?new"] by (simp add: out Let_def)
        then show ?thesis by blast
      qed
      then obtain i where i: "i \<in> set out" "i = ?new \<or> (\<exists>j. i = dict_merge j ?new)" by blast
      show ?thesis
        unfolding None option.case using tc norm i(1) good [OF i(2)] by blast
    qed
  qed
qed

theorem staged_questions_settle_witness:
  "\<exists>call i. [(''id'', JStr ''x''), (''function'', JObj [(''name'', JStr ''ask_user'')])] = call \<and>
     i \<in> set [ask_user_item (JStr ''x'') (JStr ''x'') (JStr ''t'') False] \<and> jget i ''arguments'' = JStr ''t''"
proof -
  have "stage_ask_user_tool_calls (\<lambda>_. Inr (JObj demo_question)) (\<lambda>_. ''t'') (\<lambda>_ _. ''g'')
      [[(''id'', JStr ''x''), (''function'', JObj [(''name'', JStr ''ask_user'')])]] [] =
      Inr ([ask_user_item (JStr ''x'') (JStr ''x'') (JStr ''t'') False], True, None)"
    by (simp add: stage_ask_user_tool_calls_def get_ask_user_tool_calls_def tool_function_def stage_call_def
        ask_user_arguments_def demo_normalize jor_def Let_def)
  from staged_questions_settle [OF this] show ?thesis by auto
qed

end
