(* ===== verification/ResumePayload.thy ===== *)
theory ResumePayload
  imports ToolCalls
begin

text \<open>
  The request that resumes a response after a decision (\<open>build_tool_approval_resume_payload\<close> of
  \<open>utils/tool_approval.py\<close>). The stored chat, the lookup of its messages, the interface settings of
  an account and the configured default settings are arguments.
\<close>

record saved_chat =
  sc_user_id :: string
  sc_chat :: "json dict"
  sc_variables :: json

text \<open>\<open>x if isinstance(x, dict) else {}\<close>\<close>

definition dict_or_empty :: "json \<Rightarrow> json dict" where
  "dict_or_empty v = (if is_dict v then dict_of v else [])"

definition message_author :: "saved_chat \<Rightarrow> item \<Rightarrow> json" where
  "message_author chat m = jor (jget m ''user_id'') (JStr (sc_user_id chat))"

definition own_message :: "saved_chat \<Rightarrow> item \<Rightarrow> bool" where
  "own_message chat m \<longleftrightarrow> message_author chat m = JStr (sc_user_id chat)"

definition message_meta :: "item \<Rightarrow> json dict" where
  "message_meta m = dict_or_empty (jget m ''meta'')"

text \<open>The parameters of the request: the settings of the chat count only for its owner's messages.\<close>

definition resume_params :: "saved_chat \<Rightarrow> item \<Rightarrow> json dict result" where
  "resume_params chat m =
     (let chat_params = (if own_message chat m then dict_or_empty (jget (sc_chat chat) ''params'') else []);
          params = dict_merge chat_params (dict_or_empty (jget (message_meta m) ''params''));
          mode = jget chat_params ''tool_approval_mode''
      in if \<not> hashable mode then Inl TypeError
         else
           (let params = (if mode \<in> {JStr ''ask'', JStr ''full''}
                          then AList.update ''tool_approval_mode'' mode params else params)
            in Inr (if map_of params ''tool_approval_mode'' = None
                    then AList.update ''tool_approval_mode'' (JStr ''ask'') params else params)))"

definition resume_model :: "saved_chat \<Rightarrow> item \<Rightarrow> json result" where
  "resume_model chat m =
     (if truthy (jget m ''model'') then Inr (jget m ''model'')
      else bind_result (py_iter (jor (jget (sc_chat chat) ''models'') (JList []))) (\<lambda>models.
        Inr (case models of [] \<Rightarrow> JNull | x # _ \<Rightarrow> x)))"

definition resume_system :: "(json \<Rightarrow> json dict) \<Rightarrow> json dict \<Rightarrow> saved_chat \<Rightarrow> item \<Rightarrow> json dict \<Rightarrow> json" where
  "resume_system ui_settings defaults chat m params =
     (if truthy (jget params ''system'') then jget params ''system''
      else
        (let system = jget (ui_settings (message_author chat m)) ''system''
         in if system = JNull then jget defaults ''system'' else system))"

definition build_tool_approval_resume_payload ::
    "(json \<Rightarrow> json dict) \<Rightarrow> json dict \<Rightarrow> (json \<Rightarrow> item option) \<Rightarrow> saved_chat option \<Rightarrow> string \<Rightarrow> string \<Rightarrow> json dict result" where
  "build_tool_approval_resume_payload ui_settings defaults get_message chat chat_id message_id =
     (case chat of None \<Rightarrow> Inl (HTTPException 404 not_found)
      | Some chat \<Rightarrow>
          (case get_message (JStr message_id) of None \<Rightarrow> Inl (HTTPException 404 not_found)
           | Some m \<Rightarrow>
               let parent = jget m ''parentId''
               in case (if truthy parent then get_message parent else None) of
                    None \<Rightarrow> Inl (HTTPException 409 ''Tool call parent message is missing.'')
                  | Some user_message \<Rightarrow>
                      bind_result (resume_params chat m) (\<lambda>params.
                      bind_result (resume_model chat m) (\<lambda>model.
                        if \<not> truthy model then Inl (HTTPException 409 ''Tool call message model is missing.'')
                        else
                          (let meta = message_meta m;
                               system = resume_system ui_settings defaults chat m params;
                               optional = (\<lambda>k. (k, jor (jget meta k) JNull))
                           in Inr
                             [(''stream'', jget_default params ''stream_response'' (JBool True)),
                              (''model'', model),
                              (''messages'', JList (if truthy system
                                 then [JObj [(''role'', JStr ''system''), (''content'', system)]] else [])),
                              (''params'', JObj params),
                              (''files'', if map_of meta ''files'' \<noteq> None then jget meta ''files''
                                 else jget (sc_chat chat) ''files''),
                              optional ''filter_ids'', optional ''tool_ids'', optional ''skill_ids'',
                              optional ''terminal_id'', optional ''tool_servers'',
                              (''features'', jor (jget meta ''features'') (JObj [])),
                              (''variables'', jor (jget meta ''variables'') (JObj [])),
                              (''chat_variables'', if own_message chat m then sc_variables chat else JObj []),
                              (''session_id'', jget meta ''session_id''),
                              (''chat_id'', JStr chat_id), (''id'', JStr message_id),
                              (''parent_id'', jget user_message ''parentId''),
                              (''user_message'', JObj user_message),
                              (''assistant_message_id'', JStr message_id)])))))"

text \<open>When the response is another participant's message in a shared chat, the settings and the
  variables of the chat's owner have no influence on the resumed request: changing them changes
  nothing in it, its chat variables are empty, and unless the message itself recorded a mode its
  tool calls have to be approved.\<close>
theorem resume_payload_keeps_owner_settings_private:
  assumes "get_message (JStr message_id) = Some m" and "\<not> own_message chat m"
  shows "build_tool_approval_resume_payload ui_settings defaults get_message
      (Some (chat\<lparr>sc_variables := v, sc_chat := AList.update ''params'' p (sc_chat chat)\<rparr>)) chat_id message_id =
    build_tool_approval_resume_payload ui_settings defaults get_message (Some chat) chat_id message_id \<and>
    (\<forall>payload. build_tool_approval_resume_payload ui_settings defaults get_message (Some chat) chat_id message_id = Inr payload \<longrightarrow>
       jget payload ''chat_variables'' = JObj [] \<and>
       (map_of (dict_or_empty (jget (message_meta m) ''params'')) ''tool_approval_mode'' = None \<longrightarrow>
        distinct (map fst (dict_or_empty (jget (message_meta m) ''params''))) \<longrightarrow>
          jget (dict_of (jget payload ''params'')) ''tool_approval_mode'' = JStr ''ask''))"
proof -
  let ?chat = "chat\<lparr>sc_variables := v, sc_chat := AList.update ''params'' p (sc_chat chat)\<rparr>"
  have author: "message_author ?chat m = message_author chat m" by (simp add: message_author_def)
  then have own: "\<not> own_message ?chat m" using assms(2) by (simp add: own_message_def)
  have params: "resume_params ?chat m = resume_params chat m"
    using own assms(2) by (simp add: resume_params_def)
  have model: "resume_model ?chat m = resume_model chat m" by (simp add: resume_model_def)
  have files: "jget (sc_chat ?chat) ''files'' = jget (sc_chat chat) ''files''" by simp
  have system: "resume_system ui_settings defaults ?chat m = resume_system ui_settings defaults chat m"
    by (simp add: fun_eq_iff resume_system_def author)
  have "build_tool_approval_resume_payload ui_settings defaults get_message (Some ?chat) chat_id message_id =
      build_tool_approval_resume_payload ui_settings defaults get_message (Some chat) chat_id message_id"
    by (simp only: build_tool_approval_resume_payload_def assms option.case params model system files own if_False)
  moreover have "jget payload ''chat_variables'' = JObj [] \<and>
       (map_of (dict_or_empty (jget (message_meta m) ''params'')) ''tool_approval_mode'' = None \<longrightarrow>
        distinct (map fst (dict_or_empty (jget (message_meta m) ''params''))) \<longrightarrow>
          jget (dict_of (jget payload ''params'')) ''tool_approval_mode'' = JStr ''ask'')"
    if "build_tool_approval_resume_payload ui_settings defaults get_message (Some chat) chat_id message_id = Inr payload" for payload
  proof -
    from that assms obtain ps where ps: "resume_params chat m = Inr ps" "jget payload ''params'' = JObj ps"
      "jget payload ''chat_variables'' = JObj []"
      by (auto simp: build_tool_approval_resume_payload_def Let_def bind_result_Inr split: option.splits if_splits)
    have "jget ps ''tool_approval_mode'' = JStr ''ask''"
      if "map_of (dict_or_empty (jget (message_meta m) ''params'')) ''tool_approval_mode'' = None"
        and "distinct (map fst (dict_or_empty (jget (message_meta m) ''params'')))"
      using ps(1) assms(2) that map_of_dict_merge [OF that(2), of "[]" "''tool_approval_mode''"]
      by (auto simp: resume_params_def Let_def split: if_splits)
    with ps show ?thesis by simp
  qed
  ultimately show ?thesis by blast
qed

definition demo_reply :: item where
  "demo_reply = [(''user_id'', JStr ''bob''), (''parentId'', JStr ''p''), (''model'', JStr ''gpt'')]"

definition demo_chat :: saved_chat where
  "demo_chat = \<lparr>sc_user_id = ''alice'', sc_chat = [(''params'', JObj [(''tool_approval_mode'', JStr ''full'')])],
     sc_variables = JObj [(''secret'', JStr ''s'')]\<rparr>"

theorem resume_payload_keeps_owner_settings_private_witness:
  "\<exists>payload. build_tool_approval_resume_payload (\<lambda>_. []) [] (\<lambda>_. Some demo_reply) (Some demo_chat) ''c'' ''m'' = Inr payload \<and>
     jget (dict_of (jget payload ''params'')) ''tool_approval_mode'' = JStr ''ask''"
proof -
  have "\<not> own_message demo_chat demo_reply"
    by (simp add: own_message_def message_author_def demo_chat_def demo_reply_def)
  moreover obtain payload where
    "build_tool_approval_resume_payload (\<lambda>_. []) [] (\<lambda>_. Some demo_reply) (Some demo_chat) ''c'' ''m'' = Inr payload"
    by (simp add: build_tool_approval_resume_payload_def resume_params_def resume_model_def own_message_def
        message_author_def demo_chat_def demo_reply_def message_meta_def dict_or_empty_def Let_def)
  moreover have "dict_or_empty (jget (message_meta demo_reply) ''params'') = []"
    by (simp add: message_meta_def demo_reply_def dict_or_empty_def)
  ultimately show ?thesis
    using resume_payload_keeps_owner_settings_private [of "\<lambda>_. Some demo_reply" "''m''" demo_reply demo_chat
      "\<lambda>_. []" "[]" _ _ "''c''"] by auto
qed

end
