(* ===== verification/Mfa.thy ===== *)
theory Mfa
  imports Tables
begin

text \<open>
  Multi-factor authentication: the authenticator state on the credential row (\<open>models/auths.py\<close>),
  its operations (\<open>utils/mfa.py\<close>, \<open>routers/mfa.py\<close>) and the gates that issue sessions
  (\<open>utils/auth.py\<close>). A request is a \<open>task\<close>: a resumption that stops at every call that other
  requests may interleave with - reading a row, the compare-and-swap of the row with its commit, the
  clock, random strings, the user and the configuration. Hashing, the one-time password, encryption
  and password checks belong to libraries and are the fields of \<open>crypto\<close>; audit records are left out.
\<close>

subsection \<open>The credential row\<close>

datatype challenge_kind = Enroll | Verify | Replace | Recover

record mfa_limit =
  ml_count :: int
  ml_expires :: int

record mfa_ticket =
  mt_hash :: string
  mt_expires :: int

record mfa_challenge =
  mc_hash :: string
  mc_kind :: challenge_kind
  mc_expires :: int
  mc_attempts :: int
  mc_method :: string
  mc_auth_time :: int
  mc_stamp :: "string option"
  mc_secret :: "string option"
  mc_oauth :: "string option"
  mc_provider :: "string option"

record mfa_data =
  md_revision :: string
  md_secret :: "string option"
  md_last_step :: int
  md_recovery :: "string list"
  md_login :: "mfa_challenge option"
  md_manage :: "mfa_challenge option"
  md_reset_required :: bool
  md_ticket :: "mfa_ticket option"
  md_limits :: "mfa_limit dict"

record auth =
  au_id :: string
  au_password :: string
  au_active :: bool
  au_mfa :: "mfa_data option"
  au_stamp :: "string option"

record mfa_config =
  cf_enable :: bool
  cf_oauth_bypass :: bool
  cf_trusted_bypass :: bool

record session_claims =
  sc_id :: string
  sc_method :: string
  sc_auth_time :: int
  sc_stamp :: "string option"
  sc_verified :: bool

text \<open>The defaults of \<open>MfaData()\<close>; its random revision is replaced before it is stored.\<close>

definition new_mfa :: mfa_data where
  "new_mfa = \<lparr>md_revision = [], md_secret = None, md_last_step = -1, md_recovery = [], md_login = None,
     md_manage = None, md_reset_required = False, md_ticket = None, md_limits = []\<rparr>"

text \<open>\<open>auth.mfa.model_copy(deep=True) if auth.mfa else MfaData()\<close>.\<close>

definition mfa_of :: "auth \<Rightarrow> mfa_data" where
  "mfa_of a = (case au_mfa a of None \<Rightarrow> new_mfa | Some m \<Rightarrow> m)"

definition revision_of :: "auth \<Rightarrow> string option" where
  "revision_of a = map_option md_revision (au_mfa a)"

text \<open>The truth value of an optional string.\<close>

definition present :: "string option \<Rightarrow> bool" where
  "present s = (case s of None \<Rightarrow> False | Some t \<Rightarrow> t \<noteq> [])"

definition CHALLENGE_SECONDS :: int where "CHALLENGE_SECONDS = 300"
definition LIMIT_SECONDS :: int where "LIMIT_SECONDS = 900"

definition clear_challenges :: "mfa_data \<Rightarrow> mfa_data" where
  "clear_challenges m = m\<lparr>md_login := None, md_manage := None, md_ticket := None\<rparr>"

definition clear_mfa_challenges :: "string \<Rightarrow> mfa_data option \<Rightarrow> mfa_data option" where
  "clear_mfa_challenges uuid value = map_option (\<lambda>m. (clear_challenges m)\<lparr>md_revision := uuid\<rparr>) value"

subsection \<open>Compare and swap\<close>

text \<open>
  The updates of a row match the row as it is now against the snapshot the request holds; a snapshot
  without authenticator state matches rows without one. \<open>Save\<close> is \<open>update_mfa_by_id\<close> with its flag
  \<open>revoke\<close>, \<open>New_password\<close> the transaction of a password change, \<open>Revoke\<close> that of a revocation.
\<close>

datatype change = Save mfa_data bool | New_password mfa_data string | Revoke

definition same_row :: "auth \<Rightarrow> auth \<Rightarrow> bool" where
  "same_row a row \<longleftrightarrow> au_active row \<and> au_password row = au_password a \<and> au_stamp row = au_stamp a \<and>
     revision_of row = revision_of a"

definition update_mfa_by_id :: "string \<Rightarrow> string \<Rightarrow> auth \<Rightarrow> mfa_data \<Rightarrow> bool \<Rightarrow> auth dict \<Rightarrow> (auth dict \<times> auth) option" where
  "update_mfa_by_id uuid stamp a m revoke auths =
     (case map_of auths (au_id a) of None \<Rightarrow> None
      | Some row \<Rightarrow>
          if same_row a row
          then (let m' = m\<lparr>md_revision := uuid\<rparr>; s' = (if revoke then Some stamp else au_stamp a)
                in Some (AList.update (au_id a) (row\<lparr>au_mfa := Some m', au_stamp := s'\<rparr>) auths,
                         a\<lparr>au_mfa := Some m', au_stamp := s'\<rparr>))
          else None)"

definition revoke_sessions_by_user_id :: "string \<Rightarrow> string \<Rightarrow> auth \<Rightarrow> auth dict \<Rightarrow> (auth dict \<times> auth) option" where
  "revoke_sessions_by_user_id uuid stamp a auths =
     (case map_of auths (au_id a) of None \<Rightarrow> None
      | Some row \<Rightarrow>
          if au_stamp row = au_stamp a \<and> revision_of row = revision_of a
          then (let row' = row\<lparr>au_stamp := Some stamp, au_mfa := clear_mfa_challenges uuid (au_mfa a)\<rparr>
                in Some (AList.update (au_id a) row' auths, row'))
          else None)"

definition update_user_password_by_id :: "string \<Rightarrow> string \<Rightarrow> auth \<Rightarrow> mfa_data \<Rightarrow> string \<Rightarrow> auth dict \<Rightarrow> (auth dict \<times> auth) option" where
  "update_user_password_by_id uuid stamp a m new_password auths =
     (case update_mfa_by_id uuid stamp a m True auths of None \<Rightarrow> None
      | Some (auths', a') \<Rightarrow>
          (case map_of auths' (au_id a) of None \<Rightarrow> None
           | Some row \<Rightarrow>
               let row' = row\<lparr>au_password := new_password\<rparr>
               in Some (AList.update (au_id a) row' auths', row')))"

fun commit :: "string \<Rightarrow> string \<Rightarrow> auth \<Rightarrow> change \<Rightarrow> auth dict \<Rightarrow> (auth dict \<times> auth) option" where
  "commit uuid stamp a (Save m revoke) auths = update_mfa_by_id uuid stamp a m revoke auths"
| "commit uuid stamp a (New_password m pw) auths = update_user_password_by_id uuid stamp a m pw auths"
| "commit uuid stamp a Revoke auths = revoke_sessions_by_user_id uuid stamp a auths"

subsection \<open>Tasks\<close>

datatype 'a task =
    Return 'a
  | Raise py_error
  | Ask_auth string "auth option \<Rightarrow> 'a task"
  | Ask_user string bool "user_row option \<Rightarrow> 'a task"
  | Ask_config "mfa_config \<Rightarrow> 'a task"
  | Clock "int \<Rightarrow> 'a task"
  | Random "string \<Rightarrow> 'a task"
  | Commit auth change "auth option \<Rightarrow> 'a task"

text \<open>\<open>Ask_user\<close> looks up a user by e-mail address if the flag is set, else by id.\<close>

primrec bind_task :: "'a task \<Rightarrow> ('a \<Rightarrow> 'b task) \<Rightarrow> 'b task" where
  "bind_task (Return x) f = f x"
| "bind_task (Raise e) f = Raise e"
| "bind_task (Ask_auth i k) f = Ask_auth i (\<lambda>x. bind_task (k x) f)"
| "bind_task (Ask_user i e k) f = Ask_user i e (\<lambda>x. bind_task (k x) f)"
| "bind_task (Ask_config k) f = Ask_config (\<lambda>x. bind_task (k x) f)"
| "bind_task (Clock k) f = Clock (\<lambda>x. bind_task (k x) f)"
| "bind_task (Random k) f = Random (\<lambda>x. bind_task (k x) f)"
| "bind_task (Commit a c k) f = Commit a c (\<lambda>x. bind_task (k x) f)"

record crypto =
  cr_hash :: "string \<Rightarrow> string"
  cr_totp :: "string \<Rightarrow> int \<Rightarrow> string"
  cr_seal :: "string \<Rightarrow> string \<Rightarrow> string option"
  cr_open :: "string \<Rightarrow> string option"
  cr_verify_password :: "string \<Rightarrow> string \<Rightarrow> bool"

subsection \<open>Challenges\<close>

definition is_mfa_required :: "string \<Rightarrow> mfa_config \<Rightarrow> bool" where
  "is_mfa_required auth_method config =
     (if \<not> cf_enable config then False
      else if auth_method = ''oauth'' \<and> cf_oauth_bypass config then False
      else \<not> (auth_method = ''trusted_header'' \<and> cf_trusted_bypass config))"

definition unauthorized :: py_error where
  "unauthorized = HTTPException 401 ''This authentication step expired. Please start again.''"

definition too_many :: py_error where
  "too_many = HTTPException 429 ''Too many attempts. Please try again later.''"

definition busy :: py_error where
  "busy = HTTPException 409 ''Authentication is busy. Please try again.''"

definition decrypt_secret :: "crypto \<Rightarrow> string \<Rightarrow> string task" where
  "decrypt_secret cr secret =
     (case cr_open cr secret of
        None \<Rightarrow> Raise (HTTPException 503 ''Authenticator configuration is unavailable. Contact the operator.'')
      | Some s \<Rightarrow> Return s)"

definition is_ascii_digit :: "char \<Rightarrow> bool" where
  "is_ascii_digit c = (let n = of_char c :: nat in 48 \<le> n \<and> n \<le> 57)"

definition matching_step :: "crypto \<Rightarrow> int \<Rightarrow> string \<Rightarrow> string \<Rightarrow> int \<Rightarrow> int option" where
  "matching_step cr now secret code last_step =
     (if length code \<noteq> 6 \<or> \<not> list_all is_ascii_digit code then None
      else (let current = now div 30
            in List.find (\<lambda>step. step > last_step \<and> cr_totp cr secret step = code)
                 [current, current - 1, current + 1]))"

text \<open>Ten random codes with their hashes.\<close>

fun random_codes :: "nat \<Rightarrow> string list task" where
  "random_codes 0 = Return []"
| "random_codes (Suc n) = Random (\<lambda>c. bind_task (random_codes n) (\<lambda>cs. Return (c # cs)))"

definition recovery_codes :: "crypto \<Rightarrow> (string list \<times> string list) task" where
  "recovery_codes cr = bind_task (random_codes 10) (\<lambda>codes. Return (codes, map (cr_hash cr) codes))"

definition get_auth :: "string \<Rightarrow> auth task" where
  "get_auth user_id = Ask_auth user_id (\<lambda>found.
     case found of None \<Rightarrow> Raise (HTTPException 401 ''Invalid authentication request.'')
     | Some a \<Rightarrow> if au_active a then Return a else Raise (HTTPException 401 ''Invalid authentication request.''))"

definition save_mfa :: "auth \<Rightarrow> mfa_data \<Rightarrow> bool \<Rightarrow> auth task" where
  "save_mfa a m revoke = Commit a (Save m revoke) (\<lambda>updated.
     case updated of
       None \<Rightarrow> Raise (HTTPException 409 ''Authentication changed in another request. Please start again.'')
     | Some a' \<Rightarrow> Return a')"

definition current_limit :: "int \<Rightarrow> mfa_data \<Rightarrow> string \<Rightarrow> mfa_limit" where
  "current_limit now m kind =
     (case map_of (md_limits m) kind of
        None \<Rightarrow> \<lparr>ml_count = 0, ml_expires = now + LIMIT_SECONDS\<rparr>
      | Some l \<Rightarrow> if ml_expires l \<le> now then \<lparr>ml_count = 0, ml_expires = now + LIMIT_SECONDS\<rparr> else l)"

definition count_limit :: "string \<Rightarrow> mfa_limit \<Rightarrow> mfa_data \<Rightarrow> mfa_data" where
  "count_limit kind l m = m\<lparr>md_limits := AList.update kind (l\<lparr>ml_count := ml_count l + 1\<rparr>) (md_limits m)\<rparr>"

text \<open>
  \<open>expected\<close> is the stamp to check, if any. A commit that finds the row changed is tried again with
  the row as it is then; only error 409 of \<open>save_mfa\<close> can be caught there.
\<close>

fun limit_account_loop :: "string \<Rightarrow> string \<Rightarrow> string option option \<Rightarrow> nat \<Rightarrow> auth task" where
  "limit_account_loop user_id kind expected 0 = Raise busy"
| "limit_account_loop user_id kind expected (Suc n) =
     bind_task (get_auth user_id) (\<lambda>a.
       if expected \<noteq> None \<and> expected \<noteq> Some (au_stamp a)
       then Raise (HTTPException 401 ''Session expired. Please sign in again.'')
       else Clock (\<lambda>now.
         let limit = current_limit now (mfa_of a) kind
         in if ml_count limit \<ge> 10 then Raise too_many
            else Commit a (Save (count_limit kind limit (mfa_of a)) False) (\<lambda>updated.
              case updated of Some a' \<Rightarrow> Return a' | None \<Rightarrow> limit_account_loop user_id kind expected n)))"

definition limit_account :: "string \<Rightarrow> string \<Rightarrow> string option option \<Rightarrow> auth task" where
  "limit_account user_id kind expected = limit_account_loop user_id kind expected 5"

definition auth_methods :: "string list" where
  "auth_methods = [''password'', ''ldap'', ''oauth'', ''trusted_header'', ''system'', ''api'']"

definition new_challenge ::
    "crypto \<Rightarrow> auth \<Rightarrow> challenge_kind \<Rightarrow> string \<Rightarrow> int \<Rightarrow> string option \<Rightarrow> string option \<Rightarrow> (string \<times> mfa_challenge) task" where
  "new_challenge cr a kind auth_method auth_time oauth_session_id provider =
     Random (\<lambda>r. Clock (\<lambda>now.
       let token = au_id a @ ''.'' @ r
       in if auth_method \<notin> set auth_methods then Raise (ValueError ''auth_method'')
          else Return (token,
            \<lparr>mc_hash = cr_hash cr token, mc_kind = kind, mc_expires = now + CHALLENGE_SECONDS, mc_attempts = 0,
             mc_method = auth_method, mc_auth_time = auth_time, mc_stamp = au_stamp a, mc_secret = None,
             mc_oauth = oauth_session_id, mc_provider = provider\<rparr>)))"

datatype mfa_reply =
    Session session_claims
  | Challenged challenge_kind string int
  | Pending
  | Setup string
  | Enrolled session_claims "string list"
  | Codes "string list"
  | Ticket string
  | Changed
  | Unchanged

definition challenge_response :: "string \<Rightarrow> mfa_challenge \<Rightarrow> mfa_reply task" where
  "challenge_response token c = Clock (\<lambda>now.
     Return (Challenged (if mc_kind c = Replace then Enroll else mc_kind c) token (max 0 (mc_expires c - now))))"

definition start_mfa_login :: "crypto \<Rightarrow> auth \<Rightarrow> string \<Rightarrow> string option \<Rightarrow> string option \<Rightarrow> mfa_reply task" where
  "start_mfa_login cr a auth_method oauth_session_id provider =
     (let m = mfa_of a;
          kind = (if md_reset_required m then Recover else if present (md_secret m) then Verify else Enroll)
      in Clock (\<lambda>now.
           bind_task (new_challenge cr a kind auth_method now oauth_session_id provider) (\<lambda>(token, c).
             bind_task (save_mfa a (m\<lparr>md_login := Some c\<rparr>) False) (\<lambda>_. challenge_response token c))))"

datatype slot = Login | Manage

fun get_slot :: "slot \<Rightarrow> mfa_data \<Rightarrow> mfa_challenge option" where
  "get_slot Login m = md_login m"
| "get_slot Manage m = md_manage m"

fun set_slot :: "slot \<Rightarrow> mfa_challenge \<Rightarrow> mfa_data \<Rightarrow> mfa_data" where
  "set_slot Login c m = m\<lparr>md_login := Some c\<rparr>"
| "set_slot Manage c m = m\<lparr>md_manage := Some c\<rparr>"

record loaded =
  ld_user :: user_row
  ld_auth :: auth
  ld_mfa :: mfa_data
  ld_challenge :: mfa_challenge
  ld_slot :: slot

definition challenge_slot :: "crypto \<Rightarrow> string \<Rightarrow> challenge_kind list \<Rightarrow> mfa_data \<Rightarrow> slot" where
  "challenge_slot cr token kinds m =
     (if set kinds = {Replace} then Manage
      else if Replace \<in> set kinds \<and> (case md_manage m of None \<Rightarrow> False | Some c \<Rightarrow> mc_hash c = cr_hash cr token)
      then Manage else Login)"

definition valid_challenge :: "crypto \<Rightarrow> string \<Rightarrow> challenge_kind list \<Rightarrow> int \<Rightarrow> auth \<Rightarrow> mfa_challenge \<Rightarrow> bool" where
  "valid_challenge cr token kinds now a c \<longleftrightarrow> mc_kind c \<in> set kinds \<and> now < mc_expires c \<and> mc_stamp c = au_stamp a \<and>
     mc_hash c = cr_hash cr token"

text \<open>
  The loop of \<open>load_challenge\<close>. The challenge is part of the copied state, so counting an attempt
  changes both; the loop goes on with the row as it is after a commit that failed.
\<close>

fun load_challenge_loop :: "crypto \<Rightarrow> string \<Rightarrow> challenge_kind list \<Rightarrow> bool \<Rightarrow> string \<Rightarrow> nat \<Rightarrow> auth \<Rightarrow> loaded task" where
  "load_challenge_loop cr token kinds attempt user_id 0 a = Raise busy"
| "load_challenge_loop cr token kinds attempt user_id (Suc n) a =
     (let m = mfa_of a; slot = challenge_slot cr token kinds m
      in case get_slot slot m of None \<Rightarrow> Raise unauthorized
         | Some c \<Rightarrow> Clock (\<lambda>now.
             if \<not> valid_challenge cr token kinds now a c then Raise unauthorized
             else Ask_user user_id False (\<lambda>user.
               case user of None \<Rightarrow> Raise (HTTPException 403 ''Account is awaiting approval.'')
               | Some u \<Rightarrow>
                   if u_role u \<notin> {''admin'', ''user''} then Raise (HTTPException 403 ''Account is awaiting approval.'')
                   else Ask_config (\<lambda>config.
                     if \<not> cf_enable config then Raise (HTTPException 403 ''MFA is disabled. Please sign in again.'')
                     else if \<not> attempt
                     then Return \<lparr>ld_user = u, ld_auth = a, ld_mfa = m, ld_challenge = c, ld_slot = slot\<rparr>
                     else if mc_attempts c \<ge> 5 then Raise (HTTPException 429 ''Too many codes. Please sign in again.'')
                     else Clock (\<lambda>now.
                       let limit = current_limit now m ''factor''
                       in if ml_count limit \<ge> 10 then Raise too_many
                          else (let c' = c\<lparr>mc_attempts := mc_attempts c + 1\<rparr>
                            in Commit a (Save (set_slot slot c' (count_limit ''factor'' limit m)) False) (\<lambda>updated.
                                 case updated of
                                   Some a' \<Rightarrow> Return \<lparr>ld_user = u, ld_auth = a', ld_mfa = mfa_of a', ld_challenge = c', ld_slot = slot\<rparr>
                                 | None \<Rightarrow> bind_task (get_auth user_id)
                                     (load_challenge_loop cr token kinds attempt user_id n))))))))"

definition load_challenge :: "crypto \<Rightarrow> string \<Rightarrow> challenge_kind list \<Rightarrow> bool \<Rightarrow> loaded task" where
  "load_challenge cr token kinds attempt =
     (let user_id = takeWhile (\<lambda>c. c \<noteq> CHR ''.'') token
      in if CHR ''.'' \<notin> set token \<or> length user_id > 64 then Raise unauthorized
         else bind_task (get_auth user_id) (load_challenge_loop cr token kinds attempt user_id 5))"

subsection \<open>Sessions\<close>

text \<open>Lifetimes, cookies and events of a session are left out; the claims of its token are the result.\<close>

definition create_session_response ::
    "string \<Rightarrow> string \<Rightarrow> auth \<Rightarrow> bool \<Rightarrow> int option \<Rightarrow> session_claims task" where
  "create_session_response user_id source a mfa_verified auth_time =
     bind_task (get_auth user_id) (\<lambda>current.
       if au_stamp current \<noteq> au_stamp a
       then Raise (HTTPException 409 ''Authentication changed. Please sign in again.'')
       else Ask_config (\<lambda>config.
         if is_mfa_required source config \<and> \<not> mfa_verified
         then Raise (HTTPException 401 ''Authenticator verification is required.'')
         else Clock (\<lambda>now.
           Return \<lparr>sc_id = user_id, sc_method = source,
             sc_auth_time = (case auth_time of None \<Rightarrow> now | Some t \<Rightarrow> if t = 0 then now else t),
             sc_stamp = au_stamp a, sc_verified = mfa_verified\<rparr>)))"

definition create_signin_response ::
    "crypto \<Rightarrow> user_row \<Rightarrow> string \<Rightarrow> auth option \<Rightarrow> string option \<Rightarrow> string option \<Rightarrow> mfa_reply task" where
  "create_signin_response cr user source given oauth_session_id provider =
     bind_task (case given of None \<Rightarrow> get_auth (u_id user) | Some a \<Rightarrow> Return a) (\<lambda>a.
       bind_task (get_auth (u_id user)) (\<lambda>current.
         if au_stamp current \<noteq> au_stamp a \<or> au_password current \<noteq> au_password a
         then Raise (HTTPException 409 ''Authentication changed. Please sign in again.'')
         else Ask_config (\<lambda>config.
           if cf_enable config \<and> u_role user \<notin> {''admin'', ''user''} then Return Pending
           else if is_mfa_required source config then start_mfa_login cr current source oauth_session_id provider
           else bind_task (create_session_response (u_id user) source current False None) (\<lambda>claims. Return (Session claims)))))"

definition authenticate_user :: "crypto \<Rightarrow> string \<Rightarrow> string \<Rightarrow> (user_row \<times> auth) option task" where
  "authenticate_user cr email password = Ask_user email True (\<lambda>user.
     case user of None \<Rightarrow> Return None
     | Some u \<Rightarrow> Ask_auth (u_id u) (\<lambda>credential.
         case credential of None \<Rightarrow> Return None
         | Some a \<Rightarrow> if au_active a \<and> cr_verify_password cr (au_password a) password then Return (Some (u, a)) else Return None))"

text \<open>The password login of \<open>signin\<close>; \<open>limited\<close> is the answer of its rate limiter.\<close>

definition signin :: "crypto \<Rightarrow> bool \<Rightarrow> string \<Rightarrow> string \<Rightarrow> mfa_reply task" where
  "signin cr limited email password =
     (if limited then Raise (HTTPException 429 ''API rate limit exceeded'')
      else Ask_config (\<lambda>config.
        bind_task
          (if \<not> cf_enable config then Return ()
           else Ask_user (lower email) True (\<lambda>existing.
             case existing of None \<Rightarrow> Return ()
             | Some u \<Rightarrow> bind_task (limit_account (u_id u) ''password'' None) (\<lambda>_. Return ())))
          (\<lambda>_. bind_task (authenticate_user cr (lower email) password) (\<lambda>authenticated.
             case authenticated of
               None \<Rightarrow> Raise (HTTPException 400 ''The email or password provided is incorrect. Please check for typos and try logging in again.'')
             | Some (u, a) \<Rightarrow> create_signin_response cr u ''password'' (Some a) None None))))"

text \<open>The checks of a presented token; the revocation list of single tokens in Redis is left out.\<close>

definition is_valid_token :: "string \<Rightarrow> session_claims \<Rightarrow> bool task" where
  "is_valid_token token_type claims =
     bind_task (get_auth (sc_id claims)) (\<lambda>a.
       if sc_stamp claims \<noteq> au_stamp a then Return False
       else if token_type \<notin> {''session'', ''automation'', ''subagent''} then Return False
       else if token_type = ''session''
       then Ask_config (\<lambda>config. Return (\<not> (is_mfa_required (sc_method claims) config \<and>
              (\<not> sc_verified claims \<or> \<not> present (md_secret (mfa_of a)) \<or> md_reset_required (mfa_of a)))))
       else Return True)"

subsection \<open>Enrolment, verification and recovery\<close>

text \<open>The manual key of the new authenticator; its QR code is derived from it.\<close>

definition start_mfa_enrollment :: "crypto \<Rightarrow> string \<Rightarrow> mfa_reply task" where
  "start_mfa_enrollment cr token =
     bind_task (load_challenge cr token [Enroll, Replace] False) (\<lambda>l.
       if present (mc_secret (ld_challenge l))
       then bind_task (decrypt_secret cr (the (mc_secret (ld_challenge l)))) (\<lambda>secret. Return (Setup secret))
       else Random (\<lambda>secret. Random (\<lambda>nonce.
         case cr_seal cr nonce secret of
           None \<Rightarrow> Raise (ValueError ''A persistent WEBUI_SECRET_KEY is required for MFA.'')
         | Some sealed \<Rightarrow>
             bind_task (save_mfa (ld_auth l)
                 (set_slot (ld_slot l) ((ld_challenge l)\<lparr>mc_secret := Some sealed\<rparr>) (ld_mfa l)) False)
               (\<lambda>_. Return (Setup secret)))))"

definition invalid_code :: py_error where
  "invalid_code = HTTPException 401 ''Invalid or already used code.''"

definition consume_factor :: "crypto \<Rightarrow> mfa_data \<Rightarrow> string \<Rightarrow> bool \<Rightarrow> mfa_data task" where
  "consume_factor cr m code recovery =
     (if recovery
      then (let digest = cr_hash cr (lower (strip code))
            in if digest \<in> set (md_recovery m) then Return (m\<lparr>md_recovery := remove1 digest (md_recovery m)\<rparr>)
               else Raise invalid_code)
      else if present (md_secret m)
      then bind_task (decrypt_secret cr (the (md_secret m))) (\<lambda>secret. Clock (\<lambda>now.
             case matching_step cr now secret (strip code) (md_last_step m) of
               None \<Rightarrow> Raise invalid_code
             | Some step \<Rightarrow> Return (m\<lparr>md_last_step := step\<rparr>)))
      else Raise invalid_code)"

definition enrolled :: "string option \<Rightarrow> int \<Rightarrow> string list \<Rightarrow> mfa_data \<Rightarrow> mfa_data" where
  "enrolled secret step hashes m =
     (clear_challenges m)\<lparr>md_secret := secret, md_last_step := step, md_recovery := hashes, md_reset_required := False\<rparr>"

definition confirm_mfa_enrollment :: "crypto \<Rightarrow> string \<Rightarrow> string \<Rightarrow> (loaded \<times> string list) task" where
  "confirm_mfa_enrollment cr token code =
     bind_task (load_challenge cr token [Enroll, Replace] True) (\<lambda>l.
       let c = ld_challenge l;
           invalid = Raise (HTTPException 401 ''Invalid code. Check your authenticator and try again.'')
       in if \<not> present (mc_secret c) then invalid
          else bind_task (decrypt_secret cr (the (mc_secret c))) (\<lambda>secret. Clock (\<lambda>now.
            case matching_step cr now secret (strip code) (-1) of
              None \<Rightarrow> invalid
            | Some step \<Rightarrow> bind_task (recovery_codes cr) (\<lambda>(codes, hashes).
                bind_task (save_mfa (ld_auth l) (enrolled (mc_secret c) step hashes (ld_mfa l)) True) (\<lambda>updated.
                  Return (l\<lparr>ld_auth := updated\<rparr>, codes))))))"

definition verify_mfa_challenge :: "crypto \<Rightarrow> string \<Rightarrow> string \<Rightarrow> bool \<Rightarrow> loaded task" where
  "verify_mfa_challenge cr token code recovery =
     bind_task (load_challenge cr token [Verify] True) (\<lambda>l.
       bind_task (consume_factor cr (ld_mfa l) code recovery) (\<lambda>m.
         bind_task (save_mfa (ld_auth l) (m\<lparr>md_login := None\<rparr>) False) (\<lambda>updated.
           Return (l\<lparr>ld_auth := updated\<rparr>))))"

definition manage_mfa :: "crypto \<Rightarrow> string \<Rightarrow> session_claims \<Rightarrow> string \<Rightarrow> bool \<Rightarrow> bool \<Rightarrow> mfa_reply task" where
  "manage_mfa cr user_id claims code recovery replace = Clock (\<lambda>now.
     if now - sc_auth_time claims > CHALLENGE_SECONDS then Raise (HTTPException 403 ''reauthentication_required'')
     else Ask_config (\<lambda>config.
       if \<not> cf_enable config then Raise (HTTPException 403 ''MFA is disabled.'')
       else bind_task (limit_account user_id ''factor'' (Some (sc_stamp claims))) (\<lambda>a.
         bind_task (consume_factor cr (mfa_of a) code recovery) (\<lambda>m.
           if replace
           then bind_task (new_challenge cr a Replace (sc_method claims) (sc_auth_time claims) None None) (\<lambda>(token, c).
             bind_task (save_mfa a (m\<lparr>md_manage := Some c\<rparr>) False) (\<lambda>_. challenge_response token c))
           else bind_task (recovery_codes cr) (\<lambda>(codes, hashes).
             bind_task (save_mfa a (clear_challenges (m\<lparr>md_recovery := hashes\<rparr>)) True) (\<lambda>_. Return (Codes codes)))))))"

definition valid_ticket :: "crypto \<Rightarrow> int \<Rightarrow> string \<Rightarrow> mfa_data \<Rightarrow> bool" where
  "valid_ticket cr now reset_token m \<longleftrightarrow> md_reset_required m \<and>
     (case md_ticket m of None \<Rightarrow> False | Some t \<Rightarrow> now < mt_expires t \<and> mt_hash t = cr_hash cr reset_token)"

definition redeem_mfa_reset_token :: "crypto \<Rightarrow> string \<Rightarrow> string \<Rightarrow> mfa_reply task" where
  "redeem_mfa_reset_token cr token reset_token =
     bind_task (load_challenge cr token [Recover] True) (\<lambda>l. Clock (\<lambda>now.
       if \<not> valid_ticket cr now reset_token (ld_mfa l)
       then Raise (HTTPException 401 ''Invalid or expired operator recovery token.'')
       else bind_task (new_challenge cr (ld_auth l) Enroll (mc_method (ld_challenge l)) (mc_auth_time (ld_challenge l))
                (mc_oauth (ld_challenge l)) (mc_provider (ld_challenge l))) (\<lambda>(new_token, c).
         bind_task (save_mfa (ld_auth l) ((ld_mfa l)\<lparr>md_ticket := None, md_login := Some c\<rparr>) False)
           (\<lambda>_. challenge_response new_token c))))"

definition reset_mfa :: "crypto \<Rightarrow> string \<Rightarrow> string \<Rightarrow> mfa_reply task" where
  "reset_mfa cr email reason = Ask_user (lower (strip email)) True (\<lambda>user.
     case user of None \<Rightarrow> Raise (ValueError ''User not found.'')
     | Some u \<Rightarrow>
         if strip reason = [] then Raise (ValueError ''A nonempty reason is required.'')
         else bind_task (get_auth (u_id u)) (\<lambda>a. Random (\<lambda>ticket. Clock (\<lambda>now.
           bind_task (save_mfa a ((mfa_of a)\<lparr>md_secret := None, md_last_step := -1, md_recovery := [], md_login := None,
               md_manage := None, md_reset_required := True,
               md_ticket := Some \<lparr>mt_hash = cr_hash cr ticket, mt_expires = now + 1800\<rparr>\<rparr>) True)
             (\<lambda>_. Return (Ticket ticket))))))"

text \<open>A password change or a revocation that meets a concurrent change raises and changes nothing.\<close>

definition change_password :: "string \<Rightarrow> string \<Rightarrow> mfa_reply task" where
  "change_password user_id new_password = Ask_auth user_id (\<lambda>found.
     case found of None \<Rightarrow> Return Unchanged
     | Some a \<Rightarrow> Commit a (New_password (clear_challenges (mfa_of a)) new_password) (\<lambda>updated.
         case updated of None \<Rightarrow> Raise (ValueError ''Authentication changed in another request. Please try again.'')
         | Some _ \<Rightarrow> Return Changed))"

definition revoke_user_tokens :: "string \<Rightarrow> mfa_reply task" where
  "revoke_user_tokens user_id = Ask_auth user_id (\<lambda>found.
     case found of None \<Rightarrow> Return Unchanged
     | Some a \<Rightarrow> Commit a Revoke (\<lambda>updated.
         case updated of None \<Rightarrow> Raise (ValueError ''Authentication changed in another request. Please try again.'')
         | Some _ \<Rightarrow> Return Changed))"

subsection \<open>Requests\<close>

text \<open>\<open>Sign_in_via\<close> is a login by a trusted header or an identity provider for a known user.\<close>

datatype mfa_request =
    Sign_in bool string string
  | Sign_in_via user_row string "string option" "string option"
  | Start_enrollment string
  | Confirm_enrollment string string
  | Verify_login string string bool
  | Manage string session_claims string bool bool
  | Redeem string string
  | Operator_reset string string
  | Change_password string string
  | Revoke_tokens string

definition finish_login :: "loaded \<Rightarrow> session_claims task" where
  "finish_login l =
     create_session_response (u_id (ld_user l)) (mc_method (ld_challenge l)) (ld_auth l) True (Some (mc_auth_time (ld_challenge l)))"

fun serve :: "crypto \<Rightarrow> mfa_request \<Rightarrow> mfa_reply task" where
  "serve cr (Sign_in limited email password) = signin cr limited email password"
| "serve cr (Sign_in_via user source oauth_session_id provider) =
     create_signin_response cr user source None oauth_session_id provider"
| "serve cr (Start_enrollment token) = start_mfa_enrollment cr token"
| "serve cr (Confirm_enrollment token code) =
     bind_task (confirm_mfa_enrollment cr token code) (\<lambda>(l, codes).
       if mc_kind (ld_challenge l) = Replace then Return (Codes codes)
       else bind_task (finish_login l) (\<lambda>claims. Return (Enrolled claims codes)))"
| "serve cr (Verify_login token code recovery) =
     bind_task (verify_mfa_challenge cr token code recovery) (\<lambda>l.
       bind_task (finish_login l) (\<lambda>claims. Return (Session claims)))"
| "serve cr (Manage user_id claims code recovery replace) = manage_mfa cr user_id claims code recovery replace"
| "serve cr (Redeem token reset_token) = redeem_mfa_reset_token cr token reset_token"
| "serve cr (Operator_reset email reason) = reset_mfa cr email reason"
| "serve cr (Change_password user_id new_password) = change_password user_id new_password"
| "serve cr (Revoke_tokens user_id) = revoke_user_tokens user_id"

end
