(* ===== verification/MfaRuns.thy ===== *)
theory MfaRuns
  imports Mfa
begin

text \<open>
  Interleaved runs of authentication requests. A world holds the credential table and the tasks of
  all requests so far; between two steps of a request any others may run, the clock may advance and
  accounts may be added and removed. The log lists what was committed. The account state machine
  \<open>allowed\<close> says which changes a commit may make; a rule for each operation (\<open>wp\<close>) shows that every
  request, at every commit, makes one of them and has the result it promises.
\<close>

subsection \<open>Worlds\<close>

record mfa_write =
  wr_task :: nat
  wr_old :: auth
  wr_change :: change
  wr_new :: auth
  wr_time :: int

datatype mfa_event = Created auth | Removed string | Wrote mfa_write

record mfa_world =
  mw_auths :: "auth dict"
  mw_now :: int
  mw_drawn :: nat
  mw_tasks :: "(mfa_request \<times> mfa_reply task) list"
  mw_log :: "mfa_event list"

definition mfa_start :: "int \<Rightarrow> mfa_world" where
  "mfa_start now = \<lparr>mw_auths = [], mw_now = now, mw_drawn = 0, mw_tasks = [], mw_log = []\<rparr>"

definition advance :: "nat \<Rightarrow> mfa_reply task \<Rightarrow> mfa_world \<Rightarrow> mfa_world" where
  "advance i t w = w\<lparr>mw_tasks := (mw_tasks w)[i := (fst (mw_tasks w ! i), t)]\<rparr>"

definition logged :: "mfa_event \<Rightarrow> mfa_world \<Rightarrow> mfa_world" where
  "logged e w = w\<lparr>mw_log := mw_log w @ [e]\<rparr>"

definition running_task :: "mfa_world \<Rightarrow> nat \<Rightarrow> mfa_reply task option" where
  "running_task w i = (if i < length (mw_tasks w) then Some (snd (mw_tasks w ! i)) else None)"

text \<open>\<open>insert_new_auth\<close>: the credential of a new account, its id and stamp drawn.\<close>

definition insert_new_auth :: "string \<Rightarrow> string \<Rightarrow> string \<Rightarrow> auth" where
  "insert_new_auth uuid stamp password =
     \<lparr>au_id = uuid, au_password = password, au_active = True, au_mfa = None, au_stamp = Some stamp\<rparr>"

inductive mfa_step :: "crypto \<Rightarrow> (nat \<Rightarrow> string) \<Rightarrow> mfa_world \<Rightarrow> mfa_world \<Rightarrow> bool" for cr uuid where
  Arrive: "mfa_step cr uuid w (w\<lparr>mw_tasks := mw_tasks w @ [(q, serve cr q)]\<rparr>)"
| Tick: "mw_now w \<le> now \<Longrightarrow> mfa_step cr uuid w (w\<lparr>mw_now := now\<rparr>)"
| Sign_up: "a = insert_new_auth (uuid (mw_drawn w)) (uuid (Suc (mw_drawn w))) password \<Longrightarrow>
    mfa_step cr uuid w (logged (Created a)
      (w\<lparr>mw_auths := AList.update (au_id a) a (mw_auths w), mw_drawn := mw_drawn w + 2\<rparr>))"
| Remove: "mfa_step cr uuid w (logged (Removed u) (w\<lparr>mw_auths := AList.delete u (mw_auths w)\<rparr>))"
| Auth_row: "running_task w i = Some (Ask_auth u k) \<Longrightarrow> mfa_step cr uuid w (advance i (k (map_of (mw_auths w) u)) w)"
| User_row: "running_task w i = Some (Ask_user u email k) \<Longrightarrow> (\<And>row. \<not> email \<Longrightarrow> found = Some row \<Longrightarrow> u_id row = u) \<Longrightarrow>
    mfa_step cr uuid w (advance i (k found) w)"
| Config: "running_task w i = Some (Ask_config k) \<Longrightarrow> mfa_step cr uuid w (advance i (k config) w)"
| Time: "running_task w i = Some (Clock k) \<Longrightarrow> mfa_step cr uuid w (advance i (k (mw_now w)) w)"
| Draw: "running_task w i = Some (Random k) \<Longrightarrow>
    mfa_step cr uuid w (advance i (k (uuid (mw_drawn w))) (w\<lparr>mw_drawn := Suc (mw_drawn w)\<rparr>))"
| Written: "running_task w i = Some (Commit a c k) \<Longrightarrow>
    commit (uuid (mw_drawn w)) (uuid (Suc (mw_drawn w))) a c (mw_auths w) = Some (auths, a') \<Longrightarrow>
    mfa_step cr uuid w (advance i (k (Some a'))
      (logged (Wrote \<lparr>wr_task = i, wr_old = a, wr_change = c, wr_new = a', wr_time = mw_now w\<rparr>)
        (w\<lparr>mw_auths := auths, mw_drawn := mw_drawn w + 2\<rparr>)))"
| Conflict: "running_task w i = Some (Commit a c k) \<Longrightarrow>
    commit (uuid (mw_drawn w)) (uuid (Suc (mw_drawn w))) a c (mw_auths w) = None \<Longrightarrow>
    mfa_step cr uuid w (advance i (k None) w)"

inductive_cases mfa_stepE: "mfa_step cr uuid w w'"

inductive mfa_reachable :: "crypto \<Rightarrow> (nat \<Rightarrow> string) \<Rightarrow> mfa_world \<Rightarrow> bool" for cr uuid where
  Start: "mfa_reachable cr uuid (mfa_start now)"
| Step: "mfa_reachable cr uuid w \<Longrightarrow> mfa_step cr uuid w w' \<Longrightarrow> mfa_reachable cr uuid w'"

subsection \<open>The account state machine\<close>

text \<open>What a commit makes of a row that is as the snapshot says.\<close>

fun after :: "string \<Rightarrow> string \<Rightarrow> change \<Rightarrow> auth \<Rightarrow> auth" where
  "after uuid stamp (Save m revoke) a =
     a\<lparr>au_mfa := Some (m\<lparr>md_revision := uuid\<rparr>), au_stamp := (if revoke then Some stamp else au_stamp a)\<rparr>"
| "after uuid stamp (New_password m pw) a =
     a\<lparr>au_password := pw, au_mfa := Some (m\<lparr>md_revision := uuid\<rparr>), au_stamp := Some stamp\<rparr>"
| "after uuid stamp Revoke a = a\<lparr>au_mfa := clear_mfa_challenges uuid (au_mfa a), au_stamp := Some stamp\<rparr>"

text \<open>
  The factor \<open>code\<close>, valid at time \<open>t\<close>, is taken from the state \<open>m\<close>: a recovery code disappears, a
  one-time password moves the last step forward to the step it belongs to.
\<close>

definition right_step :: "crypto \<Rightarrow> string \<Rightarrow> string \<Rightarrow> int \<Rightarrow> int \<Rightarrow> int \<Rightarrow> bool" where
  "right_step cr secret code last_step t step \<longleftrightarrow> length code = 6 \<and> list_all is_ascii_digit code \<and>
     cr_totp cr secret step = code \<and> last_step < step \<and> \<bar>step - t div 30\<bar> \<le> 1"

definition takes_factor :: "crypto \<Rightarrow> string \<Rightarrow> bool \<Rightarrow> int \<Rightarrow> mfa_data \<Rightarrow> mfa_data \<Rightarrow> bool" where
  "takes_factor cr code recovery t m m' \<longleftrightarrow>
     (if recovery
      then cr_hash cr (lower (strip code)) \<in> set (md_recovery m) \<and>
           m' = m\<lparr>md_recovery := remove1 (cr_hash cr (lower (strip code))) (md_recovery m)\<rparr>
      else (\<exists>sealed secret step. md_secret m = Some sealed \<and> cr_open cr sealed = Some secret \<and>
              right_step cr secret (strip code) (md_last_step m) t step \<and> m' = m\<lparr>md_last_step := step\<rparr>))"

definition reset_data :: "string \<Rightarrow> int \<Rightarrow> mfa_data \<Rightarrow> mfa_data" where
  "reset_data hash expires m = m\<lparr>md_secret := None, md_last_step := -1, md_recovery := [], md_login := None,
     md_manage := None, md_reset_required := True, md_ticket := Some \<lparr>mt_hash = hash, mt_expires = expires\<rparr>\<rparr>"

inductive allowed :: "crypto \<Rightarrow> int \<Rightarrow> mfa_data \<Rightarrow> change \<Rightarrow> bool" for cr now m where
  Attempt: "get_slot s m = Some c \<Longrightarrow> mc_attempts c < 5 \<Longrightarrow> t \<le> now \<Longrightarrow> ml_count (current_limit t m ''factor'') < 10 \<Longrightarrow>
    allowed cr now m (Save (set_slot s (c\<lparr>mc_attempts := mc_attempts c + 1\<rparr>)
      (count_limit ''factor'' (current_limit t m ''factor'') m)) False)"
| Count: "t \<le> now \<Longrightarrow> ml_count (current_limit t m kind) < 10 \<Longrightarrow>
    allowed cr now m (Save (count_limit kind (current_limit t m kind) m) False)"
| Issue: "mc_attempts c = 0 \<Longrightarrow> allowed cr now m (Save (m\<lparr>md_login := Some c\<rparr>) False)"
| Offer: "get_slot s m = Some c \<Longrightarrow> \<not> present (mc_secret c) \<Longrightarrow>
    allowed cr now m (Save (set_slot s (c\<lparr>mc_secret := Some sealed\<rparr>) m) False)"
| Enrolled: "get_slot s m = Some c \<Longrightarrow> mc_secret c = Some sealed \<Longrightarrow> cr_open cr sealed = Some secret \<Longrightarrow>
    t \<le> now \<Longrightarrow> right_step cr secret (strip code) (-1) t step \<Longrightarrow> allowed cr now m (Save (enrolled (Some sealed) step hashes m) True)"
| Verified: "t \<le> now \<Longrightarrow> takes_factor cr code recovery t m m' \<Longrightarrow> allowed cr now m (Save (m'\<lparr>md_login := None\<rparr>) False)"
| Replacing: "t \<le> now \<Longrightarrow> takes_factor cr code recovery t m m' \<Longrightarrow> mc_attempts c = 0 \<Longrightarrow>
    allowed cr now m (Save (m'\<lparr>md_manage := Some c\<rparr>) False)"
| New_codes: "t \<le> now \<Longrightarrow> takes_factor cr code recovery t m m' \<Longrightarrow>
    allowed cr now m (Save (clear_challenges (m'\<lparr>md_recovery := hashes\<rparr>)) True)"
| Redeemed: "t \<le> now \<Longrightarrow> valid_ticket cr t reset_token m \<Longrightarrow> mc_attempts c = 0 \<Longrightarrow>
    allowed cr now m (Save (m\<lparr>md_ticket := None, md_login := Some c\<rparr>) False)"
| Reset: "allowed cr now m (Save (reset_data hash expires m) True)"
| Password: "allowed cr now m (New_password (clear_challenges m) pw)"
| Revoked: "allowed cr now m Revoke"

subsection \<open>Reasoning about a task\<close>

text \<open>
  Rows that existed at some time, and the worlds a request may find later: time passes, rows stay
  known, others commit.
\<close>

fun row_of :: "mfa_event \<Rightarrow> auth option" where
  "row_of (Created a) = Some a"
| "row_of (Removed u) = None"
| "row_of (Wrote x) = Some (wr_new x)"

definition seen :: "mfa_world \<Rightarrow> auth \<Rightarrow> bool" where
  "seen w a \<longleftrightarrow> (\<exists>e \<in> set (mw_log w). row_of e = Some a)"

definition later :: "nat \<Rightarrow> mfa_world \<Rightarrow> mfa_world \<Rightarrow> bool" where
  "later i w w' \<longleftrightarrow> mw_now w \<le> mw_now w' \<and>
     (\<exists>es. mw_log w' = mw_log w @ es \<and> (\<forall>x. Wrote x \<in> set es \<longrightarrow> wr_task x \<noteq> i))"

definition written :: "nat \<Rightarrow> auth \<Rightarrow> change \<Rightarrow> auth \<Rightarrow> mfa_world \<Rightarrow> mfa_world" where
  "written i a c a' w = logged (Wrote \<lparr>wr_task = i, wr_old = a, wr_change = c, wr_new = a', wr_time = mw_now w\<rparr>) w"

text \<open>
  \<open>wp i t Q w\<close>: from \<open>w\<close> on, however others interleave, every commit of task \<open>t\<close> of request \<open>i\<close> makes
  an allowed change of a known row, and the outcome satisfies \<open>Q\<close>.
\<close>

primrec wp :: "'a task \<Rightarrow> crypto \<Rightarrow> nat \<Rightarrow> ('a result \<Rightarrow> mfa_world \<Rightarrow> bool) \<Rightarrow> mfa_world \<Rightarrow> bool" where
  "wp (Return x) cr i Q w = Q (Inr x) w"
| "wp (Raise e) cr i Q w = Q (Inl e) w"
| "wp (Ask_auth u k) cr i Q w =
     (\<forall>w' found. later i w w' \<longrightarrow> (\<forall>a. found = Some a \<longrightarrow> seen w' a \<and> au_id a = u) \<longrightarrow> wp (k found) cr i Q w')"
| "wp (Ask_user u email k) cr i Q w =
     (\<forall>w' found. later i w w' \<longrightarrow> (\<forall>row. \<not> email \<longrightarrow> found = Some row \<longrightarrow> u_id row = u) \<longrightarrow> wp (k found) cr i Q w')"
| "wp (Ask_config k) cr i Q w = (\<forall>w' config. later i w w' \<longrightarrow> wp (k config) cr i Q w')"
| "wp (Clock k) cr i Q w = (\<forall>w'. later i w w' \<longrightarrow> wp (k (mw_now w')) cr i Q w')"
| "wp (Random k) cr i Q w = (\<forall>w' r. later i w w' \<longrightarrow> wp (k r) cr i Q w')"
| "wp (Commit a c k) cr i Q w = (\<forall>w'. later i w w' \<longrightarrow>
     seen w' a \<and> allowed cr (mw_now w') (mfa_of a) c \<and> wp (k None) cr i Q w' \<and>
     (\<forall>uuid stamp. wp (k (Some (after uuid stamp c a))) cr i Q (written i a c (after uuid stamp c a) w')))"

subsection \<open>The rules\<close>

lemma later_refl [simp]: "later i w w"
  by (simp add: later_def)

lemma later_trans [trans]: "later i w w' \<Longrightarrow> later i w' w'' \<Longrightarrow> later i w w''"
  by (auto simp: later_def)

lemma wp_bind: "wp (bind_task t f) cr i Q w =
    wp t cr i (\<lambda>r w'. case r of Inl e \<Rightarrow> Q (Inl e) w' | Inr x \<Rightarrow> wp (f x) cr i Q w') w"
  by (induction t arbitrary: w) simp_all

lemma wp_mono: "wp t cr i Q w \<Longrightarrow> (\<And>r w'. Q r w' \<Longrightarrow> Q' r w') \<Longrightarrow> wp t cr i Q' w"
proof (induction t arbitrary: w)
  case (Commit a c k)
  then show ?case by (simp; blast)
qed auto

lemma wp_later:
  assumes "\<And>r w w'. Q r w \<Longrightarrow> later i w w' \<Longrightarrow> Q r w'" and "wp t cr i Q w" and "later i w w'"
  shows "wp t cr i Q w'"
  using assms(2, 3) by (cases t) (auto intro: assms(1) later_trans)

text \<open>Facts that survive whatever is committed.\<close>

definition grows :: "mfa_world \<Rightarrow> mfa_world \<Rightarrow> bool" where
  "grows w w' \<longleftrightarrow> mw_now w \<le> mw_now w' \<and> set (mw_log w) \<subseteq> set (mw_log w')"

lemma grows_refl [simp]: "grows w w"
  by (simp add: grows_def)

lemma grows_trans: "grows w w' \<Longrightarrow> grows w' w'' \<Longrightarrow> grows w w''"
  by (auto simp: grows_def)

lemma later_grows: "later i w w' \<Longrightarrow> grows w w'"
  by (auto simp: later_def grows_def)

lemma grows_written [simp]: "grows w (written i a c a' w)"
  by (auto simp: grows_def written_def logged_def)

lemma grows_seen: "grows w w' \<Longrightarrow> seen w a \<Longrightarrow> seen w' a"
  by (auto simp: grows_def seen_def)

lemma seen_written [simp]: "seen (written i a c a' w) b \<longleftrightarrow> seen w b \<or> b = a'"
  by (auto simp: seen_def written_def logged_def)

lemma now_written [simp]: "mw_now (written i a c a' w) = mw_now w"
  by (simp add: written_def logged_def)

lemma log_written [simp]:
  "mw_log (written i a c a' w) =
     mw_log w @ [Wrote \<lparr>wr_task = i, wr_old = a, wr_change = c, wr_new = a', wr_time = mw_now w\<rparr>]"
  by (simp add: written_def logged_def)

text \<open>The errors that tell whether a code was right.\<close>

definition wrong_codes :: "py_error set" where
  "wrong_codes = {invalid_code, HTTPException 401 ''Invalid code. Check your authenticator and try again.'',
     HTTPException 401 ''Invalid or expired operator recovery token.''}"

lemmas wrong_simps = wrong_codes_def invalid_code_def unauthorized_def too_many_def busy_def

definition factor_limit :: "auth \<Rightarrow> mfa_limit option" where
  "factor_limit a = map_of (md_limits (mfa_of a)) ''factor''"

text \<open>A write that counts an attempt, and the window it is counted in.\<close>

definition charges :: "mfa_write \<Rightarrow> bool" where
  "charges x \<longleftrightarrow> factor_limit (wr_new x) \<noteq> factor_limit (wr_old x)"

definition charged :: "nat \<Rightarrow> string \<Rightarrow> mfa_world \<Rightarrow> bool" where
  "charged i u w \<longleftrightarrow> (\<exists>x. Wrote x \<in> set (mw_log w) \<and> wr_task x = i \<and> charges x \<and> au_id (wr_new x) = u)"

lemma charged_grows: "charged i u w \<Longrightarrow> grows w w' \<Longrightarrow> charged i u w'"
  by (auto simp: charged_def grows_def)

lemma current_limit_bumped:
  "Some ((current_limit t m kind)\<lparr>ml_count := ml_count (current_limit t m kind) + 1\<rparr>) \<noteq> map_of (md_limits m) kind"
  by (auto simp: current_limit_def LIMIT_SECONDS_def dest: arg_cong [where f = ml_count] split: option.splits)

lemma count_limit_sel [simp]:
  "map_of (md_limits (count_limit kind l m)) kind' =
     (if kind' = kind then Some (l\<lparr>ml_count := ml_count l + 1\<rparr>) else map_of (md_limits m) kind')"
  "md_login (count_limit kind l m) = md_login m" "md_manage (count_limit kind l m) = md_manage m"
  "md_secret (count_limit kind l m) = md_secret m" "md_last_step (count_limit kind l m) = md_last_step m"
  "md_recovery (count_limit kind l m) = md_recovery m" "md_reset_required (count_limit kind l m) = md_reset_required m"
  "md_ticket (count_limit kind l m) = md_ticket m"
  by (simp_all add: count_limit_def)

lemma set_slot_sel [simp]:
  "md_limits (set_slot s c m) = md_limits m" "get_slot s (set_slot s c m) = Some c"
  "md_secret (set_slot s c m) = md_secret m" "md_last_step (set_slot s c m) = md_last_step m"
  "md_recovery (set_slot s c m) = md_recovery m"
  by (cases s; simp)+

lemma get_slot_count [simp]: "get_slot s (count_limit kind l m) = get_slot s m"
  by (cases s) simp_all

lemma mfa_of_Some [simp]: "mfa_of (a\<lparr>au_mfa := Some m\<rparr>) = m" "mfa_of (a\<lparr>au_mfa := Some m, au_stamp := s\<rparr>) = m"
  "mfa_of (a\<lparr>au_password := pw, au_mfa := Some m, au_stamp := s\<rparr>) = m"
  by (simp_all add: mfa_of_def)

lemma after_id [simp]: "au_id (after uuid stamp c a) = au_id a" "au_active (after uuid stamp c a) = au_active a"
  by (cases c; simp)+

lemma get_slot_revision [simp]: "get_slot s (m\<lparr>md_revision := r\<rparr>) = get_slot s m"
  by (cases s) simp_all

lemma set_slot_revision [simp]: "(set_slot s c m)\<lparr>md_revision := r\<rparr> = set_slot s c (m\<lparr>md_revision := r\<rparr>)"
  by (cases s) simp_all

lemma bind_case: "wp (case x of None \<Rightarrow> t | Some y \<Rightarrow> f y) cr i Q w =
    (case x of None \<Rightarrow> wp t cr i Q w | Some y \<Rightarrow> wp (f y) cr i Q w)"
  by (cases x) simp_all

lemma wp_get_auth:
  assumes "\<And>w' a. later i w w' \<Longrightarrow> seen w' a \<Longrightarrow> au_id a = u \<Longrightarrow> Q (Inr a) w'"
    and "\<And>w' e. later i w w' \<Longrightarrow> e \<notin> wrong_codes \<Longrightarrow> Q (Inl e) w'"
  shows "wp (get_auth u) cr i Q w"
  using assms by (auto simp: get_auth_def wrong_simps split: option.split)

lemma wp_save_mfa:
  assumes "\<And>w'. later i w w' \<Longrightarrow> seen w' a \<and> allowed cr (mw_now w') (mfa_of a) (Save m revoke)"
    and "\<And>w' uuid stamp. later i w w' \<Longrightarrow>
      Q (Inr (after uuid stamp (Save m revoke) a)) (written i a (Save m revoke) (after uuid stamp (Save m revoke) a) w')"
    and "\<And>w' e. later i w w' \<Longrightarrow> e \<notin> wrong_codes \<Longrightarrow> Q (Inl e) w'"
  shows "wp (save_mfa a m revoke) cr i Q w"
  using assms by (auto simp: save_mfa_def wrong_simps simp del: after.simps)

lemma charged_written:
  assumes "map_of (md_limits m) ''factor'' =
      Some ((current_limit t (mfa_of a) ''factor'')\<lparr>ml_count := ml_count (current_limit t (mfa_of a) ''factor'') + 1\<rparr>)"
  shows "charged i (au_id a) (written i a (Save m revoke) (after uuid stamp (Save m revoke) a) w)"
proof -
  have "factor_limit (after uuid stamp (Save m revoke) a) \<noteq> factor_limit a"
    using assms current_limit_bumped [of t "mfa_of a" "''factor''"] by (simp add: factor_limit_def)
  then show ?thesis
    by (auto simp: charged_def charges_def simp del: after.simps)
qed

lemma wp_limit_account:
  assumes "\<And>w' a. grows w w' \<Longrightarrow> seen w' a \<Longrightarrow> au_id a = u \<Longrightarrow> (kind = ''factor'' \<Longrightarrow> charged i u w') \<Longrightarrow> Q (Inr a) w'"
    and "\<And>w' e. grows w w' \<Longrightarrow> e \<notin> wrong_codes \<Longrightarrow> Q (Inl e) w'"
  shows "wp (limit_account u kind expected) cr i Q w"
proof -
  have "wp (limit_account_loop u kind expected n) cr i Q w'" if "grows w w'" for n w'
    using that
  proof (induction n arbitrary: w')
    case 0
    then show ?case using assms(2) by (simp add: wrong_simps)
  next
    case (Suc n)
    have attempt: "wp (Clock (\<lambda>now. let limit = current_limit now (mfa_of a) kind
         in if ml_count limit \<ge> 10 then Raise too_many
            else Commit a (Save (count_limit kind limit (mfa_of a)) False) (\<lambda>updated.
              case updated of Some a' \<Rightarrow> Return a' | None \<Rightarrow> limit_account_loop u kind expected n))) cr i Q w1"
      if w1: "grows w w1" "seen w1 a" "au_id a = u" for w1 a
    proof (simp add: Let_def bind_case del: after.simps, intro allI impI conjI)
      fix w2 assume "later i w1 w2"
      then have w2: "grows w w2" using w1(1) grows_trans later_grows by blast
      show "Q (Inl too_many) w2"
        by (rule assms(2) [OF w2]) (simp add: wrong_simps)
      fix w3 assume w23: "later i w2 w3"
      have w3: "grows w w3" using w2 w23 grows_trans later_grows by blast
      show "seen w3 a" using w1(2) \<open>later i w1 w2\<close> w23 by (meson grows_seen later_grows)
      assume count: "\<not> 10 \<le> ml_count (current_limit (mw_now w2) (mfa_of a) kind)"
      then show "allowed cr (mw_now w3) (mfa_of a)
          (Save (count_limit kind (current_limit (mw_now w2) (mfa_of a) kind) (mfa_of a)) False)"
        using w23 by (intro allowed.Count) (auto simp: later_def)
      show "wp (limit_account_loop u kind expected n) cr i Q w3" by (rule Suc.IH [OF w3])
      fix uuid stamp
      let ?c = "Save (count_limit kind (current_limit (mw_now w2) (mfa_of a) kind) (mfa_of a)) False"
      show "Q (Inr (after uuid stamp ?c a)) (written i a ?c (after uuid stamp ?c a) w3)"
        using w3 w1(3) charged_written [of "count_limit kind (current_limit (mw_now w2) (mfa_of a) kind) (mfa_of a)" "mw_now w2" a]
        by (intro assms(1)) (auto simp del: after.simps intro: grows_trans)
    qed
    show ?case
      unfolding limit_account_loop.simps wp_bind
      by (rule wp_get_auth)
        (use Suc.prems attempt assms(2) in \<open>auto simp: wrong_simps grows_trans later_grows simp del: wp.simps(6)\<close>)
  qed
  then show ?thesis by (simp add: limit_account_def)
qed

text \<open>What a loaded challenge guarantees, and that an attempt on it has been counted.\<close>

definition loaded_ok :: "loaded \<Rightarrow> mfa_world \<Rightarrow> bool" where
  "loaded_ok l w \<longleftrightarrow> seen w (ld_auth l) \<and> ld_mfa l = mfa_of (ld_auth l) \<and>
     get_slot (ld_slot l) (ld_mfa l) = Some (ld_challenge l) \<and> au_id (ld_auth l) = u_id (ld_user l)"

definition attempt_on :: "crypto \<Rightarrow> nat \<Rightarrow> string \<Rightarrow> challenge_kind list \<Rightarrow> slot \<Rightarrow> mfa_write \<Rightarrow> mfa_challenge \<Rightarrow> bool" where
  "attempt_on cr i token kinds s x c \<longleftrightarrow> wr_task x = i \<and> charges x \<and> get_slot s (mfa_of (wr_old x)) = Some c \<and>
     mc_kind c \<in> set kinds \<and> mc_hash c = cr_hash cr token \<and> mc_stamp c = au_stamp (wr_old x) \<and> mc_attempts c < 5 \<and>
     au_stamp (wr_new x) = au_stamp (wr_old x) \<and> au_id (wr_new x) = au_id (wr_old x)"

definition attempted :: "crypto \<Rightarrow> nat \<Rightarrow> string \<Rightarrow> challenge_kind list \<Rightarrow> loaded \<Rightarrow> mfa_world \<Rightarrow> bool" where
  "attempted cr i token kinds l w \<longleftrightarrow> (\<exists>x c. Wrote x \<in> set (mw_log w) \<and> attempt_on cr i token kinds (ld_slot l) x c \<and>
     wr_new x = ld_auth l \<and> ld_challenge l = c\<lparr>mc_attempts := mc_attempts c + 1\<rparr>)"

lemma attempted_charged: "attempted cr i token kinds l w \<Longrightarrow> charged i (au_id (ld_auth l)) w"
  by (auto simp: attempted_def attempt_on_def charged_def)

lemma challenge_slot_Login: "Replace \<notin> set kinds \<Longrightarrow> challenge_slot cr token kinds m = Login"
  by (auto simp: challenge_slot_def)

lemma get_slot_after [simp]:
  "get_slot s (mfa_of (after uuid stamp (Save (set_slot s c m) revoke) a)) = Some c"
  by (cases s) simp_all

lemma attempted_written:
  fixes a w token cr t
  defines "m \<equiv> mfa_of a" and "limit \<equiv> current_limit t (mfa_of a) ''factor''"
  assumes "get_slot s m = Some c" and "valid_challenge cr token kinds t' a c" and "mc_attempts c < 5"
  defines "c' \<equiv> c\<lparr>mc_attempts := mc_attempts c + 1\<rparr>"
  defines "ch \<equiv> Save (set_slot s c' (count_limit ''factor'' limit m)) False"
  shows "attempted cr i token kinds
      \<lparr>ld_user = u, ld_auth = after uuid stamp ch a, ld_mfa = mfa_of (after uuid stamp ch a), ld_challenge = c', ld_slot = s\<rparr>
      (written i a ch (after uuid stamp ch a) w)"
proof -
  have "charges \<lparr>wr_task = i, wr_old = a, wr_change = ch, wr_new = after uuid stamp ch a, wr_time = mw_now w\<rparr>"
    using current_limit_bumped [of t m "''factor''"] by (simp add: charges_def factor_limit_def ch_def limit_def m_def)
  then have "attempt_on cr i token kinds s
      \<lparr>wr_task = i, wr_old = a, wr_change = ch, wr_new = after uuid stamp ch a, wr_time = mw_now w\<rparr> c"
    using assms(3-5) by (simp add: attempt_on_def valid_challenge_def m_def) (simp add: ch_def)
  then show ?thesis
    unfolding attempted_def c'_def
    by (intro exI [of _ "\<lparr>wr_task = i, wr_old = a, wr_change = ch, wr_new = after uuid stamp ch a, wr_time = mw_now w\<rparr>"] exI [of _ c])
      (simp del: after.simps)
qed

lemma allowed_attempt:
  assumes "get_slot s m = Some c" and "mc_attempts c < 5" and "t \<le> now" and "\<not> 10 \<le> ml_count (current_limit t m ''factor'')"
  shows "allowed cr now m (Save (set_slot s (c\<lparr>mc_attempts := mc_attempts c + 1\<rparr>)
      (count_limit ''factor'' (current_limit t m ''factor'') m)) False)"
  using assms by (intro allowed.Attempt) auto

lemma wp_user_config:
  assumes "e1 \<notin> wrong_codes" and "e2 \<notin> wrong_codes"
    and "\<And>w' e. later i w w' \<Longrightarrow> e \<notin> wrong_codes \<Longrightarrow> Q (Inl e) w'"
    and "\<And>w' user. later i w w' \<Longrightarrow> u_id user = u \<Longrightarrow> wp (f user) cr i Q w'"
  shows "wp (Ask_user u False (\<lambda>user. case user of None \<Rightarrow> Raise e1
      | Some user \<Rightarrow> if P user then Raise e1 else Ask_config (\<lambda>config. if \<not> cf_enable config then Raise e2 else f user))) cr i Q w"
proof -
  have "wp (if P user then Raise e1 else Ask_config (\<lambda>config. if \<not> cf_enable config then Raise e2 else f user)) cr i Q w1"
    if "later i w w1" "u_id user = u" for w1 user
    using that assms by (auto intro!: assms(3, 4) intro: later_trans)
  then show ?thesis
    using assms(1, 3) by (auto split: option.split)
qed

lemma wp_attempt:
  assumes "seen w a" and "get_slot s (mfa_of a) = Some c" and "valid_challenge cr token kinds t' a c"
    and "au_id a = u_id user"
    and "\<And>w' e. grows w w' \<Longrightarrow> e \<notin> wrong_codes \<Longrightarrow> Q (Inl e) w'"
    and "\<And>w' l. grows w w' \<Longrightarrow> loaded_ok l w' \<Longrightarrow> attempted cr i token kinds l w' \<Longrightarrow> ld_slot l = s \<Longrightarrow> Q (Inr l) w'"
    and "\<And>w'. grows w w' \<Longrightarrow> wp retry cr i Q w'"
  shows "wp (if mc_attempts c \<ge> 5 then Raise (HTTPException 429 ''Too many codes. Please sign in again.'')
      else Clock (\<lambda>now. let limit = current_limit now (mfa_of a) ''factor''
        in if ml_count limit \<ge> 10 then Raise too_many
           else (let c' = c\<lparr>mc_attempts := mc_attempts c + 1\<rparr>
             in Commit a (Save (set_slot s c' (count_limit ''factor'' limit (mfa_of a))) False) (\<lambda>updated.
               case updated of
                 Some a' \<Rightarrow> Return \<lparr>ld_user = user, ld_auth = a', ld_mfa = mfa_of a', ld_challenge = c', ld_slot = s\<rparr>
               | None \<Rightarrow> retry)))) cr i Q w"
proof (simp add: Let_def bind_case del: after.simps, intro allI impI conjI)
  assume "5 \<le> mc_attempts c"
  show "Q (Inl (HTTPException 429 ''Too many codes. Please sign in again.'')) w"
    by (rule assms(5)) (simp_all add: wrong_simps)
next
  fix w1 assume "\<not> 5 \<le> mc_attempts c" and w1: "later i w w1"
  then have attempts: "mc_attempts c < 5" by simp
  show "Q (Inl too_many) w1"
    by (rule assms(5) [OF later_grows [OF w1]]) (simp add: wrong_simps)
  fix w2 assume count: "\<not> 10 \<le> ml_count (current_limit (mw_now w1) (mfa_of a) ''factor'')" and w2: "later i w1 w2"
  have g: "grows w w2" using w1 w2 grows_trans later_grows by blast
  show seen: "seen w2 a" by (rule grows_seen [OF g assms(1)])
  show "allowed cr (mw_now w2) (mfa_of a) (Save (set_slot s (c\<lparr>mc_attempts := mc_attempts c + 1\<rparr>)
      (count_limit ''factor'' (current_limit (mw_now w1) (mfa_of a) ''factor'') (mfa_of a))) False)"
    using assms(2) attempts count w2 by (intro allowed_attempt) (auto simp: later_def)
  show "wp retry cr i Q w2" by (rule assms(7) [OF g])
  fix uuid stamp
  let ?c' = "c\<lparr>mc_attempts := mc_attempts c + 1\<rparr>"
  let ?ch = "Save (set_slot s ?c' (count_limit ''factor'' (current_limit (mw_now w1) (mfa_of a) ''factor'') (mfa_of a))) False"
  let ?a = "after uuid stamp ?ch a"
  show "Q (Inr \<lparr>ld_user = user, ld_auth = ?a, ld_mfa = mfa_of ?a, ld_challenge = ?c', ld_slot = s\<rparr>) (written i a ?ch ?a w2)"
  proof (rule assms(6))
    show "grows w (written i a ?ch ?a w2)" by (rule grows_trans [OF g grows_written])
    show "attempted cr i token kinds \<lparr>ld_user = user, ld_auth = ?a, ld_mfa = mfa_of ?a, ld_challenge = ?c', ld_slot = s\<rparr>
        (written i a ?ch ?a w2)"
      by (rule attempted_written [OF assms(2, 3) attempts])
  qed (simp_all add: loaded_ok_def assms(4) del: after.simps)
qed

lemma wp_load_challenge_loop:
  assumes "\<And>w' l. grows w w' \<Longrightarrow> loaded_ok l w' \<Longrightarrow> (attempt \<Longrightarrow> attempted cr i token kinds l w') \<Longrightarrow>
      (Replace \<notin> set kinds \<Longrightarrow> ld_slot l = Login) \<Longrightarrow> Q (Inr l) w'"
    and "\<And>w' e. grows w w' \<Longrightarrow> e \<notin> wrong_codes \<Longrightarrow> Q (Inl e) w'"
  shows "grows w w' \<Longrightarrow> seen w' a \<Longrightarrow> au_id a = u \<Longrightarrow> wp (load_challenge_loop cr token kinds attempt u n a) cr i Q w'"
proof (induction n arbitrary: w' a)
  case 0
  then show ?case using assms(2) by (simp add: wrong_simps)
next
  case (Suc n)
  note fails = assms(2)
  define s where "s = challenge_slot cr token kinds (mfa_of a)"
  have s: "Replace \<notin> set kinds \<Longrightarrow> s = Login" by (simp add: s_def challenge_slot_Login)
  have on: "grows w w2" "seen w2 a" if "later i w' w2" for w2
    using that Suc.prems by (blast intro: grows_trans later_grows grows_seen)+
  show ?case
  proof (cases "get_slot s (mfa_of a)")
    case None
    then show ?thesis using fails [OF Suc.prems(1)] by (simp add: s_def [symmetric] wrong_simps)
  next
    case (Some c)
    show ?thesis
      unfolding load_challenge_loop.simps Let_def s_def [symmetric] Some option.simps wp.simps(6)
    proof (intro allI impI, goal_cases)
      case (1 w2)
      show ?case
      proof (cases "valid_challenge cr token kinds (mw_now w2) a c")
        case False
        then show ?thesis using fails [OF on(1) [OF 1]] by (simp add: wrong_simps)
      next
        case valid: True
        show ?thesis
        proof (simp only: valid simp_thms if_False, rule wp_user_config, goal_cases)
          case (3 w3 e)
          then show ?case using fails on(1) [OF later_trans [OF 1]] by blast
        next
          case (4 w3 user)
          note w3 = on [OF later_trans [OF 1 4(1)]]
          have id: "au_id a = u_id user" using Suc.prems(3) 4(2) by simp
          show ?case
          proof (cases attempt)
            case False
            then show ?thesis
              using assms(1) [OF w3(1), of "\<lparr>ld_user = user, ld_auth = a, ld_mfa = mfa_of a, ld_challenge = c, ld_slot = s\<rparr>"]
                w3(2) id Some s by (simp add: loaded_ok_def)
          next
            case True
            have "wp (bind_task (get_auth u) (load_challenge_loop cr token kinds attempt u n)) cr i Q w4"
              if "grows w3 w4" for w4
            proof -
              have g: "grows w w5" if "later i w4 w5" for w5
                using w3(1) \<open>grows w3 w4\<close> later_grows [OF that] by (blast intro: grows_trans)
              show ?thesis
                unfolding wp_bind by (rule wp_get_auth) (simp_all add: Suc.IH [OF g] fails [OF g])
            qed
            moreover have "Q (Inr l) w4"
              if "grows w3 w4" "loaded_ok l w4" "attempted cr i token kinds l w4" "ld_slot l = s" for w4 l
              by (rule assms(1) [OF grows_trans [OF w3(1) that(1)] that(2)]) (use that(3, 4) s in auto)
            moreover have "Q (Inl e) w4" if "grows w3 w4" "e \<notin> wrong_codes" for w4 e
              by (rule fails [OF grows_trans [OF w3(1) that(1)] that(2)])
            ultimately show ?thesis
              using True
              by (simp only: simp_thms if_False, intro wp_attempt [OF w3(2) Some valid id, unfolded Let_def])
          qed
        qed (simp_all add: wrong_simps)
      qed
    qed
  qed
qed

lemma wp_load_challenge:
  assumes "\<And>w' l. grows w w' \<Longrightarrow> loaded_ok l w' \<Longrightarrow> (attempt \<Longrightarrow> attempted cr i token kinds l w') \<Longrightarrow>
      (Replace \<notin> set kinds \<Longrightarrow> ld_slot l = Login) \<Longrightarrow> Q (Inr l) w'"
    and "\<And>w' e. grows w w' \<Longrightarrow> e \<notin> wrong_codes \<Longrightarrow> Q (Inl e) w'"
  shows "wp (load_challenge cr token kinds attempt) cr i Q w"
proof -
  define u where "u = takeWhile (\<lambda>c. c \<noteq> CHR ''.'') token"
  have "wp (bind_task (get_auth u) (load_challenge_loop cr token kinds attempt u 5)) cr i Q w"
    unfolding wp_bind
    by (rule wp_get_auth) (auto intro!: wp_load_challenge_loop [OF assms] simp: assms(2) later_grows)
  then show ?thesis
    using assms(2) [OF grows_refl] by (simp add: load_challenge_def Let_def u_def [symmetric] wrong_simps)
qed

lemma matching_step_right:
  assumes "matching_step cr now secret code last_step = Some step"
  shows "right_step cr secret code last_step now step"
proof -
  have "length code = 6" "list_all is_ascii_digit code"
    and found: "List.find (\<lambda>step. step > last_step \<and> cr_totp cr secret step = code)
      [now div 30, now div 30 - 1, now div 30 + 1] = Some step"
    using assms by (auto simp: matching_step_def Let_def split: if_splits)
  with find_Some_in [OF found] show ?thesis by (auto simp: right_step_def)
qed

lemma wp_decrypt_secret:
  assumes "\<And>s. cr_open cr sealed = Some s \<Longrightarrow> Q (Inr s) w" and "\<And>e. e \<notin> wrong_codes \<Longrightarrow> Q (Inl e) w"
  shows "wp (decrypt_secret cr sealed) cr' i Q w"
  using assms by (auto simp: decrypt_secret_def wrong_simps split: option.split)

lemma wp_random_codes:
  "(\<And>w' codes. later i w w' \<Longrightarrow> Q (Inr codes) w') \<Longrightarrow> wp (random_codes n) cr i Q w"
proof (induction n arbitrary: w Q)
  case (Suc n)
  show ?case
    by (simp add: wp_bind, intro allI impI Suc.IH) (simp, blast intro: Suc.prems later_trans)
qed simp

lemma wp_recovery_codes:
  assumes "\<And>w' codes. later i w w' \<Longrightarrow> Q (Inr (codes, map (cr_hash cr) codes)) w'"
  shows "wp (recovery_codes cr) cr i Q w"
  using assms by (auto simp: recovery_codes_def wp_bind intro!: wp_random_codes)

lemma wp_new_challenge:
  assumes "\<And>w' token c. later i w w' \<Longrightarrow> mc_attempts c = 0 \<Longrightarrow> Q (Inr (token, c)) w'"
    and "\<And>w' e. later i w w' \<Longrightarrow> e \<notin> wrong_codes \<Longrightarrow> Q (Inl e) w'"
  shows "wp (new_challenge cr a kind auth_method auth_time oauth provider) cr i Q w"
  by (simp add: new_challenge_def Let_def, intro allI impI conjI)
    (rule assms(2) [OF later_trans], assumption+, simp add: wrong_simps,
     rule assms(1) [OF later_trans], assumption+, simp)

lemma wp_challenge_response:
  assumes "\<And>w' k n. later i w w' \<Longrightarrow> Q (Inr (Challenged k token n)) w'"
  shows "wp (challenge_response token c) cr i Q w"
  using assms by (simp add: challenge_response_def)

lemma wp_consume_factor:
  assumes "\<And>w' t m'. later i w w' \<Longrightarrow> t \<le> mw_now w' \<Longrightarrow> takes_factor cr code recovery t m m' \<Longrightarrow> Q (Inr m') w'"
    and "\<And>w' e. later i w w' \<Longrightarrow> Q (Inl e) w'"
  shows "wp (consume_factor cr m code recovery) cr i Q w"
proof (cases recovery)
  case True
  then show ?thesis
    using assms(1) [OF later_refl order_refl] assms(2) [OF later_refl]
    by (simp add: consume_factor_def Let_def takes_factor_def)
next
  case False
  show ?thesis
  proof (cases "present (md_secret m)")
    case True
    then obtain sealed where sealed: "md_secret m = Some sealed" by (auto simp: present_def split: option.splits)
    have "wp (case matching_step cr (mw_now w') secret (strip code) (md_last_step m) of
          None \<Rightarrow> Raise invalid_code | Some step \<Rightarrow> Return (m\<lparr>md_last_step := step\<rparr>)) cr i Q w'"
      if "later i w w'" "cr_open cr sealed = Some secret" for w' secret
      using False sealed that assms(1) [OF that(1) order_refl] assms(2) [OF that(1)]
      by (auto simp: takes_factor_def dest: matching_step_right split: option.split)
    then show ?thesis
      using False True sealed assms(2) [OF later_refl]
      by (auto simp: consume_factor_def wp_bind intro!: wp_decrypt_secret)
  qed (use False assms(2) [OF later_refl] in \<open>simp add: consume_factor_def\<close>)
qed

lemma wp_create_session:
  assumes "\<And>w' cl. later i w w' \<Longrightarrow> sc_id cl = u \<Longrightarrow> sc_stamp cl = au_stamp a \<Longrightarrow> sc_verified cl = verified \<Longrightarrow>
      sc_method cl = source \<Longrightarrow> Q (Inr cl) w'"
    and "\<And>w' e. later i w w' \<Longrightarrow> e \<notin> wrong_codes \<Longrightarrow> Q (Inl e) w'"
  shows "wp (create_session_response u source a verified auth_time) cr i Q w"
  unfolding create_session_response_def wp_bind
  by (rule wp_get_auth) (auto intro!: assms intro: later_trans simp: wrong_simps)

subsection \<open>What the requests promise\<close>

text \<open>
  A verified login: one write counted the attempt on the challenge of the presented token, the next
  write of the row took the factor from it, and the session carries the stamp of that row.
\<close>

definition takes :: "crypto \<Rightarrow> string \<Rightarrow> bool \<Rightarrow> mfa_write \<Rightarrow> bool" where
  "takes cr code recovery y \<longleftrightarrow> (\<exists>t m'. t \<le> wr_time y \<and> takes_factor cr code recovery t (mfa_of (wr_old y)) m' \<and>
     wr_change y = Save (m'\<lparr>md_login := None\<rparr>) False)"

definition verified_login :: "crypto \<Rightarrow> nat \<Rightarrow> string \<Rightarrow> string \<Rightarrow> bool \<Rightarrow> session_claims \<Rightarrow> mfa_world \<Rightarrow> bool" where
  "verified_login cr i token code recovery cl w \<longleftrightarrow>
     (\<exists>x y c. Wrote x \<in> set (mw_log w) \<and> Wrote y \<in> set (mw_log w) \<and> attempt_on cr i token [Verify] Login x c \<and>
        wr_task y = i \<and> wr_old y = wr_new x \<and> takes cr code recovery y \<and>
        sc_id cl = au_id (wr_new y) \<and> sc_stamp cl = au_stamp (wr_new y) \<and> sc_verified cl \<and> sc_method cl = mc_method c)"

definition enrols :: "crypto \<Rightarrow> string \<Rightarrow> mfa_challenge \<Rightarrow> string list \<Rightarrow> mfa_write \<Rightarrow> bool" where
  "enrols cr code c codes y \<longleftrightarrow> (\<exists>t sealed secret step. t \<le> wr_time y \<and> mc_secret c = Some sealed \<and>
     cr_open cr sealed = Some secret \<and> right_step cr secret (strip code) (-1) t step \<and>
     wr_change y = Save (enrolled (Some sealed) step (map (cr_hash cr) codes) (mfa_of (wr_old y))) True)"

definition confirmed_enrollment ::
    "crypto \<Rightarrow> nat \<Rightarrow> string \<Rightarrow> string \<Rightarrow> session_claims \<Rightarrow> string list \<Rightarrow> mfa_world \<Rightarrow> bool" where
  "confirmed_enrollment cr i token code cl codes w \<longleftrightarrow>
     (\<exists>x y c s. Wrote x \<in> set (mw_log w) \<and> Wrote y \<in> set (mw_log w) \<and> attempt_on cr i token [Enroll, Replace] s x c \<and>
        mc_kind c = Enroll \<and> wr_task y = i \<and> wr_old y = wr_new x \<and> enrols cr code c codes y \<and>
        sc_id cl = au_id (wr_new y) \<and> sc_stamp cl = au_stamp (wr_new y) \<and> sc_verified cl \<and> sc_method cl = mc_method c)"

text \<open>
  A write that accepts the factor \<open>code\<close>: of a login, of a replacement or for new recovery codes; and
  the first use of a one-time password, which may also be the enrolment of its authenticator.
\<close>

definition accepts :: "crypto \<Rightarrow> string \<Rightarrow> bool \<Rightarrow> mfa_write \<Rightarrow> bool" where
  "accepts cr code recovery y \<longleftrightarrow> (\<exists>t m c hashes. t \<le> wr_time y \<and> takes_factor cr code recovery t (mfa_of (wr_old y)) m \<and>
     (wr_change y = Save (m\<lparr>md_login := None\<rparr>) False \<or> wr_change y = Save (m\<lparr>md_manage := Some c\<rparr>) False \<or>
      wr_change y = Save (clear_challenges (m\<lparr>md_recovery := hashes\<rparr>)) True))"

definition uses :: "crypto \<Rightarrow> string \<Rightarrow> bool \<Rightarrow> mfa_write \<Rightarrow> bool" where
  "uses cr code recovery y \<longleftrightarrow> accepts cr code recovery y \<or> \<not> recovery \<and> (\<exists>c codes. enrols cr code c codes y)"

text \<open>Request \<open>i\<close> has used the factor.\<close>

definition used :: "crypto \<Rightarrow> nat \<Rightarrow> string \<Rightarrow> bool \<Rightarrow> mfa_world \<Rightarrow> bool" where
  "used cr i code recovery w \<longleftrightarrow> (\<exists>y. Wrote y \<in> set (mw_log w) \<and> wr_task y = i \<and> uses cr code recovery y)"

lemma uses_intros:
  "t \<le> wr_time y \<Longrightarrow> takes_factor cr code recovery t (mfa_of (wr_old y)) m \<Longrightarrow>
     wr_change y = Save (m\<lparr>md_manage := Some c\<rparr>) False \<Longrightarrow> uses cr code recovery y"
  "t \<le> wr_time y \<Longrightarrow> takes_factor cr code recovery t (mfa_of (wr_old y)) m \<Longrightarrow>
     wr_change y = Save (clear_challenges (m\<lparr>md_recovery := hashes\<rparr>)) True \<Longrightarrow> uses cr code recovery y"
  unfolding uses_def accepts_def by blast+

lemma used_grows: "used cr i code recovery w \<Longrightarrow> grows w w' \<Longrightarrow> used cr i code recovery w'"
  by (auto simp: used_def grows_def)

lemma takes_accepts: "takes cr code recovery y \<Longrightarrow> accepts cr code recovery y"
  by (auto simp: takes_def accepts_def)

lemma verified_login_used: "verified_login cr i token code recovery cl w \<Longrightarrow> used cr i code recovery w"
  by (auto simp: verified_login_def used_def uses_def intro: takes_accepts)

lemma confirmed_enrollment_used: "confirmed_enrollment cr i token code cl codes w \<Longrightarrow> used cr i code False w"
  unfolding confirmed_enrollment_def used_def uses_def by blast

definition was_charged :: "nat \<Rightarrow> mfa_world \<Rightarrow> bool" where
  "was_charged i w \<longleftrightarrow> (\<exists>u. charged i u w)"

text \<open>The outcome of a request that takes no code, and of one that does.\<close>

definition unverified :: "mfa_reply \<Rightarrow> bool" where
  "unverified r = (case r of Session cl \<Rightarrow> \<not> sc_verified cl | Enrolled _ _ \<Rightarrow> False | _ \<Rightarrow> True)"

definition plain_outcome :: "mfa_reply result \<Rightarrow> bool" where
  "plain_outcome r = (case r of Inl e \<Rightarrow> e \<notin> wrong_codes | Inr reply \<Rightarrow> unverified reply)"

definition charged_outcome :: "nat \<Rightarrow> mfa_reply result \<Rightarrow> mfa_world \<Rightarrow> bool" where
  "charged_outcome i r w = (case r of Inl e \<Rightarrow> e \<in> wrong_codes \<longrightarrow> was_charged i w | Inr reply \<Rightarrow> was_charged i w)"

fun promise :: "crypto \<Rightarrow> nat \<Rightarrow> mfa_request \<Rightarrow> mfa_reply result \<Rightarrow> mfa_world \<Rightarrow> bool" where
  "promise cr i (Verify_login token code recovery) r w \<longleftrightarrow> charged_outcome i r w \<and>
     (\<forall>reply. r = Inr reply \<longrightarrow> (\<exists>cl. reply = Session cl \<and> verified_login cr i token code recovery cl w))"
| "promise cr i (Confirm_enrollment token code) r w \<longleftrightarrow> charged_outcome i r w \<and>
     (\<forall>reply. r = Inr reply \<longrightarrow> (\<exists>codes. reply = Codes codes) \<and> used cr i code False w \<or>
        (\<exists>cl codes. reply = Enrolled cl codes \<and> confirmed_enrollment cr i token code cl codes w))"
| "promise cr i (Manage u claims code recovery replace) r w \<longleftrightarrow> charged_outcome i r w \<and>
     (\<forall>reply. r = Inr reply \<longrightarrow> unverified reply \<and> used cr i code recovery w)"
| "promise cr i (Redeem token reset_token) r w \<longleftrightarrow> charged_outcome i r w \<and> (\<forall>reply. r = Inr reply \<longrightarrow> unverified reply)"
| "promise cr i q r w \<longleftrightarrow> plain_outcome r"

lemma login_grows:
  "verified_login cr i token code recovery cl w \<Longrightarrow> grows w w' \<Longrightarrow> verified_login cr i token code recovery cl w'"
  "confirmed_enrollment cr i token code cl codes w \<Longrightarrow> grows w w' \<Longrightarrow> confirmed_enrollment cr i token code cl codes w'"
  unfolding verified_login_def confirmed_enrollment_def grows_def by blast+

lemma charged_outcome_grows: "charged_outcome i r w \<Longrightarrow> grows w w' \<Longrightarrow> charged_outcome i r w'"
  by (auto simp: charged_outcome_def was_charged_def intro: charged_grows split: sum.splits)

lemma promise_grows:
  assumes "promise cr i q r w" and "grows w w'"
  shows "promise cr i q r w'"
proof -
  note grows = login_grows [OF _ assms(2)] charged_outcome_grows [OF _ assms(2)] used_grows [OF _ assms(2)]
  show ?thesis
  proof (cases q)
    case (Verify_login token code recovery)
    then show ?thesis using assms(1) by (auto intro: grows)
  next
    case (Confirm_enrollment token code)
    have "charged_outcome i r w'" using assms(1) Confirm_enrollment grows(3) by simp
    moreover have "(\<exists>codes. reply = Codes codes) \<and> used cr i code False w' \<or>
        (\<exists>cl codes. reply = Enrolled cl codes \<and> confirmed_enrollment cr i token code cl codes w')" if "r = Inr reply" for reply
      using assms(1) Confirm_enrollment that by (auto intro: grows)
    ultimately show ?thesis unfolding Confirm_enrollment by simp
  next
    case (Manage u claims code recovery replace)
    then show ?thesis using assms(1) by (auto intro: grows)
  next
    case (Redeem token reset_token)
    then show ?thesis using assms(1) by (auto intro: grows)
  qed (use assms(1) in simp_all)
qed

end
