(* ===== verification/MfaTasks.thy ===== *)
theory MfaTasks
  imports MfaRuns
begin

text \<open>
  Every request keeps its promise, however others interleave with it; and the invariant of the
  reachable worlds: rows are told apart by their revision and stamp, so that a commit succeeds only
  on the very row its request has read.
\<close>

subsection \<open>The requests\<close>

abbreviation plain :: "mfa_reply result \<Rightarrow> mfa_world \<Rightarrow> bool" where
  "plain \<equiv> \<lambda>r w. plain_outcome r"

lemma plain_outcome_simps [simp]:
  "plain_outcome (Inl e) \<longleftrightarrow> e \<notin> wrong_codes" "plain_outcome (Inr r) \<longleftrightarrow> unverified r"
  by (simp_all add: plain_outcome_def)

lemma unverified_simps [simp]:
  "unverified (Session cl) \<longleftrightarrow> \<not> sc_verified cl" "\<not> unverified (Enrolled cl codes)" "unverified (Challenged k t n)"
  "unverified Pending" "unverified (Setup s)" "unverified (Codes codes)" "unverified (Ticket s)" "unverified Changed"
  "unverified Unchanged"
  by (simp_all add: unverified_def)

lemma charged_outcome_simps [simp]:
  "charged_outcome i (Inl e) w \<longleftrightarrow> (e \<in> wrong_codes \<longrightarrow> was_charged i w)" "charged_outcome i (Inr r) w \<longleftrightarrow> was_charged i w"
  by (simp_all add: charged_outcome_def)

lemma later_seen: "later i w w' \<Longrightarrow> seen w a \<Longrightarrow> seen w' a"
  by (blast intro: grows_seen later_grows)

lemma wp_start_mfa_login:
  assumes "seen w a"
  shows "wp (start_mfa_login cr a auth_method oauth provider) cr i plain w"
proof (unfold start_mfa_login_def Let_def wp.simps wp_bind, intro allI impI, rule wp_new_challenge, goal_cases)
  case (1 w1 w2 token c)
  then have "seen w2 a" using assms by (blast intro: later_seen)
  then show ?case
    using 1(3)
    by (simp add: wp_bind, intro wp_save_mfa)
      (auto intro: later_seen allowed.Issue intro!: wp_challenge_response simp: wrong_simps simp del: after.simps)
qed (simp)

lemma wp_create_signin:
  assumes "\<And>a. given = Some a \<Longrightarrow> seen w a"
  shows "wp (create_signin_response cr user source given oauth provider) cr i plain w"
proof -
  have main: "wp (bind_task (get_auth (u_id user)) (\<lambda>current.
         if au_stamp current \<noteq> au_stamp a \<or> au_password current \<noteq> au_password a
         then Raise (HTTPException 409 ''Authentication changed. Please sign in again.'')
         else Ask_config (\<lambda>config.
           if cf_enable config \<and> u_role user \<notin> {''admin'', ''user''} then Return Pending
           else if is_mfa_required source config then start_mfa_login cr current source oauth provider
           else bind_task (create_session_response (u_id user) source current False None) (\<lambda>claims. Return (Session claims)))))
       cr i plain w'" for a w'
    unfolding wp_bind
    by (rule wp_get_auth)
      (auto simp: wrong_simps wp_bind intro!: wp_start_mfa_login wp_create_session intro: later_seen)
  show ?thesis
    unfolding create_signin_response_def wp_bind [of "case given of None \<Rightarrow> _ | Some a \<Rightarrow> _ a"]
    by (cases given) (simp_all only: option.case wp.simps sum.case main, rule wp_get_auth, simp_all only: sum.case main, simp)
qed

lemma wp_signin: "wp (signin cr limited email password) cr i plain w"
proof -
  have login: "wp (bind_task (authenticate_user cr email password) (\<lambda>authenticated.
             case authenticated of
               None \<Rightarrow> Raise (HTTPException 400 ''The email or password provided is incorrect. Please check for typos and try logging in again.'')
             | Some (u, a) \<Rightarrow> create_signin_response cr u ''password'' (Some a) None None)) cr i plain w'" for w' email
    by (auto simp: authenticate_user_def wp_bind wrong_simps intro!: wp_create_signin split: option.split)
  show ?thesis
    by (auto simp: signin_def wp_bind [of "if _ then _ else _"] wp_bind [of "limit_account _ _ _"] wrong_simps login
        intro!: wp_limit_account split: option.split)
qed

lemma wp_start_enrollment: "wp (start_mfa_enrollment cr token) cr i plain w"
proof (unfold start_mfa_enrollment_def wp_bind, rule wp_load_challenge, goal_cases)
  case (1 w' l)
  show ?case
  proof (cases "present (mc_secret (ld_challenge l))")
    case True
    then show ?thesis by (auto simp: wp_bind intro!: wp_decrypt_secret)
  next
    case False
    have "allowed cr now (mfa_of (ld_auth l))
        (Save (set_slot (ld_slot l) ((ld_challenge l)\<lparr>mc_secret := Some sealed\<rparr>) (ld_mfa l)) False)" for now sealed
    proof -
      have "ld_mfa l = mfa_of (ld_auth l)" "get_slot (ld_slot l) (mfa_of (ld_auth l)) = Some (ld_challenge l)"
        using 1(2) by (auto simp: loaded_ok_def)
      then show ?thesis using False by (simp add: allowed.Offer)
    qed
    then show ?thesis
      using 1(2) False
      by (auto simp: wp_bind loaded_ok_def wrong_simps simp del: after.simps split: option.split intro!: wp_save_mfa)
        (meson later_seen)
  qed
qed simp

lemma wp_reset_mfa: "wp (reset_mfa cr email reason) cr i plain w"
proof -
  have save: "wp (bind_task (save_mfa a (reset_data h t (mfa_of a)) True) (\<lambda>_. Return (Ticket r))) cr i plain w'"
    if "seen w' a" for w' a h t r
    using that by (auto simp: wp_bind simp del: after.simps intro!: wp_save_mfa allowed.Reset intro: later_seen)
  have main: "wp (Random (\<lambda>ticket. Clock (\<lambda>now.
           bind_task (save_mfa a (reset_data (cr_hash cr ticket) (now + 1800) (mfa_of a)) True)
             (\<lambda>_. Return (Ticket ticket))))) cr i plain w'" if "seen w' a" for w' a
    using that by (auto intro!: save intro: later_seen later_trans)
  show ?thesis
    using main
    by (auto simp: reset_mfa_def wp_bind [of "get_auth _"] wrong_simps reset_data_def split: option.split intro!: wp_get_auth)
qed

lemma wp_change_password: "wp (change_password u pw) cr i plain w"
  by (auto simp: change_password_def wrong_simps simp del: after.simps split: option.split intro: later_seen allowed.Password)

lemma wp_revoke_user_tokens: "wp (revoke_user_tokens u) cr i plain w"
  by (auto simp: revoke_user_tokens_def wrong_simps simp del: after.simps split: option.split intro: later_seen allowed.Revoked)

lemma was_charged_grows: "was_charged i w \<Longrightarrow> grows w w' \<Longrightarrow> was_charged i w'"
  by (auto simp: was_charged_def intro: charged_grows)

lemma was_charged_later: "was_charged i w \<Longrightarrow> later i w w' \<Longrightarrow> was_charged i w'"
  by (blast intro: was_charged_grows later_grows)

text \<open>After the attempt is counted only the kind of the answer matters.\<close>

lemma wp_charged: "wp t cr i Q w \<Longrightarrow> was_charged i w \<Longrightarrow> wp t cr i (\<lambda>r w. Q r w \<and> was_charged i w) w"
proof (induction t arbitrary: w)
  case (Commit a c k)
  show ?case
    unfolding wp.simps
  proof (intro allI impI conjI)
    fix w' assume w': "later i w w'"
    note commit = Commit.prems(1) [unfolded wp.simps, rule_format, OF w']
    have charged: "was_charged i w'" by (rule was_charged_later [OF Commit.prems(2) w'])
    show "seen w' a" "allowed cr (mw_now w') (mfa_of a) c" using commit by blast+
    show "wp (k None) cr i (\<lambda>r w. Q r w \<and> was_charged i w) w'"
      by (rule Commit.IH) (use commit charged in simp_all)
    show "wp (k (Some (after uuid stamp c a))) cr i (\<lambda>r w. Q r w \<and> was_charged i w) (written i a c (after uuid stamp c a) w')"
      for uuid stamp
      by (rule Commit.IH) (use commit was_charged_grows [OF charged grows_written] in simp_all)
  qed
qed (auto intro: was_charged_later)

abbreviation soft :: "mfa_reply result \<Rightarrow> mfa_world \<Rightarrow> bool" where
  "soft \<equiv> \<lambda>r w. \<forall>reply. r = Inr reply \<longrightarrow> unverified reply"

lemma wp_after_charge:
  assumes "wp t cr i P w" and "was_charged i w" and "\<And>r w. P r w \<Longrightarrow> charged_outcome i r w \<Longrightarrow> Q r w"
  shows "wp t cr i Q w"
  by (rule wp_mono [OF wp_charged [OF assms(1, 2)]]) (auto intro: assms(3) simp: charged_outcome_def split: sum.split)

lemma used_written:
  assumes "uses cr code recovery \<lparr>wr_task = i, wr_old = a, wr_change = c, wr_new = a', wr_time = mw_now w\<rparr>"
  shows "used cr i code recovery (written i a c a' w)"
  unfolding used_def using assms by (intro exI conjI) auto

lemma used_later: "used cr i code recovery w \<Longrightarrow> later i w w' \<Longrightarrow> used cr i code recovery w'"
  by (blast intro: used_grows later_grows)

lemma wp_manage: "wp (serve cr (Manage u claims code recovery replace)) cr i (promise cr i (Manage u claims code recovery replace)) w"
proof -
  let ?Q = "promise cr i (Manage u claims code recovery replace)"
  let ?used = "\<lambda>r w. \<forall>reply. r = Inr reply \<longrightarrow> unverified reply \<and> used cr i code recovery w"
  have factor: "wp (if replace
           then bind_task (new_challenge cr a Replace (sc_method claims) (sc_auth_time claims) None None) (\<lambda>(token, c).
             bind_task (save_mfa a (m\<lparr>md_manage := Some c\<rparr>) False) (\<lambda>_. challenge_response token c))
           else bind_task (recovery_codes cr) (\<lambda>(codes, hashes).
             bind_task (save_mfa a (clear_challenges (m\<lparr>md_recovery := hashes\<rparr>)) True) (\<lambda>_. Return (Codes codes))))
       cr i ?used w2"
    if a: "seen w2 a" and m: "t \<le> mw_now w2" "takes_factor cr code recovery t (mfa_of a) m" for w2 a m t
  proof -
    have now: "t \<le> mw_now w3" if "later i w2 w3" for w3 using m(1) that by (simp add: later_def)
    have a': "seen w3 a" if "later i w2 w3" for w3 by (rule later_seen [OF that a])
    have "wp (bind_task (save_mfa a (m\<lparr>md_manage := Some c\<rparr>) False) (\<lambda>_. challenge_response token c)) cr i ?used w3"
      if "later i w2 w3" and c: "mc_attempts c = 0" for w3 token c
      unfolding wp_bind
    proof (rule wp_save_mfa, goal_cases)
      case (1 w4)
      have "later i w2 w4" using that(1) 1 by (rule later_trans)
      then show ?case using a' allowed.Replacing [OF now m(2) c] by blast
    next
      case (2 w4 uuid stamp)
      let ?ch = "Save (m\<lparr>md_manage := Some c\<rparr>) False"
      have "t \<le> mw_now w4" using now later_trans [OF that(1) 2] by blast
      then have "used cr i code recovery (written i a ?ch (after uuid stamp ?ch a) w4)"
        using m(2) by (intro used_written uses_intros(1)) simp_all
      then show ?case
        unfolding sum.case by (intro wp_challenge_response) (auto dest: used_later)
    qed simp
    moreover have "wp (bind_task (save_mfa a (clear_challenges (m\<lparr>md_recovery := hashes\<rparr>)) True) (\<lambda>_. Return (Codes codes)))
        cr i ?used w3" if "later i w2 w3" for w3 codes hashes
      unfolding wp_bind
    proof (rule wp_save_mfa, goal_cases)
      case (1 w4)
      have "later i w2 w4" using that 1 by (rule later_trans)
      then show ?case using a' allowed.New_codes [OF now m(2)] by blast
    next
      case (2 w4 uuid stamp)
      let ?ch = "Save (clear_challenges (m\<lparr>md_recovery := hashes\<rparr>)) True"
      have "t \<le> mw_now w4" using now later_trans [OF that 2] by blast
      then have "used cr i code recovery (written i a ?ch (after uuid stamp ?ch a) w4)"
        using m(2) by (intro used_written uses_intros(2)) simp_all
      then show ?case by simp
    qed simp
    ultimately show ?thesis
      by (auto simp: wp_bind [of "new_challenge _ _ _ _ _ _ _"] wp_bind [of "recovery_codes _"]
          intro!: wp_new_challenge wp_recovery_codes)
  qed
  have "wp (bind_task (limit_account u ''factor'' (Some (sc_stamp claims))) (\<lambda>a.
         bind_task (consume_factor cr (mfa_of a) code recovery) (\<lambda>m. if replace
           then bind_task (new_challenge cr a Replace (sc_method claims) (sc_auth_time claims) None None) (\<lambda>(token, c).
             bind_task (save_mfa a (m\<lparr>md_manage := Some c\<rparr>) False) (\<lambda>_. challenge_response token c))
           else bind_task (recovery_codes cr) (\<lambda>(codes, hashes).
             bind_task (save_mfa a (clear_challenges (m\<lparr>md_recovery := hashes\<rparr>)) True) (\<lambda>_. Return (Codes codes))))))
       cr i ?Q w1" for w1
  proof (unfold wp_bind [of "limit_account _ _ _"], rule wp_limit_account, goal_cases)
    case (1 w2 a)
    show ?case
      unfolding sum.case
    proof (rule wp_after_charge)
      show "was_charged i w2" using 1(4) by (auto simp: was_charged_def)
      show "wp (bind_task (consume_factor cr (mfa_of a) code recovery) (\<lambda>m. if replace
           then bind_task (new_challenge cr a Replace (sc_method claims) (sc_auth_time claims) None None) (\<lambda>(token, c).
             bind_task (save_mfa a (m\<lparr>md_manage := Some c\<rparr>) False) (\<lambda>_. challenge_response token c))
           else bind_task (recovery_codes cr) (\<lambda>(codes, hashes).
             bind_task (save_mfa a (clear_challenges (m\<lparr>md_recovery := hashes\<rparr>)) True) (\<lambda>_. Return (Codes codes)))))
         cr i ?used w2"
        unfolding wp_bind [of "consume_factor _ _ _ _"]
        by (rule wp_consume_factor, unfold sum.case)
          (rule factor, use 1(2) in \<open>auto intro: later_seen\<close>)
    qed simp
  qed simp
  then show ?thesis
    by (simp add: manage_mfa_def wrong_simps)
qed

lemma later_now: "later i w w' \<Longrightarrow> t \<le> mw_now w \<Longrightarrow> t \<le> mw_now w'"
  by (simp add: later_def)

lemma attempted_was_charged: "attempted cr i token kinds l w \<Longrightarrow> was_charged i w"
  unfolding was_charged_def by (blast dest: attempted_charged)

lemma attempted_grows: "attempted cr i token kinds l w \<Longrightarrow> grows w w' \<Longrightarrow> attempted cr i token kinds l w'"
  by (auto simp: attempted_def grows_def)

lemma wp_redeem: "wp (serve cr (Redeem token reset_token)) cr i (promise cr i (Redeem token reset_token)) w"
proof (simp only: serve.simps redeem_mfa_reset_token_def wp_bind [of "load_challenge _ _ _ _"], rule wp_load_challenge, goal_cases)
  case (1 w1 l)
  have l: "seen w1 (ld_auth l)" "ld_mfa l = mfa_of (ld_auth l)" using 1(2) by (auto simp: loaded_ok_def)
  have save: "wp (bind_task (save_mfa (ld_auth l) ((ld_mfa l)\<lparr>md_ticket := None, md_login := Some c\<rparr>) False)
       (\<lambda>_. challenge_response new_token c)) cr i soft w3"
    if seen: "seen w3 (ld_auth l)" and t: "t \<le> mw_now w3" "valid_ticket cr t reset_token (ld_mfa l)" "mc_attempts c = 0"
    for w3 t new_token c
  proof -
    have "seen w4 (ld_auth l) \<and> allowed cr (mw_now w4) (mfa_of (ld_auth l))
        (Save ((ld_mfa l)\<lparr>md_ticket := None, md_login := Some c\<rparr>) False)" if "later i w3 w4" for w4
      using later_seen [OF that seen] allowed.Redeemed [OF later_now [OF that t(1)] t(2, 3)] by (simp add: l(2))
    then show ?thesis
      by (auto simp: wp_bind simp del: after.simps intro!: wp_save_mfa wp_challenge_response)
  qed
  show ?case
    unfolding sum.case
  proof (rule wp_after_charge)
    show "was_charged i w1" by (rule attempted_was_charged [OF 1(3)]) simp
    show "wp (Clock (\<lambda>now. if \<not> valid_ticket cr now reset_token (ld_mfa l)
       then Raise (HTTPException 401 ''Invalid or expired operator recovery token.'')
       else bind_task (new_challenge cr (ld_auth l) Enroll (mc_method (ld_challenge l)) (mc_auth_time (ld_challenge l))
                (mc_oauth (ld_challenge l)) (mc_provider (ld_challenge l))) (\<lambda>(new_token, c).
         bind_task (save_mfa (ld_auth l) ((ld_mfa l)\<lparr>md_ticket := None, md_login := Some c\<rparr>) False)
           (\<lambda>_. challenge_response new_token c)))) cr i soft w1"
      by (auto simp: wp_bind [of "new_challenge _ _ _ _ _ _ _"] intro!: wp_new_challenge save)
        (use l(1) in \<open>auto intro: later_seen later_trans later_now\<close>)
  qed simp
qed simp

lemma wp_verify_login:
  "wp (serve cr (Verify_login token code recovery)) cr i (promise cr i (Verify_login token code recovery)) w"
proof -
  let ?Q = "promise cr i (Verify_login token code recovery)"
  have fails: "?Q (Inl e) w'" if "was_charged i w'" for e w' using that by simp
  have login: "wp (bind_task (finish_login (l\<lparr>ld_auth := a\<rparr>)) (\<lambda>claims. Return (Session claims))) cr i ?Q w'"
    if y: "Wrote y \<in> set (mw_log w')" "wr_task y = i" "wr_old y = ld_auth l" "wr_new y = a" "takes cr code recovery y"
      and l: "attempted cr i token [Verify] l w'" "ld_slot l = Login" "au_id a = u_id (ld_user l)" for l a y w'
  proof (unfold finish_login_def wp_bind, rule wp_create_session, goal_cases)
    case (1 w2 cl)
    from l(1, 2) obtain x c where x: "Wrote x \<in> set (mw_log w')" "attempt_on cr i token [Verify] Login x c"
      "wr_new x = ld_auth l" "mc_method c = mc_method (ld_challenge l)"
      by (auto simp: attempted_def)
    have sub: "set (mw_log w') \<subseteq> set (mw_log w2)" using 1(1) by (auto simp: later_def)
    have "verified_login cr i token code recovery cl w2"
      unfolding verified_login_def
      by (intro exI [of _ x] exI [of _ y] exI [of _ c]) (use x y l(3) 1 sub in auto)
    moreover have "was_charged i w2"
      by (rule was_charged_later [OF attempted_was_charged [OF l(1)] 1(1)])
    ultimately show ?case by simp
  next
    case (2 w2 e)
    then show ?case by simp
  qed
  have save: "wp (bind_task (bind_task (save_mfa (ld_auth l) (m\<lparr>md_login := None\<rparr>) False) (\<lambda>updated. Return (l\<lparr>ld_auth := updated\<rparr>)))
        (\<lambda>l. bind_task (finish_login l) (\<lambda>claims. Return (Session claims)))) cr i ?Q w2"
    if l: "loaded_ok l w1" "attempted cr i token [Verify] l w1" "ld_slot l = Login"
      and m: "later i w1 w2" "t \<le> mw_now w2" "takes_factor cr code recovery t (ld_mfa l) m" for l w1 w2 t m
  proof (unfold wp_bind [of "bind_task _ _"] wp_bind [of "save_mfa _ _ _"], rule wp_save_mfa, goal_cases)
    case (1 w3)
    have "seen w3 (ld_auth l)" using l(1) m(1) 1 by (auto simp: loaded_ok_def intro: later_seen later_trans)
    moreover have "allowed cr (mw_now w3) (mfa_of (ld_auth l)) (Save (m\<lparr>md_login := None\<rparr>) False)"
      using m(2, 3) 1 l(1) by (intro allowed.Verified [of t]) (auto simp: later_def loaded_ok_def)
    ultimately show ?case by blast
  next
    case (2 w3 uuid stamp)
    let ?c = "Save (m\<lparr>md_login := None\<rparr>) False"
    let ?a = "after uuid stamp ?c (ld_auth l)"
    let ?y = "\<lparr>wr_task = i, wr_old = ld_auth l, wr_change = ?c, wr_new = ?a, wr_time = mw_now w3\<rparr>"
    have "takes cr code recovery ?y"
      using m(2, 3) 2 l(1) by (auto simp: takes_def later_def loaded_ok_def intro!: exI [of _ t])
    moreover have "attempted cr i token [Verify] l (written i (ld_auth l) ?c ?a w3)"
      using l(2) m(1) 2 by (blast intro: attempted_grows grows_trans grows_written later_grows)
    ultimately show ?case
      using l(1, 3) by (simp only: sum.case wp.simps, intro login [of ?y]) (auto simp: loaded_ok_def simp del: after.simps)
  next
    case (3 w3 e)
    then have "was_charged i w3"
      using l(2) m(1) by (blast intro: was_charged_later attempted_was_charged)
    then show ?case by simp
  qed
  show ?thesis
    unfolding serve.simps verify_mfa_challenge_def
  proof (subst wp_bind, subst wp_bind, rule wp_load_challenge, unfold sum.case, goal_cases)
    case (1 w1 l)
    have l: "attempted cr i token [Verify] l w1" "ld_slot l = Login" using 1(3, 4) by simp_all
    show ?case
    proof (subst wp_bind, rule wp_consume_factor, unfold sum.case, goal_cases)
      case (1 w2 t m)
      then show ?case
        using save [unfolded wp_bind [of "bind_task _ _"], OF _ l 1(1-3)] \<open>loaded_ok l w1\<close> by blast
    next
      case (2 w2 e)
      then show ?case by (intro fails was_charged_later [OF attempted_was_charged [OF l(1)]])
    qed
  qed simp
qed

lemma wp_confirm_enrollment:
  "wp (serve cr (Confirm_enrollment token code)) cr i (promise cr i (Confirm_enrollment token code)) w"
proof -
  let ?Q = "promise cr i (Confirm_enrollment token code)"
  let ?kinds = "[Enroll, Replace]"
  let ?last = "\<lambda>(l, codes). if mc_kind (ld_challenge l) = Replace then Return (Codes codes)
       else bind_task (finish_login l) (\<lambda>claims. Return (Enrolled claims codes))"
  have fails: "?Q (Inl e) w'" if "was_charged i w'" for e w' using that by simp
  have finish: "wp (?last (l\<lparr>ld_auth := a\<rparr>, codes)) cr i ?Q w'"
    if y: "Wrote y \<in> set (mw_log w')" "wr_task y = i" "wr_old y = ld_auth l" "wr_new y = a"
        "enrols cr code (ld_challenge l) codes y"
      and l: "attempted cr i token ?kinds l w'" "au_id a = u_id (ld_user l)" for l a y w' codes
  proof (cases "mc_kind (ld_challenge l) = Replace")
    case True
    have "used cr i code False w'" unfolding used_def uses_def using y(1,2,5) by blast
    then show ?thesis using True attempted_was_charged [OF l(1)] by simp
  next
    case False
    from l(1) obtain x c where x: "Wrote x \<in> set (mw_log w')" "attempt_on cr i token ?kinds (ld_slot l) x c"
      "wr_new x = ld_auth l" "mc_method c = mc_method (ld_challenge l)" "mc_kind c = mc_kind (ld_challenge l)"
      "mc_secret c = mc_secret (ld_challenge l)"
      by (auto simp: attempted_def)
    have kind: "mc_kind c = Enroll" using x(2, 5) False by (auto simp: attempt_on_def)
    have "wp (bind_task (finish_login (l\<lparr>ld_auth := a\<rparr>)) (\<lambda>claims. Return (Enrolled claims codes))) cr i ?Q w'"
    proof (unfold finish_login_def wp_bind, rule wp_create_session, goal_cases)
      case (1 w2 cl)
      have sub: "set (mw_log w') \<subseteq> set (mw_log w2)" using 1(1) by (auto simp: later_def)
      have "confirmed_enrollment cr i token code cl codes w2"
        unfolding confirmed_enrollment_def
        by (intro exI [of _ x] exI [of _ y] exI [of _ c] exI [of _ "ld_slot l"])
          (use x(1-4) y l(2) 1 sub kind in \<open>auto simp: enrols_def x(6)\<close>)
      moreover have "was_charged i w2"
        by (rule was_charged_later [OF attempted_was_charged [OF l(1)] 1(1)])
      ultimately show ?case by simp
    next
      case (2 w2 e)
      then show ?case by simp
    qed
    then show ?thesis using False by simp
  qed
  have save: "wp (bind_task (bind_task (save_mfa (ld_auth l)
        (enrolled (mc_secret (ld_challenge l)) step (map (cr_hash cr) codes) (ld_mfa l)) True)
        (\<lambda>updated. Return (l\<lparr>ld_auth := updated\<rparr>, codes))) ?last) cr i ?Q w2"
    if l: "loaded_ok l w1" "attempted cr i token ?kinds l w1" and w: "later i w1 w2" "t \<le> mw_now w2"
      and c: "mc_secret (ld_challenge l) = Some sealed" "cr_open cr sealed = Some secret"
        "right_step cr secret (strip code) (-1) t step" for l w1 w2 t codes step sealed secret
  proof (unfold wp_bind [of "bind_task _ _"] wp_bind [of "save_mfa _ _ _"], rule wp_save_mfa, goal_cases)
    case (1 w3)
    have "seen w3 (ld_auth l)" using l(1) w(1) 1 by (auto simp: loaded_ok_def intro: later_seen later_trans)
    moreover have "allowed cr (mw_now w3) (mfa_of (ld_auth l)) (Save
        (enrolled (mc_secret (ld_challenge l)) step (map (cr_hash cr) codes) (ld_mfa l)) True)"
      using allowed.Enrolled [OF _ c(1, 2) later_now [OF 1 w(2)] c(3)] l(1) c(1) by (auto simp: loaded_ok_def)
    ultimately show ?case by blast
  next
    case (2 w3 uuid stamp)
    let ?c = "Save (enrolled (mc_secret (ld_challenge l)) step (map (cr_hash cr) codes) (ld_mfa l)) True"
    let ?a = "after uuid stamp ?c (ld_auth l)"
    let ?y = "\<lparr>wr_task = i, wr_old = ld_auth l, wr_change = ?c, wr_new = ?a, wr_time = mw_now w3\<rparr>"
    have "enrols cr code (ld_challenge l) codes ?y"
      using w(2) 2 l(1) c unfolding enrols_def by (intro exI [of _ t] exI) (auto simp: later_def loaded_ok_def)
    moreover have "attempted cr i token ?kinds l (written i (ld_auth l) ?c ?a w3)"
      using l(2) w(1) 2 by (blast intro: attempted_grows grows_trans grows_written later_grows)
    ultimately show ?case
      using l(1) by (simp only: sum.case wp.simps, intro finish [of ?y]) (auto simp: loaded_ok_def simp del: after.simps)
  next
    case (3 w3 e)
    then have "was_charged i w3"
      using l(2) w(1) by (blast intro: was_charged_later attempted_was_charged)
    then show ?case by simp
  qed
  show ?thesis
    unfolding serve.simps confirm_mfa_enrollment_def
  proof (subst wp_bind, subst wp_bind, rule wp_load_challenge, unfold sum.case Let_def, goal_cases)
    case (1 w1 l)
    have l: "attempted cr i token ?kinds l w1" using 1(3) by simp
    have charged: "was_charged i w2" if "later i w1 w2" for w2
      by (rule was_charged_later [OF attempted_was_charged [OF l] that])
    show ?case
    proof (cases "present (mc_secret (ld_challenge l))")
      case False
      then show ?thesis using charged by simp
    next
      case True
      then obtain sealed where sealed: "mc_secret (ld_challenge l) = Some sealed" by (auto simp: present_def split: option.splits)
      show ?thesis
      proof (simp only: True not_True_eq_False if_False, simp only: sealed option.sel, subst wp_bind, intro wp_decrypt_secret, unfold sum.case wp.simps, goal_cases)
        case (1 secret)
        show ?case
        proof (intro allI impI)
          fix w2 assume w2: "later i w1 w2"
          show "wp (case matching_step cr (mw_now w2) secret (strip code) (-1) of
              None \<Rightarrow> Raise (HTTPException 401 ''Invalid code. Check your authenticator and try again.'')
            | Some step \<Rightarrow> bind_task (recovery_codes cr) (\<lambda>(codes, hashes).
                bind_task (save_mfa (ld_auth l) (enrolled (Some sealed) step hashes (ld_mfa l)) True) (\<lambda>updated.
                  Return (l\<lparr>ld_auth := updated\<rparr>, codes)))) cr i
            (\<lambda>r w'. case r of Inl e \<Rightarrow> ?Q (Inl e) w' | Inr x \<Rightarrow> wp (?last x) cr i ?Q w') w2"
          proof (cases "matching_step cr (mw_now w2) secret (strip code) (-1)")
            case None
            then show ?thesis using charged [OF w2] by simp
          next
            case (Some step)
            have "wp (bind_task (save_mfa (ld_auth l) (enrolled (Some sealed) step (map (cr_hash cr) codes) (ld_mfa l)) True)
                (\<lambda>updated. Return (l\<lparr>ld_auth := updated\<rparr>, codes))) cr i
              (\<lambda>r w'. case r of Inl e \<Rightarrow> ?Q (Inl e) w' | Inr x \<Rightarrow> wp (?last x) cr i ?Q w') w3"
              if w3: "later i w2 w3" for w3 codes
              using save [unfolded wp_bind [of "bind_task _ _"], OF \<open>loaded_ok l w1\<close> l later_trans [OF w2 w3]
                  later_now [OF w3 order_refl] sealed 1 matching_step_right [OF Some]]
              by (simp only: sealed)
            then show ?thesis
              unfolding Some option.case
              by (subst wp_bind, intro wp_recovery_codes) (simp only: sum.case prod.case)
          qed
        qed
      next
        case (2 e)
        then show ?case using charged [OF later_refl] by simp
      qed
    qed
  qed simp
qed

lemma wp_serve: "wp (serve cr q) cr i (promise cr i q) w"
proof -
  have "wp (serve cr q) cr i (promise cr i q) w"
    if "wp (serve cr q) cr i plain w" "\<And>r w. plain_outcome r \<Longrightarrow> promise cr i q r w"
    by (rule wp_mono [OF that(1)]) (rule that(2))
  then show ?thesis
    by (cases q)
      (simp_all only: wp_confirm_enrollment wp_verify_login wp_manage wp_redeem, simp_all add: wp_signin wp_create_signin [of None, simplified]
        wp_start_enrollment wp_reset_mfa wp_change_password wp_revoke_user_tokens)
qed

end
