(* ===== verification/MfaInv.thy ===== *)
theory MfaInv
  imports MfaTasks
begin

text \<open>
  The invariant of the reachable worlds. Rows are told apart by their revision and stamp, which are
  drawn afresh by every commit; so a commit succeeds only on the row its request has read, and the
  log replays as a serial execution.
\<close>

fun replay :: "(string \<Rightarrow> auth option) \<Rightarrow> mfa_event list \<Rightarrow> (string \<Rightarrow> auth option) option" where
  "replay s [] = Some s"
| "replay s (Created a # es) = (if s (au_id a) = None then replay (s(au_id a \<mapsto> a)) es else None)"
| "replay s (Removed u # es) = replay (s(u := None)) es"
| "replay s (Wrote x # es) =
     (if s (au_id (wr_old x)) = Some (wr_old x) then replay (s(au_id (wr_old x) \<mapsto> wr_new x)) es else None)"

lemma replay_append: "replay s (es @ fs) = Option.bind (replay s es) (\<lambda>s. replay s fs)"
proof (induction es arbitrary: s)
  case (Cons e es)
  then show ?case by (cases e) (simp_all del: fun_upd_apply)
qed simp

text \<open>The random strings a row holds.\<close>

definition names :: "auth \<Rightarrow> string set" where
  "names a = insert (au_id a) (set_option (revision_of a) \<union> set_option (au_stamp a))"

definition rows_ok :: "(nat \<Rightarrow> string) \<Rightarrow> mfa_world \<Rightarrow> bool" where
  "rows_ok uuid w \<longleftrightarrow>
     (\<forall>u a. map_of (mw_auths w) u = Some a \<longrightarrow> seen w a \<and> au_id a = u) \<and>
     (\<forall>a. seen w a \<longrightarrow> au_active a \<and> names a \<subseteq> uuid ` {..<mw_drawn w}) \<and>
     (\<forall>a b. seen w a \<and> seen w b \<and> au_id a = au_id b \<and> revision_of a = revision_of b \<and> au_stamp a = au_stamp b \<longrightarrow> a = b)"

text \<open>The ids of all accounts ever created, in order.\<close>

fun created_ids :: "mfa_event list \<Rightarrow> string list" where
  "created_ids [] = []"
| "created_ids (Created a # es) = au_id a # created_ids es"
| "created_ids (e # es) = created_ids es"

lemma created_ids_append [simp]: "created_ids (es @ fs) = created_ids es @ created_ids fs"
  by (induction es rule: created_ids.induct) simp_all

lemma created_ids_seen: "set (created_ids (mw_log w)) \<subseteq> au_id ` {a. seen w a}"
proof -
  have "u \<in> set (created_ids es) \<Longrightarrow> \<exists>a. u = au_id a \<and> Created a \<in> set es" for u es
    by (induction es rule: created_ids.induct) auto
  then show ?thesis unfolding seen_def by force
qed

definition log_ok_mfa :: "crypto \<Rightarrow> mfa_world \<Rightarrow> bool" where
  "log_ok_mfa cr w \<longleftrightarrow> replay Map.empty (mw_log w) = Some (map_of (mw_auths w)) \<and>
     distinct (created_ids (mw_log w)) \<and> (\<forall>a. Created a \<in> set (mw_log w) \<longrightarrow> au_mfa a = None) \<and>
     (\<forall>x. Wrote x \<in> set (mw_log w) \<longrightarrow> allowed cr (wr_time x) (mfa_of (wr_old x)) (wr_change x) \<and>
        (\<exists>uuid stamp. wr_new x = after uuid stamp (wr_change x) (wr_old x)))"

definition tasks_ok :: "crypto \<Rightarrow> mfa_world \<Rightarrow> bool" where
  "tasks_ok cr w \<longleftrightarrow> (\<forall>i < length (mw_tasks w). wp (snd (mw_tasks w ! i)) cr i (promise cr i (fst (mw_tasks w ! i))) w)"

definition mfa_ok :: "crypto \<Rightarrow> (nat \<Rightarrow> string) \<Rightarrow> mfa_world \<Rightarrow> bool" where
  "mfa_ok cr uuid w \<longleftrightarrow> rows_ok uuid w \<and> log_ok_mfa cr w \<and> tasks_ok cr w"

lemma mfa_okD:
  assumes "mfa_ok cr uuid w"
  shows "rows_ok uuid w" "log_ok_mfa cr w" "tasks_ok cr w"
  using assms by (simp_all only: mfa_ok_def)

lemma rows_okD:
  assumes "rows_ok uuid w"
  shows "map_of (mw_auths w) u = Some a \<Longrightarrow> seen w a \<and> au_id a = u"
    and "seen w a \<Longrightarrow> au_active a" and "seen w a \<Longrightarrow> names a \<subseteq> uuid ` {..<mw_drawn w}"
  using assms unfolding rows_ok_def by blast+

subsection \<open>Commits\<close>

lemma same_row_self: "au_active a \<Longrightarrow> same_row a a"
  by (simp add: same_row_def)

lemma rows_ok_unique:
  assumes "rows_ok uuid w" and "seen w a" and "map_of (mw_auths w) (au_id a) = Some row"
    and "revision_of row = revision_of a" and "au_stamp row = au_stamp a"
  shows "row = a"
  using assms unfolding rows_ok_def by metis

lemma commit_Some:
  assumes ok: "rows_ok uuid w" and seen: "seen w a"
    and committed: "commit r s a c (mw_auths w) = Some (auths, a')"
  shows "map_of (mw_auths w) (au_id a) = Some a \<and> a' = after r s c a \<and>
    map_of auths = (map_of (mw_auths w))(au_id a \<mapsto> after r s c a)"
proof (cases "map_of (mw_auths w) (au_id a)")
  case None
  then show ?thesis
    using committed by (cases c) (simp_all add: update_mfa_by_id_def update_user_password_by_id_def revoke_sessions_by_user_id_def)
next
  case (Some row)
  have row: "row = a" if "revision_of row = revision_of a" "au_stamp row = au_stamp a"
    by (rule rows_ok_unique [OF ok seen Some that])
  show ?thesis
    using committed Some row
    by (cases c)
      (auto simp: update_mfa_by_id_def update_user_password_by_id_def revoke_sessions_by_user_id_def same_row_def Let_def
        split: if_splits)
qed

text \<open>A committed row is new.\<close>

lemma after_names: "names (after r s c a) \<subseteq> insert r (insert s (names a))"
  by (cases c) (auto simp: names_def revision_of_def clear_mfa_challenges_def)

lemma after_fresh:
  assumes "r \<notin> names b" and "s \<notin> names b"
  shows "\<not> (revision_of b = revision_of (after r s c a) \<and> au_stamp b = au_stamp (after r s c a))"
  using assms by (cases c) (auto simp: names_def revision_of_def clear_mfa_challenges_def split: option.splits)

lemma fresh_uuid: "inj uuid \<Longrightarrow> n \<le> k \<Longrightarrow> uuid k \<notin> uuid ` {..<n}" for uuid :: "nat \<Rightarrow> string"
  by (auto dest: injD)

lemma seen_logged: "seen (logged e w) b \<longleftrightarrow> seen w b \<or> row_of e = Some b"
  by (auto simp: seen_def logged_def)

lemma seen_update [simp]:
  "seen (w\<lparr>mw_auths := x\<rparr>) b = seen w b" "seen (w\<lparr>mw_drawn := d\<rparr>) b = seen w b" "seen (w\<lparr>mw_now := now\<rparr>) b = seen w b"
  "seen (w\<lparr>mw_tasks := ts\<rparr>) b = seen w b" "seen (advance i t w) b = seen w b"
  by (simp_all add: seen_def advance_def)

lemma rows_ok_add:
  assumes ok: "rows_ok uuid w" and inj: "inj uuid" and id: "au_id a' = u" "au_active a'"
    and names: "names a' \<subseteq> uuid ` {..<mw_drawn w + 2}"
    and new: "\<And>b. seen w b \<Longrightarrow> \<not> (au_id b = au_id a' \<and> revision_of b = revision_of a' \<and> au_stamp b = au_stamp a')"
    and e: "row_of e = Some a'" and auths: "map_of auths = (map_of (mw_auths w))(u \<mapsto> a')"
  shows "rows_ok uuid (logged e (w\<lparr>mw_auths := auths, mw_drawn := mw_drawn w + 2\<rparr>))"
proof -
  have grow: "uuid ` {..<mw_drawn w} \<subseteq> uuid ` {..<mw_drawn w + 2}" by auto
  have seen: "seen (logged e (w\<lparr>mw_auths := auths, mw_drawn := mw_drawn w + 2\<rparr>)) b \<longleftrightarrow> seen w b \<or> b = a'" for b
    using e by (auto simp: seen_def logged_def)
  show ?thesis
    unfolding rows_ok_def seen
  proof (intro conjI allI impI, goal_cases)
    case (1 v b)
    then show ?case using ok auths by (auto simp: rows_ok_def logged_def split: if_splits)
  next
    case (2 v b)
    then show ?case using ok auths id(1) by (auto simp: rows_ok_def logged_def split: if_splits)
  next
    case (3 b)
    then show ?case using ok id(2) by (auto simp: rows_ok_def)
  next
    case (4 b)
    then have "names b \<subseteq> uuid ` {..<mw_drawn w + 2}"
      using ok names grow unfolding rows_ok_def by blast
    then show ?case by (simp add: logged_def)
  next
    case (5 b c)
    then show ?case using ok new unfolding rows_ok_def by metis
  qed
qed

lemma rows_ok_sub:
  assumes ok: "rows_ok uuid w" and auths: "map_of (mw_auths w') \<subseteq>\<^sub>m map_of (mw_auths w)" and d: "mw_drawn w \<le> mw_drawn w'"
    and seen: "\<And>b. seen w' b = seen w b"
  shows "rows_ok uuid w'"
  unfolding rows_ok_def seen
proof (intro conjI allI impI, goal_cases)
  case (1 u a)
  then have "map_of (mw_auths w) u = Some a" using auths by (auto simp: map_le_def dom_def)
  then show ?case using ok by (simp add: rows_ok_def)
next
  case (2 u a)
  then have "map_of (mw_auths w) u = Some a" using auths by (auto simp: map_le_def dom_def)
  then show ?case using ok by (simp add: rows_ok_def)
next
  case (3 a)
  then show ?case using ok by (simp add: rows_ok_def)
next
  case (4 a)
  then have "names a \<subseteq> uuid ` {..<mw_drawn w}" using ok by (simp add: rows_ok_def)
  moreover have "uuid ` {..<mw_drawn w} \<subseteq> uuid ` {..<mw_drawn w'}" using d by auto
  ultimately show ?case by blast
next
  case (5 a b)
  then show ?case using ok unfolding rows_ok_def by blast
qed

subsection \<open>Steps\<close>

lemma promise_later: "wp t cr i (promise cr j q) w \<Longrightarrow> later i w w' \<Longrightarrow> wp t cr i (promise cr j q) w'"
  by (rule wp_later) (blast intro: promise_grows later_grows)

lemma tasks_ok_others:
  assumes ok: "tasks_ok cr w" and tasks: "mw_tasks w' = (mw_tasks w)[i := (fst (mw_tasks w ! i), t)]"
    and later: "\<And>j. j \<noteq> i \<Longrightarrow> later j w w'"
    and t: "i < length (mw_tasks w) \<Longrightarrow> wp t cr i (promise cr i (fst (mw_tasks w ! i))) w'"
  shows "tasks_ok cr w'"
  unfolding tasks_ok_def
proof (intro allI impI)
  fix j assume j: "j < length (mw_tasks w')"
  show "wp (snd (mw_tasks w' ! j)) cr j (promise cr j (fst (mw_tasks w' ! j))) w'"
  proof (cases "j = i")
    case True
    then show ?thesis using j tasks t by simp
  next
    case False
    have "wp (snd (mw_tasks w ! j)) cr j (promise cr j (fst (mw_tasks w ! j))) w"
      using ok tasks j by (simp add: tasks_ok_def)
    from promise_later [OF this later [OF False]] show ?thesis using tasks False by simp
  qed
qed

lemma running_wp:
  assumes "tasks_ok cr w" and "running_task w i = Some t"
  shows "i < length (mw_tasks w)" "wp t cr i (promise cr i (fst (mw_tasks w ! i))) w"
  using assms by (auto simp: tasks_ok_def running_task_def split: if_splits)

text \<open>Steps that only advance one request.\<close>

lemma mfa_ok_advance:
  assumes ok: "mfa_ok cr uuid w" and t: "wp t cr i (promise cr i (fst (mw_tasks w ! i))) w"
    and d: "mw_drawn w \<le> d"
  shows "mfa_ok cr uuid (advance i t (w\<lparr>mw_drawn := d\<rparr>))"
proof -
  let ?w = "advance i t (w\<lparr>mw_drawn := d\<rparr>)"
  have later: "later j w ?w" for j
    by (simp add: later_def advance_def)
  have "tasks_ok cr ?w"
  proof (rule tasks_ok_others)
    show "tasks_ok cr w" using ok by (simp add: mfa_ok_def)
    show "mw_tasks ?w = (mw_tasks w)[i := (fst (mw_tasks w ! i), t)]" by (simp add: advance_def)
    show "wp t cr i (promise cr i (fst (mw_tasks w ! i))) ?w" by (rule promise_later [OF t later])
  qed (rule later)
  moreover have "rows_ok uuid ?w"
    by (rule rows_ok_sub [OF mfa_okD(1) [OF ok]]) (simp_all add: d advance_def seen_def)
  moreover have "log_ok_mfa cr ?w"
    using ok by (simp add: mfa_ok_def log_ok_mfa_def advance_def)
  ultimately show ?thesis by (simp add: mfa_ok_def)
qed

text \<open>Steps that leave the requests alone.\<close>

lemma tasks_ok_all:
  assumes ok: "tasks_ok cr w" and tasks: "mw_tasks w' = mw_tasks w" and later: "\<And>j. later j w w'"
  shows "tasks_ok cr w'"
  using ok promise_later [OF _ later] by (simp add: tasks_ok_def tasks)

lemma mfa_ok_arrive:
  assumes "mfa_ok cr uuid w"
  shows "mfa_ok cr uuid (w\<lparr>mw_tasks := mw_tasks w @ [(q, serve cr q)]\<rparr>)"
proof -
  let ?w = "w\<lparr>mw_tasks := mw_tasks w @ [(q, serve cr q)]\<rparr>"
  have later: "later j w ?w" for j by (simp add: later_def)
  have "tasks_ok cr ?w"
    unfolding tasks_ok_def
  proof (intro allI impI)
    fix i assume i: "i < length (mw_tasks ?w)"
    show "wp (snd (mw_tasks ?w ! i)) cr i (promise cr i (fst (mw_tasks ?w ! i))) ?w"
    proof (cases "i < length (mw_tasks w)")
      case True
      then have "wp (snd (mw_tasks w ! i)) cr i (promise cr i (fst (mw_tasks w ! i))) w"
        using mfa_okD(3) [OF assms] by (simp add: tasks_ok_def)
      from promise_later [OF this later] show ?thesis using True by (simp add: nth_append)
    next
      case False
      with i have "i = length (mw_tasks w)" by simp
      then show ?thesis by (simp add: wp_serve)
    qed
  qed
  moreover have "rows_ok uuid ?w"
    by (rule rows_ok_sub [OF mfa_okD(1) [OF assms]]) simp_all
  moreover have "log_ok_mfa cr ?w" using mfa_okD(2) [OF assms] by (simp add: log_ok_mfa_def)
  ultimately show ?thesis by (simp add: mfa_ok_def)
qed

lemma later_logged: "later j w (logged e (w\<lparr>mw_auths := auths, mw_drawn := d\<rparr>))"
  if "\<And>x. e = Wrote x \<Longrightarrow> wr_task x \<noteq> j"
  using that by (auto simp: later_def logged_def)

lemma mfa_ok_sign_up:
  fixes password :: string
  assumes ok: "mfa_ok cr uuid w" and inj: "inj uuid"
  defines "a \<equiv> insert_new_auth (uuid (mw_drawn w)) (uuid (Suc (mw_drawn w))) password"
  shows "mfa_ok cr uuid (logged (Created a)
      (w\<lparr>mw_auths := AList.update (au_id a) a (mw_auths w), mw_drawn := mw_drawn w + 2\<rparr>))"
proof -
  let ?w = "logged (Created a) (w\<lparr>mw_auths := AList.update (au_id a) a (mw_auths w), mw_drawn := mw_drawn w + 2\<rparr>)"
  have rows: "rows_ok uuid w" using ok by (simp add: mfa_ok_def)
  have fresh: "au_id b \<noteq> au_id a" if "seen w b" for b
  proof -
    have "au_id b \<in> uuid ` {..<mw_drawn w}" using rows_okD(3) [OF rows that] by (simp add: names_def)
    then show ?thesis
      using fresh_uuid [OF inj order_refl, of "mw_drawn w"] by (auto simp: a_def insert_new_auth_def)
  qed
  have "rows_ok uuid ?w"
  proof (rule rows_ok_add [OF rows inj, where a' = a and u = "au_id a"])
    show "names a \<subseteq> uuid ` {..<mw_drawn w + 2}"
      by (auto simp: names_def a_def insert_new_auth_def revision_of_def)
  qed (use fresh in \<open>simp_all add: a_def insert_new_auth_def\<close>)
  note rows' = this
  have "map_of (mw_auths w) (au_id a) = None"
    using rows_okD(1) [OF rows] fresh by (meson not_Some_eq)
  moreover have "au_id a \<notin> set (created_ids (mw_log w))"
  proof
    assume "au_id a \<in> set (created_ids (mw_log w))"
    then obtain b where "seen w b" "au_id a = au_id b" using created_ids_seen by fast
    with fresh [of b] show False by simp
  qed
  moreover have "au_mfa a = None" by (simp add: a_def insert_new_auth_def)
  ultimately have "log_ok_mfa cr ?w"
    using mfa_okD(2) [OF ok] by (simp add: log_ok_mfa_def logged_def replay_append)
  moreover note rows'
  moreover have "tasks_ok cr ?w"
    by (rule tasks_ok_all [OF mfa_okD(3) [OF ok]], simp add: logged_def, rule later_logged) simp
  ultimately show ?thesis by (simp add: mfa_ok_def)
qed

lemma mfa_ok_remove:
  assumes ok: "mfa_ok cr uuid w"
  shows "mfa_ok cr uuid (logged (Removed u) (w\<lparr>mw_auths := AList.delete u (mw_auths w)\<rparr>))"
proof -
  let ?w = "logged (Removed u) (w\<lparr>mw_auths := AList.delete u (mw_auths w)\<rparr>)"
  have "rows_ok uuid ?w"
    by (rule rows_ok_sub [OF mfa_okD(1) [OF ok]])
      (auto simp: logged_def seen_def map_le_def delete_conv' split: if_splits)
  moreover have "log_ok_mfa cr ?w"
    using mfa_okD(2) [OF ok] by (simp add: log_ok_mfa_def logged_def replay_append AList.delete_conv' fun_eq_iff)
  moreover have "tasks_ok cr ?w"
    by (rule tasks_ok_all [OF mfa_okD(3) [OF ok]]) (simp_all add: logged_def later_def)
  ultimately show ?thesis by (simp add: mfa_ok_def)
qed

lemma mfa_ok_written:
  assumes ok: "mfa_ok cr uuid w" and inj: "inj uuid" and run: "running_task w i = Some (Commit a c k)"
    and committed: "commit (uuid (mw_drawn w)) (uuid (Suc (mw_drawn w))) a c (mw_auths w) = Some (auths, a')"
  shows "mfa_ok cr uuid (advance i (k (Some a'))
      (logged (Wrote \<lparr>wr_task = i, wr_old = a, wr_change = c, wr_new = a', wr_time = mw_now w\<rparr>)
        (w\<lparr>mw_auths := auths, mw_drawn := mw_drawn w + 2\<rparr>)))"
proof -
  let ?r = "uuid (mw_drawn w)" and ?s = "uuid (Suc (mw_drawn w))"
  let ?e = "Wrote \<lparr>wr_task = i, wr_old = a, wr_change = c, wr_new = a', wr_time = mw_now w\<rparr>"
  let ?w1 = "logged ?e (w\<lparr>mw_auths := auths, mw_drawn := mw_drawn w + 2\<rparr>)"
  let ?w = "advance i (k (Some a')) ?w1"
  have rows: "rows_ok uuid w" by (rule mfa_okD(1) [OF ok])
  from running_wp(2) [OF mfa_okD(3) [OF ok] run]
  have seen: "seen w a" and allowed: "allowed cr (mw_now w) (mfa_of a) c"
    and cont: "\<And>r s. wp (k (Some (after r s c a))) cr i (promise cr i (fst (mw_tasks w ! i))) (written i a c (after r s c a) w)"
    by (simp_all del: after.simps)
  from commit_Some [OF rows seen committed]
  have row: "map_of (mw_auths w) (au_id a) = Some a" "a' = after ?r ?s c a" "map_of auths = (map_of (mw_auths w))(au_id a \<mapsto> a')"
    by auto
  have fresh: "?r \<notin> names b" "?s \<notin> names b" if "seen w b" for b
    using rows_okD(3) [OF rows that] fresh_uuid [OF inj order_refl] fresh_uuid [OF inj le_SucI [OF order_refl]] by blast+
  have "rows_ok uuid ?w1"
  proof (rule rows_ok_add [OF rows inj, where a' = a' and u = "au_id a"])
    have "names a \<subseteq> uuid ` {..<mw_drawn w + 2}" using rows_okD(3) [OF rows seen] by force
    then show "names a' \<subseteq> uuid ` {..<mw_drawn w + 2}"
      using after_names [of ?r ?s c a] by (auto simp: row(2))
    show "\<not> (au_id b = au_id a' \<and> revision_of b = revision_of a' \<and> au_stamp b = au_stamp a')" if "seen w b" for b
      using after_fresh [OF fresh [OF that]] by (simp add: row(2) del: after.simps)
  qed (simp_all add: row rows_okD(2) [OF rows seen] del: after.simps)
  then have "rows_ok uuid ?w"
    by (rule rows_ok_sub) (simp_all add: advance_def seen_def)
  moreover have "log_ok_mfa cr ?w"
    using mfa_okD(2) [OF ok] row allowed
    by (auto simp: log_ok_mfa_def logged_def advance_def replay_append simp del: after.simps fun_upd_apply)
  moreover have "tasks_ok cr ?w"
  proof (rule tasks_ok_others [OF mfa_okD(3) [OF ok]])
    show "mw_tasks ?w = (mw_tasks w)[i := (fst (mw_tasks w ! i), k (Some a'))]"
      by (simp add: advance_def logged_def)
    show "later j w ?w" if "j \<noteq> i" for j
      using that by (auto simp: later_def advance_def logged_def)
    have "later i (written i a c a' w) ?w"
      by (simp add: later_def advance_def logged_def)
    then show "wp (k (Some a')) cr i (promise cr i (fst (mw_tasks w ! i))) ?w"
      using promise_later [OF cont] row(2) by blast
  qed
  ultimately show ?thesis by (simp add: mfa_ok_def)
qed

theorem mfa_step_ok:
  assumes step: "mfa_step cr uuid w w'" and ok: "mfa_ok cr uuid w" and inj: "inj uuid"
  shows "mfa_ok cr uuid w'"
proof -
  have advanced: "mfa_ok cr uuid (advance i t w)"
    if "wp t cr i (promise cr i (fst (mw_tasks w ! i))) w" for i t
    using mfa_ok_advance [OF ok that order_refl] by simp
  note run = running_wp(2) [OF mfa_okD(3) [OF ok]]
  from step show ?thesis
  proof cases
    case (Arrive q)
    then show ?thesis using mfa_ok_arrive [OF ok] by simp
  next
    case (Tick now)
    have later: "later j w w'" for j using Tick by (simp add: later_def)
    have "rows_ok uuid w'" by (rule rows_ok_sub [OF mfa_okD(1) [OF ok]]) (simp_all add: Tick)
    moreover have "tasks_ok cr w'" by (rule tasks_ok_all [OF mfa_okD(3) [OF ok] _ later]) (simp add: Tick)
    ultimately show ?thesis
      using mfa_okD(2) [OF ok] by (simp add: mfa_ok_def log_ok_mfa_def Tick)
  next
    case (Sign_up a password)
    then show ?thesis using mfa_ok_sign_up [OF ok inj] by simp
  next
    case (Remove u)
    then show ?thesis using mfa_ok_remove [OF ok] by simp
  next
    case (Auth_row i u k)
    have "wp (k (map_of (mw_auths w) u)) cr i (promise cr i (fst (mw_tasks w ! i))) w"
      using run [OF Auth_row(2)] rows_okD(1) [OF mfa_okD(1) [OF ok]] by simp
    then show ?thesis using advanced Auth_row(1) by simp
  next
    case (User_row i u email k found)
    then show ?thesis using run [OF User_row(2)] advanced by simp
  next
    case (Config i k config)
    then show ?thesis using run [OF Config(2)] advanced by simp
  next
    case (Time i k)
    then show ?thesis using run [OF Time(2)] advanced by simp
  next
    case (Draw i k)
    have "wp (k (uuid (mw_drawn w))) cr i (promise cr i (fst (mw_tasks w ! i))) w"
      using run [OF Draw(2)] by simp
    from mfa_ok_advance [OF ok this le_SucI [OF order_refl]] show ?thesis using Draw(1) by simp
  next
    case (Written i a c k auths a')
    then show ?thesis using mfa_ok_written [OF ok inj] by simp
  next
    case (Conflict i a c k)
    then show ?thesis using run [OF Conflict(2)] advanced by (simp del: after.simps)
  qed
qed

lemma mfa_reachable_ok: "mfa_reachable cr uuid w \<Longrightarrow> inj uuid \<Longrightarrow> mfa_ok cr uuid w"
proof (induction rule: mfa_reachable.induct)
  case (Start now)
  show ?case by (simp add: mfa_ok_def mfa_start_def rows_ok_def log_ok_mfa_def tasks_ok_def seen_def)
next
  case (Step w w')
  then show ?case using mfa_step_ok by blast
qed

end
