(* ===== verification/MfaSamples.thy ===== *)
theory MfaSamples
  imports MfaInv PyStr
begin

text \<open>
  Runs of requests one after the other, as runs of the interleaving semantics, and a concrete one:
  an account enrols an authenticator and logs in with it twice.
\<close>

subsection \<open>One request at a time\<close>

primrec exec ::
    "'a task \<Rightarrow> nat \<Rightarrow> (nat \<Rightarrow> string) \<Rightarrow> user_row \<Rightarrow> mfa_config \<Rightarrow> mfa_world \<Rightarrow> 'a result \<times> mfa_world" where
  "exec (Return x) i uuid user config w = (Inr x, w)"
| "exec (Raise e) i uuid user config w = (Inl e, w)"
| "exec (Ask_auth u k) i uuid user config w = exec (k (map_of (mw_auths w) u)) i uuid user config w"
| "exec (Ask_user u email k) i uuid user config w =
     exec (k (if email \<or> u_id user = u then Some user else None)) i uuid user config w"
| "exec (Ask_config k) i uuid user config w = exec (k config) i uuid user config w"
| "exec (Clock k) i uuid user config w = exec (k (mw_now w)) i uuid user config w"
| "exec (Random k) i uuid user config w = exec (k (uuid (mw_drawn w))) i uuid user config (w\<lparr>mw_drawn := Suc (mw_drawn w)\<rparr>)"
| "exec (Commit a c k) i uuid user config w =
     (case commit (uuid (mw_drawn w)) (uuid (Suc (mw_drawn w))) a c (mw_auths w) of
        None \<Rightarrow> exec (k None) i uuid user config w
      | Some (auths, a') \<Rightarrow> exec (k (Some a')) i uuid user config
          (logged (Wrote \<lparr>wr_task = i, wr_old = a, wr_change = c, wr_new = a', wr_time = mw_now w\<rparr>)
            (w\<lparr>mw_auths := auths, mw_drawn := mw_drawn w + 2\<rparr>)))"

fun outcome :: "'a result \<Rightarrow> 'a task" where
  "outcome (Inl e) = Raise e"
| "outcome (Inr x) = Return x"

definition do_request :: "crypto \<Rightarrow> (nat \<Rightarrow> string) \<Rightarrow> user_row \<Rightarrow> mfa_config \<Rightarrow> mfa_request \<Rightarrow> mfa_world \<Rightarrow> mfa_world" where
  "do_request cr uuid user config q w =
     (case exec (serve cr q) (length (mw_tasks w)) uuid user config w of
        (r, w') \<Rightarrow> w'\<lparr>mw_tasks := mw_tasks w @ [(q, outcome r)]\<rparr>)"

lemma advance_twice [simp]: "advance i t (advance i t' w) = advance i t w"
  by (cases "i < length (mw_tasks w)") (simp_all add: advance_def list_update_beyond not_less)

lemma advance_frame [simp]:
  "(advance i t w)\<lparr>mw_drawn := d\<rparr> = advance i t (w\<lparr>mw_drawn := d\<rparr>)"
  "(advance i t w)\<lparr>mw_auths := x\<rparr> = advance i t (w\<lparr>mw_auths := x\<rparr>)"
  "logged e (advance i t w) = advance i t (logged e w)"
  "mw_auths (advance i t w) = mw_auths w" "mw_drawn (advance i t w) = mw_drawn w" "mw_now (advance i t w) = mw_now w"
  "length (mw_tasks (advance i t w)) = length (mw_tasks w)"
  by (simp_all add: advance_def logged_def)

lemma logged_tasks [simp]: "mw_tasks (logged e w) = mw_tasks w"
  by (simp add: logged_def)

lemma running_advance: "i < length (mw_tasks w) \<Longrightarrow> running_task (advance i t w) i = Some t"
  by (simp add: running_task_def advance_def)

lemma exec_reachable:
  "i < length (mw_tasks w) \<Longrightarrow> mfa_reachable cr uuid (advance i t w) \<Longrightarrow> exec t i uuid user config w = (r, w') \<Longrightarrow>
     mfa_reachable cr uuid (advance i (outcome r) w')"
proof (induction t arbitrary: w)
  case (Ask_auth u k)
  note step = mfa_reachable.Step [OF Ask_auth.prems(2) mfa_step.Auth_row [OF running_advance [OF Ask_auth.prems(1)]]]
  show ?case
    by (rule Ask_auth.IH [OF rangeI Ask_auth.prems(1)]) (use step Ask_auth.prems(3) in simp_all)
next
  case (Ask_user u email k)
  note step = mfa_reachable.Step [OF Ask_user.prems(2) mfa_step.User_row [OF running_advance [OF Ask_user.prems(1)],
      where found = "if email \<or> u_id user = u then Some user else None"]]
  show ?case
    by (rule Ask_user.IH [OF rangeI Ask_user.prems(1)]) (use step Ask_user.prems(3) in \<open>auto split: if_splits\<close>)
next
  case (Ask_config k)
  note step = mfa_reachable.Step [OF Ask_config.prems(2) mfa_step.Config [OF running_advance [OF Ask_config.prems(1)], where config = config]]
  show ?case
    by (rule Ask_config.IH [OF rangeI Ask_config.prems(1)]) (use step Ask_config.prems(3) in simp_all)
next
  case (Clock k)
  note step = mfa_reachable.Step [OF Clock.prems(2) mfa_step.Time [OF running_advance [OF Clock.prems(1)]]]
  show ?case
    by (rule Clock.IH [OF rangeI Clock.prems(1)]) (use step Clock.prems(3) in simp_all)
next
  case (Random k)
  note step = mfa_reachable.Step [OF Random.prems(2) mfa_step.Draw [OF running_advance [OF Random.prems(1)]]]
  show ?case
    by (rule Random.IH [OF rangeI]) (use step Random.prems(1, 3) in simp_all)
next
  case (Commit a c k)
  note run = running_advance [OF Commit.prems(1), of "Commit a c k"]
  show ?case
  proof (cases "commit (uuid (mw_drawn w)) (uuid (Suc (mw_drawn w))) a c (mw_auths w)")
    case None
    from mfa_reachable.Step [OF Commit.prems(2) mfa_step.Conflict [OF run]] None
    show ?thesis
      by (intro Commit.IH [OF rangeI Commit.prems(1)]) (use Commit.prems(3) in simp_all)
  next
    case (Some p)
    obtain auths a' where p: "p = (auths, a')" by (cases p)
    from mfa_reachable.Step [OF Commit.prems(2) mfa_step.Written [OF run]] Some p
    show ?thesis
      by (intro Commit.IH [OF rangeI, of _ "Some a'"]) (use Commit.prems(1, 3) in simp_all)
  qed
qed auto

lemma tasks_outermost:
  "w\<lparr>mw_tasks := ts, mw_drawn := d\<rparr> = w\<lparr>mw_drawn := d, mw_tasks := ts\<rparr>"
  "w\<lparr>mw_tasks := ts, mw_auths := x\<rparr> = w\<lparr>mw_auths := x, mw_tasks := ts\<rparr>"
  "w\<lparr>mw_tasks := ts, mw_log := es\<rparr> = w\<lparr>mw_log := es, mw_tasks := ts\<rparr>"
  by simp_all

lemma exec_tasks:
  "exec t i uuid user config (w\<lparr>mw_tasks := ts\<rparr>) = map_prod id (mw_tasks_update (\<lambda>_. ts)) (exec t i uuid user config w)"
  "mw_tasks (snd (exec t i uuid user config w)) = mw_tasks w"
  by (induction t arbitrary: w) (auto simp: logged_def tasks_outermost split: option.split)

lemma do_request_reachable:
  assumes "mfa_reachable cr uuid w"
  shows "mfa_reachable cr uuid (do_request cr uuid user config q w)"
proof -
  let ?i = "length (mw_tasks w)"
  let ?w = "w\<lparr>mw_tasks := mw_tasks w @ [(q, serve cr q)]\<rparr>"
  have "mfa_reachable cr uuid ?w" by (rule mfa_reachable.Step [OF assms mfa_step.Arrive])
  moreover have "advance ?i (serve cr q) ?w = ?w" by (simp add: advance_def)
  moreover obtain r w' where e: "exec (serve cr q) ?i uuid user config w = (r, w')" by fastforce
  moreover have "mw_tasks w' = mw_tasks w" using exec_tasks(2) [of "serve cr q" ?i uuid user config w] e by simp
  ultimately show ?thesis
    using exec_reachable [of ?i ?w cr uuid "serve cr q" user config r]
    by (simp add: do_request_def exec_tasks(1) advance_def)
qed

subsection \<open>A concrete run\<close>

definition demo_crypto :: crypto where
  "demo_crypto = \<lparr>cr_hash = id, cr_totp = (\<lambda>secret step. if step mod 2 = 0 then ''000000'' else ''111111''),
     cr_seal = (\<lambda>nonce secret. Some secret), cr_open = Some, cr_verify_password = (=)\<rparr>"

definition demo_config :: mfa_config where
  "demo_config = \<lparr>cf_enable = True, cf_oauth_bypass = False, cf_trusted_bypass = False\<rparr>"

definition demo_user :: user_row where
  "demo_user = \<lparr>u_id = ''0'', u_role = ''user'', u_name = ''Ann'', u_email = ''ann@x''\<rparr>"

abbreviation request :: "mfa_request \<Rightarrow> mfa_world \<Rightarrow> mfa_world" where
  "request \<equiv> do_request demo_crypto nat_str demo_user demo_config"

definition mfa0 :: mfa_world where
  "mfa0 = (let a = insert_new_auth (nat_str 0) (nat_str 1) ''pw''
     in logged (Created a) ((mfa_start 0)\<lparr>mw_auths := [(au_id a, a)], mw_drawn := 2\<rparr>))"

definition mfa1 :: mfa_world where
  "mfa1 = request (Sign_in_via demo_user ''password'' None None) mfa0"

definition mfa2 :: mfa_world where
  "mfa2 = request (Start_enrollment ''0.2'') mfa1"

definition mfa3 :: mfa_world where
  "mfa3 = request (Confirm_enrollment ''0.2'' ''000000'') mfa2"

definition mfa4 :: mfa_world where
  "mfa4 = request (Sign_in_via demo_user ''password'' None None) (mfa3\<lparr>mw_now := 30\<rparr>)"

definition mfa5 :: mfa_world where
  "mfa5 = request (Verify_login ''0.23'' ''111111'' False) mfa4"

definition mfa6 :: mfa_world where
  "mfa6 = request (Sign_in_via demo_user ''password'' None None) (mfa5\<lparr>mw_now := 60\<rparr>)"

definition mfa7 :: mfa_world where
  "mfa7 = request (Verify_login ''0.30'' ''000000'' False) mfa6"

lemma inj_nat_str: "inj nat_str"
  by (metis digits_value_nat_str injI)

lemma tick_reachable: "mfa_reachable cr uuid w \<Longrightarrow> mw_now w \<le> now \<Longrightarrow> mfa_reachable cr uuid (w\<lparr>mw_now := now\<rparr>)"
  by (rule mfa_reachable.Step [OF _ mfa_step.Tick])

lemma mfa0_reachable: "mfa_reachable demo_crypto nat_str mfa0"
  using mfa_reachable.Step [OF mfa_reachable.Start [of demo_crypto nat_str 0] mfa_step.Sign_up [OF refl, of _ _ _ "''pw''"]]
  by (simp add: mfa0_def Let_def mfa_start_def numeral_2_eq_2)

lemma mfa7_reachable: "mfa_reachable demo_crypto nat_str mfa7"
proof -
  have "mw_now mfa3 \<le> 30" by code_simp
  moreover have "mw_now mfa5 \<le> 60" by code_simp
  ultimately show ?thesis
    by (auto simp: mfa7_def mfa6_def intro!: do_request_reachable tick_reachable)
      (auto simp: mfa5_def mfa4_def intro!: do_request_reachable tick_reachable,
       auto simp: mfa3_def mfa2_def mfa1_def intro!: do_request_reachable mfa0_reachable)
qed

text \<open>The events of the log and the answer to the last request.\<close>

fun written_at :: "nat \<Rightarrow> mfa_event list \<Rightarrow> mfa_write" where
  "written_at 0 (Wrote x # es) = x"
| "written_at (Suc n) (e # es) = written_at n es"
| "written_at n es = undefined"

definition demo_claims :: session_claims where
  "demo_claims = \<lparr>sc_id = ''0'', sc_method = ''password'', sc_auth_time = 60, sc_stamp = Some ''22'', sc_verified = True\<rparr>"

lemma mfa7_log:
  "mw_log mfa7 = take 7 (mw_log mfa7) @ Wrote (written_at 7 (mw_log mfa7)) # [mw_log mfa7 ! 8, mw_log mfa7 ! 9] @
     Wrote (written_at 10 (mw_log mfa7)) # []"
  by code_simp

lemma mfa7_answer: "length (mw_tasks mfa7) = 7"
    "mw_tasks mfa7 ! 6 = (Verify_login ''0.30'' ''000000'' False, Return (Session demo_claims))"
proof -
  have "length (mw_tasks mfa6) = 6" by code_simp
  moreover have "fst (exec (serve demo_crypto (Verify_login ''0.30'' ''000000'' False)) 6 nat_str demo_user demo_config mfa6) =
      Inr (Session demo_claims)"
    by code_simp
  ultimately show "length (mw_tasks mfa7) = 7"
    "mw_tasks mfa7 ! 6 = (Verify_login ''0.30'' ''000000'' False, Return (Session demo_claims))"
    by (simp_all add: mfa7_def do_request_def nth_append case_prod_beta)
qed

end
