(* ===== verification/MfaClaims.thy ===== *)
theory MfaClaims
  imports MfaSamples
begin

text \<open>
  Properties of multi-factor authentication over all interleaved runs: commits are serial and every
  one is a move of the account state machine; a verified session has used a factor that was never
  accepted before; and at most ten codes are tried per account and window.
\<close>

subsection \<open>Factors along the log\<close>

lemma takes_factor_sel:
  assumes "takes_factor cr code recovery t m m'"
  shows "md_limits m' = md_limits m" "md_secret m' = md_secret m" "md_last_step m \<le> md_last_step m'"
    "count_list (md_recovery m') d \<le> count_list (md_recovery m) d"
proof -
  have "count_list (remove1 x xs) d \<le> count_list xs d" for x xs
    by (induction xs) auto
  with assms show "md_limits m' = md_limits m" "md_secret m' = md_secret m" "md_last_step m \<le> md_last_step m'"
    "count_list (md_recovery m') d \<le> count_list (md_recovery m) d"
    by (auto simp: takes_factor_def right_step_def split: if_splits)
qed

lemma clear_challenges_sel [simp]:
  "md_limits (clear_challenges m) = md_limits m" "md_secret (clear_challenges m) = md_secret m"
  "md_last_step (clear_challenges m) = md_last_step m" "md_recovery (clear_challenges m) = md_recovery m"
  by (simp_all add: clear_challenges_def)

lemma mfa_of_revoked:
  "md_limits (mfa_of (a\<lparr>au_mfa := clear_mfa_challenges r (au_mfa a), au_stamp := s\<rparr>)) = md_limits (mfa_of a)"
  "md_secret (mfa_of (a\<lparr>au_mfa := clear_mfa_challenges r (au_mfa a), au_stamp := s\<rparr>)) = md_secret (mfa_of a)"
  "md_last_step (mfa_of (a\<lparr>au_mfa := clear_mfa_challenges r (au_mfa a), au_stamp := s\<rparr>)) = md_last_step (mfa_of a)"
  "md_recovery (mfa_of (a\<lparr>au_mfa := clear_mfa_challenges r (au_mfa a), au_stamp := s\<rparr>)) = md_recovery (mfa_of a)"
  by (cases "au_mfa a"; simp add: mfa_of_def clear_mfa_challenges_def)+

definition bumped :: "int \<Rightarrow> mfa_data \<Rightarrow> mfa_limit" where
  "bumped t m = (current_limit t m ''factor'')\<lparr>ml_count := ml_count (current_limit t m ''factor'') + 1\<rparr>"

lemma allowed_limit:
  assumes "allowed cr now (mfa_of a) c"
  shows "factor_limit (after r s c a) = factor_limit a \<or>
    (\<exists>t \<le> now. ml_count (current_limit t (mfa_of a) ''factor'') < 10 \<and> factor_limit (after r s c a) = Some (bumped t (mfa_of a)))"
  using assms
  by cases (auto simp: factor_limit_def bumped_def enrolled_def reset_data_def mfa_of_revoked takes_factor_sel(1))

text \<open>
  The authenticator of an account is replaced when an enrolment is confirmed: the write stores the
  secret a challenge of the row has offered. A recovery code is issued again when a write that stores
  new codes has its digest among them.
\<close>

definition confirms_enrolment :: "string \<Rightarrow> mfa_event \<Rightarrow> bool" where
  "confirms_enrolment u e \<longleftrightarrow> (\<exists>x s c sealed step hashes. e = Wrote x \<and> au_id (wr_old x) = u \<and>
     get_slot s (mfa_of (wr_old x)) = Some c \<and> mc_secret c = Some sealed \<and>
     wr_change x = Save (enrolled (Some sealed) step hashes (mfa_of (wr_old x))) True)"

definition reissues :: "string \<Rightarrow> string \<Rightarrow> mfa_event \<Rightarrow> bool" where
  "reissues u d e \<longleftrightarrow> (\<exists>x m. e = Wrote x \<and> au_id (wr_old x) = u \<and> wr_change x = Save m True \<and> d \<in> set (md_recovery m))"

text \<open>Any other change only moves the last step of an authenticator forward and only uses up recovery codes.\<close>

lemma allowed_step:
  assumes "allowed cr now (mfa_of (wr_old x)) (wr_change x)" and "\<not> confirms_enrolment (au_id (wr_old x)) (Wrote x)"
  shows "md_secret (mfa_of (after r s (wr_change x) (wr_old x))) = None \<or>
    md_secret (mfa_of (after r s (wr_change x) (wr_old x))) = md_secret (mfa_of (wr_old x)) \<and>
    md_last_step (mfa_of (wr_old x)) \<le> md_last_step (mfa_of (after r s (wr_change x) (wr_old x)))"
  using assms(1)
proof cases
  case (Enrolled s c sealed secret t code step hashes)
  then show ?thesis using assms(2) unfolding confirms_enrolment_def by blast
qed (auto simp: mfa_of_revoked takes_factor_sel reset_data_def)

lemma allowed_recovery:
  assumes "allowed cr now (mfa_of (wr_old x)) (wr_change x)" and "\<not> reissues (au_id (wr_old x)) d (Wrote x)"
  shows "count_list (md_recovery (mfa_of (after r s (wr_change x) (wr_old x)))) d \<le> count_list (md_recovery (mfa_of (wr_old x))) d"
  using assms by cases (auto simp: mfa_of_revoked takes_factor_sel reset_data_def enrolled_def reissues_def count_notin)

definition sound_events :: "crypto \<Rightarrow> mfa_event list \<Rightarrow> bool" where
  "sound_events cr es \<longleftrightarrow> (\<forall>a. Created a \<in> set es \<longrightarrow> au_mfa a = None) \<and>
     (\<forall>x. Wrote x \<in> set es \<longrightarrow> allowed cr (wr_time x) (mfa_of (wr_old x)) (wr_change x) \<and>
        (\<exists>uuid stamp. wr_new x = after uuid stamp (wr_change x) (wr_old x)))"

lemma sound_events_simps:
  "sound_events cr (e # es) \<longleftrightarrow> sound_events cr [e] \<and> sound_events cr es"
  "sound_events cr (es @ fs) \<longleftrightarrow> sound_events cr es \<and> sound_events cr fs"
  by (auto simp: sound_events_def)

lemma sound_after: "sound_events cr es \<Longrightarrow> Wrote x \<in> set es \<Longrightarrow> \<exists>r s. wr_new x = after r s (wr_change x) (wr_old x)"
  by (simp add: sound_events_def)

text \<open>What holds of every new row of \<open>u\<close> and is kept by every write on its row holds to the end.\<close>

lemma replay_row:
  assumes "replay s es = Some s'" and "sound_events cr es" and "\<And>a. s u = Some a \<Longrightarrow> P a"
    and "\<And>a. mfa_of a = new_mfa \<Longrightarrow> P a"
    and "\<And>x r st. Wrote x \<in> set es \<Longrightarrow> au_id (wr_old x) = u \<Longrightarrow> allowed cr (wr_time x) (mfa_of (wr_old x)) (wr_change x) \<Longrightarrow>
      P (wr_old x) \<Longrightarrow> P (after r st (wr_change x) (wr_old x))"
  shows "s' u = Some a \<Longrightarrow> P a"
  using assms(1-3, 5)
proof (induction s es rule: replay.induct)
  case (2 s b es)
  have "au_mfa b = None" using 2(4) unfolding sound_events_def by (meson list.set_intros(1))
  then have "P b" by (intro assms(4)) (simp add: mfa_of_def)
  moreover have "replay (s(au_id b \<mapsto> b)) es = Some s'" "s (au_id b) = None"
    using 2(3) by (auto split: if_splits)
  moreover have "sound_events cr es" using 2(4) sound_events_simps(1) by blast
  moreover have "P c" if "(s(au_id b \<mapsto> b)) u = Some c" for c
    using 2(5) [of c] \<open>P b\<close> that by (auto split: if_splits)
  ultimately show ?case using 2(6) by (intro 2(1) [OF _ 2(2)]) (auto simp del: fun_upd_apply)
next
  case (3 s v es)
  have "sound_events cr es" using 3(4) sound_events_simps(1) by blast
  moreover have "P c" if "(s(v := None)) u = Some c" for c
    using 3(5) [of c] that by (auto split: if_splits)
  ultimately show ?case using 3(2, 3, 6) by (intro 3(1)) (auto simp del: fun_upd_apply)
next
  case (4 s x es)
  have row: "s (au_id (wr_old x)) = Some (wr_old x)" "replay (s(au_id (wr_old x) \<mapsto> wr_new x)) es = Some s'"
    using 4(3) by (auto split: if_splits)
  have "allowed cr (wr_time x) (mfa_of (wr_old x)) (wr_change x)"
    and "\<exists>r st. wr_new x = after r st (wr_change x) (wr_old x)"
    using 4(4) unfolding sound_events_def by (meson list.set_intros(1))+
  then have "P (wr_new x)" if "au_id (wr_old x) = u"
    using 4(6) [of x] 4(5) [of "wr_old x"] row(1) that by (auto simp del: after.simps)
  then have "P c" if "(s(au_id (wr_old x) \<mapsto> wr_new x)) u = Some c" for c
    using 4(5) [of c] that by (auto split: if_splits)
  moreover have "sound_events cr es" using 4(4) sound_events_simps(1) by blast
  ultimately show ?case
    using 4(2, 6) row by (intro 4(1)) (auto simp del: fun_upd_apply)
qed auto

text \<open>The authenticator of the row is gone or beyond step \<open>n\<close>.\<close>

definition beyond :: "int \<Rightarrow> auth \<Rightarrow> bool" where
  "beyond n a \<longleftrightarrow> md_secret (mfa_of a) = None \<or> n \<le> md_last_step (mfa_of a)"

lemma beyond_kept:
  assumes "allowed cr now (mfa_of (wr_old x)) (wr_change x)" and "\<not> confirms_enrolment (au_id (wr_old x)) (Wrote x)"
    and "beyond n (wr_old x)"
  shows "beyond n (after r s (wr_change x) (wr_old x))"
  using allowed_step [OF assms(1, 2), of r s] assms(3) by (auto simp: beyond_def simp del: after.simps)

subsection \<open>Accepted factors\<close>

lemma accepts_step:
  assumes "accepts cr code False y" and "wr_new y = after r s (wr_change y) (wr_old y)"
  shows "md_secret (mfa_of (wr_old y)) \<noteq> None \<and> md_last_step (mfa_of (wr_old y)) < md_last_step (mfa_of (wr_new y))"
  using assms by (auto simp: accepts_def takes_factor_def right_step_def)

lemma accepts_recovery:
  assumes "accepts cr code True y" and "wr_new y = after r s (wr_change y) (wr_old y)"
    and "\<not> reissues (au_id (wr_old y)) (cr_hash cr (lower (strip code))) (Wrote y)"
  shows "count_list (md_recovery (mfa_of (wr_new y))) (cr_hash cr (lower (strip code))) <
    count_list (md_recovery (mfa_of (wr_old y))) (cr_hash cr (lower (strip code)))"
proof -
  have "x \<in> set xs \<Longrightarrow> count_list (remove1 x xs) x < count_list xs x" for x :: string and xs
    by (induction xs) auto
  moreover have "x \<in> set xs \<Longrightarrow> 0 < count_list xs x" for x :: string and xs
    by (induction xs) auto
  ultimately show ?thesis using assms by (auto simp: accepts_def takes_factor_def reissues_def count_notin)
qed

lemma reachable_events:
  assumes "mfa_reachable cr uuid w" and "inj uuid"
  shows "sound_events cr (mw_log w)" "replay Map.empty (mw_log w) = Some (map_of (mw_auths w))" "distinct (created_ids (mw_log w))"
  using mfa_okD(2) [OF mfa_reachable_ok [OF assms]] by (simp_all add: log_ok_mfa_def sound_events_def)

text \<open>C9: However requests interleave, the credential table is what the committed writes give when they
  are executed one after the other, each computed from exactly the row it replaces (no update is lost),
  and every one is a move of the account state machine.\<close>
theorem mfa_commits_are_serial:
  assumes "mfa_reachable cr uuid w" and "inj uuid"
  shows "replay Map.empty (mw_log w) = Some (map_of (mw_auths w)) \<and>
    (\<forall>x. Wrote x \<in> set (mw_log w) \<longrightarrow> allowed cr (wr_time x) (mfa_of (wr_old x)) (wr_change x) \<and>
       (\<exists>revision stamp. wr_new x = after revision stamp (wr_change x) (wr_old x)))"
  using reachable_events [OF assms] by (simp add: sound_events_def)

theorem mfa_commits_are_serial_witness:
  "length (mw_log mfa7) = 11 \<and> replay Map.empty (mw_log mfa7) = Some (map_of (mw_auths mfa7))"
proof
  show "length (mw_log mfa7) = 11" by code_simp
  show "replay Map.empty (mw_log mfa7) = Some (map_of (mw_auths mfa7))"
    using mfa_commits_are_serial [OF mfa7_reachable inj_nat_str] by blast
qed

text \<open>C29: A session that counts as verified was issued for a request with a challenge of the account whose
  factor it took: the attempt was counted first, and nothing happened to the account between the two
  writes. The session carries the stamp of the account after them.\<close>
theorem verified_sessions_took_a_factor:
  assumes "mfa_reachable cr uuid w" and "inj uuid"
    and "i < length (mw_tasks w)" and "mw_tasks w ! i = (q, Return reply)"
    and "reply = Session cl \<or> reply = Enrolled cl codes" and "sc_verified cl"
  shows "(\<exists>token code recovery. q = Verify_login token code recovery \<and> verified_login cr i token code recovery cl w) \<or>
    (\<exists>token code. q = Confirm_enrollment token code \<and> confirmed_enrollment cr i token code cl codes w)"
proof -
  have "wp (Return reply) cr i (promise cr i q) w"
    using mfa_okD(3) [OF mfa_reachable_ok [OF assms(1, 2)]] assms(3, 4) unfolding tasks_ok_def by force
  then have "promise cr i q (Inr reply) w" by simp
  then show ?thesis using assms(5, 6) by (cases q) auto
qed

theorem verified_sessions_took_a_factor_witness:
  "verified_login demo_crypto 6 ''0.30'' ''000000'' False demo_claims mfa7"
proof -
  have "6 < length (mw_tasks mfa7)" by (simp add: mfa7_answer(1))
  from verified_sessions_took_a_factor [OF mfa7_reachable inj_nat_str this mfa7_answer(2), of demo_claims "[]"]
  show ?thesis by (auto simp: demo_claims_def)
qed

text \<open>Two writes of the log on one row: the second one sees what later writes have left of the first.\<close>

lemma writes_of_row:
  assumes "mfa_reachable cr uuid w" and "inj uuid"
    and "mw_log w = es1 @ Wrote y # es2 @ Wrote z # es3" and "au_id (wr_old z) = au_id (wr_old y)"
  obtains s s' r st r' st' where
    "replay (s(au_id (wr_old y) \<mapsto> wr_new y)) es2 = Some s'" "s' (au_id (wr_old y)) = Some (wr_old z)" "sound_events cr es2"
    "wr_new y = after r st (wr_change y) (wr_old y)" "wr_new z = after r' st' (wr_change z) (wr_old z)"
proof -
  have sound: "sound_events cr (mw_log w)" and run: "replay Map.empty (mw_log w) = Some (map_of (mw_auths w))"
    using reachable_events [OF assms(1, 2)] by blast+
  obtain s1 where "replay s1 (Wrote y # es2 @ Wrote z # es3) = Some (map_of (mw_auths w))"
    using run assms(3) by (auto simp: replay_append bind_eq_Some_conv)
  then obtain s2 where "replay (s1(au_id (wr_old y) \<mapsto> wr_new y)) es2 = Some s2" "s2 (au_id (wr_old y)) = Some (wr_old z)"
    using assms(4) by (auto simp: replay_append bind_eq_Some_conv simp del: fun_upd_apply split: if_splits)
  moreover have "sound_events cr es2" using sound assms(3) by (simp add: sound_events_def)
  moreover have "Wrote y \<in> set (mw_log w)" "Wrote z \<in> set (mw_log w)" by (simp_all add: assms(3))
  ultimately show ?thesis using that sound_after [OF sound] by blast
qed

lemma one_time_password_once:
  assumes "mfa_reachable cr uuid w" and "inj uuid"
    and "mw_log w = es1 @ Wrote y # es2 @ Wrote z # es3" and "au_id (wr_old z) = au_id (wr_old y)"
    and "\<forall>e \<in> set es2. \<not> confirms_enrolment (au_id (wr_old y)) e" and "accepts cr code' False z"
  shows "md_last_step (mfa_of (wr_new y)) < md_last_step (mfa_of (wr_new z))"
proof -
  from assms(1-4) obtain s s' r st r' st' where run: "replay (s(au_id (wr_old y) \<mapsto> wr_new y)) es2 = Some s'"
      "s' (au_id (wr_old y)) = Some (wr_old z)" "sound_events cr es2" and new: "wr_new z = after r' st' (wr_change z) (wr_old z)"
    by (rule writes_of_row)
  have "beyond (md_last_step (mfa_of (wr_new y))) (wr_old z)"
  proof (rule replay_row [OF run(1, 3) _ _ _ run(2)])
    fix x r st assume x: "Wrote x \<in> set es2" "au_id (wr_old x) = au_id (wr_old y)" "beyond (md_last_step (mfa_of (wr_new y))) (wr_old x)"
        "allowed cr (wr_time x) (mfa_of (wr_old x)) (wr_change x)"
    then have "\<not> confirms_enrolment (au_id (wr_old x)) (Wrote x)" using assms(5) by simp
    then show "beyond (md_last_step (mfa_of (wr_new y))) (after r st (wr_change x) (wr_old x))"
      by (rule beyond_kept [OF x(4) _ x(3)])
  qed (auto simp: beyond_def new_mfa_def)
  then show ?thesis using accepts_step [OF assms(6) new] by (auto simp: beyond_def)
qed

lemma recovery_code_once:
  assumes "mfa_reachable cr uuid w" and "inj uuid"
    and "mw_log w = es1 @ Wrote y # es2 @ Wrote z # es3" and "au_id (wr_old z) = au_id (wr_old y)"
    and d: "d = cr_hash cr (lower (strip code))"
    and "\<forall>e \<in> set (Wrote y # es2). \<not> reissues (au_id (wr_old y)) d e" and "accepts cr code True y"
  shows "count_list (md_recovery (mfa_of (wr_old z))) d < count_list (md_recovery (mfa_of (wr_old y))) d"
proof -
  let ?k = "count_list (md_recovery (mfa_of (wr_new y))) d"
  from assms(1-4) obtain s s' r st where run: "replay (s(au_id (wr_old y) \<mapsto> wr_new y)) es2 = Some s'"
      "s' (au_id (wr_old y)) = Some (wr_old z)" "sound_events cr es2" and new: "wr_new y = after r st (wr_change y) (wr_old y)"
    by (rule writes_of_row)
  have "count_list (md_recovery (mfa_of (wr_old z))) d \<le> ?k"
    by (rule replay_row [OF run(1, 3) _ _ _ run(2)])
      (use assms(6) in \<open>auto simp: new_mfa_def intro: order_trans [OF allowed_recovery] simp del: after.simps\<close>)
  moreover have "?k < count_list (md_recovery (mfa_of (wr_old y))) d"
    unfolding d by (rule accepts_recovery [OF assms(7) new]) (use assms(6) d in simp)
  ultimately show ?thesis by simp
qed

text \<open>The factor a request presents.\<close>

fun presented :: "mfa_request \<Rightarrow> (string \<times> bool) option" where
  "presented (Verify_login _ code recovery) = Some (code, recovery)"
| "presented (Confirm_enrollment _ code) = Some (code, False)"
| "presented (Manage _ _ code recovery _) = Some (code, recovery)"
| "presented _ = None"

text \<open>C1: No factor is accepted twice. Every request that succeeds with a factor (a login, the confirmation
  of an enrolment, a replacement of the authenticator or of the recovery codes) has used it by a write
  of its own. After a write that used a one-time password, be it that of the enrolment, an account
  accepts only one-time passwords of later time steps until another enrolment is confirmed; and after a
  write that accepted a recovery code, the row has one copy of its digest less for every request that
  follows, unless a new set of codes contains it again.\<close>
theorem mfa_factor_accepted_once:
  assumes "mfa_reachable cr uuid w" and "inj uuid"
  shows "(\<forall>i q reply code recovery. i < length (mw_tasks w) \<and> mw_tasks w ! i = (q, Return reply) \<and>
        presented q = Some (code, recovery) \<longrightarrow>
        (\<exists>y. Wrote y \<in> set (mw_log w) \<and> wr_task y = i \<and> uses cr code recovery y)) \<and>
    (\<forall>es1 y es2 z es3. mw_log w = es1 @ Wrote y # es2 @ Wrote z # es3 \<and> au_id (wr_old z) = au_id (wr_old y) \<longrightarrow>
       (\<forall>code code'. uses cr code False y \<and> accepts cr code' False z \<and>
          (\<forall>e \<in> set es2. \<not> confirms_enrolment (au_id (wr_old y)) e) \<longrightarrow>
          md_last_step (mfa_of (wr_new y)) < md_last_step (mfa_of (wr_new z))) \<and>
       (\<forall>code d. uses cr code True y \<and> d = cr_hash cr (lower (strip code)) \<and>
          (\<forall>e \<in> set (Wrote y # es2). \<not> reissues (au_id (wr_old y)) d e) \<longrightarrow>
          count_list (md_recovery (mfa_of (wr_old z))) d < count_list (md_recovery (mfa_of (wr_old y))) d))"
proof -
  have used: "used cr i code recovery w"
    if "i < length (mw_tasks w)" "mw_tasks w ! i = (q, Return reply)" "presented q = Some (code, recovery)" for i q reply code recovery
  proof -
    have "wp (Return reply) cr i (promise cr i q) w"
      using mfa_okD(3) [OF mfa_reachable_ok [OF assms]] that(1, 2) unfolding tasks_ok_def by force
    then have "promise cr i q (Inr reply) w" by simp
    then show ?thesis
      using that(3) by (cases q) (auto intro: verified_login_used confirmed_enrollment_used)
  qed
  show ?thesis
    by (intro conjI allI impI; (elim conjE)?)
      (blast dest: used [unfolded used_def], erule (1) one_time_password_once [OF assms], assumption+,
       erule (1) recovery_code_once [OF assms], assumption+, simp add: uses_def)
qed

theorem mfa_factor_accepted_once_witness:
  "(\<exists>y. Wrote y \<in> set (mw_log mfa7) \<and> wr_task y = 6 \<and> uses demo_crypto ''000000'' False y) \<and>
   md_last_step (mfa_of (wr_new (written_at 4 (mw_log mfa7)))) < md_last_step (mfa_of (wr_new (written_at 7 (mw_log mfa7))))"
proof -
  let ?y = "written_at 4 (mw_log mfa7)" and ?z = "written_at 7 (mw_log mfa7)"
    and ?e = "written_at 5 (mw_log mfa7)" and ?f = "written_at 6 (mw_log mfa7)"
  have log: "mw_log mfa7 = take 4 (mw_log mfa7) @ Wrote ?y # [Wrote ?e, Wrote ?f] @ Wrote ?z # drop 8 (mw_log mfa7)"
    by code_simp
  have "wr_change ?y = Save (enrolled (Some ''5'') 0 (map (cr_hash demo_crypto) (md_recovery (mfa_of (wr_new ?y)))) (mfa_of (wr_old ?y))) True"
    by code_simp
  moreover have "right_step demo_crypto ''5'' (strip ''000000'') (-1) (wr_time ?y) 0" by code_simp
  moreover have "mc_secret (the (md_login (mfa_of (wr_old ?y)))) = Some ''5''" by code_simp
  ultimately have y: "uses demo_crypto ''000000'' False ?y"
    unfolding uses_def enrols_def by (fastforce simp: demo_crypto_def)
  have z_secret: "md_secret (mfa_of (wr_old ?z)) = Some ''5''" by code_simp
  have z_step: "right_step demo_crypto ''5'' (strip ''111111'') (md_last_step (mfa_of (wr_old ?z))) (wr_time ?z) 1" by code_simp
  have z_change: "wr_change ?z = Save ((mfa_of (wr_old ?z))\<lparr>md_last_step := 1, md_login := None\<rparr>) False" by code_simp
  have "takes_factor demo_crypto ''111111'' False (wr_time ?z) (mfa_of (wr_old ?z)) ((mfa_of (wr_old ?z))\<lparr>md_last_step := 1\<rparr>)"
    using z_secret z_step by (auto simp: takes_factor_def demo_crypto_def)
  with z_change have z: "accepts demo_crypto ''111111'' False ?z"
    unfolding accepts_def by blast
  have "case wr_change ?e of Save m revoke \<Rightarrow> \<not> revoke | _ \<Rightarrow> True" "case wr_change ?f of Save m revoke \<Rightarrow> \<not> revoke | _ \<Rightarrow> True"
    by code_simp+
  then have "\<forall>e \<in> set [Wrote ?e, Wrote ?f]. \<not> confirms_enrolment (au_id (wr_old ?y)) e"
    by (auto simp: confirms_enrolment_def)
  moreover have "au_id (wr_old ?z) = au_id (wr_old ?y)" by code_simp
  moreover have "6 < length (mw_tasks mfa7)" by (simp add: mfa7_answer(1))
  ultimately show ?thesis
    using mfa_factor_accepted_once [OF mfa7_reachable inj_nat_str] mfa7_answer(2) log y z
    by (metis presented.simps(1))
qed

subsection \<open>Attempts\<close>

definition window :: "mfa_write \<Rightarrow> int" where
  "window x = (case factor_limit (wr_new x) of None \<Rightarrow> 0 | Some l \<Rightarrow> ml_expires l)"

definition guess :: "string \<Rightarrow> int \<Rightarrow> mfa_event \<Rightarrow> bool" where
  "guess u e ev \<longleftrightarrow> (case ev of Wrote x \<Rightarrow> charges x \<and> au_id (wr_new x) = u \<and> window x = e | _ \<Rightarrow> False)"

text \<open>The counter of the current row of \<open>u\<close> covers all attempts of its window, and there is no later one.\<close>

definition counted :: "string \<Rightarrow> mfa_event list \<Rightarrow> auth option \<Rightarrow> bool" where
  "counted u es row \<longleftrightarrow> (\<forall>e. length (filter (guess u e) es) \<le> 10) \<and>
     (\<forall>a. row = Some a \<longrightarrow> (case factor_limit a of
        None \<Rightarrow> \<forall>e. filter (guess u e) es = []
      | Some l \<Rightarrow> filter (guess u (ml_expires l)) es \<noteq> [] \<and>
          int (length (filter (guess u (ml_expires l)) es)) \<le> ml_count l \<and> ml_count l \<le> 10 \<and>
          (\<forall>e > ml_expires l. filter (guess u e) es = [])))"

text \<open>Two windows of attempts on an account are \<open>LIMIT_SECONDS\<close> apart.\<close>

definition apart :: "string \<Rightarrow> mfa_event list \<Rightarrow> bool" where
  "apart u es \<longleftrightarrow> (\<forall>x \<in> set es. \<forall>y \<in> set es. \<forall>e f. guess u e x \<and> guess u f y \<and> e < f \<longrightarrow> e + LIMIT_SECONDS \<le> f)"

lemma guess_simps [simp]: "\<not> guess u e (Created a)" "\<not> guess u e (Removed v)"
  by (simp_all add: guess_def)

lemma counted_other:
  assumes "counted u es row" and "\<And>e. \<not> guess u e ev"
  shows "counted u (es @ [ev]) row"
  using assms by (simp add: counted_def cong: option.case_cong)

lemma counted_write:
  assumes c: "counted u es (Some (wr_old x))" and ap: "apart u es" and move: "allowed cr (wr_time x) (mfa_of (wr_old x)) (wr_change x)"
    and new: "wr_new x = after r s (wr_change x) (wr_old x)" and u: "au_id (wr_old x) = u"
  shows "counted u (es @ [Wrote x]) (Some (wr_new x)) \<and> apart u (es @ [Wrote x])"
proof (cases "factor_limit (wr_new x) = factor_limit (wr_old x)")
  case True
  then have "\<not> guess u e (Wrote x)" for e by (simp add: guess_def charges_def)
  then show ?thesis
    using c counted_other [of u es "Some (wr_new x)"] ap True by (simp add: counted_def apart_def)
next
  case False
  then obtain t where t: "t \<le> wr_time x" "ml_count (current_limit t (mfa_of (wr_old x)) ''factor'') < 10"
      "factor_limit (wr_new x) = Some (bumped t (mfa_of (wr_old x)))"
    using allowed_limit [OF move] new by auto
  define l where "l = current_limit t (mfa_of (wr_old x)) ''factor''"
  have g: "guess u e (Wrote x) \<longleftrightarrow> e = ml_expires l" for e
    using False t(3) u new by (auto simp: guess_def charges_def window_def bumped_def l_def)
  have l': "ml_expires (bumped t (mfa_of (wr_old x))) = ml_expires l" "ml_count (bumped t (mfa_of (wr_old x))) = ml_count l + 1"
    by (simp_all add: bumped_def l_def)
  have past: "int (length (filter (guess u (ml_expires l)) es)) \<le> ml_count l \<and> (\<forall>e > ml_expires l. filter (guess u e) es = []) \<and>
      (\<forall>e < ml_expires l. filter (guess u e) es \<noteq> [] \<longrightarrow> e + LIMIT_SECONDS \<le> ml_expires l)"
  proof (cases "factor_limit (wr_old x)")
    case None
    then show ?thesis using c by (auto simp: counted_def l_def current_limit_def factor_limit_def)
  next
    case (Some l0)
    have before: "filter (guess u (ml_expires l0)) es \<noteq> []" "int (length (filter (guess u (ml_expires l0)) es)) \<le> ml_count l0"
        "\<And>e. ml_expires l0 < e \<Longrightarrow> filter (guess u e) es = []"
      using c Some by (simp_all add: counted_def)
    show ?thesis
    proof (cases "ml_expires l0 \<le> t")
      case True
      then have l: "ml_count l = 0" "ml_expires l = t + LIMIT_SECONDS"
        using Some by (simp_all add: l_def current_limit_def factor_limit_def)
      then have later: "ml_expires l0 < ml_expires l" using True by (simp add: LIMIT_SECONDS_def)
      have none: "filter (guess u e) es = []" if "ml_expires l \<le> e" for e
        by (rule before(3)) (use later that in simp)
      have "e + LIMIT_SECONDS \<le> ml_expires l" if "filter (guess u e) es \<noteq> []" for e
      proof -
        have "e \<le> ml_expires l0" using before(3) [of e] that by (cases "ml_expires l0 < e") simp_all
        then show ?thesis using True l(2) by simp
      qed
      then show ?thesis by (simp add: none l(1))
    next
      case False
      then have l: "l = l0" using Some by (simp add: l_def current_limit_def factor_limit_def)
      obtain y where y: "y \<in> set es" "guess u (ml_expires l0) y" using before(1) by (auto simp: filter_empty_conv)
      have "e + LIMIT_SECONDS \<le> ml_expires l0" if "e < ml_expires l0" "filter (guess u e) es \<noteq> []" for e
        using ap that y unfolding apart_def filter_empty_conv by blast
      then show ?thesis using before l by auto
    qed
  qed
  have "counted u (es @ [Wrote x]) (Some (wr_new x))"
    using c past t(2) unfolding counted_def by (auto simp: t(3) l' g l_def [symmetric])
  moreover have "apart u (es @ [Wrote x])"
    using ap past unfolding apart_def by (auto simp: g filter_empty_conv)
  ultimately show ?thesis by blast
qed

lemma attempts_counted:
  "replay Map.empty es = Some s \<Longrightarrow> sound_events cr es \<Longrightarrow> distinct (created_ids es) \<Longrightarrow>
     counted u es (s u) \<and> apart u es \<and> (u \<notin> set (created_ids es) \<longrightarrow> s u = None \<and> (\<forall>e. filter (guess u e) es = []))"
proof (induction es arbitrary: s rule: rev_induct)
  case Nil
  then have "s u = None" by auto
  then show ?case by (simp add: counted_def apart_def)
next
  case (snoc ev es)
  from snoc.prems(1) obtain s0 where s0: "replay Map.empty es = Some s0" "replay s0 [ev] = Some s"
    by (auto simp: replay_append bind_eq_Some_conv)
  have sound: "sound_events cr es" "sound_events cr [ev]" using snoc.prems(2) sound_events_simps(2) by blast+
  have IH: "counted u es (s0 u)" "apart u es"
      "u \<notin> set (created_ids es) \<Longrightarrow> s0 u = None \<and> (\<forall>e. filter (guess u e) es = [])"
    using snoc.IH [OF s0(1) sound(1)] snoc.prems(3) by auto
  show ?case
  proof (cases ev)
    case (Created a)
    have "au_mfa a = None" using sound(2) Created by (simp add: sound_events_def)
    then have "factor_limit a = None" by (simp add: factor_limit_def mfa_of_def new_mfa_def)
    moreover have row: "s = s0(au_id a \<mapsto> a)" using s0(2) Created by (auto split: if_splits)
    moreover have "counted u (es @ [ev]) (s0 u)" by (rule counted_other [OF IH(1)]) (simp add: Created)
    moreover have "\<forall>e. filter (guess u e) es = []" if "au_id a = u"
      using IH(3) snoc.prems(3) Created that by simp
    ultimately show ?thesis
      using IH(2, 3) Created by (cases "au_id a = u") (auto simp: counted_def apart_def)
  next
    case (Removed v)
    moreover have "counted u (es @ [ev]) (s0 u)" by (rule counted_other [OF IH(1)]) (simp add: Removed)
    moreover have "s = s0(v := None)" using s0(2) Removed by simp
    ultimately show ?thesis
      using IH(2, 3) by (auto simp: counted_def apart_def)
  next
    case (Wrote x)
    from sound(2) obtain r st where new: "wr_new x = after r st (wr_change x) (wr_old x)"
        and move: "allowed cr (wr_time x) (mfa_of (wr_old x)) (wr_change x)"
      unfolding Wrote sound_events_def by auto
    have row: "s0 (au_id (wr_old x)) = Some (wr_old x)" "s = s0(au_id (wr_old x) \<mapsto> wr_new x)"
      using s0(2) Wrote by (auto split: if_splits)
    show ?thesis
    proof (cases "au_id (wr_old x) = u")
      case True
      then show ?thesis
        using counted_write [OF _ IH(2) move new True] IH(1, 3) row Wrote by auto
    next
      case False
      then have "\<not> guess u e ev" for e using new Wrote by (auto simp: guess_def)
      then show ?thesis
        using False IH row counted_other [of u es "s u"] Wrote by (auto simp: apart_def)
    qed
  qed
qed

text \<open>The requests that try a code, and the answers that tell whether it was right.\<close>

fun tries_code :: "mfa_request \<Rightarrow> bool" where
  "tries_code (Verify_login _ _ _) = True"
| "tries_code (Confirm_enrollment _ _) = True"
| "tries_code (Manage _ _ _ _ _) = True"
| "tries_code (Redeem _ _) = True"
| "tries_code _ = False"

fun answered :: "mfa_reply task \<Rightarrow> bool" where
  "answered (Return _) = True"
| "answered (Raise e) = (e \<in> wrong_codes)"
| "answered _ = False"

text \<open>C28: Guessing is bounded, however many requests run at once: every request that learns whether a code
  was right has counted an attempt, an account counts at most ten attempts per window, and windows are
  fifteen minutes apart.\<close>
theorem mfa_guesses_bounded:
  assumes "mfa_reachable cr uuid w" and "inj uuid"
  shows "(\<forall>i < length (mw_tasks w). tries_code (fst (mw_tasks w ! i)) \<and> answered (snd (mw_tasks w ! i)) \<longrightarrow> was_charged i w) \<and>
    (\<forall>u e. length (filter (guess u e) (mw_log w)) \<le> 10) \<and> (\<forall>u. apart u (mw_log w))"
proof -
  have "was_charged i w" if i: "i < length (mw_tasks w)" "tries_code (fst (mw_tasks w ! i))" "answered (snd (mw_tasks w ! i))" for i
  proof -
    have "wp (snd (mw_tasks w ! i)) cr i (promise cr i (fst (mw_tasks w ! i))) w"
      using mfa_okD(3) [OF mfa_reachable_ok [OF assms]] i(1) by (simp add: tasks_ok_def)
    then show ?thesis
      using i(2, 3) by (cases "snd (mw_tasks w ! i)"; cases "fst (mw_tasks w ! i)") auto
  qed
  moreover have "counted u (mw_log w) (map_of (mw_auths w) u) \<and> apart u (mw_log w)" for u
    using attempts_counted reachable_events [OF assms] by blast
  ultimately show ?thesis by (simp add: counted_def)
qed

theorem mfa_guesses_bounded_witness:
  "was_charged 6 mfa7 \<and> (\<forall>u e. length (filter (guess u e) (mw_log mfa7)) \<le> 10)"
  using mfa_guesses_bounded [OF mfa7_reachable inj_nat_str] by (simp add: mfa7_answer)

end
