(* ===== verification/Dynamic.thy ===== *)
theory Dynamic
  imports Messages "HOL-Library.Monad_Syntax"
begin

text \<open>
  Python operations on dynamic values where the kind of the exception makes no difference: \<open>None\<close>
  is a raised exception. They serve the chat histories and the usage records, whose callers catch
  every exception.
\<close>

fun dict :: "json \<Rightarrow> json dict option" where
  "dict (JObj d) = Some d"
| "dict _ = None"

fun is_list :: "json \<Rightarrow> bool" where
  "is_list (JList xs) = True"
| "is_list _ = False"

text \<open>\<open>x in d\<close> and \<open>d.get(x)\<close> for a dictionary with string keys: an unhashable \<open>x\<close> raises.\<close>

definition in_dict :: "json \<Rightarrow> json dict \<Rightarrow> bool option" where
  "in_dict x d = (case x of JStr s \<Rightarrow> Some (map_of d s \<noteq> None)
     | _ \<Rightarrow> if hashable x then Some False else None)"

definition dict_get :: "json dict \<Rightarrow> json \<Rightarrow> json \<Rightarrow> json option" where
  "dict_get d x v0 = (case x of JStr s \<Rightarrow> Some (jget_default d s v0)
     | _ \<Rightarrow> if hashable x then Some v0 else None)"

text \<open>\<open>s in v\<close> for a string: an element, a substring or a key.\<close>

definition is_substring :: "string \<Rightarrow> string \<Rightarrow> bool" where
  "is_substring s t \<longleftrightarrow> list_ex (\<lambda>n. starts_with s (drop n t)) [0..<Suc (length t)]"

fun contains :: "json \<Rightarrow> string \<Rightarrow> bool option" where
  "contains (JList xs) s = Some (JStr s \<in> set xs)"
| "contains (JStr t) s = Some (is_substring s t)"
| "contains (JObj d) s = Some (map_of d s \<noteq> None)"
| "contains _ s = None"

fun iterate :: "json \<Rightarrow> json list option" where
  "iterate (JList xs) = Some xs"
| "iterate (JStr s) = Some (map (\<lambda>c. JStr [c]) s)"
| "iterate (JObj d) = Some (map (JStr \<circ> fst) d)"
| "iterate _ = None"

text \<open>\<open>v[-1]\<close> of a truthy value.\<close>

fun last_item :: "json \<Rightarrow> json option" where
  "last_item (JList xs) = (if xs = [] then None else Some (last xs))"
| "last_item (JStr s) = (if s = [] then None else Some (JStr [last s]))"
| "last_item _ = None"

text \<open>The value in a comparison of numbers.\<close>

fun number :: "json \<Rightarrow> int option" where
  "number (JInt i) = Some i"
| "number (JBool b) = Some (of_bool b)"
| "number _ = None"

fun filter_option :: "('a \<Rightarrow> bool option) \<Rightarrow> 'a list \<Rightarrow> 'a list option" where
  "filter_option P [] = Some []"
| "filter_option P (x # xs) = do { b \<leftarrow> P x; ys \<leftarrow> filter_option P xs; Some (if b then x # ys else ys) }"

fun concat_option :: "('a \<Rightarrow> 'b list option) \<Rightarrow> 'a list \<Rightarrow> 'b list option" where
  "concat_option f [] = Some []"
| "concat_option f (x # xs) = do { ys \<leftarrow> f x; zs \<leftarrow> concat_option f xs; Some (ys @ zs) }"

subsection \<open>Integers\<close>

text \<open>\<open>int(x)\<close>: in a string, digits with single underscores between them, a sign and blanks around.\<close>

definition is_digit :: "char \<Rightarrow> bool" where
  "is_digit c = (let n = of_char c :: nat in 48 \<le> n \<and> n \<le> 57)"

fun digits :: "nat \<Rightarrow> bool \<Rightarrow> string \<Rightarrow> nat option" where
  "digits n after_digit [] = (if after_digit then Some n else None)"
| "digits n after_digit (c # cs) =
     (if is_digit c then digits (10 * n + (of_char c - 48)) True cs
      else if c = CHR ''_'' \<and> after_digit then digits n False cs else None)"

definition int_of_text :: "string \<Rightarrow> int option" where
  "int_of_text s =
     (case strip s of [] \<Rightarrow> None
      | c # cs \<Rightarrow>
          if c = CHR ''-'' then map_option (\<lambda>n. - int n) (digits 0 False cs)
          else if c = CHR ''+'' then map_option int (digits 0 False cs)
          else map_option int (digits 0 False (c # cs)))"

fun py_int :: "json \<Rightarrow> int option" where
  "py_int (JStr s) = int_of_text s"
| "py_int v = number v"

text \<open>\<open>a + b\<close>\<close>

definition py_add :: "json \<Rightarrow> json \<Rightarrow> json option" where
  "py_add a b =
     (case (a, b) of
        (JStr s, JStr t) \<Rightarrow> Some (JStr (s @ t))
      | (JList xs, JList ys) \<Rightarrow> Some (JList (xs @ ys))
      | _ \<Rightarrow> do { x \<leftarrow> number a; y \<leftarrow> number b; Some (JInt (x + y)) })"

subsection \<open>Values for the database\<close>

text \<open>\<open>sanitize_data_for_db\<close>: NUL characters are removed; a value without any is left as it is.\<close>

fun nul_free :: "json \<Rightarrow> bool" where
  "nul_free (JStr s) = (CHR 0x00 \<notin> set s)"
| "nul_free (JList xs) = list_all nul_free xs"
| "nul_free (JObj d) = list_all (\<lambda>(k, v). CHR 0x00 \<notin> set k \<and> nul_free v) d"
| "nul_free _ = True"

definition sanitize_text_for_db :: "string \<Rightarrow> string" where
  "sanitize_text_for_db text = filter (\<lambda>c. c \<noteq> CHR 0x00) text"

function strip_null_bytes_deep :: "json \<Rightarrow> json" where
  "strip_null_bytes_deep (JStr s) = JStr (sanitize_text_for_db s)"
| "strip_null_bytes_deep (JList xs) = JList (map strip_null_bytes_deep xs)"
| "strip_null_bytes_deep (JObj d) =
     JObj (dict_merge [] (map (\<lambda>(k, v). (sanitize_text_for_db k, strip_null_bytes_deep v)) d))"
| "strip_null_bytes_deep JNull = JNull"
| "strip_null_bytes_deep (JBool b) = JBool b"
| "strip_null_bytes_deep (JInt i) = JInt i"
  by pat_completeness auto
termination
  by (relation "measure size") (auto intro: size_json_list size_json_dict)

definition sanitize_data_for_db :: "json \<Rightarrow> json" where
  "sanitize_data_for_db v = (if nul_free v then v else strip_null_bytes_deep v)"

end
