(* ===== verification/ChatTree.thy ===== *)
theory ChatTree
  imports Dynamic
begin

text \<open>
  The history of a chat (\<open>models/chats.py\<close>): the messages by identifier, each with \<open>parentId\<close> and
  \<open>childrenIds\<close>, and \<open>currentId\<close>, the message the client shows. The functions change the stored
  dictionaries in place; here they return them. \<open>None\<close> is a raised exception: which one it is makes
  no difference, since the transactions around these functions roll back and answer \<open>None\<close> or the
  status 500. Identifiers are compared structurally.
\<close>

subsection \<open>Links\<close>

definition add_child_id_to_parent :: "json dict \<Rightarrow> json \<Rightarrow> string \<Rightarrow> (json dict \<times> bool) option" where
  "add_child_id_to_parent messages parent_id child_id = do {
     parent \<leftarrow> (if truthy parent_id then dict_get messages parent_id JNull else Some JNull);
     Some (case (parent_id, parent) of
       (JStr p, JObj m) \<Rightarrow>
         (let child_ids = list_of (jget m ''childrenIds'')
          in if JStr child_id \<in> set child_ids then (messages, False)
             else (AList.update p (JObj (AList.update ''childrenIds'' (JList (child_ids @ [JStr child_id])) m))
                     messages, True))
     | _ \<Rightarrow> (messages, False)) }"

definition is_descent :: "json dict \<Rightarrow> string list \<Rightarrow> string \<Rightarrow> json \<Rightarrow> bool" where
  "is_descent messages seen_ids message_id child_id =
     (case child_id of
        JStr s \<Rightarrow> s \<notin> set seen_ids \<and>
          (case jget messages s of
             JObj child \<Rightarrow> jget child ''id'' = JStr s \<and> truthy (jget child ''role'') \<and>
               jget child ''parentId'' = JStr message_id
           | _ \<Rightarrow> False)
      | _ \<Rightarrow> False)"

definition next_descendant :: "json dict \<Rightarrow> string list \<Rightarrow> string \<Rightarrow> string option" where
  "next_descendant messages seen_ids message_id =
     (let child_ids = (case jget messages message_id of JObj m \<Rightarrow> list_of (jget m ''childrenIds'') | _ \<Rightarrow> [])
      in case List.find (is_descent messages seen_ids message_id) (rev child_ids) of
           Some (JStr s) \<Rightarrow> if s = [] then None else Some s
         | _ \<Rightarrow> None)"

function last_descendant_id :: "json dict \<Rightarrow> string list \<Rightarrow> string \<Rightarrow> string" where
  "last_descendant_id messages seen_ids message_id =
     (if map_of messages message_id = None \<or> message_id \<in> set seen_ids then message_id
      else case next_descendant messages (message_id # seen_ids) message_id of
             None \<Rightarrow> message_id
           | Some i \<Rightarrow> last_descendant_id messages (message_id # seen_ids) i)"
  by pat_completeness auto
termination
proof (relation "measure (\<lambda>(messages, seen, i). card (insert i (fst ` set messages) - set seen))", goal_cases)
  case 1
  show ?case by simp
next
  case (2 messages seen i j)
  then have "i \<in> fst ` set messages" by (simp add: map_of_eq_None_iff)
  moreover from 2 have "is_descent messages (i # seen) i (JStr j)"
    by (auto simp: next_descendant_def Let_def find_Some_iff split: option.splits json.splits if_splits)
  then have "j \<in> fst ` set messages"
    by (auto simp: is_descent_def jget_def split: json.splits option.splits intro: rev_image_eqI dest!: map_of_SomeD)
  ultimately show ?case
    using 2 unfolding in_measure prod.case by (intro psubset_card_mono) auto
qed

declare last_descendant_id.simps [simp del]

subsection \<open>The current message\<close>

definition get_current_message_id :: "json \<Rightarrow> json option" where
  "get_current_message_id chat = do {
     chat \<leftarrow> dict (jor chat (JObj []));
     let history = dict_of (jget chat ''history'');
     let current_id = jor (jor (jget history ''currentId'') (jget chat ''currentId'')) (jget chat ''branchPointMessageId'');
     Some (if truthy current_id then current_id
           else case List.find (\<lambda>m. is_dict m \<and> truthy (jget (dict_of m) ''id'')) (rev (list_of (jget chat ''messages''))) of
                  None \<Rightarrow> JNull
                | Some m \<Rightarrow> jget (dict_of m) ''id'') }"

text \<open>The first truthy \<open>role\<close> among the output items.\<close>

definition output_role :: "json \<Rightarrow> json option" where
  "output_role v = do {
     items \<leftarrow> iterate (jor v (JList []));
     Some (case List.find (\<lambda>i. is_dict i \<and> truthy (jget (dict_of i) ''role'')) items of
             None \<Rightarrow> JNull | Some i \<Rightarrow> jget (dict_of i) ''role'') }"

fun repair_children :: "(string \<times> json) list \<Rightarrow> json dict \<Rightarrow> (json dict \<times> bool) option" where
  "repair_children [] messages = Some (messages, False)"
| "repair_children ((message_id, JObj m) # items) messages = do {
     (messages, c) \<leftarrow> add_child_id_to_parent messages (jget m ''parentId'') message_id;
     (messages, c') \<leftarrow> repair_children items messages;
     Some (messages, c \<or> c') }"
| "repair_children (_ # items) messages = repair_children items messages"

text \<open>The leaf with the latest timestamp; the first of equal ones.\<close>

fun latest_leaf :: "(string \<times> json) list \<Rightarrow> string option \<Rightarrow> int \<Rightarrow> string option option" where
  "latest_leaf [] leaf t = Some leaf"
| "latest_leaf ((message_id, JObj m) # items) leaf t =
     (if truthy (jget m ''role'') \<and> list_of (jget m ''childrenIds'') = [] then do {
        timestamp \<leftarrow> number (jor (jget m ''timestamp'') (JInt 0));
        if timestamp > t then latest_leaf items (Some message_id) timestamp else latest_leaf items leaf t }
      else latest_leaf items leaf t)"
| "latest_leaf (_ # items) leaf t = latest_leaf items leaf t"

text \<open>Whether the current message can be kept: \<open>current_is_bad_leaf\<close> is a detached reply.\<close>

definition current_usable :: "json dict \<Rightarrow> json \<Rightarrow> bool option" where
  "current_usable messages current_id = do {
     current_message \<leftarrow> dict_get messages current_id JNull;
     (case current_message of
        JObj m \<Rightarrow> do {
          role \<leftarrow> output_role (jget m ''output'');
          Some (truthy (jget m ''id'') \<and> truthy (jget m ''role'') \<and>
                \<not> (role = JStr ''assistant'' \<and> jget m ''parentId'' = JNull \<and>
                   \<not> truthy (jget m ''timestamp'') \<and> length messages > 1)) }
      | _ \<Rightarrow> Some False) }"

definition choose_current :: "json dict \<Rightarrow> json \<Rightarrow> json option" where
  "choose_current messages current_id = do {
     usable \<leftarrow> current_usable messages current_id;
     if usable then
       (case current_id of JStr c \<Rightarrow> Some (JStr (last_descendant_id messages [] c)) | _ \<Rightarrow> None)
     else do {
       leaf \<leftarrow> latest_leaf messages None (- 1);
       Some (case leaf of None \<Rightarrow> current_id | Some l \<Rightarrow> if l = [] then current_id else JStr l) } }"

definition repair_history :: "json dict \<Rightarrow> json dict \<Rightarrow> (json dict \<times> bool) option" where
  "repair_history history messages = do {
     (messages, changed) \<leftarrow> repair_children messages messages;
     let history = AList.update ''messages'' (JObj messages) history;
     current_id \<leftarrow> choose_current messages (jget history ''currentId'');
     Some (if current_id = jget history ''currentId'' then (history, changed)
           else (AList.update ''currentId'' current_id history, True)) }"

definition repair_chat_current_id :: "json dict \<Rightarrow> (json dict \<times> bool) option" where
  "repair_chat_current_id chat =
     (case jget chat ''history'' of
        JObj history \<Rightarrow>
          (case jget history ''messages'' of
             JObj messages \<Rightarrow> do {
               (history, changed) \<leftarrow> repair_history history messages;
               Some (AList.update ''history'' (JObj history) chat, changed) }
           | _ \<Rightarrow> Some (chat, False))
      | _ \<Rightarrow> Some (chat, False))"

subsection \<open>Merging histories\<close>

text \<open>The \<open>messages\<close> of a history that may be \<open>None\<close>.\<close>

definition messages_of :: "json \<Rightarrow> json dict option" where
  "messages_of history = do {
     history \<leftarrow> dict (jor history (JObj []));
     dict (jor (jget history ''messages'') (JObj [])) }"

definition reset_children :: "json dict \<Rightarrow> json dict" where
  "reset_children messages =
     map (\<lambda>(i, v). (i, JObj (AList.update ''childrenIds'' (JList []) (dict_of v))))
       (filter (\<lambda>(i, v). is_dict v) messages)"

definition append_child :: "json \<Rightarrow> json \<Rightarrow> json" where
  "append_child x v = JObj (AList.update ''childrenIds'' (JList (list_of (jget (dict_of v) ''childrenIds'') @ [x])) (dict_of v))"

fun link_children :: "(string \<times> json) list \<Rightarrow> json dict \<Rightarrow> json dict option" where
  "link_children [] merged = Some merged"
| "link_children ((message_id, v) # items) merged = do {
     let parent_id = jget (dict_of v) ''parentId'';
     present \<leftarrow> in_dict parent_id merged;
     link_children items
       (case parent_id of
          JStr p \<Rightarrow> if present then AList.update p (append_child (JStr message_id) (jget merged p)) merged else merged
        | _ \<Rightarrow> merged) }"

definition merge_history :: "json \<Rightarrow> json \<Rightarrow> json dict option" where
  "merge_history existing_history incoming_history = do {
     existing \<leftarrow> messages_of existing_history;
     incoming \<leftarrow> messages_of incoming_history;
     let items = reset_children (dict_merge existing incoming);
     merged \<leftarrow> link_children items items;
     let old_history = dict_of (jor existing_history (JObj []));
     let new_history = dict_of (jor incoming_history (JObj []));
     present \<leftarrow> in_dict (jget new_history ''currentId'') merged;
     old_present \<leftarrow> (if present then Some True else in_dict (jget old_history ''currentId'') merged);
     let current_id = (if present then jget new_history ''currentId''
                       else if old_present then jget old_history ''currentId'' else JNull);
     Some (AList.update ''currentId'' current_id
             (AList.update ''messages'' (JObj merged) (dict_merge old_history new_history))) }"

definition get_unresolved_parent_ids :: "json dict \<Rightarrow> json list option" where
  "get_unresolved_parent_ids messages_map = do {
     ids \<leftarrow> filter_option (\<lambda>p. do { b \<leftarrow> in_dict p messages_map; Some (\<not> b) })
              (filter truthy (map (\<lambda>(i, v). jget (dict_of v) ''parentId'') messages_map));
     if list_ex (\<lambda>(i, v). \<not> is_dict v) messages_map then None
     else Some (remdups ids) }"

subsection \<open>Deleting a message\<close>

text \<open>The listed children of a message that exist, for a message that must be a dictionary.\<close>

definition present_children :: "json dict \<Rightarrow> json \<Rightarrow> json list option" where
  "present_children messages message = do {
     m \<leftarrow> dict message;
     child_ids \<leftarrow> iterate (jor (jget m ''childrenIds'') (JList []));
     filter_option (\<lambda>c. in_dict c messages) child_ids }"

fun key :: "json \<Rightarrow> string" where
  "key (JStr s) = s"
| "key _ = []"

fun set_parent :: "json \<Rightarrow> string list \<Rightarrow> json dict \<Rightarrow> json dict option" where
  "set_parent parent_id [] messages = Some messages"
| "set_parent parent_id (g # gs) messages =
     (case jget messages g of
        JObj m \<Rightarrow> set_parent parent_id gs (AList.update g (JObj (AList.update ''parentId'' parent_id m)) messages)
      | _ \<Rightarrow> None)"

text \<open>The walk to the last leaf; an identifier that is not stored has no children.\<close>

function last_leaf :: "json dict \<Rightarrow> json list \<Rightarrow> json \<Rightarrow> json \<Rightarrow> json option" where
  "last_leaf messages visited_ids current_id child_ids =
     (if \<not> truthy child_ids then Some current_id
      else case last_item child_ids of
        None \<Rightarrow> None
      | Some c \<Rightarrow>
          if \<not> hashable c then None
          else if c \<in> set visited_ids then Some current_id
          else case Option.bind (dict_get messages c (JObj [])) dict of
            None \<Rightarrow> None
          | Some m \<Rightarrow> last_leaf messages (c # visited_ids) c (jget_default m ''childrenIds'' (JList [])))"
  by pat_completeness auto
termination
proof (relation "measure (\<lambda>(messages, visited, _, child_ids).
    if truthy child_ids then Suc (card (set (map (JStr \<circ> fst) messages) - set visited)) else 0)", goal_cases)
  case 1
  show ?case by simp
next
  case (2 messages visited current child_ids c m)
  show ?case
  proof (cases "c \<in> set (map (JStr \<circ> fst) messages)")
    case True
    with 2 have "card (set (map (JStr \<circ> fst) messages) - set (c # visited)) < card (set (map (JStr \<circ> fst) messages) - set visited)"
      by (intro psubset_card_mono) auto
    with 2 show ?thesis by simp
  next
    case False
    then have "map_of messages s = None" if "c = JStr s" for s
      using that by (auto simp: map_of_eq_None_iff image_iff)
    with 2 have "m = []"
      by (auto simp: dict_get_def jget_default_def split: json.splits if_splits option.splits bind_splits)
    with 2 show ?thesis by simp
  qed
qed

declare last_leaf.simps [simp del]

text \<open>The links around the message are redrawn, and it is removed with its children.\<close>

definition remove_with_children :: "json dict \<Rightarrow> string \<Rightarrow> json dict \<Rightarrow> (json dict \<times> string list) option" where
  "remove_with_children messages message_id message = do {
     let parent_id = jget message ''parentId'';
     child_ids \<leftarrow> present_children messages (JObj message);
     grandchild_ids \<leftarrow> concat_option (\<lambda>c. present_children messages (jget messages (key c))) child_ids;
     parent_present \<leftarrow> in_dict parent_id messages;
     messages \<leftarrow> (if parent_present then do {
         parent \<leftarrow> dict (jget messages (key parent_id));
         siblings \<leftarrow> iterate (jor (jget parent ''childrenIds'') (JList []));
         Some (AList.update (key parent_id) (JObj (AList.update ''childrenIds''
           (JList (filter (\<lambda>c. c \<noteq> JStr message_id) siblings @ grandchild_ids)) parent)) messages) }
       else Some messages);
     messages \<leftarrow> set_parent parent_id (map key grandchild_ids) messages;
     let deleted_ids = remdups (message_id # map key child_ids);
     Some (filter (\<lambda>(i, v). i \<notin> set deleted_ids) messages, deleted_ids) }"

definition current_below :: "json dict \<Rightarrow> json \<Rightarrow> json option" where
  "current_below messages parent_id = do {
     child_ids \<leftarrow> (if parent_id = JNull then do {
         roots \<leftarrow> filter_option (\<lambda>(i, v). map_option (\<lambda>m. jget m ''parentId'' = JNull) (dict v)) messages;
         Some (JList (map (JStr \<circ> fst) roots)) }
       else do {
         parent \<leftarrow> Option.bind (dict_get messages parent_id (JObj [])) dict;
         Some (jget_default parent ''childrenIds'' (JList [])) });
     current_id \<leftarrow> last_leaf messages [] parent_id child_ids;
     present \<leftarrow> in_dict current_id messages;
     Some (if present then current_id else JNull) }"

definition delete_message_from_history :: "json dict \<Rightarrow> string \<Rightarrow> (json dict \<times> string list) option" where
  "delete_message_from_history history message_id = do {
     messages \<leftarrow> dict (jor (jget history ''messages'') (JObj []));
     (case jget messages message_id of
        JObj message \<Rightarrow> do {
          (messages, deleted_ids) \<leftarrow> remove_with_children messages message_id message;
          current_id \<leftarrow> current_below messages (jget message ''parentId'');
          Some (AList.update ''currentId'' current_id (AList.update ''messages'' (JObj messages) history), deleted_ids) }
      | _ \<Rightarrow> Some (history, [])) }"

subsection \<open>Saving a message\<close>

definition merge_meta :: "json dict \<Rightarrow> json dict \<Rightarrow> json dict" where
  "merge_meta existing_meta incoming_meta =
     (if set (map fst incoming_meta) \<subseteq> {''voice'', ''task_id''} then dict_merge existing_meta incoming_meta
      else dict_merge (List.map_filter (\<lambda>k. map_option (Pair k) (map_of existing_meta k)) [''voice'', ''task_id''])
             incoming_meta)"

fun adopting_parent :: "(string \<times> json) list \<Rightarrow> string \<Rightarrow> json option" where
  "adopting_parent [] message_id = Some JNull"
| "adopting_parent ((i, v) # items) message_id = do {
     m \<leftarrow> dict v;
     b \<leftarrow> contains (jget_default m ''childrenIds'' (JList [])) message_id;
     if b then Some (JStr i) else adopting_parent items message_id }"

definition new_message_role :: "json \<Rightarrow> json \<Rightarrow> json \<Rightarrow> json option" where
  "new_message_role role item_role parent =
     (if truthy (jor role item_role) then Some (jor role item_role)
      else do {
        parent_role \<leftarrow> (if truthy parent then map_option (\<lambda>p. jget p ''role'') (dict parent) else Some JNull);
        Some (if parent_role = JStr ''assistant'' then JStr ''user'' else JStr ''assistant'') })"

definition new_message :: "int \<Rightarrow> json dict \<Rightarrow> string \<Rightarrow> json dict \<Rightarrow> json dict option" where
  "new_message now messages message_id message = do {
     let message_parent_id = jget message ''parentId'';
     parent_id \<leftarrow> (if message_parent_id = JNull then adopting_parent messages message_id else Some message_parent_id);
     parent \<leftarrow> (if truthy parent_id then dict_get messages parent_id JNull else Some JNull);
     r \<leftarrow> output_role (jget message ''output'');
     role \<leftarrow> new_message_role (jget message ''role'') r parent;
     Some (dict_merge message
       [(''id'', jor (jget message ''id'') (JStr message_id)), (''parentId'', parent_id),
        (''childrenIds'', JList (list_of (jget message ''childrenIds''))), (''role'', role),
        (''timestamp'', jor (jget message ''timestamp'') (JInt now))]) }"

definition upsert_message_to_history :: "int \<Rightarrow> json dict \<Rightarrow> string \<Rightarrow> json dict \<Rightarrow> (json dict \<times> json) option" where
  "upsert_message_to_history now history message_id message = do {
     messages \<leftarrow> dict (jget_default history ''messages'' (JObj []));
     (message, history) \<leftarrow> (case map_of messages message_id of
        Some existing \<Rightarrow> do {
          existing \<leftarrow> dict existing;
          let message = (case jget message ''meta'' of
            JObj meta \<Rightarrow> AList.update ''meta'' (JObj (merge_meta (dict_of (jget existing ''meta'')) meta)) message
          | _ \<Rightarrow> message);
          Some (dict_merge existing message, history) }
      | None \<Rightarrow> do {
          message \<leftarrow> new_message now messages message_id message;
          Some (message, AList.update ''currentId'' (JStr message_id) history) });
     (linked, c) \<leftarrow> add_child_id_to_parent (AList.update message_id (JObj message) messages)
       (jget message ''parentId'') message_id;
     Some (AList.update ''messages'' (JObj linked) history, jget linked message_id) }"

end
