(* ===== verification/Usage.thy ===== *)
theory Usage
  imports Dynamic
begin

text \<open>
  Usage records of language models (\<open>utils/response.py\<close>): token counts under the names of the
  providers are normalised to \<open>input_tokens\<close>, \<open>output_tokens\<close> and \<open>total_tokens\<close>, and the records of
  several calls are added up. Costs are floating-point numbers and outside the value domain.
\<close>

definition normalize_usage :: "json \<Rightarrow> json dict option" where
  "normalize_usage usage =
     (if \<not> truthy usage then Some []
      else do {
        usage \<leftarrow> dict usage;
        let reported = jor (jor (jget usage ''input_tokens'') (jget usage ''prompt_tokens'')) (jget usage ''prompt_eval_count'');
        input_tokens \<leftarrow> (if reported = JNull then do {
            a \<leftarrow> py_int (jor (jget usage ''prompt_n'') (JInt 0));
            b \<leftarrow> py_int (jor (jget usage ''cache_n'') (JInt 0));
            Some (JInt (a + b)) }
          else Some reported);
        let output_tokens = jor (jor (jor (jor (jget usage ''output_tokens'') (jget usage ''completion_tokens''))
          (jget usage ''eval_count'')) (jget usage ''predicted_n'')) (JInt 0);
        total_tokens \<leftarrow> (if truthy (jget usage ''total_tokens'') then Some (jget usage ''total_tokens'')
          else py_add input_tokens output_tokens);
        a \<leftarrow> py_int input_tokens;
        b \<leftarrow> py_int output_tokens;
        c \<leftarrow> py_int total_tokens;
        Some (AList.update ''total_tokens'' (JInt c) (AList.update ''output_tokens'' (JInt b)
          (AList.update ''input_tokens'' (JInt a) usage))) })"

definition USAGE_TOKEN_KEYS :: "string list" where
  "USAGE_TOKEN_KEYS = [''input_tokens'', ''output_tokens'', ''total_tokens'']"

definition USAGE_SUMMABLE_KEYS :: "string list" where
  "USAGE_SUMMABLE_KEYS = USAGE_TOKEN_KEYS @
     [''cost'', ''total_cost'', ''input_cost'', ''output_cost'', ''prompt_cost'', ''completion_cost'']"

definition USAGE_DETAIL_KEYS :: "string list" where
  "USAGE_DETAIL_KEYS =
     [''prompt_tokens_details'', ''completion_tokens_details'', ''input_tokens_details'', ''output_tokens_details'']"

fun is_numeric_usage_value :: "json \<Rightarrow> bool" where
  "is_numeric_usage_value (JInt i) = True"
| "is_numeric_usage_value _ = False"

fun numeric_value :: "json \<Rightarrow> int" where
  "numeric_value (JInt i) = i"
| "numeric_value _ = 0"

abbreviation dict_size :: "json dict \<Rightarrow> nat" where
  "dict_size d \<equiv> size_list (size_prod (\<lambda>_. 0) size) d"

lemma dict_size_get: "is_dict (jget_default d k (JInt 0)) \<Longrightarrow> dict_size (dict_of (jget_default d k (JInt 0))) < dict_size d"
proof (induction d)
  case (Cons x d)
  then show ?case by (cases x; cases "snd x") (auto split: if_splits)
qed simp

lemma dict_size_get_le: "dict_size (dict_of (jget_default d k (JInt 0))) \<le> dict_size d"
  using dict_size_get [of d k] by (cases "jget_default d k (JInt 0)") auto

function merge_numeric_usage_map :: "json dict \<Rightarrow> json dict \<Rightarrow> json dict" where
  "merge_numeric_usage_map current incoming =
     map (\<lambda>(key, v).
       (key,
        let current_value = jget_default current key (JInt 0); incoming_value = jget_default incoming key (JInt 0)
        in if is_dict current_value \<or> is_dict incoming_value
           then JObj (merge_numeric_usage_map (dict_of current_value) (dict_of incoming_value))
           else if is_numeric_usage_value current_value \<or> is_numeric_usage_value incoming_value
           then JInt (numeric_value current_value + numeric_value incoming_value)
           else v))
       (dict_merge current incoming)"
  by pat_completeness auto
termination
proof (relation "measure (\<lambda>(c, i). dict_size c + dict_size i)", goal_cases)
  case (2 c i x k v cv iv)
  then show ?case
    using dict_size_get [of c k] dict_size_get [of i k] dict_size_get_le [of c k] dict_size_get_le [of i k]
    by (auto intro: add_less_le_mono add_le_less_mono)
qed simp

declare merge_numeric_usage_map.simps [simp del]

definition sum_usage_key :: "json dict \<Rightarrow> json dict \<Rightarrow> string \<Rightarrow> json dict \<Rightarrow> json dict" where
  "sum_usage_key current_usage incoming_usage key result =
     (let current_value = jget_default current_usage key (JInt 0); incoming_value = jget_default incoming_usage key (JInt 0)
      in if (map_of current_usage key \<noteq> None \<or> map_of incoming_usage key \<noteq> None) \<and>
            (is_numeric_usage_value current_value \<or> is_numeric_usage_value incoming_value)
         then AList.update key (JInt (numeric_value current_value + numeric_value incoming_value)) result
         else result)"

definition merge_usage_details :: "json dict \<Rightarrow> json dict \<Rightarrow> string \<Rightarrow> json dict \<Rightarrow> json dict" where
  "merge_usage_details current_usage incoming_usage key result =
     (if is_dict (jget current_usage key) \<or> is_dict (jget incoming_usage key)
      then AList.update key
             (JObj (merge_numeric_usage_map (dict_of (jget current_usage key)) (dict_of (jget incoming_usage key)))) result
      else result)"

definition merge_usage :: "json \<Rightarrow> json \<Rightarrow> json dict option" where
  "merge_usage current incoming = do {
     current_usage \<leftarrow> normalize_usage current;
     incoming_usage \<leftarrow> normalize_usage incoming;
     Some (if incoming_usage = [] then current_usage
       else if current_usage = [] then incoming_usage
       else
         (let result = fold (sum_usage_key current_usage incoming_usage) USAGE_SUMMABLE_KEYS
                (dict_merge current_usage incoming_usage);
              result = fold (merge_usage_details current_usage incoming_usage) USAGE_DETAIL_KEYS result
          in AList.update ''completion_tokens''
               (jor (jor (jget incoming_usage ''completion_tokens'') (jget incoming_usage ''output_tokens''))
                  (jget_default current_usage ''completion_tokens'' (JInt 0)))
             (AList.update ''prompt_tokens''
               (jor (jor (jget incoming_usage ''prompt_tokens'') (jget incoming_usage ''input_tokens''))
                  (jget_default current_usage ''prompt_tokens'' (JInt 0))) result))) }"

end
