(* ===== verification/ChatRows.thy ===== *)
theory ChatRows
  imports ChatTree Usage
begin

text \<open>
  The table of chat messages (\<open>models/chat_messages.py\<close>), the second store of the messages of a
  chat: one row per message under the key \<open>chat id - message id\<close>. What the columns accept is decided by
  the database and by the model class: the predicates \<open>storable\<close> and \<open>valid\<close> of the environment. A value
  that a column would convert is outside the model: an accepted row is read back as it was written.
\<close>

record message_row =
  mr_id :: string
  mr_chat_id :: string
  mr_user_id :: json
  mr_role :: json
  mr_parent_id :: json
  mr_content :: json
  mr_output :: json
  mr_model_id :: json
  mr_files :: json
  mr_sources :: json
  mr_embeds :: json
  mr_meta :: json
  mr_done :: json
  mr_status_history :: json
  mr_error :: json
  mr_usage :: json
  mr_context_summary :: json
  mr_created_at :: json
  mr_updated_at :: json

record store_env =
  now :: int
  storable :: "message_row \<Rightarrow> bool"
  valid :: "message_row \<Rightarrow> bool"

abbreviation has_key :: "string \<Rightarrow> json dict \<Rightarrow> bool" where
  "has_key k d \<equiv> map_of d k \<noteq> None"

subsection \<open>Writing rows\<close>

definition get_usage :: "json dict \<Rightarrow> json option" where
  "get_usage data = do {
     info \<leftarrow> (if truthy (jget data ''usage'') then Some [] else dict (jor (jget data ''info'') (JObj [])));
     let usage = jor (jget data ''usage'') (jget info ''usage'');
     if truthy usage then map_option JObj (normalize_usage usage) else Some JNull }"

text \<open>The new usage of a row: equal records are the same report, others are added.\<close>

definition apply_usage :: "json \<Rightarrow> json dict \<Rightarrow> json option" where
  "apply_usage stored data = do {
     usage \<leftarrow> get_usage data;
     if \<not> truthy usage then Some stored
     else do {
       existing_usage \<leftarrow> normalize_usage stored;
       if py_eq usage (JObj existing_usage) then Some usage
       else map_option JObj (merge_usage (JObj existing_usage) usage) } }"

definition apply_message_data :: "message_row \<Rightarrow> json dict \<Rightarrow> int \<Rightarrow> message_row option" where
  "apply_message_data message data t = do {
     usage \<leftarrow> apply_usage (mr_usage message) data;
     let set = (\<lambda>keys value old. if list_ex (\<lambda>k. has_key k data) keys then value else old);
     Some (message\<lparr>
       mr_role := set [''role''] (jget data ''role'') (mr_role message),
       mr_parent_id := set [''parent_id'', ''parentId''] (jor (jget data ''parent_id'') (jget data ''parentId'')) (mr_parent_id message),
       mr_content := set [''content''] (jget data ''content'') (mr_content message),
       mr_output := set [''output''] (jget data ''output'') (mr_output message),
       mr_model_id := set [''model_id'', ''model''] (jor (jget data ''model_id'') (jget data ''model'')) (mr_model_id message),
       mr_files := set [''files''] (jget data ''files'') (mr_files message),
       mr_sources := set [''sources''] (jget data ''sources'') (mr_sources message),
       mr_embeds := set [''embeds''] (jget data ''embeds'') (mr_embeds message),
       mr_meta := set [''meta''] (jget data ''meta'') (mr_meta message),
       mr_done := set [''done''] (jget data ''done'') (mr_done message),
       mr_status_history := set [''status_history'', ''statusHistory'']
         (jor (jget data ''status_history'') (jget data ''statusHistory'')) (mr_status_history message),
       mr_error := set [''error''] (jget data ''error'') (mr_error message),
       mr_context_summary := set [''context_summary'', ''contextSummary'']
         (jor (jget data ''context_summary'') (jget data ''contextSummary'')) (mr_context_summary message),
       mr_usage := usage,
       mr_updated_at := JInt t\<rparr>) }"

definition build_message :: "string \<Rightarrow> string \<Rightarrow> json \<Rightarrow> json dict \<Rightarrow> int \<Rightarrow> message_row option" where
  "build_message composite_id chat_id user_id data t = do {
     usage \<leftarrow> get_usage data;
     Some \<lparr>mr_id = composite_id, mr_chat_id = chat_id, mr_user_id = user_id,
       mr_role = jget_default data ''role'' (JStr ''user''),
       mr_parent_id = jor (jget data ''parent_id'') (jget data ''parentId''),
       mr_content = jget data ''content'', mr_output = jget data ''output'',
       mr_model_id = jor (jget data ''model_id'') (jget data ''model''),
       mr_files = jget data ''files'', mr_sources = jget data ''sources'', mr_embeds = jget data ''embeds'',
       mr_meta = jget data ''meta'', mr_done = jget_default data ''done'' (JBool True),
       mr_status_history = jor (jget data ''status_history'') (jget data ''statusHistory''),
       mr_error = jget data ''error'', mr_usage = usage,
       mr_context_summary = jor (jget data ''context_summary'') (jget data ''contextSummary''),
       mr_created_at = jor (jget data ''timestamp'') (JInt t), mr_updated_at = JInt t\<rparr> }"

definition composite_id :: "string \<Rightarrow> string \<Rightarrow> string" where
  "composite_id chat_id message_id = chat_id @ ''-'' @ message_id"

definition get_row :: "message_row list \<Rightarrow> string \<Rightarrow> message_row option" where
  "get_row rows i = List.find (\<lambda>r. mr_id r = i) rows"

definition put_row :: "message_row \<Rightarrow> message_row list \<Rightarrow> message_row list" where
  "put_row row rows =
     (if get_row rows (mr_id row) = None then rows @ [row]
      else map (\<lambda>r. if mr_id r = mr_id row then row else r) rows)"

text \<open>One insert or update; the flush and the validation of the result may refuse it.\<close>

definition upsert_message ::
  "store_env \<Rightarrow> string \<Rightarrow> string \<Rightarrow> json \<Rightarrow> json dict \<Rightarrow> message_row list \<Rightarrow> message_row list option" where
  "upsert_message e message_id chat_id user_id data rows = do {
     row \<leftarrow> (case get_row rows (composite_id chat_id message_id) of
        Some message \<Rightarrow> apply_message_data message data (now e)
      | None \<Rightarrow> build_message (composite_id chat_id message_id) chat_id user_id data (now e));
     if storable e row \<and> valid e row then Some (put_row row rows) else None }"

text \<open>The backfill is one statement: rows that exist are left alone.\<close>

fun build_messages :: "store_env \<Rightarrow> string \<Rightarrow> json \<Rightarrow> (string \<times> json) list \<Rightarrow> message_row list option" where
  "build_messages e chat_id user_id [] = Some []"
| "build_messages e chat_id user_id ((mid, v) # messages) = do {
     data \<leftarrow> dict v;
     row \<leftarrow> build_message (composite_id chat_id mid) chat_id (jor (jget data ''user_id'') user_id) data (now e);
     rows \<leftarrow> build_messages e chat_id user_id messages;
     Some (row # rows) }"

definition insert_missing :: "message_row list \<Rightarrow> message_row list \<Rightarrow> message_row list" where
  "insert_missing new rows = fold (\<lambda>r rows. if get_row rows (mr_id r) = None then rows @ [r] else rows) new rows"

definition upsert_messages ::
  "store_env \<Rightarrow> string \<Rightarrow> json \<Rightarrow> (string \<times> json) list \<Rightarrow> message_row list \<Rightarrow> message_row list option" where
  "upsert_messages e chat_id user_id messages rows =
     (if messages = [] then Some rows
      else do {
        new \<leftarrow> build_messages e chat_id user_id messages;
        if list_all (storable e) new then Some (insert_missing new rows) else None })"

definition delete_message_ids_by_chat_id :: "string \<Rightarrow> string list \<Rightarrow> message_row list \<Rightarrow> message_row list" where
  "delete_message_ids_by_chat_id chat_id message_ids rows =
     filter (\<lambda>r. \<not> (mr_chat_id r = chat_id \<and> mr_id r \<in> composite_id chat_id ` set message_ids)) rows"

definition has_unfinished_assistant_by_chat_id :: "string \<Rightarrow> message_row list \<Rightarrow> bool" where
  "has_unfinished_assistant_by_chat_id chat_id rows =
     list_ex (\<lambda>r. mr_chat_id r = chat_id \<and> mr_role r = JStr ''assistant'' \<and> mr_done r = JBool False) rows"

subsection \<open>Reading the messages of a chat\<close>

text \<open>The columns in the order of the table under their names in a message; \<open>None\<close> is left out.\<close>

definition row_columns :: "message_row \<Rightarrow> json dict" where
  "row_columns row = filter (\<lambda>(k, v). v \<noteq> JNull)
     [(''user_id'', mr_user_id row), (''role'', mr_role row), (''parentId'', mr_parent_id row),
      (''content'', mr_content row), (''output'', mr_output row), (''model'', mr_model_id row),
      (''files'', mr_files row), (''sources'', mr_sources row), (''embeds'', mr_embeds row),
      (''meta'', mr_meta row), (''done'', mr_done row), (''statusHistory'', mr_status_history row),
      (''error'', mr_error row), (''usage'', mr_usage row), (''contextSummary'', mr_context_summary row),
      (''timestamp'', mr_created_at row)]"

definition strip_prefix :: "string \<Rightarrow> string \<Rightarrow> string" where
  "strip_prefix prefix s = (if starts_with prefix s then drop (length prefix) s else s)"

definition row_message :: "string \<Rightarrow> message_row \<Rightarrow> json dict" where
  "row_message msg_id row =
     (let msg = (''id'', JStr msg_id) # row_columns row;
          msg = (if has_key ''content'' msg then msg else msg @ [(''content'', JStr [])])
      in if has_key ''usage'' msg then msg @ [(''info'', JObj [(''usage'', jget msg ''usage'')])] else msg)"

fun link_rows :: "(string \<times> json) list \<Rightarrow> json dict \<Rightarrow> json dict option" where
  "link_rows [] messages_map = Some messages_map"
| "link_rows ((msg_id, v) # items) messages_map = do {
     let parent_id = jget (dict_of v) ''parentId'';
     present \<leftarrow> (if truthy parent_id then in_dict parent_id messages_map else Some False);
     link_rows items
       (if present then AList.update (key parent_id) (append_child (JStr msg_id) (jget messages_map (key parent_id))) messages_map
        else messages_map) }"

definition with_children :: "json \<Rightarrow> json" where
  "with_children v = (if has_key ''childrenIds'' (dict_of v) then v
     else JObj (AList.update ''childrenIds'' (JList []) (dict_of v)))"

text \<open>\<open>None\<close> inside: the chat has no rows.\<close>

definition row_messages_map :: "string \<Rightarrow> message_row list \<Rightarrow> json dict option option" where
  "row_messages_map chat_id rows =
     (case filter (\<lambda>r. mr_chat_id r = chat_id) rows of
        [] \<Rightarrow> Some None
      | own \<Rightarrow> do {
          let items = dict_merge [] (map (\<lambda>r. let i = strip_prefix (chat_id @ ''-'') (mr_id r) in (i, JObj (row_message i r))) own);
          linked \<leftarrow> link_rows items items;
          Some (Some (map (\<lambda>(i, v). (i, with_children v)) linked)) })"

end
