(* ===== verification/ChatOps.thy ===== *)
theory ChatOps
  imports ChatRows
begin

text \<open>
  The operations of \<open>ChatTable\<close> (\<open>models/chats.py\<close>) on the messages of a chat. Every one locks the row
  of the chat and changes the history in it and the rows of \<open>chat_message\<close> in one transaction: an
  exception leaves both as they were. The operations that answer \<open>None\<close> do so for a missing chat and for
  every exception. \<open>valid_chat\<close> says whether the changed row passes the columns and the model class.
\<close>

record chat_item =
  ci_user_id :: string
  ci_title :: json
  ci_chat :: json
  ci_current_message_id :: json
  ci_updated_at :: int

record chat_env = store_env +
  valid_chat :: "chat_item \<Rightarrow> bool"

record chat_db =
  chats :: "chat_item dict"
  rows :: "message_row list"

type_synonym 'a change = "('a \<times> chat_item \<times> message_row list)"

definition chat_transaction ::
  "string \<Rightarrow> (chat_item \<Rightarrow> message_row list \<Rightarrow> 'a change option) \<Rightarrow> chat_db \<Rightarrow> 'a option \<times> chat_db" where
  "chat_transaction i body d =
     (case map_of (chats d) i of
        None \<Rightarrow> (None, d)
      | Some item \<Rightarrow>
          (case body item (rows d) of
             None \<Rightarrow> (None, d)
           | Some (x, item, rs) \<Rightarrow> (Some x, \<lparr>chats = AList.update i item (chats d), rows = rs\<rparr>)))"

text \<open>\<open>chat_item.chat or {}\<close>\<close>

definition chat_data :: "chat_item \<Rightarrow> json dict option" where
  "chat_data item = dict (jor (ci_chat item) (JObj []))"

definition user_of :: "json dict \<Rightarrow> chat_item \<Rightarrow> json" where
  "user_of message item = jor (jget message ''user_id'') (JStr (ci_user_id item))"

definition clean :: "json dict \<Rightarrow> json dict" where
  "clean d = dict_of (sanitize_data_for_db (JObj d))"

text \<open>The columns that follow the chat, and the check of the model class.\<close>

definition store_chat :: "json dict \<Rightarrow> chat_item \<Rightarrow> chat_item option" where
  "store_chat chat item = do {
     current \<leftarrow> get_current_message_id (JObj chat);
     Some (item\<lparr>ci_chat := JObj chat,
       ci_title := sanitize_data_for_db (jget_default chat ''title'' (JStr ''New Chat'')),
       ci_current_message_id := current\<rparr>) }"

definition checked :: "chat_env \<Rightarrow> chat_item \<Rightarrow> message_row list \<Rightarrow> chat_item change option" where
  "checked e item rs = (if valid_chat e item then Some (item, item, rs) else None)"

definition save_message_row ::
  "chat_env \<Rightarrow> string \<Rightarrow> chat_item \<Rightarrow> string \<times> json \<Rightarrow> message_row list \<Rightarrow> message_row list option" where
  "save_message_row e i item m rs = do {
     message \<leftarrow> dict (snd m);
     upsert_message (store_env.truncate e) (fst m) i (user_of message item) message rs }"

fun save_message_rows ::
  "chat_env \<Rightarrow> string \<Rightarrow> chat_item \<Rightarrow> (string \<times> json) list \<Rightarrow> message_row list \<Rightarrow> message_row list option" where
  "save_message_rows e i item [] rs = Some rs"
| "save_message_rows e i item (m # ms) rs = do {
     rs \<leftarrow> save_message_row e i item m rs;
     save_message_rows e i item ms rs }"

subsection \<open>One message\<close>

definition with_output_text :: "json dict \<Rightarrow> json dict" where
  "with_output_text message =
     (let output_text = get_output_text (jget message ''output'')
      in if \<not> truthy (jget message ''content'') \<and> output_text \<noteq> []
         then AList.update ''content'' (JStr output_text) message else message)"

definition upsert_message_to_chat_by_id_and_message_id ::
  "chat_env \<Rightarrow> string \<Rightarrow> string \<Rightarrow> json dict \<Rightarrow> bool \<Rightarrow> chat_db \<Rightarrow> chat_item option \<times> chat_db" where
  "upsert_message_to_chat_by_id_and_message_id e i message_id message touch d =
     (let message = clean (with_output_text message);
          message_id = sanitize_text_for_db message_id
      in chat_transaction i (\<lambda>item rs. do {
           chat \<leftarrow> chat_data item;
           (chat, repaired) \<leftarrow> repair_chat_current_id chat;
           history \<leftarrow> dict (jget_default chat ''history'' (JObj []));
           (history, saved_message) \<leftarrow> upsert_message_to_history (now e) history message_id message;
           rs \<leftarrow> save_message_row e i item (message_id, saved_message) rs;
           item \<leftarrow> store_chat (AList.update ''history'' (JObj history) chat) item;
           checked e (if touch then item\<lparr>ci_updated_at := now e\<rparr> else item) rs }) d)"

definition delete_message_from_chat_by_id_and_message_id ::
  "chat_env \<Rightarrow> string \<Rightarrow> string \<Rightarrow> chat_db \<Rightarrow> chat_item option \<times> chat_db" where
  "delete_message_from_chat_by_id_and_message_id e i message_id =
     chat_transaction i (\<lambda>item rs. do {
       chat \<leftarrow> chat_data item;
       (chat, repaired) \<leftarrow> repair_chat_current_id chat;
       history \<leftarrow> dict (jget_default chat ''history'' (JObj []));
       messages \<leftarrow> dict (jor (jget history ''messages'') (JObj []));
       message \<leftarrow> dict (jor (jget messages message_id) (JObj []));
       let parent_id = jget message ''parentId'';
       (history, deleted_ids) \<leftarrow> delete_message_from_history history message_id;
       if deleted_ids = [] then do {
         item \<leftarrow> store_chat chat item;
         checked e item rs }
       else do {
         messages \<leftarrow> dict (jor (jget history ''messages'') (JObj []));
         moved \<leftarrow> filter_option (\<lambda>(mid, v). map_option (\<lambda>m. py_eq (jget m ''parentId'') parent_id) (dict v)) messages;
         rs \<leftarrow> save_message_rows e i item moved (delete_message_ids_by_chat_id i deleted_ids rs);
         item \<leftarrow> store_chat (AList.update ''history'' (JObj history) chat) item;
         checked e (item\<lparr>ci_updated_at := now e\<rparr>) rs } })"

definition add_message_status_to_chat_by_id_and_message_id ::
  "chat_env \<Rightarrow> string \<Rightarrow> string \<Rightarrow> json \<Rightarrow> chat_db \<Rightarrow> chat_item option \<times> chat_db" where
  "add_message_status_to_chat_by_id_and_message_id e i message_id status =
     chat_transaction i (\<lambda>item rs. do {
       let status = sanitize_data_for_db status;
       chat \<leftarrow> chat_data item;
       (chat, repaired) \<leftarrow> repair_chat_current_id chat;
       history \<leftarrow> dict (jget_default chat ''history'' (JObj []));
       present \<leftarrow> contains (jget_default history ''messages'' (JObj [])) message_id;
       (history, rs) \<leftarrow> (if present then do {
           messages \<leftarrow> dict (jget history ''messages'');
           message \<leftarrow> dict (jget messages message_id);
           status_history \<leftarrow> (case jget_default message ''statusHistory'' (JList []) of JList xs \<Rightarrow> Some (xs @ [status]) | _ \<Rightarrow> None);
           let message = AList.update ''statusHistory'' (JList status_history) message;
           rs \<leftarrow> save_message_row e i item (message_id, JObj message) rs;
           Some (AList.update ''messages'' (JObj (AList.update message_id (JObj message) messages)) history, rs) }
         else Some (history, rs));
       item \<leftarrow> store_chat (AList.update ''history'' (JObj history) chat) item;
       checked e item rs })"

text \<open>No validation and no \<open>except\<close> here: an exception reaches the caller.\<close>

definition add_message_files_by_id_and_message_id ::
  "chat_env \<Rightarrow> string \<Rightarrow> string \<Rightarrow> json list \<Rightarrow> chat_db \<Rightarrow> json list option \<times> chat_db" where
  "add_message_files_by_id_and_message_id e i message_id files =
     chat_transaction i (\<lambda>item rs. do {
       chat \<leftarrow> chat_data item;
       history \<leftarrow> dict (jget_default chat ''history'' (JObj []));
       present \<leftarrow> contains (jget_default history ''messages'' (JObj [])) message_id;
       (history, message_files, rs) \<leftarrow> (if present then do {
           messages \<leftarrow> dict (jget history ''messages'');
           message \<leftarrow> dict (jget messages message_id);
           message_files \<leftarrow> (case jget_default message ''files'' (JList []) of JList xs \<Rightarrow> Some (xs @ files) | _ \<Rightarrow> None);
           let message = AList.update ''files'' (JList message_files) message;
           rs \<leftarrow> upsert_message (store_env.truncate e) message_id i (user_of message item) (clean message) rs;
           Some (AList.update ''messages'' (JObj (AList.update message_id (JObj message) messages)) history, message_files, rs) }
         else Some (history, [], rs));
       Some (message_files, item\<lparr>ci_chat := JObj (clean (AList.update ''history'' (JObj history) chat)),
         ci_updated_at := now e\<rparr>, rs) })"


subsection \<open>The whole chat\<close>

text \<open>
  Messages of other authors and unfinished replies are kept as they are stored. The merged message is
  only looked up for a finished reply of the owner, where its absence raises; a protected message that
  the merge dropped is put back.
\<close>

definition is_protected :: "chat_item \<Rightarrow> json dict \<Rightarrow> json option \<Rightarrow> bool option" where
  "is_protected item message merged =
     (if user_of message item \<noteq> JStr (ci_user_id item) then Some True
      else if jget message ''role'' = JStr ''assistant'' then
        (if jget message ''done'' = JBool False then Some True
         else do { v \<leftarrow> merged; m \<leftarrow> dict v; Some (jget m ''done'' = JBool False) })
      else Some False)"

fun keep_protected :: "chat_item \<Rightarrow> (string \<times> json) list \<Rightarrow> json dict \<Rightarrow> json dict option" where
  "keep_protected item [] messages = Some messages"
| "keep_protected item ((mid, v) # stored) messages = do {
     message \<leftarrow> dict v;
     protected \<leftarrow> is_protected item message (map_of messages mid);
     keep_protected item stored (if protected then AList.update mid v messages else messages) }"

definition merge_stored_history :: "chat_item \<Rightarrow> json dict \<Rightarrow> json \<Rightarrow> json dict option" where
  "merge_stored_history item stored incoming = do {
     history \<leftarrow> merge_history (jget stored ''history'') incoming;
     stored_history \<leftarrow> dict (jget_default stored ''history'' (JObj []));
     stored_messages \<leftarrow> dict (jor (jget stored_history ''messages'') (JObj []));
     messages \<leftarrow> keep_protected item stored_messages (dict_of (jget history ''messages''));
     merge_history (JObj (AList.update ''messages'' (JObj messages) history)) (JObj []) }"

text \<open>Rows are written for the incoming messages that have a role and differ from the stored ones.\<close>

definition changed_messages :: "json dict \<Rightarrow> json dict \<Rightarrow> string list \<Rightarrow> (string \<times> json) list" where
  "changed_messages messages stored_messages mids =
     List.map_filter (\<lambda>mid. let message = jget messages mid in
       if truthy message \<and> truthy (jget (dict_of message) ''role'') \<and> \<not> py_eq message (jget stored_messages mid)
       then Some (mid, message) else None) mids"

definition update_chat_by_id :: "chat_env \<Rightarrow> string \<Rightarrow> json dict \<Rightarrow> bool \<Rightarrow> chat_db \<Rightarrow> chat_item option \<times> chat_db" where
  "update_chat_by_id e i chat touch =
     chat_transaction i (\<lambda>item rs. do {
       stored \<leftarrow> chat_data item;
       updated \<leftarrow> (if has_key ''history'' chat
         then map_option (\<lambda>h. AList.update ''history'' (JObj h) (dict_merge stored chat))
                (merge_stored_history item stored (jget chat ''history''))
         else Some (dict_merge stored chat));
       let updated = clean updated;
       current \<leftarrow> (if list_ex (\<lambda>k. has_key k chat) [''history'', ''messages'', ''currentId'', ''branchPointMessageId'']
         then get_current_message_id (JObj updated) else Some (ci_current_message_id item));
       let item' = item\<lparr>ci_chat := JObj updated, ci_title := jget_default updated ''title'' (JStr ''New Chat''),
         ci_current_message_id := current, ci_updated_at := (if touch then now e else ci_updated_at item)\<rparr>;
       incoming_history \<leftarrow> dict (jget_default chat ''history'' (JObj []));
       incoming \<leftarrow> dict (jor (jget incoming_history ''messages'') (JObj []));
       let changed = changed_messages (dict_of (jget (dict_of (jget updated ''history'')) ''messages''))
         (dict_of (jget (dict_of (jget stored ''history'')) ''messages'')) (map fst incoming);
       rs \<leftarrow> save_message_rows e i item' changed rs;
       checked e item' rs })"

definition update_chat_params_by_id :: "chat_env \<Rightarrow> string \<Rightarrow> json dict \<Rightarrow> chat_db \<Rightarrow> chat_item option \<times> chat_db" where
  "update_chat_params_by_id e i params =
     chat_transaction i (\<lambda>item rs. do {
       stored \<leftarrow> chat_data item;
       old_params \<leftarrow> dict (jor (jget stored ''params'') (JObj []));
       checked e (item\<lparr>ci_chat := JObj (AList.update ''params'' (JObj (clean (dict_merge old_params params))) stored)\<rparr>) rs })"

definition update_chat_title_by_id :: "chat_env \<Rightarrow> string \<Rightarrow> string \<Rightarrow> chat_db \<Rightarrow> chat_item option \<times> chat_db" where
  "update_chat_title_by_id e i title =
     chat_transaction i (\<lambda>item rs. do {
       chat \<leftarrow> chat_data item;
       let clean_title = JStr (sanitize_text_for_db title);
       checked e (item\<lparr>ci_title := clean_title, ci_chat := JObj (AList.update ''title'' clean_title chat)\<rparr>) rs })"

text \<open>
  The chat is committed first; the initial messages follow, one commit each, and the first failure
  ends the loop with a warning.
\<close>

definition initial_author :: "json dict \<Rightarrow> string \<Rightarrow> json" where
  "initial_author message user_id =
     jor (jor (jget message ''user_id'') (jget (dict_of (jget message ''user'')) ''id'')) (JStr user_id)"

fun keyed_messages :: "json list \<Rightarrow> (json \<times> json) list \<Rightarrow> (json \<times> json) list option" where
  "keyed_messages [] found = Some found"
| "keyed_messages (v # vs) found =
     (let i = jget (dict_of v) ''id''
      in if is_dict v \<and> truthy i then (if hashable i then keyed_messages vs (AList.update i v found) else None)
         else keyed_messages vs found)"

definition initial_messages :: "json dict \<Rightarrow> (json \<times> json) list option" where
  "initial_messages chat =
     (let messages = dict_of (jget (dict_of (jget chat ''history'')) ''messages'')
      in if messages = [] \<and> is_list (jget chat ''messages'')
         then keyed_messages (list_of (jget chat ''messages'')) []
         else Some (map (\<lambda>(i, v). (JStr i, v)) messages))"

fun write_initial_rows :: "chat_env \<Rightarrow> string \<Rightarrow> string \<Rightarrow> (json \<times> json) list \<Rightarrow> message_row list \<Rightarrow> message_row list" where
  "write_initial_rows e i user_id [] rs = rs"
| "write_initial_rows e i user_id ((mid, v) # messages) rs =
     (if is_dict v \<and> truthy (jget (dict_of v) ''role'') then
        (case upsert_message (store_env.truncate e) (py_str mid) i (initial_author (dict_of v) user_id) (dict_of v) rs of
           None \<Rightarrow> rs
         | Some rs \<Rightarrow> write_initial_rows e i user_id messages rs)
      else write_initial_rows e i user_id messages rs)"

definition insert_new_chat :: "chat_env \<Rightarrow> string \<Rightarrow> string \<Rightarrow> json dict \<Rightarrow> chat_db \<Rightarrow> chat_item option \<times> chat_db" where
  "insert_new_chat e i user_id chat d =
     (case get_current_message_id (JObj chat) of
        None \<Rightarrow> (None, d)
      | Some current \<Rightarrow>
          (let item = \<lparr>ci_user_id = user_id,
                 ci_title = sanitize_data_for_db (jget_default chat ''title'' (JStr ''New Chat'')),
                 ci_chat = JObj (clean chat), ci_current_message_id = current, ci_updated_at = now e\<rparr>
           in if map_of (chats d) i \<noteq> None \<or> \<not> valid_chat e item then (None, d)
              else (Some item, \<lparr>chats = AList.update i item (chats d),
                rows = (case initial_messages chat of None \<Rightarrow> rows d
                        | Some messages \<Rightarrow> write_initial_rows e i user_id messages (rows d))\<rparr>)))"


subsection \<open>Deleting chats\<close>

text \<open>
  The rows of the messages go first, whoever owns the chat. The automation runs that name a chat and
  its shared copies are in other tables; the answer depends on the latter.
\<close>

definition delete_chat_by_id :: "string \<Rightarrow> chat_db \<Rightarrow> chat_db" where
  "delete_chat_by_id i d =
     \<lparr>chats = filter (\<lambda>(j, item). j \<noteq> i) (chats d), rows = filter (\<lambda>r. mr_chat_id r \<noteq> i) (rows d)\<rparr>"

definition delete_chat_by_id_and_user_id :: "string \<Rightarrow> string \<Rightarrow> chat_db \<Rightarrow> chat_db" where
  "delete_chat_by_id_and_user_id i user_id d =
     \<lparr>chats = filter (\<lambda>(j, item). \<not> (j = i \<and> ci_user_id item = user_id)) (chats d),
      rows = filter (\<lambda>r. mr_chat_id r \<noteq> i) (rows d)\<rparr>"

definition delete_chats_by_user_id :: "string \<Rightarrow> chat_db \<Rightarrow> chat_db" where
  "delete_chats_by_user_id user_id d =
     (let ids = map fst (filter (\<lambda>(j, item). ci_user_id item = user_id) (chats d))
      in \<lparr>chats = filter (\<lambda>(j, item). ci_user_id item \<noteq> user_id) (chats d),
          rows = filter (\<lambda>r. mr_chat_id r \<notin> set ids) (rows d)\<rparr>)"


subsection \<open>A turn\<close>

definition bad_id :: py_error where
  "bad_id = HTTPException 409 ''Message already exists or has an invalid ID.''"

definition raised :: "'a option \<Rightarrow> 'a result" where
  "raised x = (case x of None \<Rightarrow> Inl OtherError | Some y \<Rightarrow> Inr y)"

definition is_id :: "json \<Rightarrow> bool" where
  "is_id v = (case v of JStr s \<Rightarrow> s \<noteq> [] | _ \<Rightarrow> False)"

text \<open>A reply that exists may only be an empty one of the same user, prepared under the same message.\<close>

definition reply_taken :: "chat_item \<Rightarrow> string \<Rightarrow> json dict \<Rightarrow> json \<Rightarrow> bool result" where
  "reply_taken item user_id user_message existing =
     (if \<not> truthy existing then Inr False
      else bind_result (raised (dict existing)) (\<lambda>reply. Inr
        (jget reply ''role'' \<noteq> JStr ''assistant'' \<or> truthy (jget reply ''done'') \<or> truthy (jget reply ''content'') \<or>
         truthy (jget reply ''output'') \<or> user_of reply item \<noteq> JStr user_id \<or>
         user_message \<noteq> [] \<and> \<not> py_eq (jget reply ''parentId'') (jget user_message ''id''))))"

fun check_replies :: "chat_item \<Rightarrow> string \<Rightarrow> json dict \<Rightarrow> json dict \<Rightarrow> json list \<Rightarrow> unit result" where
  "check_replies item user_id user_message messages [] = Inr ()"
| "check_replies item user_id user_message messages (mid # mids) =
     bind_result (reply_taken item user_id user_message (jget messages (key mid))) (\<lambda>taken.
       if taken then Inl bad_id else check_replies item user_id user_message messages mids)"

definition turn_user_message ::
  "chat_env \<Rightarrow> chat_item \<Rightarrow> string \<Rightarrow> string \<Rightarrow> json dict \<Rightarrow> json dict \<Rightarrow> (json dict \<times> json) result" where
  "turn_user_message e item user_id user_name messages user_message =
     (let existing = jget messages (key (jget user_message ''id''))
      in bind_result (if truthy existing then raised (dict existing) else Inr []) (\<lambda>old.
        if truthy existing \<and> jget old ''role'' \<noteq> JStr ''user''
        then Inl (HTTPException 403 ''You can only regenerate replies to user messages.'')
        else
          (let parent_id = jget (if truthy existing then old else user_message) ''parentId''
           in bind_result (if parent_id = JNull then Inr True else raised (in_dict parent_id messages)) (\<lambda>present.
             if \<not> present then Inl (HTTPException 409 ''Parent message no longer exists.'')
             else Inr
               (if truthy existing then
                  (if has_key ''models'' user_message \<and> user_of old item = JStr user_id
                   then AList.update ''models'' (jget user_message ''models'') old else old)
                else dict_merge
                  (if ci_user_id item = user_id then user_message
                   else List.map_filter (\<lambda>k. map_option (Pair k) (map_of user_message k)) [''content'', ''files'', ''models''])
                  [(''id'', jget user_message ''id''), (''parentId'', parent_id), (''role'', JStr ''user''),
                   (''childrenIds'', JList []), (''timestamp'', JInt (now e)), (''user_id'', JStr user_id),
                   (''user'', JObj [(''id'', JStr user_id), (''name'', JStr user_name)])], parent_id)))))"

definition new_reply :: "chat_env \<Rightarrow> string \<Rightarrow> json \<Rightarrow> json dict \<Rightarrow> json dict option" where
  "new_reply e user_id parent_id entry = do {
     model \<leftarrow> map_of entry ''model_id'';
     Some [(''id'', jget entry ''message_id''), (''parentId'', parent_id), (''childrenIds'', JList []),
       (''role'', JStr ''assistant''), (''content'', JStr []), (''done'', JBool False), (''model'', model),
       (''modelIdx'', jget entry ''modelIdx''), (''timestamp'', JInt (now e)), (''user_id'', JStr user_id)] }"

fun save_replies :: "chat_env \<Rightarrow> string \<Rightarrow> json \<Rightarrow> json dict list \<Rightarrow> json dict \<Rightarrow> json dict option" where
  "save_replies e user_id parent_id [] history = Some history"
| "save_replies e user_id parent_id (entry # entries) history = do {
     reply \<leftarrow> new_reply e user_id parent_id entry;
     (history, saved) \<leftarrow> upsert_message_to_history (now e) history (key (jget entry ''message_id'')) reply;
     save_replies e user_id parent_id entries history }"

definition save_turn ::
  "chat_env \<Rightarrow> string \<Rightarrow> json dict \<Rightarrow> json dict option \<Rightarrow> json dict list \<Rightarrow> json dict \<Rightarrow> json dict option" where
  "save_turn e user_id user_message message message_ids history = do {
     history \<leftarrow> (case message of None \<Rightarrow> Some history
       | Some m \<Rightarrow> map_option fst (upsert_message_to_history (now e) history (key (jget user_message ''id'')) (clean m)));
     save_replies e user_id (jget user_message ''id'') message_ids history }"

text \<open>
  The check that the user may write to the chat comes first (\<open>get_accessible_chat_by_id\<close>). The answer
  holds the saved messages, with the parent of the turn, and the current message.
\<close>

definition turn_body ::
  "chat_env \<Rightarrow> string \<Rightarrow> string \<Rightarrow> string \<Rightarrow> json dict \<Rightarrow> json dict list \<Rightarrow> chat_item \<Rightarrow> message_row list
     \<Rightarrow> (json dict \<times> json) change result" where
  "turn_body e i user_id user_name user_message message_ids item rs =
     bind_result (raised (chat_data item)) (\<lambda>chat.
     bind_result (raised (dict (jor (jget chat ''history'') (JObj [(''messages'', JObj []), (''currentId'', JNull)])))) (\<lambda>history.
     bind_result (raised (dict (jor (jget history ''messages'') (JObj [])))) (\<lambda>messages.
       let assistant_ids = map (\<lambda>entry. jget entry ''message_id'') message_ids;
           ids = (if user_message = [] then assistant_ids else jget user_message ''id'' # assistant_ids)
       in if \<not> list_all is_id ids \<or> \<not> distinct ids then Inl bad_id
       else
         bind_result (check_replies item user_id user_message messages assistant_ids) (\<lambda>_.
         bind_result (if user_message = [] then Inr (None, JNull)
           else map_sum id (\<lambda>(m, p). (Some m, p)) (turn_user_message e item user_id user_name messages user_message)) (\<lambda>(message, parent_id).
         bind_result (raised (save_turn e user_id user_message message message_ids history)) (\<lambda>history.
           let messages = dict_of (jget history ''messages'');
               turn = map (\<lambda>v. (key v, jget messages (key v))) ids
           in raised (do {
             current \<leftarrow> map_of history ''currentId'';
             let item = item\<lparr>ci_chat := JObj (AList.update ''history'' (JObj history) chat),
               ci_current_message_id := current, ci_updated_at := now e\<rparr>;
             rs \<leftarrow> save_message_rows e i item turn rs;
             Some ((if truthy parent_id then AList.update (key parent_id) (jget messages (key parent_id)) turn else turn, current),
               item, rs) })))))))"

definition insert_chat_turn ::
  "chat_env \<Rightarrow> string \<Rightarrow> bool \<Rightarrow> string \<Rightarrow> string \<Rightarrow> json dict \<Rightarrow> json dict list \<Rightarrow> chat_db
     \<Rightarrow> (json dict \<times> json) result \<times> chat_db" where
  "insert_chat_turn e i accessible user_id user_name user_message message_ids d =
     (if \<not> accessible then (Inl (HTTPException 403 ''Chat continuation is not allowed.''), d)
      else case map_of (chats d) i of
        None \<Rightarrow> (Inl (HTTPException 404 ''Chat not found.''), d)
      | Some item \<Rightarrow>
          (case turn_body e i user_id user_name user_message message_ids item (rows d) of
             Inl err \<Rightarrow> (Inl err, d)
           | Inr (turn, item, rs) \<Rightarrow> (Inr turn, \<lparr>chats = AList.update i item (chats d), rows = rs\<rparr>)))"

subsection \<open>Tool state\<close>

text \<open>
  The message a caller may change: the one in the history with the columns of its row over it. The
  caller is the function \<open>edit\<close>, which gets no message when there is none; its exception rolls back.
\<close>

definition editable_message :: "string \<Rightarrow> string \<Rightarrow> json dict \<Rightarrow> message_row list \<Rightarrow> json dict option" where
  "editable_message i message_id history rs = do {
     messages \<leftarrow> dict (jget_default history ''messages'' (JObj []));
     message \<leftarrow> dict (jor (jget messages message_id) (JObj []));
     Some (case get_row rs (composite_id i message_id) of
       None \<Rightarrow> message
     | Some row \<Rightarrow> AList.update ''id'' (JStr message_id) (dict_merge message (row_columns row))) }"

definition store_edited ::
  "chat_env \<Rightarrow> string \<Rightarrow> string \<Rightarrow> json dict \<Rightarrow> json dict \<Rightarrow> json dict \<Rightarrow> chat_item \<Rightarrow> message_row list
     \<Rightarrow> (chat_item \<times> message_row list) option" where
  "store_edited e i message_id chat history message item rs = do {
     let message = clean message;
     messages \<leftarrow> dict (jget_default history ''messages'' (JObj []));
     let history = AList.update ''messages'' (JObj (AList.update message_id (JObj message) messages)) history;
     rs \<leftarrow> save_message_row e i item (message_id, JObj message) rs;
     Some (item\<lparr>ci_chat := JObj (AList.update ''history'' (JObj history) chat)\<rparr>, rs) }"

definition edit_message_output ::
  "chat_env \<Rightarrow> string \<Rightarrow> string \<Rightarrow> (json dict option \<Rightarrow> ('a \<times> json dict) result) \<Rightarrow> chat_db \<Rightarrow> 'a result \<times> chat_db" where
  "edit_message_output e i message_id edit d =
     (case map_of (chats d) i of
        None \<Rightarrow> (map_sum id fst (edit None), d)
      | Some item \<Rightarrow>
          (case do { chat \<leftarrow> chat_data item;
                 history \<leftarrow> dict (jor (jget chat ''history'') (JObj []));
                 message \<leftarrow> editable_message i message_id history (rows d);
                 Some (chat, history, message) } of
             None \<Rightarrow> (Inl OtherError, d)
           | Some (chat, history, message) \<Rightarrow>
               if message = [] then (map_sum id fst (edit None), d)
               else case edit (Some message) of
                 Inl err \<Rightarrow> (Inl err, d)
               | Inr (x, message) \<Rightarrow>
                   (case store_edited e i message_id chat history message item (rows d) of
                      None \<Rightarrow> (Inl OtherError, d)
                    | Some (item, rs) \<Rightarrow> (Inr x, \<lparr>chats = AList.update i item (chats d), rows = rs\<rparr>))))"

end
