(* ===== verification/ChatTreeInv.thy ===== *)
theory ChatTreeInv
  imports ChatOps Forest
begin

text \<open>
  The invariant of a history: the parent links form a forest, and the list of children of every
  message names exactly the messages whose parent it is, each once. Every operation on a history is
  described by what it does to the tree of (identifier, parent) pairs.
\<close>

subsection \<open>The tree of a history\<close>

definition parent_of :: "json \<Rightarrow> string option" where
  "parent_of v = (case jget (dict_of v) ''parentId'' of JStr p \<Rightarrow> Some p | _ \<Rightarrow> None)"

definition kids :: "json \<Rightarrow> string list" where
  "kids v = map key (list_of (jget (dict_of v) ''childrenIds''))"

definition tree :: "json dict \<Rightarrow> (string \<times> string option) list" where
  "tree messages = map (\<lambda>(i, v). (i, parent_of v)) messages"

definition children :: "json dict \<Rightarrow> string \<Rightarrow> string list" where
  "children messages i = map fst (filter (\<lambda>(c, q). q = Some i) (tree messages))"

text \<open>A stored message: the fields every client and every operation writes.\<close>

definition node_ok :: "string \<Rightarrow> json \<Rightarrow> bool" where
  "node_ok i v \<longleftrightarrow>
     (let m = dict_of v
      in i \<noteq> [] \<and> is_dict v \<and> distinct (map fst m) \<and> jget m ''id'' = JStr i \<and> is_id (jget m ''role'') \<and>
         has_key ''parentId'' m \<and> (jget m ''parentId'' = JNull \<or> is_id (jget m ''parentId'')) \<and>
         \<not> has_key ''parent_id'' m \<and>
         is_list (jget m ''childrenIds'') \<and> list_all is_str (list_of (jget m ''childrenIds'')))"

definition children_listed :: "json dict \<Rightarrow> bool" where
  "children_listed messages \<longleftrightarrow> list_all (\<lambda>(i, v). distinct (kids v) \<and> set (kids v) = set (children messages i)) messages"

definition tree_ok :: "json dict \<Rightarrow> bool" where
  "tree_ok messages \<longleftrightarrow> list_all (\<lambda>(i, v). node_ok i v) messages \<and> forest (tree messages) \<and> children_listed messages"

subsection \<open>Dictionaries\<close>

lemma update_new: "i \<notin> fst ` set d \<Longrightarrow> AList.update i v d = d @ [(i, v)]"
  by (induction d) auto

lemma update_old:
  "distinct (map fst d) \<Longrightarrow> i \<in> fst ` set d \<Longrightarrow> AList.update i v d = map (\<lambda>(j, w). (j, if j = i then v else w)) d"
proof (induction d)
  case (Cons x d)
  obtain j w where [simp]: "x = (j, w)" by (cases x)
  show ?case
  proof (cases "j = i")
    case True
    with Cons.prems have "map (\<lambda>(j, w). (j, if j = i then v else w)) d = d"
      by (intro map_idI) (auto simp: image_iff)
    with True show ?thesis by simp
  next
    case False
    with Cons show ?thesis by auto
  qed
qed simp

declare AList.distinct_update [simp]

lemma jget_map_of: "map_of d k = Some v \<Longrightarrow> jget d k = v"
  by (simp add: jget_def)

lemma map_of_in: "distinct (map fst d) \<Longrightarrow> (k, v) \<in> set d \<Longrightarrow> map_of d k = Some v"
  by simp

lemma in_keys: "i \<in> fst ` set d \<Longrightarrow> \<exists>v. (i, v) \<in> set d"
  by auto

lemma key_JStr: "list_all is_str xs \<Longrightarrow> map JStr (map key xs) = xs"
proof (induction xs)
  case (Cons x xs)
  then show ?case by (cases x) auto
qed simp

lemma is_list_cases: "is_list v \<Longrightarrow> (\<And>xs. v = JList xs \<Longrightarrow> P) \<Longrightarrow> P"
  by (cases v) auto

lemma is_dict_cases: "is_dict v \<Longrightarrow> (\<And>m. v = JObj m \<Longrightarrow> P) \<Longrightarrow> P"
  by (cases v) auto

lemma is_id_iff: "is_id v \<longleftrightarrow> (\<exists>s. v = JStr s \<and> s \<noteq> [])"
  by (auto simp: is_id_def split: json.splits)

subsection \<open>Trees\<close>

lemma fst_tree [simp]: "map fst (tree messages) = map fst messages" "fst ` set (tree messages) = fst ` set messages"
proof -
  show "map fst (tree messages) = map fst messages" by (auto simp: tree_def)
  then show "fst ` set (tree messages) = fst ` set messages" by (metis list.set_map)
qed

lemma tree_append [simp]: "tree (a @ b) = tree a @ tree b"
  by (simp add: tree_def)

lemma tree_Cons [simp]: "tree ((i, v) # b) = (i, parent_of v) # tree b"
  by (simp add: tree_def)

lemma tree_Nil [simp]: "tree [] = []"
  by (simp add: tree_def)

lemma in_tree: "(i, q) \<in> set (tree messages) \<longleftrightarrow> (\<exists>v. (i, v) \<in> set messages \<and> q = parent_of v)"
  by (auto simp: tree_def)

lemma set_children: "set (children messages i) = {c. (c, Some i) \<in> set (tree messages)}"
  by (force simp: children_def)

lemma children_append: "children (a @ b) i = children a i @ children b i"
  by (simp add: children_def)

lemma distinct_children: "distinct (map fst messages) \<Longrightarrow> distinct (children messages i)"
  unfolding children_def by (metis distinct_map_filter fst_tree(1))

lemma tree_okD:
  assumes "tree_ok messages"
  shows "distinct (map fst messages)" "forest (tree messages)" "children_listed messages"
    "\<And>i v. (i, v) \<in> set messages \<Longrightarrow> node_ok i v"
    "\<And>i v. (i, v) \<in> set messages \<Longrightarrow> distinct (kids v) \<and> set (kids v) = set (children messages i)"
  using assms by (auto simp: tree_ok_def forest_def children_listed_def list_all_iff)

lemma tree_ok_stored:
  assumes "tree_ok messages" "map_of messages i = Some v"
  obtains m where "v = JObj m" "(i, v) \<in> set messages" "node_ok i v"
    "distinct (kids v)" "set (kids v) = set (children messages i)"
proof -
  have "(i, v) \<in> set messages" using assms(2) by (rule map_of_SomeD)
  with tree_okD [OF assms(1)] have "node_ok i v" "distinct (kids v)" "set (kids v) = set (children messages i)"
    by blast+
  then show ?thesis
    using that \<open>(i, v) \<in> set messages\<close> by (auto simp: node_ok_def Let_def elim: is_dict_cases)
qed

lemma node_ok_list:
  assumes "node_ok i v"
  shows "jget (dict_of v) ''childrenIds'' = JList (map JStr (kids v))"
proof -
  obtain xs where "jget (dict_of v) ''childrenIds'' = JList xs" "list_all is_str xs"
    using assms by (auto simp: node_ok_def Let_def elim!: is_list_cases)
  then show ?thesis unfolding kids_def using key_JStr [of xs] by simp
qed

lemma node_ok_parent:
  assumes "node_ok i v"
  shows "jget (dict_of v) ''parentId'' = (case parent_of v of None \<Rightarrow> JNull | Some p \<Rightarrow> JStr p)"
    "parent_of v = Some p \<Longrightarrow> p \<noteq> []"
  using assms by (auto simp: node_ok_def Let_def parent_of_def is_id_iff)

text \<open>A message is replaced by one with the same links.\<close>

lemma tree_update_same:
  assumes "distinct (map fst messages)" "map_of messages i = Some v" "parent_of v' = parent_of v"
  shows "tree (AList.update i v' messages) = tree messages"
proof -
  have "(i, v) \<in> set messages" using assms(2) by (rule map_of_SomeD)
  then have "i \<in> fst ` set messages" by force
  moreover have "parent_of w = parent_of v'" if "(i, w) \<in> set messages" for w
    using that assms by auto
  ultimately show ?thesis
    unfolding tree_def by (auto simp: update_old [OF assms(1)])
qed

lemma children_cong: "tree messages = tree messages' \<Longrightarrow> children messages = children messages'"
  by (simp add: children_def fun_eq_iff)

lemma in_update:
  assumes "distinct (map fst d)"
  shows "(j, w) \<in> set (AList.update i v d) \<longleftrightarrow> (if j = i then w = v else (j, w) \<in> set d)"
proof -
  have "distinct (map fst (AList.update i v d))"
    using assms by (rule AList.distinct_update)
  then show ?thesis
    by (simp only: map_of_eq_Some_iff [symmetric] map_of_update) (auto simp: assms)
qed

lemma tree_ok_update_same:
  assumes "tree_ok messages" "map_of messages i = Some v" "node_ok i v'"
    "parent_of v' = parent_of v" "kids v' = kids v"
  shows "tree_ok (AList.update i v' messages)"
proof -
  note ok = tree_okD [OF assms(1)]
  have t: "tree (AList.update i v' messages) = tree messages"
    by (rule tree_update_same) (use ok assms in auto)
  have iv: "(i, v) \<in> set messages"
    using assms(2) by (rule map_of_SomeD)
  have "children_listed (AList.update i v' messages)"
    unfolding children_listed_def children_cong [OF t] list_all_iff
    using ok(5) assms(5) iv by (auto simp: in_update [OF ok(1)] split: if_splits)
  moreover have "list_all (\<lambda>(i, v). node_ok i v) (AList.update i v' messages)"
    using ok(4) assms(3) by (auto simp: list_all_iff in_update [OF ok(1)] split: if_splits)
  ultimately show ?thesis using ok(2) by (simp add: tree_ok_def t)
qed


subsection \<open>Listing a child\<close>

lemma append_child_simps [simp]:
  "parent_of (append_child x v) = parent_of v"
  "kids (append_child x v) = kids v @ [key x]"
  "is_dict (append_child x v)"
  by (simp_all add: append_child_def parent_of_def kids_def)

lemma dict_of_append_child:
  "k \<noteq> ''childrenIds'' \<Longrightarrow> jget (dict_of (append_child x v)) k = jget (dict_of v) k"
  "k \<noteq> ''childrenIds'' \<Longrightarrow> map_of (dict_of (append_child x v)) k = map_of (dict_of v) k"
  by (simp_all add: append_child_def)

lemma node_ok_append_child: "node_ok i v \<Longrightarrow> node_ok i (append_child (JStr c) v)"
  unfolding node_ok_def Let_def by (simp add: dict_of_append_child) (auto simp: append_child_def elim!: is_list_cases)

lemma forest_parent_in:
  assumes "forest s" "(i, Some p) \<in> set s" shows "p \<in> fst ` set s"
  using edges_snd [of i p s] assms by (simp add: edges_def)

lemma parent_stored:
  assumes "tree_ok messages" "(i, v) \<in> set messages" "parent_of v = Some p"
  obtains w where "map_of messages p = Some w"
proof -
  have "(i, Some p) \<in> set (tree messages)" using assms(2,3) by (auto simp: in_tree)
  then have "p \<in> fst ` set messages"
    using forest_parent_in [OF tree_okD(2) [OF assms(1)]] by simp
  then show ?thesis using that by (metis map_of_eq_None_iff not_None_eq)
qed

lemma add_child_listed:
  assumes "tree_ok messages" "map_of messages i = Some v"
  shows "add_child_id_to_parent messages (jget (dict_of v) ''parentId'') i = Some (messages, False)"
proof -
  obtain m where v: "v = JObj m" "(i, v) \<in> set messages" "node_ok i v"
    using assms by (rule tree_ok_stored)
  show ?thesis
  proof (cases "parent_of v")
    case None
    then show ?thesis
      using node_ok_parent(1) [OF v(3)] by (simp add: add_child_id_to_parent_def)
  next
    case (Some p)
    then obtain w where w: "map_of messages p = Some w" using parent_stored assms(1) v(2) by metis
    obtain mw where mw: "w = JObj mw" "node_ok p w" "set (kids w) = set (children messages p)"
      using assms(1) w by (rule tree_ok_stored)
    have "i \<in> set (kids w)"
      using v(2) Some by (auto simp: mw(3) set_children in_tree)
    then have "JStr i \<in> set (list_of (jget mw ''childrenIds''))"
      using node_ok_list [OF mw(2)] by (auto simp: mw(1))
    with Some show ?thesis
      using node_ok_parent [OF v(3)] w mw(1)
      by (simp add: add_child_id_to_parent_def dict_get_def jget_default_def Let_def)
  qed
qed

lemma children_new:
  assumes "forest (tree messages)" "i \<notin> fst ` set messages"
  shows "children messages i = []"
proof -
  have "(c, Some i) \<notin> set (tree messages)" for c
    using forest_parent_in [OF assms(1), of c i] assms(2) by auto
  then show ?thesis by (auto simp: children_def filter_empty_conv)
qed

lemma children_in: "c \<in> set (children messages i) \<Longrightarrow> c \<in> fst ` set messages"
  by (force simp: set_children in_tree)

lemma tree_ok_leaf:
  assumes ok: "tree_ok messages" and new: "i \<notin> fst ` set messages" and v: "node_ok i v" "kids v = []"
    and p: "\<And>p. parent_of v = Some p \<Longrightarrow> p \<in> fst ` set messages"
  obtains messages' where
    "add_child_id_to_parent (AList.update i v messages) (jget (dict_of v) ''parentId'') i =
       Some (messages', parent_of v \<noteq> None)"
    "tree_ok messages'" "tree messages' = tree messages @ [(i, parent_of v)]"
    "map_of messages' = (\<lambda>j. if j = i then Some v
       else if parent_of v = Some j then Some (append_child (JStr i) (jget messages j)) else map_of messages j)"
proof -
  note okD = tree_okD [OF ok]
  have u: "AList.update i v messages = messages @ [(i, v)]" by (rule update_new [OF new])
  have d: "distinct (map fst (messages @ [(i, v)]))" using okD(1) new by auto
  have f: "forest (tree messages @ [(i, parent_of v)])"
    using okD(2) new p by (intro forest_snoc) auto
  have ch: "children (messages @ [(i, v)]) j = children messages j @ (if parent_of v = Some j then [i] else [])" for j
    by (simp add: children_append) (simp add: children_def)
  have nodes: "list_all (\<lambda>(i, v). node_ok i v) (messages @ [(i, v)])"
    using okD(4) v by (auto simp: list_all_iff)
  show ?thesis
  proof (cases "parent_of v")
    case None
    then have "add_child_id_to_parent (AList.update i v messages) (jget (dict_of v) ''parentId'') i =
        Some (AList.update i v messages, parent_of v \<noteq> None)"
      using node_ok_parent(1) [OF v(1)] by (simp add: add_child_id_to_parent_def)
    moreover have "children_listed (messages @ [(i, v)])"
      using okD(5) v(2) children_new [OF okD(2) new] None by (auto simp: children_listed_def list_all_iff ch)
    then have "tree_ok (AList.update i v messages)"
      using f nodes by (simp add: tree_ok_def u)
    moreover have "tree (AList.update i v messages) = tree messages @ [(i, parent_of v)]"
      by (simp add: u)
    moreover have "map_of (AList.update i v messages) = (\<lambda>j. if j = i then Some v
       else if parent_of v = Some j then Some (append_child (JStr i) (jget messages j)) else map_of messages j)"
      using None by auto
    ultimately show ?thesis by (rule that)
  next
    case (Some q)
    then obtain w where w: "map_of messages q = Some w" using p by (metis map_of_eq_None_iff not_None_eq)
    have qi: "q \<noteq> i" using new w by (auto dest!: map_of_SomeD intro: rev_image_eqI)
    obtain mw where mw: "w = JObj mw" "(q, w) \<in> set messages" "node_ok q w" "distinct (kids w)" "set (kids w) = set (children messages q)"
      using ok w by (rule tree_ok_stored)
    let ?m = "AList.update q (append_child (JStr i) w) (messages @ [(i, v)])"
    have wq: "map_of (messages @ [(i, v)]) q = Some w" using w by (simp add: map_add_def)
    have ic: "i \<notin> set (kids w)" using new by (auto simp: mw(5) dest: children_in)
    then have "JStr i \<notin> set (list_of (jget mw ''childrenIds''))"
      using node_ok_list [OF mw(3)] by (auto simp: mw(1))
    then have add: "add_child_id_to_parent (AList.update i v messages) (jget (dict_of v) ''parentId'') i = Some (?m, True)"
      using Some node_ok_parent [OF v(1)] wq mw(1) unfolding u
      by (simp add: add_child_id_to_parent_def dict_get_def jget_default_def Let_def append_child_def del: map_of_append)
    have t: "tree ?m = tree messages @ [(i, parent_of v)]"
      using tree_update_same [OF d wq] by simp
    then have chm: "children ?m = children (messages @ [(i, v)])"
      by (intro children_cong) simp
    have "children_listed ?m"
      unfolding children_listed_def list_all_iff chm
      using okD(5) v(2) mw(4,5) ic qi children_new [OF okD(2) new] Some
      by (auto simp: ch in_update [OF d] split: if_splits)
    moreover have "list_all (\<lambda>(i, v). node_ok i v) ?m"
      using nodes node_ok_append_child [OF mw(3)] by (auto simp: list_all_iff in_update [OF d] split: if_splits)
    ultimately have "tree_ok ?m" using f by (simp add: tree_ok_def t)
    moreover have "map_of ?m = (\<lambda>j. if j = i then Some v
       else if parent_of v = Some j then Some (append_child (JStr i) (jget messages j)) else map_of messages j)"
    proof -
      have "map_of (messages @ [(i, v)]) = (map_of messages)(i \<mapsto> v)"
        by (simp only: u [symmetric] map_of_update)
      then show ?thesis
        using Some qi w by (auto simp only: map_of_update fun_eq_iff fun_upd_apply jget_def option.case split: if_split)
    qed
    ultimately show ?thesis using that [of ?m] add t Some by simp
  qed
qed


subsection \<open>Saving a message\<close>

lemma map_of_merge: "distinct (map fst b) \<Longrightarrow> map_of (dict_merge a b) k = (if has_key k b then map_of b k else map_of a k)"
  by (auto simp: map_of_dict_merge map_add_def split: option.splits)

text \<open>
  What a caller may save: of a stored message, the tree fields may only be repeated; a new message is
  a leaf below a stored one or a root.
\<close>

definition tree_keys :: "string list" where
  "tree_keys = [''id'', ''parentId'', ''childrenIds'', ''role'']"

definition repeats :: "json dict \<Rightarrow> json dict \<Rightarrow> bool" where
  "repeats message stored \<longleftrightarrow> list_all (\<lambda>k. has_key k message \<longrightarrow> jget message k = jget stored k) tree_keys"

definition new_ok :: "json dict \<Rightarrow> string \<Rightarrow> json dict \<Rightarrow> bool" where
  "new_ok messages i message \<longleftrightarrow>
     (jget message ''id'' = JNull \<or> jget message ''id'' = JStr i) \<and>
     (jget message ''parentId'' = JNull \<or>
      is_id (jget message ''parentId'') \<and> map_of messages (key (jget message ''parentId'')) \<noteq> None) \<and>
     list_of (jget message ''childrenIds'') = [] \<and>
     (is_id (jget message ''role'') \<or> jget message ''role'' = JNull \<and>
        (case output_role (jget message ''output'') of None \<Rightarrow> True | Some r \<Rightarrow> r = JNull \<or> is_id r))"

definition save_ok :: "json dict \<Rightarrow> string \<Rightarrow> json dict \<Rightarrow> bool" where
  "save_ok messages i message \<longleftrightarrow>
     i \<noteq> [] \<and> distinct (map fst message) \<and> \<not> has_key ''parent_id'' message \<and>
     (case map_of messages i of Some v \<Rightarrow> repeats message (dict_of v) | None \<Rightarrow> new_ok messages i message)"

definition with_meta :: "json dict \<Rightarrow> json dict \<Rightarrow> json dict" where
  "with_meta existing message =
     (case jget message ''meta'' of
        JObj meta \<Rightarrow> AList.update ''meta'' (JObj (merge_meta (dict_of (jget existing ''meta'')) meta)) message
      | _ \<Rightarrow> message)"

lemma with_meta:
  "k \<noteq> ''meta'' \<Longrightarrow> map_of (with_meta existing message) k = map_of message k"
  "k \<noteq> ''meta'' \<Longrightarrow> jget (with_meta existing message) k = jget message k"
  "distinct (map fst message) \<Longrightarrow> distinct (map fst (with_meta existing message))"
  by (auto simp: with_meta_def AList.distinct_update split: json.splits)

lemma upsert_existing:
  assumes "tree_ok messages" "jget history ''messages'' = JObj messages" "map_of messages i = Some v" "save_ok messages i message"
  defines "m \<equiv> dict_merge (dict_of v) (with_meta (dict_of v) message)"
  shows "upsert_message_to_history t history i message =
      Some (AList.update ''messages'' (JObj (AList.update i (JObj m) messages)) history, JObj m)"
    and "tree_ok (AList.update i (JObj m) messages)" and "tree (AList.update i (JObj m) messages) = tree messages"
    and "node_ok i (JObj m)" and "parent_of (JObj m) = parent_of v" and "kids (JObj m) = kids v"
proof -
  obtain mv where v: "v = JObj mv" "(i, v) \<in> set messages" "node_ok i v"
    using assms(1,3) by (rule tree_ok_stored)
  have s: "distinct (map fst message)" "\<not> has_key ''parent_id'' message" "repeats message mv"
    using assms(3,4) v(1) by (auto simp: save_ok_def)
  have keep: "jget m k = jget mv k" if k: "k \<in> set tree_keys" for k
  proof -
    have "k \<noteq> ''meta''" using k by (auto simp: tree_keys_def)
    moreover have "has_key k message \<longrightarrow> jget message k = jget mv k"
      using s(3) k by (simp add: repeats_def list_all_iff)
    ultimately show ?thesis
      by (simp add: m_def v(1) jget_dict_merge [OF with_meta(3) [OF s(1)]] with_meta)
  qed
  have has: "has_key k m \<longleftrightarrow> has_key k mv \<or> has_key k message" if "k \<noteq> ''meta''" for k
    using that by (simp add: m_def v(1) map_of_merge [OF with_meta(3) [OF s(1)]] with_meta)
  have k: "jget m ''id'' = jget mv ''id''" "jget m ''parentId'' = jget mv ''parentId''"
     "jget m ''childrenIds'' = jget mv ''childrenIds''" "jget m ''role'' = jget mv ''role''"
    by (simp_all add: keep tree_keys_def)
  have dm: "distinct (map fst m)"
    using v(3) unfolding m_def v(1) by (simp add: node_ok_def Let_def distinct_dict_merge)
  show n: "node_ok i (JObj m)"
    using v(3) s(2) has [of "''parentId''"] has [of "''parent_id''"] dm
    by (auto simp: node_ok_def Let_def v(1) k simp del: map_of_eq_Some_iff)
  show p: "parent_of (JObj m) = parent_of v" "kids (JObj m) = kids v"
    by (simp_all add: parent_of_def kids_def k v(1))
  show ok: "tree_ok (AList.update i (JObj m) messages)"
    by (rule tree_ok_update_same [OF assms(1,3) n p])
  show "tree (AList.update i (JObj m) messages) = tree messages"
    by (rule tree_update_same [OF tree_okD(1) [OF assms(1)] assms(3) p(1)])
  have "map_of (AList.update i (JObj m) messages) i = Some (JObj m)" by simp
  from add_child_listed [OF ok this]
  have "add_child_id_to_parent (AList.update i (JObj m) messages) (jget m ''parentId'') i =
      Some (AList.update i (JObj m) messages, False)" by simp
  moreover have "map_of history ''messages'' = Some (JObj messages)"
    using assms(2) by (auto simp: jget_def split: option.splits)
  ultimately show "upsert_message_to_history t history i message =
      Some (AList.update ''messages'' (JObj (AList.update i (JObj m) messages)) history, JObj m)"
    using assms(3) v(1)
    by (simp add: upsert_message_to_history_def jget_default_def with_meta_def [symmetric] m_def [unfolded v(1), simplified, symmetric]
        jget_map_of)
qed


lemma adopting_parent_none:
  "tree_ok messages \<Longrightarrow> i \<notin> fst ` set messages \<Longrightarrow> set items \<subseteq> set messages \<Longrightarrow> adopting_parent items i = Some JNull"
proof (induction items)
  case (Cons x items)
  obtain j v where x: "x = (j, v)" by (cases x)
  then have jv: "(j, v) \<in> set messages" using Cons.prems by simp
  then have n: "node_ok j v" and kids: "set (kids v) = set (children messages j)"
    using tree_okD(4,5) [OF Cons.prems(1)] by blast+
  then obtain m where v: "v = JObj m" by (auto simp: node_ok_def Let_def elim: is_dict_cases)
  have l: "jget m ''childrenIds'' = JList (map JStr (kids v))" using node_ok_list [OF n] v by simp
  then have "jget_default m ''childrenIds'' (JList []) = JList (map JStr (kids v))"
    by (auto simp: jget_def jget_default_def split: option.splits)
  moreover have "i \<notin> set (kids v)" using Cons.prems(2) by (auto simp: kids dest: children_in)
  ultimately show ?case
    using Cons x v by (auto simp: image_iff)
qed simp

lemma new_message_spec:
  assumes "tree_ok messages" "map_of messages i = None" "save_ok messages i message" "new_message t messages i message = Some m"
  shows "node_ok i (JObj m)" "kids (JObj m) = []" "parent_of (JObj m) = parent_of (JObj message)"
    "k \<notin> {''id'', ''parentId'', ''childrenIds'', ''role'', ''timestamp''} \<Longrightarrow> map_of m k = map_of message k"
    "\<And>p. parent_of (JObj m) = Some p \<Longrightarrow> p \<in> fst ` set messages"
proof -
  have s: "distinct (map fst message)" "\<not> has_key ''parent_id'' message" "i \<noteq> []" "new_ok messages i message"
    using assms(2,3) by (auto simp: save_ok_def)
  have i: "i \<notin> fst ` set messages" using assms(2) by (simp add: map_of_eq_None_iff)
  obtain p r parent role where r: "output_role (jget message ''output'') = Some r"
    and p: "(if jget message ''parentId'' = JNull then adopting_parent messages i else Some (jget message ''parentId'')) = Some p"
    and role: "new_message_role (jget message ''role'') r parent = Some role"
    and m: "m = dict_merge message [(''id'', jor (jget message ''id'') (JStr i)), (''parentId'', p),
        (''childrenIds'', JList (list_of (jget message ''childrenIds''))), (''role'', role),
        (''timestamp'', jor (jget message ''timestamp'') (JInt t))]"
    using assms(4) by (auto simp: new_message_def Let_def split: bind_splits if_splits)
  have p': "p = jget message ''parentId''"
    using p adopting_parent_none [OF assms(1) i order_refl] by (auto split: if_splits)
  have "is_id role"
    using role s(4) r unfolding new_ok_def new_message_role_def
    by (auto simp: is_id_iff jor_def split: if_splits bind_splits)
  moreover have "jor (jget message ''id'') (JStr i) = JStr i"
    using s(3,4) by (auto simp: new_ok_def jor_def)
  moreover have "p = JNull \<or> is_id p" using s(4) by (auto simp: new_ok_def p')
  moreover have "list_of (jget message ''childrenIds'') = []" using s(4) by (simp add: new_ok_def)
  ultimately show "node_ok i (JObj m)" "kids (JObj m) = []"
    using s(1-3) by (simp_all add: node_ok_def Let_def m jget_dict_merge map_of_merge kids_def del: map_of_eq_Some_iff)
  show pm: "parent_of (JObj m) = parent_of (JObj message)"
    by (simp add: parent_of_def m jget_dict_merge p')
  show "map_of m k = map_of message k" if "k \<notin> {''id'', ''parentId'', ''childrenIds'', ''role'', ''timestamp''}"
    using that by (simp add: m map_of_merge)
  show "q \<in> fst ` set messages" if "parent_of (JObj m) = Some q" for q
    using that s(4) unfolding pm by (auto simp: parent_of_def new_ok_def is_id_iff intro: rev_image_eqI dest!: map_of_SomeD)
qed

lemma upsert_new:
  assumes "tree_ok messages" "jget history ''messages'' = JObj messages" "map_of messages i = None" "save_ok messages i message"
    and "upsert_message_to_history t history i message = Some (history', saved)"
  obtains m messages' where "new_message t messages i message = Some m" "saved = JObj m"
    "history' = AList.update ''messages'' (JObj messages') (AList.update ''currentId'' (JStr i) history)"
    "tree_ok messages'" "tree messages' = tree messages @ [(i, parent_of (JObj message))]"
    "map_of messages' = (\<lambda>j. if j = i then Some (JObj m)
       else if parent_of (JObj message) = Some j then Some (append_child (JStr i) (jget messages j)) else map_of messages j)"
proof -
  have h: "map_of history ''messages'' = Some (JObj messages)"
    using assms(2) by (auto simp: jget_def split: option.splits)
  obtain m linked c where m: "new_message t messages i message = Some m"
    and link: "add_child_id_to_parent (AList.update i (JObj m) messages) (jget m ''parentId'') i = Some (linked, c)"
    and h': "history' = AList.update ''messages'' (JObj linked) (AList.update ''currentId'' (JStr i) history)"
    and saved: "saved = jget linked i"
    using assms(5,3) h by (auto simp: upsert_message_to_history_def jget_default_def split: bind_splits)
  note spec = new_message_spec [OF assms(1,3,4) m]
  have i: "i \<notin> fst ` set messages" using assms(3) by (simp add: map_of_eq_None_iff)
  obtain messages' where l: "add_child_id_to_parent (AList.update i (JObj m) messages) (jget (dict_of (JObj m)) ''parentId'') i =
       Some (messages', parent_of (JObj m) \<noteq> None)"
    and res: "tree_ok messages'" "tree messages' = tree messages @ [(i, parent_of (JObj m))]"
    "map_of messages' = (\<lambda>j. if j = i then Some (JObj m)
       else if parent_of (JObj m) = Some j then Some (append_child (JStr i) (jget messages j)) else map_of messages j)"
    by (rule tree_ok_leaf [OF assms(1) i spec(1,2,5)])
  from l link have "messages' = linked" by simp
  with res saved have "saved = JObj m" by (simp add: jget_def)
  then show ?thesis
    by (rule that [OF m _ h' res [unfolded \<open>messages' = linked\<close> spec(3)]])
qed

end
