(* ===== verification/ChatDelete.thy ===== *)
theory ChatDelete
  imports ChatTreeInv
begin

text \<open>
  Deleting a message from a history: the message and its children go, its grandchildren take its
  parent (\<open>prune\<close>), every other message stays as it is, and the new current message is a leaf below
  that parent.
\<close>

subsection \<open>Grandchildren\<close>

definition grandkids :: "json dict \<Rightarrow> string list \<Rightarrow> string list" where
  "grandkids messages ks = concat (map (\<lambda>k. kids (jget messages k)) ks)"

text \<open>What happens to a message that stays.\<close>

definition moved :: "string \<Rightarrow> json \<Rightarrow> string list \<Rightarrow> string \<Rightarrow> json \<Rightarrow> json" where
  "moved i parent_id gs j v =
     (let v = (if parent_id = JStr j
               then JObj (AList.update ''childrenIds'' (JList (map JStr (filter (\<lambda>c. c \<noteq> i) (kids v) @ gs))) (dict_of v)) else v)
      in if j \<in> set gs then JObj (AList.update ''parentId'' parent_id (dict_of v)) else v)"

lemma node_ok_dict: "node_ok i v \<Longrightarrow> \<exists>m. v = JObj m"
  by (auto simp: node_ok_def Let_def elim: is_dict_cases)

lemma iterate_children: "node_ok i (JObj m) \<Longrightarrow> iterate (jor (jget m ''childrenIds'') (JList [])) = Some (map JStr (kids (JObj m)))"
  using node_ok_list [of i "JObj m"] by (auto simp: jor_def)

lemma filter_option_all: "(\<And>x. x \<in> set xs \<Longrightarrow> P x = Some True) \<Longrightarrow> filter_option P xs = Some xs"
  by (induction xs) auto

lemma filter_option_total: "(\<And>x. x \<in> set xs \<Longrightarrow> P x = Some (Q x)) \<Longrightarrow> filter_option P xs = Some (filter Q xs)"
  by (induction xs) auto

lemma present_children_ok:
  assumes "tree_ok messages" "(i, v) \<in> set messages"
  shows "present_children messages v = Some (map JStr (kids v))"
proof -
  have n: "node_ok i v" and k: "set (kids v) = set (children messages i)"
    using tree_okD(4,5) [OF assms(1)] assms(2) by blast+
  obtain m where v: "v = JObj m" using node_ok_dict [OF n] ..
  have "in_dict x messages = Some True" if "x \<in> set (map JStr (kids v))" for x
    using that k by (auto simp: in_dict_def map_of_eq_None_iff dest: children_in)
  then have "filter_option (\<lambda>c. in_dict c messages) (map JStr (kids v)) = Some (map JStr (kids v))"
    by (rule filter_option_all)
  moreover have "iterate (jor (jget m ''childrenIds'') (JList [])) = Some (map JStr (kids v))"
    using iterate_children n unfolding v .
  ultimately show ?thesis unfolding present_children_def v by simp
qed

lemma concat_option_map: "(\<And>x. x \<in> set xs \<Longrightarrow> f x = Some (g x)) \<Longrightarrow> concat_option f xs = Some (concat (map g xs))"
  by (induction xs) auto

lemma grandchildren_ok:
  assumes "tree_ok messages" "set ks \<subseteq> fst ` set messages"
  shows "concat_option (\<lambda>c. present_children messages (jget messages (key c))) (map JStr ks) =
     Some (map JStr (grandkids messages ks))"
proof -
  have "present_children messages (jget messages k) = Some (map JStr (kids (jget messages k)))" if "k \<in> set ks" for k
  proof -
    have "k \<in> fst ` set messages" using that assms(2) by blast
    then obtain v where "(k, v) \<in> set messages" by (auto dest: in_keys)
    then show ?thesis
      using present_children_ok [OF assms(1)] tree_okD(1) [OF assms(1)] by (simp add: jget_def)
  qed
  then have "concat_option (\<lambda>c. present_children messages (jget messages (key c))) (map JStr ks) =
     Some (concat (map (\<lambda>c. map JStr (kids (jget messages (key c)))) (map JStr ks)))"
    by (intro concat_option_map) auto
  then show ?thesis by (simp add: grandkids_def map_concat o_def)
qed

lemma set_parent_map:
  assumes "distinct (map fst messages)" "\<And>g. g \<in> set gs \<Longrightarrow> \<exists>m. map_of messages g = Some (JObj m)"
  shows "set_parent p gs messages = Some (map (\<lambda>(j, v). (j, if j \<in> set gs then JObj (AList.update ''parentId'' p (dict_of v)) else v)) messages)"
  using assms
proof (induction gs arbitrary: messages)
  case (Cons g gs)
  obtain m where m: "map_of messages g = Some (JObj m)" using Cons.prems(2) by auto
  let ?m = "AList.update g (JObj (AList.update ''parentId'' p m)) messages"
  have g: "g \<in> fst ` set messages" using m by (auto dest: map_of_SomeD intro: rev_image_eqI)
  have u: "?m = map (\<lambda>(j, v). (j, if j = g then JObj (AList.update ''parentId'' p m) else v)) messages"
    by (rule update_old [OF Cons.prems(1) g])
  have "set_parent p gs ?m = Some (map (\<lambda>(j, v). (j, if j \<in> set gs then JObj (AList.update ''parentId'' p (dict_of v)) else v)) ?m)"
    by (rule Cons.IH) (use Cons.prems in \<open>auto simp: AList.distinct_update\<close>)
  also have "map (\<lambda>(j, v). (j, if j \<in> set gs then JObj (AList.update ''parentId'' p (dict_of v)) else v)) ?m =
     map (\<lambda>(j, v). (j, if j \<in> set (g # gs) then JObj (AList.update ''parentId'' p (dict_of v)) else v)) messages"
  proof -
    have twice: "AList.update ''parentId'' p (AList.update ''parentId'' p m) = AList.update ''parentId'' p m"
      by (simp add: AList.update_last)
    have "dict_of v = m" if "(g, v) \<in> set messages" for v
      using m Cons.prems(1) that by auto
    then show ?thesis unfolding u by (auto simp: twice)
  qed
  finally show ?case using m by (simp add: jget_def)
qed (simp add: map_idI case_prod_beta)


subsection \<open>The remaining messages\<close>

definition left_messages :: "string \<Rightarrow> json \<Rightarrow> string list \<Rightarrow> json dict \<Rightarrow> json dict" where
  "left_messages i parent_id ks messages =
     map (\<lambda>(j, v). (j, moved i parent_id (grandkids messages ks) j v)) (filter (\<lambda>(j, v). j \<notin> set (i # ks)) messages)"

lemma moved_simps:
  "parent_of (moved i parent_id gs j v) = (if j \<in> set gs then (case parent_id of JStr p \<Rightarrow> Some p | _ \<Rightarrow> None) else parent_of v)"
  "kids (moved i parent_id gs j v) = (if parent_id = JStr j then filter (\<lambda>c. c \<noteq> i) (kids v) @ gs else kids v)"
  by (simp_all add: moved_def parent_of_def kids_def Let_def o_def)

lemma node_ok_moved:
  assumes "node_ok j v" "parent_id = JNull \<or> is_id parent_id"
  shows "node_ok j (moved i parent_id gs j v)"
  using assms by (auto simp: node_ok_def moved_def Let_def list_all_iff simp del: map_of_eq_Some_iff)

lemma edges_tree: "(c, p) \<in> edges (tree messages) \<longleftrightarrow> (\<exists>v. (c, v) \<in> set messages \<and> parent_of v = Some p)"
  by (auto simp: edges_def in_tree)

lemma set_kids:
  assumes "tree_ok messages" "(i, v) \<in> set messages"
  shows "set (kids v) = {c. (c, i) \<in> edges (tree messages)}"
proof -
  have "set (kids v) = set (children messages i)" using tree_okD(5) [OF assms] by blast
  then show ?thesis by (simp add: set_children edges_def)
qed

lemma edge_unique: "distinct (map fst s) \<Longrightarrow> (c, p) \<in> edges s \<Longrightarrow> (c, p') \<in> edges s \<Longrightarrow> p = p'"
  by (auto simp: edges_def dest: eq_key_imp_eq_value)

lemma set_grandkids:
  assumes "tree_ok messages" "set ks \<subseteq> fst ` set messages"
  shows "set (grandkids messages ks) = {c. \<exists>k \<in> set ks. (c, k) \<in> edges (tree messages)}"
proof -
  have "set (kids (jget messages k)) = {c. (c, k) \<in> edges (tree messages)}" if "k \<in> set ks" for k
  proof -
    have "k \<in> fst ` set messages" using that assms(2) by blast
    then obtain v where kv: "(k, v) \<in> set messages" by (auto dest: in_keys)
    then have "jget messages k = v" using tree_okD(1) [OF assms(1)] by (simp add: jget_def)
    with set_kids [OF assms(1) kv] show ?thesis by simp
  qed
  then show ?thesis by (auto simp: grandkids_def)
qed

lemma distinct_grandkids:
  assumes "tree_ok messages" "set ks \<subseteq> fst ` set messages" "distinct ks"
  shows "distinct (grandkids messages ks)"
  using assms(2,3)
proof (induction ks)
  case (Cons k ks)
  have "k \<in> fst ` set messages" using Cons.prems by simp
  then obtain v where kv: "(k, v) \<in> set messages" by (auto dest: in_keys)
  then have j: "jget messages k = v" using tree_okD(1) [OF assms(1)] by (simp add: jget_def)
  have "distinct (kids v)" using tree_okD(5) [OF assms(1) kv] by blast
  moreover have "set (kids v) \<inter> set (grandkids messages ks) = {}"
  proof -
    have "k = k'" if "(x, k) \<in> edges (tree messages)" "(x, k') \<in> edges (tree messages)" for x k'
      using edge_unique that tree_okD(1) [OF assms(1)] by (metis fst_tree(1))
    then show ?thesis
      using set_kids [OF assms(1) kv] set_grandkids [OF assms(1), of ks] Cons.prems by auto
  qed
  ultimately show ?case using Cons j by (simp add: grandkids_def)
qed (simp add: grandkids_def)

lemma tree_remaining:
  assumes "tree_ok messages" "(i, JObj m) \<in> set messages"
  defines "ks \<equiv> kids (JObj m)"
  shows "tree (left_messages i (jget m ''parentId'') ks messages) = prune i (parent_of (JObj m)) ks (tree messages)"
proof -
  have ks: "set ks = {c. (c, i) \<in> edges (tree messages)}"
    unfolding ks_def by (rule set_kids [OF assms(1,2)])
  then have sub: "set ks \<subseteq> fst ` set messages" using edges_fst [of _ _ "tree messages"] by auto
  have "(case jget m ''parentId'' of JStr p \<Rightarrow> Some p | _ \<Rightarrow> None) = parent_of (JObj m)"
    by (simp add: parent_of_def)
  moreover have "j \<in> set (grandkids messages ks) \<longleftrightarrow> (\<exists>k \<in> set ks. parent_of v = Some k)" if "(j, v) \<in> set messages" for j v
    using that set_grandkids [OF assms(1) sub] tree_okD(1) [OF assms(1)]
    by (auto simp: edges_tree dest: eq_key_imp_eq_value)
  ultimately have "map (\<lambda>x. (fst x, parent_of (moved i (jget m ''parentId'') (grandkids messages ks) (fst x) (snd x)))) xs =
      map (\<lambda>x. (fst x, if \<exists>k \<in> set ks. parent_of (snd x) = Some k then parent_of (JObj m) else parent_of (snd x))) xs"
    if "set xs \<subseteq> set messages" for xs
    using that by (intro map_cong) (auto simp: moved_simps)
  from this [of "filter (\<lambda>(j, v). j \<noteq> i \<and> j \<notin> set ks) messages"] show ?thesis
    by (simp add: tree_def prune_def left_messages_def filter_map o_def case_prod_beta')
qed


lemma tree_ok_remaining:
  assumes "tree_ok messages" "(i, JObj m) \<in> set messages"
  defines "ks \<equiv> kids (JObj m)"
  shows "tree_ok (left_messages i (jget m ''parentId'') ks messages)"
proof -
  let ?E = "edges (tree messages)" and ?q = "parent_of (JObj m)" and ?M = "left_messages i (jget m ''parentId'') ks messages"
  have f: "forest (tree messages)" by (rule tree_okD(2) [OF assms(1)])
  have t: "tree ?M = prune i ?q ks (tree messages)"
    unfolding ks_def by (rule tree_remaining [OF assms(1,2)])
  have ks: "set ks = {c. (c, i) \<in> ?E}" unfolding ks_def by (rule set_kids [OF assms(1,2)])
  have n: "node_ok i (JObj m)" using tree_okD(4) [OF assms(1)] assms(2) .
  have q: "jget m ''parentId'' = JStr j \<longleftrightarrow> ?q = Some j" for j
    using node_ok_parent(1) [OF n] by (auto split: option.splits)
  have iq: "(i, p) \<in> ?E \<longleftrightarrow> ?q = Some p" for p
    using assms(2) tree_okD(1) [OF assms(1)] by (auto simp: edges_tree dest: eq_key_imp_eq_value)
  have uniq: "p = p'" if "(c, p) \<in> ?E" "(c, p') \<in> ?E" for c p p'
    using edge_unique that tree_okD(1) [OF assms(1)] by (metis fst_tree(1))
  have sub: "set ks \<subseteq> fst ` set messages" using ks edges_fst [of _ _ "tree messages"] by auto
  have gs: "set (grandkids messages ks) = {c. \<exists>k \<in> set ks. (c, k) \<in> ?E}" "distinct (grandkids messages ks)"
    using set_grandkids distinct_grandkids assms(1) sub tree_okD(5) [OF assms(1,2)] by (simp_all add: ks_def)
  have "(i, parent_of (JObj m)) \<in> set (tree messages)" using assms(2) by (auto simp: in_tree)
  then have fM: "forest (tree ?M)" unfolding t by (rule forest_prune [OF f _ ks])
  have "distinct (kids w') \<and> set (kids w') = set (children ?M j)" if "(j, w') \<in> set ?M" for j w'
  proof -
    from that obtain w where w: "(j, w) \<in> set messages" "j \<noteq> i" "j \<notin> set ks"
      "w' = moved i (jget m ''parentId'') (grandkids messages ks) j w"
      by (auto simp: left_messages_def)
    have kw: "set (kids w) = {c. (c, j) \<in> ?E}" "distinct (kids w)"
      using set_kids tree_okD(5) assms(1) w(1) by blast+
    have ch: "set (children ?M j) = {c. c \<noteq> i \<and> c \<notin> set ks \<and> ((c, j) \<in> ?E \<or> ?q = Some j \<and> (\<exists>k \<in> set ks. (c, k) \<in> ?E))}"
      using w(3) edges_prune [of _ j i ?q ks "tree messages"] by (auto simp: set_children t edges_def)
    have no: "c \<notin> set ks" if "(c, j) \<in> ?E" for c using that uniq ks w(2) by blast
    have gi: "c \<noteq> i \<and> c \<notin> set ks \<and> (c, j) \<notin> ?E" if "(c, k) \<in> ?E" "k \<in> set ks" for c k
      using that ks uniq w(3) forest_irrefl [OF f] forest_no_pair [OF f] by blast
    show ?thesis
    proof (cases "?q = Some j")
      case True
      have "set (children ?M j) = ({c. (c, j) \<in> ?E} - {i}) \<union> set (grandkids messages ks)"
        unfolding ch gs(1) using True no gi by blast
      moreover have "set (kids w) \<inter> set (grandkids messages ks) = {}"
        unfolding kw(1) gs(1) using gi by blast
      ultimately show ?thesis
        using kw gs(2) q [of j] True unfolding w(4) moved_simps by auto
    next
      case False
      then have "set (children ?M j) = {c. (c, j) \<in> ?E}"
        unfolding ch using no iq [of j] by blast
      then show ?thesis using kw q [of j] False unfolding w(4) moved_simps by simp
    qed
  qed
  then have "children_listed ?M" by (auto simp: children_listed_def list_all_iff)
  moreover have "list_all (\<lambda>(i, v). node_ok i v) ?M"
  proof -
    have "jget m ''parentId'' = JNull \<or> is_id (jget m ''parentId'')"
      using n by (simp add: node_ok_def Let_def)
    with tree_okD(4) [OF assms(1)] show ?thesis
      by (auto simp: list_all_iff left_messages_def intro: node_ok_moved)
  qed
  ultimately show ?thesis using fM by (simp add: tree_ok_def)
qed


subsection \<open>The new current message\<close>

lemma last_leaf_descends:
  assumes ok: "tree_ok messages"
  shows "set ks \<subseteq> fst ` set messages \<Longrightarrow> ks \<noteq> [] \<Longrightarrow>
    (\<And>k x. k \<in> set ks \<Longrightarrow> x \<in> set visited \<Longrightarrow> \<exists>a. x = JStr a \<and> (k, a) \<in> (edges (tree messages))\<^sup>+) \<Longrightarrow>
    \<exists>l v. last_leaf messages visited current (JList (map JStr ks)) = Some (JStr l) \<and>
      map_of messages l = Some v \<and> kids v = [] \<and> (l, last ks) \<in> (edges (tree messages))\<^sup>*"
proof (induction "card (set (map (JStr \<circ> fst) messages) - set visited)" arbitrary: visited current ks rule: less_induct)
  case less
  let ?E = "edges (tree messages)" and ?c = "last ks"
  have c: "?c \<in> set ks" using less.prems(2) by simp
  with less.prems(1) have "?c \<in> fst ` set messages" by blast
  then obtain v where cv: "(?c, v) \<in> set messages" by (auto dest: in_keys)
  then have v: "map_of messages ?c = Some v" using tree_okD(1) [OF ok] by simp
  obtain m where m: "v = JObj m" "node_ok ?c v" using tree_ok_stored [OF ok v] by metis
  have l: "jget_default m ''childrenIds'' (JList []) = JList (map JStr (kids v))"
    using node_ok_list [OF m(2)] m(1) by (auto simp: jget_def jget_default_def split: option.splits)
  have new: "JStr ?c \<notin> set visited"
    using less.prems(3) [OF c, of "JStr ?c"] tree_okD(2) [OF ok] by (auto simp: forest_def acyclic_def)
  have unfold: "last_leaf messages visited current (JList (map JStr ks)) =
      last_leaf messages (JStr ?c # visited) (JStr ?c) (JList (map JStr (kids v)))"
    using less.prems(2) new v m(1) l
    by (subst last_leaf.simps) (simp add: last_map dict_get_def jget_default_def [of messages])
  show ?case
  proof (cases "kids v = []")
    case True
    then show ?thesis using unfold v by (subst (asm) (2) last_leaf.simps) simp
  next
    case False
    have "JStr ?c \<in> set (map (JStr \<circ> fst) messages)" using cv by (auto intro: rev_image_eqI)
    then have "card (set (map (JStr \<circ> fst) messages) - set (JStr ?c # visited)) < card (set (map (JStr \<circ> fst) messages) - set visited)"
      using new by (intro psubset_card_mono) auto
    moreover have sub: "set (kids v) \<subseteq> fst ` set messages"
      using set_kids [OF ok cv] edges_fst [of _ ?c "tree messages"] by auto
    moreover have "\<exists>a. x = JStr a \<and> (k, a) \<in> ?E\<^sup>+" if "k \<in> set (kids v)" "x \<in> set (JStr ?c # visited)" for k x
    proof -
      have "(k, ?c) \<in> ?E" using that set_kids [OF ok cv] by simp
      then show ?thesis
        using that(2) less.prems(3) [OF c] by (auto intro: trancl_into_trancl2)
    qed
    ultimately obtain l v' where
      "last_leaf messages (JStr ?c # visited) (JStr ?c) (JList (map JStr (kids v))) = Some (JStr l)"
      "map_of messages l = Some v'" "kids v' = []" "(l, last (kids v)) \<in> ?E\<^sup>*"
      using less.hyps [of "JStr ?c # visited" "kids v" "JStr ?c"] False by blast
    moreover have "(last (kids v), ?c) \<in> ?E" using False set_kids [OF ok cv] by (metis last_in_set mem_Collect_eq)
    ultimately show ?thesis using unfold by (auto intro: rtrancl_into_rtrancl)
  qed
qed


lemma last_leaf_none: "last_leaf messages visited current (JList []) = Some current"
  by (subst last_leaf.simps) simp

text \<open>The message the chat shows afterwards: a leaf below the parent, or any leaf when a root was deleted.\<close>

definition leaf_below :: "json dict \<Rightarrow> string option \<Rightarrow> json \<Rightarrow> bool" where
  "leaf_below messages q c \<longleftrightarrow>
     (if messages = [] then c = JNull
      else (\<exists>l v. c = JStr l \<and> map_of messages l = Some v \<and> kids v = [] \<and>
        (case q of None \<Rightarrow> True | Some p \<Rightarrow> (l, p) \<in> (edges (tree messages))\<^sup>*)))"

lemma last_leaf_parent:
  assumes ok: "tree_ok messages" and v: "map_of messages p = Some v" and m: "v = JObj m"
  shows "\<exists>c. last_leaf messages [] (JStr p) (jget_default m ''childrenIds'' (JList [])) = Some c \<and>
    in_dict c messages = Some True \<and> leaf_below messages (Some p) c"
proof -
  have pv: "(p, v) \<in> set messages" using v by (rule map_of_SomeD)
  have n: "node_ok p v" using tree_okD(4) [OF ok pv] .
  have l: "jget_default m ''childrenIds'' (JList []) = JList (map JStr (kids v))"
    using node_ok_list [OF n] m by (auto simp: jget_def jget_default_def split: option.splits)
  have ne: "messages \<noteq> []" using pv by auto
  show ?thesis
  proof (cases "kids v = []")
    case True
    then show ?thesis using l v ne by (auto simp: last_leaf_none in_dict_def leaf_below_def)
  next
    case False
    have e: "set (kids v) = {c. (c, p) \<in> edges (tree messages)}" by (rule set_kids [OF ok pv])
    then have sub: "set (kids v) \<subseteq> fst ` set messages" using edges_fst [of _ p "tree messages"] by auto
    obtain c w where c: "last_leaf messages [] (JStr p) (JList (map JStr (kids v))) = Some (JStr c)"
      "map_of messages c = Some w" "kids w = []" "(c, last (kids v)) \<in> (edges (tree messages))\<^sup>*"
      using last_leaf_descends [OF ok sub False, of "[]" "JStr p"] by auto
    moreover have "(last (kids v), p) \<in> edges (tree messages)" using False e by (metis last_in_set mem_Collect_eq)
    ultimately have "(c, p) \<in> (edges (tree messages))\<^sup>*" by (auto intro: rtrancl_into_rtrancl)
    with c ne l show ?thesis by (auto simp: in_dict_def leaf_below_def)
  qed
qed

lemma last_leaf_roots:
  assumes ok: "tree_ok messages"
  defines "roots \<equiv> map fst (filter (\<lambda>(i, v). parent_of v = None) messages)"
  shows "\<exists>c. last_leaf messages [] JNull (JList (map JStr roots)) = Some c \<and>
    in_dict c messages = Some (messages \<noteq> []) \<and> leaf_below messages None (if messages = [] then JNull else c)"
proof (cases "messages = []")
  case True
  then show ?thesis by (auto simp: roots_def last_leaf_none in_dict_def leaf_below_def)
next
  case False
  then have "tree messages \<noteq> []" by (simp add: tree_def)
  then obtain i where "(i, None) \<in> set (tree messages)"
    using forest_root [OF tree_okD(2) [OF ok]] by blast
  then have r: "roots \<noteq> []" by (force simp: roots_def in_tree filter_empty_conv)
  have "set roots \<subseteq> fst ` set messages" by (force simp: roots_def)
  then obtain c w where "last_leaf messages [] JNull (JList (map JStr roots)) = Some (JStr c)"
      "map_of messages c = Some w" "kids w = []"
    using last_leaf_descends [OF ok _ r, of "[]" JNull] by auto
  with False show ?thesis by (auto simp: in_dict_def leaf_below_def)
qed


subsection \<open>The deletion\<close>

lemma remove_with_children_spec:
  assumes ok: "tree_ok messages" and iv: "(i, JObj m) \<in> set messages"
  defines "ks \<equiv> kids (JObj m)"
  shows "remove_with_children messages i m = Some (left_messages i (jget m ''parentId'') ks messages, i # ks)"
proof -
  let ?p = "jget m ''parentId''" and ?gs = "grandkids messages ks" and ?E = "edges (tree messages)"
  let ?M = "left_messages i ?p ks messages"
  note d = tree_okD(1) [OF ok]
  have n: "node_ok i (JObj m)" using tree_okD(4) [OF ok iv] .
  have ks: "set ks = {c. (c, i) \<in> ?E}" unfolding ks_def by (rule set_kids [OF ok iv])
  have sub: "set ks \<subseteq> fst ` set messages" using ks edges_fst [of _ i "tree messages"] by auto
  have gsub: "set ?gs \<subseteq> fst ` set messages"
    using set_grandkids [OF ok sub] edges_fst [of _ _ "tree messages"] by auto
  have "i \<notin> set ks" using ks forest_irrefl [OF tree_okD(2) [OF ok]] by auto
  moreover have "distinct ks" unfolding ks_def using tree_okD(5) [OF ok iv] by blast
  ultimately have del: "remdups (i # map (key \<circ> JStr) ks) = i # ks"
    by (simp add: o_def distinct_remdups_id)
  have pc: "present_children messages (JObj m) = Some (map JStr ks)"
    unfolding ks_def by (rule present_children_ok [OF ok iv])
  have gc: "concat_option (\<lambda>c. present_children messages (jget messages (key c))) (map JStr ks) = Some (map JStr ?gs)"
    by (rule grandchildren_ok [OF ok sub])
  define messages1 where "messages1 = map (\<lambda>(j, w). (j, if ?p = JStr j
      then JObj (AList.update ''childrenIds'' (JList (map JStr (filter (\<lambda>c. c \<noteq> i) (kids w) @ ?gs))) (dict_of w)) else w)) messages"
  define messages2 where "messages2 = map (\<lambda>(j, w). (j, if j \<in> set ?gs then JObj (AList.update ''parentId'' ?p (dict_of w)) else w)) messages1"
  have sp: "set_parent ?p (map (key \<circ> JStr) ?gs) messages1 = Some messages2"
  proof -
    have d1: "distinct (map fst messages1)" using d by (simp add: messages1_def o_def case_prod_beta')
    have "\<exists>m. map_of messages1 g = Some (JObj m)" if "g \<in> set ?gs" for g
    proof -
      have "g \<in> fst ` set messages" using that gsub by blast
      then obtain w where w: "(g, w) \<in> set messages" by (auto dest: in_keys)
      then obtain mw where "w = JObj mw" using node_ok_dict tree_okD(4) [OF ok] by blast
      moreover have "(g, if ?p = JStr g
          then JObj (AList.update ''childrenIds'' (JList (map JStr (filter (\<lambda>c. c \<noteq> i) (kids w) @ ?gs))) (dict_of w)) else w) \<in> set messages1"
        using w by (force simp: messages1_def)
      ultimately show ?thesis using map_of_in [OF d1] by (cases "?p = JStr g") auto
    qed
    with d1 show ?thesis using set_parent_map [of messages1 ?gs ?p] by (simp add: o_def messages2_def)
  qed
  have M: "filter (\<lambda>(j, w). j \<notin> set (i # ks)) messages2 = ?M"
    by (simp add: messages2_def left_messages_def messages1_def moved_def filter_map o_def case_prod_beta' Let_def)
  have step: "do {
     parent_present \<leftarrow> in_dict ?p messages;
     (if parent_present then do {
         parent \<leftarrow> dict (jget messages (key ?p));
         siblings \<leftarrow> iterate (jor (jget parent ''childrenIds'') (JList []));
         Some (AList.update (key ?p) (JObj (AList.update ''childrenIds''
           (JList (filter (\<lambda>c. c \<noteq> JStr i) siblings @ map JStr ?gs)) parent)) messages) }
       else Some messages) } = Some messages1"
  proof (cases "parent_of (JObj m)")
    case None
    then have p: "?p = JNull" using node_ok_parent(1) [OF n] by simp
    have "messages1 = messages" unfolding messages1_def p by (simp add: case_prod_beta' map_idI)
    then show ?thesis by (simp add: p in_dict_def)
  next
    case (Some q)
    then have p: "?p = JStr q" "q \<noteq> []" using node_ok_parent [OF n] by simp_all
    obtain w where w: "map_of messages q = Some w" using parent_stored [OF ok iv Some] .
    obtain mw where mw: "w = JObj mw" "(q, w) \<in> set messages" "node_ok q w" using ok w by (rule tree_ok_stored)
    have "q \<in> fst ` set messages" using mw(2) by force
    moreover have "dict_of x = mw \<and> kids x = kids w" if "(q, x) \<in> set messages" for x
      using eq_key_imp_eq_value [OF d that mw(2)] mw(1) by simp
    ultimately have "AList.update q (JObj (AList.update ''childrenIds''
        (JList (filter (\<lambda>c. c \<noteq> JStr i) (map JStr (kids w)) @ map JStr ?gs)) mw)) messages = messages1"
      by (auto simp: update_old [OF d] messages1_def p filter_map o_def)
    moreover have "iterate (jor (jget mw ''childrenIds'') (JList [])) = Some (map JStr (kids w))"
      using iterate_children mw(1,3) by simp
    ultimately show ?thesis using w by (simp add: p in_dict_def jget_map_of mw(1))
  qed
  have "remove_with_children messages i m = do {
      messages \<leftarrow> do {
        parent_present \<leftarrow> in_dict ?p messages;
        (if parent_present then do {
            parent \<leftarrow> dict (jget messages (key ?p));
            siblings \<leftarrow> iterate (jor (jget parent ''childrenIds'') (JList []));
            Some (AList.update (key ?p) (JObj (AList.update ''childrenIds''
              (JList (filter (\<lambda>c. c \<noteq> JStr i) siblings @ map JStr ?gs)) parent)) messages) }
          else Some messages) };
      messages \<leftarrow> set_parent ?p (map (key \<circ> JStr) ?gs) messages;
      Some (filter (\<lambda>(j, w). j \<notin> set (remdups (i # map (key \<circ> JStr) ks))) messages, remdups (i # map (key \<circ> JStr) ks)) }"
    unfolding remove_with_children_def Let_def pc gc by (simp only: Option.bind.simps gc bind_assoc map_map)
  then show ?thesis
    unfolding step by (simp only: Option.bind.simps sp del M)
qed

lemma delete_spec:
  assumes ok: "tree_ok messages" and h: "jget history ''messages'' = JObj messages"
    and v: "map_of messages i = Some (JObj m)"
  defines "ks \<equiv> kids (JObj m)"
  defines "M \<equiv> left_messages i (jget m ''parentId'') ks messages"
  shows "\<exists>c. delete_message_from_history history i =
      Some (AList.update ''currentId'' c (AList.update ''messages'' (JObj M) history), i # ks) \<and>
    leaf_below M (parent_of (JObj m)) c"
proof -
  let ?p = "jget m ''parentId''"
  have iv: "(i, JObj m) \<in> set messages" using v by (rule map_of_SomeD)
  have n: "node_ok i (JObj m)" using tree_okD(4) [OF ok iv] .
  have okM: "tree_ok M" unfolding M_def ks_def by (rule tree_ok_remaining [OF ok iv])
  have "\<exists>c. current_below M ?p = Some c \<and> leaf_below M (parent_of (JObj m)) c"
  proof (cases "parent_of (JObj m)")
    case None
    then have p: "?p = JNull" using node_ok_parent(1) [OF n] by simp
    have "filter_option (\<lambda>(i, v). map_option (\<lambda>m. jget m ''parentId'' = JNull) (dict v)) M =
        Some (filter (\<lambda>(i, v). parent_of v = None) M)"
    proof (rule filter_option_total)
      fix x assume xM: "x \<in> set M"
      obtain j w where x: "x = (j, w)" by (cases x)
      with xM have nw: "node_ok j w" using tree_okD(4) [OF okM] by blast
      then obtain mw where w: "w = JObj mw" using node_ok_dict by blast
      show "(case x of (i, v) \<Rightarrow> map_option (\<lambda>m. jget m ''parentId'' = JNull) (dict v)) =
          Some (case x of (i, v) \<Rightarrow> parent_of v = None)"
        using node_ok_parent(1) [OF nw] by (auto simp: x w split: option.splits)
    qed
    moreover obtain c where "last_leaf M [] JNull (JList (map JStr (map fst (filter (\<lambda>(i, v). parent_of v = None) M)))) = Some c"
      "in_dict c M = Some (M \<noteq> [])" "leaf_below M None (if M = [] then JNull else c)"
      using last_leaf_roots [OF okM] by blast
    ultimately show ?thesis using None by (auto simp: current_below_def p o_def)
  next
    case (Some q)
    then have p: "?p = JStr q" "q \<noteq> []" using node_ok_parent [OF n] by simp_all
    have iq: "(i, q) \<in> edges (tree messages)" using iv Some by (auto simp: edges_tree)
    then have qd: "q \<notin> set (i # ks)"
      using set_kids [OF ok iv] forest_irrefl [OF tree_okD(2) [OF ok]] forest_no_pair [OF tree_okD(2) [OF ok]]
      by (auto simp: ks_def)
    obtain w where w: "map_of messages q = Some w" using parent_stored [OF ok iv Some] .
    then have "(q, moved i ?p (grandkids messages ks) q w) \<in> set M"
      using qd map_of_SomeD [OF w] by (force simp: M_def left_messages_def)
    then have Mq: "map_of M q = Some (moved i ?p (grandkids messages ks) q w)" using tree_okD(1) [OF okM] by simp
    obtain mq where mq: "moved i ?p (grandkids messages ks) q w = JObj mq" using tree_ok_stored [OF okM Mq] by metis
    show ?thesis
      using last_leaf_parent [OF okM Mq mq] Some Mq mq
      by (auto simp: current_below_def p dict_get_def jget_default_def [of M])
  qed
  then obtain c where c: "current_below M ?p = Some c" "leaf_below M (parent_of (JObj m)) c" by blast
  have mm: "dict (jor (jget history ''messages'') (JObj [])) = Some messages"
    using iv by (auto simp: h jor_def)
  have "remove_with_children messages i m = Some (M, i # ks)"
    unfolding M_def ks_def by (rule remove_with_children_spec [OF ok iv])
  then have "delete_message_from_history history i =
      Some (AList.update ''currentId'' c (AList.update ''messages'' (JObj M) history), i # ks)"
    using c(1) v by (simp add: delete_message_from_history_def mm jget_map_of)
  with c(2) show ?thesis by blast
qed

end
