(* ===== verification/ChatMerge.thy ===== *)
theory ChatMerge
  imports ChatDelete
begin

text \<open>
  Merging two histories: the incoming messages over the stored ones, with the lists of children drawn
  anew from the parents. Whatever the two histories list, the children of the result are exact.
\<close>

subsection \<open>Drawing the children\<close>

definition add_kids :: "string list \<Rightarrow> json \<Rightarrow> json" where
  "add_kids cs v = JObj (AList.update ''childrenIds'' (JList (list_of (jget (dict_of v) ''childrenIds'') @ map JStr cs)) (dict_of v))"

lemma update_same: "map_of d k = Some v \<Longrightarrow> AList.update k v d = d"
  by (induction d) auto

lemma add_kids_Nil: "map_of m ''childrenIds'' = Some (JList xs) \<Longrightarrow> add_kids [] (JObj m) = JObj m"
  by (simp add: add_kids_def jget_map_of update_same)

lemma add_kids_append_child: "add_kids cs (append_child (JStr c) v) = add_kids (c # cs) v"
  by (simp add: add_kids_def append_child_def AList.update_last)

lemma add_kids_simps [simp]:
  "parent_of (add_kids cs v) = parent_of v" "kids (add_kids cs v) = kids v @ cs"
  by (simp_all add: add_kids_def parent_of_def kids_def o_def)

lemma dict_of_add_kids:
  "k \<noteq> ''childrenIds'' \<Longrightarrow> jget (dict_of (add_kids cs v)) k = jget (dict_of v) k"
  "k \<noteq> ''childrenIds'' \<Longrightarrow> map_of (dict_of (add_kids cs v)) k = map_of (dict_of v) k"
  by (simp_all add: add_kids_def)

definition has_list :: "json \<Rightarrow> bool" where
  "has_list v \<longleftrightarrow> is_dict v \<and> (\<exists>xs. map_of (dict_of v) ''childrenIds'' = Some (JList xs))"

lemma add_kids_none: "has_list v \<Longrightarrow> add_kids [] v = v"
  by (auto simp: has_list_def add_kids_Nil elim!: is_dict_cases)

lemma has_list_append_child: "has_list (append_child x v)"
  by (simp add: has_list_def append_child_def)

lemma link_children_eq:
  assumes "distinct (map fst merged)" "\<And>j v. (j, v) \<in> set merged \<Longrightarrow> has_list v"
    and "link_children items merged = Some merged'"
  shows "merged' = map (\<lambda>(j, v). (j, add_kids (children items j) v)) merged"
  using assms
proof (induction items arbitrary: merged)
  case Nil
  then have "map (\<lambda>(j, v). (j, add_kids (children [] j) v)) merged = merged"
    by (intro map_idI) (auto simp: children_def add_kids_none)
  with Nil show ?case by simp
next
  case (Cons x items)
  obtain i v where x: "x = (i, v)" by (cases x)
  have ch: "children (x # items) j = (if parent_of v = Some j then [i] else []) @ children items j" for j
    by (simp add: x children_def)
  show ?case
  proof (cases "\<exists>p. parent_of v = Some p \<and> p \<in> fst ` set merged")
    case False
    then have "link_children items merged = Some merged'"
      using Cons.prems(3) by (auto simp: x in_dict_def parent_of_def map_of_eq_None_iff split: json.splits if_splits bind_splits)
    then have "merged' = map (\<lambda>(j, v). (j, add_kids (children items j) v)) merged"
      using Cons.IH Cons.prems(1,2) by blast
    also have "\<dots> = map (\<lambda>(j, v). (j, add_kids (children (x # items) j) v)) merged"
    proof -
      have "parent_of v \<noteq> Some j" if "(j, w) \<in> set merged" for j w
      proof -
        have "j \<in> fst ` set merged" using that by force
        with False show ?thesis by blast
      qed
      then show ?thesis by (auto simp: ch)
    qed
    finally show ?thesis .
  next
    case True
    then obtain p where p: "parent_of v = Some p" "p \<in> fst ` set merged" by blast
    let ?M = "AList.update p (append_child (JStr i) (jget merged p)) merged"
    have M: "?M = map (\<lambda>(j, w). (j, if j = p then append_child (JStr i) (jget merged p) else w)) merged"
      by (rule update_old [OF Cons.prems(1) p(2)])
    have "jget (dict_of v) ''parentId'' = JStr p" using p(1) by (auto simp: parent_of_def split: json.splits)
    moreover have "map_of merged p \<noteq> None" using p(2) by (simp add: map_of_eq_None_iff)
    ultimately have "link_children items ?M = Some merged'"
      using Cons.prems(3) by (auto simp: x in_dict_def)
    moreover have "distinct (map fst ?M)" using Cons.prems(1) by (rule AList.distinct_update)
    moreover have "has_list w" if "(j, w) \<in> set ?M" for j w
      using that Cons.prems(2) by (auto simp: in_update [OF Cons.prems(1)] has_list_append_child split: if_splits)
    ultimately have "merged' = map (\<lambda>(j, v). (j, add_kids (children items j) v)) ?M"
      using Cons.IH by blast
    also have "\<dots> = map (\<lambda>(j, v). (j, add_kids (children (x # items) j) v)) merged"
    proof -
      have "add_kids (children items p) (append_child (JStr i) (jget merged p)) = add_kids (i # children items p) w"
        if "(p, w) \<in> set merged" for w
        using that Cons.prems(1) by (simp add: add_kids_append_child jget_def)
      then show ?thesis unfolding M by (auto simp: ch p(1))
    qed
    finally show ?thesis .
  qed
qed

subsection \<open>Merged histories\<close>

definition drawn :: "json dict \<Rightarrow> json dict" where
  "drawn messages = (let items = reset_children messages in map (\<lambda>(j, v). (j, add_kids (children items j) v)) items)"

lemma reset_children_fst: "map fst (reset_children messages) = map fst (filter (\<lambda>(i, v). is_dict v) messages)"
  by (simp add: reset_children_def case_prod_beta' o_def)

lemma distinct_reset: "distinct (map fst messages) \<Longrightarrow> distinct (map fst (reset_children messages))"
  unfolding reset_children_fst by (rule distinct_map_filter)

lemma reset_has_list: "(j, v) \<in> set (reset_children messages) \<Longrightarrow> has_list v"
  by (auto simp: reset_children_def has_list_def)

lemma in_reset: "(j, w) \<in> set (reset_children messages) \<longleftrightarrow>
    (\<exists>m. (j, JObj m) \<in> set messages \<and> w = JObj (AList.update ''childrenIds'' (JList []) m))"
  by (force simp: reset_children_def elim!: is_dict_cases)

lemma tree_reset: "(\<And>j v. (j, v) \<in> set messages \<Longrightarrow> is_dict v) \<Longrightarrow> tree (reset_children messages) = tree messages"
  by (induction messages) (auto simp: reset_children_def tree_def parent_of_def)

lemma tree_drawn: "tree (drawn messages) = tree (reset_children messages)"
  by (simp add: drawn_def tree_def Let_def case_prod_beta' o_def)

lemma kids_reset: "(j, w) \<in> set (reset_children messages) \<Longrightarrow> kids w = []"
  by (auto simp: in_reset kids_def)

lemma children_listed_drawn:
  assumes "distinct (map fst messages)" shows "children_listed (drawn messages)"
  unfolding children_listed_def list_all_iff children_cong [OF tree_drawn]
  using distinct_children [OF distinct_reset [OF assms]] kids_reset [of _ _ messages] by (auto simp: drawn_def Let_def)

lemma drawn_stored:
  assumes d: "distinct (map fst messages)" and m: "map_of messages j = Some (JObj m)"
  shows "\<exists>m'. map_of (drawn messages) j = Some (JObj m') \<and> (\<forall>k. k \<noteq> ''childrenIds'' \<longrightarrow> map_of m' k = map_of m k)"
proof -
  let ?w = "JObj (AList.update ''childrenIds'' (JList []) m)"
  have "(j, ?w) \<in> set (reset_children messages)" using map_of_SomeD [OF m] by (auto simp: in_reset)
  then have "(j, add_kids (children (reset_children messages) j) ?w) \<in> set (drawn messages)" by (force simp: drawn_def Let_def)
  moreover have "distinct (map fst (drawn messages))"
    using distinct_reset [OF d] by (simp add: drawn_def Let_def case_prod_beta' o_def)
  ultimately show ?thesis by (intro exI [of _ "dict_of (add_kids (children (reset_children messages) j) ?w)"])
    (simp, simp add: add_kids_def)
qed

lemma merge_history_spec:
  assumes "merge_history existing_history incoming_history = Some history"
    and "messages_of existing_history = Some existing" and "messages_of incoming_history = Some incoming"
    and "distinct (map fst existing)"
  shows "jget history ''messages'' = JObj (drawn (dict_merge existing incoming))"
    and "jget history ''currentId'' = JNull \<or>
      in_dict (jget history ''currentId'') (drawn (dict_merge existing incoming)) = Some True"
proof -
  let ?M = "dict_merge existing incoming" and ?o = "dict_of (jor existing_history (JObj []))"
    and ?n = "dict_of (jor incoming_history (JObj []))"
  have d: "distinct (map fst ?M)" using assms(4) by (rule distinct_dict_merge)
  obtain merged b b' where link: "link_children (reset_children ?M) (reset_children ?M) = Some merged"
    and b: "in_dict (jget ?n ''currentId'') merged = Some b"
      "(if b then Some True else in_dict (jget ?o ''currentId'') merged) = Some b'"
    and h: "history = AList.update ''currentId'' (if b then jget ?n ''currentId'' else if b' then jget ?o ''currentId'' else JNull)
             (AList.update ''messages'' (JObj merged) (dict_merge ?o ?n))"
    using assms(1,2,3) by (auto simp: merge_history_def Let_def split: bind_splits)
  have "merged = drawn ?M"
    using link_children_eq [OF distinct_reset [OF d] reset_has_list link] by (simp add: drawn_def Let_def)
  with b h show "jget history ''messages'' = JObj (drawn ?M)"
    "jget history ''currentId'' = JNull \<or> in_dict (jget history ''currentId'') (drawn ?M) = Some True"
    by (auto split: if_splits)
qed

subsection \<open>The tree of a merged history\<close>

text \<open>The fields of a message apart from its children.\<close>

definition fields_ok :: "string \<Rightarrow> json \<Rightarrow> bool" where
  "fields_ok i v \<longleftrightarrow>
     (let m = dict_of v
      in i \<noteq> [] \<and> is_dict v \<and> distinct (map fst m) \<and> jget m ''id'' = JStr i \<and> is_id (jget m ''role'') \<and>
         has_key ''parentId'' m \<and> (jget m ''parentId'' = JNull \<or> is_id (jget m ''parentId'')) \<and>
         \<not> has_key ''parent_id'' m)"

lemma node_ok_fields: "node_ok i v \<Longrightarrow> fields_ok i v"
  by (auto simp: node_ok_def fields_ok_def Let_def simp del: map_of_eq_Some_iff)

lemma fields_ok_add_kids:
  assumes "fields_ok i (JObj m)"
  shows "node_ok i (add_kids cs (JObj (AList.update ''childrenIds'' (JList []) m)))"
  using assms by (auto simp: fields_ok_def node_ok_def Let_def add_kids_def list_all_iff simp del: map_of_eq_Some_iff)

lemma tree_ok_drawn:
  assumes f: "\<And>j v. (j, v) \<in> set messages \<Longrightarrow> fields_ok j v" and t: "forest (tree messages)"
  shows "tree_ok (drawn messages)" and "tree (drawn messages) = tree messages"
proof -
  have dv: "\<And>j v. (j, v) \<in> set messages \<Longrightarrow> is_dict v" using f by (auto simp: fields_ok_def Let_def)
  show tr: "tree (drawn messages) = tree messages" unfolding tree_drawn by (rule tree_reset [OF dv])
  have "distinct (map fst messages)" using t by (simp add: forest_def)
  then have "children_listed (drawn messages)" by (rule children_listed_drawn)
  moreover have "list_all (\<lambda>(j, v). node_ok j v) (drawn messages)"
  proof -
    have "node_ok j (add_kids cs (JObj (AList.update ''childrenIds'' (JList []) m)))" if "(j, JObj m) \<in> set messages" for j m cs
      using f [OF that] by (rule fields_ok_add_kids)
    then show ?thesis by (auto simp: list_all_iff drawn_def Let_def in_reset)
  qed
  ultimately show "tree_ok (drawn messages)" using t by (simp add: tree_ok_def tr)
qed

text \<open>What the client may send of a chat: proper messages, and the stored ones under the parents they have.\<close>

definition incoming_ok :: "json dict \<Rightarrow> json dict \<Rightarrow> bool" where
  "incoming_ok stored incoming \<longleftrightarrow>
     distinct (map fst incoming) \<and>
     list_all (\<lambda>(j, v). fields_ok j v \<and> (case map_of stored j of Some w \<Rightarrow> parent_of v = parent_of w | None \<Rightarrow> True)) incoming \<and>
     forest (tree (dict_merge stored incoming))"

lemma in_merge:
  fixes a b :: "json dict"
  assumes "distinct (map fst a)" "distinct (map fst b)"
  shows "(j, v) \<in> set (dict_merge a b) \<longleftrightarrow> (j, v) \<in> set b \<or> j \<notin> fst ` set b \<and> (j, v) \<in> set a"
proof -
  have "map_of (dict_merge a b) j = Some v \<longleftrightarrow> map_of b j = Some v \<or> map_of b j = None \<and> map_of a j = Some v"
    by (auto simp: map_of_merge [OF assms(2)])
  then show ?thesis
    using assms distinct_dict_merge [OF assms(1), of b] by (simp add: map_of_eq_None_iff)
qed

lemma incoming_fields:
  assumes "tree_ok stored" "incoming_ok stored incoming" "(j, v) \<in> set (dict_merge stored incoming)"
  shows "fields_ok j v" and "map_of stored j = Some w \<Longrightarrow> parent_of v = parent_of w"
proof -
  note d = tree_okD(1) [OF assms(1)]
  have i: "distinct (map fst incoming)" using assms(2) by (simp add: incoming_ok_def)
  have cases: "(j, v) \<in> set incoming \<or> (j, v) \<in> set stored" using assms(3) by (auto simp: in_merge [OF d i])
  then show "fields_ok j v"
    using assms(2) node_ok_fields tree_okD(4) [OF assms(1)] by (auto simp: incoming_ok_def list_all_iff)
  show "parent_of v = parent_of w" if "map_of stored j = Some w"
    using cases
  proof
    assume "(j, v) \<in> set incoming"
    then have "case map_of stored j of Some w \<Rightarrow> parent_of v = parent_of w | None \<Rightarrow> True"
      using assms(2) unfolding incoming_ok_def list_all_iff by blast
    with that show ?thesis by simp
  next
    assume "(j, v) \<in> set stored"
    then show ?thesis using map_of_in [OF d, of j v] that by simp
  qed
qed


subsection \<open>The messages an update keeps\<close>

definition kept :: "chat_item \<Rightarrow> json dict \<Rightarrow> json dict \<Rightarrow> string \<Rightarrow> json \<Rightarrow> json" where
  "kept item stored merged j v =
     (case map_of stored j of Some w \<Rightarrow>
        if is_protected item (dict_of w) (map_of merged j) = Some True then w else v
      | None \<Rightarrow> v)"

lemma keep_protected_ConsE:
  assumes "keep_protected item ((mid, v) # stored) merged = Some messages"
  obtains m b where "v = JObj m" "is_protected item m (map_of merged mid) = Some b"
    "keep_protected item stored (if b then AList.update mid v merged else merged) = Some messages"
  using assms by (cases v) (auto split: bind_splits)

lemma distinct_keep_protected:
  "keep_protected item stored merged = Some messages \<Longrightarrow> distinct (map fst merged) \<Longrightarrow> distinct (map fst messages)"
proof (induction stored arbitrary: merged)
  case (Cons x stored)
  obtain mid v where x: "x = (mid, v)" by (cases x)
  from Cons.prems(1) [unfolded x] obtain m b where
    b: "keep_protected item stored (if b then AList.update mid v merged else merged) = Some messages"
    by (rule keep_protected_ConsE)
  show ?case by (rule Cons.IH [OF b]) (use Cons.prems(2) AList.distinct_update [of merged mid v] in \<open>cases b; simp\<close>)
qed simp

text \<open>What the loop leaves under each key, whatever was merged.\<close>

lemma keep_protected_map:
  assumes "distinct (map fst stored)" "keep_protected item stored merged = Some messages"
  shows "map_of messages j = (case map_of stored j of None \<Rightarrow> map_of merged j
      | Some w \<Rightarrow> if is_protected item (dict_of w) (map_of merged j) = Some True then Some w else map_of merged j)"
  using assms
proof (induction stored arbitrary: merged)
  case (Cons x stored)
  obtain mid v where x: "x = (mid, v)" by (cases x)
  from Cons.prems(2) [unfolded x] obtain m b where
    m: "v = JObj m" "is_protected item m (map_of merged mid) = Some b"
    and rest: "keep_protected item stored (if b then AList.update mid v merged else merged) = Some messages"
    by (rule keep_protected_ConsE)
  have d: "distinct (map fst stored)" and new: "map_of stored mid = None"
    using Cons.prems(1) by (simp_all add: x map_of_eq_None_iff)
  show ?case
    using Cons.IH [OF d rest] m new by (cases b) (auto simp: x split: option.splits)
qed simp

lemma keep_protected_decided:
  assumes "distinct (map fst stored)" "keep_protected item stored merged = Some messages" "map_of stored j = Some w"
  shows "is_dict w" and "is_protected item (dict_of w) (map_of merged j) \<noteq> None"
proof -
  have "is_dict w \<and> is_protected item (dict_of w) (map_of merged j) \<noteq> None"
    using assms
  proof (induction stored arbitrary: merged)
    case (Cons x stored)
    obtain mid v where x: "x = (mid, v)" by (cases x)
    from Cons.prems(2) [unfolded x] obtain m b where
      m: "v = JObj m" "is_protected item m (map_of merged mid) = Some b"
      and rest: "keep_protected item stored (if b then AList.update mid v merged else merged) = Some messages"
      by (rule keep_protected_ConsE)
    have d: "distinct (map fst stored)" using Cons.prems(1) by simp
    show ?case
    proof (cases "j = mid")
      case True
      then show ?thesis using Cons.prems(3) m by (auto simp: x)
    next
      case False
      then show ?thesis using Cons.IH [OF d rest] Cons.prems(3) by (cases b) (simp_all add: x)
    qed
  qed simp
  then show "is_dict w" "is_protected item (dict_of w) (map_of merged j) \<noteq> None" by auto
qed

text \<open>When the merge dropped no stored message, each keeps its place.\<close>

lemma keep_protected_keys:
  "keep_protected item stored merged = Some messages \<Longrightarrow> fst ` set stored \<subseteq> fst ` set merged \<Longrightarrow>
     map fst messages = map fst merged"
proof (induction stored arbitrary: merged)
  case (Cons x stored)
  obtain mid v where x: "x = (mid, v)" by (cases x)
  from Cons.prems(1) [unfolded x] obtain m b where
    b: "keep_protected item stored (if b then AList.update mid v merged else merged) = Some messages"
    by (rule keep_protected_ConsE)
  have "mid \<in> fst ` set merged" using Cons.prems(2) by (simp add: x)
  then have "map fst (AList.update mid v merged) = map fst merged" by (simp add: AList.update_keys)
  moreover from this have "fst ` set (AList.update mid v merged) = fst ` set merged" by (metis list.set_map)
  ultimately show ?case using Cons.IH [OF b] Cons.prems(2) by (cases b) (simp_all add: x)
qed simp

lemma keep_protected_spec:
  assumes "distinct (map fst stored)" "distinct (map fst merged)" "fst ` set stored \<subseteq> fst ` set merged"
    and "keep_protected item stored merged = Some messages"
  shows "messages = map (\<lambda>(j, v). (j, kept item stored merged j v)) merged"
proof (rule nth_equalityI)
  note keys = keep_protected_keys [OF assms(4,3)]
  show len: "length messages = length (map (\<lambda>(j, v). (j, kept item stored merged j v)) merged)"
    using arg_cong [OF keys, of length] by simp
  fix k assume k: "k < length messages"
  obtain j v where jv: "merged ! k = (j, v)" by (cases "merged ! k")
  obtain j' v' where jv': "messages ! k = (j', v')" by (cases "messages ! k")
  have "fst (messages ! k) = fst (merged ! k)" using arg_cong [OF keys, of "\<lambda>ks. ks ! k"] k len by simp
  then have j': "j' = j" by (simp add: jv jv')
  have "map_of merged j = Some v"
    using jv k len assms(2) by (metis length_map map_of_is_SomeI nth_mem)
  moreover have "map_of messages j = Some v'"
    using jv' j' k distinct_keep_protected [OF assms(4,2)] by (metis map_of_is_SomeI nth_mem)
  ultimately have "v' = kept item stored merged j v"
    using keep_protected_map [OF assms(1,4), of j] by (auto simp: kept_def split: option.splits if_splits)
  then show "messages ! k = map (\<lambda>(j, v). (j, kept item stored merged j v)) merged ! k"
    using k len by (simp add: jv jv' j')
qed

lemma messages_of_dict: "jget history ''messages'' = JObj messages \<Longrightarrow> messages_of (JObj history) = Some messages"
  by (cases "history = []"; cases "messages = []") (auto simp: messages_of_def jor_def)

lemma fst_drawn: "(\<And>j v. (j, v) \<in> set messages \<Longrightarrow> is_dict v) \<Longrightarrow> fst ` set (drawn messages) = fst ` set messages"
  by (force simp: drawn_def Let_def reset_children_def image_iff)

lemma fst_merge: "fst ` set (dict_merge a b) = fst ` set a \<union> fst ` set b"
proof (induction b arbitrary: a)
  case (Cons x b)
  then show ?case by (cases x) (simp add: fst_update)
qed simp

lemma stored_in_merge:
  assumes "tree_ok stored" "incoming_ok stored incoming"
  shows "fst ` set stored \<subseteq> fst ` set (drawn (dict_merge stored incoming))"
proof -
  have "is_dict v" if "(j, v) \<in> set (dict_merge stored incoming)" for j v
    using incoming_fields(1) [OF assms that] by (simp add: fields_ok_def Let_def)
  from fst_drawn [OF this] show ?thesis by (auto simp: fst_merge)
qed

lemma merge_stored_history_spec:
  assumes ok: "tree_ok stored" and "jget old ''history'' = JObj history" and "jget history ''messages'' = JObj stored"
    and inc: "messages_of incoming_history = Some incoming" "incoming_ok stored incoming"
    and run: "merge_stored_history item old incoming_history = Some history'"
  defines "merged \<equiv> dict_merge stored incoming"
  defines "K \<equiv> map (\<lambda>(j, v). (j, kept item stored (drawn merged) j v)) (drawn merged)"
  shows "jget history' ''messages'' = JObj (drawn K)"
    and "jget history' ''currentId'' = JNull \<or> in_dict (jget history' ''currentId'') (drawn K) = Some True"
    and "tree_ok (drawn K)" and "tree (drawn K) = tree merged"
proof -
  note d = tree_okD(1) [OF ok]
  have hs: "messages_of (jget old ''history'') = Some stored"
    unfolding assms(2) using assms(3) by (rule messages_of_dict)
  obtain h messages where h: "merge_history (jget old ''history'') incoming_history = Some h"
    and k: "keep_protected item stored (dict_of (jget h ''messages'')) = Some messages"
    and h': "merge_history (JObj (AList.update ''messages'' (JObj messages) h)) (JObj []) = Some history'"
    using run assms(2,3) by (cases stored) (auto simp: merge_stored_history_def jget_default_def jget_def jor_def Let_def
        split: bind_splits option.splits)
  have hm: "jget h ''messages'' = JObj (drawn merged)"
    unfolding merged_def by (rule merge_history_spec(1) [OF h hs inc(1) d])
  have tm: "tree_ok (drawn merged)" "tree (drawn merged) = tree merged"
    using tree_ok_drawn [of merged] incoming_fields(1) [OF ok inc(2)] inc(2)
    unfolding merged_def incoming_ok_def by blast+
  have K: "messages = K"
    unfolding K_def
    by (rule keep_protected_spec [OF d tree_okD(1) [OF tm(1)] stored_in_merge [OF ok inc(2), folded merged_def]])
      (use k hm in simp)
  have dK: "distinct (map fst K)"
    using tree_okD(1) [OF tm(1)] by (simp add: K_def o_def case_prod_beta')
  have new: "messages_of (JObj (AList.update ''messages'' (JObj K) h)) = Some K"
    by (rule messages_of_dict) simp
  show "jget history' ''messages'' = JObj (drawn K)"
    "jget history' ''currentId'' = JNull \<or> in_dict (jget history' ''currentId'') (drawn K) = Some True"
    using merge_history_spec [OF h' [unfolded K] new _ dK, of "[]"] by (simp_all add: messages_of_def)
  have fields: "fields_ok j v" and par: "parent_of v = parent_of u" if ju: "(j, u) \<in> set (drawn merged)" "v = kept item stored (drawn merged) j u" for j u v
  proof -
    have n: "node_ok j u" using tree_okD(4) [OF tm(1) ju(1)] .
    have pu: "parent_of u = parent_of w" if "map_of stored j = Some w" for w
    proof -
      have "(j, parent_of u) \<in> set (tree (drawn merged))" using ju(1) by (auto simp: in_tree)
      then obtain x where "(j, x) \<in> set merged" "parent_of x = parent_of u" by (auto simp: tm(2) in_tree)
      with incoming_fields(2) [OF ok inc(2), of j x w] that show ?thesis by (simp add: merged_def)
    qed
    show "fields_ok j v"
      using node_ok_fields [OF n] node_ok_fields tree_okD(4) [OF ok] ju(2)
      by (auto simp: kept_def split: option.splits dest!: map_of_SomeD)
    show "parent_of v = parent_of u" using pu ju(2) by (auto simp: kept_def split: option.splits)
  qed
  have "tree K = tree (drawn merged)"
    unfolding K_def tree_def using par by (auto intro!: map_cong)
  then have t: "tree K = tree merged" by (simp add: tm(2))
  have f: "forest (tree K)" using inc(2) by (simp add: t merged_def incoming_ok_def)
  have "\<And>j v. (j, v) \<in> set K \<Longrightarrow> fields_ok j v" using fields by (auto simp: K_def)
  then show "tree_ok (drawn K)" "tree (drawn K) = tree merged"
    using tree_ok_drawn [of K] f t by auto
qed

end
