(* ===== verification/ChatSave.thy ===== *)
theory ChatSave
  imports ChatMerge
begin

text \<open>
  The parts the operations on a chat share: values without NUL characters, which the database
  layer leaves alone; saving one message; and the repair of the current message.
\<close>

subsection \<open>Values without NUL characters\<close>

named_theorems nul

lemma nul_free_dict: "nul_free (JObj d) \<longleftrightarrow> (\<forall>k v. (k, v) \<in> set d \<longrightarrow> CHR 0x00 \<notin> set k \<and> nul_free v)"
  by (auto simp: list_all_iff)

lemma nul_free_jget [nul]: "nul_free (JObj d) \<Longrightarrow> nul_free (jget d k)"
  by (auto simp: nul_free_dict jget_def simp del: nul_free.simps(3) split: option.splits dest: map_of_SomeD)

lemma nul_free_jget_default: "nul_free (JObj d) \<Longrightarrow> nul_free v \<Longrightarrow> nul_free (jget_default d k v)"
  by (auto simp: nul_free_dict jget_default_def simp del: nul_free.simps(3) split: option.splits dest: map_of_SomeD)

lemma nul_free_map_of: "nul_free (JObj d) \<Longrightarrow> map_of d k = Some v \<Longrightarrow> nul_free v"
  by (auto simp: list_all_iff dest!: map_of_SomeD)

lemma nul_free_key: "nul_free (JObj d) \<Longrightarrow> map_of d k = Some v \<Longrightarrow> CHR 0x00 \<notin> set k"
  by (auto simp: list_all_iff dest!: map_of_SomeD)

lemma nul_free_update [nul]:
  "CHR 0x00 \<notin> set k \<Longrightarrow> nul_free v \<Longrightarrow> nul_free (JObj d) \<Longrightarrow> nul_free (JObj (AList.update k v d))"
  by (induction d) auto

lemma nul_free_merge [nul]: "nul_free (JObj a) \<Longrightarrow> nul_free (JObj b) \<Longrightarrow> nul_free (JObj (dict_merge a b))"
proof (induction b arbitrary: a)
  case (Cons x b)
  obtain k v where x: "x = (k, v)" by (cases x)
  then have "CHR 0x00 \<notin> set k" "nul_free v" "nul_free (JObj b)" using Cons.prems(2) by auto
  then show ?case
    unfolding x dict_merge_Cons by (intro Cons.IH nul_free_update Cons.prems(1))
qed simp

lemma nul_free_dict_of [nul]: "nul_free v \<Longrightarrow> nul_free (JObj (dict_of v))"
  by (cases v) auto

lemma nul_free_list_of [nul]: "nul_free v \<Longrightarrow> list_all nul_free (list_of v)"
  by (cases v) auto

lemma nul_free_jor [nul]: "nul_free a \<Longrightarrow> nul_free b \<Longrightarrow> nul_free (jor a b)"
  by (simp add: jor_def)

lemma nul_free_sanitized: "nul_free (strip_null_bytes_deep v)"
proof (induction v rule: strip_null_bytes_deep.induct)
  case (3 d)
  have "nul_free (JObj (map (\<lambda>(k, v). (sanitize_text_for_db k, strip_null_bytes_deep v)) d))"
    using 3 by (auto simp: list_all_iff sanitize_text_for_db_def)
  moreover have "nul_free (JObj [])" by simp
  ultimately have "nul_free (JObj (dict_merge [] (map (\<lambda>(k, v). (sanitize_text_for_db k, strip_null_bytes_deep v)) d)))"
    by (rule nul_free_merge [rotated])
  then show ?case by simp
qed (auto simp: list_all_iff sanitize_text_for_db_def)

lemma nul_free_sanitize [nul, simp]: "nul_free (sanitize_data_for_db v)"
  by (simp add: sanitize_data_for_db_def nul_free_sanitized)

lemma nul_free_clean [nul]: "nul_free (JObj (clean d))"
  unfolding clean_def by (rule nul_free_dict_of) simp

lemma clean_id: "nul_free (JObj d) \<Longrightarrow> clean d = d"
  by (simp add: clean_def sanitize_data_for_db_def del: nul_free.simps)

lemma nul_free_filter: "nul_free (JObj d) \<Longrightarrow> nul_free (JObj (filter P d))"
  by (auto simp: list_all_iff)

lemma nul_free_map_filter:
  "nul_free (JObj d) \<Longrightarrow> nul_free (JObj (List.map_filter (\<lambda>k. map_option (Pair k) (map_of d k)) ks))"
  by (induction ks) (auto simp: list_all_iff dest!: map_of_SomeD split: option.splits)

lemma nul_free_meta: "nul_free (JObj a) \<Longrightarrow> nul_free (JObj b) \<Longrightarrow> nul_free (JObj (merge_meta a b))"
  unfolding merge_meta_def by (simp only: nul_free_merge nul_free_map_filter split: if_split) blast

lemma nul_free_with_meta:
  assumes "nul_free (JObj a)" "nul_free (JObj b)" shows "nul_free (JObj (with_meta a b))"
proof (cases "jget b ''meta''")
  case (JObj meta)
  have "nul_free (JObj meta)" using nul_free_jget [OF assms(2), of "''meta''"] JObj by simp
  then have "nul_free (JObj (merge_meta (dict_of (jget a ''meta'')) meta))"
    by (intro nul_free_meta nul_free_dict_of nul_free_jget assms(1))
  then have "nul_free (JObj (AList.update ''meta'' (JObj (merge_meta (dict_of (jget a ''meta'')) meta)) b))"
    using assms(2) by (intro nul_free_update) auto
  then show ?thesis by (simp add: with_meta_def JObj)
qed (simp_all add: with_meta_def assms(2) del: nul_free.simps)

lemma nul_free_add_child:
  assumes "add_child_id_to_parent messages p i = Some (messages', c)" "nul_free (JObj messages)" "CHR 0x00 \<notin> set i"
  shows "nul_free (JObj messages')"
proof -
  have "nul_free (JObj (AList.update q (JObj (AList.update ''childrenIds'' (JList (list_of (jget m ''childrenIds'') @ [JStr i])) m)) messages))"
    if "map_of messages q = Some (JObj m)" for q m
  proof -
    have q: "CHR 0x00 \<notin> set q" "nul_free (JObj m)"
      using nul_free_key [OF assms(2) that] nul_free_map_of [OF assms(2) that] by auto
    have "list_all nul_free (list_of (jget m ''childrenIds''))" by (intro nul_free_list_of nul_free_jget q(2))
    then show ?thesis using q assms(2,3) by (intro nul_free_update) auto
  qed
  moreover have "\<exists>m. map_of messages q = Some (JObj m)" if "dict_get messages (JStr q) JNull = Some (JObj m)" for q m
    using that by (auto simp: dict_get_def jget_default_def split: option.splits)
  ultimately show ?thesis
    using assms(1,2)
    by (auto simp: add_child_id_to_parent_def Let_def dict_get_def jget_default_def simp del: nul_free.simps
        split: bind_splits if_splits json.splits option.splits)
qed

lemma nul_free_adopting: "adopting_parent items i = Some p \<Longrightarrow> nul_free (JObj items) \<Longrightarrow> nul_free p"
  by (induction items i rule: adopting_parent.induct) (auto split: bind_splits if_splits)

lemma nul_free_iterate: "iterate v = Some xs \<Longrightarrow> nul_free v \<Longrightarrow> list_all nul_free xs"
  by (cases v) (fastforce simp: list_all_iff)+

lemma nul_free_output_role:
  assumes "output_role v = Some r" "nul_free v" shows "nul_free r"
proof -
  obtain items where items: "iterate (jor v (JList [])) = Some items"
    and r: "r = (case List.find (\<lambda>i. is_dict i \<and> truthy (jget (dict_of i) ''role'')) items of
             None \<Rightarrow> JNull | Some i \<Rightarrow> jget (dict_of i) ''role'')"
    using assms(1) by (auto simp: output_role_def split: bind_splits)
  have "list_all nul_free items"
    using nul_free_iterate [OF items] assms(2) by (simp add: nul_free_jor)
  then have "nul_free x" if "List.find P items = Some x" for P x
    using that by (auto simp: find_Some_iff list_all_iff)
  then show ?thesis unfolding r by (auto split: option.split intro: nul_free_jget nul_free_dict_of simp del: nul_free.simps(3))
qed

lemma nul_free_new_message:
  assumes m: "new_message t messages i message = Some m"
    and n: "nul_free (JObj messages)" "nul_free (JObj message)" "CHR 0x00 \<notin> set i"
  shows "nul_free (JObj m)"
proof -
  obtain p r parent role where r: "output_role (jget message ''output'') = Some r"
    and p: "(if jget message ''parentId'' = JNull then adopting_parent messages i else Some (jget message ''parentId'')) = Some p"
    and role: "new_message_role (jget message ''role'') r parent = Some role"
    and m': "m = dict_merge message [(''id'', jor (jget message ''id'') (JStr i)), (''parentId'', p),
        (''childrenIds'', JList (list_of (jget message ''childrenIds''))), (''role'', role),
        (''timestamp'', jor (jget message ''timestamp'') (JInt t))]"
    using m by (auto simp: new_message_def Let_def split: bind_splits if_splits)
  have field: "nul_free (jget message k)" for k using n(2) by (rule nul_free_jget)
  have "nul_free p" using p nul_free_adopting n(1) field by (auto split: if_splits)
  moreover have "nul_free role"
    using role nul_free_output_role [OF r field] field
    by (auto simp: new_message_role_def jor_def split: if_splits bind_splits)
  moreover have "list_all nul_free (list_of (jget message ''childrenIds''))" by (intro nul_free_list_of field)
  moreover have "nul_free (jor (jget message ''id'') (JStr i))" "nul_free (jor (jget message ''timestamp'') (JInt t))"
    using n(3) by (auto intro!: nul_free_jor field)
  ultimately have "nul_free (JObj [(''id'', jor (jget message ''id'') (JStr i)), (''parentId'', p),
        (''childrenIds'', JList (list_of (jget message ''childrenIds''))), (''role'', role),
        (''timestamp'', jor (jget message ''timestamp'') (JInt t))])"
    by simp
  then show ?thesis unfolding m' by (rule nul_free_merge [OF n(2)])
qed

lemma upsert_unfold:
  "upsert_message_to_history t history i message = do {
     messages \<leftarrow> dict (jget_default history ''messages'' (JObj []));
     (m, h) \<leftarrow> (case map_of messages i of
        Some existing \<Rightarrow> do { existing \<leftarrow> dict existing; Some (dict_merge existing (with_meta existing message), history) }
      | None \<Rightarrow> do { m \<leftarrow> new_message t messages i message; Some (m, AList.update ''currentId'' (JStr i) history) });
     (linked, c) \<leftarrow> add_child_id_to_parent (AList.update i (JObj m) messages) (jget m ''parentId'') i;
     Some (AList.update ''messages'' (JObj linked) h, jget linked i) }"
  unfolding upsert_message_to_history_def with_meta_def Let_def by (rule refl)

lemma nul_free_upsert:
  assumes run: "upsert_message_to_history t history i message = Some (history', saved)"
    and n: "nul_free (JObj history)" "nul_free (JObj message)" "CHR 0x00 \<notin> set i"
  shows "nul_free (JObj history')" and "nul_free saved"
proof -
  obtain messages m h linked c where ms: "dict (jget_default history ''messages'' (JObj [])) = Some messages"
    and m: "(case map_of messages i of
        Some existing \<Rightarrow> do { existing \<leftarrow> dict existing; Some (dict_merge existing (with_meta existing message), history) }
      | None \<Rightarrow> do { m \<leftarrow> new_message t messages i message; Some (m, AList.update ''currentId'' (JStr i) history) }) = Some (m, h)"
    and link: "add_child_id_to_parent (AList.update i (JObj m) messages) (jget m ''parentId'') i = Some (linked, c)"
    and h': "history' = AList.update ''messages'' (JObj linked) h" "saved = jget linked i"
    using run by (auto simp: upsert_unfold bind_eq_Some_conv)
  have "nul_free (JObj [])" by simp
  from nul_free_jget_default [OF n(1) this, of "''messages''"] ms have nm: "nul_free (JObj messages)"
    by (cases "jget_default history ''messages'' (JObj [])") auto
  have "nul_free (JObj m) \<and> nul_free (JObj h)"
  proof (cases "map_of messages i")
    case None
    then show ?thesis
      using m nul_free_new_message [OF _ nm n(2,3)] n by (auto split: bind_splits intro!: nul_free_update simp del: nul_free.simps(3))
  next
    case (Some v)
    then obtain mv where v: "v = JObj mv" using m by (cases v) auto
    then have "nul_free (JObj mv)" using nul_free_map_of [OF nm Some] by simp
    moreover have "m = dict_merge mv (with_meta mv message)" "h = history" using m Some v by auto
    ultimately show ?thesis using n nul_free_merge nul_free_with_meta by blast
  qed
  then have nh: "nul_free (JObj m)" "nul_free (JObj h)" by auto
  have "nul_free (JObj linked)"
    by (rule nul_free_add_child [OF link]) (use nh nm n in \<open>auto intro!: nul_free_update simp del: nul_free.simps(3)\<close>)
  with nh show "nul_free (JObj history')" "nul_free saved"
    unfolding h' by (auto intro!: nul_free_update nul_free_jget simp del: nul_free.simps(3))
qed

subsection \<open>Saving one message\<close>

text \<open>What a message saved under \<open>i\<close> holds: the stored fields under the given ones.\<close>

definition saved_field :: "json dict \<Rightarrow> string \<Rightarrow> json dict \<Rightarrow> string \<Rightarrow> json" where
  "saved_field messages i message k =
     (if has_key k message then jget message k else jget (dict_of (jget messages i)) k)"

lemma upsert_saved:
  assumes ok: "tree_ok messages" and h: "jget history ''messages'' = JObj messages" and s: "save_ok messages i message"
    and run: "upsert_message_to_history t history i message = Some (history', saved)"
  obtains m messages' where "saved = JObj m" "jget history' ''messages'' = JObj messages'" "tree_ok messages'"
    "map_of messages' i = Some (JObj m)"
    "jget history' ''currentId'' = (if map_of messages i = None then JStr i else jget history ''currentId'')"
    "\<And>j. j \<noteq> i \<Longrightarrow> map_of messages' j = (if map_of messages i = None \<and> parent_of (JObj message) = Some j
       then Some (append_child (JStr i) (jget messages j)) else map_of messages j)"
    "\<And>k. k \<notin> {''id'', ''parentId'', ''childrenIds'', ''role'', ''timestamp'', ''meta''} \<Longrightarrow> jget m k = saved_field messages i message k"
    "parent_of (JObj m) = (case map_of messages i of None \<Rightarrow> parent_of (JObj message) | Some v \<Rightarrow> parent_of v)"
    "kids (JObj m) = (case map_of messages i of None \<Rightarrow> [] | Some v \<Rightarrow> kids v)"
    "tree messages' = (if map_of messages i = None then tree messages @ [(i, parent_of (JObj message))] else tree messages)"
proof (cases "map_of messages i")
  case None
  obtain m messages' where m: "new_message t messages i message = Some m" "saved = JObj m"
    "history' = AList.update ''messages'' (JObj messages') (AList.update ''currentId'' (JStr i) history)"
    "tree_ok messages'" "tree messages' = tree messages @ [(i, parent_of (JObj message))]"
    "map_of messages' = (\<lambda>j. if j = i then Some (JObj m)
       else if parent_of (JObj message) = Some j then Some (append_child (JStr i) (jget messages j)) else map_of messages j)"
    using upsert_new [OF ok h None s run] .
  note spec = new_message_spec [OF ok None s m(1)]
  have "jget m k = saved_field messages i message k" if "k \<notin> {''id'', ''parentId'', ''childrenIds'', ''role'', ''timestamp'', ''meta''}" for k
    using spec(4) [of k] that None by (auto simp: saved_field_def jget_def)
  then show ?thesis
    by (intro that [OF m(2) _ m(4)]) (use m(3,5,6) spec None in auto)
next
  case (Some v)
  let ?m = "dict_merge (dict_of v) (with_meta (dict_of v) message)"
  note u = upsert_existing [OF ok h Some s]
  have d: "distinct (map fst message)" using s by (simp add: save_ok_def)
  have "jget ?m k = saved_field messages i message k" if "k \<notin> {''id'', ''parentId'', ''childrenIds'', ''role'', ''timestamp'', ''meta''}" for k
    using that Some by (simp add: jget_dict_merge [OF with_meta(3) [OF d]] with_meta saved_field_def jget_map_of)
  moreover have h': "history' = AList.update ''messages'' (JObj (AList.update i (JObj ?m) messages)) history" "saved = JObj ?m"
    using u(1) [of t] run by simp_all
  ultimately show ?thesis
    by (intro that [OF h'(2) _ u(2)]) (simp_all add: h'(1) Some u(3,5,6))
qed

end
