(* ===== verification/ChatRepair.thy ===== *)
theory ChatRepair
  imports ChatSave
begin

text \<open>
  The invariant of a stored chat, and the repair of its current message: the messages stay as they are,
  and the current message becomes a leaf of the tree.
\<close>

subsection \<open>Proper chats\<close>

abbreviation chat_messages :: "json dict \<Rightarrow> json dict" where
  "chat_messages chat \<equiv> dict_of (jget (dict_of (jget chat ''history'')) ''messages'')"

abbreviation chat_current :: "json dict \<Rightarrow> json" where
  "chat_current chat \<equiv> jget (dict_of (jget chat ''history'')) ''currentId''"

definition stored_or_none :: "json dict \<Rightarrow> json \<Rightarrow> bool" where
  "stored_or_none messages c \<longleftrightarrow> c = JNull \<or> is_str c \<and> has_key (key c) messages"

definition history_ok :: "json dict \<Rightarrow> bool" where
  "history_ok history \<longleftrightarrow>
     (let messages = dict_of (jget history ''messages'')
      in is_dict (jget history ''messages'') \<and> tree_ok messages \<and> stored_or_none messages (jget history ''currentId''))"

definition chat_ok :: "json dict \<Rightarrow> bool" where
  "chat_ok chat \<longleftrightarrow> is_dict (jget chat ''history'') \<and> history_ok (dict_of (jget chat ''history'')) \<and> nul_free (JObj chat)"

lemma history_okE:
  assumes "history_ok history"
  obtains messages where "jget history ''messages'' = JObj messages" "tree_ok messages"
    "stored_or_none messages (jget history ''currentId'')"
  using assms by (auto simp: history_ok_def Let_def elim!: is_dict_cases)

lemma chat_okE:
  assumes "chat_ok chat"
  obtains history messages where "jget chat ''history'' = JObj history" "jget history ''messages'' = JObj messages"
    "tree_ok messages" "stored_or_none messages (jget history ''currentId'')" "nul_free (JObj chat)" "nul_free (JObj history)"
    "nul_free (JObj messages)"
proof -
  from assms obtain history where h: "jget chat ''history'' = JObj history" "history_ok history" "nul_free (JObj chat)"
    by (auto simp: chat_ok_def simp del: nul_free.simps elim!: is_dict_cases)
  moreover obtain messages where m: "jget history ''messages'' = JObj messages" "tree_ok messages"
    "stored_or_none messages (jget history ''currentId'')"
    using h(2) by (rule history_okE)
  moreover have "nul_free (JObj history)" using nul_free_jget [OF h(3), of "''history''"] h(1) by simp
  moreover from nul_free_jget [OF this, of "''messages''"] have "nul_free (JObj messages)" using m(1) by simp
  ultimately show ?thesis by (intro that)
qed

lemma chat_okI:
  assumes "jget chat ''history'' = JObj history" "jget history ''messages'' = JObj messages"
    "tree_ok messages" "stored_or_none messages (jget history ''currentId'')" "nul_free (JObj chat)"
  shows "chat_ok chat"
  using assms by (simp add: chat_ok_def history_ok_def del: nul_free.simps)

lemma in_dict_stored: "in_dict c messages = Some True \<longleftrightarrow> is_str c \<and> has_key (key c) messages"
  by (cases c) (auto simp: in_dict_def)

lemma stored_or_none_iff: "stored_or_none messages c \<longleftrightarrow> c = JNull \<or> (\<exists>s. c = JStr s \<and> s \<in> fst ` set messages)"
  by (cases c) (auto simp: stored_or_none_def map_of_eq_None_iff)

subsection \<open>The repair\<close>

lemma repair_children_listed:
  "tree_ok messages \<Longrightarrow> set items \<subseteq> set messages \<Longrightarrow> repair_children items messages = Some (messages, False)"
proof (induction items)
  case (Cons x items)
  obtain i v where x: "x = (i, v)" by (cases x)
  then have iv: "(i, v) \<in> set messages" using Cons.prems(2) by simp
  obtain m where m: "v = JObj m" using node_ok_dict tree_okD(4) [OF Cons.prems(1) iv] by blast
  have "map_of messages i = Some v" using iv tree_okD(1) [OF Cons.prems(1)] by simp
  from add_child_listed [OF Cons.prems(1) this] show ?case
    using Cons by (simp add: x m)
qed simp

lemma next_descendant_stored:
  assumes "next_descendant messages seen i = Some j" shows "j \<in> fst ` set messages"
proof -
  have "is_descent messages seen i (JStr j)"
    using assms by (auto simp: next_descendant_def Let_def find_Some_iff split: option.splits json.splits if_splits)
  then show ?thesis
    by (auto simp: is_descent_def jget_def split: json.splits option.splits intro: rev_image_eqI dest!: map_of_SomeD)
qed

lemma last_descendant_stored:
  "c \<in> fst ` set messages \<Longrightarrow> last_descendant_id messages seen c \<in> fst ` set messages"
proof (induction messages seen c rule: last_descendant_id.induct)
  case (1 messages seen i)
  show ?case
  proof (cases "map_of messages i = None \<or> i \<in> set seen \<or> next_descendant messages (i # seen) i = None")
    case True
    then have "last_descendant_id messages seen i = i" by (subst last_descendant_id.simps) auto
    then show ?thesis using 1(2) by simp
  next
    case False
    then obtain j where j: "next_descendant messages (i # seen) i = Some j" by blast
    then have "last_descendant_id messages seen i = last_descendant_id messages (i # seen) j"
      using False by (subst last_descendant_id.simps) auto
    moreover have "last_descendant_id messages (i # seen) j \<in> fst ` set messages"
      using 1(1) [OF _ j next_descendant_stored [OF j]] False by blast
    ultimately show ?thesis by simp
  qed
qed

lemma latest_leaf_stored:
  "latest_leaf items leaf t = Some (Some l) \<Longrightarrow> leaf = Some l \<or> l \<in> fst ` set items"
proof (induction items leaf t rule: latest_leaf.induct)
  case (2 i m items leaf t)
  then show ?case by (auto split: if_splits bind_splits)
qed auto

lemma choose_current_stored:
  assumes "choose_current messages c = Some c'" "stored_or_none messages c"
  shows "stored_or_none messages c'"
proof -
  obtain usable where u: "current_usable messages c = Some usable" using assms(1) by (auto simp: choose_current_def split: bind_splits)
  show ?thesis
  proof (cases usable)
    case True
    then obtain s where s: "c = JStr s" "c' = JStr (last_descendant_id messages [] s)"
      using assms(1) u by (auto simp: choose_current_def split: json.splits)
    then have "s \<in> fst ` set messages" using assms(2) by (simp add: stored_or_none_iff)
    with s show ?thesis using last_descendant_stored by (simp add: stored_or_none_iff)
  next
    case False
    then obtain leaf where "latest_leaf messages None (- 1) = Some leaf"
      "c' = (case leaf of None \<Rightarrow> c | Some l \<Rightarrow> if l = [] then c else JStr l)"
      using assms(1) u by (auto simp: choose_current_def split: bind_splits)
    moreover have "l \<in> fst ` set messages" if "leaf = Some l" for l
      using latest_leaf_stored [of messages None "- 1" l] calculation(1) that by simp
    ultimately show ?thesis using assms(2) by (simp add: stored_or_none_iff split: option.splits if_splits)
  qed
qed

lemma repair_ok:
  assumes ok: "chat_ok chat" and run: "repair_chat_current_id chat = Some (chat', changed)"
  obtains history history' messages where "jget chat ''history'' = JObj history" "jget history ''messages'' = JObj messages"
    "chat' = AList.update ''history'' (JObj history') chat" "jget history' ''messages'' = JObj messages" "chat_ok chat'"
    "choose_current messages (jget history ''currentId'') = Some (jget history' ''currentId'')"
proof -
  obtain history messages where c: "jget chat ''history'' = JObj history" "jget history ''messages'' = JObj messages"
    "tree_ok messages" "stored_or_none messages (jget history ''currentId'')" "nul_free (JObj chat)" "nul_free (JObj history)"
    "nul_free (JObj messages)"
    using ok by (rule chat_okE)
  let ?h = "AList.update ''messages'' (JObj messages) history"
  obtain c' where c': "choose_current messages (jget history ''currentId'') = Some c'"
    and chat': "chat' = AList.update ''history'' (JObj (if c' = jget history ''currentId'' then ?h else AList.update ''currentId'' c' ?h)) chat"
    using run repair_children_listed [OF c(3) order_refl] c(1,2)
    by (auto simp: repair_chat_current_id_def repair_history_def Let_def split: bind_splits if_splits)
  define h' where "h' = (if c' = jget history ''currentId'' then ?h else AList.update ''currentId'' c' ?h)"
  have s: "stored_or_none messages c'" using choose_current_stored c' c(4) by blast
  then have "nul_free c'" using c(7) by (auto simp: stored_or_none_iff list_all_iff)
  then have n: "nul_free (JObj h')" unfolding h'_def using c(6,7) by (auto intro!: nul_free_update simp del: nul_free.simps(3))
  have h': "jget h' ''messages'' = JObj messages" "jget h' ''currentId'' = c'" by (auto simp: h'_def)
  have chat': "chat' = AList.update ''history'' (JObj h') chat" by (simp add: chat' h'_def)
  have "nul_free (JObj chat')" unfolding chat' using n c(5) by (intro nul_free_update) auto
  then have "chat_ok chat'"
    by (intro chat_okI [of _ h' messages]) (simp_all add: chat' h' c(3) s del: nul_free.simps)
  then show ?thesis using that [OF c(1,2) chat' h'(1)] c' by (simp add: h'(2))
qed

subsection \<open>The repaired message is a leaf\<close>

lemma next_descendant_child:
  assumes ok: "tree_ok messages" and v: "map_of messages i = Some v"
    and seen: "\<And>x. x \<in> set seen \<Longrightarrow> (i, x) \<in> (edges (tree messages))\<^sup>*"
  shows "next_descendant messages seen i = (if kids v = [] then None else Some (last (kids v)))"
proof -
  let ?E = "edges (tree messages)"
  obtain m where m: "v = JObj m" "(i, v) \<in> set messages" "node_ok i v" using ok v by (rule tree_ok_stored)
  have l: "list_of (jget m ''childrenIds'') = map JStr (kids v)" using node_ok_list [OF m(3)] m(1) by simp
  have "is_descent messages seen i (JStr s) \<and> s \<noteq> []" if "s \<in> set (kids v)" for s
  proof -
    have e: "(s, i) \<in> ?E" using that set_kids [OF ok m(2)] by simp
    then obtain w where w: "(s, w) \<in> set messages" "parent_of w = Some i" by (auto simp: edges_tree)
    have n: "node_ok s w" using tree_okD(4) [OF ok w(1)] .
    obtain mw where mw: "w = JObj mw" using node_ok_dict [OF n] ..
    have "s \<notin> set seen"
    proof
      assume "s \<in> set seen"
      with seen e have "(s, s) \<in> ?E\<^sup>+" by (metis rtrancl_into_trancl2)
      then show False using tree_okD(2) [OF ok] by (simp add: forest_def acyclic_def)
    qed
    moreover have "jget messages s = w" using w(1) tree_okD(1) [OF ok] by (simp add: jget_def)
    moreover have "jget mw ''parentId'' = JStr i" using node_ok_parent(1) [OF n] w(2) mw by simp
    ultimately show ?thesis using n by (auto simp: is_descent_def mw node_ok_def Let_def is_id_iff)
  qed
  then have "List.find (is_descent messages seen i) (rev (map JStr (kids v))) = (if kids v = [] then None else Some (JStr (last (kids v))))"
    "kids v \<noteq> [] \<Longrightarrow> last (kids v) \<noteq> []"
    by (cases "kids v" rule: rev_cases; simp)+
  then show ?thesis using v m(1) l by (simp add: next_descendant_def jget_map_of)
qed

lemma last_descendant_leaf:
  "tree_ok messages \<Longrightarrow> map_of messages c = Some v \<Longrightarrow> (\<And>x. x \<in> set seen \<Longrightarrow> (c, x) \<in> (edges (tree messages))\<^sup>+) \<Longrightarrow>
    \<exists>w. map_of messages (last_descendant_id messages seen c) = Some w \<and> kids w = [] \<and>
      (last_descendant_id messages seen c, c) \<in> (edges (tree messages))\<^sup>*"
proof (induction messages seen c arbitrary: v rule: last_descendant_id.induct)
  case (1 messages seen i)
  let ?E = "edges (tree messages)"
  have i: "i \<notin> set seen" using 1(4) tree_okD(2) [OF 1(2)] by (auto simp: forest_def acyclic_def)
  have seen: "(i, x) \<in> ?E\<^sup>*" if "x \<in> set (i # seen)" for x
    using that 1(4) by (auto dest: trancl_into_rtrancl)
  have n: "next_descendant messages (i # seen) i = (if kids v = [] then None else Some (last (kids v)))"
    by (rule next_descendant_child [OF 1(2,3) seen])
  show ?case
  proof (cases "kids v = []")
    case True
    then show ?thesis using n 1(3) by (subst (1 2) last_descendant_id.simps) simp
  next
    case False
    let ?k = "last (kids v)"
    have "?k \<in> set (kids v)" using False by simp
    then have e: "(?k, i) \<in> ?E" using set_kids [OF 1(2)] map_of_SomeD [OF 1(3)] by blast
    then obtain w where w: "map_of messages ?k = Some w"
      using tree_okD(1) [OF 1(2)] by (auto simp: edges_tree)
    have "(?k, x) \<in> ?E\<^sup>+" if "x \<in> set (i # seen)" for x
      using e seen [OF that] by (rule rtrancl_into_trancl2)
    moreover have "\<not> (map_of messages i = None \<or> i \<in> set seen)" using 1(3) i by simp
    ultimately obtain u where u: "map_of messages (last_descendant_id messages (i # seen) ?k) = Some u" "kids u = []"
      "(last_descendant_id messages (i # seen) ?k, ?k) \<in> ?E\<^sup>*"
      using 1(1) [of ?k w] 1(2) w n False by auto
    have "last_descendant_id messages seen i = last_descendant_id messages (i # seen) ?k"
      using n False i 1(3) by (subst last_descendant_id.simps) simp
    with u e show ?thesis by (auto intro: rtrancl_into_rtrancl)
  qed
qed

text \<open>What the repair reads of a message besides the tree: its time, and the roles of its output.\<close>

definition dated :: "json \<Rightarrow> bool" where
  "dated v \<longleftrightarrow> (case number (jor (jget (dict_of v) ''timestamp'') (JInt 0)) of Some n \<Rightarrow> 0 \<le> n | None \<Rightarrow> False) \<and>
     output_role (jget (dict_of v) ''output'') \<noteq> None"

lemma latest_leaf_total:
  assumes "\<And>j v. (j, v) \<in> set items \<Longrightarrow> node_ok j v \<and> dated v"
  shows "\<exists>r. latest_leaf items leaf t = Some r \<and> (r = leaf \<or> (\<exists>j v. r = Some j \<and> (j, v) \<in> set items \<and> kids v = [])) \<and>
    (leaf \<noteq> None \<longrightarrow> r \<noteq> None) \<and> (t < 0 \<and> (\<exists>(j, v) \<in> set items. kids v = []) \<longrightarrow> r \<noteq> None)"
  using assms
proof (induction items arbitrary: leaf t)
  case (Cons x items)
  obtain i v where x: "x = (i, v)" by (cases x)
  then have n: "node_ok i v" "dated v" using Cons.prems by auto
  obtain m where m: "v = JObj m" using node_ok_dict [OF n(1)] ..
  have role: "truthy (jget m ''role'')" using n(1) by (auto simp: node_ok_def Let_def m is_id_iff)
  have l: "list_of (jget m ''childrenIds'') = map JStr (kids v)" using node_ok_list [OF n(1)] m by simp
  obtain s where s: "number (jor (jget m ''timestamp'') (JInt 0)) = Some s" "0 \<le> s"
    using n(2) by (auto simp: dated_def m split: option.splits)
  note IH = Cons.IH [OF Cons.prems]
  show ?case
  proof (cases "kids v = [] \<and> s > t")
    case True
    then have "latest_leaf (x # items) leaf t = latest_leaf items (Some i) s" using role l s by (simp add: x m)
    with IH [of "Some i" s] True x show ?thesis by auto
  next
    case False
    then have "latest_leaf (x # items) leaf t = latest_leaf items leaf t" using role l s by (auto simp: x m)
    with IH [of leaf t] False s x show ?thesis by auto
  qed
qed simp

lemma choose_current_leaf:
  assumes ok: "tree_ok messages" "messages \<noteq> []" "\<And>j v. (j, v) \<in> set messages \<Longrightarrow> dated v" and c: "stored_or_none messages c"
  shows "\<exists>l v. choose_current messages c = Some (JStr l) \<and> map_of messages l = Some v \<and> kids v = [] \<and>
    (current_usable messages c = Some True \<longrightarrow> (l, key c) \<in> (edges (tree messages))\<^sup>*)"
proof -
  have "\<exists>b. current_usable messages c = Some b \<and> (b \<longrightarrow> (\<exists>s v. c = JStr s \<and> map_of messages s = Some v))"
  proof (cases "\<exists>s v. c = JStr s \<and> map_of messages s = Some v")
    case True
    then obtain s v where sv: "c = JStr s" "map_of messages s = Some v" by blast
    then obtain m where m: "v = JObj m" "(s, v) \<in> set messages" using tree_ok_stored [OF ok(1) sv(2)] by metis
    then have "dated (JObj m)" using ok(3) by blast
    then show ?thesis using sv m(1) by (auto simp: current_usable_def dict_get_def jget_default_def dated_def)
  next
    case False
    then have "c = JNull" using c by (auto simp: stored_or_none_iff dest!: in_keys)
      (metis map_of_eq_None_iff not_None_eq image_eqI fst_conv)
    then show ?thesis by (simp add: current_usable_def dict_get_def)
  qed
  then obtain b where b: "current_usable messages c = Some b" "b \<Longrightarrow> \<exists>s v. c = JStr s \<and> map_of messages s = Some v" by blast
  show ?thesis
  proof (cases b)
    case True
    then obtain s v where sv: "c = JStr s" "map_of messages s = Some v" using b(2) by blast
    from last_descendant_leaf [OF ok(1) sv(2), of "[]"] show ?thesis
      using b(1) True sv(1) by (auto simp: choose_current_def)
  next
    case False
    obtain l v where "map_of messages l = Some v" "kids v = []"
      using last_leaf_roots [OF ok(1)] ok(2) by (auto simp: leaf_below_def)
    then have "\<exists>(j, v) \<in> set messages. kids v = []" by (auto dest: map_of_SomeD)
    then obtain j u where j: "latest_leaf messages None (- 1) = Some (Some j)" "(j, u) \<in> set messages" "kids u = []"
      using latest_leaf_total [of messages None "- 1"] tree_okD(4) [OF ok(1)] ok(3) by auto
    have "j \<noteq> []" using tree_okD(4) [OF ok(1) j(2)] by (simp add: node_ok_def Let_def)
    then show ?thesis using b(1) False j tree_okD(1) [OF ok(1)] by (auto simp: choose_current_def)
  qed
qed

end
