(* ===== verification/ChatAgree.thy ===== *)
theory ChatAgree
  imports ChatRepair
begin

text \<open>
  The two stores of the messages agree: every row of a chat belongs to a message of its history, with
  the same role, parent and text, and every message has a row. Chat identifiers have one length, so
  that the keys of the rows tell the chats apart.
\<close>

definition row_message_id :: "message_row \<Rightarrow> string" where
  "row_message_id r = drop (Suc (length (mr_chat_id r))) (mr_id r)"

definition agrees :: "message_row \<Rightarrow> json dict \<Rightarrow> bool" where
  "agrees r m \<longleftrightarrow> mr_role r = jget m ''role'' \<and> mr_parent_id r = jget m ''parentId'' \<and>
     (is_str (jget m ''content'') \<longrightarrow> mr_content r = jget m ''content'')"

definition rows_shape :: "nat \<Rightarrow> message_row list \<Rightarrow> bool" where
  "rows_shape n rs \<longleftrightarrow> distinct (map mr_id rs) \<and>
     list_all (\<lambda>r. length (mr_chat_id r) = n \<and> mr_id r = composite_id (mr_chat_id r) (row_message_id r)) rs"

definition row_matches :: "json dict \<Rightarrow> message_row \<Rightarrow> bool" where
  "row_matches messages r \<longleftrightarrow>
     (case map_of messages (row_message_id r) of Some v \<Rightarrow> is_dict v \<and> agrees r (dict_of v) | None \<Rightarrow> False)"

text \<open>All rows of a chat match, except those of the messages in \<open>X\<close>.\<close>

definition rows_match :: "string set \<Rightarrow> string \<Rightarrow> json dict \<Rightarrow> message_row list \<Rightarrow> bool" where
  "rows_match X i messages rs \<longleftrightarrow>
     (\<forall>r \<in> set rs. mr_chat_id r = i \<longrightarrow> row_message_id r \<notin> X \<longrightarrow> row_matches messages r)"

definition row_ids :: "string \<Rightarrow> message_row list \<Rightarrow> string set" where
  "row_ids i rs = row_message_id ` {r \<in> set rs. mr_chat_id r = i}"

definition other_rows :: "string \<Rightarrow> message_row list \<Rightarrow> message_row list" where
  "other_rows i rs = filter (\<lambda>r. mr_chat_id r \<noteq> i) rs"

subsection \<open>Keys\<close>

lemma composite_eq: "length c = length c' \<Longrightarrow> composite_id c m = composite_id c' m' \<longleftrightarrow> c = c' \<and> m = m'"
  by (auto simp: composite_id_def)

lemma row_message_id_composite: "mr_id r = composite_id (mr_chat_id r) m \<Longrightarrow> row_message_id r = m"
  by (simp add: row_message_id_def composite_id_def)

lemma get_row_Some: "get_row rs k = Some r \<Longrightarrow> r \<in> set rs \<and> mr_id r = k"
  by (auto simp: get_row_def find_Some_iff)

lemma get_row_None: "get_row rs k = None \<longleftrightarrow> k \<notin> mr_id ` set rs"
  by (auto simp: get_row_def find_None_iff)

lemma get_row_iff:
  assumes "rows_shape n rs" "length i = n"
  shows "get_row rs (composite_id i mid) = None \<longleftrightarrow> mid \<notin> row_ids i rs"
proof -
  have "composite_id i mid \<in> mr_id ` set rs \<longleftrightarrow> mid \<in> row_ids i rs"
  proof
    assume "composite_id i mid \<in> mr_id ` set rs"
    then obtain r where r: "r \<in> set rs" "mr_id r = composite_id i mid" by auto
    then have "length (mr_chat_id r) = length i" "mr_id r = composite_id (mr_chat_id r) (row_message_id r)"
      using assms by (auto simp: rows_shape_def list_all_iff)
    with r show "mid \<in> row_ids i rs" by (auto simp: row_ids_def composite_eq)
  next
    assume "mid \<in> row_ids i rs"
    then obtain r where r: "r \<in> set rs" "mr_chat_id r = i" "row_message_id r = mid" by (auto simp: row_ids_def)
    then have "mr_id r = composite_id i mid" using assms(1) by (auto simp: rows_shape_def list_all_iff)
    with r(1) show "composite_id i mid \<in> mr_id ` set rs" by (metis imageI)
  qed
  then show ?thesis by (simp add: get_row_None)
qed

subsection \<open>Writing a row\<close>

lemma put_row_set: "set (put_row row rs) = insert row {r \<in> set rs. mr_id r \<noteq> mr_id row}"
proof (cases "mr_id row \<in> mr_id ` set rs")
  case True
  then have "get_row rs (mr_id row) \<noteq> None" by (simp add: get_row_None)
  with True show ?thesis by (auto simp: put_row_def)
next
  case False
  then have "get_row rs (mr_id row) = None" by (simp add: get_row_None)
  moreover have "mr_id r \<noteq> mr_id row" if "r \<in> set rs" for r using that False by (metis imageI)
  then have "{r \<in> set rs. mr_id r \<noteq> mr_id row} = set rs" by blast
  ultimately show ?thesis by (simp add: put_row_def)
qed

lemma put_row_shape:
  assumes s: "rows_shape n rs" and row: "mr_id row = composite_id (mr_chat_id row) mid" "length (mr_chat_id row) = n"
  shows "rows_shape n (put_row row rs)"
proof -
  have d: "distinct (map mr_id rs)" using s by (simp add: rows_shape_def)
  have "map mr_id (put_row row rs) = (if get_row rs (mr_id row) = None then map mr_id rs @ [mr_id row] else map mr_id rs)"
    by (simp add: put_row_def o_def)
  then have "distinct (map mr_id (put_row row rs))" using d by (auto simp: get_row_None)
  with s row row_message_id_composite [OF row(1)] show ?thesis
    by (auto simp: rows_shape_def list_all_iff put_row_set)
qed

lemma put_row_other:
  assumes s: "rows_shape n rs" and row: "mr_id row = composite_id i mid" "mr_chat_id row = i" "length i = n"
  shows "other_rows i (put_row row rs) = other_rows i rs"
proof -
  have "mr_chat_id r = i" if "r \<in> set rs" "mr_id r = mr_id row" for r
    using that s row by (auto simp: rows_shape_def list_all_iff composite_eq)
  then have "map (\<lambda>r. if mr_id r = mr_id row then row else r) rs' = map (\<lambda>r. if mr_chat_id r = i \<and> mr_id r = mr_id row then row else r) rs'"
    if "set rs' \<subseteq> set rs" for rs'
    using that by (intro map_cong) auto
  from this [OF order_refl] have eq: "put_row row rs = (if get_row rs (mr_id row) = None then rs @ [row]
      else map (\<lambda>r. if mr_chat_id r = i \<and> mr_id r = mr_id row then row else r) rs)"
    by (simp add: put_row_def)
  have "filter (\<lambda>r. mr_chat_id r \<noteq> i) (map (\<lambda>r. if mr_chat_id r = i \<and> mr_id r = mr_id row then row else r) xs) =
      filter (\<lambda>r. mr_chat_id r \<noteq> i) xs" for xs
    by (induction xs) (auto simp: row(2))
  then show ?thesis by (simp add: eq other_rows_def row(2))
qed

lemma put_row_ids:
  assumes s: "rows_shape n rs" and row: "mr_id row = composite_id i mid" "mr_chat_id row = i" "length i = n"
  shows "row_ids i (put_row row rs) = insert mid (row_ids i rs)"
proof -
  have m: "row_message_id row = mid" using row row_message_id_composite by simp
  have "row_message_id r = mid" if "r \<in> set rs" "mr_chat_id r = i" "mr_id r = mr_id row" for r
    using that row row_message_id_composite by simp
  then show ?thesis using m row(2) unfolding row_ids_def put_row_set by auto
qed

lemma put_row_match:
  assumes s: "rows_shape n rs" and row: "mr_id row = composite_id i mid" "mr_chat_id row = i" "length i = n"
    and m: "map_of messages mid = Some (JObj m)" "agrees row m" and old: "rows_match X i messages rs"
  shows "rows_match (X - {mid}) i messages (put_row row rs)"
proof -
  have mid: "row_message_id row = mid" using row row_message_id_composite by simp
  have "row_message_id r \<noteq> mid" if "r \<in> set rs" "mr_chat_id r = i" "mr_id r \<noteq> mr_id row" for r
    using that s row by (auto simp: rows_shape_def list_all_iff)
  then show ?thesis
    using old m mid by (auto simp: rows_match_def put_row_set row_matches_def)
qed

lemma upsert_message_row:
  assumes f: "fields_ok mid (JObj m)" and run: "upsert_message e mid i u m rs = Some rs'"
    and s: "rows_shape n rs" "length i = n"
  obtains row where "rs' = put_row row rs" "mr_id row = composite_id i mid" "mr_chat_id row = i" "agrees row m"
proof -
  have k: "has_key ''role'' m" "has_key ''parentId'' m" "\<not> has_key ''parent_id'' m"
    using f by (auto simp: fields_ok_def Let_def is_id_iff jget_def split: option.splits)
  then have jp: "jget m ''parent_id'' = JNull" by (simp add: jget_def)
  show ?thesis
  proof (cases "get_row rs (composite_id i mid)")
    case None
    then obtain row where row: "build_message (composite_id i mid) i u m (now e) = Some row" "rs' = put_row row rs"
      using run by (auto simp: upsert_message_def split: bind_splits if_splits)
    have "jget_default m ''role'' (JStr ''user'') = jget m ''role''" using k(1) by (auto simp: jget_default_def jget_def)
    then have "mr_id row = composite_id i mid" "mr_chat_id row = i" "mr_role row = jget m ''role''"
      "mr_parent_id row = jget m ''parentId''" "mr_content row = jget m ''content''"
      using row(1) jp unfolding build_message_def bind_eq_Some_conv by auto
    then show ?thesis using row(2) by (intro that [of row]) (simp_all add: agrees_def)
  next
    case (Some old)
    then obtain row where row: "apply_message_data old m (now e) = Some row" "rs' = put_row row rs"
      using run by (auto simp: upsert_message_def split: bind_splits if_splits)
    have old: "mr_id old = composite_id i mid" "old \<in> set rs" using get_row_Some [OF Some] by auto
    then have "mr_chat_id old = i" using s by (auto simp: rows_shape_def list_all_iff composite_eq)
    moreover have "is_str (jget m ''content'') \<Longrightarrow> has_key ''content'' m" by (auto simp: jget_def split: option.splits)
    moreover have "mr_id row = mr_id old" "mr_chat_id row = mr_chat_id old" "mr_role row = jget m ''role''"
      "mr_parent_id row = jget m ''parentId''" "has_key ''content'' m \<Longrightarrow> mr_content row = jget m ''content''"
      using row(1) k jp unfolding apply_message_data_def bind_eq_Some_conv Let_def by auto
    ultimately show ?thesis
      using row(2) old(1) by (intro that [of row]) (simp_all add: agrees_def)
  qed
qed

subsection \<open>The change of one chat\<close>

text \<open>What an operation on a chat does to the rows: other chats keep theirs, and the own rows match.\<close>

definition rows_step :: "nat \<Rightarrow> string \<Rightarrow> string set \<Rightarrow> json dict \<Rightarrow> message_row list \<Rightarrow> message_row list \<Rightarrow> bool" where
  "rows_step n i X messages rs rs' \<longleftrightarrow>
     rows_shape n rs' \<and> other_rows i rs' = other_rows i rs \<and> rows_match X i messages rs'"

lemma save_message_row_step:
  assumes "save_message_row e i item (mid, JObj m) rs = Some rs'" "length i = n"
    and "map_of messages mid = Some (JObj m)" "fields_ok mid (JObj m)" "rows_step n i X messages rs0 rs"
  shows "rows_step n i (X - {mid}) messages rs0 rs'" "row_ids i rs' = insert mid (row_ids i rs)"
proof -
  have s: "rows_shape n rs" using assms(5) by (simp add: rows_step_def)
  have "upsert_message (store_env.truncate e) mid i (user_of m item) m rs = Some rs'"
    using assms(1) by (simp add: save_message_row_def)
  then obtain row where row: "rs' = put_row row rs" "mr_id row = composite_id i mid" "mr_chat_id row = i" "agrees row m"
    using upsert_message_row assms(2,4) s by blast
  show "rows_step n i (X - {mid}) messages rs0 rs'"
    using put_row_shape [OF s, of row mid] put_row_other [OF s row(2,3)] put_row_match [OF s row(2,3) _ assms(3)] row assms(2,5)
    by (simp add: rows_step_def)
  show "row_ids i rs' = insert mid (row_ids i rs)"
    using put_row_ids [OF s row(2,3)] assms(2) row(1) by simp
qed

lemma save_message_rows_step:
  assumes "save_message_rows e i item ms rs = Some rs'" "length i = n"
    and "\<And>mid v. (mid, v) \<in> set ms \<Longrightarrow> map_of messages mid = Some v \<and> fields_ok mid v" "rows_step n i X messages rs0 rs"
  shows "rows_step n i (X - fst ` set ms) messages rs0 rs' \<and> row_ids i rs' = fst ` set ms \<union> row_ids i rs"
  using assms
proof (induction ms arbitrary: rs X)
  case (Cons x ms)
  obtain mid v where x: "x = (mid, v)" by (cases x)
  obtain m where v: "v = JObj m" using Cons.prems(3) [of mid v] by (auto simp: x fields_ok_def Let_def elim: is_dict_cases)
  obtain rs1 where rs1: "save_message_row e i item (mid, JObj m) rs = Some rs1" "save_message_rows e i item ms rs1 = Some rs'"
    using Cons.prems(1) by (auto simp: x v split: bind_splits)
  have stored: "map_of messages mid = Some (JObj m)" "fields_ok mid (JObj m)" using Cons.prems(3) [of mid v] by (auto simp: x v)
  note step = save_message_row_step [OF rs1(1) Cons.prems(2) stored Cons.prems(4)]
  have "rows_step n i (X - {mid} - fst ` set ms) messages rs0 rs' \<and> row_ids i rs' = fst ` set ms \<union> row_ids i rs1"
    using Cons.IH [OF rs1(2) Cons.prems(2) _ step(1)] Cons.prems(3) by auto
  then show ?case using step(2) by (auto simp: x Diff_insert2 [symmetric])
qed simp

text \<open>Messages whose role, parent and text are those of the stored ones.\<close>

definition same_fields :: "json dict \<Rightarrow> json dict \<Rightarrow> bool" where
  "same_fields m m' \<longleftrightarrow> jget m' ''role'' = jget m ''role'' \<and> jget m' ''parentId'' = jget m ''parentId'' \<and>
     (is_str (jget m' ''content'') \<longrightarrow> jget m ''content'' = jget m' ''content'')"

lemma same_fields_refl [simp]: "same_fields m m"
  by (simp add: same_fields_def)

lemma rows_match_mono:
  assumes "rows_match X i messages rs" "X \<subseteq> X'"
    and "\<And>j m. j \<notin> X' \<Longrightarrow> map_of messages j = Some (JObj m) \<Longrightarrow> \<exists>m'. map_of messages' j = Some (JObj m') \<and> same_fields m m'"
  shows "rows_match X' i messages' rs"
  unfolding rows_match_def
proof (intro ballI impI)
  fix r assume r: "r \<in> set rs" "mr_chat_id r = i" "row_message_id r \<notin> X'"
  then have "row_matches messages r" using assms(1,2) by (auto simp: rows_match_def)
  then obtain m where m: "map_of messages (row_message_id r) = Some (JObj m)" "agrees r m"
    by (auto simp: row_matches_def split: option.splits elim!: is_dict_cases)
  from assms(3) [OF r(3) m(1)] obtain m' where "map_of messages' (row_message_id r) = Some (JObj m')" "same_fields m m'" by blast
  with m(2) show "row_matches messages' r" by (auto simp: row_matches_def agrees_def same_fields_def)
qed

lemma rows_step_start: "rows_shape n rs \<Longrightarrow> rows_match X i messages rs \<Longrightarrow> rows_step n i X messages rs rs"
  by (simp add: rows_step_def)

end
