(* ===== verification/ChatStep.thy ===== *)
theory ChatStep
  imports ChatAgree
begin

text \<open>
  The invariant of the stored chats, and the operations on single messages keep it: saving and deleting
  a message, its status and its files.
\<close>

subsection \<open>The invariant\<close>

definition item_ok :: "string \<Rightarrow> chat_item \<Rightarrow> message_row list \<Rightarrow> bool" where
  "item_ok i item rs \<longleftrightarrow>
     (case ci_chat item of JObj chat \<Rightarrow>
        chat_ok chat \<and> rows_match {} i (chat_messages chat) rs \<and> row_ids i rs = fst ` set (chat_messages chat)
      | _ \<Rightarrow> False)"

definition chats_ok :: "nat \<Rightarrow> chat_db \<Rightarrow> bool" where
  "chats_ok n d \<longleftrightarrow> distinct (map fst (chats d)) \<and> rows_shape n (rows d) \<and>
     (\<forall>(i, item) \<in> set (chats d). length i = n \<and> item_ok i item (rows d)) \<and>
     mr_chat_id ` set (rows d) \<subseteq> fst ` set (chats d)"

text \<open>What one operation does to its chat and to the rows.\<close>

definition item_step :: "nat \<Rightarrow> string \<Rightarrow> message_row list \<Rightarrow> chat_item \<Rightarrow> message_row list \<Rightarrow> bool" where
  "item_step n i rs item' rs' \<longleftrightarrow>
     rows_shape n rs' \<and> other_rows i rs' = other_rows i rs \<and> item_ok i item' rs'"

lemma own_rows: "j \<noteq> i \<Longrightarrow> filter (\<lambda>r. mr_chat_id r = j) rs = filter (\<lambda>r. mr_chat_id r = j) (other_rows i rs)"
  by (auto simp: other_rows_def filter_filter intro: filter_cong)

lemma item_ok_frame:
  assumes "other_rows i rs' = other_rows i rs" "j \<noteq> i"
  shows "item_ok j item rs' = item_ok j item rs"
proof -
  have "filter (\<lambda>r. mr_chat_id r = j) rs' = filter (\<lambda>r. mr_chat_id r = j) rs"
    using own_rows [OF assms(2), of rs] own_rows [OF assms(2), of rs'] assms(1) by simp
  then have "{r \<in> set rs'. mr_chat_id r = j} = {r \<in> set rs. mr_chat_id r = j}" by (metis set_filter)
  moreover have "rows_match {} j messages rs = (\<forall>r \<in> {r \<in> set rs. mr_chat_id r = j}. row_matches messages r)" for messages rs
    by (auto simp: rows_match_def)
  ultimately have "rows_match {} j messages rs' = rows_match {} j messages rs" "row_ids j rs' = row_ids j rs" for messages
    by (simp_all only: row_ids_def)
  then show ?thesis by (simp add: item_ok_def cong: json.case_cong)
qed

lemma chats_ok_put:
  assumes ok: "chats_ok n d" and i: "length i = n" and step: "item_step n i (rows d) item' rs'"
  shows "chats_ok n \<lparr>chats = AList.update i item' (chats d), rows = rs'\<rparr>"
proof -
  have o: "other_rows i rs' = other_rows i (rows d)" and s: "rows_shape n rs'" "item_ok i item' rs'"
    using step by (auto simp: item_step_def)
  have d: "distinct (map fst (chats d))" using ok by (simp add: chats_ok_def)
  have dist: "distinct (map fst (AList.update i item' (chats d)))" using d by (rule AList.distinct_update)
  have items: "length j = n \<and> item_ok j item rs'" if "(j, item) \<in> set (AList.update i item' (chats d))" for j item
  proof (cases "j = i")
    case True
    with that have "item = item'" by (simp add: in_update [OF d])
    with True i s(2) show ?thesis by simp
  next
    case False
    with that have "(j, item) \<in> set (chats d)" by (simp add: in_update [OF d])
    then show ?thesis using ok item_ok_frame [OF o False] by (auto simp: chats_ok_def)
  qed
  have "mr_chat_id r \<in> insert i (fst ` set (chats d))" if "r \<in> set rs'" for r
  proof (cases "mr_chat_id r = i")
    case False
    then have "r \<in> set (other_rows i (rows d))" using that o [symmetric] by (simp add: other_rows_def)
    then show ?thesis using ok by (auto simp: chats_ok_def other_rows_def)
  qed simp
  then have "mr_chat_id ` set rs' \<subseteq> fst ` set (AList.update i item' (chats d))" by (auto simp: fst_update)
  with dist s(1) items show ?thesis by (auto simp: chats_ok_def)
qed

lemma chats_ok_item:
  assumes "chats_ok n d" "map_of (chats d) i = Some item"
  shows "length i = n" "rows_shape n (rows d)" "item_ok i item (rows d)"
  using assms map_of_SomeD [OF assms(2)] by (auto simp: chats_ok_def)

lemma transaction_ok:
  assumes ok: "chats_ok n d"
    and body: "\<And>item x item' rs'. map_of (chats d) i = Some item \<Longrightarrow> length i = n \<Longrightarrow> rows_shape n (rows d) \<Longrightarrow>
      item_ok i item (rows d) \<Longrightarrow> body item (rows d) = Some (x, item', rs') \<Longrightarrow> item_step n i (rows d) item' rs'"
  shows "chats_ok n (snd (chat_transaction i body d))"
proof (cases "map_of (chats d) i")
  case None
  then show ?thesis using ok by (simp add: chat_transaction_def)
next
  case (Some item)
  note item = chats_ok_item [OF ok Some]
  show ?thesis
  proof (cases "body item (rows d)")
    case None
    then show ?thesis using ok Some by (simp add: chat_transaction_def)
  next
    case (Some y)
    obtain x item' rs' where "y = (x, item', rs')" by (cases y)
    with Some \<open>map_of (chats d) i = Some item\<close> body [OF \<open>map_of (chats d) i = Some item\<close> item] chats_ok_put [OF ok item(1)]
    show ?thesis by (simp add: chat_transaction_def)
  qed
qed

subsection \<open>Beginning and end of an operation\<close>

lemma item_okE:
  assumes "item_ok i item rs" "chat_data item = Some chat"
  obtains history messages where "ci_chat item = JObj chat" "chat_ok chat"
    "jget chat ''history'' = JObj history" "jget history ''messages'' = JObj messages" "tree_ok messages"
    "stored_or_none messages (jget history ''currentId'')" "nul_free (JObj history)" "nul_free (JObj messages)"
    "rows_match {} i messages rs" "row_ids i rs = fst ` set messages"
proof -
  obtain chat0 where c: "ci_chat item = JObj chat0" "chat_ok chat0" "rows_match {} i (chat_messages chat0) rs"
      "row_ids i rs = fst ` set (chat_messages chat0)"
    using assms(1) by (auto simp: item_ok_def split: json.splits)
  obtain history messages where h: "jget chat0 ''history'' = JObj history" "jget history ''messages'' = JObj messages"
    "tree_ok messages" "stored_or_none messages (jget history ''currentId'')" "nul_free (JObj history)" "nul_free (JObj messages)"
    using c(2) by (rule chat_okE)
  then have "chat0 \<noteq> []" by auto
  then have "chat = chat0" using assms(2) c(1) by (simp add: chat_data_def jor_def)
  with c h show ?thesis by (intro that [of history messages]) (simp_all del: nul_free.simps)
qed

lemma jget_default_stored: "jget d k = JObj x \<Longrightarrow> jget_default d k v = JObj x"
  by (auto simp: jget_def jget_default_def split: option.splits)

lemma repaired_item:
  assumes "item_ok i item rs" "chat_data item = Some chat0" "repair_chat_current_id chat0 = Some (chat, changed)"
  obtains history messages where "chat_ok chat" "nul_free (JObj chat)" "jget_default chat ''history'' (JObj []) = JObj history"
    "jget chat ''history'' = JObj history" "jget history ''messages'' = JObj messages" "tree_ok messages"
    "stored_or_none messages (jget history ''currentId'')" "nul_free (JObj history)" "nul_free (JObj messages)"
    "rows_match {} i messages rs" "row_ids i rs = fst ` set messages" "messages = chat_messages chat0"
proof -
  obtain history messages where old: "ci_chat item = JObj chat0" "chat_ok chat0" "jget chat0 ''history'' = JObj history"
    "jget history ''messages'' = JObj messages" "tree_ok messages" "stored_or_none messages (jget history ''currentId'')"
    "nul_free (JObj history)" "nul_free (JObj messages)" "rows_match {} i messages rs" "row_ids i rs = fst ` set messages"
    using item_okE [OF assms(1,2)] .
  obtain h1 history' m1 where r0: "jget chat0 ''history'' = JObj h1" "jget h1 ''messages'' = JObj m1"
    "chat = AList.update ''history'' (JObj history') chat0" "jget history' ''messages'' = JObj m1" "chat_ok chat"
    "choose_current m1 (jget h1 ''currentId'') = Some (jget history' ''currentId'')"
    using repair_ok [OF old(2) assms(3)] .
  have "m1 = messages" using r0(1,2) old(3,4) by simp
  then have r: "chat = AList.update ''history'' (JObj history') chat0" "jget history' ''messages'' = JObj messages" "chat_ok chat"
    using r0(3,4,5) by simp_all
  have h: "jget chat ''history'' = JObj history'" using r(1) by simp
  obtain h0 m0 where c: "jget chat ''history'' = JObj h0" "jget h0 ''messages'' = JObj m0"
    "tree_ok m0" "stored_or_none m0 (jget h0 ''currentId'')" "nul_free (JObj chat)" "nul_free (JObj h0)" "nul_free (JObj m0)"
    using r(3) by (rule chat_okE)
  have "h0 = history'" using c(1) h by simp
  then have "m0 = messages" using c(2) r(2) by simp
  show ?thesis
    using c \<open>h0 = history'\<close> \<open>m0 = messages\<close> r(3) old(3,4,9,10) jget_default_stored [OF h]
    by (intro that [of history' messages]) (simp_all del: nul_free.simps)
qed

lemma finish_item:
  assumes "ci_chat item' = JObj chat'" "jget chat' ''history'' = JObj history'" "jget history' ''messages'' = JObj messages'"
    and "tree_ok messages'" "stored_or_none messages' (jget history' ''currentId'')" "nul_free (JObj chat')"
    and "rows_step n i {} messages' rs rs'" "row_ids i rs' = fst ` set messages'"
  shows "item_step n i rs item' rs'"
proof -
  have "chat_ok chat'" by (rule chat_okI) (fact assms)+
  then show ?thesis using assms by (simp add: item_step_def item_ok_def rows_step_def)
qed

lemma store_chat_chat: "store_chat chat item = Some item' \<Longrightarrow> ci_chat item' = JObj chat"
  by (auto simp: store_chat_def split: bind_splits)

lemma nul_free_history:
  "nul_free (JObj chat) \<Longrightarrow> nul_free (JObj history) \<Longrightarrow> nul_free (JObj (AList.update ''history'' (JObj history) chat))"
  by (intro nul_free_update) auto

subsection \<open>Saving a message\<close>

lemma keys_map_of: "map_of d k = Some v \<Longrightarrow> k \<in> fst ` set d"
  by (auto dest: map_of_SomeD intro: rev_image_eqI)

lemma stored_or_none_mono: "stored_or_none messages c \<Longrightarrow> fst ` set messages \<subseteq> fst ` set messages' \<Longrightarrow> stored_or_none messages' c"
  by (auto simp: stored_or_none_iff)

lemma same_fields_append_child: "same_fields (dict_of v) (dict_of (append_child x v))"
  by (simp add: same_fields_def dict_of_append_child)

text \<open>One message saved in a history whose rows match.\<close>

lemma upsert_rows:
  assumes ok: "tree_ok messages" and h: "jget history ''messages'' = JObj messages" and s: "save_ok messages i message"
    and run: "upsert_message_to_history t history i message = Some (history', saved)"
    and m': "jget history' ''messages'' = JObj messages'"
    and rows: "rows_match X c messages rs" "stored_or_none messages (jget history ''currentId'')"
  shows "tree_ok messages'" "stored_or_none messages' (jget history' ''currentId'')" "fst ` set messages' = insert i (fst ` set messages)"
    "map_of messages' i = Some saved" "node_ok i saved" "rows_match (insert i X) c messages' rs"
    "tree messages' = (if map_of messages i = None then tree messages @ [(i, parent_of (JObj message))] else tree messages)"
    "jget history' ''currentId'' = (if map_of messages i = None then JStr i else jget history ''currentId'')"
    "j \<noteq> i \<Longrightarrow> map_of messages' j = (if map_of messages i = None \<and> parent_of (JObj message) = Some j
       then Some (append_child (JStr i) (jget messages j)) else map_of messages j)"
proof -
  obtain m M where u: "saved = JObj m" "jget history' ''messages'' = JObj M" "tree_ok M" "map_of M i = Some (JObj m)"
    "jget history' ''currentId'' = (if map_of messages i = None then JStr i else jget history ''currentId'')"
    "\<And>j. j \<noteq> i \<Longrightarrow> map_of M j = (if map_of messages i = None \<and> parent_of (JObj message) = Some j
       then Some (append_child (JStr i) (jget messages j)) else map_of messages j)"
    "\<And>k. k \<notin> {''id'', ''parentId'', ''childrenIds'', ''role'', ''timestamp'', ''meta''} \<Longrightarrow> jget m k = saved_field messages i message k"
    "parent_of (JObj m) = (case map_of messages i of None \<Rightarrow> parent_of (JObj message) | Some v \<Rightarrow> parent_of v)"
    "kids (JObj m) = (case map_of messages i of None \<Rightarrow> [] | Some v \<Rightarrow> kids v)"
    "tree M = (if map_of messages i = None then tree messages @ [(i, parent_of (JObj message))] else tree messages)"
    by (rule upsert_saved [OF ok h s run]) blast
  have M: "M = messages'" using u(2) m' by simp
  have parent: "\<exists>w. map_of messages j = Some w" if "map_of messages i = None" "parent_of (JObj message) = Some j" for j
    using s that by (auto simp: save_ok_def new_ok_def parent_of_def split: json.splits)
  show "tree_ok messages'" using u(3) M by simp
  show "tree messages' = (if map_of messages i = None then tree messages @ [(i, parent_of (JObj message))] else tree messages)"
    using u(10) M by simp
  show "jget history' ''currentId'' = (if map_of messages i = None then JStr i else jget history ''currentId'')" by (rule u(5))
  show "map_of messages' j = (if map_of messages i = None \<and> parent_of (JObj message) = Some j
       then Some (append_child (JStr i) (jget messages j)) else map_of messages j)" if "j \<noteq> i"
    using u(6) [OF that] M by simp
  have dom: "map_of messages' j = None \<longleftrightarrow> j \<noteq> i \<and> map_of messages j = None" for j
    using u(4) u(6) [of j] M parent by (cases "j = i") auto
  have "j \<in> fst ` set messages' \<longleftrightarrow> j = i \<or> j \<in> fst ` set messages" for j
    using dom [of j] by (metis map_of_eq_None_iff)
  then show keys: "fst ` set messages' = insert i (fst ` set messages)" by blast
  show "map_of messages' i = Some saved" using u(1,4) M by simp
  then have "(i, saved) \<in> set M" unfolding M by (rule map_of_SomeD)
  then show "node_ok i saved" by (rule tree_okD(4) [OF u(3)])
  show "stored_or_none messages' (jget history' ''currentId'')"
    using rows(2) keys u(5) by (auto simp: stored_or_none_iff)
  show "rows_match (insert i X) c messages' rs"
  proof (rule rows_match_mono [OF rows(1)])
    fix j mj assume j: "j \<notin> insert i X" "map_of messages j = Some (JObj mj)"
    then have "map_of messages' j = Some (JObj mj) \<or> map_of messages' j = Some (append_child (JStr i) (JObj mj))"
      using u(6) [of j] M by (auto simp: jget_map_of)
    then show "\<exists>m'. map_of messages' j = Some (JObj m') \<and> same_fields mj m'"
      using same_fields_append_child [of "JObj mj"] by (auto simp: append_child_def)
  qed blast
qed

lemma upsert_messages_defined:
  "upsert_message_to_history t history i message = Some (history', saved) \<Longrightarrow> \<exists>messages. jget history' ''messages'' = JObj messages"
  by (auto simp: upsert_unfold bind_eq_Some_conv)

text \<open>What the caller of a save must respect, in the history the message goes to.\<close>

definition saves :: "chat_db \<Rightarrow> string \<Rightarrow> string \<Rightarrow> json dict \<Rightarrow> bool" where
  "saves d i message_id message \<longleftrightarrow>
     (case map_of (chats d) i of None \<Rightarrow> True
      | Some item \<Rightarrow> save_ok (chat_messages (dict_of (ci_chat item))) (sanitize_text_for_db message_id)
          (clean (with_output_text message)))"

lemma save_keeps:
  assumes ok: "chats_ok n d" and s: "saves d i message_id message"
  shows "chats_ok n (snd (upsert_message_to_chat_by_id_and_message_id e i message_id message touch d))"
  unfolding upsert_message_to_chat_by_id_and_message_id_def Let_def
proof (rule transaction_ok [OF ok])
  let ?m = "clean (with_output_text message)" and ?i = "sanitize_text_for_db message_id"
  fix item x item' rs'
  assume item: "map_of (chats d) i = Some item" "length i = n" "rows_shape n (rows d)" "item_ok i item (rows d)"
    and run: "do {
           chat \<leftarrow> chat_data item;
           (chat, repaired) \<leftarrow> repair_chat_current_id chat;
           history \<leftarrow> dict (jget_default chat ''history'' (JObj []));
           (history, saved_message) \<leftarrow> upsert_message_to_history (now e) history ?i ?m;
           rs \<leftarrow> save_message_row e i item (?i, saved_message) (rows d);
           item \<leftarrow> store_chat (AList.update ''history'' (JObj history) chat) item;
           checked e (if touch then item\<lparr>ci_updated_at := now e\<rparr> else item) rs } = Some (x, item', rs')"
  from run obtain chat0 chat b h0 history' saved item1 where c: "chat_data item = Some chat0"
    "repair_chat_current_id chat0 = Some (chat, b)" "dict (jget_default chat ''history'' (JObj [])) = Some h0"
    and u: "upsert_message_to_history (now e) h0 ?i ?m = Some (history', saved)"
    and r: "save_message_row e i item (?i, saved) (rows d) = Some rs'"
    and st: "store_chat (AList.update ''history'' (JObj history') chat) item = Some item1" "ci_chat item' = ci_chat item1"
    by (auto simp: bind_eq_Some_conv checked_def split: if_splits)
  obtain history messages where p: "chat_ok chat" "nul_free (JObj chat)" "jget_default chat ''history'' (JObj []) = JObj history"
    "jget chat ''history'' = JObj history" "jget history ''messages'' = JObj messages" "tree_ok messages"
    "stored_or_none messages (jget history ''currentId'')" "nul_free (JObj history)" "nul_free (JObj messages)"
    "rows_match {} i messages (rows d)" "row_ids i (rows d) = fst ` set messages" "messages = chat_messages chat0"
    using repaired_item [OF item(4) c(1,2)] .
  have u: "upsert_message_to_history (now e) history ?i ?m = Some (history', saved)" using u c(3) p(3) by simp
  have "ci_chat item = JObj chat0" using item_okE [OF item(4) c(1)] by metis
  then have sm: "save_ok messages ?i ?m" using s item(1) p(12) by (simp add: saves_def)
  obtain messages' where m': "jget history' ''messages'' = JObj messages'" using upsert_messages_defined [OF u] ..
  note res = upsert_rows [OF p(6,5) sm u m' p(10,7)]
  obtain m where m: "saved = JObj m" using node_ok_dict [OF res(5)] ..
  have "rows_step n i {?i} messages' (rows d) (rows d)" using rows_step_start item(3) res(6) by simp
  note step = save_message_row_step [OF r [unfolded m] item(2) res(4) [unfolded m] node_ok_fields [OF res(5) [unfolded m]] this]
  have "CHR 0x00 \<notin> set ?i" by (simp add: sanitize_text_for_db_def)
  then have "nul_free (JObj history')" using nul_free_upsert(1) [OF u p(8) nul_free_clean] by blast
  then have n: "nul_free (JObj (AList.update ''history'' (JObj history') chat))" using nul_free_history p(2) by blast
  show "item_step n i (rows d) item' rs'"
    by (rule finish_item [OF _ _ m' res(1,2) n]) (use st store_chat_chat step res(3) p(11) in \<open>auto simp del: nul_free.simps\<close>)
qed


subsection \<open>Deleting a message\<close>

lemma delete_rows:
  fixes ids :: "string list"
  assumes s: "rows_shape n rs" "length i = n" and m: "rows_match X i messages rs"
  defines "rs' \<equiv> delete_message_ids_by_chat_id i ids rs"
  shows "rows_shape n rs'" "other_rows i rs' = other_rows i rs" "rows_match X i messages rs'"
    "row_ids i rs' = row_ids i rs - set ids"
proof -
  have id: "mr_id r = composite_id i (row_message_id r)" if "r \<in> set rs" "mr_chat_id r = i" for r
    using that s(1) by (auto simp: rows_shape_def list_all_iff)
  show "rows_shape n rs'"
    using s(1) by (auto simp: rs'_def delete_message_ids_by_chat_id_def rows_shape_def list_all_iff distinct_map_filter)
  show "other_rows i rs' = other_rows i rs"
    by (auto simp: rs'_def delete_message_ids_by_chat_id_def other_rows_def intro: filter_cong)
  show "rows_match X i messages rs'"
    using m by (auto simp: rs'_def delete_message_ids_by_chat_id_def rows_match_def)
  have "composite_id i m \<in> composite_id i ` set ids \<longleftrightarrow> m \<in> set ids" for m
    by (auto simp: composite_eq)
  then show "row_ids i rs' = row_ids i rs - set ids"
    using id by (auto simp: rs'_def delete_message_ids_by_chat_id_def row_ids_def)
qed

lemma leaf_stored: "leaf_below messages q c \<Longrightarrow> stored_or_none messages c"
  by (auto simp: leaf_below_def stored_or_none_def split: if_splits)

lemma py_eq_parent: "p = JNull \<or> is_id p \<Longrightarrow> py_eq p p"
  by (auto simp: is_id_iff)

lemma nul_free_remaining:
  assumes "nul_free (JObj messages)" "nul_free p"
  shows "nul_free (JObj (left_messages i p ks messages))"
proof -
  have kids: "list_all nul_free (map JStr (kids v))" if "nul_free v" for v
  proof -
    have "list_all nul_free (list_of (jget (dict_of v) ''childrenIds''))"
      using that by (intro nul_free_list_of nul_free_jget nul_free_dict_of)
    moreover have "nul_free (JStr (key x))" if "nul_free x" for x using that by (cases x) auto
    ultimately show ?thesis by (auto simp: kids_def list_all_iff)
  qed
  have stored: "nul_free v" if "(j, v) \<in> set messages" for j v using assms(1) that by (auto simp: list_all_iff)
  have "nul_free (jget messages k)" for k using assms(1) by (rule nul_free_jget)
  then have "list_all nul_free (map JStr (grandkids messages ks))"
    using kids by (fastforce simp: grandkids_def list_all_iff)
  then have "nul_free (moved i p (grandkids messages ks) j v)" if "nul_free v" for j v
    using that kids [OF that] nul_free_dict_of [OF that] assms(2)
    by (auto simp: moved_def Let_def list_all_iff simp del: nul_free.simps(3) intro!: nul_free_update nul_free_dict_of)
  then show ?thesis using stored assms(1) by (auto simp: left_messages_def list_all_iff)
qed

text \<open>The messages that stay, and their rows.\<close>

lemma remaining_rows:
  assumes ok: "tree_ok messages" and v: "map_of messages mid = Some (JObj m)"
    and rows: "rows_shape n rs" "length i = n" "rows_match {} i messages rs" "row_ids i rs = fst ` set messages"
  defines "ks \<equiv> kids (JObj m)" and "p \<equiv> jget m ''parentId''"
  defines "M \<equiv> left_messages mid p ks messages"
  defines "moved_messages \<equiv> filter (\<lambda>(j, w). py_eq (jget (dict_of w) ''parentId'') p) M"
  assumes save: "save_message_rows e i item moved_messages (delete_message_ids_by_chat_id i (mid # ks) rs) = Some rs'"
  shows "rows_step n i {} M rs rs'" "row_ids i rs' = fst ` set M"
proof -
  let ?gs = "grandkids messages ks"
  have iv: "(mid, JObj m) \<in> set messages" using v by (rule map_of_SomeD)
  have n: "node_ok mid (JObj m)" using tree_okD(4) [OF ok iv] .
  have okM: "tree_ok M" unfolding M_def p_def ks_def by (rule tree_ok_remaining [OF ok iv])
  have keys: "fst ` set M = fst ` set messages - set (mid # ks)" by (force simp: M_def left_messages_def)
  have par: "p = JNull \<or> is_id p" using n by (simp add: p_def node_ok_def Let_def)
  note del = delete_rows [OF rows(1-3), of "mid # ks"]
  have "rows_match (set (mid # ks) \<union> set ?gs) i M (delete_message_ids_by_chat_id i (mid # ks) rs)"
  proof (rule rows_match_mono [OF del(3)])
    fix j mj assume j: "j \<notin> set (mid # ks) \<union> set ?gs" "map_of messages j = Some (JObj mj)"
    then have "(j, moved mid p ?gs j (JObj mj)) \<in> set M"
      using map_of_SomeD [OF j(2)] by (force simp: M_def left_messages_def)
    then have "map_of M j = Some (moved mid p ?gs j (JObj mj))" using tree_okD(1) [OF okM] by simp
    then show "\<exists>m'. map_of M j = Some (JObj m') \<and> same_fields mj m'"
      using j(1) by (auto simp: moved_def Let_def same_fields_def)
  qed simp
  moreover have "row_message_id r \<notin> set (mid # ks)"
    if "r \<in> set (delete_message_ids_by_chat_id i (mid # ks) rs)" "mr_chat_id r = i" for r
    using del(4) that by (auto simp: row_ids_def)
  ultimately have "rows_match (set ?gs) i M (delete_message_ids_by_chat_id i (mid # ks) rs)"
    by (auto simp: rows_match_def)
  then have start: "rows_step n i (set ?gs) M rs (delete_message_ids_by_chat_id i (mid # ks) rs)"
    using del(1,2) by (simp add: rows_step_def)
  have stored: "map_of M j = Some w \<and> fields_ok j w" if "(j, w) \<in> set moved_messages" for j w
    using that tree_okD(1,4) [OF okM] node_ok_fields by (auto simp: moved_messages_def)
  note step = save_message_rows_step [OF save rows(2) stored start]
  have "set ?gs \<subseteq> fst ` set moved_messages"
  proof
    fix g assume g: "g \<in> set ?gs"
    have sub: "set ks \<subseteq> fst ` set messages"
      using set_kids [OF ok iv] edges_fst [of _ mid "tree messages"] by (auto simp: ks_def)
    have ge: "\<exists>k \<in> set ks. (g, k) \<in> edges (tree messages)" using g set_grandkids [OF ok sub] by auto
    then obtain k w where k: "k \<in> set ks" "(g, w) \<in> set messages" "parent_of w = Some k" by (auto simp: edges_tree)
    have ke: "(k, mid) \<in> edges (tree messages)" using k(1) set_kids [OF ok iv] by (simp add: ks_def)
    have gk: "(g, k) \<in> edges (tree messages)" using k(2,3) by (auto simp: edges_tree)
    have "g \<noteq> mid" using gk ke forest_no_pair [OF tree_okD(2) [OF ok]] by blast
    moreover have "g \<notin> set ks"
    proof
      assume "g \<in> set ks"
      then have "(g, mid) \<in> edges (tree messages)" using set_kids [OF ok iv] by (simp add: ks_def)
      with gk have "mid = k" using edge_unique tree_okD(1) [OF ok] by (metis fst_tree(1))
      with ke show False using forest_irrefl [OF tree_okD(2) [OF ok]] by blast
    qed
    ultimately have "(g, moved mid p ?gs g w) \<in> set M" using k(2) by (force simp: M_def left_messages_def)
    moreover have "jget (dict_of (moved mid p ?gs g w)) ''parentId'' = p" using g by (simp add: moved_def Let_def)
    ultimately have "(g, moved mid p ?gs g w) \<in> set moved_messages"
      using py_eq_parent [OF par] by (simp add: moved_messages_def)
    then show "g \<in> fst ` set moved_messages" by force
  qed
  then show "rows_step n i {} M rs rs'" using step by (simp add: Diff_eq_empty_iff [THEN iffD2])
  have "fst ` set moved_messages \<subseteq> fst ` set M" by (auto simp: moved_messages_def)
  then show "row_ids i rs' = fst ` set M" using step del(4) rows(4) keys by auto
qed

lemma delete_keeps:
  assumes ok: "chats_ok n d"
  shows "chats_ok n (snd (delete_message_from_chat_by_id_and_message_id e i mid d))"
  unfolding delete_message_from_chat_by_id_and_message_id_def
proof (rule transaction_ok [OF ok])
  fix item x item' rs'
  assume item: "map_of (chats d) i = Some item" "length i = n" "rows_shape n (rows d)" "item_ok i item (rows d)"
    and run: "do {
       chat \<leftarrow> chat_data item;
       (chat, repaired) \<leftarrow> repair_chat_current_id chat;
       history \<leftarrow> dict (jget_default chat ''history'' (JObj []));
       messages \<leftarrow> dict (jor (jget history ''messages'') (JObj []));
       message \<leftarrow> dict (jor (jget messages mid) (JObj []));
       let parent_id = jget message ''parentId'';
       (history, deleted_ids) \<leftarrow> delete_message_from_history history mid;
       if deleted_ids = [] then do {
         item \<leftarrow> store_chat chat item;
         checked e item (rows d) }
       else do {
         messages \<leftarrow> dict (jor (jget history ''messages'') (JObj []));
         moved \<leftarrow> filter_option (\<lambda>(mid, v). map_option (\<lambda>m. py_eq (jget m ''parentId'') parent_id) (dict v)) messages;
         rs \<leftarrow> save_message_rows e i item moved (delete_message_ids_by_chat_id i deleted_ids (rows d));
         item \<leftarrow> store_chat (AList.update ''history'' (JObj history) chat) item;
         checked e (item\<lparr>ci_updated_at := now e\<rparr>) rs } } = Some (x, item', rs')"
  from run obtain chat0 chat b where c: "chat_data item = Some chat0" "repair_chat_current_id chat0 = Some (chat, b)"
    by (auto simp: bind_eq_Some_conv)
  obtain history messages where p: "chat_ok chat" "nul_free (JObj chat)" "jget_default chat ''history'' (JObj []) = JObj history"
    "jget chat ''history'' = JObj history" "jget history ''messages'' = JObj messages" "tree_ok messages"
    "stored_or_none messages (jget history ''currentId'')" "nul_free (JObj history)" "nul_free (JObj messages)"
    "rows_match {} i messages (rows d)" "row_ids i (rows d) = fst ` set messages" "messages = chat_messages chat0"
    using repaired_item [OF item(4) c] .
  have mm: "dict (jor (jget history ''messages'') (JObj [])) = Some messages" by (cases "messages = []") (auto simp: p(5) jor_def)
  show "item_step n i (rows d) item' rs'"
  proof (cases "map_of messages mid")
    case None
    then have "jget messages mid = JNull" by (simp add: jget_def)
    then have "delete_message_from_history history mid = Some (history, [])"
      by (simp add: delete_message_from_history_def mm)
    then obtain item1 where "store_chat chat item = Some item1" "item' = item1" "rs' = rows d"
      using run c p(3) mm \<open>jget messages mid = JNull\<close> by (auto simp: checked_def bind_eq_Some_conv Let_def split: if_splits)
    then show ?thesis
      using rows_step_start [OF item(3) p(10)] p(11) store_chat_chat
      by (intro finish_item [OF _ p(4,5,6,7,2)]) auto
  next
    case (Some v)
    obtain m where v: "v = JObj m" "(mid, v) \<in> set messages" "node_ok mid v" using p(6) Some by (rule tree_ok_stored)
    let ?p = "jget m ''parentId''" and ?ks = "kids (JObj m)"
    let ?M = "left_messages mid ?p ?ks messages"
    have m: "map_of messages mid = Some (JObj m)" using Some v(1) by simp
    obtain c where del: "delete_message_from_history history mid =
        Some (AList.update ''currentId'' c (AList.update ''messages'' (JObj ?M) history), mid # ?ks)"
      and leaf: "leaf_below ?M (parent_of (JObj m)) c"
      using delete_spec [OF p(6,5) m] by blast
    let ?h = "AList.update ''currentId'' c (AList.update ''messages'' (JObj ?M) history)"
    have okM: "tree_ok ?M" by (rule tree_ok_remaining [OF p(6)]) (use v in simp)
    have mv: "filter_option (\<lambda>(j, w). map_option (\<lambda>m. py_eq (jget m ''parentId'') ?p) (dict w)) ?M =
        Some (filter (\<lambda>(j, w). py_eq (jget (dict_of w) ''parentId'') ?p) ?M)"
    proof (rule filter_option_total)
      fix x assume "x \<in> set ?M"
      then have "node_ok (fst x) (snd x)" using tree_okD(4) [OF okM, of "fst x" "snd x"] by simp
      then have "\<exists>w. snd x = JObj w" by (rule node_ok_dict)
      then show "(case x of (j, w) \<Rightarrow> map_option (\<lambda>m. py_eq (jget m ''parentId'') ?p) (dict w)) =
          Some (case x of (j, w) \<Rightarrow> py_eq (jget (dict_of w) ''parentId'') ?p)" by (cases x) auto
    qed
    have "m \<noteq> []" using v(1,3) by (auto simp: node_ok_def Let_def)
    then have jm: "dict (jor (jget messages mid) (JObj [])) = Some m" by (simp add: jget_map_of [OF m] jor_def)
    have mM: "dict (jor (jget ?h ''messages'') (JObj [])) = Some ?M" by (cases "?M = []") (auto simp: jor_def)
    from run c p(3) mm jm del mM mv obtain item1 where
      save: "save_message_rows e i item (filter (\<lambda>(j, w). py_eq (jget (dict_of w) ''parentId'') ?p) ?M)
        (delete_message_ids_by_chat_id i (mid # ?ks) (rows d)) = Some rs'"
      and st: "store_chat (AList.update ''history'' (JObj ?h) chat) item = Some item1" "ci_chat item' = ci_chat item1"
      by (auto simp: bind_eq_Some_conv checked_def Let_def split: if_splits)
    note step = remaining_rows [OF p(6) m item(3,2) p(10,11) save]
    have nM: "nul_free (JObj ?M)"
      using p(9) nul_free_jget [OF nul_free_map_of [OF p(9) m]] by (rule nul_free_remaining)
    have "nul_free c" using leaf_stored [OF leaf] nM by (auto simp: stored_or_none_iff list_all_iff)
    then have "nul_free (JObj ?h)" using nM p(8) by (intro nul_free_update) auto
    then have n: "nul_free (JObj (AList.update ''history'' (JObj ?h) chat))" using nul_free_history p(2) by blast
    show ?thesis
      by (rule finish_item [OF _ _ _ okM _ n]) (use st store_chat_chat step leaf_stored [OF leaf] in auto)
  qed
qed

end
