(* ===== verification/ChatWhole.thy ===== *)
theory ChatWhole
  imports ChatStep
begin

text \<open>
  The other operations keep the invariant: the status and the files of a message, edits of tool state,
  the parameters and the title of a chat, and the update of a whole chat by its client.
\<close>

subsection \<open>One message replaced\<close>

lemma replaced:
  assumes ok: "tree_ok messages" and v: "map_of messages mid = Some v"
    and v': "node_ok mid v'" "parent_of v' = parent_of v" "kids v' = kids v"
    and rows: "rows_match {} i messages rs" and n: "nul_free (JObj messages)" "nul_free v'"
  defines "M \<equiv> AList.update mid v' messages"
  shows "tree_ok M" "fst ` set M = fst ` set messages" "rows_match {mid} i M rs" "map_of M mid = Some v'" "nul_free (JObj M)"
proof -
  show "tree_ok M" unfolding M_def by (rule tree_ok_update_same [OF ok v v'])
  show "fst ` set M = fst ` set messages" using keys_map_of [OF v] by (auto simp: M_def fst_update)
  show "map_of M mid = Some v'" by (simp add: M_def)
  show "rows_match {mid} i M rs" by (rule rows_match_mono [OF rows]) (auto simp: M_def)
  have "CHR 0x00 \<notin> set mid" using nul_free_key [OF n(1) v] .
  then show "nul_free (JObj M)" unfolding M_def using n by (intro nul_free_update)
qed

lemma node_ok_update:
  assumes "node_ok i (JObj m)" "k \<notin> {''id'', ''parentId'', ''childrenIds'', ''role'', ''parent_id''}"
  shows "node_ok i (JObj (AList.update k x m))" "parent_of (JObj (AList.update k x m)) = parent_of (JObj m)"
    "kids (JObj (AList.update k x m)) = kids (JObj m)"
  using assms by (auto simp: node_ok_def Let_def parent_of_def kids_def)

lemma nul_free_messages:
  "nul_free (JObj history) \<Longrightarrow> nul_free (JObj messages) \<Longrightarrow> nul_free (JObj (AList.update ''messages'' (JObj messages) history))"
  by (rule nul_free_update) auto

lemma jget_update_history: "jget (AList.update ''history'' v chat) ''history'' = v"
  by simp

text \<open>The end of an operation that replaces one message.\<close>

lemma finish_replaced:
  assumes p: "jget history ''messages'' = JObj messages" "tree_ok messages" "stored_or_none messages (jget history ''currentId'')"
      "nul_free (JObj history)" "nul_free (JObj messages)" "nul_free (JObj chat)" "rows_match {} i messages rs"
      "row_ids i rs = fst ` set messages" "rows_shape n rs" "length i = n"
    and v: "map_of messages mid = Some v" "node_ok mid (JObj m)" "parent_of (JObj m) = parent_of v" "kids (JObj m) = kids v"
      "nul_free (JObj m)"
    and save: "save_message_row e i item (mid, JObj m) rs = Some rs'"
    and c: "ci_chat item' = JObj (AList.update ''history''
      (JObj (AList.update ''messages'' (JObj (AList.update mid (JObj m) messages)) history)) chat)"
  shows "item_step n i rs item' rs'"
proof -
  let ?M = "AList.update mid (JObj m) messages"
  note r = replaced [OF p(2) v(1-4) p(7,5) v(5)]
  have "rows_step n i {mid} ?M rs rs" using rows_step_start [OF p(9) r(3)] .
  note step = save_message_row_step [OF save p(10) r(4) node_ok_fields [OF v(2)] this]
  have "nul_free (JObj (AList.update ''messages'' (JObj ?M) history))" using nul_free_messages [OF p(4) r(5)] .
  then have n: "nul_free (JObj (AList.update ''history''
      (JObj (AList.update ''messages'' (JObj ?M) history)) chat))" using nul_free_history p(6) by blast
  have "insert mid (fst ` set messages) = fst ` set messages" using keys_map_of [OF v(1)] by auto
  then show ?thesis
    using step r(2) p(8) stored_or_none_mono [OF p(3), of ?M]
    by (intro finish_item [OF c jget_update_history _ r(1) _ n]) auto
qed

lemma contains_stored: "contains (JObj messages) mid = Some b \<Longrightarrow> b \<longleftrightarrow> (\<exists>v. map_of messages mid = Some v)"
  by auto

lemma nul_free_append: "nul_free v \<Longrightarrow> list_all nul_free xs \<Longrightarrow> (case v of JList ys \<Rightarrow> Some (ys @ xs) | _ \<Rightarrow> None) = Some zs \<Longrightarrow>
    nul_free (JList zs)"
  by (cases v) auto

lemma status_keeps:
  assumes ok: "chats_ok n d"
  shows "chats_ok n (snd (add_message_status_to_chat_by_id_and_message_id e i mid status d))"
  unfolding add_message_status_to_chat_by_id_and_message_id_def
proof (rule transaction_ok [OF ok])
  fix item x item' rs'
  assume item: "map_of (chats d) i = Some item" "length i = n" "rows_shape n (rows d)" "item_ok i item (rows d)"
    and run: "do {
       let status = sanitize_data_for_db status;
       chat \<leftarrow> chat_data item;
       (chat, repaired) \<leftarrow> repair_chat_current_id chat;
       history \<leftarrow> dict (jget_default chat ''history'' (JObj []));
       present \<leftarrow> contains (jget_default history ''messages'' (JObj [])) mid;
       (history, rs) \<leftarrow> (if present then do {
           messages \<leftarrow> dict (jget history ''messages'');
           message \<leftarrow> dict (jget messages mid);
           status_history \<leftarrow> (case jget_default message ''statusHistory'' (JList []) of JList xs \<Rightarrow> Some (xs @ [status]) | _ \<Rightarrow> None);
           let message = AList.update ''statusHistory'' (JList status_history) message;
           rs \<leftarrow> save_message_row e i item (mid, JObj message) (rows d);
           Some (AList.update ''messages'' (JObj (AList.update mid (JObj message) messages)) history, rs) }
         else Some (history, rows d));
       item \<leftarrow> store_chat (AList.update ''history'' (JObj history) chat) item;
       checked e item rs } = Some (x, item', rs')"
  from run obtain chat0 chat b where c: "chat_data item = Some chat0" "repair_chat_current_id chat0 = Some (chat, b)"
    by (auto simp: bind_eq_Some_conv Let_def)
  obtain history messages where p: "chat_ok chat" "nul_free (JObj chat)" "jget_default chat ''history'' (JObj []) = JObj history"
    "jget chat ''history'' = JObj history" "jget history ''messages'' = JObj messages" "tree_ok messages"
    "stored_or_none messages (jget history ''currentId'')" "nul_free (JObj history)" "nul_free (JObj messages)"
    "rows_match {} i messages (rows d)" "row_ids i (rows d) = fst ` set messages" "messages = chat_messages chat0"
    using repaired_item [OF item(4) c] .
  note md = jget_default_stored [OF p(5), of "JObj []"]
  show "item_step n i (rows d) item' rs'"
  proof (cases "map_of messages mid")
    case None
    then have "store_chat (AList.update ''history'' (JObj history) chat) item = Some item'" "rs' = rows d"
      using run c p(3,5) md by (auto simp: bind_eq_Some_conv checked_def Let_def split: if_splits)
    then show ?thesis
      using rows_step_start [OF item(3) p(10)] p(11) store_chat_chat
      by (intro finish_item [OF _ _ p(5,6,7) nul_free_history [OF p(2,8)]]) auto
  next
    case (Some v)
    obtain m where v: "v = JObj m" "node_ok mid v" using tree_ok_stored [OF p(6) Some] by metis
    from run c p(3,5) md Some v(1) obtain xs where xs:
        "(case jget_default m ''statusHistory'' (JList []) of JList ys \<Rightarrow> Some (ys @ [sanitize_data_for_db status]) | _ \<Rightarrow> None) = Some xs"
      and save: "save_message_row e i item (mid, JObj (AList.update ''statusHistory'' (JList xs) m)) (rows d) = Some rs'"
      and st: "store_chat (AList.update ''history'' (JObj (AList.update ''messages''
        (JObj (AList.update mid (JObj (AList.update ''statusHistory'' (JList xs) m)) messages)) history)) chat) item = Some item'"
      by (auto simp: bind_eq_Some_conv checked_def Let_def jget_map_of split: if_splits)
    have nm: "nul_free (JObj m)" using nul_free_map_of [OF p(9) Some] v(1) by simp
    have "nul_free (jget_default m ''statusHistory'' (JList []))" by (rule nul_free_jget_default [OF nm]) simp
    then have "nul_free (JList xs)" by (rule nul_free_append [OF _ _ xs]) simp
    then have "nul_free (JObj (AList.update ''statusHistory'' (JList xs) m))" using nm by (intro nul_free_update) auto
    then show ?thesis
      using node_ok_update [of mid m "''statusHistory''" "JList xs"] v
      by (intro finish_replaced [OF p(5,6,7,8,9,2,10,11) item(3,2) Some _ _ _ _ save store_chat_chat [OF st]])
        (simp_all del: nul_free.simps)
  qed
qed

lemma files_keep:
  assumes ok: "chats_ok n d" and files: "list_all nul_free files"
  shows "chats_ok n (snd (add_message_files_by_id_and_message_id e i mid files d))"
  unfolding add_message_files_by_id_and_message_id_def
proof (rule transaction_ok [OF ok])
  fix item x item' rs'
  assume item: "map_of (chats d) i = Some item" "length i = n" "rows_shape n (rows d)" "item_ok i item (rows d)"
    and run: "do {
       chat \<leftarrow> chat_data item;
       history \<leftarrow> dict (jget_default chat ''history'' (JObj []));
       present \<leftarrow> contains (jget_default history ''messages'' (JObj [])) mid;
       (history, message_files, rs) \<leftarrow> (if present then do {
           messages \<leftarrow> dict (jget history ''messages'');
           message \<leftarrow> dict (jget messages mid);
           message_files \<leftarrow> (case jget_default message ''files'' (JList []) of JList xs \<Rightarrow> Some (xs @ files) | _ \<Rightarrow> None);
           let message = AList.update ''files'' (JList message_files) message;
           rs \<leftarrow> upsert_message (store_env.truncate e) mid i (user_of message item) (clean message) (rows d);
           Some (AList.update ''messages'' (JObj (AList.update mid (JObj message) messages)) history, message_files, rs) }
         else Some (history, [], rows d));
       Some (message_files, item\<lparr>ci_chat := JObj (clean (AList.update ''history'' (JObj history) chat)),
         ci_updated_at := now e\<rparr>, rs) } = Some (x, item', rs')"
  from run obtain chat where c: "chat_data item = Some chat"
    by (auto simp: bind_eq_Some_conv Let_def)
  obtain history messages where p: "ci_chat item = JObj chat" "chat_ok chat"
    "jget chat ''history'' = JObj history" "jget history ''messages'' = JObj messages" "tree_ok messages"
    "stored_or_none messages (jget history ''currentId'')" "nul_free (JObj history)" "nul_free (JObj messages)"
    "rows_match {} i messages (rows d)" "row_ids i (rows d) = fst ` set messages"
    using item_okE [OF item(4) c] .
  have nc: "nul_free (JObj chat)" using p(2) by (simp add: chat_ok_def)
  note md = jget_default_stored [OF p(4), of "JObj []"] and hd = jget_default_stored [OF p(3), of "JObj []"]
  show "item_step n i (rows d) item' rs'"
  proof (cases "map_of messages mid")
    case None
    have "clean (AList.update ''history'' (JObj history) chat) = AList.update ''history'' (JObj history) chat"
      by (rule clean_id [OF nul_free_history [OF nc p(7)]])
    then have "ci_chat item' = JObj (AList.update ''history'' (JObj history) chat)" "rs' = rows d"
      using run c hd md None by (auto simp: bind_eq_Some_conv)
    then show ?thesis
      using rows_step_start [OF item(3) p(9)] p(10)
      by (intro finish_item [OF _ _ p(4,5,6) nul_free_history [OF nc p(7)]]) auto
  next
    case (Some v)
    obtain m where v: "v = JObj m" "node_ok mid v" using tree_ok_stored [OF p(5) Some] by metis
    from run c hd md p(4) Some v(1) obtain xs where xs:
        "(case jget_default m ''files'' (JList []) of JList ys \<Rightarrow> Some (ys @ files) | _ \<Rightarrow> None) = Some xs"
      and save: "upsert_message (store_env.truncate e) mid i (user_of (AList.update ''files'' (JList xs) m) item)
        (clean (AList.update ''files'' (JList xs) m)) (rows d) = Some rs'"
      and st: "ci_chat item' = JObj (clean (AList.update ''history'' (JObj (AList.update ''messages''
        (JObj (AList.update mid (JObj (AList.update ''files'' (JList xs) m)) messages)) history)) chat))"
      by (auto simp: bind_eq_Some_conv Let_def jget_map_of)
    have nm: "nul_free (JObj m)" using nul_free_map_of [OF p(8) Some] v(1) by simp
    have "nul_free (jget_default m ''files'' (JList []))" by (rule nul_free_jget_default [OF nm]) simp
    then have "nul_free (JList xs)" by (rule nul_free_append [OF _ files xs])
    then have n: "nul_free (JObj (AList.update ''files'' (JList xs) m))" using nm by (intro nul_free_update) auto
    have "CHR 0x00 \<notin> set mid" using nul_free_key [OF p(8) Some] .
    then have "nul_free (JObj (AList.update mid (JObj (AList.update ''files'' (JList xs) m)) messages))"
      by (rule nul_free_update [OF _ n p(8)])
    then have "nul_free (JObj (AList.update ''messages''
        (JObj (AList.update mid (JObj (AList.update ''files'' (JList xs) m)) messages)) history))"
      by (rule nul_free_messages [OF p(7)])
    then have st: "ci_chat item' = JObj (AList.update ''history'' (JObj (AList.update ''messages''
        (JObj (AList.update mid (JObj (AList.update ''files'' (JList xs) m)) messages)) history)) chat)"
      using st clean_id nul_free_history [OF nc] by simp
    have save: "save_message_row e i item (mid, JObj (AList.update ''files'' (JList xs) m)) (rows d) = Some rs'"
      using save clean_id [OF n] by (simp add: save_message_row_def)
    show ?thesis
      using node_ok_update [of mid m "''files''" "JList xs"] v n
      by (intro finish_replaced [OF p(4,5,6,7,8) nc p(9,10) item(3,2) Some _ _ _ _ save st]) (simp_all del: nul_free.simps)
  qed
qed


subsection \<open>Tool state\<close>

text \<open>What the function that edits a message must respect, of the message it gets.\<close>

definition same_tree :: "json dict \<Rightarrow> json dict \<Rightarrow> bool" where
  "same_tree m m' \<longleftrightarrow> list_all (\<lambda>k. map_of m' k = map_of m k) [''id'', ''parentId'', ''childrenIds'', ''role'', ''parent_id'']"

definition edits :: "chat_db \<Rightarrow> string \<Rightarrow> string \<Rightarrow> (json dict option \<Rightarrow> ('a \<times> json dict) result) \<Rightarrow> bool" where
  "edits d i message_id edit \<longleftrightarrow>
     (case map_of (chats d) i of None \<Rightarrow> True
      | Some item \<Rightarrow>
          (case editable_message i message_id (dict_of (jget (dict_of (ci_chat item)) ''history'')) (rows d) of
             None \<Rightarrow> True
           | Some m \<Rightarrow> (case edit (Some m) of Inl err \<Rightarrow> True
               | Inr (x, m') \<Rightarrow> distinct (map fst m') \<and> nul_free (JObj m') \<and> same_tree m m')))"

lemma same_tree_node:
  assumes "same_tree m m'" "node_ok i (JObj m)" "distinct (map fst m')"
  shows "node_ok i (JObj m')" "parent_of (JObj m') = parent_of (JObj m)" "kids (JObj m') = kids (JObj m)"
  using assms by (auto simp: same_tree_def node_ok_def Let_def parent_of_def kids_def jget_def)

lemma same_tree_trans: "same_tree a b \<Longrightarrow> same_tree b c \<Longrightarrow> same_tree a c"
  by (simp add: same_tree_def)

lemma map_of_filter_value:
  "distinct (map fst d) \<Longrightarrow> map_of (filter (\<lambda>(k, v). v \<noteq> x) d) k =
     (case map_of d k of None \<Rightarrow> None | Some v \<Rightarrow> if v = x then None else Some v)"
  by (induction d) (auto split: option.splits simp: map_of_eq_None_iff)

lemma row_columns_get:
  "distinct (map fst (row_columns r))" "map_of (row_columns r) ''role'' = (if mr_role r = JNull then None else Some (mr_role r))"
  "map_of (row_columns r) ''parentId'' = (if mr_parent_id r = JNull then None else Some (mr_parent_id r))"
  "map_of (row_columns r) ''childrenIds'' = None" "map_of (row_columns r) ''id'' = None" "map_of (row_columns r) ''parent_id'' = None"
proof -
  show "distinct (map fst (row_columns r))"
    unfolding row_columns_def by (rule distinct_map_filter) simp
qed (unfold row_columns_def, (subst map_of_filter_value, simp, simp)+)

lemma overlay_same_tree:
  assumes n: "node_ok i (JObj m)" and a: "agrees r m"
  shows "same_tree m (AList.update ''id'' (JStr i) (dict_merge m (row_columns r)))"
proof -
  have k: "has_key ''role'' m" "jget m ''role'' \<noteq> JNull" "map_of m ''id'' = Some (JStr i)" "has_key ''parentId'' m"
    using n by (auto simp: node_ok_def Let_def is_id_iff jget_def simp del: map_of_eq_Some_iff split: option.splits)
  then have "map_of m ''role'' = Some (mr_role r)" "mr_role r \<noteq> JNull" "map_of m ''parentId'' = Some (mr_parent_id r)"
    using a by (auto simp: agrees_def jget_def)
  then show ?thesis
    using k(3) by (simp add: same_tree_def map_of_merge row_columns_get)
qed

lemma edit_keeps:
  assumes ok: "chats_ok n d" and e: "edits d i mid edit"
  shows "chats_ok n (snd (edit_message_output env i mid edit d))"
proof (cases "map_of (chats d) i")
  case None
  then show ?thesis using ok by (simp add: edit_message_output_def)
next
  case (Some item)
  note item = chats_ok_item [OF ok Some]
  let ?load = "do { chat \<leftarrow> chat_data item;
                 history \<leftarrow> dict (jor (jget chat ''history'') (JObj []));
                 message \<leftarrow> editable_message i mid history (rows d);
                 Some (chat, history, message) }"
  show ?thesis
  proof (cases "snd (edit_message_output env i mid edit d) = d")
    case True
    then show ?thesis using ok by simp
  next
    case False
    then obtain chat history message x m' item' rs' where load: "?load = Some (chat, history, message)" and m: "message \<noteq> []"
      and ed: "edit (Some message) = Inr (x, m')" and st: "store_edited env i mid chat history m' item (rows d) = Some (item', rs')"
      and res: "snd (edit_message_output env i mid edit d) = \<lparr>chats = AList.update i item' (chats d), rows = rs'\<rparr>"
      using Some by (auto simp: edit_message_output_def split: option.splits sum.splits if_splits)
    from load have c: "chat_data item = Some chat" by (auto simp: bind_eq_Some_conv)
    obtain h messages where p: "ci_chat item = JObj chat" "chat_ok chat"
      "jget chat ''history'' = JObj h" "jget h ''messages'' = JObj messages" "tree_ok messages"
      "stored_or_none messages (jget h ''currentId'')" "nul_free (JObj h)" "nul_free (JObj messages)"
      "rows_match {} i messages (rows d)" "row_ids i (rows d) = fst ` set messages"
      using item_okE [OF item(3) c] .
    have nc: "nul_free (JObj chat)" using p(2) by (simp add: chat_ok_def)
    have "h \<noteq> []" using p(4) by auto
    then have h: "history = h" "editable_message i mid h (rows d) = Some message"
      using load c p(3) by (auto simp: bind_eq_Some_conv jor_def)
    have "distinct (map fst m') \<and> nul_free (JObj m') \<and> same_tree message m'"
      using e Some p(1,3) h(2) ed by (auto simp: edits_def)
    then have m': "nul_free (JObj m')" "same_tree message m'" "distinct (map fst m')" by auto
    note md = jget_default_stored [OF p(4), of "JObj []"]
    have gr: "get_row (rows d) (composite_id i mid) = None \<longleftrightarrow> mid \<notin> fst ` set messages"
      using get_row_iff [OF item(2,1)] p(10) by simp
    have "mid \<in> fst ` set messages"
    proof (rule ccontr)
      assume no: "mid \<notin> fst ` set messages"
      then have "jget messages mid = JNull" "get_row (rows d) (composite_id i mid) = None"
        using gr by (auto simp: jget_def map_of_eq_None_iff [symmetric])
      with h(2) md m show False by (auto simp: editable_message_def jor_def)
    qed
    then obtain v r where v: "map_of messages mid = Some v" and r: "get_row (rows d) (composite_id i mid) = Some r"
      using gr by (metis map_of_eq_None_iff not_None_eq)
    obtain mv where mv: "v = JObj mv" "node_ok mid v" using tree_ok_stored [OF p(5) v] by metis
    have "mv \<noteq> []" using mv by (auto simp: node_ok_def Let_def)
    then have message: "message = AList.update ''id'' (JStr mid) (dict_merge mv (row_columns r))"
      using h(2) md v mv(1) r by (auto simp: editable_message_def jget_map_of jor_def)
    have rr: "r \<in> set (rows d)" "mr_id r = composite_id i mid" using get_row_Some [OF r] by auto
    then have "length (mr_chat_id r) = length i" "mr_id r = composite_id (mr_chat_id r) (row_message_id r)"
      using item(1,2) by (simp_all add: rows_shape_def list_all_iff)
    then have "mr_chat_id r = i" "row_message_id r = mid" using rr(2) composite_eq by metis+
    then have "agrees r mv" using p(9) rr(1) v mv(1) by (auto simp: rows_match_def row_matches_def)
    then have "same_tree mv message" unfolding message using overlay_same_tree mv by simp
    then have t: "same_tree mv m'" using m'(2) by (rule same_tree_trans)
    have save: "save_message_row env i item (mid, JObj m') (rows d) = Some rs'"
      and st: "ci_chat item' = JObj (AList.update ''history'' (JObj (AList.update ''messages''
        (JObj (AList.update mid (JObj m') messages)) h)) chat)"
      using st md clean_id [OF m'(1)] by (auto simp: store_edited_def h(1) bind_eq_Some_conv Let_def)
    have "item_step n i (rows d) item' rs'"
      using same_tree_node [OF t _ m'(3)] mv m'(1)
      by (intro finish_replaced [OF p(4,5,6,7,8) nc p(9,10) item(2,1) v _ _ _ _ save st]) (simp_all del: nul_free.simps)
    then show ?thesis unfolding res by (rule chats_ok_put [OF ok item(1)])
  qed
qed

subsection \<open>Parameters and title\<close>

lemma chat_key_kept:
  assumes "item_ok i item rs" "chat_data item = Some chat" "k \<noteq> ''history''" "CHR 0x00 \<notin> set k" "nul_free v"
    and "rows_shape n rs" "ci_chat item' = JObj (AList.update k v chat)"
  shows "item_step n i rs item' rs"
proof -
  obtain h messages where p: "ci_chat item = JObj chat" "chat_ok chat"
    "jget chat ''history'' = JObj h" "jget h ''messages'' = JObj messages" "tree_ok messages"
    "stored_or_none messages (jget h ''currentId'')" "nul_free (JObj h)" "nul_free (JObj messages)"
    "rows_match {} i messages rs" "row_ids i rs = fst ` set messages"
    using item_okE [OF assms(1,2)] .
  have "nul_free (JObj chat)" using p(2) by (simp add: chat_ok_def)
  then have n: "nul_free (JObj (AList.update k v chat))" by (rule nul_free_update [OF assms(4,5)])
  have "jget (AList.update k v chat) ''history'' = JObj h" using assms(3) p(3) by (simp add: jget_def)
  then show ?thesis
    using finish_item [OF assms(7) _ p(4,5,6) n] rows_step_start [OF assms(6) p(9)] p(10) by blast
qed

lemma params_keep:
  assumes "chats_ok n d" shows "chats_ok n (snd (update_chat_params_by_id e i params d))"
  unfolding update_chat_params_by_id_def
proof (rule transaction_ok [OF assms])
  fix item x item' rs'
  assume item: "item_ok i item (rows d)" "rows_shape n (rows d)"
    and run: "do { stored \<leftarrow> chat_data item;
       old_params \<leftarrow> dict (jor (jget stored ''params'') (JObj []));
       checked e (item\<lparr>ci_chat := JObj (AList.update ''params'' (JObj (clean (dict_merge old_params params))) stored)\<rparr>) (rows d) }
      = Some (x, item', rs')"
  from run obtain chat old where c: "chat_data item = Some chat" "rs' = rows d"
      "ci_chat item' = JObj (AList.update ''params'' (JObj (clean (dict_merge old params))) chat)"
    by (auto simp: bind_eq_Some_conv checked_def split: if_splits)
  show "item_step n i (rows d) item' rs'"
    unfolding c(2) by (rule chat_key_kept [OF item(1) c(1) _ _ nul_free_clean item(2) c(3)]) auto
qed

lemma title_keeps:
  assumes "chats_ok n d" shows "chats_ok n (snd (update_chat_title_by_id e i title d))"
  unfolding update_chat_title_by_id_def
proof (rule transaction_ok [OF assms])
  fix item x item' rs'
  assume item: "item_ok i item (rows d)" "rows_shape n (rows d)"
    and run: "do { chat \<leftarrow> chat_data item;
       let clean_title = JStr (sanitize_text_for_db title);
       checked e (item\<lparr>ci_title := clean_title, ci_chat := JObj (AList.update ''title'' clean_title chat)\<rparr>) (rows d) }
      = Some (x, item', rs')"
  from run obtain chat where c: "chat_data item = Some chat" "rs' = rows d"
      "ci_chat item' = JObj (AList.update ''title'' (JStr (sanitize_text_for_db title)) chat)"
    by (auto simp: bind_eq_Some_conv checked_def Let_def split: if_splits)
  show "item_step n i (rows d) item' rs'"
    unfolding c(2) by (rule chat_key_kept [OF item(1) c(1) _ _ _ item(2) c(3)]) (auto simp: sanitize_text_for_db_def)
qed

end
