(* ===== verification/ChatUpdate.thy ===== *)
theory ChatUpdate
  imports ChatWhole
begin

text \<open>
  The update of a whole chat by its client: what becomes of every message, which rows are written,
  and that the invariant is kept.
\<close>

subsection \<open>The updated history\<close>

text \<open>The messages after an update: the incoming over the stored ones, protected messages put back.\<close>

definition updated_messages :: "chat_item \<Rightarrow> json dict \<Rightarrow> json dict \<Rightarrow> json dict" where
  "updated_messages item stored incoming =
     (let merged = drawn (dict_merge stored incoming)
      in drawn (map (\<lambda>(j, v). (j, kept item stored merged j v)) merged))"

text \<open>A message with the fields of another, its children apart.\<close>

definition same_but_children :: "json dict \<Rightarrow> json dict \<Rightarrow> bool" where
  "same_but_children m f \<longleftrightarrow> (\<forall>k. k \<noteq> ''childrenIds'' \<longrightarrow> map_of f k = map_of m k)"

lemma same_but_children_fields: "same_but_children m f \<Longrightarrow> same_fields m f"
  by (simp add: same_but_children_def same_fields_def jget_def)

lemma same_but_children_trans: "same_but_children a b \<Longrightarrow> same_but_children b c \<Longrightarrow> same_but_children a c"
  by (simp add: same_but_children_def)

lemma map_of_map_pair: "map_of (map (\<lambda>(j, v). (j, f j v)) d) j = map_option (f j) (map_of d j)"
  by (induction d) auto

lemma drawn_message:
  assumes "distinct (map fst messages)" "map_of messages j = Some (JObj m)"
  obtains f where "map_of (drawn messages) j = Some (JObj f)" "same_but_children m f"
  using drawn_stored [OF assms] by (auto simp: same_but_children_def)

lemma updated_message:
  assumes ok: "tree_ok stored" and inc: "incoming_ok stored incoming" and v: "map_of (dict_merge stored incoming) j = Some v"
  shows "\<exists>f. map_of (updated_messages item stored incoming) j = Some (JObj f) \<and>
    same_but_children
      (case map_of stored j of None \<Rightarrow> dict_of v
       | Some w \<Rightarrow> if is_protected item (dict_of w) (map_of (drawn (dict_merge stored incoming)) j) = Some True then dict_of w
           else dict_of v) f"
proof -
  let ?M = "dict_merge stored incoming"
  let ?K = "map (\<lambda>(j, v). (j, kept item stored (drawn ?M) j v)) (drawn ?M)"
  note d = tree_okD(1) [OF ok]
  have dM: "distinct (map fst ?M)" using d by (rule distinct_dict_merge)
  have "fields_ok j v" using incoming_fields(1) [OF ok inc map_of_SomeD [OF v]] .
  then obtain mv where mv: "v = JObj mv" by (auto simp: fields_ok_def Let_def elim: is_dict_cases)
  obtain u where u: "map_of (drawn ?M) j = Some (JObj u)" "same_but_children mv u"
    using drawn_message [OF dM, of j mv] v mv by blast
  have K: "map_of ?K j = Some (kept item stored (drawn ?M) j (JObj u))"
    unfolding map_of_map_pair u(1) by simp
  have tm: "tree_ok (drawn ?M)"
    using tree_ok_drawn(1) [of ?M] incoming_fields(1) [OF ok inc] inc by (auto simp: incoming_ok_def)
  then have dK: "distinct (map fst ?K)" using tree_okD(1) [OF tm] by (simp add: o_def case_prod_beta')
  have "\<exists>k. kept item stored (drawn ?M) j (JObj u) = JObj k \<and> same_but_children
      (case map_of stored j of None \<Rightarrow> mv
       | Some w \<Rightarrow> if is_protected item (dict_of w) (map_of (drawn ?M) j) = Some True then dict_of w else mv) k"
  proof (cases "map_of stored j")
    case None
    then show ?thesis using u(2) by (simp add: kept_def)
  next
    case (Some w)
    then obtain mw where "w = JObj mw" using tree_ok_stored [OF ok Some] by metis
    then show ?thesis using u(2) Some by (simp add: kept_def same_but_children_def)
  qed
  then obtain k where k: "map_of ?K j = Some (JObj k)" "same_but_children
      (case map_of stored j of None \<Rightarrow> mv
       | Some w \<Rightarrow> if is_protected item (dict_of w) (map_of (drawn ?M) j) = Some True then dict_of w else mv) k"
    using K by auto
  obtain f where "map_of (drawn ?K) j = Some (JObj f)" "same_but_children k f"
    using drawn_message [OF dK k(1)] .
  moreover have mv': "dict_of v = mv" using mv by simp
  ultimately show ?thesis
    unfolding updated_messages_def Let_def mv' using same_but_children_trans [OF k(2)] by blast
qed

lemma map_of_merge_other: "map_of b k = None \<Longrightarrow> map_of (dict_merge a b) k = map_of a k"
proof (induction b arbitrary: a)
  case (Cons x b)
  then show ?case by (cases x) (simp split: if_splits)
qed simp

lemma fst_updated:
  assumes ok: "tree_ok stored" and inc: "incoming_ok stored incoming"
  shows "fst ` set (updated_messages item stored incoming) = fst ` set stored \<union> fst ` set incoming"
proof -
  let ?M = "dict_merge stored incoming"
  let ?K = "map (\<lambda>(j, v). (j, kept item stored (drawn ?M) j v)) (drawn ?M)"
  have f: "is_dict v" if "(j, v) \<in> set ?M" for j v
    using incoming_fields(1) [OF ok inc that] by (simp add: fields_ok_def Let_def)
  have tm: "tree_ok (drawn ?M)"
    using tree_ok_drawn(1) [of ?M] incoming_fields(1) [OF ok inc] inc by (auto simp: incoming_ok_def)
  have "is_dict v" if jv: "(j, v) \<in> set ?K" for j v
  proof -
    from jv obtain u where u: "(j, u) \<in> set (drawn ?M)" "v = kept item stored (drawn ?M) j u" by auto
    have "is_dict u" using tree_okD(4) [OF tm u(1)] by (simp add: node_ok_def Let_def)
    moreover have "is_dict w" if "map_of stored j = Some w" for w
      using tree_ok_stored [OF ok that] by (metis is_dict.simps(1))
    ultimately show ?thesis unfolding u(2) by (simp add: kept_def split: option.split)
  qed
  then have "fst ` set (drawn ?K) = fst ` set ?K" by (rule fst_drawn)
  also have "\<dots> = fst ` set (drawn ?M)" by force
  also have "\<dots> = fst ` set ?M" using f by (rule fst_drawn)
  also have "\<dots> = fst ` set stored \<union> fst ` set incoming"
    by (rule fst_merge)
  finally show ?thesis by (simp add: updated_messages_def Let_def)
qed

subsection \<open>The rows an update writes\<close>

lemma py_eq_get:
  assumes "py_eq (JObj a) (JObj b)" "map_of a k = Some v"
  obtains w where "map_of b k = Some w" "py_eq v w"
proof -
  have "(k, v) \<in> set a" using assms(2) by (rule map_of_SomeD)
  with assms(1) have "case map_of b k of None \<Rightarrow> False | Some w \<Rightarrow> py_eq v w" by (auto simp: list_all_iff)
  then show ?thesis using that by (cases "map_of b k") auto
qed

lemma py_eq_same_fields:
  assumes eq: "py_eq (JObj f) (JObj m)" and f: "fields_ok j (JObj f)"
  shows "same_fields m f"
proof -
  have str: "jget m k = JStr s" if "jget f k = JStr s" for k s
  proof -
    have "map_of f k = Some (JStr s)" using that by (auto simp: jget_def split: option.splits)
    then obtain w where "map_of m k = Some w" "py_eq (JStr s) w" using py_eq_get [OF eq] by blast
    then show ?thesis by (simp add: jget_def)
  qed
  have "jget m ''parentId'' = JNull" if "jget f ''parentId'' = JNull"
  proof -
    have "map_of f ''parentId'' = Some JNull"
      using that f by (auto simp: jget_def fields_ok_def Let_def)
    then obtain w where "map_of m ''parentId'' = Some w" "py_eq JNull w" using py_eq_get [OF eq] by blast
    then show ?thesis by (simp add: jget_def)
  qed
  moreover have "jget f ''content'' = JStr s" if "is_str (jget f ''content'')" "s = key (jget f ''content'')" for s
    using that by (cases "jget f ''content''") auto
  ultimately show ?thesis
    using f str by (auto simp: same_fields_def fields_ok_def Let_def is_id_iff)
qed

lemma changed_messages_in:
  "(j, v) \<in> set (changed_messages F S mids) \<longleftrightarrow>
     j \<in> set mids \<and> v = jget F j \<and> truthy v \<and> truthy (jget (dict_of v) ''role'') \<and> \<not> py_eq v (jget S j)"
  by (force simp: changed_messages_def List.map_filter_def Let_def)


subsection \<open>Cleaned values\<close>

lemma nul_free_children: "nul_free (JObj messages) \<Longrightarrow> list_all nul_free (map JStr (children messages j))"
  by (fastforce simp: children_def tree_def list_all_iff)

lemma nul_free_in: "nul_free (JObj d) \<Longrightarrow> (k, v) \<in> set d \<Longrightarrow> CHR 0x00 \<notin> set k \<and> nul_free v"
  by (auto simp: list_all_iff)

lemma nul_free_drawn:
  assumes n: "nul_free (JObj messages)" shows "nul_free (JObj (drawn messages))"
proof -
  have reset: "nul_free (JObj (reset_children messages))"
  proof -
    have "nul_free (JObj (AList.update ''childrenIds'' (JList []) m))" if "(j, JObj m) \<in> set messages" for j m
    proof -
      have "nul_free (JObj m)" using nul_free_in [OF n that] ..
      then show ?thesis by (rule nul_free_update [rotated 2]) auto
    qed
    moreover have "CHR 0x00 \<notin> set j" if "(j, v) \<in> set messages" for j v using nul_free_in [OF n that] ..
    ultimately show ?thesis by (auto simp: nul_free_dict in_reset simp del: nul_free.simps(3))
  qed
  have "nul_free (add_kids (children (reset_children messages) j) v)" if "(j, v) \<in> set (reset_children messages)" for j v
  proof -
    have v: "nul_free v" using reset that by (auto simp: list_all_iff)
    have "list_all nul_free (list_of (jget (dict_of v) ''childrenIds''))"
      using v by (intro nul_free_list_of nul_free_jget nul_free_dict_of)
    moreover have "list_all nul_free (map JStr (children (reset_children messages) j))"
      by (rule nul_free_children [OF reset])
    ultimately show ?thesis unfolding add_kids_def
      by (intro nul_free_update) (use nul_free_dict_of [OF v] in auto)
  qed
  with reset show ?thesis by (auto simp: drawn_def Let_def list_all_iff)
qed

lemma nul_free_merge_history:
  assumes run: "merge_history a b = Some history" and n: "nul_free a" "nul_free b"
    and m: "messages_of a = Some existing" "messages_of b = Some incoming" "distinct (map fst existing)"
  shows "nul_free (JObj history)"
proof -
  let ?M = "dict_merge existing incoming" and ?o = "dict_of (jor a (JObj []))" and ?n = "dict_of (jor b (JObj []))"
  have o: "nul_free (JObj ?o)" "nul_free (JObj ?n)" by (intro nul_free_dict_of nul_free_jor n; simp)+
  have e: "nul_free (JObj x)" if y: "messages_of y = Some x" "nul_free y" for x y
  proof -
    obtain h where h: "dict (jor y (JObj [])) = Some h" "dict (jor (jget h ''messages'') (JObj [])) = Some x"
      using y(1) by (auto simp: messages_of_def bind_eq_Some_conv)
    have d: "nul_free (JObj z)" if "dict v = Some z" "nul_free v" for v z using that by (cases v) auto
    have "nul_free (JObj h)" by (rule d [OF h(1)]) (intro nul_free_jor y(2), simp)
    then show ?thesis by (intro d [OF h(2)] nul_free_jor nul_free_jget) simp_all
  qed
  have nM: "nul_free (JObj ?M)" using e m(1,2) n by (intro nul_free_merge)
  have d: "distinct (map fst ?M)" using m(3) by (rule distinct_dict_merge)
  obtain merged b0 b' where link: "link_children (reset_children ?M) (reset_children ?M) = Some merged"
    and h: "history = AList.update ''currentId'' (if b0 then jget ?n ''currentId'' else if b' then jget ?o ''currentId'' else JNull)
             (AList.update ''messages'' (JObj merged) (dict_merge ?o ?n))"
    using run m(1,2) by (auto simp: merge_history_def Let_def split: bind_splits)
  have "merged = drawn ?M"
    using link_children_eq [OF distinct_reset [OF d] reset_has_list link] by (simp add: drawn_def Let_def)
  then have "nul_free (JObj merged)" using nul_free_drawn [OF nM] by simp
  then have "nul_free (JObj (AList.update ''messages'' (JObj merged) (dict_merge ?o ?n)))"
    by (intro nul_free_messages nul_free_merge o)
  then show ?thesis unfolding h
    by (rule nul_free_update [rotated 2]) (auto intro: nul_free_jget o simp del: nul_free.simps(3))
qed

lemma nul_free_keep_protected:
  "keep_protected item stored merged = Some messages \<Longrightarrow> nul_free (JObj stored) \<Longrightarrow> nul_free (JObj merged) \<Longrightarrow>
     nul_free (JObj messages)"
proof (induction stored arbitrary: merged)
  case (Cons x stored)
  obtain mid v where x: "x = (mid, v)" by (cases x)
  from Cons.prems(1) [unfolded x] obtain m b where
    b: "keep_protected item stored (if b then AList.update mid v merged else merged) = Some messages"
    by (rule keep_protected_ConsE)
  have v: "CHR 0x00 \<notin> set mid" "nul_free v" "nul_free (JObj stored)"
    using Cons.prems(2) by (simp_all add: x)
  have "nul_free (JObj (AList.update mid v merged))" by (rule nul_free_update [OF v(1,2) Cons.prems(3)])
  then show ?case by (intro Cons.IH [OF b v(3)]) (use Cons.prems(3) in simp)
qed simp

text \<open>The merge with whatever the client sends.\<close>

lemma merged_historyE:
  assumes d: "distinct (map fst stored)"
    and h: "jget old ''history'' = JObj history" "jget history ''messages'' = JObj stored"
    and inc: "messages_of incoming_history = Some incoming"
    and run: "merge_stored_history item old incoming_history = Some history'"
  obtains K where "keep_protected item stored (drawn (dict_merge stored incoming)) = Some K"
    "jget history' ''messages'' = JObj (drawn K)" "distinct (map fst (drawn (dict_merge stored incoming)))"
    "distinct (map fst K)"
    "nul_free (JObj history) \<Longrightarrow> nul_free incoming_history \<Longrightarrow> nul_free (JObj stored) \<Longrightarrow> nul_free (JObj history')"
proof -
  let ?M = "drawn (dict_merge stored incoming)"
  have hs: "messages_of (jget old ''history'') = Some stored" unfolding h(1) using h(2) by (rule messages_of_dict)
  obtain g K where g: "merge_history (jget old ''history'') incoming_history = Some g"
    and k: "keep_protected item stored (dict_of (jget g ''messages'')) = Some K"
    and h': "merge_history (JObj (AList.update ''messages'' (JObj K) g)) (JObj []) = Some history'"
    using run h by (cases stored) (auto simp: merge_stored_history_def jget_default_def jget_def jor_def Let_def
        split: bind_splits option.splits)
  have gm: "jget g ''messages'' = JObj ?M"
    by (rule merge_history_spec(1) [OF g hs inc d])
  have dM: "distinct (map fst ?M)"
    using distinct_reset [OF distinct_dict_merge [OF d]] by (simp add: drawn_def Let_def case_prod_beta' o_def)
  have K: "keep_protected item stored ?M = Some K" using k gm by simp
  have dK: "distinct (map fst K)" by (rule distinct_keep_protected [OF K dM])
  have new: "messages_of (JObj (AList.update ''messages'' (JObj K) g)) = Some K"
    by (rule messages_of_dict) simp
  have res: "jget history' ''messages'' = JObj (drawn K)"
    using merge_history_spec(1) [OF h' new _ dK, of "[]"] by (simp add: messages_of_def)
  have "nul_free (JObj history')"
    if n: "nul_free (JObj history)" "nul_free incoming_history" "nul_free (JObj stored)"
  proof -
    have ng: "nul_free (JObj g)" by (rule nul_free_merge_history [OF g _ n(2) hs inc d]) (use h(1) n(1) in simp)
    have "nul_free (JObj ?M)" using nul_free_jget [OF ng, of "''messages''"] gm by simp
    then have nK: "nul_free (JObj K)" by (rule nul_free_keep_protected [OF K n(3)])
    show ?thesis
      by (rule nul_free_merge_history [OF h' nul_free_messages [OF ng nK] _ new _ dK]) (simp_all add: messages_of_def)
  qed
  then show ?thesis by (rule that [OF K res dM dK])
qed

subsection \<open>The update\<close>

text \<open>What the client must respect: the history it sends extends the stored one.\<close>

definition updates :: "chat_db \<Rightarrow> string \<Rightarrow> json dict \<Rightarrow> bool" where
  "updates d i chat \<longleftrightarrow> distinct (map fst chat) \<and> nul_free (JObj chat) \<and>
     (case map_of (chats d) i of None \<Rightarrow> True
      | Some item \<Rightarrow> has_key ''history'' chat \<longrightarrow>
          (case messages_of (jget chat ''history'') of None \<Rightarrow> True
           | Some incoming \<Rightarrow> incoming_ok (chat_messages (dict_of (ci_chat item))) incoming))"

lemma update_rows:
  fixes item item' :: chat_item
  assumes ok: "tree_ok stored" and inc: "incoming_ok stored incoming"
    and rows: "rows_shape n rs" "length i = n" "rows_match {} i stored rs" "row_ids i rs = fst ` set stored"
  defines "F \<equiv> updated_messages item stored incoming"
  assumes F: "tree_ok F" and save: "save_message_rows e i item' (changed_messages F stored (map fst incoming)) rs = Some rs'"
  shows "rows_step n i {} F rs rs'" "row_ids i rs' = fst ` set F"
proof -
  let ?C = "changed_messages F stored (map fst incoming)"
  have di: "distinct (map fst incoming)" using inc by (simp add: incoming_ok_def)
  have keys: "fst ` set F = fst ` set stored \<union> fst ` set incoming" unfolding F_def by (rule fst_updated [OF ok inc])
  have F_node: "\<exists>f. map_of F j = Some (JObj f) \<and> node_ok j (JObj f)" if "j \<in> fst ` set F" for j
  proof -
    from that obtain v where v: "map_of F j = Some v" by (metis map_of_eq_None_iff not_None_eq)
    then show ?thesis using tree_ok_stored [OF F v] by metis
  qed
  have changed: "map_of F j = Some v \<and> fields_ok j v" if "(j, v) \<in> set ?C" for j v
  proof -
    have "j \<in> fst ` set F" "v = jget F j" using that keys by (auto simp: changed_messages_in)
    then show ?thesis using F_node [of j] node_ok_fields by (auto simp: jget_map_of)
  qed
  have "rows_match (fst ` set ?C) i F rs"
  proof (rule rows_match_mono [OF rows(3)])
    fix j m assume j: "j \<notin> fst ` set ?C" "map_of stored j = Some (JObj m)"
    obtain f where f: "map_of F j = Some (JObj f)" "node_ok j (JObj f)"
      using F_node [of j] keys keys_map_of [OF j(2)] by blast
    show "\<exists>m'. map_of F j = Some (JObj m') \<and> same_fields m m'"
    proof (cases "map_of incoming j")
      case None
      then have v: "map_of (dict_merge stored incoming) j = Some (JObj m)" using j(2) by (simp add: map_of_merge [OF di])
      have "same_but_children m f" using updated_message [OF ok inc v, of item] f(1) j(2) by (simp add: F_def)
      then show ?thesis using f(1) same_but_children_fields by blast
    next
      case (Some v)
      then have "j \<in> set (map fst incoming)" using keys_map_of by force
      moreover have "truthy (JObj f)" "truthy (jget f ''role'')" using f(2) by (auto simp: node_ok_def Let_def is_id_iff)
      moreover have "(j, JObj f) \<notin> set ?C" using j(1) by force
      ultimately have "py_eq (JObj f) (JObj m)"
        using f(1) j(2) by (simp add: changed_messages_in jget_map_of del: py_eq.simps)
      then have "same_fields m f" using py_eq_same_fields node_ok_fields [OF f(2)] by blast
      then show ?thesis using f(1) by blast
    qed
  qed simp
  note step = save_message_rows_step [OF save rows(2) changed rows_step_start [OF rows(1) this]]
  then show "rows_step n i {} F rs rs'" by simp
  have "j \<in> fst ` set ?C" if j: "j \<in> fst ` set F" "j \<notin> fst ` set stored" for j
  proof -
    obtain f where f: "map_of F j = Some (JObj f)" "node_ok j (JObj f)" using F_node [OF j(1)] by blast
    have "jget stored j = JNull" using j(2) by (simp add: jget_def map_of_eq_None_iff [THEN iffD2])
    moreover have "truthy (JObj f)" "truthy (jget f ''role'')" using f(2) by (auto simp: node_ok_def Let_def is_id_iff)
    moreover have "j \<in> set (map fst incoming)" using j keys by auto
    ultimately have "(j, JObj f) \<in> set ?C" using f(1) by (simp add: changed_messages_in jget_map_of)
    then show ?thesis by force
  qed
  moreover have "j \<in> fst ` set F" if "(j, v) \<in> set ?C" for j v
    by (rule keys_map_of [OF conjunct1 [OF changed [OF that]]])
  then have "fst ` set ?C \<subseteq> fst ` set F" by auto
  ultimately show "row_ids i rs' = fst ` set F" using step keys rows(4) by auto
qed


lemma drawn_defined: "messages_of v = Some d \<Longrightarrow> dict (jget_default chat ''history'' (JObj [])) = Some h \<Longrightarrow>
    v = jget chat ''history'' \<Longrightarrow> has_key ''history'' chat \<Longrightarrow> dict (jor (jget h ''messages'') (JObj [])) = Some d"
  by (cases v) (auto simp: messages_of_def jget_default_def jget_def jor_def split: option.splits if_splits)

lemma merge_incoming: "merge_stored_history item old v = Some h \<Longrightarrow> \<exists>d. messages_of v = Some d"
  by (auto simp: merge_stored_history_def merge_history_def bind_eq_Some_conv)

lemma checked_Some: "checked e item rs = Some (x, item', rs') \<longleftrightarrow> valid_chat e item \<and> x = item \<and> item = item' \<and> rs = rs'"
  by (auto simp: checked_def)

text \<open>One update: the invariant is kept, and the messages are those above.\<close>

definition update_body ::
  "chat_env \<Rightarrow> string \<Rightarrow> json dict \<Rightarrow> bool \<Rightarrow> chat_item \<Rightarrow> message_row list \<Rightarrow> chat_item change option" where
  "update_body e i chat touch item rs = do {
       stored \<leftarrow> chat_data item;
       updated \<leftarrow> (if has_key ''history'' chat
         then map_option (\<lambda>h. AList.update ''history'' (JObj h) (dict_merge stored chat))
                (merge_stored_history item stored (jget chat ''history''))
         else Some (dict_merge stored chat));
       let updated = clean updated;
       current \<leftarrow> (if list_ex (\<lambda>k. has_key k chat) [''history'', ''messages'', ''currentId'', ''branchPointMessageId'']
         then get_current_message_id (JObj updated) else Some (ci_current_message_id item));
       let item' = item\<lparr>ci_chat := JObj updated, ci_title := jget_default updated ''title'' (JStr ''New Chat''),
         ci_current_message_id := current, ci_updated_at := (if touch then now e else ci_updated_at item)\<rparr>;
       incoming_history \<leftarrow> dict (jget_default chat ''history'' (JObj []));
       incoming \<leftarrow> dict (jor (jget incoming_history ''messages'') (JObj []));
       let changed = changed_messages (dict_of (jget (dict_of (jget updated ''history'')) ''messages''))
         (dict_of (jget (dict_of (jget stored ''history'')) ''messages'')) (map fst incoming);
       rs \<leftarrow> save_message_rows e i item' changed rs;
       checked e item' rs }"

lemma update_unfold: "update_chat_by_id e i chat touch = chat_transaction i (update_body e i chat touch)"
  by (simp add: update_chat_by_id_def update_body_def [abs_def])

lemma update_body_step:
  assumes item: "length i = n" "rows_shape n rs" "item_ok i item rs"
    and u: "updates d i chat" "map_of (chats d) i = Some item"
    and run: "update_body e i chat touch item rs = Some (x, item', rs')"
  shows "item_step n i rs item' rs'" and "x = item'"
    and "\<exists>chat0 chat'. ci_chat item = JObj chat0 \<and> ci_chat item' = JObj chat' \<and> chat_messages chat' =
      (if has_key ''history'' chat then updated_messages item (chat_messages chat0) (the (messages_of (jget chat ''history'')))
       else chat_messages chat0)"
proof -
  from run obtain stored updated incoming_history incoming item1 where c: "chat_data item = Some stored"
    and up: "(if has_key ''history'' chat
         then map_option (\<lambda>h. AList.update ''history'' (JObj h) (dict_merge stored chat))
                (merge_stored_history item stored (jget chat ''history''))
         else Some (dict_merge stored chat)) = Some updated"
    and ih: "dict (jget_default chat ''history'' (JObj [])) = Some incoming_history"
    and im: "dict (jor (jget incoming_history ''messages'') (JObj [])) = Some incoming"
    and i1: "ci_chat item' = JObj (clean updated)"
    and save: "save_message_rows e i item1 (changed_messages (dict_of (jget (dict_of (jget (clean updated) ''history'')) ''messages''))
         (dict_of (jget (dict_of (jget stored ''history'')) ''messages'')) (map fst incoming)) rs = Some rs'"
    and x: "x = item'"
    unfolding update_body_def bind_eq_Some_conv Let_def checked_Some
    by clarify (rule that, assumption, assumption, assumption, assumption, simp, assumption, simp)
  obtain history messages where p: "ci_chat item = JObj stored" "chat_ok stored"
    "jget stored ''history'' = JObj history" "jget history ''messages'' = JObj messages" "tree_ok messages"
    "stored_or_none messages (jget history ''currentId'')" "nul_free (JObj history)" "nul_free (JObj messages)"
    "rows_match {} i messages rs" "row_ids i rs = fst ` set messages"
    using item_okE [OF item(3) c] .
  have nc: "nul_free (JObj stored)" using p(2) by (simp add: chat_ok_def)
  have dc: "distinct (map fst chat)" "nul_free (JObj chat)" using u(1) by (simp_all add: updates_def)
  have nm: "nul_free (JObj (dict_merge stored chat))" by (rule nul_free_merge [OF nc dc(2)])
  have "item_step n i rs item' rs' \<and> chat_messages (clean updated) =
      (if has_key ''history'' chat then updated_messages item messages (the (messages_of (jget chat ''history''))) else messages)"
  proof (cases "has_key ''history'' chat")
    case False
    then have "updated = dict_merge stored chat" using up by simp
    then have cl: "clean updated = dict_merge stored chat" using clean_id [OF nm] by simp
    have h: "jget (dict_merge stored chat) ''history'' = JObj history" using False p(3) by (simp add: jget_dict_merge [OF dc(1)])
    have "incoming = []" using ih im False by (auto simp: jget_default_def jget_def jor_def)
    then have "rs' = rs" using save by (simp add: changed_messages_def)
    then have "item_step n i rs item' rs'"
      using finish_item [OF i1 [unfolded cl] h p(4,5,6) nm] rows_step_start [OF item(2) p(9)] p(10) by blast
    then show ?thesis using False cl h p(4) by simp
  next
    case True
    then obtain h' where h': "merge_stored_history item stored (jget chat ''history'') = Some h'"
      and upd: "updated = AList.update ''history'' (JObj h') (dict_merge stored chat)"
      using up by auto
    obtain inc where inc: "messages_of (jget chat ''history'') = Some inc" using merge_incoming [OF h'] ..
    then have "incoming = inc" using drawn_defined [OF inc ih refl True] im by simp
    have incok: "incoming_ok messages inc" using u True inc p(1,3,4) by (simp add: updates_def)
    note spec = merge_stored_history_spec [OF p(5) p(3,4) inc incok h', folded updated_messages_def [unfolded Let_def]]
    let ?F = "updated_messages item messages inc"
    have n': "nul_free (JObj h')"
      using merged_historyE [OF tree_okD(1) [OF p(5)] p(3,4) inc h'] p(7,8) nul_free_jget [OF dc(2)] by metis
    then have nu: "nul_free (JObj updated)" unfolding upd by (rule nul_free_history [OF nm])
    then have cl: "clean updated = updated" by (rule clean_id)
    have hu: "jget updated ''history'' = JObj h'" by (simp add: upd)
    have "save_message_rows e i item1 (changed_messages ?F messages (map fst inc)) rs = Some rs'"
      using save cl hu spec(1) p(3,4) \<open>incoming = inc\<close> by simp
    note step = update_rows [OF p(5) incok item(2,1) p(9,10) spec(3) this]
    have "stored_or_none ?F (jget h' ''currentId'')"
      using spec(2) by (auto simp: stored_or_none_def in_dict_stored)
    then have "item_step n i rs item' rs'"
      by (rule finish_item [OF i1 [unfolded cl] hu spec(1,3) _ nu step])
    then show ?thesis using True cl hu spec(1) inc by simp
  qed
  then show "item_step n i rs item' rs'" "x = item'" "\<exists>chat0 chat'. ci_chat item = JObj chat0 \<and> ci_chat item' = JObj chat' \<and> chat_messages chat' =
      (if has_key ''history'' chat then updated_messages item (chat_messages chat0) (the (messages_of (jget chat ''history'')))
       else chat_messages chat0)"
    using i1 x p(1,3,4) by auto
qed

lemma update_keeps:
  assumes ok: "chats_ok n d" and u: "updates d i chat"
  shows "chats_ok n (snd (update_chat_by_id e i chat touch d))"
  unfolding update_unfold by (rule transaction_ok [OF ok]) (rule update_body_step(1) [OF _ _ _ u])

subsection \<open>Whatever the client sends\<close>

text \<open>
  An update by a client that respects nothing: which messages it leaves, as long as no string it
  sends contains a NUL (the cleaning that follows the merge would rename them).
\<close>

lemma any_update:
  assumes item: "item_ok i item rs" and n: "nul_free (JObj chat)"
    and run: "update_body e i chat touch item rs = Some (x, item', rs')"
  obtains stored messages where "ci_chat item = JObj stored" "chat_messages stored = messages" "tree_ok messages"
    "if \<not> has_key ''history'' chat then chat_messages (dict_of (ci_chat item')) = messages
     else \<exists>inc K. messages_of (jget chat ''history'') = Some inc \<and>
      keep_protected item messages (drawn (dict_merge messages inc)) = Some K \<and> distinct (map fst K) \<and>
      chat_messages (dict_of (ci_chat item')) = drawn K"
proof -
  from run obtain stored updated where c: "chat_data item = Some stored"
    and up: "(if has_key ''history'' chat
         then map_option (\<lambda>h. AList.update ''history'' (JObj h) (dict_merge stored chat))
                (merge_stored_history item stored (jget chat ''history''))
         else Some (dict_merge stored chat)) = Some updated"
    and i1: "ci_chat item' = JObj (clean updated)"
    unfolding update_body_def bind_eq_Some_conv Let_def checked_Some
    by clarify (rule that, assumption, assumption, simp)
  obtain history messages where p: "ci_chat item = JObj stored" "chat_ok stored"
    "jget stored ''history'' = JObj history" "jget history ''messages'' = JObj messages" "tree_ok messages"
    "stored_or_none messages (jget history ''currentId'')" "nul_free (JObj history)" "nul_free (JObj messages)"
    using item_okE [OF item c] by metis
  note d = tree_okD(1) [OF p(5)]
  have nm: "nul_free (JObj (dict_merge stored chat))"
    using p(2) n by (intro nul_free_merge) (simp_all add: chat_ok_def)
  have "chat_messages (clean updated) = messages" if no: "\<not> has_key ''history'' chat"
  proof -
    have "updated = dict_merge stored chat" using up no by simp
    moreover have "map_of (dict_merge stored chat) ''history'' = map_of stored ''history''"
      using no by (intro map_of_merge_other) simp
    ultimately show ?thesis using clean_id [OF nm] p(3,4) by (simp add: jget_def)
  qed
  moreover have "\<exists>inc K. messages_of (jget chat ''history'') = Some inc \<and>
      keep_protected item messages (drawn (dict_merge messages inc)) = Some K \<and> distinct (map fst K) \<and>
      chat_messages (clean updated) = drawn K" if has: "has_key ''history'' chat"
  proof -
    obtain h' where h': "merge_stored_history item stored (jget chat ''history'') = Some h'"
      and upd: "updated = AList.update ''history'' (JObj h') (dict_merge stored chat)"
      using up has by auto
    obtain inc where inc: "messages_of (jget chat ''history'') = Some inc" using merge_incoming [OF h'] ..
    obtain K where K: "keep_protected item messages (drawn (dict_merge messages inc)) = Some K"
      "jget h' ''messages'' = JObj (drawn K)" "distinct (map fst K)" "nul_free (JObj h')"
      using merged_historyE [OF d p(3,4) inc h'] p(7,8) nul_free_jget [OF n] by metis
    have "nul_free (JObj updated)" unfolding upd by (rule nul_free_history [OF nm K(4)])
    then have "clean updated = updated" by (rule clean_id)
    then have "chat_messages (clean updated) = drawn K" using K(2) by (simp add: upd)
    with inc K(1,3) show ?thesis by blast
  qed
  ultimately show ?thesis using that [of stored messages] p(1,3,4,5) i1 by simp
qed

text \<open>Protected messages are put back with every field but their children.\<close>

lemma any_update_protected:
  assumes item: "item_ok i item rs" and n: "nul_free (JObj chat)"
    and run: "update_body e i chat touch item rs = Some (x, item', rs')"
    and j: "map_of (chat_messages (dict_of (ci_chat item))) j = Some (JObj m)"
    and p: "user_of m item \<noteq> JStr (ci_user_id item) \<or> jget m ''role'' = JStr ''assistant'' \<and> jget m ''done'' = JBool False"
  shows "\<exists>m'. map_of (chat_messages (dict_of (ci_chat item'))) j = Some (JObj m') \<and> same_but_children m m'"
proof -
  obtain stored messages where s: "ci_chat item = JObj stored" "chat_messages stored = messages" "tree_ok messages"
    and upd: "if \<not> has_key ''history'' chat then chat_messages (dict_of (ci_chat item')) = messages
     else \<exists>inc K. messages_of (jget chat ''history'') = Some inc \<and>
      keep_protected item messages (drawn (dict_merge messages inc)) = Some K \<and> distinct (map fst K) \<and>
      chat_messages (dict_of (ci_chat item')) = drawn K"
    by (rule any_update [OF item n run])
  have j: "map_of messages j = Some (JObj m)" using j s(1,2) by simp
  show ?thesis
  proof (cases "has_key ''history'' chat")
    case False
    then show ?thesis using upd j by (auto simp: same_but_children_def)
  next
    case True
    then obtain inc K where K: "keep_protected item messages (drawn (dict_merge messages inc)) = Some K"
      "distinct (map fst K)" "chat_messages (dict_of (ci_chat item')) = drawn K"
      using upd by auto
    have "is_protected item m w = Some True" for w
      using p by (auto simp: is_protected_def)
    then have "map_of K j = Some (JObj m)"
      using keep_protected_map [OF tree_okD(1) [OF s(3)] K(1), of j] j by simp
    then show ?thesis using drawn_message [OF K(2)] K(3) by metis
  qed
qed

lemma dict_merge_in: "(j, v) \<in> set (dict_merge a b) \<Longrightarrow> (j, v) \<in> set b \<or> (j, v) \<in> set a"
proof (induction b arbitrary: a)
  case (Cons x b)
  from Cons.IH [of "AList.update (fst x) (snd x) a"] Cons.prems set_update_subset [of "fst x" "snd x" a]
  show ?case by (cases x) auto
qed simp

text \<open>A message is only left out where the client sent something else than a dictionary for a question of the owner.\<close>

lemma any_update_loses:
  assumes item: "item_ok i item rs" and n: "nul_free (JObj chat)"
    and run: "update_body e i chat touch item rs = Some (x, item', rs')"
    and j: "map_of (chat_messages (dict_of (ci_chat item))) j = Some (JObj m)"
    and lost: "j \<notin> fst ` set (chat_messages (dict_of (ci_chat item')))"
  shows "user_of m item = JStr (ci_user_id item) \<and> jget m ''role'' \<noteq> JStr ''assistant'' \<and>
    (\<exists>inc v. messages_of (jget chat ''history'') = Some inc \<and> (j, v) \<in> set inc \<and> \<not> is_dict v)"
proof -
  obtain stored messages where s: "ci_chat item = JObj stored" "chat_messages stored = messages" "tree_ok messages"
    and upd: "if \<not> has_key ''history'' chat then chat_messages (dict_of (ci_chat item')) = messages
     else \<exists>inc K. messages_of (jget chat ''history'') = Some inc \<and>
      keep_protected item messages (drawn (dict_merge messages inc)) = Some K \<and> distinct (map fst K) \<and>
      chat_messages (dict_of (ci_chat item')) = drawn K"
    by (rule any_update [OF item n run])
  have j: "map_of messages j = Some (JObj m)" using j s(1,2) by simp
  have "has_key ''history'' chat"
    using lost upd keys_map_of [OF j] by (auto split: if_splits)
  then obtain inc K where inc: "messages_of (jget chat ''history'') = Some inc"
    and K: "keep_protected item messages (drawn (dict_merge messages inc)) = Some K"
      "distinct (map fst K)" "chat_messages (dict_of (ci_chat item')) = drawn K"
    using upd by auto
  let ?M = "dict_merge messages inc"
  note d = tree_okD(1) [OF s(3)]
  have dM: "distinct (map fst ?M)" using d by (rule distinct_dict_merge)
  have "j \<in> fst ` set ?M" using keys_map_of [OF j] by (simp add: fst_merge)
  then obtain v where v: "(j, v) \<in> set ?M" by auto
  have gone: "map_of K j \<noteq> Some (JObj u)" for u
    using lost K(3) drawn_message [OF K(2)] keys_map_of by metis
  have "\<not> is_dict v"
  proof
    assume "is_dict v"
    then obtain w where "v = JObj w" by (auto elim: is_dict_cases)
    then have "map_of ?M j = Some (JObj w)" using v dM by simp
    then obtain f where f: "map_of (drawn ?M) j = Some (JObj f)" by (rule drawn_message [OF dM])
    then show False using keep_protected_map [OF d K(1), of j] j gone by (auto split: if_splits)
  qed
  then have in_inc: "(j, v) \<in> set inc"
    using dict_merge_in [OF v] j map_of_in [OF d, of j v] by auto
  have none: "map_of (drawn ?M) j = None"
  proof -
    have "j \<notin> fst ` set (reset_children ?M)"
    proof
      assume "j \<in> fst ` set (reset_children ?M)"
      then obtain u where "(j, JObj u) \<in> set ?M" by (auto simp: in_reset)
      then have "v = JObj u" using v dM by (metis map_of_is_SomeI option.inject)
      with \<open>\<not> is_dict v\<close> show False by simp
    qed
    then show ?thesis by (force simp: drawn_def Let_def map_of_eq_None_iff)
  qed
  have "is_protected item m None \<noteq> Some True"
    using keep_protected_map [OF d K(1), of j] j gone [of m] none by auto
  moreover have "is_protected item m None \<noteq> None"
    using keep_protected_decided(2) [OF d K(1) j] none by simp
  ultimately show ?thesis
    using inc in_inc \<open>\<not> is_dict v\<close> by (auto simp: is_protected_def split: if_splits)
qed

end
