(* ===== verification/ChatTurn.thy ===== *)
theory ChatTurn
  imports ChatUpdate
begin

text \<open>
  A new chat with its first messages, and a turn: a user message and the empty replies prepared for
  it. Both keep the invariant.
\<close>

subsection \<open>A new chat\<close>

text \<open>
  What the caller must respect: a proper history, its messages not in the older list, and, since the
  first rows are written after the chat and a row that the database refuses ends the loop with a
  warning, that the database accepts the row of every message.
\<close>

definition accepts_row :: "chat_env \<Rightarrow> string \<Rightarrow> string \<Rightarrow> string \<Rightarrow> json \<Rightarrow> bool" where
  "accepts_row e i user_id mid v \<longleftrightarrow>
     (case build_message (composite_id i mid) i (initial_author (dict_of v) user_id) (dict_of v) (now e) of
        None \<Rightarrow> False
      | Some row \<Rightarrow> storable e row \<and> valid e row)"

definition creates :: "nat \<Rightarrow> chat_env \<Rightarrow> string \<Rightarrow> string \<Rightarrow> json dict \<Rightarrow> bool" where
  "creates n e i user_id chat \<longleftrightarrow> length i = n \<and> chat_ok chat \<and>
     (chat_messages chat \<noteq> [] \<or> \<not> is_list (jget chat ''messages'')) \<and>
     list_all (\<lambda>(mid, v). accepts_row e i user_id mid v) (chat_messages chat)"

lemma accepted_upsert:
  assumes "accepts_row e i u mid (JObj m)" "get_row rs (composite_id i mid) = None"
  shows "upsert_message (store_env.truncate e) mid i (initial_author m u) m rs \<noteq> None"
  using assms by (auto simp: accepts_row_def upsert_message_def store_env.truncate_def split: option.splits)

lemma initial_rows_step:
  assumes "length i = n" "\<And>mid v. (mid, v) \<in> set ms \<Longrightarrow> map_of messages mid = Some v \<and> fields_ok mid v"
    and "\<And>mid v. (mid, v) \<in> set ms \<Longrightarrow> accepts_row e i u mid v" "distinct (map fst ms)"
    and "fst ` set ms \<inter> row_ids i rs = {}"
    and "rows_step n i {} messages rs0 rs"
  shows "rows_step n i {} messages rs0 (write_initial_rows e i u (map (\<lambda>(i, v). (JStr i, v)) ms) rs) \<and>
    row_ids i (write_initial_rows e i u (map (\<lambda>(i, v). (JStr i, v)) ms) rs) = fst ` set ms \<union> row_ids i rs"
  using assms
proof (induction ms arbitrary: rs)
  case (Cons x ms)
  obtain mid v where x: "x = (mid, v)" by (cases x)
  have v: "map_of messages mid = Some v" "fields_ok mid v" using Cons.prems(2) [of mid v] by (auto simp: x)
  obtain m where m: "v = JObj m" using v(2) by (auto simp: fields_ok_def Let_def elim: is_dict_cases)
  have role: "truthy (jget m ''role'')" using v(2) by (auto simp: m fields_ok_def Let_def is_id_iff)
  have s: "rows_shape n rs" using Cons.prems(6) by (simp add: rows_step_def)
  have "get_row rs (composite_id i mid) = None"
    using get_row_iff [OF s Cons.prems(1), of mid] Cons.prems(5) by (auto simp: x)
  then obtain rs' where rs': "upsert_message (store_env.truncate e) mid i (initial_author m u) m rs = Some rs'"
    using accepted_upsert [of e i u mid m rs] Cons.prems(3) [of mid v] by (auto simp: x m)
  obtain row where row: "rs' = put_row row rs" "mr_id row = composite_id i mid" "mr_chat_id row = i" "agrees row m"
    using upsert_message_row [OF v(2) [unfolded m] rs' s Cons.prems(1)] .
  have "rows_match ({} - {mid}) i messages rs'"
    unfolding row(1) by (rule put_row_match [OF s row(2,3) Cons.prems(1) v(1) [unfolded m] row(4)])
      (use Cons.prems(6) in \<open>simp add: rows_step_def\<close>)
  moreover have "rows_shape n rs'"
    unfolding row(1) by (rule put_row_shape [OF s]) (use row Cons.prems(1) in auto)
  moreover have "other_rows i rs' = other_rows i rs0"
    using put_row_other [OF s row(2,3) Cons.prems(1)] row(1) Cons.prems(6) by (simp add: rows_step_def)
  ultimately have step: "rows_step n i {} messages rs0 rs'" by (simp add: rows_step_def)
  have ids: "row_ids i rs' = insert mid (row_ids i rs)"
    using put_row_ids [OF s row(2,3) Cons.prems(1)] row(1) by simp
  have "mid \<notin> fst ` set ms" "distinct (map fst ms)" using Cons.prems(4) by (auto simp: x)
  then have "fst ` set ms \<inter> row_ids i rs' = {}" using Cons.prems(5) by (auto simp: ids)
  with Cons.IH [OF Cons.prems(1) _ _ \<open>distinct (map fst ms)\<close> _ step] Cons.prems(2,3) rs' role ids
  show ?case by (simp add: x m)
qed simp

lemma create_keeps:
  assumes ok: "chats_ok n d" and c: "creates n e i u chat"
  shows "chats_ok n (snd (insert_new_chat e i u chat d))"
proof (cases "snd (insert_new_chat e i u chat d) = d")
  case True
  then show ?thesis using ok by simp
next
  case False
  have "chat_ok chat" using c by (simp add: creates_def)
  then obtain history messages where h: "jget chat ''history'' = JObj history" "jget history ''messages'' = JObj messages"
    "tree_ok messages" "stored_or_none messages (jget history ''currentId'')" "nul_free (JObj chat)"
    "nul_free (JObj history)" "nul_free (JObj messages)"
    by (rule chat_okE)
  have init: "initial_messages chat = Some (map (\<lambda>(i, v). (JStr i, v)) messages)"
    using c h(1,2) by (auto simp: creates_def initial_messages_def Let_def)
  let ?rs = "write_initial_rows e i u (map (\<lambda>(i, v). (JStr i, v)) messages) (rows d)"
  let ?item = "\<lambda>current. \<lparr>ci_user_id = u, ci_title = sanitize_data_for_db (jget_default chat ''title'' (JStr ''New Chat'')),
    ci_chat = JObj chat, ci_current_message_id = current, ci_updated_at = now e\<rparr>"
  obtain current where new: "map_of (chats d) i = None"
    and res: "snd (insert_new_chat e i u chat d) = \<lparr>chats = AList.update i (?item current) (chats d), rows = ?rs\<rparr>"
    using False init clean_id [OF h(5)] by (auto simp: insert_new_chat_def Let_def split: option.splits if_splits)
  then obtain item where item: "ci_chat item = JObj chat"
    and res: "snd (insert_new_chat e i u chat d) = \<lparr>chats = AList.update i item (chats d), rows = ?rs\<rparr>"
    using that [of "?item current"] by simp
  have i: "length i = n" using c by (simp add: creates_def)
  have s: "rows_shape n (rows d)" using ok by (simp add: chats_ok_def)
  have no: "mr_chat_id r \<noteq> i" if "r \<in> set (rows d)" for r
    using ok new that by (auto simp: chats_ok_def map_of_eq_None_iff)
  then have own: "rows_match {} i messages (rows d)" "row_ids i (rows d) = {}"
    by (auto simp: rows_match_def row_ids_def)
  have "map_of messages mid = Some v \<and> fields_ok mid v" if "(mid, v) \<in> set messages" for mid v
    using that tree_okD(1,4) [OF h(3)] node_ok_fields by simp
  moreover have "accepts_row e i u mid v" if "(mid, v) \<in> set messages" for mid v
    using that c h(1,2) by (auto simp: creates_def list_all_iff)
  ultimately have step: "rows_step n i {} messages (rows d) ?rs" "row_ids i ?rs = fst ` set messages"
    using initial_rows_step [OF i, of messages messages e u "rows d" "rows d"]
      tree_okD(1) [OF h(3)] rows_step_start [OF s own(1)] own(2) by auto
  have "item_step n i (rows d) item ?rs"
    by (rule finish_item [OF item h(1-5) step])
  then show ?thesis unfolding res by (rule chats_ok_put [OF ok i])
qed


subsection \<open>The replies of a turn\<close>

text \<open>A prepared reply: not stored yet, or an empty one below the same message.\<close>

definition reply_ready :: "json dict \<Rightarrow> json \<Rightarrow> string \<Rightarrow> bool" where
  "reply_ready messages parent_id mid \<longleftrightarrow> mid \<noteq> [] \<and>
     (case map_of messages mid of None \<Rightarrow> True
      | Some v \<Rightarrow> jget (dict_of v) ''parentId'' = parent_id \<and> jget (dict_of v) ''role'' = JStr ''assistant'' \<and> kids v = [])"

definition known_parent :: "json dict \<Rightarrow> json \<Rightarrow> bool" where
  "known_parent messages p \<longleftrightarrow> p = JNull \<or> is_id p \<and> has_key (key p) messages"

lemma has_key_iff: "has_key k d \<longleftrightarrow> k \<in> fst ` set d"
  by (simp only: not_not map_of_eq_None_iff)

lemma new_reply_fields:
  assumes "new_reply e u p entry = Some reply"
  shows "distinct (map fst reply)" "\<not> has_key ''parent_id'' reply" "jget reply ''id'' = jget entry ''message_id''"
    "jget reply ''parentId'' = p" "jget reply ''childrenIds'' = JList []" "jget reply ''role'' = JStr ''assistant''"
  using assms by (auto simp: new_reply_def split: bind_splits)

lemma reply_save_ok:
  assumes ok: "tree_ok messages" and r: "new_reply e u p entry = Some reply" "jget entry ''message_id'' = JStr mid"
    and ready: "reply_ready messages p mid" and p: "known_parent messages p"
  shows "save_ok messages mid reply"
proof (cases "map_of messages mid")
  case None
  have "new_ok messages mid reply"
    using new_reply_fields [OF r(1)] r(2) p by (auto simp: new_ok_def known_parent_def is_id_iff)
  then show ?thesis using new_reply_fields(1,2) [OF r(1)] ready None by (simp add: save_ok_def reply_ready_def)
next
  case (Some v)
  obtain m where m: "v = JObj m" "node_ok mid v" using tree_ok_stored [OF ok Some] by metis
  have c: "jget m ''childrenIds'' = JList []" using node_ok_list [OF m(2)] ready Some m(1) by (simp add: reply_ready_def)
  have "jget m ''id'' = JStr mid" using m by (simp add: node_ok_def Let_def)
  then have "repeats reply m"
    using new_reply_fields [OF r(1)] r(2) ready Some m(1) c by (auto simp: repeats_def tree_keys_def reply_ready_def)
  then show ?thesis using new_reply_fields(1,2) [OF r(1)] ready Some m(1) by (simp add: save_ok_def reply_ready_def)
qed

lemma reply_ready_kept:
  assumes "reply_ready messages p mid" "map_of messages' mid = map_of messages mid"
  shows "reply_ready messages' p mid"
  using assms by (simp add: reply_ready_def)

lemma nul_free_reply:
  "new_reply e u p entry = Some reply \<Longrightarrow> nul_free (JObj entry) \<Longrightarrow> nul_free p \<Longrightarrow> CHR 0x00 \<notin> set u \<Longrightarrow> nul_free (JObj reply)"
  by (auto simp: new_reply_def bind_eq_Some_conv simp del: nul_free.simps(3) dest: nul_free_map_of intro: nul_free_jget)
    (auto simp: list_all_iff jget_def split: option.splits dest!: map_of_SomeD)

text \<open>The stored messages after some were saved: their children apart, they are as they were.\<close>

definition keeps_messages :: "json dict \<Rightarrow> json dict \<Rightarrow> string set \<Rightarrow> bool" where
  "keeps_messages messages messages' X \<longleftrightarrow>
     (\<forall>j m. j \<notin> X \<longrightarrow> map_of messages j = Some (JObj m) \<longrightarrow>
        (\<exists>m'. map_of messages' j = Some (JObj m') \<and> same_but_children m m'))"

lemma keeps_messages_trans:
  "keeps_messages a b X \<Longrightarrow> keeps_messages b c Y \<Longrightarrow> X \<union> Y \<subseteq> Z \<Longrightarrow> keeps_messages a c Z"
  unfolding keeps_messages_def
proof (intro allI impI)
  fix j m
  assume ab: "\<forall>j m. j \<notin> X \<longrightarrow> map_of a j = Some (JObj m) \<longrightarrow> (\<exists>m'. map_of b j = Some (JObj m') \<and> same_but_children m m')"
    and bc: "\<forall>j m. j \<notin> Y \<longrightarrow> map_of b j = Some (JObj m) \<longrightarrow> (\<exists>m'. map_of c j = Some (JObj m') \<and> same_but_children m m')"
    and Z: "X \<union> Y \<subseteq> Z" "j \<notin> Z" and j: "map_of a j = Some (JObj m)"
  from ab Z j obtain m1 where m1: "map_of b j = Some (JObj m1)" "same_but_children m m1" by blast
  from bc Z m1(1) obtain m2 where "map_of c j = Some (JObj m2)" "same_but_children m1 m2" by blast
  with m1(2) show "\<exists>m'. map_of c j = Some (JObj m') \<and> same_but_children m m'" using same_but_children_trans by blast
qed

lemma keeps_messages_refl: "keeps_messages messages messages X"
  by (auto simp: keeps_messages_def same_but_children_def)

lemma upsert_keeps:
  assumes "\<And>j. j \<noteq> i \<Longrightarrow> map_of messages' j = (if b \<and> q = Some j
       then Some (append_child (JStr i) (jget messages j)) else map_of messages j)"
  shows "keeps_messages messages messages' {i}"
  unfolding keeps_messages_def
proof (intro allI impI)
  fix j m assume j: "j \<notin> {i}" "map_of messages j = Some (JObj m)"
  then have "map_of messages' j = Some (JObj m) \<or> map_of messages' j = Some (append_child (JStr i) (JObj m))"
    using assms [of j] by (auto simp: jget_map_of)
  then show "\<exists>m'. map_of messages' j = Some (JObj m') \<and> same_but_children m m'"
    by (auto simp: append_child_def same_but_children_def)
qed

definition new_edges :: "json dict \<Rightarrow> json \<Rightarrow> string list \<Rightarrow> (string \<times> string option) list" where
  "new_edges messages p mids =
     map (\<lambda>mid. (mid, case p of JStr s \<Rightarrow> Some s | _ \<Rightarrow> None)) (filter (\<lambda>mid. mid \<notin> fst ` set messages) mids)"

lemma save_replies_step:
  assumes "save_replies e u p entries history = Some history'"
    and "tree_ok messages" "jget history ''messages'' = JObj messages"
    and "map (\<lambda>entry. jget entry ''message_id'') entries = map JStr mids" "distinct mids"
    and "\<And>mid. mid \<in> set mids \<Longrightarrow> reply_ready messages p mid"
    and "known_parent messages p" "key p \<notin> set mids"
    and "rows_match X c messages rs" "stored_or_none messages (jget history ''currentId'')"
    and "nul_free (JObj history)" "\<And>entry. entry \<in> set entries \<Longrightarrow> nul_free (JObj entry)" "nul_free p" "CHR 0x00 \<notin> set u"
  shows "\<exists>messages'. jget history' ''messages'' = JObj messages' \<and> tree_ok messages' \<and>
    stored_or_none messages' (jget history' ''currentId'') \<and> nul_free (JObj history') \<and>
    rows_match (set mids \<union> X) c messages' rs \<and> fst ` set messages' = set mids \<union> fst ` set messages \<and>
    tree messages' = tree messages @ new_edges messages p mids \<and> keeps_messages messages messages' (set mids) \<and>
    jget history' ''currentId'' = (case filter (\<lambda>mid. mid \<notin> fst ` set messages) mids of
      [] \<Rightarrow> jget history ''currentId'' | ms \<Rightarrow> JStr (last ms))"
  using assms
proof (induction entries arbitrary: history messages mids X)
  case Nil
  then show ?case by (auto simp: new_edges_def keeps_messages_refl)
next
  case (Cons entry entries)
  obtain mid mids' where mids: "mids = mid # mids'" "jget entry ''message_id'' = JStr mid"
    "map (\<lambda>entry. jget entry ''message_id'') entries = map JStr mids'"
    using Cons.prems(4) by (cases mids) auto
  obtain reply h saved where reply: "new_reply e u p entry = Some reply"
    and up: "upsert_message_to_history (now e) history mid reply = Some (h, saved)"
    and rest: "save_replies e u p entries h = Some history'"
    using Cons.prems(1) mids(2) by (auto simp: bind_eq_Some_conv)
  have s: "save_ok messages mid reply"
    using reply_save_ok [OF Cons.prems(2) reply mids(2) _ Cons.prems(7)] Cons.prems(6) mids(1) by simp
  obtain M where M: "jget h ''messages'' = JObj M" using upsert_messages_defined [OF up] ..
  note r = upsert_rows [OF Cons.prems(2,3) s up M Cons.prems(9,10)]
  have par: "parent_of (JObj reply) = (case p of JStr s \<Rightarrow> Some s | _ \<Rightarrow> None)"
    using new_reply_fields(4) [OF reply] by (simp add: parent_of_def)
  have pk: "parent_of (JObj reply) = Some j \<Longrightarrow> j = key p" for j
    unfolding par by (auto split: json.splits)
  have same: "map_of M j = map_of messages j" if "j \<noteq> mid" "j \<noteq> key p" for j
    using r(9) [OF that(1)] pk that(2) by auto
  have "CHR 0x00 \<notin> set mid"
    using nul_free_jget [OF Cons.prems(12) [of entry], of "''message_id''"] mids(2) by simp
  then have nh: "nul_free (JObj h)"
    using nul_free_upsert(1) [OF up Cons.prems(11) nul_free_reply [OF reply _ Cons.prems(13,14)]] Cons.prems(12) [of entry] by simp
  have ready: "reply_ready M p mid'" if "mid' \<in> set mids'" for mid'
    using reply_ready_kept [of messages p mid' M] same [of mid'] Cons.prems(5,6,8) that mids(1) by auto
  have kp: "known_parent M p" using Cons.prems(7) r(3) unfolding known_parent_def has_key_iff by blast
  have di: "distinct mids'" "key p \<notin> set mids'" using Cons.prems(5,8) mids(1) by auto
  from Cons.IH [OF rest r(1) M mids(3) di(1) ready kp di(2) r(6,2) nh _ Cons.prems(13,14)] Cons.prems(12)
  obtain messages' where IH: "jget history' ''messages'' = JObj messages'" "tree_ok messages'"
    "stored_or_none messages' (jget history' ''currentId'')" "nul_free (JObj history')"
    "rows_match (set mids' \<union> insert mid X) c messages' rs" "fst ` set messages' = set mids' \<union> fst ` set M"
    "tree messages' = tree M @ new_edges M p mids'" "keeps_messages M messages' (set mids')"
    "jget history' ''currentId'' = (case filter (\<lambda>mid. mid \<notin> fst ` set M) mids' of
      [] \<Rightarrow> jget h ''currentId'' | ms \<Rightarrow> JStr (last ms))"
    by auto
  have keep: "keeps_messages messages messages' (set mids)"
    by (rule keeps_messages_trans [OF upsert_keeps [OF r(9)] IH(8)]) (auto simp: mids(1))
  have f: "filter (\<lambda>m. m \<notin> fst ` set M) mids' = filter (\<lambda>m. m \<notin> fst ` set messages) mids'"
    using r(3) Cons.prems(5) mids(1) by (intro filter_cong) auto
  have new: "map_of messages mid = None \<longleftrightarrow> mid \<notin> fst ` set messages" by (rule map_of_eq_None_iff)
  have t: "tree messages' = tree messages @ new_edges messages p mids"
    using IH(7) r(7) par f by (simp add: new_edges_def mids(1) new)
  have cur: "jget history' ''currentId'' = (case filter (\<lambda>mid. mid \<notin> fst ` set messages) mids of
      [] \<Rightarrow> jget history ''currentId'' | ms \<Rightarrow> JStr (last ms))"
    using IH(9) r(8) f by (simp add: mids(1) new split: list.splits)
  show ?case
    using IH r(3) keep t cur by (intro exI [of _ messages']) (auto simp: mids(1) simp del: nul_free.simps)
qed


subsection \<open>The user message of a turn\<close>

text \<open>What the caller must respect in a turn.\<close>

definition turns :: "chat_db \<Rightarrow> string \<Rightarrow> string \<Rightarrow> string \<Rightarrow> json dict \<Rightarrow> json dict list \<Rightarrow> bool" where
  "turns d i user_id user_name user_message entries \<longleftrightarrow>
     distinct (map fst user_message) \<and> nul_free (JObj user_message) \<and> \<not> has_key ''parent_id'' user_message \<and>
     list_all (\<lambda>entry. nul_free (JObj entry)) entries \<and> CHR 0x00 \<notin> set user_id \<and> CHR 0x00 \<notin> set user_name \<and>
     (case map_of (chats d) i of None \<Rightarrow> True
      | Some item \<Rightarrow> list_all (\<lambda>entry.
          case map_of (chat_messages (dict_of (ci_chat item))) (key (jget entry ''message_id'')) of None \<Rightarrow> True
          | Some v \<Rightarrow> kids v = [] \<and> (user_message = [] \<longrightarrow> parent_of v = None)) entries)"

lemma stored_truthy: "tree_ok messages \<Longrightarrow> truthy (jget messages i) \<longleftrightarrow> map_of messages i \<noteq> None"
proof (cases "map_of messages i")
  case (Some v)
  assume ok: "tree_ok messages"
  obtain m where "v = JObj m" "node_ok i v" using tree_ok_stored [OF ok Some] by metis
  then show ?thesis using Some by (auto simp: jget_map_of node_ok_def Let_def)
qed (simp add: jget_def)

lemma key_in_messages: "in_dict p messages = Some True \<Longrightarrow> tree_ok messages \<Longrightarrow> is_id p \<and> has_key (key p) messages"
proof -
  assume p: "in_dict p messages = Some True" and ok: "tree_ok messages"
  then obtain s v where s: "p = JStr s" "map_of messages s = Some v" by (auto simp: in_dict_stored elim: is_str.elims)
  then have "node_ok s v" using tree_ok_stored [OF ok s(2)] by metis
  with s show ?thesis by (simp add: node_ok_def Let_def is_id_def)
qed

lemma user_message_ok:
  assumes ok: "tree_ok messages" and u: "jget user_message ''id'' = JStr u" "u \<noteq> []"
    and um: "distinct (map fst user_message)" "nul_free (JObj user_message)" "\<not> has_key ''parent_id'' user_message"
    and n: "nul_free (JObj messages)" "CHR 0x00 \<notin> set user_id" "CHR 0x00 \<notin> set user_name"
    and run: "turn_user_message e item user_id user_name messages user_message = Inr (m, p)"
  shows "save_ok messages u m" "nul_free (JObj m)" "known_parent messages p"
    "jget m ''parentId'' = p" "jget m ''role'' = JStr ''user''"
    "map_of messages u = None \<Longrightarrow> jget user_message ''parentId'' = p"
proof -
  note t = stored_truthy [OF ok, of u]
  have "save_ok messages u m \<and> nul_free (JObj m) \<and> known_parent messages p \<and> jget m ''parentId'' = p \<and> jget m ''role'' = JStr ''user'' \<and>
      (map_of messages u = None \<longrightarrow> jget user_message ''parentId'' = p)"
  proof (cases "map_of messages u")
    case None
    let ?base = "if ci_user_id item = user_id then user_message
                   else List.map_filter (\<lambda>k. map_option (Pair k) (map_of user_message k)) [''content'', ''files'', ''models'']"
    let ?new = "[(''id'', JStr u), (''parentId'', p), (''role'', JStr ''user''),
                   (''childrenIds'', JList []), (''timestamp'', JInt (now e)), (''user_id'', JStr user_id),
                   (''user'', JObj [(''id'', JStr user_id), (''name'', JStr user_name)])]"
    from run None t u(1) have p: "p = jget user_message ''parentId''" "p = JNull \<or> in_dict p messages = Some True"
      and m: "m = dict_merge ?base ?new"
      by (auto simp: turn_user_message_def Let_def raised_def bind_result_def split: if_splits option.splits sum.splits)
    have d: "distinct (map fst ?base)" using um(1) by (auto split: option.splits)
    have np: "map_of ?base ''parent_id'' = None" using um(3) by (auto split: option.splits)
    have nb: "nul_free (JObj ?base)" using um(2) nul_free_map_filter [OF um(2)] by presburger
    have u0: "CHR 0x00 \<notin> set u" using nul_free_jget [OF um(2), of "''id''"] u(1) by simp
    have "nul_free p" unfolding p(1) by (rule nul_free_jget [OF um(2)])
    then have nn: "nul_free (JObj ?new)" using n u0 by simp
    have kp: "known_parent messages p" using p(2) key_in_messages [OF _ ok] by (auto simp: known_parent_def)
    have g: "jget m ''id'' = JStr u" "jget m ''parentId'' = p" "jget m ''role'' = JStr ''user''" "jget m ''childrenIds'' = JList []"
      "map_of m ''parent_id'' = None"
      using np unfolding m by (simp_all add: jget_dict_merge map_of_merge del: dict_merge_Cons)
    then have "new_ok messages u m" using kp by (auto simp: new_ok_def known_parent_def is_id_def)
    moreover have "distinct (map fst m)" unfolding m by (rule distinct_dict_merge [OF d])
    ultimately have "save_ok messages u m" using u(2) g(5) None by (simp add: save_ok_def)
    moreover have "nul_free (JObj m)" unfolding m by (rule nul_free_merge [OF nb nn])
    ultimately show ?thesis using kp g p(1) by simp
  next
    case (Some v)
    obtain old where old: "v = JObj old" "(u, v) \<in> set messages" "node_ok u v" using ok Some by (rule tree_ok_stored)
    have jo: "jget messages u = JObj old" using Some old(1) by (simp add: jget_map_of)
    have tr: "truthy (JObj old)" using t jo Some by simp
    from run jo tr u(1) have p: "p = jget old ''parentId''" "p = JNull \<or> in_dict p messages = Some True"
      and role: "jget old ''role'' = JStr ''user''"
      and m: "m = (if has_key ''models'' user_message \<and> user_of old item = JStr user_id
                   then AList.update ''models'' (jget user_message ''models'') old else old)"
      by (auto simp: turn_user_message_def Let_def raised_def bind_result_def split: if_splits option.splits sum.splits)
    have same: "map_of m k = map_of old k" "jget m k = jget old k" if "k \<noteq> ''models''" for k
      using that unfolding m by (simp_all add: jget_def)
    have od: "distinct (map fst old)" "map_of old ''parent_id'' = None" using old by (simp_all add: node_ok_def Let_def del: map_of_eq_Some_iff)
    have no: "nul_free (JObj old)" using nul_free_map_of [OF n(1) Some] old(1) by simp
    have "nul_free (JObj m)"
      unfolding m using no nul_free_update [OF _ nul_free_jget [OF um(2)] no, of "''models''"] by (simp del: nul_free.simps)
    moreover have "repeats m old" by (auto simp: repeats_def tree_keys_def same)
    moreover have "distinct (map fst m)" using od(1) by (simp add: m)
    ultimately show ?thesis
      using u(2) Some old(1) od(2) same p role key_in_messages [OF _ ok] by (auto simp: save_ok_def known_parent_def)
  qed
  then show "save_ok messages u m" "nul_free (JObj m)" "known_parent messages p"
    "jget m ''parentId'' = p" "jget m ''role'' = JStr ''user''" "map_of messages u = None \<Longrightarrow> jget user_message ''parentId'' = p"
    by blast+
qed


subsection \<open>The turn\<close>

lemma check_replies_all:
  "check_replies item user_id user_message messages ids = Inr () \<Longrightarrow> v \<in> set ids \<Longrightarrow>
     reply_taken item user_id user_message (jget messages (key v)) = Inr False"
  by (induction ids) (auto simp: bind_result_def split: sum.splits if_splits)

lemma reply_ready_checked:
  assumes ok: "tree_ok messages" and taken: "reply_taken item user_id user_message (jget messages mid) = Inr False"
    and mid: "mid \<noteq> []" and p: "p = jget user_message ''id''" "user_message \<noteq> [] \<Longrightarrow> is_id p"
    and stored: "case map_of messages mid of None \<Rightarrow> True
      | Some v \<Rightarrow> kids v = [] \<and> (user_message = [] \<longrightarrow> parent_of v = None)"
  shows "reply_ready messages p mid"
proof (cases "map_of messages mid")
  case None
  then show ?thesis using mid by (simp add: reply_ready_def)
next
  case (Some v)
  obtain m where m: "v = JObj m" "node_ok mid v" using tree_ok_stored [OF ok Some] by metis
  have "truthy (JObj m)" using stored_truthy [OF ok, of mid] Some m(1) by (simp add: jget_map_of)
  then have t: "jget m ''role'' = JStr ''assistant''" "user_message \<noteq> [] \<Longrightarrow> py_eq (jget m ''parentId'') (jget user_message ''id'')"
    using taken Some m(1) by (auto simp: reply_taken_def raised_def bind_result_def jget_map_of split: if_splits)
  have "jget m ''parentId'' = p"
  proof (cases "user_message = []")
    case True
    then show ?thesis using stored Some node_ok_parent(1) [OF m(2)] m(1) p(1) by (simp add: jget_def)
  next
    case False
    then show ?thesis
      using t(2) node_ok_parent(1) [OF m(2)] m(1) p by (auto simp: is_id_iff split: option.splits)
  qed
  then show ?thesis using mid Some m(1) t(1) stored by (simp add: reply_ready_def)
qed

lemma is_id_keys: "list_all is_id ids \<Longrightarrow> map JStr (map key ids) = ids \<and> (\<forall>v \<in> set ids. key v \<noteq> [])"
  by (induction ids) (auto simp: is_id_iff)

text \<open>What a successful turn makes of the history and the rows.\<close>

definition turn_result ::
  "json dict \<Rightarrow> json \<Rightarrow> json dict \<Rightarrow> string list \<Rightarrow> json dict \<Rightarrow> json \<Rightarrow> bool" where
  "turn_result messages current user_message rids messages' current' \<longleftrightarrow>
     (let u = key (jget user_message ''id'');
          asked = (if user_message = [] \<or> has_key u messages then [] else [(u, parent_of (JObj user_message))]);
          added = asked @ new_edges messages (jget user_message ''id'') rids
      in tree messages' = tree messages @ added \<and> current' = (if added = [] then current else JStr (fst (last added))))"

lemma save_turn_step:
  assumes ok: "tree_ok messages" and h: "jget history ''messages'' = JObj messages"
    and s: "stored_or_none messages (jget history ''currentId'')" "nul_free (JObj history)" "nul_free (JObj messages)"
      "rows_match {} c messages rs"
    and um: "distinct (map fst user_message)" "nul_free (JObj user_message)" "\<not> has_key ''parent_id'' user_message"
      "CHR 0x00 \<notin> set user_id" "CHR 0x00 \<notin> set user_name"
    and entries: "\<And>entry. entry \<in> set entries \<Longrightarrow> nul_free (JObj entry)"
    and ids: "rids = map (\<lambda>entry. jget entry ''message_id'') entries"
      "list_all is_id (if user_message = [] then rids else jget user_message ''id'' # rids)"
      "distinct (if user_message = [] then rids else jget user_message ''id'' # rids)"
    and ready: "\<And>mid. mid \<in> set (map key rids) \<Longrightarrow> reply_ready messages (jget user_message ''id'') mid"
    and msg: "(if user_message = [] then Inr (None, JNull)
           else map_sum id (\<lambda>(m, p). (Some m, p)) (turn_user_message e item user_id user_name messages user_message)) = Inr (message, parent_id)"
    and run: "save_turn e user_id user_message message entries history = Some history'"
  shows "\<exists>messages'. jget history' ''messages'' = JObj messages' \<and> tree_ok messages' \<and>
    stored_or_none messages' (jget history' ''currentId'') \<and> nul_free (JObj history') \<and>
    rows_match (key ` set (if user_message = [] then rids else jget user_message ''id'' # rids)) c messages' rs \<and>
    fst ` set messages' = key ` set (if user_message = [] then rids else jget user_message ''id'' # rids) \<union> fst ` set messages \<and>
    turn_result messages (jget history ''currentId'') user_message (map key rids) messages' (jget history' ''currentId'') \<and>
    keeps_messages messages messages' (key ` set (if user_message = [] then rids else jget user_message ''id'' # rids))"
proof -
  let ?p = "jget user_message ''id''" and ?mids = "map key rids"
  have rj: "map JStr ?mids = rids" and rd: "distinct rids"
    using is_id_keys [of rids] ids(2,3) by (auto split: if_splits)
  have dm: "distinct ?mids" using rj rd distinct_map [of JStr ?mids] by metis
  have ej: "map (\<lambda>entry. jget entry ''message_id'') entries = map JStr ?mids" using rj ids(1) by metis
  show ?thesis
  proof (cases "user_message = []")
    case True
    then have m: "message = None" "parent_id = JNull" using msg by auto
    have p: "?p = JNull" using True by simp
    have r: "save_replies e user_id ?p entries history = Some history'" using run m(1) by (simp add: save_turn_def)
    have "key ?p \<notin> set ?mids" using is_id_keys [of rids] ids(2) True by auto
    from save_replies_step [OF r ok h ej dm ready _ this s(4,1,2) entries _ um(4)] p show ?thesis
      using True by (auto simp: known_parent_def turn_result_def new_edges_def last_map split: list.splits)
  next
    case False
    then obtain u where u: "?p = JStr u" "u \<noteq> []" using ids(2) by (auto simp: is_id_iff)
    obtain m where m: "message = Some m" "turn_user_message e item user_id user_name messages user_message = Inr (m, parent_id)"
      using msg False by (cases "turn_user_message e item user_id user_name messages user_message") auto
    note um' = user_message_ok [OF ok u um(1-3) s(3) um(4,5) m(2)]
    obtain h1 saved where h1: "upsert_message_to_history (now e) history u m = Some (h1, saved)"
      and r: "save_replies e user_id ?p entries h1 = Some history'"
      using run m(1) u(1) clean_id [OF um'(2)] by (auto simp: save_turn_def bind_eq_Some_conv)
    obtain M where M: "jget h1 ''messages'' = JObj M" using upsert_messages_defined [OF h1] ..
    note st = upsert_rows [OF ok h um'(1) h1 M s(4,1)]
    have u0: "CHR 0x00 \<notin> set u" using nul_free_jget [OF um(2), of "''id''"] u(1) by simp
    have n1: "nul_free (JObj h1)" by (rule nul_free_upsert(1) [OF h1 s(2) um'(2) u0])
    have "JStr u \<notin> set rids" using ids(3) False u(1) by simp
    then have "JStr u \<notin> JStr ` set ?mids" by (simp only: set_map [symmetric] rj not_False_eq_True)
    then have ur: "u \<notin> set ?mids" by blast
    have new: "map_of messages mid = None" if "mid \<in> set ?mids" "map_of messages u = None" for mid
    proof (rule ccontr)
      assume "map_of messages mid \<noteq> None"
      then obtain v where v: "map_of messages mid = Some v" by auto
      then have jp: "jget (dict_of v) ''parentId'' = JStr u" using ready [OF that(1)] u(1) by (simp add: reply_ready_def)
      then have "parent_of v = Some u" by (simp add: parent_of_def)
      with parent_stored [OF ok map_of_SomeD [OF v]] that(2) show False by (metis option.distinct(1))
    qed
    have ready1: "reply_ready M ?p mid" if mid: "mid \<in> set ?mids" for mid
    proof -
      have "mid \<noteq> u" using ur mid by blast
      have "map_of M mid = map_of messages mid"
      proof (cases "map_of messages u = None \<and> parent_of (JObj m) = Some mid")
        case True
        then have "map_of messages mid = None" using new mid by blast
        moreover have "map_of messages mid \<noteq> None" using True um'(1) by (auto simp: save_ok_def new_ok_def parent_of_def split: json.splits)
        ultimately show ?thesis by blast
      next
        case False
        then show ?thesis using st(9) [OF \<open>mid \<noteq> u\<close>] by auto
      qed
      with ready [OF mid] show ?thesis by (rule reply_ready_kept)
    qed
    have kp: "known_parent M ?p" using u st(3) unfolding known_parent_def has_key_iff by (simp add: is_id_def)
    have "key ?p \<notin> set ?mids" using ur u(1) by simp
    from save_replies_step [OF r st(1) M ej dm ready1 kp this st(6,2) n1 entries _ um(4)] u0 u(1)
    obtain messages' where res: "jget history' ''messages'' = JObj messages'" "tree_ok messages'"
      "stored_or_none messages' (jget history' ''currentId'')" "nul_free (JObj history')"
      "rows_match (set ?mids \<union> {u}) c messages' rs" "fst ` set messages' = set ?mids \<union> fst ` set M"
      "tree messages' = tree M @ new_edges M ?p ?mids" "keeps_messages M messages' (set ?mids)"
      "jget history' ''currentId'' = (case filter (\<lambda>mid. mid \<notin> fst ` set M) ?mids of
        [] \<Rightarrow> jget h1 ''currentId'' | ms \<Rightarrow> JStr (last ms))"
      by auto
    have ids': "key ` set (if user_message = [] then rids else ?p # rids) = set ?mids \<union> {u}" using False u(1) by auto
    have "filter (\<lambda>mid. mid \<notin> fst ` set M) ?mids = filter (\<lambda>mid. mid \<notin> fst ` set messages) ?mids"
      using st(3) ur by (intro filter_cong) auto
    note fM = this
    then have ne: "new_edges M ?p ?mids = new_edges messages ?p ?mids" by (simp add: new_edges_def)
    have "map_of messages u = None \<Longrightarrow> parent_of (JObj m) = parent_of (JObj user_message)" using um'(4,6) by (simp add: parent_of_def)
    moreover have "jget history' ''currentId'' = (if new_edges messages ?p ?mids = [] then jget h1 ''currentId''
        else JStr (fst (last (new_edges messages ?p ?mids))))"
      using res(9) fM by (simp add: new_edges_def last_map split: list.splits)
    ultimately have "turn_result messages (jget history ''currentId'') user_message ?mids messages' (jget history' ''currentId'')"
      using res(7) st(7,8) ne False u(1) by (simp add: turn_result_def Let_def)
    moreover have "keeps_messages messages messages' (set ?mids \<union> {u})"
      by (rule keeps_messages_trans [OF upsert_keeps [OF st(9)] res(8)]) auto
    ultimately show ?thesis
      using res(1-6) st(3) unfolding ids' by (intro exI [of _ messages']) (simp del: nul_free.simps)
  qed
qed


lemma bind_Inr: "bind_result r f = Inr y \<longleftrightarrow> (\<exists>x. r = Inr x \<and> f x = Inr y)"
  by (cases r) (auto simp: bind_result_def)

lemma raised_Inr: "raised x = Inr y \<longleftrightarrow> x = Some y"
  by (auto simp: raised_def split: option.splits)

lemma if_Inl_Inr: "(if b then Inl err else r) = Inr y \<longleftrightarrow> \<not> b \<and> r = Inr y"
  by simp

lemma stored_reply_checked:
  assumes "turns d i user_id user_name user_message entries" "map_of (chats d) i = Some item" "ci_chat item = JObj chat"
    and "entry \<in> set entries"
  shows "case map_of (chat_messages chat) (key (jget entry ''message_id'')) of None \<Rightarrow> True
      | Some v \<Rightarrow> kids v = [] \<and> (user_message = [] \<longrightarrow> parent_of v = None)"
  using assms by (simp add: turns_def list_all_iff)

lemma turn_body_step:
  assumes ok: "chats_ok n d" and t: "turns d i user_id user_name user_message entries" and i: "map_of (chats d) i = Some item"
    and run: "turn_body e i user_id user_name user_message entries item (rows d) = Inr (answer, item', rs')"
  obtains chat chat' history' messages' where "item_step n i (rows d) item' rs'" "ci_chat item = JObj chat" "ci_chat item' = JObj chat'"
    "jget chat' ''history'' = JObj history'" "jget history' ''messages'' = JObj messages'"
    "turn_result (chat_messages chat) (chat_current chat) user_message
       (map (\<lambda>entry. key (jget entry ''message_id'')) entries) messages' (chat_current chat')"
    "keeps_messages (chat_messages chat) messages'
       ((if user_message = [] then {} else {key (jget user_message ''id'')}) \<union> (\<lambda>entry. key (jget entry ''message_id'')) ` set entries)"
    "snd answer = chat_current chat'"
proof -
  note item = chats_ok_item [OF ok i]
  let ?rids = "map (\<lambda>entry. jget entry ''message_id'') entries"
  let ?ids = "if user_message = [] then ?rids else jget user_message ''id'' # ?rids"
  from run obtain chat h0 m0 message parent_id history' current where c: "chat_data item = Some chat"
    and h0: "dict (jor (jget chat ''history'') (JObj [(''messages'', JObj []), (''currentId'', JNull)])) = Some h0"
    and m0: "dict (jor (jget h0 ''messages'') (JObj [])) = Some m0"
    and ids: "list_all is_id ?ids" "distinct ?ids"
    and check: "check_replies item user_id user_message m0 ?rids = Inr ()"
    and msg: "(if user_message = [] then Inr (None, JNull)
           else map_sum id (\<lambda>(m, p). (Some m, p)) (turn_user_message e item user_id user_name m0 user_message)) = Inr (message, parent_id)"
    and save: "save_turn e user_id user_message message entries h0 = Some history'"
    and cur: "map_of history' ''currentId'' = Some current" "snd answer = current"
    and save_rows: "save_message_rows e i (item\<lparr>ci_chat := JObj (AList.update ''history'' (JObj history') chat),
               ci_current_message_id := current, ci_updated_at := now e\<rparr>)
        (map (\<lambda>v. (key v, jget (dict_of (jget history' ''messages'')) (key v))) ?ids) (rows d) = Some rs'"
    and ci: "ci_chat item' = JObj (AList.update ''history'' (JObj history') chat)"
    unfolding turn_body_def Let_def bind_Inr raised_Inr if_Inl_Inr de_Morgan_disj not_not
      split_paired_Ex prod.case bind_eq_Some_conv option.inject prod.inject
    by clarify (rule that, assumption, assumption, assumption, assumption, assumption, simp, assumption+, simp, assumption, simp)
  obtain history messages where p: "ci_chat item = JObj chat" "chat_ok chat"
    "jget chat ''history'' = JObj history" "jget history ''messages'' = JObj messages" "tree_ok messages"
    "stored_or_none messages (jget history ''currentId'')" "nul_free (JObj history)" "nul_free (JObj messages)"
    "rows_match {} i messages (rows d)" "row_ids i (rows d) = fst ` set messages"
    using item_okE [OF item(3) c] .
  have nc: "nul_free (JObj chat)" using p(2) by (simp add: chat_ok_def)
  have "history \<noteq> []" using p(4) by auto
  then have "h0 = history" using h0 p(3) by (simp add: jor_def)
  then have m0: "m0 = messages" "h0 = history" using m0 p(4) by (cases "messages = []"; simp add: jor_def)+
  have um: "distinct (map fst user_message)" "nul_free (JObj user_message)" "\<not> has_key ''parent_id'' user_message"
      "CHR 0x00 \<notin> set user_id" "CHR 0x00 \<notin> set user_name"
    using t by (simp_all add: turns_def)
  have entries: "nul_free (JObj entry)" if "entry \<in> set entries" for entry
    using t that unfolding turns_def list_all_iff by blast
  have ready: "reply_ready messages (jget user_message ''id'') mid" if mid: "mid \<in> set (map key ?rids)" for mid
  proof -
    obtain entry where entry: "entry \<in> set entries" "mid = key (jget entry ''message_id'')" using mid by auto
    have v: "jget entry ''message_id'' \<in> set ?rids" using entry(1) by simp
    have "reply_taken item user_id user_message (jget messages mid) = Inr False"
      using check_replies_all [OF check v] m0(1) entry(2) by simp
    moreover have "mid \<noteq> []" using ids(1) entry by (auto simp: list_all_iff is_id_iff split: if_splits)
    moreover have "user_message \<noteq> [] \<Longrightarrow> is_id (jget user_message ''id'')" using ids(1) by simp
    ultimately show ?thesis
      using reply_ready_checked [OF p(5) _ _ refl] stored_reply_checked [OF t i p(1) entry(1)] p(3,4) entry(2) by simp
  qed
  obtain messages' where st: "jget history' ''messages'' = JObj messages'" "tree_ok messages'"
    "stored_or_none messages' (jget history' ''currentId'')" "nul_free (JObj history')"
    "rows_match (key ` set ?ids) i messages' (rows d)"
    "fst ` set messages' = key ` set ?ids \<union> fst ` set messages"
    "turn_result messages (jget history ''currentId'') user_message (map key ?rids) messages' (jget history' ''currentId'')"
    "keeps_messages messages messages' (key ` set ?ids)"
    using save_turn_step [OF p(5,4,6,7,8,9) um entries refl ids ready msg [unfolded m0] save [unfolded m0]] by blast
  have stored: "map_of messages' mid = Some v \<and> fields_ok mid v"
    if "(mid, v) \<in> set (map (\<lambda>v. (key v, jget (dict_of (jget history' ''messages'')) (key v))) ?ids)" for mid v
  proof -
    have "mid \<in> fst ` set messages'" "v = jget messages' mid" using that st(1,6) by auto
    then obtain w where "map_of messages' mid = Some w" by (metis map_of_eq_None_iff not_None_eq)
    moreover from this have "node_ok mid w" using tree_ok_stored [OF st(2)] by metis
    ultimately show ?thesis using node_ok_fields \<open>v = jget messages' mid\<close> by (simp add: jget_map_of)
  qed
  have start: "rows_step n i (key ` set ?ids) messages' (rows d) (rows d)" using rows_step_start [OF item(2) st(5)] .
  note step = save_message_rows_step [OF save_rows item(1) stored start]
  have f: "fst ` set (map (\<lambda>v. (key v, jget (dict_of (jget history' ''messages'')) (key v))) ?ids) = key ` set ?ids"
    by (simp only: set_map image_image fst_conv)
  have "item_step n i (rows d) item' rs'"
    by (rule finish_item [OF ci _ st(1,2,3) nul_free_history [OF nc st(4)]]) (use step f st(6) p(10) in auto)
  moreover have "jget history' ''currentId'' = current" using cur(1) by (rule jget_map_of)
  moreover have "key ` set ?ids = (if user_message = [] then {} else {key (jget user_message ''id'')}) \<union> (\<lambda>entry. key (jget entry ''message_id'')) ` set entries"
    by auto
  moreover have "map key ?rids = map (\<lambda>entry. key (jget entry ''message_id'')) entries" by simp
  ultimately show ?thesis
    using that [OF _ p(1) ci, of history' messages'] st p(3,4) cur(2) by (simp add: o_def del: nul_free.simps)
qed

end
