(* ===== verification/ChatReads.thy ===== *)
theory ChatReads
  imports ChatOps AccessControl ToolCalls
begin

text \<open>
  Reading the messages of a chat (\<open>models/chats.py\<close>): from the rows when the chat has any, completed
  from the history where the rows refer to messages they lack, and from the history otherwise; what
  was only in the history is written back to the rows. And who may read or continue a chat.
\<close>

subsection \<open>A chat\<close>

text \<open>The chat as clients get it, cleaned and repaired; \<open>None\<close> for a missing chat and an exception.\<close>

definition get_chat_by_id :: "chat_env \<Rightarrow> string \<Rightarrow> chat_db \<Rightarrow> chat_item option" where
  "get_chat_by_id e i d = do {
     item \<leftarrow> map_of (chats d) i;
     chat \<leftarrow> dict (ci_chat item);
     (repaired, changed) \<leftarrow> repair_chat_current_id (clean chat);
     if valid_chat e item then Some (item\<lparr>ci_chat := JObj repaired\<rparr>) else None }"

definition history_messages :: "chat_item \<Rightarrow> json dict option" where
  "history_messages item = do {
     chat \<leftarrow> dict (ci_chat item);
     history \<leftarrow> dict (jget_default chat ''history'' (JObj []));
     dict (jor (jget history ''messages'') (JObj [])) }"

subsection \<open>All messages\<close>

definition backfill_messages_by_chat_id ::
  "chat_env \<Rightarrow> string \<Rightarrow> string \<Rightarrow> (string \<times> json) list \<Rightarrow> message_row list \<Rightarrow> message_row list" where
  "backfill_messages_by_chat_id e i user_id messages rs =
     (case upsert_messages (store_env.truncate e) i (JStr user_id)
        (filter (\<lambda>(mid, v). is_dict v \<and> truthy (jget (dict_of v) ''role'')) messages) rs of
        None \<Rightarrow> rs | Some rs \<Rightarrow> rs)"

definition named_messages :: "json list \<Rightarrow> json dict \<Rightarrow> (string \<times> json) list" where
  "named_messages ids messages =
     List.map_filter (\<lambda>i. map_option (Pair (key i)) (if is_str i then map_of messages (key i) else None)) ids"

definition get_messages_map_by_chat_id ::
  "chat_env \<Rightarrow> string \<Rightarrow> chat_db \<Rightarrow> (json dict option \<times> chat_db) option" where
  "get_messages_map_by_chat_id e i d = do {
     from_rows \<leftarrow> row_messages_map i (rows d);
     (case from_rows of
        Some messages_map \<Rightarrow> do {
          unresolved_ids \<leftarrow> get_unresolved_parent_ids messages_map;
          if unresolved_ids = [] then Some (Some messages_map, d)
          else case get_chat_by_id e i d of
            None \<Rightarrow> Some (Some messages_map, d)
          | Some item \<Rightarrow> do {
              history \<leftarrow> history_messages item;
              let missing_messages = named_messages unresolved_ids history;
              Some (Some (dict_merge messages_map missing_messages),
                if missing_messages = [] then d
                else d\<lparr>rows := backfill_messages_by_chat_id e i (ci_user_id item) missing_messages (rows d)\<rparr>) } }
      | None \<Rightarrow>
          (case get_chat_by_id e i d of
             None \<Rightarrow> Some (None, d)
           | Some item \<Rightarrow> do {
               history \<leftarrow> history_messages item;
               Some (Some history,
                 if history = [] then d
                 else d\<lparr>rows := backfill_messages_by_chat_id e i (ci_user_id item) history (rows d)\<rparr>) })) }"

subsection \<open>Who may open a chat\<close>

text \<open>
  What the decision reads: the share of the chat (its mode, if it is shared), the folder of the chat,
  and the setting that lets administrators read chats.
\<close>

record chat_access =
  ca_meta :: json
  ca_shared_mode :: "json option"
  ca_folder_id :: "string option"
  ca_admin_access :: bool

definition is_internal_chat :: "json \<Rightarrow> bool" where
  "is_internal_chat meta \<longleftrightarrow> jget (dict_of meta) ''internal'' = JBool True"

definition get_accessible_chat_by_id ::
  "chat_access \<Rightarrow> db \<Rightarrow> string \<Rightarrow> chat_item \<Rightarrow> user_row \<Rightarrow> string \<Rightarrow> bool" where
  "get_accessible_chat_by_id a d i chat user permission =
     (if u_role user \<notin> {''user'', ''admin''} then False
      else if ci_user_id chat = u_id user \<or>
        u_role user = ''admin'' \<and> permission = ''read'' \<and> (ca_admin_access a \<or> is_internal_chat (ca_meta a)) then True
      else if ca_shared_mode a = Some (JStr ''continue'') \<and> has_access d (u_id user) ''shared_chat'' i ''read'' None then True
      else case ca_folder_id a of None \<Rightarrow> False
        | Some f \<Rightarrow> f \<noteq> [] \<and>
            (case get_folder_by_id d f of None \<Rightarrow> False
             | Some folder \<Rightarrow>
                 (permission = ''read'' \<or> jget (dict_of (f_data folder)) ''share_mode'' = JStr ''continue'') \<and>
                 has_folder_access d (u_id user) folder ''read''))"

text \<open>A turn of a user, with the check the request starts with.\<close>

definition continue_chat ::
  "chat_env \<Rightarrow> chat_access \<Rightarrow> db \<Rightarrow> string \<Rightarrow> user_row \<Rightarrow> json dict \<Rightarrow> json dict list \<Rightarrow> chat_db
     \<Rightarrow> (json dict \<times> json) result \<times> chat_db" where
  "continue_chat e a d i user user_message message_ids s =
     insert_chat_turn e i
       (case get_chat_by_id e i s of None \<Rightarrow> False
        | Some chat \<Rightarrow> get_accessible_chat_by_id a d i chat user ''write'')
       (u_id user) (u_name user) user_message message_ids s"

subsection \<open>Who may create a chat\<close>

text \<open>\<open>D\<close> and \<open>defaults\<close> are the default permissions of the program and of the configuration.\<close>

definition require_chat_creation_permission :: "json dict \<Rightarrow> json dict \<Rightarrow> db \<Rightarrow> string \<Rightarrow> unit result" where
  "require_chat_creation_permission D defaults d user_id =
     (case List.find (\<lambda>u. u_id u = user_id) (user_t d) of
        None \<Rightarrow> Inl (HTTPException 403 access_prohibited)
      | Some user \<Rightarrow>
          if u_role user = ''admin'' then Inr ()
          else bind_result (get_permissions D d user_id defaults) (\<lambda>permissions.
            case jget_default permissions ''chat'' (JObj []) of
              JObj chat_permissions \<Rightarrow>
                if truthy (jget chat_permissions ''temporary'') \<and> truthy (jget chat_permissions ''temporary_enforced'')
                then Inl (HTTPException 403 access_prohibited) else Inr ()
            | _ \<Rightarrow> Inl AttributeError))"

definition create_chat ::
  "chat_env \<Rightarrow> json dict \<Rightarrow> json dict \<Rightarrow> db \<Rightarrow> string \<Rightarrow> string \<Rightarrow> json dict \<Rightarrow> chat_db \<Rightarrow> chat_item result \<times> chat_db" where
  "create_chat e D defaults d i user_id chat s =
     (case require_chat_creation_permission D defaults d user_id of
        Inl err \<Rightarrow> (Inl err, s)
      | Inr _ \<Rightarrow> (raised (fst (insert_new_chat e i user_id chat s)), snd (insert_new_chat e i user_id chat s)))"

end
