(* ===== verification/ChatRun.thy ===== *)
theory ChatRun
  imports ChatTurn ChatReads
begin

text \<open>
  The states a chat server reaches: the operations on chats as steps, each with what its caller
  respects, and the invariant of every reachable state.
\<close>

lemma turn_keeps:
  assumes ok: "chats_ok n d" and t: "turns d i user_id user_name user_message entries"
  shows "chats_ok n (snd (insert_chat_turn e i accessible user_id user_name user_message entries d))"
proof (cases "accessible \<and> map_of (chats d) i \<noteq> None")
  case False
  then show ?thesis using ok by (auto simp: insert_chat_turn_def)
next
  case True
  then obtain item where item: "accessible" "map_of (chats d) i = Some item" by blast
  show ?thesis
  proof (cases "turn_body e i user_id user_name user_message entries item (rows d)")
    case (Inl err)
    then show ?thesis using ok item by (simp add: insert_chat_turn_def)
  next
    case (Inr y)
    obtain answer item' rs' where y: "y = (answer, item', rs')" by (cases y)
    then have run: "turn_body e i user_id user_name user_message entries item (rows d) = Inr (answer, item', rs')" using Inr by simp
    have "item_step n i (rows d) item' rs'" by (rule turn_body_step [OF ok t item(2) run])
    then have "chats_ok n \<lparr>chats = AList.update i item' (chats d), rows = rs'\<rparr>"
      using chats_ok_put [OF ok chats_ok_item(1) [OF ok item(2)]] by blast
    then show ?thesis using item run by (simp add: insert_chat_turn_def)
  qed
qed

subsection \<open>Reachable states\<close>

inductive chat_write :: "nat \<Rightarrow> chat_db \<Rightarrow> chat_db \<Rightarrow> bool" for n where
  create: "creates n e i u chat \<Longrightarrow> chat_write n d (snd (insert_new_chat e i u chat d))"
| turn: "turns d i user_id user_name user_message entries \<Longrightarrow>
    chat_write n d (snd (insert_chat_turn e i accessible user_id user_name user_message entries d))"
| save: "saves d i mid message \<Longrightarrow>
    chat_write n d (snd (upsert_message_to_chat_by_id_and_message_id e i mid message bump d))"
| update: "updates d i chat \<Longrightarrow> chat_write n d (snd (update_chat_by_id e i chat bump d))"
| status: "chat_write n d (snd (add_message_status_to_chat_by_id_and_message_id e i mid status d))"
| files: "list_all nul_free files \<Longrightarrow> chat_write n d (snd (add_message_files_by_id_and_message_id e i mid files d))"
| edit: "edits d i mid edit \<Longrightarrow> chat_write n d (snd (edit_message_output e i mid (edit :: json dict option \<Rightarrow> (unit \<times> json dict) result) d))"
| params: "chat_write n d (snd (update_chat_params_by_id e i params d))"
| title: "chat_write n d (snd (update_chat_title_by_id e i title d))"

text \<open>The deletions: of a message, of a chat by an administrator or its owner, of all chats of a user.\<close>

inductive chat_step :: "nat \<Rightarrow> chat_db \<Rightarrow> chat_db \<Rightarrow> bool" for n where
  written: "chat_write n d d' \<Longrightarrow> chat_step n d d'"
| delete: "chat_step n d (snd (delete_message_from_chat_by_id_and_message_id e i mid d))"
| delete_chat: "chat_step n d (delete_chat_by_id i d)"
| delete_own: "case map_of (chats d) i of None \<Rightarrow> True | Some item \<Rightarrow> ci_user_id item = u \<Longrightarrow>
    chat_step n d (delete_chat_by_id_and_user_id i u d)"
| delete_all: "chat_step n d (delete_chats_by_user_id u d)"

lemma write_keeps: "chat_write n d d' \<Longrightarrow> chats_ok n d \<Longrightarrow> chats_ok n d'"
  by (induction rule: chat_write.induct)
    (simp_all add: create_keeps turn_keeps save_keeps update_keeps status_keeps files_keep edit_keeps params_keep title_keeps)

text \<open>Removing chats together with exactly their rows.\<close>

lemma item_ok_own:
  assumes "filter (\<lambda>r. mr_chat_id r = i) rs' = filter (\<lambda>r. mr_chat_id r = i) rs"
  shows "item_ok i item rs' = item_ok i item rs"
proof -
  have "r \<in> set rs' \<and> mr_chat_id r = i \<longleftrightarrow> r \<in> set rs \<and> mr_chat_id r = i" for r
    using arg_cong [OF assms, of set] by auto
  then have "rows_match {} i messages rs' = rows_match {} i messages rs" "row_ids i rs' = row_ids i rs" for messages
    by (auto simp: rows_match_def row_ids_def)
  then show ?thesis by (simp add: item_ok_def cong: json.case_cong)
qed

lemma removed_keeps:
  assumes ok: "chats_ok n d"
  shows "chats_ok n \<lparr>chats = filter (\<lambda>(j, item). j \<notin> X) (chats d), rows = filter (\<lambda>r. mr_chat_id r \<notin> X) (rows d)\<rparr>"
proof -
  let ?cs = "filter (\<lambda>(j, item). j \<notin> X) (chats d)" and ?rs = "filter (\<lambda>r. mr_chat_id r \<notin> X) (rows d)"
  have "item_ok j item ?rs" if "(j, item) \<in> set ?cs" for j item
  proof -
    have "filter (\<lambda>r. mr_chat_id r = j) ?rs = filter (\<lambda>r. mr_chat_id r = j) (rows d)"
      using that by (auto simp: filter_filter intro!: filter_cong)
    moreover have "item_ok j item (rows d)" using that ok by (auto simp: chats_ok_def)
    ultimately show ?thesis using item_ok_own by blast
  qed
  moreover have "mr_chat_id ` set ?rs \<subseteq> fst ` set ?cs"
    using ok by (force simp: chats_ok_def)
  ultimately show ?thesis
    using ok by (auto simp: chats_ok_def rows_shape_def distinct_map_filter list_all_iff)
qed

lemma delete_chat_keeps: "chats_ok n d \<Longrightarrow> chats_ok n (delete_chat_by_id i d)"
  using removed_keeps [of n d "{i}"] by (simp add: delete_chat_by_id_def)

lemma delete_own_keeps:
  assumes "chats_ok n d" "case map_of (chats d) i of None \<Rightarrow> True | Some item \<Rightarrow> ci_user_id item = u"
  shows "chats_ok n (delete_chat_by_id_and_user_id i u d)"
proof -
  have "map_of (chats d) j = Some item" if "(j, item) \<in> set (chats d)" for j item
    using assms(1) that by (simp add: chats_ok_def)
  then have "filter (\<lambda>(j, item). \<not> (j = i \<and> ci_user_id item = u)) (chats d) = filter (\<lambda>(j, item). j \<noteq> i) (chats d)"
    using assms(2) by (intro filter_cong) force+
  then show ?thesis
    using delete_chat_keeps [OF assms(1), of i] by (simp add: delete_chat_by_id_and_user_id_def delete_chat_by_id_def)
qed

lemma delete_all_keeps:
  assumes "chats_ok n d" shows "chats_ok n (delete_chats_by_user_id u d)"
proof -
  let ?X = "set (map fst (filter (\<lambda>(j, item). ci_user_id item = u) (chats d)))"
  have d: "distinct (map fst (chats d))" using assms by (simp add: chats_ok_def)
  have "j \<in> ?X \<longleftrightarrow> ci_user_id item = u" if item: "(j, item) \<in> set (chats d)" for j item
  proof
    assume "j \<in> ?X"
    then obtain item' where item': "(j, item') \<in> set (chats d)" "ci_user_id item' = u" by auto
    have "item' = item" by (rule eq_key_imp_eq_value [OF d item'(1) item])
    with item'(2) show "ci_user_id item = u" by simp
  next
    assume "ci_user_id item = u"
    with item have "(j, item) \<in> set (filter (\<lambda>(j, item). ci_user_id item = u) (chats d))" by simp
    then show "j \<in> ?X" unfolding set_map by (rule rev_image_eqI) simp
  qed
  then have "filter (\<lambda>(j, item). ci_user_id item \<noteq> u) (chats d) = filter (\<lambda>(j, item). j \<notin> ?X) (chats d)"
    by (intro filter_cong) auto
  then show ?thesis using removed_keeps [OF assms, of ?X] by (simp add: delete_chats_by_user_id_def Let_def)
qed

lemma step_keeps: "chat_step n d d' \<Longrightarrow> chats_ok n d \<Longrightarrow> chats_ok n d'"
  by (induction rule: chat_step.induct) (simp_all add: write_keeps delete_keeps delete_chat_keeps delete_own_keeps delete_all_keeps)

abbreviation chat_reachable :: "nat \<Rightarrow> chat_db \<Rightarrow> chat_db \<Rightarrow> bool" where
  "chat_reachable n \<equiv> (chat_step n)\<^sup>*\<^sup>*"

lemma reachable_keeps: "chat_reachable n d d' \<Longrightarrow> chats_ok n d \<Longrightarrow> chats_ok n d'"
  by (induction rule: rtranclp_induct) (auto intro: step_keeps)

definition no_chats :: chat_db where
  "no_chats = \<lparr>chats = [], rows = []\<rparr>"

lemma no_chats_ok: "chats_ok n no_chats"
  by (simp add: chats_ok_def no_chats_def rows_shape_def)

subsection \<open>Rows are only lost by deletion\<close>

text \<open>Every operation but the deletion of a message leaves a row under every key that had one.\<close>

definition row_keys :: "message_row list \<Rightarrow> string set" where
  "row_keys rs = mr_id ` set rs"

lemma put_row_keys: "row_keys (put_row row rs) = insert (mr_id row) (row_keys rs)"
  by (auto simp: row_keys_def put_row_set)

lemma upsert_row_keys: "upsert_message e mid i u data rs = Some rs' \<Longrightarrow> row_keys rs \<subseteq> row_keys rs'"
  by (auto simp: upsert_message_def bind_eq_Some_conv put_row_keys split: if_splits)

lemma save_row_keys: "save_message_row e i item m rs = Some rs' \<Longrightarrow> row_keys rs \<subseteq> row_keys rs'"
  by (auto simp: save_message_row_def bind_eq_Some_conv dest: upsert_row_keys)

lemma save_rows_keys: "save_message_rows e i item ms rs = Some rs' \<Longrightarrow> row_keys rs \<subseteq> row_keys rs'"
proof (induction ms arbitrary: rs)
  case (Cons m ms)
  then obtain rs1 where rs1: "save_message_row e i item m rs = Some rs1" "save_message_rows e i item ms rs1 = Some rs'"
    by (auto simp: bind_eq_Some_conv)
  from save_row_keys [OF rs1(1)] Cons.IH [OF rs1(2)] show ?case by (rule subset_trans)
qed simp

lemma initial_rows_keys: "row_keys rs \<subseteq> row_keys (write_initial_rows e i u ms rs)"
proof (induction ms arbitrary: rs)
  case (Cons x ms)
  obtain mid v where x: "x = (mid, v)" by (cases x)
  have "row_keys rs \<subseteq> row_keys (write_initial_rows e i u ms rs1)"
    if "upsert_message (store_env.truncate e) (py_str mid) i (initial_author (dict_of v) u) (dict_of v) rs = Some rs1" for rs1
    using upsert_row_keys [OF that] Cons.IH by (rule subset_trans)
  then show ?case using Cons.IH by (simp add: x split: option.split)
qed simp

lemma transaction_row_keys:
  assumes "\<And>item x item' rs'. body item (rows d) = Some (x, item', rs') \<Longrightarrow> row_keys (rows d) \<subseteq> row_keys rs'"
  shows "row_keys (rows d) \<subseteq> row_keys (rows (snd (chat_transaction i body d)))"
  using assms by (auto simp: chat_transaction_def split: option.split)

lemma write_row_keys: "chat_write n d d' \<Longrightarrow> row_keys (rows d) \<subseteq> row_keys (rows d')"
proof (induction rule: chat_write.induct)
  case (create e i u chat d)
  show ?case using initial_rows_keys by (auto simp: insert_new_chat_def Let_def split: option.split)
next
  case (turn d i user_id user_name user_message entries e accessible)
  have "row_keys (rows d) \<subseteq> row_keys rs'"
    if "turn_body e i user_id user_name user_message entries item (rows d) = Inr (answer, item', rs')" for item answer item' rs'
    using that unfolding turn_body_def Let_def bind_Inr raised_Inr if_Inl_Inr split_paired_Ex prod.case bind_eq_Some_conv
      option.inject prod.inject
    by (elim exE conjE) (simp add: save_rows_keys)
  then show ?case by (auto simp: insert_chat_turn_def split: option.split sum.split)
next
  case (save d i mid message e bump)
  show ?case
    unfolding upsert_message_to_chat_by_id_and_message_id_def Let_def
    by (rule transaction_row_keys) (auto simp: bind_eq_Some_conv checked_Some dest: save_row_keys)
next
  case (update d i chat e bump)
  show ?case
    unfolding update_unfold
    by (rule transaction_row_keys) (auto simp: update_body_def Let_def bind_eq_Some_conv checked_Some dest: save_rows_keys
      simp del: map_option_eq_Some split del: if_split)
next
  case (status d e i mid status)
  show ?case
    unfolding add_message_status_to_chat_by_id_and_message_id_def
    by (rule transaction_row_keys) (auto simp: Let_def bind_eq_Some_conv checked_Some dest: save_row_keys split: if_splits)
next
  case (files xs d e i mid)
  show ?case
    unfolding add_message_files_by_id_and_message_id_def
    by (rule transaction_row_keys) (auto simp: Let_def bind_eq_Some_conv dest: upsert_row_keys split: if_splits)
next
  case (edit d i mid edit e)
  have "row_keys (rows d) \<subseteq> row_keys rs'" if "store_edited e i mid chat history message item (rows d) = Some (item', rs')"
    for chat history message item item' rs'
    using that by (auto simp: store_edited_def Let_def bind_eq_Some_conv dest: save_row_keys)
  then show ?case by (auto simp: edit_message_output_def split: option.split sum.split)
next
  case (params d e i params)
  show ?case
    unfolding update_chat_params_by_id_def by (rule transaction_row_keys) (auto simp: bind_eq_Some_conv checked_Some)
next
  case (title d e i title)
  show ?case
    unfolding update_chat_title_by_id_def by (rule transaction_row_keys) (auto simp: Let_def bind_eq_Some_conv checked_Some)
qed

text \<open>The messages of a chat in a state, and what their rows say about them.\<close>

definition messages_in :: "chat_db \<Rightarrow> string \<Rightarrow> json dict" where
  "messages_in d i = (case map_of (chats d) i of None \<Rightarrow> [] | Some item \<Rightarrow> chat_messages (dict_of (ci_chat item)))"

lemma message_keys:
  assumes ok: "chats_ok n d"
  shows "mid \<in> fst ` set (messages_in d i) \<longleftrightarrow> length i = n \<and> composite_id i mid \<in> row_keys (rows d)"
proof
  assume mid: "mid \<in> fst ` set (messages_in d i)"
  then obtain item where item: "map_of (chats d) i = Some item"
    by (cases "map_of (chats d) i") (auto simp: messages_in_def)
  note io = chats_ok_item [OF ok item]
  obtain chat where "ci_chat item = JObj chat" "row_ids i (rows d) = fst ` set (chat_messages chat)"
    using io(3) by (auto simp: item_ok_def split: json.splits)
  then have "mid \<in> row_ids i (rows d)" using mid item by (simp add: messages_in_def)
  then have "get_row (rows d) (composite_id i mid) \<noteq> None" using get_row_iff [OF io(2,1)] by simp
  then show "length i = n \<and> composite_id i mid \<in> row_keys (rows d)"
    using io(1) by (simp add: get_row_None row_keys_def)
next
  assume r: "length i = n \<and> composite_id i mid \<in> row_keys (rows d)"
  have s: "rows_shape n (rows d)" using ok by (simp add: chats_ok_def)
  have g: "get_row (rows d) (composite_id i mid) \<noteq> None" using r by (simp add: get_row_None row_keys_def)
  then have mid: "mid \<in> row_ids i (rows d)" using get_row_iff [OF s] r by simp
  then have "i \<in> fst ` set (chats d)" using ok by (auto simp: row_ids_def chats_ok_def)
  then obtain item where item: "map_of (chats d) i = Some item" by (metis map_of_eq_None_iff not_None_eq)
  obtain chat where "ci_chat item = JObj chat" "row_ids i (rows d) = fst ` set (chat_messages chat)"
    using chats_ok_item(3) [OF ok item] by (auto simp: item_ok_def split: json.splits)
  with mid item show "mid \<in> fst ` set (messages_in d i)" by (simp add: messages_in_def)
qed

lemma written_messages_kept:
  assumes "(chat_write n)\<^sup>*\<^sup>* d d'" "chats_ok n d"
  shows "chats_ok n d' \<and> row_keys (rows d) \<subseteq> row_keys (rows d')"
  using assms by (induction rule: rtranclp_induct) (auto dest: write_keeps write_row_keys)

end
