(* ===== verification/ChatView.thy ===== *)
theory ChatView
  imports ChatRun
begin

text \<open>
  Reading a chat back from its rows gives the tree of the history: the same messages with the same
  role, parent, children and text, and nothing has to be written back.
\<close>

subsection \<open>The messages in the rows\<close>

lemma merge_distinct: "distinct (map fst b) \<Longrightarrow> fst ` set a \<inter> fst ` set b = {} \<Longrightarrow> dict_merge a b = a @ b"
proof (induction b arbitrary: a)
  case (Cons x b)
  obtain k v where x: "x = (k, v)" by (cases x)
  then have "k \<notin> fst ` set a" using Cons.prems(2) by auto
  then have u: "AList.update k v a = a @ [(k, v)]" by (rule update_new)
  have "dict_merge (a @ [(k, v)]) b = (a @ [(k, v)]) @ b" by (rule Cons.IH) (use Cons.prems x in auto)
  then show ?case by (simp add: x u)
qed simp

lemma strip_composite: "strip_prefix (i @ ''-'') (composite_id i mid) = mid"
  by (simp add: strip_prefix_def composite_id_def starts_with_def)

definition row_item :: "message_row \<Rightarrow> string \<times> json" where
  "row_item r = (row_message_id r, JObj (row_message (row_message_id r) r))"

lemma row_message_get:
  "jget (row_message mid r) ''id'' = JStr mid"
  "jget (row_message mid r) ''role'' = mr_role r"
  "jget (row_message mid r) ''parentId'' = mr_parent_id r"
  "map_of (row_message mid r) ''childrenIds'' = None"
  "is_str (mr_content r) \<Longrightarrow> jget (row_message mid r) ''content'' = mr_content r"
proof -
  have c: "map_of (row_columns r) ''content'' = (if mr_content r = JNull then None else Some (mr_content r))"
    unfolding row_columns_def by (subst map_of_filter_value, simp, simp)
  note g = row_columns_get(2-6) [of r] c
  show "jget (row_message mid r) ''id'' = JStr mid" "jget (row_message mid r) ''role'' = mr_role r"
    "jget (row_message mid r) ''parentId'' = mr_parent_id r" "map_of (row_message mid r) ''childrenIds'' = None"
    using g by (simp_all add: row_message_def Let_def jget_def map_add_def)
  show "jget (row_message mid r) ''content'' = mr_content r" if "is_str (mr_content r)"
  proof -
    have "mr_content r \<noteq> JNull" using that by auto
    then show ?thesis using g by (simp add: row_message_def Let_def jget_def map_add_def)
  qed
qed

text \<open>The children are drawn as in a merged history; a message without any gets an empty list.\<close>

lemma link_rows_eq:
  assumes "distinct (map fst merged)" "\<And>j v. (j, v) \<in> set merged \<Longrightarrow> is_dict v"
    and "\<And>i v. (i, v) \<in> set items \<Longrightarrow> parent_of v \<noteq> Some []"
    and "link_rows items merged = Some merged'"
  shows "merged' = map (\<lambda>(j, v). (j, if children items j = [] then v else add_kids (children items j) v)) merged"
  using assms
proof (induction items arbitrary: merged)
  case Nil
  then have "map (\<lambda>(j, v). (j, if children [] j = [] then v else add_kids (children [] j) v)) merged = merged"
    by (intro map_idI) (auto simp: children_def)
  with Nil show ?case by simp
next
  case (Cons x items)
  obtain i v where x: "x = (i, v)" by (cases x)
  have ch: "children (x # items) j = (if parent_of v = Some j then [i] else []) @ children items j" for j
    by (simp add: x children_def)
  have it: "parent_of w \<noteq> Some []" if "(j, w) \<in> set items" for j w
    by (rule Cons.prems(3) [of j]) (simp add: that)
  show ?case
  proof (cases "\<exists>p. parent_of v = Some p \<and> p \<in> fst ` set merged")
    case False
    then have "link_rows items merged = Some merged'"
      using Cons.prems(4) by (auto simp: x Let_def in_dict_def parent_of_def map_of_eq_None_iff split: json.splits if_splits bind_splits)
    then have "merged' = map (\<lambda>(j, v). (j, if children items j = [] then v else add_kids (children items j) v)) merged"
      using Cons.IH [OF Cons.prems(1,2) it] by simp
    also have "\<dots> = map (\<lambda>(j, v). (j, if children (x # items) j = [] then v else add_kids (children (x # items) j) v)) merged"
    proof -
      have "parent_of v \<noteq> Some j" if "(j, w) \<in> set merged" for j w
      proof -
        have "j \<in> fst ` set merged" using that by force
        with False show ?thesis by blast
      qed
      then show ?thesis by (auto simp: ch)
    qed
    finally show ?thesis .
  next
    case True
    then obtain p where p: "parent_of v = Some p" "p \<in> fst ` set merged" by blast
    then have pn: "p \<noteq> []" using Cons.prems(3) [of i v] x by auto
    let ?M = "AList.update p (append_child (JStr i) (jget merged p)) merged"
    have M: "?M = map (\<lambda>(j, w). (j, if j = p then append_child (JStr i) (jget merged p) else w)) merged"
      by (rule update_old [OF Cons.prems(1) p(2)])
    have jp: "jget (dict_of v) ''parentId'' = JStr p" using p(1) by (auto simp: parent_of_def split: json.splits)
    moreover have "map_of merged p \<noteq> None" using p(2) by (simp add: map_of_eq_None_iff)
    ultimately have "link_rows items ?M = Some merged'"
      using Cons.prems(4) pn by (simp add: x Let_def in_dict_def)
    moreover have "distinct (map fst ?M)" using Cons.prems(1) by (rule AList.distinct_update)
    moreover have "is_dict w" if "(j, w) \<in> set ?M" for j w
      using that Cons.prems(2) by (auto simp: in_update [OF Cons.prems(1)] split: if_splits)
    ultimately have "merged' = map (\<lambda>(j, v). (j, if children items j = [] then v else add_kids (children items j) v)) ?M"
      using Cons.IH [OF _ _ it] by simp
    also have "\<dots> = map (\<lambda>(j, v). (j, if children (x # items) j = [] then v else add_kids (children (x # items) j) v)) merged"
    proof -
      have "(if children items p = [] then append_child (JStr i) (jget merged p)
          else add_kids (children items p) (append_child (JStr i) (jget merged p))) = add_kids (i # children items p) w"
        if "(p, w) \<in> set merged" for w
        using that Cons.prems(1) by (simp add: add_kids_append_child jget_def) (simp add: append_child_def add_kids_def)
      then show ?thesis unfolding M by (auto simp: ch p(1))
    qed
    finally show ?thesis .
  qed
qed

lemma with_children_add_kids:
  assumes "v = JObj m" "map_of m ''childrenIds'' = None"
  shows "with_children (if cs = [] then v else add_kids cs v) = add_kids cs v"
  using assms by (simp add: with_children_def add_kids_def jget_def)

lemma in_map_pair: "(j, v) \<in> set xs \<Longrightarrow> (j, f j v) \<in> set (map (\<lambda>(j, v). (j, f j v)) xs)"
  by force

lemma map_with_children:
  assumes "\<And>j v. (j, v) \<in> set xs \<Longrightarrow> \<exists>m. v = JObj m \<and> map_of m ''childrenIds'' = None"
  shows "map (\<lambda>(j, v). (j, with_children v)) (map (\<lambda>(j, v). (j, if ch j = [] then v else add_kids (ch j) v)) xs) =
    map (\<lambda>(j, v). (j, add_kids (ch j) v)) xs"
  using assms
proof (induction xs)
  case (Cons x xs)
  obtain j v where x: "x = (j, v)" by (cases x)
  obtain m where "v = JObj m" "map_of m ''childrenIds'' = None" using Cons.prems [of j v] x by auto
  note w = with_children_add_kids [OF this, of "ch j"]
  have "map (\<lambda>(j, v). (j, with_children v)) (map (\<lambda>(j, v). (j, if ch j = [] then v else add_kids (ch j) v)) xs) =
    map (\<lambda>(j, v). (j, add_kids (ch j) v)) xs"
  proof (rule Cons.IH)
    fix k u assume "(k, u) \<in> set xs"
    then show "\<exists>m. u = JObj m \<and> map_of m ''childrenIds'' = None" by (intro Cons.prems [of k]) simp
  qed
  with w show ?case by (simp add: x)
qed simp

lemma link_rows_total:
  "(\<And>i v. (i, v) \<in> set items \<Longrightarrow> hashable (jget (dict_of v) ''parentId'')) \<Longrightarrow> link_rows items merged \<noteq> None"
proof (induction items arbitrary: merged)
  case (Cons x items)
  obtain i v where x: "x = (i, v)" by (cases x)
  have "hashable (jget (dict_of v) ''parentId'')" using Cons.prems x by auto
  then have "\<exists>b. in_dict (jget (dict_of v) ''parentId'') merged = Some b" by (auto simp: in_dict_def split: json.split)
  then obtain b where "(if truthy (jget (dict_of v) ''parentId'') then in_dict (jget (dict_of v) ''parentId'') merged else Some False) = Some b"
    by (cases "truthy (jget (dict_of v) ''parentId'')") auto
  moreover have "link_rows items M \<noteq> None" for M
    by (rule Cons.IH) (use Cons.prems in auto)
  ultimately show ?case by (simp add: x Let_def)
qed simp


subsection \<open>The view through the rows\<close>

text \<open>A message read back: the tree and the text are those of the history.\<close>

definition same_view :: "json dict \<Rightarrow> json dict \<Rightarrow> bool" where
  "same_view m m' \<longleftrightarrow> jget m' ''id'' = jget m ''id'' \<and> jget m' ''role'' = jget m ''role'' \<and>
     jget m' ''parentId'' = jget m ''parentId'' \<and> set (kids (JObj m')) = set (kids (JObj m)) \<and>
     (is_str (jget m ''content'') \<longrightarrow> jget m' ''content'' = jget m ''content'')"

definition same_messages :: "json dict \<Rightarrow> json dict \<Rightarrow> bool" where
  "same_messages messages M \<longleftrightarrow> fst ` set M = fst ` set messages \<and>
     (\<forall>j m. map_of messages j = Some (JObj m) \<longrightarrow> (\<exists>m'. map_of M j = Some (JObj m') \<and> same_view m m'))"

lemma own_items:
  assumes s: "rows_shape n rs" and own: "own = filter (\<lambda>r. mr_chat_id r = i) rs"
  shows "distinct (map fst (map row_item own))"
    "map (\<lambda>r. let j = strip_prefix (i @ ''-'') (mr_id r) in (j, JObj (row_message j r))) own = map row_item own"
proof -
  have id: "mr_id r = composite_id i (row_message_id r)" if "r \<in> set own" for r
    using that s by (auto simp: own rows_shape_def list_all_iff)
  have "distinct (map mr_id own)" using s by (simp add: own rows_shape_def distinct_map_filter)
  moreover have "map mr_id own = map (composite_id i) (map row_message_id own)" using id by simp
  ultimately have "distinct (map (composite_id i) (map row_message_id own))" by simp
  then have "distinct (map row_message_id own)" by (simp only: distinct_map)
  then show "distinct (map fst (map row_item own))" by (simp add: row_item_def o_def)
  show "map (\<lambda>r. let j = strip_prefix (i @ ''-'') (mr_id r) in (j, JObj (row_message j r))) own = map row_item own"
    using id by (auto simp: row_item_def Let_def strip_composite)
qed

lemma rows_view:
  assumes ok: "tree_ok messages" and s: "rows_shape n rs" "rows_match {} i messages rs" "row_ids i rs = fst ` set messages"
    and ne: "messages \<noteq> []"
  obtains M where "row_messages_map i rs = Some (Some M)" "distinct (map fst M)" "same_messages messages M"
proof -
  define own where "own = filter (\<lambda>r. mr_chat_id r = i) rs"
  let ?items = "map row_item own"
  note it = own_items [OF s(1) own_def]
  have match: "row_matches messages r" if "r \<in> set own" for r using s(2) that by (auto simp: own_def rows_match_def)
  have item: "\<exists>m. map_of messages (row_message_id r) = Some (JObj m) \<and> agrees r m \<and> node_ok (row_message_id r) (JObj m)"
    if r: "r \<in> set own" for r
  proof -
    obtain m where m: "map_of messages (row_message_id r) = Some (JObj m)" "agrees r m"
      using match [OF r] by (auto simp: row_matches_def split: option.splits elim!: is_dict_cases)
    then have "node_ok (row_message_id r) (JObj m)" using tree_okD(4) [OF ok map_of_SomeD [OF m(1)]] by blast
    with m show ?thesis by blast
  qed
  have own_keys: "fst ` set ?items = fst ` set messages"
  proof -
    have "row_ids i rs = row_message_id ` set own" by (simp add: row_ids_def own_def)
    moreover have "fst ` set ?items = row_message_id ` set own" by (simp add: image_image row_item_def)
    ultimately show ?thesis using s(3) by simp
  qed
  have "fst ` set messages \<noteq> {}" using ne by simp
  then have "own \<noteq> []" using own_keys by auto
  have par: "parent_of (snd (row_item r)) = parent_of v" "jget (dict_of (snd (row_item r))) ''parentId'' = jget (dict_of v) ''parentId''"
    if "r \<in> set own" "map_of messages (row_message_id r) = Some v" for r v
    using item [OF that(1)] that(2) by (auto simp: row_item_def parent_of_def row_message_get agrees_def)
  have hash: "hashable (jget (dict_of v) ''parentId'')" "parent_of v \<noteq> Some []" if jv: "(j, v) \<in> set ?items" for j v
  proof -
    obtain r where r: "r \<in> set own" "(j, v) = row_item r" using jv by auto
    obtain m where m: "map_of messages (row_message_id r) = Some (JObj m)" "node_ok (row_message_id r) (JObj m)" using item [OF r(1)] by blast
    have "snd (row_item r) = v" using r(2) by (metis snd_conv)
    then have "jget (dict_of v) ''parentId'' = jget m ''parentId''" "parent_of v = parent_of (JObj m)" using par [OF r(1) m(1)] by simp_all
    with node_ok_parent [OF m(2)] show "hashable (jget (dict_of v) ''parentId'')" "parent_of v \<noteq> Some []"
      by (auto split: option.splits)
  qed
  have "link_rows ?items ?items \<noteq> None" by (rule link_rows_total) (rule hash(1))
  then obtain linked where l: "link_rows ?items ?items = Some linked" by blast
  have L: "linked = map (\<lambda>(j, v). (j, if children ?items j = [] then v else add_kids (children ?items j) v)) ?items"
    by (rule link_rows_eq [OF it(1) _ hash(2) l]) (auto simp: row_item_def)
  define M where "M = map (\<lambda>(j, v). (j, add_kids (children ?items j) v)) ?items"
  have "map (\<lambda>(j, v). (j, with_children v)) linked = M"
    unfolding L M_def by (rule map_with_children) (auto simp: row_item_def row_message_get(4))
  moreover have "dict_merge [] (map (\<lambda>r. let j = strip_prefix (i @ ''-'') (mr_id r) in (j, JObj (row_message j r))) own) = ?items"
    unfolding it(2) using merge_distinct [OF it(1), of "[]"] by simp
  ultimately have read: "row_messages_map i rs = Some (Some M)"
    using l \<open>own \<noteq> []\<close> unfolding row_messages_map_def own_def [symmetric] by (cases own) auto
  have dM: "distinct (map fst M)" using it(1) by (simp add: M_def o_def case_prod_beta')
  have tr: "(c, Some p) \<in> set (tree ?items) \<longleftrightarrow> (c, Some p) \<in> set (tree messages)" for c p
  proof
    assume "(c, Some p) \<in> set (tree ?items)"
    then obtain r where r: "r \<in> set own" "row_message_id r = c" "parent_of (snd (row_item r)) = Some p" by (auto simp: in_tree row_item_def)
    obtain m where m: "map_of messages c = Some (JObj m)" using item [OF r(1)] r(2) by blast
    with par(1) [OF r(1)] r show "(c, Some p) \<in> set (tree messages)" by (auto simp: in_tree dest: map_of_SomeD)
  next
    assume "(c, Some p) \<in> set (tree messages)"
    then obtain v where v: "(c, v) \<in> set messages" "parent_of v = Some p" by (auto simp: in_tree)
    then have "c \<in> fst ` set ?items" using own_keys by force
    then obtain r where r: "r \<in> set own" "row_message_id r = c" by (auto simp: row_item_def)
    have "map_of messages (row_message_id r) = Some v" using v(1) r(2) tree_okD(1) [OF ok] by simp
    with par(1) [OF r(1) this] v(2) r show "(c, Some p) \<in> set (tree ?items)" by (force simp: in_tree row_item_def)
  qed
  have "\<exists>m'. map_of M j = Some (JObj m') \<and> same_view m m'" if jm: "map_of messages j = Some (JObj m)" for j m
  proof -
    have "j \<in> fst ` set ?items" using own_keys keys_map_of [OF jm] by blast
    then obtain r where r: "r \<in> set own" "row_message_id r = j" by (auto simp: row_item_def)
    obtain m0 where m0: "map_of messages j = Some (JObj m0)" "agrees r m0" "node_ok j (JObj m0)" using item [OF r(1)] r(2) by blast
    let ?m' = "dict_of (add_kids (children ?items j) (JObj (row_message j r)))"
    have "(j, JObj (row_message j r)) \<in> set ?items" using r by (force simp: row_item_def)
    then have "(j, add_kids (children ?items j) (JObj (row_message j r))) \<in> set M"
      unfolding M_def by (rule in_map_pair)
    then have M: "map_of M j = Some (JObj ?m')" using dM by (simp add: add_kids_def)
    have "kids (JObj (row_message j r)) = []" using row_message_get(4) [of j r] by (simp add: kids_def jget_def)
    then have k: "set (kids (JObj ?m')) = set (kids (JObj m))"
      using tree_okD(5) [OF ok map_of_SomeD [OF jm]] add_kids_simps(2) [of "children ?items j" "JObj (row_message j r)"]
      by (simp add: set_children tr add_kids_def)
    have mm: "m0 = m" using m0(1) jm by simp
    have i: "jget m ''id'' = JStr j" using m0(3) mm by (simp add: node_ok_def Let_def)
    have a: "mr_role r = jget m ''role''" "mr_parent_id r = jget m ''parentId''"
      "is_str (jget m ''content'') \<Longrightarrow> mr_content r = jget m ''content''"
      using m0(2) mm by (simp_all add: agrees_def)
    have f: "jget ?m' k = jget (row_message j r) k" if "k \<noteq> ''childrenIds''" for k
      using dict_of_add_kids(1) [OF that, of "children ?items j" "JObj (row_message j r)"] by simp
    have "jget ?m' ''id'' = jget m ''id''" using f [of "''id''"] row_message_get(1) [of j r] i by simp
    moreover have "jget ?m' ''role'' = jget m ''role''" using f [of "''role''"] row_message_get(2) [of j r] a(1) by simp
    moreover have "jget ?m' ''parentId'' = jget m ''parentId''" using f [of "''parentId''"] row_message_get(3) [of j r] a(2) by simp
    moreover have "jget ?m' ''content'' = jget m ''content''" if str: "is_str (jget m ''content'')"
    proof -
      have "jget ?m' ''content'' = jget (row_message j r) ''content''" by (rule f) simp
      also have "\<dots> = mr_content r" by (rule row_message_get(5)) (simp only: a(3) [OF str] str)
      also have "\<dots> = jget m ''content''" by (rule a(3) [OF str])
      finally show ?thesis .
    qed
    ultimately have "same_view m ?m'" using k unfolding same_view_def by blast
    with M show ?thesis by blast
  qed
  moreover have "map fst M = map fst ?items" by (simp add: M_def o_def case_prod_beta')
  then have "fst ` set M = fst ` set messages" using own_keys by (metis set_map)
  ultimately show ?thesis using that [OF read dM] by (simp add: same_messages_def)
qed


subsection \<open>Reading all messages\<close>

lemma filter_option_none: "(\<And>x. x \<in> set xs \<Longrightarrow> P x = Some False) \<Longrightarrow> filter_option P xs = Some []"
  by (induction xs) auto

lemma no_unresolved:
  assumes ok: "tree_ok messages" and d: "distinct (map fst M)" and v: "same_messages messages M"
  shows "get_unresolved_parent_ids M = Some []"
proof -
  have stored: "\<exists>m m'. map_of messages j = Some (JObj m) \<and> node_ok j (JObj m) \<and> w = JObj m' \<and> same_view m m'"
    if "(j, w) \<in> set M" for j w
  proof -
    have "j \<in> fst ` set messages" using that v by (force simp: same_messages_def)
    then obtain x where "(j, x) \<in> set messages" by (auto dest: in_keys)
    then have x: "map_of messages j = Some x" using tree_okD(1) [OF ok] by simp
    obtain m where m: "x = JObj m" "node_ok j x" using tree_ok_stored [OF ok x] by metis
    obtain m' where "map_of M j = Some (JObj m')" "same_view m m'" using v x m(1) unfolding same_messages_def by blast
    moreover have "map_of M j = Some w" using that d by simp
    ultimately show ?thesis using x m by auto
  qed
  have "(do { b \<leftarrow> in_dict p M; Some (\<not> b) }) = Some False"
    if p: "p \<in> set (filter truthy (map (\<lambda>(i, v). jget (dict_of v) ''parentId'') M))" for p
  proof -
    obtain j w where jw: "(j, w) \<in> set M" "p = jget (dict_of w) ''parentId''" "truthy p" using p by auto
    obtain m m' where m: "map_of messages j = Some (JObj m)" "node_ok j (JObj m)" "w = JObj m'" "same_view m m'"
      using stored [OF jw(1)] by blast
    then have "p = jget m ''parentId''" using jw(2) by (simp add: same_view_def)
    then obtain q where q: "parent_of (JObj m) = Some q" "p = JStr q"
      using node_ok_parent(1) [OF m(2)] jw(3) by (auto split: option.splits)
    obtain x where "map_of messages q = Some x" using parent_stored [OF ok map_of_SomeD [OF m(1)] q(1)] .
    then have "q \<in> fst ` set M" using keys_map_of v by (simp add: same_messages_def)
    then have "map_of M q \<noteq> None" by (simp add: map_of_eq_None_iff)
    then show ?thesis by (simp add: in_dict_def q(2))
  qed
  then have "filter_option (\<lambda>p. do { b \<leftarrow> in_dict p M; Some (\<not> b) })
      (filter truthy (map (\<lambda>(i, v). jget (dict_of v) ''parentId'') M)) = Some []"
    by (rule filter_option_none)
  moreover have "\<not> list_ex (\<lambda>(i, v). \<not> is_dict v) M" using stored by (fastforce simp: list_ex_iff)
  ultimately show ?thesis by (simp add: get_unresolved_parent_ids_def)
qed

lemma read_agrees_rows:
  assumes ok: "chats_ok n d" and i: "map_of (chats d) i = Some item" and c: "ci_chat item = JObj chat"
    and ne: "chat_messages chat \<noteq> []"
  obtains M where "get_messages_map_by_chat_id e i d = Some (Some M, d)" "distinct (map fst M)" "same_messages (chat_messages chat) M"
    "tree_ok (chat_messages chat)" "row_messages_map i (rows d) = Some (Some M)"
proof -
  note item = chats_ok_item [OF ok i]
  have io: "chat_ok chat" "rows_match {} i (chat_messages chat) (rows d)" "row_ids i (rows d) = fst ` set (chat_messages chat)"
    using item(3) c by (simp_all add: item_ok_def)
  obtain history messages where h: "jget chat ''history'' = JObj history" "jget history ''messages'' = JObj messages" "tree_ok messages"
    "stored_or_none messages (jget history ''currentId'')" "nul_free (JObj chat)" "nul_free (JObj history)" "nul_free (JObj messages)"
    using io(1) by (rule chat_okE)
  have t: "tree_ok (chat_messages chat)" using h by simp
  obtain M where M: "row_messages_map i (rows d) = Some (Some M)" "distinct (map fst M)" "same_messages (chat_messages chat) M"
    using rows_view [OF t item(2) io(2,3) ne] .
  have "get_messages_map_by_chat_id e i d = Some (Some M, d)"
    using M(1) no_unresolved [OF t M(2,3)] by (simp add: get_messages_map_by_chat_id_def)
  then show ?thesis using that M t by blast
qed

lemma read_agrees:
  assumes "chats_ok n d" "map_of (chats d) i = Some item" "ci_chat item = JObj chat" "chat_messages chat \<noteq> []"
  obtains M where "get_messages_map_by_chat_id e i d = Some (Some M, d)" "distinct (map fst M)" "same_messages (chat_messages chat) M"
    "tree_ok (chat_messages chat)"
  using read_agrees_rows [OF assms] by blast

subsection \<open>Branches\<close>

lemma same_message:
  assumes "tree_ok messages" "same_messages messages M" "map_of messages s = Some v"
  obtains m m' where "v = JObj m" "jget messages s = JObj m" "jget M s = JObj m'" "node_ok s (JObj m)" "same_view m m'"
    "truthy (JObj m)" "truthy (JObj m')"
proof -
  obtain m where m: "v = JObj m" "node_ok s v" using tree_ok_stored [OF assms(1,3)] by metis
  obtain m' where m': "map_of M s = Some (JObj m')" "same_view m m'" using assms(2,3) m(1) unfolding same_messages_def by blast
  have "jget m ''id'' = JStr s" using m by (simp add: node_ok_def Let_def)
  then have "m \<noteq> []" "m' \<noteq> []" using m'(2) by (auto simp: same_view_def)
  then show ?thesis using that [of m m'] m m' assms(3) by (simp add: jget_map_of)
qed

lemma same_branch:
  assumes ok: "tree_ok messages" and v: "same_messages messages M"
  shows "mm = messages \<Longrightarrow> i = JStr s \<Longrightarrow> current = jget messages s \<Longrightarrow> map_of messages s \<noteq> None \<Longrightarrow>
    \<exists>ids. (i \<notin> set visited \<longrightarrow> ids \<noteq> [] \<and> hd ids = s) \<and> message_chain mm visited i current = Inr (map (jget messages) ids) \<and>
      message_chain M visited i (jget M s) = Inr (map (jget M) ids)"
proof (induction mm visited i current arbitrary: s rule: message_chain.induct)
  case (1 mm visited i current)
  obtain w where w: "map_of messages s = Some w" using 1(5) by blast
  obtain m m' where m: "w = JObj m" "jget messages s = JObj m" "jget M s = JObj m'" "node_ok s (JObj m)" "same_view m m'"
    "truthy (JObj m)" "truthy (JObj m')"
    using same_message [OF ok v w] .
  show ?case
  proof (cases "i \<in> set visited")
    case True
    then show ?thesis by (subst (1 2) message_chain.simps) (auto intro: exI [of _ "[]"])
  next
    case False
    have p: "jget m' ''parentId'' = jget m ''parentId''" using m(5) by (simp add: same_view_def)
    show ?thesis
    proof (cases "parent_of (JObj m)")
      case None
      then have "jget m ''parentId'' = JNull" using node_ok_parent(1) [OF m(4)] by simp
      then have "message_chain mm visited i current = Inr [JObj m]" "message_chain M visited i (jget M s) = Inr [JObj m']"
        using False m p 1(2-4)
        by (subst message_chain.simps, simp add: Let_def bind_result_def, subst message_chain.simps, simp)+
      then show ?thesis using m(2,3) by (intro exI [of _ "[s]"]) simp
    next
      case (Some q)
      then have jq: "jget m ''parentId'' = JStr q" "q \<noteq> []" using node_ok_parent [OF m(4)] by simp_all
      obtain x where x: "map_of messages q = Some x"
        using parent_stored [OF ok _ Some] map_of_SomeD [OF w] m(1) by blast
      have cur: "truthy current" "current = JObj m" using m 1(4) by simp_all
      have "\<exists>ids. (JStr q \<notin> set (i # visited) \<longrightarrow> ids \<noteq> [] \<and> hd ids = q) \<and>
          message_chain mm (i # visited) (JStr q) (jget messages q) = Inr (map (jget messages) ids) \<and>
          message_chain M (i # visited) (JStr q) (jget M q) = Inr (map (jget M) ids)"
        by (rule 1(1) [OF _ cur(2) jq(1) [symmetric], of "jget messages q" q])
          (use False cur jq 1(2) x in \<open>auto simp: get_message_def\<close>)
      then obtain ids where ids: "message_chain mm (i # visited) (JStr q) (jget messages q) = Inr (map (jget messages) ids)"
          "message_chain M (i # visited) (JStr q) (jget M q) = Inr (map (jget M) ids)" by blast
      have "message_chain mm visited i current = Inr (JObj m # map (jget messages) ids)"
        using False m(6) cur(2) jq ids(1) 1(2) by (subst message_chain.simps) (simp add: Let_def bind_result_def get_message_def)
      moreover have "message_chain M visited i (jget M s) = Inr (JObj m' # map (jget M) ids)"
        using False m(3,7) jq ids(2) p by (subst message_chain.simps) (simp add: Let_def bind_result_def get_message_def)
      ultimately show ?thesis using m(2,3) by (intro exI [of _ "s # ids"]) simp
    qed
  qed
qed

lemma same_message_list:
  assumes ok: "tree_ok messages" and v: "same_messages messages M" and s: "map_of messages s \<noteq> None"
  shows "\<exists>ids. ids \<noteq> [] \<and> last ids = s \<and> get_message_list messages (JStr s) = Inr (map (jget messages) ids) \<and> get_message_list M (JStr s) = Inr (map (jget M) ids)"
proof -
  obtain w where w: "map_of messages s = Some w" using s by blast
  obtain m m' where m: "w = JObj m" "jget messages s = JObj m" "jget M s = JObj m'" "node_ok s (JObj m)" "same_view m m'"
    "truthy (JObj m)" "truthy (JObj m')"
    using same_message [OF ok v w] .
  obtain ids where ids: "message_chain messages [] (JStr s) (jget messages s) = Inr (map (jget messages) ids)"
      "message_chain M [] (JStr s) (jget M s) = Inr (map (jget M) ids)" "ids \<noteq> []" "hd ids = s"
    using same_branch [OF ok v refl refl refl s, of "[]"] by auto
  have "messages \<noteq> []" using s by auto
  moreover have "M \<noteq> []" using calculation v by (auto simp: same_messages_def)
  ultimately show ?thesis
    using ids m by (intro exI [of _ "rev ids"]) (simp add: get_message_list_def get_message_def bind_result_def rev_map last_rev)
qed

end
