(* ===== verification/ChatSamples.thy ===== *)
theory ChatSamples
  imports ChatView
begin

text \<open>A short run: a chat, a question and its answer, a second question, on a store that accepts every value.\<close>

definition sample_env :: chat_env where
  "sample_env = \<lparr>now = 7, storable = (\<lambda>_. True), valid = (\<lambda>_. True), valid_chat = (\<lambda>_. True)\<rparr>"

definition sample_chat :: "json dict" where
  "sample_chat = [(''title'', JStr ''T''), (''history'', JObj [(''messages'', JObj []), (''currentId'', JNull)])]"

definition sample_question :: "json dict" where
  "sample_question = [(''id'', JStr ''q''), (''content'', JStr ''hi'')]"

definition sample_entry :: "json dict" where
  "sample_entry = [(''message_id'', JStr ''a''), (''model_id'', JStr ''m'')]"

definition sample_created :: chat_db where
  "sample_created = snd (insert_new_chat sample_env ''c'' ''u'' sample_chat no_chats)"

definition sample_asked :: chat_db where
  "sample_asked = snd (insert_chat_turn sample_env ''c'' True ''u'' ''U'' sample_question [sample_entry] sample_created)"

lemma sample_creates: "creates 1 sample_env ''c'' ''u'' sample_chat"
proof -
  have "chat_ok sample_chat"
    by (rule chat_okI [of _ "[(''messages'', JObj []), (''currentId'', JNull)]" "[]"])
      (simp_all add: sample_chat_def jget_def tree_ok_def children_listed_def stored_or_none_def)
  moreover have "chat_messages sample_chat = []" by code_simp
  moreover have "\<not> is_list (jget sample_chat ''messages'')" by code_simp
  ultimately show ?thesis by (simp add: creates_def)
qed

lemma sample_turns: "turns sample_created ''c'' ''u'' ''U'' sample_question [sample_entry]"
  by code_simp

lemma sample_messages: "map fst (messages_in sample_asked ''c'') = [''q'', ''a'']"
  by code_simp

lemma sample_created_reachable: "chat_reachable 1 no_chats sample_created"
  unfolding sample_created_def using chat_write.create [OF sample_creates] by (intro r_into_rtranclp chat_step.written)

lemma sample_reachable: "chat_reachable 1 no_chats sample_asked"
proof -
  have "chat_step 1 sample_created sample_asked"
    unfolding sample_asked_def using chat_write.turn [OF sample_turns] by (rule chat_step.written)
  with sample_created_reachable show ?thesis by (rule rtranclp.rtrancl_into_rtrancl)
qed

definition sample_item :: chat_item where
  "sample_item = the (map_of (chats sample_asked) ''c'')"

lemma sample_items:
  "map_of (chats sample_asked) ''c'' = Some sample_item"
  "map_of (chats sample_created) ''c'' = Some (the (map_of (chats sample_created) ''c''))"
  by code_simp+

text \<open>What a client sends that overwrites the unfinished reply.\<close>

definition sample_overwrite :: "json dict" where
  "sample_overwrite = [(''id'', JStr ''a''), (''parentId'', JStr ''q''), (''role'', JStr ''assistant''), (''content'', JStr ''forged'')]"

definition sample_update :: "json dict" where
  "sample_update = [(''history'', JObj [(''messages'', JObj [(''a'', JObj sample_overwrite)]), (''currentId'', JStr ''q'')])]"

definition sample_reply :: "json dict" where
  "sample_reply = dict_of (jget (messages_in sample_asked ''c'') ''a'')"

lemma sample_reply: "map_of (messages_in sample_asked ''c'') ''a'' = Some (JObj sample_reply)"
  by code_simp

lemma sample_tree: "tree_ok (messages_in sample_asked ''c'')"
proof -
  have ok: "chats_ok 1 sample_asked" using reachable_keeps [OF sample_reachable no_chats_ok] .
  obtain chat where "ci_chat sample_item = JObj chat" "chat_ok chat"
    using chats_ok_item(3) [OF ok sample_items(1)] by (auto simp: item_ok_def split: json.splits)
  then show ?thesis using sample_items(1) by (auto simp: messages_in_def elim: chat_okE)
qed

lemma sample_updates: "updates sample_asked ''c'' sample_update"
proof -
  have m: "chat_messages (dict_of (ci_chat sample_item)) = messages_in sample_asked ''c''"
    using sample_items(1) by (simp add: messages_in_def)
  have "tree (dict_merge (messages_in sample_asked ''c'') [(''a'', JObj sample_overwrite)]) = tree (messages_in sample_asked ''c'')"
    by code_simp
  then have "forest (tree (dict_merge (messages_in sample_asked ''c'') [(''a'', JObj sample_overwrite)]))"
    using tree_okD(2) [OF sample_tree] by simp
  moreover have "fields_ok ''a'' (JObj sample_overwrite)" "parent_of (JObj sample_overwrite) = parent_of (JObj sample_reply)" by code_simp+
  ultimately have "incoming_ok (messages_in sample_asked ''c'') [(''a'', JObj sample_overwrite)]"
    using sample_reply by (simp add: incoming_ok_def)
  moreover have "messages_of (jget sample_update ''history'') = Some [(''a'', JObj sample_overwrite)]" by code_simp
  moreover have "distinct (map fst sample_update)" "nul_free (JObj sample_update)" by code_simp+
  ultimately show ?thesis unfolding updates_def by (simp add: sample_items(1) m)
qed

text \<open>A chat created with two messages, and the same where the database refuses the row of the second.\<close>

definition sample_messages_sent :: "json dict" where
  "sample_messages_sent =
     [(''q'', JObj [(''id'', JStr ''q''), (''parentId'', JNull), (''childrenIds'', JList [JStr ''a'']),
        (''role'', JStr ''user''), (''content'', JStr ''hi'')]),
      (''a'', JObj [(''id'', JStr ''a''), (''parentId'', JStr ''q''), (''childrenIds'', JList []),
        (''role'', JStr ''assistant''), (''content'', JStr ''ho''), (''done'', JBool True)])]"

definition sample_started_chat :: "json dict" where
  "sample_started_chat = [(''title'', JStr ''T''),
     (''history'', JObj [(''messages'', JObj sample_messages_sent), (''currentId'', JStr ''a'')])]"

definition sample_started :: chat_db where
  "sample_started = snd (insert_new_chat sample_env ''c'' ''u'' sample_started_chat no_chats)"

lemma sample_started_reachable: "chat_reachable 1 no_chats sample_started"
proof -
  have "tree sample_messages_sent = tree (messages_in sample_asked ''c'')"
    "list_all (\<lambda>(j, v). node_ok j v) sample_messages_sent" "children_listed sample_messages_sent" by code_simp+
  then have "tree_ok sample_messages_sent"
    using tree_okD(2) [OF sample_tree] by (simp add: tree_ok_def)
  then have "chat_ok sample_started_chat"
    by (rule chat_okI [of _ "[(''messages'', JObj sample_messages_sent), (''currentId'', JStr ''a'')]", rotated 2])
      code_simp+
  moreover have "chat_messages sample_started_chat \<noteq> []"
    "list_all (\<lambda>(mid, v). accepts_row sample_env ''c'' ''u'' mid v) (chat_messages sample_started_chat)" by code_simp+
  ultimately have "creates 1 sample_env ''c'' ''u'' sample_started_chat" by (simp add: creates_def)
  then show ?thesis
    unfolding sample_started_def by (intro r_into_rtranclp chat_step.written chat_write.create)
qed

definition sample_refusing :: chat_env where
  "sample_refusing = sample_env\<lparr>storable := (\<lambda>r. mr_role r \<noteq> JStr ''assistant'')\<rparr>"

text \<open>
  A refused first row is only a warning: the chat is there with its two messages, one of them without
  a row, and it is missing from what is read from the rows.
\<close>

lemma refused_first_row_hides_message:
  "map fst (messages_in (snd (insert_new_chat sample_refusing ''c'' ''u'' sample_started_chat no_chats)) ''c'') = [''q'', ''a''] \<and>
    map_option (map_option (map fst) \<circ> fst) (get_messages_map_by_chat_id sample_refusing ''c''
      (snd (insert_new_chat sample_refusing ''c'' ''u'' sample_started_chat no_chats))) = Some (Some [''q''])"
  by code_simp

text \<open>
  A client that respects nothing: it forges the unfinished reply in every field, and sends no message
  at all for the question.
\<close>

definition sample_forgery :: "json dict" where
  "sample_forgery = [(''id'', JStr ''z''), (''parentId'', JNull), (''content'', JStr ''forged''), (''done'', JBool True)]"

definition sample_attack :: "json dict" where
  "sample_attack = [(''history'', JObj [(''messages'', JObj [(''a'', JObj sample_forgery), (''q'', JNull)]),
     (''currentId'', JStr ''z'')])]"

definition sample_attacked :: chat_db where
  "sample_attacked = snd (update_chat_by_id sample_env ''c'' sample_attack True sample_asked)"

text \<open>
  A NUL in the identifier of a message makes the cleaning after the merge rename it: here to the
  identifier of the unfinished reply, whose content is replaced.
\<close>

definition sample_nul_attack :: "json dict" where
  "sample_nul_attack = [(''history'', JObj [(''messages'', JObj [([CHR ''a'', CHR 0x00], JObj sample_overwrite)]),
     (''currentId'', JStr ''q'')])]"

lemma nul_identifier_replaces_protected:
  "jget (dict_of (jget (messages_in sample_asked ''c'') ''a'')) ''done'' = JBool False \<and>
    jget (dict_of (jget (messages_in sample_asked ''c'') ''a'')) ''content'' = JStr [] \<and>
    jget (dict_of (jget (messages_in (snd (update_chat_by_id sample_env ''c'' sample_nul_attack True sample_asked)) ''c'') ''a''))
      ''content'' = JStr ''forged''"
  by code_simp

text \<open>A question that its owner sends as \<open>null\<close> leaves the history, and its row stays.\<close>

lemma dropped_question_keeps_row:
  "map fst (messages_in sample_attacked ''c'') = [''a''] \<and>
    map_option mr_chat_id (get_row (rows sample_attacked) (composite_id ''c'' ''q'')) = Some ''c''"
  by code_simp

end
