(* ===== verification/UsageProps.thy ===== *)
theory UsageProps
  imports ChatRows
begin

text \<open>
  The token counts of usage records: every normalised record counts with integers, merging two records
  adds the counts, and what a row makes of the record of a message that is saved again.
\<close>

subsection \<open>Normalised records\<close>

lemma normalize_shape:
  assumes "normalize_usage u = Some r" "r \<noteq> []"
  obtains d a b c where "r = AList.update ''total_tokens'' (JInt c) (AList.update ''output_tokens'' (JInt b)
    (AList.update ''input_tokens'' (JInt a) d))"
proof (cases "truthy u")
  case False
  then show ?thesis using assms by (simp add: normalize_usage_def)
next
  case True
  show ?thesis
    using assms(1) True unfolding normalize_usage_def Let_def bind_eq_Some_conv option.inject if_not_P [of "\<not> truthy u", unfolded not_not, OF True]
    by (elim exE conjE) (rule that, erule sym)
qed

lemma normalize_counts:
  assumes "normalize_usage u = Some r" "r \<noteq> []" "k \<in> set USAGE_TOKEN_KEYS"
  obtains a where "jget r k = JInt a" "map_of r k = Some (JInt a)"
proof -
  obtain d a b c where r: "r = AList.update ''total_tokens'' (JInt c) (AList.update ''output_tokens'' (JInt b)
    (AList.update ''input_tokens'' (JInt a) d))" using assms(1,2) by (rule normalize_shape)
  from assms(3) have "\<exists>x. map_of r k = Some (JInt x)" by (auto simp: r USAGE_TOKEN_KEYS_def)
  then show ?thesis using that by (auto simp: jget_def)
qed

lemma normalize_counted:
  assumes "jget u ''input_tokens'' = JInt a" "jget u ''output_tokens'' = JInt b" "jget u ''total_tokens'' = JInt t"
    "0 < a" "0 < b" "0 < t"
  obtains r where "normalize_usage (JObj u) = Some r" "r \<noteq> []" "jget r ''input_tokens'' = JInt a"
    "jget r ''output_tokens'' = JInt b" "jget r ''total_tokens'' = JInt t"
proof -
  have "u \<noteq> []" using assms(1) by (auto simp: jget_def)
  let ?r = "AList.update ''total_tokens'' (JInt t) (AList.update ''output_tokens'' (JInt b) (AList.update ''input_tokens'' (JInt a) u))"
  have n: "normalize_usage (JObj u) = Some ?r" using assms \<open>u \<noteq> []\<close> by (simp add: normalize_usage_def jor_def)
  have g: "jget ?r ''input_tokens'' = JInt a" "jget ?r ''output_tokens'' = JInt b" "jget ?r ''total_tokens'' = JInt t" by simp_all
  then have "?r \<noteq> []" by (auto simp: jget_def)
  with n g show ?thesis using that by blast
qed

subsection \<open>Merged records\<close>

lemma sum_usage_key_get: "map_of (sum_usage_key p q c r) k =
    (if k = c \<and> (map_of p c \<noteq> None \<or> map_of q c \<noteq> None) \<and>
        (is_numeric_usage_value (jget_default p c (JInt 0)) \<or> is_numeric_usage_value (jget_default q c (JInt 0)))
     then Some (JInt (numeric_value (jget_default p c (JInt 0)) + numeric_value (jget_default q c (JInt 0)))) else map_of r k)"
  by (auto simp: sum_usage_key_def Let_def)

lemma fold_sum_get:
  "distinct keys \<Longrightarrow> map_of (fold (sum_usage_key p q) keys r) k =
    (if k \<in> set keys then map_of (sum_usage_key p q k r) k else map_of r k)"
  by (induction keys arbitrary: r) (auto simp: sum_usage_key_get)

lemma fold_details_get: "k \<notin> set keys \<Longrightarrow> map_of (fold (merge_usage_details p q) keys r) k = map_of r k"
  by (induction keys arbitrary: r) (auto simp: merge_usage_details_def)

lemma token_keys: "k \<in> set USAGE_TOKEN_KEYS \<Longrightarrow>
    k \<in> set USAGE_SUMMABLE_KEYS \<and> k \<notin> set USAGE_DETAIL_KEYS \<and> k \<noteq> ''completion_tokens'' \<and> k \<noteq> ''prompt_tokens''"
  by (auto simp: USAGE_SUMMABLE_KEYS_def USAGE_TOKEN_KEYS_def USAGE_DETAIL_KEYS_def)

lemma distinct_summable: "distinct USAGE_SUMMABLE_KEYS"
  by code_simp

lemma merge_counts:
  assumes n: "normalize_usage c = Some p" "normalize_usage i = Some q" "p \<noteq> []" "q \<noteq> []"
    and k: "k \<in> set USAGE_TOKEN_KEYS"
  shows "\<exists>r a x. merge_usage c i = Some r \<and> jget p k = JInt a \<and> jget q k = JInt x \<and> jget r k = JInt (a + x)"
proof -
  obtain a where a: "jget p k = JInt a" "map_of p k = Some (JInt a)" using normalize_counts [OF n(1,3) k] .
  obtain x where x: "jget q k = JInt x" "map_of q k = Some (JInt x)" using normalize_counts [OF n(2,4) k] .
  have s: "map_of (sum_usage_key p q k r) k = Some (JInt (a + x))" for r
    using a x by (simp add: sum_usage_key_get jget_default_def)
  show ?thesis
    using n a(1) x(1) token_keys [OF k]
    by (simp add: merge_usage_def Let_def jget_def fold_details_get fold_sum_get distinct_summable s)
qed

text \<open>
  Token counts stay integers and add up: merging two reports of usage under whatever names the
  providers use gives, for each of the three counters, the sum of the two normalised counts, and a
  report without content leaves the other one unchanged.
\<close>

theorem merged_usage_adds_up:
  assumes "normalize_usage c = Some p" "normalize_usage i = Some q"
  shows "(p = [] \<longrightarrow> merge_usage c i = Some q) \<and> (q = [] \<longrightarrow> merge_usage c i = Some p) \<and>
    (p \<noteq> [] \<and> q \<noteq> [] \<longrightarrow> (\<exists>r. merge_usage c i = Some r \<and> (\<forall>k \<in> {''input_tokens'', ''output_tokens'', ''total_tokens''}.
       \<exists>a x. jget p k = JInt a \<and> jget q k = JInt x \<and> jget r k = JInt (a + x))))"
proof -
  have "\<exists>r. merge_usage c i = Some r \<and> (\<forall>k \<in> {''input_tokens'', ''output_tokens'', ''total_tokens''}.
       \<exists>a x. jget p k = JInt a \<and> jget q k = JInt x \<and> jget r k = JInt (a + x))" if ne: "p \<noteq> []" "q \<noteq> []"
  proof -
    have c: "\<exists>r a x. merge_usage c i = Some r \<and> jget p k = JInt a \<and> jget q k = JInt x \<and> jget r k = JInt (a + x)"
      if "k \<in> {''input_tokens'', ''output_tokens'', ''total_tokens''}" for k
      using merge_counts [OF assms ne, of k] that by (auto simp: USAGE_TOKEN_KEYS_def)
    from c [of "''input_tokens''"] obtain r where "merge_usage c i = Some r" by auto
    then show ?thesis using c by (intro exI [of _ r]) (metis option.inject)
  qed
  then show ?thesis using assms by (auto simp: merge_usage_def)
qed

theorem merged_usage_adds_up_witness:
  "\<exists>r. merge_usage (JObj [(''prompt_tokens'', JInt 3), (''completion_tokens'', JInt 4)])
       (JObj [(''prompt_eval_count'', JInt 10), (''eval_count'', JInt 20)]) = Some r \<and> jget r ''total_tokens'' = JInt 37"
proof -
  let ?c = "JObj [(''prompt_tokens'', JInt 3), (''completion_tokens'', JInt 4)]"
  let ?i = "JObj [(''prompt_eval_count'', JInt 10), (''eval_count'', JInt 20)]"
  obtain p q where n: "normalize_usage ?c = Some p" "normalize_usage ?i = Some q"
    "p \<noteq> []" "q \<noteq> []" "jget p ''total_tokens'' = JInt 7" "jget q ''total_tokens'' = JInt 30"
    by (simp add: normalize_usage_def jor_def jget_def py_add_def Let_def)
  from merged_usage_adds_up [OF n(1,2)] n(3-6) show ?thesis by fastforce
qed

subsection \<open>A message saved again\<close>

text \<open>A record of usage as it is stored, and the usage of a row after \<open>k\<close> saves of one message.\<close>

definition tokens :: "int \<Rightarrow> int \<Rightarrow> json" where
  "tokens a b = JObj [(''input_tokens'', JInt a), (''output_tokens'', JInt b), (''total_tokens'', JInt (a + b))]"

fun saved_usage :: "nat \<Rightarrow> json \<Rightarrow> json dict \<Rightarrow> json option" where
  "saved_usage 0 stored data = Some stored"
| "saved_usage (Suc k) stored data = Option.bind (saved_usage k stored data) (\<lambda>usage. apply_usage usage data)"

lemma get_tokens:
  assumes "0 < x" "0 < y" "jget data ''usage'' = tokens x y"
  shows "get_usage data = Some (tokens x y)"
  using assms by (simp add: get_usage_def tokens_def jor_def jget_def normalize_usage_def)

lemma tokens_same:
  assumes "0 < x" "0 < y" "jget data ''usage'' = tokens x y"
  shows "apply_usage (tokens x y) data = Some (tokens x y)"
proof -
  have "normalize_usage (tokens x y) = Some (dict_of (tokens x y))"
    using assms by (simp add: tokens_def normalize_usage_def jor_def jget_def)
  moreover have "py_eq (tokens x y) (tokens x y)" "truthy (tokens x y)" by (simp_all add: tokens_def)
  moreover have "JObj (dict_of (tokens x y)) = tokens x y" by (simp add: tokens_def)
  ultimately show ?thesis using get_tokens [OF assms] by (simp add: apply_usage_def)
qed

lemma tokens_added:
  assumes "0 < x" "0 < y" "jget data ''usage'' = tokens x y"
    and "jget u ''input_tokens'' = JInt a" "jget u ''output_tokens'' = JInt b" "jget u ''total_tokens'' = JInt t"
    "0 < a" "0 < b" "0 < t" and ne: "a \<noteq> x \<or> b \<noteq> y"
  obtains r where "apply_usage (JObj u) data = Some (JObj r)" "jget r ''input_tokens'' = JInt (a + x)"
    "jget r ''output_tokens'' = JInt (b + y)" "jget r ''total_tokens'' = JInt (t + (x + y))"
proof -
  obtain p where p: "normalize_usage (JObj u) = Some p" "p \<noteq> []" "jget p ''input_tokens'' = JInt a"
    "jget p ''output_tokens'' = JInt b" "jget p ''total_tokens'' = JInt t"
    using assms(4-9) by (rule normalize_counted)
  have m: "map_of p ''input_tokens'' = Some (JInt a)" "map_of p ''output_tokens'' = Some (JInt b)"
    using p(3,4) by (auto simp: jget_def split: option.splits)
  have neq: "\<not> py_eq (tokens x y) (JObj p)"
    using ne by (auto simp: tokens_def m)
  obtain q where q: "normalize_usage (JObj p) = Some q" "q \<noteq> []" "jget q ''input_tokens'' = JInt a"
    "jget q ''output_tokens'' = JInt b" "jget q ''total_tokens'' = JInt t"
    using p(3-5) assms(7-9) by (rule normalize_counted)
  have n: "normalize_usage (tokens x y) = Some (dict_of (tokens x y))"
    using assms(1,2) by (simp add: tokens_def normalize_usage_def jor_def jget_def)
  have v: "dict_of (tokens x y) \<noteq> []" "jget (dict_of (tokens x y)) ''input_tokens'' = JInt x"
    "jget (dict_of (tokens x y)) ''output_tokens'' = JInt y" "jget (dict_of (tokens x y)) ''total_tokens'' = JInt (x + y)"
    by (simp_all add: tokens_def jget_def)
  have c: "\<exists>r a x'. merge_usage (JObj p) (tokens x y) = Some r \<and> jget q k = JInt a \<and> jget (dict_of (tokens x y)) k = JInt x' \<and> jget r k = JInt (a + x')"
    if "k \<in> set USAGE_TOKEN_KEYS" for k
    using merge_counts [OF q(1) n q(2) v(1) that] .
  obtain r where r: "merge_usage (JObj p) (tokens x y) = Some r"
    using c [of "''input_tokens''"] by (auto simp: USAGE_TOKEN_KEYS_def)
  have g: "jget r ''input_tokens'' = JInt (a + x)" "jget r ''output_tokens'' = JInt (b + y)" "jget r ''total_tokens'' = JInt (t + (x + y))"
    using c [of "''input_tokens''"] c [of "''output_tokens''"] c [of "''total_tokens''"] r q(3-5) v(2-4)
    by (auto simp: USAGE_TOKEN_KEYS_def)
  have "truthy (tokens x y)" by (simp add: tokens_def)
  then have "apply_usage (JObj u) data = Some (JObj r)"
    using get_tokens [OF assms(1-3)] p(1) neq r \<open>truthy (tokens x y)\<close> by (simp add: apply_usage_def)
  then show ?thesis using g by (rule that)
qed

text \<open>
  A row keeps its usage when the same record is saved again, but a record that differs from the
  stored one is added by every further save of the message, although nothing new was used: after
  \<open>k\<close> saves the counts are the stored ones plus \<open>k\<close> times those of the message.
\<close>

theorem resaved_usage_is_counted_again:
  assumes "0 < a" "0 < b" "0 < x" "0 < y" "jget data ''usage'' = tokens x y"
  shows "\<exists>r. saved_usage k (tokens a b) data = Some (JObj r) \<and>
    jget r ''input_tokens'' = JInt (if a = x \<and> b = y then a else a + int k * x) \<and>
    jget r ''output_tokens'' = JInt (if a = x \<and> b = y then b else b + int k * y)"
proof (cases "a = x \<and> b = y")
  case True
  then have "saved_usage k (tokens a b) data = Some (tokens a b)"
    using tokens_same [OF assms(3-5)] by (induction k) auto
  then show ?thesis using True by (simp add: tokens_def jget_def)
next
  case False
  have "\<exists>r. saved_usage k (tokens a b) data = Some (JObj r) \<and> jget r ''input_tokens'' = JInt (a + int k * x) \<and>
    jget r ''output_tokens'' = JInt (b + int k * y) \<and> jget r ''total_tokens'' = JInt (a + b + int k * (x + y))"
  proof (induction k)
    case 0
    then show ?case by (simp add: tokens_def jget_def)
  next
    case (Suc k)
    then obtain u where u: "saved_usage k (tokens a b) data = Some (JObj u)" "jget u ''input_tokens'' = JInt (a + int k * x)"
      "jget u ''output_tokens'' = JInt (b + int k * y)" "jget u ''total_tokens'' = JInt (a + b + int k * (x + y))" by blast
    have pos: "0 < a + int k * x" "0 < b + int k * y" "0 < a + b + int k * (x + y)"
      using assms(1-4) by (simp_all add: add_pos_nonneg)
    have "a + int k * x \<noteq> x \<or> b + int k * y \<noteq> y"
    proof (cases k)
      case 0
      then show ?thesis using False by simp
    next
      case (Suc m)
      have "0 \<le> int m * x" using assms(3) by simp
      then have "x < a + int k * x" using assms(1) unfolding Suc by (simp add: distrib_right)
      then show ?thesis by simp
    qed
    then obtain r where "apply_usage (JObj u) data = Some (JObj r)" "jget r ''input_tokens'' = JInt (a + int k * x + x)"
      "jget r ''output_tokens'' = JInt (b + int k * y + y)" "jget r ''total_tokens'' = JInt (a + b + int k * (x + y) + (x + y))"
      using tokens_added [OF assms(3-5) u(2-4) pos] by blast
    then show ?case using u(1) by (simp add: algebra_simps)
  qed
  then show ?thesis using False by auto
qed

theorem resaved_usage_is_counted_again_witness:
  "\<exists>r. saved_usage 2 (tokens 10 5) [(''role'', JStr ''assistant''), (''usage'', tokens 30 9)] = Some (JObj r) \<and>
    jget r ''input_tokens'' = JInt 70"
  using resaved_usage_is_counted_again [of 10 5 30 9 "[(''role'', JStr ''assistant''), (''usage'', tokens 30 9)]" 2]
  by (auto simp: jget_def)

end
