(* ===== verification/ChatClaims.thy ===== *)
theory ChatClaims
  imports ChatSamples UsageProps
begin

text \<open>
  The properties of the stored chats: every state that the operations of \<open>models/chats.py\<close> reach from
  an empty store, with callers that respect the conditions of \<open>chat_write\<close>, has proper histories, and
  the rows of \<open>models/chat_messages.py\<close> agree with them.
\<close>

subsection \<open>Reachable states\<close>

lemma reached_ok: "chat_reachable n no_chats d \<Longrightarrow> chats_ok n d"
  using reachable_keeps no_chats_ok by blast

lemma reached_chat:
  assumes "chat_reachable n no_chats d" "map_of (chats d) i = Some item"
  obtains chat history messages where "ci_chat item = JObj chat" "jget chat ''history'' = JObj history"
    "jget history ''messages'' = JObj messages" "tree_ok messages" "stored_or_none messages (jget history ''currentId'')"
    "messages_in d i = messages" "chat_ok chat"
proof -
  obtain chat where chat: "ci_chat item = JObj chat" "chat_ok chat"
    using chats_ok_item(3) [OF reached_ok [OF assms(1)] assms(2)] by (auto simp: item_ok_def split: json.splits)
  obtain history messages where "jget chat ''history'' = JObj history" "jget history ''messages'' = JObj messages"
    "tree_ok messages" "stored_or_none messages (jget history ''currentId'')"
    using chat(2) by (rule chat_okE)
  then show ?thesis using that [of chat history messages] chat assms(2) by (simp add: messages_in_def)
qed


text \<open>
  C5: The two stores of a chat's messages agree in every reachable state, given that the database
  accepts the row of each message a new chat is created with (\<open>creates\<close>; a later operation whose row is
  refused is rolled back): a message is in the history exactly when it has a row under its composite
  key, and then the row has the same role, the same parent and, where the message has a text, the same
  text.
\<close>

theorem chat_stores_agree:
  assumes "chat_reachable n no_chats d" "length i = n"
  shows "rel_option (\<lambda>v r. is_dict v \<and> mr_chat_id r = i \<and> mr_role r = jget (dict_of v) ''role'' \<and>
      mr_parent_id r = jget (dict_of v) ''parentId'' \<and>
      (is_str (jget (dict_of v) ''content'') \<longrightarrow> mr_content r = jget (dict_of v) ''content''))
    (map_of (messages_in d i) mid) (get_row (rows d) (composite_id i mid))"
proof (cases "get_row (rows d) (composite_id i mid)")
  case None
  then have "mid \<notin> fst ` set (messages_in d i)"
    using message_keys [OF reached_ok [OF assms(1)]] by (simp add: get_row_None row_keys_def)
  then show ?thesis using None by (simp add: map_of_eq_None_iff)
next
  case (Some r)
  note ok = reached_ok [OF assms(1)]
  have r: "r \<in> set (rows d)" "mr_id r = composite_id i mid" using get_row_Some [OF Some] by auto
  have s: "length (mr_chat_id r) = n" "mr_id r = composite_id (mr_chat_id r) (row_message_id r)"
    using ok r(1) by (auto simp: chats_ok_def rows_shape_def list_all_iff)
  then have own: "mr_chat_id r = i" "row_message_id r = mid" using r(2) assms(2) by (simp_all add: composite_eq)
  have "composite_id i mid \<in> row_keys (rows d)" using r by (metis row_keys_def imageI)
  then have "mid \<in> fst ` set (messages_in d i)" using message_keys [OF ok] assms(2) by blast
  then obtain item where item: "map_of (chats d) i = Some item"
    by (cases "map_of (chats d) i") (auto simp: messages_in_def)
  obtain chat where "ci_chat item = JObj chat" "rows_match {} i (chat_messages chat) (rows d)"
    using chats_ok_item(3) [OF ok item] by (auto simp: item_ok_def split: json.splits)
  then have "row_matches (messages_in d i) r" using r(1) own item by (simp add: rows_match_def messages_in_def)
  then show ?thesis using Some own by (auto simp: row_matches_def agrees_def split: option.splits)
qed

text \<open>
  C32: Reading a chat back from its rows yields the same branches: the read succeeds, changes nothing,
  and gives the stored messages with their roles, parents, children and texts; the path from any
  message to its root is the same list of identifiers in both.
\<close>

theorem branch_from_rows:
  assumes "chat_reachable n no_chats d" "map_of (messages_in d i) s \<noteq> None"
  shows "\<exists>M ids. get_messages_map_by_chat_id e i d = Some (Some M, d) \<and> same_messages (messages_in d i) M \<and>
    ids \<noteq> [] \<and> last ids = s \<and>
    get_message_list (messages_in d i) (JStr s) = Inr (map (jget (messages_in d i)) ids) \<and>
    get_message_list M (JStr s) = Inr (map (jget M) ids)"
proof -
  note ok = reached_ok [OF assms(1)]
  obtain item where item: "map_of (chats d) i = Some item"
    using assms(2) by (cases "map_of (chats d) i") (auto simp: messages_in_def)
  obtain chat where chat: "ci_chat item = JObj chat"
    using reached_chat [OF assms(1) item] by metis
  have m: "messages_in d i = chat_messages chat" using item chat by (simp add: messages_in_def)
  then have "chat_messages chat \<noteq> []" using assms(2) by auto
  then obtain M where M: "get_messages_map_by_chat_id e i d = Some (Some M, d)" "same_messages (chat_messages chat) M"
    "tree_ok (chat_messages chat)"
    using read_agrees [OF ok item chat] by blast
  from same_message_list [OF M(3,2)] assms(2) M(1,2) show ?thesis unfolding m by blast
qed


subsection \<open>Deletion, turns and updates\<close>

text \<open>
  C16: Deleting a stored message from a history removes it with its children and nothing else, gives
  the grandchildren the parent of the deleted message, changes of the other messages at most the list
  of children, keeps the history a proper tree, and makes a leaf below that parent the current message.
\<close>

theorem delete_message_exact:
  assumes "tree_ok messages" "jget history ''messages'' = JObj messages" "map_of messages i = Some (JObj m)"
  shows "\<exists>M c. delete_message_from_history history i =
      Some (AList.update ''currentId'' c (AList.update ''messages'' (JObj M) history), i # kids (JObj m)) \<and>
    tree_ok M \<and> leaf_below M (parent_of (JObj m)) c \<and>
    tree M = map (\<lambda>(j, q). (j, case q of None \<Rightarrow> None
        | Some k \<Rightarrow> if k \<in> set (kids (JObj m)) then parent_of (JObj m) else Some k))
      (filter (\<lambda>(j, q). j \<noteq> i \<and> j \<notin> set (kids (JObj m))) (tree messages)) \<and>
    (\<forall>j v k. map_of messages j = Some v \<longrightarrow> j \<noteq> i \<longrightarrow> j \<notin> set (kids (JObj m)) \<longrightarrow> k \<noteq> ''parentId'' \<longrightarrow> k \<noteq> ''childrenIds'' \<longrightarrow>
       map_of (dict_of (jget M j)) k = map_of (dict_of v) k)"
proof -
  let ?M = "left_messages i (jget m ''parentId'') (kids (JObj m)) messages"
  have iv: "(i, JObj m) \<in> set messages" using assms(3) by (rule map_of_SomeD)
  obtain c where c: "delete_message_from_history history i =
      Some (AList.update ''currentId'' c (AList.update ''messages'' (JObj ?M) history), i # kids (JObj m))"
    "leaf_below ?M (parent_of (JObj m)) c"
    using delete_spec [OF assms] by blast
  have ok: "tree_ok ?M" by (rule tree_ok_remaining [OF assms(1) iv])
  have t: "tree ?M = map (\<lambda>(j, q). (j, case q of None \<Rightarrow> None
        | Some k \<Rightarrow> if k \<in> set (kids (JObj m)) then parent_of (JObj m) else Some k))
      (filter (\<lambda>(j, q). j \<noteq> i \<and> j \<notin> set (kids (JObj m))) (tree messages))"
    unfolding tree_remaining [OF assms(1) iv] prune_def by (auto split: option.splits)
  have "map_of (dict_of (jget ?M j)) k = map_of (dict_of v) k"
    if j: "map_of messages j = Some v" "j \<noteq> i" "j \<notin> set (kids (JObj m))" "k \<noteq> ''parentId''" "k \<noteq> ''childrenIds''" for j v k
  proof -
    have "(j, moved i (jget m ''parentId'') (grandkids messages (kids (JObj m))) j v) \<in> set ?M"
      using j(2,3) map_of_SomeD [OF j(1)] by (force simp: left_messages_def)
    then have "jget ?M j = moved i (jget m ''parentId'') (grandkids messages (kids (JObj m))) j v"
      using tree_okD(1) [OF ok] by (simp add: jget_map_of)
    then show ?thesis using j(4,5) by (simp add: moved_def Let_def)
  qed
  with c ok t show ?thesis by blast
qed

text \<open>
  C13: When a client stores a whole chat, the messages of other authors and the unfinished replies
  keep every field, the list of children apart, whatever the client sends for them: another parent,
  identifier or role, or no message at all. Only a NUL in what it sends is excluded.
\<close>

theorem protected_messages_kept:
  assumes "chat_reachable n no_chats d" "map_of (chats d) i = Some item" "nul_free (JObj chat)"
    and "update_chat_by_id e i chat bump d = (Some item', d')"
    and "map_of (messages_in d i) j = Some (JObj m)"
    and "user_of m item \<noteq> JStr (ci_user_id item) \<or> jget m ''role'' = JStr ''assistant'' \<and> jget m ''done'' = JBool False"
  shows "\<exists>m'. map_of (messages_in d' i) j = Some (JObj m') \<and> (\<forall>k. k \<noteq> ''childrenIds'' \<longrightarrow> map_of m' k = map_of m k)"
proof -
  note ok = chats_ok_item [OF reached_ok [OF assms(1)] assms(2)]
  obtain x item1 rs where run: "update_body e i chat bump item (rows d) = Some (x, item1, rs)"
    and d': "d' = \<lparr>chats = AList.update i item1 (chats d), rows = rs\<rparr>"
    using assms(2,4) unfolding update_unfold by (auto simp: chat_transaction_def split: option.splits)
  have "messages_in d' i = chat_messages (dict_of (ci_chat item1))" by (simp add: d' messages_in_def)
  moreover have "map_of (chat_messages (dict_of (ci_chat item))) j = Some (JObj m)"
    using assms(2,5) by (simp add: messages_in_def)
  ultimately show ?thesis
    using any_update_protected [OF ok(3) assms(3) run _ assms(6)] by (auto simp: same_but_children_def)
qed

lemma turn_body_ids:
  "turn_body e i user_id user_name user_message entries item rs = Inr y \<Longrightarrow>
    (let ids = map (\<lambda>entry. jget entry ''message_id'') entries; ids = (if user_message = [] then ids else jget user_message ''id'' # ids)
     in list_all is_id ids \<and> distinct ids)"
  unfolding turn_body_def Let_def bind_Inr raised_Inr if_Inl_Inr by blast

text \<open>
  C15: A turn that is accepted appends the question below its parent and the prepared replies below
  the question, in the order of the request, and nothing else: messages that existed keep their place
  and their fields, the list of children apart, and the last message added becomes the current one.
\<close>

theorem chat_turn_appended:
  assumes "chat_reachable n no_chats d" "map_of (chats d) i = Some item"
    and "turns d i user_id user_name user_message entries"
    and "insert_chat_turn e i accessible user_id user_name user_message entries d = (Inr (answer, current), d')"
  defines "ids \<equiv> map (\<lambda>entry. key (jget entry ''message_id'')) entries"
    and "question \<equiv> key (jget user_message ''id'')"
    and "added \<equiv> drop (length (messages_in d i)) (tree (messages_in d' i))"
  shows "tree (messages_in d' i) = tree (messages_in d i) @ added \<and>
    map fst added = filter (\<lambda>j. j \<notin> fst ` set (messages_in d i)) ((if user_message = [] then [] else [question]) @ ids) \<and>
    (\<forall>(j, p) \<in> set added. p = (if user_message = [] then None else if j = question then parent_of (JObj user_message) else Some question)) \<and>
    current = (if added = [] then chat_current (dict_of (ci_chat item)) else JStr (fst (last added))) \<and>
    (\<forall>j m. map_of (messages_in d i) j = Some (JObj m) \<longrightarrow> j \<notin> set ids \<longrightarrow> (user_message = [] \<or> j \<noteq> question) \<longrightarrow>
       (\<exists>m'. map_of (messages_in d' i) j = Some (JObj m') \<and> (\<forall>k. k \<noteq> ''childrenIds'' \<longrightarrow> map_of m' k = map_of m k)))"
proof -
  note ok = reached_ok [OF assms(1)]
  let ?old = "messages_in d i" and ?p = "jget user_message ''id''"
  obtain item' rs where run: "turn_body e i user_id user_name user_message entries item (rows d) = Inr ((answer, current), item', rs)"
    and d': "d' = \<lparr>chats = AList.update i item' (chats d), rows = rs\<rparr>"
    using assms(2,4) by (auto simp: insert_chat_turn_def split: if_splits sum.splits)
  obtain chat chat' history' messages' where r: "ci_chat item = JObj chat" "ci_chat item' = JObj chat'"
    "jget chat' ''history'' = JObj history'" "jget history' ''messages'' = JObj messages'"
    "turn_result (chat_messages chat) (chat_current chat) user_message ids messages' (chat_current chat')"
    "keeps_messages (chat_messages chat) messages' ((if user_message = [] then {} else {question}) \<union> set ids)"
    "snd (answer, current) = chat_current chat'"
    unfolding ids_def question_def set_map by (rule turn_body_step [OF ok assms(3,2) run])
  have old: "chat_messages chat = ?old" using assms(2) r(1) by (simp add: messages_in_def)
  have new: "messages_in d' i = messages'" using r(2-4) by (simp add: d' messages_in_def)
  have id: "?p = JStr question \<and> question \<notin> set ids" if ne: "user_message \<noteq> []"
  proof -
    have "is_id ?p" "list_all is_id (map (\<lambda>entry. jget entry ''message_id'') entries)"
      "?p \<notin> set (map (\<lambda>entry. jget entry ''message_id'') entries)"
      using turn_body_ids [OF run] ne by (auto simp: Let_def)
    then have ids: "?p = JStr question" "is_id (jget entry ''message_id'')" "jget entry ''message_id'' \<noteq> ?p" if "entry \<in> set entries" for entry
      using that by (auto simp: list_all_iff is_id_iff question_def image_iff)
    have "key (jget entry ''message_id'') \<noteq> question" if "entry \<in> set entries" for entry
      using ids [OF that] by (auto simp: is_id_iff)
    moreover have "?p = JStr question" using \<open>is_id ?p\<close> by (auto simp: is_id_iff question_def)
    ultimately show ?thesis by (auto simp: ids_def)
  qed
  define X where "X = (if user_message = [] \<or> has_key question ?old then [] else [(question, parent_of (JObj user_message))]) @
    new_edges ?old ?p ids"
  have t: "tree messages' = tree ?old @ X" and cur: "chat_current chat' = (if X = [] then chat_current chat else JStr (fst (last X)))"
    using r(5) unfolding turn_result_def old X_def question_def Let_def by auto
  have "added = X" using t by (simp add: added_def new tree_def)
  moreover have "map fst X = filter (\<lambda>j. j \<notin> fst ` set ?old) ((if user_message = [] then [] else [question]) @ ids)"
    by (auto simp: X_def new_edges_def o_def map_of_eq_None_iff)
  moreover have "p = (if user_message = [] then None else if j = question then parent_of (JObj user_message) else Some question)"
    if "(j, p) \<in> set X" for j p
    using that id by (auto simp: X_def new_edges_def jget_def split: if_splits)
  moreover have "\<exists>m'. map_of messages' j = Some (JObj m') \<and> (\<forall>k. k \<noteq> ''childrenIds'' \<longrightarrow> map_of m' k = map_of m k)"
    if "map_of ?old j = Some (JObj m)" "j \<notin> set ids" "user_message = [] \<or> j \<noteq> question" for j m
    using r(6) that unfolding keeps_messages_def old same_but_children_def by auto
  ultimately show ?thesis using t cur r(1,7) unfolding new by auto
qed

text \<open>
  C40: Every chat a client receives shows a leaf: reading a non-empty chat whose messages carry proper
  times and outputs never fails, leaves the messages as they are, and makes a message without replies
  the current one, which lies below the stored current message when that one is usable.
\<close>

theorem repair_points_at_leaf:
  assumes "chat_reachable n no_chats d" "map_of (chats d) i = Some item" "valid_chat e item"
    and "messages_in d i \<noteq> []" "\<forall>(j, v) \<in> set (messages_in d i). dated v"
  shows "\<exists>chat l v. get_chat_by_id e i d = Some (item\<lparr>ci_chat := JObj chat\<rparr>) \<and> chat_messages chat = messages_in d i \<and>
    chat_current chat = JStr l \<and> map_of (messages_in d i) l = Some v \<and> kids v = [] \<and>
    (current_usable (messages_in d i) (chat_current (dict_of (ci_chat item))) = Some True \<longrightarrow>
       (l, key (chat_current (dict_of (ci_chat item)))) \<in> {(c, p). \<exists>w. (c, w) \<in> set (messages_in d i) \<and> parent_of w = Some p}\<^sup>*)"
proof -
  obtain chat history messages where c: "ci_chat item = JObj chat" "jget chat ''history'' = JObj history"
    "jget history ''messages'' = JObj messages" "tree_ok messages" "stored_or_none messages (jget history ''currentId'')"
    "messages_in d i = messages" "chat_ok chat"
    using reached_chat [OF assms(1,2)] .
  have "nul_free (JObj chat)" using c(7) by (simp add: chat_ok_def)
  then have cl: "clean chat = chat" by (rule clean_id)
  obtain l v where l: "choose_current messages (jget history ''currentId'') = Some (JStr l)" "map_of messages l = Some v" "kids v = []"
    "current_usable messages (jget history ''currentId'') = Some True \<longrightarrow> (l, key (jget history ''currentId'')) \<in> (edges (tree messages))\<^sup>*"
    using choose_current_leaf [OF c(4) _ _ c(5)] assms(4,5) c(6) by blast
  have "repair_history history messages \<noteq> None"
    using repair_children_listed [OF c(4) order_refl] l(1) by (simp add: repair_history_def Let_def)
  then obtain chat' b where r: "repair_chat_current_id chat = Some (chat', b)"
    using c(2,3) by (auto simp: repair_chat_current_id_def)
  obtain h h' m where p: "jget chat ''history'' = JObj h" "jget h ''messages'' = JObj m"
    "chat' = AList.update ''history'' (JObj h') chat" "jget h' ''messages'' = JObj m"
    "choose_current m (jget h ''currentId'') = Some (jget h' ''currentId'')"
    using repair_ok [OF c(7) r] by metis
  have hm: "h = history" "m = messages" using p(1,2) c(2,3) by simp_all
  have g: "get_chat_by_id e i d = Some (item\<lparr>ci_chat := JObj chat'\<rparr>)"
    using assms(2,3) c(1) cl r by (simp add: get_chat_by_id_def)
  have n: "chat_messages chat' = messages" "chat_current chat' = JStr l"
    using p(3-5) hm l(1) by simp_all
  have e: "edges (tree messages) = {(c, p). \<exists>w. (c, w) \<in> set messages \<and> parent_of w = Some p}"
    by (auto simp: edges_tree)
  show ?thesis
    by (rule exI [of _ chat'], rule exI [of _ l], rule exI [of _ v]) (use g n l c in \<open>simp add: e\<close>)
qed

subsection \<open>Refused turns\<close>

lemma raised_not_bad: "raised x \<noteq> Inl bad_id"
  by (auto simp: raised_def bad_id_def split: option.splits)

lemma bind_not_bad: "r \<noteq> Inl bad_id \<Longrightarrow> (\<And>x. f x \<noteq> Inl bad_id) \<Longrightarrow> bind_result r f \<noteq> Inl bad_id"
  by (cases r) auto

lemma bind_bad: "(\<And>x. f x \<noteq> Inl bad_id) \<Longrightarrow> bind_result r f = Inl bad_id \<longleftrightarrow> r = Inl bad_id"
  by (cases r) auto

lemma if_bad: "(if b then Inl bad_id else r) = Inl bad_id \<longleftrightarrow> b \<or> r = Inl bad_id"
  by simp

lemma map_not_bad: "r \<noteq> Inl bad_id \<Longrightarrow> map_sum id f r \<noteq> Inl bad_id"
  by (cases r) auto

lemma user_message_not_bad: "turn_user_message e item user_id user_name messages user_message \<noteq> Inl bad_id"
  unfolding turn_user_message_def Let_def
  by (intro bind_not_bad) (auto simp: raised_not_bad bad_id_def raised_def intro!: bind_not_bad split: option.splits)

lemma check_replies_bad:
  "(\<And>v. v \<in> set vs \<Longrightarrow> \<exists>b. reply_taken item user_id user_message (jget messages (key v)) = Inr b) \<Longrightarrow>
    check_replies item user_id user_message messages vs =
      (if \<exists>v \<in> set vs. reply_taken item user_id user_message (jget messages (key v)) = Inr True then Inl bad_id else Inr ())"
proof (induction vs)
  case (Cons v vs)
  obtain b where "reply_taken item user_id user_message (jget messages (key v)) = Inr b" using Cons.prems [of v] by auto
  with Cons show ?case by (cases b) auto
qed simp

definition reply_unusable :: "chat_item \<Rightarrow> string \<Rightarrow> json dict \<Rightarrow> json dict \<Rightarrow> bool" where
  "reply_unusable item user_id user_message m \<longleftrightarrow>
     jget m ''role'' \<noteq> JStr ''assistant'' \<or> truthy (jget m ''done'') \<or> truthy (jget m ''content'') \<or>
     truthy (jget m ''output'') \<or> user_of m item \<noteq> JStr user_id \<or>
     user_message \<noteq> [] \<and> jget m ''parentId'' \<noteq> jget user_message ''id''"

lemma reply_taken_stored:
  assumes ok: "tree_ok messages" and um: "user_message \<noteq> [] \<Longrightarrow> is_id (jget user_message ''id'')"
  shows "reply_taken item user_id user_message (jget messages s) =
    Inr (case map_of messages s of None \<Rightarrow> False | Some v \<Rightarrow> reply_unusable item user_id user_message (dict_of v))"
proof (cases "map_of messages s")
  case None
  then show ?thesis by (simp add: reply_taken_def jget_def)
next
  case (Some v)
  obtain m where m: "v = JObj m" "node_ok s v" using tree_ok_stored [OF ok Some] by metis
  have "truthy (JObj m)" using stored_truthy [OF ok, of s] Some m(1) by (simp add: jget_map_of)
  moreover have "user_message \<noteq> [] \<Longrightarrow> py_eq (jget m ''parentId'') (jget user_message ''id'') \<longleftrightarrow> jget m ''parentId'' = jget user_message ''id''"
    using um node_ok_parent(1) [OF m(2)] m(1) by (auto simp: is_id_iff split: option.splits)
  ultimately show ?thesis
    using Some m(1) by (auto simp: reply_taken_def raised_def jget_map_of reply_unusable_def)
qed

text \<open>
  C33: A turn is refused with the status 409 for its identifiers exactly when one of them is no
  non-empty string, two are equal, or a reply exists that is not an empty unfinished reply of the same
  user to the same message; whatever the reason, a refused turn changes nothing.
\<close>

theorem turn_refused_exactly:
  fixes e :: chat_env and user_id user_name :: string and user_message :: "json dict" and entries :: "json dict list"
  assumes "chat_reachable n no_chats d" "map_of (chats d) i = Some item"
  defines "ids \<equiv> (if user_message = [] then [] else [jget user_message ''id'']) @ map (\<lambda>entry. jget entry ''message_id'') entries"
    and "r \<equiv> insert_chat_turn e i True user_id user_name user_message entries d"
  shows "(fst r = Inl (HTTPException 409 ''Message already exists or has an invalid ID.'') \<longleftrightarrow>
      \<not> (list_all is_id ids \<and> distinct ids) \<or>
      (\<exists>entry \<in> set entries. \<exists>m. map_of (messages_in d i) (key (jget entry ''message_id'')) = Some (JObj m) \<and>
         reply_unusable item user_id user_message m)) \<and>
    (\<forall>err. fst r = Inl err \<longrightarrow> snd r = d)"
proof -
  obtain chat history messages where c: "ci_chat item = JObj chat" "jget chat ''history'' = JObj history"
    "jget history ''messages'' = JObj messages" "tree_ok messages" "messages_in d i = messages"
    using reached_chat [OF assms(1,2)] by metis
  have ne: "chat \<noteq> []" "history \<noteq> []" using c(2,3) by (auto simp: jget_def)
  let ?rids = "map (\<lambda>entry. jget entry ''message_id'') entries"
  let ?ids = "if user_message = [] then ?rids else jget user_message ''id'' # ?rids"
  have e: "?ids = ids" by (simp add: ids_def)
  have jm: "dict (jor (JObj messages) (JObj [])) = Some messages" by (cases "messages = []") (auto simp: jor_def)
  let ?run = "turn_body e i user_id user_name user_message entries item (rows d)"
  have run: "?run = Inl bad_id \<longleftrightarrow> \<not> list_all is_id ids \<or> \<not> distinct ids \<or> check_replies item user_id user_message messages ?rids = Inl bad_id"
  proof -
    have start: "chat_data item = Some chat" "dict (jor (jget chat ''history'') (JObj [(''messages'', JObj []), (''currentId'', JNull)])) = Some history"
      "dict (jor (jget history ''messages'') (JObj [])) = Some messages"
      using ne jm c(1-3) by (simp_all add: chat_data_def jor_def)
    have raised: "raised (Some x) = Inr x" for x :: 'z by (simp add: raised_def)
    show ?thesis
      unfolding turn_body_def start raised bind_result_simps Let_def e if_bad
      by (subst bind_bad, simp_all add: split_beta bind_not_bad raised_not_bad map_not_bad user_message_not_bad) blast
  qed
  have "fst r = Inl bad_id \<longleftrightarrow> ?run = Inl bad_id"
    using assms(2) by (auto simp: r_def insert_chat_turn_def split: sum.splits)
  moreover have "check_replies item user_id user_message messages ?rids = Inl bad_id \<longleftrightarrow>
      (\<exists>entry \<in> set entries. \<exists>m. map_of messages (key (jget entry ''message_id'')) = Some (JObj m) \<and> reply_unusable item user_id user_message m)"
    if "list_all is_id ids"
  proof -
    have "is_id (jget user_message ''id'')" if "user_message \<noteq> []" using \<open>list_all is_id ids\<close> that by (simp add: ids_def)
    note taken = reply_taken_stored [OF c(4) this]
    have "\<exists>m. v = JObj m" if "map_of messages s = Some v" for s v using tree_ok_stored [OF c(4) that] by metis
    then show ?thesis
      by (subst check_replies_bad) (force simp: taken split: option.splits)+
  qed
  moreover have "snd r = d" if "fst r = Inl err" for err
    using that assms(2) by (auto simp: r_def insert_chat_turn_def split: sum.splits)
  ultimately show ?thesis using run unfolding c(5) bad_id_def [symmetric] by blast
qed

text \<open>
  C34: Only the owner of a chat and users it was shared with for continuation change it by a turn: an
  administrator who may read every chat may not continue it.
\<close>

theorem only_permitted_users_continue:
  assumes "snd (continue_chat e a t i user user_message message_ids d) \<noteq> d"
  shows "\<exists>item. map_of (chats d) i = Some item \<and> u_role user \<in> {''user'', ''admin''} \<and>
    (ci_user_id item = u_id user \<or>
     ca_shared_mode a = Some (JStr ''continue'') \<and> has_access t (u_id user) ''shared_chat'' i ''read'' None \<or>
     (\<exists>f folder. ca_folder_id a = Some f \<and> get_folder_by_id t f = Some folder \<and>
        jget (dict_of (f_data folder)) ''share_mode'' = JStr ''continue'' \<and> has_folder_access t (u_id user) folder ''read''))"
proof -
  obtain chat where chat: "get_chat_by_id e i d = Some chat" "get_accessible_chat_by_id a t i chat user ''write''"
    using assms by (auto simp: continue_chat_def insert_chat_turn_def split: option.splits if_splits)
  then obtain item where item: "map_of (chats d) i = Some item" "ci_user_id chat = ci_user_id item"
    by (auto simp: get_chat_by_id_def bind_eq_Some_conv split: if_splits)
  show ?thesis
    using chat(2) item by (auto simp: get_accessible_chat_by_id_def split: if_splits option.splits)
qed

text \<open>
  A turn without a user message writes its reply without a parent: a reply that was prepared below a
  message loses its place, while the message still lists it.
\<close>

definition sample_detached :: chat_db where
  "sample_detached = snd (insert_chat_turn sample_env ''c'' True ''u'' ''U'' [] [sample_entry] sample_asked)"

lemma empty_turn_detaches_reply:
  "tree (messages_in sample_asked ''c'') = [(''q'', None), (''a'', Some ''q'')] \<and>
    tree (messages_in sample_detached ''c'') = [(''q'', None), (''a'', None)] \<and>
    kids (jget (messages_in sample_detached ''c'') ''q'') = [''a'']"
  by code_simp

subsection \<open>Witnesses\<close>


theorem chat_stores_agree_witness:
  "\<exists>r. get_row (rows sample_started) (composite_id ''c'' ''a'') = Some r \<and> mr_role r = JStr ''assistant'' \<and>
     mr_parent_id r = JStr ''q'' \<and> mr_content r = JStr ''ho''"
proof -
  have "length ''c'' = 1" by simp
  note agree = chat_stores_agree [OF sample_started_reachable this, of "''a''"]
  have "map_of (messages_in sample_started ''c'') ''a'' = map_of sample_messages_sent ''a''" by code_simp
  with agree show ?thesis
    by (cases "get_row (rows sample_started) (composite_id ''c'' ''a'')")
      (auto simp: sample_messages_sent_def jget_def)
qed

theorem branch_from_rows_witness:
  "\<exists>M ids. get_messages_map_by_chat_id sample_env ''c'' sample_asked = Some (Some M, sample_asked) \<and> last ids = ''a'' \<and>
    get_message_list M (JStr ''a'') = Inr (map (jget M) ids)"
proof -
  have "map_of (messages_in sample_asked ''c'') ''a'' \<noteq> None" unfolding sample_reply by simp
  from branch_from_rows [OF sample_reachable this, of sample_env] show ?thesis by blast
qed


theorem delete_message_exact_witness:
  "\<exists>M c. delete_message_from_history [(''messages'', JObj (messages_in sample_asked ''c'')), (''currentId'', JStr ''a'')] ''a'' =
      Some (AList.update ''currentId'' c (AList.update ''messages'' (JObj M)
        [(''messages'', JObj (messages_in sample_asked ''c'')), (''currentId'', JStr ''a'')]), [''a'']) \<and>
    tree M = [(''q'', None)]"
proof -
  have "kids (JObj sample_reply) = []" "tree (messages_in sample_asked ''c'') = [(''q'', None), (''a'', Some ''q'')]"
    by code_simp+
  with delete_message_exact [OF sample_tree _ sample_reply, of "[(''messages'', JObj (messages_in sample_asked ''c'')), (''currentId'', JStr ''a'')]"]
  show ?thesis by (auto simp: jget_def)
qed

theorem protected_messages_kept_witness:
  "\<exists>m'. map_of (messages_in sample_attacked ''c'') ''a'' = Some (JObj m') \<and>
    map_of m' ''content'' = Some (JStr []) \<and> map_of m' ''parentId'' = Some (JStr ''q'')"
proof -
  let ?r = "update_chat_by_id sample_env ''c'' sample_attack True sample_asked"
  have r: "?r = (Some (the (fst ?r)), sample_attacked)" "nul_free (JObj sample_attack)" by code_simp+
  have m: "jget sample_reply ''role'' = JStr ''assistant'' \<and> jget sample_reply ''done'' = JBool False"
    "map_of sample_reply ''content'' = Some (JStr [])" "map_of sample_reply ''parentId'' = Some (JStr ''q'')" by code_simp+
  from protected_messages_kept [OF sample_reachable sample_items(1) r(2,1) sample_reply] m show ?thesis by auto
qed

theorem chat_turn_appended_witness:
  "tree (messages_in sample_asked ''c'') = tree (messages_in sample_created ''c'') @ [(''q'', None), (''a'', Some ''q'')]"
proof -
  let ?r = "insert_chat_turn sample_env ''c'' True ''u'' ''U'' sample_question [sample_entry] sample_created"
  have r: "?r = (Inr (fst (projr (fst ?r)), snd (projr (fst ?r))), sample_asked)" by code_simp
  have "drop (length (messages_in sample_created ''c'')) (tree (messages_in sample_asked ''c'')) = [(''q'', None), (''a'', Some ''q'')]"
    by code_simp
  with chat_turn_appended [OF sample_created_reachable sample_items(2) sample_turns r] show ?thesis by (simp only:)
qed

theorem repair_points_at_leaf_witness:
  "\<exists>chat. get_chat_by_id sample_env ''c'' sample_asked = Some (sample_item\<lparr>ci_chat := JObj chat\<rparr>) \<and>
    chat_messages chat = messages_in sample_asked ''c''"
proof -
  have "valid_chat sample_env sample_item" by code_simp
  moreover have "messages_in sample_asked ''c'' \<noteq> []" by code_simp
  moreover have "list_all (\<lambda>(j, v). dated v) (messages_in sample_asked ''c'')" by code_simp
  ultimately show ?thesis
    using repair_points_at_leaf [OF sample_reachable sample_items(1), of sample_env] by (auto simp: list_all_iff)
qed

theorem turn_refused_exactly_witness:
  "fst (insert_chat_turn sample_env ''c'' True ''v'' ''V'' [(''id'', JStr ''p'')] [sample_entry] sample_asked) =
    Inl (HTTPException 409 ''Message already exists or has an invalid ID.'')"
proof -
  have "map_of (messages_in sample_asked ''c'') (key (jget sample_entry ''message_id'')) = Some (JObj sample_reply)" by code_simp
  moreover have "reply_unusable sample_item ''v'' [(''id'', JStr ''p'')] sample_reply" by code_simp
  ultimately show ?thesis
    using turn_refused_exactly [OF sample_reachable sample_items(1), where user_message = "[(''id'', JStr ''p'')]"
      and entries = "[sample_entry]" and e = sample_env and user_id = "''v''" and user_name = "''V''"]
    by fastforce
qed

definition sample_access :: chat_access where
  "sample_access = \<lparr>ca_meta = JNull, ca_shared_mode = None, ca_folder_id = None, ca_admin_access = True\<rparr>"

theorem only_permitted_users_continue_witness:
  "\<exists>item. map_of (chats sample_created) ''c'' = Some item \<and> ci_user_id item = ''u''"
proof -
  have "snd (continue_chat sample_env sample_access empty_db ''c'' \<lparr>u_id = ''u'', u_role = ''user'', u_name = ''U'', u_email = []\<rparr>
      sample_question [sample_entry] sample_created) \<noteq> sample_created"
    by code_simp
  from only_permitted_users_continue [OF this] show ?thesis by (auto simp: sample_access_def)
qed

end
