(* ===== verification/ResponseStream.thy ===== *)
theory ResponseStream
  imports Dynamic PyStr
begin

text \<open>
  The reducer of response streams (\<open>utils/response.py\<close>): an event of a language model and the output
  items so far give the new items and what else the event reports. The items that an event does not
  name stay as they are, except that the end of a response completes reasoning items, in place in the code.
  \<open>None\<close> is a raised exception.
\<close>

subsection \<open>Indices and parts\<close>

definition resolve :: "'a list \<Rightarrow> int \<Rightarrow> nat option" where
  "resolve xs n =
     (if 0 \<le> n \<and> n < int (length xs) then Some (nat n)
      else if n < 0 \<and> 0 \<le> n + int (length xs) then Some (nat (n + int (length xs))) else None)"

text \<open>\<open>xs and 0 <= i < len(xs)\<close>\<close>

definition in_range :: "json list \<Rightarrow> json \<Rightarrow> nat option option" where
  "in_range xs i =
     (if xs = [] then Some None
      else do { n \<leftarrow> number i; Some (if 0 \<le> n \<and> n < int (length xs) then Some (nat n) else None) })"

definition output_index :: "json dict \<Rightarrow> json list \<Rightarrow> json" where
  "output_index data output_items = jget_default data ''output_index'' (JInt (int (length output_items) - 1))"

text \<open>A copy of one item is changed; anything but a dictionary fails.\<close>

definition change_item :: "json list \<Rightarrow> nat \<Rightarrow> (json dict \<Rightarrow> json dict option) \<Rightarrow> json list option" where
  "change_item output_items k f = do {
     item \<leftarrow> dict (output_items ! k);
     item \<leftarrow> f item;
     Some (output_items[k := JObj item]) }"

definition parts_of :: "string \<Rightarrow> json dict \<Rightarrow> json list option" where
  "parts_of field item = (case map_of item field of None \<Rightarrow> Some [] | Some v \<Rightarrow> iterate v)"

definition pad :: "json \<Rightarrow> int \<Rightarrow> json list \<Rightarrow> json list" where
  "pad filler n xs = xs @ replicate (nat (n + 1 - int (length xs))) filler"

fun deep_merge :: "json \<Rightarrow> json \<Rightarrow> json" and deep_merge_items :: "json dict \<Rightarrow> json dict \<Rightarrow> json dict" where
  "deep_merge (JObj target) (JObj source) = JObj (deep_merge_items target source)"
| "deep_merge (JStr target) (JStr source) = JStr (target @ source)"
| "deep_merge target source = source"
| "deep_merge_items target [] = target"
| "deep_merge_items target ((k, v) # source) =
     deep_merge_items (AList.update k (case map_of target k of None \<Rightarrow> v | Some w \<Rightarrow> deep_merge w v) target) source"

subsection \<open>New items and parts\<close>

definition same_item :: "json \<Rightarrow> json \<Rightarrow> bool option" where
  "same_item item existing = do {
     m \<leftarrow> dict item;
     same_id \<leftarrow> (if truthy (jget m ''id'')
       then map_option (\<lambda>x. py_eq (jget x ''id'') (jget m ''id'')) (dict existing) else Some False);
     if same_id then Some True
     else if truthy (jget m ''call_id'')
     then map_option (\<lambda>x. py_eq (jget x ''type'') (jget m ''type'') \<and> py_eq (jget x ''call_id'') (jget m ''call_id'')) (dict existing)
     else Some False }"

fun existing_index :: "json \<Rightarrow> json list \<Rightarrow> nat option option" where
  "existing_index item [] = Some None"
| "existing_index item (x # xs) = do {
     same \<leftarrow> same_item item x;
     if same then Some (Some 0) else map_option (map_option Suc) (existing_index item xs) }"

definition item_added :: "json dict \<Rightarrow> json list \<Rightarrow> json list option" where
  "item_added data output_items =
     (let item = jget_default data ''item'' (JObj [])
      in if \<not> truthy item then Some output_items
      else do {
        existing \<leftarrow> existing_index item output_items;
        (case existing of
           Some k \<Rightarrow> Some (output_items[k := item])
         | None \<Rightarrow> do {
             n \<leftarrow> number (jget_default data ''output_index'' (JInt (int (length output_items))));
             Some (if 0 \<le> n \<and> n < int (length output_items)
                   then take (nat n) output_items @ item # drop (nat n) output_items
                   else output_items @ [item]) }) })"

definition part_added :: "string \<Rightarrow> json dict \<Rightarrow> json list \<Rightarrow> json list option" where
  "part_added field data output_items = do {
     k \<leftarrow> in_range output_items (output_index data output_items);
     (case k of
        None \<Rightarrow> Some output_items
      | Some k \<Rightarrow> change_item output_items k (\<lambda>item. do {
          parts \<leftarrow> parts_of field item;
          let part = jget_default data ''part'' (JObj []);
          Some (AList.update field
            (JList (if field = ''content'' \<and> jget item ''type'' = JStr ''reasoning'' then parts else parts @ [part])) item) })) }"

subsection \<open>Deltas\<close>

definition text_deltas :: "string list" where
  "text_deltas = [''text'', ''output_text'']"

definition reasoning_deltas :: "string list" where
  "reasoning_deltas = [''reasoning_text'', ''reasoning_summary_text'']"

definition merge_part :: "(json dict \<Rightarrow> json) \<Rightarrow> json \<Rightarrow> json \<Rightarrow> string \<Rightarrow> json \<Rightarrow> json list \<Rightarrow> json list option" where
  "merge_part initial filler index k delta parts = do {
     n \<leftarrow> number index;
     let parts = pad filler n parts;
     i \<leftarrow> resolve parts n;
     part \<leftarrow> dict (parts ! i);
     Some (parts[i := JObj (AList.update k (deep_merge (initial part) delta) part)]) }"

definition merge_field ::
  "string \<Rightarrow> (json dict \<Rightarrow> json) \<Rightarrow> json \<Rightarrow> json \<Rightarrow> string \<Rightarrow> json \<Rightarrow> json dict \<Rightarrow> json dict option" where
  "merge_field field initial filler index k delta item = do {
     parts \<leftarrow> parts_of field item;
     parts \<leftarrow> merge_part initial filler index k delta parts;
     Some (AList.update field (JList parts) item) }"

text \<open>The value a delta starts from: an empty one of its kind where there is none.\<close>

definition current_val :: "string \<Rightarrow> json \<Rightarrow> json dict \<Rightarrow> json" where
  "current_val k delta part =
     (if jget part k = JNull then (if is_dict delta then JObj [] else JStr []) else jget part k)"

definition text_part :: json where
  "text_part = JObj [(''type'', JStr ''text''), (''text'', JStr [])]"

definition summary_part :: json where
  "summary_part = JObj [(''type'', JStr ''summary_text''), (''text'', JStr [])]"

definition append_arguments :: "json \<Rightarrow> json dict \<Rightarrow> json dict option" where
  "append_arguments delta item =
     (case jget_default item ''arguments'' (JStr []) of
        JStr s \<Rightarrow> Some (AList.update ''arguments'' (JStr (s @ py_str delta)) item)
      | _ \<Rightarrow> None)"

definition message_delta :: "string \<Rightarrow> json dict \<Rightarrow> json \<Rightarrow> json dict \<Rightarrow> json dict option" where
  "message_delta delta_type data delta item =
     (if delta_type \<in> set reasoning_deltas then Some item
      else
        (let k = (if delta_type \<in> set text_deltas then ''text'' else delta_type)
         in merge_field ''content'' (current_val k delta) text_part (jget_default data ''content_index'' (JInt 0)) k delta item))"

definition reasoning_delta :: "string \<Rightarrow> json dict \<Rightarrow> json \<Rightarrow> json dict \<Rightarrow> json dict option" where
  "reasoning_delta delta_type data delta item =
     (if delta_type = ''reasoning_summary_text'' then
        merge_field ''summary'' (\<lambda>part. jget_default part ''text'' (JStr [])) summary_part
          (jget_default data ''summary_index'' (JInt 0)) ''text'' delta item
      else if delta_type = ''reasoning_text'' then
        merge_field ''content'' (\<lambda>part. jget_default part ''text'' (JStr [])) text_part
          (jget_default data ''content_index'' (JInt 0)) ''text'' delta item
      else Some item)"

definition other_delta :: "string \<Rightarrow> json \<Rightarrow> json dict \<Rightarrow> json dict" where
  "other_delta delta_type delta item =
     (let k = (if delta_type \<in> set text_deltas then ''text'' else delta_type)
      in AList.update k (deep_merge (current_val k delta item) delta) item)"

definition delta_item :: "string \<Rightarrow> json dict \<Rightarrow> json dict \<Rightarrow> json dict option" where
  "delta_item delta_type data item =
     (let delta = jget_default data ''delta'' (JStr []); item_type = jget_default item ''type'' (JStr [])
      in if delta_type = ''function_call_arguments''
         then (if item_type = JStr ''function_call'' then append_arguments delta item else Some item)
         else if item_type = JStr ''message'' then message_delta delta_type data delta item
         else if item_type = JStr ''reasoning'' then reasoning_delta delta_type data delta item
         else Some (other_delta delta_type delta item))"

text \<open>A delta can come before its item: the missing items are created.\<close>

definition new_item :: json where
  "new_item = JObj [(''type'', JStr ''message''), (''status'', JStr ''in_progress''), (''role'', JStr ''assistant''), (''content'', JList [])]"

definition started_item :: "string \<Rightarrow> json dict \<Rightarrow> json" where
  "started_item delta_type data =
     JObj (AList.update ''type'' (JStr
         (if starts_with ''reasoning'' delta_type then ''reasoning''
          else if delta_type = ''function_call_arguments'' then ''function_call'' else ''message''))
       (AList.update ''id'' (jget data ''item_id'') (dict_of new_item)))"

definition delta_event :: "string \<Rightarrow> json dict \<Rightarrow> json list \<Rightarrow> json list option" where
  "delta_event delta_type data output_items = do {
     n \<leftarrow> number (jget_default data ''output_index'' (JInt (max (int (length output_items) - 1) 0)));
     let output_items = (if int (length output_items) \<le> n
       then (pad new_item n output_items)[nat n := started_item delta_type data] else output_items);
     if output_items \<noteq> [] \<and> 0 \<le> n \<and> n < int (length output_items)
     then change_item output_items (nat n) (delta_item delta_type data) else Some output_items }"

subsection \<open>Ends of items and parts\<close>

definition item_done :: "json dict \<Rightarrow> json list \<Rightarrow> json list option" where
  "item_done data output_items =
     (let item = jget data ''item''
      in if \<not> truthy item then Some output_items
         else do {
           n \<leftarrow> number (output_index data output_items);
           Some (if 0 \<le> n \<and> n < int (length output_items) then output_items[nat n := item] else output_items @ [item]) })"

text \<open>The copy and the membership test of a list raise nothing; only its use as a dictionary does.\<close>

definition part_done :: "string \<Rightarrow> string \<Rightarrow> json dict \<Rightarrow> json list \<Rightarrow> (json list \<times> json) option" where
  "part_done field index_key data output_items =
     (if \<not> truthy (jget data ''part'') then Some (output_items, JNull)
      else do {
        k \<leftarrow> in_range output_items (output_index data output_items);
        (case k of
           None \<Rightarrow> Some (output_items, JNull)
         | Some k \<Rightarrow> do {
             present \<leftarrow> (case output_items ! k of JObj m \<Rightarrow> Some (map_of m field \<noteq> None)
               | JList xs \<Rightarrow> Some (JStr field \<in> set xs) | _ \<Rightarrow> None);
             if \<not> present then Some (output_items, JNull)
             else do {
               item \<leftarrow> dict (output_items ! k);
               parts \<leftarrow> parts_of field item;
               n \<leftarrow> number (jget_default data index_key (JInt (int (length parts) - 1)));
               Some (if 0 \<le> n \<and> n < int (length parts)
                     then (output_items[k := JObj (AList.update field (JList (parts[nat n := jget data ''part''])) item)], JObj [])
                     else (output_items, JNull)) } }) })"

definition done_key :: "string \<Rightarrow> string" where
  "done_key type_name =
     (if type_name = ''function_call_arguments'' then ''arguments''
      else if type_name \<in> set text_deltas \<union> set reasoning_deltas then ''text'' else type_name)"

definition set_part :: "json \<Rightarrow> string \<Rightarrow> json \<Rightarrow> json dict \<Rightarrow> json dict option" where
  "set_part index k v item =
     (case map_of item ''content'' of
        None \<Rightarrow> Some item
      | Some c \<Rightarrow> do {
          parts \<leftarrow> iterate c;
          n \<leftarrow> number index;
          if int (length parts) \<le> n then Some (AList.update ''content'' (JList parts) item)
          else do {
            i \<leftarrow> resolve parts n;
            part \<leftarrow> dict (parts ! i);
            Some (AList.update ''content'' (JList (parts[i := JObj (AList.update k v part)])) item) } })"

definition done_item :: "string \<Rightarrow> json dict \<Rightarrow> json dict \<Rightarrow> json dict option" where
  "done_item type_name data item =
     (let k = done_key type_name; final_value = jget data k; item_type = jget_default item ''type'' (JStr [])
      in if type_name = ''function_call_arguments''
         then Some (if item_type = JStr ''function_call'' then AList.update ''arguments'' final_value item else item)
         else if item_type = JStr ''message''
         then set_part (jget_default data ''content_index'' (JInt 0)) k final_value item
         else if item_type = JStr ''reasoning'' then Some (AList.update ''status'' (JStr ''completed'') item)
         else Some (AList.update k final_value item))"

definition field_done :: "string \<Rightarrow> json dict \<Rightarrow> json list \<Rightarrow> (json list \<times> json) option" where
  "field_done type_name data output_items =
     (if type_name \<in> {''completed'', ''failed''} then Some (output_items, JNull)
      else do {
        k \<leftarrow> in_range output_items (output_index data output_items);
        (case k of
           None \<Rightarrow> Some (output_items, JNull)
         | Some k \<Rightarrow>
             if map_of data (done_key type_name) = None then Some (output_items, JNull)
             else map_option (\<lambda>out. (out, JObj [])) (change_item output_items k (done_item type_name data))) })"

definition done_event :: "string \<Rightarrow> json dict \<Rightarrow> json list \<Rightarrow> (json list \<times> json) option" where
  "done_event type_name data output_items =
     (if type_name = ''content_part'' then part_done ''content'' ''content_index'' data output_items
      else if type_name = ''reasoning_summary_part'' then part_done ''summary'' ''summary_index'' data output_items
      else field_done type_name data output_items)"

subsection \<open>The end of the response\<close>

fun complete_reasoning :: "json list \<Rightarrow> json list option" where
  "complete_reasoning [] = Some []"
| "complete_reasoning (x # xs) = do {
     item \<leftarrow> dict x;
     ys \<leftarrow> complete_reasoning xs;
     Some ((if jget item ''type'' = JStr ''reasoning'' \<and> jget item ''status'' \<noteq> JStr ''completed''
            then JObj (AList.update ''status'' (JStr ''completed'') item) else x) # ys) }"

definition completed_event :: "json dict \<Rightarrow> json list \<Rightarrow> (json list \<times> json) option" where
  "completed_event data output_items = do {
     response_data \<leftarrow> dict (jget_default data ''response'' (JObj []));
     let final_output = jget response_data ''output'';
     items \<leftarrow> (if truthy final_output then (case final_output of JList xs \<Rightarrow> Some xs | _ \<Rightarrow> None) else Some output_items);
     items \<leftarrow> complete_reasoning items;
     Some (items, JObj [(''usage'', jget response_data ''usage''), (''done'', JBool True), (''response_id'', jget response_data ''id'')]) }"

text \<open>All events, in the order of the tests. The metadata is \<open>None\<close>, or a dictionary for the caller.\<close>

definition handle_responses_streaming_event :: "json dict \<Rightarrow> json list \<Rightarrow> (json list \<times> json) option" where
  "handle_responses_streaming_event data output_items =
     (case jget_default data ''type'' (JStr []) of
        JStr event_type \<Rightarrow>
          (let parts = split_on (CHR ''.'') event_type; unchanged = Some (output_items, JNull);
               quiet = map_option (\<lambda>out. (out, JNull))
           in if event_type = ''response.output_item.added'' then quiet (item_added data output_items)
              else if event_type = ''response.content_part.added'' then quiet (part_added ''content'' data output_items)
              else if event_type = ''response.reasoning_summary_part.added'' then quiet (part_added ''summary'' data output_items)
              else if starts_with ''response.'' event_type \<and> ends_with ''.delta'' event_type
              then (if length parts < 3 then unchanged else quiet (delta_event (parts ! 1) data output_items))
              else if event_type = ''response.output_item.done''
              then map_option (\<lambda>out. (out, JObj [])) (item_done data output_items)
              else if starts_with ''response.'' event_type \<and> ends_with ''.done'' event_type
              then (if length parts < 3 then unchanged else done_event (parts ! 1) data output_items)
              else if event_type = ''response.completed'' then completed_event data output_items
              else if event_type = ''response.failed''
              then do {
                response \<leftarrow> dict (jget_default data ''response'' (JObj []));
                Some (output_items, JObj [(''error'', jget_default response ''error'' (JObj []))]) }
              else if event_type = ''error'' then Some (output_items, JObj [(''error'', JObj data)])
              else unchanged)
      | _ \<Rightarrow> None)"

subsection \<open>Coalescing\<close>

text \<open>Adjacent deltas with equal keys belong to the same part.\<close>

definition get_response_delta_key :: "json dict \<Rightarrow> json list option option" where
  "get_response_delta_key delta_data =
     (case jget_default delta_data ''type'' (JStr []) of
        JStr event_type \<Rightarrow> Some
          (if starts_with ''response.'' event_type \<and> ends_with ''.delta'' event_type
           then Some (JStr event_type # map (jget delta_data) [''item_id'', ''output_index'', ''content_index'', ''summary_index''])
           else None)
      | _ \<Rightarrow> None)"

end
