(* ===== verification/StreamRelay.thy ===== *)
theory StreamRelay
  imports ResponseStream Usage
begin

text \<open>
  The relay of a provider's response stream: what the server keeps of a response, sends to the client
  and stores for a client that reconnects (\<open>utils/middleware.py\<close>, \<open>tasks.py\<close>). The JSON codec and the
  outcome of a Redis call are parameters. The marks that a failing \<open>response.completed\<close> sets on the items
  before it raises are left out.
\<close>

subsection \<open>The stored stream\<close>

text \<open>Equality of two keys, as tuples or \<open>None\<close>; \<open>itertools.groupby\<close>.\<close>

fun same_key :: "json list option \<Rightarrow> json list option \<Rightarrow> bool" where
  "same_key None None = True"
| "same_key (Some a) (Some b) = (length a = length b \<and> list_all (\<lambda>(x, y). py_eq x y) (zip a b))"
| "same_key _ _ = False"

function groupby :: "('k \<Rightarrow> 'k \<Rightarrow> bool) \<Rightarrow> ('k \<times> 'a) list \<Rightarrow> 'a list list" where
  "groupby eq [] = []"
| "groupby eq ((k, x) # xs) =
     (x # map snd (takeWhile (\<lambda>(l, _). eq k l) xs)) # groupby eq (dropWhile (\<lambda>(l, _). eq k l) xs)"
  by pat_completeness auto
termination
  by (relation "measure (length \<circ> snd)") (auto simp: le_imp_less_Suc length_dropWhile_le)

text \<open>\<open>first['delta'] + ''.join(...)\<close>\<close>

definition string_delta :: "json dict \<Rightarrow> string option" where
  "string_delta event = (case map_of event ''delta'' of Some (JStr s) \<Rightarrow> Some s | _ \<Rightarrow> None)"

definition joined_delta :: "json dict list \<Rightarrow> json dict option" where
  "joined_delta events = do {
     texts \<leftarrow> concat_option string_delta events;
     Some (AList.update ''delta'' (JStr texts) (hd events)) }"

fun all_some :: "'a option list \<Rightarrow> 'a list option" where
  "all_some [] = Some []"
| "all_some (x # xs) = do { y \<leftarrow> x; ys \<leftarrow> all_some xs; Some (y # ys) }"

fun apply_events :: "json dict list \<Rightarrow> json list \<Rightarrow> json list option" where
  "apply_events [] output_items = Some output_items"
| "apply_events (event # events) output_items = do {
     (items, _) \<leftarrow> handle_responses_streaming_event event output_items;
     apply_events events items }"

definition coalesce :: "json dict list \<Rightarrow> json dict list option" where
  "coalesce deltas = do {
     keyed \<leftarrow> all_some (map (\<lambda>d. map_option (\<lambda>k. (k, d)) (get_response_delta_key d)) deltas);
     all_some (map joined_delta (groupby same_key keyed)) }"

definition load_response_stream :: "(string \<Rightarrow> json option) \<Rightarrow> string \<Rightarrow> json option" where
  "load_response_stream loads v = do {
     values \<leftarrow> all_some (map loads (filter (\<lambda>line. line \<noteq> []) (split_on (CHR 0x0A) v)));
     (case values of
        [] \<Rightarrow> None
      | snapshot # deltas \<Rightarrow>
          if deltas = [] then Some snapshot
          else do {
            deltas \<leftarrow> all_some (map dict deltas);
            deltas \<leftarrow> coalesce deltas;
            data \<leftarrow> dict snapshot;
            items \<leftarrow> (case map_of data ''output'' of Some (JList xs) \<Rightarrow> Some xs | _ \<Rightarrow> None);
            items \<leftarrow> apply_events deltas items;
            Some (JObj (AList.update ''output'' (JList items) data)) }) }"

text \<open>
  The outcome of a Redis call: how often it was executed (the driver retries), and whether its last reply
  arrived; \<open>False\<close> is a \<open>RedisError\<close>. The value of the key is a string, empty when there is none.
\<close>

type_synonym redis_outcome = "nat \<times> bool"

definition append_script :: "nat \<Rightarrow> string \<Rightarrow> bool \<times> string option \<Rightarrow> bool \<times> string option" where
  "append_script expected delta r =
     (let v = (case snd r of None \<Rightarrow> [] | Some v \<Rightarrow> v)
      in if length v \<noteq> expected then (False, snd r) else (True, Some (v @ delta)))"

definition append_response_stream :: "redis_outcome \<Rightarrow> string \<Rightarrow> nat \<Rightarrow> string option \<Rightarrow> bool \<times> string option" where
  "append_response_stream io delta expected stored_value =
     (let (appended, v) = (append_script expected delta ^^ fst io) (False, stored_value) in (appended \<and> snd io, v))"

subsection \<open>The state of a response\<close>

text \<open>
  The variables of the handler, the stored values, and what was sent or written in the chat. The pending
  event is empty when there is none. \<open>stored\<close> is the value of the Redis key; without Redis the snapshot is
  in \<open>local_stream\<close>.
\<close>

datatype effect = Emit string json | Save_error json

record stream_round =
  output_items :: "json list"
  prior_output :: "json list"
  usage :: json
  current_usage :: json
  last_response_id :: json
  stream_size :: nat
  snapshot_size :: nat
  delta_count :: int
  last_delta_data :: "json dict"
  last_delta_type :: string
  last_delta_key :: "json list option"
  stored :: "string option"
  local_stream :: "json option"
  effects :: "effect list"

record stream_env =
  redis :: bool
  task_id :: string
  chat_id :: string
  message_id :: string
  continuing :: bool
  stateful :: bool
  save_to_chat :: bool
  delta_chunk_size :: int
  dumps_bytes :: "json \<Rightarrow> string"

text \<open>A step changes the state and may raise; what it did before it raised stays.\<close>

type_synonym step = "stream_round \<Rightarrow> bool \<times> stream_round"

definition lift :: "(stream_round \<Rightarrow> stream_round) \<Rightarrow> step" where
  "lift f st = (True, f st)"

definition andthen :: "step \<Rightarrow> step \<Rightarrow> step" where
  "andthen f g st = (case f st of (True, st') \<Rightarrow> g st' | (False, st') \<Rightarrow> (False, st'))"

definition attempt :: "'a option \<Rightarrow> ('a \<Rightarrow> step) \<Rightarrow> step" where
  "attempt v f st = (case v of None \<Rightarrow> (False, st) | Some x \<Rightarrow> f x st)"

fun each :: "('a \<Rightarrow> step) \<Rightarrow> 'a list \<Rightarrow> step" where
  "each f [] = lift id"
| "each f (x # xs) = andthen (f x) (each f xs)"

definition event_emitter :: "string \<Rightarrow> json \<Rightarrow> stream_round \<Rightarrow> stream_round" where
  "event_emitter event_type data st = st\<lparr>effects := effects st @ [Emit event_type data]\<rparr>"

text \<open>\<open>full_output\<close>: a continued answer goes on in the last message of the earlier output.\<close>

definition assistant :: "json dict \<Rightarrow> bool" where
  "assistant item \<longleftrightarrow> jget_default item ''role'' (JStr ''assistant'') = JStr ''assistant''"

definition merged_message :: "json dict \<Rightarrow> json dict \<Rightarrow> json dict option" where
  "merged_message p q = do {
     xs \<leftarrow> iterate (jget_default p ''content'' (JList []));
     ys \<leftarrow> iterate (jget_default q ''content'' (JList []));
     Some (AList.update ''content'' (JList (xs @ ys)) (AList.update ''id'' (jget p ''id'') (dict_merge p q))) }"

definition full_output :: "stream_env \<Rightarrow> stream_round \<Rightarrow> json list option" where
  "full_output env st =
     (let prior = prior_output st; out = output_items st
      in if \<not> (continuing env \<and> prior \<noteq> [] \<and> out \<noteq> []) then Some (prior @ out)
         else do {
           p \<leftarrow> dict (last prior);
           q \<leftarrow> dict (hd out);
           if jget p ''type'' = JStr ''message'' \<and> jget q ''type'' = JStr ''message'' \<and> assistant p \<and> assistant q
           then map_option (\<lambda>m. butlast prior @ JObj m # tl out) (merged_message p q)
           else Some (prior @ out) })"

definition stream_data :: "stream_env \<Rightarrow> json list \<Rightarrow> json" where
  "stream_data env out =
     JObj [(''chat_id'', JStr (chat_id env)), (''message_id'', JStr (message_id env)), (''output'', JList out)]"

text \<open>The size is zero when the snapshot has to be saved again.\<close>

definition save_response_stream :: "stream_env \<Rightarrow> redis_outcome \<Rightarrow> json list \<Rightarrow> stream_round \<Rightarrow> nat \<times> stream_round" where
  "save_response_stream env io out st =
     (if task_id env = [] \<or> chat_id env = [] \<or> message_id env = [] then (0, st)
      else if redis env
      then (let snapshot = dumps_bytes env (stream_data env out) @ newline
            in (if 0 < fst io \<and> snd io then length snapshot else 0,
                if 0 < fst io then st\<lparr>stored := Some snapshot\<rparr> else st))
      else (0, st\<lparr>local_stream := Some (stream_data env out)\<rparr>))"

definition save_current_response_stream :: "stream_env \<Rightarrow> redis_outcome \<Rightarrow> step" where
  "save_current_response_stream env io st =
     attempt (full_output env st) (\<lambda>out. lift (\<lambda>st.
       let (n, st) = save_response_stream env io out st in st\<lparr>stream_size := n, snapshot_size := n\<rparr>)) st"

text \<open>\<open>any(...)\<close> stops at the first code interpreter item.\<close>

fun any_code_interpreter :: "json list \<Rightarrow> bool option" where
  "any_code_interpreter [] = Some False"
| "any_code_interpreter (x # xs) = do {
     item \<leftarrow> dict x;
     if jget item ''type'' = JStr ''open_webui:code_interpreter'' then Some True else any_code_interpreter xs }"

definition append_line :: "stream_env \<Rightarrow> redis_outcome \<Rightarrow> json dict \<Rightarrow> stream_round \<Rightarrow> stream_round" where
  "append_line env io delta st =
     (let line = dumps_bytes env (JObj delta) @ newline; n = stream_size st + length line;
          (appended, v) = append_response_stream io line (stream_size st) (stored st)
      in if n \<le> snapshot_size st * 2
         then st\<lparr>stored := v, stream_size := if appended then n else 0\<rparr> else st\<lparr>stream_size := 0\<rparr>)"

definition save_response_delta :: "stream_env \<Rightarrow> redis_outcome \<Rightarrow> json dict \<Rightarrow> step" where
  "save_response_delta env io delta st =
     (if stream_size st = 0 \<or> \<not> redis env then (True, st)
      else attempt
        (if continuing env \<or> \<not> is_str (jget delta ''delta'') then Some True else any_code_interpreter (output_items st))
        (\<lambda>snapshot. lift (if snapshot then (\<lambda>st. st\<lparr>stream_size := 0\<rparr>) else append_line env io delta)) st)"

subsection \<open>Events for the client\<close>

text \<open>Positions count from the start of the whole output, those of the provider from the start of its round.\<close>

definition get_response_data_with_full_output_index :: "json list \<Rightarrow> json dict \<Rightarrow> json dict" where
  "get_response_data_with_full_output_index prior response_data =
     (if prior = [] then response_data
      else case number (jget response_data ''output_index'') of
        Some n \<Rightarrow> AList.update ''output_index'' (JInt (n + int (length prior))) response_data
      | None \<Rightarrow>
          (case jget response_data ''response'' of
             JObj response \<Rightarrow> AList.update ''response'' (JObj (AList.delete ''output'' response)) response_data
           | _ \<Rightarrow> response_data))"

definition completion_event :: "stream_env \<Rightarrow> string" where
  "completion_event env = (if continuing env then ''chat:completion'' else ''response:completion'')"

definition no_pending :: "stream_round \<Rightarrow> stream_round" where
  "no_pending st = st\<lparr>delta_count := 0, last_delta_data := [], last_delta_type := [], last_delta_key := None\<rparr>"

definition flush_pending_delta_data :: "stream_env \<Rightarrow> int \<Rightarrow> step" where
  "flush_pending_delta_data env threshold st =
     (if threshold \<le> delta_count st \<and> last_delta_data st \<noteq> []
      then attempt
        (if continuing env
         then map_option (\<lambda>out. JObj [(''output'', JList out), (''type'', jget (last_delta_data st) ''type'')]) (full_output env st)
         else Some (JObj (last_delta_data st)))
        (\<lambda>data. lift (no_pending \<circ> event_emitter (completion_event env) data)) st
      else (True, st))"

definition append_to_text_field :: "json dict \<Rightarrow> string \<Rightarrow> json \<Rightarrow> json dict" where
  "append_to_text_field item k v =
     (case (jget item k, v) of (JStr s, JStr t) \<Rightarrow> AList.update k (JStr (s @ t)) item | _ \<Rightarrow> item)"

text \<open>A delta is joined to the pending one, or replaces it.\<close>

definition set_pending :: "json dict \<Rightarrow> string \<Rightarrow> json list option \<Rightarrow> stream_round \<Rightarrow> stream_round" where
  "set_pending delta_data delta_type k st =
     st\<lparr>delta_count := delta_count st + 1, last_delta_data := delta_data, last_delta_type := delta_type, last_delta_key := k\<rparr>"

definition queue_delta :: "stream_env \<Rightarrow> json dict \<Rightarrow> string \<Rightarrow> json list option \<Rightarrow> step" where
  "queue_delta env delta_data delta_type k st =
     (let pending = last_delta_data st; same = same_key (last_delta_key st) k
      in if pending \<noteq> [] \<and> same \<and> is_str (jget pending ''delta'') \<and> is_str (jget delta_data ''delta'')
         then (True, st\<lparr>last_delta_data := append_to_text_field pending ''delta'' (jget delta_data ''delta''),
                        delta_count := delta_count st + 1\<rparr>)
         else andthen
           (if pending \<noteq> [] \<and> (last_delta_type st \<noteq> delta_type \<or> \<not> same) then flush_pending_delta_data env 0 else lift id)
           (lift (set_pending delta_data delta_type k)) st)"

definition flush_full :: "stream_env \<Rightarrow> step" where
  "flush_full env st =
     (if delta_chunk_size env \<le> delta_count st then flush_pending_delta_data env (delta_chunk_size env) st else (True, st))"

definition queue_pending_delta_data :: "stream_env \<Rightarrow> redis_outcome \<Rightarrow> json dict \<Rightarrow> string \<Rightarrow> step" where
  "queue_pending_delta_data env io delta_data delta_type st =
     (let delta_data = get_response_data_with_full_output_index (prior_output st) delta_data
      in andthen (save_response_delta env io delta_data)
         (attempt (get_response_delta_key delta_data) (\<lambda>k.
           andthen (queue_delta env delta_data delta_type k) (flush_full env))) st)"

definition RESPONSE_COMPLETION_RESPONSE_FIELDS :: "string list" where
  "RESPONSE_COMPLETION_RESPONSE_FIELDS = [''error'', ''id'', ''output'', ''usage'']"

definition get_response_completion_event_data :: "json dict \<Rightarrow> json dict" where
  "get_response_completion_event_data event =
     (case jget event ''response'' of
        JObj response \<Rightarrow>
          AList.update ''response'' (JObj (map (\<lambda>k. (k, jget response k))
            (filter (\<lambda>k. map_of response k \<noteq> None) RESPONSE_COMPLETION_RESPONSE_FIELDS))) event
      | _ \<Rightarrow> event)"

definition text_of :: "json \<Rightarrow> string option" where
  "text_of v = (case v of JStr s \<Rightarrow> Some s | _ \<Rightarrow> None)"

definition emit_response_completion_event :: "stream_env \<Rightarrow> redis_outcome \<Rightarrow> json dict \<Rightarrow> step" where
  "emit_response_completion_event env io response_data =
     attempt (text_of (jget_default response_data ''type'' (JStr []))) (\<lambda>event_type.
       if ends_with ''.delta'' event_type
       then queue_pending_delta_data env io response_data (if map_of response_data ''type'' = None then ''response.delta'' else event_type)
       else andthen (flush_pending_delta_data env 0) (\<lambda>st.
         attempt
           (if continuing env then map_option (\<lambda>out. JObj [(''output'', JList out)]) (full_output env st)
            else Some (JObj (get_response_completion_event_data
              (get_response_data_with_full_output_index (prior_output st) response_data))))
           (\<lambda>data. lift (\<lambda>st. (event_emitter (completion_event env) data st)\<lparr>stream_size := 0\<rparr>)) st))"

subsection \<open>One event of the provider\<close>

text \<open>The sources cited in a finished message.\<close>

definition emit_citation :: "json \<Rightarrow> step" where
  "emit_citation annotation =
     attempt (dict annotation) (\<lambda>a.
       if jget a ''type'' \<noteq> JStr ''url_citation'' then lift id
       else attempt (dict (jget_default a ''url_citation'' annotation)) (\<lambda>citation.
         let url = jget_default citation ''url'' (JStr []); title = jget_default citation ''title'' url
         in if truthy url
            then lift (event_emitter ''source'' (JObj
              [(''source'', JObj [(''name'', title), (''url'', url)]), (''document'', JList [title]),
               (''metadata'', JList [JObj [(''source'', url), (''name'', title)]])]))
            else lift id))"

definition emit_citations :: "json dict \<Rightarrow> step" where
  "emit_citations data =
     attempt (dict (jget_default data ''item'' (JObj []))) (\<lambda>item.
       if jget item ''type'' \<noteq> JStr ''message'' then lift id
       else attempt (iterate (jget_default item ''content'' (JList []))) (each (\<lambda>part.
         attempt (dict part) (\<lambda>p.
           attempt (iterate (jget_default p ''annotations'' (JList []))) (each emit_citation)))))"

text \<open>Usage and errors the event reports.\<close>

definition note_usage :: "json \<Rightarrow> step" where
  "note_usage u st =
     attempt (merge_usage (usage st) u) (\<lambda>merged. lift (\<lambda>st. st\<lparr>usage := JObj merged\<rparr>)) (st\<lparr>current_usage := u\<rparr>)"

definition note_error :: "stream_env \<Rightarrow> json \<Rightarrow> stream_round \<Rightarrow> stream_round" where
  "note_error env e st =
     event_emitter ''chat:completion'' (JObj [(''error'', e)])
       (if save_to_chat env then st\<lparr>effects := effects st @ [Save_error e]\<rparr> else st)"

definition merge_metadata :: "stream_env \<Rightarrow> json dict \<Rightarrow> step" where
  "merge_metadata env meta =
     andthen (lift (\<lambda>st. if stateful env \<and> truthy (jget meta ''response_id'')
         then st\<lparr>last_response_id := jget meta ''response_id''\<rparr> else st))
     (andthen (if truthy (jget meta ''usage'') then note_usage (jget meta ''usage'') else lift id)
       (lift (if truthy (jget meta ''error'') then note_error env (jget meta ''error'') else id)))"

text \<open>A final output is shared with the event, so that its completed items are also sent.\<close>

definition shared_output :: "json dict \<Rightarrow> json list \<Rightarrow> json dict" where
  "shared_output data out =
     (case (jget data ''type'', jget data ''response'') of
        (JStr event_type, JObj response) \<Rightarrow>
          if event_type = ''response.completed'' \<and> truthy (jget response ''output'')
          then AList.update ''response'' (JObj (AList.update ''output'' (JList out) response)) data else data
      | _ \<Rightarrow> data)"

definition responses_api_event :: "stream_env \<Rightarrow> redis_outcome \<Rightarrow> json dict \<Rightarrow> step" where
  "responses_api_event env io data st =
     attempt (handle_responses_streaming_event data (output_items st)) (\<lambda>(out, response_metadata).
       let meta = dict_of response_metadata; event_type = text_of (jget data ''type'')
       in andthen (lift (\<lambda>st. st\<lparr>output_items := out\<rparr>))
         (andthen (if map_option (ends_with ''.delta'') event_type = Some True then lift id else flush_pending_delta_data env 0)
         (andthen (if event_type = Some ''response.output_item.done'' then emit_citations data else lift id)
         (andthen (if meta \<noteq> [] then merge_metadata env meta else lift id)
         (andthen (emit_response_completion_event env io (shared_output data out))
           (\<lambda>st. (True, if truthy (jget meta ''usage'') \<and> truthy (usage st)
                        then event_emitter ''chat:completion'' (JObj [(''usage'', usage st)]) st else st))))))) st"

text \<open>
  A line of the response with such an event: an exception is logged and the stream saved again, unless the
  line has the end marker; the snapshot is taken after the line.
\<close>

definition response_line :: "stream_env \<Rightarrow> redis_outcome \<Rightarrow> redis_outcome \<Rightarrow> bool \<Rightarrow> json dict \<Rightarrow> step" where
  "response_line env append_io save_io end_marker data st =
     (let (ok, st) = responses_api_event env append_io data st;
          st = (if ok \<or> end_marker then st else st\<lparr>stream_size := 0\<rparr>)
      in if stream_size st = 0 \<or> \<not> redis env then save_current_response_stream env save_io st else (True, st))"

end
