(* ===== verification/StreamLaws.thy ===== *)
theory StreamLaws
  imports StreamRelay
begin

text \<open>
  Laws of the reducer of response streams: two deltas for the same place are one delta with the
  joined text, and the items before a round do not take part in it.
\<close>

subsection \<open>Text\<close>

fun prefix_text :: "json \<Rightarrow> string" where
  "prefix_text (JStr s) = s"
| "prefix_text _ = []"

lemma deep_merge_text: "deep_merge v (JStr t) = JStr (prefix_text v @ t)"
  by (cases v) auto

lemma current_val_text: "current_val k (JStr t) part = (if jget part k = JNull then JStr [] else jget part k)"
  by (simp add: current_val_def)

lemma resolve_length: "length xs = length ys \<Longrightarrow> resolve xs n = resolve ys n"
  by (simp add: resolve_def)

lemma resolve_less: "resolve xs n = Some i \<Longrightarrow> i < length xs"
  by (auto simp: resolve_def split: if_splits)

lemma length_pad: "length (pad filler n xs) = max (length xs) (nat (n + 1))"
  by (auto simp: pad_def max_def nat_le_iff)

lemma pad_enough: "n < int (length xs) \<Longrightarrow> pad filler n xs = xs"
  by (simp add: pad_def)

lemma pad_pad: "length xs = length (pad filler n ys) \<Longrightarrow> pad filler n xs = xs"
  by (rule pad_enough) (auto simp: length_pad)

lemma parts_of_update: "parts_of f (AList.update f (JList xs) item) = Some xs"
  by (simp add: parts_of_def)

lemma merge_partE:
  assumes "merge_part initial filler index k (JStr t) parts = Some parts'"
  obtains n i part where "number index = Some n" "resolve (pad filler n parts) n = Some i"
    "dict (pad filler n parts ! i) = Some part"
    "parts' = (pad filler n parts)[i := JObj (AList.update k (JStr (prefix_text (initial part) @ t)) part)]"
  using assms by (auto simp: merge_part_def bind_eq_Some_conv Let_def deep_merge_text)

lemma merge_part_twice:
  assumes first: "merge_part initial filler index k (JStr a) parts = Some parts'"
    and second: "merge_part initial filler index' k (JStr b) parts' = Some parts''"
    and place: "\<And>n n'. number index = Some n \<Longrightarrow> number index' = Some n' \<Longrightarrow> n' = n"
    and initial: "\<And>part s. initial (AList.update k (JStr s) part) = JStr s"
  shows "merge_part initial filler index k (JStr (a @ b)) parts = Some parts''"
proof -
  from first obtain n i part where n: "number index = Some n" and i: "resolve (pad filler n parts) n = Some i"
    and part: "dict (pad filler n parts ! i) = Some part"
    and parts': "parts' = (pad filler n parts)[i := JObj (AList.update k (JStr (prefix_text (initial part) @ a)) part)]"
    by (rule merge_partE)
  have len: "length parts' = length (pad filler n parts)" by (simp add: parts')
  have pad': "pad filler n parts' = parts'" by (rule pad_pad) (rule len)
  from i have i': "resolve parts' n = Some i" using resolve_length [OF len] by simp
  have at: "parts' ! i = JObj (AList.update k (JStr (prefix_text (initial part) @ a)) part)"
    using resolve_less [OF i] by (simp add: parts')
  from second obtain n' where "number index' = Some n'" by (rule merge_partE)
  with place [OF n] have n': "number index' = Some n" by auto
  have "parts'' = parts'[i := JObj (AList.update k (JStr (prefix_text (initial part) @ a @ b)) part)]"
    using second n' pad' i' at by (simp add: merge_part_def deep_merge_text initial)
  then show ?thesis using n i part by (simp add: merge_part_def deep_merge_text parts')
qed

lemma merge_field_twice:
  assumes first: "merge_field f initial filler index k (JStr a) item = Some item'"
    and second: "merge_field f initial filler index' k (JStr b) item' = Some item''"
    and place: "\<And>n n'. number index = Some n \<Longrightarrow> number index' = Some n' \<Longrightarrow> n' = n"
    and initial: "\<And>part s. initial (AList.update k (JStr s) part) = JStr s"
  shows "merge_field f initial filler index k (JStr (a @ b)) item = Some item''"
proof -
  from first obtain parts parts' where parts: "parts_of f item = Some parts"
    and m1: "merge_part initial filler index k (JStr a) parts = Some parts'"
    and item': "item' = AList.update f (JList parts') item"
    by (auto simp: merge_field_def bind_eq_Some_conv)
  from second obtain parts'' where m2: "merge_part initial filler index' k (JStr b) parts' = Some parts''"
    and item'': "item'' = AList.update f (JList parts'') item'"
    by (auto simp: merge_field_def bind_eq_Some_conv item' parts_of_update)
  show ?thesis using parts merge_part_twice [OF m1 m2 place initial] by (simp add: merge_field_def item' item'')
qed

subsection \<open>Two deltas for the same item\<close>

lemma py_eq_number: "py_eq a b \<Longrightarrow> number a = number b"
  by (cases a; cases b) auto

text \<open>The fields that say where a delta belongs.\<close>

definition same_place :: "json dict \<Rightarrow> json dict \<Rightarrow> bool" where
  "same_place d e \<longleftrightarrow> (\<forall>k \<in> {''output_index'', ''content_index'', ''summary_index''}. py_eq (jget d k) (jget e k))"

lemma place_index:
  assumes "py_eq (jget d k) (jget e k)" "number (jget_default d k v) = Some n" "number (jget_default e k w) = Some n'"
  shows "map_of d k = None \<and> map_of e k = None \<or> n = n'"
proof (cases "map_of d k")
  case None
  with assms(1) have "jget e k = JNull" by (simp add: jget_def)
  with assms(3) None show ?thesis by (auto simp: jget_def jget_default_def split: option.splits)
next
  case (Some x)
  with assms py_eq_number [OF assms(1)] show ?thesis by (auto simp: jget_def jget_default_def split: option.splits)
qed

lemma place_part_index:
  assumes "same_place d e" "k \<in> {''content_index'', ''summary_index''}"
    "number (jget_default d k v) = Some n" "number (jget_default e k v) = Some n'"
  shows "n' = n"
  using assms place_index [of d k e v n v n'] by (auto simp: same_place_def jget_default_def)

definition text_event :: "json dict \<Rightarrow> string \<Rightarrow> bool" where
  "text_event d t \<longleftrightarrow> map_of d ''delta'' = Some (JStr t)"

lemma text_event_delta: "text_event d t \<Longrightarrow> jget_default d ''delta'' v = JStr t"
  by (simp add: text_event_def jget_default_def)

lemma jget_default_update [simp]: "jget_default (AList.update k v d) l w = (if l = k then v else jget_default d l w)"
  by (simp add: jget_default_def)

lemma text_event_update [simp]: "text_event (AList.update ''delta'' (JStr t) d) t"
  by (simp add: text_event_def)

lemma current_val_initial: "current_val k (JStr t) (AList.update k (JStr s) part) = JStr s"
  by (simp add: current_val_text)

lemma message_delta_twice:
  assumes place: "same_place d e"
    and first: "message_delta t d (JStr a) item = Some item'" and second: "message_delta t e (JStr b) item' = Some item''"
  shows "message_delta t d (JStr (a @ b)) item = Some item''"
proof (cases "t \<in> set reasoning_deltas")
  case True
  then show ?thesis using first second by (simp add: message_delta_def)
next
  case False
  define k where "k = (if t \<in> set text_deltas then ''text'' else t)"
  have cv: "current_val k (JStr x) = (\<lambda>part. if jget part k = JNull then JStr [] else jget part k)" for x
    by (simp add: current_val_text fun_eq_iff)
  have md: "message_delta t c (JStr x) y = merge_field ''content'' (\<lambda>part. if jget part k = JNull then JStr [] else jget part k)
      text_part (jget_default c ''content_index'' (JInt 0)) k (JStr x) y" for c x y
    using False by (simp add: message_delta_def k_def [symmetric] cv)
  show ?thesis
    using first second unfolding md
    by (rule merge_field_twice) (auto intro: place_part_index [OF place])
qed

lemma reasoning_delta_twice:
  assumes place: "same_place d e"
    and first: "reasoning_delta t d (JStr a) item = Some item'" and second: "reasoning_delta t e (JStr b) item' = Some item''"
  shows "reasoning_delta t d (JStr (a @ b)) item = Some item''"
  using first second
    merge_field_twice [of "''summary''" "\<lambda>part. jget_default part ''text'' (JStr [])" summary_part
      "jget_default d ''summary_index'' (JInt 0)" "''text''" a item item' "jget_default e ''summary_index'' (JInt 0)" b item'']
    merge_field_twice [of "''content''" "\<lambda>part. jget_default part ''text'' (JStr [])" text_part
      "jget_default d ''content_index'' (JInt 0)" "''text''" a item item' "jget_default e ''content_index'' (JInt 0)" b item'']
    place_part_index [OF place, of "''content_index''" "JInt 0"] place_part_index [OF place, of "''summary_index''" "JInt 0"]
  by (auto simp: reasoning_delta_def split: if_splits)

lemma append_arguments_twice:
  "append_arguments (JStr a) item = Some item' \<Longrightarrow> append_arguments (JStr b) item' = Some item'' \<Longrightarrow>
   append_arguments (JStr (a @ b)) item = Some item''"
  by (auto simp: append_arguments_def split: json.splits)

lemma other_delta_twice:
  "other_delta t (JStr b) (other_delta t (JStr a) item) = other_delta t (JStr (a @ b)) item"
  by (simp add: other_delta_def Let_def deep_merge_text current_val_text)

text \<open>The type of an item does not depend on its deltas, as long as none of them is for the type itself.\<close>

lemma merge_field_type:
  "merge_field f initial filler index k delta item = Some item' \<Longrightarrow> f \<noteq> ''type'' \<Longrightarrow>
   jget_default item' ''type'' v = jget_default item ''type'' v"
  by (auto simp: merge_field_def bind_eq_Some_conv)

lemma delta_item_type:
  assumes "delta_item t d item = Some item'" "t \<noteq> ''type''"
  shows "jget_default item' ''type'' v = jget_default item ''type'' v"
  using assms
  by (auto simp: delta_item_def Let_def append_arguments_def message_delta_def reasoning_delta_def other_delta_def
      merge_field_type split: if_splits json.splits)

lemma part_delta_update:
  "k \<notin> {''content_index'', ''summary_index''} \<Longrightarrow> message_delta t (AList.update k v d) = message_delta t d"
  "k \<notin> {''content_index'', ''summary_index''} \<Longrightarrow> reasoning_delta t (AList.update k v d) = reasoning_delta t d"
  by (auto simp: message_delta_def reasoning_delta_def fun_eq_iff)

lemma delta_item_twice:
  assumes "same_place d e" "text_event d a" "text_event e b" "t \<noteq> ''type''"
    and first: "delta_item t d item = Some item'" and second: "delta_item t e item' = Some item''"
  shows "delta_item t (AList.update ''delta'' (JStr (a @ b)) d) item = Some item''"
proof -
  have type: "jget_default item' ''type'' (JStr []) = jget_default item ''type'' (JStr [])"
    by (rule delta_item_type [OF first assms(4)])
  show ?thesis
    using first second type message_delta_twice [OF assms(1)] reasoning_delta_twice [OF assms(1)]
    by (auto simp: delta_item_def Let_def text_event_delta [OF assms(2)] text_event_delta [OF assms(3)] part_delta_update
        append_arguments_twice other_delta_twice split: if_splits)
qed

subsection \<open>Two deltas for the same response\<close>

lemma change_item_twice:
  assumes "change_item xs k f = Some ys" "change_item ys k g = Some zs" "k < length xs"
    "\<And>item item' item''. f item = Some item' \<Longrightarrow> g item' = Some item'' \<Longrightarrow> h item = Some item''"
  shows "change_item xs k h = Some zs"
  using assms by (auto simp: change_item_def bind_eq_Some_conv)

lemma length_change_item: "change_item xs k f = Some ys \<Longrightarrow> length ys = length xs"
  by (auto simp: change_item_def bind_eq_Some_conv)

text \<open>The items a delta starts from: those there are, or new ones up to its position.\<close>

definition delta_position :: "json dict \<Rightarrow> json list \<Rightarrow> int option" where
  "delta_position data xs = number (jget_default data ''output_index'' (JInt (max (int (length xs) - 1) 0)))"

definition with_item :: "string \<Rightarrow> json dict \<Rightarrow> int \<Rightarrow> json list \<Rightarrow> json list" where
  "with_item t data n xs =
     (if int (length xs) \<le> n then (pad new_item n xs)[nat n := started_item t data] else xs)"

lemma length_with_item: "length (with_item t data n xs) = max (length xs) (nat (n + 1))"
  by (auto simp: with_item_def length_pad)

lemma delta_event_eq:
  "delta_event t data xs = do {
     n \<leftarrow> delta_position data xs;
     let ys = with_item t data n xs;
     if 0 \<le> n then change_item ys (nat n) (delta_item t data) else Some ys }"
proof -
  have "ys \<noteq> [] \<and> 0 \<le> n \<and> n < int (length ys) \<longleftrightarrow> 0 \<le> n" if "ys = with_item t data n xs" for ys n
  proof -
    have "0 \<le> n \<Longrightarrow> n < int (length ys)" by (auto simp: that length_with_item)
    then show ?thesis by auto
  qed
  then show ?thesis unfolding delta_event_def delta_position_def with_item_def Let_def by (intro bind_option_cong refl) auto
qed

lemma delta_position_same:
  assumes "same_place d e" "delta_position d xs = Some n" "delta_position e ys = Some m"
    "length ys = max (length xs) (nat (n + 1))"
  shows "m = n"
proof -
  have "py_eq (jget d ''output_index'') (jget e ''output_index'')" using assms(1) by (simp add: same_place_def)
  from place_index [OF this assms(2,3) [unfolded delta_position_def]] show ?thesis
  proof (elim disjE conjE)
    assume "map_of d ''output_index'' = None" "map_of e ''output_index'' = None"
    then show ?thesis using assms(2-4) by (auto simp: delta_position_def jget_default_def max_def split: if_splits)
  qed simp
qed

lemma delta_event_twice:
  assumes place: "same_place d e" and deltas: "text_event d a" "text_event e b" "t \<noteq> ''type''"
    and first: "delta_event t d xs = Some ys" and second: "delta_event t e ys = Some zs"
  shows "delta_event t (AList.update ''delta'' (JStr (a @ b)) d) xs = Some zs"
proof -
  let ?d = "AList.update ''delta'' (JStr (a @ b)) d"
  from first obtain n where n: "delta_position d xs = Some n"
    and ys: "(if 0 \<le> n then change_item (with_item t d n xs) (nat n) (delta_item t d) else Some (with_item t d n xs)) = Some ys"
    by (auto simp: delta_event_eq bind_eq_Some_conv Let_def)
  have n': "delta_position ?d xs = Some n" and items: "with_item t ?d n xs = with_item t d n xs"
    using n by (simp_all add: delta_position_def with_item_def started_item_def)
  from second obtain m where m: "delta_position e ys = Some m"
    and zs: "(if 0 \<le> m then change_item (with_item t e m ys) (nat m) (delta_item t e) else Some (with_item t e m ys)) = Some zs"
    by (auto simp: delta_event_eq bind_eq_Some_conv Let_def)
  have len: "length ys = max (length xs) (nat (n + 1))"
    using ys by (auto simp: length_with_item dest: length_change_item split: if_splits)
  have "m = n" by (rule delta_position_same [OF place n m len])
  show ?thesis
  proof (cases "0 \<le> n")
    case True
    have "with_item t e n ys = ys" using True len by (auto simp: with_item_def)
    with zs True \<open>m = n\<close> have second': "change_item ys (nat n) (delta_item t e) = Some zs" by simp
    have first': "change_item (with_item t d n xs) (nat n) (delta_item t d) = Some ys" using ys True by simp
    have "nat n < length (with_item t d n xs)" using True by (simp add: length_with_item less_max_iff_disj)
    then have "change_item (with_item t d n xs) (nat n) (delta_item t ?d) = Some zs"
      by (rule change_item_twice [OF first' second']) (rule delta_item_twice [OF place deltas])
    with True n' show ?thesis by (simp add: delta_event_eq items)
  next
    case False
    then have "with_item t e n ys = ys" by (simp add: with_item_def)
    with zs ys False \<open>m = n\<close> n' show ?thesis by (simp add: delta_event_eq items)
  qed
qed

subsection \<open>Delta events\<close>

definition is_delta :: "string \<Rightarrow> bool" where
  "is_delta event_type \<longleftrightarrow> starts_with ''response.'' event_type \<and> ends_with ''.delta'' event_type"

lemma handle_delta:
  assumes "jget_default data ''type'' (JStr []) = JStr event_type" "is_delta event_type"
  shows "handle_responses_streaming_event data xs =
    (if length (split_on (CHR ''.'') event_type) < 3 then Some (xs, JNull)
     else map_option (\<lambda>out. (out, JNull)) (delta_event (split_on (CHR ''.'') event_type ! 1) data xs))"
proof -
  have "\<not> ends_with ''.delta'' ''response.output_item.added''" "\<not> ends_with ''.delta'' ''response.content_part.added''"
    "\<not> ends_with ''.delta'' ''response.reasoning_summary_part.added''" by code_simp+
  with assms(2) have "event_type \<notin> {''response.output_item.added'', ''response.content_part.added'', ''response.reasoning_summary_part.added''}"
    unfolding is_delta_def by blast
  then show ?thesis using assms by (simp add: handle_responses_streaming_event_def is_delta_def)
qed

text \<open>A delta that is not for the type of an item.\<close>

definition plain_type :: "string \<Rightarrow> bool" where
  "plain_type event_type \<longleftrightarrow> is_delta event_type \<and>
     (length (split_on (CHR ''.'') event_type) < 3 \<or> split_on (CHR ''.'') event_type ! 1 \<noteq> ''type'')"

lemma handle_delta_twice:
  assumes type: "jget_default d ''type'' (JStr []) = JStr event_type" "jget_default e ''type'' (JStr []) = JStr event_type"
      "plain_type event_type"
    and place: "same_place d e" and delta: "text_event d a" "text_event e b"
    and first: "handle_responses_streaming_event d xs = Some (ys, u)"
    and second: "handle_responses_streaming_event e ys = Some (zs, v)"
  shows "handle_responses_streaming_event (AList.update ''delta'' (JStr (a @ b)) d) xs = Some (zs, v)"
proof -
  have is_delta: "is_delta event_type" using type(3) by (simp add: plain_type_def)
  have "jget_default (AList.update ''delta'' (JStr (a @ b)) d) ''type'' (JStr []) = JStr event_type" using type(1) by simp
  note h = handle_delta [OF type(1) is_delta] handle_delta [OF type(2) is_delta] handle_delta [OF this is_delta]
  show ?thesis
    using first second type(3) by (auto simp: h plain_type_def delta_event_twice [OF place delta] split: if_splits)
qed

text \<open>Events with one key.\<close>

lemma keyE:
  assumes "get_response_delta_key d = Some (Some k)"
  obtains event_type where "jget_default d ''type'' (JStr []) = JStr event_type" "is_delta event_type"
    "k = JStr event_type # map (jget d) [''item_id'', ''output_index'', ''content_index'', ''summary_index'']"
  using assms by (auto simp: get_response_delta_key_def is_delta_def split: json.splits if_splits)

lemma same_key_same_place:
  assumes "get_response_delta_key d = Some (Some k)" "get_response_delta_key e = Some l" "same_key (Some k) l"
  obtains event_type where "jget_default d ''type'' (JStr []) = JStr event_type" "jget_default e ''type'' (JStr []) = JStr event_type"
    "is_delta event_type" "same_place d e"
proof -
  from assms(3) obtain l' where l: "l = Some l'" by (cases l) auto
  from assms(1) obtain t where t: "jget_default d ''type'' (JStr []) = JStr t" "is_delta t"
    "k = JStr t # map (jget d) [''item_id'', ''output_index'', ''content_index'', ''summary_index'']" by (rule keyE)
  from assms(2) [unfolded l] obtain u where u: "jget_default e ''type'' (JStr []) = JStr u"
    "l' = JStr u # map (jget e) [''item_id'', ''output_index'', ''content_index'', ''summary_index'']" by (rule keyE)
  have "u = t" "same_place d e" using assms(3) by (auto simp: l t(3) u(2) same_place_def)
  with t u that show ?thesis by blast
qed

subsection \<open>Coalesced deltas\<close>

definition plain_delta :: "json dict \<Rightarrow> bool" where
  "plain_delta d \<longleftrightarrow> is_str (jget d ''delta'') \<and>
     (case jget_default d ''type'' (JStr []) of JStr event_type \<Rightarrow> plain_type event_type | _ \<Rightarrow> False)"

lemma plain_deltaE:
  assumes "plain_delta d"
  obtains event_type t where "jget_default d ''type'' (JStr []) = JStr event_type" "plain_type event_type" "text_event d t"
    "string_delta d = Some t" "jget d ''delta'' = JStr t"
  using assms by (auto simp: plain_delta_def text_event_def string_delta_def jget_def split: option.splits json.splits elim: is_str.elims)

lemma plain_type_update [simp]: "plain_delta (AList.update ''delta'' (JStr t) d) \<longleftrightarrow>
    (case jget_default d ''type'' (JStr []) of JStr event_type \<Rightarrow> plain_type event_type | _ \<Rightarrow> False)"
  by (simp add: plain_delta_def)

lemma apply_events_append:
  "apply_events (xs @ ys) out = Option.bind (apply_events xs out) (apply_events ys)"
proof (induction xs arbitrary: out)
  case (Cons x xs)
  then show ?case by (cases "handle_responses_streaming_event x out") auto
qed simp

lemma same_place_update [simp]: "same_place (AList.update ''delta'' v d) e = same_place d e"
  by (simp add: same_place_def)

text \<open>A group of deltas is one delta with the joined text.\<close>

lemma apply_group:
  assumes "apply_events (d # es) xs = Some ys" "text_event d a"
    "jget_default d ''type'' (JStr []) = JStr event_type" "plain_type event_type"
    "\<forall>e \<in> set es. plain_delta e \<and> same_place d e \<and> jget_default e ''type'' (JStr []) = JStr event_type"
  shows "\<exists>b v. concat_option string_delta es = Some b \<and>
    handle_responses_streaming_event (AList.update ''delta'' (JStr (a @ b)) d) xs = Some (ys, v)"
  using assms
proof (induction es arbitrary: d a)
  case Nil
  then have "AList.update ''delta'' (JStr a) d = d" by (simp add: text_event_def update_triv)
  with Nil show ?case by (auto simp: bind_eq_Some_conv)
next
  case (Cons e es)
  from Cons.prems(5) have e: "plain_delta e" "same_place d e" "jget_default e ''type'' (JStr []) = JStr event_type" by auto
  from e(1) obtain t where t: "text_event e t" "string_delta e = Some t" by (rule plain_deltaE)
  let ?d = "AList.update ''delta'' (JStr (a @ t)) d"
  from Cons.prems(1) obtain y1 u1 y2 u2 where steps: "handle_responses_streaming_event d xs = Some (y1, u1)"
    "handle_responses_streaming_event e y1 = Some (y2, u2)" "apply_events es y2 = Some ys"
    by (auto simp: bind_eq_Some_conv)
  have "handle_responses_streaming_event ?d xs = Some (y2, u2)"
    by (rule handle_delta_twice [OF Cons.prems(3) e(3) Cons.prems(4) e(2) Cons.prems(2) t(1) steps(1,2)])
  then have "apply_events (?d # es) xs = Some ys" using steps(3) by simp
  from Cons.IH [OF this text_event_update] Cons.prems(3-5)
  obtain b v where "concat_option string_delta es = Some b"
    "handle_responses_streaming_event (AList.update ''delta'' (JStr ((a @ t) @ b)) ?d) xs = Some (ys, v)" by auto
  then show ?case using t(2) by (simp add: bind_eq_Some_conv)
qed

lemma groups_apply:
  assumes "\<forall>(k, d) \<in> set kds. get_response_delta_key d = Some k \<and> plain_delta d"
    "apply_events (map snd kds) xs = Some ys"
  shows "\<exists>cs. all_some (map joined_delta (groupby same_key kds)) = Some cs \<and> apply_events cs xs = Some ys"
  using assms
proof (induction "same_key" kds arbitrary: xs rule: groupby.induct)
  case 1
  then show ?case by simp
next
  case (2 k d kds)
  let ?in = "takeWhile (\<lambda>(l, _). same_key k l) kds" and ?out = "dropWhile (\<lambda>(l, _). same_key k l) kds"
  from 2(2) have k: "get_response_delta_key d = Some k" and d: "plain_delta d"
    and all: "\<forall>(k, d) \<in> set kds. get_response_delta_key d = Some k \<and> plain_delta d" by auto
  from d obtain event_type a where type: "jget_default d ''type'' (JStr []) = JStr event_type" "plain_type event_type"
    and a: "text_event d a" "string_delta d = Some a" by (rule plain_deltaE)
  have k': "\<exists>k'. k = Some k'" using k type by (auto simp: get_response_delta_key_def plain_type_def is_delta_def)
  have rest: "plain_delta e \<and> same_place d e \<and> jget_default e ''type'' (JStr []) = JStr event_type" if "e \<in> snd ` set ?in" for e
  proof -
    from that obtain l where l: "(l, e) \<in> set kds" "same_key k l" by (auto dest: set_takeWhileD)
    with all have le: "get_response_delta_key e = Some l" "plain_delta e" by auto
    from k' k l(2) le(1) type show ?thesis using le(2) by (auto elim: same_key_same_place)
  qed
  have "map snd ((k, d) # kds) = (d # map snd ?in) @ map snd ?out"
    by (simp flip: map_append)
  with 2(3) obtain zs where zs: "apply_events (d # map snd ?in) xs = Some zs" "apply_events (map snd ?out) zs = Some ys"
    by (simp only: apply_events_append) (auto simp: bind_eq_Some_conv)
  from apply_group [OF zs(1) a(1) type] rest obtain b v where b: "concat_option string_delta (map snd ?in) = Some b"
    "handle_responses_streaming_event (AList.update ''delta'' (JStr (a @ b)) d) xs = Some (zs, v)" by auto
  have "\<forall>(k, d) \<in> set ?out. get_response_delta_key d = Some k \<and> plain_delta d" using all by (auto dest: set_dropWhileD)
  from 2(1) [OF this zs(2)] obtain cs where "all_some (map joined_delta (groupby same_key ?out)) = Some cs"
    "apply_events cs zs = Some ys" by blast
  with a(2) b show ?case by (simp add: joined_delta_def)
qed

lemma all_some_map: "(\<And>x. x \<in> set xs \<Longrightarrow> f x = Some (g x)) \<Longrightarrow> all_some (map f xs) = Some (map g xs)"
  by (induction xs) auto

lemma plain_delta_key: "plain_delta d \<Longrightarrow> \<exists>k. get_response_delta_key d = Some k"
  by (auto simp: get_response_delta_key_def elim!: plain_deltaE)

lemma coalesced_apply:
  assumes "\<forall>d \<in> set deltas. plain_delta d" "apply_events deltas xs = Some ys"
  obtains cs where "coalesce deltas = Some cs" "apply_events cs xs = Some ys"
proof -
  let ?kds = "map (\<lambda>d. (the (get_response_delta_key d), d)) deltas"
  have "map_option (\<lambda>k. (k, d)) (get_response_delta_key d) = Some (the (get_response_delta_key d), d)" if "d \<in> set deltas" for d
    using plain_delta_key assms(1) that by fastforce
  then have keyed: "all_some (map (\<lambda>d. map_option (\<lambda>k. (k, d)) (get_response_delta_key d)) deltas) = Some ?kds"
    by (rule all_some_map)
  have "\<forall>(k, d) \<in> set ?kds. get_response_delta_key d = Some k \<and> plain_delta d"
    using assms(1) plain_delta_key by fastforce
  moreover have "apply_events (map snd ?kds) xs = Some ys" using assms(2) by (simp add: comp_def)
  ultimately obtain cs where "all_some (map joined_delta (groupby same_key ?kds)) = Some cs" "apply_events cs xs = Some ys"
    using groups_apply by blast
  with keyed that show ?thesis by (simp add: coalesce_def)
qed

end
