(* ===== verification/StreamStored.thy ===== *)
theory StreamStored
  imports StreamLaws
begin

text \<open>
  What the stored stream holds: after every line of a response it is an output the server has had, and
  the current one whenever its size is known.
\<close>

subsection \<open>Positions in the whole output\<close>

text \<open>A delta that says to which item it belongs.\<close>

definition well_placed :: "json dict \<Rightarrow> bool" where
  "well_placed data =
     (case jget_default data ''type'' (JStr []) of
        JStr event_type \<Rightarrow> ends_with ''.delta'' event_type \<longrightarrow>
          plain_type event_type \<and> (case map_of data ''output_index'' of Some (JInt n) \<Rightarrow> 0 \<le> n | _ \<Rightarrow> False)
      | _ \<Rightarrow> True)"

abbreviation full_index :: "json list \<Rightarrow> json dict \<Rightarrow> json dict" where
  "full_index \<equiv> get_response_data_with_full_output_index"

lemma change_item_append:
  "change_item (prior @ xs) (length prior + k) f = map_option ((@) prior) (change_item xs k f)"
  by (auto simp: change_item_def nth_append list_update_append map_option_bind comp_def)

lemma pad_append: "0 \<le> n \<Longrightarrow> pad x (int (length prior) + n) (prior @ xs) = prior @ pad x n xs"
  by (simp add: pad_def algebra_simps)

lemma with_item_shift:
  assumes "0 \<le> n" and same: "jget e ''item_id'' = jget d ''item_id''"
  shows "with_item t e (n + int (length prior)) (prior @ xs) = prior @ with_item t d n xs"
proof -
  have "started_item t e = started_item t d" by (simp add: started_item_def same)
  moreover have "nat (n + int (length prior)) = length prior + nat n" using assms(1) by simp
  ultimately show ?thesis
    using assms(1) pad_append [OF assms(1), of new_item prior xs] by (auto simp: with_item_def add.commute list_update_append)
qed

lemma delta_item_index:
  "delta_item t (AList.update ''output_index'' v d) = delta_item t d"
  by (simp add: delta_item_def part_delta_update fun_eq_iff Let_def)

lemma delta_event_shift:
  assumes "map_of d ''output_index'' = Some (JInt n)" "0 \<le> n" "delta_event t d xs = Some ys"
  shows "delta_event t (AList.update ''output_index'' (JInt (n + int (length prior))) d) (prior @ xs) = Some (prior @ ys)"
proof -
  let ?e = "AList.update ''output_index'' (JInt (n + int (length prior))) d"
  have "delta_position d xs = Some n" "delta_position ?e (prior @ xs) = Some (n + int (length prior))"
    using assms(1) by (simp_all add: delta_position_def jget_default_def)
  moreover have "with_item t ?e (n + int (length prior)) (prior @ xs) = prior @ with_item t d n xs"
    using assms(2) by (simp add: with_item_shift)
  moreover have "nat (n + int (length prior)) = length prior + nat n" using assms(2) by simp
  ultimately show ?thesis
    using assms(2,3) by (simp add: delta_event_eq delta_item_index change_item_append)
qed

lemma full_index_get: "l \<noteq> ''output_index'' \<Longrightarrow> l \<noteq> ''response'' \<Longrightarrow> map_of (full_index prior d) l = map_of d l"
  by (auto simp: get_response_data_with_full_output_index_def split: option.splits json.splits)

lemma full_index_get_default: "l \<noteq> ''output_index'' \<Longrightarrow> l \<noteq> ''response'' \<Longrightarrow> jget_default (full_index prior d) l v = jget_default d l v"
  by (simp add: jget_default_def full_index_get)

lemma full_index_jget: "l \<noteq> ''output_index'' \<Longrightarrow> l \<noteq> ''response'' \<Longrightarrow> jget (full_index prior d) l = jget d l"
  by (simp add: jget_def full_index_get)

lemma handle_shift:
  assumes "plain_type event_type" "jget_default d ''type'' (JStr []) = JStr event_type"
    and n: "map_of d ''output_index'' = Some (JInt n)" "0 \<le> n"
    and handled: "handle_responses_streaming_event d xs = Some (ys, v)"
  shows "handle_responses_streaming_event (full_index prior d) (prior @ xs) = Some (prior @ ys, v)"
proof (cases "prior = []")
  case True
  then show ?thesis using handled by (simp add: get_response_data_with_full_output_index_def)
next
  case False
  have shifted: "full_index prior d = AList.update ''output_index'' (JInt (n + int (length prior))) d"
    using False n by (simp add: get_response_data_with_full_output_index_def jget_def)
  have "jget_default (full_index prior d) ''type'' (JStr []) = JStr event_type" using assms(2) by (simp add: full_index_get_default)
  moreover have "is_delta event_type" using assms(1) by (simp add: plain_type_def)
  ultimately show ?thesis
    using handled by (auto simp: handle_delta assms(2) delta_event_shift [OF n] shifted split: if_splits)
qed

subsection \<open>The stored text\<close>

text \<open>What the code relies on: decoding gives the encoded value, and its text is one line.\<close>

definition exact_codec :: "(json \<Rightarrow> string) \<Rightarrow> (string \<Rightarrow> json option) \<Rightarrow> bool" where
  "exact_codec dumps loads \<longleftrightarrow>
     (\<forall>v. loads (dumps v) = Some v \<and> dumps v \<noteq> [] \<and> CHR 0x0A \<notin> set (dumps v))"

definition lines_text :: "string list \<Rightarrow> string" where
  "lines_text lines = concat (map (\<lambda>line. line @ newline) lines)"

lemma split_on_line: "c \<notin> set s \<Longrightarrow> split_on c (s @ c # r) = s # split_on c r"
  by (induction s) auto

lemma split_on_lines: "\<forall>line \<in> set lines. CHR 0x0A \<notin> set line \<Longrightarrow> split_on (CHR 0x0A) (lines_text lines) = lines @ [[]]"
  by (induction lines) (simp_all add: lines_text_def newline_def split_on_line)

definition stored_text :: "(json \<Rightarrow> string) \<Rightarrow> json \<Rightarrow> json dict list \<Rightarrow> string" where
  "stored_text dumps snapshot deltas = lines_text (map dumps (snapshot # map JObj deltas))"

lemma stored_text_append: "stored_text dumps v (ds @ [d]) = stored_text dumps v ds @ dumps (JObj d) @ newline"
  by (simp add: stored_text_def lines_text_def)

lemma load_stored:
  assumes codec: "exact_codec dumps loads"
    and deltas: "\<forall>d \<in> set deltas. plain_delta d" "apply_events deltas xs = Some ys"
    and data: "map_of data ''output'' = Some (JList xs)"
  shows "load_response_stream loads (stored_text dumps (JObj data) deltas) = Some (JObj (AList.update ''output'' (JList ys) data))"
proof -
  let ?vs = "JObj data # map JObj deltas"
  have split: "split_on (CHR 0x0A) (stored_text dumps (JObj data) deltas) = map dumps ?vs @ [[]]"
    unfolding stored_text_def using codec by (intro split_on_lines) (simp add: exact_codec_def)
  have "filter (\<lambda>line. line \<noteq> []) (map dumps ?vs @ [[]]) = map dumps ?vs"
    using codec by (simp add: exact_codec_def filter_map o_def)
  moreover have "all_some (map loads (map dumps ?vs)) = Some ?vs"
    unfolding map_map using all_some_map [of ?vs "loads \<circ> dumps" id] codec by (simp add: exact_codec_def)
  moreover have "all_some (map dict (map JObj deltas)) = Some deltas"
    unfolding map_map using all_some_map [of deltas "dict \<circ> JObj" id] by simp
  moreover obtain cs where "coalesce deltas = Some cs" "apply_events cs xs = Some ys" using deltas by (rule coalesced_apply)
  moreover have "AList.update ''output'' (JList ys) data = data" if "deltas = []"
    using that deltas(2) data by (simp add: update_triv)
  ultimately show ?thesis unfolding load_response_stream_def split using data by (simp add: Let_def)
qed

subsection \<open>Steps that leave the output and the stored stream alone\<close>

definition core :: "stream_round \<Rightarrow> (json list \<times> json list) \<times> (nat \<times> nat) \<times> string option \<times> json option" where
  "core st = ((output_items st, prior_output st), (stream_size st, snapshot_size st), stored st, local_stream st)"

definition frame :: "step \<Rightarrow> bool" where
  "frame f \<longleftrightarrow> (\<forall>st. core (snd (f st)) = core st)"

lemma frameI: "(\<And>st. core (snd (f st)) = core st) \<Longrightarrow> frame f"
  by (simp add: frame_def)

lemma frameD: "frame f \<Longrightarrow> core (snd (f st)) = core st"
  by (simp add: frame_def)

lemma frame_lift: "(\<And>st. core (f st) = core st) \<Longrightarrow> frame (lift f)"
  by (simp add: frame_def lift_def)

lemma frame_id: "frame (lift id)"
  by (simp add: frame_lift)

lemma frame_andthen: "frame f \<Longrightarrow> frame g \<Longrightarrow> frame (andthen f g)"
  unfolding frame_def andthen_def by (auto split: prod.splits bool.splits) (metis snd_conv)+

lemma core_attempt: "(\<And>x. v = Some x \<Longrightarrow> core (snd (f x st)) = core st) \<Longrightarrow> core (snd (attempt v f st)) = core st"
  by (simp add: attempt_def split: option.splits)

lemma frame_attempt: "(\<And>x. frame (f x)) \<Longrightarrow> frame (attempt v f)"
  by (simp add: frame_def core_attempt)

lemma frame_each: "(\<And>x. frame (f x)) \<Longrightarrow> frame (each f xs)"
  by (induction xs) (simp_all add: frame_id frame_andthen)

lemma frame_if: "(b \<Longrightarrow> frame f) \<Longrightarrow> (\<not> b \<Longrightarrow> frame g) \<Longrightarrow> frame (if b then f else g)"
  by simp

lemmas frame_intros = frame_id frame_lift frame_andthen frame_attempt frame_each frame_if

lemma core_emit [simp]: "core (event_emitter t data st) = core st"
  by (simp add: core_def event_emitter_def)

lemma frame_flush: "frame (flush_pending_delta_data env n)"
  by (rule frameI) (auto simp: flush_pending_delta_data_def attempt_def lift_def no_pending_def core_def event_emitter_def
      split: option.splits)

lemma frame_queue_delta: "frame (queue_delta env d t k)"
proof (rule frameI)
  fix st
  have replaced: "core (snd (andthen (if b then flush_pending_delta_data env 0 else lift id) (lift (set_pending d t k)) st)) = core st" for b
    by (rule frameD) (intro frame_intros frame_flush, simp add: set_pending_def core_def)
  show "core (snd (queue_delta env d t k st)) = core st"
    unfolding queue_delta_def Let_def by (rule if_split [THEN iffD2]) (simp only: replaced snd_conv, simp add: core_def)
qed

lemma frame_flush_full: "frame (flush_full env)"
  by (rule frameI) (simp add: flush_full_def frameD [OF frame_flush])

lemma frame_citation: "frame (emit_citation annotation)"
  unfolding emit_citation_def Let_def by (intro frame_intros) simp_all

lemma frame_citations: "frame (emit_citations data)"
  unfolding emit_citations_def by (intro frame_intros frame_citation)

lemma frame_note_usage: "frame (note_usage u)"
  by (rule frameI) (auto simp: note_usage_def attempt_def lift_def core_def split: option.splits)

lemma frame_metadata: "frame (merge_metadata env meta)"
  unfolding merge_metadata_def
  by (intro frame_intros frame_note_usage) (auto simp: core_def note_error_def event_emitter_def)

subsection \<open>One event\<close>

text \<open>Executed again, the script finds a longer value and appends nothing.\<close>

definition text_or_empty :: "string option \<Rightarrow> string" where
  "text_or_empty v = (case v of None \<Rightarrow> [] | Some s \<Rightarrow> s)"

lemma append_once:
  assumes "length (text_or_empty v) = k" "line \<noteq> []"
  shows "append_response_stream (n, r) line k v = (n = 1 \<and> r, if n = 0 then v else Some (text_or_empty v @ line))"
proof -
  let ?s = "text_or_empty v @ line"
  have again: "(append_script k line ^^ m) (b, Some ?s) = (if m = 0 then b else False, Some ?s)" for m b
    using assms by (induction m) (simp_all add: append_script_def)
  show ?thesis
  proof (cases n)
    case 0
    then show ?thesis by (simp add: append_response_stream_def)
  next
    case (Suc m)
    have "(append_script k line ^^ n) (False, v) = (append_script k line ^^ m) (True, Some ?s)"
      unfolding Suc funpow_Suc_right o_apply using assms(1) by (simp add: append_script_def text_or_empty_def)
    then show ?thesis using Suc by (simp add: append_response_stream_def again)
  qed
qed

lemma append_refused:
  assumes "length (text_or_empty v) \<noteq> k"
  shows "append_response_stream (n, r) line k v = (False, v)"
proof -
  have "(append_script k line ^^ n) (False, v) = (False, v)"
    using assms by (induction n) (simp_all add: append_script_def text_or_empty_def)
  then show ?thesis by (simp add: append_response_stream_def)
qed

definition stored_output :: "stream_env \<Rightarrow> string \<Rightarrow> json list \<Rightarrow> bool" where
  "stored_output env v out \<longleftrightarrow> (\<exists>xs deltas. v = stored_text (dumps_bytes env) (stream_data env xs) deltas \<and>
     (\<forall>d \<in> set deltas. plain_delta d) \<and> apply_events deltas xs = Some out)"

lemma stored_output_snapshot: "stored_output env (dumps_bytes env (stream_data env out) @ newline) out"
  unfolding stored_output_def by (rule exI [of _ out], rule exI [of _ "[]"]) (simp add: stored_text_def lines_text_def)

lemma stored_output_append:
  assumes "stored_output env v out" "plain_delta d" "handle_responses_streaming_event d out = Some (out', m)"
  shows "stored_output env (v @ dumps_bytes env (JObj d) @ newline) out'"
proof -
  from assms(1) obtain xs deltas where v: "v = stored_text (dumps_bytes env) (stream_data env xs) deltas"
    and deltas: "\<forall>d \<in> set deltas. plain_delta d" "apply_events deltas xs = Some out" unfolding stored_output_def by blast
  then have "v @ dumps_bytes env (JObj d) @ newline = stored_text (dumps_bytes env) (stream_data env xs) (deltas @ [d])"
    "apply_events (deltas @ [d]) xs = Some out'"
    using assms(3) by (simp_all add: stored_text_append apply_events_append)
  moreover have "\<forall>e \<in> set (deltas @ [d]). plain_delta e" using deltas(1) assms(2) by simp
  ultimately show ?thesis unfolding stored_output_def by blast
qed

text \<open>When the size is known, the stored text has it and gives the current output.\<close>

definition synced :: "stream_env \<Rightarrow> stream_round \<Rightarrow> bool" where
  "synced env st \<longleftrightarrow> (stream_size st \<noteq> 0 \<longrightarrow> redis env \<and> stream_size st \<le> snapshot_size st * 2 \<and>
     (\<exists>v out. stored st = Some v \<and> length v = stream_size st \<and> full_output env st = Some out \<and> stored_output env v out))"

definition stored_now :: "stream_env \<Rightarrow> stream_round \<Rightarrow> bool" where
  "stored_now env st \<longleftrightarrow> (\<exists>v out. stored st = Some v \<and> full_output env st = Some out \<and> stored_output env v out)"

definition event_post :: "stream_env \<Rightarrow> stream_round \<Rightarrow> bool \<Rightarrow> stream_round \<Rightarrow> bool" where
  "event_post env st ok st' \<longleftrightarrow> (stored st' = stored st \<or> stored_now env st') \<and> (ok \<longrightarrow> synced env st') \<and>
     prior_output st' = prior_output st \<and> local_stream st' = local_stream st"

lemma core_fields:
  assumes "core st' = core st"
  shows "output_items st' = output_items st" "prior_output st' = prior_output st" "stream_size st' = stream_size st"
    "snapshot_size st' = snapshot_size st" "stored st' = stored st" "local_stream st' = local_stream st"
  using assms by (simp_all add: core_def)

lemma full_output_core:
  assumes "core st' = core st" shows "full_output env st' = full_output env st"
  by (simp add: full_output_def core_fields(1,2) [OF assms])

lemma synced_core:
  assumes "core st' = core st" shows "synced env st' = synced env st"
  by (simp add: synced_def core_fields [OF assms] full_output_core [OF assms])

lemma event_post_core:
  assumes "event_post env st ok st1" "core st2 = core st1" "ok' \<Longrightarrow> ok"
  shows "event_post env st ok' st2"
  using assms(1,3)
  by (auto simp: event_post_def stored_now_def synced_core [OF assms(2)] core_fields [OF assms(2)] full_output_core [OF assms(2)])

lemma andthen_frameE:
  assumes "andthen f g st = (ok, st')" "frame f"
  obtains "\<not> ok" "core st' = core st" | st1 where "core st1 = core st" "g st1 = (ok, st')"
  using assms frameD [OF assms(2), of st] by (auto simp: andthen_def split: prod.splits bool.splits)

lemma event_post_frame:
  assumes "andthen f g st1 = (ok, st')" "frame g" "\<And>st2 b. f st1 = (b, st2) \<Longrightarrow> event_post env st b st2"
  shows "event_post env st ok st'"
proof (cases "f st1")
  case (Pair b st2)
  with assms(1) consider "\<not> b" "st' = st2" "\<not> ok" | "b" "g st2 = (ok, st')" by (auto simp: andthen_def split: bool.splits)
  then show ?thesis
  proof cases
    case 1
    then show ?thesis using assms(3) [OF Pair] by (simp add: event_post_def)
  next
    case 2
    with frameD [OF assms(2), of st2] have "core st' = core st2" by simp
    with assms(3) [OF Pair] 2(1) show ?thesis by (auto intro: event_post_core)
  qed
qed

lemma full_output_plain: "\<not> continuing env \<Longrightarrow> full_output env st = Some (prior_output st @ output_items st)"
  by (simp add: full_output_def)

lemma append_line_post:
  assumes start: "synced env st0" "stream_size st0 \<noteq> 0" "\<not> continuing env"
    and before: "core st1 = core (st0\<lparr>output_items := out\<rparr>)"
    and delta: "plain_delta d" "handle_responses_streaming_event d (prior_output st0 @ output_items st0) = Some (prior_output st0 @ out, m)"
  shows "event_post env st0 True (append_line env io d st1)"
proof -
  obtain v where v: "stored st0 = Some v" "length v = stream_size st0" "stored_output env v (prior_output st0 @ output_items st0)"
    and bound: "redis env" using start by (auto simp: synced_def full_output_plain)
  note fields = core_fields [OF before, simplified]
  let ?line = "dumps_bytes env (JObj d) @ newline"
  have out: "full_output env (append_line env io d st1) = Some (prior_output st0 @ out)"
    using start(3) by (simp add: full_output_plain append_line_def fields Let_def split: prod.splits)
  obtain n r where io: "io = (n, r)" by (cases io)
  have appended: "append_response_stream io ?line (stream_size st0) (Some v) = (n = 1 \<and> r, Some (if n = 0 then v else v @ ?line))"
    unfolding io using append_once [of "Some v" "stream_size st0" "?line" n r] by (simp add: v text_or_empty_def newline_def)
  have now: "stored_output env (v @ ?line) (prior_output st0 @ out)" by (rule stored_output_append [OF v(3) delta])
  show ?thesis
    using out now bound v(2)
    by (auto simp: event_post_def append_line_def Let_def fields v(1) appended [simplified] synced_def stored_now_def)
qed

lemma save_response_delta_post:
  assumes start: "synced env st0" and before: "core st1 = core (st0\<lparr>output_items := out\<rparr>)"
    and delta: "is_str (jget d ''delta'') \<Longrightarrow> plain_delta d"
      "handle_responses_streaming_event d (prior_output st0 @ output_items st0) = Some (prior_output st0 @ out, m)"
    and saved: "save_response_delta env io d st1 = (b, st2)"
  shows "event_post env st0 b st2"
proof -
  note fields = core_fields [OF before, simplified]
  consider "stream_size st0 = 0 \<or> \<not> redis env" | "stream_size st0 \<noteq> 0" "redis env" by blast
  then show ?thesis
  proof cases
    case 1
    then have "b" "st2 = st1" using saved by (auto simp: save_response_delta_def fields)
    then show ?thesis using 1 start by (auto simp: fields event_post_def synced_def)
  next
    case 2
    show ?thesis
    proof (cases "b \<and> \<not> continuing env \<and> is_str (jget d ''delta'') \<and> any_code_interpreter (output_items st1) = Some False")
      case True
      then have "st2 = append_line env io d st1" using saved 2 by (simp add: save_response_delta_def fields attempt_def lift_def)
      then show ?thesis using True append_line_post [OF start 2(1) _ before delta(1,2)] by simp
    next
      case False
      then have "\<not> b \<and> st2 = st1 \<or> b \<and> st2 = st1\<lparr>stream_size := 0\<rparr>" using saved 2
        by (auto simp: save_response_delta_def fields attempt_def lift_def split: option.splits if_splits)
      then show ?thesis by (auto simp: event_post_def fields synced_def)
    qed
  qed
qed

lemma emit_post:
  assumes start: "synced env st0" and before: "core st1 = core (st0\<lparr>output_items := out\<rparr>)"
    and event: "well_placed data" "handle_responses_streaming_event data (output_items st0) = Some (out, m)"
      "jget_default data ''type'' (JStr []) = jget_default data' ''type'' (JStr [])"
      "is_delta_event \<Longrightarrow> data' = data"
    and emitted: "emit_response_completion_event env io data' st1 = (b, st2)"
    and is_delta_event: "is_delta_event \<longleftrightarrow> (\<exists>t. jget_default data ''type'' (JStr []) = JStr t \<and> ends_with ''.delta'' t)"
  shows "event_post env st0 b st2"
proof (cases is_delta_event)
  case True
  then obtain t where t: "jget_default data ''type'' (JStr []) = JStr t" "ends_with ''.delta'' t" using is_delta_event by blast
  from event(1) t obtain n where n: "map_of data ''output_index'' = Some (JInt n)" "0 \<le> n" and plain: "plain_type t"
    by (auto simp: well_placed_def split: option.splits json.splits)
  let ?d = "full_index (prior_output st0) data"
  have prior: "prior_output st1 = prior_output st0" using core_fields(2) [OF before] by simp
  have h: "handle_responses_streaming_event ?d (prior_output st0 @ output_items st0) = Some (prior_output st0 @ out, m)"
    by (rule handle_shift [OF plain t(1) n event(2)])
  have d: "is_str (jget ?d ''delta'') \<Longrightarrow> plain_delta ?d"
    using t(1) plain by (simp add: plain_delta_def full_index_get_default full_index_jget)
  from emitted have "andthen (save_response_delta env io ?d) (attempt (get_response_delta_key ?d) (\<lambda>k.
      andthen (queue_delta env ?d (if map_of data ''type'' = None then ''response.delta'' else t) k) (flush_full env))) st1 = (b, st2)"
    using True event(4) t
    by (simp add: emit_response_completion_event_def text_of_def attempt_def queue_pending_delta_data_def Let_def prior)
  moreover have "frame (attempt (get_response_delta_key ?d) (\<lambda>k. andthen (queue_delta env ?d u k) (flush_full env)))" for u
    by (intro frame_intros frame_queue_delta frame_flush_full)
  ultimately show ?thesis
    using save_response_delta_post [OF start before d h] by (rule event_post_frame)
next
  case False
  note fields = core_fields [OF before, simplified]
  show ?thesis
  proof (cases "text_of (jget_default data' ''type'' (JStr []))")
    case None
    then have "\<not> b" "st2 = st1" using emitted by (simp_all add: emit_response_completion_event_def attempt_def)
    then show ?thesis by (simp add: event_post_def fields)
  next
    case (Some t)
    then have JStr: "jget_default data' ''type'' (JStr []) = JStr t" by (simp add: text_of_def split: json.splits)
    with False event(3) is_delta_event have "\<not> ends_with ''.delta'' t" by simp
    then have "andthen (flush_pending_delta_data env 0) (\<lambda>st. attempt
           (if continuing env then map_option (\<lambda>out. JObj [(''output'', JList out)]) (full_output env st)
            else Some (JObj (get_response_completion_event_data (full_index (prior_output st) data'))))
           (\<lambda>data. lift (\<lambda>st. (event_emitter (completion_event env) data st)\<lparr>stream_size := 0\<rparr>)) st) st1 = (b, st2)"
      using emitted JStr by (simp add: emit_response_completion_event_def text_of_def attempt_def)
    then show ?thesis
    proof (rule andthen_frameE [OF _ frame_flush])
      assume "\<not> b" "core st2 = core st1"
      then show ?thesis using core_fields [of st2 st1] by (simp add: event_post_def fields)
    next
      fix st3
      assume core: "core st3 = core st1" and rest: "attempt
           (if continuing env then map_option (\<lambda>out. JObj [(''output'', JList out)]) (full_output env st3)
            else Some (JObj (get_response_completion_event_data (full_index (prior_output st3) data'))))
           (\<lambda>data. lift (\<lambda>st. (event_emitter (completion_event env) data st)\<lparr>stream_size := 0\<rparr>)) st3 = (b, st2)"
      then consider "\<not> b" "st2 = st3" | data where "b" "st2 = (event_emitter (completion_event env) data st3)\<lparr>stream_size := 0\<rparr>"
        by (auto simp: attempt_def lift_def split: option.splits)
      then show ?thesis
        by cases (auto simp: event_post_def synced_def fields core_fields [OF core] event_emitter_def)
    qed
  qed
qed

lemma post_after_frame:
  assumes "andthen f g st1 = (ok, st')" "frame f" "core st1 = core (st0\<lparr>output_items := out\<rparr>)"
    "\<And>st2. core st2 = core (st0\<lparr>output_items := out\<rparr>) \<Longrightarrow> g st2 = (ok, st') \<Longrightarrow> event_post env st0 ok st'"
  shows "event_post env st0 ok st'"
  using assms(1,2)
proof (rule andthen_frameE)
  assume "\<not> ok" "core st' = core st1"
  with assms(3) have "core st' = core (st0\<lparr>output_items := out\<rparr>)" by simp
  then show ?thesis using \<open>\<not> ok\<close> core_fields [of st' "st0\<lparr>output_items := out\<rparr>"] by (simp add: event_post_def)
qed (use assms(3,4) in simp)

lemma shared_output_type: "jget_default (shared_output data out) ''type'' v = jget_default data ''type'' v"
  by (simp add: shared_output_def split: json.splits)

lemma shared_output_delta:
  assumes "jget_default data ''type'' (JStr []) = JStr t" "ends_with ''.delta'' t"
  shows "shared_output data out = data"
proof -
  have "\<not> ends_with ''.delta'' ''response.completed''" by code_simp
  with assms have "jget data ''type'' \<noteq> JStr ''response.completed''" by (auto simp: jget_def jget_default_def split: option.splits)
  then show ?thesis by (auto simp: shared_output_def split: json.splits)
qed

lemma responses_api_event_post:
  assumes start: "synced env st" and placed: "well_placed data"
    and run: "responses_api_event env io data st = (ok, st')"
  shows "event_post env st ok st'"
proof (cases "handle_responses_streaming_event data (output_items st)")
  case None
  then have "\<not> ok" "st' = st" using run by (simp_all add: responses_api_event_def attempt_def)
  then show ?thesis by (simp add: event_post_def)
next
  case (Some r)
  obtain out m where r: "r = (out, m)" by (cases r)
  let ?meta = "dict_of m" and ?type = "text_of (jget data ''type'')"
  let ?last = "\<lambda>st. (True, if truthy (jget ?meta ''usage'') \<and> truthy (usage st)
    then event_emitter ''chat:completion'' (JObj [(''usage'', usage st)]) st else st)"
  let ?st = "st\<lparr>output_items := out\<rparr>"
  have "andthen (if map_option (ends_with ''.delta'') ?type = Some True then lift id else flush_pending_delta_data env 0)
      (andthen (if ?type = Some ''response.output_item.done'' then emit_citations data else lift id)
      (andthen (if ?meta \<noteq> [] then merge_metadata env ?meta else lift id)
      (andthen (emit_response_completion_event env io (shared_output data out)) ?last))) ?st = (ok, st')"
    using run Some r
    by (simp add: responses_api_event_def attempt_def Let_def andthen_def [of "lift (\<lambda>st. st\<lparr>output_items := out\<rparr>)"]
        lift_def [of "\<lambda>st. st\<lparr>output_items := out\<rparr>"] split del: if_split)
  then show ?thesis
  proof (rule post_after_frame)
    fix st2
    assume core: "core st2 = core ?st"
      and "andthen (if ?type = Some ''response.output_item.done'' then emit_citations data else lift id)
      (andthen (if ?meta \<noteq> [] then merge_metadata env ?meta else lift id)
      (andthen (emit_response_completion_event env io (shared_output data out)) ?last)) st2 = (ok, st')"
    from this(2) _ this(1) show ?thesis
    proof (rule post_after_frame)
      fix st3
      assume core: "core st3 = core ?st"
        and "andthen (if ?meta \<noteq> [] then merge_metadata env ?meta else lift id)
      (andthen (emit_response_completion_event env io (shared_output data out)) ?last) st3 = (ok, st')"
      from this(2) _ this(1) show ?thesis
      proof (rule post_after_frame)
        fix st4
        assume core: "core st4 = core ?st"
          and final: "andthen (emit_response_completion_event env io (shared_output data out)) ?last st4 = (ok, st')"
        from final show ?thesis
        proof (rule event_post_frame)
          show "frame ?last" by (rule frameI) simp
          fix st5 b
          assume emitted: "emit_response_completion_event env io (shared_output data out) st4 = (b, st5)"
          show "event_post env st b st5"
            by (rule emit_post [OF start core placed Some [unfolded r] shared_output_type [symmetric] _ emitted refl])
              (auto simp: shared_output_delta)
        qed
      qed (intro frame_intros frame_metadata)
    qed (intro frame_intros frame_citations)
  qed (intro frame_intros frame_flush, rule refl)
qed

subsection \<open>One line\<close>

definition identified :: "stream_env \<Rightarrow> bool" where
  "identified env \<longleftrightarrow> task_id env \<noteq> [] \<and> chat_id env \<noteq> [] \<and> message_id env \<noteq> []"

lemma save_current_post:
  assumes "save_current_response_stream env io st = (ok, st')" "ok"
  obtains out where "full_output env st = Some out"
    "st' = (if \<not> identified env then st\<lparr>stream_size := 0, snapshot_size := 0\<rparr>
       else if redis env then
         (let v = dumps_bytes env (stream_data env out) @ newline; n = (if 0 < fst io \<and> snd io then length v else 0)
          in (if 0 < fst io then st\<lparr>stored := Some v\<rparr> else st)\<lparr>stream_size := n, snapshot_size := n\<rparr>)
       else st\<lparr>local_stream := Some (stream_data env out), stream_size := 0, snapshot_size := 0\<rparr>)"
  using assms
  by (auto simp: save_current_response_stream_def attempt_def lift_def save_response_stream_def identified_def Let_def
      split: option.splits if_splits)

text \<open>What a line leaves: known sizes are right, and what is stored is old or the output after the line.\<close>

lemma response_line_post:
  assumes start: "synced env st" and placed: "well_placed data"
    and run: "response_line env append_io save_io False data st = (True, st')"
  shows "synced env st'" "stored st' = stored st \<or> stored_now env st'" "prior_output st' = prior_output st"
    "identified env \<Longrightarrow> redis env \<Longrightarrow> 0 < fst save_io \<Longrightarrow> snd save_io \<Longrightarrow> stream_size st' \<noteq> 0"
    "identified env \<Longrightarrow> \<not> redis env \<Longrightarrow> local_stream st' = map_option (stream_data env) (full_output env st')"
proof -
  obtain b st1 where event: "responses_api_event env append_io data st = (b, st1)" by (cases "responses_api_event env append_io data st")
  define st2 where "st2 = (if b then st1 else st1\<lparr>stream_size := 0\<rparr>)"
  have post: "event_post env st b st1" by (rule responses_api_event_post [OF start placed event])
  have size: "full_output env (st1\<lparr>stream_size := 0\<rparr>) = full_output env st1" by (simp add: full_output_def)
  from post have post: "event_post env st True st2"
    by (auto simp: event_post_def st2_def synced_def stored_now_def size)
  have run: "(if stream_size st2 = 0 \<or> \<not> redis env then save_current_response_stream env save_io st2 else (True, st2)) = (True, st')"
    using run by (simp only: response_line_def event Let_def prod.case simp_thms st2_def [symmetric])
  have "synced env st' \<and> (stored st' = stored st \<or> stored_now env st') \<and> prior_output st' = prior_output st \<and>
    (identified env \<and> redis env \<and> 0 < fst save_io \<and> snd save_io \<longrightarrow> stream_size st' \<noteq> 0) \<and>
    (identified env \<and> \<not> redis env \<longrightarrow> local_stream st' = map_option (stream_data env) (full_output env st'))"
  proof (cases "stream_size st2 = 0 \<or> \<not> redis env")
    case False
    then show ?thesis using run post by (auto simp: event_post_def)
  next
    case True
    with run have "save_current_response_stream env save_io st2 = (True, st')" by simp
    then obtain out where out: "full_output env st2 = Some out" and st': "st' = (if \<not> identified env then st2\<lparr>stream_size := 0, snapshot_size := 0\<rparr>
       else if redis env then
         (let v = dumps_bytes env (stream_data env out) @ newline; n = (if 0 < fst save_io \<and> snd save_io then length v else 0)
          in (if 0 < fst save_io then st2\<lparr>stored := Some v\<rparr> else st2)\<lparr>stream_size := n, snapshot_size := n\<rparr>)
       else st2\<lparr>local_stream := Some (stream_data env out), stream_size := 0, snapshot_size := 0\<rparr>)"
      by (rule save_current_post) simp
    have fields: "output_items st' = output_items st2" "prior_output st' = prior_output st2"
      by (simp_all add: st' Let_def)
    then have out': "full_output env st' = Some out" using out by (simp add: full_output_def)
    have kept: "stored st' = stored st2 \<or> stored_now env st'"
      using out' stored_output_snapshot [of env out] by (auto simp: st' Let_def stored_now_def split: if_splits)
    then have "stored st' = stored st \<or> stored_now env st'"
      using post out out' by (auto simp: event_post_def stored_now_def)
    moreover have "synced env st'" unfolding synced_def out'
      using stored_output_snapshot [of env out] by (auto simp: st' Let_def)
    moreover have "prior_output st' = prior_output st" using fields(2) post by (simp add: event_post_def)
    ultimately show ?thesis using out' by (auto simp: st' Let_def newline_def)
  qed
  then show "synced env st'" "stored st' = stored st \<or> stored_now env st'" "prior_output st' = prior_output st"
    "identified env \<Longrightarrow> redis env \<Longrightarrow> 0 < fst save_io \<Longrightarrow> snd save_io \<Longrightarrow> stream_size st' \<noteq> 0"
    "identified env \<Longrightarrow> \<not> redis env \<Longrightarrow> local_stream st' = map_option (stream_data env) (full_output env st')" by simp_all
qed

end
