(* ===== verification/StreamQueue.thy ===== *)
theory StreamQueue
  imports StreamStored
begin

text \<open>
  The events for the client: what was sent together with the pending event stands for all deltas that
  were queued, and whole responses as sequences of lines.
\<close>

subsection \<open>Queued deltas\<close>

fun emitted_event :: "effect \<Rightarrow> json dict list" where
  "emitted_event (Emit event_type (JObj d)) = (if event_type = ''response:completion'' then [d] else [])"
| "emitted_event _ = []"

definition sent :: "stream_round \<Rightarrow> json dict list" where
  "sent st = concat (map emitted_event (effects st)) @ (if last_delta_data st = [] then [] else [last_delta_data st])"

definition pending_ok :: "stream_round \<Rightarrow> bool" where
  "pending_ok st \<longleftrightarrow> 0 \<le> delta_count st \<and>
     (last_delta_data st \<noteq> [] \<longrightarrow> plain_delta (last_delta_data st) \<and> get_response_delta_key (last_delta_data st) = Some (last_delta_key st))"

lemma flush_sent:
  assumes "\<not> continuing env" "flush_pending_delta_data env n st = (ok, st')"
  shows "ok" "sent st' = sent st" "pending_ok st \<Longrightarrow> pending_ok st'" "prior_output st' = prior_output st"
    "last_delta_data st \<noteq> [] \<Longrightarrow> n \<le> delta_count st \<Longrightarrow> last_delta_data st' = []"
  using assms
  by (auto simp: flush_pending_delta_data_def attempt_def lift_def no_pending_def event_emitter_def completion_event_def
      sent_def pending_ok_def split: if_splits)

lemma joined_pending:
  assumes pending: "plain_delta p" "get_response_delta_key p = Some k" and d: "plain_delta d" "get_response_delta_key d = Some l"
    and same: "same_key k l" and run: "apply_events (es @ [p, d]) xs = Some ys"
  shows "apply_events (es @ [append_to_text_field p ''delta'' (jget d ''delta'')]) xs = Some ys"
    "plain_delta (append_to_text_field p ''delta'' (jget d ''delta''))"
    "get_response_delta_key (append_to_text_field p ''delta'' (jget d ''delta'')) = Some k"
proof -
  from pending(1) obtain a et where p: "text_event p a" "jget p ''delta'' = JStr a"
    "jget_default p ''type'' (JStr []) = JStr et" "plain_type et" by (rule plain_deltaE)
  from d(1) obtain b where b: "text_event d b" "jget d ''delta'' = JStr b" by (rule plain_deltaE)
  have joined: "append_to_text_field p ''delta'' (jget d ''delta'') = AList.update ''delta'' (JStr (a @ b)) p"
    by (simp add: append_to_text_field_def p b)
  from run obtain x1 u1 x2 u2 x0 where run: "apply_events es xs = Some x0"
    "handle_responses_streaming_event p x0 = Some (x1, u1)" "handle_responses_streaming_event d x1 = Some (x2, u2)" "ys = x2"
    by (auto simp: apply_events_append bind_eq_Some_conv)
  obtain k' where k: "k = Some k'" using pending(2) p by (auto simp: get_response_delta_key_def plain_type_def is_delta_def)
  from same_key_same_place [OF pending(2) [unfolded k] d(2) same [unfolded k]] p(3)
  have place: "jget_default d ''type'' (JStr []) = JStr et" "same_place p d" by auto
  have "handle_responses_streaming_event (AList.update ''delta'' (JStr (a @ b)) p) x0 = Some (x2, u2)"
    by (rule handle_delta_twice [OF p(3) place(1) p(4) place(2) p(1) b(1) run(2,3)])
  then show "apply_events (es @ [append_to_text_field p ''delta'' (jget d ''delta'')]) xs = Some ys"
    using run by (simp add: joined apply_events_append)
  show "plain_delta (append_to_text_field p ''delta'' (jget d ''delta''))" using p by (simp add: joined)
  show "get_response_delta_key (append_to_text_field p ''delta'' (jget d ''delta'')) = Some k"
    using pending(2) p(3) by (simp add: joined get_response_delta_key_def split: if_splits)
qed

lemma plain_delta_Nil: "\<not> plain_delta []"
  by (simp add: plain_delta_def)

lemma queue_delta_sent:
  assumes "\<not> continuing env" and ok: "pending_ok st" and d: "plain_delta d" "get_response_delta_key d = Some k"
    and run: "queue_delta env d t k st = (b, st')" and before: "apply_events (sent st @ [d]) xs = Some ys"
  shows "apply_events (sent st') xs = Some ys \<and> pending_ok st' \<and> prior_output st' = prior_output st"
proof -
  have d_str: "is_str (jget d ''delta'')" using d(1) by (simp add: plain_delta_def)
  have placed: "apply_events (sent st2) xs = Some ys \<and> pending_ok st2 \<and> prior_output st2 = prior_output st"
    if "sent st1 = sent st" "last_delta_data st1 = []" "pending_ok st1" "prior_output st1 = prior_output st"
      "st2 = set_pending d t k st1" for st1 st2
    using that d before plain_delta_Nil by (auto simp: sent_def set_pending_def pending_ok_def)
  consider (empty) "last_delta_data st = []" | (other) "last_delta_data st \<noteq> []" "\<not> same_key (last_delta_key st) k"
    | (joined) "last_delta_data st \<noteq> []" "same_key (last_delta_key st) k" by blast
  then show ?thesis
  proof cases
    case empty
    then have "st' = set_pending d t k st" using run by (simp add: queue_delta_def Let_def andthen_def lift_def)
    then show ?thesis using placed [OF refl empty ok refl] by simp
  next
    case other
    obtain c st1 where flush: "flush_pending_delta_data env 0 st = (c, st1)" by (cases "flush_pending_delta_data env 0 st")
    note f = flush_sent [OF assms(1) flush]
    have "st' = set_pending d t k st1" using run other flush f(1) by (simp add: queue_delta_def Let_def andthen_def lift_def)
    then show ?thesis using placed [OF f(2) _ f(3) [OF ok] f(4)] f(5) other(1) ok by (simp add: pending_ok_def)
  next
    case joined
    let ?p = "last_delta_data st"
    have p: "plain_delta ?p" "get_response_delta_key ?p = Some (last_delta_key st)" using ok joined(1) by (simp_all add: pending_ok_def)
    then have "is_str (jget ?p ''delta'')" by (simp add: plain_delta_def)
    then have st': "st' = st\<lparr>last_delta_data := append_to_text_field ?p ''delta'' (jget d ''delta''), delta_count := delta_count st + 1\<rparr>"
      using run joined d_str by (simp add: queue_delta_def)
    have "apply_events (concat (map emitted_event (effects st)) @ [?p, d]) xs = Some ys"
      using before joined(1) by (simp add: sent_def)
    note j = joined_pending [OF p d joined(2) this]
    then have "append_to_text_field ?p ''delta'' (jget d ''delta'') \<noteq> []" using plain_delta_Nil by auto
    then show ?thesis using j ok by (simp add: st' sent_def pending_ok_def)
  qed
qed

lemma save_response_delta_pending:
  assumes "save_response_delta env io d st = (b, st1)"
  shows "sent st1 = sent st" "pending_ok st1 = pending_ok st" "prior_output st1 = prior_output st"
  using assms
  by (auto simp: save_response_delta_def attempt_def lift_def append_line_def sent_def pending_ok_def Let_def
      split: option.splits if_splits prod.splits)

lemma andthen_TrueE:
  assumes "andthen f g st = (True, st')" obtains st1 where "f st = (True, st1)" "g st1 = (True, st')"
  using assms by (auto simp: andthen_def split: prod.splits bool.splits)

lemma queue_sent:
  assumes "\<not> continuing env" and ok: "pending_ok st" and d: "plain_delta d"
    and run: "queue_pending_delta_data env io d t st = (True, st')"
    and before: "apply_events (sent st @ [full_index (prior_output st) d]) xs = Some ys"
  shows "apply_events (sent st') xs = Some ys \<and> pending_ok st' \<and> prior_output st' = prior_output st \<and>
    (last_delta_data st' = [] \<or> delta_count st' < delta_chunk_size env)"
proof -
  let ?d = "full_index (prior_output st) d"
  have plain: "plain_delta ?d" using d by (simp add: plain_delta_def full_index_get_default full_index_jget)
  then obtain k where k: "get_response_delta_key ?d = Some k" using plain_delta_key by blast
  from run have "andthen (save_response_delta env io ?d) (attempt (Some k) (\<lambda>k. andthen (queue_delta env ?d t k) (flush_full env))) st = (True, st')"
    by (simp only: queue_pending_delta_data_def Let_def k)
  then obtain st1 where steps: "save_response_delta env io ?d st = (True, st1)" and rest: "andthen (queue_delta env ?d t k) (flush_full env) st1 = (True, st')"
    by (rule andthen_TrueE) (simp add: attempt_def)
  from rest obtain st2 where steps: "save_response_delta env io ?d st = (True, st1)" "queue_delta env ?d t k st1 = (True, st2)"
    "flush_full env st2 = (True, st')" by (rule andthen_TrueE) (use steps in blast)
  note saved = save_response_delta_pending [OF steps(1)]
  have queued: "apply_events (sent st2) xs = Some ys" "pending_ok st2" "prior_output st2 = prior_output st"
    using queue_delta_sent [OF assms(1) _ plain k steps(2), of xs ys] ok before saved by simp_all
  show ?thesis
  proof (cases "delta_chunk_size env \<le> delta_count st2")
    case False
    then have "st' = st2" using steps(3) by (simp add: flush_full_def)
    with queued False show ?thesis by simp
  next
    case True
    then have flush: "flush_pending_delta_data env (delta_chunk_size env) st2 = (True, st')" using steps(3) by (simp add: flush_full_def)
    note f = flush_sent [OF assms(1) flush]
    have "last_delta_data st' = []"
    proof (cases "last_delta_data st2 = []")
      case True
      then show ?thesis using flush by (simp add: flush_pending_delta_data_def)
    qed (simp add: f(5) True)
    then show ?thesis using f(2-4) queued by simp
  qed
qed

subsection \<open>Sequences\<close>

lemma each_snoc: "each f (xs @ [x]) st = andthen (each f xs) (f x) st"
proof (induction xs arbitrary: st)
  case Nil
  then show ?case by (simp add: andthen_def lift_def split: prod.splits bool.splits)
next
  case (Cons y ys)
  then show ?case by (auto simp: andthen_def split: prod.splits bool.splits)
qed

text \<open>The lines of a response, each with the outcomes of its Redis calls; the run stops when a snapshot raises.\<close>

definition response_lines :: "stream_env \<Rightarrow> (redis_outcome \<times> redis_outcome \<times> json dict) list \<Rightarrow> step" where
  "response_lines env lines = each (\<lambda>(append_io, save_io, data). response_line env append_io save_io False data) lines"

lemma stored_output_load:
  assumes "stored_output env v out" "exact_codec (dumps_bytes env) loads"
  shows "load_response_stream loads v = Some (stream_data env out)"
proof -
  let ?data = "\<lambda>xs. [(''chat_id'', JStr (chat_id env)), (''message_id'', JStr (message_id env)), (''output'', JList xs)]"
  from assms(1) obtain xs deltas where v: "v = stored_text (dumps_bytes env) (JObj (?data xs)) deltas"
    and deltas: "\<forall>d \<in> set deltas. plain_delta d" "apply_events deltas xs = Some out"
    unfolding stored_output_def stream_data_def by blast
  show ?thesis unfolding v using load_stored [OF assms(2) deltas, of "?data xs"] by (simp add: stream_data_def)
qed

definition stored_from :: "stream_env \<Rightarrow> (redis_outcome \<times> redis_outcome \<times> json dict) list \<Rightarrow> stream_round \<Rightarrow> string \<Rightarrow> bool" where
  "stored_from env lines st v \<longleftrightarrow> (\<exists>k \<le> length lines. \<exists>st' out. response_lines env (take k lines) st = (True, st') \<and>
     full_output env st' = Some out \<and> stored_output env v out)"

lemma response_lines_inv:
  assumes "\<forall>(append_io, save_io, data) \<in> set lines. well_placed data" "stream_size st = 0" "stored st = None"
    "response_lines env lines st = (True, st')"
  shows "synced env st' \<and> prior_output st' = prior_output st \<and> (stored st' = None \<or> (\<exists>v. stored st' = Some v \<and> stored_from env lines st v))"
  using assms(1,4)
proof (induction lines arbitrary: st' rule: rev_induct)
  case Nil
  then have "st' = st" by (simp add: response_lines_def lift_def)
  then show ?case using assms(2,3) by (simp add: synced_def)
next
  case (snoc l lines)
  obtain a s data where l: "l = (a, s, data)" by (cases l) auto
  from snoc.prems(2) obtain st1 where first: "response_lines env lines st = (True, st1)"
    and line: "response_line env a s False data st1 = (True, st')"
    unfolding response_lines_def each_snoc l prod.case by (rule andthen_TrueE)
  from snoc.IH [OF _ first] snoc.prems(1) have IH: "synced env st1" "prior_output st1 = prior_output st"
    "stored st1 = None \<or> (\<exists>v. stored st1 = Some v \<and> stored_from env lines st v)" by auto
  have placed: "well_placed data" using snoc.prems(1) by (auto simp: l)
  note post = response_line_post [OF IH(1) placed line]
  have longer: "stored_from env (lines @ [l]) st v" if "stored_from env lines st v" for v
  proof -
    from that obtain k st2 out where k: "k \<le> length lines" and "response_lines env (take k lines) st = (True, st2)"
      "full_output env st2 = Some out" "stored_output env v out" unfolding stored_from_def by blast
    then show ?thesis unfolding stored_from_def by (intro exI [of _ k]) auto
  qed
  have "stored_from env (lines @ [l]) st v" if "stored st' = Some v" "stored_now env st'" for v
  proof -
    from that obtain out where "full_output env st' = Some out" "stored_output env v out" by (auto simp: stored_now_def)
    with snoc.prems(2) show ?thesis unfolding stored_from_def by (intro exI [of _ "Suc (length lines)"]) auto
  qed
  with post IH longer show ?case by (auto simp: stored_now_def)
qed

text \<open>Deltas that are sent on, in order.\<close>

definition send_deltas :: "stream_env \<Rightarrow> (redis_outcome \<times> json dict) list \<Rightarrow> step" where
  "send_deltas env deltas = each (\<lambda>(io, d). emit_response_completion_event env io d) deltas"

lemma emit_plain:
  assumes "plain_delta d"
  obtains t where "emit_response_completion_event env io d = queue_pending_delta_data env io d t"
proof -
  from assms obtain et where et: "jget_default d ''type'' (JStr []) = JStr et" "plain_type et" by (rule plain_deltaE)
  then have "emit_response_completion_event env io d =
      queue_pending_delta_data env io d (if map_of d ''type'' = None then ''response.delta'' else et)"
    by (simp add: emit_response_completion_event_def text_of_def attempt_def plain_type_def is_delta_def fun_eq_iff)
  with that show ?thesis by blast
qed

lemma send_deltas_inv:
  assumes "\<not> continuing env" "\<forall>(io, d) \<in> set deltas. plain_delta d" "pending_ok st"
    "last_delta_data st = [] \<or> delta_count st < delta_chunk_size env"
    "send_deltas env deltas st = (True, st')"
    "apply_events (sent st @ map (\<lambda>(io, d). full_index (prior_output st) d) deltas) xs = Some ys"
  shows "apply_events (sent st') xs = Some ys \<and> (last_delta_data st' = [] \<or> delta_count st' < delta_chunk_size env)"
  using assms(2-)
proof (induction deltas arbitrary: st)
  case Nil
  then show ?case by (simp add: send_deltas_def lift_def)
next
  case (Cons x deltas)
  obtain io d where x: "x = (io, d)" by (cases x)
  from Cons.prems(4) obtain st1 where first: "emit_response_completion_event env io d st = (True, st1)"
    and rest: "send_deltas env deltas st1 = (True, st')"
    unfolding send_deltas_def x each.simps prod.case by (rule andthen_TrueE)
  from Cons.prems(1) have d: "plain_delta d" by (auto simp: x)
  obtain t where t: "queue_pending_delta_data env io d t st = (True, st1)"
    using emit_plain [OF d, of env io] first by metis
  from Cons.prems(5) obtain y where y: "apply_events (sent st @ [full_index (prior_output st) d]) xs = Some y"
    "apply_events (map (\<lambda>(io, d). full_index (prior_output st) d) deltas) y = Some ys"
    by (auto simp: x apply_events_append bind_eq_Some_conv)
  from queue_sent [OF assms(1) Cons.prems(2) d t y(1)] have q: "apply_events (sent st1) xs = Some y" "pending_ok st1"
    "prior_output st1 = prior_output st" "last_delta_data st1 = [] \<or> delta_count st1 < delta_chunk_size env" by auto
  show ?case
    by (rule Cons.IH [OF _ q(2,4) rest]) (use Cons.prems(1) q y in \<open>simp_all add: apply_events_append x\<close>)
qed

end
