(* ===== verification/StreamSamples.thy ===== *)
theory StreamSamples
  imports StreamQueue
begin

text \<open>A codec that is exact and writes no line break, and a response of a few lines.\<close>

subsection \<open>A codec\<close>

definition code_char :: "char \<Rightarrow> string" where
  "code_char c =
     (if c = CHR ''\"'' then [CHR 0x5C, CHR ''q''] else if c = CHR 0x0A then [CHR 0x5C, CHR ''n'']
      else if c = CHR 0x5C then [CHR 0x5C, CHR 0x5C] else [c])"

definition code_string :: "string \<Rightarrow> string" where
  "code_string s = CHR ''\"'' # concat (map code_char s) @ [CHR ''\"'']"

fun code :: "json \<Rightarrow> string" where
  "code JNull = ''n''"
| "code (JBool b) = (if b then ''t'' else ''f'')"
| "code (JInt i) = (if i < 0 then CHR ''-'' else CHR ''+'') # replicate (nat \<bar>i\<bar>) (CHR ''1'') @ ''.''"
| "code (JStr s) = code_string s"
| "code (JList xs) = ''['' @ concat (map code xs) @ '']''"
| "code (JObj d) = CHR 0x7B # concat (map (\<lambda>(k, v). code_string k @ code v) d) @ [CHR 0x7D]"

fun decode_string :: "string \<Rightarrow> (string \<times> string) option" where
  "decode_string (c # cs) =
     (if c = CHR ''\"'' then Some ([], cs)
      else if c \<noteq> CHR 0x5C then map_option (\<lambda>(s, r). (c # s, r)) (decode_string cs)
      else (case cs of [] \<Rightarrow> None
        | d # r \<Rightarrow> map_option (\<lambda>(s, r).
            ((if d = CHR ''q'' then CHR ''\"'' else if d = CHR ''n'' then CHR 0x0A else d) # s, r)) (decode_string r)))"
| "decode_string [] = None"

fun decode_unary :: "string \<Rightarrow> (nat \<times> string) option" where
  "decode_unary (c # cs) =
     (if c = CHR ''.'' then Some (0, cs) else map_option (\<lambda>(n, r). (Suc n, r)) (decode_unary cs))"
| "decode_unary [] = None"

fun decode :: "nat \<Rightarrow> string \<Rightarrow> (json \<times> string) option" and decode_items :: "nat \<Rightarrow> string \<Rightarrow> (json list \<times> string) option"
  and decode_entries :: "nat \<Rightarrow> string \<Rightarrow> (json dict \<times> string) option" where
  "decode (Suc n) (c # cs) =
     (if c = CHR ''n'' then Some (JNull, cs)
      else if c = CHR ''t'' then Some (JBool True, cs)
      else if c = CHR ''f'' then Some (JBool False, cs)
      else if c = CHR ''+'' then map_option (\<lambda>(n, r). (JInt (int n), r)) (decode_unary cs)
      else if c = CHR ''-'' then map_option (\<lambda>(n, r). (JInt (- int n), r)) (decode_unary cs)
      else if c = CHR ''\"'' then map_option (\<lambda>(s, r). (JStr s, r)) (decode_string cs)
      else if c = CHR ''['' then map_option (\<lambda>(xs, r). (JList xs, r)) (decode_items n cs)
      else if c = CHR 0x7B then map_option (\<lambda>(d, r). (JObj d, r)) (decode_entries n cs)
      else None)"
| "decode _ _ = None"
| "decode_items (Suc n) (c # cs) =
     (if c = CHR '']'' then Some ([], cs)
      else do { (v, r) \<leftarrow> decode n (c # cs); (vs, r) \<leftarrow> decode_items n r; Some (v # vs, r) })"
| "decode_items _ _ = None"
| "decode_entries (Suc n) (c # cs) =
     (if c = CHR 0x7D then Some ([], cs)
      else do { (k, r) \<leftarrow> decode_string cs; (v, r) \<leftarrow> decode n r; (d, r) \<leftarrow> decode_entries n r; Some ((k, v) # d, r) })"
| "decode_entries _ _ = None"

definition decode_text :: "string \<Rightarrow> json option" where
  "decode_text s = (case decode (length s) s of Some (v, []) \<Rightarrow> Some v | _ \<Rightarrow> None)"

lemma decode_string_code: "decode_string (concat (map code_char s) @ CHR ''\"'' # r) = Some (s, r)"
  by (induction s) (auto simp: code_char_def)

lemma decode_unary_code: "decode_unary (replicate n (CHR ''1'') @ CHR ''.'' # r) = Some (n, r)"
  by (induction n) simp_all

lemma code_first: "\<exists>c cs. code v = c # cs \<and> c \<noteq> CHR '']'' \<and> c \<noteq> CHR 0x7D"
  by (cases v) (simp_all add: code_string_def)

lemma decode_code: "length (code v) \<le> n \<Longrightarrow> decode n (code v @ r) = Some (v, r)"
proof (induction v arbitrary: n r rule: code.induct)
  case (5 xs)
  have "length (concat (map code ys)) < m \<Longrightarrow> decode_items m (concat (map code ys) @ CHR '']'' # r) = Some (ys, r)"
    if "set ys \<subseteq> set xs" for ys m
    using that
  proof (induction ys arbitrary: m)
    case Nil
    then show ?case by (cases m) simp_all
  next
    case (Cons y ys)
    obtain c cs where c: "code y = c # cs" "c \<noteq> CHR '']''" using code_first by blast
    obtain m' where m: "m = Suc m'" using Cons.prems by (cases m) simp_all
    have "decode m' (code y @ concat (map code ys) @ CHR '']'' # r) = Some (y, concat (map code ys) @ CHR '']'' # r)"
      by (rule 5) (use Cons.prems m in auto)
    moreover have "decode_items m' (concat (map code ys) @ CHR '']'' # r) = Some (ys, r)"
      by (rule Cons.IH) (use Cons.prems m c in auto)
    ultimately show ?case using c by (simp add: m)
  qed
  from this [of xs "n - 1"] 5(2) show ?case by (cases n) simp_all
next
  case (6 d)
  have "length (concat (map (\<lambda>(k, v). code_string k @ code v) e)) < m \<Longrightarrow>
      decode_entries m (concat (map (\<lambda>(k, v). code_string k @ code v) e) @ CHR 0x7D # r) = Some (e, r)"
    if "set e \<subseteq> set d" for e m
    using that
  proof (induction e arbitrary: m)
    case Nil
    then show ?case by (cases m) simp_all
  next
    case (Cons kv e)
    obtain k v where kv: "kv = (k, v)" by (cases kv)
    obtain m' where m: "m = Suc m'" using Cons.prems by (cases m) simp_all
    let ?r = "concat (map (\<lambda>(k, v). code_string k @ code v) e) @ CHR 0x7D # r"
    have "decode m' (code v @ ?r) = Some (v, ?r)"
      by (rule 6) (use Cons.prems m kv in auto)
    moreover have "decode_entries m' ?r = Some (e, r)"
      by (rule Cons.IH) (use Cons.prems m kv in \<open>auto simp: code_string_def\<close>)
    moreover have "decode_string (concat (map code_char k) @ CHR ''\"'' # code v @ ?r) = Some (k, code v @ ?r)"
      by (rule decode_string_code)
    ultimately show ?case by (simp add: m kv code_string_def)
  qed
  from this [of d "n - 1"] 6(2) show ?case by (cases n) simp_all
next
  case (1 n)
  then show ?case by (cases n) simp_all
next
  case (2 b n)
  then show ?case by (cases n; cases b) simp_all
next
  case (3 i n)
  then show ?case by (cases n) (simp_all add: decode_unary_code)
next
  case (4 s n)
  then show ?case by (cases n) (simp_all add: code_string_def decode_string_code)
qed

lemma code_string_no_newline: "CHR 0x0A \<notin> set (code_string s)"
  by (induction s) (auto simp: code_string_def code_char_def)

lemma code_no_newline: "CHR 0x0A \<notin> set (code v)"
  by (induction v rule: code.induct) (auto simp: code_string_no_newline)

lemma sample_codec: "exact_codec code decode_text"
proof -
  have "decode_text (code v) = Some v" for v
    using decode_code [of v "length (code v)" "[]"] by (simp add: decode_text_def)
  moreover have "code v \<noteq> []" for v using code_first [of v] by auto
  ultimately show ?thesis by (simp add: exact_codec_def code_no_newline)
qed

subsection \<open>A response\<close>

definition sample_relay :: stream_env where
  "sample_relay = \<lparr>redis = True, task_id = ''t'', chat_id = ''c'', message_id = ''m'', continuing = False, stateful = False,
     save_to_chat = True, delta_chunk_size = 2, dumps_bytes = code\<rparr>"

definition sample_prior :: json where
  "sample_prior = JObj [(''type'', JStr ''function_call_output''), (''call_id'', JStr ''x'')]"

definition sample_round :: stream_round where
  "sample_round = \<lparr>output_items = [], prior_output = [sample_prior], usage = JNull, current_usage = JNull, last_response_id = JNull,
     stream_size = 0, snapshot_size = 0, delta_count = 0, last_delta_data = [], last_delta_type = [], last_delta_key = None,
     stored = None, local_stream = None, effects = []\<rparr>"

definition sample_added :: "json dict" where
  "sample_added = [(''type'', JStr ''response.output_item.added''), (''output_index'', JInt 0),
     (''item'', JObj [(''type'', JStr ''message''), (''id'', JStr ''i'')])]"

definition sample_delta :: "string \<Rightarrow> json dict" where
  "sample_delta s = [(''type'', JStr ''response.output_text.delta''), (''output_index'', JInt 0), (''delta'', JStr s)]"

text \<open>The second append is executed and its reply lost; the snapshot after it is answered.\<close>

definition sample_first :: "(redis_outcome \<times> redis_outcome \<times> json dict) list" where
  "sample_first = [((0, False), (1, True), sample_added), ((1, True), (0, False), sample_delta ''He''),
     ((1, False), (0, False), sample_delta ''ll'')]"

definition sample_lines :: "(redis_outcome \<times> redis_outcome \<times> json dict) list" where
  "sample_lines = sample_first @ [((1, True), (Suc 1, True), sample_delta ''o'')]"

definition sample_end :: stream_round where
  "sample_end = snd (response_lines sample_relay sample_lines sample_round)"

lemma sample_run: "response_lines sample_relay sample_lines sample_round = (True, sample_end)"
  unfolding sample_end_def by (rule prod_eqI) (simp_all, code_simp)

lemma sample_size: "stream_size sample_end \<noteq> 0"
  by code_simp

lemma sample_output:
  "output_items sample_end = [JObj [(''type'', JStr ''message''), (''id'', JStr ''i''),
     (''content'', JList [JObj [(''type'', JStr ''text''), (''text'', JStr ''Hello'')]])]]"
  by code_simp

lemma sample_placed: "\<forall>(append_io, save_io, data) \<in> set sample_lines. well_placed data"
  by code_simp

end
