(* ===== verification/StreamTypes.thy ===== *)
theory StreamTypes
  imports StreamLaws
begin

text \<open>
  A type discipline for response streams: the shape of items and events under which the reducer raises
  nothing, and which it keeps.
\<close>

subsection \<open>Shapes\<close>

definition typed_parts :: "json option \<Rightarrow> bool" where
  "typed_parts v = (case v of None \<Rightarrow> True | Some (JList parts) \<Rightarrow> list_all is_dict parts | _ \<Rightarrow> False)"

definition typed_item :: "json \<Rightarrow> bool" where
  "typed_item x =
     (case x of JObj item \<Rightarrow> typed_parts (map_of item ''content'') \<and> typed_parts (map_of item ''summary'') \<and>
          (case map_of item ''arguments'' of None \<Rightarrow> True | Some v \<Rightarrow> is_str v)
      | _ \<Rightarrow> False)"

definition typed_index :: "json option \<Rightarrow> bool" where
  "typed_index v = (case v of None \<Rightarrow> True | Some v \<Rightarrow> (case number v of Some n \<Rightarrow> 0 \<le> n | None \<Rightarrow> False))"

text \<open>The field an event is for must not be one that other events rely on.\<close>

definition free_field :: "string \<Rightarrow> bool" where
  "free_field event_type \<longleftrightarrow> length (split_on (CHR ''.'') event_type) < 3 \<or>
     split_on (CHR ''.'') event_type ! 1 \<notin> {''type'', ''content'', ''summary'', ''arguments''}"

definition typed_response :: "json option \<Rightarrow> bool" where
  "typed_response v =
     (case v of None \<Rightarrow> True
      | Some (JObj response) \<Rightarrow> truthy (jget response ''output'') \<longrightarrow>
          (case jget response ''output'' of JList xs \<Rightarrow> list_all typed_item xs | _ \<Rightarrow> False)
      | _ \<Rightarrow> False)"

definition typed_event :: "json dict \<Rightarrow> bool" where
  "typed_event data \<longleftrightarrow>
     (case jget_default data ''type'' (JStr []) of JStr event_type \<Rightarrow> free_field event_type | _ \<Rightarrow> False) \<and>
     list_all (\<lambda>k. typed_index (map_of data k)) [''output_index'', ''content_index'', ''summary_index''] \<and>
     (truthy (jget data ''item'') \<longrightarrow> typed_item (jget data ''item'')) \<and>
     is_dict (jget_default data ''part'' (JObj [])) \<and> is_str (jget_default data ''arguments'' (JStr [])) \<and>
     typed_response (map_of data ''response'')"

subsection \<open>Items\<close>

lemma typed_itemE:
  assumes "typed_item x"
  obtains item where "x = JObj item" "typed_item (JObj item)"
  using assms by (cases x) (simp_all add: typed_item_def)

lemma typed_update:
  "typed_item (JObj item) \<Longrightarrow> k \<notin> {''content'', ''summary'', ''arguments''} \<Longrightarrow> typed_item (JObj (AList.update k v item))"
  by (auto simp: typed_item_def)

lemma typed_update_parts:
  "typed_item (JObj item) \<Longrightarrow> f \<in> {''content'', ''summary''} \<Longrightarrow> list_all is_dict parts \<Longrightarrow>
   typed_item (JObj (AList.update f (JList parts) item))"
  by (auto simp: typed_item_def typed_parts_def)

lemma typed_update_arguments:
  "typed_item (JObj item) \<Longrightarrow> is_str v \<Longrightarrow> typed_item (JObj (AList.update ''arguments'' v item))"
  by (simp add: typed_item_def)

lemma typed_parts_of:
  assumes "typed_item (JObj item)" "f \<in> {''content'', ''summary''}"
  obtains parts where "parts_of f item = Some parts" "list_all is_dict parts"
  using assms by (auto simp: typed_item_def typed_parts_def parts_of_def split: option.splits json.splits)

lemma typed_index_number:
  "typed_index (map_of data k) \<Longrightarrow> \<exists>n. number (jget_default data k (JInt m)) = Some n \<and> (map_of data k = None \<longrightarrow> n = m) \<and> (0 \<le> m \<longrightarrow> 0 \<le> n)"
  by (auto simp: typed_index_def jget_default_def split: option.splits)

lemma list_all_update: "list_all P xs \<Longrightarrow> P x \<Longrightarrow> list_all P (xs[k := x])"
  by (auto simp: list_all_iff dest: set_update_subset_insert [THEN subsetD])

lemma list_all_nth: "list_all P xs \<Longrightarrow> k < length xs \<Longrightarrow> P (xs ! k)"
  by (simp add: list_all_iff)

lemma is_dictE: assumes "is_dict x" obtains d where "x = JObj d"
  using assms by (cases x) simp_all

lemma resolve_index: "0 \<le> n \<Longrightarrow> n < int (length xs) \<Longrightarrow> resolve xs n = Some (nat n)"
  by (simp add: resolve_def)

lemma typed_merge_part:
  assumes "number index = Some n" "0 \<le> n" "list_all is_dict parts" "is_dict filler"
  obtains parts' where "merge_part initial filler index k delta parts = Some parts'" "list_all is_dict parts'"
proof -
  let ?parts = "pad filler n parts"
  have all: "list_all is_dict ?parts" using assms(3,4) by (auto simp: pad_def list_all_iff)
  have less: "n < int (length ?parts)" using assms(2) by (auto simp: length_pad)
  have "is_dict (?parts ! nat n)" using less assms(2) by (intro list_all_nth [OF all]) simp
  then obtain part where "?parts ! nat n = JObj part" by (rule is_dictE)
  with assms(1,2) less have "merge_part initial filler index k delta parts =
      Some (?parts[nat n := JObj (AList.update k (deep_merge (initial part) delta) part)])"
    by (simp add: merge_part_def resolve_index)
  then show ?thesis by (rule that) (simp add: list_all_update [OF all])
qed

lemma typed_merge_field:
  assumes "typed_item (JObj item)" "f \<in> {''content'', ''summary''}" "typed_index (map_of data i)" "is_dict filler"
  obtains item' where "merge_field f initial filler (jget_default data i (JInt 0)) k delta item = Some item'" "typed_item (JObj item')"
proof -
  obtain parts where parts: "parts_of f item = Some parts" "list_all is_dict parts" using assms(1,2) by (rule typed_parts_of)
  obtain n where "number (jget_default data i (JInt 0)) = Some n" "0 \<le> n" using typed_index_number [OF assms(3), of 0] by auto
  then obtain parts' where "merge_part initial filler (jget_default data i (JInt 0)) k delta parts = Some parts'" "list_all is_dict parts'"
    using parts(2) assms(4) by (rule typed_merge_part)
  with parts(1) show ?thesis by (intro that) (auto simp: merge_field_def intro: typed_update_parts [OF assms(1,2)])
qed

lemma typed_change_item:
  assumes "list_all typed_item xs" "k < length xs"
    "\<And>item. typed_item (JObj item) \<Longrightarrow> \<exists>item'. f item = Some item' \<and> typed_item (JObj item')"
  shows "\<exists>ys. change_item xs k f = Some ys \<and> list_all typed_item ys"
proof -
  from assms(1,2) have "typed_item (xs ! k)" by (rule list_all_nth)
  then obtain item where item: "xs ! k = JObj item" "typed_item (JObj item)" by (rule typed_itemE)
  from assms(3) [OF item(2)] obtain item' where "f item = Some item'" "typed_item (JObj item')" by blast
  with item assms(1) show ?thesis by (auto simp: change_item_def intro: list_all_update)
qed

subsection \<open>Deltas\<close>

lemma typed_delta_item:
  assumes item: "typed_item (JObj item)" and index: "typed_index (map_of data ''content_index'')" "typed_index (map_of data ''summary_index'')"
    and field: "t \<notin> {''content'', ''summary'', ''arguments''}"
  shows "\<exists>item'. delta_item t data item = Some item' \<and> typed_item (JObj item')"
proof -
  have dicts: "is_dict text_part" "is_dict summary_part" by (simp_all add: text_part_def summary_part_def)
  have args: "\<exists>item'. append_arguments d item = Some item' \<and> typed_item (JObj item')" for d
  proof -
    have "\<exists>s. append_arguments d item = Some (AList.update ''arguments'' (JStr s) item)"
      using item by (auto simp: append_arguments_def jget_default_def typed_item_def split: option.splits json.splits)
    then show ?thesis using typed_update_arguments [OF item] by auto
  qed
  have message: "\<exists>item'. message_delta t data d item = Some item' \<and> typed_item (JObj item')" for d
    using item typed_merge_field [OF item _ index(1) dicts(1), of "''content''"]
    by (simp add: message_delta_def Let_def) metis
  have reasoning: "\<exists>item'. reasoning_delta t data d item = Some item' \<and> typed_item (JObj item')" for d
    using item typed_merge_field [OF item _ index(1) dicts(1), of "''content''"] typed_merge_field [OF item _ index(2) dicts(2), of "''summary''"]
    by (simp add: reasoning_delta_def) metis
  have other: "typed_item (JObj (other_delta t d item))" for d
    using field by (simp add: other_delta_def Let_def typed_update [OF item])
  show ?thesis using args message reasoning other item by (simp add: delta_item_def Let_def)
qed

lemma typed_delta_event:
  assumes "list_all typed_item xs" "list_all (\<lambda>k. typed_index (map_of data k)) [''output_index'', ''content_index'', ''summary_index'']"
    "t \<notin> {''content'', ''summary'', ''arguments''}"
  shows "\<exists>ys. delta_event t data xs = Some ys \<and> list_all typed_item ys"
proof -
  obtain n where n: "delta_position data xs = Some n" "0 \<le> n"
    using typed_index_number [of data "''output_index''" "max (int (length xs) - 1) 0"] assms(2) by (auto simp: delta_position_def)
  have new: "typed_item new_item" "typed_item (started_item t data)"
    by (auto simp: typed_item_def typed_parts_def new_item_def started_item_def)
  have items: "list_all typed_item (with_item t data n xs)"
    using assms(1) new by (auto simp: with_item_def pad_def list_all_iff dest!: set_update_subset_insert [THEN subsetD])
  have less: "nat n < length (with_item t data n xs)" using n(2) by (auto simp: length_with_item)
  have "\<exists>ys. change_item (with_item t data n xs) (nat n) (delta_item t data) = Some ys \<and> list_all typed_item ys"
    by (rule typed_change_item [OF items less typed_delta_item]) (use assms(2,3) in auto)
  then show ?thesis using n by (simp add: delta_event_eq)
qed

subsection \<open>Other events\<close>

lemma typed_in_range:
  assumes "typed_index (map_of data ''output_index'')"
  obtains k where "in_range xs (output_index data xs) = Some k" "\<And>i. k = Some i \<Longrightarrow> i < length xs"
proof -
  obtain n where "number (output_index data xs) = Some n"
    using typed_index_number [OF assms] unfolding output_index_def by blast
  then have "\<exists>k. in_range xs (output_index data xs) = Some k \<and> (\<forall>i. k = Some i \<longrightarrow> i < length xs)"
    by (auto simp: in_range_def)
  with that show ?thesis by blast
qed

lemma typed_existing_index:
  assumes "typed_item item" "list_all typed_item xs"
  obtains k where "existing_index item xs = Some k" "\<And>i. k = Some i \<Longrightarrow> i < length xs"
proof -
  have "\<exists>k. existing_index item xs = Some k \<and> (\<forall>i. k = Some i \<longrightarrow> i < length xs)"
    using assms(2)
  proof (induction xs)
    case (Cons x xs)
    then obtain k where k: "existing_index item xs = Some k" "\<forall>i. k = Some i \<longrightarrow> i < length xs" by auto
    from assms(1) obtain d where "item = JObj d" by (rule typed_itemE)
    moreover from Cons.prems have "typed_item x" by simp
    then obtain e where "x = JObj e" by (rule typed_itemE)
    ultimately have "\<exists>b. same_item item x = Some b" by (simp add: same_item_def)
    then obtain b where "same_item item x = Some b" by blast
    then have "existing_index item (x # xs) = Some (if b then Some 0 else map_option Suc k)" using k(1) by simp
    moreover have "\<forall>i. (if b then Some 0 else map_option Suc k) = Some i \<longrightarrow> i < length (x # xs)"
      using k(2) by (cases b; cases k) simp_all
    ultimately show ?case by blast
  qed simp
  with that show ?thesis by blast
qed

lemma typed_item_added:
  assumes xs: "list_all typed_item xs" and data: "truthy (jget data ''item'') \<longrightarrow> typed_item (jget data ''item'')"
    "typed_index (map_of data ''output_index'')"
  shows "\<exists>ys. item_added data xs = Some ys \<and> list_all typed_item ys"
proof (cases "truthy (jget_default data ''item'' (JObj []))")
  case False
  then show ?thesis using xs by (simp add: item_added_def Let_def)
next
  case True
  let ?item = "jget_default data ''item'' (JObj [])"
  have item: "typed_item ?item" using True data(1) by (auto simp: jget_def jget_default_def split: option.splits)
  from item xs obtain k where k: "existing_index ?item xs = Some k" by (rule typed_existing_index)
  obtain n where n: "number (jget_default data ''output_index'' (JInt (int (length xs)))) = Some n"
    using typed_index_number [OF data(2)] by blast
  have "list_all typed_item (take m xs @ ?item # drop m xs)" for m
    using xs item by (auto simp: list_all_iff dest: in_set_takeD in_set_dropD)
  then show ?thesis using True k n item xs
    by (cases k) (simp_all add: item_added_def Let_def list_all_update)
qed

lemma typed_part_added:
  assumes xs: "list_all typed_item xs" and f: "f \<in> {''content'', ''summary''}" and data: "is_dict (jget_default data ''part'' (JObj []))"
    "typed_index (map_of data ''output_index'')"
  shows "\<exists>ys. part_added f data xs = Some ys \<and> list_all typed_item ys"
proof -
  from data(2) obtain k where k: "in_range xs (output_index data xs) = Some k" "\<And>i. k = Some i \<Longrightarrow> i < length xs"
    using typed_in_range by blast
  let ?f = "\<lambda>item. do {
          parts \<leftarrow> parts_of f item;
          let part = jget_default data ''part'' (JObj []);
          Some (AList.update f (JList (if f = ''content'' \<and> jget item ''type'' = JStr ''reasoning'' then parts else parts @ [part])) item) }"
  have "\<exists>item'. ?f item = Some item' \<and> typed_item (JObj item')" if item: "typed_item (JObj item)" for item
    using item f
  proof (rule typed_parts_of)
    fix parts
    assume parts: "parts_of f item = Some parts" "list_all is_dict parts"
    let ?parts = "if f = ''content'' \<and> jget item ''type'' = JStr ''reasoning'' then parts else parts @ [jget_default data ''part'' (JObj [])]"
    have "list_all is_dict ?parts" using parts(2) data(1) by simp
    then have "typed_item (JObj (AList.update f (JList ?parts) item))" by (rule typed_update_parts [OF item f])
    then show ?thesis using parts(1) by (simp add: Let_def)
  qed
  then have "\<exists>ys. change_item xs i ?f = Some ys \<and> list_all typed_item ys" if "i < length xs" for i
    by (rule typed_change_item [OF xs that])
  then show ?thesis using k xs unfolding part_added_def by (cases k) simp_all
qed

lemma typed_item_done:
  assumes xs: "list_all typed_item xs" and data: "truthy (jget data ''item'') \<longrightarrow> typed_item (jget data ''item'')"
    "typed_index (map_of data ''output_index'')"
  shows "\<exists>ys. item_done data xs = Some ys \<and> list_all typed_item ys"
proof -
  obtain n where "number (output_index data xs) = Some n"
    using typed_index_number [OF data(2)] unfolding output_index_def by blast
  then show ?thesis using xs data(1) by (simp add: item_done_def Let_def list_all_update)
qed

lemma typed_part_done:
  assumes xs: "list_all typed_item xs" and f: "f \<in> {''content'', ''summary''}" and data: "is_dict (jget_default data ''part'' (JObj []))"
    "typed_index (map_of data ''output_index'')" "typed_index (map_of data i)"
  shows "\<exists>ys m. part_done f i data xs = Some (ys, m) \<and> list_all typed_item ys"
proof (cases "truthy (jget data ''part'')")
  case False
  then show ?thesis using xs by (simp add: part_done_def)
next
  case True
  have part: "is_dict (jget data ''part'')" using data(1) True by (auto simp: jget_def jget_default_def split: option.splits)
  from data(2) obtain k where k: "in_range xs (output_index data xs) = Some k" "\<And>i. k = Some i \<Longrightarrow> i < length xs"
    using typed_in_range by blast
  show ?thesis
  proof (cases k)
    case None
    then show ?thesis using True k xs by (simp add: part_done_def)
  next
    case (Some j)
    then have "typed_item (xs ! j)" using k(2) by (intro list_all_nth [OF xs]) simp
    then obtain item where item: "xs ! j = JObj item" "typed_item (JObj item)" by (rule typed_itemE)
    from item(2) f obtain parts where parts: "parts_of f item = Some parts" "list_all is_dict parts" by (rule typed_parts_of)
    obtain n where n: "number (jget_default data i (JInt (int (length parts) - 1))) = Some n"
      using typed_index_number [OF data(3)] by blast
    have "list_all is_dict (parts[nat n := jget data ''part''])" using parts(2) part by (rule list_all_update)
    then have "typed_item (JObj (AList.update f (JList (parts[nat n := jget data ''part''])) item))"
      by (rule typed_update_parts [OF item(2) f])
    then show ?thesis using True k Some item parts n xs by (simp add: part_done_def list_all_update)
  qed
qed

lemma typed_set_part:
  assumes item: "typed_item (JObj item)" and index: "typed_index (map_of data ''content_index'')"
  shows "\<exists>item'. set_part (jget_default data ''content_index'' (JInt 0)) k v item = Some item' \<and> typed_item (JObj item')"
proof (cases "map_of item ''content''")
  case None
  then show ?thesis using item by (simp add: set_part_def)
next
  case (Some c)
  have f: "''content'' \<in> {''content'', ''summary''}" by simp
  from item f obtain parts where parts: "parts_of ''content'' item = Some parts" "list_all is_dict parts" by (rule typed_parts_of)
  obtain n where n: "number (jget_default data ''content_index'' (JInt 0)) = Some n" "0 \<le> n"
    using typed_index_number [OF index, of 0] by auto
  have c: "iterate c = Some parts" using parts(1) Some by (simp add: parts_of_def)
  show ?thesis
  proof (cases "int (length parts) \<le> n")
    case True
    then show ?thesis using typed_update_parts [OF item f parts(2)] by (simp add: set_part_def Some c n)
  next
    case False
    with n(2) have "is_dict (parts ! nat n)" by (intro list_all_nth [OF parts(2)]) simp
    then obtain part where part: "parts ! nat n = JObj part" by (rule is_dictE)
    have "list_all is_dict (parts[nat n := JObj (AList.update k v part)])" using parts(2) by (simp add: list_all_update)
    from typed_update_parts [OF item f this] show ?thesis
      using False n part by (simp add: set_part_def Some c resolve_index)
  qed
qed

lemma typed_done_item:
  assumes item: "typed_item (JObj item)" and index: "typed_index (map_of data ''content_index'')"
    and field: "t \<notin> {''type'', ''content'', ''summary'', ''arguments''}"
    and args: "is_str (jget_default data ''arguments'' (JStr []))" "map_of data (done_key t) \<noteq> None"
  shows "\<exists>item'. done_item t data item = Some item' \<and> typed_item (JObj item')"
proof (cases "t = ''function_call_arguments''")
  case True
  then have "is_str (jget data ''arguments'')" using args by (auto simp: done_key_def jget_def jget_default_def split: option.splits)
  then show ?thesis using True item typed_update_arguments [OF item] by (simp add: done_item_def done_key_def)
next
  case False
  then have "done_key t \<notin> {''content'', ''summary'', ''arguments''}" using field by (simp add: done_key_def)
  with typed_update [OF item] False typed_set_part [OF item index] show ?thesis by (simp add: done_item_def Let_def)
qed

lemma typed_field_done:
  assumes xs: "list_all typed_item xs" and index: "typed_index (map_of data ''output_index'')" "typed_index (map_of data ''content_index'')"
    and field: "t \<notin> {''type'', ''content'', ''summary'', ''arguments''}"
    and args: "is_str (jget_default data ''arguments'' (JStr []))"
  shows "\<exists>ys m. field_done t data xs = Some (ys, m) \<and> list_all typed_item ys"
proof -
  from index(1) obtain k where k: "in_range xs (output_index data xs) = Some k" "\<And>i. k = Some i \<Longrightarrow> i < length xs"
    using typed_in_range by blast
  have "\<exists>ys. change_item xs i (done_item t data) = Some ys \<and> list_all typed_item ys"
    if "i < length xs" "map_of data (done_key t) \<noteq> None" for i
    by (rule typed_change_item [OF xs that(1)]) (rule typed_done_item [OF _ index(2) field args that(2)])
  then show ?thesis using k xs by (cases k; cases "map_of data (done_key t)") (fastforce simp: field_done_def)+
qed

lemma typed_complete_reasoning:
  "list_all typed_item xs \<Longrightarrow> \<exists>ys. complete_reasoning xs = Some ys \<and> list_all typed_item ys"
proof (induction xs)
  case (Cons x xs)
  then obtain ys where ys: "complete_reasoning xs = Some ys" "list_all typed_item ys" by auto
  from Cons.prems have "typed_item x" by simp
  then obtain item where "x = JObj item" "typed_item (JObj item)" by (rule typed_itemE)
  with ys typed_update [of item "''status''"] show ?case by simp
qed simp

lemma typed_responseE:
  assumes "typed_response (map_of data ''response'')"
  obtains response where "jget_default data ''response'' (JObj []) = JObj response"
    "truthy (jget response ''output'') \<longrightarrow> (\<exists>xs. jget response ''output'' = JList xs \<and> list_all typed_item xs)"
  using assms by (auto simp: typed_response_def jget_default_def split: option.splits json.splits)

lemma typed_completed:
  assumes xs: "list_all typed_item xs" and response: "typed_response (map_of data ''response'')"
  shows "\<exists>ys m. completed_event data xs = Some (ys, m) \<and> list_all typed_item ys"
proof -
  from response obtain response where r: "jget_default data ''response'' (JObj []) = JObj response"
    and final: "truthy (jget response ''output'') \<longrightarrow> (\<exists>xs. jget response ''output'' = JList xs \<and> list_all typed_item xs)"
    by (rule typed_responseE)
  show ?thesis
  proof (cases "truthy (jget response ''output'')")
    case True
    with final obtain zs where "jget response ''output'' = JList zs" "list_all typed_item zs" by blast
    with True r typed_complete_reasoning show ?thesis by (fastforce simp: completed_event_def)
  next
    case False
    with r typed_complete_reasoning [OF xs] show ?thesis by (auto simp: completed_event_def)
  qed
qed

text \<open>The reducer keeps the shape of the items and raises nothing.\<close>

definition typed_result :: "(json list \<times> json) option \<Rightarrow> bool" where
  "typed_result r \<longleftrightarrow> (\<exists>ys m. r = Some (ys, m) \<and> list_all typed_item ys)"

lemma typed_result_if: "(b \<Longrightarrow> typed_result r) \<Longrightarrow> (\<not> b \<Longrightarrow> typed_result q) \<Longrightarrow> typed_result (if b then r else q)"
  by simp

lemma typed_result_map: "\<exists>ys. r = Some ys \<and> list_all typed_item ys \<Longrightarrow> typed_result (map_option (\<lambda>out. (out, m)) r)"
  by (auto simp: typed_result_def)

lemma typed_result_same: "list_all typed_item xs \<Longrightarrow> typed_result (Some (xs, m))"
  by (simp add: typed_result_def)

lemma typed_handle:
  assumes xs: "list_all typed_item xs" and data: "typed_event data"
  shows "\<exists>ys m. handle_responses_streaming_event data xs = Some (ys, m) \<and> list_all typed_item ys"
proof -
  from data obtain t where t: "jget_default data ''type'' (JStr []) = JStr t" "free_field t"
    by (auto simp: typed_event_def split: json.splits)
  from data have index: "list_all (\<lambda>k. typed_index (map_of data k)) [''output_index'', ''content_index'', ''summary_index'']"
    and item: "truthy (jget data ''item'') \<longrightarrow> typed_item (jget data ''item'')"
    and part: "is_dict (jget_default data ''part'' (JObj []))" and args: "is_str (jget_default data ''arguments'' (JStr []))"
    and response: "typed_response (map_of data ''response'')"
    by (simp_all add: typed_event_def)
  from index have i: "typed_index (map_of data ''output_index'')" "typed_index (map_of data ''content_index'')"
    "typed_index (map_of data ''summary_index'')" by simp_all
  let ?kind = "split_on (CHR ''.'') t ! 1"
  have kind: "\<not> length (split_on (CHR ''.'') t) < 3 \<Longrightarrow> ?kind \<notin> {''type'', ''content'', ''summary'', ''arguments''}"
    using t(2) by (simp add: free_field_def)
  have added: "\<exists>ys. item_added data xs = Some ys \<and> list_all typed_item ys" by (rule typed_item_added [OF xs item i(1)])
  have content: "\<exists>ys. part_added ''content'' data xs = Some ys \<and> list_all typed_item ys"
    and summary: "\<exists>ys. part_added ''summary'' data xs = Some ys \<and> list_all typed_item ys"
    by (rule typed_part_added [OF xs _ part i(1)], simp)+
  have delta: "\<exists>ys. delta_event ?kind data xs = Some ys \<and> list_all typed_item ys" if "\<not> length (split_on (CHR ''.'') t) < 3"
    by (rule typed_delta_event [OF xs index]) (use kind [OF that] in auto)
  have ended: "\<exists>ys. item_done data xs = Some ys \<and> list_all typed_item ys" by (rule typed_item_done [OF xs item i(1)])
  have part_ended: "\<exists>ys m. part_done ''content'' ''content_index'' data xs = Some (ys, m) \<and> list_all typed_item ys"
    "\<exists>ys m. part_done ''summary'' ''summary_index'' data xs = Some (ys, m) \<and> list_all typed_item ys"
    by (rule typed_part_done [OF xs _ part i(1) i(2)], simp) (rule typed_part_done [OF xs _ part i(1) i(3)], simp)
  have field: "\<exists>ys m. field_done ?kind data xs = Some (ys, m) \<and> list_all typed_item ys" if "\<not> length (split_on (CHR ''.'') t) < 3"
    by (rule typed_field_done [OF xs i(1,2) kind [OF that] args])
  have done_ok: "\<exists>ys m. done_event ?kind data xs = Some (ys, m) \<and> list_all typed_item ys" if "\<not> length (split_on (CHR ''.'') t) < 3"
    using part_ended field [OF that] by (simp add: done_event_def)
  have completed: "\<exists>ys m. completed_event data xs = Some (ys, m) \<and> list_all typed_item ys" by (rule typed_completed [OF xs response])
  from response obtain r where r: "jget_default data ''response'' (JObj []) = JObj r" by (rule typed_responseE)
  have "typed_result (handle_responses_streaming_event data xs)"
    unfolding handle_responses_streaming_event_def t json.case Let_def
    by (intro typed_result_if typed_result_map typed_result_same xs added content summary delta ended
        done_ok [folded typed_result_def] completed [folded typed_result_def])
      (simp_all add: r typed_result_same [OF xs])
  then show ?thesis by (simp add: typed_result_def)
qed

end
