(* ===== verification/StreamClaims.thy ===== *)
theory StreamClaims
  imports StreamSamples StreamTypes
begin

text \<open>
  The properties of response streams: what a reconnecting client reads from the stored stream, what the
  client was sent, and the end of a response.
\<close>

lemma run_load:
  assumes "exact_codec (dumps_bytes env) loads" "stored_from env lines st v"
  shows "\<exists>k \<le> length lines. \<exists>st' out. response_lines env (take k lines) st = (True, st') \<and>
    full_output env st' = Some out \<and> load_response_stream loads v = Some (stream_data env out)"
  using assms(2) stored_output_load [OF _ assms(1)] unfolding stored_from_def by blast

lemma synced_load:
  assumes "synced env st" "stream_size st \<noteq> 0" "exact_codec (dumps_bytes env) loads"
  obtains v out where "stored st = Some v" "length v = stream_size st" "stream_size st \<le> snapshot_size st * 2"
    "full_output env st = Some out" "load_response_stream loads v = Some (stream_data env out)"
  using assms stored_output_load [OF _ assms(3)] unfolding synced_def by blast

lemma coalesce_shorter: "all_some ys = Some xs \<Longrightarrow> length xs = length ys"
  by (induction ys arbitrary: xs) (auto simp: bind_eq_Some_conv)

lemma length_groupby: "length (groupby eq xs) \<le> length xs"
  by (induction eq xs rule: groupby.induct) (auto intro: order_trans [OF _ length_dropWhile_le])

text \<open>C12: joining the text of adjacent deltas with one key, as a reader of the stored stream does, gives the same
  output as applying every delta in its order, with no more events: whatever the output was before, as long as
  the deltas are texts and none is for the type of an item.\<close>

theorem coalesced_deltas_replay:
  assumes "\<forall>d \<in> set deltas. plain_delta d" "apply_events deltas out = Some out'"
  shows "\<exists>joined. coalesce deltas = Some joined \<and> length joined \<le> length deltas \<and> apply_events joined out = Some out'"
proof -
  from assms obtain joined where joined: "coalesce deltas = Some joined" "apply_events joined out = Some out'" by (rule coalesced_apply)
  then have "length joined \<le> length deltas"
    unfolding coalesce_def bind_eq_Some_conv
    by (elim exE conjE) (drule coalesce_shorter, simp, metis length_groupby length_map coalesce_shorter)
  with joined show ?thesis by blast
qed

definition sample_deltas :: "json dict list" where
  "sample_deltas = [sample_delta ''He'', sample_delta ''ll'', AList.update ''output_index'' (JInt 1) (sample_delta ''x''), sample_delta ''o'']"

lemma sample_deltas_plain: "\<forall>d \<in> set sample_deltas. plain_delta d"
  by code_simp

theorem coalesced_deltas_replay_witness:
  "map_option length (coalesce sample_deltas) = Some 3 \<and>
   (\<exists>joined. coalesce sample_deltas = Some joined \<and> apply_events joined [] = apply_events sample_deltas [])"
proof
  show "map_option length (coalesce sample_deltas) = Some 3" by code_simp
  have "apply_events sample_deltas [] \<noteq> None" by code_simp
  then obtain out where "apply_events sample_deltas [] = Some out" by blast
  from coalesced_deltas_replay [OF sample_deltas_plain this] this
  show "\<exists>joined. coalesce sample_deltas = Some joined \<and> apply_events joined [] = apply_events sample_deltas []" by auto
qed

text \<open>C11: what a reconnecting client reads from the stored stream is an output the server had after one of its
  lines, with the identifiers of the chat and the message: Redis calls may fail, be retried or lose their
  replies, events may be refused, and the provider's round may follow earlier ones.\<close>

theorem stored_stream_is_server_output:
  assumes "exact_codec (dumps_bytes env) loads" "\<forall>(append_io, save_io, data) \<in> set lines. well_placed data"
    and "stream_size st = 0" "stored st = None"
    and "response_lines env lines st = (True, st')" "stored st' = Some v"
  shows "\<exists>k \<le> length lines. \<exists>st_k out. response_lines env (take k lines) st = (True, st_k) \<and>
    full_output env st_k = Some out \<and> load_response_stream loads v = Some (stream_data env out)"
  using response_lines_inv [OF assms(2-5)] assms(6) run_load [OF assms(1)] by simp

lemma sample_stored: "stored sample_end = Some (the (stored sample_end))"
  by code_simp

lemma sample_start: "stream_size sample_round = 0" "stored sample_round = None"
  by (simp_all add: sample_round_def)

lemma sample_relay_codec: "exact_codec (dumps_bytes sample_relay) decode_text"
  by (simp add: sample_relay_def sample_codec)

theorem stored_stream_is_server_output_witness:
  "\<exists>k \<le> length sample_lines. \<exists>st_k out. response_lines sample_relay (take k sample_lines) sample_round = (True, st_k) \<and>
    full_output sample_relay st_k = Some out \<and>
    load_response_stream decode_text (the (stored sample_end)) = Some (stream_data sample_relay out)"
  by (rule stored_stream_is_server_output [OF sample_relay_codec sample_placed sample_start sample_run sample_stored])

text \<open>C19: after every line of a response whose size is known, the stored text has that size, at most twice the
  size of its snapshot, and gives exactly the current output.\<close>

theorem known_size_gives_current_output:
  assumes "exact_codec (dumps_bytes env) loads" "\<forall>(append_io, save_io, data) \<in> set lines. well_placed data"
    and "stream_size st = 0" "stored st = None"
    and "response_lines env lines st = (True, st')" "stream_size st' \<noteq> 0"
  shows "\<exists>v out. stored st' = Some v \<and> length v = stream_size st' \<and> stream_size st' \<le> snapshot_size st' * 2 \<and>
    full_output env st' = Some out \<and> load_response_stream loads v = Some (stream_data env out)"
  using response_lines_inv [OF assms(2-5)] by (auto elim!: synced_load [OF _ assms(6,1)])

theorem known_size_gives_current_output_witness:
  "\<exists>v out. stored sample_end = Some v \<and> length v = stream_size sample_end \<and>
    stream_size sample_end \<le> snapshot_size sample_end * 2 \<and> full_output sample_relay sample_end = Some out \<and>
    load_response_stream decode_text v = Some (stream_data sample_relay out)"
  by (rule known_size_gives_current_output [OF sample_relay_codec sample_placed sample_start sample_run sample_size])

text \<open>C30: once Redis answers the snapshot after a line, a reconnecting client reads the current output, whatever
  happened to the calls before.\<close>

theorem answered_snapshot_gives_current_output:
  assumes "exact_codec (dumps_bytes env) loads" "redis env" "identified env"
    and "\<forall>(append_io, save_io, data) \<in> set (lines @ [(append_io, (Suc n, True), data)]). well_placed data"
    and "stream_size st = 0" "stored st = None"
    and "response_lines env (lines @ [(append_io, (Suc n, True), data)]) st = (True, st')"
  shows "\<exists>v out. stored st' = Some v \<and> full_output env st' = Some out \<and>
    load_response_stream loads v = Some (stream_data env out)"
proof -
  from assms(7) obtain st1 where first: "response_lines env lines st = (True, st1)"
    and line: "response_line env append_io (Suc n, True) False data st1 = (True, st')"
    unfolding response_lines_def each_snoc prod.case by (rule andthen_TrueE)
  have "synced env st1" using response_lines_inv [OF _ assms(5,6) first] assms(4) by auto
  from response_line_post(1,4) [OF this _ line] assms(2-4) have "synced env st'" "stream_size st' \<noteq> 0" by auto
  from this assms(1) show ?thesis by (rule synced_load) blast
qed

theorem answered_snapshot_gives_current_output_witness:
  "\<exists>v out. stored sample_end = Some v \<and> full_output sample_relay sample_end = Some out \<and>
    load_response_stream decode_text v = Some (stream_data sample_relay out)"
  by (rule answered_snapshot_gives_current_output [OF sample_relay_codec _ _ sample_placed [unfolded sample_lines_def]
      sample_start sample_run [unfolded sample_lines_def]]) (simp_all add: sample_relay_def identified_def)

text \<open>a line is appended at most once, however often the driver repeats the call: it is appended when the
  call is executed at all and the key holds a value of the expected length, and reported as appended only when it
  was executed once and answered; otherwise nothing changes.\<close>

theorem append_is_not_repeated:
  assumes "line \<noteq> []" "append_response_stream (n, replied) line k old = (ok, new)"
  shows "if length (text_or_empty old) = k \<and> 0 < n
    then new = Some (text_or_empty old @ line) \<and> (ok \<longleftrightarrow> n = 1 \<and> replied) else new = old \<and> \<not> ok"
proof (cases "length (text_or_empty old) = k")
  case True
  from assms(2) show ?thesis unfolding append_once [OF True assms(1)] by (auto simp: True)
next
  case False
  from assms(2) have "\<not> ok" "new = old" unfolding append_refused [OF False] by simp_all
  with False show ?thesis by simp
qed

theorem append_is_not_repeated_witness:
  "if length (text_or_empty (Some ''ab'')) = 2 \<and> (0 :: nat) < 3
    then Some ''abc'' = Some (text_or_empty (Some ''ab'') @ ''c'') \<and> (False \<longleftrightarrow> (3 :: nat) = 1 \<and> True)
    else Some ''abc'' = Some ''ab'' \<and> \<not> False"
  by (rule append_is_not_repeated) (simp, code_simp)

lemma full_index_events:
  assumes "\<forall>d \<in> set ds. plain_delta d \<and> well_placed d" "apply_events ds out = Some out'"
  shows "apply_events (map (full_index prior) ds) (prior @ out) = Some (prior @ out')"
  using assms
proof (induction ds arbitrary: out)
  case (Cons d ds)
  from Cons.prems(2) obtain y m where step: "handle_responses_streaming_event d out = Some (y, m)" "apply_events ds y = Some out'"
    by (auto simp: bind_eq_Some_conv)
  from Cons.prems(1) obtain t where t: "jget_default d ''type'' (JStr []) = JStr t" "plain_type t" by (auto elim: plain_deltaE)
  then have "ends_with ''.delta'' t" by (simp add: plain_type_def is_delta_def)
  with Cons.prems(1) t obtain n where "map_of d ''output_index'' = Some (JInt n)" "0 \<le> n"
    by (auto simp: well_placed_def split: option.splits json.splits)
  from handle_shift [OF t(2,1) this step(1), of prior] Cons.IH [OF _ step(2)] Cons.prems(1) show ?case by simp
qed simp

text \<open>C20: the events sent to the client for a sequence of text deltas, followed by the one that is held back, give
  in the whole output what the deltas give in the output of the round; fewer deltas are held back than a chunk has.\<close>

theorem sent_deltas_replay:
  assumes "\<not> continuing env" "\<forall>(io, d) \<in> set deltas. plain_delta d \<and> well_placed d"
    and "effects st = []" "last_delta_data st = []" "delta_count st = 0"
    and "send_deltas env deltas st = (True, st')"
    and "apply_events (map snd deltas) out = Some out'"
  shows "apply_events (sent st') (prior_output st @ out) = Some (prior_output st @ out') \<and>
    (last_delta_data st' = [] \<or> delta_count st' < delta_chunk_size env)"
proof -
  have fresh: "sent st = []" "pending_ok st" using assms(3-5) by (simp_all add: sent_def pending_ok_def)
  have "apply_events (map (full_index (prior_output st)) (map snd deltas)) (prior_output st @ out) = Some (prior_output st @ out')"
    by (rule full_index_events [OF _ assms(7)]) (use assms(2) in auto)
  then have "apply_events (sent st @ map (\<lambda>(io, d). full_index (prior_output st) d) deltas) (prior_output st @ out) = Some (prior_output st @ out')"
    by (simp add: fresh comp_def case_prod_unfold)
  then show ?thesis
    by (rule send_deltas_inv [OF assms(1) _ fresh(2) _ assms(6), rotated 2]) (use assms(2,4) in auto)
qed

definition sample_queue :: "(redis_outcome \<times> json dict) list" where
  "sample_queue = map (\<lambda>d. ((1, True), d)) sample_deltas"

theorem sent_deltas_replay_witness:
  "apply_events (sent (snd (send_deltas sample_relay sample_queue sample_round))) (prior_output sample_round @ []) =
     Some (prior_output sample_round @ the (apply_events (map snd sample_queue) [])) \<and>
   (last_delta_data (snd (send_deltas sample_relay sample_queue sample_round)) = [] \<or>
    delta_count (snd (send_deltas sample_relay sample_queue sample_round)) < delta_chunk_size sample_relay)"
proof (rule sent_deltas_replay)
  show "\<not> continuing sample_relay" by (simp add: sample_relay_def)
  show "\<forall>(io, d) \<in> set sample_queue. plain_delta d \<and> well_placed d" by code_simp
  show "effects sample_round = []" "last_delta_data sample_round = []" "delta_count sample_round = 0"
    by (simp_all add: sample_round_def)
  have "fst (send_deltas sample_relay sample_queue sample_round)" by code_simp
  then show "send_deltas sample_relay sample_queue sample_round = (True, snd (send_deltas sample_relay sample_queue sample_round))"
    by (simp add: prod_eq_iff)
  show "apply_events (map snd sample_queue) [] = Some (the (apply_events (map snd sample_queue) []))" by code_simp
qed

text \<open>
  The condition on texts is needed. A delta that is no text replaces a pending one with its key, and the pending
  one is never sent: with chunks of more than one delta the client loses it, while the server and the stored
  stream keep it.
\<close>

lemma other_delta_replaces_pending:
  assumes "last_delta_data st \<noteq> []" "same_key (last_delta_key st) k" "last_delta_type st = t" "\<not> is_str (jget d ''delta'')"
  shows "queue_delta env d t k st = (True, set_pending d t k st)"
  using assms by (simp add: queue_delta_def Let_def andthen_def lift_def)

definition sample_object_delta :: "string \<Rightarrow> json dict" where
  "sample_object_delta k = [(''type'', JStr ''response.usage.delta''), (''output_index'', JInt 0), (''delta'', JObj [(k, JInt 1)])]"

theorem object_delta_is_lost:
  "let deltas = [sample_object_delta ''a'', sample_object_delta ''b'']
   in sent (snd (send_deltas sample_relay (map (\<lambda>d. ((1, True), d)) deltas @ [((1, True), sample_delta ''x'')]) sample_round)) =
        map (full_index [sample_prior]) [sample_object_delta ''b'', sample_delta ''x''] \<and>
      apply_events deltas [] \<noteq> apply_events [sample_object_delta ''b''] []"
  by code_simp

subsection \<open>Items\<close>

text \<open>C31: events of the right shape, in any order and number, never raise, and every item stays an object whose
  content and summary are lists of objects and whose arguments are a text.\<close>

theorem well_shaped_events_never_raise:
  assumes "list_all typed_event events" "list_all typed_item out"
  shows "\<exists>out'. apply_events events out = Some out' \<and> list_all typed_item out'"
  using assms
proof (induction events arbitrary: out)
  case (Cons d events)
  from Cons.prems obtain ys m where "handle_responses_streaming_event d out = Some (ys, m)" "list_all typed_item ys"
    using typed_handle [of out d] by auto
  with Cons.IH [of ys] Cons.prems(1) show ?case by auto
qed simp

definition sample_completed :: "json dict" where
  "sample_completed = [(''type'', JStr ''response.completed''), (''response'', JObj [(''id'', JStr ''r''), (''output'', JList
     [JObj [(''type'', JStr ''reasoning''), (''summary'', JList [])], JObj [(''type'', JStr ''message''), (''content'', JList [])]])])]"

definition sample_shaped :: "json dict list" where
  "sample_shaped = sample_deltas @ [sample_added, sample_completed, sample_object_delta ''a'']"

theorem well_shaped_events_never_raise_witness:
  "\<exists>out'. apply_events sample_shaped [] = Some out' \<and> list_all typed_item out'"
proof (rule well_shaped_events_never_raise)
  show "list_all typed_event sample_shaped" by code_simp
qed simp

text \<open>The end of a response.\<close>

definition finished :: "json \<Rightarrow> json \<Rightarrow> bool" where
  "finished x y \<longleftrightarrow> (\<exists>item item'. x = JObj item \<and> y = JObj item' \<and>
     (jget item ''type'' = JStr ''reasoning'' \<longrightarrow> jget item' ''status'' = JStr ''completed'') \<and>
     (jget item ''type'' \<noteq> JStr ''reasoning'' \<longrightarrow> item' = item) \<and>
     (\<forall>k. k \<noteq> ''status'' \<longrightarrow> jget item' k = jget item k))"

lemma complete_reasoning_finished: "complete_reasoning xs = Some ys \<Longrightarrow> list_all2 finished xs ys"
proof (induction xs arbitrary: ys)
  case (Cons x xs)
  from Cons.prems obtain item zs where x: "x = JObj item" and zs: "complete_reasoning xs = Some zs"
    and ys: "ys = (if jget item ''type'' = JStr ''reasoning'' \<and> jget item ''status'' \<noteq> JStr ''completed''
            then JObj (AList.update ''status'' (JStr ''completed'') item) else x) # zs"
    by (cases x) (auto simp: bind_eq_Some_conv)
  have "finished x (hd ys)" by (simp add: finished_def x ys)
  with Cons.IH [OF zs] show ?case by (simp add: ys)
qed simp

text \<open>a completed response replaces the output by the one it carries, when that is not empty, and keeps the
  streamed one otherwise; every reasoning item is then completed, and nothing else of any item changes.\<close>

theorem completed_response_is_final:
  assumes "jget_default data ''type'' (JStr []) = JStr ''response.completed''" "map_of data ''response'' = Some (JObj response)"
    and "handle_responses_streaming_event data out = Some (out', meta)"
  shows "list_all2 finished (if truthy (jget response ''output'') then list_of (jget response ''output'') else out) out'"
proof -
  have none: "\<not> ends_with ''.delta'' ''response.completed''" "\<not> ends_with ''.done'' ''response.completed''" by code_simp+
  from assms(3) have "completed_event data out = Some (out', meta)"
    by (simp add: handle_responses_streaming_event_def assms(1) none)
  then show ?thesis
    by (auto simp: completed_event_def jget_default_def assms(2) bind_eq_Some_conv split: json.splits if_splits
        intro: complete_reasoning_finished)
qed

theorem completed_response_is_final_witness:
  "list_all2 finished [JObj [(''type'', JStr ''reasoning''), (''summary'', JList [])], JObj [(''type'', JStr ''message''), (''content'', JList [])]]
     (fst (the (handle_responses_streaming_event sample_completed [])))"
proof -
  let ?r = "dict_of (jget sample_completed ''response'')"
  have "list_all2 finished (if truthy (jget ?r ''output'') then list_of (jget ?r ''output'') else [])
      (fst (the (handle_responses_streaming_event sample_completed [])))"
  proof (rule completed_response_is_final)
    show "jget_default sample_completed ''type'' (JStr []) = JStr ''response.completed''"
      "map_of sample_completed ''response'' = Some (JObj ?r)"
      "handle_responses_streaming_event sample_completed [] = Some (fst (the (handle_responses_streaming_event sample_completed [])),
         snd (the (handle_responses_streaming_event sample_completed [])))" by code_simp+
  qed
  then show ?thesis by (simp add: sample_completed_def)
qed

end
