(* ===== verification/ContextCompaction.thy ===== *)
theory ContextCompaction
  imports ChatReads ToolMessages
begin

text \<open>
  Context compaction (\<open>utils/context_compaction.py\<close>): when the messages of a request would take too many
  tokens, the earlier ones are replaced by a summary, which is stored with the first message that is
  kept. \<open>None\<close> is a raised exception. The answer of the language model, the JSON text of a value and
  the rounding of a quotient are arguments.
\<close>

subsection \<open>Settings\<close>

definition parse_positive_int :: "json \<Rightarrow> int option" where
  "parse_positive_int v = (case py_int v of Some n \<Rightarrow> if 0 < n then Some n else None | None \<Rightarrow> None)"

definition clamp_retention_percentage :: "json \<Rightarrow> int" where
  "clamp_retention_percentage v = min 50 (max 10 (case py_int v of Some n \<Rightarrow> n | None \<Rightarrow> 40))"

record compaction_config =
  enable :: bool
  token_threshold :: int
  token_cap :: int
  retention_percentage :: int
  prompt_template :: json

definition or_else :: "'a option \<Rightarrow> 'a \<Rightarrow> 'a" where
  "or_else v w = (case v of None \<Rightarrow> w | Some x \<Rightarrow> x)"

definition load_config :: "json dict \<Rightarrow> compaction_config" where
  "load_config settings =
     (let threshold = or_else (parse_positive_int (jget settings ''chat.context_compaction.token_threshold'')) 80000
      in \<lparr>enable = truthy (jget settings ''chat.context_compaction.enable''), token_threshold = threshold,
          token_cap = or_else (parse_positive_int (jget settings ''chat.context_compaction.token_cap'')) threshold,
          retention_percentage = clamp_retention_percentage (jget settings ''chat.context_compaction.retention_percentage''),
          prompt_template = jor (jget settings ''chat.context_compaction.prompt_template'') (JStr [])\<rparr>)"

definition resolve_token_threshold :: "int \<Rightarrow> int \<Rightarrow> json dict \<Rightarrow> int option" where
  "resolve_token_threshold global_threshold global_cap metadata = do {
     params \<leftarrow> dict (jor (jget metadata ''params'') (JObj []));
     Some (min (or_else (parse_positive_int (jget params ''compact_token_threshold'')) global_threshold) global_cap) }"

subsection \<open>Tokens\<close>

text \<open>\<open>a or b or ... or 0\<close>, as an integer.\<close>

fun first_count :: "json dict \<Rightarrow> string list \<Rightarrow> int option" where
  "first_count u [] = Some 0"
| "first_count u (k # ks) = (if truthy (jget u k) then py_int (jget u k) else first_count u ks)"

definition usage_token_count :: "json dict \<Rightarrow> int option" where
  "usage_token_count u = do {
     prompt_tokens \<leftarrow> first_count u [''prompt_tokens'', ''prompt_eval_count''];
     prompt_tokens \<leftarrow>
       (if prompt_tokens = 0 \<and> (jget u ''prompt_n'' \<noteq> JNull \<or> jget u ''cache_n'' \<noteq> JNull)
        then do { a \<leftarrow> first_count u [''prompt_n'']; b \<leftarrow> first_count u [''cache_n'']; Some (a + b) } else Some prompt_tokens);
     prompt_tokens \<leftarrow> (if prompt_tokens = 0 then first_count u [''input_tokens''] else Some prompt_tokens);
     completion_tokens \<leftarrow> first_count u [''completion_tokens'', ''output_tokens'', ''eval_count'', ''predicted_n''];
     Some (prompt_tokens + completion_tokens) }"

definition text_tokens :: "string \<Rightarrow> int" where
  "text_tokens s = (if s = [] then 0 else max 1 (int (length s) div 4))"

definition estimate_tokens :: "(json \<Rightarrow> string) \<Rightarrow> json \<Rightarrow> int" where
  "estimate_tokens dumps v = (case v of JNull \<Rightarrow> 0 | JStr s \<Rightarrow> text_tokens s | _ \<Rightarrow> text_tokens (dumps v))"

text \<open>\<open>BASE64_DATA_URI_RE.sub('', s)\<close>: the media type runs up to the comma, since no comma can be in it.\<close>

definition is_word :: "char \<Rightarrow> bool" where
  "is_word c = (let n = of_char c :: nat
     in 48 \<le> n \<and> n \<le> 57 \<or> 65 \<le> n \<and> n \<le> 90 \<or> n = 95 \<or> 97 \<le> n \<and> n \<le> 122 \<or> n \<in> {170, 178, 179, 181, 185, 186, 188, 189, 190}
        \<or> 192 \<le> n \<and> n \<noteq> 215 \<and> n \<noteq> 247)"

definition is_media_char :: "char \<Rightarrow> bool" where
  "is_media_char c \<longleftrightarrow> is_word c \<or> c \<in> set ''/+.;=%-''"

definition is_data_char :: "char \<Rightarrow> bool" where
  "is_data_char c = (let n = of_char c :: nat
     in 48 \<le> n \<and> n \<le> 57 \<or> 65 \<le> n \<and> n \<le> 90 \<or> 97 \<le> n \<and> n \<le> 122 \<or> c \<in> set ''+/='')"

definition data_uri_rest :: "string \<Rightarrow> string option" where
  "data_uri_rest s =
     (if \<not> starts_with ''data:'' s then None
      else (let media = takeWhile is_media_char (drop 5 s); rest = dropWhile is_media_char (drop 5 s)
            in if ends_with '';base64'' media \<and> starts_with '','' rest then Some (dropWhile is_data_char (drop 1 rest)) else None))"

function without_data_uris :: "string \<Rightarrow> string" where
  "without_data_uris s =
     (case s of [] \<Rightarrow> []
      | c # cs \<Rightarrow> (case data_uri_rest s of Some rest \<Rightarrow> without_data_uris rest | None \<Rightarrow> c # without_data_uris cs))"
  by pat_completeness auto
termination
proof (relation "measure length")
  fix s :: string and c cs rest
  assume s: "s = c # cs" and "data_uri_rest s = Some rest"
  then have "rest = dropWhile is_data_char (drop 1 (dropWhile is_media_char (drop 5 s)))"
    by (auto simp: data_uri_rest_def Let_def split: if_splits)
  then have "length rest \<le> length s - 5"
    by (metis length_dropWhile_le length_drop diff_le_self le_trans)
  then show "(rest, s) \<in> measure length" using s by simp
qed simp_all

declare without_data_uris.simps [simp del]

definition part_tokens :: "(json \<Rightarrow> string) \<Rightarrow> json \<Rightarrow> int option" where
  "part_tokens dumps item =
     (case item of
        JObj d \<Rightarrow> if \<not> hashable (jget d ''type'') then None
          else Some (if jget d ''type'' \<in> {JStr ''image'', JStr ''image_url''} then 1000
                     else estimate_tokens dumps (jor (jor (jget d ''text'') (jget d ''content'')) item))
      | _ \<Rightarrow> Some (estimate_tokens dumps item))"

definition message_tokens :: "(json \<Rightarrow> string) \<Rightarrow> message \<Rightarrow> int option" where
  "message_tokens dumps message = do {
     content \<leftarrow> (case jget message ''content'' of
        JList parts \<Rightarrow> map_option sum_list (those (map (part_tokens dumps) parts))
      | content \<Rightarrow> Some (estimate_tokens dumps content));
     Some (4 + content + estimate_tokens dumps (jget message ''output'') + estimate_tokens dumps (jget message ''tool_calls'') +
       (if truthy (jget message ''files'') then text_tokens (without_data_uris (dumps (jget message ''files''))) else 0)) }"

definition estimate_messages_tokens :: "(json \<Rightarrow> string) \<Rightarrow> message list \<Rightarrow> int option" where
  "estimate_messages_tokens dumps messages = map_option sum_list (those (map (message_tokens dumps) messages))"

text \<open>The last message with a usage record that counts anything, and the messages after it.\<close>

definition message_usage :: "message \<Rightarrow> json option" where
  "message_usage message =
     (if truthy (jget message ''usage'') then Some (jget message ''usage'')
      else map_option (\<lambda>info. jget info ''usage'') (dict (jor (jget message ''info'') (JObj []))))"

fun latest_usage :: "message list \<Rightarrow> message list \<Rightarrow> (int \<times> message list) option option" where
  "latest_usage [] later = Some None"
| "latest_usage (m # before) later = do {
     u \<leftarrow> message_usage m;
     tokens \<leftarrow> (case u of JObj d \<Rightarrow> usage_token_count d | _ \<Rightarrow> Some 0);
     if tokens \<noteq> 0 then Some (Some (tokens, later)) else latest_usage before (m # later) }"

text \<open>The estimate: what the provider last counted and the later messages, or everything.\<close>

definition context_tokens :: "(json \<Rightarrow> string) \<Rightarrow> message list \<Rightarrow> json list \<Rightarrow> int option" where
  "context_tokens dumps messages texts = do {
     counted \<leftarrow> latest_usage (rev messages) [];
     (case counted of
        Some (tokens, later) \<Rightarrow> map_option (\<lambda>n. tokens + n) (estimate_messages_tokens dumps later)
      | None \<Rightarrow> map_option (\<lambda>n. sum_list (map (estimate_tokens dumps) texts) + n) (estimate_messages_tokens dumps messages)) }"

definition exceeds_token_threshold :: "(json \<Rightarrow> string) \<Rightarrow> message list \<Rightarrow> json \<Rightarrow> json \<Rightarrow> int \<Rightarrow> bool option" where
  "exceeds_token_threshold dumps messages system_prompt summary threshold =
     (if threshold \<le> 0 then Some False
      else map_option (\<lambda>tokens. threshold < tokens)
        (context_tokens dumps messages [system_prompt, jor summary (JStr [])]))"

subsection \<open>Checkpoints\<close>

text \<open>\<open>x or []\<close>, iterated over as a list of items: anything but a list raises at its first item.\<close>

definition output_of :: "message \<Rightarrow> json list option" where
  "output_of message =
     (if \<not> truthy (jget message ''output'') then Some []
      else case jget message ''output'' of JList xs \<Rightarrow> Some xs | _ \<Rightarrow> None)"

fun find_option :: "('a \<Rightarrow> bool option) \<Rightarrow> 'a list \<Rightarrow> 'a option option" where
  "find_option P [] = Some None"
| "find_option P (x # xs) = do { b \<leftarrow> P x; if b then Some (Some x) else find_option P xs }"

definition has_type :: "string \<Rightarrow> json \<Rightarrow> bool option" where
  "has_type t item = map_option (\<lambda>d. jget d ''type'' = JStr t) (dict item)"

definition compaction_marker :: "json list \<Rightarrow> json option option" where
  "compaction_marker output_list = find_option (has_type ''open_webui:context_compaction'') (rev output_list)"

definition is_marked_call :: "json dict \<Rightarrow> json \<Rightarrow> bool option" where
  "is_marked_call marker item = do {
     d \<leftarrow> dict item;
     if jget d ''type'' = JStr ''function_call''
     then map_option (\<lambda>call_id. py_eq (jget d ''call_id'') call_id) (map_of marker ''call_id'') else Some False }"

definition call_start :: "json dict \<Rightarrow> json list \<Rightarrow> nat option option" where
  "call_start marker output_list =
     map_option (map_option fst) (find_option (\<lambda>(position, item). is_marked_call marker item) (enumerate 0 output_list))"

text \<open>The items of the call's step begin after the last result before it.\<close>

fun step_start :: "json list \<Rightarrow> nat \<Rightarrow> nat option" where
  "step_start output_list 0 = Some 0"
| "step_start output_list (Suc n) = do {
     result \<leftarrow> has_type ''function_call_output'' (output_list ! n);
     if result then Some (Suc n) else step_start output_list n }"

fun cut_at_marker :: "json dict \<Rightarrow> message list \<Rightarrow> nat \<Rightarrow> (message list \<times> json) option option" where
  "cut_at_marker marker messages 0 = Some None"
| "cut_at_marker marker messages (Suc cut_idx) = do {
     output_list \<leftarrow> output_of (messages ! cut_idx);
     start \<leftarrow> call_start marker output_list;
     (case start of
        None \<Rightarrow> cut_at_marker marker messages cut_idx
      | Some start \<Rightarrow> do {
          start \<leftarrow> step_start output_list start;
          kept \<leftarrow> filter_option (\<lambda>item. map_option Not (has_type ''open_webui:context_compaction'' item)) (drop start output_list);
          summary \<leftarrow> map_of marker ''summary'';
          Some (Some (take (cut_idx - (cut_idx - 1)) (drop (cut_idx - 1) messages) @
            AList.update ''output'' (JList kept) (messages ! cut_idx) # drop (Suc cut_idx) messages, summary)) }) }"

definition stored_summary :: "message \<Rightarrow> json" where
  "stored_summary message = jor (jget message ''contextSummary'') (jget message ''context_summary'')"

definition is_summary :: "json \<Rightarrow> bool" where
  "is_summary v = (case v of JStr s \<Rightarrow> strip s \<noteq> [] | _ \<Rightarrow> False)"

fun latest_checkpoint :: "message list \<Rightarrow> nat \<Rightarrow> (message list \<times> json) option" where
  "latest_checkpoint messages 0 = Some (messages, JNull)"
| "latest_checkpoint messages (Suc idx) =
     (let message = messages ! idx
      in if is_summary (stored_summary message) then Some (drop idx messages, stored_summary message)
         else do {
           output_list \<leftarrow> output_of message;
           marker \<leftarrow> compaction_marker output_list;
           (case marker of
              None \<Rightarrow> latest_checkpoint messages idx
            | Some marker \<Rightarrow>
                if \<not> truthy marker then latest_checkpoint messages idx
                else do {
                  found \<leftarrow> cut_at_marker (dict_of marker) messages (Suc idx);
                  (case found of Some r \<Rightarrow> Some r | None \<Rightarrow> latest_checkpoint messages idx) }) })"

definition apply_latest_summary_checkpoint :: "message list \<Rightarrow> (message list \<times> json) option" where
  "apply_latest_summary_checkpoint messages = latest_checkpoint messages (length messages)"

subsection \<open>The boundary\<close>

definition positions :: "('a \<Rightarrow> bool) \<Rightarrow> 'a list \<Rightarrow> nat list" where
  "positions P xs = filter (\<lambda>i. P (xs ! i)) [0..<length xs]"

definition find_compaction_boundary :: "message list \<Rightarrow> int \<Rightarrow> nat" where
  "find_compaction_boundary messages percentage =
     (let n = length messages; keep_count = max 2 (int n * clamp_retention_percentage (JInt percentage) div 100);
          target = nat (max 1 (int n - keep_count)); tools = list_ex (role_is ''tool'') messages;
          boundaries = drop 1 (positions (if tools then calls_tools else role_is ''user'') messages);
          target = (if tools then target else max target (case boundaries of [] \<Rightarrow> 0 | b # bs \<Rightarrow> foldl min b bs))
      in case List.find (\<lambda>i. i \<le> target) (rev boundaries) of None \<Rightarrow> 0 | Some i \<Rightarrow> i)"

subsection \<open>The summary\<close>

text \<open>The model that is asked, and the text of its answer.\<close>

definition summary_model :: "json \<Rightarrow> json dict \<Rightarrow> string \<Rightarrow> string option" where
  "summary_model configured models model_id = do {
     listed \<leftarrow> in_dict configured models;
     let task_model_id = (case configured of JStr s \<Rightarrow> if listed then s else model_id | _ \<Rightarrow> model_id);
     if map_of models task_model_id = None then None else Some task_model_id }"

definition choice_text :: "json \<Rightarrow> json option" where
  "choice_text choices = (case choices of
     JList (choice # _) \<Rightarrow> do {
       c \<leftarrow> dict choice;
       message \<leftarrow> dict (jor (jget c ''message'') (JObj []));
       Some (jor (jor (jget message ''content'') (jget message ''reasoning_content'')) (JStr [])) }
   | _ \<Rightarrow> None)"

definition output_texts :: "json dict \<Rightarrow> json list option" where
  "output_texts response = do {
     items \<leftarrow> iterate (jor (jget response ''output'') (JList []));
     concat_option (\<lambda>item. do {
       d \<leftarrow> dict item;
       contents \<leftarrow> iterate (jor (jget d ''content'') (JList []));
       Some (map (\<lambda>c. jor (jor (jget (dict_of c) ''text'') (jget (dict_of c) ''content'')) (JStr [])) (filter is_dict contents)) }) items }"

definition str_of :: "json \<Rightarrow> string option" where
  "str_of v = (case v of JStr s \<Rightarrow> Some s | _ \<Rightarrow> None)"

definition response_text :: "json \<Rightarrow> json option" where
  "response_text response =
     (case (case response of JList [r] \<Rightarrow> r | r \<Rightarrow> r) of
        JObj r \<Rightarrow>
          if truthy (jget r ''choices'') then choice_text (jget r ''choices'')
          else do {
            parts \<leftarrow> output_texts r;
            texts \<leftarrow> those (map str_of (filter truthy parts));
            Some (JStr (join newline texts)) }
      | _ \<Rightarrow> Some (JStr []))"

text \<open>Without an answer the beginnings of the messages stand for it.\<close>

definition fallback_line :: "message \<Rightarrow> string list option" where
  "fallback_line message =
     (let content = get_content_from_message message; role = py_str (jget_default message ''role'' (JStr ''unknown''))
      in if \<not> truthy content then Some []
         else case content of
           JStr s \<Rightarrow> Some [''- '' @ role @ '': '' @ take 500 s]
         | JList xs \<Rightarrow> Some [''- '' @ role @ '': '' @ py_str (JList (take 500 xs))]
         | _ \<Rightarrow> None)"

definition summary_of :: "json \<Rightarrow> json \<Rightarrow> message list \<Rightarrow> string option" where
  "summary_of response previous_summary compacted_messages = do {
     answer \<leftarrow> response_text response;
     answer \<leftarrow> str_of answer;
     if strip answer \<noteq> [] then Some (strip answer)
     else do {
       first \<leftarrow> (if truthy previous_summary then map_option (\<lambda>s. [s]) (str_of previous_summary) else Some []);
       parts \<leftarrow> concat_option fallback_line compacted_messages;
       Some (take 4000 (join newline (first @ parts))) } }"

subsection \<open>Asking for the summary\<close>

text \<open>
  What the request brings along: the settings, the models, a model sent with the request, and the code
  outside this theory: \<open>dumps\<close> (without escapes) and \<open>dumps_ascii\<close> of the codec, the templates of
  \<open>utils/task.py\<close>, which fill the prompt from the last question, the messages, the earlier summary, and
  the language model with its parameters, whose answer is the decoded body.
\<close>

record summary_env =
  se_dumps :: "json \<Rightarrow> string"
  se_dumps_ascii :: "json \<Rightarrow> string"
  se_prompt :: "string \<Rightarrow> json \<Rightarrow> message list \<Rightarrow> message list \<Rightarrow> json \<Rightarrow> string option"
  se_complete :: "string \<Rightarrow> json dict \<Rightarrow> string \<Rightarrow> json option"
  se_settings :: "json dict"
  se_direct :: "(string \<times> json) option"
  se_models :: "json dict"
  se_model_id :: string

definition default_context_compaction_prompt :: string where
  "default_context_compaction_prompt = join newline
     [''### Task:'',
      ''Summarize the conversation history that will be compacted out of the active chat context.'',
      [],
      ''### Instructions:'',
      ''- Preserve key decisions, user preferences, and constraints.'',
      ''- Preserve files, artifacts, tool results, and code changes that matter going forward.'',
      ''- Preserve the current task state, unresolved questions, and next steps.'',
      ''- Be factual and specific. Do not invent details.'',
      ''- Keep the summary concise, but complete enough for the assistant to continue without the removed messages.'',
      [],
      ''### Previous Summary:'',
      ''{{PREVIOUS_SUMMARY}}'',
      [],
      ''### Messages Being Compacted:'',
      ''{{COMPACTED_MESSAGES}}'',
      [],
      ''### Recent Messages Kept In Context:'',
      ''{{RECENT_MESSAGES}}'']"

definition with_call_text :: "(json \<Rightarrow> string) \<Rightarrow> message \<Rightarrow> message" where
  "with_call_text dumps message =
     (if truthy (jget message ''tool_calls'')
      then AList.update ''content'' (JStr (py_str (jor (get_content_from_message message) (JStr [])) @ newline @
        ''[TOOL CALLS] '' @ dumps (jget message ''tool_calls''))) message
      else message)"

definition summary_params :: "json dict \<Rightarrow> json dict \<Rightarrow> string \<Rightarrow> json dict option" where
  "summary_params settings models task_model_id =
     (let params = filter (\<lambda>(k, v). v \<noteq> JNull \<and> v \<noteq> JStr []) (dict_of (jget settings ''task.model.params''))
      in if params \<noteq> [] then Some params
         else do {
           model \<leftarrow> dict (jget models task_model_id);
           info \<leftarrow> dict (jget_default model ''info'' (JObj []));
           params \<leftarrow> dict (jget_default info ''params'' (JObj []));
           Some [(''max_tokens'', jget_default params ''max_tokens'' (JInt 1000))] })"

definition generate_summary :: "summary_env \<Rightarrow> message list \<Rightarrow> message list \<Rightarrow> json \<Rightarrow> string option" where
  "generate_summary env compacted_messages recent_messages previous_summary = do {
     let models = (case se_direct env of None \<Rightarrow> se_models env | Some (i, model) \<Rightarrow> AList.update i model (se_models env));
     task_model_id \<leftarrow> summary_model (jget (se_settings env) ''chat.context_compaction.model'') models (se_model_id env);
     template \<leftarrow> str_of (prompt_template (load_config (se_settings env)));
     let template = (if strip template = [] then default_context_compaction_prompt else strip template);
     let compacted_messages = map (with_call_text (se_dumps_ascii env)) compacted_messages;
     let recent_messages = map (with_call_text (se_dumps_ascii env)) recent_messages;
     question \<leftarrow> (case get_last_user_message (compacted_messages @ recent_messages) of Inl _ \<Rightarrow> None | Inr q \<Rightarrow> Some q);
     prompt \<leftarrow> se_prompt env template (jor question (JStr [])) compacted_messages recent_messages (jor previous_summary (JStr []));
     params \<leftarrow> summary_params (se_settings env) models task_model_id;
     response \<leftarrow> se_complete env task_model_id params prompt;
     summary_of response previous_summary compacted_messages }"

subsection \<open>The messages of a request\<close>

text \<open>What is decided before anything happens: to leave the messages, or the two parts.\<close>

datatype compaction_plan =
    Unchanged "message list" json
  | Compact "message list" "message list" "message list" json

definition system_head :: "message list \<Rightarrow> message list" where
  "system_head messages = (case messages of [] \<Rightarrow> [] | m # _ \<Rightarrow> if role_is ''system'' m then [m] else [])"

definition plan_compaction :: "summary_env \<Rightarrow> message list \<Rightarrow> json dict \<Rightarrow> string \<Rightarrow> compaction_plan option" where
  "plan_compaction env messages metadata system_prompt =
     (let config = load_config (se_settings env)
      in if \<not> enable config then Some (Unchanged messages JNull)
      else do {
        let system_messages = system_head messages;
        (messages, previous_summary) \<leftarrow> apply_latest_summary_checkpoint (drop (length system_messages) messages);
        let system_prompt = (if system_prompt \<noteq> [] then JStr system_prompt
          else case system_messages of [] \<Rightarrow> JStr [] | m # _ \<Rightarrow> get_content_from_message m);
        threshold \<leftarrow> resolve_token_threshold (token_threshold config) (token_cap config) metadata;
        exceeds \<leftarrow> exceeds_token_threshold (se_dumps env) messages system_prompt previous_summary threshold;
        let boundary = find_compaction_boundary messages (retention_percentage config);
        Some (if \<not> exceeds \<or> take boundary messages = [] \<or> drop boundary messages = []
              then Unchanged (system_messages @ messages) previous_summary
              else Compact system_messages (take boundary messages) (drop boundary messages) previous_summary) })"

definition compaction_event :: "(string \<times> json) list \<Rightarrow> json" where
  "compaction_event details = JObj [(''type'', JStr ''context_compaction''),
     (''data'', JObj ((''action'', JStr ''context_compaction'') # details))]"

text \<open>
  The summary is stored with the first kept message, if that begins a turn of a saved chat; the save
  never raises. Identifiers are strings.
\<close>

definition store_checkpoint :: "chat_env \<Rightarrow> json dict \<Rightarrow> message \<Rightarrow> string \<Rightarrow> chat_db \<Rightarrow> chat_db option" where
  "store_checkpoint e metadata first summary d = do {
     let checkpoint_message_id = jor (jor (jget first ''id'') (jget metadata ''user_message_id'')) (jget metadata ''message_id'');
     if \<not> role_is ''user'' first then Some d
     else do {
       chat_id \<leftarrow> (case jget metadata ''chat_id'' of JStr s \<Rightarrow> Some s | v \<Rightarrow> if truthy v then None else Some []);
       Some (case checkpoint_message_id of
          JStr i \<Rightarrow> if is_saved_chat_id (Some chat_id) \<and> i \<noteq> []
            then snd (upsert_message_to_chat_by_id_and_message_id e chat_id i [(''contextSummary'', JStr summary)] False d) else d
        | _ \<Rightarrow> d) } }"

text \<open>The answer with the emitted events and the chats afterwards.\<close>

definition compact_messages_for_request ::
  "chat_env \<Rightarrow> summary_env \<Rightarrow> message list \<Rightarrow> json dict \<Rightarrow> string \<Rightarrow> chat_db
     \<Rightarrow> (message list \<times> json \<times> bool) option \<times> json list \<times> chat_db" where
  "compact_messages_for_request e env messages metadata system_prompt d =
     (case plan_compaction env messages metadata system_prompt of
        None \<Rightarrow> (None, [], d)
      | Some (Unchanged messages previous_summary) \<Rightarrow> (Some (messages, previous_summary, False), [], d)
      | Some (Compact system_messages compacted_messages recent_messages previous_summary) \<Rightarrow>
          (let emitted = (\<lambda>events. if truthy (jget metadata ''chat_id'') \<and> truthy (jget metadata ''message_id'') then events else []);
               first = hd recent_messages;
               started = compaction_event [(''description'', JStr ''Compacting context''), (''done'', JBool False)];
               failed = compaction_event [(''description'', JStr ''Context compaction failed''), (''done'', JBool True), (''error'', JBool True)];
               compacted = (\<lambda>summary. compaction_event [(''description'', JStr ''Context compacted''), (''done'', JBool True),
                 (''checkpoint_message_id'', if role_is ''user'' first then jget first ''id'' else JNull),
                 (''context_summary'', JStr summary)])
           in case generate_summary env compacted_messages recent_messages previous_summary of
             None \<Rightarrow> (None, emitted [started, failed], d)
           | Some summary \<Rightarrow>
               (case store_checkpoint e metadata first summary d of
                  None \<Rightarrow> (None, emitted [started], d)
                | Some d \<Rightarrow> (Some (system_messages @ recent_messages, JStr summary, True), emitted [started, compacted summary], d))))"

subsection \<open>The branch of a chat\<close>

definition chat_history :: "chat_item \<Rightarrow> (json dict \<times> json dict) option" where
  "chat_history item = do {
     chat \<leftarrow> chat_data item;
     history \<leftarrow> dict (jor (jget chat ''history'') (JObj []));
     Some (chat, history) }"

definition branch_message_id :: "chat_item \<Rightarrow> json dict \<Rightarrow> json dict \<Rightarrow> json option" where
  "branch_message_id item chat history =
     (let current_id = jor (jor (jor (ci_current_message_id item) (jget history ''currentId'')) (jget chat ''currentId''))
        (jget chat ''branchPointMessageId'')
      in if truthy current_id then Some current_id
         else case jget chat ''messages'' of
           JList (m # ms) \<Rightarrow> map_option (\<lambda>d. jget d ''id'') (dict (last (m # ms)))
         | _ \<Rightarrow> Some current_id)"

definition branch_messages ::
  "chat_env \<Rightarrow> string \<Rightarrow> json dict \<Rightarrow> json \<Rightarrow> chat_db \<Rightarrow> message list option \<times> chat_db" where
  "branch_messages e i history current_id d =
     (case get_messages_map_by_chat_id e i d of
        None \<Rightarrow> (None, d)
      | Some (found, d) \<Rightarrow> (do {
          messages_map \<leftarrow> (case found of Some (x # xs) \<Rightarrow> Some (x # xs) | _ \<Rightarrow> dict (jor (jget history ''messages'') (JObj [])));
          case get_message_list messages_map current_id of Inl _ \<Rightarrow> None | Inr vs \<Rightarrow> those (map dict vs) }, d))"

definition not_compacted :: "string \<Rightarrow> json" where
  "not_compacted reason = JObj [(''ok'', JBool True), (''compacted'', JBool False), (''reason'', JStr reason)]"

text \<open>All but the last message of the branch, with the summary stored at the current message.\<close>

definition compact_branch_messages :: "summary_env \<Rightarrow> message list \<Rightarrow> (json \<times> string option) option" where
  "compact_branch_messages env messages = do {
     (messages, previous_summary) \<leftarrow> apply_latest_summary_checkpoint messages;
     if butlast messages = [] then Some (not_compacted ''too_short'', None)
     else do {
       summary \<leftarrow> generate_summary env (butlast messages) [last messages] previous_summary;
       Some (JObj [(''ok'', JBool True), (''compacted'', JBool True),
         (''dropped_messages'', JInt (int (length (butlast messages)))), (''kept_messages'', JInt 1),
         (''summary_chars'', JInt (int (length summary)))], Some summary) } }"

definition compact_chat_branch ::
  "chat_env \<Rightarrow> summary_env \<Rightarrow> string \<Rightarrow> chat_item \<Rightarrow> chat_db \<Rightarrow> json option \<times> chat_db" where
  "compact_chat_branch e env i item d =
     (if \<not> enable (load_config (se_settings env)) then (Some (not_compacted ''disabled''), d)
      else case do { (chat, history) \<leftarrow> chat_history item;
                     current_id \<leftarrow> branch_message_id item chat history; Some (history, current_id) } of
        None \<Rightarrow> (None, d)
      | Some (history, current_id) \<Rightarrow>
          if \<not> truthy current_id then (Some (not_compacted ''empty''), d)
          else case branch_messages e i history current_id d of
            (None, d) \<Rightarrow> (None, d)
          | (Some messages, d) \<Rightarrow>
              (case compact_branch_messages env messages of
                 None \<Rightarrow> (None, d)
               | Some (answer, None) \<Rightarrow> (Some answer, d)
               | Some (answer, Some summary) \<Rightarrow>
                   (Some answer, snd (upsert_message_to_chat_by_id_and_message_id e i (key current_id)
                      [(''contextSummary'', JStr summary)] False d))))"

subsection \<open>How full the context is\<close>

text \<open>\<open>percent\<close> gives \<open>round((tokens / threshold) * 100)\<close>, which the code computes with floating point.\<close>

definition build_context_usage :: "(int \<Rightarrow> int \<Rightarrow> int) \<Rightarrow> int \<Rightarrow> int \<Rightarrow> json" where
  "build_context_usage percent tokens threshold = JObj
     [(''tokens'', JInt tokens), (''estimated_tokens'', JInt tokens), (''threshold'', JInt threshold),
      (''percent'', JInt (if threshold > 0 then percent tokens threshold else 0)), (''source'', JStr ''estimated'')]"

definition messages_context_usage ::
  "(int \<Rightarrow> int \<Rightarrow> int) \<Rightarrow> summary_env \<Rightarrow> json dict \<Rightarrow> string \<Rightarrow> message list \<Rightarrow> json option" where
  "messages_context_usage percent env chat model_id messages = do {
     let config = load_config (se_settings env);
     if messages = [] \<or> \<not> enable config then Some JNull
     else do {
       params \<leftarrow> dict (jor (jget chat ''params'') (JObj []));
       let params = (if model_id = [] then params else AList.update ''model'' (JStr model_id) params);
       threshold \<leftarrow> resolve_token_threshold (token_threshold config) (token_cap config) [(''params'', JObj params)];
       (messages, previous_summary) \<leftarrow> apply_latest_summary_checkpoint messages;
       tokens \<leftarrow> context_tokens (se_dumps env) messages [jor previous_summary (JStr [])];
       Some (build_context_usage percent tokens threshold) } }"

definition get_chat_context_usage ::
  "chat_env \<Rightarrow> (int \<Rightarrow> int \<Rightarrow> int) \<Rightarrow> summary_env \<Rightarrow> string \<Rightarrow> chat_item \<Rightarrow> string \<Rightarrow> chat_db \<Rightarrow> json option \<times> chat_db" where
  "get_chat_context_usage e percent env i item model_id d =
     (case do { (chat, history) \<leftarrow> chat_history item;
                current_id \<leftarrow> branch_message_id item chat history; Some (chat, history, current_id) } of
        None \<Rightarrow> (None, d)
      | Some (chat, history, current_id) \<Rightarrow>
          if \<not> truthy current_id then (Some JNull, d)
          else case branch_messages e i history current_id d of
            (None, d) \<Rightarrow> (None, d)
          | (Some messages, d) \<Rightarrow> (messages_context_usage percent env chat model_id messages, d))"

end
