(* ===== verification/CompactionLaws.thy ===== *)
theory CompactionLaws
  imports ContextCompaction MessageProps ChatView
begin

text \<open>
  Lemmas on context compaction: splitting a well-paired conversation, the boundary, the latest
  checkpoint, and the summary that is stored with a message and read back from its row.
\<close>

subsection \<open>Splitting a conversation\<close>

lemma well_paired_split:
  "well_paired (xs @ y # ys) \<Longrightarrow> \<not> role_is ''tool'' y \<Longrightarrow> well_paired xs \<and> well_paired (y # ys)"
proof (induction xs rule: well_paired.induct)
  case (2 m ms)
  have split: "takeWhile (role_is ''tool'') (ms @ y # ys) = takeWhile (role_is ''tool'') ms"
    "dropWhile (role_is ''tool'') (ms @ y # ys) = dropWhile (role_is ''tool'') ms @ y # ys"
    using 2(4) by (simp_all add: takeWhile_tail dropWhile_append3)
  show ?case
  proof (cases "calls_tools m")
    case True
    with 2(3) have "well_paired (dropWhile (role_is ''tool'') ms @ y # ys)"
      by (simp add: well_paired.simps(2) [of m] split Let_def)
    with 2(1) [OF True refl] 2(4) have "well_paired (dropWhile (role_is ''tool'') ms) \<and> well_paired (y # ys)" by simp
    with True 2(3) show ?thesis by (simp add: well_paired.simps(2) [of m] split Let_def)
  next
    case False
    with 2 show ?thesis by (simp add: well_paired.simps(2) [of m])
  qed
qed simp

lemma well_paired_calls: "well_paired ms \<Longrightarrow> list_ex calls_tools ms \<Longrightarrow> list_ex (role_is ''tool'') ms"
proof (induction ms rule: well_paired.induct)
  case (2 m ms)
  show ?case
  proof (cases "calls_tools m")
    case True
    with 2(3) obtain tcs where tcs: "jget m ''tool_calls'' = JList tcs"
      and ids: "set (call_ids_of m) = set (map result_id (takeWhile (role_is ''tool'') ms))"
      by (auto simp: well_paired.simps(2) [of m] Let_def)
    then have "tcs \<noteq> []" using True by (auto simp: calls_tools_def)
    then have "call_ids_of m \<noteq> []" using tcs by (simp add: call_ids_of_def)
    then have "takeWhile (role_is ''tool'') ms \<noteq> []" using ids by auto
    then have "list_ex (role_is ''tool'') ms" by (cases ms) (auto split: if_splits)
    then show ?thesis by simp
  next
    case False
    with 2 show ?thesis by (auto simp: well_paired.simps(2) [of m])
  qed
qed simp

subsection \<open>The boundary\<close>

lemma in_positions [simp]: "i \<in> set (positions P xs) \<longleftrightarrow> i < length xs \<and> P (xs ! i)"
  by (auto simp: positions_def)

lemma sorted_positions: "sorted (positions P xs)" "distinct (positions P xs)"
  by (simp_all add: positions_def sorted_wrt_filter)

lemma later_positions:
  "i \<in> set (drop 1 (positions P xs)) \<longleftrightarrow> i < length xs \<and> P (xs ! i) \<and> (\<exists>j < i. P (xs ! j))"
proof (cases "positions P xs")
  case Nil
  then have "\<not> (i < length xs \<and> P (xs ! i))" using in_positions [of i P xs] by simp
  then show ?thesis using Nil by auto
next
  case (Cons a as)
  then have s: "sorted (a # as)" "distinct (a # as)" using sorted_positions [of P xs] by simp_all
  have m: "k \<in> set (a # as) \<longleftrightarrow> k < length xs \<and> P (xs ! k)" for k using in_positions [of k P xs] Cons by simp
  have "i \<in> set as \<longleftrightarrow> i \<in> set (a # as) \<and> i \<noteq> a" using s by auto
  also have "\<dots> \<longleftrightarrow> i < length xs \<and> P (xs ! i) \<and> (\<exists>j < i. P (xs ! j))"
  proof -
    have "a < length xs" "P (xs ! a)" using m [of a] by simp_all
    moreover have "a \<le> j" if "j < length xs" "P (xs ! j)" for j using m [of j] s(1) that by auto
    ultimately show ?thesis using m [of i] by (metis less_le_trans not_less_iff_gr_or_eq less_trans leD)
  qed
  finally show ?thesis using Cons by simp
qed

lemma find_last:
  assumes "sorted bs"
  shows "(case List.find (\<lambda>i. i \<le> t) (rev bs) of None \<Rightarrow> (0::nat) | Some i \<Rightarrow> i) = b \<Longrightarrow>
    b \<in> set bs \<and> b \<le> t \<and> (\<forall>i \<in> set bs. i \<le> t \<longrightarrow> i \<le> b) \<or> b = 0 \<and> (\<forall>i \<in> set bs. t < i)"
  using assms
proof (induction bs rule: rev_induct)
  case (snoc x bs)
  then have "sorted bs" "\<forall>i \<in> set bs. i \<le> x" by (simp_all add: sorted_append)
  with snoc show ?case by (cases "x \<le> t") (auto simp: not_le intro: less_le_trans)
qed simp

lemma foldl_min: "foldl min b bs \<le> (b::nat) \<and> (\<forall>i \<in> set bs. foldl min b bs \<le> i) \<and> foldl min b bs \<in> insert b (set bs)"
proof (induction bs arbitrary: b)
  case (Cons a bs)
  from Cons.IH [of "min b a"] show ?case by (auto simp: min_def split: if_splits)
qed simp

text \<open>The bound on the boundary, and the first later boundary.\<close>

definition split_target :: "message list \<Rightarrow> int \<Rightarrow> nat" where
  "split_target messages percentage =
     (let n = int (length messages) in nat (max 1 (n - max 2 (n * clamp_retention_percentage (JInt percentage) div 100))))"

definition starts_part :: "message list \<Rightarrow> message \<Rightarrow> bool" where
  "starts_part messages = (if list_ex (role_is ''tool'') messages then calls_tools else role_is ''user'')"

definition later_start :: "message list \<Rightarrow> nat \<Rightarrow> bool" where
  "later_start messages i \<longleftrightarrow> i < length messages \<and> starts_part messages (messages ! i) \<and>
     (\<exists>j < i. starts_part messages (messages ! j))"

lemma boundary_cases:
  fixes messages :: "message list" and percentage :: int
  defines "b \<equiv> find_compaction_boundary messages percentage" and "t \<equiv> split_target messages percentage"
  obtains "later_start messages b" "b \<le> t" "\<forall>i. later_start messages i \<longrightarrow> i \<le> t \<longrightarrow> i \<le> b"
  | "b = 0" "list_ex (role_is ''tool'') messages \<or> (\<forall>i. \<not> later_start messages i)" "\<forall>i. later_start messages i \<longrightarrow> t < i"
  | "later_start messages b" "\<not> list_ex (role_is ''tool'') messages" "t < b" "\<forall>i. later_start messages i \<longrightarrow> b \<le> i"
proof -
  let ?tools = "list_ex (role_is ''tool'') messages"
  define bs where "bs = drop 1 (positions (starts_part messages) messages)"
  define m where "m = (case bs of [] \<Rightarrow> 0 | x # xs \<Rightarrow> foldl min x xs)"
  have bs: "i \<in> set bs \<longleftrightarrow> later_start messages i" for i
    unfolding bs_def later_positions later_start_def by simp
  have "sorted bs" unfolding bs_def by (intro sorted_wrt_drop sorted_positions)
  moreover have "(case List.find (\<lambda>i. i \<le> (if ?tools then t else max t m)) (rev bs) of None \<Rightarrow> 0 | Some i \<Rightarrow> i) = b"
    by (simp add: b_def t_def find_compaction_boundary_def split_target_def Let_def bs_def m_def starts_part_def)
  ultimately have found: "b \<in> set bs \<and> b \<le> (if ?tools then t else max t m) \<and>
      (\<forall>i \<in> set bs. i \<le> (if ?tools then t else max t m) \<longrightarrow> i \<le> b) \<or>
      b = 0 \<and> (\<forall>i \<in> set bs. (if ?tools then t else max t m) < i)"
    by (rule find_last)
  have m: "bs \<noteq> [] \<Longrightarrow> m \<in> set bs \<and> (\<forall>i \<in> set bs. m \<le> i)"
    using foldl_min [of "hd bs" "tl bs"] by (cases bs) (auto simp: m_def)
  show thesis
  proof (cases ?tools)
    case True
    with found bs that(1,2) show thesis by auto
  next
    case False
    show thesis
    proof (cases "bs = []")
      case True
      with found bs that(2) show thesis by auto
    next
      case ne: False
      with m found False have b: "b \<in> set bs" "b \<le> max t m" "\<And>i. i \<in> set bs \<Longrightarrow> i \<le> max t m \<Longrightarrow> i \<le> b"
        by (auto simp: not_less)
      show thesis
      proof (cases "b \<le> t")
        case True
        show thesis by (rule that(1)) (use True b bs in auto)
      next
        case gt: False
        then have "b \<le> m" using b(2) by auto
        then show thesis using gt False b(1) bs m [OF ne] by (intro that(3)) (auto intro: le_trans)
      qed
    qed
  qed
qed

lemma later_start_role: "later_start messages i \<Longrightarrow> \<not> role_is ''tool'' (messages ! i)"
  using roles_disjoint by (auto simp: later_start_def starts_part_def role_is_def split: if_splits)

lemma boundary_keeps_pairs:
  fixes percentage :: int
  assumes "well_paired messages"
  defines "b \<equiv> find_compaction_boundary messages percentage"
  shows "well_paired (take b messages) \<and> well_paired (drop b messages)"
proof (cases "b = 0")
  case False
  have b: "later_start messages b"
    by (rule boundary_cases [of messages percentage]) (use False in \<open>simp_all add: b_def\<close>)
  then have "messages = take b messages @ messages ! b # drop (Suc b) messages"
    by (simp add: later_start_def id_take_nth_drop)
  then show ?thesis
    using well_paired_split [of "take b messages" "messages ! b" "drop (Suc b) messages"] assms(1) later_start_role [OF b] b
    by (simp add: Cons_nth_drop_Suc later_start_def)
qed (use assms(1) in simp)

subsection \<open>The latest checkpoint\<close>

definition no_checkpoint :: "message \<Rightarrow> bool" where
  "no_checkpoint m \<longleftrightarrow> \<not> is_summary (stored_summary m) \<and>
     (case output_of m of None \<Rightarrow> False | Some xs \<Rightarrow> compaction_marker xs = Some None)"

lemma latest_checkpoint_skips:
  assumes "list_all no_checkpoint later" "is_summary (stored_summary m)"
  shows "k \<le> length later \<Longrightarrow>
    latest_checkpoint (before @ m # later) (Suc (length before + k)) = Some (m # later, stored_summary m)"
proof (induction k)
  case 0
  then show ?case using assms(2) by (simp add: Let_def)
next
  case (Suc k)
  have "no_checkpoint (later ! k)" using assms(1) Suc.prems by (simp add: list_all_length)
  moreover have "(before @ m # later) ! Suc (length before + k) = later ! k" by (simp add: nth_append)
  ultimately show ?case
    using Suc by (simp add: Let_def no_checkpoint_def split: option.splits)
qed

lemma checkpoint_found:
  assumes "is_summary (stored_summary m)" "list_all no_checkpoint later"
  shows "apply_latest_summary_checkpoint (before @ m # later) = Some (m # later, stored_summary m)"
  using latest_checkpoint_skips [OF assms(2,1), of "length later" before]
  by (simp add: apply_latest_summary_checkpoint_def add.commute)

text \<open>A cut in the middle of a reply: at most the message before it stays, and everything after it.\<close>

definition cut_of :: "message list \<Rightarrow> message list \<Rightarrow> nat \<Rightarrow> bool" where
  "cut_of messages stay c \<longleftrightarrow> c < length messages \<and>
     (\<exists>items removed. output_of (messages ! c) = Some (removed @ items) \<and>
       stay = take (c - (c - 1)) (drop (c - 1) messages) @
         AList.update ''output'' (JList (filter (\<lambda>i. \<not> (jget (dict_of i) ''type'' = JStr ''open_webui:context_compaction'')) items))
           (messages ! c) # drop (Suc c) messages)"

lemma filter_option_Some:
  "filter_option P xs = Some ys \<Longrightarrow> (\<And>x b. x \<in> set xs \<Longrightarrow> P x = Some b \<Longrightarrow> b = Q x) \<Longrightarrow> ys = filter Q xs"
  by (induction xs arbitrary: ys) (auto simp: bind_eq_Some_conv split: if_splits)

lemma dict_Some_of: "dict x = Some d \<Longrightarrow> dict_of x = d"
  by (cases x) auto

lemma cut_at_marker_cut:
  "cut_at_marker marker messages n = Some (Some (stay, summary)) \<Longrightarrow> n \<le> length messages \<Longrightarrow>
    map_of marker ''summary'' = Some summary \<and> (\<exists>c < n. cut_of messages stay c)"
proof (induction n)
  case (Suc n)
  obtain output_list start where o: "output_of (messages ! n) = Some output_list" "call_start marker output_list = Some start"
    using Suc.prems(1) by (auto simp: bind_eq_Some_conv)
  show ?case
  proof (cases start)
    case None
    then show ?thesis using Suc o by (auto simp: less_Suc_eq)
  next
    case (Some s)
    then obtain s' items where r: "step_start output_list s = Some s'"
      "filter_option (\<lambda>item. map_option Not (has_type ''open_webui:context_compaction'' item)) (drop s' output_list) = Some items"
      "map_of marker ''summary'' = Some summary"
      "stay = take (n - (n - 1)) (drop (n - 1) messages) @ AList.update ''output'' (JList items) (messages ! n) # drop (Suc n) messages"
      using Suc.prems(1) o by (auto simp: bind_eq_Some_conv)
    have "items = filter (\<lambda>i. \<not> (jget (dict_of i) ''type'' = JStr ''open_webui:context_compaction'')) (drop s' output_list)"
      by (rule filter_option_Some [OF r(2)]) (auto simp: has_type_def dest: dict_Some_of)
    moreover have "output_of (messages ! n) = Some (take s' output_list @ drop s' output_list)" using o(1) by simp
    ultimately have "cut_of messages stay n" using r(4) Suc.prems(2) unfolding cut_of_def by (metis Suc_le_eq)
    then show ?thesis using r(3) by blast
  qed
qed simp

lemma latest_checkpoint_shape:
  "latest_checkpoint messages n = Some (stay, summary) \<Longrightarrow> n \<le> length messages \<Longrightarrow>
    (stay, summary) = (messages, JNull) \<or>
    (\<exists>k < n. stay = drop k messages \<and> summary = stored_summary (messages ! k) \<and> is_summary summary) \<or>
    (\<exists>c < n. cut_of messages stay c)"
proof (induction n)
  case (Suc n)
  let ?m = "messages ! n"
  show ?case
  proof (cases "is_summary (stored_summary ?m)")
    case True
    then show ?thesis using Suc.prems by (auto simp: Let_def)
  next
    case False
    then obtain output_list marker where o: "output_of ?m = Some output_list" "compaction_marker output_list = Some marker"
      using Suc.prems(1) by (auto simp: Let_def bind_eq_Some_conv)
    consider "latest_checkpoint messages n = Some (stay, summary)"
      | v where "cut_at_marker (dict_of v) messages (Suc n) = Some (Some (stay, summary))"
      using Suc.prems(1) False o by (fastforce simp: Let_def bind_eq_Some_conv split: option.splits if_splits simp del: cut_at_marker.simps)
    then show ?thesis
    proof cases
      case 1
      then show ?thesis using Suc.IH Suc.prems(2) less_SucI by (metis Suc_leD)
    next
      case 2
      then show ?thesis using cut_at_marker_cut Suc.prems(2) by blast
    qed
  qed
qed simp

lemmas checkpoint_shape = latest_checkpoint_shape [OF _ order_refl, folded apply_latest_summary_checkpoint_def]

end
