(* ===== verification/CompactionStore.thy ===== *)
theory CompactionStore
  imports CompactionLaws
begin

text \<open>
  A summary that is stored with a message is in the row of the message, and the messages read from the
  rows carry it.
\<close>

subsection \<open>Fields of the messages in the rows\<close>

lemma append_child_field: "k \<noteq> ''childrenIds'' \<Longrightarrow> jget (dict_of (append_child x v)) k = jget (dict_of v) k"
  by (simp add: dict_of_append_child)

lemma link_rows_field:
  "link_rows items merged = Some merged' \<Longrightarrow> k \<noteq> ''childrenIds'' \<Longrightarrow>
    jget (dict_of (jget merged' j)) k = jget (dict_of (jget merged j)) k"
proof (induction items arbitrary: merged)
  case (Cons x items)
  obtain i v where x: "x = (i, v)" by (cases x)
  obtain M where M: "link_rows items M = Some merged'"
    "M = merged \<or> (\<exists>p y. M = AList.update p (append_child y (jget merged p)) merged)"
    using Cons.prems(1) by (auto simp: x Let_def bind_eq_Some_conv split: if_splits)
  have "jget (dict_of (jget M j)) k = jget (dict_of (jget merged j)) k"
    using M(2) append_child_field [OF Cons.prems(2)] by (auto simp: jget_def update_conv')
  then show ?case using Cons.IH [OF M(1) Cons.prems(2)] by simp
qed simp

lemma with_children_field: "k \<noteq> ''childrenIds'' \<Longrightarrow> jget (dict_of (with_children v)) k = jget (dict_of v) k"
  by (simp add: with_children_def)

lemma read_row_field:
  assumes M: "row_messages_map i rs = Some (Some M)" and s: "rows_shape n rs"
    and r: "r \<in> set rs" "mr_chat_id r = i" and k: "k \<noteq> ''childrenIds''"
  shows "jget (dict_of (jget M (row_message_id r))) k = jget (row_message (row_message_id r) r) k"
proof -
  define own where "own = filter (\<lambda>r. mr_chat_id r = i) rs"
  have own: "r \<in> set own" using r by (simp add: own_def)
  then have ne: "own \<noteq> []" by auto
  let ?items = "map row_item own" and ?j = "row_message_id r"
  note it = own_items [OF s own_def]
  have "dict_merge [] (map (\<lambda>r. let j = strip_prefix (i @ ''-'') (mr_id r) in (j, JObj (row_message j r))) own) = ?items"
    unfolding it(2) using merge_distinct [OF it(1), of "[]"] by simp
  then obtain linked where l: "link_rows ?items ?items = Some linked" "M = map (\<lambda>(j, v). (j, with_children v)) linked"
    using M ne unfolding row_messages_map_def own_def [symmetric] by (cases own) (auto simp: Let_def [of "map row_item _"] Let_def [of "_ # _"] bind_eq_Some_conv)
  have "(?j, JObj (row_message ?j r)) \<in> set ?items" using own by (force simp: row_item_def)
  then have j: "jget ?items ?j = JObj (row_message ?j r)" using it(1) by (simp add: jget_def)
  have "map_of M ?j = map_option with_children (map_of linked ?j)" unfolding l(2) by (induction linked) auto
  then have "jget (dict_of (jget M ?j)) k = jget (dict_of (jget linked ?j)) k"
    using with_children_field [OF k] by (cases "map_of linked ?j") (simp_all add: jget_def)
  then show ?thesis using link_rows_field [OF l(1) k, of ?j] j by simp
qed

lemma row_message_summary:
  "jget (row_message mid r) ''contextSummary'' = mr_context_summary r"
proof -
  have "map_of (row_columns r) ''contextSummary'' = (if mr_context_summary r = JNull then None else Some (mr_context_summary r))"
    unfolding row_columns_def by (subst map_of_filter_value, simp, simp)
  then show ?thesis by (simp add: row_message_def Let_def jget_def map_add_def)
qed

subsection \<open>Storing a summary\<close>

lemma summary_message:
  "clean (with_output_text [(''contextSummary'', JStr summary)]) = [(''contextSummary'', JStr (sanitize_text_for_db summary))]"
proof -
  have "with_output_text [(''contextSummary'', JStr summary)] = [(''contextSummary'', JStr summary)]"
    by (simp add: with_output_text_def jget_def get_output_text_def)
  moreover have "sanitize_text_for_db ''contextSummary'' = ''contextSummary''" by code_simp
  moreover have "CHR 0x00 \<notin> set s \<Longrightarrow> sanitize_text_for_db s = s" for s
    by (auto simp: sanitize_text_for_db_def filter_id_conv)
  ultimately show ?thesis by (simp add: clean_def sanitize_data_for_db_def)
qed

lemma upsert_summary_row:
  assumes "upsert_message e mid i u m rs = Some rs'" "jget m ''contextSummary'' = JStr s" "jget m ''context_summary'' = JNull"
    and "rows_shape n rs" "length i = n"
  shows "\<exists>r \<in> set rs'. mr_id r = composite_id i mid \<and> mr_chat_id r = i \<and> mr_context_summary r = JStr s"
proof -
  have k: "has_key ''contextSummary'' m" using assms(2) by (auto simp: jget_def split: option.splits)
  show ?thesis
  proof (cases "get_row rs (composite_id i mid)")
    case None
    then obtain row where row: "build_message (composite_id i mid) i u m (now e) = Some row" "rs' = put_row row rs"
      using assms(1) by (auto simp: upsert_message_def bind_eq_Some_conv split: if_splits)
    then have "mr_id row = composite_id i mid" "mr_chat_id row = i" "mr_context_summary row = JStr s"
      using assms(2,3) unfolding build_message_def bind_eq_Some_conv by (auto simp: jor_def)
    then show ?thesis using row(2) by (auto simp: put_row_set)
  next
    case (Some old)
    then obtain row where row: "apply_message_data old m (now e) = Some row" "rs' = put_row row rs"
      using assms(1) by (auto simp: upsert_message_def bind_eq_Some_conv split: if_splits)
    have old: "mr_id old = composite_id i mid" "old \<in> set rs" using get_row_Some [OF Some] by auto
    then have "mr_chat_id old = i" using assms(4,5) by (auto simp: rows_shape_def list_all_iff composite_eq)
    moreover have "mr_id row = mr_id old" "mr_chat_id row = mr_chat_id old" "mr_context_summary row = JStr s"
      using row(1) k assms(2,3) unfolding apply_message_data_def bind_eq_Some_conv Let_def by (auto simp: jor_def)
    ultimately show ?thesis using row(2) old(1) by (auto simp: put_row_set)
  qed
qed


definition save_body :: "chat_env \<Rightarrow> string \<Rightarrow> string \<Rightarrow> json dict \<Rightarrow> bool \<Rightarrow> chat_item \<Rightarrow> message_row list \<Rightarrow> chat_item change option" where
  "save_body e i message_id message bump item rs = do {
     chat \<leftarrow> chat_data item;
     (chat, repaired) \<leftarrow> repair_chat_current_id chat;
     history \<leftarrow> dict (jget_default chat ''history'' (JObj []));
     (history, saved_message) \<leftarrow> upsert_message_to_history (now e) history message_id message;
     rs \<leftarrow> save_message_row e i item (message_id, saved_message) rs;
     item \<leftarrow> store_chat (AList.update ''history'' (JObj history) chat) item;
     checked e (if bump then item\<lparr>ci_updated_at := now e\<rparr> else item) rs }"

lemma save_unfold:
  "upsert_message_to_chat_by_id_and_message_id e i message_id message bump d =
    chat_transaction i (save_body e i (sanitize_text_for_db message_id) (clean (with_output_text message)) bump) d"
  by (simp add: upsert_message_to_chat_by_id_and_message_id_def save_body_def [abs_def] Let_def)

lemma save_summary_row:
  assumes ok: "item_ok i item rs" "rows_shape n rs" "length i = n"
    and m0: "map_of (chat_messages (dict_of (ci_chat item))) mid = Some (JObj m0)" "jget m0 ''context_summary'' = JNull"
    and run: "save_body e i mid [(''contextSummary'', JStr s)] bump item rs = Some (x, item', rs')"
  shows "\<exists>r \<in> set rs'. mr_id r = composite_id i mid \<and> mr_chat_id r = i \<and> mr_context_summary r = JStr s"
proof -
  let ?new = "[(''contextSummary'', JStr s)]"
  from run obtain chat0 chat b h0 history' saved where c: "chat_data item = Some chat0"
    "repair_chat_current_id chat0 = Some (chat, b)" "dict (jget_default chat ''history'' (JObj [])) = Some h0"
    and u: "upsert_message_to_history (now e) h0 mid ?new = Some (history', saved)"
    and r: "save_message_row e i item (mid, saved) rs = Some rs'"
    by (auto simp: save_body_def bind_eq_Some_conv checked_def split: if_splits)
  obtain history messages where p: "jget_default chat ''history'' (JObj []) = JObj history"
    "jget history ''messages'' = JObj messages" "tree_ok messages" "messages = chat_messages chat0"
    using repaired_item [OF ok(1) c(1,2)] by metis
  have "ci_chat item = JObj chat0" using item_okE [OF ok(1) c(1)] by metis
  then have m: "map_of messages mid = Some (JObj m0)" using m0(1) p(4) by simp
  then have "node_ok mid (JObj m0)" using tree_okD(4) [OF p(3) map_of_SomeD] by blast
  then have "save_ok messages mid ?new"
    using m by (simp add: save_ok_def repeats_def tree_keys_def node_ok_def Let_def)
  moreover have "upsert_message_to_history (now e) history mid ?new = Some (history', saved)" using u c(3) p(1) by simp
  ultimately have su: "save_ok messages mid ?new" "upsert_message_to_history (now e) history mid ?new = Some (history', saved)" .
  obtain m1 where m1: "saved = JObj m1"
    "\<And>k. k \<notin> {''id'', ''parentId'', ''childrenIds'', ''role'', ''timestamp'', ''meta''} \<Longrightarrow> jget m1 k = saved_field messages mid ?new k"
    by (rule upsert_saved [OF p(3,2) su]) blast
  have "jget m1 ''contextSummary'' = JStr s" "jget m1 ''context_summary'' = JNull"
    using m1(2) [of "''contextSummary''"] m1(2) [of "''context_summary''"] m m0(2) by (simp_all add: saved_field_def jget_def)
  then show ?thesis
    using upsert_summary_row [OF _ _ _ ok(2,3)] r m1(1) by (simp add: save_message_row_def bind_eq_Some_conv)
qed

subsection \<open>Reading the branch again\<close>

lemma chain_dicts: "message_chain M visited i v = Inr vs \<Longrightarrow> list_all is_dict vs"
proof (induction M visited i v arbitrary: vs rule: message_chain.induct)
  case (1 M visited i v)
  from 1(2) 1(1) show ?case
    by (subst (asm) message_chain.simps) (auto simp: Let_def bind_result_Inr split: if_splits json.splits)
qed

lemma message_list_dicts: "get_message_list M i = Inr vs \<Longrightarrow> list_all is_dict vs"
  by (auto simp: get_message_list_def bind_result_Inr list_all_iff split: if_splits dest!: chain_dicts)

lemma dicts_of: "list_all is_dict vs \<Longrightarrow> map JObj (map dict_of vs) = vs"
  by (induction vs) (auto elim: is_dict_cases)

lemma view_id:
  assumes "tree_ok messages" "same_messages messages M" "jget M j = JObj m"
  shows "jget m ''id'' = JStr j"
proof -
  have "j \<in> fst ` set M" using assms(3) by (auto simp: jget_def dest: keys_map_of split: option.splits)
  then have "map_of messages j \<noteq> None" using assms(2) by (simp add: same_messages_def map_of_eq_None_iff)
  then obtain v where "map_of messages j = Some v" by blast
  from same_message [OF assms(1,2) this] obtain m0 m' where "jget M j = JObj m'" "node_ok j (JObj m0)" "same_view m0 m'" by metis
  then show ?thesis using assms(3) by (simp add: node_ok_def Let_def same_view_def)
qed

lemma branch_of_view:
  assumes ok: "tree_ok messages" and v: "same_messages messages M" and s: "map_of messages s \<noteq> None"
  obtains branch where "get_message_list M (JStr s) = Inr (map JObj branch)" "branch \<noteq> []" "jget (last branch) ''id'' = JStr s"
    "\<And>m j. m \<in> set branch \<Longrightarrow> jget m ''id'' = JStr j \<Longrightarrow> jget M j = JObj m"
proof -
  obtain ids where ids: "ids \<noteq> []" "last ids = s" "get_message_list M (JStr s) = Inr (map (jget M) ids)"
    using same_message_list [OF ok v s] by blast
  have dicts: "list_all is_dict (map (jget M) ids)" using ids(3) by (rule message_list_dicts)
  define branch where "branch = map (dict_of \<circ> jget M) ids"
  have b: "map JObj branch = map (jget M) ids" unfolding branch_def map_map [symmetric] by (rule dicts_of [OF dicts])
  have j: "jget M j = JObj (dict_of (jget M j))" if "j \<in> set ids" for j
    using dicts that by (auto simp: list_all_iff elim!: is_dict_cases)
  have i: "jget (dict_of (jget M j)) ''id'' = JStr j" if "j \<in> set ids" for j
    by (rule view_id [OF ok v j [OF that]])
  show ?thesis
  proof (rule that [of branch])
    show "get_message_list M (JStr s) = Inr (map JObj branch)" using ids(3) b by simp
    show "branch \<noteq> []" using ids(1) by (simp add: branch_def)
    show "jget (last branch) ''id'' = JStr s" using i [of s] ids(1,2) last_in_set [OF ids(1)] by (simp add: branch_def last_map)
    fix m k assume "m \<in> set branch" "jget m ''id'' = JStr k"
    then obtain j where "j \<in> set ids" "m = dict_of (jget M j)" "k = j" using i by (auto simp: branch_def)
    then show "jget M k = JObj m" using j by simp
  qed
qed

text \<open>After the summary is stored the branches of the chat end with the messages from there on.\<close>

lemma stored_summary_read:
  assumes ok: "chats_ok n d" and m0: "map_of (messages_in d i) mid = Some (JObj m0)" "jget m0 ''context_summary'' = JNull"
    and run: "upsert_message_to_chat_by_id_and_message_id e i mid [(''contextSummary'', JStr summary)] bump d = (Some x, d')"
  obtains M where "get_messages_map_by_chat_id e' i d' = Some (Some M, d')" "same_messages (messages_in d' i) M"
    "tree_ok (messages_in d' i)" "fst ` set (messages_in d i) \<subseteq> fst ` set (messages_in d' i)"
    "jget (dict_of (jget M mid)) ''contextSummary'' = JStr (sanitize_text_for_db summary)"
proof -
  obtain item where item: "map_of (chats d) i = Some item"
    using m0(1) by (cases "map_of (chats d) i") (auto simp: messages_in_def)
  note it = chats_ok_item [OF ok item]
  obtain chat0 where c0: "ci_chat item = JObj chat0" "chat_ok chat0"
    using it(3) by (auto simp: item_ok_def split: json.splits)
  obtain history0 messages0 where h0: "jget chat0 ''history'' = JObj history0" "jget history0 ''messages'' = JObj messages0"
    "tree_ok messages0" "stored_or_none messages0 (jget history0 ''currentId'')" "nul_free (JObj chat0)" "nul_free (JObj history0)"
    "nul_free (JObj messages0)"
    using c0(2) by (rule chat_okE)
  have m: "map_of messages0 mid = Some (JObj m0)" using m0(1) item c0(1) h0(1,2) by (simp add: messages_in_def)
  have "CHR 0x00 \<notin> set mid" using h0(7) m by (rule nul_free_key)
  then have mid: "sanitize_text_for_db mid = mid" by (auto simp: sanitize_text_for_db_def filter_id_conv)
  let ?s = "sanitize_text_for_db summary"
  have "node_ok mid (JObj m0)" using tree_okD(4) [OF h0(3) map_of_SomeD [OF m]] .
  then have "save_ok messages0 mid [(''contextSummary'', JStr ?s)]"
    using m by (simp add: save_ok_def repeats_def tree_keys_def node_ok_def Let_def)
  then have saves: "saves d i mid [(''contextSummary'', JStr summary)]"
    using item c0(1) h0(1,2) by (simp add: saves_def summary_message mid)
  have d': "d' = snd (upsert_message_to_chat_by_id_and_message_id e i mid [(''contextSummary'', JStr summary)] bump d)"
    using run by simp
  have w: "chat_write n d d'" unfolding d' by (rule chat_write.save [OF saves])
  have ok': "chats_ok n d'" by (rule write_keeps [OF w ok])
  have keys: "fst ` set (messages_in d i) \<subseteq> fst ` set (messages_in d' i)"
    using write_row_keys [OF w] message_keys [OF ok] message_keys [OF ok'] by blast
  obtain item' rs' where step: "save_body e i mid [(''contextSummary'', JStr ?s)] bump item (rows d) = Some (x, item', rs')"
    "d' = \<lparr>chats = AList.update i item' (chats d), rows = rs'\<rparr>"
    using run item by (auto simp: save_unfold summary_message mid chat_transaction_def split: option.splits)
  have item': "map_of (chats d') i = Some item'" using step(2) by simp
  obtain r where r: "r \<in> set (rows d')" "mr_id r = composite_id i mid" "mr_chat_id r = i" "mr_context_summary r = JStr ?s"
    using save_summary_row [OF it(3,2,1) _ m0(2) step(1)] m c0(1) h0(1,2) step(2) by auto
  then have rid: "row_message_id r = mid" using row_message_id_composite by simp
  obtain chat where chat: "ci_chat item' = JObj chat"
    using chats_ok_item(3) [OF ok' item'] by (auto simp: item_ok_def split: json.splits)
  have "mid \<in> fst ` set (messages_in d' i)" using keys keys_map_of [OF m0(1)] by blast
  moreover have mi: "messages_in d' i = chat_messages chat" using item' chat by (simp add: messages_in_def)
  ultimately have "chat_messages chat \<noteq> []" by auto
  then obtain M where M: "get_messages_map_by_chat_id e' i d' = Some (Some M, d')" "same_messages (chat_messages chat) M"
    "tree_ok (chat_messages chat)" "row_messages_map i (rows d') = Some (Some M)"
    using read_agrees_rows [OF ok' item' chat] by metis
  have "jget (dict_of (jget M mid)) ''contextSummary'' = JStr ?s"
    using read_row_field [OF M(4) chats_ok_item(2) [OF ok' item'] r(1,3), of "''contextSummary''"] rid r(4)
    by (simp add: row_message_summary)
  with M keys show ?thesis by (intro that [of M]) (simp_all add: mi)
qed

end
