(* ===== verification/CompactionClaims.thy ===== *)
theory CompactionClaims
  imports CompactionStore ChatSamples
begin

text \<open>
  The properties of context compaction, with a request and a chat on which they are evaluated.
\<close>

subsection \<open>What is kept\<close>

text \<open>
  C35: The boundary is the last place up to the retained share where a later turn begins, or a later
  assistant message with tool calls if the messages hold tool results; without one there is no
  boundary, except that a chat without tool results is cut at its first later turn.
\<close>

theorem compaction_boundary_exact:
  fixes messages :: "message list" and percentage :: int
  defines "b \<equiv> find_compaction_boundary messages percentage"
    and "target \<equiv> nat (max 1 (int (length messages) -
      max 2 (int (length messages) * min 50 (max 10 percentage) div 100)))"
    and "starts \<equiv> (if list_ex (role_is ''tool'') messages then calls_tools else role_is ''user'')"
  defines "later \<equiv> \<lambda>i. i < length messages \<and> starts (messages ! i) \<and> (\<exists>j < i. starts (messages ! j))"
  shows "later b \<and> b \<le> target \<and> (\<forall>i. later i \<longrightarrow> i \<le> target \<longrightarrow> i \<le> b) \<or>
    b = 0 \<and> (list_ex (role_is ''tool'') messages \<or> (\<forall>i. \<not> later i)) \<and> (\<forall>i. later i \<longrightarrow> target < i) \<or>
    later b \<and> \<not> list_ex (role_is ''tool'') messages \<and> target < b \<and> (\<forall>i. later i \<longrightarrow> b \<le> i)"
proof -
  have "later = later_start messages" by (simp add: later_def later_start_def starts_part_def starts_def fun_eq_iff)
  moreover have "target = split_target messages percentage"
    by (simp add: target_def split_target_def Let_def clamp_retention_percentage_def)
  ultimately show ?thesis
    using boundary_cases [of messages percentage] unfolding b_def by metis
qed

lemma plan_CompactE:
  assumes "plan_compaction env messages metadata system_prompt = Some (Compact head old recent previous)"
  obtains ms where "head = system_head messages"
    "apply_latest_summary_checkpoint (drop (length head) messages) = Some (ms, previous)"
    "old = take (find_compaction_boundary ms (retention_percentage (load_config (se_settings env)))) ms"
    "recent = drop (find_compaction_boundary ms (retention_percentage (load_config (se_settings env)))) ms"
    "old \<noteq> []" "recent \<noteq> []"
  using assms by (auto simp: plan_compaction_def Let_def bind_eq_Some_conv split: if_splits)

lemma compacted_requestE:
  assumes "compact_messages_for_request e env messages metadata system_prompt d = (Some (out, summary, True), events, d')"
  obtains head old recent previous s
    where "plan_compaction env messages metadata system_prompt = Some (Compact head old recent previous)"
    "generate_summary env old recent previous = Some s" "out = head @ recent" "summary = JStr s"
    "store_checkpoint e metadata (hd recent) s d = Some d'"
  using assms by (auto simp: compact_messages_for_request_def Let_def split: option.splits compaction_plan.splits)

text \<open>
  C25: A compacted request holds the system message and the end of the messages that the last
  checkpoint left; the rest of them, which is not empty, is what was summarised. If every tool call
  had its results next to it, that is so on both sides: no result is separated from its call.
\<close>

theorem compaction_keeps_tool_pairs:
  assumes "compact_messages_for_request e env messages metadata system_prompt d = (Some (out, summary, True), events, d')"
  shows "\<exists>ms previous old recent s. apply_latest_summary_checkpoint (drop (length (system_head messages)) messages) = Some (ms, previous) \<and>
    ms = old @ recent \<and> old \<noteq> [] \<and> recent \<noteq> [] \<and> out = system_head messages @ recent \<and>
    generate_summary env old recent previous = Some s \<and> summary = JStr s \<and>
    (well_paired ms \<longrightarrow> well_paired old \<and> well_paired recent)"
proof -
  obtain head old recent previous s
    where r: "plan_compaction env messages metadata system_prompt = Some (Compact head old recent previous)"
    "generate_summary env old recent previous = Some s" "out = head @ recent" "summary = JStr s"
    using compacted_requestE [OF assms] .
  from r(1) obtain ms where p: "head = system_head messages"
    "apply_latest_summary_checkpoint (drop (length head) messages) = Some (ms, previous)"
    "old = take (find_compaction_boundary ms (retention_percentage (load_config (se_settings env)))) ms"
    "recent = drop (find_compaction_boundary ms (retention_percentage (load_config (se_settings env)))) ms"
    "old \<noteq> []" "recent \<noteq> []"
    by (rule plan_CompactE)
  have "ms = old @ recent" by (simp add: p(3,4))
  with r p boundary_keeps_pairs [of ms "retention_percentage (load_config (se_settings env))"] show ?thesis by blast
qed

definition event_data :: "json \<Rightarrow> string \<Rightarrow> json" where
  "event_data event k = jget (dict_of (jget (dict_of event) ''data'')) k"

text \<open>The message that is to carry the summary: the first identifier there is.\<close>

definition checkpoint_ids :: "json dict \<Rightarrow> message \<Rightarrow> json list" where
  "checkpoint_ids metadata first =
     [jget first ''id'', jget metadata ''user_message_id'', jget metadata ''message_id'']"

lemma first_checkpoint_id:
  "jor (jor (jget first ''id'') (jget metadata ''user_message_id'')) (jget metadata ''message_id'') =
     (case List.find truthy (checkpoint_ids metadata first) of
        Some v \<Rightarrow> v | None \<Rightarrow> jget metadata ''message_id'')"
  by (simp add: checkpoint_ids_def jor_def)

lemma store_checkpoint_saved:
  assumes "jget metadata ''chat_id'' = JStr chat_id"
  obtains d' where "store_checkpoint e metadata first s d = Some d'"
    "\<And>i. role_is ''user'' first \<Longrightarrow> is_saved_chat_id (Some chat_id) \<Longrightarrow>
       List.find truthy (checkpoint_ids metadata first) = Some (JStr i) \<Longrightarrow>
       d' = snd (upsert_message_to_chat_by_id_and_message_id e chat_id i [(''contextSummary'', JStr s)] False d)"
    "\<not> role_is ''user'' first \<or> \<not> is_saved_chat_id (Some chat_id) \<or>
       List.find truthy (checkpoint_ids metadata first) = None \<Longrightarrow> d' = d"
proof (cases "role_is ''user'' first \<and> is_saved_chat_id (Some chat_id)")
  case True
  show ?thesis
  proof (cases "List.find truthy (checkpoint_ids metadata first)")
    case None
    then have "\<not> truthy (jget metadata ''message_id'')"
      by (simp add: checkpoint_ids_def split: if_splits)
    moreover have "jor (jor (jget first ''id'') (jget metadata ''user_message_id'')) (jget metadata ''message_id'') =
        jget metadata ''message_id''"
      using None by (simp add: first_checkpoint_id)
    ultimately have "store_checkpoint e metadata first s d = Some d"
      using True assms by (auto simp: store_checkpoint_def Let_def split: json.splits)
    then show ?thesis using that None by simp
  next
    case (Some v)
    then have "truthy v" by (auto simp: find_Some_iff)
    show ?thesis
    proof (cases "\<exists>i. v = JStr i")
      case is_str: True
      then obtain i where i: "v = JStr i" by blast
      then have "i \<noteq> []" using \<open>truthy v\<close> by simp
      then have "store_checkpoint e metadata first s d = Some (snd
          (upsert_message_to_chat_by_id_and_message_id e chat_id i [(''contextSummary'', JStr s)] False d))"
        using True assms Some i by (simp add: store_checkpoint_def Let_def first_checkpoint_id)
      then show ?thesis using that True Some i by simp
    next
      case False
      then have "store_checkpoint e metadata first s d = Some d"
        using True assms Some by (cases v) (auto simp: store_checkpoint_def Let_def first_checkpoint_id)
      then show ?thesis using that False Some by simp
    qed
  qed
next
  case False
  then have "store_checkpoint e metadata first s d = Some d"
    using assms by (cases "jor (jor (jget first ''id'') (jget metadata ''user_message_id'')) (jget metadata ''message_id'')")
      (auto simp: store_checkpoint_def Let_def)
  then show ?thesis using that False by blast
qed

lemma event_data_event [simp]:
  "event_data (compaction_event details) k = jget ((''action'', JStr ''context_compaction'') # details) k"
  by (simp add: event_data_def compaction_event_def jget_def)

text \<open>
  C36: When a request cannot be compacted, or needs no compaction, nothing is stored; a client that
  was told that the compaction began is told of its failure or its end. When it is compacted, the
  system message and a non-empty rest are kept, and the summary is stored with the message that the
  first kept message names (by its own identifier, else by that of the user message, else by that
  of the reply of the request) when that first kept message is one of the user and the chat is a
  saved one; when it is not, or nothing names a message, nothing is stored.
\<close>

theorem compaction_outcome:
  assumes "compact_messages_for_request e env messages metadata system_prompt d = (answer, events, d')"
    and "jget metadata ''chat_id'' = JStr chat_id"
  shows "(events = [] \<or> map (\<lambda>event. (event_data event ''done'', event_data event ''error'' = JBool True)) events =
       [(JBool False, False), (JBool True, answer = None)]) \<and>
    (case answer of
       Some (out, summary, True) \<Rightarrow>
         \<exists>first rest s. out = system_head messages @ first # rest \<and> summary = JStr s \<and>
           (\<forall>i. role_is ''user'' first \<and> is_saved_chat_id (Some chat_id) \<and>
              List.find truthy (checkpoint_ids metadata first) = Some (JStr i) \<longrightarrow>
              d' = snd (upsert_message_to_chat_by_id_and_message_id e chat_id i
                     [(''contextSummary'', JStr s)] False d)) \<and>
           (\<not> role_is ''user'' first \<or> \<not> is_saved_chat_id (Some chat_id) \<or>
              List.find truthy (checkpoint_ids metadata first) = None \<longrightarrow> d' = d)
     | _ \<Rightarrow> d' = d)"
proof (cases "plan_compaction env messages metadata system_prompt")
  case None
  then show ?thesis using assms(1) by (auto simp: compact_messages_for_request_def)
next
  case (Some plan)
  show ?thesis
  proof (cases plan)
    case (Unchanged ms previous)
    then show ?thesis using assms(1) Some by (auto simp: compact_messages_for_request_def)
  next
    case (Compact head old recent previous)
    note c = assms(1) [unfolded compact_messages_for_request_def Some Compact option.case compaction_plan.case Let_def]
    obtain first rest where kept: "recent = first # rest" "head = system_head messages"
      using Some Compact plan_CompactE by (metis list.exhaust)
    show ?thesis
    proof (cases "generate_summary env old recent previous")
      case None
      then show ?thesis using c by (auto simp: jget_def)
    next
      case (Some s)
      obtain d1 where d1: "store_checkpoint e metadata first s d = Some d1"
        "\<And>i. role_is ''user'' first \<Longrightarrow> is_saved_chat_id (Some chat_id) \<Longrightarrow>
           List.find truthy (checkpoint_ids metadata first) = Some (JStr i) \<Longrightarrow>
           d1 = snd (upsert_message_to_chat_by_id_and_message_id e chat_id i [(''contextSummary'', JStr s)] False d)"
        "\<not> role_is ''user'' first \<or> \<not> is_saved_chat_id (Some chat_id) \<or>
           List.find truthy (checkpoint_ids metadata first) = None \<Longrightarrow> d1 = d"
        using store_checkpoint_saved [OF assms(2)] by metis
      have r: "answer = Some (system_head messages @ first # rest, JStr s, True)" "d' = d1"
        "events = [] \<or> map (\<lambda>event. (event_data event ''done'', event_data event ''error'' = JBool True)) events =
          [(JBool False, False), (JBool True, False)]"
        using c Some d1(1) kept by (auto simp: jget_def split: if_splits)
      then show ?thesis using d1(2,3) by (auto simp: kept)
    qed
  qed
qed

subsection \<open>Checkpoints\<close>

text \<open>
  Resuming from a checkpoint drops messages before it only: what remains is the branch as it is,
  the branch from a message with a summary on, or, after a checkpoint inside a reply, at most one
  message, that reply with the end of its output, and every message after it.
\<close>

theorem checkpoint_keeps_later_messages:
  assumes "apply_latest_summary_checkpoint messages = Some (rest, summary)"
  shows "rest = messages \<and> summary = JNull \<or>
    (\<exists>k < length messages. rest = drop k messages \<and> summary = stored_summary (messages ! k) \<and> is_summary summary) \<or>
    (\<exists>c before removed items. c < length messages \<and> length before \<le> 1 \<and> output_of (messages ! c) = Some (removed @ items) \<and>
       rest = before @ AList.update ''output''
         (JList (filter (\<lambda>i. jget (dict_of i) ''type'' \<noteq> JStr ''open_webui:context_compaction'') items)) (messages ! c) # drop (Suc c) messages)"
proof -
  from checkpoint_shape [OF assms] consider "rest = messages \<and> summary = JNull"
    | "\<exists>k < length messages. rest = drop k messages \<and> summary = stored_summary (messages ! k) \<and> is_summary summary"
    | c where "cut_of messages rest c"
    by auto
  then show ?thesis
  proof cases
    case (3 c)
    moreover have "length (take (c - (c - 1)) (drop (c - 1) messages)) \<le> 1" by simp
    ultimately show ?thesis unfolding cut_of_def by blast
  qed blast+
qed

lemma stored_is_summary:
  assumes "jget m ''contextSummary'' = JStr s" "strip s \<noteq> []"
  shows "stored_summary m = JStr s" "is_summary (stored_summary m)"
proof -
  have "s \<noteq> []" using assms(2) by (auto simp: strip_def)
  then show "stored_summary m = JStr s" "is_summary (stored_summary m)"
    using assms by (simp_all add: stored_summary_def jor_def is_summary_def)
qed

text \<open>
  C27: A stored summary is found again: after it is saved with a message of a chat, the messages read
  back for any branch through that message resume there, with that summary, unless a later message of
  the branch holds a checkpoint of its own. (A message with a summary under the old name
  \<open>context_summary\<close> is excluded: its row keeps the old one.)
\<close>

theorem stored_summary_is_resumed:
  assumes "chat_reachable n no_chats d" "map_of (messages_in d i) mid = Some (JObj m0)" "jget m0 ''context_summary'' = JNull"
    and "upsert_message_to_chat_by_id_and_message_id e i mid [(''contextSummary'', JStr summary)] bump d = (Some x, d')"
    and "strip (sanitize_text_for_db summary) \<noteq> []" "map_of (messages_in d' i) s \<noteq> None"
  shows "\<exists>M branch. get_messages_map_by_chat_id e' i d' = Some (Some M, d') \<and>
    get_message_list M (JStr s) = Inr (map JObj branch) \<and> branch \<noteq> [] \<and> jget (last branch) ''id'' = JStr s \<and>
    (\<forall>before m later. branch = before @ m # later \<longrightarrow> jget m ''id'' = JStr mid \<longrightarrow> list_all no_checkpoint later \<longrightarrow>
       apply_latest_summary_checkpoint branch = Some (m # later, JStr (sanitize_text_for_db summary)))"
proof -
  let ?s = "sanitize_text_for_db summary"
  have "chats_ok n d" using reachable_keeps [OF assms(1) no_chats_ok] .
  then obtain M where M: "get_messages_map_by_chat_id e' i d' = Some (Some M, d')" "same_messages (messages_in d' i) M"
    "tree_ok (messages_in d' i)" "jget (dict_of (jget M mid)) ''contextSummary'' = JStr ?s"
    using stored_summary_read [OF _ assms(2-4)] by metis
  obtain branch where b: "get_message_list M (JStr s) = Inr (map JObj branch)" "branch \<noteq> []" "jget (last branch) ''id'' = JStr s"
    "\<And>m j. m \<in> set branch \<Longrightarrow> jget m ''id'' = JStr j \<Longrightarrow> jget M j = JObj m"
    using branch_of_view [OF M(3,2) assms(6)] by metis
  have "apply_latest_summary_checkpoint branch = Some (m # later, JStr ?s)"
    if "branch = before @ m # later" "jget m ''id'' = JStr mid" "list_all no_checkpoint later" for before m later
  proof -
    have "jget m ''contextSummary'' = JStr ?s" using b(4) [of m mid] that(1,2) M(4) by simp
    from checkpoint_found [OF stored_is_summary(2) [OF this assms(5)] that(3)] stored_is_summary(1) [OF this assms(5)] that(1)
    show ?thesis by simp
  qed
  then show ?thesis using M(1) b(1-3) by blast
qed

lemma branch_messages_read:
  assumes ok: "chats_ok n d" and c: "map_of (messages_in d i) c \<noteq> None"
  obtains ms where "branch_messages e i history (JStr c) d = (Some ms, d)"
proof -
  obtain item where item: "map_of (chats d) i = Some item"
    using c by (cases "map_of (chats d) i") (auto simp: messages_in_def)
  obtain chat where chat: "ci_chat item = JObj chat"
    using chats_ok_item(3) [OF ok item] by (auto simp: item_ok_def split: json.splits)
  have m: "messages_in d i = chat_messages chat" using item chat by (simp add: messages_in_def)
  then have "chat_messages chat \<noteq> []" using c by auto
  then obtain M where M: "get_messages_map_by_chat_id e i d = Some (Some M, d)" "same_messages (messages_in d i) M" "tree_ok (messages_in d i)"
    using read_agrees [OF ok item chat] m by metis
  obtain branch where b: "get_message_list M (JStr c) = Inr (map JObj branch)" "branch \<noteq> []"
    using branch_of_view [OF M(3,2) c] by metis
  have "M \<noteq> []" using b by (auto simp: get_message_list_def)
  then obtain y ys where "M = y # ys" by (cases M) auto
  moreover have "those (map dict (map JObj branch)) = Some branch" by (induction branch) auto
  ultimately show ?thesis using M(1) b(1) by (intro that [of branch]) (simp add: branch_messages_def)
qed

text \<open>
  C26: When a chat is compacted on request and the summary could be saved, the summary is the one that
  was generated for all messages of the branch but the last: the branch read back ends with the
  message the summary belongs to, resumes with that message alone, and a second compaction finds it
  too short.
\<close>

theorem compacted_branch_stays_compacted:
  assumes "chat_reachable n no_chats d" "chat_history item = Some (chat, history)"
    and "branch_message_id item chat history = Some (JStr c)"
    and "map_of (messages_in d i) c = Some (JObj m0)" "jget m0 ''context_summary'' = JNull"
    and "compact_chat_branch e env i item d = (Some answer, d')" "d' \<noteq> d"
  shows "\<exists>ms M branch m old kept previous s. branch_messages e i history (JStr c) d = (Some ms, d) \<and>
    apply_latest_summary_checkpoint ms = Some (old @ [kept], previous) \<and> generate_summary env old [kept] previous = Some s \<and>
    get_messages_map_by_chat_id e i d' = Some (Some M, d') \<and>
    get_message_list M (JStr c) = Inr (map JObj (branch @ [m])) \<and> jget m ''id'' = JStr c \<and>
    (strip (sanitize_text_for_db s) \<noteq> [] \<longrightarrow>
       apply_latest_summary_checkpoint (branch @ [m]) = Some ([m], JStr (sanitize_text_for_db s)) \<and>
       compact_branch_messages env' (branch @ [m]) = Some (not_compacted ''too_short'', None))"
proof -
  have ok: "chats_ok n d" using reachable_keeps [OF assms(1) no_chats_ok] .
  have "map_of (messages_in d i) c \<noteq> None" using assms(4) by simp
  then obtain ms where ms: "branch_messages e i history (JStr c) d = (Some ms, d)" using branch_messages_read [OF ok] by metis
  note run = assms(6) [unfolded compact_chat_branch_def]
  have "enable (load_config (se_settings env))" using run assms(7) by (auto split: if_splits)
  then obtain s where s: "compact_branch_messages env ms = Some (answer, Some s)"
    "d' = snd (upsert_message_to_chat_by_id_and_message_id e i c [(''contextSummary'', JStr s)] False d)"
    using run assms(2,3,7) ms by (auto split: if_splits option.splits)
  from s(1) obtain ms' previous where a: "apply_latest_summary_checkpoint ms = Some (ms', previous)" "butlast ms' \<noteq> []"
    "generate_summary env (butlast ms') [last ms'] previous = Some s"
    by (auto simp: compact_branch_messages_def bind_eq_Some_conv split: if_splits)
  then have "ms' = butlast ms' @ [last ms']" by (metis append_butlast_last_id butlast.simps(1))
  with a have gen: "apply_latest_summary_checkpoint ms = Some (butlast ms' @ [last ms'], previous)"
    "generate_summary env (butlast ms') [last ms'] previous = Some s" by simp_all
  obtain x where run': "upsert_message_to_chat_by_id_and_message_id e i c [(''contextSummary'', JStr s)] False d = (Some x, d')"
    using s(2) assms(7) by (auto simp: save_unfold chat_transaction_def split: option.splits)
  obtain M where M: "get_messages_map_by_chat_id e i d' = Some (Some M, d')" "same_messages (messages_in d' i) M"
    "tree_ok (messages_in d' i)" "fst ` set (messages_in d i) \<subseteq> fst ` set (messages_in d' i)"
    "jget (dict_of (jget M c)) ''contextSummary'' = JStr (sanitize_text_for_db s)"
    using stored_summary_read [OF ok assms(4,5) run'] by metis
  have "map_of (messages_in d' i) c \<noteq> None" using M(4) keys_map_of [OF assms(4)] by (auto simp: map_of_eq_None_iff)
  then obtain b where b: "get_message_list M (JStr c) = Inr (map JObj b)" "b \<noteq> []" "jget (last b) ''id'' = JStr c"
    "\<And>m j. m \<in> set b \<Longrightarrow> jget m ''id'' = JStr j \<Longrightarrow> jget M j = JObj m"
    using branch_of_view [OF M(3,2)] by metis
  have bl: "b = butlast b @ [last b]" using b(2) by simp
  have "jget (last b) ''contextSummary'' = JStr (sanitize_text_for_db s)" using b(4) [OF last_in_set [OF b(2)] b(3)] M(5) by simp
  note found = stored_is_summary [OF this]
  have "apply_latest_summary_checkpoint (butlast b @ [last b]) = Some ([last b], JStr (sanitize_text_for_db s))"
    if "strip (sanitize_text_for_db s) \<noteq> []"
    using checkpoint_found [OF found(2) [OF that], of "[]" "butlast b"] found(1) [OF that] by simp
  then have "strip (sanitize_text_for_db s) \<noteq> [] \<longrightarrow>
      apply_latest_summary_checkpoint (butlast b @ [last b]) = Some ([last b], JStr (sanitize_text_for_db s)) \<and>
      compact_branch_messages env' (butlast b @ [last b]) = Some (not_compacted ''too_short'', None)"
    by (simp add: compact_branch_messages_def)
  then show ?thesis using ms gen M(1) b(1,3) bl by metis
qed

subsection \<open>On a sample\<close>

text \<open>Settings that compact early, and a language model that always answers the same.\<close>

definition sample_summary_env :: summary_env where
  "sample_summary_env = \<lparr>se_dumps = (\<lambda>v. ''{}''), se_dumps_ascii = (\<lambda>v. ''{}''),
     se_prompt = (\<lambda>template question old recent previous. Some template),
     se_complete = (\<lambda>model params prompt. Some (JObj [(''choices'',
       JList [JObj [(''message'', JObj [(''content'', JStr '' so far '')])]])])),
     se_settings = [(''chat.context_compaction.enable'', JBool True), (''chat.context_compaction.token_threshold'', JInt 5)],
     se_direct = None, se_models = [(''m'', JObj [])], se_model_id = ''m''\<rparr>"

definition sample_call :: "string \<Rightarrow> message" where
  "sample_call i = [(''role'', JStr ''assistant''), (''tool_calls'', JList [JObj [(''id'', JStr i)]])]"

definition sample_result :: "string \<Rightarrow> message" where
  "sample_result i = [(''role'', JStr ''tool''), (''tool_call_id'', JStr i), (''content'', JStr ''done'')]"

definition sample_text :: "string \<Rightarrow> string \<Rightarrow> message" where
  "sample_text role content = [(''role'', JStr role), (''content'', JStr content)]"

definition sample_tool_messages :: "message list" where
  "sample_tool_messages =
     [sample_text ''user'' ''one'', sample_call ''x'', sample_result ''x'', sample_text ''assistant'' ''two'',
      sample_text ''user'' ''three'', sample_call ''y'', sample_result ''y'', sample_text ''assistant'' ''four'']"

definition sample_system :: message where
  "sample_system = sample_text ''system'' ''be brief''"

definition sample_metadata :: "json dict" where
  "sample_metadata = [(''chat_id'', JStr ''c''), (''message_id'', JStr ''a'')]"

text \<open>A request whose second turn is the question of the sample chat.\<close>

definition sample_turns_request :: "message list" where
  "sample_turns_request =
     [sample_text ''user'' ''one'', sample_text ''assistant'' ''two'',
      AList.update ''id'' (JStr ''q'') (sample_text ''user'' ''hi''), sample_text ''assistant'' ''four'']"

theorem compaction_boundary_exact_witness:
  "find_compaction_boundary sample_tool_messages 40 = 5 \<and> calls_tools (sample_tool_messages ! 5) \<and>
    (\<exists>j < 5. calls_tools (sample_tool_messages ! j))"
proof -
  have "find_compaction_boundary sample_tool_messages 40 = 5" "list_ex (role_is ''tool'') sample_tool_messages" by code_simp+
  with compaction_boundary_exact [of sample_tool_messages 40] show ?thesis by auto
qed

theorem compaction_keeps_tool_pairs_witness:
  "\<exists>old. sample_tool_messages = old @ drop 5 sample_tool_messages \<and> old \<noteq> [] \<and> well_paired old \<and>
    well_paired (drop 5 sample_tool_messages)"
proof -
  let ?r = "compact_messages_for_request sample_env sample_summary_env (sample_system # sample_tool_messages) sample_metadata [] sample_asked"
  have r: "?r = (Some (sample_system # drop 5 sample_tool_messages, JStr ''so far'', True), fst (snd ?r), snd (snd ?r))" by code_simp
  have "apply_latest_summary_checkpoint (drop (length (system_head (sample_system # sample_tool_messages))) (sample_system # sample_tool_messages)) =
      Some (sample_tool_messages, JNull)" "system_head (sample_system # sample_tool_messages) = [sample_system]" by code_simp+
  moreover have "well_paired sample_tool_messages"
    by (simp add: sample_tool_messages_def sample_call_def sample_result_def sample_text_def well_paired.simps(2) calls_tools_def
        role_is_def call_ids_of_def result_id_def jget_def)
  ultimately show ?thesis using compaction_keeps_tool_pairs [OF r] by auto
qed

theorem compaction_outcome_witness:
  "\<exists>out events d'. compact_messages_for_request sample_env sample_summary_env sample_turns_request sample_metadata [] sample_asked =
      (Some (out, JStr ''so far'', True), events, d') \<and>
    d' = snd (upsert_message_to_chat_by_id_and_message_id sample_env (key (jget sample_metadata ''chat_id''))
      ''q'' [(''contextSummary'', JStr ''so far'')] False sample_asked) \<and>
    map mr_context_summary (rows d') = [JStr ''so far'', JNull] \<and>
    map (\<lambda>event. (event_data event ''done'', event_data event ''error'' = JBool True)) events = [(JBool False, False), (JBool True, False)]"
proof -
  let ?r = "compact_messages_for_request sample_env sample_summary_env sample_turns_request sample_metadata [] sample_asked"
  obtain out events d' where r: "?r = (Some (out, JStr ''so far'', True), events, d')"
    "hd (drop (length (system_head sample_turns_request)) out) =
       AList.update ''id'' (JStr ''q'') (sample_text ''user'' ''hi'')" "events \<noteq> []"
  proof -
    have "map_option snd (fst ?r) = Some (JStr ''so far'', True)" "fst (snd ?r) \<noteq> []"
      "map_option (\<lambda>x. hd (drop (length (system_head sample_turns_request)) (fst x))) (fst ?r) =
         Some (AList.update ''id'' (JStr ''q'') (sample_text ''user'' ''hi''))"
      by code_simp+
    then show ?thesis using that by (cases ?r) auto
  qed
  have chat: "jget sample_metadata ''chat_id'' = JStr (key (jget sample_metadata ''chat_id''))"
    "is_saved_chat_id (Some (key (jget sample_metadata ''chat_id'')))"
    "List.find truthy (checkpoint_ids sample_metadata (AList.update ''id'' (JStr ''q'') (sample_text ''user'' ''hi''))) =
       Some (JStr ''q'')"
    "role_is ''user'' (AList.update ''id'' (JStr ''q'') (sample_text ''user'' ''hi''))"
    by code_simp+
  note outcome = compaction_outcome [OF r(1) chat(1)]
  from outcome r(2) chat have d': "d' = snd (upsert_message_to_chat_by_id_and_message_id sample_env
      (key (jget sample_metadata ''chat_id'')) ''q'' [(''contextSummary'', JStr ''so far'')] False sample_asked)"
    by auto
  moreover have "map mr_context_summary (rows (snd (upsert_message_to_chat_by_id_and_message_id sample_env
      (key (jget sample_metadata ''chat_id'')) ''q'' [(''contextSummary'', JStr ''so far'')] False sample_asked))) =
      [JStr ''so far'', JNull]"
    by code_simp
  ultimately show ?thesis using r outcome by auto
qed

text \<open>A reply that called two tools, compacted between them.\<close>

definition sample_reply_output :: "json list" where
  "sample_reply_output =
     [JObj [(''type'', JStr ''function_call''), (''call_id'', JStr ''x'')], JObj [(''type'', JStr ''function_call_output'')],
      JObj [(''type'', JStr ''open_webui:context_compaction''), (''call_id'', JStr ''y''), (''summary'', JStr ''so far'')],
      JObj [(''type'', JStr ''function_call''), (''call_id'', JStr ''y'')]]"

definition sample_reply_branch :: "message list" where
  "sample_reply_branch = [sample_text ''user'' ''zero'', sample_text ''user'' ''one'',
     [(''role'', JStr ''assistant''), (''output'', JList sample_reply_output)], sample_text ''user'' ''two'']"

theorem checkpoint_keeps_later_messages_witness:
  "\<exists>c before. c < length sample_reply_branch \<and> length before \<le> 1 \<and>
    map_option fst (apply_latest_summary_checkpoint sample_reply_branch) =
      Some (before @ [(''role'', JStr ''assistant''), (''output'', JList (drop 3 sample_reply_output))] # drop (Suc c) sample_reply_branch)"
proof -
  let ?r = "[sample_text ''user'' ''one'', [(''role'', JStr ''assistant''), (''output'', JList (drop 3 sample_reply_output))],
    sample_text ''user'' ''two'']"
  have a: "apply_latest_summary_checkpoint sample_reply_branch = Some (?r, JStr ''so far'')" by code_simp
  have l: "length sample_reply_branch = 4" by code_simp
  have s: "\<not> is_summary (stored_summary (sample_reply_branch ! k))" if "k < 4" for k
  proof -
    have "list_all (\<lambda>m. \<not> is_summary (stored_summary m)) sample_reply_branch" by code_simp
    then show ?thesis using that l by (simp add: list_all_length)
  qed
  from checkpoint_keeps_later_messages [OF a] l s obtain c before removed items where
    "c < length sample_reply_branch" "length before \<le> 1"
    "?r = before @ AList.update ''output'' (JList items) (sample_reply_branch ! c) # drop (Suc c) sample_reply_branch"
    by auto
  moreover from this l have "c = 2"
  proof -
    have "length ?r = length before + 1 + (4 - Suc c)" using calculation(3) l by simp
    then have "c = 1 + length before" using calculation(1) l by simp
    moreover have "before = [] \<Longrightarrow> c = 1 \<Longrightarrow> False"
      using \<open>?r = _\<close> by (simp add: sample_reply_branch_def sample_text_def)
    ultimately show ?thesis using \<open>length before \<le> 1\<close> by (cases before) auto
  qed
  ultimately show ?thesis using a
    by (intro exI [of _ c] exI [of _ before]) (auto simp: sample_reply_branch_def)
qed

abbreviation sample_saved :: "chat_item option \<times> chat_db" where
  "sample_saved \<equiv> upsert_message_to_chat_by_id_and_message_id sample_env ''c'' ''a'' [(''contextSummary'', JStr ''so far'')] False sample_asked"

theorem stored_summary_is_resumed_witness:
  "\<exists>M branch. get_messages_map_by_chat_id sample_env ''c'' (snd sample_saved) = Some (Some M, snd sample_saved) \<and>
    get_message_list M (JStr ''a'') = Inr (map JObj branch) \<and> branch \<noteq> [] \<and>
    apply_latest_summary_checkpoint branch = Some ([last branch], JStr ''so far'')"
proof -
  have s: "sanitize_text_for_db ''so far'' = ''so far''" "strip (sanitize_text_for_db ''so far'') \<noteq> []" by code_simp+
  have "sample_saved = (Some (the (fst sample_saved)), snd sample_saved)" "jget sample_reply ''context_summary'' = JNull"
    "map_of (messages_in (snd sample_saved) ''c'') ''a'' \<noteq> None" by code_simp+
  from stored_summary_is_resumed [OF sample_reachable sample_reply this(2,1) s(2) this(3), of sample_env]
  obtain M branch where b: "get_messages_map_by_chat_id sample_env ''c'' (snd sample_saved) = Some (Some M, snd sample_saved)"
    "get_message_list M (JStr ''a'') = Inr (map JObj branch)" "branch \<noteq> []" "jget (last branch) ''id'' = JStr ''a''"
    "\<forall>before m later. branch = before @ m # later \<longrightarrow> jget m ''id'' = JStr ''a'' \<longrightarrow> list_all no_checkpoint later \<longrightarrow>
       apply_latest_summary_checkpoint branch = Some (m # later, JStr ''so far'')"
    unfolding s(1) by blast
  then have "apply_latest_summary_checkpoint branch = Some ([last branch], JStr ''so far'')"
    using append_butlast_last_id [OF b(3)] by (metis list.pred_inject(1))
  with b(1-3) show ?thesis by blast
qed

lemma sample_summary:
  assumes "generate_summary sample_summary_env old recent previous = Some s" shows "s = ''so far''"
proof -
  let ?r = "JObj [(''choices'', JList [JObj [(''message'', JObj [(''content'', JStr '' so far '')])]])]"
  have "response_text ?r = Some (JStr '' so far '')" "strip '' so far '' = ''so far''" by code_simp+
  then have "summary_of ?r previous c = Some ''so far''" for c by (simp add: summary_of_def str_of_def)
  then show ?thesis
    using assms by (auto simp: generate_summary_def Let_def bind_eq_Some_conv) (simp add: sample_summary_env_def)
qed

theorem compacted_branch_stays_compacted_witness:
  "\<exists>M branch m. get_messages_map_by_chat_id sample_env ''c'' (snd (compact_chat_branch sample_env sample_summary_env ''c'' sample_item sample_asked)) =
      Some (Some M, snd (compact_chat_branch sample_env sample_summary_env ''c'' sample_item sample_asked)) \<and>
    get_message_list M (JStr ''a'') = Inr (map JObj (branch @ [m])) \<and>
    apply_latest_summary_checkpoint (branch @ [m]) = Some ([m], JStr ''so far'') \<and>
    compact_branch_messages sample_summary_env (branch @ [m]) = Some (not_compacted ''too_short'', None)"
proof -
  let ?r = "compact_chat_branch sample_env sample_summary_env ''c'' sample_item sample_asked"
  let ?h = "the (chat_history sample_item)"
  have r: "?r = (Some (the (fst ?r)), snd ?r)" by code_simp
  have h: "chat_history sample_item = Some (fst ?h, snd ?h)" "branch_message_id sample_item (fst ?h) (snd ?h) = Some (JStr ''a'')"
    "jget sample_reply ''context_summary'' = JNull" by code_simp+
  have "map mr_context_summary (rows (snd ?r)) = [JNull, JStr ''so far'']"
    "map mr_context_summary (rows sample_asked) = [JNull, JNull]" by code_simp+
  then have "snd ?r \<noteq> sample_asked" by auto
  from compacted_branch_stays_compacted [OF sample_reachable h(1,2) sample_reply h(3) r this, where env' = sample_summary_env]
  obtain M branch m old stay previous s where b: "generate_summary sample_summary_env old [stay] previous = Some s"
    "get_messages_map_by_chat_id sample_env ''c'' (snd ?r) = Some (Some M, snd ?r)"
    "get_message_list M (JStr ''a'') = Inr (map JObj (branch @ [m]))"
    "strip (sanitize_text_for_db s) \<noteq> [] \<longrightarrow>
       apply_latest_summary_checkpoint (branch @ [m]) = Some ([m], JStr (sanitize_text_for_db s)) \<and>
       compact_branch_messages sample_summary_env (branch @ [m]) = Some (not_compacted ''too_short'', None)"
    by blast
  moreover have "sanitize_text_for_db ''so far'' = ''so far''" "strip ''so far'' \<noteq> []" by code_simp+
  ultimately show ?thesis using sample_summary [OF b(1)] by auto
qed

text \<open>A summary under the old name in the history hides a new one: the row keeps the old.\<close>

abbreviation sample_old_summary :: chat_db where
  "sample_old_summary \<equiv> snd (upsert_message_to_chat_by_id_and_message_id sample_env ''c'' ''a''
     [(''context_summary'', JStr ''old'')] False sample_asked)"

theorem old_summary_hides_new:
  "map mr_context_summary (rows (snd (upsert_message_to_chat_by_id_and_message_id sample_env ''c'' ''a''
      [(''contextSummary'', JStr ''new'')] False sample_old_summary))) = [JNull, JStr ''old'']"
  by code_simp

end
